(* ===== verification/Prelude.thy ===== *)
theory Prelude
  imports Main "HOL-Library.Word" "HOL-Library.Monad_Syntax"
begin

text \<open>
  Shared vocabulary of the development: the machine integer types of the code, the
  bit-set reading of a priority mask, and the search loop
  \<^verbatim>\<open>for (i = 0; i < N; i++) if (P(a[i])) break;\<close> that the kernel and the network
  layers use on every one of their tables.
\<close>

unbundle bit_operations_syntax

type_synonym u8 = "8 word"
type_synonym u16 = "16 word"
type_synonym u32 = "32 word"
type_synonym u64 = "64 word"

named_theorems codes "return codes and configuration constants, unfolded on demand"
named_theorems upd_simps "field access after an update, for the state accessors"

section \<open>Words as bit sets\<close>

definition popcount :: "u32 \<Rightarrow> nat" where
  "popcount w = card {i. bit w i}"

lemma bit_less_32: "bit (w :: u32) i \<Longrightarrow> i < 32"
  using bit_imp_le_length [of w i] by simp

lemma finite_bits [simp]: "finite {i. bit (w :: u32) i}"
  by (rule finite_subset [of _ "{..<32}"]) (auto dest: bit_less_32)

lemma popcount_le: "popcount w \<le> 32"
proof -
  have "card {i. bit w i} \<le> card {..<32::nat}"
    by (rule card_mono) (auto dest: bit_less_32)
  then show ?thesis by (simp add: popcount_def)
qed

lemma popcount_zero [simp]: "popcount 0 = 0"
  by (simp add: popcount_def)

lemma popcount_eq_0: "popcount w = 0 \<longleftrightarrow> w = 0"
proof
  assume "popcount w = 0"
  then have "{i. bit w i} = {}" by (simp add: popcount_def)
  then show "w = 0" by (intro bit_word_eqI) auto
qed simp

lemma bit_pow2: "bit (2 ^ p :: u32) q \<longleftrightarrow> p = q \<and> q < 32"
  by (auto simp: bit_exp_iff possible_bit_word)

lemma bit_or_pow2: "p < 32 \<Longrightarrow> bit (w OR 2 ^ p :: u32) q \<longleftrightarrow> bit w q \<or> p = q"
  by (auto simp: bit_or_iff bit_pow2)

lemma bit_clear_pow2: "bit (w AND NOT (2 ^ p) :: u32) q \<longleftrightarrow> bit w q \<and> p \<noteq> q"
  using bit_less_32 [of w q] by (auto simp: bit_and_iff bit_not_iff bit_pow2)

lemma popcount_or: "p < 32 \<Longrightarrow> \<not> bit w p \<Longrightarrow> popcount (w OR 2 ^ p) = Suc (popcount w)"
proof -
  assume "p < 32" and "\<not> bit w p"
  then have "{i. bit (w OR 2 ^ p) i} = insert p {i. bit w i}"
    by (auto simp: bit_or_pow2)
  with \<open>\<not> bit w p\<close> show ?thesis by (simp add: popcount_def)
qed

lemma popcount_clear: "bit w p \<Longrightarrow> Suc (popcount (w AND NOT (2 ^ p))) = popcount w"
proof -
  assume "bit w p"
  have "{i. bit (w AND NOT (2 ^ p)) i} = {i. bit w i} - {p}"
    by (auto simp: bit_clear_pow2)
  moreover have "card ({i. bit w i} - {p}) = card {i. bit w i} - 1"
    using \<open>bit w p\<close> by simp
  moreover have "card {i. bit w i} > 0"
    using \<open>bit w p\<close> by (auto simp: card_gt_0_iff)
  ultimately show ?thesis by (simp add: popcount_def)
qed

lemma word_and_pow2_eq_0: "p < 32 \<Longrightarrow> (w :: u32) AND 2 ^ p = 0 \<longleftrightarrow> \<not> bit w p"
proof
  assume "p < 32" and "w AND 2 ^ p = 0"
  then have "\<not> bit (w AND 2 ^ p) p" by simp
  with \<open>p < 32\<close> show "\<not> bit w p" by (simp add: bit_and_iff bit_pow2)
next
  assume "p < 32" and "\<not> bit w p"
  then show "w AND 2 ^ p = 0"
    by (intro bit_word_eqI) (auto simp: bit_and_iff bit_pow2)
qed

section \<open>Counters that do not wrap\<close>

lemma unat_add_of_nat:
  "unat (x :: 'a::len word) + n < 2 ^ LENGTH('a) \<Longrightarrow> unat (x + of_nat n) = unat x + n"
  by (simp add: unat_word_ariths(1) unat_of_nat)

lemma unat_add_1: "unat (x :: 'a::len word) + 1 < 2 ^ LENGTH('a) \<Longrightarrow> unat (x + 1) = unat x + 1"
  using unat_add_of_nat [of x 1] by simp

lemma unat_ucast_mod: "unat (ucast (x :: 'a::len word) :: 'b::len word) = unat x mod 2 ^ LENGTH('b)"
  by (simp add: unsigned_ucast_eq take_bit_eq_mod)

lemma unat_ucast_up:
  "LENGTH('a) \<le> LENGTH('b) \<Longrightarrow> unat (ucast (x :: 'a::len word) :: 'b::len word) = unat x"
proof -
  assume "LENGTH('a) \<le> LENGTH('b)"
  then have "(2 :: nat) ^ LENGTH('a) \<le> 2 ^ LENGTH('b)"
    by (rule power_increasing) simp
  with unsigned_less [of x] have "unat x < 2 ^ LENGTH('b)"
    by (rule less_le_trans)
  then show ?thesis
    by (simp add: unat_ucast_mod)
qed

lemma ucast_of_nat: "ucast (x :: 'a::len word) = (of_nat (unat x) :: 'b::len word)"
  by (simp add: word_unat_eq_iff unat_ucast_mod unat_of_nat del: of_nat_unat)

lemma unat_and_mask: "unat ((x :: 'a::len word) AND mask n) = unat x mod 2 ^ n"
  by (simp only: take_bit_eq_mask [symmetric] unsigned_take_bit_eq) (simp only: take_bit_eq_mod)

lemma u8_Suc: "unat (x :: u8) < 255 \<Longrightarrow> unat (x + 1) = Suc (unat x)"
  using unat_add_1 [of x] by simp

lemma u16_Suc: "unat (x :: u16) < 65535 \<Longrightarrow> unat (x + 1) = Suc (unat x)"
  using unat_add_1 [of x] by simp

lemmas unat_ariths = unat_word_ariths unat_ucast_mod unat_div unat_mod

section \<open>Lists\<close>

lemma nth_upd: "xs[i := y] ! j = (if i = j \<and> i < length xs then y else xs ! j)"
  by (cases "i < length xs") (auto simp: nth_list_update not_less list_update_beyond)

lemma map_upd_same: "f y = f (xs ! t) \<Longrightarrow> map f (xs[t := y]) = map f xs"
  by (rule nth_equalityI) (auto simp: nth_upd)

section \<open>The linear search loop\<close>

text \<open>The index at which the loop stops: the first hit, or the length of the table.\<close>

fun first_idx :: "('a \<Rightarrow> bool) \<Rightarrow> 'a list \<Rightarrow> nat" where
  "first_idx P [] = 0"
| "first_idx P (x # xs) = (if P x then 0 else Suc (first_idx P xs))"

lemma first_idx_le: "first_idx P xs \<le> length xs"
  by (induction xs) auto

lemma first_idx_hit: "first_idx P xs < length xs \<Longrightarrow> P (xs ! first_idx P xs)"
  by (induction xs) auto

lemma first_idx_min: "i < first_idx P xs \<Longrightarrow> \<not> P (xs ! i)"
  by (induction xs arbitrary: i) (auto simp: nth_Cons split: if_splits nat.splits)

lemma first_idx_miss: "first_idx P xs = length xs \<longleftrightarrow> (\<forall>x \<in> set xs. \<not> P x)"
  by (induction xs) auto

lemma first_idx_less: "first_idx P xs < length xs \<longleftrightarrow> (\<exists>x \<in> set xs. P x)"
  by (induction xs) auto

lemma first_idx_key: "first_idx (\<lambda>x. f x = a) xs < length xs \<longleftrightarrow> a \<in> f ` set xs"
  by (induction xs) auto

lemma first_idx_eqI:
  "i < length xs \<Longrightarrow> P (xs ! i) \<Longrightarrow> (\<And>j. j < i \<Longrightarrow> \<not> P (xs ! j)) \<Longrightarrow> first_idx P xs = i"
proof (induction xs arbitrary: i)
  case Nil
  then show ?case by simp
next
  case (Cons x xs)
  show ?case
  proof (cases i)
    case 0
    with Cons.prems show ?thesis by simp
  next
    case (Suc k)
    have "\<not> P x" using Cons.prems(3) [of 0] Suc by simp
    moreover have "first_idx P xs = k"
      using Cons.prems Suc by (intro Cons.IH) (force dest: Cons.prems(3) [of "Suc j" for j])+
    ultimately show ?thesis using Suc by simp
  qed
qed

end
