(* ===== verification/Scheduler.thy ===== *)
theory Scheduler
  imports Prelude
begin

text \<open>
  The priority tables of BRTOS (\<^verbatim>\<open>brtos/BRTOS.c\<close>): \<open>PriorityMask\<close>, the one-hot masks
  of the 32 priorities (NUMBER\_OF\_PRIORITIES is 31, so \<open>PriorityType\<close> is a 32-bit word
  and the 32-way branch of every \<^verbatim>\<open>#if\<close> is compiled), and \<open>SAScheduler\<close>, the successive
  approximation search for the highest priority of a ready or wait list.  The main result
  is that the search returns the index of the most significant set bit.
\<close>

section \<open>The masks and the search\<close>

definition PriorityMask :: "u32 list" where
  "PriorityMask =
     [0x01, 0x02, 0x04, 0x08, 0x10, 0x20, 0x40, 0x80,
      0x0100, 0x0200, 0x0400, 0x0800, 0x1000, 0x2000, 0x4000, 0x8000,
      0x010000, 0x020000, 0x040000, 0x080000, 0x100000, 0x200000, 0x400000, 0x800000,
      0x01000000, 0x02000000, 0x04000000, 0x08000000,
      0x10000000, 0x20000000, 0x40000000, 0x80000000]"

text \<open>The branch for lists with a priority above 15.\<close>

definition SAScheduler_high :: "u32 \<Rightarrow> nat" where
  "SAScheduler_high w =
    (if w > 0xFFFFFF
     then (if w > 0xFFFFFFF
           then (if w > 0x3FFFFFFF
                 then (if w > 0x7FFFFFFF then 31 else 30)
                 else (if w > 0x1FFFFFFF then 29 else 28))
           else (if w > 0x3FFFFFF
                 then (if w > 0x7FFFFFF then 27 else 26)
                 else (if w > 0x1FFFFFF then 25 else 24)))
     else (if w > 0xFFFFF
           then (if w > 0x3FFFFF
                 then (if w > 0x7FFFFF then 23 else 22)
                 else (if w > 0x1FFFFF then 21 else 20))
           else (if w > 0x3FFFF
                 then (if w > 0x7FFFF then 19 else 18)
                 else (if w > 0x1FFFF then 17 else 16))))"

text \<open>The branch for lists whose priorities are all at most 15.\<close>

definition SAScheduler_low :: "u32 \<Rightarrow> nat" where
  "SAScheduler_low w =
    (if w > 0xFF
     then (if w > 0xFFF
           then (if w > 0x3FFF
                 then (if w > 0x7FFF then 15 else 14)
                 else (if w > 0x1FFF then 13 else 12))
           else (if w > 0x3FF
                 then (if w > 0x7FF then 11 else 10)
                 else (if w > 0x1FF then 9 else 8)))
     else (if w > 0x0F
           then (if w > 0x3F
                 then (if w > 0x7F then 7 else 6)
                 else (if w > 0x1F then 5 else 4))
           else (if w > 0x03
                 then (if w > 0x07 then 3 else 2)
                 else (if w > 0x1 then 1 else 0))))"

definition SAScheduler :: "u32 \<Rightarrow> nat" where
  "SAScheduler w = (if w > 0xFFFF then SAScheduler_high w else SAScheduler_low w)"

section \<open>Correctness\<close>

lemma length_PriorityMask [simp]: "length PriorityMask = 32"
  by (simp add: PriorityMask_def)

lemma PriorityMask_nth [simp]: "p < 32 \<Longrightarrow> PriorityMask ! p = 2 ^ p"
proof -
  have "list_all (\<lambda>p. PriorityMask ! p = 2 ^ p) [0..<32]"
    by (simp add: PriorityMask_def upt_rec)
  then show "p < 32 \<Longrightarrow> PriorityMask ! p = 2 ^ p"
    by (simp add: list_all_iff)
qed

lemma unat_u32_less: "unat (w :: u32) < 4294967296"
  using unsigned_less [of w, where 'a = nat] by simp

text \<open>Each leaf is reached only by the words of one binade.\<close>

lemma SAScheduler_high_range:
  "w > 0xFFFF \<Longrightarrow> 2 ^ SAScheduler_high w \<le> unat w \<and> unat w < 2 ^ Suc (SAScheduler_high w)"
  using unat_u32_less [of w] unfolding SAScheduler_high_def word_less_nat_alt
  by (simp split: if_split)

lemma SAScheduler_low_range:
  "w \<noteq> 0 \<Longrightarrow> \<not> w > 0xFFFF \<Longrightarrow>
     2 ^ SAScheduler_low w \<le> unat w \<and> unat w < 2 ^ Suc (SAScheduler_low w)"
  unfolding SAScheduler_low_def word_less_nat_alt
  by (simp add: unat_gt_0 [symmetric] split: if_split)

lemma SAScheduler_range:
  "w \<noteq> 0 \<Longrightarrow> 2 ^ SAScheduler w \<le> unat w \<and> unat w < 2 ^ Suc (SAScheduler w)"
  using SAScheduler_high_range [of w] SAScheduler_low_range [of w]
  by (simp add: SAScheduler_def)

lemma bit_unat: "bit w q \<longleftrightarrow> odd (unat (w :: u32) div 2 ^ q)"
  using bit_unsigned_iff [where ?'a = nat, of w q] bit_imp_le_length [of w q]
  by (auto simp: bit_iff_odd)

lemma SAScheduler_bit: "w \<noteq> 0 \<Longrightarrow> bit w (SAScheduler w)"
proof -
  assume "w \<noteq> 0"
  then have "unat w div 2 ^ SAScheduler w = 1"
    using SAScheduler_range [of w] by (intro div_nat_eqI) simp_all
  then show ?thesis by (simp add: bit_unat)
qed

lemma SAScheduler_max: "bit w q \<Longrightarrow> q \<le> SAScheduler w"
proof (rule ccontr)
  assume b: "bit w q" and "\<not> q \<le> SAScheduler w"
  then have "(2::nat) ^ Suc (SAScheduler w) \<le> 2 ^ q"
    by (intro power_increasing) simp_all
  moreover from b have "w \<noteq> 0" by auto
  ultimately have "unat w < 2 ^ q"
    using SAScheduler_range [of w] by linarith
  then have "unat w div 2 ^ q = 0" by simp
  with b show False by (simp add: bit_unat)
qed

lemma SAScheduler_zero [simp]: "SAScheduler 0 = 0"
  by (simp add: SAScheduler_def SAScheduler_low_def)

lemma SAScheduler_less: "SAScheduler w < 32"
  using SAScheduler_bit [of w] bit_less_32 [of w "SAScheduler w"] by (cases "w = 0") auto

lemma SAScheduler_eqI:
  "bit w p \<Longrightarrow> (\<And>q. bit w q \<Longrightarrow> q \<le> p) \<Longrightarrow> SAScheduler w = p"
  using SAScheduler_max [of w p] SAScheduler_bit [of w] by (cases "w = 0") (auto intro: antisym)

text \<open>
  The search is correct on every non-empty list: the priority it returns is in the
  list, no priority of the list is higher, and \<open>PriorityMask\<close> at that index is the mask
  which isolates it.
\<close>

theorem SAScheduler_highest:
  assumes "w \<noteq> 0"
  shows "bit w (SAScheduler w) \<and> (\<forall>q. bit w q \<longrightarrow> q \<le> SAScheduler w) \<and>
         w AND (PriorityMask ! SAScheduler w) = PriorityMask ! SAScheduler w"
proof -
  have "w AND 2 ^ SAScheduler w = 2 ^ SAScheduler w"
    using SAScheduler_bit [OF assms]
    by (intro bit_word_eqI) (auto simp: bit_and_iff bit_pow2)
  then show ?thesis
    using assms by (simp add: SAScheduler_bit SAScheduler_max SAScheduler_less)
qed

theorem SAScheduler_highest_witness:
  "bit (0x400A1 :: u32) 18 \<and> SAScheduler 0x400A1 = 18"
  using SAScheduler_highest [of "0x400A1"]
  by (simp add: SAScheduler_def SAScheduler_high_def)

end
