(* ===== verification/Kernel_State.thy ===== *)
theory Kernel_State
  imports Scheduler
begin

text \<open>
  The data of the BRTOS kernel: task control blocks, the four kinds of event control block
  and the kernel's global variables (\<^verbatim>\<open>brtos/includes/BRTOS.h\<close>, \<^verbatim>\<open>brtos/BRTOS.c\<close>), with the
  return codes and the scheduler's entry points.  A pointer to an element of a static table
  is its index and the NULL pointer is \<open>None\<close>; \<open>ostick_t\<close> is \<open>uint64_t\<close> as
  \<^verbatim>\<open>config/BRTOSConfig.h\<close> sets it.  Task numbers and priorities are never computed with, so
  they are natural numbers; every counter that can wrap keeps its width.
\<close>

section \<open>Return codes and configuration\<close>

abbreviation (input) OK :: u8 where "OK \<equiv> 0"
abbreviation (input) NO_MEMORY :: u8 where "NO_MEMORY \<equiv> 1"
abbreviation (input) STACK_SIZE_TOO_SMALL :: u8 where "STACK_SIZE_TOO_SMALL \<equiv> 2"
abbreviation (input) END_OF_AVAILABLE_PRIORITIES :: u8 where "END_OF_AVAILABLE_PRIORITIES \<equiv> 3"
abbreviation (input) BUSY_PRIORITY :: u8 where "BUSY_PRIORITY \<equiv> 4"
abbreviation (input) INVALID_TIME :: u8 where "INVALID_TIME \<equiv> 5"
abbreviation (input) TIMEOUT :: u8 where "TIMEOUT \<equiv> 6"
abbreviation (input) CANNOT_ASSIGN_IDLE_TASK_PRIO :: u8 where "CANNOT_ASSIGN_IDLE_TASK_PRIO \<equiv> 7"
abbreviation (input) NOT_VALID_TASK :: u8 where "NOT_VALID_TASK \<equiv> 8"
abbreviation (input) NO_TASK_DELAY :: u8 where "NO_TASK_DELAY \<equiv> 9"
abbreviation (input) END_OF_AVAILABLE_TCB :: u8 where "END_OF_AVAILABLE_TCB \<equiv> 10"
abbreviation (input) EXIT_BY_NO_ENTRY_AVAILABLE :: u8 where "EXIT_BY_NO_ENTRY_AVAILABLE \<equiv> 11"
abbreviation (input) EXIT_BY_NO_RESOURCE_AVAILABLE :: u8 where "EXIT_BY_NO_RESOURCE_AVAILABLE \<equiv> 14"

abbreviation (input) ALLOC_EVENT_OK :: u8 where "ALLOC_EVENT_OK \<equiv> 0"
abbreviation (input) NO_AVAILABLE_EVENT :: u8 where "NO_AVAILABLE_EVENT \<equiv> 1"
abbreviation (input) IRQ_PEND_ERR :: u8 where "IRQ_PEND_ERR \<equiv> 4"
abbreviation (input) ERR_SEM_OVF :: u8 where "ERR_SEM_OVF \<equiv> 5"
abbreviation (input) ERR_EVENT_NO_CREATED :: u8 where "ERR_EVENT_NO_CREATED \<equiv> 7"
abbreviation (input) NULL_EVENT_POINTER :: u8 where "NULL_EVENT_POINTER \<equiv> 8"
abbreviation (input) ERR_EVENT_OWNER :: u8 where "ERR_EVENT_OWNER \<equiv> 9"
abbreviation (input) DELETE_EVENT_OK :: u8 where "DELETE_EVENT_OK \<equiv> 10"
abbreviation (input) AVAILABLE_RESOURCE :: u8 where "AVAILABLE_RESOURCE \<equiv> 11"
abbreviation (input) BUSY_RESOURCE :: u8 where "BUSY_RESOURCE \<equiv> 12"
abbreviation (input) AVAILABLE_MESSAGE :: u8 where "AVAILABLE_MESSAGE \<equiv> 13"
abbreviation (input) NO_MESSAGE :: u8 where "NO_MESSAGE \<equiv> 14"

abbreviation (input) READ_BUFFER_OK :: u8 where "READ_BUFFER_OK \<equiv> 0"
abbreviation (input) WRITE_BUFFER_OK :: u8 where "WRITE_BUFFER_OK \<equiv> 0"
abbreviation (input) BUFFER_UNDERRUN :: u8 where "BUFFER_UNDERRUN \<equiv> 1"
abbreviation (input) CLEAN_BUFFER_OK :: u8 where "CLEAN_BUFFER_OK \<equiv> 2"
abbreviation (input) NO_ENTRY_AVAILABLE :: u8 where "NO_ENTRY_AVAILABLE \<equiv> 3"

text \<open>\<open>MAX_TIMER\<close> is the largest \<open>uint64_t\<close>; the three values below it are reserved.\<close>

definition MAX_TIMER :: u64 where [codes]: "MAX_TIMER = 0xffffffffffffffff"
definition NO_TIMEOUT :: u64 where [codes]: "NO_TIMEOUT = MAX_TIMER - 1"
definition EXIT_BY_TIMEOUT :: u64 where [codes]: "EXIT_BY_TIMEOUT = MAX_TIMER - 2"
definition TICK_COUNT_OVERFLOW :: u64 where [codes]: "TICK_COUNT_OVERFLOW = MAX_TIMER - 3"

abbreviation (input) MUTEX_PRIO :: nat where "MUTEX_PRIO \<equiv> 0xFE"
abbreviation (input) EMPTY_PRIO :: nat where "EMPTY_PRIO \<equiv> 0xFF"

abbreviation (input) NUMBER_OF_TASKS :: nat where "NUMBER_OF_TASKS \<equiv> 12"
abbreviation (input) configMAX_TASK_INSTALL :: nat where "configMAX_TASK_INSTALL \<equiv> 32"
abbreviation (input) configMAX_TASK_PRIORITY :: nat where "configMAX_TASK_PRIORITY \<equiv> 31"
abbreviation (input) BRTOS_MAX_SEM :: nat where "BRTOS_MAX_SEM \<equiv> 19"
abbreviation (input) BRTOS_MAX_MUTEX :: nat where "BRTOS_MAX_MUTEX \<equiv> 4"
abbreviation (input) BRTOS_MAX_QUEUE :: nat where "BRTOS_MAX_QUEUE \<equiv> 1"
abbreviation (input) HEAP_SIZE :: nat where "HEAP_SIZE \<equiv> 8192"
abbreviation (input) QUEUE_HEAP_SIZE :: nat where "QUEUE_HEAP_SIZE \<equiv> 128"
abbreviation (input) NUMBER_MIN_OF_STACKED_BYTES :: nat where "NUMBER_MIN_OF_STACKED_BYTES \<equiv> 52"

text \<open>\<open>OS_CPU_TYPE\<close> is a 32-bit word.\<close>

abbreviation (input) sizeof_OS_CPU_TYPE :: nat where "sizeof_OS_CPU_TYPE \<equiv> 4"

section \<open>Control blocks\<close>

record tcb =
  TaskName :: string
  StackPoint :: u32
  StackInit :: u32
  TimeToWait :: u64
  Priority :: nat
  Next :: "nat option"
  Previous :: "nat option"

text \<open>
  The four control blocks share the fields of a wait list; \<open>event_cb\<close> names them once and
  each kind of event extends it.
\<close>

record event_cb =
  OSEventAllocated :: bool
  OSEventWait :: u8
  OSEventWaitList :: u32

record sem_cb = event_cb +
  OSEventCount :: u8
  Binary :: bool

record mutex_cb = event_cb +
  OSEventState :: u8
  OSEventOwner :: nat
  OSMaxPriority :: nat
  OSOriginalPriority :: nat

text \<open>A mailbox message is a \<^verbatim>\<open>void *\<close>: an address, with \<open>None\<close> for NULL.\<close>

record mbox_cb = event_cb +
  MboxState :: u8
  MboxPointer :: "nat option"

record queue_cb = event_cb +
  OSEventPointer :: nat

text \<open>
  The ring of a queue: the four pointers into \<open>QUEUE_STACK\<close> are byte offsets from the
  start of that array.
\<close>

record os_queue =
  OSQStart :: nat
  OSQEnd :: nat
  OSQIn :: nat
  OSQOut :: nat
  OSQSize :: u16
  OSQEntries :: u16

section \<open>The kernel's global variables\<close>

record os =
  OSReadyList :: u32
  OSBlockedList :: u32
  OSTickCounter :: u64
  currentTask :: nat
  PriorityVector :: "nat list"
  ContextTask :: "tcb list"
  Head :: "nat option"
  Tail :: "nat option"
  iNesting :: nat
  NumberOfInstalledTasks :: u8
  TaskAlloc :: u32
  iStackAddress :: u16
  StackAddress :: u16
  iQueueAddress :: u16
  OSDuty :: u32
  OSDutyTmp :: u32
  LastOSDuty :: u16
  DutyCnt :: u16
  BRTOS_Sem_Table :: "sem_cb list"
  BRTOS_Mutex_Table :: "mutex_cb list"
  BRTOS_Mbox_Table :: "mbox_cb list"
  BRTOS_Queue_Table :: "queue_cb list"
  BRTOS_OS_QUEUE_Table :: "os_queue list"
  QUEUE_STACK :: "u8 list"
  STACK :: "u32 list"

text \<open>
  The initial values of the globals: \<open>OSBlockedList\<close> starts with every priority enabled, the
  rest is zero-initialised static storage.
\<close>

definition tcb_zero :: tcb where
  "tcb_zero = \<lparr>TaskName = [], StackPoint = 0, StackInit = 0, TimeToWait = 0, Priority = 0,
     Next = None, Previous = None\<rparr>"

definition os_globals :: os where
  "os_globals = \<lparr>OSReadyList = 0, OSBlockedList = 0xFFFFFFFF, OSTickCounter = 0, currentTask = 0,
     PriorityVector = replicate configMAX_TASK_INSTALL 0,
     ContextTask = replicate (NUMBER_OF_TASKS + 1) tcb_zero, Head = None, Tail = None,
     iNesting = 0, NumberOfInstalledTasks = 0, TaskAlloc = 0, iStackAddress = 0,
     StackAddress = 0, iQueueAddress = 0, OSDuty = 0, OSDutyTmp = 0, LastOSDuty = 0, DutyCnt = 0,
     BRTOS_Sem_Table = replicate BRTOS_MAX_SEM
       \<lparr>OSEventAllocated = False, OSEventWait = 0, OSEventWaitList = 0,
        OSEventCount = 0, Binary = False\<rparr>,
     BRTOS_Mutex_Table = replicate BRTOS_MAX_MUTEX
       \<lparr>OSEventAllocated = False, OSEventWait = 0, OSEventWaitList = 0, OSEventState = 0,
        OSEventOwner = 0, OSMaxPriority = 0, OSOriginalPriority = 0\<rparr>,
     BRTOS_Mbox_Table = [],
     BRTOS_Queue_Table = replicate BRTOS_MAX_QUEUE
       \<lparr>OSEventAllocated = False, OSEventWait = 0, OSEventWaitList = 0, OSEventPointer = 0\<rparr>,
     BRTOS_OS_QUEUE_Table = replicate BRTOS_MAX_QUEUE
       \<lparr>OSQStart = 0, OSQEnd = 0, OSQIn = 0, OSQOut = 0, OSQSize = 0, OSQEntries = 0\<rparr>,
     QUEUE_STACK = replicate QUEUE_HEAP_SIZE 0,
     STACK = replicate (HEAP_SIZE div sizeof_OS_CPU_TYPE) 0\<rparr>"

abbreviation task :: "nat \<Rightarrow> os \<Rightarrow> tcb" where
  "task t os \<equiv> ContextTask os ! t"

definition upd_task :: "nat \<Rightarrow> (tcb \<Rightarrow> tcb) \<Rightarrow> os \<Rightarrow> os" where
  "upd_task t f os = os\<lparr>ContextTask := (ContextTask os)[t := f (ContextTask os ! t)]\<rparr>"

definition set_ready :: "nat \<Rightarrow> os \<Rightarrow> os" where
  "set_ready p os = os\<lparr>OSReadyList := OSReadyList os OR (PriorityMask ! p)\<rparr>"

definition clear_ready :: "nat \<Rightarrow> os \<Rightarrow> os" where
  "clear_ready p os = os\<lparr>OSReadyList := OSReadyList os AND NOT (PriorityMask ! p)\<rparr>"

text \<open>
  A call that gives up the processor is split at its \<open>ChangeContext()\<close>: the first half
  either returns or suspends the caller, the second half runs when the scheduler selects
  the caller again.
\<close>

datatype 'a call = Return 'a | Suspended

section \<open>Scheduling\<close>

definition OSSchedule :: "os \<Rightarrow> nat" where
  "OSSchedule os = PriorityVector os ! SAScheduler (OSReadyList os AND OSBlockedList os)"

text \<open>
  \<open>ChangeContext()\<close> is \<open>SwitchContext()\<close> of \<^verbatim>\<open>hal/HAL.c\<close>, entered with interrupts disabled.
  Saving and restoring registers is the hardware's part; what the kernel can observe is
  which task is current afterwards.
\<close>

definition SwitchContext :: "os \<Rightarrow> os" where
  "SwitchContext os =
     (let nesting = iNesting os + 1;   \<comment> \<open>\<open>OS_INT_ENTER\<close>\<close>
          nesting' = nesting - 1       \<comment> \<open>\<open>CriticalDecNesting\<close>\<close>
      in if nesting' = 0 then os\<lparr>currentTask := OSSchedule os\<rparr> else os)"

abbreviation ChangeContext :: "os \<Rightarrow> os" where
  "ChangeContext \<equiv> SwitchContext"

definition OS_INT_ENTER :: "os \<Rightarrow> os" where
  "OS_INT_ENTER os = os\<lparr>iNesting := iNesting os + 1\<rparr>"

definition OS_INT_EXIT :: "os \<Rightarrow> os" where
  "OS_INT_EXIT os =
     (let os' = os\<lparr>iNesting := iNesting os - 1\<rparr>
      in if iNesting os' = 0 then os'\<lparr>currentTask := OSSchedule os'\<rparr> else os')"

section \<open>Frame lemmas\<close>

lemma upd_task_sel [simp, upd_simps]:
  "OSReadyList (upd_task t f os) = OSReadyList os"
  "OSBlockedList (upd_task t f os) = OSBlockedList os"
  "OSTickCounter (upd_task t f os) = OSTickCounter os"
  "currentTask (upd_task t f os) = currentTask os"
  "PriorityVector (upd_task t f os) = PriorityVector os"
  "Head (upd_task t f os) = Head os"
  "Tail (upd_task t f os) = Tail os"
  "iNesting (upd_task t f os) = iNesting os"
  "length (ContextTask (upd_task t f os)) = length (ContextTask os)"
  "BRTOS_Sem_Table (upd_task t f os) = BRTOS_Sem_Table os"
  "BRTOS_Mutex_Table (upd_task t f os) = BRTOS_Mutex_Table os"
  "BRTOS_Mbox_Table (upd_task t f os) = BRTOS_Mbox_Table os"
  "BRTOS_Queue_Table (upd_task t f os) = BRTOS_Queue_Table os"
  "BRTOS_OS_QUEUE_Table (upd_task t f os) = BRTOS_OS_QUEUE_Table os"
  "QUEUE_STACK (upd_task t f os) = QUEUE_STACK os"
  "STACK (upd_task t f os) = STACK os"
  "TaskAlloc (upd_task t f os) = TaskAlloc os"
  "StackAddress (upd_task t f os) = StackAddress os"
  "iStackAddress (upd_task t f os) = iStackAddress os"
  "NumberOfInstalledTasks (upd_task t f os) = NumberOfInstalledTasks os"
  "iQueueAddress (upd_task t f os) = iQueueAddress os"
  by (simp_all add: upd_task_def)

lemma task_upd_task:
  "t < length (ContextTask os) \<Longrightarrow>
     task u (upd_task t f os) = (if u = t then f (task t os) else task u os)"
  by (simp add: upd_task_def nth_list_update)

lemma task_upd_same [simp]:
  "t < length (ContextTask os) \<Longrightarrow> task t (upd_task t f os) = f (task t os)"
  by (simp add: task_upd_task)

lemma task_upd_other [simp]: "u \<noteq> t \<Longrightarrow> task u (upd_task t f os) = task u os"
  by (simp add: upd_task_def)

lemma set_ready_sel [simp, upd_simps]:
  "ContextTask (set_ready p os) = ContextTask os"
  "OSBlockedList (set_ready p os) = OSBlockedList os"
  "OSTickCounter (set_ready p os) = OSTickCounter os"
  "currentTask (set_ready p os) = currentTask os"
  "PriorityVector (set_ready p os) = PriorityVector os"
  "Head (set_ready p os) = Head os"
  "Tail (set_ready p os) = Tail os"
  "iNesting (set_ready p os) = iNesting os"
  "BRTOS_Sem_Table (set_ready p os) = BRTOS_Sem_Table os"
  "BRTOS_Mutex_Table (set_ready p os) = BRTOS_Mutex_Table os"
  "BRTOS_Mbox_Table (set_ready p os) = BRTOS_Mbox_Table os"
  "BRTOS_Queue_Table (set_ready p os) = BRTOS_Queue_Table os"
  "BRTOS_OS_QUEUE_Table (set_ready p os) = BRTOS_OS_QUEUE_Table os"
  "QUEUE_STACK (set_ready p os) = QUEUE_STACK os"
  "STACK (set_ready p os) = STACK os"
  "TaskAlloc (set_ready p os) = TaskAlloc os"
  "StackAddress (set_ready p os) = StackAddress os"
  "iStackAddress (set_ready p os) = iStackAddress os"
  "NumberOfInstalledTasks (set_ready p os) = NumberOfInstalledTasks os"
  "iQueueAddress (set_ready p os) = iQueueAddress os"
  by (simp_all add: set_ready_def)

lemma clear_ready_sel [simp, upd_simps]:
  "ContextTask (clear_ready p os) = ContextTask os"
  "OSBlockedList (clear_ready p os) = OSBlockedList os"
  "OSTickCounter (clear_ready p os) = OSTickCounter os"
  "currentTask (clear_ready p os) = currentTask os"
  "PriorityVector (clear_ready p os) = PriorityVector os"
  "Head (clear_ready p os) = Head os"
  "Tail (clear_ready p os) = Tail os"
  "iNesting (clear_ready p os) = iNesting os"
  "BRTOS_Sem_Table (clear_ready p os) = BRTOS_Sem_Table os"
  "BRTOS_Mutex_Table (clear_ready p os) = BRTOS_Mutex_Table os"
  "BRTOS_Mbox_Table (clear_ready p os) = BRTOS_Mbox_Table os"
  "BRTOS_Queue_Table (clear_ready p os) = BRTOS_Queue_Table os"
  "BRTOS_OS_QUEUE_Table (clear_ready p os) = BRTOS_OS_QUEUE_Table os"
  "QUEUE_STACK (clear_ready p os) = QUEUE_STACK os"
  "STACK (clear_ready p os) = STACK os"
  "TaskAlloc (clear_ready p os) = TaskAlloc os"
  "StackAddress (clear_ready p os) = StackAddress os"
  "iStackAddress (clear_ready p os) = iStackAddress os"
  "NumberOfInstalledTasks (clear_ready p os) = NumberOfInstalledTasks os"
  "iQueueAddress (clear_ready p os) = iQueueAddress os"
  by (simp_all add: clear_ready_def)

lemma SwitchContext_sel [simp, upd_simps]:
  "OSReadyList (SwitchContext os) = OSReadyList os"
  "OSBlockedList (SwitchContext os) = OSBlockedList os"
  "OSTickCounter (SwitchContext os) = OSTickCounter os"
  "PriorityVector (SwitchContext os) = PriorityVector os"
  "ContextTask (SwitchContext os) = ContextTask os"
  "Head (SwitchContext os) = Head os"
  "Tail (SwitchContext os) = Tail os"
  "iNesting (SwitchContext os) = iNesting os"
  "BRTOS_Sem_Table (SwitchContext os) = BRTOS_Sem_Table os"
  "BRTOS_Mutex_Table (SwitchContext os) = BRTOS_Mutex_Table os"
  "BRTOS_Mbox_Table (SwitchContext os) = BRTOS_Mbox_Table os"
  "BRTOS_Queue_Table (SwitchContext os) = BRTOS_Queue_Table os"
  "BRTOS_OS_QUEUE_Table (SwitchContext os) = BRTOS_OS_QUEUE_Table os"
  "QUEUE_STACK (SwitchContext os) = QUEUE_STACK os"
  "STACK (SwitchContext os) = STACK os"
  "TaskAlloc (SwitchContext os) = TaskAlloc os"
  "StackAddress (SwitchContext os) = StackAddress os"
  "iStackAddress (SwitchContext os) = iStackAddress os"
  "NumberOfInstalledTasks (SwitchContext os) = NumberOfInstalledTasks os"
  "iQueueAddress (SwitchContext os) = iQueueAddress os"
  by (simp_all add: SwitchContext_def Let_def)

lemma ready_set: "p < 32 \<Longrightarrow> bit (OSReadyList (set_ready p os)) q \<longleftrightarrow> bit (OSReadyList os) q \<or> p = q"
  by (simp add: set_ready_def bit_or_pow2)

lemma ready_clear:
  "p < 32 \<Longrightarrow> bit (OSReadyList (clear_ready p os)) q \<longleftrightarrow> bit (OSReadyList os) q \<and> p \<noteq> q"
  by (simp add: clear_ready_def bit_clear_pow2)

end
