(* ===== verification/Delay_List.thy ===== *)
theory Delay_List
  imports Kernel_State
begin

text \<open>
  The delay list of the kernel: a doubly linked list threaded through the task control
  blocks, with the macros \<open>IncludeTaskIntoDelayList\<close> and \<open>RemoveFromDelayList\<close> of
  \<^verbatim>\<open>brtos/includes/BRTOS.h\<close>.  Each assignment of the macros is one update, in their order, so
  aliasing between \<open>Task\<close>, \<open>Head\<close> and \<open>Tail\<close> behaves as in C; a dereference of NULL is
  \<open>None\<close>.  \<open>delay_list os xs\<close> says that the pointers spell out the list \<open>xs\<close>; under it
  the macros are append and removal.
\<close>

section \<open>The macros\<close>

definition IncludeTaskIntoDelayList :: "nat \<Rightarrow> os \<Rightarrow> os" where
  "IncludeTaskIntoDelayList t os =
     (case Tail os of
        Some lst \<Rightarrow>
          (let os1 = upd_task lst (\<lambda>c. c\<lparr>Next := Some t\<rparr>) os;
               os2 = upd_task t (\<lambda>c. c\<lparr>Previous := Some lst\<rparr>) os1;
               os3 = os2\<lparr>Tail := Some t\<rparr>
           in upd_task t (\<lambda>c. c\<lparr>Next := None\<rparr>) os3)
      | None \<Rightarrow>
          (let os1 = os\<lparr>Tail := Some t\<rparr>;
               os2 = os1\<lparr>Head := Some t\<rparr>;
               os3 = upd_task t (\<lambda>c. c\<lparr>Next := None\<rparr>) os2
           in upd_task t (\<lambda>c. c\<lparr>Previous := None\<rparr>) os3))"

definition RemoveFromDelayList :: "nat \<Rightarrow> os \<Rightarrow> os option" where
  "RemoveFromDelayList t os =
     (if Some t = Head os then
        if Some t = Tail os then Some (os\<lparr>Tail := None, Head := None\<rparr>)
        else do {
          let os1 = os\<lparr>Head := Next (task t os)\<rparr>;
          h \<leftarrow> Head os1;
          Some (upd_task h (\<lambda>c. c\<lparr>Previous := None\<rparr>) os1)
        }
      else
        if Some t = Tail os then do {
          let os1 = os\<lparr>Tail := Previous (task t os)\<rparr>;
          p \<leftarrow> Tail os1;
          Some (upd_task p (\<lambda>c. c\<lparr>Next := None\<rparr>) os1)
        }
        else do {
          n \<leftarrow> Next (task t os);
          let os1 = upd_task n (\<lambda>c. c\<lparr>Previous := Previous (task t os)\<rparr>) os;
          p \<leftarrow> Previous (task t os1);
          Some (upd_task p (\<lambda>c. c\<lparr>Next := Next (task t os1)\<rparr>) os1)
        })"

section \<open>The list the pointers represent\<close>

fun first_or :: "nat list \<Rightarrow> nat option \<Rightarrow> nat option" where
  "first_or [] n = n"
| "first_or (x # _) _ = Some x"

fun last_or :: "nat option \<Rightarrow> nat list \<Rightarrow> nat option" where
  "last_or p [] = p"
| "last_or _ (x # xs) = last_or (Some x) xs"

text \<open>
  \<open>dseg ctx p xs n\<close>: the control blocks \<open>xs\<close> are linked in this order, the first one's
  \<open>Previous\<close> is \<open>p\<close> and the last one's \<open>Next\<close> is \<open>n\<close>.
\<close>

fun dseg :: "tcb list \<Rightarrow> nat option \<Rightarrow> nat list \<Rightarrow> nat option \<Rightarrow> bool" where
  "dseg ctx p [] n = True"
| "dseg ctx p (x # xs) n =
     (x < length ctx \<and> Previous (ctx ! x) = p \<and> Next (ctx ! x) = first_or xs n \<and>
      dseg ctx (Some x) xs n)"

definition delay_list :: "os \<Rightarrow> nat list \<Rightarrow> bool" where
  "delay_list os xs \<longleftrightarrow>
     distinct xs \<and> dseg (ContextTask os) None xs None \<and>
     Head os = first_or xs None \<and> Tail os = last_or None xs"

lemma first_or_append: "first_or (xs @ ys) n = first_or xs (first_or ys n)"
  by (cases xs) auto

lemma last_or_append: "last_or p (xs @ ys) = last_or (last_or p xs) ys"
  by (induction xs arbitrary: p) auto

lemma last_or_in: "xs \<noteq> [] \<Longrightarrow> \<exists>x \<in> set xs. last_or p xs = Some x"
  by (induction xs arbitrary: p) (auto, metis last_or.simps(1) list.set_intros(1) neq_Nil_conv)

lemma dseg_append:
  "dseg ctx p (xs @ ys) n \<longleftrightarrow>
     dseg ctx p xs (first_or ys n) \<and> dseg ctx (last_or p xs) ys n"
  by (induction xs arbitrary: p) (auto simp: first_or_append)

text \<open>A segment only depends on the link fields of its own members.\<close>

lemma dseg_cong:
  assumes "dseg ctx p xs n" and "length ctx' = length ctx"
    and "\<And>x. x \<in> set xs \<Longrightarrow> Next (ctx' ! x) = Next (ctx ! x) \<and> Previous (ctx' ! x) = Previous (ctx ! x)"
  shows "dseg ctx' p xs n"
  using assms by (induction xs arbitrary: p) auto

lemma dseg_bound: "dseg ctx p xs n \<Longrightarrow> x \<in> set xs \<Longrightarrow> x < length ctx"
  by (induction xs arbitrary: p) auto

lemma dseg_update_other:
  "dseg ctx p xs n \<Longrightarrow> t \<notin> set xs \<Longrightarrow> dseg (ctx[t := c]) p xs n"
  by (rule dseg_cong [where ctx = ctx]) (auto, (metis nth_list_update_neq)+)

text \<open>Redirecting the outer link of a segment's last or first block.\<close>

lemma dseg_set_next:
  assumes "dseg ctx p (xs @ [x]) n" and "x \<notin> set xs"
  shows "dseg (ctx[x := (ctx ! x)\<lparr>Next := m\<rparr>]) p (xs @ [x]) m"
  using assms by (auto simp: dseg_append intro: dseg_update_other)

lemma dseg_set_prev:
  assumes "dseg ctx p (x # xs) n" and "x \<notin> set xs"
  shows "dseg (ctx[x := (ctx ! x)\<lparr>Previous := q\<rparr>]) q (x # xs) n"
  using assms by (auto intro: dseg_update_other)

lemma ctx_upd_task: "ContextTask (upd_task t f os) = (ContextTask os)[t := f (ContextTask os ! t)]"
  by (simp add: upd_task_def)

section \<open>The macros implement append and removal\<close>

lemma delay_list_include:
  assumes dl: "delay_list os xs" and t: "t \<notin> set xs" "t < length (ContextTask os)"
  shows "delay_list (IncludeTaskIntoDelayList t os) (xs @ [t])"
proof (cases xs rule: rev_cases)
  case Nil
  with assms show ?thesis
    by (simp add: delay_list_def IncludeTaskIntoDelayList_def ctx_upd_task)
next
  case (snoc ys z)
  let ?ctx = "ContextTask os"
  let ?c1 = "?ctx[z := (?ctx ! z)\<lparr>Next := Some t\<rparr>]"
  from dl snoc have z: "z \<notin> set ys" "z < length ?ctx" "Tail os = Some z"
    by (auto simp: delay_list_def last_or_append dseg_append)
  have "dseg ?c1 None xs (Some t)"
    using dl z unfolding snoc by (intro dseg_set_next) (auto simp: delay_list_def)
  then have "dseg (ContextTask (IncludeTaskIntoDelayList t os)) None (xs @ [t]) None"
    using t z snoc
    by (simp add: dseg_append IncludeTaskIntoDelayList_def ctx_upd_task last_or_append
        dseg_update_other nth_list_update)
  then show ?thesis
    using dl t z snoc
    by (auto simp: delay_list_def IncludeTaskIntoDelayList_def first_or_append last_or_append)
qed

lemma delay_list_remove:
  assumes dl: "delay_list os (ys @ t # zs)"
  shows "\<exists>os'. RemoveFromDelayList t os = Some os' \<and> delay_list os' (ys @ zs)"
proof -
  let ?ctx = "ContextTask os"
  from dl have d: "t \<notin> set ys" "t \<notin> set zs" "distinct ys" "distinct zs" "set ys \<inter> set zs = {}"
    and sy: "dseg ?ctx None ys (Some t)" and tl: "t < length ?ctx"
    and pt: "Previous (?ctx ! t) = last_or None ys" and nt: "Next (?ctx ! t) = first_or zs None"
    and sz: "dseg ?ctx (Some t) zs None"
    and hd: "Head os = first_or ys (Some t)" and ta: "Tail os = last_or (Some t) zs"
    by (auto simp: delay_list_def dseg_append first_or_append last_or_append)
  show ?thesis
  proof (cases ys rule: rev_cases)
    case Nil
    show ?thesis
    proof (cases zs)
      case Nil
      with \<open>ys = []\<close> hd ta show ?thesis
        by (simp add: RemoveFromDelayList_def delay_list_def)
    next
      case (Cons z zs')
      with ta d have "Tail os \<noteq> Some t"
        using last_or_in [of zs "Some t"] by auto
      moreover have "dseg (?ctx[z := (?ctx ! z)\<lparr>Previous := None\<rparr>]) None zs None"
        using sz d Cons by (auto intro: dseg_set_prev simp del: dseg.simps)
      ultimately show ?thesis
        using \<open>ys = []\<close> Cons hd ta nt d sz
        by (simp add: RemoveFromDelayList_def delay_list_def ctx_upd_task)
    qed
  next
    case (snoc ys' y)
    then have hne: "Head os \<noteq> Some t"
      using hd d by (cases ys') auto
    show ?thesis
    proof (cases zs)
      case Nil
      have "dseg (?ctx[y := (?ctx ! y)\<lparr>Next := None\<rparr>]) None ys None"
        using sy d snoc by (auto intro: dseg_set_next)
      then show ?thesis
        using Nil snoc hne hd ta pt d
        by (auto simp: RemoveFromDelayList_def delay_list_def ctx_upd_task last_or_append
            first_or_append)
    next
      case (Cons z zs')
      then have tne: "Tail os \<noteq> Some t"
        using ta d last_or_in [of zs "Some t"] by auto
      let ?c1 = "?ctx[z := (?ctx ! z)\<lparr>Previous := Some y\<rparr>]"
      let ?c2 = "?c1[y := (?c1 ! y)\<lparr>Next := Some z\<rparr>]"
      have ne: "z \<noteq> y" "t \<noteq> z" "t \<noteq> y" "z \<notin> set ys" "y \<notin> set zs"
        using d snoc Cons by auto
      have "dseg ?c1 (Some y) zs None"
        using sz d Cons by (auto intro: dseg_set_prev simp del: dseg.simps)
      from this ne(5) have z2: "dseg ?c2 (Some y) zs None"
        by (rule dseg_update_other)
      from sy ne(4) have "dseg ?c1 None ys (Some t)"
        by (rule dseg_update_other)
      then have y2: "dseg ?c2 None ys (Some z)"
        using d snoc by (auto intro: dseg_set_next)
      show ?thesis
        using snoc Cons hne tne pt nt ne d z2 y2 hd ta
        by (auto simp: RemoveFromDelayList_def delay_list_def ctx_upd_task last_or_append
            first_or_append dseg_append)
    qed
  qed
qed

section \<open>The macros touch nothing but the links\<close>

text \<open>
  \<open>unlinked os\<close> forgets the links; two states with the same \<open>unlinked\<close> part differ in the
  delay list only.
\<close>

definition unlink_tcb :: "tcb \<Rightarrow> tcb" where
  "unlink_tcb c = c\<lparr>Next := None, Previous := None\<rparr>"

definition unlinked :: "os \<Rightarrow> os" where
  "unlinked os = os\<lparr>Head := None, Tail := None, ContextTask := map unlink_tcb (ContextTask os)\<rparr>"

lemma unlink_tcb_sel [simp]:
  "TaskName (unlink_tcb c) = TaskName c" "StackPoint (unlink_tcb c) = StackPoint c"
  "StackInit (unlink_tcb c) = StackInit c" "TimeToWait (unlink_tcb c) = TimeToWait c"
  "Priority (unlink_tcb c) = Priority c"
  "unlink_tcb (c\<lparr>Next := n\<rparr>) = unlink_tcb c" "unlink_tcb (c\<lparr>Previous := n\<rparr>) = unlink_tcb c"
  "unlink_tcb (c\<lparr>TimeToWait := w\<rparr>) = (unlink_tcb c)\<lparr>TimeToWait := w\<rparr>"
  "unlink_tcb (c\<lparr>Priority := p\<rparr>) = (unlink_tcb c)\<lparr>Priority := p\<rparr>"
  by (simp_all add: unlink_tcb_def)

lemma unlinked_sel [simp]:
  "OSReadyList (unlinked os) = OSReadyList os" "OSBlockedList (unlinked os) = OSBlockedList os"
  "OSTickCounter (unlinked os) = OSTickCounter os" "currentTask (unlinked os) = currentTask os"
  "PriorityVector (unlinked os) = PriorityVector os" "iNesting (unlinked os) = iNesting os"
  "BRTOS_Sem_Table (unlinked os) = BRTOS_Sem_Table os"
  "BRTOS_Mutex_Table (unlinked os) = BRTOS_Mutex_Table os"
  "BRTOS_Mbox_Table (unlinked os) = BRTOS_Mbox_Table os"
  "BRTOS_Queue_Table (unlinked os) = BRTOS_Queue_Table os"
  "BRTOS_OS_QUEUE_Table (unlinked os) = BRTOS_OS_QUEUE_Table os"
  "QUEUE_STACK (unlinked os) = QUEUE_STACK os"
  "TaskAlloc (unlinked os) = TaskAlloc os"
  "STACK (unlinked os) = STACK os"
  "length (ContextTask (unlinked os)) = length (ContextTask os)"
  "t < length (ContextTask os) \<Longrightarrow> task t (unlinked os) = unlink_tcb (task t os)"
  by (simp_all add: unlinked_def)

lemma unlinked_eqD:
  assumes "unlinked a = unlinked b"
  shows "OSReadyList a = OSReadyList b" "OSBlockedList a = OSBlockedList b"
    "OSTickCounter a = OSTickCounter b" "currentTask a = currentTask b"
    "PriorityVector a = PriorityVector b" "iNesting a = iNesting b"
    "length (ContextTask a) = length (ContextTask b)"
    "BRTOS_Sem_Table a = BRTOS_Sem_Table b" "BRTOS_Mutex_Table a = BRTOS_Mutex_Table b"
    "BRTOS_Mbox_Table a = BRTOS_Mbox_Table b" "BRTOS_Queue_Table a = BRTOS_Queue_Table b"
    "BRTOS_OS_QUEUE_Table a = BRTOS_OS_QUEUE_Table b" "QUEUE_STACK a = QUEUE_STACK b"
    "TaskAlloc a = TaskAlloc b" "STACK a = STACK b"
  by (insert assms, (metis unlinked_sel)+)

lemma unlinked_taskD:
  assumes "unlinked a = unlinked b" and "t < length (ContextTask b)"
  shows "TimeToWait (task t a) = TimeToWait (task t b)" "Priority (task t a) = Priority (task t b)"
    "StackPoint (task t a) = StackPoint (task t b)" "StackInit (task t a) = StackInit (task t b)"
    "TaskName (task t a) = TaskName (task t b)"
proof -
  have "t < length (ContextTask a)"
    using assms unlinked_eqD(7) by metis
  with assms have "unlink_tcb (task t a) = unlink_tcb (task t b)"
    by (metis unlinked_sel(16))
  then show "TimeToWait (task t a) = TimeToWait (task t b)"
    "Priority (task t a) = Priority (task t b)"
    "StackPoint (task t a) = StackPoint (task t b)" "StackInit (task t a) = StackInit (task t b)"
    "TaskName (task t a) = TaskName (task t b)"
    by (metis unlink_tcb_sel(1-5))+
qed

lemma unlinked_upd_link [simp]:
  "unlinked (upd_task t (\<lambda>c. c\<lparr>Next := n\<rparr>) os) = unlinked os"
  "unlinked (upd_task t (\<lambda>c. c\<lparr>Previous := n\<rparr>) os) = unlinked os"
  "unlinked (os\<lparr>Head := n\<rparr>) = unlinked os" "unlinked (os\<lparr>Tail := n\<rparr>) = unlinked os"
  by (simp_all add: unlinked_def upd_task_def map_upd_same)

lemma unlinked_include [simp]: "unlinked (IncludeTaskIntoDelayList t os) = unlinked os"
  by (simp add: IncludeTaskIntoDelayList_def Let_def split: option.split)

lemma unlinked_remove: "RemoveFromDelayList t os = Some os' \<Longrightarrow> unlinked os' = unlinked os"
  by (auto simp: RemoveFromDelayList_def Let_def bind_eq_Some_conv split: if_splits)

lemma remove_Next:
  "RemoveFromDelayList t os = Some os' \<Longrightarrow> Next (task t os) \<noteq> Some t \<Longrightarrow>
     Previous (task t os) \<noteq> Some t \<Longrightarrow> Next (task t os') = Next (task t os)"
  by (auto simp: RemoveFromDelayList_def Let_def bind_eq_Some_conv upd_task_def nth_upd
      split: if_splits)

lemma delay_list_bound: "delay_list os xs \<Longrightarrow> x \<in> set xs \<Longrightarrow> x < length (ContextTask os)"
  by (auto simp: delay_list_def dest: dseg_bound)

lemma delay_list_distinct: "delay_list os xs \<Longrightarrow> distinct xs"
  by (simp add: delay_list_def)

lemma delay_list_Next:
  "delay_list os (ys @ t # zs) \<Longrightarrow> Next (task t os) = first_or zs None"
  by (simp add: delay_list_def dseg_append)

lemma delay_list_self:
  assumes "delay_list os (ys @ t # zs)"
  shows "Next (task t os) \<noteq> Some t \<and> Previous (task t os) \<noteq> Some t"
proof -
  have "t \<notin> set ys \<union> set zs" and "Next (task t os) = first_or zs None"
    and "Previous (task t os) = last_or None ys"
    using assms by (auto simp: delay_list_def dseg_append)
  then show ?thesis
    using last_or_in [of ys None] by (cases zs; cases ys) auto
qed

text \<open>The list is determined by the links, so updates of other fields keep it.\<close>

lemma delay_list_cong:
  assumes "delay_list os xs" and "Head os' = Head os" and "Tail os' = Tail os"
    and "length (ContextTask os') = length (ContextTask os)"
    and "\<And>x. x < length (ContextTask os) \<Longrightarrow>
           Next (task x os') = Next (task x os) \<and> Previous (task x os') = Previous (task x os)"
  shows "delay_list os' xs"
  using assms delay_list_bound [OF assms(1)]
  by (auto simp: delay_list_def intro: dseg_cong [where ctx = "ContextTask os"])

lemma delay_list_upd_time [simp]:
  "delay_list (upd_task t (\<lambda>c. c\<lparr>TimeToWait := w\<rparr>) os) xs = delay_list os xs"
  by (rule iffI; erule delay_list_cong; cases "t < length (ContextTask os)")
     (auto simp: upd_task_def nth_upd)

lemma delay_list_upd_prio [simp]:
  "delay_list (upd_task t (\<lambda>c. c\<lparr>Priority := w\<rparr>) os) xs = delay_list os xs"
  by (rule iffI; erule delay_list_cong; cases "t < length (ContextTask os)")
     (auto simp: upd_task_def nth_upd)

lemma delay_list_ready [simp]:
  "delay_list (set_ready p os) xs = delay_list os xs"
  "delay_list (clear_ready p os) xs = delay_list os xs"
  "delay_list (SwitchContext os) xs = delay_list os xs"
  by (simp_all add: delay_list_def)

lemma delay_list_unique:
  assumes "delay_list os xs" and "delay_list os ys"
  shows "xs = ys"
proof -
  have *: "dseg ctx p us None \<Longrightarrow> dseg ctx q vs None \<Longrightarrow> first_or us None = first_or vs None \<Longrightarrow> us = vs"
    for ctx p q us vs
  proof (induction us arbitrary: p q vs)
    case Nil
    then show ?case by (cases vs) auto
  next
    case (Cons u us)
    then show ?case by (cases vs) auto
  qed
  show ?thesis
    using assms by (intro * [of "ContextTask os" None xs None ys]) (auto simp: delay_list_def)
qed

end
