(* ===== verification/Ticks.thy ===== *)
theory Ticks
  imports Delay_List
begin

text \<open>
  Time in the kernel: the tick counter, \<open>OSDelayTask\<close>, \<open>OSDelayTaskHMSM\<close> and the tick
  handler of \<^verbatim>\<open>brtos/BRTOS.c\<close>, with the timer interrupt of \<^verbatim>\<open>hal/HAL.c\<close> that runs it once
  per elapsed period.  The handler walks the delay list while it unlinks from it; its loop is
  a \<open>partial_function\<close>, and \<open>tick_scan_ok\<close> proves that the walk ends, never follows a NULL
  pointer, and wakes exactly the tasks whose time has come.
\<close>

section \<open>The tick counter\<close>

definition OSGetTickCount :: "os \<Rightarrow> u64" where
  "OSGetTickCount os = OSTickCounter os"

definition OSGetCount :: "os \<Rightarrow> u64" where
  "OSGetCount os = OSTickCounter os"

definition OSIncCounter :: "os \<Rightarrow> os" where
  "OSIncCounter os =
     (let os1 = os\<lparr>OSTickCounter := OSTickCounter os + 1\<rparr>
      in if OSTickCounter os1 = TICK_COUNT_OVERFLOW then os1\<lparr>OSTickCounter := 0\<rparr> else os1)"

section \<open>The tick handler\<close>

text \<open>What the handler does to a task whose time has come, before it unlinks it.\<close>

definition expire :: "nat \<Rightarrow> os \<Rightarrow> os" where
  "expire t os =
     upd_task t (\<lambda>c. c\<lparr>TimeToWait := EXIT_BY_TIMEOUT\<rparr>) (set_ready (Priority (task t os)) os)"

partial_function (option) tick_scan :: "nat option \<Rightarrow> os \<Rightarrow> os option" where
  "tick_scan Task os =
     (case Task of
        None \<Rightarrow> Some os
      | Some t \<Rightarrow>
          if TimeToWait (task t os) = OSTickCounter os then do {
            os1 \<leftarrow> RemoveFromDelayList t (expire t os);
            tick_scan (Next (task t os1)) os1
          }
          else tick_scan (Next (task t os)) os)"

definition system_load :: "os \<Rightarrow> os" where
  "system_load os =
     (if 1000 \<le> DutyCnt os then
        os\<lparr>DutyCnt := 0, LastOSDuty := ucast (OSDuty os), OSDuty := 0\<rparr>
      else
        (let os1 = (if OSDutyTmp os = 0 then os\<lparr>OSDuty := OSDuty os + 1\<rparr> else os)
         in os1\<lparr>OSDutyTmp := 0, DutyCnt := DutyCnt os1 + 1\<rparr>))"

definition OS_TICK_HANDLER :: "os \<Rightarrow> os option" where
  "OS_TICK_HANDLER os = do { os1 \<leftarrow> tick_scan (Head os) os; Some (system_load os1) }"

text \<open>One turn of the idle task's loop.\<close>

definition Idle_turn :: "os \<Rightarrow> os" where
  "Idle_turn os = os\<lparr>OSDutyTmp := 1\<rparr>"

section \<open>The timer interrupt\<close>

text \<open>
  \<open>TAR\<close> and \<open>CCR\<close> are 16-bit hardware registers.  The successive readings of the free running
  counter are an input list; the loop consumes one per turn, and \<open>None\<close> says that the readings
  given end before the loop does.
\<close>

abbreviation (input) SYSTEM_TICK :: u16 where "SYSTEM_TICK \<equiv> 32"

definition CLOCK_LT :: "u16 \<Rightarrow> u16 \<Rightarrow> bool" where
  "CLOCK_LT a b \<longleftrightarrow> sint (a - b) < 0"

fun TickTimer_loop :: "u16 list \<Rightarrow> u16 \<Rightarrow> os \<Rightarrow> (u16 \<times> os) option" where
  "TickTimer_loop [] TIMER_CCR os = None"
| "TickTimer_loop (last_tar # readings) TIMER_CCR os =
     (if CLOCK_LT last_tar TIMER_CCR then Some (TIMER_CCR, os)
      else do {
        os1 \<leftarrow> OS_TICK_HANDLER (OSIncCounter os);
        TickTimer_loop readings (TIMER_CCR + SYSTEM_TICK) os1
      })"

definition TickTimer :: "u16 \<Rightarrow> u16 list \<Rightarrow> u16 \<Rightarrow> os \<Rightarrow> (u16 \<times> os) option" where
  "TickTimer TIMER_IV readings TIMER_CCR os =
     (let os1 = OS_INT_ENTER os in
      if TIMER_IV = 2 then do {
        (ccr, os2) \<leftarrow> TickTimer_loop readings TIMER_CCR os1;
        Some (ccr, OS_INT_EXIT os2)
      }
      else Some (TIMER_CCR, OS_INT_EXIT os1))"

text \<open>One elapsed period, and several of them with nothing in between.\<close>

definition tick :: "os \<Rightarrow> os option" where
  "tick os = OS_TICK_HANDLER (OSIncCounter os)"

fun ticks :: "nat \<Rightarrow> os \<Rightarrow> os option" where
  "ticks 0 os = Some os"
| "ticks (Suc k) os = do { os1 \<leftarrow> tick os; ticks k os1 }"

section \<open>Delays\<close>

definition OSDelayTask :: "u64 \<Rightarrow> os \<Rightarrow> u8 call \<times> os" where
  "OSDelayTask time_wait os =
     (if iNesting os > 0 then (Return IRQ_PEND_ERR, os)
      else if currentTask os \<noteq> 0 then
        (if time_wait > 0 then
           (let t = currentTask os;
                timeout = OSTickCounter os + time_wait;
                os1 = upd_task t (\<lambda>c. c\<lparr>TimeToWait := timeout\<rparr>) os;
                os2 = IncludeTaskIntoDelayList t os1;
                os3 = clear_ready (Priority (task t os2)) os2
            in (Suspended, ChangeContext os3))
         else (Return NO_TASK_DELAY, os))
      else (Return NOT_VALID_TASK, os))"

text \<open>The rest of the call, when the scheduler selects the task again.\<close>

definition OSDelayTask_resume :: "os \<Rightarrow> u8 \<times> os" where
  "OSDelayTask_resume os = (OK, os)"

text \<open>
  \<open>OSDelayTaskHMSM\<close> only converts its arguments and calls \<open>OSDelayTask\<close> several times; it
  is given as its return code and the delays it asks for, in order.
\<close>

abbreviation (input) configTICK_RATE_HZ :: u32 where "configTICK_RATE_HZ \<equiv> 1000"

definition OSDelayTaskHMSM :: "u8 \<Rightarrow> u8 \<Rightarrow> u8 \<Rightarrow> u16 \<Rightarrow> u8 \<times> u64 list" where
  "OSDelayTaskHMSM hours minutes seconds miliseconds =
     (if minutes > 59 then (INVALID_TIME, [])
      else if seconds > 59 then (INVALID_TIME, [])
      else if miliseconds > 999 then (INVALID_TIME, [])
      else
        (let ticks = ucast hours * 3600 * configTICK_RATE_HZ
                   + ucast minutes * 60 * configTICK_RATE_HZ
                   + ucast seconds * configTICK_RATE_HZ
                   + (ucast miliseconds * configTICK_RATE_HZ) div 1000
         in if ticks > 0 then
              (let loops = ticks div 60000;
                   rest = ucast (ticks mod 60000) :: u16
               in (OK, ucast rest # replicate (unat loops) 60000))
            else (NO_TASK_DELAY, [])))"

section \<open>One tick\<close>

declare tick_scan.simps [simp del]

lemma tick_scan_None [simp]: "tick_scan None os = Some os"
  by (simp add: tick_scan.simps)

lemma tick_scan_Some:
  "tick_scan (Some t) os =
     (if TimeToWait (task t os) = OSTickCounter os then do {
        os1 \<leftarrow> RemoveFromDelayList t (expire t os);
        tick_scan (Next (task t os1)) os1
      }
      else tick_scan (Next (task t os)) os)"
  by (subst tick_scan.simps) simp

lemma expire_sel [simp]:
  "OSTickCounter (expire t os) = OSTickCounter os"
  "length (ContextTask (expire t os)) = length (ContextTask os)"
  "PriorityVector (expire t os) = PriorityVector os"
  "OSBlockedList (expire t os) = OSBlockedList os"
  "currentTask (expire t os) = currentTask os"
  "iNesting (expire t os) = iNesting os"
  "Priority (task u (expire t os)) = Priority (task u os)"
  "Next (task u (expire t os)) = Next (task u os)"
  "Previous (task u (expire t os)) = Previous (task u os)"
  "delay_list (expire t os) xs = delay_list os xs"
  by (simp_all add: expire_def) (simp_all add: upd_task_def nth_upd)

lemma expire_time:
  "u < length (ContextTask os) \<Longrightarrow>
     TimeToWait (task u (expire t os)) = (if u = t then EXIT_BY_TIMEOUT else TimeToWait (task u os))"
  by (auto simp: expire_def upd_task_def nth_upd)

lemma expire_ready:
  "Priority (task t os) < 32 \<Longrightarrow>
     bit (OSReadyList (expire t os)) p \<longleftrightarrow> bit (OSReadyList os) p \<or> p = Priority (task t os)"
  by (auto simp: expire_def ready_set)

lemma unlinked_expire:
  "t < length (ContextTask os) \<Longrightarrow> unlinked (expire t os) = expire t (unlinked os)"
  by (simp add: expire_def unlinked_def upd_task_def set_ready_def map_update)

lemma fold_expire_sel [simp]:
  "OSTickCounter (fold expire ts os) = OSTickCounter os"
  "length (ContextTask (fold expire ts os)) = length (ContextTask os)"
  "PriorityVector (fold expire ts os) = PriorityVector os"
  "OSBlockedList (fold expire ts os) = OSBlockedList os"
  "currentTask (fold expire ts os) = currentTask os"
  "iNesting (fold expire ts os) = iNesting os"
  "Priority (task u (fold expire ts os)) = Priority (task u os)"
  by (induction ts arbitrary: os) auto

lemma fold_expire_time:
  "u < length (ContextTask os) \<Longrightarrow>
     TimeToWait (task u (fold expire ts os)) =
       (if u \<in> set ts then EXIT_BY_TIMEOUT else TimeToWait (task u os))"
  by (induction ts arbitrary: os) (auto simp: expire_time)

lemma fold_expire_ready:
  "\<forall>t \<in> set ts. Priority (task t os) < 32 \<Longrightarrow>
     bit (OSReadyList (fold expire ts os)) p \<longleftrightarrow>
       bit (OSReadyList os) p \<or> (\<exists>t \<in> set ts. p = Priority (task t os))"
  by (induction ts arbitrary: os) (auto simp: expire_ready)

text \<open>
  The walk, started in the middle of the list: \<open>us\<close> are the tasks already passed and kept,
  \<open>xs\<close> those ahead.
\<close>

lemma tick_scan_ok:
  "delay_list os (us @ xs) \<Longrightarrow>
     \<exists>os'. tick_scan (first_or xs None) os = Some os' \<and>
           delay_list os' (us @ filter (\<lambda>t. TimeToWait (task t os) \<noteq> OSTickCounter os) xs) \<and>
           unlinked os' =
             fold expire (filter (\<lambda>t. TimeToWait (task t os) = OSTickCounter os) xs) (unlinked os)"
proof (induction xs arbitrary: os us)
  case Nil
  then show ?case by simp
next
  case (Cons x xs)
  have x: "x < length (ContextTask os)" and d: "x \<notin> set xs"
    using Cons.prems delay_list_bound [OF Cons.prems] delay_list_distinct [OF Cons.prems] by auto
  have nx: "Next (task x os) = first_or xs None"
    using Cons.prems by (rule delay_list_Next)
  show ?case
  proof (cases "TimeToWait (task x os) = OSTickCounter os")
    case False
    then show ?thesis
      using Cons.IH [of os "us @ [x]"] Cons.prems nx by (simp add: tick_scan_Some)
  next
    case True
    have dl: "delay_list (expire x os) (us @ x # xs)"
      using Cons.prems by simp
    then obtain os1 where r: "RemoveFromDelayList x (expire x os) = Some os1"
      and dl1: "delay_list os1 (us @ xs)"
      using delay_list_remove by blast
    have n1: "Next (task x os1) = first_or xs None"
      using remove_Next [OF r] delay_list_self [OF dl] nx by simp
    have u1: "unlinked os1 = expire x (unlinked os)"
      using unlinked_remove [OF r] x by (simp add: unlinked_expire)
    have tick1: "OSTickCounter os1 = OSTickCounter os"
      using unlinked_eqD(3) [OF unlinked_remove [OF r]] by simp
    have time1: "TimeToWait (task t os1) = TimeToWait (task t os)" if "t \<in> set xs" for t
    proof -
      have "t < length (ContextTask os)" and "t \<noteq> x"
        using that d delay_list_bound [OF Cons.prems] by auto
      then show ?thesis
        using unlinked_taskD(1) [OF unlinked_remove [OF r], of t] by (simp add: expire_time)
    qed
    have f: "filter (\<lambda>t. TimeToWait (task t os1) = OSTickCounter os1) xs =
             filter (\<lambda>t. TimeToWait (task t os) = OSTickCounter os) xs"
      "filter (\<lambda>t. TimeToWait (task t os1) \<noteq> OSTickCounter os1) xs =
             filter (\<lambda>t. TimeToWait (task t os) \<noteq> OSTickCounter os) xs"
      by (auto simp: tick1 time1 intro!: filter_cong)
    show ?thesis
      using Cons.IH [OF dl1] True r n1 u1 unfolding f by (simp add: tick_scan_Some)
  qed
qed

lemma system_load_sel [simp]:
  "OSReadyList (system_load os) = OSReadyList os" "OSBlockedList (system_load os) = OSBlockedList os"
  "OSTickCounter (system_load os) = OSTickCounter os" "currentTask (system_load os) = currentTask os"
  "PriorityVector (system_load os) = PriorityVector os" "iNesting (system_load os) = iNesting os"
  "ContextTask (system_load os) = ContextTask os" "Head (system_load os) = Head os"
  "Tail (system_load os) = Tail os" "TaskAlloc (system_load os) = TaskAlloc os"
  "BRTOS_Sem_Table (system_load os) = BRTOS_Sem_Table os"
  "BRTOS_Mutex_Table (system_load os) = BRTOS_Mutex_Table os"
  "BRTOS_Queue_Table (system_load os) = BRTOS_Queue_Table os"
  "BRTOS_OS_QUEUE_Table (system_load os) = BRTOS_OS_QUEUE_Table os"
  "QUEUE_STACK (system_load os) = QUEUE_STACK os"
  by (simp_all add: system_load_def Let_def)

lemma delay_list_system_load [simp]: "delay_list (system_load os) xs = delay_list os xs"
  by (simp add: delay_list_def)

lemma delay_list_OSIncCounter [simp]: "delay_list (OSIncCounter os) xs = delay_list os xs"
  by (simp add: delay_list_def OSIncCounter_def Let_def)

text \<open>The tasks in \<open>xs\<close> whose time has come.\<close>

abbreviation due :: "os \<Rightarrow> nat \<Rightarrow> bool" where
  "due os t \<equiv> TimeToWait (task t os) = OSTickCounter os"

lemma OS_TICK_HANDLER_ok:
  assumes dl: "delay_list os xs" and pr: "\<forall>t \<in> set xs. Priority (task t os) < 32"
  shows "\<exists>os'. OS_TICK_HANDLER os = Some os' \<and>
           delay_list os' (filter (\<lambda>t. \<not> due os t) xs) \<and>
           (\<forall>p. bit (OSReadyList os') p \<longleftrightarrow>
                  bit (OSReadyList os) p \<or> (\<exists>t \<in> set xs. due os t \<and> p = Priority (task t os))) \<and>
           length (ContextTask os') = length (ContextTask os) \<and>
           (\<forall>t < length (ContextTask os).
              Priority (task t os') = Priority (task t os) \<and>
              TimeToWait (task t os') =
                (if t \<in> set xs \<and> due os t then EXIT_BY_TIMEOUT else TimeToWait (task t os))) \<and>
           OSTickCounter os' = OSTickCounter os \<and> OSBlockedList os' = OSBlockedList os \<and>
           PriorityVector os' = PriorityVector os \<and> currentTask os' = currentTask os \<and>
           iNesting os' = iNesting os"
proof -
  let ?E = "filter (due os) xs"
  have "Head os = first_or xs None"
    using dl by (simp add: delay_list_def)
  then obtain os1 where s: "tick_scan (Head os) os = Some os1"
    and d1: "delay_list os1 (filter (\<lambda>t. \<not> due os t) xs)"
    and u1: "unlinked os1 = fold expire ?E (unlinked os)"
    using tick_scan_ok [of os "[]" xs] dl by auto
  have b: "t < length (ContextTask os)" if "t \<in> set xs" for t
    using dl that by (rule delay_list_bound)
  have len: "length (ContextTask os1) = length (ContextTask os)"
    using arg_cong [OF u1, of "\<lambda>st. length (ContextTask st)"] by simp
  have e: "OSReadyList os1 = OSReadyList (fold expire ?E (unlinked os))"
    "OSTickCounter os1 = OSTickCounter os" "OSBlockedList os1 = OSBlockedList os"
    "PriorityVector os1 = PriorityVector os" "currentTask os1 = currentTask os"
    "iNesting os1 = iNesting os"
    using arg_cong [OF u1, of OSReadyList] arg_cong [OF u1, of OSTickCounter]
      arg_cong [OF u1, of OSBlockedList] arg_cong [OF u1, of PriorityVector]
      arg_cong [OF u1, of currentTask] arg_cong [OF u1, of iNesting] by simp_all
  have tk: "Priority (task t os1) = Priority (task t os)"
    "TimeToWait (task t os1) =
       (if t \<in> set xs \<and> due os t then EXIT_BY_TIMEOUT else TimeToWait (task t os))"
    if "t < length (ContextTask os)" for t
    using arg_cong [OF u1, of "\<lambda>st. Priority (task t st)"]
      arg_cong [OF u1, of "\<lambda>st. TimeToWait (task t st)"] that len
    by (simp_all add: fold_expire_time)
  have rdy: "bit (OSReadyList os1) p \<longleftrightarrow>
      bit (OSReadyList os) p \<or> (\<exists>t \<in> set xs. due os t \<and> p = Priority (task t os))" for p
    using pr b by (subst e(1), subst fold_expire_ready) auto
  show ?thesis
    using s d1 len e(2-6) tk rdy by (simp add: OS_TICK_HANDLER_def)
qed

text \<open>The handler leaves the event tables and the task allocation alone.\<close>

lemma fold_expire_frame:
  "TaskAlloc (fold expire ts os) = TaskAlloc os"
  "BRTOS_Sem_Table (fold expire ts os) = BRTOS_Sem_Table os"
  "BRTOS_Mutex_Table (fold expire ts os) = BRTOS_Mutex_Table os"
  "BRTOS_Queue_Table (fold expire ts os) = BRTOS_Queue_Table os"
  "BRTOS_OS_QUEUE_Table (fold expire ts os) = BRTOS_OS_QUEUE_Table os"
  "QUEUE_STACK (fold expire ts os) = QUEUE_STACK os"
  by (induction ts arbitrary: os) (auto simp: expire_def)

lemma OS_TICK_HANDLER_frame:
  assumes "OS_TICK_HANDLER os = Some os'" and dl: "delay_list os xs"
  shows "TaskAlloc os' = TaskAlloc os" "BRTOS_Sem_Table os' = BRTOS_Sem_Table os"
    "BRTOS_Mutex_Table os' = BRTOS_Mutex_Table os" "BRTOS_Queue_Table os' = BRTOS_Queue_Table os"
    "BRTOS_OS_QUEUE_Table os' = BRTOS_OS_QUEUE_Table os" "QUEUE_STACK os' = QUEUE_STACK os"
proof -
  have "Head os = first_or xs None"
    using dl by (simp add: delay_list_def)
  then obtain os1 where s: "tick_scan (Head os) os = Some os1"
    and u: "unlinked os1 = fold expire (filter (due os) xs) (unlinked os)"
    using tick_scan_ok [of os "[]" xs] dl by auto
  have "os' = system_load os1"
    using assms(1) s by (simp add: OS_TICK_HANDLER_def)
  then show "TaskAlloc os' = TaskAlloc os" "BRTOS_Sem_Table os' = BRTOS_Sem_Table os"
    "BRTOS_Mutex_Table os' = BRTOS_Mutex_Table os" "BRTOS_Queue_Table os' = BRTOS_Queue_Table os"
    "BRTOS_OS_QUEUE_Table os' = BRTOS_OS_QUEUE_Table os" "QUEUE_STACK os' = QUEUE_STACK os"
    using arg_cong [OF u, of TaskAlloc] arg_cong [OF u, of BRTOS_Sem_Table]
      arg_cong [OF u, of BRTOS_Mutex_Table] arg_cong [OF u, of BRTOS_Queue_Table]
      arg_cong [OF u, of BRTOS_OS_QUEUE_Table] arg_cong [OF u, of QUEUE_STACK]
    by (simp_all add: fold_expire_frame)
qed

text \<open>
  C5. The tick handler always returns; it removes exactly the tasks whose time has come from
  the delay list, keeping the others in their order, makes exactly those ready and marks them
  \<open>EXIT_BY_TIMEOUT\<close>.
\<close>

theorem OS_TICK_HANDLER_wakes:
  assumes "delay_list os xs" and "\<forall>t \<in> set xs. Priority (task t os) < 32"
  shows "\<exists>os'. OS_TICK_HANDLER os = Some os' \<and>
           delay_list os' (filter (\<lambda>t. \<not> due os t) xs) \<and>
           (\<forall>p. bit (OSReadyList os') p \<longleftrightarrow>
                  bit (OSReadyList os) p \<or> (\<exists>t \<in> set xs. due os t \<and> p = Priority (task t os))) \<and>
           (\<forall>t < length (ContextTask os). TimeToWait (task t os') =
                (if t \<in> set xs \<and> due os t then EXIT_BY_TIMEOUT else TimeToWait (task t os)))"
  using OS_TICK_HANDLER_ok [OF assms] by blast

section \<open>Sequences of ticks\<close>

lemma ticks_add: "ticks (j + k) os = do { os1 \<leftarrow> ticks j os; ticks k os1 }"
  by (induction j arbitrary: os) (auto split: Option.bind_split)

lemma ticks_Suc_last: "ticks (Suc k) os = do { os1 \<leftarrow> ticks k os; tick os1 }"
  using ticks_add [of k 1 os] by (auto split: Option.bind_split)

lemma CLOCK_LT_iff: "CLOCK_LT a b \<longleftrightarrow> 2 ^ 15 \<le> unat (a - b)"
proof -
  let ?w = "a - b"
  have "sint ?w < 0 \<longleftrightarrow> bit ?w 15"
    using bit_last_iff [of ?w] by simp
  also have "\<dots> \<longleftrightarrow> odd (unat ?w div 2 ^ 15)"
    by (metis bit_iff_odd bit_unsigned_iff bit_imp_le_length unsigned_0 bit_0_eq possible_bit_word possible_bit_nat)
  also have "\<dots> \<longleftrightarrow> 2 ^ 15 \<le> unat ?w"
  proof -
    have "unat ?w < 2 ^ 16"
      using unsigned_less [of ?w, where 'a = nat] by simp
    then have "unat ?w div 2 ^ 15 < 2"
      by (simp add: less_mult_imp_div_less)
    then have "odd (unat ?w div 2 ^ 15) \<longleftrightarrow> unat ?w div 2 ^ 15 \<noteq> 0"
      by (cases "unat ?w div 2 ^ 15") auto
    also have "\<dots> \<longleftrightarrow> 2 ^ 15 \<le> unat ?w"
      by (auto simp: div_eq_0_iff)
    finally show ?thesis .
  qed
  finally show ?thesis
    by (simp add: CLOCK_LT_def)
qed

text \<open>
  The interrupt catches up: when the counter has run \<open>d\<close> steps past the compare register,
  the loop runs the tick handler once for every period begun and leaves the compare register
  in the future.
\<close>

theorem TickTimer_catches_up:
  assumes "unat (tar - ccr) = d" and "d < 2 ^ 15" and "d div 32 + 1 < n"
  shows "TickTimer_loop (replicate n tar) ccr os =
           do { os' \<leftarrow> ticks (d div 32 + 1) os;
                Some (ccr + SYSTEM_TICK * of_nat (d div 32 + 1), os') } \<and>
         CLOCK_LT tar (ccr + SYSTEM_TICK * of_nat (d div 32 + 1))"
  using assms
proof (induction "d div 32" arbitrary: d ccr n os)
  case 0
  have lt: "CLOCK_LT tar (ccr + 32)"
  proof -
    have eq: "tar - (ccr + 32) = (tar - ccr) - 32" by simp
    have "unat ((tar - ccr) - 32) = 2 ^ 16 + d - 32"
      using 0 by (simp add: unat_sub_if')
    then show ?thesis
      unfolding CLOCK_LT_iff eq by simp
  qed
  obtain m where n: "n = Suc (Suc m)"
    using 0 by (cases n; cases "n - 1") auto
  have "\<not> CLOCK_LT tar ccr"
    using 0 by (simp add: CLOCK_LT_iff)
  with lt n 0 show ?case
    by (cases "tick os") (simp_all add: tick_def [symmetric])
next
  case (Suc k)
  then have d: "32 \<le> d" by (cases "d < 32") auto
  obtain m where n: "n = Suc m" using Suc.prems by (cases n) auto
  have "\<not> CLOCK_LT tar ccr"
    using Suc.prems by (simp add: CLOCK_LT_iff)
  moreover have u: "unat (tar - (ccr + 32)) = d - 32"
  proof -
    have eq: "tar - (ccr + 32) = (tar - ccr) - 32" by simp
    show ?thesis unfolding eq using Suc.prems d by (simp add: unat_sub_if')
  qed
  moreover have k: "k = (d - 32) div 32" "d div 32 = Suc ((d - 32) div 32)"
    using Suc.hyps(2) d by (simp_all add: le_div_geq)
  moreover note IH = Suc.hyps(1) [OF k(1) u, of m]
  ultimately show ?case
    using Suc.prems n by (cases "tick os") (simp_all add: tick_def [symmetric] algebra_simps)
qed

text \<open>The contexts of a tick that leaves the counter below its overflow value.\<close>

lemma OSIncCounter_sel [simp]:
  "OSReadyList (OSIncCounter os) = OSReadyList os" "ContextTask (OSIncCounter os) = ContextTask os"
  "OSBlockedList (OSIncCounter os) = OSBlockedList os" "currentTask (OSIncCounter os) = currentTask os"
  "PriorityVector (OSIncCounter os) = PriorityVector os" "iNesting (OSIncCounter os) = iNesting os"
  "TaskAlloc (OSIncCounter os) = TaskAlloc os" "BRTOS_Sem_Table (OSIncCounter os) = BRTOS_Sem_Table os"
  "BRTOS_Mutex_Table (OSIncCounter os) = BRTOS_Mutex_Table os"
  "BRTOS_Queue_Table (OSIncCounter os) = BRTOS_Queue_Table os"
  by (simp_all add: OSIncCounter_def Let_def)

lemma OSIncCounter_unat:
  assumes "unat (OSTickCounter os) + 1 < unat TICK_COUNT_OVERFLOW"
  shows "OSTickCounter (OSIncCounter os) = OSTickCounter os + 1"
    and "unat (OSTickCounter os + 1) = unat (OSTickCounter os) + 1"
proof -
  have "unat TICK_COUNT_OVERFLOW = 2 ^ 64 - 4"
    by (simp add: codes)
  with assms show u: "unat (OSTickCounter os + 1) = unat (OSTickCounter os) + 1"
    by (intro unat_add_1) simp
  from assms u have "OSTickCounter os + 1 \<noteq> TICK_COUNT_OVERFLOW"
    by force
  then show "OSTickCounter (OSIncCounter os) = OSTickCounter os + 1"
    by (simp add: OSIncCounter_def)
qed

text \<open>A delayed task sleeps through every tick before its own.\<close>

lemma ticks_sleep:
  assumes "delay_list os xs" and "t \<in> set xs"
    and "\<forall>u \<in> set xs. Priority (task u os) < 32"
    and "\<forall>u \<in> set xs. u \<noteq> t \<longrightarrow> Priority (task u os) \<noteq> Priority (task t os)"
    and "\<not> bit (OSReadyList os) (Priority (task t os))"
    and "TimeToWait (task t os) = OSTickCounter os + of_nat n"
    and "unat (OSTickCounter os) + n < unat TICK_COUNT_OVERFLOW" and "k < n"
  shows "\<exists>os' ys. ticks k os = Some os' \<and> delay_list os' ys \<and> t \<in> set ys \<and> set ys \<subseteq> set xs \<and>
           (\<forall>u \<in> set xs. Priority (task u os') = Priority (task u os)) \<and>
           \<not> bit (OSReadyList os') (Priority (task t os)) \<and>
           TimeToWait (task t os') = TimeToWait (task t os) \<and>
           OSTickCounter os' = OSTickCounter os + of_nat k \<and>
           unat (OSTickCounter os') = unat (OSTickCounter os) + k \<and>
           length (ContextTask os') = length (ContextTask os)"
  using \<open>k < n\<close>
proof (induction k)
  case 0
  then show ?case using assms by auto
next
  case (Suc k)
  then obtain os1 ys where IH: "ticks k os = Some os1" "delay_list os1 ys" "t \<in> set ys"
    "set ys \<subseteq> set xs" "\<forall>u \<in> set xs. Priority (task u os1) = Priority (task u os)"
    "\<not> bit (OSReadyList os1) (Priority (task t os))"
    "TimeToWait (task t os1) = TimeToWait (task t os)"
    "OSTickCounter os1 = OSTickCounter os + of_nat k"
    "unat (OSTickCounter os1) = unat (OSTickCounter os) + k"
    "length (ContextTask os1) = length (ContextTask os)"
    by auto
  let ?o = "OSIncCounter os1"
  have c: "OSTickCounter ?o = OSTickCounter os + of_nat (Suc k)"
    "unat (OSTickCounter ?o) = unat (OSTickCounter os) + Suc k"
    using OSIncCounter_unat [of os1] IH(8,9) assms(7) Suc.prems by (simp_all add: algebra_simps)
  have n: "unat (OSTickCounter os + of_nat n) = unat (OSTickCounter os) + n"
  proof -
    show ?thesis
      using assms(7) by (intro unat_add_of_nat) (simp add: codes)
  qed
  have nd: "\<not> due ?o t"
    using IH(7) assms(6) c(2) n Suc.prems by (auto simp del: of_nat_Suc)
  have "\<forall>u \<in> set ys. Priority (task u ?o) < 32"
    using IH(4,5) assms(3) by auto
  then obtain os2 where h: "OS_TICK_HANDLER ?o = Some os2"
    "delay_list os2 (filter (\<lambda>u. \<not> due ?o u) ys)"
    "\<forall>p. bit (OSReadyList os2) p \<longleftrightarrow>
       bit (OSReadyList ?o) p \<or> (\<exists>u \<in> set ys. due ?o u \<and> p = Priority (task u ?o))"
    "length (ContextTask os2) = length (ContextTask ?o)"
    "\<forall>u < length (ContextTask ?o). Priority (task u os2) = Priority (task u ?o) \<and>
       TimeToWait (task u os2) = (if u \<in> set ys \<and> due ?o u then EXIT_BY_TIMEOUT else TimeToWait (task u ?o))"
    "OSTickCounter os2 = OSTickCounter ?o"
    using OS_TICK_HANDLER_ok [of ?o ys] IH(2) by auto
  have b: "u < length (ContextTask os)" if "u \<in> set xs" for u
    using assms(1) that by (rule delay_list_bound)
  have "ticks (Suc k) os = Some os2"
    using IH(1) h(1) by (simp add: ticks_Suc_last tick_def del: ticks.simps)
  moreover have "Priority (task u ?o) \<noteq> Priority (task t os)" if "u \<in> set ys" and "due ?o u" for u
    using that nd IH(4,5) assms(4) by (metis OSIncCounter_sel(2) subsetD)
  then have "\<not> bit (OSReadyList os2) (Priority (task t os))"
    using h(3) IH(6) by auto
  moreover have "\<forall>u \<in> set xs. Priority (task u os2) = Priority (task u os)"
    using h(5) IH(5,10) b by auto
  moreover have "TimeToWait (task t os2) = TimeToWait (task t os)"
    using h(5) IH(7,10) b assms(2) nd by auto
  ultimately show ?case
    using h(2,4,6) IH(3,4,10) nd c by (intro exI [of _ os2] exI [of _ "filter (\<lambda>u. \<not> due ?o u) ys"]) auto
qed

lemma OSDelayTask_ok:
  assumes "iNesting os = 0" and "currentTask os = t" and "t \<noteq> 0" and "0 < w"
    and "delay_list os xs" and "t \<notin> set xs" and "t < length (ContextTask os)"
    and "\<forall>u \<in> set (xs @ [t]). Priority (task u os) < 32"
  shows "\<exists>os1. OSDelayTask w os = (Suspended, os1) \<and> delay_list os1 (xs @ [t]) \<and>
           unlinked os1 = unlinked (ChangeContext (clear_ready (Priority (task t os))
             (upd_task t (\<lambda>c. c\<lparr>TimeToWait := OSTickCounter os + w\<rparr>) os)))"
proof -
  let ?o = "upd_task t (\<lambda>c. c\<lparr>TimeToWait := OSTickCounter os + w\<rparr>) os"
  let ?i = "IncludeTaskIntoDelayList t ?o"
  have dl: "delay_list ?i (xs @ [t])"
    using assms by (intro delay_list_include) simp_all
  have u: "unlinked ?i = unlinked ?o" by simp
  have "Priority (task t ?i) = Priority (task t os)"
    using unlinked_taskD(2) [OF u, of t] assms(7) by simp
  moreover have "unlinked (ChangeContext (clear_ready p ?i)) = unlinked (ChangeContext (clear_ready p ?o))" for p
  proof -
    have "unlinked (ChangeContext (clear_ready p s)) = ChangeContext (clear_ready p (unlinked s))" for s
      by (simp add: unlinked_def clear_ready_def SwitchContext_def OSSchedule_def Let_def)
    then show ?thesis by simp
  qed
  ultimately show ?thesis
    using assms dl by (simp add: OSDelayTask_def Let_def del: unlinked_include)
qed

text \<open>Until the tick that wakes it the task stays in the delay list and is not ready.\<close>

lemma OSDelayTask_sleeps:
  assumes "iNesting os = 0" and "currentTask os = t" and "t \<noteq> 0" and "0 < w"
    and "delay_list os xs" and "t \<notin> set xs" and "t < length (ContextTask os)"
    and "\<forall>u \<in> set (xs @ [t]). Priority (task u os) < 32"
    and "\<forall>u \<in> set xs. Priority (task u os) \<noteq> Priority (task t os)"
    and "unat (OSTickCounter os) + unat w < unat TICK_COUNT_OVERFLOW"
  obtains os1 where "OSDelayTask w os = (Suspended, os1)"
    and "\<And>x. x \<in> set (xs @ [t]) \<Longrightarrow> Priority (task x os1) = Priority (task x os)"
    and "TimeToWait (task t os1) = OSTickCounter os1 + of_nat (unat w)" and "OSTickCounter os1 = OSTickCounter os"
    and "\<And>k. k < unat w \<Longrightarrow> \<exists>os' ys. ticks k os1 = Some os' \<and> delay_list os' ys \<and> t \<in> set ys \<and>
      set ys \<subseteq> set (xs @ [t]) \<and>
      (\<forall>u \<in> set (xs @ [t]). Priority (task u os') = Priority (task u os1)) \<and>
      \<not> bit (OSReadyList os') (Priority (task t os1)) \<and>
      TimeToWait (task t os') = TimeToWait (task t os1) \<and>
      OSTickCounter os' = OSTickCounter os1 + of_nat k \<and>
      unat (OSTickCounter os') = unat (OSTickCounter os1) + k \<and>
      length (ContextTask os') = length (ContextTask os1)"
proof -
  obtain os1 where r: "OSDelayTask w os = (Suspended, os1)" and dl: "delay_list os1 (xs @ [t])"
    and u: "unlinked os1 = unlinked (ChangeContext (clear_ready (Priority (task t os))
             (upd_task t (\<lambda>c. c\<lparr>TimeToWait := OSTickCounter os + w\<rparr>) os)))"
    using OSDelayTask_ok [OF assms(1-8)] by auto
  have b: "x < length (ContextTask os)" if "x \<in> set xs" for x
    using assms(5) that by (rule delay_list_bound)
  have pr: "\<forall>x \<in> set (xs @ [t]). Priority (task x os1) = Priority (task x os)"
    using unlinked_taskD(2) [OF u] b assms(7) by (auto simp: upd_task_def nth_upd)
  have tm: "TimeToWait (task t os1) = OSTickCounter os1 + of_nat (unat w)"
    and tk: "OSTickCounter os1 = OSTickCounter os"
    using unlinked_taskD(1) [OF u, of t] unlinked_eqD(3) [OF u] assms(7) by simp_all
  have nr: "\<not> bit (OSReadyList os1) (Priority (task t os1))"
    using unlinked_eqD(1) [OF u] pr assms(8) by (simp add: ready_clear)
  have "\<exists>os' ys. ticks k os1 = Some os' \<and> delay_list os' ys \<and> t \<in> set ys \<and>
      set ys \<subseteq> set (xs @ [t]) \<and>
      (\<forall>u \<in> set (xs @ [t]). Priority (task u os') = Priority (task u os1)) \<and>
      \<not> bit (OSReadyList os') (Priority (task t os1)) \<and>
      TimeToWait (task t os') = TimeToWait (task t os1) \<and>
      OSTickCounter os' = OSTickCounter os1 + of_nat k \<and>
      unat (OSTickCounter os') = unat (OSTickCounter os1) + k \<and>
      length (ContextTask os') = length (ContextTask os1)" if "k < unat w" for k
    using assms(8-10) pr tk that
    by (intro ticks_sleep [OF dl _ _ _ nr tm]) auto
  then show thesis using r pr tm tk by (intro that) blast+
qed

text \<open>
  C4. A delay is exact.  A task that calls \<open>OSDelayTask(w)\<close> is not made ready by any of the
  next \<open>w - 1\<close> ticks and is made ready by the \<open>w\<close>-th, as long as the tick counter does not
  reach its overflow value on the way and no sleeping task shares its priority.
\<close>

theorem OSDelayTask_exact:
  assumes "iNesting os = 0" and "currentTask os = t" and "t \<noteq> 0" and "0 < w"
    and "delay_list os xs" and "t \<notin> set xs" and "t < length (ContextTask os)"
    and "\<forall>u \<in> set (xs @ [t]). Priority (task u os) < 32"
    and "\<forall>u \<in> set xs. Priority (task u os) \<noteq> Priority (task t os)"
    and "unat (OSTickCounter os) + unat w < unat TICK_COUNT_OVERFLOW"
  shows "\<exists>os1. OSDelayTask w os = (Suspended, os1) \<and>
           (\<forall>k < unat w. \<exists>os'. ticks k os1 = Some os' \<and>
              \<not> bit (OSReadyList os') (Priority (task t os))) \<and>
           (\<exists>os'. ticks (unat w) os1 = Some os' \<and>
              bit (OSReadyList os') (Priority (task t os)))"
proof -
  obtain os1 where r: "OSDelayTask w os = (Suspended, os1)"
    and pr: "\<And>x. x \<in> set (xs @ [t]) \<Longrightarrow> Priority (task x os1) = Priority (task x os)"
    and tm: "TimeToWait (task t os1) = OSTickCounter os1 + of_nat (unat w)" and tk: "OSTickCounter os1 = OSTickCounter os"
    and sl: "\<And>k. k < unat w \<Longrightarrow> \<exists>os' ys. ticks k os1 = Some os' \<and> delay_list os' ys \<and> t \<in> set ys \<and>
      set ys \<subseteq> set (xs @ [t]) \<and>
      (\<forall>u \<in> set (xs @ [t]). Priority (task u os') = Priority (task u os1)) \<and>
      \<not> bit (OSReadyList os') (Priority (task t os1)) \<and>
      TimeToWait (task t os') = TimeToWait (task t os1) \<and>
      OSTickCounter os' = OSTickCounter os1 + of_nat k \<and>
      unat (OSTickCounter os') = unat (OSTickCounter os1) + k \<and>
      length (ContextTask os') = length (ContextTask os1)"
    by (rule OSDelayTask_sleeps [OF assms]) (rule that)
  obtain k where k: "unat w = Suc k"
    using assms(4) by (cases "unat w") (simp_all add: unat_eq_zero word_gt_0)
  then obtain os2 ys where s2: "ticks k os1 = Some os2" "delay_list os2 ys" "t \<in> set ys"
      "set ys \<subseteq> set (xs @ [t])"
      "\<forall>u \<in> set (xs @ [t]). Priority (task u os2) = Priority (task u os1)"
      "TimeToWait (task t os2) = TimeToWait (task t os1)"
      "OSTickCounter os2 = OSTickCounter os1 + of_nat k"
      "unat (OSTickCounter os2) = unat (OSTickCounter os1) + k"
    using sl [of k] by auto
  let ?o = "OSIncCounter os2"
  have "OSTickCounter ?o = OSTickCounter os1 + of_nat (unat w)"
    using OSIncCounter_unat(1) [of os2] s2(7,8) assms(10) k tk by (simp add: algebra_simps)
  then have due: "due ?o t"
    using s2(6) tm by simp
  have "\<forall>u \<in> set ys. Priority (task u ?o) < 32"
    using s2(4,5) pr assms(8) by auto
  then obtain os3 where h: "OS_TICK_HANDLER ?o = Some os3"
    "\<forall>p. bit (OSReadyList os3) p \<longleftrightarrow>
       bit (OSReadyList ?o) p \<or> (\<exists>u \<in> set ys. due ?o u \<and> p = Priority (task u ?o))"
    using OS_TICK_HANDLER_ok [of ?o ys] s2(2) by auto
  have "bit (OSReadyList os3) (Priority (task t os))"
    using h(2) due s2(3,5) pr by auto
  moreover have "ticks (unat w) os1 = Some os3"
    using s2(1) h(1) unfolding k by (simp add: ticks_Suc_last tick_def del: ticks.simps)
  moreover have "\<exists>os'. ticks j os1 = Some os' \<and> \<not> bit (OSReadyList os') (Priority (task t os))"
    if jw: "j < unat w" for j
  proof -
    obtain os' where "ticks j os1 = Some os'" "\<not> bit (OSReadyList os') (Priority (task t os1))"
      using sl [OF jw] by blast
    then show ?thesis using pr by simp
  qed
  ultimately show ?thesis
    using r by blast
qed

text \<open>
  \<open>OSDelayTaskHMSM\<close> asks for exactly the time given, in pieces that fit the 16-bit delay
  argument, and refuses times that are not of the form h:m:s.ms.
\<close>

theorem OSDelayTaskHMSM_total:
  "OSDelayTaskHMSM h m s ms =
     (if m > 59 \<or> s > 59 \<or> ms > 999 then (INVALID_TIME, [])
      else if h = 0 \<and> m = 0 \<and> s = 0 \<and> ms = 0 then (NO_TASK_DELAY, [])
      else (OK, snd (OSDelayTaskHMSM h m s ms))) \<and>
   (m \<le> 59 \<and> s \<le> 59 \<and> ms \<le> 999 \<longrightarrow>
      sum_list (map unat (snd (OSDelayTaskHMSM h m s ms))) =
        3600000 * unat h + 60000 * unat m + 1000 * unat s + unat ms \<and>
      (\<forall>d \<in> set (snd (OSDelayTaskHMSM h m s ms)). unat d \<le> 60000))"
proof (cases "m \<le> 59 \<and> s \<le> 59 \<and> ms \<le> 999")
  case False
  then show ?thesis by (auto simp: OSDelayTaskHMSM_def not_le)
next
  case True
  let ?t = "ucast h * 3600 * configTICK_RATE_HZ + ucast m * 60 * configTICK_RATE_HZ
            + ucast s * configTICK_RATE_HZ + (ucast ms * configTICK_RATE_HZ) div 1000 :: u32"
  let ?n = "3600000 * unat h + 60000 * unat m + 1000 * unat s + unat ms"
  have b: "unat h < 256" "unat m \<le> 59" "unat s \<le> 59" "unat ms \<le> 999"
    using True unsigned_less [of h, where 'a = nat] by (simp_all add: word_le_nat_alt)
  have "unat (of_nat (unat ms * 1000) :: u32) = unat ms * 1000"
    using b by (simp add: unat_of_nat del: of_nat_mult)
  then have "unat (ucast ms * configTICK_RATE_HZ :: u32) = unat ms * 1000"
    by (simp add: ucast_of_nat del: of_nat_unat)
  then have "(ucast ms * configTICK_RATE_HZ) div 1000 = (of_nat (unat ms) :: u32)"
    using b by (simp add: word_unat_eq_iff unat_div unat_of_nat del: of_nat_unat)
  then have t: "?t = of_nat ?n"
    by (simp add: ucast_of_nat del: of_nat_unat)
  define T where "T = ?t"
  have n: "unat T = ?n"
    using b unfolding T_def t by (simp add: unat_of_nat del: of_nat_add of_nat_mult of_nat_unat)
  define N where "N = ?n"
  have z: "T > 0 \<longleftrightarrow> N > 0" and z0: "N = 0 \<longleftrightarrow> h = 0 \<and> m = 0 \<and> s = 0 \<and> ms = 0"
    by (simp_all only: word_less_nat_alt n unat_0 N_def) (simp add: word_unat_eq_iff)
  have "N mod 60000 < 65536"
    by (rule less_trans [OF mod_less_divisor]) simp_all
  then have r: "unat (ucast (ucast (T mod 60000) :: u16) :: u64) = N mod 60000"
    by (simp add: unat_ucast_mod unat_mod n N_def [symmetric])
  have l: "unat (T div 60000) = N div 60000"
    by (simp add: unat_div n N_def [symmetric])
  have def: "OSDelayTaskHMSM h m s ms =
      (if T > 0 then (OK, ucast (ucast (T mod 60000) :: u16) # replicate (unat (T div 60000)) 60000)
       else (NO_TASK_DELAY, []))"
    using True by (simp add: OSDelayTaskHMSM_def Let_def not_less T_def)
  have sum: "sum_list (map unat (snd (OSDelayTaskHMSM h m s ms))) = N"
    using z r l by (simp add: def sum_list_replicate)
  have each: "\<forall>d \<in> set (snd (OSDelayTaskHMSM h m s ms)). unat d \<le> 60000"
  proof -
    have "N mod 60000 \<le> 60000" by (rule less_imp_le) simp
    then show ?thesis using r by (simp add: def)
  qed
  have ret: "OSDelayTaskHMSM h m s ms =
      (if h = 0 \<and> m = 0 \<and> s = 0 \<and> ms = 0 then (NO_TASK_DELAY, [])
       else (OK, snd (OSDelayTaskHMSM h m s ms)))"
    using z z0 by (auto simp: def)
  have "\<not> (m > 59 \<or> s > 59 \<or> ms > 999)"
    using True by (simp add: not_less)
  then show ?thesis
    using sum each ret by (simp add: N_def)
qed

section \<open>Concrete runs\<close>

text \<open>Task 1 (priority 5) runs; task 2 (priority 3) sleeps until tick 7.\<close>

definition two_tasks :: os where
  "two_tasks = os_globals\<lparr>OSReadyList := 0x20, OSTickCounter := 6, currentTask := 1,
     ContextTask := [tcb_zero, tcb_zero\<lparr>Priority := 5\<rparr>, tcb_zero\<lparr>Priority := 3, TimeToWait := 7\<rparr>],
     Head := Some 2, Tail := Some 2\<rparr>"

lemma two_tasks_delay_list: "delay_list two_tasks [2]"
  by (simp add: delay_list_def two_tasks_def tcb_zero_def os_globals_def)

theorem OS_TICK_HANDLER_wakes_witness:
  "\<exists>os'. OS_TICK_HANDLER (two_tasks\<lparr>OSTickCounter := 7\<rparr>) = Some os' \<and> delay_list os' [] \<and>
     bit (OSReadyList os') 3"
proof -
  have "delay_list (two_tasks\<lparr>OSTickCounter := 7\<rparr>) [2]"
    using two_tasks_delay_list by (simp add: delay_list_def)
  then show ?thesis
    using OS_TICK_HANDLER_wakes [of "two_tasks\<lparr>OSTickCounter := 7\<rparr>" "[2]"]
    by (auto simp: two_tasks_def)
qed

theorem TickTimer_catches_up_witness:
  "TickTimer_loop (replicate 5 100) 32 os_globals =
     do { os' \<leftarrow> ticks 3 os_globals; Some (128, os') }"
  using TickTimer_catches_up [of 100 32 68 5 os_globals] by simp

theorem OSDelayTask_exact_witness:
  "\<exists>os1. OSDelayTask 4 two_tasks = (Suspended, os1) \<and>
     (\<exists>os'. ticks 4 os1 = Some os' \<and> bit (OSReadyList os') 5)"
proof -
  have "iNesting two_tasks = 0" "currentTask two_tasks = 1" "1 < length (ContextTask two_tasks)"
    "\<forall>u \<in> set ([2] @ [1]). Priority (task u two_tasks) < 32"
    "\<forall>u \<in> set [2]. Priority (task u two_tasks) \<noteq> Priority (task 1 two_tasks)"
    "unat (OSTickCounter two_tasks) + unat (4 :: u64) < unat TICK_COUNT_OVERFLOW"
    "Priority (task 1 two_tasks) = 5"
    by (simp_all add: two_tasks_def os_globals_def tcb_zero_def codes)
  then show ?thesis
    using OSDelayTask_exact [of two_tasks 1 4 "[2]"] two_tasks_delay_list by auto
qed

theorem OSDelayTaskHMSM_total_witness:
  "sum_list (map unat (snd (OSDelayTaskHMSM 1 2 3 4))) = 3723004"
  using OSDelayTaskHMSM_total [where h = 1 and m = 2 and s = 3 and ms = 4] by simp

end
