(* ===== verification/Tasks.thy ===== *)
theory Tasks
  imports Ticks
begin

text \<open>
  The task table of \<^verbatim>\<open>brtos/BRTOS.c\<close>: start-up (\<open>BRTOSInit\<close>, \<open>initEvents\<close>,
  \<open>PreInstallTasks\<close>), \<open>OSInstallTask\<close> with the initial stack frame that
  \<open>CreateVirtualStack\<close> of \<^verbatim>\<open>hal/HAL.c\<close> writes, and the operations which block and unblock
  tasks and priorities.  \<open>tasks_ok\<close> is the invariant that ties task control blocks,
  \<open>PriorityVector\<close> and the ready list together; the scheduler's choice rests on it.
\<close>

section \<open>Start-up\<close>

definition initEvents :: "os \<Rightarrow> os" where
  "initEvents os = os\<lparr>
     BRTOS_Sem_Table := map (\<lambda>e. e\<lparr>OSEventAllocated := False\<rparr>) (BRTOS_Sem_Table os),
     BRTOS_Mutex_Table := map (\<lambda>e. e\<lparr>OSEventAllocated := False\<rparr>) (BRTOS_Mutex_Table os),
     BRTOS_Queue_Table := map (\<lambda>e. e\<lparr>OSEventAllocated := False\<rparr>) (BRTOS_Queue_Table os)\<rparr>"

text \<open>\<open>stack_base\<close> is the address of the array \<open>STACK\<close>, chosen by the linker.\<close>

definition PreInstallTasks :: "u16 \<Rightarrow> os \<Rightarrow> os" where
  "PreInstallTasks stack_base os = os\<lparr>
     OSTickCounter := 0, currentTask := 0, NumberOfInstalledTasks := 0, TaskAlloc := 0,
     iStackAddress := 0, StackAddress := stack_base,
     PriorityVector := replicate configMAX_TASK_INSTALL EMPTY_PRIO,
     ContextTask := fold (\<lambda>i ctx. ctx[i := (ctx ! i)\<lparr>Priority := EMPTY_PRIO\<rparr>])
                      [1..<NUMBER_OF_TASKS + 1] (ContextTask os),
     Tail := None, Head := None\<rparr>"

definition BRTOSInit :: "u16 \<Rightarrow> os \<Rightarrow> os" where
  "BRTOSInit stack_base os = PreInstallTasks stack_base (initEvents os)"

section \<open>Installing a task\<close>

text \<open>The words pushed on a new stack: the entry address and status register, then the registers.\<close>

definition initial_frame :: "u32 \<Rightarrow> u32 list" where
  "initial_frame FctPtr =
     ((push_bit 16 (0x0000ffff AND FctPtr) OR drop_bit 4 (0x000f0000 AND FctPtr)) OR 0x00000008)
     # [0x15, 0x14, 0x13, 0x12, 0x11, 0x10, 0x09, 0x08, 0x07, 0x06, 0x05, 0x04]"

fun push_words :: "u32 list \<Rightarrow> nat \<Rightarrow> u32 list \<Rightarrow> u32 list" where
  "push_words [] stk_pt stack = stack"
| "push_words (w # ws) stk_pt stack = push_words ws (stk_pt - 1) (stack[stk_pt - 1 := w])"

definition CreateVirtualStack :: "u32 \<Rightarrow> u16 \<Rightarrow> os \<Rightarrow> os" where
  "CreateVirtualStack FctPtr NUMBER_OF_STACKED_BYTES os =
     os\<lparr>STACK := push_words (initial_frame FctPtr)
                  (unat (iStackAddress os) + unat NUMBER_OF_STACKED_BYTES div sizeof_OS_CPU_TYPE)
                  (STACK os)\<rparr>"

text \<open>
  \<open>Idle\<close> is the address of the idle task.  The result is the return code, the handle
  written through \<open>TaskHandle\<close> (if any) and the new state.
\<close>

definition OSInstallTask ::
  "u32 \<Rightarrow> u32 \<Rightarrow> string \<Rightarrow> u16 \<Rightarrow> nat \<Rightarrow> os \<Rightarrow> u8 \<times> nat option \<times> os" where
  "OSInstallTask Idle FctPtr name USER_STACKED_BYTES0 iPriority os =
    (let USER_STACKED_BYTES = USER_STACKED_BYTES0 - USER_STACKED_BYTES0 mod of_nat sizeof_OS_CPU_TYPE;
         words = unat USER_STACKED_BYTES div sizeof_OS_CPU_TYPE in
     if unat USER_STACKED_BYTES < NUMBER_MIN_OF_STACKED_BYTES then (STACK_SIZE_TOO_SMALL, None, os)
     else if unat (iStackAddress os) + words > HEAP_SIZE div sizeof_OS_CPU_TYPE
     then (NO_MEMORY, None, os)
     else if iPriority \<noteq> 0 \<and> iPriority > configMAX_TASK_PRIORITY
     then (END_OF_AVAILABLE_PRIORITIES, None, os)
     else if iPriority \<noteq> 0 \<and> PriorityVector os ! iPriority \<noteq> EMPTY_PRIO
     then (BUSY_PRIORITY, None, os)
     else if iPriority = 0 \<and> FctPtr \<noteq> Idle then (CANNOT_ASSIGN_IDLE_TASK_PRIO, None, os)
     else
       (let i = first_idx (\<lambda>i. push_bit i 1 AND TaskAlloc os = 0) [0..<NUMBER_OF_TASKS] in
        if i = NUMBER_OF_TASKS then (END_OF_AVAILABLE_TCB, None, os)
        else
          (let TaskNumber = i + 1;
               os1 = os\<lparr>TaskAlloc := TaskAlloc os OR push_bit i 1\<rparr>;
               os2 = os1\<lparr>NumberOfInstalledTasks := NumberOfInstalledTasks os1 + 1\<rparr>;
               os3 = upd_task TaskNumber (\<lambda>c. c\<lparr>
                       TaskName := name,
                       StackPoint := ucast (StackAddress os2 +
                         (USER_STACKED_BYTES - of_nat NUMBER_MIN_OF_STACKED_BYTES)),
                       StackInit := ucast (StackAddress os2 + USER_STACKED_BYTES),
                       Priority := iPriority\<rparr>) os2;
               os4 = os3\<lparr>PriorityVector := (PriorityVector os3)[iPriority := TaskNumber]\<rparr>;
               os5 = CreateVirtualStack FctPtr USER_STACKED_BYTES os4;
               os6 = os5\<lparr>iStackAddress := iStackAddress os5 + of_nat words,
                         StackAddress := StackAddress os5 + USER_STACKED_BYTES\<rparr>;
               os7 = upd_task TaskNumber (\<lambda>c. c\<lparr>TimeToWait := NO_TIMEOUT,
                       Next := None, Previous := None\<rparr>) os6
           in (OK, Some TaskNumber, set_ready iPriority os7))))"

definition BRTOSStart :: "u32 \<Rightarrow> os \<Rightarrow> u8 \<times> os" where
  "BRTOSStart Idle os =
     (case OSInstallTask Idle Idle ''Idle Task'' (of_nat (4 * NUMBER_MIN_OF_STACKED_BYTES)) 0 os of
        (_, _, os1) \<Rightarrow> (OK, os1\<lparr>currentTask := OSSchedule os1\<rparr>))"

section \<open>Blocking and unblocking\<close>

definition OSBlockPriority :: "nat \<Rightarrow> os \<Rightarrow> u8 \<times> os" where
  "OSBlockPriority iPriority os =
     (if iNesting os > 0 then (IRQ_PEND_ERR, os)
      else
        (let BlockedTask = PriorityVector os ! iPriority;
             os1 = os\<lparr>OSBlockedList := OSBlockedList os AND NOT (PriorityMask ! iPriority)\<rparr>
         in (OK, if currentTask os1 = BlockedTask then ChangeContext os1 else os1)))"

definition unblock_mask :: "nat \<Rightarrow> os \<Rightarrow> os" where
  "unblock_mask iPriority os = os\<lparr>OSBlockedList := OSBlockedList os OR (PriorityMask ! iPriority)\<rparr>"

text \<open>After unblocking, a task that is running gives way unless an interrupt is being served.\<close>

definition preempt :: "os \<Rightarrow> os" where
  "preempt os = (if currentTask os \<noteq> 0 \<and> iNesting os = 0 then ChangeContext os else os)"

definition OSUnBlockPriority :: "nat \<Rightarrow> os \<Rightarrow> u8 \<times> os" where
  "OSUnBlockPriority iPriority os = (OK, preempt (unblock_mask iPriority os))"

definition OSBlockTask :: "nat \<Rightarrow> os \<Rightarrow> u8 \<times> os" where
  "OSBlockTask TaskHandle0 os =
     (if iNesting os > 0 then (IRQ_PEND_ERR, os)
      else if TaskHandle0 = 0 \<and> currentTask os = 0 then (NOT_VALID_TASK, os)
      else
        (let TaskHandle = (if TaskHandle0 = 0 then currentTask os else TaskHandle0);
             iPriority = Priority (task TaskHandle os);
             os1 = os\<lparr>OSBlockedList := OSBlockedList os AND NOT (PriorityMask ! iPriority)\<rparr>
         in (OK, if currentTask os1 = TaskHandle then ChangeContext os1 else os1)))"

definition OSUnBlockTask :: "nat \<Rightarrow> os \<Rightarrow> u8 \<times> os" where
  "OSUnBlockTask TaskHandle os =
     (OK, preempt (unblock_mask (Priority (task TaskHandle os)) os))"

text \<open>The range \<open>[TaskStart, TaskFinish)\<close> of the two loops; the sum is an \<open>uint8_t\<close>.\<close>

definition task_range :: "u8 \<Rightarrow> u8 \<Rightarrow> nat list" where
  "task_range TaskStart TaskNumber = [unat TaskStart..<unat (TaskStart + TaskNumber)]"

definition OSBlockMultipleTask :: "u8 \<Rightarrow> u8 \<Rightarrow> os \<Rightarrow> u8 \<times> os" where
  "OSBlockMultipleTask TaskStart TaskNumber os =
     (if iNesting os > 0 then (IRQ_PEND_ERR, os)
      else (OK, fold (\<lambda>iTask os.
              if iTask \<noteq> currentTask os
              then os\<lparr>OSBlockedList :=
                     OSBlockedList os AND NOT (PriorityMask ! Priority (task iTask os))\<rparr>
              else os) (task_range TaskStart TaskNumber) os))"

definition OSUnBlockMultipleTask :: "u8 \<Rightarrow> u8 \<Rightarrow> os \<Rightarrow> u8 \<times> os" where
  "OSUnBlockMultipleTask TaskStart TaskNumber os =
     (if iNesting os > 0 then (IRQ_PEND_ERR, os)
      else (OK, preempt (fold (\<lambda>iTask os.
              if iTask \<noteq> currentTask os
              then unblock_mask (Priority (task iTask os)) os
              else os) (task_range TaskStart TaskNumber) os)))"

section \<open>The task table invariant\<close>

definition installed :: "os \<Rightarrow> nat \<Rightarrow> bool" where
  "installed os t \<longleftrightarrow> 0 < t \<and> t \<le> NUMBER_OF_TASKS \<and> bit (TaskAlloc os) (t - 1)"

definition tasks_ok :: "os \<Rightarrow> bool" where
  "tasks_ok os \<longleftrightarrow>
     length (PriorityVector os) = configMAX_TASK_INSTALL \<and>
     length (ContextTask os) = NUMBER_OF_TASKS + 1 \<and>
     (\<forall>t. installed os t \<longrightarrow>
        Priority (task t os) < 32 \<and> PriorityVector os ! Priority (task t os) = t) \<and>
     (\<forall>p. bit (OSReadyList os) p \<longrightarrow>
        installed os (PriorityVector os ! p) \<and> Priority (task (PriorityVector os ! p) os) = p)"

lemma tasks_okD:
  assumes "tasks_ok os" and "installed os t"
  shows "Priority (task t os) < 32" "PriorityVector os ! Priority (task t os) = t"
    "t < length (ContextTask os)" "0 < t" "t < 13"
  using assms by (auto simp: tasks_ok_def installed_def)

lemma tasks_ok_length:
  "tasks_ok os \<Longrightarrow> length (PriorityVector os) = 32 \<and> length (ContextTask os) = 13"
  by (simp add: tasks_ok_def)

lemma tasks_ok_ready:
  "tasks_ok os \<Longrightarrow> bit (OSReadyList os) p \<Longrightarrow>
     installed os (PriorityVector os ! p) \<and> Priority (task (PriorityVector os ! p) os) = p"
  by (simp add: tasks_ok_def)

lemma installed_priority_inj:
  "tasks_ok os \<Longrightarrow> installed os t \<Longrightarrow> installed os u \<Longrightarrow>
     Priority (task t os) = Priority (task u os) \<Longrightarrow> t = u"
  by (metis tasks_okD(2))

text \<open>Updates that keep what the invariant speaks about keep it.\<close>

lemma tasks_ok_cong:
  assumes "tasks_ok os" and "PriorityVector os' = PriorityVector os"
    and "length (ContextTask os') = length (ContextTask os)"
    and "\<And>t. installed os t \<Longrightarrow> Priority (task t os') = Priority (task t os)"
    and "TaskAlloc os' = TaskAlloc os"
    and "\<And>p. bit (OSReadyList os') p \<Longrightarrow>
           bit (OSReadyList os) p \<or> (\<exists>t. installed os t \<and> p = Priority (task t os))"
  shows "tasks_ok os'"
proof -
  have i: "installed os' t = installed os t" for t
    using assms(5) by (simp add: installed_def)
  have r: "installed os (PriorityVector os ! p) \<and> Priority (task (PriorityVector os ! p) os) = p"
    if "bit (OSReadyList os') p" for p
    using assms(6) [OF that] tasks_ok_ready [OF assms(1)] tasks_okD(2) [OF assms(1)] by auto
  show ?thesis
    unfolding tasks_ok_def i
    using assms(1-4) r by (auto simp: tasks_ok_def)
qed

section \<open>The scheduler's choice\<close>

lemma OSSchedule_choice:
  assumes "tasks_ok os" and "OSReadyList os AND OSBlockedList os \<noteq> 0"
  defines "t \<equiv> OSSchedule os"
  shows "installed os t" "bit (OSReadyList os) (Priority (task t os))"
    "bit (OSBlockedList os) (Priority (task t os))"
    "\<And>p. bit (OSReadyList os) p \<Longrightarrow> bit (OSBlockedList os) p \<Longrightarrow> p \<le> Priority (task t os)"
proof -
  let ?w = "OSReadyList os AND OSBlockedList os"
  have b: "bit (OSReadyList os) (SAScheduler ?w)" "bit (OSBlockedList os) (SAScheduler ?w)"
    using SAScheduler_bit [OF assms(2)] by (auto simp: bit_and_iff)
  then have t: "installed os t \<and> Priority (task t os) = SAScheduler ?w"
    using tasks_ok_ready [OF assms(1)] by (simp add: t_def OSSchedule_def)
  then show "installed os t" "bit (OSReadyList os) (Priority (task t os))"
    "bit (OSBlockedList os) (Priority (task t os))"
    using b by auto
  show "p \<le> Priority (task t os)" if "bit (OSReadyList os) p" "bit (OSBlockedList os) p" for p
    using that t SAScheduler_max [of ?w p] by (simp add: bit_and_iff)
qed

lemma ChangeContext_current [simp]:
  "iNesting os = 0 \<Longrightarrow> currentTask (ChangeContext os) = OSSchedule os"
  by (simp add: SwitchContext_def)

text \<open>
  C6. The kernel runs the right task: after a context switch the running task is installed,
  ready and not blocked, and every other such task has a lower priority.
\<close>

theorem ChangeContext_runs_highest:
  assumes "tasks_ok os" and "iNesting os = 0" and "OSReadyList os AND OSBlockedList os \<noteq> 0"
  shows "\<exists>t. currentTask (ChangeContext os) = t \<and> installed os t \<and>
           bit (OSReadyList os) (Priority (task t os)) \<and>
           bit (OSBlockedList os) (Priority (task t os)) \<and>
           (\<forall>u. installed os u \<and> u \<noteq> t \<and> bit (OSReadyList os) (Priority (task u os)) \<and>
                bit (OSBlockedList os) (Priority (task u os)) \<longrightarrow>
                Priority (task u os) < Priority (task t os))"
proof -
  have "Priority (task u os) < Priority (task (OSSchedule os) os)"
    if "installed os u" "u \<noteq> OSSchedule os" "bit (OSReadyList os) (Priority (task u os))"
      "bit (OSBlockedList os) (Priority (task u os))" for u
    using OSSchedule_choice(1,4) [OF assms(1,3)] installed_priority_inj [OF assms(1)] that
    by (meson le_neq_implies_less)
  then show ?thesis
    using OSSchedule_choice(1-3) [OF assms(1,3)] assms(2) by auto
qed

section \<open>Start-up and installation\<close>

lemma length_fold_upd [simp]: "length (fold (\<lambda>i xs. xs[f i := g i xs]) is xs) = length xs"
  by (induction "is" arbitrary: xs) auto

text \<open>The state that \<open>BRTOSInit\<close> builds has no task installed and satisfies the invariant.\<close>

theorem BRTOSInit_ok:
  "tasks_ok (BRTOSInit base os_globals) \<and> (\<forall>t. \<not> installed (BRTOSInit base os_globals) t) \<and>
   delay_list (BRTOSInit base os_globals) []"
  by (simp add: BRTOSInit_def PreInstallTasks_def initEvents_def os_globals_def tasks_ok_def
      installed_def delay_list_def)

lemma push_bit_1: "push_bit i (1 :: u32) = 2 ^ i"
  by (simp add: push_bit_eq_mult)

lemma free_tcb_less:
  "first_idx (\<lambda>i. push_bit i 1 AND (w :: u32) = 0) [0..<NUMBER_OF_TASKS] = i \<Longrightarrow>
     i \<noteq> NUMBER_OF_TASKS \<Longrightarrow> i < NUMBER_OF_TASKS \<and> \<not> bit w i"
  using first_idx_le [of "\<lambda>i. push_bit i 1 AND w = 0" "[0..<NUMBER_OF_TASKS]"]
    first_idx_hit [of "\<lambda>i. push_bit i 1 AND w = 0" "[0..<NUMBER_OF_TASKS]"]
  by (auto simp: push_bit_1 and.commute [of _ w] word_and_pow2_eq_0)

lemma free_tcb_iff:
  "first_idx (\<lambda>i. push_bit i 1 AND (w :: u32) = 0) [0..<NUMBER_OF_TASKS] \<noteq> NUMBER_OF_TASKS \<longleftrightarrow>
     (\<exists>i < NUMBER_OF_TASKS. \<not> bit w i)"
  using first_idx_miss [of "\<lambda>i. push_bit i 1 AND w = 0" "[0..<NUMBER_OF_TASKS]"]
  by (auto simp: push_bit_1 and.commute [of _ w] word_and_pow2_eq_0)

lemma CreateVirtualStack_sel [simp]:
  "PriorityVector (CreateVirtualStack f n os) = PriorityVector os"
  "ContextTask (CreateVirtualStack f n os) = ContextTask os"
  "TaskAlloc (CreateVirtualStack f n os) = TaskAlloc os"
  "OSReadyList (CreateVirtualStack f n os) = OSReadyList os"
  "iStackAddress (CreateVirtualStack f n os) = iStackAddress os"
  "StackAddress (CreateVirtualStack f n os) = StackAddress os"
  "Head (CreateVirtualStack f n os) = Head os" "Tail (CreateVirtualStack f n os) = Tail os"
  by (simp_all add: CreateVirtualStack_def)

text \<open>The stack a task gets: the size asked for, rounded down to whole words.\<close>

definition stack_words :: "u16 \<Rightarrow> nat" where
  "stack_words n = unat n div sizeof_OS_CPU_TYPE"

lemma round_stack: "unat (n - n mod 4 :: u16) = sizeof_OS_CPU_TYPE * stack_words n"
proof -
  have "unat (n mod 4) = unat n mod 4"
    by (simp add: unat_mod)
  moreover have "unat n mod 4 \<le> unat n"
    by simp
  ultimately have "unat (n - n mod 4) = unat n - unat n mod 4"
    by (simp add: unat_sub word_le_nat_alt)
  then show ?thesis
    by (simp add: stack_words_def minus_mod_eq_mult_div)
qed

text \<open>When each code is returned.\<close>

definition install_guard :: "u32 \<Rightarrow> u32 \<Rightarrow> u16 \<Rightarrow> nat \<Rightarrow> os \<Rightarrow> u8" where
  "install_guard Idle FctPtr bytes p os =
     (if stack_words bytes < 13 then STACK_SIZE_TOO_SMALL
      else if unat (iStackAddress os) + stack_words bytes > 2048 then NO_MEMORY
      else if p > 31 then END_OF_AVAILABLE_PRIORITIES
      else if p \<noteq> 0 \<and> PriorityVector os ! p \<noteq> EMPTY_PRIO then BUSY_PRIORITY
      else if p = 0 \<and> FctPtr \<noteq> Idle then CANNOT_ASSIGN_IDLE_TASK_PRIO
      else if \<forall>i < NUMBER_OF_TASKS. bit (TaskAlloc os) i then END_OF_AVAILABLE_TCB
      else OK)"

lemma OSInstallTask_result:
  "fst (OSInstallTask Idle FctPtr name bytes p os) = install_guard Idle FctPtr bytes p os \<and>
   (install_guard Idle FctPtr bytes p os \<noteq> OK \<longrightarrow>
      OSInstallTask Idle FctPtr name bytes p os = (install_guard Idle FctPtr bytes p os, None, os))"
  using free_tcb_iff [of "TaskAlloc os"]
  by (auto simp: OSInstallTask_def install_guard_def round_stack Let_def)

text \<open>
  \<open>OSInstallTask\<close> refuses exactly the requests it documents, checked in this order, and a
  refused request leaves the kernel unchanged.
\<close>

theorem OSInstallTask_errors:
  "fst (OSInstallTask Idle FctPtr name bytes p os) = install_guard Idle FctPtr bytes p os \<and>
   (install_guard Idle FctPtr bytes p os \<noteq> OK \<longrightarrow>
      OSInstallTask Idle FctPtr name bytes p os = (install_guard Idle FctPtr bytes p os, None, os))"
  by (rule OSInstallTask_result)

lemma push_words_eq:
  "length ws \<le> n \<Longrightarrow> n \<le> length st \<Longrightarrow>
     push_words ws n st = take (n - length ws) st @ rev ws @ drop n st"
proof (induction ws arbitrary: n st)
  case Nil
  then show ?case by simp
next
  case (Cons w ws)
  let ?m = "n - 1"
  have "push_words (w # ws) n st = push_words ws ?m (st[?m := w])" by simp
  also have "\<dots> = take (?m - length ws) (st[?m := w]) @ rev ws @ drop ?m (st[?m := w])"
    using Cons by (intro Cons.IH) auto
  also have "take (?m - length ws) (st[?m := w]) = take (n - length (w # ws)) st"
    by (simp add: take_update_cancel)
  also have "drop ?m (st[?m := w]) = w # drop n st"
  proof -
    have "?m < length (st[?m := w])" using Cons.prems by auto
    then have "drop ?m (st[?m := w]) = st[?m := w] ! ?m # drop (Suc ?m) (st[?m := w])"
      by (rule Cons_nth_drop_Suc [symmetric])
    then show ?thesis using Cons.prems by (auto simp: drop_update_cancel)
  qed
  finally show ?case by simp
qed

lemma length_initial_frame [simp]: "length (initial_frame f) = 13"
  by (simp add: initial_frame_def)

lemma tcb_overwrite:
  "c\<lparr>TaskName := a, StackPoint := s, StackInit := i, Priority := p, TimeToWait := w,
     Next := x, Previous := y\<rparr> =
   \<lparr>TaskName = a, StackPoint = s, StackInit = i, TimeToWait = w, Priority = p, Next = x,
     Previous = y\<rparr>"
  by (cases c) simp

text \<open>The effect of a successful installation on each part of the state.\<close>

lemma OSInstallTask_OK:
  assumes "install_guard Idle FctPtr bytes p os = OK" and "length (ContextTask os) = 13"
    and "length (PriorityVector os) = 32"
  shows "\<exists>t os'. OSInstallTask Idle FctPtr name bytes p os = (OK, Some t, os') \<and>
           0 < t \<and> t \<le> 12 \<and> \<not> bit (TaskAlloc os) (t - 1) \<and>
           TaskAlloc os' = TaskAlloc os OR 2 ^ (t - 1) \<and>
           PriorityVector os' = (PriorityVector os)[p := t] \<and>
           OSReadyList os' = OSReadyList os OR 2 ^ p \<and>
           ContextTask os' = (ContextTask os)[t := \<lparr>TaskName = name,
             StackPoint = ucast (StackAddress os + (of_nat (4 * stack_words bytes) - 52)),
             StackInit = ucast (StackAddress os + of_nat (4 * stack_words bytes)),
             TimeToWait = NO_TIMEOUT, Priority = p, Next = None, Previous = None\<rparr>] \<and>
           STACK os' = push_words (initial_frame FctPtr)
             (unat (iStackAddress os) + stack_words bytes) (STACK os) \<and>
           iStackAddress os' = iStackAddress os + of_nat (stack_words bytes) \<and>
           StackAddress os' = StackAddress os + of_nat (4 * stack_words bytes)"
proof -
  let ?i = "first_idx (\<lambda>i. push_bit i 1 AND TaskAlloc os = 0) [0..<NUMBER_OF_TASKS]"
  have g: "?i \<noteq> NUMBER_OF_TASKS" "p < 32"
    using assms(1) free_tcb_iff [of "TaskAlloc os"]
    by (auto simp: install_guard_def split: if_splits)
  then have i: "?i < NUMBER_OF_TASKS" "\<not> bit (TaskAlloc os) ?i"
    using free_tcb_less by blast+
  have r: "bytes - bytes mod 4 = 4 * of_nat (stack_words bytes)"
  proof -
    have "of_nat (unat (bytes - bytes mod 4)) = (of_nat (4 * stack_words bytes) :: u16)"
      by (simp only: round_stack)
    then show ?thesis by simp
  qed
  have w: "unat (4 * of_nat (stack_words bytes) :: u16) = 4 * stack_words bytes"
    using round_stack [of bytes] by (simp only: r)
  have "fst (OSInstallTask Idle FctPtr name bytes p os) = OK"
    using assms(1) OSInstallTask_result by simp
  then show ?thesis
    using i g assms
    by (intro exI [of _ "?i + 1"] exI [of _ "snd (snd (OSInstallTask Idle FctPtr name bytes p os))"])
       (auto simp: OSInstallTask_def Let_def install_guard_def round_stack push_bit_1 upd_task_def
          set_ready_def CreateVirtualStack_def tcb_overwrite r w split: if_splits)
qed

text \<open>
  C10. A successful installation registers a fresh task under a free priority, ready to run,
  disturbs no other task and keeps the invariant.
\<close>

theorem OSInstallTask_installs:
  assumes "tasks_ok os" and "install_guard Idle FctPtr bytes p os = OK"
    and "p = 0 \<longrightarrow> PriorityVector os ! 0 = EMPTY_PRIO"
  shows "\<exists>t os'. OSInstallTask Idle FctPtr name bytes p os = (OK, Some t, os') \<and> tasks_ok os' \<and>
           \<not> installed os t \<and> (\<forall>u. installed os' u \<longleftrightarrow> installed os u \<or> u = t) \<and>
           Priority (task t os') = p \<and> bit (OSReadyList os') p \<and>
           (\<forall>u. u \<noteq> t \<longrightarrow> task u os' = task u os)"
proof -
  have len: "length (ContextTask os) = 13" "length (PriorityVector os) = 32"
    using tasks_ok_length [OF assms(1)] by simp_all
  obtain t os' where r: "OSInstallTask Idle FctPtr name bytes p os = (OK, Some t, os')"
    and t: "0 < t" "t \<le> 12" "\<not> bit (TaskAlloc os) (t - 1)"
    and e: "TaskAlloc os' = TaskAlloc os OR 2 ^ (t - 1)" "PriorityVector os' = (PriorityVector os)[p := t]"
      "OSReadyList os' = OSReadyList os OR 2 ^ p"
    and c: "ContextTask os' = (ContextTask os)[t := \<lparr>TaskName = name,
             StackPoint = ucast (StackAddress os + (of_nat (4 * stack_words bytes) - 52)),
             StackInit = ucast (StackAddress os + of_nat (4 * stack_words bytes)),
             TimeToWait = NO_TIMEOUT, Priority = p, Next = None, Previous = None\<rparr>]"
    using OSInstallTask_OK [OF assms(2) len, of name] by blast
  have p: "p < 32" "PriorityVector os ! p = 255"
    using assms(2,3) by (auto simp: install_guard_def split: if_splits)
  have new: "\<not> installed os t" and inst: "installed os' u \<longleftrightarrow> installed os u \<or> u = t" for u
    using t by (auto simp: installed_def e(1) bit_or_pow2)
  have free: "Priority (task u os) \<noteq> p" if "installed os u" for u
    using tasks_okD(2,5) [OF assms(1) that] p(2) by auto
  have rdy: "\<not> bit (OSReadyList os) p"
    using tasks_ok_ready [OF assms(1), of p] free by blast
  have other: "task u os' = task u os" if "u \<noteq> t" for u
    using that by (simp add: c)
  have other': "task u os' = task u os" if "installed os u" for u
    using that new by (intro other) auto
  have same: "Priority (task t os') = p"
    using t len by (simp add: c)
  have ok: "tasks_ok os'"
    unfolding tasks_ok_def
  proof (intro conjI allI impI)
    fix u assume "installed os' u"
    then show "Priority (task u os') < 32" "PriorityVector os' ! Priority (task u os') = u"
      using inst new other same p tasks_okD(1,2) [OF assms(1), of u] free [of u] len
      by (cases "u = t"; auto simp: e(2))+
  next
    fix q assume "bit (OSReadyList os') q"
    then have q: "bit (OSReadyList os) q \<and> q \<noteq> p \<or> q = p"
      using p rdy by (auto simp: e(3) bit_or_pow2)
    then show "installed os' (PriorityVector os' ! q)"
      "Priority (task (PriorityVector os' ! q) os') = q"
      using inst new same p len tasks_ok_ready [OF assms(1), of q] other'
      by (auto simp: e(2))
  qed (use len in \<open>simp_all add: e c\<close>)
  show ?thesis
    using r ok new inst same other p(1) by (auto simp: e(3) bit_or_pow2)
qed

text \<open>
  C11. The stacks of \<open>STACK\<close> never overlap.  A successful installation writes only the words
  between the old and the new \<open>iStackAddress\<close>, which stays within the array; the initial
  frame fills the top of that region with the entry address above the saved registers, and
  \<open>StackPoint\<close> is the address of the frame's last word.
\<close>

theorem OSInstallTask_stack:
  assumes "tasks_ok os" and "install_guard Idle FctPtr bytes p os = OK"
    and "length (STACK os) = 2048"
    and "StackAddress os = base + 4 * iStackAddress os"
  shows "\<exists>t os'. OSInstallTask Idle FctPtr name bytes p os = (OK, Some t, os') \<and>
           unat (iStackAddress os') = unat (iStackAddress os) + stack_words bytes \<and>
           unat (iStackAddress os') \<le> 2048 \<and>
           StackAddress os' = base + 4 * iStackAddress os' \<and>
           StackPoint (task t os') = ucast (base + 4 * (iStackAddress os' - 13)) \<and>
           take (unat (iStackAddress os)) (STACK os') = take (unat (iStackAddress os)) (STACK os) \<and>
           drop (unat (iStackAddress os')) (STACK os') = drop (unat (iStackAddress os')) (STACK os) \<and>
           take 13 (drop (unat (iStackAddress os') - 13) (STACK os')) = rev (initial_frame FctPtr)"
proof -
  have len: "length (ContextTask os) = 13" "length (PriorityVector os) = 32"
    using tasks_ok_length [OF assms(1)] by simp_all
  have g: "13 \<le> stack_words bytes" "unat (iStackAddress os) + stack_words bytes \<le> 2048"
    using assms(2) by (auto simp: install_guard_def split: if_splits)
  obtain t os' where r: "OSInstallTask Idle FctPtr name bytes p os = (OK, Some t, os')"
    and t: "0 < t" "t \<le> 12"
    and c: "ContextTask os' = (ContextTask os)[t := \<lparr>TaskName = name,
             StackPoint = ucast (StackAddress os + (of_nat (4 * stack_words bytes) - 52)),
             StackInit = ucast (StackAddress os + of_nat (4 * stack_words bytes)),
             TimeToWait = NO_TIMEOUT, Priority = p, Next = None, Previous = None\<rparr>]"
    and st: "STACK os' = push_words (initial_frame FctPtr)
             (unat (iStackAddress os) + stack_words bytes) (STACK os)"
    and i: "iStackAddress os' = iStackAddress os + of_nat (stack_words bytes)"
    and sa: "StackAddress os' = StackAddress os + of_nat (4 * stack_words bytes)"
    using OSInstallTask_OK [OF assms(2) len, of name] by blast
  let ?n = "unat (iStackAddress os) + stack_words bytes"
  have n: "unat (iStackAddress os') = ?n"
    using g unfolding i by (intro unat_add_of_nat) simp
  have st': "STACK os' = take (?n - 13) (STACK os) @ rev (initial_frame FctPtr) @ drop ?n (STACK os)"
    using g assms(3) unfolding st by (subst push_words_eq) simp_all
  have "StackPoint (task t os') = ucast (base + 4 * (iStackAddress os' - 13))"
    using t len assms(4) by (simp add: c i algebra_simps)
  moreover have "take (unat (iStackAddress os)) (STACK os') = take (unat (iStackAddress os)) (STACK os)"
    using g assms(3) by (simp add: st')
  ultimately show ?thesis
    using r n g assms(3,4) by (simp add: st' sa i algebra_simps)
qed

section \<open>Blocked tasks\<close>

lemma preempt_sel [simp]:
  "OSBlockedList (preempt os) = OSBlockedList os" "OSReadyList (preempt os) = OSReadyList os"
  "PriorityVector (preempt os) = PriorityVector os" "ContextTask (preempt os) = ContextTask os"
  "TaskAlloc (preempt os) = TaskAlloc os" "iNesting (preempt os) = iNesting os"
  by (simp_all add: preempt_def)

lemma word_and_not_or: "(w AND NOT m) OR m = w OR (m :: u32)"
  by (rule bit_word_eqI) (auto simp: bit_simps)

lemma word_or_absorb: "bit w p \<Longrightarrow> w OR 2 ^ p = (w :: u32)"
  by (rule bit_word_eqI) (auto simp: bit_or_iff bit_pow2)

text \<open>
  A blocked task does not run: after \<open>OSBlockTask\<close> on an unblocked task the scheduler
  gives the processor to another one, a task that blocks itself gives it up at once, and
  \<open>OSUnBlockTask\<close> restores the blocked list as it was.
\<close>

theorem OSBlockTask_blocks:
  assumes "tasks_ok os" and "iNesting os = 0" and "installed os t"
    and "bit (OSBlockedList os) (Priority (task t os))"
    and "bit (OSReadyList os AND OSBlockedList os) q" and "q \<noteq> Priority (task t os)"
  shows "\<exists>os'. OSBlockTask t os = (OK, os') \<and>
           currentTask (ChangeContext os') \<noteq> t \<and> currentTask os' \<noteq> t \<and>
           OSReadyList os' = OSReadyList os \<and>
           OSBlockedList (snd (OSUnBlockTask t os')) = OSBlockedList os"
proof -
  let ?p = "Priority (task t os)"
  let ?o = "os\<lparr>OSBlockedList := OSBlockedList os AND NOT (2 ^ ?p)\<rparr>"
  let ?r = "if currentTask os = t then ChangeContext ?o else ?o"
  have t: "t \<noteq> 0" "?p < 32"
    using tasks_okD [OF assms(1,3)] by auto
  have b: "OSBlockTask t os = (OK, ?r)"
    using assms(2) t by (simp add: OSBlockTask_def Let_def)
  have "tasks_ok ?o"
    using assms(1) by (rule tasks_ok_cong) simp_all
  moreover have "bit (OSReadyList os) q" "bit (OSBlockedList os AND NOT (2 ^ ?p)) q"
    using assms(5,6) by (simp_all add: bit_clear_pow2) (simp_all add: bit_and_iff)
  then have "bit (OSReadyList ?o AND OSBlockedList ?o) q"
    by (simp add: bit_and_iff [of "OSReadyList os"])
  then have "OSReadyList ?o AND OSBlockedList ?o \<noteq> 0"
    by auto
  ultimately have "bit (OSBlockedList ?o) (Priority (task (OSSchedule ?o) ?o))"
    by (rule OSSchedule_choice(3))
  then have n: "OSSchedule ?o \<noteq> t"
    by (auto simp: bit_clear_pow2)
  moreover have "OSSchedule ?r = OSSchedule ?o"
    by (simp add: OSSchedule_def)
  ultimately have "currentTask (ChangeContext ?r) \<noteq> t" "currentTask ?r \<noteq> t"
    using assms(2) by simp_all
  moreover have "OSBlockedList (snd (OSUnBlockTask t ?r)) = OSBlockedList os"
    using t assms(4) by (simp add: OSUnBlockTask_def unblock_mask_def word_and_not_or word_or_absorb)
  ultimately show ?thesis
    using b by (simp add: Let_def)
qed

section \<open>A concrete kernel\<close>

text \<open>The idle task 1 at priority 0 and task 2 at priority 5, both ready; task 2 runs.\<close>

definition idle_and_one :: os where
  "idle_and_one = os_globals\<lparr>OSReadyList := 0x21, currentTask := 2, TaskAlloc := 3,
     PriorityVector := (replicate 32 EMPTY_PRIO)[0 := 1, 5 := 2],
     ContextTask := (replicate 13 tcb_zero)[2 := tcb_zero\<lparr>Priority := 5\<rparr>]\<rparr>"

lemma bit_3: "bit (3 :: u32) i \<longleftrightarrow> i = 0 \<or> i = 1"
  using bit_or_pow2 [of 1 "2 ^ 0" i] bit_pow2 [of 0 i] by auto

lemma bit_21: "bit (0x21 :: u32) i \<longleftrightarrow> i = 0 \<or> i = 5"
  using bit_or_pow2 [of 5 "2 ^ 0" i] bit_pow2 [of 0 i] by auto

lemma idle_and_one_installed: "installed idle_and_one t \<longleftrightarrow> t = 1 \<or> t = 2"
  by (auto simp: installed_def idle_and_one_def bit_3 simp del: bit_numeral_word_iff)

lemma idle_and_one_ok: "tasks_ok idle_and_one"
  unfolding tasks_ok_def idle_and_one_installed
  by (auto simp: idle_and_one_def os_globals_def tcb_zero_def bit_21 simp del: bit_numeral_word_iff)

lemma idle_and_one_sel:
  "currentTask idle_and_one = 2" "Priority (task 2 idle_and_one) = 5" "iNesting idle_and_one = 0"
  "OSReadyList idle_and_one = 0x21" "OSBlockedList idle_and_one = 0xFFFFFFFF"
  "PriorityVector idle_and_one = (replicate 32 EMPTY_PRIO)[0 := 1, 5 := 2]"
  "length (ContextTask idle_and_one) = 13" "iStackAddress idle_and_one = 0"
  "StackAddress idle_and_one = 0" "length (STACK idle_and_one) = 2048" "TaskAlloc idle_and_one = 3"
  "OSTickCounter idle_and_one = 0" "delay_list idle_and_one []"
  by (simp_all add: idle_and_one_def os_globals_def tcb_zero_def delay_list_def)

lemma idle_and_one_guard: "install_guard 0x4400 0x5000 100 7 idle_and_one = OK"
proof -
  have "\<not> bit (3 :: u32) 5"
    unfolding bit_3 by simp
  then have "\<not> (\<forall>i < NUMBER_OF_TASKS. bit (TaskAlloc idle_and_one) i)"
    by (auto simp: idle_and_one_sel intro!: exI [of _ 5])
  then show ?thesis
    by (simp add: install_guard_def stack_words_def idle_and_one_sel)
qed

theorem ChangeContext_runs_highest_witness: "currentTask (ChangeContext idle_and_one) = 2"
proof -
  have "OSReadyList idle_and_one AND OSBlockedList idle_and_one \<noteq> 0"
    by (simp add: idle_and_one_sel)
  from ChangeContext_runs_highest [OF idle_and_one_ok _ this]
  obtain t where t: "currentTask (ChangeContext idle_and_one) = t" "installed idle_and_one t"
    "\<forall>u. installed idle_and_one u \<and> u \<noteq> t \<and> bit (OSReadyList idle_and_one) (Priority (task u idle_and_one)) \<and>
       bit (OSBlockedList idle_and_one) (Priority (task u idle_and_one)) \<longrightarrow>
       Priority (task u idle_and_one) < Priority (task t idle_and_one)"
    by (auto simp: idle_and_one_sel)
  have "Priority (task 1 idle_and_one) = 0"
    by (simp add: idle_and_one_def tcb_zero_def)
  then have "t \<noteq> 1"
    using t(3) [rule_format, of 2] by (auto simp: idle_and_one_sel idle_and_one_installed)
  then show ?thesis
    using t(1,2) by (simp add: idle_and_one_installed)
qed

theorem OSInstallTask_errors_witness:
  "OSInstallTask 0x4400 0x5000 ''t'' 100 40 idle_and_one = (END_OF_AVAILABLE_PRIORITIES, None, idle_and_one)"
  using OSInstallTask_errors [of "0x4400" "0x5000" "''t''" 100 40 idle_and_one]
  by (simp add: install_guard_def stack_words_def idle_and_one_sel)

theorem OSInstallTask_installs_witness:
  "\<exists>t os'. OSInstallTask 0x4400 0x5000 ''t'' 100 7 idle_and_one = (OK, Some t, os') \<and>
     bit (OSReadyList os') 7 \<and> t \<noteq> 1 \<and> t \<noteq> 2"
  using OSInstallTask_installs [OF idle_and_one_ok idle_and_one_guard, of "''t''"]
  by (auto simp: idle_and_one_installed)

theorem OSInstallTask_stack_witness:
  "\<exists>t os'. OSInstallTask 0x4400 0x5000 ''t'' 100 7 idle_and_one = (OK, Some t, os') \<and>
     unat (iStackAddress os') = 25"
  using OSInstallTask_stack [OF idle_and_one_ok idle_and_one_guard, of 0 "''t''"]
  by (auto simp: idle_and_one_sel stack_words_def)

theorem OSBlockTask_blocks_witness:
  "\<exists>os'. OSBlockTask 2 idle_and_one = (OK, os') \<and> currentTask os' \<noteq> 2"
proof -
  have "bit (OSBlockedList idle_and_one) (Priority (task 2 idle_and_one))"
    "bit (OSReadyList idle_and_one AND OSBlockedList idle_and_one) 0"
    by (simp_all add: idle_and_one_sel bit_and_iff)
  then show ?thesis
    using OSBlockTask_blocks [of idle_and_one 2 0] idle_and_one_ok
    by (auto simp: idle_and_one_sel idle_and_one_installed)
qed

end
