(* ===== verification/Event.thy ===== *)
theory Event
  imports Tasks
begin

text \<open>
  What the semaphore, mutex, mailbox and queue modules of BRTOS have in common: the wait list
  of an event control block, the half of a pend call that suspends the caller, the half that
  runs when the caller is selected again, and the selection of the task to wake.  Each module's
  \<^verbatim>\<open>Pend\<close> and \<^verbatim>\<open>Post\<close> repeats this text; the definitions are written once, over any record
  that extends \<open>event_cb\<close>.

  A wait list is a set of priorities.  The locale \<open>wait_list\<close> is the contract the modules
  rely on: a waiter added is in the list, the one selected is the highest and leaves it, and
  the counter \<open>OSEventWait\<close> always is the number of waiters.
\<close>

section \<open>The wait list of a control block\<close>

definition wait_enqueue :: "nat \<Rightarrow> 'a event_cb_scheme \<Rightarrow> 'a event_cb_scheme" where
  "wait_enqueue p e =
     e\<lparr>OSEventWait := OSEventWait e + 1,
       OSEventWaitList := OSEventWaitList e OR (PriorityMask ! p)\<rparr>"

definition wait_dequeue :: "nat \<Rightarrow> 'a event_cb_scheme \<Rightarrow> 'a event_cb_scheme" where
  "wait_dequeue p e =
     e\<lparr>OSEventWaitList := OSEventWaitList e AND NOT (PriorityMask ! p),
       OSEventWait := OSEventWait e - 1\<rparr>"

abbreviation waiter :: "'a event_cb_scheme \<Rightarrow> nat" where
  "waiter e \<equiv> SAScheduler (OSEventWaitList e)"

section \<open>Suspending and resuming the caller\<close>

text \<open>
  From the removal of the current task from the ready list to the context switch;
  \<open>time_wait\<close> is zero for a wait without limit.
\<close>

definition suspend :: "u64 \<Rightarrow> os \<Rightarrow> os" where
  "suspend time_wait os =
     (let t = currentTask os;
          os1 = clear_ready (Priority (task t os)) os;
          os2 = (if time_wait \<noteq> 0
                 then IncludeTaskIntoDelayList t
                        (upd_task t (\<lambda>c. c\<lparr>TimeToWait := OSGetCount os1 + time_wait\<rparr>) os1)
                 else upd_task t (\<lambda>c. c\<lparr>TimeToWait := NO_TIMEOUT\<rparr>) os1)
      in ChangeContext os2)"

text \<open>
  After the context switch: did the wait end by timeout with the task still in the wait list?
  \<open>iPriority\<close> is the local copy of the priority the caller waited with.
\<close>

definition wake_up ::
  "nat \<Rightarrow> u64 \<Rightarrow> 'a event_cb_scheme \<Rightarrow> os \<Rightarrow> (bool \<times> 'a event_cb_scheme \<times> os) option" where
  "wake_up iPriority time_wait e os =
     (let t = currentTask os in
      if time_wait \<noteq> 0 then
        (if TimeToWait (task t os) = EXIT_BY_TIMEOUT then
           (if OSEventWaitList e AND (PriorityMask ! iPriority) \<noteq> 0
            then Some (True, wait_dequeue iPriority e, os)
            else Some (False, e, os))
         else do {
           os1 \<leftarrow> RemoveFromDelayList t (upd_task t (\<lambda>c. c\<lparr>TimeToWait := NO_TIMEOUT\<rparr>) os);
           Some (False, e, os1)
         })
      else Some (False, e, os))"

section \<open>The contract of a wait list\<close>

locale wait_list =
  fixes waiting :: "'e \<Rightarrow> nat set"
    and count :: "'e \<Rightarrow> nat"
    and enqueue :: "nat \<Rightarrow> 'e \<Rightarrow> 'e"
    and dequeue :: "nat \<Rightarrow> 'e \<Rightarrow> 'e"
    and first_waiter :: "'e \<Rightarrow> nat"
    and ok :: "'e \<Rightarrow> bool"
  assumes ok_count: "ok e \<Longrightarrow> count e = card (waiting e)"
    and ok_finite: "ok e \<Longrightarrow> finite (waiting e)"
    and enqueue_waiting: "ok e \<Longrightarrow> p < 32 \<Longrightarrow> waiting (enqueue p e) = insert p (waiting e)"
    and enqueue_ok: "ok e \<Longrightarrow> p < 32 \<Longrightarrow> p \<notin> waiting e \<Longrightarrow> ok (enqueue p e)"
    and dequeue_waiting: "ok e \<Longrightarrow> p < 32 \<Longrightarrow> waiting (dequeue p e) = waiting e - {p}"
    and dequeue_ok: "ok e \<Longrightarrow> p \<in> waiting e \<Longrightarrow> ok (dequeue p e)"
    and waiting_less: "p \<in> waiting e \<Longrightarrow> p < 32"
    and first_in: "ok e \<Longrightarrow> waiting e \<noteq> {} \<Longrightarrow> first_waiter e \<in> waiting e"
    and first_max: "ok e \<Longrightarrow> p \<in> waiting e \<Longrightarrow> p \<le> first_waiter e"
begin

lemma count_0: "ok e \<Longrightarrow> count e = 0 \<longleftrightarrow> waiting e = {}"
  by (simp add: ok_count ok_finite)

lemma first_eq_Max: "ok e \<Longrightarrow> waiting e \<noteq> {} \<Longrightarrow> first_waiter e = Max (waiting e)"
  by (intro Max_eqI [symmetric]) (auto simp: ok_finite first_in first_max)

text \<open>Waking the first waiter serves the highest priority and keeps the others.\<close>

lemma wake_highest:
  assumes "ok e" and "waiting e \<noteq> {}"
  shows "ok (dequeue (first_waiter e) e)"
    and "waiting (dequeue (first_waiter e) e) = waiting e - {Max (waiting e)}"
    and "Suc (count (dequeue (first_waiter e) e)) = count e"
proof -
  let ?p = "first_waiter e"
  have p: "?p \<in> waiting e" "?p < 32"
    using first_in [OF assms] waiting_less by auto
  then show o: "ok (dequeue ?p e)"
    using assms(1) by (simp add: dequeue_ok)
  show w: "waiting (dequeue ?p e) = waiting e - {Max (waiting e)}"
    using dequeue_waiting [OF assms(1) p(2)] first_eq_Max [OF assms] by simp
  show "Suc (count (dequeue ?p e)) = count e"
    using ok_count [OF o] ok_count [OF assms(1)] w p first_eq_Max [OF assms]
      card.remove [OF ok_finite [OF assms(1)] p(1)] by simp
qed

text \<open>Enqueuing and leaving again, as a timeout does, is the identity on the waiters.\<close>

lemma enqueue_dequeue:
  "ok e \<Longrightarrow> p < 32 \<Longrightarrow> p \<notin> waiting e \<Longrightarrow> waiting (dequeue p (enqueue p e)) = waiting e"
  by (simp add: dequeue_waiting enqueue_ok enqueue_waiting)

end

section \<open>The control blocks meet the contract\<close>

definition waiters :: "'a event_cb_scheme \<Rightarrow> nat set" where
  "waiters e = {p. bit (OSEventWaitList e) p}"

definition event_ok :: "'a event_cb_scheme \<Rightarrow> bool" where
  "event_ok e \<longleftrightarrow> unat (OSEventWait e) = popcount (OSEventWaitList e)"

lemma wait_enqueue_sel [simp]:
  "OSEventAllocated (wait_enqueue p e) = OSEventAllocated e"
  "event_cb.more (wait_enqueue p e) = event_cb.more e"
  "OSEventWaitList (wait_enqueue p e) = OSEventWaitList e OR (PriorityMask ! p)"
  by (simp_all add: wait_enqueue_def)

lemma wait_dequeue_sel [simp]:
  "OSEventAllocated (wait_dequeue p e) = OSEventAllocated e"
  "event_cb.more (wait_dequeue p e) = event_cb.more e"
  "OSEventWaitList (wait_dequeue p e) = OSEventWaitList e AND NOT (PriorityMask ! p)"
  by (simp_all add: wait_dequeue_def)

lemma event_ok_enqueue:
  assumes "event_ok e" and "p < 32" and "p \<notin> waiters e"
  shows "event_ok (wait_enqueue p e)"
proof -
  have "unat (OSEventWait e) \<le> 32"
    using assms(1) popcount_le by (simp add: event_ok_def)
  then have "unat (OSEventWait e + 1) = unat (OSEventWait e) + 1"
    by (intro unat_add_1) simp
  then show ?thesis
    using assms by (simp add: event_ok_def wait_enqueue_def waiters_def popcount_or)
qed

lemma event_ok_dequeue:
  assumes "event_ok e" and "p \<in> waiters e"
  shows "event_ok (wait_dequeue p e)"
proof -
  have p: "bit (OSEventWaitList e) p" "p < 32"
    using assms(2) bit_less_32 by (auto simp: waiters_def)
  have "Suc (popcount (OSEventWaitList e AND NOT (2 ^ p))) = unat (OSEventWait e)"
    using popcount_clear [OF p(1)] assms(1) by (simp add: event_ok_def)
  then have "unat (OSEventWait e - 1) = popcount (OSEventWaitList e AND NOT (2 ^ p))"
    by (metis Suc_neq_Zero diff_Suc_1 unat_0 unat_minus_one)
  then show ?thesis
    using p by (simp add: event_ok_def wait_dequeue_def)
qed

interpretation ev: wait_list
  "waiters :: 'a event_cb_scheme \<Rightarrow> nat set" "\<lambda>e. unat (OSEventWait e)"
  wait_enqueue wait_dequeue waiter event_ok
proof unfold_locales
  fix e :: "'a event_cb_scheme" and p
  show "event_ok e \<Longrightarrow> unat (OSEventWait e) = card (waiters e)"
    by (simp add: event_ok_def popcount_def waiters_def)
  show "event_ok e \<Longrightarrow> finite (waiters e)"
    by (simp add: waiters_def)
  show "p < 32 \<Longrightarrow> waiters (wait_enqueue p e) = insert p (waiters e)"
    by (auto simp: waiters_def bit_or_pow2)
  show "p < 32 \<Longrightarrow> waiters (wait_dequeue p e) = waiters e - {p}"
    by (auto simp: waiters_def bit_clear_pow2)
  show "p \<in> waiters e \<Longrightarrow> p < 32"
    by (simp add: waiters_def bit_less_32)
  show "event_ok e \<Longrightarrow> waiters e \<noteq> {} \<Longrightarrow> waiter e \<in> waiters e"
    by (auto simp: waiters_def intro: SAScheduler_bit)
  show "p \<in> waiters e \<Longrightarrow> p \<le> waiter e"
    by (simp add: waiters_def SAScheduler_max)
qed (simp_all add: event_ok_enqueue event_ok_dequeue)

lemma waiters_empty: "waiters e = {} \<longleftrightarrow> OSEventWaitList e = 0"
  by (auto simp: waiters_def intro: bit_word_eqI)

lemma wait_nonzero: "event_ok e \<Longrightarrow> OSEventWait e \<noteq> 0 \<longleftrightarrow> waiters e \<noteq> {}"
  using ev.count_0 [of e] by (simp add: unat_eq_zero)

text \<open>
  Waking serves the waiter of highest priority: on every kind of control block the
  selected priority is the maximum of the wait list, the others stay, and the wait counter
  goes down by one without wrapping.
\<close>

theorem wait_dequeue_highest:
  assumes "event_ok e" and "OSEventWait e \<noteq> 0"
  shows "waiter e = Max (waiters e) \<and> event_ok (wait_dequeue (waiter e) e) \<and>
         waiters (wait_dequeue (waiter e) e) = waiters e - {Max (waiters e)} \<and>
         unat (OSEventWait (wait_dequeue (waiter e) e)) + 1 = unat (OSEventWait e)"
  using ev.first_eq_Max [of e] ev.wake_highest [of e] assms wait_nonzero [of e] by simp

theorem wait_dequeue_highest_witness:
  "waiter \<lparr>OSEventAllocated = True, OSEventWait = 2, OSEventWaitList = 0x11, OSEventCount = 0,
      Binary = False\<rparr> = Max {0, 4}"
proof -
  let ?e = "\<lparr>OSEventAllocated = True, OSEventWait = 2, OSEventWaitList = 0x11, OSEventCount = 0,
      Binary = False\<rparr>"
  have w: "waiters ?e = {0, 4}"
  proof -
    have "bit (0x11 :: u32) q \<longleftrightarrow> q \<in> {0, 4}" for q
      using bit_or_pow2 [of 4 "2 ^ 0" q] bit_pow2 [of 0 q] by auto
    then show ?thesis by (auto simp: waiters_def)
  qed
  then have "event_ok ?e"
    by (simp add: event_ok_def popcount_def waiters_def [of ?e, simplified, symmetric])
  then show ?thesis
    using wait_dequeue_highest [of ?e] w by simp
qed

section \<open>The two halves of a pend, as seen from outside\<close>

lemma OSSchedule_cong:
  "OSReadyList a = OSReadyList b \<Longrightarrow> OSBlockedList a = OSBlockedList b \<Longrightarrow>
     PriorityVector a = PriorityVector b \<Longrightarrow> OSSchedule a = OSSchedule b"
  by (simp add: OSSchedule_def)

lemma suspend_frame [simp]:
  "OSReadyList (suspend w os) = OSReadyList os AND NOT (PriorityMask ! Priority (task (currentTask os) os))"
  "OSBlockedList (suspend w os) = OSBlockedList os" "OSTickCounter (suspend w os) = OSTickCounter os"
  "PriorityVector (suspend w os) = PriorityVector os" "iNesting (suspend w os) = iNesting os"
  "TaskAlloc (suspend w os) = TaskAlloc os" "length (ContextTask (suspend w os)) = length (ContextTask os)"
  "BRTOS_Sem_Table (suspend w os) = BRTOS_Sem_Table os"
  "BRTOS_Mutex_Table (suspend w os) = BRTOS_Mutex_Table os"
  "BRTOS_Queue_Table (suspend w os) = BRTOS_Queue_Table os"
  by (simp_all add: suspend_def Let_def IncludeTaskIntoDelayList_def clear_ready_def split: option.split)

lemma suspend_current:
  "iNesting os = 0 \<Longrightarrow> currentTask (suspend w os) = OSSchedule (suspend w os)"
proof -
  assume n: "iNesting os = 0"
  obtain os2 where s: "suspend w os = ChangeContext os2"
    by (simp add: suspend_def Let_def)
  then have "iNesting os2 = 0"
    using n suspend_frame(5) [of w os] by simp
  then show ?thesis
    unfolding s by (simp add: OSSchedule_def)
qed

lemma suspend_tasks:
  assumes "u < length (ContextTask os)"
  shows "Priority (task u (suspend w os)) = Priority (task u os)"
    and "TimeToWait (task u (suspend w os)) =
           (if u = currentTask os then if w = 0 then NO_TIMEOUT else OSTickCounter os + w
            else TimeToWait (task u os))"
proof -
  let ?t = "currentTask os"
  let ?c = "clear_ready (Priority (task ?t os)) os"
  let ?T = "upd_task ?t (\<lambda>c. c\<lparr>TimeToWait := OSTickCounter os + w\<rparr>) ?c"
  have u: "unlinked (IncludeTaskIntoDelayList ?t ?T) = unlinked ?T" by simp
  have "u < length (ContextTask ?T)" using assms by simp
  note i = unlinked_taskD(1,2) [OF u this]
  show "Priority (task u (suspend w os)) = Priority (task u os)"
    "TimeToWait (task u (suspend w os)) =
           (if u = currentTask os then if w = 0 then NO_TIMEOUT else OSTickCounter os + w
            else TimeToWait (task u os))"
    using i assms by (auto simp: suspend_def Let_def OSGetCount_def upd_task_def nth_upd)
qed

lemma suspend_delay_list:
  assumes "delay_list os xs" and "currentTask os \<notin> set xs" and "currentTask os < length (ContextTask os)"
  shows "delay_list (suspend w os) (if w = 0 then xs else xs @ [currentTask os])"
proof -
  let ?t = "currentTask os"
  let ?T = "upd_task ?t (\<lambda>c. c\<lparr>TimeToWait := OSTickCounter os + w\<rparr>)
              (clear_ready (Priority (task ?t os)) os)"
  have "delay_list (IncludeTaskIntoDelayList ?t ?T) (xs @ [?t])"
    using assms by (intro delay_list_include) simp_all
  then show ?thesis
    using assms(1) by (simp add: suspend_def Let_def OSGetCount_def)
qed

text \<open>
  The resuming half, for a caller that is in the delay list exactly when it waits with a
  limit that has not run out.
\<close>

lemma wake_up_ok:
  assumes dl: "delay_list os xs" and t: "currentTask os = t" "t < length (ContextTask os)"
    and in_list: "t \<in> set xs \<longleftrightarrow> w \<noteq> 0 \<and> TimeToWait (task t os) \<noteq> EXIT_BY_TIMEOUT"
    and p: "p < 32"
  shows "\<exists>b e' os'. wake_up p w e os = Some (b, e', os') \<and>
           b = (w \<noteq> 0 \<and> TimeToWait (task t os) = EXIT_BY_TIMEOUT \<and> p \<in> waiters e) \<and>
           e' = (if b then wait_dequeue p e else e) \<and>
           delay_list os' (remove1 t xs) \<and>
           OSReadyList os' = OSReadyList os \<and> OSBlockedList os' = OSBlockedList os \<and>
           OSTickCounter os' = OSTickCounter os \<and> currentTask os' = currentTask os \<and>
           PriorityVector os' = PriorityVector os \<and> iNesting os' = iNesting os \<and>
           TaskAlloc os' = TaskAlloc os \<and> length (ContextTask os') = length (ContextTask os) \<and>
           BRTOS_Sem_Table os' = BRTOS_Sem_Table os \<and> BRTOS_Mutex_Table os' = BRTOS_Mutex_Table os \<and>
           BRTOS_Queue_Table os' = BRTOS_Queue_Table os \<and>
           BRTOS_OS_QUEUE_Table os' = BRTOS_OS_QUEUE_Table os \<and> QUEUE_STACK os' = QUEUE_STACK os \<and>
           (\<forall>u < length (ContextTask os). Priority (task u os') = Priority (task u os) \<and>
              (u \<noteq> t \<longrightarrow> TimeToWait (task u os') = TimeToWait (task u os)))"
proof (cases "t \<in> set xs")
  case False
  then have "remove1 t xs = xs"
    by (simp add: remove1_idem)
  then show ?thesis
    using False dl t in_list p
    by (auto simp: wake_up_def waiters_def word_and_pow2_eq_0)
next
  case True
  let ?o = "upd_task t (\<lambda>c. c\<lparr>TimeToWait := NO_TIMEOUT\<rparr>) os"
  obtain ys zs where xs: "xs = ys @ t # zs"
    using True by (metis split_list)
  have "delay_list ?o (ys @ t # zs)"
    using dl xs by simp
  then obtain os' where r: "RemoveFromDelayList t ?o = Some os'" and dl': "delay_list os' (ys @ zs)"
    using delay_list_remove by blast
  have u: "unlinked os' = unlinked ?o"
    using r by (rule unlinked_remove)
  have rem: "remove1 t xs = ys @ zs"
    using delay_list_distinct [OF dl] xs by (simp add: remove1_append)
  have tk: "Priority (task v os') = Priority (task v os) \<and>
      (v \<noteq> t \<longrightarrow> TimeToWait (task v os') = TimeToWait (task v os))"
    if "v < length (ContextTask os)" for v
    using unlinked_taskD(1,2) [OF u, of v] that by (auto simp: upd_task_def nth_upd)
  show ?thesis
    using True in_list r t dl' rem tk unlinked_eqD [OF u]
    by (intro exI [of _ False]) (simp add: wake_up_def)
qed

end
