(* ===== verification/Semaphore.thy ===== *)
theory Semaphore
  imports Event
begin

text \<open>
  Semaphores, \<^verbatim>\<open>brtos/semaphore.c\<close>.  A semaphore is an index of \<open>BRTOS_Sem_Table\<close>.
  \<open>OSSemPend\<close> is split at its context switch into \<open>OSSemPend\<close> and \<open>OSSemPend_resume\<close>; the
  argument checks of \<^verbatim>\<open>ERROR_CHECK\<close> are compiled out by the configuration, as in the build.
\<close>

section \<open>Operations\<close>

abbreviation sem :: "nat \<Rightarrow> os \<Rightarrow> sem_cb" where
  "sem s os \<equiv> BRTOS_Sem_Table os ! s"

definition upd_sem :: "nat \<Rightarrow> sem_cb \<Rightarrow> os \<Rightarrow> os" where
  "upd_sem s e os = os\<lparr>BRTOS_Sem_Table := (BRTOS_Sem_Table os)[s := e]\<rparr>"

text \<open>The search for a free control block; the result is the code and \<^verbatim>\<open>*event\<close>.\<close>

definition OSSemCreate :: "u8 \<Rightarrow> os \<Rightarrow> u8 \<times> nat option \<times> os" where
  "OSSemCreate cnt os =
     (if iNesting os > 0 then (IRQ_PEND_ERR, None, os)
      else
        (let i = first_idx (\<lambda>e. \<not> OSEventAllocated e) (BRTOS_Sem_Table os) in
         if i \<ge> length (BRTOS_Sem_Table os) then (NO_AVAILABLE_EVENT, None, os)
         else (ALLOC_EVENT_OK, Some i,
           upd_sem i \<lparr>OSEventAllocated = True, OSEventWait = 0, OSEventWaitList = 0,
                      OSEventCount = cnt, Binary = False\<rparr> os)))"

definition OSSemBinaryCreate :: "u8 \<Rightarrow> os \<Rightarrow> u8 \<times> nat option \<times> os" where
  "OSSemBinaryCreate init os =
     (if iNesting os > 0 then (IRQ_PEND_ERR, None, os)
      else
        (let i = first_idx (\<lambda>e. \<not> OSEventAllocated e) (BRTOS_Sem_Table os) in
         if i \<ge> length (BRTOS_Sem_Table os) then (NO_AVAILABLE_EVENT, None, os)
         else (ALLOC_EVENT_OK, Some i,
           upd_sem i \<lparr>OSEventAllocated = True, OSEventWait = 0, OSEventWaitList = 0,
                      OSEventCount = (if init > 1 then 1 else 0), Binary = True\<rparr> os)))"

definition OSSemDelete :: "nat \<Rightarrow> os \<Rightarrow> u8 \<times> os" where
  "OSSemDelete s os =
     (if iNesting os > 0 then (IRQ_PEND_ERR, os)
      else (DELETE_EVENT_OK,
        upd_sem s ((sem s os)\<lparr>OSEventAllocated := False, OSEventCount := 0, OSEventWait := 0,
                               OSEventWaitList := 0\<rparr>) os))"

definition OSSemPend :: "nat \<Rightarrow> u64 \<Rightarrow> os \<Rightarrow> u8 call \<times> os" where
  "OSSemPend s time_wait os =
     (let e = sem s os in
      if OSEventCount e > 0
      then (Return OK, upd_sem s (e\<lparr>OSEventCount := OSEventCount e - 1\<rparr>) os)
      else if time_wait = NO_TIMEOUT then (Return EXIT_BY_NO_ENTRY_AVAILABLE, os)
      else
        (let iPriority = Priority (task (currentTask os) os)
         in (Suspended, suspend time_wait (upd_sem s (wait_enqueue iPriority e) os))))"

definition OSSemPend_resume :: "nat \<Rightarrow> nat \<Rightarrow> u64 \<Rightarrow> os \<Rightarrow> (u8 \<times> os) option" where
  "OSSemPend_resume s iPriority time_wait os = do {
     (timed_out, e, os1) \<leftarrow> wake_up iPriority time_wait (sem s os) os;
     Some (if timed_out then TIMEOUT else OK, upd_sem s e os1)
   }"

definition OSSemPost :: "nat \<Rightarrow> os \<Rightarrow> u8 \<times> os" where
  "OSSemPost s os =
     (let e = sem s os in
      if OSEventWait e \<noteq> 0 then
        (let iPriority = waiter e;
             os1 = upd_sem s (wait_dequeue iPriority e) os;
             os2 = set_ready iPriority os1
         in (OK, if iNesting os2 = 0 then ChangeContext os2 else os2))
      else if OSEventCount e < 255 then
        (OK, upd_sem s (if \<not> Binary e then e\<lparr>OSEventCount := OSEventCount e + 1\<rparr>
                        else e\<lparr>OSEventCount := 1\<rparr>) os)
      else (ERR_SEM_OVF, os))"

section \<open>Frame lemmas\<close>

lemma upd_sem_sel [simp]:
  "OSReadyList (upd_sem s e os) = OSReadyList os" "OSBlockedList (upd_sem s e os) = OSBlockedList os"
  "OSTickCounter (upd_sem s e os) = OSTickCounter os" "currentTask (upd_sem s e os) = currentTask os"
  "PriorityVector (upd_sem s e os) = PriorityVector os" "ContextTask (upd_sem s e os) = ContextTask os"
  "Head (upd_sem s e os) = Head os" "Tail (upd_sem s e os) = Tail os"
  "iNesting (upd_sem s e os) = iNesting os" "TaskAlloc (upd_sem s e os) = TaskAlloc os"
  "BRTOS_Sem_Table (upd_sem s e os) = (BRTOS_Sem_Table os)[s := e]"
  "delay_list (upd_sem s e os) xs = delay_list os xs"
  by (simp_all add: upd_sem_def delay_list_def)

lemma upd_sem_same: "s < length (BRTOS_Sem_Table os) \<Longrightarrow> sem s os = e \<Longrightarrow> upd_sem s e os = os"
  by (simp add: upd_sem_def list_update_same_conv)

section \<open>Single calls\<close>

text \<open>
  Creation takes the first free block, sets it up with the given count and no waiters, and
  leaves every other semaphore alone; it fails exactly when called from an interrupt or when
  all blocks are taken, and then changes nothing.
\<close>

theorem OSSemCreate_ok:
  "(\<exists>i os'. OSSemCreate cnt os = (ALLOC_EVENT_OK, Some i, os') \<and>
      iNesting os = 0 \<and> i < length (BRTOS_Sem_Table os) \<and> \<not> OSEventAllocated (sem i os) \<and>
      OSEventAllocated (sem i os') \<and> OSEventCount (sem i os') = cnt \<and> event_ok (sem i os') \<and>
      waiters (sem i os') = {} \<and> \<not> Binary (sem i os') \<and>
      (\<forall>j. j \<noteq> i \<longrightarrow> sem j os' = sem j os)) \<or>
   (OSSemCreate cnt os = (IRQ_PEND_ERR, None, os) \<and> iNesting os > 0) \<or>
   (OSSemCreate cnt os = (NO_AVAILABLE_EVENT, None, os) \<and> iNesting os = 0 \<and>
      (\<forall>e \<in> set (BRTOS_Sem_Table os). OSEventAllocated e))"
proof -
  let ?P = "\<lambda>e. \<not> OSEventAllocated e" and ?t = "BRTOS_Sem_Table os"
  consider "iNesting os > 0" | "iNesting os = 0" "first_idx ?P ?t = length ?t"
    | "iNesting os = 0" "first_idx ?P ?t < length ?t"
    using first_idx_le [of ?P ?t] by linarith
  then show ?thesis
  proof cases
    case 1
    then show ?thesis by (simp add: OSSemCreate_def)
  next
    case 2
    then have "\<forall>e \<in> set ?t. OSEventAllocated e"
      using first_idx_miss [of ?P ?t] by simp
    with 2 show ?thesis by (simp add: OSSemCreate_def)
  next
    case 3
    then have "\<not> OSEventAllocated (?t ! first_idx ?P ?t)"
      using first_idx_hit [of ?P ?t] by simp
    with 3 show ?thesis
      by (intro disjI1) (simp add: OSSemCreate_def Let_def event_ok_def waiters_def nth_upd)
  qed
qed

text \<open>
  A binary semaphore cannot be created available with the argument 1: the code tests
  \<^verbatim>\<open>bit > 1\<close>, so both values of a bit give an initial count of zero.
\<close>

lemma OSSemBinaryCreate_bit:
  assumes "OSSemBinaryCreate b os = (ALLOC_EVENT_OK, Some i, os')" and "b \<le> 1"
  shows "OSEventCount (sem i os') = 0"
proof -
  let ?i = "first_idx (\<lambda>e. \<not> OSEventAllocated e) (BRTOS_Sem_Table os)"
  have "\<not> b > 1" using assms(2) by (simp add: not_less)
  then show ?thesis
    using assms(1) by (auto simp: OSSemBinaryCreate_def Let_def split: if_splits)
qed

text \<open>
  The count never wraps: at 255 a post without waiters is refused and changes nothing, below
  it a counting semaphore gains one token and a binary one holds exactly one.
\<close>

lemma OSSemPost_no_waiter:
  assumes "OSEventWait (sem s os) = 0" and "s < length (BRTOS_Sem_Table os)"
  shows "OSSemPost s os =
           (if OSEventCount (sem s os) = 255 then (ERR_SEM_OVF, os)
            else (OK, snd (OSSemPost s os))) \<and>
         unat (OSEventCount (sem s (snd (OSSemPost s os)))) =
           (if OSEventCount (sem s os) = 255 then 255
            else if Binary (sem s os) then 1 else unat (OSEventCount (sem s os)) + 1)"
proof -
  have "OSEventCount (sem s os) < 255 \<longleftrightarrow> OSEventCount (sem s os) \<noteq> 255"
    using unsigned_less [of "OSEventCount (sem s os)", where 'a = nat]
    by (auto simp: word_less_nat_alt word_unat_eq_iff)
  moreover have "OSEventCount (sem s os) \<noteq> 255 \<Longrightarrow>
      unat (OSEventCount (sem s os) + 1) = unat (OSEventCount (sem s os)) + 1"
    using unsigned_less [of "OSEventCount (sem s os)", where 'a = nat]
    by (intro unat_add_1) (auto simp: word_unat_eq_iff)
  ultimately show ?thesis
    using assms by (auto simp: OSSemPost_def Let_def)
qed

theorem OSSemCreate_ok_witness:
  "\<exists>i os'. OSSemCreate 3 os_globals = (ALLOC_EVENT_OK, Some i, os') \<and> OSEventCount (sem i os') = 3"
  using OSSemCreate_ok [of 3 os_globals] by (auto simp: os_globals_def)

end
