(* ===== verification/Semaphore_System.thy ===== *)
theory Semaphore_System
  imports Semaphore
begin

text \<open>
  Tasks and interrupts around one semaphore, as a transition system over the kernel state.
  Every step is a call the kernel executes with interrupts disabled: the two halves of
  \<open>OSSemPend\<close>, \<open>OSSemPost\<close> from a task or from an interrupt handler, and the timer tick.
  The system records which tasks are inside a pend call, with which limit, and counts posts
  and successful pends, so that the invariant can say: no wake-up is lost, no token is lost or
  made up, and the resuming half never follows a dangling delay list link.
\<close>

section \<open>The system\<close>

record sem_sys =
  kernel :: os
  pend :: "nat \<Rightarrow> u64 option"
  initial :: nat
  posted :: nat
  taken :: nat

definition interrupt :: "(os \<Rightarrow> os option) \<Rightarrow> os \<Rightarrow> os option" where
  "interrupt handler os = do { os1 \<leftarrow> handler (OS_INT_ENTER os); Some (OS_INT_EXIT os1) }"

text \<open>
  A limit that would make the wake-up time equal to the reserved value \<open>EXIT_BY_TIMEOUT\<close> is
  excluded, and so is a pend of the idle task, which must always be ready.
\<close>

inductive sem_step :: "nat \<Rightarrow> sem_sys \<Rightarrow> sem_sys \<Rightarrow> bool" for s where
  pend_return:
    "OSSemPend s w (kernel y) = (Return c, os') \<Longrightarrow> pend y (currentTask (kernel y)) = None \<Longrightarrow>
     sem_step s y (y\<lparr>kernel := os', taken := taken y + (if c = OK then 1 else 0)\<rparr>)"
| pend_wait:
    "OSSemPend s w (kernel y) = (Suspended, os') \<Longrightarrow> pend y (currentTask (kernel y)) = None \<Longrightarrow>
     Priority (task (currentTask (kernel y)) (kernel y)) \<noteq> 0 \<Longrightarrow>
     OSTickCounter (kernel y) + w \<noteq> EXIT_BY_TIMEOUT \<Longrightarrow>
     sem_step s y (y\<lparr>kernel := os', pend := (pend y)(currentTask (kernel y) := Some w)\<rparr>)"
| pend_resume:
    "pend y t = Some w \<Longrightarrow> currentTask (kernel y) = t \<Longrightarrow>
     OSSemPend_resume s (Priority (task t (kernel y))) w (kernel y) = Some (c, os') \<Longrightarrow>
     sem_step s y (y\<lparr>kernel := os', pend := (pend y)(t := None),
                     taken := taken y + (if c = OK then 1 else 0)\<rparr>)"
| post_task:
    "OSSemPost s (kernel y) = (c, os') \<Longrightarrow> pend y (currentTask (kernel y)) = None \<Longrightarrow>
     sem_step s y (y\<lparr>kernel := os', posted := posted y + (if c = OK then 1 else 0)\<rparr>)"
| post_interrupt:
    "interrupt (\<lambda>os. Some (snd (OSSemPost s os))) (kernel y) = Some os' \<Longrightarrow>
     c = fst (OSSemPost s (OS_INT_ENTER (kernel y))) \<Longrightarrow>
     sem_step s y (y\<lparr>kernel := os', posted := posted y + (if c = OK then 1 else 0)\<rparr>)"
| timer:
    "interrupt tick (kernel y) = Some os' \<Longrightarrow> sem_step s y (y\<lparr>kernel := os'\<rparr>)"

inductive sem_reach :: "nat \<Rightarrow> sem_sys \<Rightarrow> sem_sys \<Rightarrow> bool" for s y where
  start: "sem_reach s y y"
| more: "sem_reach s y z \<Longrightarrow> sem_step s z z' \<Longrightarrow> sem_reach s y z'"

inductive_cases sem_stepE: "sem_step s y z"

section \<open>The invariant\<close>

text \<open>A task in a timed pend whose limit has not run out; one whose limit has.\<close>

definition sleeping :: "os \<Rightarrow> (nat \<Rightarrow> u64 option) \<Rightarrow> nat \<Rightarrow> bool" where
  "sleeping os pd t \<longleftrightarrow> (\<exists>w. pd t = Some w \<and> w \<noteq> 0 \<and> TimeToWait (task t os) \<noteq> EXIT_BY_TIMEOUT)"

definition timed_out :: "os \<Rightarrow> (nat \<Rightarrow> u64 option) \<Rightarrow> nat \<Rightarrow> bool" where
  "timed_out os pd t \<longleftrightarrow> (\<exists>w. pd t = Some w \<and> w \<noteq> 0 \<and> TimeToWait (task t os) = EXIT_BY_TIMEOUT)"

text \<open>Suspended in a pend that a post has already satisfied.\<close>

definition granted :: "nat \<Rightarrow> os \<Rightarrow> (nat \<Rightarrow> u64 option) \<Rightarrow> nat set" where
  "granted s os pd =
     {t. installed os t \<and> pd t \<noteq> None \<and> Priority (task t os) \<notin> waiters (sem s os)}"

definition pend_inv :: "nat \<Rightarrow> os \<Rightarrow> (nat \<Rightarrow> u64 option) \<Rightarrow> bool" where
  "pend_inv s os pd \<longleftrightarrow>
     tasks_ok os \<and> s < length (BRTOS_Sem_Table os) \<and>
     bit (OSReadyList os) 0 \<and> bit (OSBlockedList os) 0 \<and> pd (PriorityVector os ! 0) = None \<and>
     (\<exists>xs. delay_list os xs \<and> (\<forall>t. t \<in> set xs \<longleftrightarrow> sleeping os pd t)) \<and>
     (\<forall>t. pd t \<noteq> None \<longrightarrow> installed os t) \<and>
     (\<forall>p \<in> waiters (sem s os). \<exists>t. pd t \<noteq> None \<and> Priority (task t os) = p) \<and>
     (\<forall>t. installed os t \<longrightarrow>
        (bit (OSReadyList os) (Priority (task t os)) \<longleftrightarrow>
           pd t = None \<or> Priority (task t os) \<notin> waiters (sem s os) \<or> timed_out os pd t)) \<and>
     event_ok (sem s os) \<and>
     (waiters (sem s os) \<noteq> {} \<longrightarrow> OSEventCount (sem s os) = 0)"

definition cur_ok :: "os \<Rightarrow> bool" where
  "cur_ok os \<longleftrightarrow> iNesting os = 0 \<and> installed os (currentTask os) \<and>
     bit (OSReadyList os) (Priority (task (currentTask os) os))"

definition sem_inv :: "nat \<Rightarrow> sem_sys \<Rightarrow> bool" where
  "sem_inv s y \<longleftrightarrow>
     pend_inv s (kernel y) (pend y) \<and> cur_ok (kernel y) \<and>
     (\<not> Binary (sem s (kernel y)) \<longrightarrow>
        initial y + posted y =
          unat (OSEventCount (sem s (kernel y))) + taken y + card (granted s (kernel y) (pend y)))"

lemma pend_invD:
  assumes "pend_inv s os pd"
  shows "tasks_ok os" "s < length (BRTOS_Sem_Table os)" "bit (OSReadyList os) 0"
    "bit (OSBlockedList os) 0" "pd (PriorityVector os ! 0) = None"
    "\<exists>xs. delay_list os xs \<and> (\<forall>t. t \<in> set xs \<longleftrightarrow> sleeping os pd t)"
    "\<And>t. pd t \<noteq> None \<Longrightarrow> installed os t"
    "\<And>p. p \<in> waiters (sem s os) \<Longrightarrow> \<exists>t. pd t \<noteq> None \<and> Priority (task t os) = p"
    "\<And>t. installed os t \<Longrightarrow> bit (OSReadyList os) (Priority (task t os)) \<longleftrightarrow>
           pd t = None \<or> Priority (task t os) \<notin> waiters (sem s os) \<or> timed_out os pd t"
    "event_ok (sem s os)" "waiters (sem s os) \<noteq> {} \<Longrightarrow> OSEventCount (sem s os) = 0"
  using assms by (auto simp: pend_inv_def)

text \<open>The switch to the selected task.\<close>

lemma OSSchedule_ok:
  assumes "pend_inv s os pd"
  shows "installed os (OSSchedule os) \<and> bit (OSReadyList os) (Priority (task (OSSchedule os) os))"
proof -
  have "bit (OSReadyList os AND OSBlockedList os) 0"
    using pend_invD(3,4) [OF assms] by (simp add: bit_and_iff)
  then have "OSReadyList os AND OSBlockedList os \<noteq> 0" by auto
  then show ?thesis
    using OSSchedule_choice(1,2) [OF pend_invD(1) [OF assms]] by blast
qed

text \<open>The invariant does not depend on who is running.\<close>

lemma pend_inv_switch [simp]:
  "pend_inv s (SwitchContext os) pd = pend_inv s os pd"
  "pend_inv s (os\<lparr>currentTask := t\<rparr>) pd = pend_inv s os pd"
  "pend_inv s (os\<lparr>iNesting := n\<rparr>) pd = pend_inv s os pd"
  "granted s (SwitchContext os) pd = granted s os pd"
  "granted s (os\<lparr>currentTask := t\<rparr>) pd = granted s os pd"
  "granted s (os\<lparr>iNesting := n\<rparr>) pd = granted s os pd"
  by (simp_all add: pend_inv_def tasks_ok_def installed_def sleeping_def timed_out_def
      delay_list_def granted_def)

lemma cur_ok_switch:
  "pend_inv s os pd \<Longrightarrow> iNesting os = 0 \<Longrightarrow> cur_ok (SwitchContext os)"
  using OSSchedule_ok [of s os pd] by (simp add: cur_ok_def installed_def)

section \<open>Each step keeps it\<close>

text \<open>A change of the count alone, while nobody waits.\<close>

lemma pend_inv_upd_sem:
  assumes "pend_inv s os pd" and "waiters (sem s os) = {}" and "waiters e = {}" and "event_ok e"
  shows "pend_inv s (upd_sem s e os) pd" and "granted s (upd_sem s e os) pd = granted s os pd"
proof -
  have n: "sem s (upd_sem s e os) = e"
    using pend_invD(2) [OF assms(1)] by simp
  have i: "installed (upd_sem s e os) t = installed os t" for t
    by (simp add: installed_def)
  have k: "tasks_ok (upd_sem s e os)"
    using pend_invD(1) [OF assms(1)] by (rule tasks_ok_cong) simp_all
  show "pend_inv s (upd_sem s e os) pd"
    using assms k unfolding pend_inv_def n i sleeping_def timed_out_def by simp
  show "granted s (upd_sem s e os) pd = granted s os pd"
    unfolding granted_def n i using assms by simp
qed

lemma cur_ok_upd_sem [simp]: "cur_ok (upd_sem s e os) = cur_ok os"
  by (simp add: cur_ok_def installed_def)

lemma cur_ok_lt: "tasks_ok os \<Longrightarrow> cur_ok os \<Longrightarrow> currentTask os < length (ContextTask os)"
  by (auto simp: cur_ok_def dest: tasks_okD(3))

text \<open>A caller that does not wait is not in the wait list.\<close>

lemma caller_not_waiting:
  assumes "pend_inv s os pd" and "installed os t" and "pd t = None"
  shows "Priority (task t os) \<notin> waiters (sem s os)"
proof
  assume "Priority (task t os) \<in> waiters (sem s os)"
  then obtain u where "pd u \<noteq> None" "Priority (task u os) = Priority (task t os)"
    using pend_invD(8) [OF assms(1)] by blast
  then have "u = t"
    using installed_priority_inj [OF pend_invD(1) [OF assms(1)]] pend_invD(7) [OF assms(1)] assms(2)
    by blast
  then show False using \<open>pd u \<noteq> None\<close> assms(3) by simp
qed

lemma pend_inv_suspend:
  assumes inv: "pend_inv s os pd" and cur: "cur_ok os" and count: "OSEventCount (sem s os) = 0"
    and pd: "pd t = None" and t: "t = currentTask os" and p: "p = Priority (task t os)" "p \<noteq> 0"
    and w: "OSTickCounter os + w \<noteq> EXIT_BY_TIMEOUT"
    and os': "os' = suspend w (upd_sem s (wait_enqueue p (sem s os)) os)"
  shows "pend_inv s os' (pd(t := Some w)) \<and> cur_ok os' \<and>
         granted s os' (pd(t := Some w)) = granted s os pd \<and> OSEventCount (sem s os') = 0 \<and>
         Binary (sem s os') = Binary (sem s os)"
proof -
  let ?e = "wait_enqueue p (sem s os)"
  let ?o = "upd_sem s ?e os"
  let ?pd = "pd(t := Some w)"
  note k = pend_invD(1) [OF inv]
  have it: "installed os t" and tl: "t < length (ContextTask os)" and p32: "p < 32"
    using cur t p tasks_okD(1,3) [OF k] by (auto simp: cur_ok_def)
  have pw: "p \<notin> waiters (sem s os)"
    using caller_not_waiting [OF inv it pd] p by simp
  have se: "sem s os' = ?e"
    using pend_invD(2) [OF inv] by (simp add: os')
  have wt: "waiters ?e = insert p (waiters (sem s os))" and eok: "event_ok ?e"
    using ev.enqueue_waiting ev.enqueue_ok pend_invD(10) [OF inv] p32 pw by blast+
  have ins: "installed os' u = installed os u" for u
    by (simp add: os' installed_def)
  have pr: "Priority (task u os') = Priority (task u os)"
    and tm: "TimeToWait (task u os') =
      (if u = t then if w = 0 then NO_TIMEOUT else OSTickCounter os + w else TimeToWait (task u os))"
    if "u < length (ContextTask os)" for u
    using suspend_tasks [of u ?o w] that by (simp_all add: os' t)
  have rd: "bit (OSReadyList os') q \<longleftrightarrow> bit (OSReadyList os) q \<and> q \<noteq> p" for q
    using p32 t p by (auto simp: os' bit_clear_pow2)
  have lt: "u < length (ContextTask os)" if "installed os u" for u
    using tasks_okD(3) [OF k that] .
  have k': "tasks_ok os'"
    using k by (rule tasks_ok_cong) (use pr lt rd in \<open>auto simp: os'\<close>)
  obtain xs where xs: "delay_list os xs" "\<forall>u. u \<in> set xs \<longleftrightarrow> sleeping os pd u"
    using pend_invD(6) [OF inv] by blast
  have "t \<notin> set xs"
    using xs(2) pd by (simp add: sleeping_def)
  then have dl: "delay_list os' (if w = 0 then xs else xs @ [t])"
    using suspend_delay_list [of ?o xs w] xs(1) tl by (cases "w = 0") (simp_all add: os' t)
  have sl: "sleeping os' ?pd u \<longleftrightarrow> sleeping os pd u \<or> u = t \<and> w \<noteq> 0" for u
  proof (cases "u = t")
    case True
    then show ?thesis
      using tm [OF tl] pd w by (auto simp: sleeping_def)
  next
    case False
    then show ?thesis
      using tm [of u] lt [of u] pend_invD(7) [OF inv, of u] by (auto simp: sleeping_def)
  qed
  have to: "timed_out os' ?pd u \<longleftrightarrow> timed_out os pd u" for u
  proof (cases "u = t")
    case True
    then show ?thesis
      using tm [OF tl] pd w by (auto simp: timed_out_def)
  next
    case False
    then show ?thesis
      using tm [of u] lt [of u] pend_invD(7) [OF inv, of u] by (auto simp: timed_out_def)
  qed
  have ntt: "\<not> timed_out os pd t"
    using pd by (simp add: timed_out_def)
  have inj: "Priority (task u os) = p \<longleftrightarrow> u = t" if "installed os u" for u
    using installed_priority_inj [OF k that it] p by auto
  have main: "pend_inv s os' ?pd"
    unfolding pend_inv_def se wt
  proof (intro conjI allI impI ballI)
    show "\<exists>xs. delay_list os' xs \<and> (\<forall>u. u \<in> set xs \<longleftrightarrow> sleeping os' ?pd u)"
      using dl xs(2) sl by (intro exI [of _ "if w = 0 then xs else xs @ [t]"]) auto
    show "?pd (PriorityVector os' ! 0) = None"
      using pend_invD(1,3,5) [OF inv] p tasks_ok_ready [OF k pend_invD(3) [OF inv]]
      by (auto simp: os')
    show "installed os' u" if "?pd u \<noteq> None" for u
      using that it pend_invD(7) [OF inv] by (auto simp: ins split: if_splits)
    show "\<exists>u. ?pd u \<noteq> None \<and> Priority (task u os') = q" if q: "q \<in> insert p (waiters (sem s os))" for q
    proof (cases "q = p")
      case True
      then show ?thesis using pr [OF tl] p by (intro exI [of _ t]) simp
    next
      case False
      then obtain u where u: "pd u \<noteq> None" "Priority (task u os) = q"
        using q pend_invD(8) [OF inv, of q] by auto
      then show ?thesis
        using pr [of u] lt [of u] pend_invD(7) [OF inv, of u] by (intro exI [of _ u]) simp
    qed
    fix u assume "installed os' u"
    then have u: "installed os u" by (simp add: ins)
    show "bit (OSReadyList os') (Priority (task u os')) \<longleftrightarrow>
        ?pd u = None \<or> Priority (task u os') \<notin> insert p (waiters (sem s os)) \<or> timed_out os' ?pd u"
      using pend_invD(9) [OF inv u] inj [OF u] pr [OF lt [OF u]] pd ntt by (auto simp: rd to)
  qed (use k' inv eok count p in \<open>simp_all add: rd pend_invD(3,4), simp_all add: os' pend_invD wait_enqueue_def\<close>)
  have gr: "granted s os' ?pd = granted s os pd"
  proof -
    have "u \<in> granted s os' ?pd \<longleftrightarrow> u \<in> granted s os pd" for u
      using inj [of u] pr [of u] lt [of u] pd it
      by (cases "installed os u") (auto simp: granted_def se wt ins)
    then show ?thesis by blast
  qed
  have "currentTask os' = OSSchedule os'"
    using cur by (simp add: os' suspend_current cur_ok_def)
  then have "cur_ok os'"
    using OSSchedule_ok [OF main] cur by (simp add: cur_ok_def) (simp add: os')
  then show ?thesis
    using main gr count by (simp add: se wait_enqueue_def)
qed

text \<open>The resuming half always completes, and returns \<open>OK\<close> exactly to the tasks granted.\<close>

lemma pend_inv_resume:
  assumes inv: "pend_inv s os pd" and cur: "cur_ok os" and pd: "pd t = Some w"
    and t: "t = currentTask os" and p: "p = Priority (task t os)"
  shows "\<exists>c os'. OSSemPend_resume s p w os = Some (c, os') \<and>
           pend_inv s os' (pd(t := None)) \<and> cur_ok os' \<and>
           OSEventCount (sem s os') = OSEventCount (sem s os) \<and>
           Binary (sem s os') = Binary (sem s os) \<and>
           (if c = OK then t \<in> granted s os pd \<and> granted s os' (pd(t := None)) = granted s os pd - {t}
            else c = TIMEOUT \<and> granted s os' (pd(t := None)) = granted s os pd)"
proof -
  let ?e = "sem s os" and ?pd = "pd(t := None)"
  note k = pend_invD(1) [OF inv]
  have it: "installed os t" and tl: "t < length (ContextTask os)" and p32: "p < 32"
    and rt: "bit (OSReadyList os) p"
    using cur t p tasks_okD(1,3) [OF k] by (auto simp: cur_ok_def)
  obtain xs where xs: "delay_list os xs" "\<forall>u. u \<in> set xs \<longleftrightarrow> sleeping os pd u"
    using pend_invD(6) [OF inv] by blast
  have "t \<in> set xs \<longleftrightarrow> w \<noteq> 0 \<and> TimeToWait (task t os) \<noteq> EXIT_BY_TIMEOUT"
    using xs(2) pd by (simp add: sleeping_def)
  from wake_up_ok [OF xs(1) t [symmetric] tl this p32, of ?e]
  obtain b e' os1 where r: "wake_up p w ?e os = Some (b, e', os1)"
    and b: "b = (w \<noteq> 0 \<and> TimeToWait (task t os) = EXIT_BY_TIMEOUT \<and> p \<in> waiters ?e)"
    and e': "e' = (if b then wait_dequeue p ?e else ?e)"
    and dl: "delay_list os1 (remove1 t xs)"
    and f: "OSReadyList os1 = OSReadyList os" "OSBlockedList os1 = OSBlockedList os"
      "currentTask os1 = currentTask os" "PriorityVector os1 = PriorityVector os"
      "iNesting os1 = iNesting os" "TaskAlloc os1 = TaskAlloc os"
      "length (ContextTask os1) = length (ContextTask os)"
      "BRTOS_Sem_Table os1 = BRTOS_Sem_Table os"
    and tk: "\<forall>u < length (ContextTask os). Priority (task u os1) = Priority (task u os) \<and>
              (u \<noteq> t \<longrightarrow> TimeToWait (task u os1) = TimeToWait (task u os))"
    by blast
  let ?os = "upd_sem s e' os1"
  have se: "sem s ?os = e'"
    using pend_invD(2) [OF inv] f by simp
  have lt: "u < length (ContextTask os)" if "installed os u" for u
    using tasks_okD(3) [OF k that] .
  have ins: "installed ?os u = installed os u" for u
    by (simp add: installed_def f)
  have nb: "p \<in> waiters ?e \<Longrightarrow> b"
    using pend_invD(9) [OF inv it] rt pd by (auto simp: b p timed_out_def)
  have wt: "waiters e' = waiters ?e - {p}"
    using ev.dequeue_waiting [OF pend_invD(10) [OF inv] p32] nb by (auto simp: e')
  have eok: "event_ok e'"
    using ev.dequeue_ok pend_invD(10) [OF inv] by (auto simp: e' b)
  have cnt: "OSEventCount e' = OSEventCount ?e" "Binary e' = Binary ?e"
    by (simp_all add: e' wait_dequeue_def)
  have k': "tasks_ok ?os"
    using k by (rule tasks_ok_cong) (use tk lt f in auto)
  have sl: "sleeping ?os ?pd u \<longleftrightarrow> sleeping os pd u \<and> u \<noteq> t"
    and to: "timed_out ?os ?pd u \<longleftrightarrow> timed_out os pd u \<and> u \<noteq> t" for u
    using tk lt [of u] pend_invD(7) [OF inv, of u] by (auto simp: sleeping_def timed_out_def)
  have inj: "Priority (task u os) = p \<longleftrightarrow> u = t" if "installed os u" for u
    using installed_priority_inj [OF k that it] p by auto
  have main: "pend_inv s ?os ?pd"
    unfolding pend_inv_def se wt
  proof (intro conjI allI impI ballI)
    show "\<exists>xs. delay_list ?os xs \<and> (\<forall>u. u \<in> set xs \<longleftrightarrow> sleeping ?os ?pd u)"
      using dl xs(2) sl delay_list_distinct [OF xs(1)]
      by (intro exI [of _ "remove1 t xs"]) simp
    show "?pd (PriorityVector ?os ! 0) = None"
      using pend_invD(5) [OF inv] by (simp add: f)
    show "installed ?os u" if "?pd u \<noteq> None" for u
      using that pend_invD(7) [OF inv] by (auto simp: ins split: if_splits)
    show "\<exists>u. ?pd u \<noteq> None \<and> Priority (task u ?os) = q" if q: "q \<in> waiters ?e - {p}" for q
    proof -
      obtain u where u: "pd u \<noteq> None" "Priority (task u os) = q"
        using q pend_invD(8) [OF inv, of q] by auto
      then have "u \<noteq> t" using q p by auto
      then show ?thesis
        using u tk lt [of u] pend_invD(7) [OF inv, of u] by (intro exI [of _ u]) simp
    qed
    fix u assume "installed ?os u"
    then have u: "installed os u" by (simp add: ins)
    show "bit (OSReadyList ?os) (Priority (task u ?os)) \<longleftrightarrow>
        ?pd u = None \<or> Priority (task u ?os) \<notin> waiters ?e - {p} \<or> timed_out ?os ?pd u"
      using pend_invD(9) [OF inv u] inj [OF u] tk lt [OF u] rt p by (cases "u = t") (auto simp: f to)
  qed (use k' eok pend_invD [OF inv] in \<open>simp_all add: f cnt\<close>, use pend_invD(11) [OF inv] in auto)
  have mem: "u \<in> granted s ?os ?pd \<longleftrightarrow> u \<in> granted s os pd \<and> u \<noteq> t" for u
    using inj [of u] tk lt [of u] unfolding granted_def se wt ins by auto
  have gt: "t \<in> granted s os pd \<longleftrightarrow> \<not> b"
    using nb it pd p by (auto simp: granted_def b)
  have "OSSemPend_resume s p w os = Some (if b then TIMEOUT else OK, ?os)"
    using r by (simp add: OSSemPend_resume_def)
  moreover have "cur_ok ?os"
    using cur tk lt f t it by (simp add: cur_ok_def installed_def)
  moreover have "granted s ?os ?pd = granted s os pd - {t}"
    using mem by blast
  ultimately show ?thesis
    using main gt cnt se by (auto simp del: upd_sem_sel)
qed

text \<open>Waking the highest waiter.\<close>

lemma pend_inv_wake:
  assumes inv: "pend_inv s os pd" and wt: "waiters (sem s os) \<noteq> {}"
    and os': "os' = set_ready (waiter (sem s os)) (upd_sem s (wait_dequeue (waiter (sem s os)) (sem s os)) os)"
  shows "pend_inv s os' pd \<and> OSEventCount (sem s os') = OSEventCount (sem s os) \<and>
         Binary (sem s os') = Binary (sem s os) \<and> iNesting os' = iNesting os \<and>
         (\<exists>t. t \<notin> granted s os pd \<and> granted s os' pd = insert t (granted s os pd))"
proof -
  let ?e = "sem s os"
  let ?p = "waiter ?e" and ?e' = "wait_dequeue (waiter ?e) ?e"
  note k = pend_invD(1) [OF inv] and eok = pend_invD(10) [OF inv]
  have p: "?p \<in> waiters ?e" "?p < 32"
    using ev.first_in [OF eok wt] ev.waiting_less by auto
  obtain t where t: "pd t \<noteq> None" "Priority (task t os) = ?p" and it: "installed os t"
    using pend_invD(8) [OF inv p(1)] pend_invD(7) [OF inv] by blast
  have se: "sem s os' = ?e'"
    using pend_invD(2) [OF inv] by (simp add: os')
  have wt': "waiters ?e' = waiters ?e - {?p}" and eok': "event_ok ?e'"
    using ev.dequeue_waiting [OF eok p(2)] ev.dequeue_ok [OF eok p(1)] by auto
  have rd: "bit (OSReadyList os') q \<longleftrightarrow> bit (OSReadyList os) q \<or> q = ?p" for q
    using p(2) by (auto simp: os' ready_set)
  have f: "ContextTask os' = ContextTask os" "PriorityVector os' = PriorityVector os"
    "TaskAlloc os' = TaskAlloc os" "iNesting os' = iNesting os" "OSBlockedList os' = OSBlockedList os"
    by (simp_all add: os')
  have ins: "installed os' u = installed os u" for u
    by (simp add: installed_def f)
  have k': "tasks_ok os'"
    using k by (rule tasks_ok_cong) (use f rd t it in auto)
  have sl: "sleeping os' pd u = sleeping os pd u" and to: "timed_out os' pd u = timed_out os pd u" for u
    by (simp_all add: sleeping_def timed_out_def f)
  have inj: "Priority (task u os) = ?p \<longleftrightarrow> u = t" if "installed os u" for u
    using installed_priority_inj [OF k that it] t by auto
  have main: "pend_inv s os' pd"
    unfolding pend_inv_def se wt'
  proof (intro conjI allI impI ballI)
    show "\<exists>xs. delay_list os' xs \<and> (\<forall>u. u \<in> set xs \<longleftrightarrow> sleeping os' pd u)"
      using pend_invD(6) [OF inv] by (simp add: sl) (simp add: os')
    show "\<exists>u. pd u \<noteq> None \<and> Priority (task u os') = q" if q: "q \<in> waiters ?e - {?p}" for q
      using q pend_invD(8) [OF inv, of q] by (simp add: f)
    show "installed os' u" if "pd u \<noteq> None" for u
      using that pend_invD(7) [OF inv] by (simp add: ins)
    fix u assume "installed os' u"
    then have u: "installed os u" by (simp add: ins)
    show "bit (OSReadyList os') (Priority (task u os')) \<longleftrightarrow>
        pd u = None \<or> Priority (task u os') \<notin> waiters ?e - {?p} \<or> timed_out os' pd u"
      using pend_invD(9) [OF inv u] inj [OF u] by (auto simp: f rd to)
  qed (use k' eok' pend_invD [OF inv] wt in \<open>simp_all add: f rd\<close>, simp_all add: os' wait_dequeue_def)
  have "granted s os' pd = insert t (granted s os pd)"
  proof -
    have "u \<in> granted s os' pd \<longleftrightarrow> u = t \<or> u \<in> granted s os pd" for u
      using inj [of u] t it unfolding granted_def se wt' ins f by auto
    then show ?thesis by blast
  qed
  moreover have "t \<notin> granted s os pd"
    using t p by (simp add: granted_def)
  ultimately show ?thesis
    using main by (auto simp: se f wait_dequeue_def)
qed

text \<open>The timer: a limit that runs out makes its task ready and takes it out of the delay list.\<close>

lemma pend_inv_tick:
  assumes inv: "pend_inv s os pd"
  shows "\<exists>os'. tick os = Some os' \<and> pend_inv s os' pd \<and> iNesting os' = iNesting os \<and>
           BRTOS_Sem_Table os' = BRTOS_Sem_Table os \<and> granted s os' pd = granted s os pd"
proof -
  let ?o = "OSIncCounter os"
  note k = pend_invD(1) [OF inv]
  obtain xs where xs: "delay_list os xs" "\<forall>u. u \<in> set xs \<longleftrightarrow> sleeping os pd u"
    using pend_invD(6) [OF inv] by blast
  have ix: "installed os u" if "u \<in> set xs" for u
    using that xs(2) pend_invD(7) [OF inv] by (auto simp: sleeping_def)
  have dl: "delay_list ?o xs" and pr32: "\<forall>u \<in> set xs. Priority (task u ?o) < 32"
    using xs(1) ix tasks_okD(1) [OF k] by auto
  obtain os' where h: "OS_TICK_HANDLER ?o = Some os'" "delay_list os' (filter (\<lambda>u. \<not> due ?o u) xs)"
    "\<forall>p. bit (OSReadyList os') p \<longleftrightarrow>
       bit (OSReadyList ?o) p \<or> (\<exists>u \<in> set xs. due ?o u \<and> p = Priority (task u ?o))"
    "length (ContextTask os') = length (ContextTask ?o)"
    "\<forall>u < length (ContextTask ?o). Priority (task u os') = Priority (task u ?o) \<and>
       TimeToWait (task u os') = (if u \<in> set xs \<and> due ?o u then EXIT_BY_TIMEOUT else TimeToWait (task u ?o))"
    "OSBlockedList os' = OSBlockedList ?o" "PriorityVector os' = PriorityVector ?o"
    "iNesting os' = iNesting ?o"
    using OS_TICK_HANDLER_ok [OF dl pr32] by blast
  note fr = OS_TICK_HANDLER_frame [OF h(1) dl]
  have lt: "u < length (ContextTask os)" if "installed os u" for u
    using tasks_okD(3) [OF k that] .
  have ins: "installed os' u = installed os u" for u
    by (simp add: installed_def fr)
  have pr: "Priority (task u os') = Priority (task u os)" if "installed os u" for u
    using h(5) lt [OF that] by simp
  have dueX: "due ?o u \<longrightarrow> u \<in> set xs \<longrightarrow> sleeping os pd u" for u
    using xs(2) by simp
  have sl: "sleeping os' pd u \<longleftrightarrow> sleeping os pd u \<and> \<not> due ?o u"
    and to: "timed_out os' pd u \<longleftrightarrow> timed_out os pd u \<or> (u \<in> set xs \<and> due ?o u)" for u
    using h(5) lt [of u] pend_invD(7) [OF inv, of u] xs(2)
    by (auto simp: sleeping_def timed_out_def split: if_splits)
  have rd: "bit (OSReadyList os') p \<longleftrightarrow>
      bit (OSReadyList os) p \<or> (\<exists>u \<in> set xs. due ?o u \<and> p = Priority (task u os))" for p
    using h(3) by simp
  have k': "tasks_ok os'"
    using k by (rule tasks_ok_cong) (use h(4,7) pr fr rd ix in auto)
  have se: "sem s os' = sem s os"
    by (simp add: fr)
  have main: "pend_inv s os' pd"
    unfolding pend_inv_def se
  proof (intro conjI allI impI ballI)
    show "\<exists>xs. delay_list os' xs \<and> (\<forall>u. u \<in> set xs \<longleftrightarrow> sleeping os' pd u)"
      using h(2) xs(2) sl by (intro exI [of _ "filter (\<lambda>u. \<not> due ?o u) xs"]) simp
    show "installed os' u" if "pd u \<noteq> None" for u
      using that pend_invD(7) [OF inv] by (simp add: ins)
    show "\<exists>u. pd u \<noteq> None \<and> Priority (task u os') = q" if q: "q \<in> waiters (sem s os)" for q
    proof -
      obtain u where u: "pd u \<noteq> None" "Priority (task u os) = q"
        using pend_invD(8) [OF inv q] by blast
      then show ?thesis
        using pr pend_invD(7) [OF inv, of u] by (intro exI [of _ u]) simp
    qed
    fix u assume "installed os' u"
    then have u: "installed os u" by (simp add: ins)
    have "(\<exists>v \<in> set xs. due ?o v \<and> Priority (task u os) = Priority (task v os)) \<longleftrightarrow> u \<in> set xs \<and> due ?o u"
      using installed_priority_inj [OF k u] ix by blast
    then show "bit (OSReadyList os') (Priority (task u os')) \<longleftrightarrow>
        pd u = None \<or> Priority (task u os') \<notin> waiters (sem s os) \<or> timed_out os' pd u"
      using pend_invD(9) [OF inv u] pr [OF u] by (auto simp: rd to)
  qed (use k' pend_invD [OF inv] h(6,7) in \<open>simp_all add: rd fr\<close>)
  have "u \<in> granted s os' pd \<longleftrightarrow> u \<in> granted s os pd" for u
    using pr [of u] by (auto simp: granted_def se ins)
  then have "granted s os' pd = granted s os pd" by blast
  with main h(1,8) fr show ?thesis
    by (simp add: tick_def)
qed

lemma pend_inv_enter [simp]: "pend_inv s (OS_INT_ENTER os) pd = pend_inv s os pd"
  "granted s (OS_INT_ENTER os) pd = granted s os pd"
  "iNesting (OS_INT_ENTER os) = iNesting os + 1" "BRTOS_Sem_Table (OS_INT_ENTER os) = BRTOS_Sem_Table os"
  by (simp_all add: OS_INT_ENTER_def)

lemma pend_inv_exit:
  assumes "pend_inv s os pd" and "iNesting os = 1"
  shows "pend_inv s (OS_INT_EXIT os) pd \<and> cur_ok (OS_INT_EXIT os) \<and>
         granted s (OS_INT_EXIT os) pd = granted s os pd \<and>
         BRTOS_Sem_Table (OS_INT_EXIT os) = BRTOS_Sem_Table os"
proof -
  have "cur_ok (SwitchContext (os\<lparr>iNesting := 0\<rparr>))"
    using assms by (intro cur_ok_switch [of s _ pd]) simp_all
  moreover have "OS_INT_EXIT os = SwitchContext (os\<lparr>iNesting := 0\<rparr>)"
    using assms(2) by (simp add: OS_INT_EXIT_def SwitchContext_def Let_def)
  ultimately show ?thesis
    using assms(1) by simp
qed

text \<open>A post, from a task or an interrupt: before the context switch and after it.\<close>

lemma pend_inv_post:
  assumes inv: "pend_inv s os pd" and r: "OSSemPost s os = (c, os')"
  shows "pend_inv s os' pd \<and> iNesting os' = iNesting os \<and> (cur_ok os \<longrightarrow> cur_ok os') \<and>
         Binary (sem s os') = Binary (sem s os) \<and>
         (\<not> Binary (sem s os) \<longrightarrow>
            unat (OSEventCount (sem s os')) + card (granted s os' pd) =
              unat (OSEventCount (sem s os)) + card (granted s os pd) + (if c = OK then 1 else 0))"
proof (cases "OSEventWait (sem s os) = 0")
  case True
  let ?e = "sem s os"
  have w: "waiters ?e = {}"
    using wait_nonzero [OF pend_invD(10) [OF inv]] True by simp
  have x: "waiters (?e\<lparr>OSEventCount := n\<rparr>) = {}" "event_ok (?e\<lparr>OSEventCount := n\<rparr>)" for n
    using w pend_invD(10) [OF inv] by (simp_all add: waiters_def event_ok_def)
  note u = pend_inv_upd_sem [OF inv w x]
  have "unat (OSEventCount ?e + 1) = unat (OSEventCount ?e) + 1" if "OSEventCount ?e < 255"
    using that by (intro unat_add_1) (simp add: word_less_nat_alt)
  then show ?thesis
    using r True inv u pend_invD(2) [OF inv]
    by (auto simp: OSSemPost_def Let_def split: if_splits)
next
  case False
  let ?o = "set_ready (waiter (sem s os)) (upd_sem s (wait_dequeue (waiter (sem s os)) (sem s os)) os)"
  have w: "waiters (sem s os) \<noteq> {}"
    using wait_nonzero [OF pend_invD(10) [OF inv]] False by simp
  then have c0: "OSEventCount (sem s os) = 0"
    using pend_invD(11) [OF inv] by blast
  from pend_inv_wake [OF inv w refl]
  obtain t where i: "pend_inv s ?o pd" "OSEventCount (sem s ?o) = OSEventCount (sem s os)"
      "Binary (sem s ?o) = Binary (sem s os)" "iNesting ?o = iNesting os"
      "t \<notin> granted s os pd" "granted s ?o pd = insert t (granted s os pd)"
    by blast
  have fin: "finite (granted s os pd)"
    by (rule finite_subset [of _ "{..12}"]) (auto simp: granted_def installed_def)
  have o: "os' = (if iNesting ?o = 0 then ChangeContext ?o else ?o)" "c = OK"
    using r False by (auto simp: OSSemPost_def Let_def)
  have "cur_ok os \<longrightarrow> cur_ok os'"
    using cur_ok_switch [OF i(1)] i(4) by (auto simp: o cur_ok_def)
  moreover have "granted s os' pd = insert t (granted s os pd)" "pend_inv s os' pd"
    "sem s os' = sem s ?o" "iNesting os' = iNesting os"
    using i by (auto simp: o)
  ultimately show ?thesis
    using i fin by (simp add: o(2))
qed

lemma pend_inv_return:
  assumes inv: "pend_inv s os pd" and cur: "cur_ok os" and r: "OSSemPend s w os = (Return c, os')"
  shows "pend_inv s os' pd \<and> cur_ok os' \<and> Binary (sem s os') = Binary (sem s os) \<and>
         granted s os' pd = granted s os pd \<and>
         unat (OSEventCount (sem s os')) + (if c = OK then 1 else 0) = unat (OSEventCount (sem s os))"
proof (cases "OSEventCount (sem s os) > 0")
  case True
  let ?e = "sem s os"
  have w: "waiters ?e = {}"
    using pend_invD(11) [OF inv] True by fastforce
  have x: "waiters (?e\<lparr>OSEventCount := n\<rparr>) = {}" "event_ok (?e\<lparr>OSEventCount := n\<rparr>)" for n
    using w pend_invD(10) [OF inv] by (simp_all add: waiters_def event_ok_def)
  have "unat (OSEventCount ?e - 1) + 1 = unat (OSEventCount ?e)"
    using True unat_minus_one [of "OSEventCount ?e"] by (auto simp: word_gt_0 unat_gt_0)
  moreover have "c = OK" "os' = upd_sem s (?e\<lparr>OSEventCount := OSEventCount ?e - 1\<rparr>) os"
    using r True by (auto simp: OSSemPend_def Let_def)
  ultimately show ?thesis
    using pend_inv_upd_sem [OF inv w x] cur pend_invD(2) [OF inv] by simp
next
  case False
  then show ?thesis
    using r inv cur by (auto simp: OSSemPend_def Let_def split: if_splits)
qed

lemma sem_invI:
  assumes "pend_inv s (kernel z) (pend z)" and "cur_ok (kernel z)" and "sem_inv s y"
    and "Binary (sem s (kernel z)) = Binary (sem s (kernel y))" and "initial z = initial y"
    and "\<not> Binary (sem s (kernel y)) \<Longrightarrow>
      posted y + unat (OSEventCount (sem s (kernel z))) + taken z + card (granted s (kernel z) (pend z)) =
      posted z + unat (OSEventCount (sem s (kernel y))) + taken y + card (granted s (kernel y) (pend y))"
  shows "sem_inv s z"
  using assms by (auto simp: sem_inv_def)

lemma finite_granted [simp]: "finite (granted s os pd)"
  by (rule finite_subset [of _ "{..12}"]) (auto simp: granted_def installed_def)

lemma sem_inv_step:
  assumes "sem_inv s y" and "sem_step s y z"
  shows "sem_inv s z"
proof -
  note i = assms(1) [unfolded sem_inv_def]
  from assms(2) show ?thesis
  proof cases
    case (pend_return w c os')
    note z = pend_return(1) and r = pend_return(2)
    show ?thesis
      using pend_inv_return [OF _ _ r] i by (intro sem_invI [OF _ _ assms(1)]) (auto simp: z)
  next
    case (pend_wait w os')
    let ?os = "kernel y" and ?t = "currentTask (kernel y)"
    note z = pend_wait(1) and r = pend_wait(2) and a = pend_wait(3-5)
    have "OSEventCount (sem s ?os) = 0"
      and "os' = suspend w (upd_sem s (wait_enqueue (Priority (task ?t ?os)) (sem s ?os)) ?os)"
      using r by (auto simp: OSSemPend_def Let_def word_gt_0 split: if_splits)
    then show ?thesis
      using pend_inv_suspend [of s ?os "pend y" ?t "Priority (task ?t ?os)" w os'] a i
      by (intro sem_invI [OF _ _ assms(1)]) (auto simp: z)
  next
    case (pend_resume t w c os')
    let ?os = "kernel y"
    note z = pend_resume(1) and a = pend_resume(2,3) and r = pend_resume(4)
    have h: "pend_inv s os' ((pend y)(t := None)) \<and> cur_ok os' \<and>
             OSEventCount (sem s os') = OSEventCount (sem s ?os) \<and>
             Binary (sem s os') = Binary (sem s ?os) \<and>
             (if c = OK then t \<in> granted s ?os (pend y) \<and>
                granted s os' ((pend y)(t := None)) = granted s ?os (pend y) - {t}
              else c = TIMEOUT \<and> granted s os' ((pend y)(t := None)) = granted s ?os (pend y))"
      using pend_inv_resume [OF conjunct1 [OF i] conjunct1 [OF conjunct2 [OF i]] a(1) a(2) [symmetric] refl]
      unfolding r by simp
    have "c = OK \<Longrightarrow> Suc (card (granted s ?os (pend y) - {t})) = card (granted s ?os (pend y))"
      using h by (intro card_Suc_Diff1) auto
    then show ?thesis
      using h by (intro sem_invI [OF _ _ assms(1)]) (auto simp: z split: if_splits)
  next
    case (post_task c os')
    note z = post_task(1) and r = post_task(2)
    show ?thesis
      using pend_inv_post [OF _ r, of "pend y"] i by (intro sem_invI [OF _ _ assms(1)]) (auto simp: z)
  next
    case (post_interrupt os' c)
    note z = post_interrupt(1) and r = post_interrupt(2) and c = post_interrupt(3)
    let ?o = "OS_INT_ENTER (kernel y)" and ?m = "snd (OSSemPost s (OS_INT_ENTER (kernel y)))"
    have o: "os' = OS_INT_EXIT ?m" "OSSemPost s ?o = (c, ?m)"
      using r c by (simp_all add: interrupt_def)
    have h: "pend_inv s ?m (pend y)" "iNesting ?m = 1"
      "Binary (sem s ?m) = Binary (sem s (kernel y))"
      "\<not> Binary (sem s (kernel y)) \<Longrightarrow>
         unat (OSEventCount (sem s ?m)) + card (granted s ?m (pend y)) =
         unat (OSEventCount (sem s (kernel y))) + card (granted s (kernel y) (pend y)) + (if c = OK then 1 else 0)"
      using pend_inv_post [OF _ o(2), of "pend y"] i by (auto simp: cur_ok_def)
    show ?thesis
      using pend_inv_exit [OF h(1,2)] h(3,4) by (intro sem_invI [OF _ _ assms(1)]) (auto simp: z o(1))
  next
    case (timer os')
    note z = timer(1) and r = timer(2)
    let ?o = "OS_INT_ENTER (kernel y)"
    obtain m where m: "tick ?o = Some m" "pend_inv s m (pend y)" "iNesting m = iNesting ?o"
        "BRTOS_Sem_Table m = BRTOS_Sem_Table ?o" "granted s m (pend y) = granted s ?o (pend y)"
      using pend_inv_tick [of s ?o "pend y"] i by auto
    have "os' = OS_INT_EXIT m"
      using r m(1) by (simp add: interrupt_def)
    moreover have "iNesting m = 1"
      using m(3) i by (simp add: cur_ok_def)
    ultimately show ?thesis
      using pend_inv_exit [OF m(2)] m(4,5) by (intro sem_invI [OF _ _ assms(1)]) (auto simp: z)
  qed
qed

lemma sem_inv_reach: "sem_reach s y z \<Longrightarrow> sem_inv s y \<Longrightarrow> sem_inv s z"
  by (induction rule: sem_reach.induct) (auto intro: sem_inv_step)

lemma sem_step_initial: "sem_step s y z \<Longrightarrow> initial z = initial y"
  by (auto elim: sem_stepE)

section \<open>What the system guarantees\<close>

text \<open>
  A start: every installed task is ready (the idle task, at priority 0, among them), nobody
  sleeps or waits, and the processor runs a ready task.
\<close>

definition sem_start :: "nat \<Rightarrow> os \<Rightarrow> bool" where
  "sem_start s os \<longleftrightarrow>
     tasks_ok os \<and> s < length (BRTOS_Sem_Table os) \<and> delay_list os [] \<and>
     bit (OSReadyList os) 0 \<and> bit (OSBlockedList os) 0 \<and>
     (\<forall>t. installed os t \<longrightarrow> bit (OSReadyList os) (Priority (task t os))) \<and>
     OSEventWait (sem s os) = 0 \<and> OSEventWaitList (sem s os) = 0 \<and> cur_ok os"

definition sem_init :: "nat \<Rightarrow> os \<Rightarrow> sem_sys" where
  "sem_init s os = \<lparr>kernel = os, pend = (\<lambda>_. None), initial = unat (OSEventCount (sem s os)),
     posted = 0, taken = 0\<rparr>"

lemma sem_start_inv: "sem_start s os \<Longrightarrow> sem_inv s (sem_init s os)"
proof -
  assume a: "sem_start s os"
  then have w: "waiters (sem s os) = {}" "event_ok (sem s os)"
    by (simp_all add: sem_start_def waiters_def event_ok_def)
  have "delay_list os [] \<and> (\<forall>t. t \<in> set [] \<longleftrightarrow> sleeping os (\<lambda>_. None) t)"
    using a by (simp add: sem_start_def sleeping_def)
  then have "\<exists>xs. delay_list os xs \<and> (\<forall>t. t \<in> set xs \<longleftrightarrow> sleeping os (\<lambda>_. None) t)"
    by blast
  then show ?thesis
    using a w by (simp add: sem_inv_def sem_init_def pend_inv_def sem_start_def granted_def)
qed

lemma reach_inv: "sem_start s os \<Longrightarrow> sem_reach s (sem_init s os) y \<Longrightarrow> sem_inv s y"
  by (blast intro: sem_inv_reach sem_start_inv)

text \<open>
  C1. No wake-up is lost.  However tasks, interrupts and timeouts interleave, a task waits on
  the semaphore only while its count is zero; the wait counter is the number of waiters; every
  waiter is a task suspended in a pend; and a waiter that is not ready has not run out of time.
\<close>

theorem semaphore_no_lost_wakeup:
  assumes "sem_start s os" and "sem_reach s (sem_init s os) y"
  defines "e \<equiv> sem s (kernel y)"
  shows "(waiters e \<noteq> {} \<longrightarrow> OSEventCount e = 0) \<and>
         unat (OSEventWait e) = card (waiters e) \<and>
         (\<forall>p \<in> waiters e. \<exists>t. pend y t \<noteq> None \<and> Priority (task t (kernel y)) = p) \<and>
         (\<forall>t. pend y t \<noteq> None \<longrightarrow>
            (\<not> bit (OSReadyList (kernel y)) (Priority (task t (kernel y))) \<longleftrightarrow>
             Priority (task t (kernel y)) \<in> waiters e \<and> \<not> timed_out (kernel y) (pend y) t))"
proof -
  have i: "pend_inv s (kernel y) (pend y)"
    using reach_inv [OF assms(1,2)] by (simp add: sem_inv_def)
  show ?thesis
    using pend_invD(7-11) [OF i] ev.ok_count by (auto simp: e_def)
qed

text \<open>
  C2. Tokens are conserved.  For a counting semaphore the initial count and the successful
  posts add up to the current count, the successful pends, and the tasks that a post has
  already released but which have not run yet.
\<close>

theorem semaphore_conservation:
  assumes "sem_start s os" and "sem_reach s (sem_init s os) y" and "\<not> Binary (sem s (kernel y))"
  shows "initial y + posted y =
         unat (OSEventCount (sem s (kernel y))) + taken y + card (granted s (kernel y) (pend y))"
  using reach_inv [OF assms(1,2)] assms(3) by (simp add: sem_inv_def)

text \<open>
  C3. A pend that is selected again always returns: the delay list links it follows are never
  NULL, it returns \<open>OK\<close> to a task that was granted a token, and \<open>TIMEOUT\<close> to a task whose
  limit has run out while it was still waiting.
\<close>

theorem OSSemPend_resume_total:
  assumes "sem_start s os" and "sem_reach s (sem_init s os) y"
    and "currentTask (kernel y) = t" and "pend y t = Some w"
  shows "\<exists>c os'. OSSemPend_resume s (Priority (task t (kernel y))) w (kernel y) = Some (c, os') \<and>
           (c = OK \<longleftrightarrow> t \<in> granted s (kernel y) (pend y)) \<and>
           (c = TIMEOUT \<longleftrightarrow> t \<notin> granted s (kernel y) (pend y))"
proof -
  have i: "pend_inv s (kernel y) (pend y)" "cur_ok (kernel y)"
    using reach_inv [OF assms(1,2)] by (simp_all add: sem_inv_def)
  obtain c os' where r: "OSSemPend_resume s (Priority (task t (kernel y))) w (kernel y) = Some (c, os')"
    and g: "if c = OK then t \<in> granted s (kernel y) (pend y) \<and>
              granted s os' ((pend y)(t := None)) = granted s (kernel y) (pend y) - {t}
            else c = TIMEOUT \<and> granted s os' ((pend y)(t := None)) = granted s (kernel y) (pend y)"
    using pend_inv_resume [OF i assms(4) assms(3) [symmetric] refl] by blast
  have "t \<notin> granted s os' ((pend y)(t := None))"
    by (simp add: granted_def)
  then show ?thesis
    using r g by (auto split: if_splits)
qed

section \<open>A concrete run\<close>

text \<open>
  The idle task 1 (priority 0) and task 2 (priority 5) share semaphore 0, whose count is 0:
  task 2 pends with a limit of 9 ticks, and an interrupt posts.
\<close>

abbreviation demo :: os where
  "demo \<equiv> idle_and_one"

lemma demo_start: "sem_start 0 demo"
proof -
  have "cur_ok demo"
    by (simp add: cur_ok_def idle_and_one_installed idle_and_one_sel bit_21 del: bit_numeral_word_iff)
  moreover have "Priority (task 1 demo) = 0"
    by (simp add: idle_and_one_def tcb_zero_def)
  then have "\<forall>t. installed demo t \<longrightarrow> bit (OSReadyList demo) (Priority (task t demo))"
    unfolding idle_and_one_installed
    by (auto simp: idle_and_one_sel bit_21 simp del: bit_numeral_word_iff)
  ultimately show ?thesis
    using idle_and_one_ok
    by (simp add: sem_start_def idle_and_one_sel) (simp add: idle_and_one_def os_globals_def)
qed

definition demo_wait :: sem_sys where
  "demo_wait = (sem_init 0 demo)\<lparr>
     kernel := suspend 9 (upd_sem 0 (wait_enqueue 5 (sem 0 demo)) demo), pend := (\<lambda>_. None)(2 := Some 9)\<rparr>"

definition demo_post :: sem_sys where
  "demo_post = demo_wait\<lparr>
     kernel := OS_INT_EXIT (snd (OSSemPost 0 (OS_INT_ENTER (kernel demo_wait)))), posted := 1\<rparr>"

lemma demo_facts:
  "currentTask demo = 2" "Priority (task 2 demo) = 5" "OSEventCount (sem 0 demo) = 0"
  "OSTickCounter demo = 0" "OSEventWait (sem 0 demo) = 0" "OSEventWaitList (sem 0 demo) = 0"
  "\<not> Binary (sem 0 demo)" "iNesting demo = 0" "0 < length (BRTOS_Sem_Table demo)"
  "OSReadyList demo = 0x21" "OSBlockedList demo = 0xFFFFFFFF" "PriorityVector demo ! 5 = 2"
  by (simp_all add: idle_and_one_def os_globals_def tcb_zero_def)

lemma demo_reach_wait: "sem_reach 0 (sem_init 0 demo) demo_wait"
proof -
  have "OSSemPend 0 9 demo = (Suspended, suspend 9 (upd_sem 0 (wait_enqueue 5 (sem 0 demo)) demo))"
    by (simp add: OSSemPend_def demo_facts codes)
  then have "sem_step 0 (sem_init 0 demo) demo_wait"
    using sem_step.pend_wait [of 0 9 "sem_init 0 demo"]
    by (simp add: sem_init_def demo_wait_def demo_facts codes)
  then show ?thesis
    by (rule sem_reach.more [OF sem_reach.start])
qed

lemma demo_wait_sem: "sem 0 (kernel demo_wait) = wait_enqueue 5 (sem 0 demo)"
  using demo_facts(9) by (simp add: demo_wait_def)

lemma demo_post_code: "fst (OSSemPost 0 (OS_INT_ENTER (kernel demo_wait))) = OK"
  by (simp add: OSSemPost_def Let_def OS_INT_ENTER_def demo_wait_sem wait_enqueue_def demo_facts)

lemma demo_reach_post: "sem_reach 0 (sem_init 0 demo) demo_post"
proof -
  have "sem_step 0 demo_wait demo_post"
    using sem_step.post_interrupt [of 0 demo_wait _ OK] demo_post_code
    by (simp add: interrupt_def demo_post_def) (simp add: demo_wait_def sem_init_def)
  then show ?thesis
    by (rule sem_reach.more [OF demo_reach_wait])
qed

lemma demo_post_kernel:
  "currentTask (kernel demo_post) = 2" "sem 0 (kernel demo_post) =
     (sem 0 demo)\<lparr>OSEventWait := 0, OSEventWaitList := 0\<rparr>"
  "pend demo_post 2 = Some 9" "Priority (task 2 (kernel demo_post)) = 5"
proof -
  have w: "waiter (wait_enqueue 5 (sem 0 demo)) = 5"
    by (simp add: demo_facts SAScheduler_def SAScheduler_low_def)
  have "OSReadyList (kernel demo_wait) = 1" "OSBlockedList (kernel demo_wait) = 0xFFFFFFFF"
    "PriorityVector (kernel demo_wait) = PriorityVector demo" "iNesting (kernel demo_wait) = 0"
    by (simp_all add: demo_wait_def demo_facts)
  then show "currentTask (kernel demo_post) = 2"
    using w demo_facts
    by (simp add: demo_post_def OSSemPost_def Let_def OS_INT_ENTER_def demo_wait_sem OS_INT_EXIT_def
        wait_enqueue_def OSSchedule_def set_ready_def SAScheduler_def SAScheduler_low_def)
  show "sem 0 (kernel demo_post) = (sem 0 demo)\<lparr>OSEventWait := 0, OSEventWaitList := 0\<rparr>"
    using w demo_facts
    by (simp add: demo_post_def OSSemPost_def Let_def OS_INT_ENTER_def demo_wait_sem OS_INT_EXIT_def
        wait_enqueue_def wait_dequeue_def) (simp add: demo_wait_def)
  show "pend demo_post 2 = Some 9"
    by (simp add: demo_post_def demo_wait_def)
  have "2 < length (ContextTask demo)"
    by (simp add: idle_and_one_sel)
  then have "Priority (task 2 (kernel demo_wait)) = 5"
    by (simp add: demo_wait_def suspend_tasks demo_facts)
  then show "Priority (task 2 (kernel demo_post)) = 5"
    using w demo_facts by (simp add: demo_post_def OSSemPost_def Let_def OS_INT_ENTER_def
        OS_INT_EXIT_def)
qed

theorem semaphore_no_lost_wakeup_witness:
  "unat (OSEventWait (sem 0 (kernel demo_wait))) = card (waiters (sem 0 (kernel demo_wait)))"
  using semaphore_no_lost_wakeup [OF demo_start demo_reach_wait] by blast

theorem semaphore_conservation_witness:
  "initial demo_post + posted demo_post = 1 \<and> card (granted 0 (kernel demo_post) (pend demo_post)) = 1"
  using semaphore_conservation [OF demo_start demo_reach_post]
  by (simp add: demo_post_kernel demo_facts)
     (simp add: demo_post_def demo_wait_def sem_init_def demo_facts)

theorem OSSemPend_resume_total_witness:
  "\<exists>os'. OSSemPend_resume 0 5 9 (kernel demo_post) = Some (OK, os')"
proof -
  have "2 \<in> granted 0 (kernel demo_post) (pend demo_post)"
  proof -
    have "installed (kernel demo_post) 2"
      using reach_inv [OF demo_start demo_reach_post] demo_post_kernel(1)
      by (auto simp: sem_inv_def cur_ok_def)
    then show ?thesis
      by (simp add: granted_def demo_post_kernel waiters_def)
  qed
  then show ?thesis
    using OSSemPend_resume_total [OF demo_start demo_reach_post demo_post_kernel(1,3)]
    by (auto simp: demo_post_kernel)
qed

end
