(* ===== verification/Mutex.thy ===== *)
theory Mutex
  imports Event
begin

text \<open>
  Mutexes with immediate priority ceiling, \<^verbatim>\<open>brtos/mutex.c\<close>.  A mutex is an index of
  \<open>BRTOS_Mutex_Table\<close>; task 0 as owner means that nobody owns it.  \<open>OSMutexAcquire\<close> is split
  at its context switch.
\<close>

section \<open>Operations\<close>

abbreviation mutex :: "nat \<Rightarrow> os \<Rightarrow> mutex_cb" where
  "mutex m os \<equiv> BRTOS_Mutex_Table os ! m"

definition upd_mutex :: "nat \<Rightarrow> mutex_cb \<Rightarrow> os \<Rightarrow> os" where
  "upd_mutex m e os = os\<lparr>BRTOS_Mutex_Table := (BRTOS_Mutex_Table os)[m := e]\<rparr>"

definition OSMutexCreate :: "nat \<Rightarrow> os \<Rightarrow> u8 \<times> nat option \<times> os" where
  "OSMutexCreate HigherPriority os =
     (if iNesting os > 0 then (IRQ_PEND_ERR, None, os)
      else if HigherPriority > 0 \<and> PriorityVector os ! HigherPriority \<noteq> EMPTY_PRIO
      then (BUSY_PRIORITY, None, os)
      else
        (let os1 = (if HigherPriority > 0
                    then os\<lparr>PriorityVector := (PriorityVector os)[HigherPriority := MUTEX_PRIO]\<rparr>
                    else os);
             i = first_idx (\<lambda>e. \<not> OSEventAllocated e) (BRTOS_Mutex_Table os1) in
         if i \<ge> length (BRTOS_Mutex_Table os1) then (NO_AVAILABLE_EVENT, None, os1)
         else (ALLOC_EVENT_OK, Some i,
           upd_mutex i ((mutex i os1)\<lparr>OSEventAllocated := True, OSEventState := AVAILABLE_RESOURCE,
             OSEventWait := 0, OSMaxPriority := HigherPriority, OSEventWaitList := 0\<rparr>) os1)))"

definition OSMutexDelete :: "nat \<Rightarrow> os \<Rightarrow> u8 \<times> os" where
  "OSMutexDelete m os =
     (if iNesting os > 0 then (IRQ_PEND_ERR, os)
      else (DELETE_EVENT_OK, upd_mutex m \<lparr>OSEventAllocated = False, OSEventWait = 0,
              OSEventWaitList = 0, OSEventState = 0, OSEventOwner = 0, OSMaxPriority = 0,
              OSOriginalPriority = 0\<rparr> os))"

text \<open>
  The temporary exchange of the current task's priority for the ceiling, if it is higher.
\<close>

definition raise_to_ceiling :: "nat \<Rightarrow> nat \<Rightarrow> os \<Rightarrow> os" where
  "raise_to_ceiling orig ceiling os =
     (if ceiling > orig then
        (let t = currentTask os;
             os1 = upd_task t (\<lambda>c. c\<lparr>Priority := ceiling\<rparr>) os;
             os2 = os1\<lparr>PriorityVector := (PriorityVector os1)[ceiling := t]\<rparr>;
             os3 = clear_ready orig os2
         in set_ready ceiling os3)
      else os)"

definition OSMutexAcquire :: "nat \<Rightarrow> u64 \<Rightarrow> os \<Rightarrow> u8 call \<times> os" where
  "OSMutexAcquire m time_wait os =
     (let e = mutex m os; t = currentTask os in
      if t = OSEventOwner e then (Return OK, os)
      else if OSEventState e = AVAILABLE_RESOURCE then
        (let prio = Priority (task t os);
             e1 = e\<lparr>OSEventState := BUSY_RESOURCE, OSEventOwner := t, OSOriginalPriority := prio\<rparr>
         in (Return OK, raise_to_ceiling prio (OSMaxPriority e1) (upd_mutex m e1 os)))
      else if time_wait = NO_TIMEOUT then (Return EXIT_BY_NO_RESOURCE_AVAILABLE, os)
      else
        (let iPriority = Priority (task t os)
         in (Suspended, suspend time_wait (upd_mutex m (wait_enqueue iPriority e) os))))"

definition OSMutexAcquire_resume :: "nat \<Rightarrow> nat \<Rightarrow> u64 \<Rightarrow> os \<Rightarrow> (u8 \<times> os) option" where
  "OSMutexAcquire_resume m iPriority time_wait os = do {
     (timed_out, e, os1) \<leftarrow> wake_up iPriority time_wait (mutex m os) os;
     if timed_out then Some (EXIT_BY_NO_RESOURCE_AVAILABLE, upd_mutex m e os1)
     else
       (let e1 = e\<lparr>OSOriginalPriority := iPriority\<rparr>
        in Some (OK, raise_to_ceiling iPriority (OSMaxPriority e1) (upd_mutex m e1 os1)))
   }"

text \<open>Back to the priority the owner had when it took the mutex.\<close>

definition restore_priority :: "nat \<Rightarrow> os \<Rightarrow> os" where
  "restore_priority orig os =
     (let t = currentTask os; iPriority = Priority (task t os) in
      if iPriority \<noteq> orig then
        (let os1 = clear_ready iPriority os;
             os2 = set_ready orig os1
         in upd_task t (\<lambda>c. c\<lparr>Priority := orig\<rparr>) os2)
      else os)"

definition OSMutexRelease :: "nat \<Rightarrow> os \<Rightarrow> u8 \<times> os" where
  "OSMutexRelease m os =
     (let e = mutex m os in
      if OSEventOwner e \<noteq> currentTask os then (ERR_EVENT_OWNER, os)
      else
        (let os1 = restore_priority (OSOriginalPriority e) os;
             e1 = e\<lparr>OSEventOwner := 0\<rparr> in
         if OSEventWait e1 \<noteq> 0 then
           (let iPriority = waiter e1;
                e2 = (wait_dequeue iPriority e1)\<lparr>OSEventOwner := PriorityVector os1 ! iPriority\<rparr>
            in (OK, ChangeContext (set_ready iPriority (upd_mutex m e2 os1))))
         else
           (let os2 = upd_mutex m (e1\<lparr>OSEventState := AVAILABLE_RESOURCE\<rparr>) os1
            in (OK, if OSMaxPriority e1 > 0
                    then os2\<lparr>PriorityVector := (PriorityVector os2)[OSMaxPriority e1 := MUTEX_PRIO]\<rparr>
                    else os2))))"

section \<open>Frame lemmas\<close>

lemma upd_mutex_sel [simp]:
  "OSReadyList (upd_mutex m e os) = OSReadyList os" "OSBlockedList (upd_mutex m e os) = OSBlockedList os"
  "OSTickCounter (upd_mutex m e os) = OSTickCounter os" "currentTask (upd_mutex m e os) = currentTask os"
  "PriorityVector (upd_mutex m e os) = PriorityVector os" "ContextTask (upd_mutex m e os) = ContextTask os"
  "Head (upd_mutex m e os) = Head os" "Tail (upd_mutex m e os) = Tail os"
  "iNesting (upd_mutex m e os) = iNesting os" "TaskAlloc (upd_mutex m e os) = TaskAlloc os"
  "BRTOS_Mutex_Table (upd_mutex m e os) = (BRTOS_Mutex_Table os)[m := e]"
  "delay_list (upd_mutex m e os) xs = delay_list os xs"
  by (simp_all add: upd_mutex_def delay_list_def)

lemma raise_sel [simp]:
  "OSBlockedList (raise_to_ceiling o1 c os) = OSBlockedList os"
  "currentTask (raise_to_ceiling o1 c os) = currentTask os"
  "TaskAlloc (raise_to_ceiling o1 c os) = TaskAlloc os"
  "iNesting (raise_to_ceiling o1 c os) = iNesting os"
  "BRTOS_Mutex_Table (raise_to_ceiling o1 c os) = BRTOS_Mutex_Table os"
  "length (ContextTask (raise_to_ceiling o1 c os)) = length (ContextTask os)"
  "length (PriorityVector (raise_to_ceiling o1 c os)) = length (PriorityVector os)"
  "TimeToWait (task u (raise_to_ceiling o1 c os)) = TimeToWait (task u os)"
  by (simp_all add: raise_to_ceiling_def Let_def) (simp_all add: upd_task_def nth_upd)

lemma restore_sel [simp]:
  "OSBlockedList (restore_priority o1 os) = OSBlockedList os"
  "currentTask (restore_priority o1 os) = currentTask os"
  "TaskAlloc (restore_priority o1 os) = TaskAlloc os"
  "iNesting (restore_priority o1 os) = iNesting os"
  "PriorityVector (restore_priority o1 os) = PriorityVector os"
  "BRTOS_Mutex_Table (restore_priority o1 os) = BRTOS_Mutex_Table os"
  "length (ContextTask (restore_priority o1 os)) = length (ContextTask os)"
  "TimeToWait (task u (restore_priority o1 os)) = TimeToWait (task u os)"
  by (simp_all add: restore_priority_def Let_def) (simp_all add: upd_task_def nth_upd)

section \<open>The priority exchange keeps the task table consistent\<close>

text \<open>
  The current task runs with priority \<open>orig\<close>, and the ceiling belongs to no installed task.
\<close>

lemma raise_ok:
  assumes k: "tasks_ok os" and t: "installed os t" "currentTask os = t" "Priority (task t os) = orig"
    and c: "ceiling < 32" and free: "\<And>u. installed os u \<Longrightarrow> Priority (task u os) \<noteq> ceiling"
    and r: "bit (OSReadyList os) orig"
  shows "tasks_ok (raise_to_ceiling orig ceiling os) \<and>
         Priority (task t (raise_to_ceiling orig ceiling os)) = max orig ceiling \<and>
         bit (OSReadyList (raise_to_ceiling orig ceiling os)) (max orig ceiling) \<and>
         (\<forall>u. u \<noteq> t \<longrightarrow> task u (raise_to_ceiling orig ceiling os) = task u os) \<and>
         (\<forall>q. q \<noteq> orig \<and> q \<noteq> ceiling \<longrightarrow>
            bit (OSReadyList (raise_to_ceiling orig ceiling os)) q = bit (OSReadyList os) q)"
proof (cases "ceiling > orig")
  case False
  then show ?thesis
    using assms by (simp add: raise_to_ceiling_def max_absorb1)
next
  case True
  let ?o = "raise_to_ceiling orig ceiling os"
  have o: "orig < 32" "t < length (ContextTask os)" "t \<noteq> 0"
    using tasks_okD [OF k t(1)] t(3) by auto
  have tk: "task u ?o = (if u = t then (task t os)\<lparr>Priority := ceiling\<rparr> else task u os)" for u
    using True t(2) o by (simp add: raise_to_ceiling_def Let_def upd_task_def nth_upd)
  have rd: "bit (OSReadyList ?o) q \<longleftrightarrow> bit (OSReadyList os) q \<and> q \<noteq> orig \<or> q = ceiling" for q
    using True c o by (auto simp: raise_to_ceiling_def Let_def ready_set ready_clear)
  have pv: "PriorityVector ?o = (PriorityVector os)[ceiling := t]"
    using True t(2) by (simp add: raise_to_ceiling_def Let_def)
  have ins: "installed ?o u = installed os u" for u
    by (simp add: installed_def)
  have inj: "Priority (task u os) = orig \<longleftrightarrow> u = t" if "installed os u" for u
    using installed_priority_inj [OF k that t(1)] t(3) by auto
  have "tasks_ok ?o"
    unfolding tasks_ok_def ins pv
  proof (intro conjI allI impI)
    fix u assume u: "installed os u"
    show "Priority (task u ?o) < 32" "(PriorityVector os)[ceiling := t] ! Priority (task u ?o) = u"
      using tasks_okD(1,2) [OF k u] free [OF u] c tasks_ok_length [OF k] by (auto simp: tk nth_upd)
  next
    fix q assume q: "bit (OSReadyList ?o) q"
    show "installed os ((PriorityVector os)[ceiling := t] ! q)"
      "Priority (task ((PriorityVector os)[ceiling := t] ! q) ?o) = q"
      using q tasks_ok_ready [OF k, of q] t c tasks_ok_length [OF k] by (auto simp: rd tk nth_upd)
  qed (use tasks_ok_length [OF k] in simp_all)
  then show ?thesis
    using True o by (simp add: tk rd max_absorb2)
qed

text \<open>And back: \<open>orig\<close> is still registered for the current task.\<close>

lemma restore_ok:
  assumes k: "tasks_ok os" and t: "installed os t" "currentTask os = t"
    and reg: "orig < 32" "PriorityVector os ! orig = t" and r: "bit (OSReadyList os) (Priority (task t os))"
  shows "tasks_ok (restore_priority orig os) \<and>
         Priority (task t (restore_priority orig os)) = orig \<and>
         bit (OSReadyList (restore_priority orig os)) orig \<and>
         (\<forall>u. u \<noteq> t \<longrightarrow> task u (restore_priority orig os) = task u os) \<and>
         (\<forall>q. q \<noteq> orig \<and> q \<noteq> Priority (task t os) \<longrightarrow>
            bit (OSReadyList (restore_priority orig os)) q = bit (OSReadyList os) q) \<and>
         (orig \<noteq> Priority (task t os) \<longrightarrow>
            \<not> bit (OSReadyList (restore_priority orig os)) (Priority (task t os)))"
proof (cases "Priority (task t os) = orig")
  case True
  then show ?thesis
    using assms by (simp add: restore_priority_def)
next
  case False
  let ?o = "restore_priority orig os" and ?p = "Priority (task t os)"
  have o: "?p < 32" "t < length (ContextTask os)"
    using tasks_okD [OF k t(1)] by auto
  have tk: "task u ?o = (if u = t then (task t os)\<lparr>Priority := orig\<rparr> else task u os)" for u
    using False t(2) o by (simp add: restore_priority_def Let_def upd_task_def nth_upd)
  have rd: "bit (OSReadyList ?o) q \<longleftrightarrow> bit (OSReadyList os) q \<and> q \<noteq> ?p \<or> q = orig" for q
    using False o reg(1) t(2) by (auto simp: restore_priority_def Let_def ready_set ready_clear)
  have ins: "installed ?o u = installed os u" for u
    by (simp add: installed_def)
  have "tasks_ok ?o"
    unfolding tasks_ok_def ins restore_sel
  proof (intro conjI allI impI)
    fix u assume u: "installed os u"
    show "Priority (task u ?o) < 32" "PriorityVector os ! Priority (task u ?o) = u"
      using tasks_okD(1,2) [OF k u] reg by (auto simp: tk)
  next
    fix q assume q: "bit (OSReadyList ?o) q"
    show "installed os (PriorityVector os ! q)" "Priority (task (PriorityVector os ! q) ?o) = q"
      using q tasks_ok_ready [OF k, of q] t reg by (auto simp: rd tk)
  qed (use tasks_ok_length [OF k] in simp_all)
  then show ?thesis
    using False o by (auto simp: tk rd)
qed

section \<open>Acquire and release\<close>

lemma bits_restored:
  assumes "p \<noteq> c" and "p < 32" and "c < 32" and "bit w p" and "\<not> bit w c"
  shows "((w AND NOT (2 ^ p)) OR 2 ^ c) AND NOT (2 ^ c) OR 2 ^ p = (w :: u32)"
proof (rule bit_word_eqI)
  fix q assume "q < LENGTH(32)"
  show "bit (((w AND NOT (2 ^ p)) OR 2 ^ c) AND NOT (2 ^ c) OR 2 ^ p) q = bit w q"
    using assms by (auto simp: bit_or_pow2 bit_clear_pow2)
qed

lemma tcb_priority_roundtrip:
  "t < length xs \<Longrightarrow> xs[t := (xs ! t)\<lparr>Priority := Priority (xs ! t)\<rparr>] = xs"
  by (simp add: list_update_same_conv)

text \<open>The holder alone at the ceiling: what acquiring does, and what releasing undoes.\<close>

definition to_hold :: "nat \<Rightarrow> nat \<Rightarrow> os \<Rightarrow> os" where
  "to_hold m t os = upd_mutex m ((mutex m os)\<lparr>OSEventState := BUSY_RESOURCE, OSEventOwner := t,
     OSOriginalPriority := Priority (task t os)\<rparr>) os"

lemma acquire_raises:
  assumes k: "tasks_ok os" and m: "m < length (BRTOS_Mutex_Table os)"
    and t: "installed os t" "currentTask os = t" "bit (OSReadyList os) (Priority (task t os))"
    and e: "OSEventState (mutex m os) = AVAILABLE_RESOURCE" "OSEventOwner (mutex m os) \<noteq> t"
    and c: "OSMaxPriority (mutex m os) = c" "c < 32" "c \<noteq> 0 \<Longrightarrow> PriorityVector os ! c = MUTEX_PRIO"
  defines "os1 \<equiv> raise_to_ceiling (Priority (task t os)) c (to_hold m t os)"
  shows "OSMutexAcquire m w os = (Return OK, os1)" and "tasks_ok os1"
    and "Priority (task t os1) = max (Priority (task t os)) c"
proof -
  have free: "Priority (task u os) \<noteq> c" if "installed os u" "c \<noteq> 0" for u
    using c(3) tasks_okD(2,5) [OF k that(1)] that(2) by auto
  show "OSMutexAcquire m w os = (Return OK, os1)"
    using e t c by (simp add: OSMutexAcquire_def Let_def os1_def to_hold_def)
  have o: "tasks_ok (to_hold m t os)" using k by (rule tasks_ok_cong) (simp_all add: to_hold_def)
  have "tasks_ok os1 \<and> Priority (task t os1) = max (Priority (task t os)) c"
  proof (cases "c = 0")
    case True
    then show ?thesis using o by (simp add: raise_to_ceiling_def os1_def to_hold_def)
  next
    case False
    then show ?thesis
      using raise_ok [OF o, of t "Priority (task t os)" c] t c(2) free by (simp add: installed_def os1_def to_hold_def)
  qed
  then show "tasks_ok os1" "Priority (task t os1) = max (Priority (task t os)) c" by simp_all
qed

lemma release_restores:
  assumes k: "tasks_ok os" and m: "m < length (BRTOS_Mutex_Table os)"
    and t: "installed os t" "currentTask os = t" "bit (OSReadyList os) (Priority (task t os))"
    and e: "OSEventWait (mutex m os) = 0"
    and c: "OSMaxPriority (mutex m os) = c" "c < 32" "c \<noteq> 0 \<Longrightarrow> PriorityVector os ! c = MUTEX_PRIO"
  defines "os1 \<equiv> raise_to_ceiling (Priority (task t os)) c (to_hold m t os)"
  defines "os2 \<equiv> snd (OSMutexRelease m os1)"
  shows "fst (OSMutexRelease m os1) = OK" and "ContextTask os2 = ContextTask os" and "OSReadyList os2 = OSReadyList os"
    and "PriorityVector os2 = PriorityVector os" and "OSEventOwner (mutex m os2) = 0"
    and "OSEventState (mutex m os2) = AVAILABLE_RESOURCE"
proof -
  let ?p = "Priority (task t os)"
  have b: "?p < 32" "t < length (ContextTask os)" "t \<noteq> 0" "t < 13"
    using tasks_okD [OF k t(1)] by auto
  have free: "Priority (task u os) \<noteq> c" if "installed os u" "c \<noteq> 0" for u
    using c(3) tasks_okD(2,5) [OF k that(1)] that(2) by auto
  have m1: "mutex m os1 = (mutex m os)\<lparr>OSEventState := BUSY_RESOURCE, OSEventOwner := t, OSOriginalPriority := ?p\<rparr>"
    using m by (simp add: os1_def to_hold_def)
  show "fst (OSMutexRelease m os1) = OK" "OSEventOwner (mutex m os2) = 0" "OSEventState (mutex m os2) = AVAILABLE_RESOURCE"
    using m m1 e t by (simp_all add: OSMutexRelease_def Let_def os2_def) (simp_all add: os1_def to_hold_def)
  have "ContextTask os2 = ContextTask os \<and> OSReadyList os2 = OSReadyList os \<and> PriorityVector os2 = PriorityVector os"
  proof (cases "c > ?p")
    case True
    have rc: "\<not> bit (OSReadyList os) c"
      using tasks_ok_ready [OF k, of c] free True by auto
    have o1: "ContextTask os1 = (ContextTask os)[t := (task t os)\<lparr>Priority := c\<rparr>]"
      "PriorityVector os1 = (PriorityVector os)[c := t]"
      "OSReadyList os1 = (OSReadyList os AND NOT (2 ^ ?p)) OR 2 ^ c"
      using True t(2) b c(2)
      by (simp_all add: os1_def to_hold_def raise_to_ceiling_def Let_def set_ready_def clear_ready_def upd_task_def)
    have pv: "(PriorityVector os)[c := t, c := MUTEX_PRIO] = PriorityVector os"
      using c True tasks_ok_length [OF k] by (simp add: list_update_same_conv)
    have cur: "currentTask os1 = t" using t(2) by (simp add: os1_def to_hold_def)
    show ?thesis
      using m1 e t b c True o1 rc bits_restored [of ?p c "OSReadyList os"] pv cur unfolding os2_def
      by (simp add: OSMutexRelease_def Let_def restore_priority_def upd_task_def
          tcb_priority_roundtrip) (simp add: clear_ready_def set_ready_def)
  next
    case False
    then have o1: "os1 = to_hold m t os" by (simp add: raise_to_ceiling_def os1_def)
    have pv: "c \<noteq> 0 \<Longrightarrow> (PriorityVector os)[c := MUTEX_PRIO] = PriorityVector os"
      using c tasks_ok_length [OF k] by (simp add: list_update_same_conv)
    show ?thesis
      unfolding os2_def o1 using m e t pv c by (simp add: OSMutexRelease_def Let_def restore_priority_def to_hold_def)
  qed
  then show "ContextTask os2 = ContextTask os" "OSReadyList os2 = OSReadyList os" "PriorityVector os2 = PriorityVector os"
    by simp_all
qed

text \<open>
  C7. The priority ceiling is undone exactly.  Taking a free mutex makes the caller its owner
  at the higher of its own priority and the ceiling; releasing it with nobody waiting gives back
  every task's control block, the ready list and the priority vector as they were.
\<close>

theorem mutex_ceiling_roundtrip:
  assumes k: "tasks_ok os" and m: "m < length (BRTOS_Mutex_Table os)"
    and t: "installed os t" "currentTask os = t" "bit (OSReadyList os) (Priority (task t os))"
    and e: "OSEventState (mutex m os) = AVAILABLE_RESOURCE" "OSEventOwner (mutex m os) \<noteq> t"
      "OSEventWait (mutex m os) = 0"
    and c: "OSMaxPriority (mutex m os) = c" "c < 32" "c \<noteq> 0 \<Longrightarrow> PriorityVector os ! c = MUTEX_PRIO"
  shows "\<exists>os1 os2. OSMutexAcquire m w os = (Return OK, os1) \<and> tasks_ok os1 \<and>
           OSEventOwner (mutex m os1) = t \<and> OSEventState (mutex m os1) = BUSY_RESOURCE \<and>
           Priority (task t os1) = max (Priority (task t os)) c \<and>
           OSMutexRelease m os1 = (OK, os2) \<and> ContextTask os2 = ContextTask os \<and>
           OSReadyList os2 = OSReadyList os \<and> PriorityVector os2 = PriorityVector os \<and>
           OSEventOwner (mutex m os2) = 0 \<and> OSEventState (mutex m os2) = AVAILABLE_RESOURCE"
proof -
  let ?os1 = "raise_to_ceiling (Priority (task t os)) c (to_hold m t os)"
  have "OSEventOwner (mutex m ?os1) = t" "OSEventState (mutex m ?os1) = BUSY_RESOURCE"
    using m by (simp_all add: to_hold_def)
  moreover have "OSMutexRelease m ?os1 = (OK, snd (OSMutexRelease m ?os1))"
    using release_restores(1) [OF k m t e(3) c] by (simp add: prod_eq_iff)
  ultimately show ?thesis
    using acquire_raises [OF k m t e(1,2) c] release_restores(2-6) [OF k m t e(3) c]
    by (intro exI [of _ ?os1] exI [of _ "snd (OSMutexRelease m ?os1)"]) simp
qed

text \<open>
  C8. Release hands over.  When tasks wait, the mutex never becomes free: its owner becomes the
  waiter of highest priority, which leaves the wait list and is made ready, while the previous
  owner falls back to the priority it had, and the task table stays consistent.
\<close>

theorem mutex_handover:
  assumes k: "tasks_ok os" and m: "m < length (BRTOS_Mutex_Table os)"
    and t: "installed os t" "currentTask os = t" "bit (OSReadyList os) (Priority (task t os))"
    and e: "OSEventOwner (mutex m os) = t" "event_ok (mutex m os)" "waiters (mutex m os) \<noteq> {}"
    and orig: "OSOriginalPriority (mutex m os) < 32"
      "PriorityVector os ! OSOriginalPriority (mutex m os) = t"
    and w: "\<forall>p \<in> waiters (mutex m os). \<exists>u. installed os u \<and> u \<noteq> t \<and> Priority (task u os) = p"
  shows "\<exists>u os'. OSMutexRelease m os = (OK, os') \<and> tasks_ok os' \<and> installed os u \<and>
           Priority (task u os) = Max (waiters (mutex m os)) \<and>
           OSEventOwner (mutex m os') = u \<and>
           OSEventState (mutex m os') = OSEventState (mutex m os) \<and>
           waiters (mutex m os') = waiters (mutex m os) - {Priority (task u os)} \<and>
           event_ok (mutex m os') \<and> bit (OSReadyList os') (Priority (task u os)) \<and>
           Priority (task t os') = OSOriginalPriority (mutex m os)"
proof -
  let ?e = "mutex m os"
  let ?o1 = "restore_priority (OSOriginalPriority ?e) os"
  let ?e1 = "?e\<lparr>OSEventOwner := 0\<rparr>"
  let ?p = "waiter ?e1"
  let ?e2 = "(wait_dequeue ?p ?e1)\<lparr>OSEventOwner := PriorityVector ?o1 ! ?p\<rparr>"
  let ?os' = "ChangeContext (set_ready ?p (upd_mutex m ?e2 ?o1))"
  have p: "?p = Max (waiters ?e)" "?p \<in> waiters ?e" "?p < 32"
    using ev.first_eq_Max [OF e(2,3)] ev.first_in [OF e(2,3)] ev.waiting_less by auto
  obtain u where u: "installed os u" "u \<noteq> t" "Priority (task u os) = ?p"
    using w p(2) by blast
  have pv: "PriorityVector os ! ?p = u"
    using tasks_okD(2) [OF k u(1)] u(3) by simp
  have r: "OSMutexRelease m os = (OK, ?os')"
    using e t wait_nonzero [OF e(2)] by (simp add: OSMutexRelease_def Let_def)
  from restore_ok [OF k t(1,2) orig t(3)]
  have o1: "tasks_ok ?o1" "Priority (task t ?o1) = OSOriginalPriority ?e" "task u ?o1 = task u os"
    using u(2) by auto
  have "tasks_ok ?os'"
    using o1(1) by (rule tasks_ok_cong) (use p u o1(3) in \<open>auto simp: ready_set installed_def\<close>)
  moreover have "mutex m ?os' = ?e2"
    using m by simp
  moreover have "waiters ?e2 = waiters ?e - {?p}" "event_ok ?e2"
    using ev.dequeue_waiting [OF e(2) p(3)] ev.dequeue_ok [OF e(2) p(2)]
    by (simp_all add: waiters_def event_ok_def wait_dequeue_def)
  moreover have "OSEventState ?e2 = OSEventState ?e"
    by (simp add: wait_dequeue_def)
  ultimately show ?thesis
    using r u pv o1(2) p by (intro exI [of _ u] exI [of _ ?os']) (simp add: ready_set)
qed

text \<open>Only the owner can release.\<close>

lemma OSMutexRelease_owner:
  "OSEventOwner (mutex m os) \<noteq> currentTask os \<longleftrightarrow> OSMutexRelease m os = (ERR_EVENT_OWNER, os)"
  by (auto simp: OSMutexRelease_def Let_def)

text \<open>
  A failed creation leaks its ceiling: the priority is reserved before the search for a free
  block, and stays reserved when there is none.
\<close>

lemma OSMutexCreate_leak:
  assumes "iNesting os = 0" and "p \<noteq> 0" and "p < length (PriorityVector os)"
    and "PriorityVector os ! p = EMPTY_PRIO" and "\<forall>e \<in> set (BRTOS_Mutex_Table os). OSEventAllocated e"
  shows "\<exists>os'. OSMutexCreate p os = (NO_AVAILABLE_EVENT, None, os') \<and>
           PriorityVector os' ! p = MUTEX_PRIO \<and> fst (OSMutexCreate p os') = BUSY_PRIORITY"
  using assms first_idx_miss [of "\<lambda>e. \<not> OSEventAllocated e" "BRTOS_Mutex_Table os"]
  by (simp add: OSMutexCreate_def Let_def)

section \<open>Concrete runs\<close>

text \<open>Mutex 0 with ceiling 10: free, and owned by task 2 while task 1 waits.\<close>

definition mutex_free :: os where
  "mutex_free = idle_and_one\<lparr>
     PriorityVector := (replicate 32 EMPTY_PRIO)[0 := 1, 5 := 2, 10 := MUTEX_PRIO],
     BRTOS_Mutex_Table := [\<lparr>OSEventAllocated = True, OSEventWait = 0, OSEventWaitList = 0,
       OSEventState = AVAILABLE_RESOURCE, OSEventOwner = 0, OSMaxPriority = 10,
       OSOriginalPriority = 0\<rparr>]\<rparr>"

definition mutex_busy :: os where
  "mutex_busy = idle_and_one\<lparr>
     BRTOS_Mutex_Table := [\<lparr>OSEventAllocated = True, OSEventWait = 1, OSEventWaitList = 1,
       OSEventState = BUSY_RESOURCE, OSEventOwner = 2, OSMaxPriority = 0,
       OSOriginalPriority = 5\<rparr>]\<rparr>"

lemma mutex_free_ok: "tasks_ok mutex_free"
proof -
  have i: "installed mutex_free t \<longleftrightarrow> t = 1 \<or> t = 2" for t
    using idle_and_one_installed [of t] by (simp add: installed_def mutex_free_def)
  show ?thesis
    unfolding tasks_ok_def i
    by (auto simp: mutex_free_def idle_and_one_def os_globals_def tcb_zero_def bit_21
        simp del: bit_numeral_word_iff)
qed

lemma mutex_busy_ok: "tasks_ok mutex_busy"
  using idle_and_one_ok by (rule tasks_ok_cong) (simp_all add: mutex_busy_def)

theorem mutex_ceiling_roundtrip_witness:
  "\<exists>os1 os2. OSMutexAcquire 0 0 mutex_free = (Return OK, os1) \<and> Priority (task 2 os1) = 10 \<and>
     OSMutexRelease 0 os1 = (OK, os2) \<and> OSReadyList os2 = 0x21"
proof -
  have i: "installed mutex_free 2"
    using idle_and_one_installed [of 2] by (simp add: installed_def mutex_free_def)
  have f: "currentTask mutex_free = 2" "Priority (task 2 mutex_free) = 5"
    "OSReadyList mutex_free = 0x21" "PriorityVector mutex_free ! 10 = MUTEX_PRIO"
    "BRTOS_Mutex_Table mutex_free = [\<lparr>OSEventAllocated = True, OSEventWait = 0, OSEventWaitList = 0,
       OSEventState = AVAILABLE_RESOURCE, OSEventOwner = 0, OSMaxPriority = 10, OSOriginalPriority = 0\<rparr>]"
    by (simp_all add: mutex_free_def idle_and_one_sel)
  have b: "bit (OSReadyList mutex_free) (Priority (task 2 mutex_free))"
    unfolding f bit_21 by simp
  have "\<exists>os1 os2. OSMutexAcquire 0 0 mutex_free = (Return OK, os1) \<and> tasks_ok os1 \<and>
           OSEventOwner (mutex 0 os1) = 2 \<and> OSEventState (mutex 0 os1) = BUSY_RESOURCE \<and>
           Priority (task 2 os1) = max (Priority (task 2 mutex_free)) 10 \<and>
           OSMutexRelease 0 os1 = (OK, os2) \<and> ContextTask os2 = ContextTask mutex_free \<and>
           OSReadyList os2 = OSReadyList mutex_free \<and> PriorityVector os2 = PriorityVector mutex_free \<and>
           OSEventOwner (mutex 0 os2) = 0 \<and> OSEventState (mutex 0 os2) = AVAILABLE_RESOURCE"
    by (rule mutex_ceiling_roundtrip [OF mutex_free_ok _ i f(1) b]) (simp_all add: f)
  then obtain os1 os2 where "OSMutexAcquire 0 0 mutex_free = (Return OK, os1)"
    "Priority (task 2 os1) = max (Priority (task 2 mutex_free)) 10"
    "OSMutexRelease 0 os1 = (OK, os2)" "OSReadyList os2 = OSReadyList mutex_free"
    by blast
  then show ?thesis
    by (intro exI [of _ os1] exI [of _ os2]) (simp add: f)
qed

theorem mutex_handover_witness:
  "\<exists>os'. OSMutexRelease 0 mutex_busy = (OK, os') \<and> OSEventOwner (mutex 0 os') = 1"
proof -
  have i: "installed mutex_busy t \<longleftrightarrow> t = 1 \<or> t = 2" for t
    using idle_and_one_installed [of t] by (simp add: installed_def mutex_busy_def)
  have f: "currentTask mutex_busy = 2" "Priority (task 2 mutex_busy) = 5"
    "Priority (task 1 mutex_busy) = 0" "OSReadyList mutex_busy = 0x21" "PriorityVector mutex_busy ! 5 = 2"
    "BRTOS_Mutex_Table mutex_busy = [\<lparr>OSEventAllocated = True, OSEventWait = 1, OSEventWaitList = 1,
       OSEventState = BUSY_RESOURCE, OSEventOwner = 2, OSMaxPriority = 0, OSOriginalPriority = 5\<rparr>]"
    by (simp_all add: mutex_busy_def idle_and_one_sel) (simp_all add: idle_and_one_def tcb_zero_def)
  have w: "waiters (mutex 0 mutex_busy) = {0}"
    by (auto simp: waiters_def f bit_1_iff)
  have e: "event_ok (mutex 0 mutex_busy)"
    using w by (simp add: event_ok_def popcount_def waiters_def f)
  have b: "bit (OSReadyList mutex_busy) (Priority (task 2 mutex_busy))"
    unfolding f bit_21 by simp
  have "\<forall>p \<in> waiters (mutex 0 mutex_busy). \<exists>u. installed mutex_busy u \<and> u \<noteq> 2 \<and> Priority (task u mutex_busy) = p"
    unfolding w using i [of 1] f(3) by auto
  then obtain u os' where o: "OSMutexRelease 0 mutex_busy = (OK, os')" "installed mutex_busy u"
    "Priority (task u mutex_busy) = Max (waiters (mutex 0 mutex_busy))" "OSEventOwner (mutex 0 os') = u"
    using mutex_handover [OF mutex_busy_ok _ _ f(1) b _ e] i [of 2] w by (auto simp: f(5,6))
  have "u \<noteq> 2"
    using o(3) f(2) by (auto simp: w)
  then show ?thesis
    using i [of u] o by auto
qed

end
