(* ===== verification/Mbox.thy ===== *)
theory Mbox
  imports Event
begin

text \<open>
  Mailboxes, \<^verbatim>\<open>brtos/mbox.c\<close>: one message slot with a wait list.  A mailbox is an index of
  \<open>BRTOS_Mbox_Table\<close>, which has no entries with the configuration of the build (\<^verbatim>\<open>BRTOS_MBOX_EN\<close>
  is 0); the operations are verified for a table of any length.  A message is a pointer, \<open>None\<close>
  the NULL pointer.
\<close>

section \<open>Operations\<close>

abbreviation mbox :: "nat \<Rightarrow> os \<Rightarrow> mbox_cb" where
  "mbox m os \<equiv> BRTOS_Mbox_Table os ! m"

definition upd_mbox :: "nat \<Rightarrow> mbox_cb \<Rightarrow> os \<Rightarrow> os" where
  "upd_mbox m e os = os\<lparr>BRTOS_Mbox_Table := (BRTOS_Mbox_Table os)[m := e]\<rparr>"

definition OSMboxCreate :: "nat option \<Rightarrow> os \<Rightarrow> u8 \<times> nat option \<times> os" where
  "OSMboxCreate message os =
     (if iNesting os > 0 then (IRQ_PEND_ERR, None, os)
      else
        (let i = first_idx (\<lambda>e. \<not> OSEventAllocated e) (BRTOS_Mbox_Table os) in
         if i \<ge> length (BRTOS_Mbox_Table os) then (NO_AVAILABLE_EVENT, None, os)
         else (ALLOC_EVENT_OK, Some i,
           upd_mbox i \<lparr>OSEventAllocated = True, OSEventWait = 0, OSEventWaitList = 0,
                       MboxState = (if message \<noteq> None then AVAILABLE_MESSAGE else NO_MESSAGE),
                       MboxPointer = message\<rparr> os)))"

definition OSMboxDelete :: "nat \<Rightarrow> os \<Rightarrow> u8 \<times> os" where
  "OSMboxDelete m os =
     (if iNesting os > 0 then (IRQ_PEND_ERR, os)
      else (DELETE_EVENT_OK,
        upd_mbox m \<lparr>OSEventAllocated = False, OSEventWait = 0, OSEventWaitList = 0,
                    MboxState = NO_MESSAGE, MboxPointer = None\<rparr> os))"

text \<open>The answer is the code and what is written to \<^verbatim>\<open>*Mail\<close>, if anything.\<close>

definition OSMboxPend :: "nat \<Rightarrow> u64 \<Rightarrow> os \<Rightarrow> (u8 \<times> nat option option) call \<times> os" where
  "OSMboxPend m time_wait os =
     (let e = mbox m os in
      if MboxState e = AVAILABLE_MESSAGE
      then (Return (OK, Some (MboxPointer e)), upd_mbox m (e\<lparr>MboxState := NO_MESSAGE\<rparr>) os)
      else if time_wait = NO_TIMEOUT then (Return (EXIT_BY_NO_ENTRY_AVAILABLE, None), os)
      else
        (let iPriority = Priority (task (currentTask os) os)
         in (Suspended, suspend time_wait (upd_mbox m (wait_enqueue iPriority e) os))))"

definition OSMboxPend_resume :: "nat \<Rightarrow> nat \<Rightarrow> u64 \<Rightarrow> os \<Rightarrow> (u8 \<times> nat option \<times> os) option" where
  "OSMboxPend_resume m iPriority time_wait os = do {
     (timed_out, e, os1) \<leftarrow> wake_up iPriority time_wait (mbox m os) os;
     if timed_out then Some (TIMEOUT, None, upd_mbox m e os1)
     else Some (OK, MboxPointer e, upd_mbox m (e\<lparr>MboxState := NO_MESSAGE\<rparr>) os1)
   }"

definition OSMboxPost :: "nat \<Rightarrow> nat option \<Rightarrow> os \<Rightarrow> u8 \<times> os" where
  "OSMboxPost m message os =
     (let e = mbox m os in
      if OSEventWait e \<noteq> 0 then
        (let iPriority = waiter e;
             os1 = upd_mbox m ((wait_dequeue iPriority e)\<lparr>MboxPointer := message, MboxState := AVAILABLE_MESSAGE\<rparr>) os;
             os2 = set_ready iPriority os1
         in (OK, if iNesting os2 = 0 then ChangeContext os2 else os2))
      else (OK, upd_mbox m (e\<lparr>MboxPointer := message, MboxState := AVAILABLE_MESSAGE\<rparr>) os))"

lemma upd_mbox_sel [simp]:
  "OSReadyList (upd_mbox m e os) = OSReadyList os" "iNesting (upd_mbox m e os) = iNesting os"
  "ContextTask (upd_mbox m e os) = ContextTask os" "currentTask (upd_mbox m e os) = currentTask os"
  "BRTOS_Mbox_Table (upd_mbox m e os) = (BRTOS_Mbox_Table os)[m := e]"
  by (simp_all add: upd_mbox_def)

section \<open>The mailbox is a cell\<close>

definition mail :: "nat \<Rightarrow> os \<Rightarrow> nat option option" where
  "mail m os = (if MboxState (mbox m os) = AVAILABLE_MESSAGE then Some (MboxPointer (mbox m os)) else None)"

text \<open>
  A new mailbox is a free block with no waiters that holds the message given, or nothing for
  NULL; creation fails exactly in an interrupt or when there is no free block.
\<close>

theorem OSMboxCreate_cell:
  "case OSMboxCreate message os of (code, i, os') \<Rightarrow>
     code = (if iNesting os > 0 then IRQ_PEND_ERR
             else if \<forall>e \<in> set (BRTOS_Mbox_Table os). OSEventAllocated e then NO_AVAILABLE_EVENT else ALLOC_EVENT_OK) \<and>
     (case i of None \<Rightarrow> os' = os
      | Some m \<Rightarrow> \<not> OSEventAllocated (mbox m os) \<and> OSEventAllocated (mbox m os') \<and> event_ok (mbox m os') \<and>
          mail m os' = map_option Some message \<and> (\<forall>j. j \<noteq> m \<longrightarrow> mbox j os' = mbox j os))"
proof -
  let ?P = "\<lambda>e. \<not> OSEventAllocated e" and ?t = "BRTOS_Mbox_Table os"
  consider "iNesting os > 0" | "iNesting os = 0" "first_idx ?P ?t = length ?t" | "iNesting os = 0" "first_idx ?P ?t < length ?t"
    using first_idx_le [of ?P ?t] by linarith
  then show ?thesis
  proof cases
    case 1
    then show ?thesis by (simp add: OSMboxCreate_def)
  next
    case 2
    then have "\<forall>e \<in> set ?t. OSEventAllocated e" using first_idx_miss [of ?P ?t] by simp
    with 2 show ?thesis by (simp add: OSMboxCreate_def)
  next
    case 3
    then have f: "\<not> OSEventAllocated (?t ! first_idx ?P ?t)" using first_idx_hit [of ?P ?t] by simp
    moreover have "?t ! first_idx ?P ?t \<in> set ?t" using 3(2) by simp
    ultimately have "\<not> (\<forall>e \<in> set ?t. OSEventAllocated e)" by blast
    with 3 f show ?thesis
      by (cases message) (simp_all add: OSMboxCreate_def Let_def mail_def event_ok_def nth_upd)
  qed
qed

text \<open>
  Without waiters a post fills the cell, whatever was in it, and the next pend takes exactly that
  message and leaves the cell empty; an immediate pend of an empty cell is refused.
\<close>

theorem mbox_post_pend:
  assumes "m < length (BRTOS_Mbox_Table os)" and "OSEventWait (mbox m os) = 0"
  shows "\<exists>os1 os2. OSMboxPost m message os = (OK, os1) \<and> mail m os1 = Some message \<and>
    OSMboxPend m w os1 = (Return (OK, Some message), os2) \<and> mail m os2 = None \<and>
    OSMboxPend m NO_TIMEOUT os2 = (Return (EXIT_BY_NO_ENTRY_AVAILABLE, None), os2) \<and>
    (\<forall>j. j \<noteq> m \<longrightarrow> mbox j os2 = mbox j os)"
  using assms by (simp add: OSMboxPost_def OSMboxPend_def mail_def Let_def nth_upd)

text \<open>
  With waiters a post makes the one of highest priority ready, takes it out of the wait list, and
  when it resumes it gets the message.
\<close>

theorem mbox_handover:
  assumes "m < length (BRTOS_Mbox_Table os)" and "event_ok (mbox m os)" and "OSEventWait (mbox m os) \<noteq> 0"
  shows "\<exists>os1 os2. OSMboxPost m message os = (OK, os1) \<and> bit (OSReadyList os1) (Max (waiters (mbox m os))) \<and>
    waiters (mbox m os1) = waiters (mbox m os) - {Max (waiters (mbox m os))} \<and> event_ok (mbox m os1) \<and>
    OSMboxPend_resume m (Max (waiters (mbox m os))) 0 os1 = Some (OK, message, os2) \<and> mail m os2 = None"
proof -
  let ?e = "mbox m os" and ?p = "waiter (mbox m os)"
  let ?e' = "(wait_dequeue ?p ?e)\<lparr>MboxPointer := message, MboxState := AVAILABLE_MESSAGE\<rparr>"
  have w: "waiters ?e \<noteq> {}" using wait_nonzero [OF assms(2)] assms(3) by blast
  note h = ev.wake_highest [OF assms(2) w] ev.first_eq_Max [OF assms(2) w] ev.first_in [OF assms(2) w]
  have p: "?p < 32" using h(5) ev.waiting_less by blast
  have fields: "waiters ?e' = waiters (wait_dequeue ?p ?e)" "event_ok ?e' = event_ok (wait_dequeue ?p ?e)"
    by (simp_all add: waiters_def event_ok_def)
  let ?os2 = "set_ready ?p (upd_mbox m ?e' os)"
  define os1 where "os1 = (if iNesting ?os2 = 0 then ChangeContext ?os2 else ?os2)"
  have post: "OSMboxPost m message os = (OK, os1)" using assms(3) by (simp add: OSMboxPost_def Let_def os1_def)
  have o: "OSReadyList os1 = OSReadyList ?os2" "BRTOS_Mbox_Table os1 = BRTOS_Mbox_Table ?os2" by (simp_all add: os1_def)
  have e1: "mbox m os1 = ?e'" using assms(1) by (simp add: o)
  have len: "m < length (BRTOS_Mbox_Table os1)" using assms(1) by (simp add: o)
  have "bit (OSReadyList os1) ?p" using p by (simp add: o ready_set)
  moreover have "waiters (mbox m os1) = waiters ?e - {?p}" "event_ok (mbox m os1)"
    unfolding e1 fields using h(1,2,4) by simp_all
  moreover have "OSMboxPend_resume m ?p 0 os1 = Some (OK, message, upd_mbox m (?e'\<lparr>MboxState := NO_MESSAGE\<rparr>) os1)"
    by (simp add: OSMboxPend_resume_def wake_up_def e1)
  moreover have "mail m (upd_mbox m (?e'\<lparr>MboxState := NO_MESSAGE\<rparr>) os1) = None"
    using len by (simp add: mail_def)
  ultimately show ?thesis using post h(4) by auto
qed

text \<open>
  The message stays in the cell until the woken task runs.  A task of higher priority that pends
  in between takes it, and the woken task, which does not look at the state again, gets the same
  message a second time.
\<close>

lemma mbox_message_twice:
  assumes "m < length (BRTOS_Mbox_Table os)" and "MboxState (mbox m os) = AVAILABLE_MESSAGE"
  shows "\<exists>os1 os2. OSMboxPend m w os = (Return (OK, Some (MboxPointer (mbox m os))), os1) \<and>
    OSMboxPend_resume m p 0 os1 = Some (OK, MboxPointer (mbox m os), os2)"
  using assms by (simp add: OSMboxPend_def OSMboxPend_resume_def wake_up_def Let_def)

section \<open>A concrete mailbox\<close>

definition one_mbox :: os where
  "one_mbox = os_globals\<lparr>BRTOS_Mbox_Table := [\<lparr>OSEventAllocated = True, OSEventWait = 1, OSEventWaitList = 8,
     MboxState = NO_MESSAGE, MboxPointer = None\<rparr>]\<rparr>"

lemma mbox_post_pend_witness:
  "\<exists>os1. OSMboxPost 0 (Some 7) (one_mbox\<lparr>BRTOS_Mbox_Table := [\<lparr>OSEventAllocated = True, OSEventWait = 0,
     OSEventWaitList = 0, MboxState = NO_MESSAGE, MboxPointer = None\<rparr>]\<rparr>) = (OK, os1) \<and> mail 0 os1 = Some (Some 7)"
proof -
  let ?os = "one_mbox\<lparr>BRTOS_Mbox_Table := [\<lparr>OSEventAllocated = True, OSEventWait = 0,
     OSEventWaitList = 0, MboxState = NO_MESSAGE, MboxPointer = None\<rparr>]\<rparr>"
  have "0 < length (BRTOS_Mbox_Table ?os)" "OSEventWait (mbox 0 ?os) = 0" by simp_all
  from mbox_post_pend [OF this, of "Some 7"] show ?thesis by blast
qed

lemma mbox_handover_witness:
  "\<exists>os1. OSMboxPost 0 (Some 7) one_mbox = (OK, os1) \<and> bit (OSReadyList os1) 3"
proof -
  have w: "waiters (mbox 0 one_mbox) = {3}"
  proof -
    have "bit (8 :: u32) q \<longleftrightarrow> q = 3" for q using bit_pow2 [of 3 q] by auto
    then show ?thesis by (auto simp: waiters_def one_mbox_def)
  qed
  then have "event_ok (mbox 0 one_mbox)"
    by (simp add: event_ok_def popcount_def waiters_def [symmetric]) (simp add: one_mbox_def waiters_def)
  moreover have "0 < length (BRTOS_Mbox_Table one_mbox)" "OSEventWait (mbox 0 one_mbox) \<noteq> 0"
    by (simp_all add: one_mbox_def)
  ultimately show ?thesis using mbox_handover [of 0 one_mbox "Some 7"] w by auto
qed

end
