(* ===== verification/Queue.thy ===== *)
theory Queue
  imports Event
begin

text \<open>
  Byte queues, \<^verbatim>\<open>brtos/queue.c\<close>: a ring buffer in the static area \<open>QUEUE_STACK\<close> with a wait
  list.  The four pointers of the C structure are offsets into that area.  The ring is shown
  to implement a bounded first-in-first-out sequence, stated as the locale \<open>fifo\<close>; the
  queue calls are then statements about that sequence.
\<close>

section \<open>The contract of a bounded queue\<close>

locale fifo =
  fixes ok :: "'q \<Rightarrow> bool"
    and contents :: "'q \<Rightarrow> 'a list"
    and capacity :: "'q \<Rightarrow> nat"
    and put :: "'a \<Rightarrow> 'q \<Rightarrow> 'q option"
    and get :: "'q \<Rightarrow> ('a \<times> 'q) option"
  assumes bounded: "ok q \<Longrightarrow> length (contents q) \<le> capacity q"
    and put_full: "ok q \<Longrightarrow> length (contents q) = capacity q \<Longrightarrow> put a q = None"
    and put_ok: "ok q \<Longrightarrow> length (contents q) < capacity q \<Longrightarrow>
      \<exists>q'. put a q = Some q' \<and> ok q' \<and> contents q' = contents q @ [a] \<and> capacity q' = capacity q"
    and get_empty: "ok q \<Longrightarrow> contents q = [] \<Longrightarrow> get q = None"
    and get_ok: "ok q \<Longrightarrow> contents q = a # as \<Longrightarrow>
      \<exists>q'. get q = Some (a, q') \<and> ok q' \<and> contents q' = as \<and> capacity q' = capacity q"
begin

fun puts :: "'a list \<Rightarrow> 'q \<Rightarrow> 'q option" where
  "puts [] q = Some q"
| "puts (a # as) q = (case put a q of None \<Rightarrow> None | Some q' \<Rightarrow> puts as q')"

fun gets :: "nat \<Rightarrow> 'q \<Rightarrow> ('a list \<times> 'q) option" where
  "gets 0 q = Some ([], q)"
| "gets (Suc n) q = (case get q of None \<Rightarrow> None
     | Some (a, q') \<Rightarrow> (case gets n q' of None \<Rightarrow> None | Some (as, q'') \<Rightarrow> Some (a # as, q'')))"

lemma puts_ok:
  "ok q \<Longrightarrow> length (contents q) + length as \<le> capacity q \<Longrightarrow>
     \<exists>q'. puts as q = Some q' \<and> ok q' \<and> contents q' = contents q @ as \<and> capacity q' = capacity q"
proof (induction as arbitrary: q)
  case Nil
  then show ?case by simp
next
  case (Cons a as)
  then have "length (contents q) < capacity q" by simp
  then obtain q1 where "put a q = Some q1" "ok q1" "contents q1 = contents q @ [a]"
    "capacity q1 = capacity q"
    using put_ok [OF Cons.prems(1), of a] by blast
  then show ?case
    using Cons.IH [of q1] Cons.prems by simp
qed

lemma gets_ok:
  "ok q \<Longrightarrow> n \<le> length (contents q) \<Longrightarrow>
     \<exists>q'. gets n q = Some (take n (contents q), q') \<and> ok q' \<and> contents q' = drop n (contents q) \<and>
          capacity q' = capacity q"
proof (induction n arbitrary: q)
  case 0
  then show ?case by simp
next
  case (Suc n)
  then obtain a as where c: "contents q = a # as"
    by (cases "contents q") auto
  then obtain q1 where "get q = Some (a, q1)" "ok q1" "contents q1 = as" "capacity q1 = capacity q"
    using get_ok [OF Suc.prems(1)] by blast
  then show ?case
    using Suc.IH [of q1] Suc.prems c by auto
qed

lemma first_in_first_out:
  assumes "ok q" and "contents q = []" and "length as \<le> capacity q"
  shows "\<exists>q1 q2. puts as q = Some q1 \<and> gets (length as) q1 = Some (as, q2) \<and> contents q2 = []"
proof -
  obtain q1 where q1: "puts as q = Some q1" "ok q1" "contents q1 = as"
    using puts_ok [of q as] assms by auto
  then show ?thesis
    using gets_ok [of q1 "length as"] by auto
qed

end

section \<open>The ring\<close>

text \<open>
  The body of \<open>OSWQueue\<close>, also the storing half of \<open>OSQueuePost\<close>: \<open>None\<close> is the full queue.
\<close>

definition ring_write :: "'a \<Rightarrow> os_queue \<times> 'a list \<Rightarrow> (os_queue \<times> 'a list) option" where
  "ring_write data q =
     (let cqueue = fst q; mem = snd q in
      if OSQEntries cqueue < OSQSize cqueue then
        (let c1 = cqueue\<lparr>OSQEntries := OSQEntries cqueue + 1\<rparr>;
             c2 = (if OSQIn c1 = OSQEnd c1 then c1\<lparr>OSQIn := OSQStart c1\<rparr> else c1)
         in Some (c2\<lparr>OSQIn := OSQIn c2 + 1\<rparr>, mem[OSQIn c2 := data]))
      else None)"

text \<open>The reading half, as \<open>OSQueuePend\<close> performs it without looking at the entry count.\<close>

definition ring_take :: "os_queue \<times> 'a list \<Rightarrow> 'a \<times> os_queue" where
  "ring_take q =
     (let cqueue = fst q; mem = snd q;
          c1 = (if OSQOut cqueue = OSQEnd cqueue then cqueue\<lparr>OSQOut := OSQStart cqueue\<rparr> else cqueue)
      in (mem ! OSQOut c1, c1\<lparr>OSQOut := OSQOut c1 + 1, OSQEntries := OSQEntries c1 - 1\<rparr>))"

definition ring_read :: "os_queue \<times> 'a list \<Rightarrow> ('a \<times> os_queue \<times> 'a list) option" where
  "ring_read q =
     (if OSQEntries (fst q) > 0
      then (case ring_take q of (d, c) \<Rightarrow> Some (d, c, snd q))
      else None)"

definition ring_clean :: "os_queue \<Rightarrow> os_queue" where
  "ring_clean cqueue = cqueue\<lparr>OSQEntries := 0, OSQIn := OSQStart cqueue, OSQOut := OSQStart cqueue\<rparr>"

definition ring_size :: "os_queue \<times> 'a list \<Rightarrow> nat" where
  "ring_size q = unat (OSQSize (fst q))"

definition ring_pos :: "os_queue \<Rightarrow> nat \<Rightarrow> nat" where
  "ring_pos c i = OSQStart c + (OSQOut c - OSQStart c + i) mod unat (OSQSize c)"

definition ring_contents :: "os_queue \<times> 'a list \<Rightarrow> 'a list" where
  "ring_contents q = map (\<lambda>i. snd q ! ring_pos (fst q) i) [0..<unat (OSQEntries (fst q))]"

definition ring_ok :: "os_queue \<times> 'a list \<Rightarrow> bool" where
  "ring_ok q \<longleftrightarrow>
     (let c = fst q; n = unat (OSQSize c) in
      OSQEnd c = OSQStart c + n \<and> OSQEnd c \<le> length (snd q) \<and> unat (OSQEntries c) \<le> n \<and>
      OSQStart c \<le> OSQIn c \<and> OSQIn c \<le> OSQEnd c \<and> OSQStart c \<le> OSQOut c \<and> OSQOut c \<le> OSQEnd c \<and>
      (OSQIn c - OSQStart c) mod n = (OSQOut c - OSQStart c + unat (OSQEntries c)) mod n)"

lemma wrap_mod: "x \<le> n \<Longrightarrow> n \<noteq> 0 \<Longrightarrow> (if x = n then 0 else x) = x mod (n :: nat)"
  by auto

lemma ring_okD:
  assumes "ring_ok q"
  shows "OSQEnd (fst q) = OSQStart (fst q) + unat (OSQSize (fst q))"
    "OSQEnd (fst q) \<le> length (snd q)" "unat (OSQEntries (fst q)) \<le> unat (OSQSize (fst q))"
    "OSQStart (fst q) \<le> OSQIn (fst q)" "OSQIn (fst q) \<le> OSQEnd (fst q)"
    "OSQStart (fst q) \<le> OSQOut (fst q)" "OSQOut (fst q) \<le> OSQEnd (fst q)"
    "(OSQIn (fst q) - OSQStart (fst q)) mod unat (OSQSize (fst q)) =
       (OSQOut (fst q) - OSQStart (fst q) + unat (OSQEntries (fst q))) mod unat (OSQSize (fst q))"
  using assms by (simp_all add: ring_ok_def Let_def)

lemma mod_offset_neq:
  assumes "i < j" and "j < n"
  shows "(a + i) mod n \<noteq> (a + j) mod (n :: nat)"
proof
  assume "(a + i) mod n = (a + j) mod n"
  then have "n dvd (a + j) - (a + i)"
    using assms mod_eq_dvd_iff_nat [of "a + i" "a + j" n] by simp
  then have "n dvd j - i" by simp
  then show False
    using assms nat_dvd_not_less [of "j - i" n] by simp
qed

lemma ring_write_ok:
  assumes ok: "ring_ok q" and room: "length (ring_contents q) < ring_size q"
  shows "\<exists>q'. ring_write d q = Some q' \<and> ring_ok q' \<and> ring_contents q' = ring_contents q @ [d] \<and>
           ring_size q' = ring_size q"
proof -
  obtain c mem where q: "q = (c, mem)" by (cases q)
  let ?n = "unat (OSQSize c)" and ?k = "unat (OSQEntries c)" and ?s = "OSQStart c"
  note D = ring_okD [OF ok, unfolded q fst_conv snd_conv]
  have k: "?k < ?n" and n: "?n \<noteq> 0"
    using room by (simp_all add: q ring_contents_def ring_size_def)
  define j where "j = (if OSQIn c = OSQEnd c then ?s else OSQIn c)"
  let ?c' = "c\<lparr>OSQEntries := OSQEntries c + 1, OSQIn := Suc j\<rparr>"
  have w: "ring_write d q = Some (?c', mem[j := d])"
    using k by (simp add: q ring_write_def Let_def word_less_nat_alt j_def)
  have ent: "unat (OSQEntries c + 1) = ?k + 1"
  proof -
    have "?k + 1 < 2 ^ 16"
      using k unsigned_less [of "OSQSize c", where 'a = nat] by simp
    then show ?thesis by (intro unat_add_1) simp
  qed
  have inm: "j = ?s + (OSQIn c - ?s) mod ?n"
    using D(1,4,5) wrap_mod [of "OSQIn c - ?s" ?n] n by (auto simp: j_def)
  have pos: "ring_pos c ?k = j"
    using inm D(8) by (simp add: ring_pos_def)
  have lt: "j < OSQEnd c" "?s \<le> j"
    using inm n D(1) by simp_all
  have idx: "j \<noteq> ring_pos c i" if "i < ?k" for i
    unfolding pos [symmetric] using mod_offset_neq [OF that k] by (simp add: ring_pos_def not_sym)
  have "ring_contents (?c', mem[j := d]) = ring_contents q @ [d]"
  proof -
    have p: "ring_pos ?c' i = ring_pos c i" for i
      by (simp add: ring_pos_def)
    have "map (\<lambda>i. mem[j := d] ! ring_pos c i) [0..<?k] = map (\<lambda>i. mem ! ring_pos c i) [0..<?k]"
      by (intro map_cong refl nth_list_update_neq) (simp add: idx)
    moreover have "mem[j := d] ! ring_pos c ?k = d"
      using lt D(2) by (simp add: pos)
    ultimately show ?thesis
      by (simp add: ring_contents_def q p ent)
  qed
  moreover have "ring_ok (?c', mem[j := d])"
  proof -
    have "(Suc j - ?s) mod ?n = ((OSQIn c - ?s) mod ?n + 1) mod ?n"
      using inm by simp
    also have "\<dots> = (OSQOut c - ?s + (?k + 1)) mod ?n"
      unfolding D(8) by (simp add: mod_simps)
    finally show ?thesis
      using D lt k ent by (simp add: ring_ok_def Let_def)
  qed
  ultimately show ?thesis
    using w by (intro exI [of _ "(?c', mem[j := d])"]) (simp add: ring_size_def q)
qed

lemma ring_read_ok:
  assumes ok: "ring_ok q" and ne: "ring_contents q = d # ds"
  shows "\<exists>q'. ring_read q = Some (d, q') \<and> ring_ok q' \<and> ring_contents q' = ds \<and>
           ring_size q' = ring_size q"
proof -
  obtain c mem where q: "q = (c, mem)" by (cases q)
  let ?n = "unat (OSQSize c)" and ?k = "unat (OSQEntries c)" and ?s = "OSQStart c"
  note D = ring_okD [OF ok, unfolded q fst_conv snd_conv]
  obtain k where k: "?k = Suc k"
    using ne by (cases ?k) (simp_all add: q ring_contents_def)
  then have n: "?n \<noteq> 0" using D(3) by simp
  define j where "j = (if OSQOut c = OSQEnd c then ?s else OSQOut c)"
  let ?c' = "c\<lparr>OSQOut := Suc j, OSQEntries := OSQEntries c - 1\<rparr>"
  have outm: "j = ?s + (OSQOut c - ?s) mod ?n"
    using D(1,6,7) wrap_mod [of "OSQOut c - ?s" ?n] n by (auto simp: j_def)
  have "OSQEntries c \<noteq> 0"
    using k by auto
  then have e: "OSQEntries c > 0" "unat (OSQEntries c - 1) = k"
    using k unat_minus_one [of "OSQEntries c"] by (simp_all add: word_gt_0)
  have cont: "ring_contents q = mem ! j # map (\<lambda>i. mem ! ring_pos c (Suc i)) [0..<k]"
    using outm by (simp add: ring_contents_def q k ring_pos_def map_upt_Suc del: upt_Suc)
  have r: "ring_read q = Some (mem ! j, ?c', mem)"
    using e by (simp add: q ring_read_def ring_take_def Let_def j_def)
  have p: "ring_pos ?c' i = ring_pos c (Suc i)" for i
  proof -
    have "(Suc j - ?s + i) mod ?n = ((OSQOut c - ?s) mod ?n + Suc i) mod ?n"
      using outm by simp
    also have "\<dots> = (OSQOut c - ?s + Suc i) mod ?n"
      by (rule mod_add_left_eq)
    finally show ?thesis by (simp add: ring_pos_def)
  qed
  have "ring_ok (?c', mem)"
  proof -
    have "(Suc j - ?s + k) mod ?n = ((OSQOut c - ?s) mod ?n + Suc k) mod ?n"
      using outm by simp
    also have "\<dots> = (OSQOut c - ?s + Suc k) mod ?n"
      by (rule mod_add_left_eq)
    also have "\<dots> = (OSQIn c - ?s) mod ?n"
      using D(8) k by simp
    moreover have "Suc ((OSQOut c - ?s) mod ?n) \<le> ?n"
      using n by (simp add: Suc_le_eq)
    ultimately show ?thesis
      using D e k outm by (simp add: ring_ok_def Let_def)
  qed
  moreover have "ring_contents (?c', mem) = ds" "mem ! j = d"
    using ne cont e by (simp_all add: ring_contents_def p)
  ultimately show ?thesis
    using r by (simp add: ring_size_def q)
qed

interpretation rq: fifo ring_ok ring_contents ring_size ring_write ring_read
proof unfold_locales
  fix q :: "os_queue \<times> 'a list" and d ds
  assume ok: "ring_ok q"
  show "length (ring_contents q) \<le> ring_size q"
    using ring_okD(3) [OF ok] by (simp add: ring_contents_def ring_size_def)
  show "length (ring_contents q) = ring_size q \<Longrightarrow> ring_write d q = None"
    by (simp add: ring_contents_def ring_size_def ring_write_def word_less_nat_alt)
  show "ring_contents q = [] \<Longrightarrow> ring_read q = None"
    by (simp add: ring_contents_def ring_read_def word_gt_0 unat_eq_zero)
qed (blast intro: ring_write_ok ring_read_ok)+

section \<open>The queue calls\<close>

abbreviation queue :: "nat \<Rightarrow> os \<Rightarrow> queue_cb" where
  "queue q os \<equiv> BRTOS_Queue_Table os ! q"

definition upd_queue :: "nat \<Rightarrow> queue_cb \<Rightarrow> os \<Rightarrow> os" where
  "upd_queue q e os = os\<lparr>BRTOS_Queue_Table := (BRTOS_Queue_Table os)[q := e]\<rparr>"

abbreviation cring :: "nat \<Rightarrow> os \<Rightarrow> os_queue" where
  "cring c os \<equiv> BRTOS_OS_QUEUE_Table os ! c"

definition upd_ring :: "nat \<Rightarrow> os_queue \<Rightarrow> os \<Rightarrow> os" where
  "upd_ring c r os = os\<lparr>BRTOS_OS_QUEUE_Table := (BRTOS_OS_QUEUE_Table os)[c := r]\<rparr>"

text \<open>
  \<open>QUEUE_STACK\<close> is an array of 4-byte words, and \<open>iQueueAddress\<close> counts words.
\<close>

definition OSQueueCreate :: "u16 \<Rightarrow> os \<Rightarrow> u8 \<times> nat option \<times> os" where
  "OSQueueCreate size0 os =
     (if iNesting os > 0 then (IRQ_PEND_ERR, None, os)
      else
        (let size = (if size0 mod 4 \<noteq> 0 then size0 + (4 - size0 mod 4) else size0);
             words = unat size div sizeof_OS_CPU_TYPE in
         if unat (iQueueAddress os) + words > QUEUE_HEAP_SIZE div sizeof_OS_CPU_TYPE
         then (NO_MEMORY, None, os)
         else
           (let i = first_idx (\<lambda>e. \<not> OSEventAllocated e) (BRTOS_Queue_Table os) in
            if i \<ge> length (BRTOS_Queue_Table os) then (NO_AVAILABLE_EVENT, None, os)
            else
              (let start = sizeof_OS_CPU_TYPE * unat (iQueueAddress os);
                   cqueue = \<lparr>OSQStart = start, OSQEnd = start + unat size, OSQIn = start,
                             OSQOut = start, OSQSize = size, OSQEntries = 0\<rparr>;
                   os1 = os\<lparr>iQueueAddress := iQueueAddress os + of_nat words\<rparr>;
                   e = \<lparr>OSEventAllocated = True, OSEventWait = 0, OSEventWaitList = 0,
                        OSEventPointer = i\<rparr>
               in (ALLOC_EVENT_OK, Some i, upd_queue i e (upd_ring i cqueue os1))))))"

definition OSWQueue :: "nat \<Rightarrow> u8 \<Rightarrow> os \<Rightarrow> u8 \<times> os" where
  "OSWQueue c data os =
     (case ring_write data (cring c os, QUEUE_STACK os) of
        None \<Rightarrow> (BUFFER_UNDERRUN, os)
      | Some (r, mem) \<Rightarrow> (WRITE_BUFFER_OK, (upd_ring c r os)\<lparr>QUEUE_STACK := mem\<rparr>))"

text \<open>The byte read through \<^verbatim>\<open>*pdata\<close> is \<open>None\<close> when nothing is written there.\<close>

definition OSRQueue :: "nat \<Rightarrow> os \<Rightarrow> u8 \<times> u8 option \<times> os" where
  "OSRQueue c os =
     (case ring_read (cring c os, QUEUE_STACK os) of
        None \<Rightarrow> (NO_ENTRY_AVAILABLE, None, os)
      | Some (d, r, _) \<Rightarrow> (READ_BUFFER_OK, Some d, upd_ring c r os))"

definition OSQueueClean :: "nat \<Rightarrow> os \<Rightarrow> u8 \<times> os" where
  "OSQueueClean q os =
     (let c = OSEventPointer (queue q os)
      in (CLEAN_BUFFER_OK, upd_ring c (ring_clean (cring c os)) os))"

definition OSQueuePend :: "nat \<Rightarrow> u64 \<Rightarrow> os \<Rightarrow> (u8 \<times> u8 option) call \<times> os" where
  "OSQueuePend q time_wait os =
     (let e = queue q os; c = OSEventPointer e in
      if OSQEntries (cring c os) > 0 then
        (case ring_take (cring c os, QUEUE_STACK os) of
           (d, r) \<Rightarrow> (Return (READ_BUFFER_OK, Some d), upd_ring c r os))
      else if time_wait = NO_TIMEOUT then (Return (EXIT_BY_NO_ENTRY_AVAILABLE, None), os)
      else
        (let iPriority = Priority (task (currentTask os) os)
         in (Suspended, suspend time_wait (upd_queue q (wait_enqueue iPriority e) os))))"

definition OSQueuePend_resume :: "nat \<Rightarrow> nat \<Rightarrow> u64 \<Rightarrow> os \<Rightarrow> (u8 \<times> u8 option \<times> os) option" where
  "OSQueuePend_resume q iPriority time_wait os = do {
     (timed_out, e, os1) \<leftarrow> wake_up iPriority time_wait (queue q os) os;
     if timed_out then Some (TIMEOUT, None, upd_queue q e os1)
     else
       (let c = OSEventPointer (queue q os1) in
        case ring_take (cring c os1, QUEUE_STACK os1) of
          (d, r) \<Rightarrow> Some (READ_BUFFER_OK, Some d, upd_ring c r os1))
   }"

definition OSQueuePost :: "nat \<Rightarrow> u8 \<Rightarrow> os \<Rightarrow> u8 \<times> os" where
  "OSQueuePost q data os =
     (let e = queue q os; c = OSEventPointer e in
      case ring_write data (cring c os, QUEUE_STACK os) of
        None \<Rightarrow> (BUFFER_UNDERRUN, os)
      | Some (r, mem) \<Rightarrow>
          (let os1 = (upd_ring c r os)\<lparr>QUEUE_STACK := mem\<rparr> in
           if OSEventWait e \<noteq> 0 then
             (let iPriority = waiter e;
                  os2 = upd_queue q (wait_dequeue iPriority e) os1;
                  os3 = set_ready iPriority os2
              in (WRITE_BUFFER_OK, if iNesting os3 = 0 then ChangeContext os3 else os3))
           else (WRITE_BUFFER_OK, os1)))"

lemma upd_queue_sel [simp]:
  "BRTOS_OS_QUEUE_Table (upd_queue q e os) = BRTOS_OS_QUEUE_Table os"
  "QUEUE_STACK (upd_queue q e os) = QUEUE_STACK os"
  "BRTOS_Queue_Table (upd_queue q e os) = (BRTOS_Queue_Table os)[q := e]"
  "iNesting (upd_queue q e os) = iNesting os"
  "BRTOS_OS_QUEUE_Table (upd_ring c r os) = (BRTOS_OS_QUEUE_Table os)[c := r]"
  "QUEUE_STACK (upd_ring c r os) = QUEUE_STACK os"
  "BRTOS_Queue_Table (upd_ring c r os) = BRTOS_Queue_Table os"
  "OSReadyList (upd_queue q e os) = OSReadyList os"
  by (simp_all add: upd_queue_def upd_ring_def)

text \<open>The sequence of bytes in a queue.\<close>

definition queue_bytes :: "nat \<Rightarrow> os \<Rightarrow> u8 list" where
  "queue_bytes q os = ring_contents (cring (OSEventPointer (queue q os)) os, QUEUE_STACK os)"

definition queue_ok :: "nat \<Rightarrow> os \<Rightarrow> bool" where
  "queue_ok q os \<longleftrightarrow>
     q < length (BRTOS_Queue_Table os) \<and>
     OSEventPointer (queue q os) < length (BRTOS_OS_QUEUE_Table os) \<and>
     ring_ok (cring (OSEventPointer (queue q os)) os, QUEUE_STACK os) \<and> event_ok (queue q os)"

definition queue_size :: "nat \<Rightarrow> os \<Rightarrow> nat" where
  "queue_size q os = unat (OSQSize (cring (OSEventPointer (queue q os)) os))"

lemma queue_post_result:
  assumes "queue_ok q os"
  shows "if length (queue_bytes q os) = queue_size q os
         then OSQueuePost q d os = (BUFFER_UNDERRUN, os)
         else (\<exists>os'. OSQueuePost q d os = (WRITE_BUFFER_OK, os') \<and> queue_ok q os' \<and>
                queue_bytes q os' = queue_bytes q os @ [d] \<and> queue_size q os' = queue_size q os)"
proof -
  let ?c = "OSEventPointer (queue q os)"
  let ?r = "(cring ?c os, QUEUE_STACK os)"
  from assms have o: "q < length (BRTOS_Queue_Table os)" "?c < length (BRTOS_OS_QUEUE_Table os)"
    "ring_ok ?r" "event_ok (queue q os)"
    by (simp_all add: queue_ok_def)
  have sz: "queue_size q os = ring_size ?r"
    by (simp add: queue_size_def ring_size_def)
  show ?thesis
  proof (cases "length (queue_bytes q os) = queue_size q os")
    case True
    then show ?thesis
      using rq.put_full [OF o(3)] by (simp add: queue_bytes_def sz OSQueuePost_def Let_def)
  next
    case False
    then have "length (ring_contents ?r) < ring_size ?r"
      using rq.bounded [OF o(3)] by (simp add: queue_bytes_def sz)
    then obtain r mem where w: "ring_write d ?r = Some (r, mem)" "ring_ok (r, mem)"
      "ring_contents (r, mem) = ring_contents ?r @ [d]" "ring_size (r, mem) = ring_size ?r"
      using rq.put_ok [OF o(3), of d] by auto
    let ?o1 = "(upd_ring ?c r os)\<lparr>QUEUE_STACK := mem\<rparr>"
    let ?e' = "if OSEventWait (queue q os) \<noteq> 0 then wait_dequeue (waiter (queue q os)) (queue q os)
               else queue q os"
    obtain os' where p: "OSQueuePost q d os = (WRITE_BUFFER_OK, os')"
      and os': "BRTOS_OS_QUEUE_Table os' = (BRTOS_OS_QUEUE_Table os)[?c := r]" "QUEUE_STACK os' = mem"
        "BRTOS_Queue_Table os' = (BRTOS_Queue_Table os)[q := ?e']"
      using that [of "snd (OSQueuePost q d os)"] w(1) o(1)
      by (cases "OSEventWait (queue q os) = 0") (simp_all add: OSQueuePost_def Let_def)
    have ptr: "OSEventPointer ?e' = ?c"
      by (simp add: wait_dequeue_def)
    have "event_ok ?e'"
      using o(4) ev.first_in [OF o(4)] ev.dequeue_ok [OF o(4)] wait_nonzero [OF o(4)] by simp
    then have "queue_ok q os' \<and> queue_bytes q os' = queue_bytes q os @ [d] \<and>
        queue_size q os' = queue_size q os"
      using w o os' ptr
      by (simp add: queue_ok_def queue_bytes_def queue_size_def ring_size_def del: if_split)
    then show ?thesis
      using False p by auto
  qed
qed

lemma queue_pend_result:
  assumes "queue_ok q os"
  shows "case queue_bytes q os of
           [] \<Rightarrow> OSQueuePend q NO_TIMEOUT os = (Return (EXIT_BY_NO_ENTRY_AVAILABLE, None), os)
         | b # bs \<Rightarrow> (\<exists>os'. OSQueuePend q w os = (Return (READ_BUFFER_OK, Some b), os') \<and>
                queue_ok q os' \<and> queue_bytes q os' = bs \<and> queue_size q os' = queue_size q os)"
proof -
  let ?c = "OSEventPointer (queue q os)"
  let ?r = "(cring ?c os, QUEUE_STACK os)"
  from assms have o: "q < length (BRTOS_Queue_Table os)" "?c < length (BRTOS_OS_QUEUE_Table os)"
    "ring_ok ?r" "event_ok (queue q os)"
    by (simp_all add: queue_ok_def)
  have sz: "queue_size q os = ring_size ?r"
    by (simp add: queue_size_def ring_size_def)
  show ?thesis
  proof (cases "queue_bytes q os")
    case Nil
    then have "OSQEntries (cring ?c os) = 0"
      by (simp add: queue_bytes_def ring_contents_def unat_eq_zero)
    then show ?thesis
      using Nil by (simp add: OSQueuePend_def Let_def)
  next
    case (Cons b bs)
    then obtain r' where r: "ring_read ?r = Some (b, r')" "ring_ok r'" "ring_contents r' = bs"
      "ring_size r' = ring_size ?r"
      using rq.get_ok [OF o(3), of b bs] by (auto simp: queue_bytes_def)
    then have t: "OSQEntries (cring ?c os) > 0" "ring_take ?r = (b, fst r')" "snd r' = QUEUE_STACK os"
      by (auto simp: ring_read_def split: if_splits prod.splits)
    let ?os' = "upd_ring ?c (fst r') os"
    have "OSQueuePend q w os = (Return (READ_BUFFER_OK, Some b), ?os')"
      using t by (simp add: OSQueuePend_def Let_def)
    moreover have "(fst r', QUEUE_STACK os) = r'"
      using t(3) by (simp add: prod_eq_iff)
    then have "queue_ok q ?os'" "queue_bytes q ?os' = bs" "queue_size q ?os' = queue_size q os"
      using r(2-4) o by (simp_all add: queue_ok_def queue_bytes_def queue_size_def ring_size_def)
    ultimately show ?thesis
      using Cons by auto
  qed
qed

text \<open>
  C9. A byte queue is a bounded first-in-first-out sequence.  A post appends its byte, or is
  refused exactly when the queue holds as many bytes as it was created for; an immediate pend
  takes the oldest byte; neither touches the others.
\<close>

theorem queue_post_pend_fifo:
  assumes "queue_ok q os"
  shows "(if length (queue_bytes q os) = queue_size q os
          then OSQueuePost q d os = (BUFFER_UNDERRUN, os)
          else (\<exists>os'. OSQueuePost q d os = (WRITE_BUFFER_OK, os') \<and> queue_ok q os' \<and>
                queue_bytes q os' = queue_bytes q os @ [d] \<and> queue_size q os' = queue_size q os)) \<and>
         (case queue_bytes q os of
           [] \<Rightarrow> OSQueuePend q NO_TIMEOUT os = (Return (EXIT_BY_NO_ENTRY_AVAILABLE, None), os)
         | b # bs \<Rightarrow> (\<exists>os'. OSQueuePend q w os = (Return (READ_BUFFER_OK, Some b), os') \<and>
                queue_ok q os' \<and> queue_bytes q os' = bs \<and> queue_size q os' = queue_size q os))"
  using queue_post_result [OF assms, of d] queue_pend_result [OF assms, of w] by blast

lemma round_up_4:
  "4 dvd n + (4 - n mod 4) mod 4 \<and> (4 - n mod 4) mod 4 < (4 :: nat)"
proof -
  have "n mod 4 < 4" by simp
  then consider "n mod 4 = 0" | "n mod 4 = 1" | "n mod 4 = 2" | "n mod 4 = 3" by linarith
  then show ?thesis
    by cases (simp_all add: dvd_eq_mod_eq_0, presburger+)
qed

text \<open>
  Creation gives a queue fresh storage: an empty ring of the size asked for, rounded up to
  words, between the old and the new end of the used part of the area, inside the array; no
  byte of the area and no other queue changes.
\<close>

theorem OSQueueCreate_region:
  assumes "OSQueueCreate n0 os = (ALLOC_EVENT_OK, Some q, os')"
    and "unat n0 \<le> 65532" and "length (QUEUE_STACK os) = QUEUE_HEAP_SIZE"
    and "q < length (BRTOS_OS_QUEUE_Table os)" and "unat (iQueueAddress os) \<le> 32"
  shows "queue_ok q os' \<and> queue_bytes q os' = [] \<and>
         unat n0 \<le> queue_size q os' \<and> queue_size q os' < unat n0 + 4 \<and>
         OSQStart (cring q os') = 4 * unat (iQueueAddress os) \<and>
         OSQEnd (cring q os') = 4 * unat (iQueueAddress os') \<and>
         4 * unat (iQueueAddress os') \<le> length (QUEUE_STACK os') \<and>
         QUEUE_STACK os' = QUEUE_STACK os \<and>
         (\<forall>j. j \<noteq> q \<longrightarrow> cring j os' = cring j os \<and> queue j os' = queue j os)"
proof -
  let ?sz = "if n0 mod 4 \<noteq> 0 then n0 + (4 - n0 mod 4) else n0"
  let ?n = "unat n0 + (4 - unat n0 mod 4) mod 4"
  have m: "unat (n0 mod 4) = unat n0 mod 4" by (simp add: unat_mod)
  have szn: "unat ?sz = ?n"
  proof (cases "unat n0 mod 4 = 0")
    case True
    then have "n0 mod 4 = 0" using m by (simp add: unat_eq_zero)
    with True show ?thesis by simp
  next
    case False
    have "unat (4 - n0 mod 4) = 4 - unat n0 mod 4"
      using m by (subst unat_sub) (simp_all add: word_le_nat_alt)
    moreover have "unat n0 + (4 - unat n0 mod 4) < 2 ^ 16"
    proof -
      have "unat n0 \<noteq> 65532" using False by auto
      then show ?thesis using assms(2) by simp
    qed
    ultimately have "unat (n0 + (4 - n0 mod 4)) = unat n0 + (4 - unat n0 mod 4)"
      by (simp add: unat_word_ariths(1))
    moreover have "n0 mod 4 \<noteq> 0" using False m by (metis unat_0)
    ultimately show ?thesis using False by simp
  qed
  have n4: "4 dvd ?n" "unat n0 \<le> ?n" "?n < unat n0 + 4"
    using round_up_4 [of "unat n0"] by simp_all
  let ?P = "\<lambda>e. \<not> OSEventAllocated e"
  let ?i = "first_idx ?P (BRTOS_Queue_Table os)"
  let ?st = "4 * unat (iQueueAddress os)"
  have room: "unat (iQueueAddress os) + ?n div 4 \<le> 32" and q: "q = ?i" "?i < length (BRTOS_Queue_Table os)"
    and os': "os' = upd_queue q \<lparr>OSEventAllocated = True, OSEventWait = 0, OSEventWaitList = 0,
        OSEventPointer = q\<rparr> (upd_ring q \<lparr>OSQStart = ?st, OSQEnd = ?st + ?n, OSQIn = ?st,
        OSQOut = ?st, OSQSize = ?sz, OSQEntries = 0\<rparr>
        (os\<lparr>iQueueAddress := iQueueAddress os + of_nat (?n div 4)\<rparr>))"
    using assms(1) by (simp_all add: OSQueueCreate_def Let_def szn split: if_splits del: if_split) auto
  have "iQueueAddress os' = iQueueAddress os + of_nat (?n div 4)"
    by (simp add: os' upd_queue_def upd_ring_def)
  moreover have "unat (iQueueAddress os + of_nat (?n div 4)) = unat (iQueueAddress os) + ?n div 4"
    using room by (intro unat_add_of_nat) simp
  ultimately have ia: "4 * unat (iQueueAddress os') = ?st + ?n"
    using n4(1) by simp
  have rg: "cring q os' = \<lparr>OSQStart = ?st, OSQEnd = ?st + ?n, OSQIn = ?st,
        OSQOut = ?st, OSQSize = ?sz, OSQEntries = 0\<rparr>"
    "OSEventPointer (queue q os') = q" "event_ok (queue q os')" "QUEUE_STACK os' = QUEUE_STACK os"
    "length (BRTOS_Queue_Table os') = length (BRTOS_Queue_Table os)"
    "length (BRTOS_OS_QUEUE_Table os') = length (BRTOS_OS_QUEUE_Table os)"
    "\<forall>j. j \<noteq> q \<longrightarrow> cring j os' = cring j os \<and> queue j os' = queue j os"
    using assms(4) q by (simp_all add: os' event_ok_def upd_ring_def upd_queue_def)
  have fit: "?st + ?n \<le> 128"
    using room n4(1) by auto
  show ?thesis
    using rg assms(3,4) q(2) fit n4 ia szn
    by (simp add: queue_ok_def queue_bytes_def ring_contents_def queue_size_def ring_ok_def Let_def
        q(1) [symmetric] del: if_split)
qed

text \<open>
  A request of more than 65532 bytes wraps to a queue without room, and succeeds.
\<close>

lemma OSQueueCreate_wrap:
  assumes "iNesting os = 0" and "BRTOS_Queue_Table os = e # es" and "\<not> OSEventAllocated e"
    and "unat (iQueueAddress os) \<le> 32" and "BRTOS_OS_QUEUE_Table os \<noteq> []"
  shows "\<exists>os'. OSQueueCreate 65533 os = (ALLOC_EVENT_OK, Some 0, os') \<and> OSQSize (cring 0 os') = 0"
proof -
  have "(65533 :: u16) mod 4 = 1" by (simp add: word_unat_eq_iff unat_mod)
  then show ?thesis
    using assms by (simp add: OSQueueCreate_def Let_def)
qed

text \<open>
  The resuming half of a pend does not look at the queue again.  When a task of higher priority
  has taken the byte in the meantime, the woken task reads stale memory and the entry count
  wraps to 65535, so the queue looks overfull from then on.
\<close>

lemma OSQueuePend_resume_underflow:
  assumes "OSQEntries (cring (OSEventPointer (queue q os)) os) = 0"
    and "OSEventPointer (queue q os) < length (BRTOS_OS_QUEUE_Table os)"
  shows "\<exists>d os'. OSQueuePend_resume q p 0 os = Some (READ_BUFFER_OK, Some d, os') \<and>
           OSQEntries (cring (OSEventPointer (queue q os')) os') = 65535"
  using assms
  by (auto simp: OSQueuePend_resume_def wake_up_def Let_def ring_take_def)

section \<open>Concrete runs\<close>

definition three_byte_queue :: os where
  "three_byte_queue = os_globals\<lparr>
     BRTOS_Queue_Table := [\<lparr>OSEventAllocated = True, OSEventWait = 0, OSEventWaitList = 0, OSEventPointer = 0\<rparr>],
     BRTOS_OS_QUEUE_Table := [\<lparr>OSQStart = 2, OSQEnd = 5, OSQIn = 3, OSQOut = 4, OSQSize = 3, OSQEntries = 2\<rparr>],
     QUEUE_STACK := [0, 0, 7, 8, 9, 0]\<rparr>"

theorem queue_post_pend_fifo_witness:
  "\<exists>os'. OSQueuePost 0 5 three_byte_queue = (WRITE_BUFFER_OK, os') \<and> queue_bytes 0 os' = [9, 7, 5]"
proof -
  have "queue_ok 0 three_byte_queue" "queue_bytes 0 three_byte_queue = [9, 7]"
    "queue_size 0 three_byte_queue = 3"
    by (simp_all add: queue_ok_def three_byte_queue_def ring_ok_def Let_def event_ok_def queue_bytes_def
        ring_contents_def ring_pos_def queue_size_def upt_rec)
  then show ?thesis
    using queue_post_pend_fifo [of 0 three_byte_queue 5] by auto
qed

theorem OSQueueCreate_region_witness:
  "\<exists>os'. OSQueueCreate 10 os_globals = (ALLOC_EVENT_OK, Some 0, os') \<and> queue_size 0 os' < 14"
proof -
  have "(10 :: u16) mod 4 = 2" "(4 :: u16) - 2 = 2"
    by (simp_all add: word_unat_eq_iff unat_mod)
  then have "\<exists>os'. OSQueueCreate 10 os_globals = (ALLOC_EVENT_OK, Some 0, os')"
    by (simp add: OSQueueCreate_def os_globals_def Let_def)
  then show ?thesis
    using OSQueueCreate_region [of 10 os_globals 0] by (force simp: os_globals_def)
qed

end
