(* ===== verification/OS_Time.thy ===== *)
theory OS_Time
  imports Prelude
begin

text \<open>
  The clock and calendar of BRTOS, \<^verbatim>\<open>brtos/OSTime.c\<close>.  The calendar is specified by the number
  of seconds it denotes under the Gregorian rules: \<open>OSUpdateCalendar\<close> adds one to it.
\<close>

section \<open>State and operations\<close>

record OSTime =
  RTC_Second :: u8
  RTC_Minute :: u8
  RTC_Hour :: u8

record OSDate =
  RTC_Day :: u8
  RTC_Month :: u8
  RTC_Year :: u16

record OS_RTC =
  Year :: u16
  Month :: u8
  Day :: u8
  Hour :: u8
  Min :: u8
  Sec :: u8

definition MonthLength :: "nat list" where
  "MonthLength = [0, 31, 28, 31, 30, 31, 30, 31, 31, 30, 31, 30, 31]"

definition OSUpdateTime :: "OSTime \<Rightarrow> OSTime" where
  "OSUpdateTime Hora =
     (let h1 = Hora\<lparr>RTC_Second := RTC_Second Hora + 1\<rparr> in
      if RTC_Second h1 = 60 then
        (let h2 = h1\<lparr>RTC_Second := 0, RTC_Minute := RTC_Minute h1 + 1\<rparr> in
         if RTC_Minute h2 = 60 then
           (let h3 = h2\<lparr>RTC_Minute := 0, RTC_Hour := RTC_Hour h2 + 1\<rparr> in
            if RTC_Hour h3 = 24 then h3\<lparr>RTC_Hour := 0\<rparr> else h3)
         else h2)
      else h1)"

text \<open>\<open>OSUpdateUptime\<close> is the same with a day counter.\<close>

definition OSUpdateUptime :: "OSTime \<times> OSDate \<Rightarrow> OSTime \<times> OSDate" where
  "OSUpdateUptime st =
     (let Hora = fst st; Data = snd st;
          h1 = Hora\<lparr>RTC_Second := RTC_Second Hora + 1\<rparr> in
      if RTC_Second h1 = 60 then
        (let h2 = h1\<lparr>RTC_Second := 0, RTC_Minute := RTC_Minute h1 + 1\<rparr> in
         if RTC_Minute h2 = 60 then
           (let h3 = h2\<lparr>RTC_Minute := 0, RTC_Hour := RTC_Hour h2 + 1\<rparr> in
            if RTC_Hour h3 = 24
            then (h3\<lparr>RTC_Hour := 0\<rparr>, Data\<lparr>RTC_Day := RTC_Day Data + 1\<rparr>)
            else (h3, Data))
         else (h2, Data))
      else (h1, Data))"

definition OSUpdateDate :: "OSDate \<Rightarrow> OSDate" where
  "OSUpdateDate Data =
     (let d1 = Data\<lparr>RTC_Day := RTC_Day Data + 1\<rparr> in
      if RTC_Day d1 = 30 then
        (let d2 = d1\<lparr>RTC_Day := 0, RTC_Month := RTC_Month d1 + 1\<rparr> in
         if RTC_Month d2 = 12 then
           (let d3 = d2\<lparr>RTC_Month := 0, RTC_Year := RTC_Year d2 + 1\<rparr> in
            if RTC_Year d3 = 9999 then d3\<lparr>RTC_Year := 0\<rparr> else d3)
         else d2)
      else d1)"

definition OSResetTime :: "OSTime \<Rightarrow> OSTime" where
  "OSResetTime Hora = Hora\<lparr>RTC_Second := 0, RTC_Minute := 0, RTC_Hour := 0\<rparr>"

definition OSResetDate :: "OSDate \<Rightarrow> OSDate" where
  "OSResetDate Data = Data\<lparr>RTC_Day := 0, RTC_Month := 0, RTC_Year := 0\<rparr>"

text \<open>The value assigned to \<open>LeapMonth\<close>: a 29th of February exists.\<close>

definition leap_month :: "OS_RTC \<Rightarrow> u8" where
  "leap_month r =
     (if Month r = 2 then
        (if Year r AND 0x0003 = 0 then
           (if Year r mod 100 = 0 then (if Year r mod 400 = 0 then 1 else 0)
            else 1)
         else 0)
      else 0)"

text \<open>The second component is the static variable \<open>LeapMonth\<close>.\<close>

definition OSUpdateCalendar :: "OS_RTC \<times> u8 \<Rightarrow> OS_RTC \<times> u8" where
  "OSUpdateCalendar st =
     (let r0 = fst st; LeapMonth = snd st;
          r1 = r0\<lparr>Sec := Sec r0 + 1\<rparr> in
      if Sec r1 = 60 then
        (let r2 = r1\<lparr>Sec := 0, Min := Min r1 + 1\<rparr> in
         if Min r2 > 59 then
           (let r3 = r2\<lparr>Min := 0, Hour := Hour r2 + 1\<rparr> in
            if Hour r3 > 23 then
              (let r4 = r3\<lparr>Hour := 0, Day := Day r3 + 1\<rparr>;
                   leap = leap_month r4 in
               if unat (Day r4) > MonthLength ! unat (Month r4) + unat leap then
                 (let r5 = r4\<lparr>Day := 1, Month := Month r4 + 1\<rparr> in
                  if Month r5 > 12 then (r5\<lparr>Month := 1, Year := Year r5 + 1\<rparr>, leap)
                  else (r5, leap))
               else (r4, leap))
            else (r3, LeapMonth))
         else (r2, LeapMonth))
      else (r1, LeapMonth))"

definition Init_Calendar :: OS_RTC where
  "Init_Calendar = \<lparr>Year = 2011, Month = 3, Day = 28, Hour = 9, Min = 0, Sec = 30\<rparr>"

section \<open>The Gregorian calendar\<close>

definition leap_year :: "nat \<Rightarrow> bool" where
  "leap_year y \<longleftrightarrow> 4 dvd y \<and> (100 dvd y \<longrightarrow> 400 dvd y)"

definition month_days :: "nat \<Rightarrow> nat \<Rightarrow> nat" where
  "month_days y m = (if m = 2 then (if leap_year y then 29 else 28)
                     else if m \<in> {4, 6, 9, 11} then 30 else 31)"

primrec days_to_year :: "nat \<Rightarrow> nat" where
  "days_to_year 0 = 0"
| "days_to_year (Suc y) = days_to_year y + (if leap_year y then 366 else 365)"

definition days_to_month :: "nat \<Rightarrow> nat \<Rightarrow> nat" where
  "days_to_month y m = sum_list (map (month_days y) [1..<m])"

definition cal_valid :: "OS_RTC \<Rightarrow> bool" where
  "cal_valid r \<longleftrightarrow> Sec r < 60 \<and> Min r < 60 \<and> Hour r < 24 \<and> 1 \<le> Month r \<and> Month r \<le> 12 \<and>
     1 \<le> Day r \<and> unat (Day r) \<le> month_days (unat (Year r)) (unat (Month r))"

definition cal_day :: "OS_RTC \<Rightarrow> nat" where
  "cal_day r = days_to_year (unat (Year r)) + days_to_month (unat (Year r)) (unat (Month r)) +
     (unat (Day r) - 1)"

definition cal_seconds :: "OS_RTC \<Rightarrow> nat" where
  "cal_seconds r = ((cal_day r * 24 + unat (Hour r)) * 60 + unat (Min r)) * 60 + unat (Sec r)"

lemma month_cases:
  "1 \<le> m \<Longrightarrow> m \<le> 12 \<Longrightarrow> m \<in> {1, 2, 3, 4, 5, 6, 7, 8, 9, 10, 11, 12 :: nat}"
  by simp presburger

lemma days_to_month_Suc: "1 \<le> m \<Longrightarrow> days_to_month y (Suc m) = days_to_month y m + month_days y m"
  by (simp add: days_to_month_def)

lemma days_in_year: "days_to_month y 13 = (if leap_year y then 366 else 365)"
  by (simp add: days_to_month_def month_days_def upt_rec)

lemma MonthLength_ok:
  assumes "1 \<le> m" and "m \<le> 12"
  shows "MonthLength ! m + (if m = 2 \<and> leap_year y then 1 else 0) = month_days y m"
  using month_cases [OF assms] by (auto simp: MonthLength_def month_days_def)

lemma leap_month_ok:
  "unat (leap_month r) = (if unat (Month r) = 2 \<and> leap_year (unat (Year r)) then 1 else 0)"
proof -
  have "unat (Year r AND 3) = unat (Year r) mod 4"
    using unat_and_mask [of "Year r" 2] by (simp add: mask_eq_exp_minus_1)
  then have "Year r AND 3 = 0 \<longleftrightarrow> 4 dvd unat (Year r)"
    by (simp add: word_unat_eq_iff dvd_eq_mod_eq_0)
  moreover have "Year r mod 100 = 0 \<longleftrightarrow> 100 dvd unat (Year r)" "Year r mod 400 = 0 \<longleftrightarrow> 400 dvd unat (Year r)"
    by (simp_all add: word_unat_eq_iff unat_mod dvd_eq_mod_eq_0)
  ultimately show ?thesis
    by (auto simp: leap_month_def leap_year_def word_unat_eq_iff)
qed

text \<open>Midnight: the next day of the month, the first of the next month, or the first of January.\<close>

lemma calendar_midnight:
  assumes r: "r = \<lparr>Year = y, Month = m, Day = d, Hour = h, Min = mi, Sec = s\<rparr>" and "cal_valid r" and "unat y < 65535"
    and last: "unat s = 59" "unat mi = 59" "unat h = 23"
  shows "cal_valid (fst (OSUpdateCalendar (r, l))) \<and> cal_seconds (fst (OSUpdateCalendar (r, l))) = cal_seconds r + 1"
proof -
  let ?r4 = "\<lparr>Year = y, Month = m, Day = d + 1, Hour = 0, Min = 0, Sec = 0\<rparr>"
  have v: "1 \<le> unat m" "unat m \<le> 12" "1 \<le> unat d" "unat d \<le> month_days (unat y) (unat m)"
    using assms(2) by (simp_all add: r cal_valid_def word_less_nat_alt word_le_nat_alt)
  have "unat d \<le> 31" using v(4) by (simp add: month_days_def split: if_splits)
  then have inc: "unat (s + 1) = unat s + 1" "unat (mi + 1) = unat mi + 1" "unat (h + 1) = unat h + 1"
    "unat (m + 1) = unat m + 1" "unat (d + 1) = unat d + 1" "unat (y + 1) = unat y + 1"
    using v last assms(3) by (simp_all add: u8_Suc unat_add_1)
  have len: "MonthLength ! unat m + unat (leap_month ?r4) < unat (d + 1) \<longleftrightarrow> unat d = month_days (unat y) (unat m)"
    using MonthLength_ok [OF v(1,2), of "unat y"] leap_month_ok [of ?r4] v(4) inc(5) by (auto split: if_splits)
  have dm: "month_days (unat y) (unat m) \<ge> 1" "month_days (unat y) (unat m + 1) \<ge> 1" by (simp_all add: month_days_def)
  have upd: "OSUpdateCalendar (r, l) =
      (if unat d = month_days (unat y) (unat m) then
         if unat m = 12 then ?r4\<lparr>Day := 1, Month := 1, Year := y + 1\<rparr> else ?r4\<lparr>Day := 1, Month := m + 1\<rparr>
       else ?r4, leap_month ?r4)"
    using last v len inc by (simp add: r OSUpdateCalendar_def Let_def word_less_nat_alt word_unat_eq_iff)
  note defs = upd [unfolded r] r cal_valid_def cal_seconds_def cal_day_def word_less_nat_alt word_le_nat_alt
  have m1: "days_to_month (unat y) (unat m + 1) = days_to_month (unat y) (unat m) + month_days (unat y) (unat m)"
    using days_to_month_Suc [OF v(1)] by simp
  show ?thesis
  proof (cases "unat d = month_days (unat y) (unat m)")
    case False
    then show ?thesis using last v inc by (simp add: defs)
  next
    case end_of_month: True
    show ?thesis
    proof (cases "unat m = 12")
      case False
      then show ?thesis using end_of_month last v inc dm m1 by (simp add: defs)
    next
      case True
      have "days_to_month (unat y) 12 + month_days (unat y) 12 = days_to_month (unat y) 13"
        using days_to_month_Suc [of 12 "unat y"] by simp
      then have "days_to_year (unat y + 1) = days_to_year (unat y) + (days_to_month (unat y) 12 + month_days (unat y) 12)"
        by (simp add: days_in_year)
      moreover have "days_to_month (unat y + 1) 1 = 0" by (simp add: days_to_month_def)
      ultimately show ?thesis using True end_of_month last v inc dm by (simp add: defs month_days_def)
    qed
  qed
qed

text \<open>
  C12. The calendar is right: from a valid date and time \<open>OSUpdateCalendar\<close> reaches a valid
  one that lies exactly one second later, over every minute, hour, day, month, leap day and
  year boundary, until the 16-bit year runs out.
\<close>

theorem OSUpdateCalendar_next_second:
  assumes "cal_valid r" and "unat (Year r) < 65535"
  shows "cal_valid (fst (OSUpdateCalendar (r, l))) \<and>
         cal_seconds (fst (OSUpdateCalendar (r, l))) = cal_seconds r + 1"
proof -
  obtain y m d h mi s where r: "r = \<lparr>Year = y, Month = m, Day = d, Hour = h, Min = mi, Sec = s\<rparr>"
    by (cases r)
  have v: "unat s < 60" "unat mi < 60" "unat h < 24"
    using assms(1) by (simp_all add: r cal_valid_def word_less_nat_alt)
  then have inc: "unat (s + 1) = unat s + 1" "unat (mi + 1) = unat mi + 1" "unat (h + 1) = unat h + 1"
    by (simp_all add: u8_Suc)
  note defs = r OSUpdateCalendar_def Let_def cal_valid_def cal_seconds_def cal_day_def
    word_less_nat_alt word_le_nat_alt word_unat_eq_iff inc
  consider "unat s < 59" | "unat s = 59" "unat mi < 59" | "unat s = 59" "unat mi = 59" "unat h < 23"
    | "unat s = 59" "unat mi = 59" "unat h = 23"
    using v by linarith
  then show ?thesis
  proof cases
    case 4
    then show ?thesis using calendar_midnight [OF r assms(1)] assms(2) r by simp
  qed (use v assms(1) in \<open>simp_all add: defs\<close>)
qed

theorem OSUpdateCalendar_next_second_witness:
  "cal_seconds (fst (OSUpdateCalendar (\<lparr>Year = 2012, Month = 2, Day = 28, Hour = 23, Min = 59, Sec = 59\<rparr>, 0)))
     = cal_seconds \<lparr>Year = 2012, Month = 2, Day = 28, Hour = 23, Min = 59, Sec = 59\<rparr> + 1"
  using OSUpdateCalendar_next_second [of "\<lparr>Year = 2012, Month = 2, Day = 28, Hour = 23, Min = 59, Sec = 59\<rparr>" 0]
  by (simp add: cal_valid_def month_days_def)

section \<open>The clock\<close>

definition time_valid :: "OSTime \<Rightarrow> bool" where
  "time_valid h \<longleftrightarrow> RTC_Second h < 60 \<and> RTC_Minute h < 60 \<and> RTC_Hour h < 24"

definition time_seconds :: "OSTime \<Rightarrow> nat" where
  "time_seconds h = (unat (RTC_Hour h) * 60 + unat (RTC_Minute h)) * 60 + unat (RTC_Second h)"

text \<open>
  The clock counts the seconds of a day and starts again at midnight, and the uptime day
  counter advances at exactly that moment.
\<close>

theorem OSUpdateUptime_counts:
  assumes "time_valid h"
  shows "fst (OSUpdateUptime (h, d)) = OSUpdateTime h \<and> time_valid (OSUpdateTime h) \<and>
         time_seconds (OSUpdateTime h) = (time_seconds h + 1) mod 86400 \<and>
         snd (OSUpdateUptime (h, d)) =
           (if time_seconds h = 86399 then d\<lparr>RTC_Day := RTC_Day d + 1\<rparr> else d)"
proof -
  obtain s m hr where h: "h = \<lparr>RTC_Second = s, RTC_Minute = m, RTC_Hour = hr\<rparr>"
    by (cases h)
  have v: "unat s < 60" "unat m < 60" "unat hr < 24"
    using assms by (simp_all add: h time_valid_def word_less_nat_alt)
  have inc: "unat (s + 1) = unat s + 1" "unat (m + 1) = unat m + 1" "unat (hr + 1) = unat hr + 1"
    using v by (simp_all add: u8_Suc)
  note defs = h OSUpdateUptime_def OSUpdateTime_def Let_def time_valid_def time_seconds_def
    word_less_nat_alt word_unat_eq_iff inc
  consider "unat s < 59" | "unat s = 59" "unat m < 59" | "unat s = 59" "unat m = 59" "unat hr < 23"
    | "unat s = 59" "unat m = 59" "unat hr = 23"
    using v by linarith
  then show ?thesis
    by cases (use v in \<open>simp_all add: defs\<close>)
qed

theorem OSUpdateUptime_counts_witness:
  "snd (OSUpdateUptime (\<lparr>RTC_Second = 59, RTC_Minute = 59, RTC_Hour = 23\<rparr>,
     \<lparr>RTC_Day = 4, RTC_Month = 0, RTC_Year = 0\<rparr>)) = \<lparr>RTC_Day = 5, RTC_Month = 0, RTC_Year = 0\<rparr>"
  using OSUpdateUptime_counts [of "\<lparr>RTC_Second = 59, RTC_Minute = 59, RTC_Hour = 23\<rparr>"
    "\<lparr>RTC_Day = 4, RTC_Month = 0, RTC_Year = 0\<rparr>"]
  by (simp add: time_valid_def time_seconds_def)

end
