(* ===== verification/Packet.thy ===== *)
theory Packet
  imports Prelude
begin

text \<open>
  The packet buffer of the uNET stack, \<^verbatim>\<open>uNET/packet.h\<close> and \<^verbatim>\<open>uNET/packet.c\<close>: the frame
  layout, the state of a packet on its way through the router, the side information, and the
  test-and-set that gives one task the use of the down or up packet.  \<^verbatim>\<open>REQUIRE_FOREVER\<close> loops for
  ever when its condition fails, which is \<open>None\<close>.
\<close>

section \<open>Layout\<close>

abbreviation (input) PHY_PKT_SIZE :: nat where "PHY_PKT_SIZE \<equiv> 1"
abbreviation (input) MAC_HEADER_SIZE :: nat where "MAC_HEADER_SIZE \<equiv> 0"
abbreviation (input) MAC_FRAME_CTRL :: nat where "MAC_FRAME_CTRL \<equiv> 2"
abbreviation (input) MAC_SEQ_NUM :: nat where "MAC_SEQ_NUM \<equiv> 4"
abbreviation (input) MAC_PANID_16 :: nat where "MAC_PANID_16 \<equiv> 5"
abbreviation (input) MAC_DEST_16 :: nat where "MAC_DEST_16 \<equiv> 7"
abbreviation (input) MAC_SRC_16 :: nat where "MAC_SRC_16 \<equiv> 9"
abbreviation (input) LLC_PROTO :: nat where "LLC_PROTO \<equiv> 11"
abbreviation (input) UNET_HEADER_START :: nat where "UNET_HEADER_START \<equiv> 12"
abbreviation (input) UNET_PKT_TYPE :: nat where "UNET_PKT_TYPE \<equiv> 12"
abbreviation (input) UNET_PAYLOAD_LEN :: nat where "UNET_PAYLOAD_LEN \<equiv> 13"
abbreviation (input) UNET_HOP_LIMIT :: nat where "UNET_HOP_LIMIT \<equiv> 14"
abbreviation (input) UNET_NEXT_HEADER :: nat where "UNET_NEXT_HEADER \<equiv> 15"
abbreviation (input) UNET_SRC_64 :: nat where "UNET_SRC_64 \<equiv> 16"
abbreviation (input) UNET_DEST_64 :: nat where "UNET_DEST_64 \<equiv> 24"
abbreviation (input) UNET_PANID_64 :: nat where "UNET_PANID_64 \<equiv> 24"
abbreviation (input) UNET_HEADER_END :: nat where "UNET_HEADER_END \<equiv> 32"
abbreviation (input) UNET_SOURCE_PORT :: nat where "UNET_SOURCE_PORT \<equiv> 32"
abbreviation (input) UNET_DEST_PORT :: nat where "UNET_DEST_PORT \<equiv> 33"
abbreviation (input) UNET_APP_PAYLOAD_LEN :: nat where "UNET_APP_PAYLOAD_LEN \<equiv> 34"
abbreviation (input) UNET_APP_HEADER_START :: nat where "UNET_APP_HEADER_START \<equiv> 35"
abbreviation (input) MAX_PACKET_SIZE :: nat where "MAX_PACKET_SIZE \<equiv> 128"

abbreviation (input) UNET_MAC_HEADER_SIZE :: nat where "UNET_MAC_HEADER_SIZE \<equiv> 9"
abbreviation (input) UNET_LLC_HEADER_SIZE :: nat where "UNET_LLC_HEADER_SIZE \<equiv> 1"
abbreviation (input) UNET_NWK_HEADER_SIZE :: nat where "UNET_NWK_HEADER_SIZE \<equiv> 20"
abbreviation (input) UNET_TRANSP_HEADER_SIZE :: nat where "UNET_TRANSP_HEADER_SIZE \<equiv> 3"

section \<open>Packets\<close>

datatype packet_state =
    PACKET_IDLE | PACKET_BUSY | PACKET_START_ROUTE | PACKET_IN_ROUTE | PACKET_WAITING_TX
  | PACKET_WAITING_ACK | PACKET_SENDING_ACK | PACKET_ACKED | PACKET_NOT_ACKED | PACKET_DELIVERED

datatype packet_info =
    PKTINFO_SIZE | PKTINFO_SRC16H | PKTINFO_SRC16L | PKTINFO_DEST16H | PKTINFO_DEST16L
  | PKTINFO_DUPLICATED | PKTINFO_TXCHANNEL | PKTINFO_SEQNUM | PKTINFO_RSSI | PKTINFO_LQI
  | PKTINFO_FCSH | PKTINFO_FCSL | PKTINFO_MAX_OPT

fun info_idx :: "packet_info \<Rightarrow> nat" where
  "info_idx PKTINFO_SIZE = 0" | "info_idx PKTINFO_SRC16H = 1" | "info_idx PKTINFO_SRC16L = 2"
| "info_idx PKTINFO_DEST16H = 3" | "info_idx PKTINFO_DEST16L = 4" | "info_idx PKTINFO_DUPLICATED = 5"
| "info_idx PKTINFO_TXCHANNEL = 6" | "info_idx PKTINFO_SEQNUM = 7" | "info_idx PKTINFO_RSSI = 8"
| "info_idx PKTINFO_LQI = 9" | "info_idx PKTINFO_FCSH = 10" | "info_idx PKTINFO_FCSL = 11"
| "info_idx PKTINFO_MAX_OPT = 12"

record packet =
  info :: "u8 list"
  bytes :: "u8 list"
  state :: packet_state

definition packet_ok :: "packet \<Rightarrow> bool" where
  "packet_ok p \<longleftrightarrow> length (info p) = 12 \<and> length (bytes p) = MAX_PACKET_SIZE"

definition packet_info_get :: "packet_info \<Rightarrow> packet \<Rightarrow> u8" where
  "packet_info_get opt pkt = info pkt ! info_idx opt"

definition packet_info_set :: "packet_info \<Rightarrow> u8 \<Rightarrow> packet \<Rightarrow> packet option" where
  "packet_info_set opt val pkt =
     (if info_idx opt < info_idx PKTINFO_MAX_OPT
      then Some (pkt\<lparr>info := (info pkt)[info_idx opt := val]\<rparr>)
      else None)"

text \<open>A store into the frame, and the side information written without the range check.\<close>

definition put :: "nat \<Rightarrow> u8 \<Rightarrow> packet \<Rightarrow> packet" where
  "put i v pkt = pkt\<lparr>bytes := (bytes pkt)[i := v]\<rparr>"

definition put_info :: "packet_info \<Rightarrow> u8 \<Rightarrow> packet \<Rightarrow> packet" where
  "put_info opt v pkt = pkt\<lparr>info := (info pkt)[info_idx opt := v]\<rparr>"

abbreviation byte :: "packet \<Rightarrow> nat \<Rightarrow> u8" where
  "byte p i \<equiv> bytes p ! i"

section \<open>Taking and returning the down and up packet\<close>

abbreviation (input) PACKET_ACCESS_ALLOWED :: u8 where "PACKET_ACCESS_ALLOWED \<equiv> 0"
abbreviation (input) PACKET_ACCESS_DENIED :: u8 where "PACKET_ACCESS_DENIED \<equiv> 1"

text \<open>The two pairs of functions differ in the global they work on; it is the argument here.\<close>

definition packet_acquire_down :: "packet \<Rightarrow> u8 \<times> packet" where
  "packet_acquire_down packet_down =
     (if state packet_down \<noteq> PACKET_IDLE then (PACKET_ACCESS_DENIED, packet_down)
      else (PACKET_ACCESS_ALLOWED, packet_down\<lparr>state := PACKET_START_ROUTE\<rparr>))"

definition packet_release_down :: "packet \<Rightarrow> packet" where
  "packet_release_down packet_down = packet_down\<lparr>state := PACKET_IDLE\<rparr>"

definition packet_acquire_up :: "packet \<Rightarrow> u8 \<times> packet" where
  "packet_acquire_up packet_up =
     (if state packet_up \<noteq> PACKET_IDLE then (PACKET_ACCESS_DENIED, packet_up)
      else (PACKET_ACCESS_ALLOWED, packet_up\<lparr>state := PACKET_START_ROUTE\<rparr>))"

definition packet_release_up :: "packet \<Rightarrow> packet" where
  "packet_release_up packet_up = packet_up\<lparr>state := PACKET_IDLE\<rparr>"

definition packet_state_down :: "packet \<Rightarrow> packet_state" where
  "packet_state_down packet_down = state packet_down"

definition packet_state_up :: "packet \<Rightarrow> packet_state" where
  "packet_state_up packet_up = state packet_up"

section \<open>16-bit addresses\<close>

definition join16 :: "u8 \<Rightarrow> u8 \<Rightarrow> u16" where
  "join16 h l = push_bit 8 (ucast h) + ucast l"

abbreviation hi8 :: "u16 \<Rightarrow> u8" where "hi8 x \<equiv> ucast (drop_bit 8 x)"
abbreviation lo8 :: "u16 \<Rightarrow> u8" where "lo8 x \<equiv> ucast x"

definition packet_get_source_addr16 :: "packet \<Rightarrow> u16" where
  "packet_get_source_addr16 pkt =
     join16 (packet_info_get PKTINFO_SRC16H pkt) (packet_info_get PKTINFO_SRC16L pkt)"

definition packet_get_dest_addr16 :: "packet \<Rightarrow> u16" where
  "packet_get_dest_addr16 pkt =
     join16 (packet_info_get PKTINFO_DEST16H pkt) (packet_info_get PKTINFO_DEST16L pkt)"

definition ieee802154_dest16_set :: "u16 \<Rightarrow> packet \<Rightarrow> packet option" where
  "ieee802154_dest16_set addr pkt = do {
     p1 \<leftarrow> packet_info_set PKTINFO_DEST16H (hi8 addr) pkt;
     packet_info_set PKTINFO_DEST16L (lo8 addr) p1
   }"

abbreviation (input) BROAD_ADDR :: u16 where "BROAD_ADDR \<equiv> 0xFFFF"
abbreviation (input) UNUSED_ADDR :: u16 where "UNUSED_ADDR \<equiv> 0xFFFE"

definition ieee802154_dest16_set_broadcast :: "packet \<Rightarrow> packet option" where
  "ieee802154_dest16_set_broadcast pkt = ieee802154_dest16_set BROAD_ADDR pkt"

text \<open>
  With a constant option the setters do not fail; the frames are built with these forms.
\<close>

definition set_dest16 :: "u16 \<Rightarrow> packet \<Rightarrow> packet" where
  "set_dest16 addr pkt = put_info PKTINFO_DEST16L (lo8 addr) (put_info PKTINFO_DEST16H (hi8 addr) pkt)"

lemma packet_info_set_put: "opt \<noteq> PKTINFO_MAX_OPT \<Longrightarrow> packet_info_set opt v pkt = Some (put_info opt v pkt)"
  by (cases opt) (simp_all add: packet_info_set_def put_info_def)

lemma ieee802154_dest16_set_put: "ieee802154_dest16_set addr pkt = Some (set_dest16 addr pkt)"
  by (simp add: ieee802154_dest16_set_def packet_info_set_put set_dest16_def)

text \<open>\<^verbatim>\<open>memcpy\<close> into the frame.\<close>

fun put_all :: "nat \<Rightarrow> u8 list \<Rightarrow> packet \<Rightarrow> packet" where
  "put_all i [] pkt = pkt"
| "put_all i (v # vs) pkt = put_all (Suc i) vs (put i v pkt)"

lemma unat_join16: "unat (join16 h l) = 256 * unat h + unat l"
proof -
  have "unat h < 256" "unat l < 256"
    using unsigned_less [of h, where 'a = nat] unsigned_less [of l, where 'a = nat] by simp_all
  then have "256 * unat h + unat l < 65536" by linarith
  then show ?thesis
    by (simp add: join16_def push_bit_eq_mult unat_ariths)
qed

lemma join16_or: "join16 a b = push_bit 8 (ucast a) OR ucast b"
  unfolding join16_def
  by (rule disjunctive_add [symmetric, THEN sym]) (auto simp: bit_simps dest: bit_imp_le_length)

lemma unat_hi8: "unat (hi8 x) = unat x div 256"
proof -
  have "unat x div 256 < 256"
    using unsigned_less [of x, where 'a = nat] by (simp add: less_mult_imp_div_less)
  then show ?thesis
    by (simp add: unat_ucast_mod drop_bit_eq_div unat_div)
qed

lemma unat_lo8: "unat (lo8 x) = unat x mod 256"
  by (simp add: unat_ucast_mod)

lemma join16_split [simp]: "join16 (hi8 x) (lo8 x) = x"
  by (simp only: word_unat_eq_iff unat_join16, simp only: unat_hi8, simp only: unat_lo8 mult_div_mod_eq)

lemma split_join16 [simp]: "hi8 (join16 h l) = h" "lo8 (join16 h l) = l"
proof -
  have "unat l < 256"
    using unsigned_less [of l, where 'a = nat] by simp
  then have "(256 * unat h + unat l) div 256 = unat h" "(256 * unat h + unat l) mod 256 = unat l"
    by simp_all
  then show "hi8 (join16 h l) = h" "lo8 (join16 h l) = l"
    by (simp_all only: word_unat_eq_iff, simp_all only: unat_hi8, simp_all only: unat_lo8 unat_join16)
qed

lemma put_info_sel [simp]:
  "bytes (put_info o1 v p) = bytes p" "state (put_info o1 v p) = state p"
  "info (put i v2 p) = info p" "state (put i v2 p) = state p" "length (bytes (put i v2 p)) = length (bytes p)"
  "length (info (put_info o1 v p)) = length (info p)"
  by (simp_all add: put_info_def put_def)

lemma byte_put: "byte (put i v p) j = (if i = j \<and> i < length (bytes p) then v else byte p j)"
  by (simp add: put_def nth_upd)

lemma info_idx_inj: "info_idx a = info_idx b \<longleftrightarrow> a = b"
  by (cases a; cases b) simp_all

lemma info_put: "packet_info_get a (put_info b v p) =
  (if a = b \<and> info_idx b < length (info p) then v else packet_info_get a p)"
  by (auto simp: packet_info_get_def put_info_def nth_upd info_idx_inj)

lemma packet_ok_put [simp]: "packet_ok (put i v p) = packet_ok p" "packet_ok (put_info o1 w p) = packet_ok p"
  by (simp_all add: packet_ok_def)

lemma put_all_sel [simp]:
  "info (put_all i vs p) = info p" "state (put_all i vs p) = state p"
  "length (bytes (put_all i vs p)) = length (bytes p)" "packet_ok (put_all i vs p) = packet_ok p"
  by (induction vs arbitrary: i p) simp_all

lemma byte_put_all:
  "i + length vs \<le> length (bytes p) \<Longrightarrow>
   byte (put_all i vs p) j = (if i \<le> j \<and> j < i + length vs then vs ! (j - i) else byte p j)"
proof (induction vs arbitrary: i p)
  case (Cons v vs)
  have "byte (put_all i (v # vs) p) j =
      (if Suc i \<le> j \<and> j < Suc i + length vs then vs ! (j - Suc i) else byte (put i v p) j)"
    using Cons.prems by (simp add: Cons.IH)
  moreover have "vs ! (j - Suc i) = (v # vs) ! (j - i)" if "Suc i \<le> j"
  proof -
    have "j - i = Suc (j - Suc i)" using that by simp
    then show ?thesis by simp
  qed
  ultimately show ?case
    using Cons.prems by (cases "j = i") (auto simp: byte_put Suc_le_eq)
qed auto

lemma set_dest16_sel [simp]:
  "bytes (set_dest16 a p) = bytes p" "state (set_dest16 a p) = state p" "packet_ok (set_dest16 a p) = packet_ok p"
  by (simp_all add: set_dest16_def)

lemma info_set_dest16:
  "packet_ok p \<Longrightarrow> packet_info_get opt (set_dest16 a p) =
     (if opt = PKTINFO_DEST16H then hi8 a else if opt = PKTINFO_DEST16L then lo8 a else packet_info_get opt p)"
  by (simp add: set_dest16_def info_put packet_ok_def)

lemma dest16_set_dest16: "packet_ok p \<Longrightarrow> packet_get_dest_addr16 (set_dest16 a p) = a"
  by (simp add: packet_get_dest_addr16_def info_set_dest16)

text \<open>An idle packet with a length, for the examples.\<close>

definition sample_packet :: packet where
  "sample_packet = \<lparr>info = (replicate 12 0)[0 := 30, 3 := 0x12, 4 := 0x34, 7 := 42],
     bytes = (replicate 128 0)[11 := 1, 14 := 5], state = PACKET_IDLE\<rparr>"

lemma sample_packet_ok: "packet_ok sample_packet"
  by (simp add: packet_ok_def sample_packet_def)

text \<open>
  The packet is a lock: after a successful acquire every further acquire is denied, and
  changes nothing, until the release.
\<close>

theorem packet_acquire_exclusive:
  assumes "packet_acquire_down p = (PACKET_ACCESS_ALLOWED, p1)"
  shows "state p = PACKET_IDLE \<and> packet_acquire_down p1 = (PACKET_ACCESS_DENIED, p1) \<and>
         fst (packet_acquire_down (packet_release_down p1)) = PACKET_ACCESS_ALLOWED \<and>
         bytes p1 = bytes p \<and> info p1 = info p"
  using assms by (auto simp: packet_acquire_down_def packet_release_down_def split: if_splits)

text \<open>A destination that is set is the one read back.\<close>

lemma dest16_roundtrip:
  assumes "packet_ok p"
  shows "\<exists>p'. ieee802154_dest16_set addr p = Some p' \<and> packet_get_dest_addr16 p' = addr \<and>
           packet_get_source_addr16 p' = packet_get_source_addr16 p \<and> bytes p' = bytes p"
  using assms
  by (simp add: ieee802154_dest16_set_def packet_info_set_def packet_get_dest_addr16_def
      packet_get_source_addr16_def packet_info_get_def packet_ok_def)

theorem packet_acquire_exclusive_witness:
  "packet_acquire_down (sample_packet\<lparr>state := PACKET_START_ROUTE\<rparr>) =
     (PACKET_ACCESS_DENIED, sample_packet\<lparr>state := PACKET_START_ROUTE\<rparr>)"
proof -
  have "packet_acquire_down sample_packet = (PACKET_ACCESS_ALLOWED, sample_packet\<lparr>state := PACKET_START_ROUTE\<rparr>)"
    by (simp add: packet_acquire_down_def sample_packet_def)
  from packet_acquire_exclusive [OF this] show ?thesis by simp
qed

end
