(* ===== verification/FCS.thy ===== *)
theory FCS
  imports Packet
begin

text \<open>
  The frame check sequence of \<^verbatim>\<open>uNET/ieee802154.c\<close>: \<open>ieee802154_fcs_calc\<close> reverses the bits of each
  byte and runs a table-driven CRC.  It is proved equal to the bitwise division by the CCITT
  polynomial over the bits of the message in transmission order, least significant bit of each
  byte first.
\<close>

section \<open>The frame check sequence\<close>

text \<open>The arithmetic is done in 32 bits (\<^verbatim>\<open>LU\<close>).\<close>

definition byte_reverse :: "u8 \<Rightarrow> u8" where
  "byte_reverse b =
     (let w = ucast b :: u32 in
      ucast (drop_bit 16 (((w * 0x0802 AND 0x22110) OR (w * 0x8020 AND 0x88440)) * 0x10101)))"

definition ccitt_crc16_table :: "u16 list" where
  "ccitt_crc16_table =
     [0x0000, 0x1021, 0x2042, 0x3063, 0x4084, 0x50a5, 0x60c6, 0x70e7,
      0x8108, 0x9129, 0xa14a, 0xb16b, 0xc18c, 0xd1ad, 0xe1ce, 0xf1ef,
      0x1231, 0x0210, 0x3273, 0x2252, 0x52b5, 0x4294, 0x72f7, 0x62d6,
      0x9339, 0x8318, 0xb37b, 0xa35a, 0xd3bd, 0xc39c, 0xf3ff, 0xe3de,
      0x2462, 0x3443, 0x0420, 0x1401, 0x64e6, 0x74c7, 0x44a4, 0x5485,
      0xa56a, 0xb54b, 0x8528, 0x9509, 0xe5ee, 0xf5cf, 0xc5ac, 0xd58d,
      0x3653, 0x2672, 0x1611, 0x0630, 0x76d7, 0x66f6, 0x5695, 0x46b4,
      0xb75b, 0xa77a, 0x9719, 0x8738, 0xf7df, 0xe7fe, 0xd79d, 0xc7bc,
      0x48c4, 0x58e5, 0x6886, 0x78a7, 0x0840, 0x1861, 0x2802, 0x3823,
      0xc9cc, 0xd9ed, 0xe98e, 0xf9af, 0x8948, 0x9969, 0xa90a, 0xb92b,
      0x5af5, 0x4ad4, 0x7ab7, 0x6a96, 0x1a71, 0x0a50, 0x3a33, 0x2a12,
      0xdbfd, 0xcbdc, 0xfbbf, 0xeb9e, 0x9b79, 0x8b58, 0xbb3b, 0xab1a,
      0x6ca6, 0x7c87, 0x4ce4, 0x5cc5, 0x2c22, 0x3c03, 0x0c60, 0x1c41,
      0xedae, 0xfd8f, 0xcdec, 0xddcd, 0xad2a, 0xbd0b, 0x8d68, 0x9d49,
      0x7e97, 0x6eb6, 0x5ed5, 0x4ef4, 0x3e13, 0x2e32, 0x1e51, 0x0e70,
      0xff9f, 0xefbe, 0xdfdd, 0xcffc, 0xbf1b, 0xaf3a, 0x9f59, 0x8f78,
      0x9188, 0x81a9, 0xb1ca, 0xa1eb, 0xd10c, 0xc12d, 0xf14e, 0xe16f,
      0x1080, 0x00a1, 0x30c2, 0x20e3, 0x5004, 0x4025, 0x7046, 0x6067,
      0x83b9, 0x9398, 0xa3fb, 0xb3da, 0xc33d, 0xd31c, 0xe37f, 0xf35e,
      0x02b1, 0x1290, 0x22f3, 0x32d2, 0x4235, 0x5214, 0x6277, 0x7256,
      0xb5ea, 0xa5cb, 0x95a8, 0x8589, 0xf56e, 0xe54f, 0xd52c, 0xc50d,
      0x34e2, 0x24c3, 0x14a0, 0x0481, 0x7466, 0x6447, 0x5424, 0x4405,
      0xa7db, 0xb7fa, 0x8799, 0x97b8, 0xe75f, 0xf77e, 0xc71d, 0xd73c,
      0x26d3, 0x36f2, 0x0691, 0x16b0, 0x6657, 0x7676, 0x4615, 0x5634,
      0xd94c, 0xc96d, 0xf90e, 0xe92f, 0x99c8, 0x89e9, 0xb98a, 0xa9ab,
      0x5844, 0x4865, 0x7806, 0x6827, 0x18c0, 0x08e1, 0x3882, 0x28a3,
      0xcb7d, 0xdb5c, 0xeb3f, 0xfb1e, 0x8bf9, 0x9bd8, 0xabbb, 0xbb9a,
      0x4a75, 0x5a54, 0x6a37, 0x7a16, 0x0af1, 0x1ad0, 0x2ab3, 0x3a92,
      0xfd2e, 0xed0f, 0xdd6c, 0xcd4d, 0xbdaa, 0xad8b, 0x9de8, 0x8dc9,
      0x7c26, 0x6c07, 0x5c64, 0x4c45, 0x3ca2, 0x2c83, 0x1ce0, 0x0cc1,
      0xef1f, 0xff3e, 0xcf5d, 0xdf7c, 0xaf9b, 0xbfba, 0x8fd9, 0x9ff8,
      0x6e17, 0x7e36, 0x4e55, 0x5e74, 0x2e93, 0x3eb2, 0x0ed1, 0x1ef0]"

definition fcs_step :: "u16 \<Rightarrow> u8 \<Rightarrow> u16" where
  "fcs_step fcs d =
     (let short_data = byte_reverse d;
          tmp = hi8 fcs XOR short_data;
          fcs_tmp = ccitt_crc16_table ! unat tmp
      in push_bit 8 fcs XOR fcs_tmp)"

definition ieee802154_fcs_calc :: "u8 list \<Rightarrow> u16" where
  "ieee802154_fcs_calc data =
     (let fcs = foldl fcs_step 0 data;
          tmp2 = byte_reverse (hi8 fcs);
          tmp3 = byte_reverse (ucast (fcs AND 0xFF))
      in push_bit 8 (ucast tmp2) OR ucast tmp3)"

section \<open>Bit reversal\<close>

text \<open>One pass of the kernel over the 256 bytes.\<close>

definition byte_reverse_check :: bool where
  "byte_reverse_check \<longleftrightarrow>
     list_all (\<lambda>n. list_all (\<lambda>i. bit (byte_reverse (of_nat n)) i = bit (of_nat n :: u8) (7 - i)) [0..<8]) [0..<256]"

lemma byte_reverse_check: byte_reverse_check
  by code_simp

lemma all_bytes: "list_all P [0..<256] \<Longrightarrow> P (unat (b :: u8))"
  using unsigned_less [of b, where 'a = nat] by (simp add: list_all_iff)

lemma byte_reverse_bit: "i < 8 \<Longrightarrow> bit (byte_reverse b) i \<longleftrightarrow> bit b (7 - i)"
  using all_bytes [OF byte_reverse_check [unfolded byte_reverse_check_def], of b]
  by (simp add: list_all_iff)

lemma byte_reverse_twice [simp]: "byte_reverse (byte_reverse b) = b"
  by (rule bit_word_eqI) (simp add: byte_reverse_bit)

section \<open>The reference: one bit at a time\<close>

text \<open>Division by x^16 + x^12 + x^5 + 1: shift in one message bit.\<close>

definition crc_shift :: "u16 \<Rightarrow> u16" where
  "crc_shift s = push_bit 1 s XOR (if bit s 15 then 0x1021 else 0)"

lemma crc_shift_xor: "crc_shift (x XOR y) = crc_shift x XOR crc_shift y"
  by (rule bit_word_eqI) (auto simp: crc_shift_def bit_simps)

lemma crc_shift_pow_xor: "(crc_shift ^^ k) (x XOR y) = (crc_shift ^^ k) x XOR (crc_shift ^^ k) y"
  by (induction k arbitrary: x y) (auto simp: crc_shift_xor)

text \<open>A register whose leading \<open>k\<close> bits are zero is only shifted.\<close>

lemma bit_push_1: "bit (push_bit 1 (x :: u16)) i \<longleftrightarrow> 0 < i \<and> i < 16 \<and> bit x (i - 1)"
  by (cases "i < 16") (auto simp only: bit_push_bit_iff possible_bit_word dest: bit_imp_le_length, auto)

lemma crc_shift_pow_low:
  "(\<And>i. 16 - k \<le> i \<Longrightarrow> \<not> bit x i) \<Longrightarrow> k \<le> 16 \<Longrightarrow> (crc_shift ^^ k) x = push_bit k x"
proof (induction k arbitrary: x)
  case 0
  then show ?case by simp
next
  case (Suc k)
  have "\<not> bit x 15" using Suc.prems by simp
  then have s: "crc_shift x = push_bit 1 x"
    by (simp add: crc_shift_def)
  have "\<not> bit (push_bit 1 x) i" if "16 - k \<le> i" for i
    using Suc.prems that by (simp only: bit_push_1) auto
  then have "(crc_shift ^^ k) (push_bit 1 x) = push_bit k (push_bit 1 x)"
    using Suc.prems by (intro Suc.IH) auto
  then show ?case
    by (simp only: funpow_Suc_right o_apply s push_bit_push_bit) simp
qed

section \<open>The table\<close>

text \<open>
  Entry \<open>2 n\<close> is entry \<open>n\<close> shifted once, entry \<open>2 n + 1\<close> is entry \<open>2 n\<close> with the polynomial added:
  one pass of the kernel over the table, and an induction for the rest.
\<close>

fun table_steps :: "u16 list \<Rightarrow> u16 list \<Rightarrow> bool" where
  "table_steps (t # ts) (a # b # xs) \<longleftrightarrow> a = crc_shift t \<and> b = a XOR 0x1021 \<and> table_steps ts xs"
| "table_steps ts xs \<longleftrightarrow> True"

lemma table_steps: "table_steps ccitt_crc16_table ccitt_crc16_table"
  by code_simp

lemma table_steps_nth:
  "table_steps ts xs \<Longrightarrow> n < length ts \<Longrightarrow> 2 * n + 1 < length xs \<Longrightarrow>
   xs ! (2 * n) = crc_shift (ts ! n) \<and> xs ! (2 * n + 1) = xs ! (2 * n) XOR 0x1021"
proof (induction ts xs arbitrary: n rule: table_steps.induct)
  case (1 t ts a b xs)
  show ?case
  proof (cases n)
    case 0
    with 1 show ?thesis by simp
  next
    case (Suc m)
    with 1 show ?thesis by simp
  qed
qed (simp_all add: numeral_2_eq_2)

lemma length_table [simp]: "length ccitt_crc16_table = 256"
  by (simp add: ccitt_crc16_table_def)

lemma table_recursion:
  assumes "n < 128"
  shows "ccitt_crc16_table ! (2 * n) = crc_shift (ccitt_crc16_table ! n)"
    and "ccitt_crc16_table ! (2 * n + 1) = ccitt_crc16_table ! (2 * n) XOR 0x1021"
  using assms table_steps_nth [OF table_steps, of n] by simp_all

lemma crc_shift_0 [simp]: "crc_shift 0 = 0"
  by (simp add: crc_shift_def)

lemma crc_shift_pow_0 [simp]: "(crc_shift ^^ k) 0 = 0"
  by (induction k) simp_all

lemma crc_shift_pow_0x100: "(crc_shift ^^ 8) 0x100 = 0x1021"
  by code_simp

lemma crc_shift_byte:
  assumes "n < 128"
  shows "crc_shift (push_bit 8 (of_nat n)) = push_bit 8 (of_nat (2 * n))"
proof -
  have "\<not> bit (of_nat n :: u16) 7"
    using assms by (simp add: bit_of_nat_iff bit_iff_odd [of n] possible_bit_word del: bit_word_iff_drop_bit_and)
  then have "\<not> bit (push_bit 8 (of_nat n) :: u16) 15"
    by (simp add: bit_push_bit_iff)
  then show ?thesis
    by (simp add: crc_shift_def push_bit_eq_mult algebra_simps)
qed

lemma push_bit_odd: "push_bit 8 (of_nat (2 * m + 1) :: u16) = push_bit 8 (of_nat (2 * m)) XOR 0x100"
proof -
  have "(of_nat (2 * m + 1) :: u16) = of_nat (2 * m) XOR 1"
    by (simp add: xor_one_eq)
  then show ?thesis
    by (simp only: push_bit_xor) (simp add: push_bit_eq_mult)
qed

lemma table_entry_nat:
  "n < 256 \<Longrightarrow> ccitt_crc16_table ! n = (crc_shift ^^ 8) (push_bit 8 (of_nat n))"
proof (induction n rule: less_induct)
  case (less n)
  have even: "ccitt_crc16_table ! (2 * m) = (crc_shift ^^ 8) (push_bit 8 (of_nat (2 * m)))"
    if "2 * m \<le> n" for m
  proof (cases "m = 0")
    case True
    then show ?thesis by (simp add: ccitt_crc16_table_def del: funpow.simps)
  next
    case False
    with that less.prems have m: "m < n" "m < 128" by auto
    then have "ccitt_crc16_table ! (2 * m) = crc_shift ((crc_shift ^^ 8) (push_bit 8 (of_nat m)))"
      using less.IH [of m] less.prems by (simp only: table_recursion)
    then show ?thesis
      using m by (simp only: funpow_swap1 crc_shift_byte)
  qed
  show ?case
  proof (cases "even n")
    case True
    then show ?thesis using even [of "n div 2"] by simp
  next
    case False
    then obtain m where n: "n = 2 * m + 1" by (rule oddE)
    with less.prems have "m < 128" by simp
    then show ?thesis
      using even [of m] n
      by (simp only: table_recursion push_bit_odd crc_shift_pow_xor crc_shift_pow_0x100)
  qed
qed

lemma table_entry: "ccitt_crc16_table ! unat b = (crc_shift ^^ 8) (push_bit 8 (ucast (b :: u8)))"
  using table_entry_nat [of "unat b"] unsigned_less [of b, where 'a = nat] by simp

section \<open>The register of the code is the bitwise one\<close>

text \<open>Shift in one message bit; the bits of a byte leave the radio least significant first.\<close>

definition crc_bit :: "u16 \<Rightarrow> bool \<Rightarrow> u16" where
  "crc_bit s b = crc_shift (s XOR (if b then 0x8000 else 0))"

definition bits_lsb_first :: "u8 \<Rightarrow> bool list" where
  "bits_lsb_first d = map (bit d) [0..<8]"

definition message_bits :: "u8 list \<Rightarrow> bool list" where
  "message_bits data = concat (map bits_lsb_first data)"

text \<open>Up to 16 message bits as a word, the first in the leading position.\<close>

fun msg_word :: "bool list \<Rightarrow> u16" where
  "msg_word [] = 0"
| "msg_word (b # bs) = (if b then 0x8000 else 0) XOR drop_bit 1 (msg_word bs)"

lemma bit_8000: "bit (0x8000 :: u16) i \<longleftrightarrow> i = 15"
proof -
  have "(0x8000 :: u16) = 2 ^ 15" by simp
  then show ?thesis by (simp only: bit_exp_iff possible_bit_word) auto
qed

lemma bit_msg_word: "bit (msg_word bs) i \<longleftrightarrow> i < 16 \<and> 15 - i < length bs \<and> bs ! (15 - i)"
proof (induction bs arbitrary: i)
  case Nil
  then show ?case by simp
next
  case (Cons b bs)
  have "bit (msg_word (b # bs)) i \<longleftrightarrow> (i = 15 \<and> b) \<noteq> bit (msg_word bs) (1 + i)"
    by (auto simp: bit_xor_iff bit_8000 bit_drop_bit_eq simp del: bit_numeral_word_iff)
  also have "\<dots> \<longleftrightarrow> i < 16 \<and> 15 - i < length (b # bs) \<and> (b # bs) ! (15 - i)"
  proof (cases "i < 15")
    case True
    then have "15 - i = Suc (14 - i)" "15 - (1 + i) = 14 - i" by simp_all
    with True show ?thesis by (simp add: Cons.IH)
  qed (auto simp: Cons.IH)
  finally show ?case .
qed

lemma crc_bits:
  "length bs \<le> 16 \<Longrightarrow> foldl crc_bit s bs = (crc_shift ^^ length bs) (s XOR msg_word bs)"
proof (induction bs arbitrary: s)
  case Nil
  then show ?case by simp
next
  case (Cons b bs)
  let ?b = "if b then 0x8000 else 0 :: u16"
  have "push_bit 1 (drop_bit 1 (msg_word bs)) = msg_word bs"
  proof (rule bit_word_eqI)
    fix i assume "i < LENGTH(16)"
    show "bit (push_bit 1 (drop_bit 1 (msg_word bs))) i = bit (msg_word bs) i"
      using Cons.prems
      by (simp only: bit_push_1 bit_drop_bit_eq o_apply bit_msg_word) (cases i; auto)
  qed
  moreover have "crc_shift (drop_bit 1 (msg_word bs)) = push_bit 1 (drop_bit 1 (msg_word bs))"
    by (simp add: crc_shift_def bit_drop_bit_eq bit_msg_word)
  ultimately have "crc_shift (s XOR msg_word (b # bs)) = crc_bit s b XOR msg_word bs"
    by (simp add: crc_bit_def crc_shift_xor xor.assoc)
  then show ?case
    using Cons by (simp add: funpow_swap1)
qed

lemma msg_word_byte: "msg_word (bits_lsb_first d) = push_bit 8 (ucast (byte_reverse d))"
  by (rule bit_word_eqI)
    (auto simp: bit_msg_word bits_lsb_first_def bit_push_bit_iff byte_reverse_bit
      bit_ucast_iff possible_bit_word)

lemma fcs_step_shift: "fcs_step s d = (crc_shift ^^ 8) (s XOR push_bit 8 (ucast (byte_reverse d)))"
proof -
  have split: "s XOR push_bit 8 (ucast (byte_reverse d)) =
      push_bit 8 (ucast (hi8 s XOR byte_reverse d)) XOR (s AND 0xFF)"
  proof (rule bit_word_eqI)
    fix i assume "i < LENGTH(16)"
    have m: "(0xFF :: u16) = mask 8" by (simp add: mask_eq_exp_minus_1)
    show "bit (s XOR push_bit 8 (ucast (byte_reverse d))) i =
      bit (push_bit 8 (ucast (hi8 s XOR byte_reverse d)) XOR (s AND 0xFF)) i"
      using \<open>i < LENGTH(16)\<close>
      by (auto simp: m bit_simps simp del: bit_numeral_word_iff)
  qed
  have low: "(crc_shift ^^ 8) (s AND 0xFF) = push_bit 8 s"
  proof -
    have m: "(0xFF :: u16) = mask 8" by (simp add: mask_eq_exp_minus_1)
    have "(crc_shift ^^ 8) (s AND mask 8) = push_bit 8 (s AND mask 8)"
      by (rule crc_shift_pow_low) (auto simp: bit_simps)
    also have "\<dots> = push_bit 8 s"
      by (rule bit_word_eqI) (auto simp: bit_simps)
    finally show ?thesis by (simp only: m)
  qed
  show ?thesis
    by (simp only: fcs_step_def Let_def table_entry split crc_shift_pow_xor low xor.commute)
qed

lemma fcs_step_bits: "fcs_step s d = foldl crc_bit s (bits_lsb_first d)"
proof -
  have "length (bits_lsb_first d) = 8" by (simp add: bits_lsb_first_def)
  then show ?thesis
    by (simp only: fcs_step_shift crc_bits msg_word_byte)
qed

lemma fcs_register: "foldl fcs_step s data = foldl crc_bit s (message_bits data)"
  by (induction data arbitrary: s) (simp_all add: message_bits_def fcs_step_bits)

section \<open>The transmitted check sequence\<close>

text \<open>
  The reference as the standard states it, with the register reflected: the polynomial is 0x8408
  and the register shifts right.
\<close>

definition crc_lsb :: "u16 \<Rightarrow> bool \<Rightarrow> u16" where
  "crc_lsb t b = drop_bit 1 t XOR (if bit t 0 \<noteq> b then 0x8408 else 0)"

definition crc_reflected :: "u8 list \<Rightarrow> u16" where
  "crc_reflected data = foldl crc_lsb 0 (message_bits data)"

definition mirrored :: "u16 \<Rightarrow> u16 \<Rightarrow> bool" where
  "mirrored s t \<longleftrightarrow> (\<forall>i<16. bit t i = bit s (15 - i))"

lemma bit_1021: "bit (0x1021 :: u16) i \<longleftrightarrow> i = 0 \<or> i = 5 \<or> i = 12"
proof -
  have e: "(0x1021 :: u16) = 2 ^ 0 OR 2 ^ 5 OR 2 ^ 12" by simp
  show ?thesis by (simp only: e bit_or_iff bit_exp_iff possible_bit_word) auto
qed

lemma bit_8408: "bit (0x8408 :: u16) i \<longleftrightarrow> i = 3 \<or> i = 10 \<or> i = 15"
proof -
  have e: "(0x8408 :: u16) = 2 ^ 3 OR 2 ^ 10 OR 2 ^ 15" by simp
  show ?thesis by (simp only: e bit_or_iff bit_exp_iff possible_bit_word) auto
qed

lemma bit_crc_bit:
  "bit (crc_bit s b) i \<longleftrightarrow>
     (0 < i \<and> i < 16 \<and> bit s (i - 1)) \<noteq> ((bit s 15 \<noteq> b) \<and> (i = 0 \<or> i = 5 \<or> i = 12))"
proof -
  have "bit (s XOR (if b then 0x8000 else 0)) 15 \<longleftrightarrow> bit s 15 \<noteq> b"
    by (auto simp: bit_xor_iff bit_8000 simp del: bit_numeral_word_iff)
  moreover have "bit (push_bit 1 (s XOR (if b then 0x8000 else 0))) i \<longleftrightarrow> 0 < i \<and> i < 16 \<and> bit s (i - 1)"
    by (simp only: bit_push_1) (auto simp: bit_xor_iff bit_8000 simp del: bit_numeral_word_iff)
  ultimately show ?thesis
    unfolding crc_bit_def crc_shift_def
    by (simp only: bit_xor_iff [of "push_bit 1 (s XOR (if b then 0x8000 else 0))"])
      (auto simp: bit_1021 simp del: bit_numeral_word_iff push_bit_numeral_minus_1)
qed

lemma mirrored_step: "mirrored s t \<Longrightarrow> mirrored (crc_bit s b) (crc_lsb t b)"
  unfolding mirrored_def
proof (intro allI impI)
  fix i :: nat
  assume m: "\<forall>i<16. bit t i = bit s (15 - i)" and i: "i < 16"
  have "bit t 0 = bit s 15" using m by simp
  moreover have "bit t (Suc i) = (i < 15 \<and> bit s (14 - i))"
    using m [rule_format, of "Suc i"] bit_imp_le_length [of t "Suc i"] by auto
  ultimately have "bit (crc_lsb t b) i \<longleftrightarrow>
      (i < 15 \<and> bit s (14 - i)) \<noteq> ((bit s 15 \<noteq> b) \<and> (i = 3 \<or> i = 10 \<or> i = 15))"
    by (auto simp: crc_lsb_def bit_xor_iff bit_drop_bit_eq bit_8408 simp del: bit_numeral_word_iff)
  also have "\<dots> \<longleftrightarrow> bit (crc_bit s b) (15 - i)"
    using i by (subst bit_crc_bit) auto
  finally show "bit (crc_lsb t b) i = bit (crc_bit s b) (15 - i)" .
qed

lemma mirrored_foldl: "mirrored s t \<Longrightarrow> mirrored (foldl crc_bit s bs) (foldl crc_lsb t bs)"
  by (induction bs arbitrary: s t) (simp_all add: mirrored_step)

lemma mirrored_0: "mirrored 0 0"
  by (simp add: mirrored_def)

lemma ucast_and_FF: "(ucast ((s :: u16) AND 0xFF) :: u8) = ucast s"
proof -
  have k: "(0xFF :: u16) = mask 8" by (simp add: mask_eq_exp_minus_1)
  show ?thesis by (rule bit_word_eqI) (auto simp: k bit_simps simp del: bit_numeral_word_iff)
qed

lemma mirrored_bytes:
  assumes "mirrored s t"
  shows "byte_reverse (lo8 s) = hi8 t" and "byte_reverse (hi8 s) = lo8 t"
proof -
  show "byte_reverse (lo8 s) = hi8 t"
    using assms by (intro bit_word_eqI)
      (auto simp: byte_reverse_bit mirrored_def bit_ucast_iff bit_drop_bit_eq possible_bit_word)
  show "byte_reverse (hi8 s) = lo8 t"
    using assms by (intro bit_word_eqI)
      (auto simp: byte_reverse_bit mirrored_def bit_ucast_iff bit_drop_bit_eq possible_bit_word)
qed

text \<open>
  C13. The table-driven routine computes the frame check sequence of IEEE 802.15.4: its value is
  the CRC of the bits of the message in transmission order, divided one at a time by the CCITT
  polynomial in the reflected register, the low byte of the register in the high byte of the result.
\<close>

theorem ieee802154_fcs_calc_correct:
  "ieee802154_fcs_calc data =
     push_bit 8 (ucast (lo8 (crc_reflected data))) OR ucast (hi8 (crc_reflected data))"
proof -
  let ?s = "foldl fcs_step 0 data"
  have m: "mirrored ?s (crc_reflected data)"
    by (simp add: fcs_register crc_reflected_def mirrored_foldl mirrored_0)
  show ?thesis
    unfolding ieee802154_fcs_calc_def Let_def ucast_and_FF mirrored_bytes [OF m] by (rule refl)
qed

section \<open>Burst errors\<close>

lemma crc_shift_eq_0: "crc_shift s = 0 \<longleftrightarrow> s = 0"
proof
  assume z: "crc_shift s = 0"
  have nb: "\<not> bit s 15"
  proof
    assume "bit s 15"
    then have "bit (crc_shift s) 0"
      by (simp only: crc_shift_def bit_xor_iff bit_push_1) simp
    with z show False by simp
  qed
  show "s = 0"
  proof (rule bit_word_eqI)
    fix i assume "i < LENGTH(16)"
    show "bit s i = bit 0 i"
    proof (cases "i = 15")
      case False
      with \<open>i < LENGTH(16)\<close> have "bit (push_bit 1 s) (Suc i) = bit s i"
        by (subst bit_push_1) simp
      with z nb show ?thesis by (simp add: crc_shift_def)
    qed (use nb in simp)
  qed
qed (simp)

lemma crc_shift_pow_eq_0: "(crc_shift ^^ k) s = 0 \<longleftrightarrow> s = 0"
  by (induction k) (simp_all add: crc_shift_eq_0)

lemma crc_bit_linear: "crc_bit (s XOR s') (b \<noteq> b') = crc_bit s b XOR crc_bit s' b'"
proof -
  have "(s XOR s') XOR (if b \<noteq> b' then 0x8000 else 0) =
      (s XOR (if b then 0x8000 else 0)) XOR (s' XOR (if b' then 0x8000 else 0))"
    by (cases b; cases b') (simp_all add: ac_simps)
  then show ?thesis by (simp only: crc_bit_def crc_shift_xor)
qed

lemma crc_linear:
  "length bs = length es \<Longrightarrow>
   foldl crc_bit (s XOR e) (map2 (\<noteq>) bs es) = foldl crc_bit s bs XOR foldl crc_bit e es"
proof (induction bs es arbitrary: s e rule: list_induct2)
  case (Cons b bs x es)
  show ?case
    by (simp only: list.simps zip_Cons_Cons prod.case foldl_Cons crc_bit_linear Cons.IH)
qed simp

lemma crc_zeros: "foldl crc_bit s (replicate n False) = (crc_shift ^^ n) s"
  by (induction n arbitrary: s) (simp_all add: crc_bit_def funpow_swap1)

lemma msg_word_eq_0: "length e \<le> 16 \<Longrightarrow> msg_word e = 0 \<longleftrightarrow> True \<notin> set e"
proof
  assume l: "length e \<le> 16" and z: "msg_word e = 0"
  show "True \<notin> set e"
  proof
    assume "True \<in> set e"
    then obtain i where i: "i < length e" "e ! i" by (auto simp: in_set_conv_nth)
    with l have "bit (msg_word e) (15 - i)" by (auto simp: bit_msg_word)
    with z show False by simp
  qed
next
  assume "True \<notin> set e"
  then show "msg_word e = 0"
    by (intro bit_word_eqI) (auto simp: bit_msg_word in_set_conv_nth)
qed

lemma xor_cancel: "x XOR y = x XOR (z :: u16) \<Longrightarrow> y = z"
  by (metis xor.assoc xor.left_neutral xor_self_eq)

lemma burst_register:
  assumes "length e \<le> 16" and "True \<in> set e"
  shows "foldl crc_bit 0 (replicate m False @ e @ replicate n False) \<noteq> 0"
  using assms by (simp add: crc_zeros crc_bits crc_shift_pow_eq_0 msg_word_eq_0)

lemma length_message_bits [simp]: "length (message_bits data) = 8 * length data"
  by (induction data) (simp_all add: message_bits_def bits_lsb_first_def)

lemma fcs_calc_join:
  "ieee802154_fcs_calc data =
     join16 (byte_reverse (hi8 (foldl fcs_step 0 data)))
            (byte_reverse (ucast (foldl fcs_step 0 data AND 0xFF)))"
  by (simp only: ieee802154_fcs_calc_def Let_def join16_or)

lemma fcs_calc_inj:
  assumes "ieee802154_fcs_calc a = ieee802154_fcs_calc b"
  shows "foldl fcs_step 0 a = foldl fcs_step 0 b"
proof -
  let ?s = "foldl fcs_step 0 a" and ?t = "foldl fcs_step 0 b"
  have "join16 (byte_reverse (hi8 ?s)) (byte_reverse (lo8 ?s)) =
        join16 (byte_reverse (hi8 ?t)) (byte_reverse (lo8 ?t))"
    using assms by (simp only: fcs_calc_join ucast_and_FF)
  then have "byte_reverse (hi8 ?s) = byte_reverse (hi8 ?t)" "byte_reverse (lo8 ?s) = byte_reverse (lo8 ?t)"
    by (metis split_join16(1)) (metis split_join16(2) \<open>join16 _ _ = _\<close>)
  then have "hi8 ?s = hi8 ?t" "lo8 ?s = lo8 ?t"
    by (metis byte_reverse_twice)+
  then show ?thesis by (metis join16_split)
qed

text \<open>
  Every burst of at most 16 bits is detected: a frame whose bits, in transmission order,
  differ from those of another of the same length only inside a window \<open>e\<close> of at most 16 bits
  has a different check sequence.
\<close>

theorem ieee802154_fcs_burst:
  assumes "message_bits data' = map2 (\<noteq>) (message_bits data) (replicate m False @ e @ replicate n False)"
    and "m + length e + n = 8 * length data" and "length e \<le> 16" and "True \<in> set e"
  shows "ieee802154_fcs_calc data' \<noteq> ieee802154_fcs_calc data"
proof
  let ?e = "replicate m False @ e @ replicate n False"
  assume "ieee802154_fcs_calc data' = ieee802154_fcs_calc data"
  then have "foldl fcs_step 0 data' = foldl fcs_step 0 data"
    by (rule fcs_calc_inj)
  then have "foldl crc_bit 0 (message_bits data') = foldl crc_bit 0 (message_bits data)"
    by (simp only: fcs_register)
  moreover have "foldl crc_bit 0 (message_bits data') = foldl crc_bit 0 (message_bits data) XOR foldl crc_bit 0 ?e"
    using crc_linear [of "message_bits data" ?e 0 0] assms(2)
    by (simp only: assms(1) length_message_bits length_append length_replicate xor.left_neutral add.assoc)
  ultimately have "foldl crc_bit 0 (message_bits data) XOR foldl crc_bit 0 ?e =
      foldl crc_bit 0 (message_bits data) XOR 0"
    by (simp only: xor.right_neutral)
  then have "foldl crc_bit 0 ?e = 0"
    by (rule xor_cancel)
  with burst_register [OF assms(3, 4)] show False by blast
qed

theorem ieee802154_fcs_burst_witness:
  "ieee802154_fcs_calc [1, 0x36, 7] \<noteq> ieee802154_fcs_calc [1, 2, 7]"
  by (rule ieee802154_fcs_burst [where m = 10 and n = 10 and e = "[True, False, True, True]"])
    (code_simp, simp_all)

end
