(* ===== verification/Node.thy ===== *)
theory Node
  imports Packet
begin

text \<open>
  The parameters of a node, \<^verbatim>\<open>uNET/node.c\<close>: ten bytes addressed by an enumeration, two of them
  forming each 16-bit value, and the 64-bit addresses.  Writing an address byte also writes the
  radio's address register, whose last values are kept as \<open>radio_addr\<close>.
\<close>

abbreviation (input) NODE_CHANNEL :: nat where "NODE_CHANNEL \<equiv> 0"
abbreviation (input) NODE_DISTANCE :: nat where "NODE_DISTANCE \<equiv> 1"
abbreviation (input) NODE_ADDR16 :: nat where "NODE_ADDR16 \<equiv> 2"
abbreviation (input) NODE_ADDR16H :: nat where "NODE_ADDR16H \<equiv> 2"
abbreviation (input) NODE_ADDR16L :: nat where "NODE_ADDR16L \<equiv> 3"
abbreviation (input) NODE_PANID16 :: nat where "NODE_PANID16 \<equiv> 4"
abbreviation (input) NODE_PANID16H :: nat where "NODE_PANID16H \<equiv> 4"
abbreviation (input) NODE_PANID16L :: nat where "NODE_PANID16L \<equiv> 5"
abbreviation (input) NODE_PARENTINDEX :: nat where "NODE_PARENTINDEX \<equiv> 6"
abbreviation (input) NODE_PARENTFAILURES :: nat where "NODE_PARENTFAILURES \<equiv> 7"
abbreviation (input) NODE_NEIGHBOR_COUNT :: nat where "NODE_NEIGHBOR_COUNT \<equiv> 8"
abbreviation (input) NODE_SEQ_NUM :: nat where "NODE_SEQ_NUM \<equiv> 9"
abbreviation (input) NODE_PARAM_MAX :: nat where "NODE_PARAM_MAX \<equiv> 10"

record node =
  node_param :: "u8 list"
  Addr64 :: "u8 list"
  PANId64 :: "u8 list"
  radio_addr :: "nat \<Rightarrow> u8"

definition node_ok :: "node \<Rightarrow> bool" where
  "node_ok n \<longleftrightarrow> length (node_param n) = NODE_PARAM_MAX \<and> length (Addr64 n) = 8 \<and> length (PANId64 n) = 8"

definition node_data_init :: "node \<Rightarrow> node" where
  "node_data_init n = n\<lparr>node_param := replicate NODE_PARAM_MAX 0\<rparr>"

definition node_data_get :: "nat \<Rightarrow> node \<Rightarrow> u8" where
  "node_data_get opt n = node_param n ! opt"

definition node_data_set :: "nat \<Rightarrow> u8 \<Rightarrow> node \<Rightarrow> node option" where
  "node_data_set opt val n =
     (if opt < NODE_PARAM_MAX then
        (let n1 = n\<lparr>node_param := (node_param n)[opt := val]\<rparr>
         in Some (if opt \<ge> NODE_ADDR16H \<and> opt \<le> NODE_PANID16L
                  then n1\<lparr>radio_addr := (radio_addr n1)(opt := val)\<rparr> else n1))
      else None)"

definition node_data_get_16b :: "nat \<Rightarrow> node \<Rightarrow> u16" where
  "node_data_get_16b opt n = push_bit 8 (ucast (node_data_get opt n)) + ucast (node_data_get (opt + 1) n)"

text \<open>\<^verbatim>\<open>HTONS\<close> of a little-endian target.\<close>

definition HTONS :: "u16 \<Rightarrow> u16" where
  "HTONS n = push_bit 8 n OR drop_bit 8 n"

definition node_data_set_16b :: "nat \<Rightarrow> u16 \<Rightarrow> node \<Rightarrow> node option" where
  "node_data_set_16b opt val0 n =
     (if opt + 1 < NODE_PARAM_MAX then
        (let val = HTONS val0;
             n1 = n\<lparr>node_param := (node_param n)[opt := hi8 val]\<rparr>
         in Some (n1\<lparr>node_param := (node_param n1)[opt + 1 := lo8 val]\<rparr>))
      else None)"

definition node_pan_id64_get :: "node \<Rightarrow> u8 list" where
  "node_pan_id64_get n = PANId64 n"

definition node_pan_id64_set :: "u8 list \<Rightarrow> node \<Rightarrow> node" where
  "node_pan_id64_set val n = n\<lparr>PANId64 := take 8 val\<rparr>"

definition node_pan_id64_init :: "node \<Rightarrow> node" where
  "node_pan_id64_init n = n\<lparr>PANId64 := replicate 8 0xFF\<rparr>"

definition node_addr64_get :: "node \<Rightarrow> u8 list" where
  "node_addr64_get n = Addr64 n"

definition node_addr64_set :: "u8 list \<Rightarrow> node \<Rightarrow> node" where
  "node_addr64_set val n = n\<lparr>Addr64 := take 8 val\<rparr>"

definition node_addr64_init :: "node \<Rightarrow> node" where
  "node_addr64_init n = n\<lparr>Addr64 := replicate 8 0xFF\<rparr>"

definition node_seq_num_get_next :: "node \<Rightarrow> u8 \<times> node" where
  "node_seq_num_get_next n =
     (let n1 = n\<lparr>node_param := (node_param n)[NODE_SEQ_NUM := node_param n ! NODE_SEQ_NUM + 1]\<rparr>;
          n2 = (if node_param n1 ! NODE_SEQ_NUM = 0
                then n1\<lparr>node_param := (node_param n1)[NODE_SEQ_NUM := 1]\<rparr> else n1)
      in (node_param n2 ! NODE_SEQ_NUM, n2))"

definition node_seq_num_get :: "node \<Rightarrow> u8" where
  "node_seq_num_get n = node_param n ! NODE_SEQ_NUM"

section \<open>Lemmas\<close>

lemma node_data_set_ok:
  assumes "node_ok n" and "opt < 10"
  shows "\<exists>n'. node_data_set opt v n = Some n' \<and> node_ok n' \<and>
           (\<forall>i. node_data_get i n' = (if i = opt then v else node_data_get i n))"
  using assms by (auto simp: node_data_set_def node_ok_def node_data_get_def Let_def nth_upd)

lemma node_data_get_16b: "node_data_get_16b opt n = join16 (node_data_get opt n) (node_data_get (opt + 1) n)"
  by (simp add: node_data_get_16b_def join16_def)

text \<open>
  A value written with \<open>node_data_set_16b\<close> is not the one \<open>node_data_get_16b\<close> returns: the
  writer swaps the bytes on a little-endian target and the reader does not.
\<close>

lemma HTONS_join: "HTONS (join16 h l) = join16 l h"
proof (rule bit_word_eqI)
  fix i assume "i < LENGTH(16)"
  show "bit (HTONS (join16 h l)) i = bit (join16 l h) i"
    unfolding join16_or HTONS_def
    by (auto simp: bit_simps dest: bit_imp_le_length)
qed

lemma node_data_16b_swaps:
  assumes "node_ok n" and "opt + 1 < 10"
  shows "\<exists>n'. node_data_set_16b opt (join16 h l) n = Some n' \<and> node_data_get_16b opt n' = join16 l h"
  using assms
  by (simp add: node_data_set_16b_def Let_def node_data_get_16b node_data_get_def node_ok_def HTONS_join)

definition sample_node :: node where
  "sample_node = \<lparr>node_param = (replicate 10 0)[2 := 0, 3 := 7, 6 := 255], Addr64 = replicate 8 1,
     PANId64 = replicate 8 2, radio_addr = (\<lambda>i. 0)\<rparr>"

lemma sample_node_ok: "node_ok sample_node"
  by (simp add: node_ok_def sample_node_def)

text \<open>
  Sequence numbers of a node are never zero and do not repeat within 255 calls: from
  \<open>k\<close> in 1..255 the next one is \<open>k mod 255 + 1\<close>.
\<close>

theorem node_seq_num_cycle:
  assumes "node_ok n"
  shows "unat (fst (node_seq_num_get_next n)) =
           (if node_seq_num_get n = 0 then 1 else unat (node_seq_num_get n) mod 255 + 1) \<and>
         fst (node_seq_num_get_next n) \<noteq> 0 \<and>
         node_seq_num_get (snd (node_seq_num_get_next n)) = fst (node_seq_num_get_next n) \<and>
         (\<forall>i. i \<noteq> NODE_SEQ_NUM \<longrightarrow>
            node_data_get i (snd (node_seq_num_get_next n)) = node_data_get i n)"
proof -
  let ?s = "node_param n ! 9"
  have len: "length (node_param n) = 10"
    using assms by (simp add: node_ok_def)
  have b: "unat ?s < 256"
    using unsigned_less [of ?s, where 'a = nat] by simp
  consider "unat ?s = 255" | "unat ?s < 255" using b by linarith
  then show ?thesis
  proof cases
    case 1
    then have "?s = 255" by (simp add: word_unat_eq_iff)
    then show ?thesis
      using len by (simp add: node_seq_num_get_next_def Let_def node_seq_num_get_def node_data_get_def)
  next
    case 2
    then have s: "unat (?s + 1) = Suc (unat ?s)" by (rule u8_Suc)
    then have "?s + 1 \<noteq> 0" by (metis nat.distinct(1) unat_0)
    then show ?thesis
      using len 2 s
      by (auto simp: node_seq_num_get_next_def Let_def node_seq_num_get_def node_data_get_def)
  qed
qed

theorem node_seq_num_cycle_witness:
  "unat (fst (node_seq_num_get_next (sample_node\<lparr>node_param := (node_param sample_node)[9 := 255]\<rparr>))) = 1"
proof -
  let ?n = "sample_node\<lparr>node_param := (node_param sample_node)[9 := 255]\<rparr>"
  have "node_ok ?n" by (simp add: node_ok_def sample_node_def)
  from node_seq_num_cycle [OF this] show ?thesis
    by (simp add: node_seq_num_get_def sample_node_def)
qed

end
