(* ===== verification/IEEE802154.thy ===== *)
theory IEEE802154
  imports Node
begin

text \<open>
  The MAC layer of uNET, \<^verbatim>\<open>uNET/ieee802154.c\<close>: the frame control field, the header written in
  front of every frame and the acceptance test of an incoming one.  The frame check sequence is
  in the theory \<open>FCS\<close>.
\<close>

section \<open>Bit fields\<close>

definition BitFieldGet :: "u8 \<Rightarrow> u8 \<Rightarrow> nat \<Rightarrow> u8" where
  "BitFieldGet var msk shift = drop_bit shift (var AND msk)"

definition BitFieldSet :: "u8 \<Rightarrow> u8 \<Rightarrow> nat \<Rightarrow> u8 \<Rightarrow> u8" where
  "BitFieldSet var msk shift val = (var AND NOT msk) OR (push_bit shift val AND msk)"

text \<open>
  The frame control union as its two bytes; the members are the bit fields of the C structure,
  allocated from the least significant bit.
\<close>

type_synonym frame_control = "u8 \<times> u8"

definition FrameType :: "frame_control \<Rightarrow> u8" where "FrameType fc = BitFieldGet (fst fc) 0x07 0"
definition SecurityEnabled :: "frame_control \<Rightarrow> u8" where "SecurityEnabled fc = BitFieldGet (fst fc) 0x08 3"
definition ACKRequest :: "frame_control \<Rightarrow> u8" where "ACKRequest fc = BitFieldGet (fst fc) 0x20 5"
definition IntraPAN :: "frame_control \<Rightarrow> u8" where "IntraPAN fc = BitFieldGet (fst fc) 0x40 6"
definition DstAddrMode :: "frame_control \<Rightarrow> u8" where "DstAddrMode fc = BitFieldGet (snd fc) 0x0C 2"
definition SrcAddrMode :: "frame_control \<Rightarrow> u8" where "SrcAddrMode fc = BitFieldGet (snd fc) 0xC0 6"

abbreviation (input) DATA_FRAME :: u8 where "DATA_FRAME \<equiv> 1"
abbreviation (input) ADDR16_MODE :: u8 where "ADDR16_MODE \<equiv> 2"
abbreviation (input) ACK_REQ_FALSE :: u8 where "ACK_REQ_FALSE \<equiv> 0"
abbreviation (input) ACK_REQ_TRUE :: u8 where "ACK_REQ_TRUE \<equiv> 1"
abbreviation (input) UNET_LLC_PROTO_NUMBER :: u8 where "UNET_LLC_PROTO_NUMBER \<equiv> 1"

definition frame_control :: "packet \<Rightarrow> frame_control" where
  "frame_control p = (byte p MAC_FRAME_CTRL, byte p (MAC_FRAME_CTRL + 1))"

section \<open>Headers\<close>

definition ieee802154_packet_length_get :: "packet \<Rightarrow> u8" where
  "ieee802154_packet_length_get p = byte p PHY_PKT_SIZE"

definition ieee802154_header_length_get :: "packet \<Rightarrow> u8" where
  "ieee802154_header_length_get p = byte p MAC_HEADER_SIZE"

definition ieee802154_header_set :: "u8 \<Rightarrow> u8 \<Rightarrow> node \<Rightarrow> packet \<Rightarrow> packet" where
  "ieee802154_header_set type ack_req n p0 =
     (let fc0 = BitFieldSet (BitFieldSet (BitFieldSet 0 0x07 0 type) 0x20 5 ack_req) 0x40 6 1;
          fc1 = BitFieldSet (BitFieldSet 0 0xC0 6 ADDR16_MODE) 0x0C 2 ADDR16_MODE;
          p1 = put MAC_FRAME_CTRL fc0 p0;
          p2 = put (MAC_FRAME_CTRL + 1) fc1 p1;
          p3 = put MAC_SEQ_NUM (packet_info_get PKTINFO_SEQNUM p2) p2;
          p4 = put MAC_PANID_16 (node_data_get NODE_PANID16L n) p3;
          p5 = put (MAC_PANID_16 + 1) (node_data_get NODE_PANID16H n) p4;
          p6 = put MAC_DEST_16 (packet_info_get PKTINFO_DEST16L p5) p5;
          p7 = put (MAC_DEST_16 + 1) (packet_info_get PKTINFO_DEST16H p6) p6;
          p8 = put MAC_SRC_16 (node_data_get NODE_ADDR16L n) p7;
          p9 = put (MAC_SRC_16 + 1) (node_data_get NODE_ADDR16H n) p8;
          p10 = put MAC_HEADER_SIZE (of_nat UNET_MAC_HEADER_SIZE) p9
      in put PHY_PKT_SIZE (packet_info_get PKTINFO_SIZE p10) p10)"

text \<open>
  The tests an incoming frame must pass before it reaches the router; \<open>crc\<close> is the radio's
  answer to \<^verbatim>\<open>UNET_RADIO.get(CRC, &crc)\<close> (\<^verbatim>\<open>RADIO_AUTOCRC\<close> is TRUE).
\<close>

definition ieee802154_accepts :: "bool \<Rightarrow> packet \<Rightarrow> bool" where
  "ieee802154_accepts crc p =
     (let fc = frame_control p in
      if FrameType fc \<noteq> DATA_FRAME then False
      else if SrcAddrMode fc \<noteq> ADDR16_MODE \<or> DstAddrMode fc \<noteq> ADDR16_MODE then False
      else if SecurityEnabled fc = 1 then False
      else if \<not> crc then False
      else if byte p LLC_PROTO \<noteq> UNET_LLC_PROTO_NUMBER then False
      else True)"

text \<open>
  What the input function notes about an accepted frame; \<open>duplicated\<close> is the answer of
  \<open>link_packet_is_duplicated\<close>, asked when the sender wants an acknowledgement.
\<close>

definition ieee802154_note_input :: "bool \<Rightarrow> packet \<Rightarrow> packet" where
  "ieee802154_note_input duplicated p =
     (let p1 = put_info PKTINFO_SEQNUM (byte p MAC_SEQ_NUM) p;
          p2 = put_info PKTINFO_SRC16H (byte p (MAC_SRC_16 + 1)) p1;
          p3 = put_info PKTINFO_SRC16L (byte p MAC_SRC_16) p2;
          p4 = put_info PKTINFO_DUPLICATED 0 p3
      in if ACKRequest (frame_control p) = 1 \<and> duplicated
         then put_info PKTINFO_DUPLICATED 1 p4 else p4)"

section \<open>What a receiver reads in a frame that was sent\<close>

lemma frame_control_header_set:
  assumes "packet_ok p"
  shows "frame_control (ieee802154_header_set type ack n p) =
    (BitFieldSet (BitFieldSet (BitFieldSet 0 0x07 0 type) 0x20 5 ack) 0x40 6 1,
     BitFieldSet (BitFieldSet 0 0xC0 6 ADDR16_MODE) 0x0C 2 ADDR16_MODE)"
  using assms by (simp add: frame_control_def ieee802154_header_set_def Let_def byte_put packet_ok_def)

lemma header_set_bytes:
  fixes type ack n p q
  defines "q \<equiv> ieee802154_header_set type ack n p"
  assumes "packet_ok p"
  shows "byte q MAC_SEQ_NUM = packet_info_get PKTINFO_SEQNUM p"
    and "byte q MAC_PANID_16 = node_data_get NODE_PANID16L n" and "byte q 6 = node_data_get NODE_PANID16H n"
    and "byte q MAC_DEST_16 = packet_info_get PKTINFO_DEST16L p" and "byte q 8 = packet_info_get PKTINFO_DEST16H p"
    and "byte q MAC_SRC_16 = node_data_get NODE_ADDR16L n" and "byte q 10 = node_data_get NODE_ADDR16H n"
    and "byte q PHY_PKT_SIZE = packet_info_get PKTINFO_SIZE p"
    and "11 \<le> i \<Longrightarrow> byte q i = byte p i"
  using assms(2)
  by (simp_all add: q_def ieee802154_header_set_def Let_def byte_put packet_ok_def packet_info_get_def)

lemma header_set_sel [simp]:
  "info (ieee802154_header_set type ack n p) = info p" "state (ieee802154_header_set type ack n p) = state p"
  "packet_ok (ieee802154_header_set type ack n p) = packet_ok p"
  by (simp_all add: ieee802154_header_set_def Let_def)

lemma fields_written:
  fixes ack fc
  assumes "ack = 0 \<or> ack = 1"
  defines "fc \<equiv> (BitFieldSet (BitFieldSet (BitFieldSet 0 0x07 0 DATA_FRAME) 0x20 5 ack) 0x40 6 1,
                 BitFieldSet (BitFieldSet 0 0xC0 6 ADDR16_MODE) 0x0C 2 ADDR16_MODE)"
  shows "FrameType fc = DATA_FRAME" and "SrcAddrMode fc = ADDR16_MODE" and "DstAddrMode fc = ADDR16_MODE"
    and "SecurityEnabled fc = 0" and "ACKRequest fc = ack" and "IntraPAN fc = 1"
proof -
  have e: "DATA_FRAME = (1 :: u8)" by simp
  show "FrameType fc = DATA_FRAME" "SrcAddrMode fc = ADDR16_MODE" "DstAddrMode fc = ADDR16_MODE"
    "SecurityEnabled fc = 0" "ACKRequest fc = ack" "IntraPAN fc = 1"
    using assms(1) unfolding fc_def
    by (elim disjE; simp only:; code_simp)+
qed

text \<open>
  A data frame that a node writes is one that a receiver accepts (the radio having found its
  check sequence right and the LLC byte being the one of the network layer), and the receiver
  notes the sender's address, its sequence number and its wish for an acknowledgement; the frame
  is marked duplicated only when an acknowledgement was asked for.
\<close>

theorem ieee802154_frame_roundtrip:
  assumes "packet_ok p" and "node_ok n" and "ack = ACK_REQ_FALSE \<or> ack = ACK_REQ_TRUE"
    and "byte p LLC_PROTO = UNET_LLC_PROTO_NUMBER"
    and "packet_ok q" and "bytes q = bytes (ieee802154_header_set DATA_FRAME ack n p)"
  shows "ieee802154_accepts True q \<and> ACKRequest (frame_control q) = ack \<and>
    packet_get_source_addr16 (ieee802154_note_input dup q) = node_data_get_16b NODE_ADDR16 n \<and>
    packet_info_get PKTINFO_SEQNUM (ieee802154_note_input dup q) = packet_info_get PKTINFO_SEQNUM p \<and>
    packet_info_get PKTINFO_DUPLICATED (ieee802154_note_input dup q) =
      (if ack = ACK_REQ_TRUE \<and> dup then 1 else 0)"
proof -
  have fc: "frame_control q = frame_control (ieee802154_header_set DATA_FRAME ack n p)"
    by (simp add: frame_control_def assms(6))
  note f = fields_written [OF assms(3)]
  note h = header_set_bytes [OF assms(1), where type = DATA_FRAME and ack = ack and n = n]
  have a: "ieee802154_accepts True q"
    using assms(4) h(9) [of 11]
    by (simp add: ieee802154_accepts_def fc frame_control_header_set [OF assms(1)] f assms(6) Let_def
        del: One_nat_def)
  have k: "ACKRequest (frame_control q) = ack"
    by (simp only: fc frame_control_header_set [OF assms(1)] f)
  have l: "length (info q) = 12" using assms(5) by (simp add: packet_ok_def)
  show ?thesis
    using a k h l
    by (simp add: ieee802154_note_input_def Let_def packet_get_source_addr16_def info_put assms(6)
        node_data_get_16b)
qed

theorem ieee802154_frame_roundtrip_witness:
  "ieee802154_accepts True (ieee802154_header_set DATA_FRAME ACK_REQ_TRUE sample_node sample_packet) \<and>
   packet_info_get PKTINFO_DUPLICATED (ieee802154_note_input True
     (ieee802154_header_set DATA_FRAME ACK_REQ_TRUE sample_node sample_packet)) = 1"
proof -
  have "byte sample_packet LLC_PROTO = UNET_LLC_PROTO_NUMBER" by (simp add: sample_packet_def)
  from ieee802154_frame_roundtrip [OF sample_packet_ok sample_node_ok _ this, of ACK_REQ_TRUE
      "ieee802154_header_set DATA_FRAME ACK_REQ_TRUE sample_node sample_packet" True]
  show ?thesis by (simp add: sample_packet_ok)
qed

end
