(* ===== verification/Net_State.thy ===== *)
theory Net_State
  imports IEEE802154
begin

text \<open>
  The state of the uNET stack: the globals of \<^verbatim>\<open>uNET/link.c\<close>, \<^verbatim>\<open>uNET/unet_router.c\<close> and
  \<^verbatim>\<open>uNET/unet_core.c\<close> as one record that every operation takes and returns.  A semaphore of the
  stack is a pointer that a task creates at its start: \<open>created\<close> says which pointers are not NULL,
  and \<open>posted\<close> is the history of \<open>OSSemPost\<close> calls.  Posting a NULL pointer, a
  \<^verbatim>\<open>REQUIRE_FOREVER\<close> that fails and an index outside an array are \<open>None\<close>.  The two builds of the
  stack (\<^verbatim>\<open>UNET_DEVICE_TYPE\<close>) are the argument \<open>dev\<close> of the operations they differ in.
\<close>

datatype device = PAN_COORDINATOR | ROUTER

datatype signal =
    Radio_RX_Event | Radio_TX_Event | Link_Packet_TX_Event
  | Router_Down_Ack_Request | Router_Down_Route_Request | Router_Down_Ack_Received
  | Router_Up_Ack_Request | Router_Up_Route_Request | Router_Up_Ack_Received

datatype counter =
    apptxed | apprxed | netapptx | netapprx | duplink | routed | dupnet | routdrop | txed | rxed
  | txfailed | txnacked | txmaxretries | chkerr | overbuf | dropped | corrupted | radiotx | radiorx
  | radiocol | radionack

text \<open>One entry of the neighbour table; of the status bits the stack uses two.\<close>

record neighbour =
  Addr_16b :: u16
  NeighborRSSI :: u8
  Symmetric :: bool
  Active :: bool
  NeighborMyRSSI :: u8
  NeighborLQI :: u8
  NeighborLastID :: u8
  NeighborDistance :: u8

record route =
  next_hop :: u16
  dest_addr64 :: "u8 list"

record net =
  node_data :: node
  unet_neighbourhood :: "neighbour list"
  link_pkt :: packet
  ParentNeighborID :: u16
  ParentRSSI :: u16
  NeighborTable :: u16
  NeighborLinkPacketTimeCnt :: u8
  just_reset :: bool
  link_reset_cnt :: u8
  entry_index :: u16
  unet_routing_table_up :: "route list"
  packet_up :: packet
  packet_down :: packet
  created :: "signal \<Rightarrow> bool"
  posted :: "signal list"
  UNET_NodeStat :: "counter \<Rightarrow> u16"
  UNET_NodeStat_Ctrl :: bool
  last_rx_sequences :: "u8 list"
  last_rx_seq_idx :: u8

abbreviation (input) NEIGHBOURHOOD_SIZE :: nat where "NEIGHBOURHOOD_SIZE \<equiv> 8"
abbreviation (input) RTABLE_UP_ENTRIES_MAX_NUM :: nat where "RTABLE_UP_ENTRIES_MAX_NUM \<equiv> 100"
abbreviation (input) MAX_SEQUENCES_NUM :: nat where "MAX_SEQUENCES_NUM \<equiv> 128"
abbreviation (input) NO_PARENT :: u8 where "NO_PARENT \<equiv> 255"
abbreviation (input) NO_ROUTE_TO_BASESTATION :: u8 where "NO_ROUTE_TO_BASESTATION \<equiv> 255"
abbreviation (input) ROUTE_TO_BASESTATION_LOST :: u8 where "ROUTE_TO_BASESTATION_LOST \<equiv> 254"
abbreviation (input) RSSI_THRESHOLD :: u8 where "RSSI_THRESHOLD \<equiv> 3"

definition NODE_DISTANCE_INIT :: "device \<Rightarrow> u8" where
  "NODE_DISTANCE_INIT dev = (case dev of PAN_COORDINATOR \<Rightarrow> 0 | ROUTER \<Rightarrow> 0xFF)"

section \<open>Well-formed states\<close>

text \<open>
  The sizes of the arrays; the parent index is in the table or \<^verbatim>\<open>NO_PARENT\<close>; no address stands
  twice in the neighbour table.
\<close>

definition addresses_distinct :: "neighbour list \<Rightarrow> bool" where
  "addresses_distinct ns \<longleftrightarrow>
     (\<forall>i < length ns. \<forall>j < length ns. i \<noteq> j \<and> Addr_16b (ns ! i) \<noteq> UNUSED_ADDR \<longrightarrow>
        Addr_16b (ns ! i) \<noteq> Addr_16b (ns ! j))"

definition parent_index_ok :: "node \<Rightarrow> bool" where
  "parent_index_ok n \<longleftrightarrow> node_data_get NODE_PARENTINDEX n = NO_PARENT \<or>
     unat (node_data_get NODE_PARENTINDEX n) < NEIGHBOURHOOD_SIZE"

definition net_ok :: "net \<Rightarrow> bool" where
  "net_ok s \<longleftrightarrow> node_ok (node_data s) \<and> parent_index_ok (node_data s) \<and>
     length (unet_neighbourhood s) = NEIGHBOURHOOD_SIZE \<and> addresses_distinct (unet_neighbourhood s) \<and>
     packet_ok (link_pkt s) \<and> packet_ok (packet_up s) \<and> packet_ok (packet_down s) \<and>
     length (unet_routing_table_up s) = RTABLE_UP_ENTRIES_MAX_NUM \<and>
     unat (entry_index s) < RTABLE_UP_ENTRIES_MAX_NUM \<and>
     length (last_rx_sequences s) = MAX_SEQUENCES_NUM"

lemma net_okD:
  assumes "net_ok s"
  shows "node_ok (node_data s)" "parent_index_ok (node_data s)" "length (unet_neighbourhood s) = 8"
    "addresses_distinct (unet_neighbourhood s)" "packet_ok (link_pkt s)" "packet_ok (packet_up s)"
    "packet_ok (packet_down s)" "length (unet_routing_table_up s) = 100" "unat (entry_index s) < 100"
    "length (last_rx_sequences s) = 128"
  using assms by (simp_all add: net_ok_def)

section \<open>Node parameters, statistics and signals\<close>

definition param :: "nat \<Rightarrow> net \<Rightarrow> u8" where
  "param opt s = node_data_get opt (node_data s)"

definition set_param :: "nat \<Rightarrow> u8 \<Rightarrow> net \<Rightarrow> net" where
  "set_param opt v s =
     (case node_data_set opt v (node_data s) of Some n \<Rightarrow> s\<lparr>node_data := n\<rparr> | None \<Rightarrow> s)"

text \<open>\<^verbatim>\<open>NODESTAT_UPDATE\<close>: a counter that reaches its maximum resets all of them.\<close>

definition NODESTAT_UPDATE :: "counter \<Rightarrow> net \<Rightarrow> net" where
  "NODESTAT_UPDATE x s =
     (if UNET_NodeStat_Ctrl s then
        (let st = (UNET_NodeStat s)(x := UNET_NodeStat s x + 1)
         in s\<lparr>UNET_NodeStat := (if st x = 0xFFFF then (\<lambda>c. 0) else st)\<rparr>)
      else s)"

definition post :: "signal \<Rightarrow> net \<Rightarrow> net option" where
  "post sig s = (if created s sig then Some (s\<lparr>posted := posted s @ [sig]\<rparr>) else None)"

definition post_guarded :: "signal \<Rightarrow> net \<Rightarrow> net" where
  "post_guarded sig s = (if created s sig then s\<lparr>posted := posted s @ [sig]\<rparr> else s)"

definition set_neighbour :: "nat \<Rightarrow> (neighbour \<Rightarrow> neighbour) \<Rightarrow> net \<Rightarrow> net" where
  "set_neighbour i f s = s\<lparr>unet_neighbourhood := (unet_neighbourhood s)[i := f (unet_neighbourhood s ! i)]\<rparr>"

abbreviation nb :: "net \<Rightarrow> nat \<Rightarrow> neighbour" where
  "nb s i \<equiv> unet_neighbourhood s ! i"

lemma param_set_param:
  assumes "node_ok (node_data s)" and "opt < 10"
  shows "param i (set_param opt v s) = (if i = opt then v else param i s)"
    and "node_ok (node_data (set_param opt v s))"
  using node_data_set_ok [OF assms, of v] by (auto simp: param_def set_param_def)

lemma set_param_sel [simp]:
  "unet_neighbourhood (set_param opt v s) = unet_neighbourhood s"
  "link_pkt (set_param opt v s) = link_pkt s"
  "ParentNeighborID (set_param opt v s) = ParentNeighborID s"
  "ParentRSSI (set_param opt v s) = ParentRSSI s"
  "NeighborTable (set_param opt v s) = NeighborTable s"
  "entry_index (set_param opt v s) = entry_index s"
  "unet_routing_table_up (set_param opt v s) = unet_routing_table_up s"
  "packet_up (set_param opt v s) = packet_up s" "packet_down (set_param opt v s) = packet_down s"
  "created (set_param opt v s) = created s" "posted (set_param opt v s) = posted s"
  "last_rx_sequences (set_param opt v s) = last_rx_sequences s"
  by (simp_all add: set_param_def split: option.splits)

lemma NODESTAT_sel [simp]:
  "node_data (NODESTAT_UPDATE x s) = node_data s"
  "unet_neighbourhood (NODESTAT_UPDATE x s) = unet_neighbourhood s"
  "link_pkt (NODESTAT_UPDATE x s) = link_pkt s"
  "ParentNeighborID (NODESTAT_UPDATE x s) = ParentNeighborID s"
  "entry_index (NODESTAT_UPDATE x s) = entry_index s"
  "unet_routing_table_up (NODESTAT_UPDATE x s) = unet_routing_table_up s"
  "packet_up (NODESTAT_UPDATE x s) = packet_up s" "packet_down (NODESTAT_UPDATE x s) = packet_down s"
  "created (NODESTAT_UPDATE x s) = created s" "posted (NODESTAT_UPDATE x s) = posted s"
  "last_rx_sequences (NODESTAT_UPDATE x s) = last_rx_sequences s"
  by (simp_all add: NODESTAT_UPDATE_def Let_def)

lemma net_ok_NODESTAT [simp]: "net_ok (NODESTAT_UPDATE x s) = net_ok s"
  by (simp add: net_ok_def)

lemma net_ok_set_param:
  assumes "net_ok s" and "opt < 10" and "opt = NODE_PARENTINDEX \<longrightarrow> v = NO_PARENT \<or> unat v < 8"
  shows "net_ok (set_param opt v s)"
proof -
  have "parent_index_ok (node_data (set_param opt v s))"
    using assms param_set_param(1) [where s = s and opt = opt and i = NODE_PARENTINDEX and v = v]
    by (auto simp: net_ok_def parent_index_ok_def param_def split: if_splits)
  with assms param_set_param(2) [where s = s and opt = opt and v = v] show ?thesis
    by (simp add: net_ok_def)
qed

section \<open>A node that has just started, for the examples\<close>

definition no_neighbour :: neighbour where
  "no_neighbour = \<lparr>Addr_16b = UNUSED_ADDR, NeighborRSSI = 0, Symmetric = False, Active = False,
     NeighborMyRSSI = 0, NeighborLQI = 0, NeighborLastID = 0, NeighborDistance = NO_ROUTE_TO_BASESTATION\<rparr>"

definition sample_net :: net where
  "sample_net = \<lparr>node_data = sample_node, unet_neighbourhood = replicate 8 no_neighbour,
     link_pkt = sample_packet, ParentNeighborID = UNUSED_ADDR, ParentRSSI = 0, NeighborTable = 0,
     NeighborLinkPacketTimeCnt = 1, just_reset = True, link_reset_cnt = 0, entry_index = 0,
     unet_routing_table_up = replicate 100 \<lparr>next_hop = 0, dest_addr64 = replicate 8 0\<rparr>,
     packet_up = sample_packet, packet_down = sample_packet, created = (\<lambda>sig. True), posted = [],
     UNET_NodeStat = (\<lambda>c. 0), UNET_NodeStat_Ctrl = True,
     last_rx_sequences = replicate 128 0, last_rx_seq_idx = 0\<rparr>"

lemma sample_net_sel [simp]:
  "node_data sample_net = sample_node" "unet_neighbourhood sample_net = replicate 8 no_neighbour"
  "packet_up sample_net = sample_packet" "packet_down sample_net = sample_packet"
  "unet_routing_table_up sample_net = replicate 100 \<lparr>next_hop = 0, dest_addr64 = replicate 8 0\<rparr>"
  "created sample_net sig" "posted sample_net = []" "entry_index sample_net = 0"
  "ParentNeighborID sample_net = UNUSED_ADDR" "NeighborTable sample_net = 0" "link_pkt sample_net = sample_packet"
  by (simp_all add: sample_net_def)

lemma sample_net_ok: "net_ok sample_net"
proof -
  have "parent_index_ok sample_node"
    by (simp add: parent_index_ok_def sample_node_def node_data_get_def)
  then show ?thesis
    by (auto simp: net_ok_def sample_net_def sample_node_ok sample_packet_ok addresses_distinct_def no_neighbour_def)
qed

end
