(* ===== verification/Routing_Table.thy ===== *)
theory Routing_Table
  imports Net_State
begin

text \<open>
  The up-routing table of \<^verbatim>\<open>uNET/unet_router.c\<close>: a ring of a hundred entries searched linearly and
  overwritten in insertion order.  Its contract is that of a finite map of bounded capacity, stated
  as the locale \<open>bounded_map\<close>; as long as at most a hundred destinations are in use the table is
  the map of the last next hop announced for each destination.
\<close>

section \<open>A finite map of bounded capacity\<close>

locale bounded_map =
  fixes empty :: "'t \<Rightarrow> 't"
    and add :: "'v \<Rightarrow> 'k \<Rightarrow> 't \<Rightarrow> 't"
    and lookup :: "'k \<Rightarrow> 't \<Rightarrow> 'v option"
    and holds :: "'t \<Rightarrow> 'k set \<Rightarrow> bool"
    and wf :: "'t \<Rightarrow> bool"
    and valid :: "'k \<Rightarrow> bool"
    and capacity :: nat
  assumes holds_empty: "wf t \<Longrightarrow> holds (empty t) {}"
    and holds_finite: "holds t D \<Longrightarrow> finite D"
    and lookup_empty: "wf t \<Longrightarrow> valid k \<Longrightarrow> lookup k (empty t) = None"
    and holds_add: "holds t D \<Longrightarrow> valid k \<Longrightarrow> k \<in> D \<or> card D < capacity \<Longrightarrow> holds (add v k t) (insert k D)"
    and lookup_add: "holds t D \<Longrightarrow> valid k \<Longrightarrow> k \<in> D \<or> card D < capacity \<Longrightarrow> valid k' \<Longrightarrow>
      lookup k' (add v k t) = (if k' = k then Some v else lookup k' t)"
begin

definition adds :: "('v \<times> 'k) list \<Rightarrow> 't \<Rightarrow> 't" where
  "adds us t = foldl (\<lambda>t (v, k). add v k t) t us"

lemma lookup_adds:
  assumes "holds t D" and "\<And>v k. (v, k) \<in> set us \<Longrightarrow> valid k" and "card (D \<union> snd ` set us) \<le> capacity"
    and "valid k'"
  shows "lookup k' (adds us t) =
    (case map_of (rev (map (\<lambda>(v, k). (k, v)) us)) k' of Some v \<Rightarrow> Some v | None \<Rightarrow> lookup k' t)"
  using assms
proof (induction us arbitrary: t D)
  case Nil
  then show ?case by (simp add: adds_def)
next
  case (Cons u us)
  obtain v k where u: "u = (v, k)" by (cases u)
  have k: "valid k" using Cons.prems(2) [of v k] u by simp
  have fin: "finite (D \<union> snd ` set (u # us))"
    using holds_finite [OF Cons.prems(1)] by simp
  have room: "k \<in> D \<or> card D < capacity"
  proof (cases "k \<in> D")
    case False
    have "insert k D \<subseteq> D \<union> snd ` set (u # us)" using u by auto
    then have "card (insert k D) \<le> card (D \<union> snd ` set (u # us))" by (rule card_mono [OF fin])
    with False Cons.prems(3) holds_finite [OF Cons.prems(1)] show ?thesis by simp
  qed simp
  have "insert k D \<union> snd ` set us = D \<union> snd ` set (u # us)" using u by auto
  then have c: "card (insert k D \<union> snd ` set us) \<le> capacity" using Cons.prems(3) by simp
  have "lookup k' (adds us (add v k t)) =
    (case map_of (rev (map (\<lambda>(v, k). (k, v)) us)) k' of Some v \<Rightarrow> Some v | None \<Rightarrow> lookup k' (add v k t))"
    by (rule Cons.IH [OF holds_add [OF Cons.prems(1) k room] _ c Cons.prems(4)])
      (rule Cons.prems(2), rule list.set_intros(2))
  moreover have "adds (u # us) t = adds us (add v k t)" by (simp add: adds_def u)
  moreover have "map_of (rev (map (\<lambda>(v, k). (k, v)) (u # us))) k' =
    (case map_of (rev (map (\<lambda>(v, k). (k, v)) us)) k' of Some v \<Rightarrow> Some v | None \<Rightarrow> if k' = k then Some v else None)"
    by (auto simp: u map_add_def split: option.splits)
  ultimately show ?case
    using lookup_add [OF Cons.prems(1) k room Cons.prems(4)] by (auto split: option.splits)
qed

lemma lookup_adds_empty:
  assumes "wf t" and "\<And>v k. (v, k) \<in> set us \<Longrightarrow> valid k" and "card (snd ` set us) \<le> capacity" and "valid k"
  shows "lookup k (adds us (empty t)) = map_of (rev (map (\<lambda>(v, k). (k, v)) us)) k"
  using lookup_adds [OF holds_empty [OF assms(1)] assms(2) _ assms(4)] assms(3)
    lookup_empty [OF assms(1, 4)]
  by (auto split: option.splits)

end

section \<open>The table\<close>

definition unet_router_up_table_clear :: "net \<Rightarrow> net" where
  "unet_router_up_table_clear s =
     s\<lparr>entry_index := 0,
       unet_routing_table_up :=
         map (\<lambda>r. r\<lparr>next_hop := 0, dest_addr64 := replicate 8 0\<rparr>) (unet_routing_table_up s)\<rparr>"

definition unet_router_up_table_entry_find :: "u8 list \<Rightarrow> net \<Rightarrow> nat" where
  "unet_router_up_table_entry_find dest64 s =
     first_idx (\<lambda>r. dest_addr64 r = dest64) (unet_routing_table_up s)"

definition unet_router_up_table_entry_add :: "u16 \<Rightarrow> u8 list \<Rightarrow> net \<Rightarrow> net" where
  "unet_router_up_table_entry_add hop dest64 s =
     (let i = unet_router_up_table_entry_find dest64 s in
      if i < RTABLE_UP_ENTRIES_MAX_NUM then
        s\<lparr>unet_routing_table_up :=
            (unet_routing_table_up s)[i := (unet_routing_table_up s ! i)\<lparr>next_hop := hop\<rparr>]\<rparr>
      else
        (let j = unat (entry_index s) in
         s\<lparr>entry_index := (entry_index s + 1) mod 100,
           unet_routing_table_up :=
             (unet_routing_table_up s)
               [j := (unet_routing_table_up s ! j)\<lparr>next_hop := hop, dest_addr64 := dest64\<rparr>]\<rparr>))"

definition unet_router_up_table_entry_get :: "nat \<Rightarrow> net \<Rightarrow> u16 option" where
  "unet_router_up_table_entry_get idx s =
     (if idx < RTABLE_UP_ENTRIES_MAX_NUM then Some (next_hop (unet_routing_table_up s ! idx)) else None)"

text \<open>What the router asks the table: the next hop of a destination.\<close>

definition route_lookup :: "u8 list \<Rightarrow> net \<Rightarrow> u16 option" where
  "route_lookup dest64 s =
     unet_router_up_table_entry_get (unet_router_up_table_entry_find dest64 s) s"

section \<open>It is a bounded map\<close>

text \<open>The address of the cleared entries is not a destination.\<close>

definition route_addr :: "u8 list \<Rightarrow> bool" where
  "route_addr d \<longleftrightarrow> length d = 8 \<and> d \<noteq> replicate 8 0"

text \<open>The leading entries hold the destinations \<open>D\<close>, the others are cleared.\<close>

definition table_holds :: "net \<Rightarrow> u8 list set \<Rightarrow> bool" where
  "table_holds s D \<longleftrightarrow>
     (\<exists>used. map dest_addr64 (unet_routing_table_up s) = used @ replicate (100 - length used) (replicate 8 0) \<and>
        length used \<le> 100 \<and> distinct used \<and> set used = D \<and> (\<forall>d \<in> D. route_addr d) \<and>
        unat (entry_index s) = length used mod 100)"

lemma table_holds_cong:
  "map dest_addr64 (unet_routing_table_up s) = map dest_addr64 (unet_routing_table_up s') \<Longrightarrow>
   entry_index s = entry_index s' \<Longrightarrow> table_holds s D = table_holds s' D"
  by (simp only: table_holds_def)

lemma table_holdsI:
  "map dest_addr64 (unet_routing_table_up s) = used @ replicate (100 - length used) (replicate 8 0) \<Longrightarrow>
   length used \<le> 100 \<Longrightarrow> distinct used \<Longrightarrow> set used = D \<Longrightarrow> \<forall>d \<in> D. route_addr d \<Longrightarrow>
   unat (entry_index s) = length used mod 100 \<Longrightarrow> table_holds s D"
  by (auto simp: table_holds_def)

lemma table_holds_length: "table_holds s D \<Longrightarrow> length (unet_routing_table_up s) = 100"
  unfolding table_holds_def by (metis (no_types, lifting) length_append length_map length_replicate le_add_diff_inverse)

lemma table_holds_finite: "table_holds s D \<Longrightarrow> finite D"
  by (auto simp: table_holds_def)

lemma map_of_first_idx:
  "map_of (map (\<lambda>r. (f r, g r)) xs) k =
     (if first_idx (\<lambda>r. f r = k) xs < length xs then Some (g (xs ! first_idx (\<lambda>r. f r = k) xs)) else None)"
  by (induction xs) auto

lemma route_lookup_map_of:
  "length (unet_routing_table_up s) = 100 \<Longrightarrow>
   route_lookup d s = map_of (map (\<lambda>r. (dest_addr64 r, next_hop r)) (unet_routing_table_up s)) d"
  by (simp add: route_lookup_def unet_router_up_table_entry_get_def unet_router_up_table_entry_find_def
      map_of_first_idx)

lemma map_of_update_first:
  "i = first_idx (\<lambda>r. f r = k) xs \<Longrightarrow> i < length xs \<Longrightarrow> f x = k \<Longrightarrow>
   map_of (map (\<lambda>r. (f r, g r)) (xs[i := x])) k' =
     (if k' = k then Some (g x) else map_of (map (\<lambda>r. (f r, g r)) xs) k')"
  by (induction xs arbitrary: i) auto

lemma map_of_update_fresh:
  "k \<notin> f ` set xs \<Longrightarrow> j < length xs \<Longrightarrow> f x = k \<Longrightarrow> f (xs ! j) \<noteq> k' \<Longrightarrow>
   map_of (map (\<lambda>r. (f r, g r)) (xs[j := x])) k' =
     (if k' = k then Some (g x) else map_of (map (\<lambda>r. (f r, g r)) xs) k')"
proof (induction xs arbitrary: j)
  case (Cons y xs)
  then show ?case by (cases j) auto
qed simp

lemma table_holds_clear: "length (unet_routing_table_up s) = 100 \<Longrightarrow> table_holds (unet_router_up_table_clear s) {}"
  by (auto simp: table_holds_def unet_router_up_table_clear_def intro: nth_equalityI)

lemma route_lookup_clear:
  assumes "length (unet_routing_table_up s) = 100" and "route_addr d"
  shows "route_lookup d (unet_router_up_table_clear s) = None"
  using assms
  by (auto simp: route_lookup_map_of unet_router_up_table_clear_def route_addr_def map_of_eq_None_iff)

text \<open>Where a destination is found.\<close>

lemma dests_of_table:
  assumes "table_holds s D"
  shows "dest_addr64 ` set (unet_routing_table_up s) \<subseteq> insert (replicate 8 0) D"
    and "D \<subseteq> dest_addr64 ` set (unet_routing_table_up s)"
proof -
  from assms obtain used where u: "map dest_addr64 (unet_routing_table_up s) =
      used @ replicate (100 - length used) (replicate 8 0)" "set used = D"
    by (auto simp: table_holds_def)
  have e: "dest_addr64 ` set (unet_routing_table_up s) = set used \<union> set (replicate (100 - length used) (replicate 8 0))"
    by (metis list.set_map set_append u(1))
  show "dest_addr64 ` set (unet_routing_table_up s) \<subseteq> insert (replicate 8 0) D"
    using e u(2) by auto
  show "D \<subseteq> dest_addr64 ` set (unet_routing_table_up s)"
    using e u(2) by blast
qed

lemma find_hit:
  assumes "table_holds s D" and "d \<in> D"
  shows "unet_router_up_table_entry_find d s < 100"
    and "dest_addr64 (unet_routing_table_up s ! unet_router_up_table_entry_find d s) = d"
proof -
  let ?t = "unet_routing_table_up s"
  have "d \<in> dest_addr64 ` set ?t" using assms dests_of_table(2) by blast
  then have "first_idx (\<lambda>r. dest_addr64 r = d) ?t < length ?t"
    by (auto simp: first_idx_less)
  then show "unet_router_up_table_entry_find d s < 100" "dest_addr64 (?t ! unet_router_up_table_entry_find d s) = d"
    using first_idx_hit [of "\<lambda>r. dest_addr64 r = d" ?t] table_holds_length [OF assms(1)]
    by (simp_all add: unet_router_up_table_entry_find_def)
qed

lemma find_miss:
  assumes "table_holds s D" and "d \<notin> D" and "route_addr d"
  shows "d \<notin> dest_addr64 ` set (unet_routing_table_up s)"
    and "unet_router_up_table_entry_find d s = 100"
proof -
  let ?t = "unet_routing_table_up s"
  show n: "d \<notin> dest_addr64 ` set ?t"
    using assms dests_of_table(1) [OF assms(1)] by (auto simp: route_addr_def)
  then have "\<forall>r \<in> set ?t. dest_addr64 r \<noteq> d" by auto
  then have "first_idx (\<lambda>r. dest_addr64 r = d) ?t = length ?t"
    by (simp only: first_idx_miss)
  then show "unet_router_up_table_entry_find d s = 100"
    using table_holds_length [OF assms(1)] by (simp add: unet_router_up_table_entry_find_def)
qed

text \<open>A known destination: its next hop is replaced.\<close>

lemma add_hit:
  assumes "table_holds s D" and "d \<in> D"
  shows "table_holds (unet_router_up_table_entry_add hop d s) D"
    and "route_lookup d' (unet_router_up_table_entry_add hop d s) = (if d' = d then Some hop else route_lookup d' s)"
proof -
  let ?t = "unet_routing_table_up s" and ?i = "unet_router_up_table_entry_find d s"
  let ?r = "(?t ! ?i)\<lparr>next_hop := hop\<rparr>"
  have len: "length ?t = 100" by (rule table_holds_length [OF assms(1)])
  note i = find_hit [OF assms]
  have add: "unet_router_up_table_entry_add hop d s = s\<lparr>unet_routing_table_up := ?t[?i := ?r]\<rparr>"
    using i by (simp add: unet_router_up_table_entry_add_def Let_def)
  have dests: "map dest_addr64 (?t[?i := ?r]) = map dest_addr64 ?t"
    by (rule map_upd_same) simp
  show "table_holds (unet_router_up_table_entry_add hop d s) D"
    using assms(1) dests by (simp only: add, subst table_holds_cong [where s' = s]) simp_all
  have "route_lookup d' (s\<lparr>unet_routing_table_up := ?t[?i := ?r]\<rparr>) =
      map_of (map (\<lambda>r. (dest_addr64 r, next_hop r)) (?t[?i := ?r])) d'"
    using len by (subst route_lookup_map_of) simp_all
  also have "\<dots> = (if d' = d then Some (next_hop ?r) else map_of (map (\<lambda>r. (dest_addr64 r, next_hop r)) ?t) d')"
    by (rule map_of_update_first) (use i len in \<open>simp_all add: unet_router_up_table_entry_find_def\<close>)
  finally show "route_lookup d' (unet_router_up_table_entry_add hop d s) = (if d' = d then Some hop else route_lookup d' s)"
    using len by (simp add: add route_lookup_map_of)
qed

text \<open>A new one, while there is a cleared entry: it takes the first of them.\<close>

lemma entry_index_step: "unat (e :: u16) < 100 \<Longrightarrow> unat ((e + 1) mod 100) = (unat e + 1) mod 100"
  using u16_Suc [of e] by (simp add: unat_mod)

lemma add_miss:
  assumes "table_holds s D" and "d \<notin> D" and "route_addr d" and "card D < 100" and "route_addr d'"
  shows "table_holds (unet_router_up_table_entry_add hop d s) (insert d D)"
    and "route_lookup d' (unet_router_up_table_entry_add hop d s) = (if d' = d then Some hop else route_lookup d' s)"
proof -
  let ?t = "unet_routing_table_up s" and ?j = "unat (entry_index s)"
  let ?r = "(?t ! ?j)\<lparr>next_hop := hop, dest_addr64 := d\<rparr>"
  from assms(1) obtain used where u: "map dest_addr64 ?t = used @ replicate (100 - length used) (replicate 8 0)"
      "distinct used" "set used = D" "\<forall>d \<in> D. route_addr d" "?j = length used mod 100"
    by (auto simp: table_holds_def)
  have lu: "length used < 100" using u(2, 3) assms(4) distinct_card by metis
  then have j: "?j = length used" using u(5) by simp
  have len: "length ?t = 100" by (rule table_holds_length [OF assms(1)])
  note miss = find_miss [OF assms(1-3)]
  have add: "unet_router_up_table_entry_add hop d s =
      s\<lparr>entry_index := (entry_index s + 1) mod 100, unet_routing_table_up := ?t[?j := ?r]\<rparr>"
    by (simp add: unet_router_up_table_entry_add_def miss(2) Let_def)
  have "replicate (100 - length used) (replicate 8 (0 :: u8)) =
      replicate 8 0 # replicate (99 - length used) (replicate 8 0)"
    using lu by (cases "100 - length used") simp_all
  then have m: "map dest_addr64 (?t[?j := ?r]) = (used @ [d]) @ replicate (100 - length (used @ [d])) (replicate 8 0)"
    by (simp add: map_update u(1) j list_update_append)
  have e: "unat ((entry_index s + 1) mod 100) = length (used @ [d]) mod 100"
    using entry_index_step [of "entry_index s"] j lu by simp
  show "table_holds (unet_router_up_table_entry_add hop d s) (insert d D)"
    unfolding add
  proof (rule table_holdsI [where used = "used @ [d]"])
    show "distinct (used @ [d])" "set (used @ [d]) = insert d D" using u(2, 3) assms(2) by auto
    show "\<forall>x \<in> insert d D. route_addr x" using u(4) assms(3) by blast
  qed (use m e lu in simp_all)
  have z: "dest_addr64 (?t ! ?j) = replicate 8 0"
  proof -
    have "dest_addr64 (?t ! ?j) = map dest_addr64 ?t ! ?j" using j lu len by simp
    then show ?thesis using j lu by (simp add: u(1) nth_append)
  qed
  have "route_lookup d' (s\<lparr>entry_index := (entry_index s + 1) mod 100, unet_routing_table_up := ?t[?j := ?r]\<rparr>) =
      map_of (map (\<lambda>r. (dest_addr64 r, next_hop r)) (?t[?j := ?r])) d'"
    using len by (subst route_lookup_map_of) simp_all
  also have "\<dots> = (if d' = d then Some (next_hop ?r) else map_of (map (\<lambda>r. (dest_addr64 r, next_hop r)) ?t) d')"
    using miss(1) j lu len z assms(5) by (intro map_of_update_fresh) (auto simp: route_addr_def)
  finally show "route_lookup d' (unet_router_up_table_entry_add hop d s) = (if d' = d then Some hop else route_lookup d' s)"
    using len by (simp add: add route_lookup_map_of)
qed

interpretation rt: bounded_map unet_router_up_table_clear unet_router_up_table_entry_add route_lookup
  table_holds "\<lambda>s. length (unet_routing_table_up s) = 100" route_addr 100
proof unfold_locales
  show "table_holds (unet_router_up_table_entry_add v k t) (insert k D)"
    if "table_holds t D" "route_addr k" "k \<in> D \<or> card D < 100" for t D k v
    using that add_hit(1) [of t D k v] add_miss(1) [of t D k k v]
    by (cases "k \<in> D") (auto simp: insert_absorb)
  show "route_lookup k' (unet_router_up_table_entry_add v k t) = (if k' = k then Some v else route_lookup k' t)"
    if "table_holds t D" "route_addr k" "k \<in> D \<or> card D < 100" "route_addr k'" for t D k k' v
    using that add_hit(2) [of t D k k' v] add_miss(2) [of t D k k' v]
    by (cases "k \<in> D") auto
qed (simp_all add: table_holds_clear route_lookup_clear table_holds_finite)

text \<open>
  C29. The routing table is the map of the last next hop announced for each destination: after any
  sequence of announcements that names at most a hundred destinations, the router finds for every
  destination the hop of its last announcement, and none where there was no announcement.
\<close>

theorem unet_router_up_table_is_map:
  assumes "length (unet_routing_table_up s) = 100"
    and "\<And>hop d. (hop, d) \<in> set ups \<Longrightarrow> route_addr d" and "card (snd ` set ups) \<le> 100" and "route_addr d"
  shows "route_lookup d
      (foldl (\<lambda>s (hop, d). unet_router_up_table_entry_add hop d s) (unet_router_up_table_clear s) ups) =
    map_of (rev (map (\<lambda>(hop, d). (d, hop)) ups)) d"
  using rt.lookup_adds_empty [OF assms] by (simp add: rt.adds_def)

theorem unet_router_up_table_is_map_witness:
  "route_lookup [1, 0, 0, 0, 0, 0, 0, 0]
      (foldl (\<lambda>s (hop, d). unet_router_up_table_entry_add hop d s) (unet_router_up_table_clear sample_net)
         [(5, [1, 0, 0, 0, 0, 0, 0, 0]), (6, [2, 0, 0, 0, 0, 0, 0, 0]), (7, [1, 0, 0, 0, 0, 0, 0, 0])]) = Some 7"
proof -
  let ?ups = "[(5 :: u16, [1, 0, 0, 0, 0, 0, 0, 0 :: u8]), (6, [2, 0, 0, 0, 0, 0, 0, 0]), (7, [1, 0, 0, 0, 0, 0, 0, 0])]"
  have l: "length (unet_routing_table_up sample_net) = 100" by simp
  have v: "\<And>hop d. (hop, d) \<in> set ?ups \<Longrightarrow> route_addr d"
    by (auto simp: route_addr_def numeral_eq_Suc)
  have c: "card (snd ` set ?ups) \<le> 100"
    using card_length [of "map snd ?ups"] by (simp add: card_insert_if)
  have a: "route_addr [1, 0, 0, 0, 0, 0, 0, 0]"
    by (simp add: route_addr_def numeral_eq_Suc)
  show ?thesis
    using unet_router_up_table_is_map [OF l v c a] by simp
qed

end
