(* ===== verification/Link.thy ===== *)
theory Link
  imports Routing_Table
begin

text \<open>
  The link layer, \<^verbatim>\<open>uNET/link.c\<close>: the table of neighbours with the smoothed signal strengths of
  both directions, the link packets that keep it up to date, and the choice of the parent on the
  way to the coordinator (the build without \<^verbatim>\<open>EXPERIMENTAL\<close>).
\<close>

section \<open>Frames\<close>

abbreviation (input) UNET_CTRL_MSG_PACKET_TYPE :: nat where "UNET_CTRL_MSG_PACKET_TYPE \<equiv> 32"
abbreviation (input) UNET_CTRL_MSG_ADDR16H :: nat where "UNET_CTRL_MSG_ADDR16H \<equiv> 33"
abbreviation (input) UNET_CTRL_MSG_ADDR16L :: nat where "UNET_CTRL_MSG_ADDR16L \<equiv> 34"
abbreviation (input) UNET_CTRL_MSG_DISTANCE :: nat where "UNET_CTRL_MSG_DISTANCE \<equiv> 35"
abbreviation (input) UNET_CTRL_MSG_NB_COUNT :: nat where "UNET_CTRL_MSG_NB_COUNT \<equiv> 36"
abbreviation (input) UNET_CTRL_MSG_NB_START :: nat where "UNET_CTRL_MSG_NB_START \<equiv> 37"

abbreviation (input) BROADCAST_LOCAL_LINK :: u8 where "BROADCAST_LOCAL_LINK \<equiv> 0"
abbreviation (input) UNICAST_DOWN :: u8 where "UNICAST_DOWN \<equiv> 5"
abbreviation (input) UNICAST_UP :: u8 where "UNICAST_UP \<equiv> 6"
abbreviation (input) UNICAST_ACK_DOWN :: u8 where "UNICAST_ACK_DOWN \<equiv> 1"
abbreviation (input) UNICAST_ACK_UP :: u8 where "UNICAST_ACK_UP \<equiv> 2"
abbreviation (input) MULTICAST_UP :: u8 where "MULTICAST_UP \<equiv> 14"
abbreviation (input) MULTICAST_ACK_UP :: u8 where "MULTICAST_ACK_UP \<equiv> 10"
abbreviation (input) ACK_REQ_MASK :: u8 where "ACK_REQ_MASK \<equiv> 4"

abbreviation (input) NEIGHBOR_REQ :: u8 where "NEIGHBOR_REQ \<equiv> 0"
abbreviation (input) NEIGHBOR_ADV :: u8 where "NEIGHBOR_ADV \<equiv> 1"
abbreviation (input) ROUTER_ADV :: u8 where "ROUTER_ADV \<equiv> 3"
abbreviation (input) NEIGHBOR_ADV_RESET :: u8 where "NEIGHBOR_ADV_RESET \<equiv> 129"
abbreviation (input) NEXT_HEADER_UNET_CTRL_MSG :: u8 where "NEXT_HEADER_UNET_CTRL_MSG \<equiv> 253"
abbreviation (input) NEXT_HEADER_UNET_APP :: u8 where "NEXT_HEADER_UNET_APP \<equiv> 254"

text \<open>\<^verbatim>\<open>unet_header_set\<close> is in \<^verbatim>\<open>uNET/unet_router.c\<close>; both layers use it.\<close>

definition unet_header_set ::
    "u8 \<Rightarrow> u8 \<Rightarrow> u8 \<Rightarrow> u8 list \<Rightarrow> u8 list \<Rightarrow> u8 \<Rightarrow> packet \<Rightarrow> packet" where
  "unet_header_set type hop_limit next_header src dst payload_len p0 =
     (let p1 = put UNET_PKT_TYPE type p0;
          p2 = put UNET_HOP_LIMIT hop_limit p1;
          p3 = put UNET_PAYLOAD_LEN payload_len p2;
          p4 = put UNET_NEXT_HEADER next_header p3;
          p5 = put_all UNET_SRC_64 (take 8 src) p4;
          p6 = put_all UNET_DEST_64 (take 8 dst) p5
      in put LLC_PROTO UNET_LLC_PROTO_NUMBER p6)"

text \<open>The size that is given to the MAC layer for a network payload.\<close>

definition frame_size :: "u8 \<Rightarrow> u8" where
  "frame_size payload_len = payload_len + of_nat (UNET_NWK_HEADER_SIZE + UNET_LLC_HEADER_SIZE + UNET_MAC_HEADER_SIZE)"

text \<open>The next sequence number, noted in the packet.\<close>

definition stamp_seqnum :: "net \<Rightarrow> packet \<Rightarrow> net \<times> packet" where
  "stamp_seqnum s p =
     (let (v, n) = node_seq_num_get_next (node_data s) in (s\<lparr>node_data := n\<rparr>, put_info PKTINFO_SEQNUM v p))"

section \<open>Sending the table\<close>

definition neighbour_bytes :: "neighbour \<Rightarrow> u8 list" where
  "neighbour_bytes n = [hi8 (Addr_16b n), lo8 (Addr_16b n), NeighborRSSI n]"

definition used_neighbours :: "net \<Rightarrow> neighbour list" where
  "used_neighbours s = filter (\<lambda>n. Addr_16b n \<noteq> UNUSED_ADDR) (unet_neighbourhood s)"

text \<open>The kind of the link packet; a coordinator announces its reset three times.\<close>

definition link_packet_type :: "device \<Rightarrow> net \<Rightarrow> u8 \<times> net" where
  "link_packet_type dev s =
     (if param NODE_DISTANCE s = NO_ROUTE_TO_BASESTATION then (NEIGHBOR_REQ, s)
      else case dev of
        PAN_COORDINATOR \<Rightarrow>
          (if param NODE_DISTANCE s = 0 \<and> just_reset s then
             (let cnt = link_reset_cnt s + 1
              in (NEIGHBOR_ADV_RESET,
                  s\<lparr>link_reset_cnt := cnt, just_reset := (if cnt \<ge> 3 then False else just_reset s)\<rparr>))
           else (NEIGHBOR_ADV, s))
      | ROUTER \<Rightarrow> (NEIGHBOR_ADV, s))"

definition link_packet_create :: "device \<Rightarrow> net \<Rightarrow> net" where
  "link_packet_create dev s =
     (let p0 = (link_pkt s)\<lparr>bytes := replicate MAX_PACKET_SIZE 0\<rparr>;
          p1 = put UNET_CTRL_MSG_ADDR16H (param NODE_ADDR16H s) p0;
          p2 = put UNET_CTRL_MSG_ADDR16L (param NODE_ADDR16L s) p1;
          p3 = put UNET_CTRL_MSG_DISTANCE (param NODE_DISTANCE s) p2;
          ns = used_neighbours s;
          p4 = put_all UNET_CTRL_MSG_NB_START (concat (map neighbour_bytes ns)) p3;
          neighbor_cnt = of_nat (length ns) :: u8;
          p5 = put UNET_CTRL_MSG_NB_COUNT neighbor_cnt p4;
          payload_len = neighbor_cnt * 3 + 5;
          (type, s1) = link_packet_type dev s;
          p6 = put UNET_CTRL_MSG_PACKET_TYPE type p5;
          p7 = unet_header_set BROADCAST_LOCAL_LINK 1 NEXT_HEADER_UNET_CTRL_MSG
                 (node_addr64_get (node_data s1)) (node_pan_id64_get (node_data s1)) payload_len p6;
          p8 = put_info PKTINFO_SIZE (frame_size payload_len) p7;
          (s2, p9) = stamp_seqnum s1 p8;
          p10 = set_dest16 BROAD_ADDR p9
      in s2\<lparr>link_pkt := ieee802154_header_set DATA_FRAME ACK_REQ_FALSE (node_data s2) p10\<rparr>)"

section \<open>The neighbour table\<close>

definition clear_neighbour :: "neighbour \<Rightarrow> neighbour" where
  "clear_neighbour n = n\<lparr>Addr_16b := UNUSED_ADDR, NeighborRSSI := 0, NeighborLastID := 0,
     NeighborMyRSSI := 0, NeighborDistance := NO_ROUTE_TO_BASESTATION, Symmetric := False, Active := False\<rparr>"

definition link_neighbor_table_init :: "net \<Rightarrow> net" where
  "link_neighbor_table_init s = s\<lparr>unet_neighbourhood := map clear_neighbour (unet_neighbourhood s)\<rparr>"

definition link_packet_create_association_request :: "device \<Rightarrow> net \<Rightarrow> net" where
  "link_packet_create_association_request dev s0 =
     (let s1 = s0\<lparr>node_data := node_pan_id64_init (node_data s0)\<rparr>;
          s2 = link_neighbor_table_init s1;
          s3 = set_param NODE_PANID16H (hi8 BROAD_ADDR) s2;
          s4 = set_param NODE_PANID16L (lo8 BROAD_ADDR) s3;
          s5 = set_param NODE_DISTANCE NO_ROUTE_TO_BASESTATION s4
      in link_packet_create dev s5)"

definition link_packet_create_ack :: "node \<Rightarrow> packet \<Rightarrow> packet" where
  "link_packet_create_ack n p0 =
     (let p1 = put_info PKTINFO_DEST16H (byte p0 (MAC_SRC_16 + 1)) p0;
          p2 = put_info PKTINFO_DEST16L (byte p1 MAC_SRC_16) p1;
          p3 = put_info PKTINFO_SEQNUM (byte p2 MAC_SEQ_NUM) p2;
          p4 = put UNET_PKT_TYPE (byte p3 UNET_PKT_TYPE AND NOT ACK_REQ_MASK) p3;
          p5 = put_info PKTINFO_SIZE (frame_size 0) p4
      in ieee802154_header_set DATA_FRAME ACK_REQ_TRUE n p5)"

text \<open>The moving average of a signal strength: it rises at once and falls by an eighth.\<close>

definition smooth :: "u8 \<Rightarrow> u8 \<Rightarrow> u8" where
  "smooth old new = (if old < new then new else of_nat ((unat old * 7 + unat new) div 8))"

text \<open>The entries of a link packet, and the update from the one that names this node.\<close>

definition packet_neighbours :: "packet \<Rightarrow> nat \<Rightarrow> (u8 \<times> u8 \<times> u8) list" where
  "packet_neighbours p cnt =
     map (\<lambda>j. (byte p (UNET_CTRL_MSG_NB_START + 3 * j), byte p (UNET_CTRL_MSG_NB_START + 3 * j + 1),
               byte p (UNET_CTRL_MSG_NB_START + 3 * j + 2))) [0..<cnt]"

definition link_neighbor_symmetry_update :: "packet \<Rightarrow> nat \<Rightarrow> net \<Rightarrow> net" where
  "link_neighbor_symmetry_update p idx s =
     (let ns = packet_neighbours p (unat (byte p UNET_CTRL_MSG_NB_COUNT));
          j = first_idx (\<lambda>(h, l, rssi). h = param NODE_ADDR16H s \<and> l = param NODE_ADDR16L s) ns
      in if j < length ns then
           (let rssi = snd (snd (ns ! j));
                s1 = set_neighbour idx (\<lambda>n. n\<lparr>NeighborMyRSSI := smooth (NeighborMyRSSI n) rssi\<rparr>) s
            in set_neighbour idx (\<lambda>n. n\<lparr>Symmetric :=
                 NeighborMyRSSI n \<ge> RSSI_THRESHOLD \<and> NeighborRSSI n \<ge> RSSI_THRESHOLD\<rparr>) s1)
         else s)"

definition is_symmetric_neighbor :: "nat \<Rightarrow> net \<Rightarrow> bool" where
  "is_symmetric_neighbor idx s = Symmetric (nb s idx)"

definition is_neighbor_parent :: "u8 \<Rightarrow> net \<Rightarrow> bool" where
  "is_neighbor_parent idx s = (idx = param NODE_PARENTINDEX s)"

definition link_is_symmetric_parent :: "net \<Rightarrow> bool option" where
  "link_is_symmetric_parent s =
     (let parent_idx = param NODE_PARENTINDEX s in
      if parent_idx = NO_PARENT then Some False
      else if unat parent_idx < NEIGHBOURHOOD_SIZE then Some (Symmetric (nb s (unat parent_idx)))
      else None)"

section \<open>The parent\<close>

text \<open>
  One neighbour in the search for a parent; the triple is the depth, the index of the parent and
  the state.
\<close>

definition link_parent_consider :: "u8 \<times> u8 \<times> net \<Rightarrow> nat \<Rightarrow> u8 \<times> u8 \<times> net" where
  "link_parent_consider st i =
     (case st of (depth, parent_idx, s) \<Rightarrow>
      let n = nb s i in
      if NeighborDistance n < depth then
        if is_symmetric_neighbor i s then
          if unat depth = unat (NeighborDistance n) + 1 then
            if ParentNeighborID s = Addr_16b n then
              (depth, of_nat i, s\<lparr>ParentRSSI := ucast (NeighborRSSI n)\<rparr>)
            else if unat (NeighborRSSI n) > unat (ParentRSSI s) + 5 then
              (depth, of_nat i, s\<lparr>ParentNeighborID := Addr_16b n, ParentRSSI := ucast (NeighborRSSI n)\<rparr>)
            else (depth, parent_idx, s)
          else (NeighborDistance n + 1, of_nat i,
                s\<lparr>ParentNeighborID := Addr_16b n, ParentRSSI := ucast (NeighborRSSI n)\<rparr>)
        else (depth, parent_idx, s)
      else (depth, parent_idx, s))"

definition link_parent_switch :: "device \<Rightarrow> net \<Rightarrow> net option" where
  "link_parent_switch dev s =
     (let depth = param NODE_DISTANCE s;
          parent_idx = param NODE_PARENTINDEX s
      in if parent_idx \<noteq> NO_PARENT \<and> \<not> unat parent_idx < NEIGHBOURHOOD_SIZE then None
      else
        (let (depth1, parent_idx1, s1) =
               (if parent_idx \<noteq> NO_PARENT \<and>
                   NeighborDistance (nb s (unat parent_idx)) = NODE_DISTANCE_INIT dev
                then (NODE_DISTANCE_INIT dev, NO_PARENT,
                      set_param NODE_PARENTINDEX NO_PARENT (set_param NODE_DISTANCE (NODE_DISTANCE_INIT dev) s))
                else (depth, parent_idx, s));
             (depth2, parent_idx2, s2) =
               foldl link_parent_consider (depth1, parent_idx1, s1) [0..<NEIGHBOURHOOD_SIZE];
             s3 = set_param NODE_DISTANCE depth2 s2
         in Some (if parent_idx2 \<noteq> param NODE_PARENTINDEX s3
                  then post_guarded Link_Packet_TX_Event (set_param NODE_PARENTINDEX parent_idx2 s3)
                  else s3)))"

definition link_node_distance_update :: "device \<Rightarrow> net \<Rightarrow> net option" where
  "link_node_distance_update dev s = link_parent_switch dev s"

text \<open>The parent is gone.\<close>

definition forget_parent :: "device \<Rightarrow> net \<Rightarrow> net" where
  "forget_parent dev s =
     (set_param NODE_PARENTINDEX NO_PARENT (set_param NODE_DISTANCE (NODE_DISTANCE_INIT dev) s))
       \<lparr>ParentNeighborID := UNUSED_ADDR, ParentRSSI := 0\<rparr>"

section \<open>Receiving\<close>

definition link_neighbor_table_find :: "packet \<Rightarrow> net \<Rightarrow> nat \<times> net" where
  "link_neighbor_table_find p s =
     (let nb_addr16 = join16 (byte p UNET_CTRL_MSG_ADDR16H) (byte p UNET_CTRL_MSG_ADDR16L);
          i = first_idx (\<lambda>n. Addr_16b n = nb_addr16) (unet_neighbourhood s)
      in if i < NEIGHBOURHOOD_SIZE then (i, s)
      else
        (let j = first_idx (\<lambda>n. Addr_16b n = UNUSED_ADDR) (unet_neighbourhood s)
         in if j < NEIGHBOURHOOD_SIZE then
              (j, (set_neighbour j (\<lambda>n. n\<lparr>Addr_16b := nb_addr16,
                     NeighborRSSI := packet_info_get PKTINFO_RSSI p, NeighborMyRSSI := 0\<rparr>) s)
                    \<lparr>NeighborLinkPacketTimeCnt := 1\<rparr>)
            else (NEIGHBOURHOOD_SIZE, s)))"

text \<open>What every frame of a neighbour says about the link.\<close>

definition heard :: "packet \<Rightarrow> neighbour \<Rightarrow> neighbour" where
  "heard p n = n\<lparr>NeighborRSSI := smooth (NeighborRSSI n) (packet_info_get PKTINFO_RSSI p),
     NeighborLQI := packet_info_get PKTINFO_LQI p, Active := True\<rparr>"

definition mark_heard :: "nat \<Rightarrow> net \<Rightarrow> net" where
  "mark_heard i s = s\<lparr>NeighborTable := NeighborTable s OR push_bit i 1\<rparr>"

definition link_packet_process :: "device \<Rightarrow> packet \<Rightarrow> net \<Rightarrow> net option" where
  "link_packet_process dev p s0 =
     (let (i, s1) = link_neighbor_table_find p s0 in
      if i < NEIGHBOURHOOD_SIZE then
        (let s2 = set_neighbour i
                    (\<lambda>n. (heard p n)\<lparr>NeighborDistance := byte p UNET_CTRL_MSG_DISTANCE\<rparr>) s1
         in if \<not> unat (byte p UNET_CTRL_MSG_NB_COUNT) < NEIGHBOURHOOD_SIZE then Some s2
         else
           (let s3 = mark_heard i (link_neighbor_symmetry_update p i s2);
                type = byte p UNET_CTRL_MSG_PACKET_TYPE
            in if type = NEIGHBOR_ADV then link_node_distance_update dev s3
            else if type = NEIGHBOR_ADV_RESET then do {
              s4 \<leftarrow> link_node_distance_update dev s3;
              post Link_Packet_TX_Event s4
            }
            else if type = NEIGHBOR_REQ then
              (let s4 = (if dev \<noteq> PAN_COORDINATOR \<and> ParentNeighborID s3 = Addr_16b (nb s3 i)
                         then unet_router_up_table_clear (link_neighbor_table_init (forget_parent dev s3))
                         else s3)
               in Some (if dev = PAN_COORDINATOR \<or> param NODE_PARENTINDEX s4 \<noteq> NO_PARENT
                        then post_guarded Link_Packet_TX_Event s4 else s4))
            else Some s3))
      else Some s1)"

definition link_set_neighbor_activity :: "packet \<Rightarrow> net \<Rightarrow> net" where
  "link_set_neighbor_activity p s =
     (let i = first_idx (\<lambda>n. Addr_16b n = packet_get_source_addr16 p) (unet_neighbourhood s)
      in if i < NEIGHBOURHOOD_SIZE then mark_heard i (set_neighbour i (heard p) s) else s)"

definition link_set_neighbor_seqnum :: "packet \<Rightarrow> net \<Rightarrow> net" where
  "link_set_neighbor_seqnum p s =
     (let i = first_idx (\<lambda>n. Addr_16b n = packet_get_source_addr16 p) (unet_neighbourhood s)
      in if i < NEIGHBOURHOOD_SIZE
         then set_neighbour i (\<lambda>n. n\<lparr>NeighborLastID := packet_info_get PKTINFO_SEQNUM p\<rparr>) s else s)"

section \<open>Ageing\<close>

definition verify_neighbour :: "device \<Rightarrow> nat \<Rightarrow> bool \<times> net \<Rightarrow> (bool \<times> net) option" where
  "verify_neighbour dev i st =
     (let (rst, s) = st;
          s1 = (if dev = ROUTER \<and> Addr_16b (nb s i) \<noteq> UNUSED_ADDR \<and>
                   ParentNeighborID s = Addr_16b (nb s i) \<and> \<not> is_symmetric_neighbor i s
                then forget_parent dev s else s)
      in if NeighborTable s1 AND push_bit i 1 = 0 \<and> Addr_16b (nb s1 i) \<noteq> UNUSED_ADDR then
           (let lost = (dev = ROUTER \<and> ParentNeighborID s1 = Addr_16b (nb s1 i));
                s2 = (if lost then forget_parent dev s1 else s1);
                s3 = set_neighbour i clear_neighbour s2
            in do { s4 \<leftarrow> post Link_Packet_TX_Event s3; Some (rst \<or> lost, s4) })
         else Some (rst, s1))"

fun verify_loop :: "device \<Rightarrow> nat list \<Rightarrow> bool \<times> net \<Rightarrow> (bool \<times> net) option" where
  "verify_loop dev [] st = Some st"
| "verify_loop dev (i # is) st = do { st1 \<leftarrow> verify_neighbour dev i st; verify_loop dev is st1 }"

definition link_verify_neighbourhood :: "device \<Rightarrow> net \<Rightarrow> net option" where
  "link_verify_neighbourhood dev s0 = do {
     (rst, s1) \<leftarrow> verify_loop dev [0..<NEIGHBOURHOOD_SIZE] (False, s0);
     s2 \<leftarrow> (if dev = ROUTER \<and> param NODE_DISTANCE s1 = NODE_DISTANCE_INIT dev then
              if rst then Some (unet_router_up_table_clear (link_neighbor_table_init s1))
              else link_parent_switch dev s1
            else Some s1);
     Some (s2\<lparr>NeighborTable := 0\<rparr>)
   }"

section \<open>Queries\<close>

definition link_neighbor_table_addr16_get :: "nat \<Rightarrow> net \<Rightarrow> u16 option" where
  "link_neighbor_table_addr16_get idx s =
     (if idx < NEIGHBOURHOOD_SIZE then Some (Addr_16b (nb s idx)) else None)"

definition link_neighbor_table_count :: "net \<Rightarrow> u8 \<times> net" where
  "link_neighbor_table_count s =
     (let n = of_nat (length (used_neighbours s)) in (n, set_param NODE_NEIGHBOR_COUNT n s))"

definition link_packet_is_duplicated :: "u16 \<Rightarrow> u8 \<Rightarrow> net \<Rightarrow> bool" where
  "link_packet_is_duplicated src_addr seq_num s =
     (let i = first_idx (\<lambda>n. Addr_16b n = src_addr) (unet_neighbourhood s)
      in i < NEIGHBOURHOOD_SIZE \<and> NeighborLastID (nb s i) = seq_num)"

definition link_seqnum_reset :: "u16 \<Rightarrow> net \<Rightarrow> net" where
  "link_seqnum_reset src_addr s =
     s\<lparr>unet_neighbourhood :=
         map (\<lambda>n. if Addr_16b n = src_addr then n\<lparr>NeighborLastID := 0\<rparr> else n) (unet_neighbourhood s)\<rparr>"

definition link_get_parent_addr16 :: "net \<Rightarrow> u16 option" where
  "link_get_parent_addr16 s =
     (let i = unat (param NODE_PARENTINDEX s)
      in if i < NEIGHBOURHOOD_SIZE then Some (Addr_16b (nb s i)) else None)"

end
