(* ===== verification/Link_Laws.thy ===== *)
theory Link_Laws
  imports Link
begin

text \<open>
  The link layer is correct: the choice of the parent is one relaxation step of the shortest-path
  computation, the neighbour table is a map from addresses to entries, every operation keeps the
  well-formedness of the state, and the ageing removes the silent neighbours.
\<close>

section \<open>Choosing the parent\<close>

definition depth_via :: "neighbour \<Rightarrow> nat" where
  "depth_via n = unat (NeighborDistance n) + 1"

text \<open>
  What the search has established after the neighbours \<open>is\<close>: the depth is the least over those
  that are symmetric, and when it improved the parent is one that attains it.
\<close>

definition search_inv :: "net \<Rightarrow> u8 \<Rightarrow> u8 \<Rightarrow> nat set \<Rightarrow> u8 \<times> u8 \<times> net \<Rightarrow> bool" where
  "search_inv s0 d0 p0 is st = (case st of (d, p, s) \<Rightarrow>
     node_data s = node_data s0 \<and> unet_neighbourhood s = unet_neighbourhood s0 \<and>
     unat d = Min (insert (unat d0) ((\<lambda>i. depth_via (nb s0 i)) ` {i \<in> is. Symmetric (nb s0 i)})) \<and>
     (p = p0 \<or> unat p < 8) \<and>
     (d \<noteq> d0 \<longrightarrow> (\<exists>i \<in> is. p = of_nat i \<and> Symmetric (nb s0 i) \<and> depth_via (nb s0 i) = unat d \<and>
                      ParentNeighborID s = Addr_16b (nb s0 i))))"

lemma depth_step:
  assumes "NeighborDistance n < d" and "unat d \<noteq> depth_via n"
  shows "unat (NeighborDistance n + 1) = depth_via n" and "depth_via n < unat d"
proof -
  have "unat (NeighborDistance n) < unat d" using assms(1) by (simp add: word_less_nat_alt)
  moreover have "unat d < 256" using unsigned_less [of d, where 'a = nat] by simp
  ultimately show "unat (NeighborDistance n + 1) = depth_via n" "depth_via n < unat d"
    using assms(2) u8_Suc [of "NeighborDistance n"] by (auto simp: depth_via_def)
qed

lemma Min_insert_step:
  "finite A \<Longrightarrow> Min (insert (a :: nat) (insert b A)) = min (Min (insert a A)) b"
  by (simp add: min.commute min.left_commute insert_commute [of a b])

lemma search_step:
  assumes "search_inv s0 d0 p0 is st" and "finite is" and "i < 8"
  shows "search_inv s0 d0 p0 (insert i is) (link_parent_consider st i)"
proof -
  obtain d p s where st: "st = (d, p, s)" by (cases st)
  let ?M = "\<lambda>is. Min (insert (unat d0) ((\<lambda>i. depth_via (nb s0 i)) ` {i \<in> is. Symmetric (nb s0 i)}))"
  have inv: "node_data s = node_data s0" "unet_neighbourhood s = unet_neighbourhood s0" "unat d = ?M is"
      "p = p0 \<or> unat p < 8"
      "d \<noteq> d0 \<Longrightarrow> \<exists>i \<in> is. p = of_nat i \<and> Symmetric (nb s0 i) \<and> depth_via (nb s0 i) = unat d \<and>
                      ParentNeighborID s = Addr_16b (nb s0 i)"
    using assms(1) unfolding search_inv_def st prod.case by blast+
  let ?n = "nb s0 i"
  have M: "?M (insert i is) = (if Symmetric ?n then min (unat d) (depth_via ?n) else unat d)"
  proof (cases "Symmetric ?n")
    case True
    then have "{j \<in> insert i is. Symmetric (nb s0 j)} = insert i {j \<in> is. Symmetric (nb s0 j)}" by auto
    moreover have fin: "finite ((\<lambda>j. depth_via (nb s0 j)) ` {j \<in> is. Symmetric (nb s0 j)})"
      using assms(2) by simp
    ultimately show ?thesis
      using True by (simp only: image_insert Min_insert_step [OF fin] inv(3) if_True)
  next
    case False
    then have "{j \<in> insert i is. Symmetric (nb s0 j)} = {j \<in> is. Symmetric (nb s0 j)}" by auto
    with False show ?thesis by (simp add: inv(3))
  qed
  have i8: "unat (of_nat i :: u8) < 8" using assms(3) by (simp add: unat_of_nat)
  show ?thesis
  proof (cases "NeighborDistance ?n < d \<and> Symmetric ?n")
    case True
    note less = True
    show ?thesis
    proof (cases "unat d = depth_via ?n")
      case True
      have "?M (insert i is) = unat d" using M less True by simp
      then show ?thesis
        unfolding st link_parent_consider_def search_inv_def
        using less True inv i8
        by (auto simp: Let_def is_symmetric_neighbor_def depth_via_def)
    next
      case False
      have new: "unat (NeighborDistance ?n + 1) = depth_via ?n" "depth_via ?n < unat d"
        using depth_step [of ?n d] less False by simp_all
      then have "?M (insert i is) = unat (NeighborDistance ?n + 1)" using M less by simp
      then show ?thesis
        unfolding st link_parent_consider_def search_inv_def
        using less False inv i8 new
        by (auto simp: Let_def is_symmetric_neighbor_def depth_via_def)
    qed
  next
    case False
    have "?M (insert i is) = unat d"
      using M False by (auto simp: depth_via_def word_less_nat_alt)
    moreover have "link_parent_consider st i = st"
      using False inv(2) by (auto simp: st link_parent_consider_def Let_def is_symmetric_neighbor_def)
    ultimately show ?thesis
      unfolding search_inv_def st using inv by auto
  qed
qed

lemma search_foldl:
  assumes "\<forall>i \<in> set is. i < 8" and "search_inv s0 d0 p0 A st" and "finite A"
  shows "search_inv s0 d0 p0 (A \<union> set is) (foldl link_parent_consider st is)"
  using assms
proof (induction "is" arbitrary: A st)
  case (Cons i "is")
  have "search_inv s0 d0 p0 (insert i A) (link_parent_consider st i)"
    using Cons.prems by (intro search_step) auto
  then have "search_inv s0 d0 p0 (insert i A \<union> set is) (foldl link_parent_consider (link_parent_consider st i) is)"
    using Cons.prems by (intro Cons.IH) auto
  then show ?case by simp
qed simp

lemma search_start: "search_inv s d p {} (d, p, s)"
  by (simp add: search_inv_def)

text \<open>The search changes nothing else.\<close>

definition same_but_parent :: "net \<Rightarrow> net \<Rightarrow> bool" where
  "same_but_parent s s' \<longleftrightarrow> (\<exists>a b. s' = s\<lparr>ParentNeighborID := a, ParentRSSI := b\<rparr>)"

lemma same_but_parent_refl: "same_but_parent s s"
  unfolding same_but_parent_def by (rule exI [of _ "ParentNeighborID s"], rule exI [of _ "ParentRSSI s"]) simp

lemma same_but_parent_trans: "same_but_parent s s1 \<Longrightarrow> same_but_parent s1 s2 \<Longrightarrow> same_but_parent s s2"
proof -
  assume "same_but_parent s s1" and "same_but_parent s1 s2"
  then obtain a b a' b' where "s1 = s\<lparr>ParentNeighborID := a, ParentRSSI := b\<rparr>"
    "s2 = s1\<lparr>ParentNeighborID := a', ParentRSSI := b'\<rparr>"
    unfolding same_but_parent_def by blast
  then have "s2 = s\<lparr>ParentNeighborID := a', ParentRSSI := b'\<rparr>" by simp
  then show ?thesis unfolding same_but_parent_def by blast
qed

lemma same_but_parentD:
  assumes "same_but_parent s s'"
  shows "net_ok s' = net_ok s" "created s' = created s" "posted s' = posted s" "node_data s' = node_data s"
    "unet_neighbourhood s' = unet_neighbourhood s" "packet_down s' = packet_down s" "packet_up s' = packet_up s"
    "NeighborTable s' = NeighborTable s" "unet_routing_table_up s' = unet_routing_table_up s"
  using assms by (auto simp: same_but_parent_def net_ok_def)

lemma consider_keeps: "same_but_parent s (snd (snd (link_parent_consider (d, p, s) i)))"
proof -
  have "\<exists>a b. s\<lparr>ParentRSSI := r\<rparr> = s\<lparr>ParentNeighborID := a, ParentRSSI := b\<rparr>" for r
    by (rule exI [of _ "ParentNeighborID s"], rule exI [of _ r]) simp
  then have "same_but_parent s (s\<lparr>ParentRSSI := r\<rparr>)" for r
    by (simp add: same_but_parent_def)
  moreover have "same_but_parent s (s\<lparr>ParentNeighborID := a, ParentRSSI := r\<rparr>)" for a r
    by (auto simp: same_but_parent_def)
  ultimately show ?thesis
    by (simp add: link_parent_consider_def Let_def same_but_parent_refl)
qed

lemma search_keeps: "same_but_parent s (snd (snd (foldl link_parent_consider (d, p, s) is)))"
proof (induction "is" arbitrary: d p s)
  case (Cons i "is")
  obtain d1 p1 s1 where c: "link_parent_consider (d, p, s) i = (d1, p1, s1)"
    by (cases "link_parent_consider (d, p, s) i")
  have "same_but_parent s s1" using consider_keeps [of s d p i] c by simp
  with Cons.IH [of s1 d1 p1] show ?case
    using same_but_parent_trans c by simp
qed (simp add: same_but_parent_refl)

lemma post_guarded_sel [simp]:
  "node_data (post_guarded sig s) = node_data s" "unet_neighbourhood (post_guarded sig s) = unet_neighbourhood s"
  "ParentNeighborID (post_guarded sig s) = ParentNeighborID s" "param i (post_guarded sig s) = param i s"
  "net_ok (post_guarded sig s) = net_ok s" "created (post_guarded sig s) = created s"
  "packet_up (post_guarded sig s) = packet_up s" "packet_down (post_guarded sig s) = packet_down s"
  by (simp_all add: post_guarded_def param_def net_ok_def)

text \<open>
  The depth from which the search starts: a parent without a route is given up first.
\<close>

definition start_depth :: "device \<Rightarrow> net \<Rightarrow> u8" where
  "start_depth dev s =
     (let p = param NODE_PARENTINDEX s in
      if p \<noteq> NO_PARENT \<and> NeighborDistance (nb s (unat p)) = NODE_DISTANCE_INIT dev
      then NODE_DISTANCE_INIT dev else param NODE_DISTANCE s)"

lemma parent_switch_unfold:
  assumes "net_ok s"
  obtains s1 p1 d2 p2 s2 s' where
    "link_parent_switch dev s = Some s'" and "net_ok s1"
    and "unet_neighbourhood s1 = unet_neighbourhood s" and "p1 = NO_PARENT \<or> unat p1 < 8"
    and "foldl link_parent_consider (start_depth dev s, p1, s1) [0..<8] = (d2, p2, s2)"
    and "s' = (let s3 = set_param NODE_DISTANCE d2 s2 in
       if p2 \<noteq> param NODE_PARENTINDEX s3 then post_guarded Link_Packet_TX_Event (set_param NODE_PARENTINDEX p2 s3)
       else s3)"
    and "p1 = param NODE_PARENTINDEX s1" and "created s1 = created s"
    and "s1 = s \<or> s1 = set_param NODE_PARENTINDEX NO_PARENT (set_param NODE_DISTANCE (NODE_DISTANCE_INIT dev) s)"
proof -
  define p where "p = param NODE_PARENTINDEX s"
  define lost where "lost \<longleftrightarrow> p \<noteq> NO_PARENT \<and> NeighborDistance (nb s (unat p)) = NODE_DISTANCE_INIT dev"
  define s1 where "s1 = (if lost then set_param NODE_PARENTINDEX NO_PARENT (set_param NODE_DISTANCE (NODE_DISTANCE_INIT dev) s) else s)"
  define p1 where "p1 = (if lost then NO_PARENT else p)"
  have pok: "p = NO_PARENT \<or> unat p < 8"
    using net_okD(2) [OF assms] by (simp add: parent_index_ok_def p_def param_def)
  have ok1: "net_ok s1"
    using assms by (auto simp: s1_def intro!: net_ok_set_param)
  have par1: "p1 = param NODE_PARENTINDEX s1"
  proof (cases lost)
    case True
    have "node_ok (node_data (set_param NODE_DISTANCE (NODE_DISTANCE_INIT dev) s))"
      using param_set_param(2) [OF net_okD(1) [OF assms]] by simp
    with True show ?thesis by (simp add: p1_def s1_def param_set_param(1))
  qed (simp add: p1_def s1_def p_def)
  obtain d2 p2 s2 where f: "foldl link_parent_consider (start_depth dev s, p1, s1) [0..<8] = (d2, p2, s2)"
    by (cases "foldl link_parent_consider (start_depth dev s, p1, s1) [0..<8]")
  have "(if p \<noteq> NO_PARENT \<and> NeighborDistance (nb s (unat p)) = NODE_DISTANCE_INIT dev
         then (NODE_DISTANCE_INIT dev, NO_PARENT,
               set_param NODE_PARENTINDEX NO_PARENT (set_param NODE_DISTANCE (NODE_DISTANCE_INIT dev) s))
         else (param NODE_DISTANCE s, p, s)) = (start_depth dev s, p1, s1)"
    by (cases lost) (simp_all only: start_depth_def Let_def p_def [symmetric] p1_def s1_def lost_def
        if_True if_False simp_thms refl)
  then have "link_parent_switch dev s = Some (let s3 = set_param NODE_DISTANCE d2 s2 in
       if p2 \<noteq> param NODE_PARENTINDEX s3 then post_guarded Link_Packet_TX_Event (set_param NODE_PARENTINDEX p2 s3)
       else s3)"
    using pok f unfolding link_parent_switch_def Let_def p_def [symmetric] by auto
  moreover have "unet_neighbourhood s1 = unet_neighbourhood s" "created s1 = created s"
    "s1 = s \<or> s1 = set_param NODE_PARENTINDEX NO_PARENT (set_param NODE_DISTANCE (NODE_DISTANCE_INIT dev) s)"
    by (auto simp: s1_def)
  moreover have "p1 = NO_PARENT \<or> unat p1 < 8"
    using pok by (simp add: p1_def)
  ultimately show thesis
    using that ok1 par1 f by blast
qed

lemma symmetric_image:
  assumes "length ns = 8"
  shows "(\<lambda>i. depth_via (ns ! i)) ` {i \<in> set [0..<8]. Symmetric (ns ! i)} =
         depth_via ` {n \<in> set ns. Symmetric n}"
proof -
  have "{n \<in> set ns. Symmetric n} = (!) ns ` {i \<in> set [0..<8]. Symmetric (ns ! i)}"
  proof (intro equalityI subsetI)
    fix n assume "n \<in> {n \<in> set ns. Symmetric n}"
    then obtain i where "i < 8" "n = ns ! i" "Symmetric n"
      using assms by (metis (mono_tags, lifting) in_set_conv_nth mem_Collect_eq)
    then show "n \<in> (!) ns ` {i \<in> set [0..<8]. Symmetric (ns ! i)}" by simp
  next
    fix n assume "n \<in> (!) ns ` {i \<in> set [0..<8]. Symmetric (ns ! i)}"
    then show "n \<in> {n \<in> set ns. Symmetric n}" using assms by (elim imageE) simp
  qed
  then show ?thesis by (simp only: image_image)
qed

lemma parent_switch_result:
  assumes "net_ok s"
  obtains s' where "link_parent_switch dev s = Some s'" and "net_ok s'"
    and "unet_neighbourhood s' = unet_neighbourhood s" and "created s' = created s"
    and "unat (param NODE_DISTANCE s') = Min (insert (unat (start_depth dev s))
           (depth_via ` {n \<in> set (unet_neighbourhood s). Symmetric n}))"
    and "param NODE_DISTANCE s' \<noteq> start_depth dev s \<longrightarrow>
         (\<exists>i<8. unat (param NODE_PARENTINDEX s') = i \<and> Symmetric (nb s i) \<and>
           depth_via (nb s i) = unat (param NODE_DISTANCE s') \<and> ParentNeighborID s' = Addr_16b (nb s i))"
proof -
  obtain s1 p1 d2 p2 s2 s' where sw: "link_parent_switch dev s = Some s'" "net_ok s1"
    "unet_neighbourhood s1 = unet_neighbourhood s" "p1 = NO_PARENT \<or> unat p1 < 8"
    "foldl link_parent_consider (start_depth dev s, p1, s1) [0..<8] = (d2, p2, s2)"
    "s' = (let s3 = set_param NODE_DISTANCE d2 s2 in
       if p2 \<noteq> param NODE_PARENTINDEX s3 then post_guarded Link_Packet_TX_Event (set_param NODE_PARENTINDEX p2 s3)
       else s3)"
    "p1 = param NODE_PARENTINDEX s1" "created s1 = created s"
    by (rule parent_switch_unfold [OF assms, where dev = dev])
  have keep: "same_but_parent s1 s2"
    using search_keeps [of s1 "start_depth dev s" p1 "[0..<8]"] sw(5) by simp
  note k = same_but_parentD [OF keep]
  have inv: "search_inv s1 (start_depth dev s) p1 (set [0..<8]) (d2, p2, s2)"
    using search_foldl [OF _ search_start [of s1 "start_depth dev s" p1], of "[0..<8]"] sw(5) by simp
  have len: "length (unet_neighbourhood s) = 8" by (rule net_okD(3) [OF assms])
  have d2: "unat d2 = Min (insert (unat (start_depth dev s)) (depth_via ` {n \<in> set (unet_neighbourhood s). Symmetric n}))"
    using inv sw(3) by (simp only: search_inv_def prod.case symmetric_image [OF len])
  have p2: "p2 = NO_PARENT \<or> unat p2 < 8"
    using inv sw(4) by (auto simp: search_inv_def)
  have via: "\<exists>i<8. unat p2 = i \<and> Symmetric (nb s i) \<and> depth_via (nb s i) = unat d2 \<and> ParentNeighborID s2 = Addr_16b (nb s i)"
    if "d2 \<noteq> start_depth dev s"
  proof -
    from inv that sw(3) obtain i where "i < 8" "p2 = of_nat i" "Symmetric (nb s i)" "depth_via (nb s i) = unat d2"
      "ParentNeighborID s2 = Addr_16b (nb s i)"
      by (auto simp: search_inv_def)
    moreover from this have "unat p2 = i" by (simp add: unat_of_nat)
    ultimately show ?thesis by blast
  qed
  define s3 where "s3 = set_param NODE_DISTANCE d2 s2"
  define s4 where "s4 = set_param NODE_PARENTINDEX p2 s3"
  have ok2: "net_ok s2" using k(1) sw(2) by simp
  have ok3: "net_ok s3" using ok2 by (simp add: s3_def net_ok_set_param)
  have ok4: "net_ok s4" using ok3 p2 by (simp add: s4_def net_ok_set_param)
  have s'd: "s' = (if p2 \<noteq> param NODE_PARENTINDEX s3 then post_guarded Link_Packet_TX_Event s4 else s3)"
    using sw(6) by (simp only: Let_def s3_def s4_def)
  have par3: "param NODE_DISTANCE s3 = d2" "param NODE_DISTANCE s4 = d2" "param NODE_PARENTINDEX s4 = p2"
    using param_set_param(1) [OF net_okD(1) [OF ok2]] param_set_param(1) [OF net_okD(1) [OF ok3]]
    by (simp_all add: s3_def s4_def)
  have sel: "ParentNeighborID s3 = ParentNeighborID s2" "ParentNeighborID s4 = ParentNeighborID s2"
    "unet_neighbourhood s3 = unet_neighbourhood s" "unet_neighbourhood s4 = unet_neighbourhood s"
    "created s3 = created s" "created s4 = created s"
    using k(2, 5) sw(3, 8) by (simp_all add: s3_def s4_def)
  have rr: "param NODE_DISTANCE s' = d2 \<and> param NODE_PARENTINDEX s' = p2 \<and> net_ok s' \<and>
      ParentNeighborID s' = ParentNeighborID s2 \<and> unet_neighbourhood s' = unet_neighbourhood s \<and> created s' = created s"
  proof (cases "p2 = param NODE_PARENTINDEX s3")
    case True
    then have "s' = s3" by (simp only: s'd) simp
    then show ?thesis
      by (simp only: True par3 ok3 sel simp_thms)
  next
    case False
    then have "s' = post_guarded Link_Packet_TX_Event s4" by (simp only: s'd) simp
    then show ?thesis
      by (simp only: par3 ok4 sel post_guarded_sel simp_thms)
  qed
  have r: "param NODE_DISTANCE s' = d2" "param NODE_PARENTINDEX s' = p2" "net_ok s'"
    "ParentNeighborID s' = ParentNeighborID s2" "unet_neighbourhood s' = unet_neighbourhood s" "created s' = created s"
    using rr by blast+
  show thesis
  proof (rule that [OF sw(1)])
    show "net_ok s'" "unet_neighbourhood s' = unet_neighbourhood s" "created s' = created s" by (fact r)+
    show "unat (param NODE_DISTANCE s') = Min (insert (unat (start_depth dev s))
           (depth_via ` {n \<in> set (unet_neighbourhood s). Symmetric n}))"
      using d2 by (simp only: r(1))
    show "param NODE_DISTANCE s' \<noteq> start_depth dev s \<longrightarrow> (\<exists>i<8. unat (param NODE_PARENTINDEX s') = i \<and> Symmetric (nb s i) \<and>
           depth_via (nb s i) = unat (param NODE_DISTANCE s') \<and> ParentNeighborID s' = Addr_16b (nb s i))"
      by (simp only: r) (use via in blast)
  qed
qed

text \<open>
  C25. Choosing a parent is one relaxation step of the shortest-path computation: the search always
  returns, and the new depth of the node is the least of the depth it starts from and of one more
  than the distance of each symmetric neighbour; when that improves the depth, the parent is a
  symmetric neighbour through which it is attained.
\<close>

theorem link_parent_switch_shortest:
  assumes "net_ok s"
  shows "\<exists>s'. link_parent_switch dev s = Some s' \<and> net_ok s' \<and>
    unet_neighbourhood s' = unet_neighbourhood s \<and>
    unat (param NODE_DISTANCE s') = Min (insert (unat (start_depth dev s))
      (depth_via ` {n \<in> set (unet_neighbourhood s). Symmetric n})) \<and>
    (param NODE_DISTANCE s' \<noteq> start_depth dev s \<longrightarrow>
       (\<exists>i<8. unat (param NODE_PARENTINDEX s') = i \<and> Symmetric (nb s i) \<and>
          depth_via (nb s i) = unat (param NODE_DISTANCE s') \<and>
          ParentNeighborID s' = Addr_16b (nb s i)))"
proof -
  obtain s' where "link_parent_switch dev s = Some s'" "net_ok s'"
    "unet_neighbourhood s' = unet_neighbourhood s"
    "unat (param NODE_DISTANCE s') = Min (insert (unat (start_depth dev s))
           (depth_via ` {n \<in> set (unet_neighbourhood s). Symmetric n}))"
    "param NODE_DISTANCE s' \<noteq> start_depth dev s \<longrightarrow>
         (\<exists>i<8. unat (param NODE_PARENTINDEX s') = i \<and> Symmetric (nb s i) \<and>
           depth_via (nb s i) = unat (param NODE_DISTANCE s') \<and> ParentNeighborID s' = Addr_16b (nb s i))"
    by (rule parent_switch_result [OF assms, where dev = dev])
  then show ?thesis by blast
qed

section \<open>Every operation keeps the state well formed\<close>

lemma addresses_distinctD:
  "addresses_distinct ns \<Longrightarrow> i < length ns \<Longrightarrow> j < length ns \<Longrightarrow> Addr_16b (ns ! i) \<noteq> UNUSED_ADDR \<Longrightarrow>
   Addr_16b (ns ! j) = Addr_16b (ns ! i) \<Longrightarrow> j = i"
  unfolding addresses_distinct_def by metis

lemma addresses_distinct_map:
  "addresses_distinct ns \<longleftrightarrow> (let as = map Addr_16b ns in
     \<forall>i < length as. \<forall>j < length as. i \<noteq> j \<and> as ! i \<noteq> UNUSED_ADDR \<longrightarrow> as ! i \<noteq> as ! j)"
  by (simp add: addresses_distinct_def Let_def)

lemma addresses_distinct_cong: "map Addr_16b ns = map Addr_16b ns' \<Longrightarrow> addresses_distinct ns = addresses_distinct ns'"
  by (simp only: addresses_distinct_map)

lemma addresses_distinct_unused: "addresses_distinct ns \<Longrightarrow> Addr_16b x = UNUSED_ADDR \<Longrightarrow> addresses_distinct (ns[i := x])"
  unfolding addresses_distinct_def by (auto simp: nth_upd)

lemma addresses_distinct_fresh:
  "addresses_distinct ns \<Longrightarrow> Addr_16b x \<notin> Addr_16b ` set ns \<Longrightarrow> addresses_distinct (ns[i := x])"
proof -
  assume d: "addresses_distinct ns" and f: "Addr_16b x \<notin> Addr_16b ` set ns"
  have n: "Addr_16b (ns ! k) \<noteq> Addr_16b x" if "k < length ns" for k
    using f that by (metis image_eqI nth_mem)
  show ?thesis
    unfolding addresses_distinct_def
  proof (intro allI impI)
    fix a b assume ab: "a < length (ns[i := x])" "b < length (ns[i := x])"
      and "a \<noteq> b \<and> Addr_16b (ns[i := x] ! a) \<noteq> UNUSED_ADDR"
    then show "Addr_16b (ns[i := x] ! a) \<noteq> Addr_16b (ns[i := x] ! b)"
      using d n [of a] n [of b] by (cases "a = i"; cases "b = i") (auto simp: addresses_distinct_def)
  qed
qed

lemma net_ok_neighbours:
  assumes "net_ok s" and "length ns = 8" and "addresses_distinct ns"
  shows "net_ok (s\<lparr>unet_neighbourhood := ns\<rparr>)"
  using assms by (simp add: net_ok_def)

lemma net_ok_set_neighbour:
  assumes "net_ok s" and "\<And>n. Addr_16b (f n) = Addr_16b n"
  shows "net_ok (set_neighbour i f s)"
proof -
  have "map Addr_16b ((unet_neighbourhood s)[i := f (nb s i)]) = map Addr_16b (unet_neighbourhood s)"
    by (rule map_upd_same) (simp add: assms(2))
  then have "addresses_distinct ((unet_neighbourhood s)[i := f (nb s i)])"
    using addresses_distinct_cong net_okD(4) [OF assms(1)] by blast
  then show ?thesis
    unfolding set_neighbour_def using net_okD(3) [OF assms(1)] by (intro net_ok_neighbours assms(1)) simp_all
qed

lemma net_ok_clear_neighbour:
  assumes "net_ok s"
  shows "net_ok (set_neighbour i clear_neighbour s)"
  unfolding set_neighbour_def
  using net_okD(3, 4) [OF assms]
  by (intro net_ok_neighbours assms addresses_distinct_unused) (simp_all add: clear_neighbour_def)

lemma net_ok_table_init: "net_ok s \<Longrightarrow> net_ok (link_neighbor_table_init s)"
  unfolding link_neighbor_table_init_def
  by (rule net_ok_neighbours) (auto simp: net_okD addresses_distinct_def clear_neighbour_def)

lemma net_ok_table_clear: "net_ok s \<Longrightarrow> net_ok (unet_router_up_table_clear s)"
  by (simp add: net_ok_def unet_router_up_table_clear_def)

lemma net_ok_forget_parent: "net_ok s \<Longrightarrow> net_ok (forget_parent dev s)"
proof -
  assume "net_ok s"
  then have "net_ok (set_param NODE_PARENTINDEX NO_PARENT (set_param NODE_DISTANCE (NODE_DISTANCE_INIT dev) s))"
    by (intro net_ok_set_param) auto
  then show ?thesis by (simp add: forget_parent_def net_ok_def)
qed

lemma net_ok_post: "net_ok s \<Longrightarrow> post sig s = Some s' \<Longrightarrow> net_ok s'"
  by (auto simp: post_def net_ok_def split: if_splits)

lemma net_ok_mark_heard [simp]: "net_ok (mark_heard i s) = net_ok s"
  by (simp add: mark_heard_def net_ok_def)

lemma net_ok_symmetry_update: "net_ok s \<Longrightarrow> net_ok (link_neighbor_symmetry_update p i s)"
  by (auto simp: link_neighbor_symmetry_update_def Let_def intro!: net_ok_set_neighbour)

lemma created_sel [simp]:
  "created (set_neighbour i f s) = created s" "created (link_neighbor_table_init s) = created s"
  "created (unet_router_up_table_clear s) = created s" "created (forget_parent dev s) = created s"
  "created (mark_heard i s) = created s" "created (link_neighbor_symmetry_update p i s) = created s"
  by (simp_all add: set_neighbour_def link_neighbor_table_init_def unet_router_up_table_clear_def
      forget_parent_def mark_heard_def link_neighbor_symmetry_update_def Let_def)

lemma seq_next_node:
  "node_ok n \<Longrightarrow> node_ok (snd (node_seq_num_get_next n))"
  "i \<noteq> NODE_SEQ_NUM \<Longrightarrow> node_data_get i (snd (node_seq_num_get_next n)) = node_data_get i n"
  "Addr64 (snd (node_seq_num_get_next n)) = Addr64 n" "PANId64 (snd (node_seq_num_get_next n)) = PANId64 n"
  by (simp_all add: node_seq_num_get_next_def Let_def node_ok_def node_data_get_def)

lemma stamp_seqnum_eq:
  "stamp_seqnum s p =
     (s\<lparr>node_data := snd (node_seq_num_get_next (node_data s))\<rparr>,
      put_info PKTINFO_SEQNUM (fst (node_seq_num_get_next (node_data s))) p)"
  by (simp add: stamp_seqnum_def split: prod.splits)

lemma stamp_seqnum_result:
  assumes "stamp_seqnum s p = (s', p')"
  shows "bytes p' = bytes p" and "state p' = state p" and "packet_ok p' = packet_ok p"
    and "net_ok s \<Longrightarrow> net_ok s'" and "i \<noteq> NODE_SEQ_NUM \<Longrightarrow> param i s' = param i s"
    and "s' = s\<lparr>node_data := node_data s'\<rparr>"
    and "Addr64 (node_data s') = Addr64 (node_data s)" and "PANId64 (node_data s') = PANId64 (node_data s)"
proof -
  have s': "s' = s\<lparr>node_data := snd (node_seq_num_get_next (node_data s))\<rparr>"
    and p': "p' = put_info PKTINFO_SEQNUM (fst (node_seq_num_get_next (node_data s))) p"
    using assms by (simp_all add: stamp_seqnum_eq)
  show "bytes p' = bytes p" "state p' = state p" "packet_ok p' = packet_ok p" by (simp_all add: p')
  show "s' = s\<lparr>node_data := node_data s'\<rparr>" by (simp add: s')
  show "Addr64 (node_data s') = Addr64 (node_data s)" "PANId64 (node_data s') = PANId64 (node_data s)"
    by (simp_all add: s' seq_next_node)
  show "param i s' = param i s" if "i \<noteq> NODE_SEQ_NUM"
    using that by (simp add: s' param_def seq_next_node)
  show "net_ok s'" if "net_ok s"
    using that by (simp add: s' net_ok_def parent_index_ok_def seq_next_node)
qed

section \<open>The neighbour table is a map from addresses\<close>

text \<open>The address a link packet is from.\<close>

definition link_sender :: "packet \<Rightarrow> u16" where
  "link_sender p = join16 (byte p UNET_CTRL_MSG_ADDR16H) (byte p UNET_CTRL_MSG_ADDR16L)"

text \<open>
  Looking up the sender of a link packet: a known sender is found and nothing changes; a new
  one takes an unused entry, the only one that changes, with the signal strength of the packet;
  a new one that finds no unused entry is refused.  No address ever stands twice in the table.
\<close>

theorem link_neighbor_table_find_spec:
  assumes "net_ok s" and "link_neighbor_table_find p s = (i, s')"
  shows "net_ok s' \<and> created s' = created s \<and>
    (if link_sender p \<in> Addr_16b ` set (unet_neighbourhood s)
     then i < 8 \<and> Addr_16b (nb s i) = link_sender p \<and> s' = s
     else if UNUSED_ADDR \<in> Addr_16b ` set (unet_neighbourhood s)
     then i < 8 \<and> Addr_16b (nb s i) = UNUSED_ADDR \<and> Addr_16b (nb s' i) = link_sender p \<and>
          NeighborRSSI (nb s' i) = packet_info_get PKTINFO_RSSI p \<and>
          (\<forall>j. j \<noteq> i \<longrightarrow> nb s' j = nb s j)
     else i = 8 \<and> s' = s)"
proof -
  let ?ns = "unet_neighbourhood s" and ?a = "link_sender p"
  let ?k = "first_idx (\<lambda>n. Addr_16b n = ?a) ?ns" and ?u = "first_idx (\<lambda>n. Addr_16b n = UNUSED_ADDR) ?ns"
  have len: "length ?ns = 8" by (rule net_okD(3) [OF assms(1)])
  have hit: "?k < 8 \<longleftrightarrow> ?a \<in> Addr_16b ` set ?ns" "?u < 8 \<longleftrightarrow> UNUSED_ADDR \<in> Addr_16b ` set ?ns"
    using first_idx_key [of Addr_16b ?a ?ns] first_idx_key [of Addr_16b UNUSED_ADDR ?ns] by (simp_all only: len)
  have find: "(i, s') = (if ?k < 8 then (?k, s) else if ?u < 8 then
      (?u, (set_neighbour ?u (\<lambda>n. n\<lparr>Addr_16b := ?a, NeighborRSSI := packet_info_get PKTINFO_RSSI p,
             NeighborMyRSSI := 0\<rparr>) s)\<lparr>NeighborLinkPacketTimeCnt := 1\<rparr>) else (8, s))"
    using assms(2) unfolding link_neighbor_table_find_def Let_def link_sender_def by simp
  consider "?k < 8" | "\<not> ?k < 8" "?u < 8" | "\<not> ?k < 8" "\<not> ?u < 8" by blast
  then show ?thesis
  proof cases
    case 1
    then show ?thesis
      using find hit first_idx_hit [of "\<lambda>n. Addr_16b n = ?a" ?ns] len assms(1) by simp
  next
    case 2
    define x where "x = (nb s ?u)\<lparr>Addr_16b := ?a, NeighborRSSI := packet_info_get PKTINFO_RSSI p, NeighborMyRSSI := 0\<rparr>"
    have s': "i = ?u" "s' = s\<lparr>unet_neighbourhood := ?ns[?u := x], NeighborLinkPacketTimeCnt := 1\<rparr>"
      using find 2 by (simp_all add: set_neighbour_def x_def)
    have "addresses_distinct (?ns[?u := x])"
      using 2 hit net_okD(4) [OF assms(1)] by (intro addresses_distinct_fresh) (simp_all add: x_def)
    then have "net_ok s'"
      using assms(1) len by (simp add: s' net_ok_def)
    then show ?thesis
      using 2 hit first_idx_hit [of "\<lambda>n. Addr_16b n = UNUSED_ADDR" ?ns] len
      by (simp add: s' x_def nth_upd)
  next
    case 3
    then show ?thesis using find hit assms(1) by simp
  qed
qed

end
