(* ===== verification/Link_Safety.thy ===== *)
theory Link_Safety
  imports Link_Laws
begin

text \<open>
  The link layer against arbitrary frames: no link packet, whatever its bytes, makes the node fault
  or breaks the well-formedness of its state; the ageing of the table removes exactly the silent
  neighbours; the duplicate test recognises the sequence number that was noted last.
\<close>

section \<open>Receiving a link packet\<close>

lemma find_ok:
  assumes "net_ok s" and "link_neighbor_table_find p s = (i, s')"
  shows "net_ok s'" and "created s' = created s" and "i < 8 \<Longrightarrow> Addr_16b (nb s' i) = link_sender p"
    and "i \<le> 8"
proof -
  let ?ns = "unet_neighbourhood s"
  let ?k = "first_idx (\<lambda>n. Addr_16b n = link_sender p) ?ns" and ?u = "first_idx (\<lambda>n. Addr_16b n = UNUSED_ADDR) ?ns"
  have len: "length ?ns = 8" by (rule net_okD(3) [OF assms(1)])
  define x where "x = (nb s ?u)\<lparr>Addr_16b := link_sender p, NeighborRSSI := packet_info_get PKTINFO_RSSI p, NeighborMyRSSI := 0\<rparr>"
  have find: "(i, s') = (if ?k < 8 then (?k, s) else if ?u < 8 then
      (?u, s\<lparr>unet_neighbourhood := ?ns[?u := x], NeighborLinkPacketTimeCnt := 1\<rparr>) else (8, s))"
    using assms(2) unfolding link_neighbor_table_find_def Let_def link_sender_def [symmetric] set_neighbour_def x_def
    by simp
  have fresh: "addresses_distinct (?ns[?u := x])" if "\<not> ?k < 8"
    using that first_idx_key [of Addr_16b "link_sender p" ?ns] len net_okD(4) [OF assms(1)]
    by (intro addresses_distinct_fresh) (simp_all add: x_def)
  show "net_ok s'"
    using find fresh assms(1) len by (auto simp: net_ok_def split: if_splits)
  show "created s' = created s" using find by (auto split: if_splits)
  show "Addr_16b (nb s' i) = link_sender p" if "i < 8"
    using find that first_idx_hit [of "\<lambda>n. Addr_16b n = link_sender p" ?ns] len
    by (auto simp: x_def split: if_splits)
  show "i \<le> 8" using find by (auto split: if_splits)
qed

lemma post_created:
  assumes "net_ok s" and "created s sig"
  obtains s' where "post sig s = Some s'" and "net_ok s'" and "created s' = created s"
    and "unet_neighbourhood s' = unet_neighbourhood s" and "node_data s' = node_data s"
  using assms that by (simp add: post_def net_ok_def)

lemma link_node_distance_update_ok:
  assumes "net_ok s"
  obtains s' where "link_node_distance_update dev s = Some s'" and "net_ok s'" and "created s' = created s"
    and "unet_neighbourhood s' = unet_neighbourhood s"
  using parent_switch_result [OF assms, where dev = dev] that unfolding link_node_distance_update_def by metis

lemma link_packet_process_ok:
  assumes "net_ok s" and "created s Link_Packet_TX_Event"
  shows "\<exists>s'. link_packet_process dev p s = Some s' \<and> net_ok s' \<and> created s' = created s"
proof -
  obtain i s1 where f: "link_neighbor_table_find p s = (i, s1)" by (cases "link_neighbor_table_find p s")
  note ok1 = find_ok [OF assms(1) f]
  let ?g = "\<lambda>n. (heard p n)\<lparr>NeighborDistance := byte p UNET_CTRL_MSG_DISTANCE\<rparr>"
  define s2 where "s2 = set_neighbour i ?g s1"
  define s3 where "s3 = mark_heard i (link_neighbor_symmetry_update p i s2)"
  have ok2: "net_ok s2" "created s2 = created s"
    using ok1 by (auto simp: s2_def heard_def intro!: net_ok_set_neighbour)
  have ok3: "net_ok s3" "created s3 = created s"
    using ok2 by (simp_all add: s3_def net_ok_symmetry_update)
  obtain s4 where s4: "link_node_distance_update dev s3 = Some s4" "net_ok s4" "created s4 = created s"
    using link_node_distance_update_ok [OF ok3(1)] ok3(2) by metis
  obtain s5 where s5: "post Link_Packet_TX_Event s4 = Some s5" "net_ok s5" "created s5 = created s"
    using post_created [OF s4(2)] s4(3) assms(2) by metis
  define s6 where "s6 = (if dev \<noteq> PAN_COORDINATOR \<and> ParentNeighborID s3 = Addr_16b (nb s3 i)
      then unet_router_up_table_clear (link_neighbor_table_init (forget_parent dev s3)) else s3)"
  have ok6: "net_ok s6" "created s6 = created s"
    using ok3 by (simp_all add: s6_def net_ok_table_clear net_ok_table_init net_ok_forget_parent)
  have eq: "link_packet_process dev p s = (if i < 8 then
      if \<not> unat (byte p UNET_CTRL_MSG_NB_COUNT) < 8 then Some s2
      else if byte p UNET_CTRL_MSG_PACKET_TYPE = NEIGHBOR_ADV then Some s4
      else if byte p UNET_CTRL_MSG_PACKET_TYPE = NEIGHBOR_ADV_RESET then Some s5
      else if byte p UNET_CTRL_MSG_PACKET_TYPE = NEIGHBOR_REQ then
        Some (if dev = PAN_COORDINATOR \<or> param NODE_PARENTINDEX s6 \<noteq> NO_PARENT
              then post_guarded Link_Packet_TX_Event s6 else s6)
      else Some s3 else Some s1)"
    unfolding link_packet_process_def f Let_def prod.case s2_def [symmetric] s3_def [symmetric] s6_def [symmetric]
    by (simp only: s4 s5 bind.bind_lunit)
  consider "link_packet_process dev p s = Some s1" | "link_packet_process dev p s = Some s2"
    | "link_packet_process dev p s = Some s3" | "link_packet_process dev p s = Some s4"
    | "link_packet_process dev p s = Some s5" | "link_packet_process dev p s = Some s6"
    | "link_packet_process dev p s = Some (post_guarded Link_Packet_TX_Event s6)"
    unfolding eq by presburger
  then show ?thesis
    using ok1 ok2 ok3 s4 s5 ok6 by cases auto
qed

text \<open>
  No link packet can harm a node: whatever the bytes of the frame, \<open>link_packet_process\<close>
  returns, and the state it leaves is well formed: the parent index is in the table or absent, no
  address stands twice, every array has its size.
\<close>

theorem link_packet_process_safe:
  assumes "net_ok s" and "created s Link_Packet_TX_Event"
  shows "\<exists>s'. link_packet_process dev p s = Some s' \<and> net_ok s' \<and> created s' = created s"
  by (rule link_packet_process_ok [OF assms])

section \<open>Duplicates\<close>

text \<open>
  The duplicate test: after the sequence number of a packet is noted, a frame from its sender
  is a duplicate exactly when the sender is a neighbour and the frame carries that number; the
  answer for every other sender stays what it was.
\<close>

theorem link_duplicates:
  assumes "net_ok s"
  shows "link_packet_is_duplicated a q (link_set_neighbor_seqnum p s) =
    (if a = packet_get_source_addr16 p
     then a \<in> Addr_16b ` set (unet_neighbourhood s) \<and> q = packet_info_get PKTINFO_SEQNUM p
     else link_packet_is_duplicated a q s)"
proof -
  let ?ns = "unet_neighbourhood s" and ?src = "packet_get_source_addr16 p"
  let ?i = "\<lambda>a ns. first_idx (\<lambda>n. Addr_16b n = a) ns"
  have len: "length ?ns = 8" by (rule net_okD(3) [OF assms])
  define x where "x = (nb s (?i ?src ?ns))\<lparr>NeighborLastID := packet_info_get PKTINFO_SEQNUM p\<rparr>"
  have set: "unet_neighbourhood (link_set_neighbor_seqnum p s) =
      (if ?i ?src ?ns < 8 then ?ns[?i ?src ?ns := x] else ?ns)"
    by (simp add: link_set_neighbor_seqnum_def Let_def set_neighbour_def x_def)
  have addrs: "map Addr_16b (unet_neighbourhood (link_set_neighbor_seqnum p s)) = map Addr_16b ?ns"
    unfolding set by (auto intro!: map_upd_same simp: x_def)
  have idx: "?i a ns = ?i a ns'" if "map Addr_16b ns = map Addr_16b ns'" for a ns ns'
    using that by (induction ns ns' rule: list_induct2') auto
  have hit: "?i a ?ns < 8 \<longleftrightarrow> a \<in> Addr_16b ` set ?ns" for a
    using first_idx_key [of Addr_16b a ?ns] len by simp
  have other: "?i a ?ns \<noteq> ?i ?src ?ns" if "a \<noteq> ?src" "?i a ?ns < 8"
  proof
    assume "?i a ?ns = ?i ?src ?ns"
    then show False
      using first_idx_hit [of "\<lambda>n. Addr_16b n = a" ?ns] first_idx_hit [of "\<lambda>n. Addr_16b n = ?src" ?ns] that len
      by simp
  qed
  show ?thesis
  proof (cases "a = ?src")
    case True
    then show ?thesis
      unfolding link_packet_is_duplicated_def Let_def idx [OF addrs] hit
      unfolding set using len hit by (auto simp: x_def)
  next
    case False
    then show ?thesis
      unfolding link_packet_is_duplicated_def Let_def idx [OF addrs]
      unfolding set using other len by (auto simp: nth_upd)
  qed
qed

section \<open>Ageing\<close>

definition aged :: "u16 \<Rightarrow> nat \<Rightarrow> neighbour \<Rightarrow> neighbour" where
  "aged heard_table i n =
     (if bit heard_table i \<or> Addr_16b n = UNUSED_ADDR then n else clear_neighbour n)"

lemma table_bit: "(w :: u16) AND push_bit i 1 = 0 \<longleftrightarrow> \<not> bit w i"
  by (simp add: and_exp_eq_0_iff_not_bit)

lemma aged_sel [simp]:
  "unet_neighbourhood (forget_parent dev s) = unet_neighbourhood s"
  "NeighborTable (forget_parent dev s) = NeighborTable s"
  "ParentNeighborID (forget_parent dev s) = UNUSED_ADDR"
  "NeighborTable (set_neighbour i f s) = NeighborTable s"
  "unet_neighbourhood (set_neighbour i f s) = (unet_neighbourhood s)[i := f (nb s i)]"
  by (simp_all add: forget_parent_def set_neighbour_def)

lemma verify_neighbour_step:
  assumes "net_ok s" and "created s Link_Packet_TX_Event"
  obtains rst' s' where "verify_neighbour dev i (rst, s) = Some (rst', s')" and "net_ok s'"
    and "created s' = created s" and "NeighborTable s' = NeighborTable s"
    and "unet_neighbourhood s' = (unet_neighbourhood s)[i := aged (NeighborTable s) i (nb s i)]"
    and "rst' \<longrightarrow> rst \<or> dev = ROUTER"
proof -
  define s1 where "s1 = (if dev = ROUTER \<and> Addr_16b (nb s i) \<noteq> UNUSED_ADDR \<and>
      ParentNeighborID s = Addr_16b (nb s i) \<and> \<not> is_symmetric_neighbor i s then forget_parent dev s else s)"
  have 1: "net_ok s1" "created s1 = created s" "NeighborTable s1 = NeighborTable s"
    "unet_neighbourhood s1 = unet_neighbourhood s"
    using assms(1) by (simp_all add: s1_def net_ok_forget_parent)
  show thesis
  proof (cases "NeighborTable s1 AND push_bit i 1 = 0 \<and> Addr_16b (nb s1 i) \<noteq> UNUSED_ADDR")
    case False
    then have "verify_neighbour dev i (rst, s) = Some (rst, s1)"
      unfolding verify_neighbour_def Let_def prod.case s1_def [symmetric] by (simp only: if_False)
    moreover have "aged (NeighborTable s) i (nb s i) = nb s i"
      using False unfolding table_bit 1 by (auto simp: aged_def)
    ultimately show thesis using 1 that by (simp add: list_update_id)
  next
    case True
    define lost where "lost \<longleftrightarrow> dev = ROUTER \<and> ParentNeighborID s1 = Addr_16b (nb s1 i)"
    define s3 where "s3 = set_neighbour i clear_neighbour (if lost then forget_parent dev s1 else s1)"
    have 3: "net_ok s3" "created s3 = created s" "NeighborTable s3 = NeighborTable s"
      "unet_neighbourhood s3 = (unet_neighbourhood s)[i := clear_neighbour (nb s i)]"
      using 1 by (auto simp: s3_def intro!: net_ok_clear_neighbour net_ok_forget_parent)
    have cl: "aged (NeighborTable s) i (nb s i) = clear_neighbour (nb s i)"
      using True unfolding table_bit 1 by (simp add: aged_def)
    define s4 where "s4 = s3\<lparr>posted := posted s3 @ [Link_Packet_TX_Event]\<rparr>"
    have p: "post Link_Packet_TX_Event s3 = Some s4"
      using 3(2) assms(2) by (simp add: post_def s4_def)
    have "verify_neighbour dev i (rst, s) = Some (rst \<or> lost, s4)"
      unfolding verify_neighbour_def Let_def prod.case s1_def [symmetric] lost_def [symmetric] s3_def [symmetric]
      using True by (simp add: p)
    moreover have "net_ok s4" using 3(1) by (simp add: s4_def net_ok_def)
    ultimately show thesis
      using 3 cl by (intro that [of "rst \<or> lost" s4]) (auto simp: s4_def lost_def)
  qed
qed

lemma verify_loop_result:
  assumes "net_ok s" and "created s Link_Packet_TX_Event" and "distinct is" and "\<forall>i \<in> set is. i < 8"
  shows "\<exists>rst' s'. verify_loop dev is (rst, s) = Some (rst', s') \<and> net_ok s' \<and> created s' = created s \<and>
    NeighborTable s' = NeighborTable s \<and> (rst' \<longrightarrow> rst \<or> dev = ROUTER) \<and>
    (\<forall>j<8. nb s' j = (if j \<in> set is then aged (NeighborTable s) j (nb s j) else nb s j))"
  using assms
proof (induction "is" arbitrary: rst s)
  case (Cons i "is")
  obtain rst1 s1 where 1: "verify_neighbour dev i (rst, s) = Some (rst1, s1)" "net_ok s1"
    "created s1 = created s" "NeighborTable s1 = NeighborTable s"
    "unet_neighbourhood s1 = (unet_neighbourhood s)[i := aged (NeighborTable s) i (nb s i)]"
    "rst1 \<longrightarrow> rst \<or> dev = ROUTER"
    by (rule verify_neighbour_step [OF Cons.prems(1, 2), where dev = dev and i = i and rst = rst])
  obtain rst' s' where 2: "verify_loop dev is (rst1, s1) = Some (rst', s')" "net_ok s'"
    "created s' = created s1" "NeighborTable s' = NeighborTable s1" "rst' \<longrightarrow> rst1 \<or> dev = ROUTER"
    "\<forall>j<8. nb s' j = (if j \<in> set is then aged (NeighborTable s1) j (nb s1 j) else nb s1 j)"
    using Cons.IH [OF 1(2), of rst1] Cons.prems 1(3) by auto
  have "length (unet_neighbourhood s) = 8" by (rule net_okD(3) [OF Cons.prems(1)])
  then have "nb s1 j = (if j = i then aged (NeighborTable s) j (nb s j) else nb s j)" if "j < 8" for j
    using that Cons.prems(4) by (simp add: 1(5) nth_upd)
  then have "\<forall>j<8. nb s' j = (if j \<in> set (i # is) then aged (NeighborTable s) j (nb s j) else nb s j)"
    using 2(6) 1(4) Cons.prems(3) by auto
  then show ?case
    using 1 2 by auto
qed simp

lemma link_verify_ok:
  assumes "net_ok s" and "created s Link_Packet_TX_Event"
  shows "\<exists>s'. link_verify_neighbourhood dev s = Some s' \<and> net_ok s' \<and> NeighborTable s' = 0 \<and>
    ((\<forall>i<8. nb s' i = aged (NeighborTable s) i (nb s i)) \<or>
     dev = ROUTER \<and> (\<forall>i<8. Addr_16b (nb s' i) = UNUSED_ADDR))"
proof -
  obtain rst s1 where 1: "verify_loop dev [0..<8] (False, s) = Some (rst, s1)" "net_ok s1"
    "created s1 = created s" "rst \<longrightarrow> False \<or> dev = ROUTER"
    "\<forall>j<8. nb s1 j = (if j \<in> set [0..<8] then aged (NeighborTable s) j (nb s j) else nb s j)"
    using verify_loop_result [OF assms, of "[0..<8]" dev False] by auto
  have old: "\<forall>j<8. nb s1 j = aged (NeighborTable s) j (nb s j)" using 1(5) by auto
  obtain s2 where 2: "link_parent_switch dev s1 = Some s2" "net_ok s2"
      "unet_neighbourhood s2 = unet_neighbourhood s1"
    by (rule parent_switch_result [OF 1(2), where dev = dev])
  define s3 where "s3 = unet_router_up_table_clear (link_neighbor_table_init s1)"
  have 3: "net_ok s3" "\<forall>i<8. Addr_16b (nb s3 i) = UNUSED_ADDR"
  proof -
    show "net_ok s3" using 1(2) by (simp only: s3_def net_ok_table_clear net_ok_table_init)
    show "\<forall>i<8. Addr_16b (nb s3 i) = UNUSED_ADDR"
      using net_okD(3) [OF 1(2)]
      by (simp add: s3_def unet_router_up_table_clear_def link_neighbor_table_init_def clear_neighbour_def)
  qed
  have fin: "link_verify_neighbourhood dev s =
      (if dev = ROUTER \<and> param NODE_DISTANCE s1 = NODE_DISTANCE_INIT dev
       then if rst then Some (s3\<lparr>NeighborTable := 0\<rparr>) else Some (s2\<lparr>NeighborTable := 0\<rparr>)
       else Some (s1\<lparr>NeighborTable := 0\<rparr>))"
    using 2(1) unfolding link_verify_neighbourhood_def 1(1) s3_def
    by (cases dev) simp_all
  have nt: "net_ok (t\<lparr>NeighborTable := 0\<rparr>) = net_ok t" for t by (simp add: net_ok_def)
  consider "link_verify_neighbourhood dev s = Some (s1\<lparr>NeighborTable := 0\<rparr>)"
    | "link_verify_neighbourhood dev s = Some (s2\<lparr>NeighborTable := 0\<rparr>)"
    | "link_verify_neighbourhood dev s = Some (s3\<lparr>NeighborTable := 0\<rparr>)" "dev = ROUTER"
    using fin by presburger
  then show ?thesis
    using old 1(2) 2(2, 3) 3 by cases (simp_all add: nt)
qed

text \<open>
  Ageing: the check of the neighbourhood returns in a well-formed state with an empty record of
  who was heard; either every entry of the table is as it was, except that the neighbours which
  were silent since the last check are removed, or a router has lost its parent and the whole
  table is empty.
\<close>

theorem link_verify_neighbourhood_ages:
  assumes "net_ok s" and "created s Link_Packet_TX_Event"
  shows "\<exists>s'. link_verify_neighbourhood dev s = Some s' \<and> net_ok s' \<and> NeighborTable s' = 0 \<and>
    ((\<forall>i<8. nb s' i = aged (NeighborTable s) i (nb s i)) \<or>
     dev = ROUTER \<and> (\<forall>i<8. Addr_16b (nb s' i) = UNUSED_ADDR))"
  by (rule link_verify_ok [OF assms])

section \<open>Examples\<close>

definition known_net :: net where
  "known_net = sample_net\<lparr>unet_neighbourhood :=
     (replicate 8 no_neighbour)[0 := no_neighbour\<lparr>Addr_16b := 9, NeighborRSSI := 40, Symmetric := True,
        NeighborMyRSSI := 40, NeighborLastID := 3, NeighborDistance := 1\<rparr>],
     node_data := sample_node\<lparr>node_param := (node_param sample_node)[1 := 255]\<rparr>\<rparr>"

lemma known_net_ok: "net_ok known_net"
proof -
  have "parent_index_ok (sample_node\<lparr>node_param := (node_param sample_node)[1 := 255]\<rparr>)"
    "node_ok (sample_node\<lparr>node_param := (node_param sample_node)[1 := 255]\<rparr>)"
    by (simp_all add: parent_index_ok_def sample_node_def node_data_get_def node_ok_def)
  moreover have "addresses_distinct ((replicate 8 no_neighbour)[0 := no_neighbour\<lparr>Addr_16b := 9, NeighborRSSI := 40,
      Symmetric := True, NeighborMyRSSI := 40, NeighborLastID := 3, NeighborDistance := 1\<rparr>])"
    by (auto simp: addresses_distinct_def nth_upd no_neighbour_def)
  ultimately show ?thesis
    using sample_net_ok by (simp add: net_ok_def known_net_def)
qed

lemma known_table:
  "unet_neighbourhood known_net = no_neighbour\<lparr>Addr_16b := 9, NeighborRSSI := 40, Symmetric := True,
     NeighborMyRSSI := 40, NeighborLastID := 3, NeighborDistance := 1\<rparr> # replicate 7 no_neighbour"
  using replicate_Suc [of 7 no_neighbour] by (simp add: known_net_def)

lemma known_net_created: "created known_net sig"
  by (simp add: known_net_def)

theorem link_packet_process_safe_witness:
  "\<exists>s'. link_packet_process ROUTER sample_packet known_net = Some s' \<and> net_ok s'"
  using link_packet_process_safe [OF known_net_ok known_net_created, of ROUTER sample_packet] by blast

theorem link_duplicates_witness:
  "\<not> link_packet_is_duplicated 9 (packet_info_get PKTINFO_SEQNUM sample_packet)
       (link_set_neighbor_seqnum sample_packet known_net)"
proof -
  have "packet_get_source_addr16 sample_packet = 0"
    by (simp add: packet_get_source_addr16_def packet_info_get_def sample_packet_def join16_def)
  moreover have "\<not> link_packet_is_duplicated 9 (packet_info_get PKTINFO_SEQNUM sample_packet) known_net"
    by (simp add: link_packet_is_duplicated_def known_table packet_info_get_def sample_packet_def Let_def)
  ultimately show ?thesis
    unfolding link_duplicates [OF known_net_ok] by simp
qed

theorem link_verify_neighbourhood_ages_witness:
  "\<exists>s'. link_verify_neighbourhood PAN_COORDINATOR known_net = Some s' \<and> Addr_16b (nb s' 0) = UNUSED_ADDR"
proof -
  obtain s' where s': "link_verify_neighbourhood PAN_COORDINATOR known_net = Some s'"
    "\<forall>i<8. nb s' i = aged (NeighborTable known_net) i (nb known_net i)"
    using link_verify_neighbourhood_ages [OF known_net_ok known_net_created, of PAN_COORDINATOR] by blast
  then have "nb s' 0 = aged (NeighborTable known_net) 0 (nb known_net 0)" by simp
  then have "Addr_16b (nb s' 0) = UNUSED_ADDR"
    by (simp add: known_net_def aged_def clear_neighbour_def)
  with s'(1) show ?thesis by blast
qed

theorem link_parent_switch_shortest_witness:
  "\<exists>s'. link_parent_switch ROUTER known_net = Some s' \<and> unat (param NODE_DISTANCE s') = 2"
proof -
  obtain s' where s': "link_parent_switch ROUTER known_net = Some s'"
    "unat (param NODE_DISTANCE s') = Min (insert (unat (start_depth ROUTER known_net))
      (depth_via ` {n \<in> set (unet_neighbourhood known_net). Symmetric n}))"
    using link_parent_switch_shortest [OF known_net_ok, of ROUTER] by blast
  have "{n \<in> set (unet_neighbourhood known_net). Symmetric n} = {nb known_net 0}"
    by (auto simp: known_table no_neighbour_def)
  moreover have "depth_via (nb known_net 0) = 2" by (simp add: known_net_def depth_via_def)
  moreover have "start_depth ROUTER known_net = 255"
    by (simp add: start_depth_def known_net_def param_def node_data_get_def sample_node_def NODE_DISTANCE_INIT_def)
  ultimately have "unat (param NODE_DISTANCE s') = 2" using s'(2) by simp
  with s'(1) show ?thesis by blast
qed

theorem link_neighbor_table_find_spec_witness:
  "fst (link_neighbor_table_find sample_packet known_net) < 8"
proof -
  have "link_sender sample_packet = 0"
    by (simp add: link_sender_def join16_def sample_packet_def)
  moreover have "UNUSED_ADDR \<in> Addr_16b ` set (unet_neighbourhood known_net)"
    by (simp add: known_table no_neighbour_def)
  moreover have "(0 :: u16) \<notin> Addr_16b ` set (unet_neighbourhood known_net)"
    by (simp add: known_table no_neighbour_def)
  ultimately show ?thesis
    using link_neighbor_table_find_spec [OF known_net_ok surjective_pairing] by simp
qed

end
