(* ===== verification/Link_Adverts.thy ===== *)
theory Link_Adverts
  imports Link_Safety
begin

text \<open>
  The link packet as a message: what \<open>link_packet_create\<close> puts on the air is what
  \<open>link_packet_process\<close> learns from it at a neighbour.
\<close>

section \<open>The bytes of a link packet\<close>

lemma byte_unet_header_set:
  assumes "packet_ok p" and "32 \<le> j"
  shows "byte (unet_header_set t h x src dst l p) j = byte p j"
  using assms by (auto simp: unet_header_set_def Let_def byte_put byte_put_all packet_ok_def)

lemma unet_header_set_sel [simp]:
  "info (unet_header_set t h x src dst l p) = info p" "state (unet_header_set t h x src dst l p) = state p"
  "packet_ok (unet_header_set t h x src dst l p) = packet_ok p"
  by (simp_all add: unet_header_set_def Let_def)

lemma byte_11_header_set: "packet_ok p \<Longrightarrow> byte (unet_header_set t h x src dst l p) 11 = UNET_LLC_PROTO_NUMBER"
  by (simp add: unet_header_set_def Let_def byte_put packet_ok_def)

lemma length_neighbour_bytes [simp]: "length (concat (map neighbour_bytes ns)) = 3 * length ns"
  by (induction ns) (simp_all add: neighbour_bytes_def)

lemma nth_neighbour_bytes:
  "k < length ns \<Longrightarrow> r < 3 \<Longrightarrow> concat (map neighbour_bytes ns) ! (3 * k + r) = neighbour_bytes (ns ! k) ! r"
proof (induction ns arbitrary: k)
  case (Cons n ns)
  have l: "length (neighbour_bytes n) = 3" by (simp add: neighbour_bytes_def)
  show ?case
  proof (cases k)
    case 0
    with Cons.prems l show ?thesis by (simp add: nth_append)
  next
    case (Suc j)
    have "3 * k + r = 3 + (3 * j + r)" using Suc by simp
    then show ?thesis using Cons Suc l by (simp add: nth_append)
  qed
qed simp

text \<open>The payload of the link packet.\<close>

definition link_payload :: "u8 \<Rightarrow> net \<Rightarrow> packet \<Rightarrow> bool" where
  "link_payload type s p \<longleftrightarrow>
     byte p UNET_CTRL_MSG_PACKET_TYPE = type \<and>
     byte p UNET_CTRL_MSG_ADDR16H = param NODE_ADDR16H s \<and> byte p UNET_CTRL_MSG_ADDR16L = param NODE_ADDR16L s \<and>
     byte p UNET_CTRL_MSG_DISTANCE = param NODE_DISTANCE s \<and>
     byte p UNET_CTRL_MSG_NB_COUNT = of_nat (length (used_neighbours s)) \<and>
     packet_neighbours p (length (used_neighbours s)) =
       map (\<lambda>n. (hi8 (Addr_16b n), lo8 (Addr_16b n), NeighborRSSI n)) (used_neighbours s)"

lemma length_used: "net_ok s \<Longrightarrow> length (used_neighbours s) \<le> 8"
  using net_okD(3) [of s] length_filter_le [of "\<lambda>n. Addr_16b n \<noteq> UNUSED_ADDR" "unet_neighbourhood s"]
  by (simp add: used_neighbours_def)

lemma link_payload_cong:
  "(\<And>j. 32 \<le> j \<Longrightarrow> byte p j = byte q j) \<Longrightarrow> link_payload type s p = link_payload type s q"
  by (simp add: link_payload_def packet_neighbours_def cong: map_cong)

lemma link_packet_create_payload:
  assumes "net_ok s"
  shows "link_payload (fst (link_packet_type dev s)) s (link_pkt (link_packet_create dev s))"
proof -
  let ?ns = "used_neighbours s" and ?t = "fst (link_packet_type dev s)"
  define p0 where "p0 = (link_pkt s)\<lparr>bytes := replicate MAX_PACKET_SIZE 0\<rparr>"
  define p3 where "p3 = put UNET_CTRL_MSG_DISTANCE (param NODE_DISTANCE s) (put UNET_CTRL_MSG_ADDR16L (param NODE_ADDR16L s)
      (put UNET_CTRL_MSG_ADDR16H (param NODE_ADDR16H s) p0))"
  define p4 where "p4 = put_all UNET_CTRL_MSG_NB_START (concat (map neighbour_bytes ?ns)) p3"
  define p6 where "p6 = put UNET_CTRL_MSG_PACKET_TYPE ?t (put UNET_CTRL_MSG_NB_COUNT (of_nat (length ?ns)) p4)"
  have ok: "packet_ok p0" using net_okD(5) [OF assms] by (simp add: p0_def packet_ok_def)
  then have len: "length (bytes p3) = 128" "length (bytes p4) = 128" "packet_ok p6"
    by (simp_all add: p3_def p4_def p6_def packet_ok_def)
  have le: "3 * length ?ns \<le> 24" using length_used [OF assms] by simp
  have b4: "byte p4 j = (if 37 \<le> j \<and> j < 37 + 3 * length ?ns
      then concat (map neighbour_bytes ?ns) ! (j - 37) else byte p3 j)" for j
    using len le by (simp add: p4_def byte_put_all)
  have "byte p6 (37 + 3 * k + r) = neighbour_bytes (?ns ! k) ! r" if "k < length ?ns" "r < 3" for k r
  proof -
    have "3 * k + r < 3 * length ?ns" using that by linarith
    then have "byte p6 (37 + 3 * k + r) = concat (map neighbour_bytes ?ns) ! (3 * k + r)"
      using len by (simp add: p6_def byte_put b4)
    then show ?thesis using nth_neighbour_bytes [OF that] by simp
  qed
  from this [of _ 0] this [of _ 1] this [of _ 2]
  have nbs: "packet_neighbours p6 (length ?ns) =
      map (\<lambda>n. (hi8 (Addr_16b n), lo8 (Addr_16b n), NeighborRSSI n)) ?ns"
    by (intro nth_equalityI) (simp_all add: packet_neighbours_def neighbour_bytes_def)
  have "byte p6 32 = ?t" "byte p6 36 = of_nat (length ?ns)" "byte p6 33 = param NODE_ADDR16H s"
    "byte p6 34 = param NODE_ADDR16L s" "byte p6 35 = param NODE_DISTANCE s"
    using len ok by (simp_all add: p6_def byte_put b4 p3_def packet_ok_def)
  with nbs have pay: "link_payload ?t s p6" by (simp add: link_payload_def)
  obtain t s1 where ty: "link_packet_type dev s = (t, s1)" by (cases "link_packet_type dev s")
  define l where "l = (of_nat (length ?ns) :: u8) * 3 + 5"
  define p8 where "p8 = put_info PKTINFO_SIZE (frame_size l)
      (unet_header_set BROADCAST_LOCAL_LINK 1 NEXT_HEADER_UNET_CTRL_MSG
        (node_addr64_get (node_data s1)) (node_pan_id64_get (node_data s1)) l p6)"
  obtain s2 p9 where st: "stamp_seqnum s1 p8 = (s2, p9)" by (cases "stamp_seqnum s1 p8")
  have fin: "link_pkt (link_packet_create dev s) =
      ieee802154_header_set DATA_FRAME ACK_REQ_FALSE (node_data s2) (set_dest16 BROAD_ADDR p9)"
    using st unfolding link_packet_create_def Let_def ty prod.case p8_def l_def p6_def p4_def p3_def p0_def
    by simp
  have p9: "bytes p9 = bytes p8" "packet_ok p9 = packet_ok p8"
    using st by (auto simp: stamp_seqnum_def split: prod.splits)
  have "byte (link_pkt (link_packet_create dev s)) j = byte p6 j" if "32 \<le> j" for j
    unfolding fin using that len(3) p9
    by (subst header_set_bytes(9)) (simp_all add: p8_def byte_unet_header_set)
  then show ?thesis using pay link_payload_cong by metis
qed

lemma link_packet_type_net: "snd (link_packet_type dev s) = s\<lparr>just_reset := just_reset (snd (link_packet_type dev s)),
    link_reset_cnt := link_reset_cnt (snd (link_packet_type dev s))\<rparr>"
  by (simp add: link_packet_type_def Let_def split: device.split)

lemma net_ok_link_packet_create:
  assumes "net_ok s"
  shows "net_ok (link_packet_create dev s)" and "packet_ok (link_pkt (link_packet_create dev s))"
proof -
  obtain t s1 where ty: "link_packet_type dev s = (t, s1)" by (cases "link_packet_type dev s")
  have s1: "s1 = s\<lparr>just_reset := just_reset s1, link_reset_cnt := link_reset_cnt s1\<rparr>"
    using link_packet_type_net [of dev s] by (simp add: ty)
  have ok1: "net_ok s1" using assms by (subst s1) (simp add: net_ok_def)
  have p0: "packet_ok ((link_pkt s)\<lparr>bytes := replicate MAX_PACKET_SIZE 0\<rparr>)"
    using net_okD(5) [OF assms] by (simp add: packet_ok_def)
  have "net_ok (link_packet_create dev s) \<and> packet_ok (link_pkt (link_packet_create dev s))"
    unfolding link_packet_create_def Let_def ty prod.case
  proof (split prod.split, intro allI impI)
    fix s2 p9 assume st: "stamp_seqnum s1 (put_info PKTINFO_SIZE (frame_size (of_nat (length (used_neighbours s)) * 3 + 5))
        (unet_header_set BROADCAST_LOCAL_LINK 1 NEXT_HEADER_UNET_CTRL_MSG
          (node_addr64_get (node_data s1)) (node_pan_id64_get (node_data s1)) (of_nat (length (used_neighbours s)) * 3 + 5)
          (put UNET_CTRL_MSG_PACKET_TYPE t
            (put UNET_CTRL_MSG_NB_COUNT (of_nat (length (used_neighbours s)))
              (put_all UNET_CTRL_MSG_NB_START (concat (map neighbour_bytes (used_neighbours s)))
                (put UNET_CTRL_MSG_DISTANCE (param NODE_DISTANCE s)
                  (put UNET_CTRL_MSG_ADDR16L (param NODE_ADDR16L s)
                    (put UNET_CTRL_MSG_ADDR16H (param NODE_ADDR16H s)
                      ((link_pkt s)\<lparr>bytes := replicate MAX_PACKET_SIZE 0\<rparr>))))))))) = (s2, p9)"
    have "packet_ok p9" using stamp_seqnum_result(3) [OF st] p0 by simp
    moreover have "net_ok s2" using stamp_seqnum_result(4) [OF st ok1] .
    ultimately show "net_ok (s2\<lparr>link_pkt := ieee802154_header_set DATA_FRAME ACK_REQ_FALSE (node_data s2) (set_dest16 BROAD_ADDR p9)\<rparr>) \<and>
        packet_ok (link_pkt (s2\<lparr>link_pkt := ieee802154_header_set DATA_FRAME ACK_REQ_FALSE (node_data s2) (set_dest16 BROAD_ADDR p9)\<rparr>))"
      by (simp add: net_ok_def)
  qed
  then show "net_ok (link_packet_create dev s)" "packet_ok (link_pkt (link_packet_create dev s))" by blast+
qed

section \<open>What the receiver learns\<close>

definition own_addr16 :: "net \<Rightarrow> u16" where
  "own_addr16 s = join16 (param NODE_ADDR16H s) (param NODE_ADDR16L s)"

lemma first_idx_addr:
  assumes "net_ok s" and "i < 8" and "Addr_16b (nb s i) \<noteq> UNUSED_ADDR"
  shows "first_idx (\<lambda>n. Addr_16b n = Addr_16b (nb s i)) (unet_neighbourhood s) = i"
proof (rule first_idx_eqI)
  fix j assume "j < i"
  then show "Addr_16b (nb s j) \<noteq> Addr_16b (nb s i)"
    using addresses_distinctD [OF net_okD(4) [OF assms(1)], of i j] net_okD(3) [OF assms(1)] assms(2, 3) by auto
qed (use net_okD(3) [OF assms(1)] assms(2) in auto)

lemma used_unique:
  assumes "net_ok s" and "n \<in> set (used_neighbours s)" and "m \<in> set (used_neighbours s)"
    and "Addr_16b n = Addr_16b m"
  shows "n = m"
proof -
  let ?ns = "unet_neighbourhood s"
  from assms(2, 3) obtain i j where "i < length ?ns" "n = ?ns ! i" "j < length ?ns" "m = ?ns ! j"
    "Addr_16b n \<noteq> UNUSED_ADDR"
    by (auto simp: used_neighbours_def in_set_conv_nth)
  then show ?thesis
    using addresses_distinctD [OF net_okD(4) [OF assms(1)], of i j] assms(4) by auto
qed

lemma symmetry_update_named:
  assumes "net_ok a" and "link_payload t a p" and "length (used_neighbours a) < 8"
    and "n \<in> set (used_neighbours a)" and "Addr_16b n = own_addr16 s"
    and "length (unet_neighbourhood s) = 8" and "i < 8"
  shows "unet_neighbourhood (link_neighbor_symmetry_update p i s) =
    (unet_neighbourhood s)[i := (nb s i)
      \<lparr>NeighborMyRSSI := smooth (NeighborMyRSSI (nb s i)) (NeighborRSSI n),
       Symmetric := smooth (NeighborMyRSSI (nb s i)) (NeighborRSSI n) \<ge> RSSI_THRESHOLD \<and>
                    NeighborRSSI (nb s i) \<ge> RSSI_THRESHOLD\<rparr>]"
proof -
  let ?us = "used_neighbours a"
  let ?ns = "map (\<lambda>n. (hi8 (Addr_16b n), lo8 (Addr_16b n), NeighborRSSI n)) ?us"
  let ?P = "\<lambda>(h, l, rssi :: u8). h = param NODE_ADDR16H s \<and> l = param NODE_ADDR16L s"
  have cnt: "unat (byte p UNET_CTRL_MSG_NB_COUNT) = length ?us"
    using assms(2, 3) by (simp add: link_payload_def unat_of_nat)
  have ns: "packet_neighbours p (unat (byte p UNET_CTRL_MSG_NB_COUNT)) = ?ns"
    unfolding cnt using assms(2) by (simp only: link_payload_def)
  have own: "hi8 (own_addr16 s) = param NODE_ADDR16H s" "lo8 (own_addr16 s) = param NODE_ADDR16L s"
    by (simp_all add: own_addr16_def)
  have "\<exists>x \<in> set ?ns. ?P x"
  proof (rule bexI)
    show "?P (hi8 (Addr_16b n), lo8 (Addr_16b n), NeighborRSSI n)" using assms(5) own by simp
    show "(hi8 (Addr_16b n), lo8 (Addr_16b n), NeighborRSSI n) \<in> set ?ns" using assms(4) by simp
  qed
  then have j: "first_idx ?P ?ns < length ?ns" by (simp only: first_idx_less)
  then have "?P (?ns ! first_idx ?P ?ns)" by (rule first_idx_hit)
  moreover obtain m where m: "m \<in> set ?us"
      "?ns ! first_idx ?P ?ns = (hi8 (Addr_16b m), lo8 (Addr_16b m), NeighborRSSI m)"
    using j by (metis (no_types, lifting) length_map nth_map nth_mem)
  ultimately have "hi8 (Addr_16b m) = param NODE_ADDR16H s" "lo8 (Addr_16b m) = param NODE_ADDR16L s" by auto
  then have "Addr_16b m = Addr_16b n"
    unfolding assms(5) own_addr16_def by (metis join16_split)
  then have "m = n" by (rule used_unique [OF assms(1) m(1) assms(4)])
  with m(2) have "snd (snd (?ns ! first_idx ?P ?ns)) = NeighborRSSI n" by simp
  with j show ?thesis
    unfolding link_neighbor_symmetry_update_def ns Let_def
    using assms(6, 7) by (simp add: set_neighbour_def)
qed

lemma symmetry_update_elsewhere:
  "NeighborDistance (nb (link_neighbor_symmetry_update p i s) j) = NeighborDistance (nb s j)"
  "NeighborRSSI (nb (link_neighbor_symmetry_update p i s) j) = NeighborRSSI (nb s j)"
  by (simp_all add: link_neighbor_symmetry_update_def Let_def set_neighbour_def nth_upd)

text \<open>An advertisement of a node that stands in the table: the entry and its symmetry are renewed.\<close>

lemma advertisement_processed:
  assumes "net_ok b" and "created b Link_Packet_TX_Event" and "link_payload t a p" and "t = NEIGHBOR_ADV \<or> t = NEIGHBOR_ADV_RESET"
    and "length (used_neighbours a) < 8" and "i < 8" and "Addr_16b (nb b i) = own_addr16 a" and "own_addr16 a \<noteq> UNUSED_ADDR"
  defines "s2 \<equiv> b\<lparr>unet_neighbourhood := (unet_neighbourhood b)
      [i := (heard p (nb b i))\<lparr>NeighborDistance := param NODE_DISTANCE a\<rparr>]\<rparr>"
  obtains b' where "link_packet_process dev p b = Some b'" and "\<And>j. nb b' j = nb (link_neighbor_symmetry_update p i s2) j"
proof -
  have sender: "link_sender p = own_addr16 a"
    using assms(3) by (simp add: link_payload_def link_sender_def own_addr16_def)
  have find: "link_neighbor_table_find p b = (i, b)"
    using first_idx_addr [OF assms(1,6)] assms(6-8) sender
    by (simp add: link_neighbor_table_find_def Let_def link_sender_def)
  define s3 where "s3 = mark_heard i (link_neighbor_symmetry_update p i s2)"
  have s2: "set_neighbour i (\<lambda>n. (heard p n)\<lparr>NeighborDistance := byte p UNET_CTRL_MSG_DISTANCE\<rparr>) b = s2"
    using assms(3) by (simp add: set_neighbour_def s2_def link_payload_def)
  have "net_ok s2"
    unfolding s2 [symmetric] by (rule net_ok_set_neighbour [OF assms(1)]) (simp add: heard_def)
  then have ok3: "net_ok s3" by (simp add: s3_def net_ok_symmetry_update)
  have cr3: "created s3 = created b" by (simp add: s3_def s2_def)
  obtain s4 where s4: "link_node_distance_update dev s3 = Some s4" "net_ok s4" "created s4 = created s3"
    "unet_neighbourhood s4 = unet_neighbourhood s3"
    by (rule link_node_distance_update_ok [OF ok3, where dev = dev])
  obtain s5 where s5: "post Link_Packet_TX_Event s4 = Some s5" "unet_neighbourhood s5 = unet_neighbourhood s4"
    using post_created [OF s4(2)] s4(3) cr3 assms(2) by metis
  have cnt: "unat (byte p UNET_CTRL_MSG_NB_COUNT) < 8"
    using assms(3,5) by (simp add: link_payload_def unat_of_nat)
  have ty: "byte p UNET_CTRL_MSG_PACKET_TYPE = t" using assms(3) by (simp add: link_payload_def)
  have "link_packet_process dev p b = (if t = NEIGHBOR_ADV then Some s4 else if t = NEIGHBOR_ADV_RESET then Some s5 else None)"
    using assms(4) cnt assms(6) s4(1) s5(1)
    unfolding link_packet_process_def find Let_def prod.case s2 s3_def [symmetric] ty by auto
  then obtain b' where "link_packet_process dev p b = Some b'" "unet_neighbourhood b' = unet_neighbourhood s3"
    using assms(4) s4(4) s5(2) by (auto split: if_splits)
  then show thesis by (intro that [of b']) (simp_all add: s3_def mark_heard_def)
qed


definition sender_net :: net where
  "sender_net = sample_net\<lparr>node_data := sample_node\<lparr>node_param := (node_param sample_node)[3 := 9]\<rparr>\<rparr>"


end
