(* ===== verification/Router.thy ===== *)
theory Router
  imports Link_Adverts
begin

text \<open>
  The network layer, \<^verbatim>\<open>uNET/unet_router.c\<close>: routing up (to a node, by the table) and down (to the
  parent), the dispatch of incoming frames, and the transmission loop.  The MAC entry point of
  \<^verbatim>\<open>uNET/ieee802154.c\<close>, which calls the dispatch, is here too.  What the radio driver and the
  transmit semaphore answer at each attempt is the input \<open>env\<close> of the transmission loop.
\<close>

datatype route_result =
    RESULT_PACKET_SEND_OK | RESULT_DESTINATION_UNREACHABLE | RESULT_HOP_LIMIT_EXCEEDED
  | RESULT_TIMEOUT_IN_TRANSIT | RESULT_DESTINATION_NULL | RESULT_PACKET_SEND_ERROR | RESULT_UNKNOWN

definition addr64_at :: "nat \<Rightarrow> packet \<Rightarrow> u8 list" where
  "addr64_at i p = take 8 (drop i (bytes p))"

section \<open>Up\<close>

definition unet_router_up :: "net \<Rightarrow> (route_result \<times> net) option" where
  "unet_router_up s =
     (let dest = addr64_at UNET_DEST_64 (packet_up s);
          idx = unet_router_up_table_entry_find dest s
      in if idx = RTABLE_UP_ENTRIES_MAX_NUM then Some (RESULT_DESTINATION_UNREACHABLE, s)
      else if byte (packet_up s) UNET_HOP_LIMIT = 0 then Some (RESULT_HOP_LIMIT_EXCEEDED, s)
      else
        (let p1 = put UNET_HOP_LIMIT (byte (packet_up s) UNET_HOP_LIMIT - 1) (packet_up s);
             (s1, p2) = stamp_seqnum s p1;
             p3 = p2\<lparr>state := PACKET_IN_ROUTE\<rparr>
         in do {
           next_hop_addr16 \<leftarrow> unet_router_up_table_entry_get idx s1;
           let p4 = set_dest16 next_hop_addr16 p3;
           let p5 = ieee802154_header_set DATA_FRAME ACK_REQ_TRUE (node_data s1) p4;
           Some (RESULT_PACKET_SEND_OK, s1\<lparr>packet_up := p5\<lparr>state := PACKET_WAITING_TX\<rparr>\<rparr>)
         }))"

definition unet_packet_up_sendto :: "u8 list option \<Rightarrow> u8 \<Rightarrow> net \<Rightarrow> (route_result \<times> net) option" where
  "unet_packet_up_sendto dest64 payload_len s =
     (case dest64 of
        None \<Rightarrow> Some (RESULT_DESTINATION_NULL, s)
      | Some dest \<Rightarrow>
          (let p1 = unet_header_set UNICAST_UP 0xFF NEXT_HEADER_UNET_APP (node_addr64_get (node_data s)) dest
                      payload_len (packet_up s);
               p2 = put_info PKTINFO_SIZE (frame_size payload_len) p1
           in do {
             (res, s1) \<leftarrow> unet_router_up (s\<lparr>packet_up := p2\<rparr>);
             Some (res, NODESTAT_UPDATE netapptx s1)
           }))"

section \<open>Down\<close>

definition unet_router_down :: "net \<Rightarrow> (bool \<times> net) option" where
  "unet_router_down s =
     (if byte (packet_down s) UNET_HOP_LIMIT = 0 then Some (False, s)
      else
        (let p1 = put UNET_HOP_LIMIT (byte (packet_down s) UNET_HOP_LIMIT - 1) (packet_down s);
             p_idx = param NODE_PARENTINDEX s
         in if p_idx = NO_PARENT then Some (False, s\<lparr>packet_down := p1\<rparr>)
         else
           (let (s1, p2) = stamp_seqnum s p1;
                p3 = p2\<lparr>state := PACKET_IN_ROUTE\<rparr>
            in do {
              next_hop_addr16 \<leftarrow> link_neighbor_table_addr16_get (unat p_idx) s1;
              let p4 = set_dest16 next_hop_addr16 p3;
              Some (True, s1\<lparr>packet_down := ieee802154_header_set DATA_FRAME ACK_REQ_TRUE (node_data s1) p4\<rparr>)
            })))"

definition unet_update_packet_down_dest :: "net \<Rightarrow> net option" where
  "unet_update_packet_down_dest s =
     (let p_idx = param NODE_PARENTINDEX s in
      if p_idx = NO_PARENT then Some s
      else do {
        next_hop_addr16 \<leftarrow> link_neighbor_table_addr16_get (unat p_idx) s;
        let p1 = set_dest16 next_hop_addr16 (packet_down s);
        let p2 = put MAC_DEST_16 (packet_info_get PKTINFO_DEST16L p1) p1;
        Some (s\<lparr>packet_down := put (MAC_DEST_16 + 1) (packet_info_get PKTINFO_DEST16H p2) p2\<rparr>)
      })"

definition unet_packet_down_send :: "u8 \<Rightarrow> net \<Rightarrow> (route_result \<times> net) option" where
  "unet_packet_down_send payload_len s =
     (if param NODE_DISTANCE s \<ge> ROUTE_TO_BASESTATION_LOST then Some (RESULT_DESTINATION_UNREACHABLE, s)
      else
        (let p1 = unet_header_set UNICAST_DOWN 0xFF NEXT_HEADER_UNET_APP (node_addr64_get (node_data s))
                    (node_pan_id64_get (node_data s)) payload_len (packet_down s);
             p2 = put_info PKTINFO_SIZE (frame_size payload_len) p1
         in do {
           (ok, s1) \<leftarrow> unet_router_down (s\<lparr>packet_down := p2\<rparr>);
           Some (if ok then (RESULT_PACKET_SEND_OK, NODESTAT_UPDATE netapptx s1)
                 else (RESULT_DESTINATION_UNREACHABLE, s1))
         }))"

definition unet_router_adv :: "net \<Rightarrow> (route_result \<times> net) option" where
  "unet_router_adv s =
     (if param NODE_DISTANCE s \<ge> ROUTE_TO_BASESTATION_LOST then Some (RESULT_DESTINATION_UNREACHABLE, s)
      else
        (let (access, p0) = packet_acquire_down (packet_down s) in
         if access = PACKET_ACCESS_DENIED then Some (RESULT_DESTINATION_UNREACHABLE, s)
         else
           (let p1 = p0\<lparr>bytes := replicate MAX_PACKET_SIZE 0\<rparr>;
                p2 = put UNET_CTRL_MSG_PACKET_TYPE ROUTER_ADV p1;
                p3 = unet_header_set UNICAST_DOWN 0xFF NEXT_HEADER_UNET_CTRL_MSG (node_addr64_get (node_data s))
                       (node_pan_id64_get (node_data s)) 1 p2;
                p4 = put_info PKTINFO_SIZE (frame_size 1) p3
            in do {
              (ok, s1) \<leftarrow> unet_router_down (s\<lparr>packet_down := p4\<rparr>);
              Some (RESULT_PACKET_SEND_OK, s1)
            })))"

section \<open>Transmission\<close>

text \<open>The initial addresses of the build, and the reset of the radio that writes them again.\<close>

record config =
  MAC16_INIT :: "u8 \<times> u8"
  PANID_INIT :: "u8 \<times> u8"
  CHANNEL_INIT_VALUE :: u8

definition RadioReset :: "config \<Rightarrow> net \<Rightarrow> net" where
  "RadioReset c s0 =
     (let pan_id_64 = [fst (PANID_INIT c), snd (PANID_INIT c), 0, 0, 0, 0, 0, 0];
          node_addr64 = [fst (PANID_INIT c), snd (PANID_INIT c), 0, 0, 0, 0, fst (MAC16_INIT c), snd (MAC16_INIT c)];
          s1 = s0\<lparr>node_data := node_addr64_set node_addr64 (node_pan_id64_set pan_id_64 (node_data s0))\<rparr>;
          s2 = set_param NODE_ADDR16H (fst (MAC16_INIT c)) s1;
          s3 = set_param NODE_ADDR16L (snd (MAC16_INIT c)) s2;
          s4 = set_param NODE_PANID16H (fst (PANID_INIT c)) s3;
          s5 = set_param NODE_PANID16L (snd (PANID_INIT c)) s4
      in set_param NODE_CHANNEL (CHANNEL_INIT_VALUE c) s5)"

text \<open>
  What happens to one attempt: the driver refuses the frame; it is sent and needs no
  acknowledgement; the driver waits for the interrupt, which reports an acknowledgement or none, or
  does not come in time; or the driver returns another code.
\<close>

datatype attempt =
    Driver_refuses | Sent_no_ack | Interrupt_acked | Interrupt_nacked | Interrupt_timeout | Other_code

datatype send_result = PACKET_SEND_OK | PACKET_SEND_ERR

text \<open>
  The loop; the second component is the value \<open>tx_retries\<close> is left with: the test decrements it,
  also when it fails.
\<close>

fun tx_loop :: "config \<Rightarrow> (nat \<Rightarrow> attempt) \<Rightarrow> nat \<Rightarrow> nat \<Rightarrow> net \<Rightarrow> send_result \<times> u8 \<times> net" where
  "tx_loop c env k 0 s = (PACKET_SEND_ERR, - 1, s)"
| "tx_loop c env k (Suc n) s =
     (case env k of
        Driver_refuses \<Rightarrow> (PACKET_SEND_ERR, of_nat n, s)
      | Sent_no_ack \<Rightarrow> (PACKET_SEND_OK, of_nat n, NODESTAT_UPDATE txed s)
      | Interrupt_acked \<Rightarrow> (PACKET_SEND_OK, of_nat n, NODESTAT_UPDATE txed s)
      | Interrupt_nacked \<Rightarrow> tx_loop c env (Suc k) n (NODESTAT_UPDATE radionack (NODESTAT_UPDATE txed s))
      | Interrupt_timeout \<Rightarrow> tx_loop c env (Suc k) n (RadioReset c (NODESTAT_UPDATE txfailed s))
      | Other_code \<Rightarrow> tx_loop c env (Suc k) n s)"

definition unet_packet_output :: "config \<Rightarrow> (nat \<Rightarrow> attempt) \<Rightarrow> u8 \<Rightarrow> net \<Rightarrow> send_result \<times> net" where
  "unet_packet_output c env tx_retries s =
     (let (res, left, s1) = tx_loop c env 0 (unat tx_retries) s
      in (res, if left = 0 then NODESTAT_UPDATE txmaxretries s1 else s1))"

section \<open>Receiving\<close>

text \<open>
  The dispatch of an accepted frame \<open>p\<close>: the answer says whether the frame is to be acknowledged,
  and the packet that comes back is the receive buffer.
\<close>

definition input_broadcast :: "device \<Rightarrow> packet \<Rightarrow> net \<Rightarrow> net option" where
  "input_broadcast dev p s =
     (if byte p UNET_NEXT_HEADER = NEXT_HEADER_UNET_CTRL_MSG \<and>
         (byte p UNET_CTRL_MSG_PACKET_TYPE = NEIGHBOR_REQ \<or>
          byte p UNET_CTRL_MSG_PACKET_TYPE AND 0x7F = NEIGHBOR_ADV)
      then link_packet_process dev p s else Some s)"

definition input_up :: "packet \<Rightarrow> net \<Rightarrow> u8 \<times> net" where
  "input_up p s =
     (let (access, r) = packet_acquire_up (packet_up s) in
      if access = PACKET_ACCESS_DENIED then (ACK_REQ_FALSE, s)
      else
        (let s1 = link_set_neighbor_activity p (s\<lparr>packet_up := p\<rparr>)
         in (ACK_REQ_TRUE,
             if created s1 Router_Up_Ack_Request then s1\<lparr>posted := posted s1 @ [Router_Up_Ack_Request]\<rparr>
             else s1\<lparr>packet_up := packet_release_up (packet_up s1)\<rparr>)))"

definition input_down :: "packet \<Rightarrow> net \<Rightarrow> u8 \<times> packet \<times> net" where
  "input_down p s =
     (let (access, r) = packet_acquire_down (packet_down s) in
      if access = PACKET_ACCESS_DENIED then (ACK_REQ_FALSE, p, NODESTAT_UPDATE overbuf s)
      else
        (let p1 = p\<lparr>state := PACKET_SENDING_ACK\<rparr>;
             s1 = unet_router_up_table_entry_add (packet_get_source_addr16 p1) (addr64_at UNET_SRC_64 p1)
                    (s\<lparr>packet_down := p1\<rparr>);
             s2 = link_set_neighbor_activity p1 s1
         in (ACK_REQ_TRUE, p1,
             if created s2 Router_Down_Ack_Request then s2\<lparr>posted := posted s2 @ [Router_Down_Ack_Request]\<rparr>
             else s2\<lparr>packet_down := packet_release_down (packet_down s2)\<rparr>)))"

definition input_ack_up :: "packet \<Rightarrow> net \<Rightarrow> net option" where
  "input_ack_up p s =
     (if packet_info_get PKTINFO_SEQNUM p = packet_info_get PKTINFO_SEQNUM (packet_up s) \<and>
         state (packet_up s) = PACKET_WAITING_ACK
      then post Router_Up_Ack_Received s else Some s)"

definition input_ack_down :: "packet \<Rightarrow> net \<Rightarrow> net option" where
  "input_ack_down p s =
     (let r = packet_down s in
      if state r = PACKET_WAITING_ACK then
        if packet_info_get PKTINFO_SEQNUM p = packet_info_get PKTINFO_SEQNUM r \<and>
           packet_info_get PKTINFO_SRC16H p = packet_info_get PKTINFO_DEST16H r \<and>
           packet_info_get PKTINFO_SRC16L p = packet_info_get PKTINFO_DEST16L r
        then post Router_Down_Ack_Received (s\<lparr>packet_down := r\<lparr>state := PACKET_ACKED\<rparr>\<rparr>)
        else Some (NODESTAT_UPDATE txnacked s)
      else Some s)"

definition unet_packet_input :: "device \<Rightarrow> packet \<Rightarrow> net \<Rightarrow> (u8 \<times> packet \<times> net) option" where
  "unet_packet_input dev p s =
     (let type = byte p UNET_PKT_TYPE in
      if type = BROADCAST_LOCAL_LINK then do { s1 \<leftarrow> input_broadcast dev p s; Some (ACK_REQ_FALSE, p, s1) }
      else if type = UNICAST_UP then (let (ack, s1) = input_up p s in Some (ack, p, s1))
      else if type = UNICAST_DOWN then Some (input_down p s)
      else if type = UNICAST_ACK_UP then do { s1 \<leftarrow> input_ack_up p s; Some (ACK_REQ_FALSE, p, s1) }
      else if type = UNICAST_ACK_DOWN then do { s1 \<leftarrow> input_ack_down p s; Some (ACK_REQ_FALSE, p, s1) }
      else if type = MULTICAST_UP then Some (ACK_REQ_TRUE, p, s)
      else Some (ACK_REQ_FALSE, p, s))"

definition note_last_rx :: "u8 \<Rightarrow> net \<Rightarrow> net" where
  "note_last_rx seq s =
     s\<lparr>last_rx_sequences := (last_rx_sequences s)[unat (last_rx_seq_idx s) mod MAX_SEQUENCES_NUM := seq],
       last_rx_seq_idx := last_rx_seq_idx s + 1\<rparr>"

definition ieee802154_packet_input :: "device \<Rightarrow> bool \<Rightarrow> packet \<Rightarrow> net \<Rightarrow> (u8 \<times> packet \<times> net) option" where
  "ieee802154_packet_input dev crc p s =
     (let p1 = put_info PKTINFO_SIZE (byte p PHY_PKT_SIZE) p in
      if \<not> ieee802154_accepts crc p1 then
        Some (ACK_REQ_FALSE, p1,
          if FrameType (frame_control p1) = DATA_FRAME \<and> SrcAddrMode (frame_control p1) = ADDR16_MODE \<and>
             DstAddrMode (frame_control p1) = ADDR16_MODE \<and> SecurityEnabled (frame_control p1) \<noteq> 1 \<and> \<not> crc
          then NODESTAT_UPDATE chkerr s else s)
      else
        (let s1 = note_last_rx (byte p1 MAC_SEQ_NUM) s;
             duplicated = link_packet_is_duplicated
               (join16 (byte p1 (MAC_SRC_16 + 1)) (byte p1 MAC_SRC_16)) (byte p1 MAC_SEQ_NUM) s1;
             p2 = ieee802154_note_input duplicated p1;
             s2 = (if ACKRequest (frame_control p1) = 1 \<and> duplicated then NODESTAT_UPDATE duplink s1 else s1)
         in unet_packet_input dev p2 s2))"

end
