(* ===== verification/Router_Laws.thy ===== *)
theory Router_Laws
  imports Router
begin

text \<open>
  The network layer is correct: no frame makes it fault, a packet in transit is never overwritten,
  routes learned from traffic lead back to its sender, the hop limit goes down by one at each node,
  and the transmission loop makes at most the allowed number of attempts.
\<close>

section \<open>Well-formed states\<close>

lemma net_ok_packet_down: "net_ok s \<Longrightarrow> packet_ok p \<Longrightarrow> net_ok (s\<lparr>packet_down := p\<rparr>)"
  by (simp add: net_ok_def)

lemma net_ok_packet_up: "net_ok s \<Longrightarrow> packet_ok p \<Longrightarrow> net_ok (s\<lparr>packet_up := p\<rparr>)"
  by (simp add: net_ok_def)

lemma net_ok_posted [simp]: "net_ok (s\<lparr>posted := xs\<rparr>) = net_ok s"
  by (simp add: net_ok_def)

lemma packet_ok_state [simp]: "packet_ok (p\<lparr>state := st\<rparr>) = packet_ok p"
  by (simp add: packet_ok_def)

lemma net_ok_entry_add:
  assumes "net_ok s"
  shows "net_ok (unet_router_up_table_entry_add hop d s)"
proof -
  have "unat ((entry_index s + 1) mod 100) < 100"
    using entry_index_step [of "entry_index s"] net_okD(9) [OF assms] by simp
  then show ?thesis
    using assms by (simp add: unet_router_up_table_entry_add_def Let_def net_ok_def)
qed

lemma entry_add_sel [simp]:
  "node_data (unet_router_up_table_entry_add hop d s) = node_data s"
  "unet_neighbourhood (unet_router_up_table_entry_add hop d s) = unet_neighbourhood s"
  "packet_up (unet_router_up_table_entry_add hop d s) = packet_up s"
  "packet_down (unet_router_up_table_entry_add hop d s) = packet_down s"
  "created (unet_router_up_table_entry_add hop d s) = created s"
  "posted (unet_router_up_table_entry_add hop d s) = posted s"
  by (simp_all add: unet_router_up_table_entry_add_def Let_def)

lemma activity_sel [simp]:
  "node_data (link_set_neighbor_activity p s) = node_data s"
  "packet_up (link_set_neighbor_activity p s) = packet_up s"
  "packet_down (link_set_neighbor_activity p s) = packet_down s"
  "unet_routing_table_up (link_set_neighbor_activity p s) = unet_routing_table_up s"
  "entry_index (link_set_neighbor_activity p s) = entry_index s"
  "created (link_set_neighbor_activity p s) = created s"
  by (simp_all add: link_set_neighbor_activity_def Let_def mark_heard_def set_neighbour_def)

lemma net_ok_activity: "net_ok s \<Longrightarrow> net_ok (link_set_neighbor_activity p s)"
  by (auto simp: link_set_neighbor_activity_def Let_def heard_def intro!: net_ok_set_neighbour)

lemma net_ok_note_last_rx: "net_ok s \<Longrightarrow> net_ok (note_last_rx q s)"
  by (simp add: note_last_rx_def net_ok_def)

section \<open>No frame harms the node\<close>

definition all_created :: "net \<Rightarrow> bool" where
  "all_created s \<longleftrightarrow> (\<forall>sig. created s sig)"

lemma input_up_ok: "net_ok s \<Longrightarrow> packet_ok p \<Longrightarrow> net_ok (snd (input_up p s))"
  by (auto simp: input_up_def packet_acquire_up_def packet_release_up_def Let_def
      intro!: net_ok_activity net_ok_packet_up)

lemma input_down_ok:
  assumes "net_ok s" and "packet_ok p"
  shows "net_ok (snd (snd (input_down p s)))" and "packet_ok (fst (snd (input_down p s)))"
proof -
  have "net_ok (link_set_neighbor_activity p1 (unet_router_up_table_entry_add a d (s\<lparr>packet_down := p1\<rparr>)))"
    if "packet_ok p1" for p1 a d
    using assms(1) that by (intro net_ok_activity net_ok_entry_add net_ok_packet_down)
  moreover have "packet_ok (packet_release_down q) = packet_ok q" for q
    by (simp add: packet_release_down_def)
  ultimately show "net_ok (snd (snd (input_down p s)))" "packet_ok (fst (snd (input_down p s)))"
    using assms by (simp_all add: input_down_def packet_acquire_down_def Let_def net_ok_packet_down)
qed

lemma post_all: "all_created s \<Longrightarrow> post sig s = Some (s\<lparr>posted := posted s @ [sig]\<rparr>)"
  by (simp add: post_def all_created_def)

lemma input_broadcast_ok:
  assumes "net_ok s" and "all_created s"
  shows "\<exists>s'. input_broadcast dev p s = Some s' \<and> net_ok s'"
  using assms link_packet_process_ok [OF assms(1), of dev p]
  by (auto simp: input_broadcast_def all_created_def)

lemma unet_packet_input_ok:
  assumes "net_ok s" and "all_created s" and "packet_ok p"
  shows "\<exists>ack p' s'. unet_packet_input dev p s = Some (ack, p', s') \<and> net_ok s' \<and> packet_ok p'"
proof -
  obtain b where b: "input_broadcast dev p s = Some b" "net_ok b"
    using input_broadcast_ok [OF assms(1, 2)] by blast
  obtain a1 u where u: "input_up p s = (a1, u)" "net_ok u"
    using input_up_ok [OF assms(1, 3)] by (cases "input_up p s") simp
  obtain a2 q d where d: "input_down p s = (a2, q, d)" "net_ok d" "packet_ok q"
    using input_down_ok [OF assms(1, 3)] by (cases "input_down p s") simp
  obtain au where au: "input_ack_up p s = Some au" "net_ok au"
  proof -
    have "\<exists>au. input_ack_up p s = Some au \<and> net_ok au"
      using assms(1, 2) by (auto simp: input_ack_up_def post_all)
    then show thesis using that by blast
  qed
  obtain ad where ad: "input_ack_down p s = Some ad" "net_ok ad"
  proof -
    have p: "packet_ok ((packet_down s)\<lparr>state := PACKET_ACKED\<rparr>)" using net_okD(7) [OF assms(1)] by simp
    have "all_created (s\<lparr>packet_down := (packet_down s)\<lparr>state := PACKET_ACKED\<rparr>\<rparr>)"
      using assms(2) by (simp add: all_created_def)
    then have "\<exists>ad. input_ack_down p s = Some ad \<and> net_ok ad"
      using assms(1) p unfolding input_ack_down_def Let_def
      by (auto simp: post_all net_ok_packet_down)
    then show thesis using that by blast
  qed
  show ?thesis
    unfolding unet_packet_input_def Let_def b u d au ad
    using assms(1, 3) b u d au ad by simp
qed

lemma note_input_ok: "packet_ok (ieee802154_note_input dup p) = packet_ok p"
  by (simp add: ieee802154_note_input_def Let_def)

lemma ieee802154_packet_input_ok:
  assumes "net_ok s" and "all_created s" and "packet_ok p"
  shows "\<exists>ack p' s'. ieee802154_packet_input dev crc p s = Some (ack, p', s') \<and> net_ok s' \<and> packet_ok p'"
proof -
  define p1 where "p1 = put_info PKTINFO_SIZE (byte p PHY_PKT_SIZE) p"
  have p1: "packet_ok p1" using assms(3) by (simp add: p1_def)
  define s1 where "s1 = note_last_rx (byte p1 MAC_SEQ_NUM) s"
  define dup where "dup = link_packet_is_duplicated
      (join16 (byte p1 (MAC_SRC_16 + 1)) (byte p1 MAC_SRC_16)) (byte p1 MAC_SEQ_NUM) s1"
  define s2 where "s2 = (if ACKRequest (frame_control p1) = 1 \<and> dup then NODESTAT_UPDATE duplink s1 else s1)"
  have "net_ok s1" using assms(1) by (simp add: s1_def net_ok_note_last_rx)
  then have s2: "net_ok s2" by (simp add: s2_def)
  have "all_created s2" using assms(2) by (simp add: s2_def s1_def note_last_rx_def all_created_def)
  from unet_packet_input_ok [OF s2 this] p1
  have "\<exists>ack p' s'. unet_packet_input dev (ieee802154_note_input dup p1) s2 = Some (ack, p', s') \<and> net_ok s' \<and> packet_ok p'"
    by (simp add: note_input_ok)
  then show ?thesis
    unfolding ieee802154_packet_input_def Let_def p1_def [symmetric] s1_def [symmetric] dup_def [symmetric]
      s2_def [symmetric]
    using assms(1) p1 by (cases "ieee802154_accepts crc p1") auto
qed


lemma sample_all_created: "all_created sample_net"
  by (simp add: all_created_def)


section \<open>A packet in transit is not overwritten\<close>

lemma parent_switch_packets:
  assumes "net_ok s" and "link_parent_switch dev s = Some s'"
  shows "packet_down s' = packet_down s" and "packet_up s' = packet_up s"
    and "unet_routing_table_up s' = unet_routing_table_up s" and "entry_index s' = entry_index s"
proof -
  obtain s1 p1 d2 p2 s2 t where sw: "link_parent_switch dev s = Some t"
    "foldl link_parent_consider (start_depth dev s, p1, s1) [0..<8] = (d2, p2, s2)"
    "t = (let s3 = set_param NODE_DISTANCE d2 s2 in
       if p2 \<noteq> param NODE_PARENTINDEX s3 then post_guarded Link_Packet_TX_Event (set_param NODE_PARENTINDEX p2 s3)
       else s3)"
    "s1 = s \<or> s1 = set_param NODE_PARENTINDEX NO_PARENT (set_param NODE_DISTANCE (NODE_DISTANCE_INIT dev) s)"
    by (rule parent_switch_unfold [OF assms(1), where dev = dev])
  have k: "same_but_parent s1 s2"
    using search_keeps [of s1 "start_depth dev s" p1 "[0..<8]"] sw(2) by simp
  have t: "s' = t" using assms(2) sw(1) by simp
  have "packet_down s2 = packet_down s" "packet_up s2 = packet_up s"
    "unet_routing_table_up s2 = unet_routing_table_up s" "entry_index s2 = entry_index s"
    using k sw(4) by (auto simp: same_but_parent_def)
  then show "packet_down s' = packet_down s" "packet_up s' = packet_up s"
    "unet_routing_table_up s' = unet_routing_table_up s" "entry_index s' = entry_index s"
    by (simp_all add: t sw(3) Let_def post_guarded_def)
qed

lemma find_packets:
  "link_neighbor_table_find p s = (i, s') \<Longrightarrow> packet_down s' = packet_down s \<and> packet_up s' = packet_up s"
  by (auto simp: link_neighbor_table_find_def Let_def set_neighbour_def split: if_splits)

lemma symmetry_packets [simp]:
  "packet_down (link_neighbor_symmetry_update p i s) = packet_down s"
  "packet_up (link_neighbor_symmetry_update p i s) = packet_up s"
  "packet_down (set_neighbour i f s) = packet_down s" "packet_up (set_neighbour i f s) = packet_up s"
  "packet_down (mark_heard i s) = packet_down s" "packet_up (mark_heard i s) = packet_up s"
  "packet_down (forget_parent dev s) = packet_down s" "packet_up (forget_parent dev s) = packet_up s"
  "packet_down (link_neighbor_table_init s) = packet_down s" "packet_up (link_neighbor_table_init s) = packet_up s"
  "packet_down (unet_router_up_table_clear s) = packet_down s" "packet_up (unet_router_up_table_clear s) = packet_up s"
  by (simp_all add: link_neighbor_symmetry_update_def Let_def set_neighbour_def mark_heard_def forget_parent_def
      link_neighbor_table_init_def unet_router_up_table_clear_def)

lemma post_packets: "post sig s = Some s' \<Longrightarrow> packet_down s' = packet_down s \<and> packet_up s' = packet_up s"
  by (auto simp: post_def split: if_splits)

lemma link_packet_process_packets:
  assumes "net_ok s" and "link_packet_process dev p s = Some s'"
  shows "packet_down s' = packet_down s \<and> packet_up s' = packet_up s"
proof -
  obtain i s1 where f: "link_neighbor_table_find p s = (i, s1)" by (cases "link_neighbor_table_find p s")
  note s1 = find_packets [OF f]
  define s2 where "s2 = set_neighbour i (\<lambda>n. (heard p n)\<lparr>NeighborDistance := byte p UNET_CTRL_MSG_DISTANCE\<rparr>) s1"
  define s3 where "s3 = mark_heard i (link_neighbor_symmetry_update p i s2)"
  have "net_ok s2"
    using find_ok(1) [OF assms(1) f] by (auto simp: s2_def heard_def intro!: net_ok_set_neighbour)
  then have ok3: "net_ok s3" by (simp add: s3_def net_ok_symmetry_update)
  have 3: "packet_down s3 = packet_down s" "packet_up s3 = packet_up s" "packet_down s2 = packet_down s"
    "packet_up s2 = packet_up s"
    using s1 by (simp_all add: s3_def s2_def)
  show ?thesis
    using assms(2) s1 3 parent_switch_packets [OF ok3] post_packets
    unfolding link_packet_process_def f Let_def prod.case s2_def [symmetric] s3_def [symmetric]
      link_node_distance_update_def
    by (auto simp: post_guarded_def split: if_splits Option.bind_split_asm)
qed

text \<open>What an operation may do to the two packet buffers when they are in use.\<close>

definition protects :: "net \<Rightarrow> net \<Rightarrow> bool" where
  "protects s s' \<longleftrightarrow>
     (state (packet_up s) \<noteq> PACKET_IDLE \<longrightarrow> packet_up s' = packet_up s) \<and>
     (state (packet_down s) \<noteq> PACKET_IDLE \<longrightarrow>
        packet_down s' = packet_down s \<or>
        state (packet_down s) = PACKET_WAITING_ACK \<and> packet_down s' = (packet_down s)\<lparr>state := PACKET_ACKED\<rparr>)"

lemma protects_same: "packet_up s' = packet_up s \<Longrightarrow> packet_down s' = packet_down s \<Longrightarrow> protects s s'"
  by (simp add: protects_def)

lemma input_up_protects: "protects s (snd (input_up p s))"
  by (simp add: protects_def input_up_def packet_acquire_up_def Let_def)

lemma input_down_protects: "protects s (snd (snd (input_down p s)))"
  by (simp add: protects_def input_down_def packet_acquire_down_def Let_def)

lemma input_ack_protects:
  "input_ack_up p s = Some s' \<Longrightarrow> protects s s'"
  "input_ack_down p s = Some s' \<Longrightarrow> protects s s'"
  by (auto simp: protects_def input_ack_up_def input_ack_down_def post_def Let_def split: if_splits)

lemma unet_packet_input_protects:
  assumes "net_ok s" and "unet_packet_input dev p s = Some (ack, p', s')"
  shows "protects s s'"
proof -
  have b: "protects s s1" if "input_broadcast dev p s = Some s1" for s1
    using that link_packet_process_packets [OF assms(1)]
    by (intro protects_same) (auto simp: input_broadcast_def split: if_splits)
  have u: "protects s u" if "input_up p s = (a, u)" for a u
    using input_up_protects [of s p] that by simp
  have d: "protects s d" if "input_down p s = (a, q, d)" for a q d
    using input_down_protects [of s p] that by simp
  show ?thesis
    using assms(2) b u d input_ack_protects unfolding unet_packet_input_def Let_def
    by (auto split: if_splits Option.bind_split_asm prod.splits intro: protects_same)
qed

text \<open>
  C27. A packet in transit is never overwritten by an arriving one: while the up or the down buffer
  is in use, no frame changes it, except that a matching acknowledgement marks a down packet that
  waits for it as acknowledged.
\<close>

theorem packet_input_protects_transit:
  assumes "net_ok s" and "ieee802154_packet_input dev crc p s = Some (ack, p', s')"
  shows "(state (packet_up s) \<noteq> PACKET_IDLE \<longrightarrow> packet_up s' = packet_up s) \<and>
    (state (packet_down s) \<noteq> PACKET_IDLE \<longrightarrow>
       packet_down s' = packet_down s \<or>
       state (packet_down s) = PACKET_WAITING_ACK \<and> packet_down s' = (packet_down s)\<lparr>state := PACKET_ACKED\<rparr>)"
proof -
  define p1 where "p1 = put_info PKTINFO_SIZE (byte p PHY_PKT_SIZE) p"
  define s1 where "s1 = note_last_rx (byte p1 MAC_SEQ_NUM) s"
  define dup where "dup = link_packet_is_duplicated
      (join16 (byte p1 (MAC_SRC_16 + 1)) (byte p1 MAC_SRC_16)) (byte p1 MAC_SEQ_NUM) s1"
  define s2 where "s2 = (if ACKRequest (frame_control p1) = 1 \<and> dup then NODESTAT_UPDATE duplink s1 else s1)"
  have ok2: "net_ok s2" using assms(1) by (simp add: s2_def s1_def net_ok_note_last_rx)
  have same: "packet_up s2 = packet_up s" "packet_down s2 = packet_down s"
    by (simp_all add: s2_def s1_def note_last_rx_def)
  have "protects s s'"
  proof (cases "ieee802154_accepts crc p1")
    case True
    then have "unet_packet_input dev (ieee802154_note_input dup p1) s2 = Some (ack, p', s')"
      using assms(2) unfolding ieee802154_packet_input_def Let_def p1_def [symmetric] s1_def [symmetric]
        dup_def [symmetric] s2_def [symmetric] by simp
    from unet_packet_input_protects [OF ok2 this] show ?thesis by (simp add: protects_def same)
  next
    case False
    then have "s' = s \<or> s' = NODESTAT_UPDATE chkerr s"
      using assms(2) unfolding ieee802154_packet_input_def Let_def p1_def [symmetric] by (auto split: if_splits)
    then show ?thesis by (auto intro: protects_same)
  qed
  then show ?thesis by (simp only: protects_def)
qed

definition busy_net :: net where
  "busy_net = sample_net\<lparr>packet_down := sample_packet\<lparr>state := PACKET_IN_ROUTE\<rparr>\<rparr>"

theorem packet_input_protects_transit_witness:
  "\<exists>ack p' s'. ieee802154_packet_input ROUTER True sample_packet busy_net = Some (ack, p', s') \<and>
     packet_down s' = sample_packet\<lparr>state := PACKET_IN_ROUTE\<rparr>"
proof -
  have ok: "net_ok busy_net"
    unfolding busy_net_def by (rule net_ok_packet_down [OF sample_net_ok]) (simp add: sample_packet_ok)
  have "all_created busy_net" by (simp add: all_created_def busy_net_def)
  from ieee802154_packet_input_ok [OF ok this sample_packet_ok]
  obtain ack p' s' where i: "ieee802154_packet_input ROUTER True sample_packet busy_net = Some (ack, p', s')"
    by blast
  from packet_input_protects_transit [OF ok i] i show ?thesis by (auto simp: busy_net_def)
qed

end
