(* ===== verification/Router_Routes.thy ===== *)
theory Router_Routes
  imports Router_Laws
begin

text \<open>
  Routing: what one hop does to a packet, that the routes learned from the traffic down lead back
  up, and the bound on the attempts of a transmission.
\<close>

section \<open>One hop up\<close>

lemma lookup_find:
  assumes "length (unet_routing_table_up s) = 100"
  shows "route_lookup d s = None \<longleftrightarrow> unet_router_up_table_entry_find d s = 100"
    and "unet_router_up_table_entry_find d s \<noteq> 100 \<Longrightarrow>
         unet_router_up_table_entry_get (unet_router_up_table_entry_find d s) s = route_lookup d s"
proof -
  have "unet_router_up_table_entry_find d s \<le> 100"
    using first_idx_le [of "\<lambda>r. dest_addr64 r = d" "unet_routing_table_up s"] assms
    by (simp add: unet_router_up_table_entry_find_def)
  then show "route_lookup d s = None \<longleftrightarrow> unet_router_up_table_entry_find d s = 100"
    by (simp add: route_lookup_def unet_router_up_table_entry_get_def)
  show "unet_router_up_table_entry_find d s \<noteq> 100 \<Longrightarrow>
         unet_router_up_table_entry_get (unet_router_up_table_entry_find d s) s = route_lookup d s"
    by (simp add: route_lookup_def)
qed

lemma dest16_header_set [simp]:
  "packet_get_dest_addr16 (ieee802154_header_set t a n p) = packet_get_dest_addr16 p"
  by (simp add: packet_get_dest_addr16_def packet_info_get_def)

lemma dest16_state [simp]: "packet_get_dest_addr16 (p\<lparr>state := st\<rparr>) = packet_get_dest_addr16 p"
  by (simp add: packet_get_dest_addr16_def packet_info_get_def)

lemma route_lookup_cong:
  "unet_routing_table_up s = unet_routing_table_up s' \<Longrightarrow> route_lookup d s = route_lookup d s'"
  by (simp only: route_lookup_def unet_router_up_table_entry_get_def unet_router_up_table_entry_find_def)

text \<open>The packet after one hop to \<open>hop\<close>: one less on its hop limit, the payload untouched.\<close>

definition hopped :: "u16 \<Rightarrow> packet \<Rightarrow> packet \<Rightarrow> bool" where
  "hopped hop p p' \<longleftrightarrow> byte p' UNET_HOP_LIMIT = byte p UNET_HOP_LIMIT - 1 \<and>
     packet_get_dest_addr16 p' = hop \<and>
     byte p' MAC_DEST_16 = lo8 hop \<and> byte p' (MAC_DEST_16 + 1) = hi8 hop \<and>
     (\<forall>j. 11 \<le> j \<and> j \<noteq> UNET_HOP_LIMIT \<longrightarrow> byte p' j = byte p j)"

lemma hopped_send:
  assumes "packet_ok p" and "stamp_seqnum s (put UNET_HOP_LIMIT (byte p UNET_HOP_LIMIT - 1) p) = (s1, p2)"
  shows "hopped hop p (ieee802154_header_set DATA_FRAME a n (set_dest16 hop (p2\<lparr>state := st\<rparr>)))"
    and "packet_ok (ieee802154_header_set DATA_FRAME a n (set_dest16 hop (p2\<lparr>state := st\<rparr>)))"
proof -
  have b: "bytes p2 = bytes (put UNET_HOP_LIMIT (byte p UNET_HOP_LIMIT - 1) p)" "packet_ok p2"
    using stamp_seqnum_result(1, 3) [OF assms(2)] assms(1) by simp_all
  let ?q = "set_dest16 hop (p2\<lparr>state := st\<rparr>)"
  have q: "packet_ok ?q" "bytes ?q = bytes p2" using b(2) by simp_all
  note h = header_set_bytes [OF q(1), where type = DATA_FRAME and ack = a and n = n]
  have d: "packet_info_get PKTINFO_DEST16L ?q = lo8 hop" "packet_info_get PKTINFO_DEST16H ?q = hi8 hop"
    using b(2) by (simp_all add: info_set_dest16)
  have p: "length (bytes p) = 128" using assms(1) by (simp add: packet_ok_def)
  show "packet_ok (ieee802154_header_set DATA_FRAME a n ?q)" using q by simp
  show "hopped hop p (ieee802154_header_set DATA_FRAME a n ?q)"
    unfolding hopped_def using h d q b p
    by (auto simp: byte_put dest16_set_dest16)
qed

lemma router_up_hop:
  assumes "net_ok s"
  shows "\<exists>r s'. unet_router_up s = Some (r, s') \<and> net_ok s' \<and>
    (case route_lookup (addr64_at UNET_DEST_64 (packet_up s)) s of
       None \<Rightarrow> r = RESULT_DESTINATION_UNREACHABLE \<and> s' = s
     | Some hop \<Rightarrow>
         if byte (packet_up s) UNET_HOP_LIMIT = 0 then r = RESULT_HOP_LIMIT_EXCEEDED \<and> s' = s
         else r = RESULT_PACKET_SEND_OK \<and> hopped hop (packet_up s) (packet_up s') \<and>
              state (packet_up s') = PACKET_WAITING_TX)"
proof (cases "route_lookup (addr64_at UNET_DEST_64 (packet_up s)) s")
  case None
  then have "unet_router_up_table_entry_find (addr64_at UNET_DEST_64 (packet_up s)) s = 100"
    using lookup_find(1) [OF net_okD(8) [OF assms]] by blast
  with None assms show ?thesis by (simp add: unet_router_up_def Let_def)
next
  case (Some hop)
  let ?d = "addr64_at UNET_DEST_64 (packet_up s)"
  have f: "unet_router_up_table_entry_find ?d s \<noteq> 100"
    using Some lookup_find(1) [OF net_okD(8) [OF assms], of ?d] by auto
  show ?thesis
  proof (cases "byte (packet_up s) UNET_HOP_LIMIT = 0")
    case True
    with Some f assms show ?thesis by (simp add: unet_router_up_def Let_def)
  next
    case False
    obtain s1 p2 where st: "stamp_seqnum s (put UNET_HOP_LIMIT (byte (packet_up s) UNET_HOP_LIMIT - 1) (packet_up s)) = (s1, p2)"
      by (cases "stamp_seqnum s (put UNET_HOP_LIMIT (byte (packet_up s) UNET_HOP_LIMIT - 1) (packet_up s))")
    have "unet_routing_table_up s1 = unet_routing_table_up s"
      using stamp_seqnum_result(6) [OF st] by (metis net.select_convs(11) net.surjective net.update_convs(1))
    then have g: "unet_router_up_table_entry_get (unet_router_up_table_entry_find ?d s) s1 = Some hop"
      using lookup_find(2) [OF net_okD(8) [OF assms] f] Some by (simp only: unet_router_up_table_entry_get_def)
    let ?q = "ieee802154_header_set DATA_FRAME ACK_REQ_TRUE (node_data s1)
        (set_dest16 hop (p2\<lparr>state := PACKET_IN_ROUTE\<rparr>))"
    have up: "unet_router_up s = Some (RESULT_PACKET_SEND_OK, s1\<lparr>packet_up := ?q\<lparr>state := PACKET_WAITING_TX\<rparr>\<rparr>)"
      using f False st g by (simp add: unet_router_up_def Let_def)
    note hs = hopped_send [OF net_okD(6) [OF assms] st, where hop = hop and a = ACK_REQ_TRUE and n = "node_data s1" and st = PACKET_IN_ROUTE]
    have "net_ok (s1\<lparr>packet_up := ?q\<lparr>state := PACKET_WAITING_TX\<rparr>\<rparr>)"
      using stamp_seqnum_result(4) [OF st assms] hs(2) by (simp add: net_ok_packet_up)
    moreover have "hopped hop (packet_up s) (?q\<lparr>state := PACKET_WAITING_TX\<rparr>)"
      using hs(1) by (simp add: hopped_def)
    ultimately show ?thesis
      using up Some False by simp
  qed
qed

text \<open>
  Routing up: the router always returns; with no route or an exhausted hop limit it says so and
  changes nothing; otherwise the packet is addressed to the next hop of the routing table, its hop
  limit is one less, everything else it carries is untouched, and it waits for transmission.
\<close>

theorem unet_router_up_hop:
  assumes "net_ok s"
  shows "\<exists>r s'. unet_router_up s = Some (r, s') \<and> net_ok s' \<and>
    (case route_lookup (addr64_at UNET_DEST_64 (packet_up s)) s of
       None \<Rightarrow> r = RESULT_DESTINATION_UNREACHABLE \<and> s' = s
     | Some hop \<Rightarrow>
         if byte (packet_up s) UNET_HOP_LIMIT = 0 then r = RESULT_HOP_LIMIT_EXCEEDED \<and> s' = s
         else r = RESULT_PACKET_SEND_OK \<and> hopped hop (packet_up s) (packet_up s') \<and>
              state (packet_up s') = PACKET_WAITING_TX)"
  by (rule router_up_hop [OF assms])

definition routed_net :: net where
  "routed_net = unet_router_up_table_entry_add 7 (replicate 8 0) sample_net"

theorem unet_router_up_hop_witness:
  "\<exists>s'. unet_router_up routed_net = Some (RESULT_PACKET_SEND_OK, s') \<and>
     packet_get_dest_addr16 (packet_up s') = 7 \<and> byte (packet_up s') UNET_HOP_LIMIT = 4"
proof -
  have ok: "net_ok routed_net" unfolding routed_net_def by (rule net_ok_entry_add [OF sample_net_ok])
  have z: "addr64_at UNET_DEST_64 (packet_up routed_net) = replicate 8 0"
    by (rule nth_equalityI) (simp_all add: addr64_at_def routed_net_def sample_packet_def nth_list_update)
  have f: "unet_router_up_table_entry_find (replicate 8 0) sample_net = 0"
    unfolding unet_router_up_table_entry_find_def
    by (rule first_idx_eqI) simp_all
  then have "unet_router_up_table_entry_find (replicate 8 0) routed_net = 0"
    unfolding unet_router_up_table_entry_find_def
    by (intro first_idx_eqI)
      (simp_all add: routed_net_def unet_router_up_table_entry_add_def unet_router_up_table_entry_find_def Let_def)
  then have "route_lookup (replicate 8 0) routed_net = Some 7"
    using f by (simp add: route_lookup_def unet_router_up_table_entry_get_def routed_net_def
        unet_router_up_table_entry_add_def Let_def)
  moreover have "byte (packet_up routed_net) UNET_HOP_LIMIT = 5"
    by (simp add: routed_net_def sample_packet_def)
  ultimately show ?thesis
    using unet_router_up_hop [OF ok] unfolding z by (auto simp: hopped_def)
qed

section \<open>One hop down\<close>

lemma router_down_hop:
  assumes "net_ok s"
  shows "\<exists>ok s'. unet_router_down s = Some (ok, s') \<and> net_ok s' \<and>
    (if byte (packet_down s) UNET_HOP_LIMIT = 0 then \<not> ok \<and> s' = s
     else if param NODE_PARENTINDEX s = NO_PARENT then
       \<not> ok \<and> s' = s\<lparr>packet_down := put UNET_HOP_LIMIT (byte (packet_down s) UNET_HOP_LIMIT - 1) (packet_down s)\<rparr>
     else ok \<and> state (packet_down s') = PACKET_IN_ROUTE \<and>
       hopped (Addr_16b (nb s (unat (param NODE_PARENTINDEX s)))) (packet_down s) (packet_down s'))"
proof -
  let ?p = "packet_down s" and ?i = "unat (param NODE_PARENTINDEX s)"
  have pd: "packet_ok ?p" by (rule net_okD(7) [OF assms])
  consider "byte ?p UNET_HOP_LIMIT = 0" | "byte ?p UNET_HOP_LIMIT \<noteq> 0" "param NODE_PARENTINDEX s = NO_PARENT"
    | "byte ?p UNET_HOP_LIMIT \<noteq> 0" "param NODE_PARENTINDEX s \<noteq> NO_PARENT" by blast
  then show ?thesis
  proof cases
    case 1
    with assms show ?thesis by (intro exI [of _ False]) (simp add: unet_router_down_def)
  next
    case 2
    have "net_ok (s\<lparr>packet_down := put UNET_HOP_LIMIT (byte ?p UNET_HOP_LIMIT - 1) ?p\<rparr>)"
      using assms pd by (intro net_ok_packet_down) simp_all
    with 2 show ?thesis by (intro exI [of _ False]) (simp add: unet_router_down_def Let_def)
  next
    case 3
    then have i: "?i < 8"
      using net_okD(2) [OF assms] by (auto simp: parent_index_ok_def param_def)
    obtain s1 p2 where st: "stamp_seqnum s (put UNET_HOP_LIMIT (byte ?p UNET_HOP_LIMIT - 1) ?p) = (s1, p2)"
      by (cases "stamp_seqnum s (put UNET_HOP_LIMIT (byte ?p UNET_HOP_LIMIT - 1) ?p)")
    have s1: "s1 = s\<lparr>node_data := node_data s1\<rparr>" by (rule stamp_seqnum_result(6) [OF st])
    have g: "link_neighbor_table_addr16_get ?i s1 = Some (Addr_16b (nb s ?i))"
      using i by (subst s1) (simp add: link_neighbor_table_addr16_get_def)
    let ?q = "ieee802154_header_set DATA_FRAME ACK_REQ_TRUE (node_data s1)
        (set_dest16 (Addr_16b (nb s ?i)) (p2\<lparr>state := PACKET_IN_ROUTE\<rparr>))"
    have dn: "unet_router_down s = Some (True, s1\<lparr>packet_down := ?q\<rparr>)"
      using 3 st g by (simp add: unet_router_down_def Let_def)
    note hs = hopped_send [OF pd st, where hop = "Addr_16b (nb s ?i)" and a = ACK_REQ_TRUE and n = "node_data s1" and st = PACKET_IN_ROUTE]
    have "net_ok (s1\<lparr>packet_down := ?q\<rparr>)"
      using stamp_seqnum_result(4) [OF st assms] hs(2) by (simp add: net_ok_packet_down)
    then show ?thesis
      using dn 3 hs(1) by (intro exI [of _ True]) simp
  qed
qed

text \<open>
  Routing down: the router always returns; it refuses a packet whose hop limit is exhausted
  and, having already taken one from the hop limit, one for which there is no parent; otherwise the
  packet is addressed to the parent, its hop limit is one less and everything else it carries is
  untouched.
\<close>

theorem unet_router_down_hop:
  assumes "net_ok s"
  shows "\<exists>ok s'. unet_router_down s = Some (ok, s') \<and> net_ok s' \<and>
    (if byte (packet_down s) UNET_HOP_LIMIT = 0 then \<not> ok \<and> s' = s
     else if param NODE_PARENTINDEX s = NO_PARENT then
       \<not> ok \<and> s' = s\<lparr>packet_down := put UNET_HOP_LIMIT (byte (packet_down s) UNET_HOP_LIMIT - 1) (packet_down s)\<rparr>
     else ok \<and> state (packet_down s') = PACKET_IN_ROUTE \<and>
       hopped (Addr_16b (nb s (unat (param NODE_PARENTINDEX s)))) (packet_down s) (packet_down s'))"
  by (rule router_down_hop [OF assms])

theorem unet_router_down_hop_witness:
  "\<exists>s'. unet_router_down sample_net = Some (False, s') \<and> byte (packet_down s') UNET_HOP_LIMIT = 4"
proof -
  have "byte (packet_down sample_net) UNET_HOP_LIMIT = 5" by (simp add: sample_packet_def)
  moreover have "param NODE_PARENTINDEX sample_net = NO_PARENT"
    by (simp add: param_def node_data_get_def sample_node_def)
  ultimately show ?thesis
    using unet_router_down_hop [OF sample_net_ok] by (auto simp: byte_put sample_packet_def)
qed

section \<open>Learned routes lead back\<close>

lemma route_lookup_add:
  assumes "net_ok s"
  shows "route_lookup d (unet_router_up_table_entry_add hop d s) = Some hop"
proof -
  let ?t = "unet_routing_table_up s"
  have len: "length ?t = 100" and e: "unat (entry_index s) < 100"
    using net_okD(8, 9) [OF assms] by blast+
  show ?thesis
  proof (cases "unet_router_up_table_entry_find d s < 100")
    case True
    let ?i = "unet_router_up_table_entry_find d s" and ?s' = "unet_router_up_table_entry_add hop d s"
    have t: "unet_routing_table_up ?s' = ?t[?i := (?t ! ?i)\<lparr>next_hop := hop\<rparr>]"
      using True by (simp add: unet_router_up_table_entry_add_def Let_def)
    have d: "dest_addr64 (?t ! ?i) = d"
      using True len first_idx_hit [of "\<lambda>r. dest_addr64 r = d" ?t] by (simp add: unet_router_up_table_entry_find_def)
    have "route_lookup d ?s' = map_of (map (\<lambda>r. (dest_addr64 r, next_hop r)) (unet_routing_table_up ?s')) d"
      using len t by (intro route_lookup_map_of) simp
    also have "\<dots> = Some hop"
      using map_of_update_first [of ?i dest_addr64 d ?t "(?t ! ?i)\<lparr>next_hop := hop\<rparr>" next_hop d] True len d
      by (simp add: t unet_router_up_table_entry_find_def)
    finally show ?thesis .
  next
    case False
    let ?j = "unat (entry_index s)" and ?s' = "unet_router_up_table_entry_add hop d s"
    have t: "unet_routing_table_up ?s' = ?t[?j := (?t ! ?j)\<lparr>next_hop := hop, dest_addr64 := d\<rparr>]"
      using False by (simp add: unet_router_up_table_entry_add_def Let_def)
    have "d \<notin> dest_addr64 ` set ?t"
      using False first_idx_key [of dest_addr64 d ?t] len by (simp add: unet_router_up_table_entry_find_def)
    moreover from this have "dest_addr64 (?t ! ?j) \<noteq> d" using e len by (metis image_eqI nth_mem)
    ultimately have m: "map_of (map (\<lambda>r. (dest_addr64 r, next_hop r)) (unet_routing_table_up ?s')) d = Some hop"
      unfolding t using map_of_update_fresh [of d dest_addr64 ?t ?j _ d next_hop] e len by simp
    have "route_lookup d ?s' = map_of (map (\<lambda>r. (dest_addr64 r, next_hop r)) (unet_routing_table_up ?s')) d"
      using len t by (intro route_lookup_map_of) simp
    with m show ?thesis by simp
  qed
qed

text \<open>
  The reverse path: when a node takes a packet that travels down, it learns the way back; any
  packet for that packet's origin which it then routes up goes to the neighbour the first one came
  from.
\<close>

theorem reverse_path:
  assumes "net_ok s" and "packet_ok p" and "state (packet_down s) = PACKET_IDLE"
    and "packet_ok q" and "addr64_at UNET_DEST_64 q = addr64_at UNET_SRC_64 p" and "byte q UNET_HOP_LIMIT \<noteq> 0"
  shows "\<exists>s'. unet_router_up ((snd (snd (input_down p s)))\<lparr>packet_up := q\<rparr>) = Some (RESULT_PACKET_SEND_OK, s') \<and>
    packet_get_dest_addr16 (packet_up s') = packet_get_source_addr16 p"
proof -
  define t where "t = (snd (snd (input_down p s)))\<lparr>packet_up := q\<rparr>"
  have ok: "net_ok t"
    unfolding t_def by (rule net_ok_packet_up [OF input_down_ok(1) [OF assms(1, 2)] assms(4)])
  define p1 where "p1 = p\<lparr>state := PACKET_SENDING_ACK\<rparr>"
  have p1: "addr64_at UNET_SRC_64 p1 = addr64_at UNET_SRC_64 p"
    "packet_get_source_addr16 p1 = packet_get_source_addr16 p"
    by (simp_all add: p1_def addr64_at_def packet_get_source_addr16_def packet_info_get_def)
  have "packet_ok p1" using assms(2) by (simp add: p1_def)
  then have okp: "net_ok (s\<lparr>packet_down := p1\<rparr>)" by (rule net_ok_packet_down [OF assms(1)])
  have tab: "unet_routing_table_up t = unet_routing_table_up
      (unet_router_up_table_entry_add (packet_get_source_addr16 p1) (addr64_at UNET_SRC_64 p1) (s\<lparr>packet_down := p1\<rparr>))"
    using assms(3) by (simp add: t_def input_down_def packet_acquire_down_def Let_def p1_def)
  have "route_lookup (addr64_at UNET_SRC_64 p) t = Some (packet_get_source_addr16 p)"
    using route_lookup_add [OF okp, of "addr64_at UNET_SRC_64 p1" "packet_get_source_addr16 p1"]
    unfolding route_lookup_cong [OF tab] p1 .
  moreover have "packet_up t = q" by (simp add: t_def)
  ultimately show ?thesis
    using unet_router_up_hop [OF ok] assms(5, 6) unfolding t_def [symmetric] by (auto simp: hopped_def)
qed

theorem reverse_path_witness:
  "\<exists>s'. unet_router_up ((snd (snd (input_down sample_packet sample_net)))\<lparr>packet_up := sample_packet\<rparr>) =
     Some (RESULT_PACKET_SEND_OK, s') \<and> packet_get_dest_addr16 (packet_up s') = 0"
proof -
  have "addr64_at UNET_DEST_64 sample_packet = addr64_at UNET_SRC_64 sample_packet"
    by (rule nth_equalityI) (simp_all add: addr64_at_def sample_packet_def nth_list_update)
  moreover have "packet_get_source_addr16 sample_packet = 0"
    by (simp add: packet_get_source_addr16_def packet_info_get_def sample_packet_def join16_def)
  ultimately show ?thesis
    using reverse_path [OF sample_net_ok sample_packet_ok _ sample_packet_ok]
    by (simp add: sample_packet_def)
qed

section \<open>Attempts of a transmission\<close>

definition succeeds :: "attempt \<Rightarrow> bool" where
  "succeeds a \<longleftrightarrow> a = Sent_no_ack \<or> a = Interrupt_acked"

definition retried :: "attempt \<Rightarrow> bool" where
  "retried a \<longleftrightarrow> a = Interrupt_nacked \<or> a = Interrupt_timeout \<or> a = Other_code"

lemma tx_loop_result:
  "fst (tx_loop c env k n s) = PACKET_SEND_OK \<longleftrightarrow>
     (\<exists>i. k \<le> i \<and> i < k + n \<and> succeeds (env i) \<and> (\<forall>j. k \<le> j \<and> j < i \<longrightarrow> retried (env j)))"
proof (induction n arbitrary: k s)
  case 0
  then show ?case by auto
next
  case (Suc n)
  have later: "(\<exists>i. k \<le> i \<and> i < k + Suc n \<and> succeeds (env i) \<and> (\<forall>j. k \<le> j \<and> j < i \<longrightarrow> retried (env j))) \<longleftrightarrow>
      succeeds (env k) \<or> retried (env k) \<and>
      (\<exists>i. Suc k \<le> i \<and> i < Suc k + n \<and> succeeds (env i) \<and> (\<forall>j. Suc k \<le> j \<and> j < i \<longrightarrow> retried (env j)))"
    (is "?L \<longleftrightarrow> _ \<or> _ \<and> ?R")
  proof
    assume ?L
    then obtain i where i: "k \<le> i" "i < k + Suc n" "succeeds (env i)" "\<forall>j. k \<le> j \<and> j < i \<longrightarrow> retried (env j)"
      by blast
    show "succeeds (env k) \<or> retried (env k) \<and> ?R"
    proof (cases "i = k")
      case False
      with i show ?thesis by (intro disjI2 conjI exI [of _ i]) auto
    qed (use i in simp)
  next
    assume "succeeds (env k) \<or> retried (env k) \<and> ?R"
    then show ?L
    proof
      assume "succeeds (env k)"
      then show ?L by (intro exI [of _ k]) auto
    next
      assume r: "retried (env k) \<and> ?R"
      then obtain i where i: "Suc k \<le> i" "i < Suc k + n" "succeeds (env i)"
        "\<forall>j. Suc k \<le> j \<and> j < i \<longrightarrow> retried (env j)" by blast
      have "\<forall>j. k \<le> j \<and> j < i \<longrightarrow> retried (env j)"
        using i(4) r by (metis Suc_leI le_neq_implies_less)
      with i show ?L by (intro exI [of _ i]) auto
    qed
  qed
  show ?case
    unfolding later by (cases "env k") (simp_all add: Suc.IH succeeds_def retried_def)
qed

lemma tx_loop_cong:
  "(\<And>i. k \<le> i \<Longrightarrow> i < k + n \<Longrightarrow> env i = env' i) \<Longrightarrow> tx_loop c env k n s = tx_loop c env' k n s"
proof (induction n arbitrary: k s)
  case (Suc n)
  have "tx_loop c env (Suc k) n t = tx_loop c env' (Suc k) n t" for t
    by (rule Suc.IH) (simp add: Suc.prems)
  moreover have "env k = env' k" using Suc.prems by simp
  ultimately show ?case by (simp split: attempt.split)
qed simp

text \<open>
  C28. A transmission is reported as sent exactly when one of its attempts is acknowledged, or needs
  no acknowledgement, after attempts that all allowed another one; and it makes at most
  \<open>tx_retries\<close> attempts: what the radio would answer beyond them has no influence.
\<close>

theorem unet_packet_output_result:
  "(fst (unet_packet_output c env tx_retries s) = PACKET_SEND_OK \<longleftrightarrow>
     (\<exists>i < unat tx_retries. succeeds (env i) \<and> (\<forall>j < i. retried (env j)))) \<and>
   ((\<forall>i < unat tx_retries. env' i = env i) \<longrightarrow>
     unet_packet_output c env' tx_retries s = unet_packet_output c env tx_retries s)"
proof -
  have "fst (unet_packet_output c env tx_retries s) = fst (tx_loop c env 0 (unat tx_retries) s)"
    by (simp add: unet_packet_output_def Let_def split: prod.splits)
  then have "fst (unet_packet_output c env tx_retries s) = PACKET_SEND_OK \<longleftrightarrow>
     (\<exists>i < unat tx_retries. succeeds (env i) \<and> (\<forall>j < i. retried (env j)))"
    using tx_loop_result [of c env 0 "unat tx_retries" s] by simp
  moreover have "unet_packet_output c env' tx_retries s = unet_packet_output c env tx_retries s"
    if "\<forall>i < unat tx_retries. env' i = env i"
  proof -
    have "tx_loop c env' 0 (unat tx_retries) s = tx_loop c env 0 (unat tx_retries) s"
      by (rule tx_loop_cong) (use that in simp)
    then show ?thesis by (simp add: unet_packet_output_def)
  qed
  ultimately show ?thesis by blast
qed

theorem unet_packet_output_result_witness:
  "fst (unet_packet_output \<lparr>MAC16_INIT = (0, 7), PANID_INIT = (1, 2), CHANNEL_INIT_VALUE = 26\<rparr>
     (\<lambda>i. if i = 0 then Interrupt_nacked else Sent_no_ack) 3 sample_net) = PACKET_SEND_OK"
proof -
  have "\<exists>i < unat (3 :: u8). succeeds ((\<lambda>i. if i = 0 then Interrupt_nacked else Sent_no_ack) i) \<and>
      (\<forall>j < i. retried ((\<lambda>i. if i = 0 then Interrupt_nacked else Sent_no_ack) j))"
    by (intro exI [of _ 1]) (simp add: succeeds_def retried_def)
  then show ?thesis using unet_packet_output_result by blast
qed

text \<open>
  The statistics miss the case they are meant for: when every attempt fails the loop test leaves
  the counter of attempts at 255, and the test for zero is false; it is true when the last attempt
  succeeds.
\<close>

lemma tx_loop_exhausted:
  "(\<And>i. k \<le> i \<Longrightarrow> i < k + n \<Longrightarrow> retried (env i)) \<Longrightarrow> fst (snd (tx_loop c env k n s)) = - 1"
proof (induction n arbitrary: k s)
  case (Suc n)
  have "fst (snd (tx_loop c env (Suc k) n t)) = - 1" for t
    by (rule Suc.IH) (simp add: Suc.prems)
  moreover have "retried (env k)" using Suc.prems by simp
  ultimately show ?case by (auto simp: retried_def)
qed simp

lemma txmaxretries_missed:
  assumes "\<And>i. i < unat r \<Longrightarrow> retried (env i)"
  shows "unet_packet_output c env r s = (PACKET_SEND_ERR, snd (snd (tx_loop c env 0 (unat r) s)))"
proof -
  have "fst (snd (tx_loop c env 0 (unat r) s)) = - 1"
    using assms by (intro tx_loop_exhausted) simp
  moreover have "fst (tx_loop c env 0 (unat r) s) = PACKET_SEND_ERR"
  proof (cases "fst (tx_loop c env 0 (unat r) s)")
    case PACKET_SEND_OK
    then obtain i where "i < unat r" "succeeds (env i)"
      unfolding tx_loop_result by auto
    with assms [of i] show ?thesis by (auto simp: succeeds_def retried_def)
  qed
  ultimately show ?thesis
    by (cases "tx_loop c env 0 (unat r) s") (simp add: unet_packet_output_def)
qed

end
