(* ===== verification/Timers.thy ===== *)
theory Timers
  imports Ticks Tasks
begin

text \<open>
  Software timers, \<^verbatim>\<open>brtos/stimer.c\<close>: two binary heaps of pointers into a static table of timers,
  ordered by deadline, one for the deadlines before the tick counter overflows and one for
  those after it, and the task that runs the callbacks.

  A pointer to a timer is its index in \<open>mem\<close>, NULL is \<open>None\<close>; following NULL or leaving
  an array makes an operation \<open>None\<close>.  The two static lists are never shared, so
  the pointers \<open>current\<close> and \<open>future\<close> are the lists themselves and switching the lists
  exchanges them.  The indices of the heaps stay below 16, so they are natural numbers, and
  so is \<open>count\<close>, which the code only increments below 7 and decrements above 0.
\<close>

section \<open>Data\<close>

datatype TIMER_STATE =
  TIMER_NOT_ALLOCATED | TIMER_NOT_USED | TIMER_STOPPED | TIMER_RUNNING | TIMER_SEARCH

abbreviation (input) BRTOS_MAX_TIMER :: nat where "BRTOS_MAX_TIMER \<equiv> 8"
definition TIMER_MAX_COUNTER :: u64 where [codes]: "TIMER_MAX_COUNTER = TICK_COUNT_OVERFLOW - 1"

text \<open>A callback is a number; what it does is the parameter \<open>run\<close> of the timer task.\<close>

record brtos_timer =
  func_cb :: "nat option"
  timeout :: u64
  timer_state :: TIMER_STATE

record tmr_list =
  timers :: "nat option list"
  tmr_count :: nat

record timer_vector =
  timer_mem :: "brtos_timer list"
  current_list :: tmr_list
  future_list :: tmr_list
  handling_task :: nat

definition timer_vector_zero :: timer_vector where
  "timer_vector_zero =
     \<lparr>timer_mem = replicate BRTOS_MAX_TIMER
        \<lparr>func_cb = None, timeout = 0, timer_state = TIMER_NOT_ALLOCATED\<rparr>,
      current_list = \<lparr>timers = replicate BRTOS_MAX_TIMER None, tmr_count = 0\<rparr>,
      future_list = \<lparr>timers = replicate BRTOS_MAX_TIMER None, tmr_count = 0\<rparr>,
      handling_task = 0\<rparr>"

definition upd_timer :: "nat \<Rightarrow> (brtos_timer \<Rightarrow> brtos_timer) \<Rightarrow> timer_vector \<Rightarrow> timer_vector" where
  "upd_timer p f v = v\<lparr>timer_mem := (timer_mem v)[p := f (timer_mem v ! p)]\<rparr>"

abbreviation timer :: "nat \<Rightarrow> timer_vector \<Rightarrow> brtos_timer" where
  "timer p v \<equiv> timer_mem v ! p"

section \<open>The binary heap\<close>

definition at :: "nat option list \<Rightarrow> nat \<Rightarrow> nat option" where
  "at ts i = (if i < length ts then ts ! i else None)"

definition put_at :: "nat \<Rightarrow> nat option \<Rightarrow> nat option list \<Rightarrow> nat option list option" where
  "put_at i p ts = (if i < length ts then Some (ts[i := p]) else None)"

definition exchange :: "nat \<Rightarrow> nat \<Rightarrow> nat option list \<Rightarrow> nat option list" where
  "exchange i j ts = ts[i := ts ! j, j := ts ! i]"

definition PAI :: "nat \<Rightarrow> nat" where "PAI i = i div 2"
definition LEFT :: "nat \<Rightarrow> nat" where "LEFT i = 2 * i"
definition RIGHT :: "nat \<Rightarrow> nat" where "RIGHT i = 2 * i + 1"

function Subir :: "brtos_timer list \<Rightarrow> nat option list \<Rightarrow> nat \<Rightarrow> nat option list option" where
  "Subir mem ts i =
     (if 1 < i then do {
        p \<leftarrow> at ts (PAI i);
        q \<leftarrow> at ts i;
        if timeout (mem ! p) > timeout (mem ! q)
        then Subir mem (exchange (PAI i) i ts) (PAI i)
        else Some ts
      } else Some ts)"
  by pat_completeness auto
termination
  by (relation "measure (\<lambda>(_, _, i). i)") (auto simp: PAI_def)

declare Subir.simps [simp del]

definition smaller_son :: "brtos_timer list \<Rightarrow> nat option list \<Rightarrow> nat \<Rightarrow> nat \<Rightarrow> nat" where
  "smaller_son mem ts i n =
     (case (at ts (RIGHT i), at ts (LEFT i)) of
        (Some r, Some l) \<Rightarrow>
          if RIGHT i \<le> n \<and> timeout (mem ! r) < timeout (mem ! l) then RIGHT i else LEFT i
      | _ \<Rightarrow> LEFT i)"

function Descer :: "brtos_timer list \<Rightarrow> nat option list \<Rightarrow> nat \<Rightarrow> nat \<Rightarrow> nat option list" where
  "Descer mem ts i n =
     (let son = smaller_son mem ts i n in
      if son \<le> n then
        (case (at ts son, at ts i) of
           (Some q, Some p) \<Rightarrow>
             if timeout (mem ! q) < timeout (mem ! p)
             then Descer mem (exchange son i ts) son n
             else ts
         | _ \<Rightarrow> ts)
      else ts)"
  by pat_completeness auto
termination
proof (relation "measure (\<lambda>(_, _, i, n). n - i)")
  fix mem ts i n son x y q p
  assume son: "son = smaller_son mem ts i n" "son \<le> n" and xy: "(x, y) = (at ts son, at ts i)"
    "x = Some q" "y = Some p" and less: "timeout (mem ! q) < timeout (mem ! p)"
  have "i < son"
  proof (rule ccontr)
    assume "\<not> i < son"
    moreover have "son = LEFT i \<or> son = RIGHT i"
      unfolding son smaller_son_def by (simp split: option.split)
    ultimately have "son = i"
      by (auto simp: LEFT_def RIGHT_def)
    then have "Some q = Some p" using xy by simp
    then show False using less by simp
  qed
  then show "((mem, exchange son i ts, son, n), mem, ts, i, n) \<in> measure (\<lambda>(_, _, i, n). n - i)"
    using son by auto
qed simp

declare Descer.simps [simp del]

section \<open>Starting and stopping timers\<close>

text \<open>
  Inserting at the end of a list, and taking the first timer out of it; both are written out
  at every place where the code does them.
\<close>

definition insert_last :: "brtos_timer list \<Rightarrow> nat \<Rightarrow> tmr_list \<Rightarrow> tmr_list option" where
  "insert_last mem p l =
     (let n = (if tmr_count l < BRTOS_MAX_TIMER - 1 then tmr_count l + 1 else tmr_count l)
      in do {
        ts1 \<leftarrow> put_at n (Some p) (timers l);
        ts2 \<leftarrow> Subir mem ts1 n;
        Some \<lparr>timers = ts2, tmr_count = n\<rparr>
      })"

definition remove_first :: "tmr_list \<Rightarrow> tmr_list option" where
  "remove_first l = do {
     ts1 \<leftarrow> put_at 1 (at (timers l) (tmr_count l)) (timers l);
     ts2 \<leftarrow> put_at (tmr_count l) None ts1;
     Some \<lparr>timers = ts2, tmr_count = (if tmr_count l > 0 then tmr_count l - 1 else tmr_count l)\<rparr>
   }"

definition order_first :: "brtos_timer list \<Rightarrow> tmr_list \<Rightarrow> tmr_list" where
  "order_first mem l = l\<lparr>timers := Descer mem (timers l) 1 (tmr_count l)\<rparr>"

text \<open>Arming a timer: the common part of \<open>OSTimerSet\<close> and \<open>OSTimerStart\<close>.\<close>

definition arm :: "nat \<Rightarrow> u64 \<Rightarrow> timer_vector \<Rightarrow> os \<Rightarrow> (timer_vector \<times> os) option" where
  "arm p time_wait v os =
     (let deadline = OSGetCount os + time_wait in
      if deadline \<ge> TICK_COUNT_OVERFLOW then do {
        let v1 = upd_timer p (\<lambda>t. t\<lparr>timeout := deadline - TICK_COUNT_OVERFLOW\<rparr>) v;
        l \<leftarrow> insert_last (timer_mem v1) p (future_list v1);
        Some (upd_timer p (\<lambda>t. t\<lparr>timer_state := TIMER_RUNNING\<rparr>) (v1\<lparr>future_list := l\<rparr>), os)
      } else do {
        let v1 = upd_timer p (\<lambda>t. t\<lparr>timeout := deadline\<rparr>) v;
        l \<leftarrow> insert_last (timer_mem v1) p (current_list v1);
        let v2 = v1\<lparr>current_list := l\<rparr>;
        os1 \<leftarrow> (if currentTask os \<noteq> 0 then do {
                   first \<leftarrow> at (timers l) 1;
                   Some (if timeout (timer p v2) = timeout (timer first v2)
                         then upd_task (handling_task v2)
                                (\<lambda>c. c\<lparr>TimeToWait := timeout (timer p v2)\<rparr>) os
                         else os)
                 } else Some os);
        Some (upd_timer p (\<lambda>t. t\<lparr>timer_state := TIMER_RUNNING\<rparr>) v2, os1)
      })"

text \<open>\<open>OSTimerSet\<close> returns the timer through its first argument, here the second result.\<close>

definition OSTimerSet ::
  "nat option \<Rightarrow> u64 \<Rightarrow> timer_vector \<Rightarrow> os \<Rightarrow> (u8 \<times> nat option \<times> timer_vector \<times> os) option" where
  "OSTimerSet cb time_wait v os =
     (case cb of
        None \<Rightarrow> Some (NULL_EVENT_POINTER, None, v, os)
      | Some f \<Rightarrow>
         (let i = first_idx (\<lambda>t. timer_state t = TIMER_NOT_ALLOCATED \<or> timer_state t = TIMER_NOT_USED)
                    (timer_mem v) in
          if i = BRTOS_MAX_TIMER then Some (NO_AVAILABLE_EVENT, None, v, os)
          else if timer_state (timer i v) = TIMER_NOT_ALLOCATED
          then Some (ERR_EVENT_NO_CREATED, None, v, os)
          else do {
            let v1 = upd_timer i (\<lambda>t. t\<lparr>timer_state := TIMER_STOPPED, func_cb := Some f\<rparr>) v;
            (v2, os2) \<leftarrow> (if time_wait > 0 then arm i time_wait v1 os else Some (v1, os));
            Some (OK, Some i, v2, os2)
          }))"

definition OSTimerGet :: "nat option \<Rightarrow> timer_vector \<Rightarrow> os \<Rightarrow> u64" where
  "OSTimerGet p v os =
     (case p of
        None \<Rightarrow> 0
      | Some t \<Rightarrow>
          if timer_state (timer t v) = TIMER_RUNNING then
            (let tickcount = OSGetCount os in
             if timeout (timer t v) \<ge> tickcount then timeout (timer t v) - tickcount
             else TIMER_MAX_COUNTER - tickcount + timeout (timer t v) + 1)
          else 0)"

definition OSTimerStart ::
  "nat option \<Rightarrow> u64 \<Rightarrow> timer_vector \<Rightarrow> os \<Rightarrow> (u8 \<times> timer_vector \<times> os) option" where
  "OSTimerStart p time_wait v os =
     (case p of
        None \<Rightarrow> Some (NULL_EVENT_POINTER, v, os)
      | Some t \<Rightarrow>
          if time_wait \<noteq> 0 then do {
            let wait = (if time_wait > TIMER_MAX_COUNTER then TIMER_MAX_COUNTER else time_wait);
            (v1, os1) \<leftarrow> arm t wait v os;
            Some (OK, v1, os1)
          } else Some (NULL_EVENT_POINTER, v, os))"

text \<open>The search loop of \<open>OSTimerStop\<close>, for the timer in state \<open>TIMER_SEARCH\<close>, from \<open>pos\<close> on.\<close>

function search_timer :: "brtos_timer list \<Rightarrow> tmr_list \<Rightarrow> nat \<Rightarrow> nat option" where
  "search_timer mem l pos =
     (if pos \<le> tmr_count l then do {
        t \<leftarrow> at (timers l) pos;
        if timer_state (mem ! t) = TIMER_SEARCH then Some pos else search_timer mem l (pos + 1)
      } else Some pos)"
  by pat_completeness auto
termination
  by (relation "measure (\<lambda>(_, l, pos). Suc (tmr_count l) - pos)") auto

declare search_timer.simps [simp del]

definition unlink_timer :: "nat \<Rightarrow> timer_vector \<Rightarrow> tmr_list \<Rightarrow> (timer_vector \<times> tmr_list) option" where
  "unlink_timer p v l = do {
     let v1 = upd_timer p (\<lambda>t. t\<lparr>timer_state := TIMER_SEARCH\<rparr>) v;
     pos_timer \<leftarrow> search_timer (timer_mem v1) l 1;
     let v2 = upd_timer p (\<lambda>t. t\<lparr>timeout := 0\<rparr>) v1;
     ts1 \<leftarrow> Subir (timer_mem v2) (timers l) pos_timer;
     l1 \<leftarrow> remove_first (l\<lparr>timers := ts1\<rparr>);
     Some (v2, order_first (timer_mem v2) l1)
   }"

definition OSTimerStop ::
  "nat option \<Rightarrow> u8 \<Rightarrow> timer_vector \<Rightarrow> os \<Rightarrow> (u8 \<times> timer_vector) option" where
  "OSTimerStop p del v os =
     (case p of
        None \<Rightarrow> Some (NULL_EVENT_POINTER, v)
      | Some t \<Rightarrow> do {
          v1 \<leftarrow> (if timeout (timer t v) \<ge> OSGetCount os then do {
                    (v', l) \<leftarrow> unlink_timer t v (current_list v);
                    Some (v'\<lparr>current_list := l\<rparr>)
                  } else do {
                    (v', l) \<leftarrow> unlink_timer t v (future_list v);
                    Some (v'\<lparr>future_list := l\<rparr>)
                  });
          Some (OK, upd_timer t (\<lambda>t. if del > 0
                       then t\<lparr>timer_state := TIMER_NOT_USED, func_cb := None\<rparr>
                       else t\<lparr>timer_state := TIMER_STOPPED\<rparr>) v1)
        })"

section \<open>The timer task\<close>

text \<open>
  \<open>OSTimerInit\<close> is called once, before any timer is set, when both static lists are empty;
  then pointing \<open>current\<close> and \<open>future\<close> at them changes nothing.  The task does not
  exist when installing it fails: the code then loops for ever, the result is \<open>None\<close>.
\<close>

definition BRTOS_TimerTaskInit :: "timer_vector \<Rightarrow> timer_vector" where
  "BRTOS_TimerTaskInit v = v\<lparr>timer_mem :=
     map (\<lambda>_. \<lparr>func_cb = None, timeout = 0, timer_state = TIMER_NOT_USED\<rparr>) (timer_mem v)\<rparr>"

definition OSTimerInit ::
  "u32 \<Rightarrow> u32 \<Rightarrow> u16 \<Rightarrow> nat \<Rightarrow> timer_vector \<Rightarrow> os \<Rightarrow> (timer_vector \<times> os) option" where
  "OSTimerInit Idle TimerTask timertask_stacksize prio v os =
     (case OSInstallTask Idle TimerTask ''BRTOS Timers Task'' timertask_stacksize prio os of
        (r, _, os1) \<Rightarrow> if r \<noteq> OK then None else Some (BRTOS_TimerTaskInit v, os1))"

definition BRTOS_TimerTaskSleep :: "u64 \<Rightarrow> os \<Rightarrow> os" where
  "BRTOS_TimerTaskSleep next_time_to_wake os =
     (let t = currentTask os;
          os1 = upd_task t (\<lambda>c. c\<lparr>TimeToWait := next_time_to_wake\<rparr>) os;
          os2 = IncludeTaskIntoDelayList t os1
      in ChangeContext (clear_ready (Priority (task t os2)) os2))"

definition first_timer :: "timer_vector \<Rightarrow> nat option" where
  "first_timer v = at (timers (current_list v)) 1"

definition next_wake :: "timer_vector \<Rightarrow> u64" where
  "next_wake v =
     (case first_timer v of Some p \<Rightarrow> timeout (timer p v) | None \<Rightarrow> TIMER_MAX_COUNTER)"

definition switch_lists :: "timer_vector \<Rightarrow> timer_vector" where
  "switch_lists v = v\<lparr>current_list := future_list v, future_list := current_list v\<rparr>"

text \<open>
  \<open>run f\<close> is the callback \<open>f\<close>: it returns the time after which it wants to be called again.
  It runs outside the critical sections and may use the kernel and the timers.
\<close>

type_synonym callbacks = "nat \<Rightarrow> timer_vector \<Rightarrow> os \<Rightarrow> u64 \<times> timer_vector \<times> os"

definition call_back :: "callbacks \<Rightarrow> nat \<Rightarrow> timer_vector \<Rightarrow> os \<Rightarrow> u64 \<times> timer_vector \<times> os" where
  "call_back run p v os =
     (let v1 = upd_timer p (\<lambda>t. t\<lparr>timer_state := TIMER_STOPPED\<rparr>) v in
      case func_cb (timer p v1) of Some f \<Rightarrow> run f v1 os | None \<Rightarrow> (0, v1, os))"

definition move_to_future :: "nat \<Rightarrow> timer_vector \<Rightarrow> timer_vector option" where
  "move_to_future p v = do {
     l \<leftarrow> insert_last (timer_mem v) p (future_list v);
     c \<leftarrow> remove_first (current_list v);
     Some (v\<lparr>future_list := l, current_list := c\<rparr>)
   }"

definition free_timer :: "nat \<Rightarrow> timer_vector \<Rightarrow> timer_vector option" where
  "free_timer p v = do {
     c \<leftarrow> remove_first (current_list v);
     Some (upd_timer p (\<lambda>t. t\<lparr>timeout := 0, timer_state := TIMER_NOT_USED, func_cb := None\<rparr>) v
             \<lparr>current_list := c\<rparr>)
   }"

definition order_current :: "timer_vector \<Rightarrow> timer_vector" where
  "order_current v = v\<lparr>current_list := order_first (timer_mem v) (current_list v)\<rparr>"

text \<open>
  One turn of the loop that empties the current list, and one turn of the loop that runs the
  timers whose time has come.  The variable \<open>timeout\<close> of the task is the third result.
\<close>

definition flush_timer ::
  "callbacks \<Rightarrow> nat \<Rightarrow> u64 \<Rightarrow> timer_vector \<Rightarrow> os \<Rightarrow> (u64 \<times> timer_vector \<times> os) option" where
  "flush_timer run p tmo v os =
     (case call_back run p v os of
        (repeat, v1, os1) \<Rightarrow>
          if repeat > 0 then do {
            let tmo1 = OSGetTickCount os1 + repeat;
            v2 \<leftarrow> move_to_future p
                    (upd_timer p (\<lambda>t. t\<lparr>timer_state := TIMER_RUNNING, timeout := tmo1\<rparr>) v1);
            Some (tmo1, order_current v2, os1)
          } else do {
            v2 \<leftarrow> free_timer p v1;
            Some (tmo, order_current v2, os1)
          })"

definition expire_timer ::
  "callbacks \<Rightarrow> nat \<Rightarrow> u64 \<Rightarrow> timer_vector \<Rightarrow> os \<Rightarrow> (u64 \<times> timer_vector \<times> os) option" where
  "expire_timer run p tmo v os =
     (case call_back run p v os of
        (repeat, v1, os1) \<Rightarrow>
          if repeat > 0 then
            (let tmo1 = OSGetTickCount os1 + repeat;
                 v2 = upd_timer p (\<lambda>t. t\<lparr>timer_state := TIMER_RUNNING\<rparr>) v1 in
             if tmo1 \<ge> TICK_COUNT_OVERFLOW then do {
               v3 \<leftarrow> move_to_future p (upd_timer p (\<lambda>t. t\<lparr>timeout := tmo1 - TICK_COUNT_OVERFLOW\<rparr>) v2);
               Some (tmo1, order_current v3, os1)
             } else Some (tmo1, order_current (upd_timer p (\<lambda>t. t\<lparr>timeout := tmo1\<rparr>) v2), os1))
          else do {
            v2 \<leftarrow> free_timer p v1;
            Some (tmo, order_current v2, os1)
          })"

text \<open>The loops also return the timers they ran, in order; the code does not keep that list.\<close>

partial_function (option) flush_loop ::
  "callbacks \<Rightarrow> u64 \<Rightarrow> timer_vector \<Rightarrow> os \<Rightarrow> (nat list \<times> u64 \<times> timer_vector \<times> os) option" where
  "flush_loop run tmo v os =
     (case first_timer v of
        None \<Rightarrow> Some ([], tmo, v, os)
      | Some p \<Rightarrow> do {
          (tmo1, v1, os1) \<leftarrow> flush_timer run p tmo v os;
          (ran, tmo2, v2, os2) \<leftarrow> flush_loop run tmo1 v1 os1;
          Some (p # ran, tmo2, v2, os2)
        })"

partial_function (option) expire_loop ::
  "callbacks \<Rightarrow> u64 \<Rightarrow> timer_vector \<Rightarrow> os \<Rightarrow> (nat list \<times> u64 \<times> timer_vector \<times> os) option" where
  "expire_loop run tmo v os =
     (case first_timer v of
        None \<Rightarrow> Some ([], tmo, v, os)
      | Some p \<Rightarrow>
          if timeout (timer p v) \<le> OSGetTickCount os then do {
            (tmo1, v1, os1) \<leftarrow> expire_timer run p tmo v os;
            (ran, tmo2, v2, os2) \<leftarrow> expire_loop run tmo1 v1 os1;
            Some (p # ran, tmo2, v2, os2)
          } else Some ([], tmo, v, os))"

text \<open>
  \<open>BRTOSTimerTask\<close> up to its first sleep, and one turn of its endless loop after a wake-up:
  the timers that ran, the time of the next wake-up, the variable \<open>timeout\<close>, and the state.
\<close>

definition BRTOSTimerTask_start :: "timer_vector \<Rightarrow> os \<Rightarrow> u64 \<times> timer_vector" where
  "BRTOSTimerTask_start v os = (next_wake v, v\<lparr>handling_task := currentTask os\<rparr>)"

definition BRTOSTimerTask_turn ::
  "callbacks \<Rightarrow> u64 \<Rightarrow> timer_vector \<Rightarrow> os \<Rightarrow>
     (nat list \<times> u64 \<times> u64 \<times> timer_vector \<times> os) option" where
  "BRTOSTimerTask_turn run tmo v os = do {
     let early = (case first_timer v of Some p \<Rightarrow> timeout (timer p v) > OSGetTickCount os
                                      | None \<Rightarrow> False);
     (ran1, tmo1, v1, os1) \<leftarrow>
       (if early then do {
          (ran, tmo', v', os') \<leftarrow> flush_loop run tmo v os;
          Some (ran, tmo', switch_lists v', os')
        } else Some ([], tmo, v, os));
     (ran2, tmo2, v2, os2) \<leftarrow> expire_loop run tmo1 v1 os1;
     let v3 = (if tmo2 > TIMER_MAX_COUNTER \<and> first_timer v2 = None then switch_lists v2 else v2);
     Some (ran1 @ ran2, next_wake v3, tmo2, v3, os2)
   }"

text \<open>The turn followed by the sleep at the head of the next one.\<close>

definition BRTOSTimerTask_step ::
  "callbacks \<Rightarrow> u64 \<Rightarrow> timer_vector \<Rightarrow> os \<Rightarrow> (nat list \<times> u64 \<times> timer_vector \<times> os) option" where
  "BRTOSTimerTask_step run tmo v os = do {
     (ran, wake, tmo1, v1, os1) \<leftarrow> BRTOSTimerTask_turn run tmo v os;
     Some (ran, tmo1, v1, BRTOS_TimerTaskSleep wake os1)
   }"

end
