(* ===== verification/Timer_Laws.thy ===== *)
theory Timer_Laws
  imports Timers "HOL-Library.Multiset"
begin

text \<open>
  The two sifting routines of \<^verbatim>\<open>brtos/stimer.c\<close> keep the heap order and only exchange entries.
  The locale \<open>deadline_queue\<close> states what the timer module expects of a list of timers;
  the heaps are its interpretation.
\<close>

section \<open>Exchanging entries\<close>

definition full :: "nat \<Rightarrow> nat option list \<Rightarrow> bool" where
  "full n ts \<longleftrightarrow> n < length ts \<and> (\<forall>j \<in> {1..n}. ts ! j \<noteq> None)"

definition rearranged :: "nat \<Rightarrow> nat option list \<Rightarrow> nat option list \<Rightarrow> bool" where
  "rearranged n ts ts' \<longleftrightarrow>
     length ts' = length ts \<and> mset ts' = mset ts \<and> (\<forall>j. j \<notin> {1..n} \<longrightarrow> ts' ! j = ts ! j)"

definition key :: "brtos_timer list \<Rightarrow> nat option list \<Rightarrow> nat \<Rightarrow> u64" where
  "key mem ts i = timeout (mem ! the (ts ! i))"

definition heap :: "brtos_timer list \<Rightarrow> nat option list \<Rightarrow> nat \<Rightarrow> bool" where
  "heap mem ts n \<longleftrightarrow> (\<forall>j \<in> {2..n}. key mem ts (j div 2) \<le> key mem ts j)"

lemma rearranged_refl [simp]: "rearranged n ts ts"
  by (simp add: rearranged_def)

lemma rearranged_trans: "rearranged n ts ts1 \<Longrightarrow> rearranged n ts1 ts2 \<Longrightarrow> rearranged n ts ts2"
  by (simp add: rearranged_def)

lemma exchange_nth:
  "i < length ts \<Longrightarrow> j < length ts \<Longrightarrow>
     exchange i j ts ! k = (if k = i then ts ! j else if k = j then ts ! i else ts ! k)"
  by (auto simp: exchange_def nth_list_update)

lemma exchange_rearranged:
  assumes "i \<in> {1..n}" "j \<in> {1..n}" "n < length ts"
  shows "rearranged n ts (exchange i j ts)"
proof -
  have "mset (exchange i j ts) = mset ts"
    using assms unfolding exchange_def by (intro mset_swap) auto
  then show ?thesis
    using assms by (auto simp: rearranged_def exchange_nth) (auto simp: exchange_def)
qed

lemma exchange_full:
  assumes "i \<in> {1..n}" "j \<in> {1..n}" "full n ts"
  shows "full n (exchange i j ts)"
  using assms unfolding full_def
  by (auto simp: exchange_nth simp del: not_None_eq) (auto simp: exchange_def)

lemma exchange_key:
  "i < length ts \<Longrightarrow> j < length ts \<Longrightarrow>
     key mem (exchange i j ts) k =
       (if k = i then key mem ts j else if k = j then key mem ts i else key mem ts k)"
  by (simp add: key_def exchange_nth)

lemma full_at: "full n ts \<Longrightarrow> i \<in> {1..n} \<Longrightarrow> at ts i = Some (the (ts ! i))"
  by (auto simp: full_def at_def)

section \<open>Sifting up\<close>

lemma Subir_heap:
  assumes "full n ts" and "i \<in> {1..n}"
    and "\<And>j. j \<in> {2..n} \<Longrightarrow> j \<noteq> i \<Longrightarrow> key mem ts (j div 2) \<le> key mem ts j"
    and "\<And>j. j \<in> {2..n} \<Longrightarrow> j div 2 = i \<Longrightarrow> 1 < i \<Longrightarrow> key mem ts (i div 2) \<le> key mem ts j"
  shows "\<exists>ts'. Subir mem ts i = Some ts' \<and> rearranged n ts ts' \<and> full n ts' \<and> heap mem ts' n"
  using assms
proof (induction mem ts i rule: Subir.induct)
  case (1 mem ts i)
  note full = "1.prems"(1) and i = "1.prems"(2) and order = "1.prems"(3) and bridge = "1.prems"(4)
  show ?case
  proof (cases "1 < i")
    case False
    then have "i = 1" using i by simp
    then have "heap mem ts n"
      using order by (auto simp: heap_def)
    then show ?thesis
      using False full by (simp add: Subir.simps)
  next
    case True
    define h where "h = i div 2"
    have h: "h \<in> {1..n}" "h < i" "h \<noteq> i" using True i by (auto simp: h_def)
    have len: "h < length ts" "i < length ts" using h i full by (auto simp: full_def)
    have at: "at ts (PAI i) = Some (the (ts ! h))" "at ts i = Some (the (ts ! i))"
      using full_at [OF full] h i by (auto simp: PAI_def h_def)
    show ?thesis
    proof (cases "key mem ts h > key mem ts i")
      case False
      have "heap mem ts n"
        unfolding heap_def
      proof
        fix j assume j: "j \<in> {2..n}"
        show "key mem ts (j div 2) \<le> key mem ts j"
          using order [OF j] False by (cases "j = i") (auto simp: h_def)
      qed
      then show ?thesis
        using True at False full by (simp add: Subir.simps [of _ _ i] key_def)
    next
      case swap: True
      let ?ts = "exchange (PAI i) i ts"
      have k: "key mem ?ts j = (if j = h then key mem ts i else if j = i then key mem ts h else key mem ts j)"
        for j using exchange_key [OF len] by (simp add: PAI_def h_def)
      have sons: "key mem ts h \<le> key mem ts j" if "j \<in> {2..n}" "j div 2 = h" "j \<noteq> i" for j
        using order [of j] that by simp
      have "\<exists>ts'. Subir mem ?ts (PAI i) = Some ts' \<and> rearranged n ?ts ts' \<and> full n ts' \<and> heap mem ts' n"
      proof (rule "1.IH" [OF True at])
        show "timeout (mem ! the (ts ! i)) < timeout (mem ! the (ts ! h))"
          using swap by (simp add: key_def)
        show "full n ?ts" using exchange_full [OF _ i full] h by (simp add: PAI_def h_def)
        show "PAI i \<in> {1..n}" using h by (simp add: PAI_def h_def)
      next
        fix j assume j: "j \<in> {2..n}" and ne: "j \<noteq> PAI i"
        have up: "j div 2 = i \<Longrightarrow> key mem ts h \<le> key mem ts j"
          using bridge [OF j] True by (simp add: h_def)
        have "j div 2 = h \<Longrightarrow> j \<noteq> i \<Longrightarrow> key mem ts i \<le> key mem ts j"
          using sons [OF j] swap by simp
        then show "key mem ?ts (j div 2) \<le> key mem ?ts j"
          using ne up order [OF j] swap h unfolding k by (auto simp: PAI_def h_def)
      next
        fix j assume j: "j \<in> {2..n}" "j div 2 = PAI i" "1 < PAI i"
        have hh: "key mem ts (h div 2) \<le> key mem ts h"
          using order [of h] h j(3) by (auto simp: PAI_def h_def)
        have "h div 2 \<noteq> h" "h div 2 \<noteq> i" using h j(3) by (auto simp: PAI_def h_def)
        moreover have "j \<noteq> h" using j(2,3) by (auto simp: PAI_def h_def)
        moreover have "j = i \<or> key mem ts h \<le> key mem ts j"
          using sons [OF j(1)] j(2) by (auto simp: PAI_def h_def)
        ultimately show "key mem ?ts (PAI i div 2) \<le> key mem ?ts j"
          using hh unfolding k by (auto simp: PAI_def h_def)
      qed
      moreover have "rearranged n ts ?ts"
        using exchange_rearranged [OF _ i] h full by (simp add: PAI_def h_def full_def)
      moreover have "Subir mem ts i = Subir mem ?ts (PAI i)"
        using True at swap by (simp add: Subir.simps [of _ _ i] key_def)
      ultimately show ?thesis
        using rearranged_trans by (metis (no_types))
    qed
  qed
qed

section \<open>Sifting down\<close>

lemma smaller_son:
  assumes "full n ts" and "LEFT i \<le> n" and "1 \<le> i" and "son = smaller_son mem ts i n"
  shows "son \<in> {2..n}" and "son div 2 = i" and "i < son"
    and "\<And>j. j \<in> {2..n} \<Longrightarrow> j div 2 = i \<Longrightarrow> key mem ts son \<le> key mem ts j"
proof -
  have l: "at ts (LEFT i) = Some (the (ts ! LEFT i))"
    using assms by (intro full_at) (auto simp: LEFT_def)
  have r: "RIGHT i \<le> n \<Longrightarrow> at ts (RIGHT i) = Some (the (ts ! RIGHT i))"
    using assms by (intro full_at) (auto simp: RIGHT_def)
  have son: "son = (if RIGHT i \<le> n \<and> key mem ts (RIGHT i) < key mem ts (LEFT i) then RIGHT i else LEFT i)"
    using l r assms(4) by (cases "RIGHT i \<le> n") (auto simp: smaller_son_def key_def split: option.split)
  then have "son = LEFT i \<or> son = RIGHT i \<and> RIGHT i \<le> n" by simp
  then show "son \<in> {2..n}" "son div 2 = i" "i < son"
    using assms(2,3) by (auto simp: LEFT_def RIGHT_def)
  fix j assume j: "j \<in> {2..n}" "j div 2 = i"
  then have "j = LEFT i \<or> j = RIGHT i \<and> RIGHT i \<le> n"
    by (auto simp: LEFT_def RIGHT_def)
  then show "key mem ts son \<le> key mem ts j"
    using son by auto
qed

lemma Descer_stays: "n < LEFT i \<Longrightarrow> Descer mem ts i n = ts"
proof -
  assume "n < LEFT i"
  then have "\<not> smaller_son mem ts i n \<le> n"
    by (auto simp: smaller_son_def LEFT_def RIGHT_def split: option.split)
  then show ?thesis by (simp add: Descer.simps Let_def)
qed

lemma Descer_heap:
  assumes "full n ts" and "1 \<le> i"
    and "\<And>j. j \<in> {2..n} \<Longrightarrow> j div 2 \<noteq> i \<Longrightarrow> key mem ts (j div 2) \<le> key mem ts j"
    and "\<And>j. j \<in> {2..n} \<Longrightarrow> j div 2 = i \<Longrightarrow> 1 < i \<Longrightarrow> key mem ts (i div 2) \<le> key mem ts j"
  shows "rearranged n ts (Descer mem ts i n) \<and> full n (Descer mem ts i n) \<and>
    heap mem (Descer mem ts i n) n"
  using assms
proof (induction mem ts i n rule: Descer.induct)
  case (1 mem ts i n)
  note full = "1.prems"(1) and i = "1.prems"(2) and order = "1.prems"(3) and bridge = "1.prems"(4)
  show ?case
  proof (cases "LEFT i \<le> n")
    case False
    have "heap mem ts n"
      unfolding heap_def
    proof
      fix j assume j: "j \<in> {2..n}"
      then have "j div 2 \<noteq> i" using False by (auto simp: LEFT_def)
      then show "key mem ts (j div 2) \<le> key mem ts j" using order [OF j] by simp
    qed
    then show ?thesis using False full by (simp add: Descer_stays)
  next
    case True
    define son where "son = smaller_son mem ts i n"
    note s = smaller_son [OF full True i son_def]
    have in_n: "i \<in> {1..n}" "son \<in> {1..n}" using s(1,3) i by auto
    have len: "son < length ts" "i < length ts" using in_n full by (auto simp: full_def)
    have at: "at ts son = Some (the (ts ! son))" "at ts i = Some (the (ts ! i))"
      using full_at [OF full] in_n by auto
    show ?thesis
    proof (cases "key mem ts son < key mem ts i")
      case False
      have "heap mem ts n"
        unfolding heap_def
      proof
        fix j assume j: "j \<in> {2..n}"
        show "key mem ts (j div 2) \<le> key mem ts j"
          using order [OF j] s(4) [OF j] False by (cases "j div 2 = i") auto
      qed
      moreover have "Descer mem ts i n = ts"
        using at False son_def [symmetric] by (simp add: Descer.simps [of _ _ i] key_def Let_def)
      ultimately show ?thesis using full by simp
    next
      case swap: True
      let ?ts = "exchange son i ts"
      have k: "key mem ?ts j = (if j = son then key mem ts i else if j = i then key mem ts son else key mem ts j)"
        for j using exchange_key [OF len] by simp
      have "rearranged n ?ts (Descer mem ?ts son n) \<and> full n (Descer mem ?ts son n) \<and>
          heap mem (Descer mem ?ts son n) n"
      proof (rule "1.IH" [OF son_def _ refl at])
        show "son \<le> n" using s(1) by simp
        show "timeout (mem ! the (ts ! son)) < timeout (mem ! the (ts ! i))"
          using swap by (simp add: key_def)
        show "full n ?ts" using exchange_full [OF in_n(2,1) full] .
        show "1 \<le> son" using s(1) by simp
      next
        fix j assume j: "j \<in> {2..n}" and ne: "j div 2 \<noteq> son"
        have up: "j = i \<Longrightarrow> key mem ts (i div 2) \<le> key mem ts son"
          using bridge [OF s(1,2)] j by auto
        have "j div 2 \<noteq> j" using j by auto
        then show "key mem ?ts (j div 2) \<le> key mem ?ts j"
          using ne up order [OF j] s(4) [OF j] swap s(2,3) unfolding k by auto
      next
        fix j assume j: "j \<in> {2..n}" "j div 2 = son" "1 < son"
        then have "key mem ts son \<le> key mem ts j" "j \<noteq> son" "j \<noteq> i"
          using order [OF j(1)] s(3) by auto
        then show "key mem ?ts (son div 2) \<le> key mem ?ts j"
          unfolding k s(2) using s(3) by simp
      qed
      moreover have "rearranged n ts ?ts"
        using exchange_rearranged [OF in_n(2,1)] full by (simp add: full_def)
      moreover have "Descer mem ts i n = Descer mem ?ts son n"
        using at swap son_def [symmetric] s(1) by (simp add: Descer.simps [of _ _ i] key_def Let_def)
      ultimately show ?thesis
        using rearranged_trans by (metis (no_types))
    qed
  qed
qed

lemma heap_root:
  assumes "heap mem ts n"
  shows "i \<in> {1..n} \<Longrightarrow> key mem ts 1 \<le> key mem ts i"
proof (induction i rule: less_induct)
  case (less i)
  show ?case
  proof (cases "i = 1")
    case False
    then have i: "i \<in> {2..n}" using less.prems by auto
    then have "key mem ts (i div 2) \<le> key mem ts i" using assms by (simp add: heap_def)
    moreover have "i div 2 < i" "i div 2 \<in> {1..n}" using i by auto
    then have "key mem ts 1 \<le> key mem ts (i div 2)" by (rule less.IH)
    ultimately show ?thesis by simp
  qed simp
qed

section \<open>A list of timers as a queue of deadlines\<close>

text \<open>
  The contract between the lists and the code that uses them: \<open>first\<close> is an armed timer with
  the earliest deadline, arming and removing the first timer change the set of armed timers
  by that timer only, and the time of the first timer may be put off.
\<close>

locale deadline_queue =
  fixes ok :: "'m \<Rightarrow> 'q \<Rightarrow> bool"
    and deadline :: "'m \<Rightarrow> nat \<Rightarrow> 'k :: linorder"
    and armed :: "'q \<Rightarrow> nat set"
    and capacity :: nat
    and first :: "'q \<Rightarrow> nat option"
    and put :: "'m \<Rightarrow> nat \<Rightarrow> 'q \<Rightarrow> 'q option"
    and drop_first :: "'m \<Rightarrow> 'q \<Rightarrow> 'q option"
    and put_off :: "'m \<Rightarrow> 'q \<Rightarrow> 'q"
  assumes armed_finite: "finite (armed q)"
    and first_None: "ok m q \<Longrightarrow> first q = None \<longleftrightarrow> armed q = {}"
    and first_armed: "ok m q \<Longrightarrow> first q = Some p \<Longrightarrow> p \<in> armed q"
    and first_least: "ok m q \<Longrightarrow> first q = Some p \<Longrightarrow> r \<in> armed q \<Longrightarrow> deadline m p \<le> deadline m r"
    and ok_cong: "ok m q \<Longrightarrow> (\<And>r. r \<in> armed q \<Longrightarrow> deadline m' r = deadline m r) \<Longrightarrow> ok m' q"
    and put_ok: "ok m q \<Longrightarrow> p \<notin> armed q \<Longrightarrow> card (armed q) < capacity \<Longrightarrow>
      \<exists>q'. put m p q = Some q' \<and> ok m q' \<and> armed q' = insert p (armed q)"
    and drop_ok: "ok m q \<Longrightarrow> first q = Some p \<Longrightarrow>
      (\<And>r. r \<in> armed q - {p} \<Longrightarrow> deadline m' r = deadline m r) \<Longrightarrow>
      \<exists>q'. drop_first m' q = Some q' \<and> ok m' q' \<and> armed q' = armed q - {p}"
    and put_off_ok: "ok m q \<Longrightarrow> first q = Some p \<Longrightarrow>
      (\<And>r. r \<in> armed q - {p} \<Longrightarrow> deadline m' r = deadline m r) \<Longrightarrow>
      ok m' (put_off m' q) \<and> armed (put_off m' q) = armed q"
begin

text \<open>Taking timers out until none is left yields them in the order of their deadlines.\<close>

fun drain :: "'m \<Rightarrow> nat \<Rightarrow> 'q \<Rightarrow> nat list option" where
  "drain m 0 q = Some []"
| "drain m (Suc n) q =
     (case first q of
        None \<Rightarrow> Some []
      | Some p \<Rightarrow> (case drop_first m q of None \<Rightarrow> None
                   | Some q' \<Rightarrow> map_option ((#) p) (drain m n q')))"

lemma drain_sorted:
  "ok m q \<Longrightarrow> card (armed q) \<le> n \<Longrightarrow>
     \<exists>ps. drain m n q = Some ps \<and> set ps = armed q \<and> distinct ps \<and> sorted (map (deadline m) ps)"
proof (induction n arbitrary: q)
  case 0
  then show ?case using armed_finite [of q] by simp
next
  case (Suc n)
  show ?case
  proof (cases "first q")
    case None
    then show ?thesis using first_None [OF Suc.prems(1)] by simp
  next
    case (Some p)
    obtain q' where q': "drop_first m q = Some q'" "ok m q'" "armed q' = armed q - {p}"
      using drop_ok [OF Suc.prems(1) Some, of m] by auto
    have p: "p \<in> armed q" using first_armed [OF Suc.prems(1) Some] .
    have "card (armed q') \<le> n"
      using Suc.prems(2) p armed_finite [of q] unfolding q'(3) by simp
    then obtain ps where ps: "drain m n q' = Some ps" "set ps = armed q - {p}" "distinct ps"
      "sorted (map (deadline m) ps)"
      using Suc.IH [OF q'(2)] q'(3) by auto
    have "\<And>r. r \<in> set ps \<Longrightarrow> deadline m p \<le> deadline m r"
      using first_least [OF Suc.prems(1) Some] ps(2) by auto
    then show ?thesis
      using Some q'(1) ps p by auto
  qed
qed

end

section \<open>The heaps keep the contract\<close>

definition live :: "nat option list \<Rightarrow> nat option list" where
  "live ts = filter (\<lambda>x. x \<noteq> None) ts"

definition armed :: "tmr_list \<Rightarrow> nat set" where
  "armed l = {p. Some p \<in> set (timers l)}"

definition tmr_ok :: "brtos_timer list \<Rightarrow> tmr_list \<Rightarrow> bool" where
  "tmr_ok mem l \<longleftrightarrow>
     length (timers l) = BRTOS_MAX_TIMER \<and> full (tmr_count l) (timers l) \<and>
     (\<forall>j < BRTOS_MAX_TIMER. j \<notin> {1..tmr_count l} \<longrightarrow> timers l ! j = None) \<and>
     distinct (live (timers l)) \<and> heap mem (timers l) (tmr_count l)"

abbreviation (input) deadline :: "brtos_timer list \<Rightarrow> nat \<Rightarrow> u64" where
  "deadline mem p \<equiv> timeout (mem ! p)"

definition first_of :: "tmr_list \<Rightarrow> nat option" where
  "first_of l = at (timers l) 1"

definition take_first :: "brtos_timer list \<Rightarrow> tmr_list \<Rightarrow> tmr_list option" where
  "take_first mem l = map_option (order_first mem) (remove_first l)"

lemma tmr_okD:
  assumes "tmr_ok mem l"
  shows "length (timers l) = 8" "tmr_count l \<le> 7" "full (tmr_count l) (timers l)"
    "\<And>j. j < 8 \<Longrightarrow> j \<notin> {1..tmr_count l} \<Longrightarrow> timers l ! j = None"
    "distinct (live (timers l))" "heap mem (timers l) (tmr_count l)"
  using assms by (auto simp: tmr_ok_def full_def)

lemma tmr_used: "tmr_ok mem l \<Longrightarrow> j < 8 \<Longrightarrow> timers l ! j \<noteq> None \<longleftrightarrow> j \<in> {1..tmr_count l}"
  by (metis (full_types) tmr_ok_def full_def)

lemma live_update:
  "n < length ts \<Longrightarrow>
     live (ts[n := b]) = live (take n ts) @ (if b = None then [] else [b]) @ live (drop (Suc n) ts)"
  by (simp add: live_def upd_conv_take_nth_drop)

lemma live_split:
  "n < length ts \<Longrightarrow>
     live ts = live (take n ts) @ (if ts ! n = None then [] else [ts ! n]) @ live (drop (Suc n) ts)"
  by (subst (1) id_take_nth_drop [of n ts]) (simp_all add: live_def)

lemma live_set: "set (live ts) = {x. x \<in> set ts \<and> x \<noteq> None}"
  by (auto simp: live_def)

lemma armed_live: "armed l = {p. Some p \<in> set (live (timers l))}"
  by (simp add: armed_def live_set)

lemma rearranged_live:
  assumes "rearranged n ts ts'"
  shows "set (live ts') = set (live ts)" "distinct (live ts') = distinct (live ts)"
proof -
  have m: "mset (live ts') = mset (live ts)"
    using assms by (simp add: live_def rearranged_def)
  show "set (live ts') = set (live ts)"
    using m by (rule mset_eq_setD)
  show "distinct (live ts') = distinct (live ts)"
    using m by (rule mset_eq_imp_distinct_iff)
qed

lemma card_armed:
  assumes "tmr_ok mem l"
  shows "card (armed l) = tmr_count l" "finite (armed l)"
proof -
  note l = tmr_okD [OF assms]
  have "inj_on Some (armed l)" by simp
  moreover have "Some ` armed l = set (live (timers l))"
    by (auto simp: armed_def live_set image_iff)
  ultimately have "card (armed l) = card (set (live (timers l)))"
    using card_image by metis
  also have "\<dots> = length (live (timers l))"
    using l(5) by (rule distinct_card)
  also have "\<dots> = card {i. i < length (timers l) \<and> timers l ! i \<noteq> None}"
    by (simp add: live_def length_filter_conv_card)
  also have "{i. i < length (timers l) \<and> timers l ! i \<noteq> None} = {1..tmr_count l}"
  proof (rule set_eqI)
    fix i
    show "i \<in> {i. i < length (timers l) \<and> timers l ! i \<noteq> None} \<longleftrightarrow> i \<in> {1..tmr_count l}"
      using tmr_used [OF assms, of i] l(1,2) by (cases "i < 8") auto
  qed
  finally show "card (armed l) = tmr_count l" by simp
  show "finite (armed l)"
    using finite_vimageI [of "set (timers l)" Some] by (simp add: armed_def vimage_def)
qed

lemma armed_position:
  assumes "tmr_ok mem l" and "p \<in> armed l"
  obtains i where "i \<in> {1..tmr_count l}" "timers l ! i = Some p"
proof -
  note l = tmr_okD [OF assms(1)]
  obtain i where i: "i < length (timers l)" "timers l ! i = Some p"
    using assms(2) by (auto simp: armed_def in_set_conv_nth)
  then have "i \<in> {1..tmr_count l}" using l(1) l(4) [of i] by auto
  then show ?thesis using i that by blast
qed

lemma position_armed: "tmr_ok mem l \<Longrightarrow> i \<in> {1..tmr_count l} \<Longrightarrow> the (timers l ! i) \<in> armed l"
  by (auto simp: tmr_ok_def full_def armed_def in_set_conv_nth)
    (metis le_less_trans option.collapse option.distinct(1) atLeastAtMost_iff)


lemma tmr_ok_cong:
  assumes "tmr_ok mem l" and "\<And>r. r \<in> armed l \<Longrightarrow> deadline mem' r = deadline mem r"
  shows "tmr_ok mem' l"
proof -
  have "key mem' (timers l) j = key mem (timers l) j" if "j \<in> {1..tmr_count l}" for j
    using assms(2) [OF position_armed [OF assms(1) that]] by (simp add: key_def)
  moreover have "j \<in> {1..tmr_count l} \<and> j div 2 \<in> {1..tmr_count l}" if "j \<in> {2..tmr_count l}" for j
    using that by auto
  ultimately have "heap mem' (timers l) (tmr_count l)"
    using tmr_okD(6) [OF assms(1)] by (simp add: heap_def)
  then show ?thesis using assms(1) by (simp add: tmr_ok_def)
qed

lemma insert_last_ok:
  assumes ok: "tmr_ok mem l" and p: "p \<notin> armed l" and free: "card (armed l) < 7"
  shows "\<exists>l'. insert_last mem p l = Some l' \<and> tmr_ok mem l' \<and> armed l' = insert p (armed l)"
proof -
  note l = tmr_okD [OF ok]
  define n where "n = tmr_count l + 1"
  have n: "1 \<le> n" "n < 8" "n < length (timers l)"
    using card_armed [OF ok] free l(1) by (auto simp: n_def)
  have none: "timers l ! n = None"
    using l(4) n by (simp add: n_def)
  let ?ts = "(timers l)[n := Some p]"
  have full: "full n ?ts"
    using l(3) n by (auto simp: full_def nth_list_update n_def)
  have key: "key mem ?ts j = key mem (timers l) j" if "j \<noteq> n" for j
    using that by (simp add: key_def)
  have "\<exists>ts'. Subir mem ?ts n = Some ts' \<and> rearranged n ?ts ts' \<and> full n ts' \<and> heap mem ts' n"
  proof (rule Subir_heap [OF full])
    show "n \<in> {1..n}" using n by simp
  next
    fix j assume j: "j \<in> {2..n}" "j \<noteq> n"
    then have "j \<in> {2..tmr_count l}" "j div 2 \<noteq> n" by (auto simp: n_def)
    then show "key mem ?ts (j div 2) \<le> key mem ?ts j"
      using l(6) j by (simp add: heap_def key)
  qed auto
  then obtain ts' where ts': "Subir mem ?ts n = Some ts'" "rearranged n ?ts ts'" "full n ts'"
    "heap mem ts' n" by blast
  have new: "live ?ts = live (take n (timers l)) @ [Some p] @ live (drop (Suc n) (timers l))"
    using live_update [OF n(3), of "Some p"] by simp
  have old: "live (timers l) = live (take n (timers l)) @ live (drop (Suc n) (timers l))"
    using live_split [OF n(3)] none by simp
  have "Some p \<notin> set (live (timers l))"
    using p by (auto simp: armed_live)
  then have dist: "distinct (live ts')"
    using l(5) rearranged_live(2) [OF ts'(2)] unfolding new old by auto
  have "armed \<lparr>timers = ts', tmr_count = n\<rparr> = insert p (armed l)"
    unfolding armed_live using rearranged_live(1) [OF ts'(2)] unfolding new old by auto
  moreover have "tmr_ok mem \<lparr>timers = ts', tmr_count = n\<rparr>"
    unfolding tmr_ok_def
  proof (intro conjI allI impI)
    show "length (timers \<lparr>timers = ts', tmr_count = n\<rparr>) = 8"
      using ts'(2) l(1) by (simp add: rearranged_def)
  next
    fix j :: nat assume "j < 8" "j \<notin> {1..tmr_count \<lparr>timers = ts', tmr_count = n\<rparr>}"
    then show "timers \<lparr>timers = ts', tmr_count = n\<rparr> ! j = None"
      using ts'(2) l(4) [of j] n by (auto simp: rearranged_def n_def)
  qed (use ts' dist in simp_all)
  moreover have "insert_last mem p l = Some \<lparr>timers = ts', tmr_count = n\<rparr>"
    using ts'(1) n by (simp add: insert_last_def put_at_def Let_def n_def)
  ultimately show ?thesis by blast
qed

lemma remove_first_result:
  assumes ok: "tmr_ok mem l" and "first_of l = Some p"
  shows "\<exists>ts. remove_first l = Some \<lparr>timers = ts, tmr_count = tmr_count l - 1\<rparr> \<and>
     length ts = 8 \<and> full (tmr_count l - 1) ts \<and>
     (\<forall>j < 8. j \<notin> {1..tmr_count l - 1} \<longrightarrow> ts ! j = None) \<and>
     (\<forall>j \<in> {2..tmr_count l - 1}. ts ! j = timers l ! j) \<and>
     distinct (live ts) \<and> {p. Some p \<in> set (live ts)} = armed l - {p}"
proof -
  note l = tmr_okD [OF ok]
  define n where "n = tmr_count l"
  have p: "timers l ! 1 = Some p"
    using assms(2) l(1) by (simp add: first_of_def at_def)
  then have n: "1 \<le> n" "n < 8" using tmr_used [OF ok, of 1] l(2) by (auto simp: n_def)
  let ?ex = "exchange 1 n (timers l)"
  let ?ts = "?ex[n := None]"
  have len: "length ?ts = 8" "n < length ?ex" using l(1) n by (simp_all add: exchange_def)
  have "?ts = (timers l)[1 := timers l ! n, n := None]" by (simp add: exchange_def)
  then have rf: "remove_first l = Some \<lparr>timers = ?ts, tmr_count = n - 1\<rparr>"
    using n l(1) by (simp add: remove_first_def put_at_def at_def n_def)
  have nth: "?ts ! j = (if j = n then None else if j = 1 then timers l ! n else timers l ! j)" for j
    using n l(1) len by (auto simp: exchange_nth nth_list_update)
  have "full (n - 1) ?ts"
    unfolding full_def nth using len n tmr_used [OF ok] by (auto simp: n_def)
  moreover have "?ts ! j = None" if "j < 8" "j \<notin> {1..n - 1}" for j
    unfolding nth using that tmr_used [OF ok that(1)] n by (auto simp: n_def)
  moreover have "?ts ! j = timers l ! j" if "j \<in> {2..n - 1}" for j
    unfolding nth using that by auto
  moreover have re: "rearranged n (timers l) ?ex"
    using n l(1) by (intro exchange_rearranged) auto
  have "?ex ! n = Some p" using p n l(1) by (simp add: exchange_nth)
  then have old: "live ?ex = live (take n ?ex) @ [Some p] @ live (drop (Suc n) ?ex)"
    using live_split [OF len(2)] by simp
  have new: "live ?ts = live (take n ?ex) @ live (drop (Suc n) ?ex)"
    using live_update [OF len(2), of None] by simp
  have d: "distinct (live ?ex)" using rearranged_live(2) [OF re] l(5) by simp
  then have "distinct (live ?ts)" unfolding new old by simp
  moreover have "{q. Some q \<in> set (live ?ts)} = armed l - {p}"
    using d rearranged_live(1) [OF re] unfolding armed_live new old by auto
  ultimately show ?thesis
    using rf len(1) unfolding n_def by (intro exI [of _ ?ts]) (simp add: n_def)
qed

lemma order_first_ok:
  assumes len: "length (timers l) = 8" and full: "full (tmr_count l) (timers l)"
    and none: "\<forall>j < 8. j \<notin> {1..tmr_count l} \<longrightarrow> timers l ! j = None"
    and dist: "distinct (live (timers l))"
    and sons: "\<And>j. j \<in> {2..tmr_count l} \<Longrightarrow> j div 2 \<noteq> 1 \<Longrightarrow>
      key mem (timers l) (j div 2) \<le> key mem (timers l) j"
  shows "tmr_ok mem (order_first mem l) \<and> armed (order_first mem l) = armed l"
proof -
  let ?ts = "Descer mem (timers l) 1 (tmr_count l)"
  have ts: "rearranged (tmr_count l) (timers l) ?ts" "full (tmr_count l) ?ts" "heap mem ?ts (tmr_count l)"
    using Descer_heap [OF full, of 1 mem] sons by auto
  have "tmr_ok mem (order_first mem l)"
    unfolding tmr_ok_def order_first_def
    using ts none len rearranged_live(2) [OF ts(1)] dist by (auto simp: rearranged_def)
  moreover have "armed (order_first mem l) = armed l"
    using rearranged_live(1) [OF ts(1)] by (simp add: armed_live order_first_def)
  ultimately show ?thesis by simp
qed

lemma finite_armed [simp]: "finite (armed l)"
  using finite_vimageI [of "set (timers l)" Some] by (simp add: armed_def vimage_def)

lemma first_of_used: "tmr_ok mem l \<Longrightarrow> first_of l \<noteq> None \<longleftrightarrow> 1 \<le> tmr_count l"
  using tmr_used [of mem l 1] tmr_okD(1) [of mem l] by (simp add: first_of_def at_def)

lemma first_of_least:
  assumes ok: "tmr_ok mem l" and "first_of l = Some p" and "r \<in> armed l"
  shows "deadline mem p \<le> deadline mem r"
proof -
  obtain i where i: "i \<in> {1..tmr_count l}" "timers l ! i = Some r"
    using armed_position [OF ok assms(3)] .
  have "key mem (timers l) 1 \<le> key mem (timers l) i"
    using heap_root [OF tmr_okD(6) [OF ok] i(1)] .
  then show ?thesis
    using i assms(2) tmr_okD(1) [OF ok] by (simp add: key_def first_of_def at_def)
qed

lemma other_position:
  assumes ok: "tmr_ok mem l" and "first_of l = Some p" and j: "j \<in> {2..tmr_count l}"
  shows "the (timers l ! j) \<in> armed l - {p}"
proof -
  note l = tmr_okD [OF ok]
  have p: "timers l ! 1 = Some p"
    using assms(2) l(1) by (simp add: first_of_def at_def)
  have "\<exists>q. timers l ! j = Some q" using l(3) j by (auto simp: full_def)
  then obtain q where q: "timers l ! j = Some q" ..
  have jl: "j < length (timers l)" "1 < j" using j l(1,2) by auto
  have "Suc (Suc (j - 2)) = j" using jl by simp
  then have "Some q \<in> set (drop (Suc 1) (timers l))"
    using q jl by (auto simp: in_set_conv_nth intro!: exI [of _ "j - 2"])
  then have "Some q \<in> set (live (drop (Suc 1) (timers l)))" by (simp add: live_set)
  moreover have "live (timers l) = live (take 1 (timers l)) @ [Some p] @ live (drop (Suc 1) (timers l))"
    using live_split [of 1 "timers l"] p l(1) by simp
  ultimately have "q \<noteq> p" using l(5) by auto
  then show ?thesis
    using position_armed [OF ok, of j] j q by auto
qed

lemma take_first_ok:
  assumes ok: "tmr_ok mem l" and first: "first_of l = Some p"
    and same: "\<And>r. r \<in> armed l - {p} \<Longrightarrow> deadline mem' r = deadline mem r"
  shows "\<exists>l'. take_first mem' l = Some l' \<and> tmr_ok mem' l' \<and> armed l' = armed l - {p}"
proof -
  obtain ts where ts: "remove_first l = Some \<lparr>timers = ts, tmr_count = tmr_count l - 1\<rparr>"
    "length ts = 8" "full (tmr_count l - 1) ts"
    "\<forall>j < 8. j \<notin> {1..tmr_count l - 1} \<longrightarrow> ts ! j = None"
    "\<And>j. j \<in> {2..tmr_count l - 1} \<Longrightarrow> ts ! j = timers l ! j"
    "distinct (live ts)" "{p. Some p \<in> set (live ts)} = armed l - {p}"
    using remove_first_result [OF ok first] by blast
  have key: "key mem' ts j = key mem (timers l) j" if "j \<in> {2..tmr_count l - 1}" for j
  proof -
    have "j \<in> {2..tmr_count l}" using that by auto
    from same [OF other_position [OF ok first this]] show ?thesis
      using ts(5) [OF that] by (simp add: key_def)
  qed
  have "tmr_ok mem' (order_first mem' \<lparr>timers = ts, tmr_count = tmr_count l - 1\<rparr>) \<and>
    armed (order_first mem' \<lparr>timers = ts, tmr_count = tmr_count l - 1\<rparr>) =
    armed \<lparr>timers = ts, tmr_count = tmr_count l - 1\<rparr>"
  proof (rule order_first_ok)
    fix j assume "j \<in> {2..tmr_count \<lparr>timers = ts, tmr_count = tmr_count l - 1\<rparr>}" "j div 2 \<noteq> 1"
    then have j: "j \<in> {2..tmr_count l - 1}" "j div 2 \<in> {2..tmr_count l - 1}" "j \<in> {2..tmr_count l}"
      by auto
    then show "key mem' (timers \<lparr>timers = ts, tmr_count = tmr_count l - 1\<rparr>) (j div 2)
        \<le> key mem' (timers \<lparr>timers = ts, tmr_count = tmr_count l - 1\<rparr>) j"
      using key [OF j(1)] key [OF j(2)] tmr_okD(6) [OF ok] by (simp add: heap_def)
  qed (use ts in simp_all)
  then show ?thesis
    using ts(1,7) by (simp add: take_first_def armed_live)
qed

lemma put_off_ok:
  assumes ok: "tmr_ok mem l" and first: "first_of l = Some p"
    and same: "\<And>r. r \<in> armed l - {p} \<Longrightarrow> deadline mem' r = deadline mem r"
  shows "tmr_ok mem' (order_first mem' l) \<and> armed (order_first mem' l) = armed l"
proof -
  have "key mem' (timers l) j = key mem (timers l) j" if "j \<in> {2..tmr_count l}" for j
    using same [OF other_position [OF ok first that]] by (simp add: key_def)
  moreover have "j div 2 \<in> {2..tmr_count l}" if "j \<in> {2..tmr_count l}" "j div 2 \<noteq> 1" for j
    using that by auto
  ultimately show ?thesis
    using tmr_okD [OF ok] by (intro order_first_ok) (simp_all add: heap_def)
qed

interpretation dq: deadline_queue tmr_ok "\<lambda>mem p. timeout (mem ! p)" armed 7 first_of
  insert_last take_first order_first
proof unfold_locales
  show "finite (armed l)" for l by simp
next
  fix mem l assume ok: "tmr_ok mem l"
  show "first_of l = None \<longleftrightarrow> armed l = {}"
    using first_of_used [OF ok] card_armed(1) [OF ok] card_0_eq [of "armed l"]
    by (cases "first_of l") auto
next
  fix mem l p assume ok: "tmr_ok mem l" and "first_of l = Some p"
  then show "p \<in> armed l"
    using tmr_okD(1) [OF ok] by (auto simp: first_of_def at_def armed_def in_set_conv_nth intro!: exI [of _ 1])
next
  show "deadline mem p \<le> deadline mem r"
    if "tmr_ok mem l" "first_of l = Some p" "r \<in> armed l" for mem l p r
    using first_of_least that .
next
  show "tmr_ok mem' l" if "tmr_ok mem l" "\<And>r. r \<in> armed l \<Longrightarrow> deadline mem' r = deadline mem r"
    for mem l mem'
    using tmr_ok_cong that by blast
next
  show "\<exists>l'. insert_last mem p l = Some l' \<and> tmr_ok mem l' \<and> armed l' = insert p (armed l)"
    if "tmr_ok mem l" "p \<notin> armed l" "card (armed l) < 7" for mem l p
    using insert_last_ok that by blast
next
  show "\<exists>l'. take_first mem' l = Some l' \<and> tmr_ok mem' l' \<and> armed l' = armed l - {p}"
    if "tmr_ok mem l" "first_of l = Some p"
      "\<And>r. r \<in> armed l - {p} \<Longrightarrow> deadline mem' r = deadline mem r" for mem l p mem'
    using take_first_ok that by blast
next
  show "tmr_ok mem' (order_first mem' l) \<and> armed (order_first mem' l) = armed l"
    if "tmr_ok mem l" "first_of l = Some p"
      "\<And>r. r \<in> armed l - {p} \<Longrightarrow> deadline mem' r = deadline mem r" for mem l p mem'
    using put_off_ok that by blast
qed

end
