(* ===== verification/Timer_Task.thy ===== *)
theory Timer_Task
  imports Timer_Laws
begin

text \<open>
  The timer module on top of the queue contract: the invariant of the two lists, what
  setting, reading and stopping a timer does, and what a turn of the timer task runs.
\<close>

section \<open>The invariant\<close>

definition timers_ok :: "timer_vector \<Rightarrow> bool" where
  "timers_ok v \<longleftrightarrow>
     length (timer_mem v) = BRTOS_MAX_TIMER \<and>
     tmr_ok (timer_mem v) (current_list v) \<and> tmr_ok (timer_mem v) (future_list v) \<and>
     armed (current_list v) \<inter> armed (future_list v) = {} \<and>
     (\<forall>p \<in> armed (current_list v) \<union> armed (future_list v).
        p < BRTOS_MAX_TIMER \<and> timer_state (timer p v) = TIMER_RUNNING) \<and>
     (\<forall>p < BRTOS_MAX_TIMER. p \<notin> armed (current_list v) \<union> armed (future_list v) \<longrightarrow>
        timer_state (timer p v) \<in> {TIMER_NOT_USED, TIMER_STOPPED})"

lemma timers_okD:
  assumes "timers_ok v"
  shows "length (timer_mem v) = 8" "tmr_ok (timer_mem v) (current_list v)"
    "tmr_ok (timer_mem v) (future_list v)"
    "p \<in> armed (current_list v) \<Longrightarrow> p \<notin> armed (future_list v)"
    "p \<in> armed (current_list v) \<Longrightarrow> p < 8" "p \<in> armed (future_list v) \<Longrightarrow> p < 8"
    "p \<in> armed (current_list v) \<Longrightarrow> timer_state (timer p v) = TIMER_RUNNING"
    "p \<in> armed (future_list v) \<Longrightarrow> timer_state (timer p v) = TIMER_RUNNING"
    "p < 8 \<Longrightarrow> p \<notin> armed (current_list v) \<Longrightarrow> p \<notin> armed (future_list v) \<Longrightarrow>
       timer_state (timer p v) \<in> {TIMER_NOT_USED, TIMER_STOPPED}"
  using assms unfolding timers_ok_def by blast+

lemma upd_timer_sel [simp]:
  "current_list (upd_timer p f v) = current_list v" "future_list (upd_timer p f v) = future_list v"
  "handling_task (upd_timer p f v) = handling_task v"
  "length (timer_mem (upd_timer p f v)) = length (timer_mem v)"
  by (simp_all add: upd_timer_def)

lemma timer_upd_timer:
  "p < length (timer_mem v) \<Longrightarrow> timer q (upd_timer p f v) = (if q = p then f (timer p v) else timer q v)"
  by (simp add: upd_timer_def)

lemma timer_list_upd [simp]:
  "timer_mem (v\<lparr>current_list := l\<rparr>) = timer_mem v" "timer_mem (v\<lparr>future_list := l\<rparr>) = timer_mem v"
  by simp_all

lemma first_timer_of: "first_timer v = first_of (current_list v)"
  by (simp add: first_timer_def first_of_def)

text \<open>
  A timer \<open>p\<close> may be rewritten and put into either list or none, as long as its state says
  which, the other timers keep their place.
\<close>

lemma timers_okI:
  assumes ok: "timers_ok v" and p: "p < 8" and len: "length (timer_mem v1) = 8"
    and others: "\<And>q. q \<noteq> p \<Longrightarrow> timer q v1 = timer q v"
    and cur: "tmr_ok (timer_mem v1) (current_list v1)" and fut: "tmr_ok (timer_mem v1) (future_list v1)"
    and moved: "\<And>q. q \<noteq> p \<Longrightarrow> q \<in> armed (current_list v1) \<longleftrightarrow> q \<in> armed (current_list v)"
      "\<And>q. q \<noteq> p \<Longrightarrow> q \<in> armed (future_list v1) \<longleftrightarrow> q \<in> armed (future_list v)"
    and one: "p \<notin> armed (current_list v1) \<or> p \<notin> armed (future_list v1)"
    and running: "p \<in> armed (current_list v1) \<union> armed (future_list v1) \<Longrightarrow>
      timer_state (timer p v1) = TIMER_RUNNING"
    and idle: "p \<notin> armed (current_list v1) \<union> armed (future_list v1) \<Longrightarrow>
      timer_state (timer p v1) \<in> {TIMER_NOT_USED, TIMER_STOPPED}"
  shows "timers_ok v1"
proof -
  note v = timers_okD [OF ok]
  have "armed (current_list v1) \<inter> armed (future_list v1) = {}"
  proof (rule equals0I)
    fix q assume "q \<in> armed (current_list v1) \<inter> armed (future_list v1)"
    then show False using moved [of q] one v(4) [of q] by (cases "q = p") auto
  qed
  moreover have "q < 8 \<and> timer_state (timer q v1) = TIMER_RUNNING"
    if "q \<in> armed (current_list v1) \<union> armed (future_list v1)" for q
    using that moved [of q] others [of q] running p v(5-8) [of q] by (cases "q = p") auto
  moreover have "timer_state (timer q v1) \<in> {TIMER_NOT_USED, TIMER_STOPPED}"
    if "q < 8" "q \<notin> armed (current_list v1) \<union> armed (future_list v1)" for q
    using that moved [of q] others [of q] idle v(9) [of q] by (cases "q = p") auto
  ultimately show ?thesis
    using len cur fut unfolding timers_ok_def by blast
qed

section \<open>Arming a timer\<close>

definition armed_count :: "timer_vector \<Rightarrow> nat" where
  "armed_count v = card (armed (current_list v)) + card (armed (future_list v))"

text \<open>The list for a deadline, and the deadline as it is stored.\<close>

definition beyond :: "u64 \<Rightarrow> bool" where
  "beyond d \<longleftrightarrow> d \<ge> TICK_COUNT_OVERFLOW"

definition stored :: "u64 \<Rightarrow> u64" where
  "stored d = (if beyond d then d - TICK_COUNT_OVERFLOW else d)"

lemma arm_ok:
  fixes os :: os and w :: u64
  assumes ok: "timers_ok v" and p: "p < 8" "p \<notin> armed (current_list v)" "p \<notin> armed (future_list v)"
    and room: "armed_count v < 7"
  defines "d \<equiv> OSGetCount os + w"
  shows "\<exists>v1 os1. arm p w v os = Some (v1, os1) \<and> timers_ok v1 \<and>
    armed (current_list v1) = (if beyond d then armed (current_list v) else insert p (armed (current_list v))) \<and>
    armed (future_list v1) = (if beyond d then insert p (armed (future_list v)) else armed (future_list v)) \<and>
    timer p v1 = (timer p v)\<lparr>timeout := stored d, timer_state := TIMER_RUNNING\<rparr> \<and>
    (\<forall>q. q \<noteq> p \<longrightarrow> timer q v1 = timer q v) \<and> handling_task v1 = handling_task v \<and>
    os1 = (if \<not> beyond d \<and> currentTask os \<noteq> 0 \<and>
              (\<forall>q \<in> armed (current_list v). d \<le> timeout (timer q v))
           then upd_task (handling_task v) (\<lambda>c. c\<lparr>TimeToWait := d\<rparr>) os else os)"
proof -
  note v = timers_okD [OF ok]
  have pl: "p < length (timer_mem v)" using p(1) v(1) by simp
  define v1 where "v1 = upd_timer p (\<lambda>t. t\<lparr>timeout := stored d\<rparr>) v"
  have t1: "timer q v1 = (if q = p then (timer p v)\<lparr>timeout := stored d\<rparr> else timer q v)" for q
    unfolding v1_def using timer_upd_timer [OF pl] by simp
  have lists: "current_list v1 = current_list v" "future_list v1 = future_list v"
    "handling_task v1 = handling_task v" "length (timer_mem v1) = 8"
    using v(1) by (simp_all add: v1_def)
  have cur: "tmr_ok (timer_mem v1) (current_list v)"
    using dq.ok_cong [OF v(2)] t1 p(2) by (metis (no_types))
  have fut: "tmr_ok (timer_mem v1) (future_list v)"
    using dq.ok_cong [OF v(3)] t1 p(3) by (metis (no_types))
  have cards: "card (armed (current_list v)) < 7" "card (armed (future_list v)) < 7"
    using room by (simp_all add: armed_count_def)
  have t2: "timer q (upd_timer p (\<lambda>t. t\<lparr>timer_state := TIMER_RUNNING\<rparr>) (v1\<lparr>current_list := a, future_list := b\<rparr>)) =
      (if q = p then (timer p v)\<lparr>timeout := stored d, timer_state := TIMER_RUNNING\<rparr> else timer q v)" for q a b
    using timer_upd_timer [of p "v1\<lparr>current_list := a, future_list := b\<rparr>" _ q] p(1) lists(4) t1 by simp
  have keep: "tmr_ok (timer_mem (upd_timer p (\<lambda>t. t\<lparr>timer_state := TIMER_RUNNING\<rparr>) (v1\<lparr>current_list := a, future_list := b\<rparr>))) l"
    if "tmr_ok (timer_mem v1) l" for a b l
  proof (rule dq.ok_cong [OF that])
    show "timeout (timer r (upd_timer p (\<lambda>t. t\<lparr>timer_state := TIMER_RUNNING\<rparr>) (v1\<lparr>current_list := a, future_list := b\<rparr>))) =
        timeout (timer r v1)" for r
      unfolding t2 t1 by simp
  qed
  show ?thesis
  proof (cases "beyond d")
    case True
    obtain l where l: "insert_last (timer_mem v1) p (future_list v) = Some l" "tmr_ok (timer_mem v1) l"
      "armed l = insert p (armed (future_list v))"
      using dq.put_ok [OF fut p(3) cards(2)] by blast
    let ?v = "upd_timer p (\<lambda>t. t\<lparr>timer_state := TIMER_RUNNING\<rparr>) (v1\<lparr>current_list := current_list v, future_list := l\<rparr>)"
    have same: "v1\<lparr>future_list := l\<rparr> = v1\<lparr>current_list := current_list v, future_list := l\<rparr>"
      using lists(1) by simp
    have "arm p w v os = Some (?v, os)"
      using True l(1) unfolding same [symmetric]
      by (simp add: arm_def d_def beyond_def stored_def v1_def Let_def)
    moreover have "timers_ok ?v"
      by (rule timers_okI [OF ok p(1)])
        (use l keep [OF cur] keep [OF l(2)] t2 p lists v(4) in \<open>auto\<close>)
    ultimately show ?thesis
      using True l(3) t2 lists by (intro exI [of _ ?v] exI [of _ os]) (auto simp: lists)
  next
    case False
    obtain l where l: "insert_last (timer_mem v1) p (current_list v) = Some l" "tmr_ok (timer_mem v1) l"
      "armed l = insert p (armed (current_list v))"
      using dq.put_ok [OF cur p(2) cards(1)] by blast
    obtain r where r: "first_of l = Some r"
      using dq.first_None [OF l(2)] l(3) by (cases "first_of l") auto
    have dt: "timeout (timer p v1) = d" using False t1 by (simp add: stored_def)
    have least: "timeout (timer p v1) = timeout (timer r v1) \<longleftrightarrow>
        (\<forall>q \<in> armed (current_list v). d \<le> timeout (timer q v))"
    proof
      assume "timeout (timer p v1) = timeout (timer r v1)"
      then show "\<forall>q \<in> armed (current_list v). d \<le> timeout (timer q v)"
        using dq.first_least [OF l(2) r] l(3) dt t1 p(2) by (metis insert_iff)
    next
      assume *: "\<forall>q \<in> armed (current_list v). d \<le> timeout (timer q v)"
      have "timeout (timer r v1) \<le> d"
        using dq.first_least [OF l(2) r, of p] l(3) dt by simp
      moreover have "d \<le> timeout (timer r v1)"
        using * dq.first_armed [OF l(2) r] l(3) dt t1 by (metis insert_iff order_refl)
      ultimately show "timeout (timer p v1) = timeout (timer r v1)" using dt by simp
    qed
    let ?v = "upd_timer p (\<lambda>t. t\<lparr>timer_state := TIMER_RUNNING\<rparr>) (v1\<lparr>current_list := l, future_list := future_list v\<rparr>)"
    let ?os = "if \<not> beyond d \<and> currentTask os \<noteq> 0 \<and>
                 (\<forall>q \<in> armed (current_list v). d \<le> timeout (timer q v))
               then upd_task (handling_task v) (\<lambda>c. c\<lparr>TimeToWait := d\<rparr>) os else os"
    have same: "v1\<lparr>current_list := l\<rparr> = v1\<lparr>current_list := l, future_list := future_list v\<rparr>"
      using lists(2) by simp
    have v1': "upd_timer p (\<lambda>t. t\<lparr>timeout := OSGetCount os + w\<rparr>) v = v1"
      using False by (simp add: v1_def stored_def d_def)
    have "arm p w v os = Some (?v, ?os)"
      using False l(1) r least dt lists unfolding same [symmetric]
      by (simp add: arm_def d_def [symmetric] beyond_def v1' Let_def first_of_def v1' [folded d_def])
    moreover have "timers_ok ?v"
      by (rule timers_okI [OF ok p(1)])
        (use l keep [OF fut] keep [OF l(2)] t2 p lists v(4) in \<open>auto\<close>)
    ultimately show ?thesis
      using False l(3) t2 lists by (intro exI [of _ ?v] exI [of _ ?os]) (auto simp: lists stored_def)
  qed
qed

section \<open>Running the first timer\<close>

text \<open>
  The theorems about the task assume callbacks which leave the timers and the tick counter
  alone; \<open>rep f\<close> is what the callback \<open>f\<close> returns.
\<close>

definition quiet :: "callbacks \<Rightarrow> (nat \<Rightarrow> u64) \<Rightarrow> bool" where
  "quiet run rep \<longleftrightarrow>
     (\<forall>f v os. \<exists>os'. run f v os = (rep f, v, os') \<and> OSTickCounter os' = OSTickCounter os)"

definition again :: "(nat \<Rightarrow> u64) \<Rightarrow> brtos_timer \<Rightarrow> u64" where
  "again rep t = (case func_cb t of Some f \<Rightarrow> rep f | None \<Rightarrow> 0)"

definition unused :: brtos_timer where
  "unused = \<lparr>func_cb = None, timeout = 0, timer_state = TIMER_NOT_USED\<rparr>"

lemma freed: "t\<lparr>timeout := 0, timer_state := TIMER_NOT_USED, func_cb := None\<rparr> = unused"
  by (cases t) (simp add: unused_def)

definition fired :: "u64 \<Rightarrow> u64 \<Rightarrow> brtos_timer \<Rightarrow> brtos_timer" where
  "fired now r t =
     (if r = 0 then unused
      else t\<lparr>timer_state := TIMER_RUNNING, timeout := stored (now + r)\<rparr>)"

lemma call_back_quiet:
  "quiet run rep \<Longrightarrow> p < length (timer_mem v) \<Longrightarrow>
     \<exists>os'. call_back run p v os =
       (again rep (timer p v), upd_timer p (\<lambda>t. t\<lparr>timer_state := TIMER_STOPPED\<rparr>) v, os') \<and>
       OSTickCounter os' = OSTickCounter os"
  unfolding quiet_def call_back_def Let_def again_def
  by (cases "func_cb (timer p v)") (simp_all add: timer_upd_timer)

lemma upd_timer_twice [simp]:
  "p < length (timer_mem v) \<Longrightarrow> upd_timer p f (upd_timer p g v) = upd_timer p (\<lambda>t. f (g t)) v"
  by (simp add: upd_timer_def)

lemma take_first_split:
  assumes "take_first m l = Some l'"
  obtains c where "remove_first l = Some c" "l' = order_first m c"
  using assms by (auto simp: take_first_def)

text \<open>The timer is freed, moved to the other list, or put off within the list.\<close>

lemma free_step:
  assumes ok: "timers_ok v" and first: "first_timer v = Some p"
  shows "\<exists>v2. free_timer p (upd_timer p f v) = Some v2 \<and> timers_ok (order_current v2) \<and>
    (\<forall>q. timer q (order_current v2) = (if q = p then unused else timer q v)) \<and>
    armed (current_list (order_current v2)) = armed (current_list v) - {p} \<and>
    future_list (order_current v2) = future_list v"
proof -
  note v = timers_okD [OF ok]
  have fst: "first_of (current_list v) = Some p" using first by (simp add: first_timer_of)
  have p: "p \<in> armed (current_list v)" using dq.first_armed [OF v(2) fst] .
  have p8: "p < 8" "p < length (timer_mem v)" using v(1) v(5) [OF p] by simp_all
  let ?w = "upd_timer p (\<lambda>_. unused) v"
  have t: "timer q ?w = (if q = p then unused else timer q v)" for q
    using timer_upd_timer [OF p8(2)] by simp
  obtain l where l: "take_first (timer_mem ?w) (current_list v) = Some l" "tmr_ok (timer_mem ?w) l"
    "armed l = armed (current_list v) - {p}"
    using dq.drop_ok [OF v(2) fst, of "timer_mem ?w"] t by auto
  obtain c where c: "remove_first (current_list v) = Some c" "l = order_first (timer_mem ?w) c"
    using take_first_split [OF l(1)] .
  let ?v2 = "?w\<lparr>current_list := c\<rparr>"
  have up: "upd_timer p (\<lambda>t. t\<lparr>timeout := 0, timer_state := TIMER_NOT_USED, func_cb := None\<rparr>) (upd_timer p f v) = ?w"
    using p8(2) by (simp add: freed)
  have free: "free_timer p (upd_timer p f v) = Some ?v2"
    using c(1) by (simp add: free_timer_def up del: upd_timer_twice)
  have oc: "order_current ?v2 = ?w\<lparr>current_list := l\<rparr>"
    using c(2) by (simp add: order_current_def)
  have fut: "tmr_ok (timer_mem ?w) (future_list v)"
    using dq.ok_cong [OF v(3)] t v(4) [OF p] by (metis (no_types))
  have "timers_ok (?w\<lparr>current_list := l\<rparr>)"
    by (rule timers_okI [OF ok p8(1)]) (use l fut t v(1) v(4) [OF p] in \<open>auto simp: unused_def\<close>)
  then show ?thesis
    using free t l(3) by (intro exI [of _ ?v2]) (simp add: oc)
qed

lemma move_step:
  assumes ok: "timers_ok v" and first: "first_timer v = Some p" and room: "armed_count v \<le> 7"
    and run: "timer_state (f (timer p v)) = TIMER_RUNNING"
  shows "\<exists>v2. move_to_future p (upd_timer p f v) = Some v2 \<and> timers_ok (order_current v2) \<and>
    (\<forall>q. timer q (order_current v2) = (if q = p then f (timer p v) else timer q v)) \<and>
    armed (current_list (order_current v2)) = armed (current_list v) - {p} \<and>
    armed (future_list (order_current v2)) = insert p (armed (future_list v))"
proof -
  note v = timers_okD [OF ok]
  have fst: "first_of (current_list v) = Some p" using first by (simp add: first_timer_of)
  have p: "p \<in> armed (current_list v)" using dq.first_armed [OF v(2) fst] .
  have p8: "p < 8" "p < length (timer_mem v)" using v(1) v(5) [OF p] by simp_all
  let ?w = "upd_timer p f v"
  have t: "timer q ?w = (if q = p then f (timer p v) else timer q v)" for q
    using timer_upd_timer [OF p8(2)] by simp
  obtain l where l: "take_first (timer_mem ?w) (current_list v) = Some l" "tmr_ok (timer_mem ?w) l"
    "armed l = armed (current_list v) - {p}"
    using dq.drop_ok [OF v(2) fst, of "timer_mem ?w"] t by auto
  obtain c where c: "remove_first (current_list v) = Some c" "l = order_first (timer_mem ?w) c"
    using take_first_split [OF l(1)] .
  have fut: "tmr_ok (timer_mem ?w) (future_list v)"
    using dq.ok_cong [OF v(3)] t v(4) [OF p] by (metis (no_types))
  have "0 < card (armed (current_list v))" using p by (auto simp: card_gt_0_iff)
  then have "card (armed (future_list v)) < 7" using room by (simp add: armed_count_def)
  then obtain m where m: "insert_last (timer_mem ?w) p (future_list v) = Some m"
    "tmr_ok (timer_mem ?w) m" "armed m = insert p (armed (future_list v))"
    using dq.put_ok [OF fut v(4) [OF p]] by blast
  let ?v2 = "?w\<lparr>future_list := m, current_list := c\<rparr>"
  have move: "move_to_future p ?w = Some ?v2"
    using c(1) m(1) by (simp add: move_to_future_def)
  have oc: "order_current ?v2 = ?w\<lparr>future_list := m, current_list := l\<rparr>"
    using c(2) by (simp add: order_current_def)
  have "timers_ok (?w\<lparr>future_list := m, current_list := l\<rparr>)"
    by (rule timers_okI [OF ok p8(1)]) (use l m t v(1) run in \<open>auto\<close>)
  then show ?thesis
    using move t l(3) m(3) by (intro exI [of _ ?v2]) (simp add: oc)
qed

lemma put_off_step:
  assumes ok: "timers_ok v" and first: "first_timer v = Some p"
    and run: "timer_state (f (timer p v)) = TIMER_RUNNING"
  shows "timers_ok (order_current (upd_timer p f v)) \<and>
    (\<forall>q. timer q (order_current (upd_timer p f v)) = (if q = p then f (timer p v) else timer q v)) \<and>
    armed (current_list (order_current (upd_timer p f v))) = armed (current_list v) \<and>
    future_list (order_current (upd_timer p f v)) = future_list v"
proof -
  note v = timers_okD [OF ok]
  have fst: "first_of (current_list v) = Some p" using first by (simp add: first_timer_of)
  have p: "p \<in> armed (current_list v)" using dq.first_armed [OF v(2) fst] .
  have p8: "p < 8" "p < length (timer_mem v)" using v(1) v(5) [OF p] by simp_all
  let ?w = "upd_timer p f v" and ?l = "order_first (timer_mem (upd_timer p f v)) (current_list v)"
  have t: "timer q ?w = (if q = p then f (timer p v) else timer q v)" for q
    using timer_upd_timer [OF p8(2)] by simp
  have l: "tmr_ok (timer_mem ?w) ?l" "armed ?l = armed (current_list v)"
    using dq.put_off_ok [OF v(2) fst, of "timer_mem ?w"] t by auto
  have oc: "order_current ?w = ?w\<lparr>current_list := ?l\<rparr>" by (simp add: order_current_def)
  have fut: "tmr_ok (timer_mem ?w) (future_list v)"
    using dq.ok_cong [OF v(3)] t v(4) [OF p] by (metis (no_types))
  have "timers_ok (?w\<lparr>current_list := ?l\<rparr>)"
    by (rule timers_okI [OF ok p8(1)]) (use l fut t v(1) v(4) [OF p] p run in \<open>auto\<close>)
  then show ?thesis unfolding oc using t l(2) by simp
qed

lemma OSGetTickCount_eq [simp]: "OSGetTickCount os = OSTickCounter os"
  by (simp add: OSGetTickCount_def)

lemma expire_timer_step:
  fixes os :: os
  assumes ok: "timers_ok v" and first: "first_timer v = Some p" and room: "armed_count v \<le> 7"
    and run: "quiet run rep"
  defines "r \<equiv> again rep (timer p v)"
  defines "d \<equiv> OSTickCounter os + r"
  shows "\<exists>v1 os1. expire_timer run p tmo v os = Some (if r = 0 then tmo else d, v1, os1) \<and>
    timers_ok v1 \<and> OSTickCounter os1 = OSTickCounter os \<and>
    (\<forall>q. timer q v1 = (if q = p then fired (OSTickCounter os) r (timer p v) else timer q v)) \<and>
    armed (current_list v1) =
      (if r = 0 \<or> beyond d then armed (current_list v) - {p} else armed (current_list v)) \<and>
    armed (future_list v1) =
      (if r \<noteq> 0 \<and> beyond d then insert p (armed (future_list v)) else armed (future_list v))"
proof -
  note v = timers_okD [OF ok]
  have "p \<in> armed (current_list v)"
    using dq.first_armed [OF v(2)] first by (simp add: first_timer_of)
  then have pl: "p < length (timer_mem v)" using v(1,5) by simp
  obtain os1 where cb: "call_back run p v os =
      (r, upd_timer p (\<lambda>t. t\<lparr>timer_state := TIMER_STOPPED\<rparr>) v, os1)"
    and tick: "OSTickCounter os1 = OSTickCounter os"
    using call_back_quiet [OF run pl] unfolding r_def by blast
  show ?thesis
  proof (cases "r = 0")
    case True
    show ?thesis
      using free_step [OF ok first, of "\<lambda>t. t\<lparr>timer_state := TIMER_STOPPED\<rparr>"] cb tick True
      by (auto simp: expire_timer_def fired_def)
  next
    case r: False
    then have "0 < r" by (simp add: word_neq_0_conv)
    show ?thesis
    proof (cases "beyond d")
      case True
      then show ?thesis
        using move_step [OF ok first room, of "\<lambda>t. t\<lparr>timer_state := TIMER_RUNNING, timeout := d - TICK_COUNT_OVERFLOW\<rparr>"]
          cb tick r \<open>0 < r\<close> pl
        by (auto simp: expire_timer_def fired_def beyond_def stored_def d_def Let_def)
    next
      case False
      then show ?thesis
        using put_off_step [OF ok first, of "\<lambda>t. t\<lparr>timer_state := TIMER_RUNNING, timeout := d\<rparr>"]
          cb tick r \<open>0 < r\<close> pl
        by (auto simp: expire_timer_def fired_def beyond_def stored_def d_def Let_def)
    qed
  qed
qed

section \<open>Running all timers that are due\<close>

definition due_timers :: "timer_vector \<Rightarrow> u64 \<Rightarrow> nat set" where
  "due_timers v now = {p \<in> armed (current_list v). timeout (timer p v) \<le> now}"

definition stays :: "(nat \<Rightarrow> u64) \<Rightarrow> u64 \<Rightarrow> brtos_timer \<Rightarrow> bool" where
  "stays rep now t \<longleftrightarrow> again rep t \<noteq> 0 \<and> \<not> beyond (now + again rep t)"

definition moves :: "(nat \<Rightarrow> u64) \<Rightarrow> u64 \<Rightarrow> brtos_timer \<Rightarrow> bool" where
  "moves rep now t \<longleftrightarrow> again rep t \<noteq> 0 \<and> beyond (now + again rep t)"

text \<open>What one pass does to the timers: every due one is rewritten, freed or put off.\<close>

definition passed :: "(nat \<Rightarrow> u64) \<Rightarrow> u64 \<Rightarrow> timer_vector \<Rightarrow> timer_vector \<Rightarrow> bool" where
  "passed rep now v v' \<longleftrightarrow>
     (\<forall>q. timer q v' =
        (if q \<in> due_timers v now then fired now (again rep (timer q v)) (timer q v) else timer q v)) \<and>
     armed (current_list v') =
       {q \<in> armed (current_list v). q \<in> due_timers v now \<longrightarrow> stays rep now (timer q v)} \<and>
     armed (future_list v') =
       armed (future_list v) \<union> {q \<in> due_timers v now. moves rep now (timer q v)}"

lemma later:
  assumes "unat (now :: u64) + unat r < 2 ^ 64" and "r \<noteq> 0"
  shows "now < now + r"
proof -
  have "unat (now + r) = unat now + unat r"
    using assms(1) by (simp add: unat_word_ariths)
  moreover have "0 < unat r" using assms(2) by (simp add: unat_gt_0)
  ultimately show ?thesis by (simp add: word_less_nat_alt)
qed

lemma again_bound:
  assumes "\<And>f. unat (now :: u64) + unat (rep f) < 2 ^ 64"
  shows "unat now + unat (again rep t) < 2 ^ 64"
proof (cases "func_cb t")
  case None
  then show ?thesis using le_less_trans [OF le_add1 assms] by (simp add: again_def)
next
  case (Some f)
  then show ?thesis using assms [of f] by (simp add: again_def)
qed

lemma card_move:
  "finite A \<Longrightarrow> finite B \<Longrightarrow> p \<in> A \<Longrightarrow> card (A - {p}) + card (insert p B) \<le> card A + card B"
  using card_Suc_Diff1 [of A p] by (auto simp: card_insert_if)

lemma passed_step:
  assumes p: "p \<in> due_timers v now"
    and t1: "\<And>q. timer q v1 = (if q = p then fired now (again rep (timer p v)) (timer p v) else timer q v)"
    and cur1: "armed (current_list v1) =
      (if stays rep now (timer p v) then armed (current_list v) else armed (current_list v) - {p})"
    and fut1: "armed (future_list v1) =
      (if moves rep now (timer p v) then insert p (armed (future_list v)) else armed (future_list v))"
    and D1: "due_timers v1 now = due_timers v now - {p}" and rest: "passed rep now v1 v'"
  shows "passed rep now v v'"
  unfolding passed_def
proof (intro conjI allI set_eqI)
  have rest: "timer q v' = (if q \<in> due_timers v1 now then fired now (again rep (timer q v1)) (timer q v1) else timer q v1)"
    "q \<in> armed (current_list v') \<longleftrightarrow>
       q \<in> armed (current_list v1) \<and> (q \<in> due_timers v1 now \<longrightarrow> stays rep now (timer q v1))"
    "q \<in> armed (future_list v') \<longleftrightarrow>
       q \<in> armed (future_list v1) \<or> q \<in> due_timers v1 now \<and> moves rep now (timer q v1)" for q
    using rest by (simp_all add: passed_def)
  have pa: "p \<in> armed (current_list v)" using p by (simp add: due_timers_def)
  fix q
  show "timer q v' = (if q \<in> due_timers v now then fired now (again rep (timer q v)) (timer q v) else timer q v)"
    unfolding rest(1) D1 using p t1 by (cases "q = p") simp_all
  show "q \<in> armed (current_list v') \<longleftrightarrow>
      q \<in> {q \<in> armed (current_list v). q \<in> due_timers v now \<longrightarrow> stays rep now (timer q v)}"
    unfolding rest(2) D1 cur1 using p pa t1 by (cases "q = p") simp_all
  show "q \<in> armed (future_list v') \<longleftrightarrow>
      q \<in> armed (future_list v) \<union> {q \<in> due_timers v now. moves rep now (timer q v)}"
    unfolding rest(3) D1 fut1 using p t1 by (cases "q = p") simp_all
qed

lemma expire_loop_passes:
  fixes os :: os
  assumes "timers_ok v" and "armed_count v \<le> 7" and run: "quiet run rep"
    and wrap: "\<And>f. unat (OSTickCounter os) + unat (rep f) < 2 ^ 64"
  shows "\<exists>ran tmo' v' os'. expire_loop run tmo v os = Some (ran, tmo', v', os') \<and>
    distinct ran \<and> set ran = due_timers v (OSTickCounter os) \<and>
    sorted (map (\<lambda>p. timeout (timer p v)) ran) \<and> timers_ok v' \<and>
    OSTickCounter os' = OSTickCounter os \<and> passed rep (OSTickCounter os) v v' \<and>
    due_timers v' (OSTickCounter os) = {}"
  using assms(1,2) wrap
proof (induction "card (due_timers v (OSTickCounter os))" arbitrary: v os tmo)
  case 0
  let ?now = "OSTickCounter os"
  have none: "due_timers v ?now = {}"
    using 0 by (auto simp: due_timers_def)
  have "expire_loop run tmo v os = Some ([], tmo, v, os)"
  proof (cases "first_timer v")
    case None
    then show ?thesis by (simp add: expire_loop.simps)
  next
    case (Some p)
    then have "p \<in> armed (current_list v)"
      using dq.first_armed [OF timers_okD(2) [OF 0(2)]] by (simp add: first_timer_of)
    then have "\<not> timeout (timer p v) \<le> ?now" using none by (auto simp: due_timers_def)
    then show ?thesis using Some by (simp add: expire_loop.simps)
  qed
  then show ?case using none 0 by (simp add: passed_def)
next
  case (Suc n)
  let ?now = "OSTickCounter os" and ?D = "due_timers v (OSTickCounter os)"
  note ok = Suc.prems(1) and room = Suc.prems(2) and wrap = Suc.prems(3)
  have fin: "finite ?D" by (simp add: due_timers_def)
  obtain q where q: "q \<in> ?D" using Suc.hyps(2) by fastforce
  then obtain p where p: "first_timer v = Some p"
    using dq.first_None [OF timers_okD(2) [OF ok]]
    by (cases "first_timer v") (auto simp: first_timer_of due_timers_def)
  note least = dq.first_least [OF timers_okD(2) [OF ok] p [unfolded first_timer_of]]
  have pa: "p \<in> armed (current_list v)"
    using dq.first_armed [OF timers_okD(2) [OF ok]] p by (simp add: first_timer_of)
  have due: "timeout (timer p v) \<le> ?now"
    using least [of q] q by (auto simp: due_timers_def)
  define r d where "r = again rep (timer p v)" and "d = ?now + r"
  obtain v1 os1 where step: "expire_timer run p tmo v os = Some (if r = 0 then tmo else d, v1, os1)"
    and ok1: "timers_ok v1" and tick: "OSTickCounter os1 = ?now"
    and t1: "\<And>q. timer q v1 = (if q = p then fired ?now r (timer p v) else timer q v)"
    and cur1: "armed (current_list v1) =
      (if r = 0 \<or> beyond d then armed (current_list v) - {p} else armed (current_list v))"
    and fut1: "armed (future_list v1) =
      (if r \<noteq> 0 \<and> beyond d then insert p (armed (future_list v)) else armed (future_list v))"
    using expire_timer_step [OF ok p room run, of tmo os] unfolding r_def d_def by blast
  have D1: "due_timers v1 ?now = ?D - {p}"
  proof -
    have "\<not> timeout (timer p v1) \<le> ?now" if "r \<noteq> 0" "\<not> beyond d"
      using later [OF again_bound [of ?now rep "timer p v", OF wrap]] that
      unfolding t1 by (simp add: fired_def stored_def r_def d_def)
    then show ?thesis
      using pa due by (auto simp: due_timers_def cur1 t1 split: if_splits)
  qed
  have n: "n = card (due_timers v1 (OSTickCounter os1))"
    using Suc.hyps(2) fin pa due unfolding tick D1 by (simp add: due_timers_def)
  have room1: "armed_count v1 \<le> 7"
    using room pa card_move [of "armed (current_list v)" "armed (future_list v)" p]
      card_mono [of "armed (current_list v)" "armed (current_list v) - {p}"]
    unfolding armed_count_def cur1 fut1 by (auto split: if_splits)
  obtain ran tmo' v' os' where IH: "expire_loop run (if r = 0 then tmo else d) v1 os1 = Some (ran, tmo', v', os')"
    "distinct ran" "set ran = ?D - {p}" "sorted (map (\<lambda>p. timeout (timer p v1)) ran)" "timers_ok v'"
    "OSTickCounter os' = ?now" "passed rep ?now v1 v'" "due_timers v' ?now = {}"
    using Suc.hyps(1) [OF n ok1 room1, of "if r = 0 then tmo else d"] wrap unfolding tick D1 by blast
  have loop: "expire_loop run tmo v os = Some (p # ran, tmo', v', os')"
    using p due step IH(1) by (subst expire_loop.simps) simp
  have "map (\<lambda>p. timeout (timer p v1)) ran = map (\<lambda>p. timeout (timer p v)) ran"
    using IH(3) t1 by auto
  from IH(4) [unfolded this] have sorted: "sorted (map (\<lambda>p. timeout (timer p v)) (p # ran))"
    using IH(3) least by (auto simp: due_timers_def)
  have passed: "passed rep ?now v v'"
  proof (rule passed_step [OF _ _ _ _ D1 IH(7)])
    show "p \<in> ?D" using pa due by (simp add: due_timers_def)
    show "timer q v1 = (if q = p then fired ?now (again rep (timer p v)) (timer p v) else timer q v)" for q
      using t1 by (simp add: r_def)
    show "armed (current_list v1) =
        (if stays rep ?now (timer p v) then armed (current_list v) else armed (current_list v) - {p})"
      using cur1 by (auto simp: stays_def r_def d_def)
    show "armed (future_list v1) =
        (if moves rep ?now (timer p v) then insert p (armed (future_list v)) else armed (future_list v))"
      using fut1 by (auto simp: moves_def r_def d_def)
  qed
  have set: "distinct (p # ran)" "set (p # ran) = ?D"
    using IH(2,3) pa due by (auto simp: due_timers_def)
  show ?case
    by (intro exI [of _ "p # ran"] exI [of _ tmo'] exI [of _ v'] exI [of _ os'] conjI)
      (fact loop set sorted IH(5,6,8) passed)+
qed

section \<open>A turn of the timer task\<close>

lemma next_wake_least:
  assumes "timers_ok v"
  shows "q \<in> armed (current_list v) \<Longrightarrow> next_wake v \<le> timeout (timer q v)"
    and "armed (current_list v) \<noteq> {} \<Longrightarrow> \<exists>q \<in> armed (current_list v). next_wake v = timeout (timer q v)"
proof -
  note ok = timers_okD(2) [OF assms]
  have some: "\<exists>p. first_of (current_list v) = Some p \<and> next_wake v = timeout (timer p v)"
    if "armed (current_list v) \<noteq> {}"
    using dq.first_None [OF ok] that unfolding next_wake_def first_timer_of
    by (cases "first_of (current_list v)") auto
  show "next_wake v \<le> timeout (timer q v)" if "q \<in> armed (current_list v)"
    using some dq.first_least [OF ok _ that] that by fastforce
  show "\<exists>q \<in> armed (current_list v). next_wake v = timeout (timer q v)"
    if "armed (current_list v) \<noteq> {}"
    using some [OF that] dq.first_armed [OF ok] by blast
qed

lemma timers_ok_switch: "timers_ok v \<Longrightarrow> timers_ok (switch_lists v)"
  unfolding timers_ok_def switch_lists_def by (simp add: Int_commute Un_commute)

lemma switch_sel [simp]:
  "current_list (switch_lists v) = future_list v" "future_list (switch_lists v) = current_list v"
  "timer_mem (switch_lists v) = timer_mem v"
  by (simp_all add: switch_lists_def)


section \<open>Setting, reading and stopping a timer\<close>

lemma OSTimerSet_result:
  fixes os :: os and w :: u64
  assumes "timers_ok v" and "armed_count v < 7"
    and "\<exists>p < BRTOS_MAX_TIMER. timer_state (timer p v) = TIMER_NOT_USED" and "0 < w"
  defines "d \<equiv> OSTickCounter os + w"
  shows "\<exists>p v' os'. OSTimerSet (Some f) w v os = Some (OK, Some p, v', os') \<and>
    timer_state (timer p v) = TIMER_NOT_USED \<and> timers_ok v' \<and>
    timer p v' = \<lparr>func_cb = Some f, timeout = stored d, timer_state = TIMER_RUNNING\<rparr> \<and>
    (\<forall>q. q \<noteq> p \<longrightarrow> timer q v' = timer q v) \<and>
    armed (current_list v') = armed (current_list v) \<union> (if beyond d then {} else {p}) \<and>
    armed (future_list v') = armed (future_list v) \<union> (if beyond d then {p} else {}) \<and>
    os' = (if \<not> beyond d \<and> currentTask os \<noteq> 0 \<and>
              (\<forall>q \<in> armed (current_list v). d \<le> timeout (timer q v))
           then upd_task (handling_task v) (\<lambda>c. c\<lparr>TimeToWait := d\<rparr>) os else os)"
proof -
  note v = timers_okD [OF assms(1)]
  let ?P = "\<lambda>t. timer_state t = TIMER_NOT_ALLOCATED \<or> timer_state t = TIMER_NOT_USED"
  define p where "p = first_idx ?P (timer_mem v)"
  have "\<exists>t \<in> set (timer_mem v). ?P t"
    using assms(3) v(1) by (metis nth_mem)
  then have p8: "p < 8"
    using first_idx_less [of ?P "timer_mem v"] v(1) by (simp add: p_def)
  have hit: "?P (timer p v)"
    using first_idx_hit [of ?P "timer_mem v"] p8 v(1) by (simp add: p_def)
  have free: "p \<notin> armed (current_list v)" "p \<notin> armed (future_list v)"
    using hit v(7,8) [of p] by auto
  have unused: "timer_state (timer p v) = TIMER_NOT_USED"
    using hit v(9) [OF p8 free] by auto
  let ?v1 = "upd_timer p (\<lambda>t. t\<lparr>timer_state := TIMER_STOPPED, func_cb := Some f\<rparr>) v"
  have t1: "timer q ?v1 = (if q = p then (timer p v)\<lparr>timer_state := TIMER_STOPPED, func_cb := Some f\<rparr>
      else timer q v)" for q
    using timer_upd_timer [of p v] p8 v(1) by simp
  have l1: "tmr_ok (timer_mem ?v1) (current_list v)" "tmr_ok (timer_mem ?v1) (future_list v)"
    by (rule dq.ok_cong [OF v(2)], simp add: t1) (rule dq.ok_cong [OF v(3)], simp add: t1)
  have ok1: "timers_ok ?v1"
    by (rule timers_okI [OF assms(1) p8]) (use l1 t1 free v(1) in \<open>simp_all\<close>)
  have "timeout (timer q ?v1) = timeout (timer q v)" for q
    unfolding t1 by simp
  then have same: "(\<forall>q \<in> armed (current_list v). d \<le> timeout (timer q ?v1)) \<longleftrightarrow>
      (\<forall>q \<in> armed (current_list v). d \<le> timeout (timer q v))"
    by simp
  have d: "d = OSGetCount os + w" by (simp add: d_def OSGetCount_def)
  obtain v2 os2 where arm: "arm p w ?v1 os = Some (v2, os2)" "timers_ok v2"
    "armed (current_list v2) = (if beyond d then armed (current_list v) else insert p (armed (current_list v)))"
    "armed (future_list v2) = (if beyond d then insert p (armed (future_list v)) else armed (future_list v))"
    "timer p v2 = (timer p ?v1)\<lparr>timeout := stored d, timer_state := TIMER_RUNNING\<rparr>"
    "\<forall>q. q \<noteq> p \<longrightarrow> timer q v2 = timer q ?v1"
    "os2 = (if \<not> beyond d \<and> currentTask os \<noteq> 0 \<and>
              (\<forall>q \<in> armed (current_list v). d \<le> timeout (timer q v))
            then upd_task (handling_task v) (\<lambda>c. c\<lparr>TimeToWait := d\<rparr>) os else os)"
    using arm_ok [OF ok1 p8, where os = os and w = w] free assms(2)
    unfolding d [symmetric] armed_count_def upd_timer_sel same by blast
  have "OSTimerSet (Some f) w v os = Some (OK, Some p, v2, os2)"
    using p8 unused assms(4) arm(1) by (simp add: OSTimerSet_def p_def [symmetric] Let_def)
  moreover have "timer p v2 = \<lparr>func_cb = Some f, timeout = stored d, timer_state = TIMER_RUNNING\<rparr>"
    unfolding arm(5) t1 by simp
  ultimately show ?thesis
    using unused arm t1 by (intro exI [of _ p] exI [of _ v2] exI [of _ os2] conjI) (auto split: if_splits)
qed

lemma OSTimerSet_uses_free:
  assumes "timers_ok v" and "OSTimerSet (Some f) w v os = Some (OK, Some p, v', os')"
  shows "\<exists>p < BRTOS_MAX_TIMER. timer_state (timer p v) = TIMER_NOT_USED"
proof -
  let ?P = "\<lambda>t. timer_state t = TIMER_NOT_ALLOCATED \<or> timer_state t = TIMER_NOT_USED"
  let ?i = "first_idx ?P (timer_mem v)"
  have len: "length (timer_mem v) = 8" using timers_okD(1) [OF assms(1)] .
  have "?i \<noteq> 8" "timer_state (timer ?i v) \<noteq> TIMER_NOT_ALLOCATED"
    using assms(2) by (auto simp: OSTimerSet_def Let_def split: if_splits)
  moreover have "?i \<le> 8" using first_idx_le [of ?P "timer_mem v"] len by simp
  ultimately show ?thesis
    using first_idx_hit [of ?P "timer_mem v"] len by (intro exI [of _ ?i]) auto
qed

text \<open>
  Setting a timer while a block is free takes the first free block, arms it for the
  given time from now in the list its deadline belongs to, changes no other timer, and sets
  the wake-up time of the timer task when the new deadline is the earliest.
\<close>

theorem OSTimerSet_arms:
  fixes os :: os and w :: u64
  assumes "timers_ok v" and "armed_count v < 7"
    and "\<exists>p < BRTOS_MAX_TIMER. timer_state (timer p v) = TIMER_NOT_USED" and "0 < w"
  defines "d \<equiv> OSTickCounter os + w"
  shows "\<exists>p v' os'. OSTimerSet (Some f) w v os = Some (OK, Some p, v', os') \<and>
    timer_state (timer p v) = TIMER_NOT_USED \<and> timers_ok v' \<and>
    timer p v' = \<lparr>func_cb = Some f, timeout = stored d, timer_state = TIMER_RUNNING\<rparr> \<and>
    (\<forall>q. q \<noteq> p \<longrightarrow> timer q v' = timer q v) \<and>
    armed (current_list v') = armed (current_list v) \<union> (if beyond d then {} else {p}) \<and>
    armed (future_list v') = armed (future_list v) \<union> (if beyond d then {p} else {}) \<and>
    os' = (if \<not> beyond d \<and> currentTask os \<noteq> 0 \<and>
              (\<forall>q \<in> armed (current_list v). d \<le> timeout (timer q v))
           then upd_task (handling_task v) (\<lambda>c. c\<lparr>TimeToWait := d\<rparr>) os else os)"
  using OSTimerSet_result [OF assms(1-4)] unfolding d_def .

text \<open>
  Reading a timer gives the time that is left: when \<open>k\<close> ticks have passed since the
  timer was set for \<open>w\<close> ticks, the result is \<open>w - k\<close>, also when the tick counter has been
  reset by its overflow in between.
\<close>

theorem OSTimerGet_remaining:
  fixes os :: os and w :: u64
  assumes "timers_ok v" and "armed_count v < 7" and "0 < w" and "w < TICK_COUNT_OVERFLOW"
    and "OSTimerSet (Some f) w v os = Some (OK, Some p, v', os')"
    and "unat (OSTickCounter os) + unat w < 2 ^ 64" and "OSTickCounter os < TICK_COUNT_OVERFLOW"
    and "k \<le> unat w"
    and "unat (OSTickCounter os1) = (unat (OSTickCounter os) + k) mod unat TICK_COUNT_OVERFLOW"
  shows "unat (OSTimerGet (Some p) v' os1) = unat w - k"
proof -
  let ?M = "unat TICK_COUNT_OVERFLOW" and ?t = "unat (OSTickCounter os)"
  have M: "?M = 2 ^ 64 - 4" by (simp add: codes)
  have free: "\<exists>p < BRTOS_MAX_TIMER. timer_state (timer p v) = TIMER_NOT_USED"
    using OSTimerSet_uses_free [OF assms(1,5)] .
  have run: "timer_state (timer p v') = TIMER_RUNNING" "timeout (timer p v') = stored (OSTickCounter os + w)"
    using OSTimerSet_result [OF assms(1,2) free assms(3), of f os] assms(5) by auto
  have t: "?t < ?M" and w: "unat w < ?M" using assms(4,7) by (simp_all add: word_less_nat_alt)
  have sum: "unat (OSTickCounter os + w) = ?t + unat w"
    using assms(6) by (simp add: unat_word_ariths)
  have st: "unat (stored (OSTickCounter os + w)) = (if ?t + unat w < ?M then ?t + unat w else ?t + unat w - ?M)"
    using sum by (auto simp: stored_def beyond_def word_le_nat_alt unat_sub)
  have now: "unat (OSTickCounter os1) = (if ?t + k < ?M then ?t + k else ?t + k - ?M)"
    using assms(8,9) t w by (simp add: mod_if)
  have max: "unat TIMER_MAX_COUNTER = ?M - 1" unfolding M by (simp add: codes)
  show ?thesis
  proof (cases "OSTickCounter os1 \<le> timeout (timer p v')")
    case True
    then have "unat (timeout (timer p v') - OSTickCounter os1) =
        unat (timeout (timer p v')) - unat (OSTickCounter os1)"
      by (simp add: unat_sub)
    moreover have "unat (timeout (timer p v')) - unat (OSTickCounter os1) = unat w - k"
      using True t w assms(8) unfolding run(2) word_le_nat_alt st now by (auto split: if_splits)
    ultimately show ?thesis
      using run(1) True by (simp add: OSTimerGet_def OSGetCount_def Let_def)
  next
    case False
    let ?c = "OSTickCounter os1" and ?x = "timeout (timer p v')"
    have c: "unat ?c < ?M" using now t w assms(8) by (auto split: if_splits)
    then have y: "unat (TIMER_MAX_COUNTER - ?c) = ?M - 1 - unat ?c"
      using max by (subst unat_sub) (simp_all add: word_le_nat_alt)
    have "unat ?x < unat ?c" using False by (simp add: word_le_nat_alt)
    then have "?M - 1 - unat ?c + unat ?x + 1 < 2 ^ 64"
      using c unfolding M by simp
    then have "unat (TIMER_MAX_COUNTER - ?c + ?x + 1) = ?M - 1 - unat ?c + unat ?x + 1"
      using y by (simp add: unat_word_ariths)
    moreover have "?M - 1 - unat (OSTickCounter os1) + unat (timeout (timer p v')) + 1 = unat w - k"
      using False t w assms(8) unfolding run(2) word_le_nat_alt st now by (auto split: if_splits)
    ultimately show ?thesis
      using run(1) False by (simp add: OSTimerGet_def OSGetCount_def Let_def)
  qed
qed

end
