(* ===== verification/Timer_Stop.thy ===== *)
theory Timer_Stop
  imports Timer_Task
begin

text \<open>
  Stopping a timer, and two situations in which the timer module does not do what it is meant
  to: the turn after the earliest timer was stopped runs the remaining timers early, and an
  eighth armed timer drops another one out of the list of seven.
\<close>

section \<open>Stopping\<close>

lemma search_timer_finds:
  assumes ok: "tmr_ok mem l" and p: "timer_state (mem ! p) = TIMER_SEARCH"
    and others: "\<And>q. q \<in> armed l - {p} \<Longrightarrow> timer_state (mem ! q) \<noteq> TIMER_SEARCH"
  shows "1 \<le> pos \<Longrightarrow> i \<in> {pos..tmr_count l} \<Longrightarrow> timers l ! i = Some p \<Longrightarrow>
    \<exists>j \<in> {1..tmr_count l}. search_timer mem l pos = Some j \<and> timers l ! j = Some p"
proof (induction "i - pos" arbitrary: pos)
  case 0
  then have at: "at (timers l) i = Some p" "pos = i"
    using tmr_okD(1,2) [OF ok] by (auto simp: at_def)
  then show ?case
    using 0 p by (intro bexI [of _ i]) (auto simp: search_timer.simps [of _ _ i])
next
  case (Suc n)
  have pos: "pos \<in> {1..tmr_count l}" using Suc.prems Suc.hyps(2) by auto
  define q where "q = the (timers l ! pos)"
  have at: "at (timers l) pos = Some q"
    using full_at [OF tmr_okD(3) [OF ok] pos] by (simp add: q_def)
  have tq: "timers l ! pos = Some q"
    using at tmr_okD(1) [OF ok] by (simp add: at_def split: if_splits)
  show ?case
  proof (cases "q = p")
    case True
    then show ?thesis
      using at p pos tq by (intro bexI [of _ pos]) (auto simp: search_timer.simps [of _ _ pos])
  next
    case False
    then have "timer_state (mem ! q) \<noteq> TIMER_SEARCH"
      using others [of q] position_armed [OF ok pos] by (simp add: q_def)
    then have "search_timer mem l pos = search_timer mem l (pos + 1)"
      using at pos by (simp add: search_timer.simps [of _ _ pos])
    then show ?thesis
      using Suc.hyps(1) [of "pos + 1"] Suc.hyps(2) Suc.prems by auto
  qed
qed

lemma filter_distinct_inj:
  "distinct (filter P xs) \<Longrightarrow> inj_on ((!) xs) {k. k < length xs \<and> P (xs ! k)}"
proof (induction xs rule: rev_induct)
  case (snoc x xs)
  have IH: "inj_on ((!) xs) {k. k < length xs \<and> P (xs ! k)}"
    using snoc by (auto split: if_splits)
  show ?case
  proof (rule inj_onI)
    fix a b assume a: "a \<in> {k. k < length (xs @ [x]) \<and> P ((xs @ [x]) ! k)}"
      and b: "b \<in> {k. k < length (xs @ [x]) \<and> P ((xs @ [x]) ! k)}"
      and eq: "(xs @ [x]) ! a = (xs @ [x]) ! b"
    have new: False if "k < length xs" "P x" "xs ! k = x" for k
      using snoc.prems that by (auto simp: in_set_conv_nth)
    show "a = b"
    proof (cases "a < length xs \<and> b < length xs")
      case True
      then show ?thesis
        using a b eq IH by (auto simp: nth_append inj_on_def)
    next
      case False
      then consider "a = length xs" "b = length xs" | "a = length xs" "b < length xs"
        | "a < length xs" "b = length xs" using a b by fastforce
      then show ?thesis
      proof cases
        case 1
        then show ?thesis by simp
      next
        case 2
        have "xs ! b = x" using eq [symmetric] 2 by (simp add: nth_append)
        moreover have "P x" using a 2 by simp
        ultimately show ?thesis using new 2(2) by blast
      next
        case 3
        have "xs ! a = x" using eq 3 by (simp add: nth_append)
        moreover have "P x" using b 3 by simp
        ultimately show ?thesis using new 3(1) by blast
      qed
    qed
  qed
qed simp

lemma raise_to_top_ok:
  assumes ok: "tmr_ok mem l" and i: "i \<in> {1..tmr_count l}" and p: "timers l ! i = Some p"
    and zero: "timeout (mem' ! p) = 0"
    and same: "\<And>q. q \<in> armed l - {p} \<Longrightarrow> timeout (mem' ! q) = timeout (mem ! q)"
  shows "\<exists>ts. Subir mem' (timers l) i = Some ts \<and> tmr_ok mem' (l\<lparr>timers := ts\<rparr>) \<and>
    armed (l\<lparr>timers := ts\<rparr>) = armed l"
proof -
  note l = tmr_okD [OF ok]
  have keyi: "key mem' (timers l) i = 0" using p zero by (simp add: key_def)
  have key: "key mem' (timers l) j = key mem (timers l) j" if "j \<in> {1..tmr_count l}" "j \<noteq> i" for j
  proof (cases "the (timers l ! j) = p")
    case True
    then have "timers l ! j = timers l ! i"
      using p l(3) that by (auto simp: full_def)
    moreover have "timers l ! j \<noteq> timers l ! i"
    proof -
      have d: "distinct (filter (\<lambda>x. x \<noteq> None) (timers l))" using l(5) by (simp add: live_def)
      have "inj_on ((!) (timers l)) {k. k < length (timers l) \<and> timers l ! k \<noteq> None}"
        using d by (rule filter_distinct_inj)
      moreover have "j < length (timers l)" "timers l ! j \<noteq> None" "i < length (timers l)" "timers l ! i \<noteq> None"
        using that(1) i l(1-3) by (simp_all add: full_def del: not_None_eq)
      ultimately show ?thesis using inj_onD [of _ _ j i] that(2) by blast
    qed
    ultimately show ?thesis by simp
  next
    case False
    then show ?thesis
      using same [of "the (timers l ! j)"] position_armed [OF ok that(1)] by (simp add: key_def)
  qed
  have old: "key mem (timers l) (j div 2) \<le> key mem (timers l) j" if "j \<in> {2..tmr_count l}" for j
    using l(6) that by (simp add: heap_def)
  have "\<exists>ts. Subir mem' (timers l) i = Some ts \<and> rearranged (tmr_count l) (timers l) ts \<and>
      full (tmr_count l) ts \<and> heap mem' ts (tmr_count l)"
  proof (rule Subir_heap [OF l(3) i])
    fix j assume j: "j \<in> {2..tmr_count l}" "j \<noteq> i"
    then have in_l: "j \<in> {1..tmr_count l}" "j div 2 \<in> {1..tmr_count l}" by auto
    show "key mem' (timers l) (j div 2) \<le> key mem' (timers l) j"
      using old [OF j(1)] key [OF in_l(1) j(2)] key [OF in_l(2)] keyi by (cases "j div 2 = i") auto
  next
    fix j assume j: "j \<in> {2..tmr_count l}" "j div 2 = i" "1 < i"
    then have "i \<in> {2..tmr_count l}" "j \<in> {1..tmr_count l}" "j \<noteq> i" "i div 2 \<in> {1..tmr_count l}" "i div 2 \<noteq> i"
      by auto
    then show "key mem' (timers l) (i div 2) \<le> key mem' (timers l) j"
      using old [of i] old [OF j(1)] key [of j] key [of "i div 2"] j(2) by simp
  qed
  then obtain ts where ts: "Subir mem' (timers l) i = Some ts" "rearranged (tmr_count l) (timers l) ts"
    "full (tmr_count l) ts" "heap mem' ts (tmr_count l)" by blast
  have "tmr_ok mem' (l\<lparr>timers := ts\<rparr>)"
    unfolding tmr_ok_def using ts l rearranged_live(2) [OF ts(2)] by (auto simp: rearranged_def)
  moreover have "armed (l\<lparr>timers := ts\<rparr>) = armed l"
    using rearranged_live(1) [OF ts(2)] by (simp add: armed_live)
  ultimately show ?thesis using ts(1) by blast
qed

lemma unlink_timer_ok:
  assumes len: "p < length (timer_mem v)" and ok: "tmr_ok (timer_mem v) l" and p: "p \<in> armed l"
    and run: "\<And>q. q \<in> armed l \<Longrightarrow> timer_state (timer q v) = TIMER_RUNNING"
    and pos: "\<And>q. q \<in> armed l - {p} \<Longrightarrow> 0 < timeout (timer q v)"
  defines "v2 \<equiv> upd_timer p (\<lambda>t. t\<lparr>timer_state := TIMER_SEARCH, timeout := 0\<rparr>) v"
  shows "\<exists>l'. unlink_timer p v l = Some (v2, l') \<and> tmr_ok (timer_mem v2) l' \<and> armed l' = armed l - {p}"
proof -
  let ?v1 = "upd_timer p (\<lambda>t. t\<lparr>timer_state := TIMER_SEARCH\<rparr>) v"
  have t1: "timer q ?v1 = (if q = p then (timer p v)\<lparr>timer_state := TIMER_SEARCH\<rparr> else timer q v)" for q
    using timer_upd_timer [OF len] by simp
  have t2: "timer q v2 =
      (if q = p then (timer p v)\<lparr>timer_state := TIMER_SEARCH, timeout := 0\<rparr> else timer q v)" for q
    unfolding v2_def using timer_upd_timer [OF len] by simp
  have v2: "upd_timer p (\<lambda>t. t\<lparr>timeout := 0\<rparr>) ?v1 = v2"
    using len by (simp add: v2_def)
  have "timeout (timer q ?v1) = timeout (timer q v)" for q unfolding t1 by simp
  then have ok1: "tmr_ok (timer_mem ?v1) l" using dq.ok_cong [OF ok] by blast
  obtain i0 where i0: "i0 \<in> {1..tmr_count l}" "timers l ! i0 = Some p"
    using armed_position [OF ok p] .
  have "\<exists>j \<in> {1..tmr_count l}. search_timer (timer_mem ?v1) l 1 = Some j \<and> timers l ! j = Some p"
  proof (rule search_timer_finds [OF ok1 _ _ _ i0])
    show "timer_state (timer q ?v1) \<noteq> TIMER_SEARCH" if "q \<in> armed l - {p}" for q
      using that run [of q] unfolding t1 by simp
  qed (simp_all add: t1)
  then obtain i where i: "search_timer (timer_mem ?v1) l 1 = Some i" "i \<in> {1..tmr_count l}"
    "timers l ! i = Some p" by blast
  have "\<exists>ts. Subir (timer_mem v2) (timers l) i = Some ts \<and> tmr_ok (timer_mem v2) (l\<lparr>timers := ts\<rparr>) \<and>
      armed (l\<lparr>timers := ts\<rparr>) = armed l"
    by (rule raise_to_top_ok [OF ok i(2,3)]) (simp_all add: t2)
  then obtain ts where ts: "Subir (timer_mem v2) (timers l) i = Some ts"
    "tmr_ok (timer_mem v2) (l\<lparr>timers := ts\<rparr>)" "armed (l\<lparr>timers := ts\<rparr>) = armed l" by blast
  obtain r where r: "first_of (l\<lparr>timers := ts\<rparr>) = Some r"
    using dq.first_None [OF ts(2)] ts(3) p by (cases "first_of (l\<lparr>timers := ts\<rparr>)") auto
  have "timeout (timer r v2) \<le> timeout (timer p v2)"
    using dq.first_least [OF ts(2) r] ts(3) p by simp
  then have "timeout (timer r v2) = 0" using t2 [of p] by simp
  moreover have "r \<in> armed l" using dq.first_armed [OF ts(2) r] ts(3) by simp
  ultimately have "r = p" using pos [of r] t2 [of r] by (cases "r = p") auto
  then obtain l' where l': "take_first (timer_mem v2) (l\<lparr>timers := ts\<rparr>) = Some l'"
    "tmr_ok (timer_mem v2) l'" "armed l' = armed l - {p}"
    using dq.drop_ok [OF ts(2) r, of "timer_mem v2"] ts(3) by auto
  obtain c where c: "remove_first (l\<lparr>timers := ts\<rparr>) = Some c" "l' = order_first (timer_mem v2) c"
    using take_first_split [OF l'(1)] .
  have "unlink_timer p v l = Some (v2, l')"
    using i(1) ts(1) c by (simp add: unlink_timer_def v2 Let_def del: upd_timer_twice)
  then show ?thesis using l' by blast
qed

definition stopped :: "u8 \<Rightarrow> brtos_timer \<Rightarrow> brtos_timer" where
  "stopped del t = (if del > 0 then unused else t\<lparr>timeout := 0, timer_state := TIMER_STOPPED\<rparr>)"

text \<open>
  What stopping leaves: \<open>v2\<close> is the state after the search has taken the timer out of one list, \<open>a\<close> and
  \<open>b\<close> are the lists then.
\<close>

lemma stop_leaves:
  fixes v del p a b
  defines "v2 \<equiv> upd_timer p (\<lambda>t. t\<lparr>timer_state := TIMER_SEARCH, timeout := 0\<rparr>) v"
  defines "v' \<equiv> upd_timer p (\<lambda>t. if del > 0 then t\<lparr>timer_state := TIMER_NOT_USED, func_cb := None\<rparr> else t\<lparr>timer_state := TIMER_STOPPED\<rparr>)
      (v2\<lparr>current_list := a, future_list := b\<rparr>)"
  assumes "timers_ok v" and "p < 8"
    and a: "tmr_ok (timer_mem v2) a" "armed a = armed (current_list v) - {p}"
    and b: "tmr_ok (timer_mem v2) b" "armed b = armed (future_list v) - {p}"
  shows "timers_ok v'" and "timer q v' = (if q = p then stopped del (timer p v) else timer q v)"
    and "armed (current_list v') = armed (current_list v) - {p}" and "armed (future_list v') = armed (future_list v) - {p}"
proof -
  have p: "p < length (timer_mem v)" using timers_okD(1) [OF assms(3)] assms(4) by simp
  let ?g = "\<lambda>t. if del > 0 then t\<lparr>timer_state := TIMER_NOT_USED, func_cb := None\<rparr> else t\<lparr>timer_state := TIMER_STOPPED\<rparr>"
  have t2: "timer q v2 = (if q = p then (timer p v)\<lparr>timer_state := TIMER_SEARCH, timeout := 0\<rparr> else timer q v)" for q
    unfolding v2_def using timer_upd_timer [OF p] by simp
  have g: "?g (t\<lparr>timer_state := TIMER_SEARCH, timeout := 0\<rparr>) = stopped del t" for t
    by (cases t) (simp add: stopped_def unused_def)
  have t: "timer q v' = (if q = p then stopped del (timer p v) else timer q v)" for q
  proof -
    have "p < length (timer_mem (v2\<lparr>current_list := a, future_list := b\<rparr>))" using p by (simp add: v2_def)
    from timer_upd_timer [OF this, of ?g q]
    have "timer q v' = (if q = p then ?g (timer p v2) else timer q v2)" by (simp add: v'_def)
    also have "?g (timer p v2) = stopped del (timer p v)"
      using t2 [of p] g [of "timer p v"] by (simp only: refl if_True)
    finally show ?thesis using t2 [of q] by simp
  qed
  have keep: "tmr_ok (timer_mem v') l" if "tmr_ok (timer_mem v2) l" for l
    by (rule dq.ok_cong [OF that]) (simp add: t t2 stopped_def unused_def)
  have idle: "timer_state (stopped del (timer p v)) \<in> {TIMER_NOT_USED, TIMER_STOPPED}"
    by (simp add: stopped_def unused_def)
  have len: "length (timer_mem v') = 8" using timers_okD(1) [OF assms(3)] by (simp add: v'_def v2_def)
  have lists: "current_list v' = a" "future_list v' = b" by (simp_all add: v'_def)
  show "timers_ok v'"
  proof (rule timers_okI [OF assms(3,4) len])
    show "timer q v' = timer q v" if "q \<noteq> p" for q using that t by simp
  qed (use keep [OF a(1)] keep [OF b(1)] a(2) b(2) idle t lists in simp_all)
  show "timer q v' = (if q = p then stopped del (timer p v) else timer q v)" by (rule t)
  show "armed (current_list v') = armed (current_list v) - {p}" "armed (future_list v') = armed (future_list v) - {p}"
    using lists a(2) b(2) by simp_all
qed


section \<open>A turn before any deadline\<close>

lemma flush_timer_step:
  assumes ok: "timers_ok v" and first: "first_timer v = Some p" and room: "armed_count v \<le> 7"
    and run: "quiet run rep"
  shows "\<exists>tmo1 v1 os1. flush_timer run p tmo v os = Some (tmo1, v1, os1) \<and>
    timers_ok v1 \<and> OSTickCounter os1 = OSTickCounter os \<and> armed_count v1 \<le> 7 \<and>
    armed (current_list v1) = armed (current_list v) - {p}"
proof -
  note v = timers_okD [OF ok]
  have p: "p \<in> armed (current_list v)"
    using dq.first_armed [OF v(2)] first by (simp add: first_timer_of)
  then have pl: "p < length (timer_mem v)" using v(1,5) by simp
  define r where "r = again rep (timer p v)"
  obtain os1 where cb: "call_back run p v os =
      (r, upd_timer p (\<lambda>t. t\<lparr>timer_state := TIMER_STOPPED\<rparr>) v, os1)"
    and tick: "OSTickCounter os1 = OSTickCounter os"
    using call_back_quiet [OF run pl] unfolding r_def by blast
  show ?thesis
  proof (cases "r = 0")
    case True
    obtain v2 where v2: "free_timer p (upd_timer p (\<lambda>t. t\<lparr>timer_state := TIMER_STOPPED\<rparr>) v) = Some v2"
      "timers_ok (order_current v2)"
      "armed (current_list (order_current v2)) = armed (current_list v) - {p}"
      "future_list (order_current v2) = future_list v"
      using free_step [OF ok first, of "\<lambda>t. t\<lparr>timer_state := TIMER_STOPPED\<rparr>"] by blast
    have "card (armed (current_list v) - {p}) \<le> card (armed (current_list v))"
      by (simp add: card_mono)
    then have "armed_count (order_current v2) \<le> 7"
      using room unfolding armed_count_def v2(3,4) by linarith
    moreover have "flush_timer run p tmo v os = Some (tmo, order_current v2, os1)"
      using v2(1) cb True by (simp add: flush_timer_def)
    ultimately show ?thesis using v2 tick by blast
  next
    case False
    then have "0 < r" by (simp add: word_neq_0_conv)
    let ?f = "\<lambda>t. t\<lparr>timer_state := TIMER_RUNNING, timeout := OSTickCounter os + r\<rparr>"
    obtain v2 where v2: "move_to_future p (upd_timer p ?f v) = Some v2"
      "timers_ok (order_current v2)"
      "armed (current_list (order_current v2)) = armed (current_list v) - {p}"
      "armed (future_list (order_current v2)) = insert p (armed (future_list v))"
      using move_step [OF ok first room, of ?f] by auto
    have "armed_count (order_current v2) \<le> 7"
      using room card_move [of "armed (current_list v)" "armed (future_list v)" p] p
      unfolding armed_count_def v2(3,4) by simp
    moreover have "flush_timer run p tmo v os = Some (OSTickCounter os + r, order_current v2, os1)"
      using v2(1) cb \<open>0 < r\<close> pl tick by (simp add: flush_timer_def Let_def)
    ultimately show ?thesis using v2 tick by blast
  qed
qed

lemma flush_loop_runs_all:
  fixes os :: os
  assumes "timers_ok v" and "armed_count v \<le> 7" and run: "quiet run rep"
  shows "\<exists>ran tmo' v' os'. flush_loop run tmo v os = Some (ran, tmo', v', os') \<and>
    set ran = armed (current_list v) \<and> timers_ok v' \<and> OSTickCounter os' = OSTickCounter os \<and>
    armed (current_list v') = {} \<and> armed_count v' \<le> 7"
  using assms(1,2)
proof (induction "card (armed (current_list v))" arbitrary: v os tmo)
  case 0
  then have e: "armed (current_list v) = {}" by simp
  then have "first_timer v = None"
    using dq.first_None [OF timers_okD(2) [OF 0(2)]] by (simp add: first_timer_of)
  then have "flush_loop run tmo v os = Some ([], tmo, v, os)"
    by (simp add: flush_loop.simps)
  then show ?case using e 0 by simp
next
  case (Suc n)
  have "armed (current_list v) \<noteq> {}" using Suc.hyps(2) by auto
  then obtain p where p: "first_timer v = Some p"
    using dq.first_None [OF timers_okD(2) [OF Suc.prems(1)]] by (cases "first_timer v") (auto simp: first_timer_of)
  have pa: "p \<in> armed (current_list v)"
    using dq.first_armed [OF timers_okD(2) [OF Suc.prems(1)]] p by (simp add: first_timer_of)
  obtain tmo1 v1 os1 where step: "flush_timer run p tmo v os = Some (tmo1, v1, os1)"
    "timers_ok v1" "OSTickCounter os1 = OSTickCounter os" "armed_count v1 \<le> 7"
    "armed (current_list v1) = armed (current_list v) - {p}"
    using flush_timer_step [OF Suc.prems(1) p Suc.prems(2) run] by blast
  have n: "n = card (armed (current_list v1))"
    using Suc.hyps(2) pa unfolding step(5) by simp
  obtain ran tmo' v' os' where IH: "flush_loop run tmo1 v1 os1 = Some (ran, tmo', v', os')"
    "set ran = armed (current_list v1)" "timers_ok v'" "OSTickCounter os' = OSTickCounter os1"
    "armed (current_list v') = {}" "armed_count v' \<le> 7"
    using Suc.hyps(1) [OF n step(2,4)] by blast
  have loop: "flush_loop run tmo v os = Some (p # ran, tmo', v', os')"
    using p step(1) IH(1) by (subst flush_loop.simps) simp
  have "set (p # ran) = armed (current_list v)" using IH(2) step(5) pa by auto
  then show ?case
    using loop IH step(3) by (intro exI [of _ "p # ran"] exI [of _ tmo'] exI [of _ v'] exI [of _ os'] conjI) simp_all
qed

text \<open>
  When the timer task wakes up before the earliest deadline of its current list, its turn
  returns having run every timer of that list, although none is due.  The code takes this for
  the sign that the tick counter has overflowed.
\<close>

theorem timer_task_early_turn:
  fixes os :: os
  assumes "timers_ok v" and "armed_count v \<le> 7" and "quiet run rep"
    and "\<And>f. unat (OSTickCounter os) + unat (rep f) < 2 ^ 64"
    and "first_timer v = Some p" and "OSTickCounter os < timeout (timer p v)"
  shows "\<exists>ran wake tmo' v' os'. BRTOSTimerTask_turn run tmo v os = Some (ran, wake, tmo', v', os') \<and>
    due_timers v (OSTickCounter os) = {} \<and> armed (current_list v) \<subseteq> set ran \<and> timers_ok v'"
proof -
  note v = timers_okD [OF assms(1)]
  have none: "due_timers v (OSTickCounter os) = {}"
    using dq.first_least [OF v(2) assms(5) [unfolded first_timer_of]] assms(6)
    by (force simp: due_timers_def)
  obtain ran1 tmo1 v1 os1 where fl: "flush_loop run tmo v os = Some (ran1, tmo1, v1, os1)"
    "set ran1 = armed (current_list v)" "timers_ok v1" "OSTickCounter os1 = OSTickCounter os" "armed_count v1 \<le> 7"
    using flush_loop_runs_all [OF assms(1-3), of tmo os] by blast
  have sw: "timers_ok (switch_lists v1)" "armed_count (switch_lists v1) \<le> 7"
    using timers_ok_switch [OF fl(3)] fl(5) by (simp_all add: armed_count_def add.commute)
  obtain ran2 tmo2 v2 os2 where ex: "expire_loop run tmo1 (switch_lists v1) os1 = Some (ran2, tmo2, v2, os2)"
    "timers_ok v2"
    using expire_loop_passes [OF sw assms(3), of os1 tmo1] assms(4) unfolding fl(4) by blast
  define w where "w = (if tmo2 > TIMER_MAX_COUNTER \<and> first_timer v2 = None then switch_lists v2 else v2)"
  have "BRTOSTimerTask_turn run tmo v os = Some (ran1 @ ran2, next_wake w, tmo2, w, os2)"
    using assms(5,6) fl(1) ex(1) by (simp add: BRTOSTimerTask_turn_def w_def Let_def)
  moreover have "timers_ok w" using ex(2) timers_ok_switch by (simp add: w_def)
  ultimately show ?thesis using none fl(2) by auto
qed

section \<open>One timer too many\<close>

text \<open>
  The table has eight timers, a list has room for seven.  The insertion into a full list
  succeeds, but the timer in its last place is no longer in the list.
\<close>

lemma insert_last_drops:
  assumes ok: "tmr_ok mem l" and p: "p \<notin> armed l" and full: "tmr_count l = 7"
  defines "q \<equiv> the (timers l ! 7)"
  shows "q \<in> armed l" and "\<exists>l'. insert_last mem p l = Some l' \<and> armed l' = insert p (armed l - {q})"
proof -
  note l = tmr_okD [OF ok]
  show "q \<in> armed l" unfolding q_def using position_armed [OF ok, of 7] full by simp
  have n: "7 < length (timers l)" using l(1) by simp
  have q: "timers l ! 7 = Some q" using l(3) full by (auto simp: full_def q_def)
  let ?ts = "(timers l)[7 := Some p]"
  have "full 7 ?ts" using l(1,3) full by (auto simp: full_def nth_list_update)
  then have "\<exists>ts'. Subir mem ?ts 7 = Some ts' \<and> rearranged 7 ?ts ts' \<and> full 7 ts' \<and> heap mem ts' 7"
  proof (rule Subir_heap)
    show "(7 :: nat) \<in> {1..7}" by simp
  next
    fix j :: nat assume j: "j \<in> {2..7}" "j \<noteq> 7"
    then have "key mem ?ts j = key mem (timers l) j" "key mem ?ts (j div 2) = key mem (timers l) (j div 2)"
      by (auto simp: key_def)
    then show "key mem ?ts (j div 2) \<le> key mem ?ts j" using l(6) full j by (simp add: heap_def)
  qed auto
  then obtain ts' where ts': "Subir mem ?ts 7 = Some ts'" "rearranged 7 ?ts ts'" by blast
  have new: "live ?ts = live (take 7 (timers l)) @ [Some p] @ live (drop (Suc 7) (timers l))"
    using live_update [OF n, of "Some p"] by simp
  have old: "live (timers l) = live (take 7 (timers l)) @ [Some q] @ live (drop (Suc 7) (timers l))"
    using live_split [OF n] q by simp
  have "armed \<lparr>timers = ts', tmr_count = 7\<rparr> = insert p (armed l - {q})"
    using l(5) p rearranged_live(1) [OF ts'(2)] unfolding armed_live new old by auto
  moreover have "insert_last mem p l = Some \<lparr>timers = ts', tmr_count = 7\<rparr>"
    using ts'(1) n full by (simp add: insert_last_def put_at_def Let_def)
  ultimately show "\<exists>l'. insert_last mem p l = Some l' \<and> armed l' = insert p (armed l - {q})" by blast
qed

section \<open>Examples\<close>

text \<open>Two armed timers; the callback 7 wants to be called again after ten ticks.\<close>

definition sample_timers :: timer_vector where
  "sample_timers =
     \<lparr>timer_mem = [\<lparr>func_cb = Some 8, timeout = 9, timer_state = TIMER_RUNNING\<rparr>,
                   \<lparr>func_cb = Some 7, timeout = 5, timer_state = TIMER_RUNNING\<rparr>,
                   unused, unused, unused, unused, unused, unused],
      current_list = \<lparr>timers = [None, Some 1, Some 0, None, None, None, None, None], tmr_count = 2\<rparr>,
      future_list = \<lparr>timers = [None, None, None, None, None, None, None, None], tmr_count = 0\<rparr>,
      handling_task = 1\<rparr>"

definition sample_callbacks :: callbacks where
  "sample_callbacks f v os = (if f = 7 then 10 else 0, v, os)"

lemma sample_armed:
  "armed (current_list sample_timers) = {0, 1}" "armed (future_list sample_timers) = {}"
  by (auto simp: sample_timers_def armed_def)

lemma all_less_8: "(\<forall>p < 8. P p) \<longleftrightarrow> P 0 \<and> P 1 \<and> P 2 \<and> P 3 \<and> P 4 \<and> P 5 \<and> P 6 \<and> P (7 :: nat)"
  by (auto simp: All_less_Suc eval_nat_numeral)

lemma sample_lists:
  "tmr_ok (timer_mem sample_timers) (current_list sample_timers)"
  "tmr_ok (timer_mem sample_timers) (future_list sample_timers)"
  by (simp_all add: tmr_ok_def sample_timers_def full_def live_def heap_def key_def all_less_8
      atLeastAtMost_insertL [symmetric] del: atLeastAtMost_insertL)

lemma sample_timers_ok: "timers_ok sample_timers"
  unfolding timers_ok_def sample_armed all_less_8
  by (simp add: sample_lists) (simp add: sample_timers_def unused_def)

lemma sample_quiet: "quiet sample_callbacks (\<lambda>f. if f = 7 then 10 else 0)"
  by (simp add: quiet_def sample_callbacks_def)

lemma sample_count: "armed_count sample_timers = 2"
  by (simp add: armed_count_def sample_armed)

lemma sample_small:
  "t \<le> 100 \<Longrightarrow> unat (OSTickCounter (two_tasks\<lparr>OSTickCounter := of_nat t\<rparr>)) +
     unat (if f = 7 then 10 else 0 :: u64) < 2 ^ 64"
  by (simp add: unat_of_nat)


lemma timer_task_early_turn_witness:
  "\<exists>r. BRTOSTimerTask_turn sample_callbacks 0 sample_timers (two_tasks\<lparr>OSTickCounter := of_nat 3\<rparr>) = Some r \<and>
     {0, 1} \<subseteq> set (fst r)"
proof -
  let ?os = "two_tasks\<lparr>OSTickCounter := of_nat 3\<rparr>"
  have first: "first_timer sample_timers = Some 1" "OSTickCounter ?os < timeout (timer 1 sample_timers)"
    by (simp_all add: first_timer_def at_def sample_timers_def)
  have count: "armed_count sample_timers \<le> 7" by (simp add: sample_count)
  obtain ran wake tmo' v' os' where
    "BRTOSTimerTask_turn sample_callbacks 0 sample_timers ?os = Some (ran, wake, tmo', v', os')"
    "armed (current_list sample_timers) \<subseteq> set ran"
    using timer_task_early_turn [OF sample_timers_ok count sample_quiet sample_small first, of 0] by auto
  then show ?thesis unfolding sample_armed by simp
qed

lemma OSTimerSet_arms_witness:
  "\<exists>p v' os'. OSTimerSet (Some 3) 4 sample_timers two_tasks = Some (OK, Some p, v', os') \<and>
     timer p v' = \<lparr>func_cb = Some 3, timeout = 10, timer_state = TIMER_RUNNING\<rparr>"
proof -
  have free: "\<exists>p < BRTOS_MAX_TIMER. timer_state (timer p sample_timers) = TIMER_NOT_USED"
    by (intro exI [of _ 2]) (simp add: sample_timers_def unused_def)
  have count: "armed_count sample_timers < 7" by (simp add: sample_count)
  have pos: "0 < (4 :: u64)" by simp
  have "stored (OSTickCounter two_tasks + 4) = 10"
    by (simp add: two_tasks_def stored_def beyond_def codes)
  then show ?thesis
    using OSTimerSet_arms [OF sample_timers_ok count free pos, of 3 two_tasks] by auto
qed


lemma OSTimerGet_remaining_witness:
  "\<exists>p v' os'. OSTimerSet (Some 3) 4 sample_timers two_tasks = Some (OK, Some p, v', os') \<and>
     unat (OSTimerGet (Some p) v' (two_tasks\<lparr>OSTickCounter := 9\<rparr>)) = 1"
proof -
  have free: "\<exists>p < BRTOS_MAX_TIMER. timer_state (timer p sample_timers) = TIMER_NOT_USED"
    by (intro exI [of _ 2]) (simp add: sample_timers_def unused_def)
  have count: "armed_count sample_timers < 7" by (simp add: sample_count)
  have pos: "0 < (4 :: u64)" by simp
  have tick: "OSTickCounter two_tasks = 6" by (simp add: two_tasks_def)
  obtain p v' os' where set: "OSTimerSet (Some 3) 4 sample_timers two_tasks = Some (OK, Some p, v', os')"
    using OSTimerSet_result [OF sample_timers_ok count free pos, of 3 two_tasks] by auto
  have "unat (OSTimerGet (Some p) v' (two_tasks\<lparr>OSTickCounter := 9\<rparr>)) = unat (4 :: u64) - 3"
    by (rule OSTimerGet_remaining [OF sample_timers_ok count pos _ set]) (simp_all add: tick codes)
  then show ?thesis using set by simp
qed

end
