(* ===== verification/Pcg.thy ===== *)
theory Pcg
  imports Prelude "HOL-Library.Monad_Syntax"
begin

text \<open>
  The random number generator of the stack, \<^verbatim>\<open>uNET/pcg-rand/pcg_basic.c\<close>: a linear congruential
  step on 64 bits whose output is a rotated 32-bit word, and the unbiased draw below a bound.
\<close>

record pcg32_random_t =
  rng_state :: u64
  rng_inc :: u64

definition pcg32_global :: pcg32_random_t where
  "pcg32_global = \<lparr>rng_state = 0x853c49e6748fea9b, rng_inc = 0xda3e39cb94b95bdb\<rparr>"

definition pcg32_state :: "pcg32_random_t \<Rightarrow> u64" where
  "pcg32_state rng = rng_state rng"

definition pcg32_output :: "u64 \<Rightarrow> u32" where
  "pcg32_output oldstate =
     (let xorshifted = ucast (drop_bit 27 (drop_bit 18 oldstate XOR oldstate)) :: u32;
          rot = ucast (drop_bit 59 oldstate) :: u32
      in drop_bit (unat rot) xorshifted OR push_bit (unat (- rot AND 31)) xorshifted)"

definition pcg32_random_r :: "pcg32_random_t \<Rightarrow> u32 \<times> pcg32_random_t" where
  "pcg32_random_r rng =
     (pcg32_output (rng_state rng),
      rng\<lparr>rng_state := rng_state rng * 6364136223846793005 + rng_inc rng\<rparr>)"

definition pcg32_srandom_r :: "u64 \<Rightarrow> u64 \<Rightarrow> pcg32_random_t \<Rightarrow> pcg32_random_t" where
  "pcg32_srandom_r initstate initseq rng =
     (let r1 = rng\<lparr>rng_state := 0, rng_inc := push_bit 1 initseq OR 1\<rparr>;
          r2 = snd (pcg32_random_r r1);
          r3 = r2\<lparr>rng_state := rng_state r2 + initstate\<rparr>
      in snd (pcg32_random_r r3))"

text \<open>
  Draws below the threshold are rejected, so that the accepted ones are a multiple of the bound.
  A bound of 0 is a division by zero, \<open>None\<close>, and so is a sequence that is rejected for ever.
\<close>

definition threshold :: "u32 \<Rightarrow> u32" where
  "threshold bound = - bound mod bound"

partial_function (option) bounded_loop ::
  "u32 \<Rightarrow> pcg32_random_t \<Rightarrow> (u32 \<times> pcg32_random_t) option" where
  "bounded_loop bound rng =
     (case pcg32_random_r rng of
        (r, rng1) \<Rightarrow> if r \<ge> threshold bound then Some (r mod bound, rng1) else bounded_loop bound rng1)"

definition pcg32_boundedrand_r :: "u32 \<Rightarrow> pcg32_random_t \<Rightarrow> (u32 \<times> pcg32_random_t) option" where
  "pcg32_boundedrand_r bound rng = (if bound = 0 then None else bounded_loop bound rng)"

section \<open>The output is a rotation\<close>

lemma rotr_shifts:
  fixes x :: u32 assumes "n < 32"
  shows "word_rotr n x = drop_bit n x OR push_bit ((32 - n) mod 32) x"
proof (rule bit_word_eqI)
  fix i assume "i < LENGTH(32)"
  then have i: "i < 32" by simp
  have rot: "bit (word_rotr n x) i \<longleftrightarrow> bit x ((i + n) mod 32)"
    using i by (simp add: bit_word_rotr_iff)
  have out: "\<not> bit x (i + n)" if "32 \<le> i + n"
    using that bit_imp_le_length [of x "i + n"] by auto
  show "bit (word_rotr n x) i \<longleftrightarrow> bit (drop_bit n x OR push_bit ((32 - n) mod 32) x) i"
  proof (cases "n = 0")
    case True
    then show ?thesis unfolding rot using i by (simp add: bit_or_iff)
  next
    case False
    then have m: "(32 - n) mod 32 = 32 - n" using assms by simp
    have or: "bit (drop_bit n x OR push_bit (32 - n) x) i \<longleftrightarrow>
        bit x (i + n) \<or> 32 - n \<le> i \<and> bit x (i - (32 - n))"
      using i by (simp add: bit_or_iff bit_drop_bit_eq bit_push_bit_iff add.commute)
    show ?thesis
    proof (cases "i + n < 32")
      case True
      then have "\<not> 32 - n \<le> i" by simp
      then show ?thesis unfolding rot m or using True by simp
    next
      case False
      then have "(i + n) mod 32 = i - (32 - n)" "32 - n \<le> i" using i assms by (simp_all add: mod_if)
      then show ?thesis unfolding rot m or using out False by simp
    qed
  qed
qed

lemma unat_less: "unat (x :: 'a::len word) < 2 ^ LENGTH('a)"
  by (rule unsigned_less)

lemma unat_uminus: "x \<noteq> 0 \<Longrightarrow> unat (- x :: u32) = 2 ^ 32 - unat x"
  using unat_sub_if' [of 0 x] by (simp add: unat_eq_zero)

lemma minus_mod_32: "unat (- r AND 31 :: u32) = (32 - unat r mod 32) mod 32"
proof -
  have "unat (- r AND 31 :: u32) = unat (- r) mod 32"
    using unat_and_mask [of "- r" 5] by (simp add: mask_eq_decr_exp)
  also have "\<dots> = (2 ^ 32 - unat r) mod 32"
  proof (cases "r = 0")
    case True
    then show ?thesis by simp
  next
    case False
    then show ?thesis by (simp add: unat_uminus)
  qed
  also have "\<dots> = (32 - unat r mod 32) mod 32"
  proof -
    have x: "unat r < 4294967296" using unat_less [of r] by simp
    have "4294967296 - unat r + 32 * (unat r div 32) = 32 * 134217727 + (32 - unat r mod 32)"
      using x mult_div_mod_eq [of 32 "unat r"] mod_less_divisor [of 32 "unat r"] by linarith
    moreover have "(4294967296 - unat r + 32 * (unat r div 32)) mod 32 = (4294967296 - unat r) mod 32"
      by (rule mod_mult_self2)
    moreover have "(32 * 134217727 + (32 - unat r mod 32)) mod 32 = (32 - unat r mod 32) mod 32"
      by (rule mod_mult_self4)
    ultimately show ?thesis by simp
  qed
  finally show ?thesis .
qed

lemma pcg32_output_rotr:
  "pcg32_output s = word_rotr (unat (drop_bit 59 s)) (ucast (drop_bit 27 (drop_bit 18 s XOR s)))"
proof -
  have r: "unat (drop_bit 59 s) < 32"
    using unat_less [of s] by (simp add: drop_bit_eq_div unat_div)
  then have u: "unat (ucast (drop_bit 59 s) :: u32) = unat (drop_bit 59 s)"
    by (simp add: unat_ucast_mod)
  show ?thesis
    unfolding pcg32_output_def Let_def minus_mod_32 u rotr_shifts [OF r]
    using r by simp
qed

section \<open>The bounded draw\<close>

lemma threshold_mod: "bound \<noteq> 0 \<Longrightarrow> unat (threshold bound) = 2 ^ 32 mod unat bound"
proof -
  assume b: "bound \<noteq> 0"
  have "unat (- bound) = 2 ^ 32 - unat bound"
    using b by (simp add: unat_uminus)
  moreover have "unat bound \<le> 2 ^ 32" using unat_less [of bound] by simp
  ultimately show ?thesis
    by (simp add: threshold_def unat_mod le_mod_geq)
qed

lemma bounded_loop_less:
  "bounded_loop bound rng = Some (r, rng') \<Longrightarrow> bound \<noteq> 0 \<Longrightarrow> r < bound"
proof -
  have "bounded_loop bound rng = Some y \<Longrightarrow> bound \<noteq> 0 \<longrightarrow> fst y < bound" for y
    by (rule bounded_loop.raw_induct [where P = "\<lambda>bound rng y. bound \<noteq> 0 \<longrightarrow> fst y < bound"])
      (auto simp: word_mod_less_divisor word_neq_0_conv split: prod.splits if_splits)
  then show "bounded_loop bound rng = Some (r, rng') \<Longrightarrow> bound \<noteq> 0 \<Longrightarrow> r < bound" by fastforce
qed

text \<open>In an interval whose length is a multiple of \<open>b\<close> every residue occurs equally often.\<close>

lemma residues_even:
  fixes b :: nat assumes "k < b"
  shows "card {x \<in> {t..<t + b * q}. x mod b = k} = q"
proof (induction q)
  case 0
  then show ?case by simp
next
  case (Suc q)
  let ?s = "t + b * q"
  define x where "x = ?s + (k + b - ?s mod b) mod b"
  have b: "0 < b" using assms by simp
  have xm: "x mod b = k"
  proof -
    have "x mod b = (?s mod b + (k + b - ?s mod b)) mod b"
      by (metis mod_add_left_eq mod_add_right_eq x_def)
    also have "?s mod b + (k + b - ?s mod b) = k + b"
      using mod_less_divisor [OF b, of ?s] by simp
    finally show ?thesis using assms by simp
  qed
  have xr: "x \<in> {?s..<?s + b}" using b by (simp add: x_def)
  have "{y \<in> {?s..<?s + b}. y mod b = k} = {x}"
  proof (rule set_eqI)
    fix y
    show "y \<in> {y \<in> {?s..<?s + b}. y mod b = k} \<longleftrightarrow> y \<in> {x}"
    proof
      assume "y \<in> {y \<in> {?s..<?s + b}. y mod b = k}"
      then have y: "?s \<le> y" "y < ?s + b" "y mod b = x mod b" using xm by auto
      have "y = x"
      proof (rule ccontr)
        assume "y \<noteq> x"
        then consider "x < y" | "y < x" by linarith
        then show False
        proof cases
          case 1
          then have "b dvd y - x" using y(3) by (metis mod_eq_dvd_iff_nat less_imp_le)
          moreover have "y - x < b" "0 < y - x" using 1 y xr by auto
          ultimately show False by (auto dest: nat_dvd_not_less)
        next
          case 2
          then have "b dvd x - y" using y(3) by (metis mod_eq_dvd_iff_nat less_imp_le)
          moreover have "x - y < b" "0 < x - y" using 2 y xr by auto
          ultimately show False by (auto dest: nat_dvd_not_less)
        qed
      qed
      then show "y \<in> {x}" by simp
    qed (use xm xr in auto)
  qed
  moreover have "{y \<in> {t..<t + b * Suc q}. y mod b = k} =
      {y \<in> {t..<?s}. y mod b = k} \<union> {y \<in> {?s..<?s + b}. y mod b = k}"
    by auto
  moreover have "card ({y \<in> {t..<?s}. y mod b = k} \<union> {y \<in> {?s..<?s + b}. y mod b = k}) =
      card {y \<in> {t..<?s}. y mod b = k} + card {y \<in> {?s..<?s + b}. y mod b = k}"
    by (rule card_Un_disjoint) auto
  ultimately show ?case
    using Suc by simp
qed

lemma accepted_even:
  assumes "bound \<noteq> 0" and "k < bound"
  shows "card {w :: u32. threshold bound \<le> w \<and> w mod bound = k} = 2 ^ 32 div unat bound"
proof -
  let ?b = "unat bound" and ?t = "unat (threshold bound)"
  have end_: "?t + ?b * (2 ^ 32 div ?b) = 2 ^ 32"
    using threshold_mod [OF assms(1)] by simp
  have img: "unat ` {w :: u32. threshold bound \<le> w \<and> w mod bound = k} =
      {x \<in> {?t..<2 ^ 32}. x mod ?b = unat k}"
  proof (rule set_eqI)
    fix x
    show "x \<in> unat ` {w :: u32. threshold bound \<le> w \<and> w mod bound = k} \<longleftrightarrow>
        x \<in> {x \<in> {?t..<2 ^ 32}. x mod ?b = unat k}"
    proof
      assume "x \<in> unat ` {w :: u32. threshold bound \<le> w \<and> w mod bound = k}"
      then show "x \<in> {x \<in> {?t..<2 ^ 32}. x mod ?b = unat k}"
        using unat_less [where ?'a = 32] by (auto simp: word_le_nat_alt unat_mod)
    next
      assume x: "x \<in> {x \<in> {?t..<2 ^ 32}. x mod ?b = unat k}"
      define w where "w = (of_nat x :: u32)"
      have w: "unat w = x" using x by (simp add: w_def unat_of_nat)
      have "threshold bound \<le> w" using x w by (simp add: word_le_nat_alt)
      moreover have "w mod bound = k" using x w by (simp add: word_unat_eq_iff unat_mod)
      ultimately show "x \<in> unat ` {w :: u32. threshold bound \<le> w \<and> w mod bound = k}"
        using w by (intro image_eqI [of _ _ w]) simp_all
    qed
  qed
  have "inj_on unat {w :: u32. threshold bound \<le> w \<and> w mod bound = k}"
    by (simp add: inj_on_def word_unat_eq_iff)
  from card_image [OF this]
  have "card {w :: u32. threshold bound \<le> w \<and> w mod bound = k} =
      card {x \<in> {?t..<2 ^ 32}. x mod ?b = unat k}"
    unfolding img by (rule sym)
  moreover have "unat k < ?b" using assms(2) by (simp add: word_less_nat_alt)
  ultimately show ?thesis
    using residues_even [of "unat k" ?b ?t "2 ^ 32 div ?b"] unfolding end_ by (simp only:)
qed

text \<open>
  The bounded draw has no bias: a result is below the bound, and each result comes from
  the same number of accepted 32-bit words.
\<close>

theorem pcg32_boundedrand_unbiased:
  assumes "bound \<noteq> 0"
  shows "(pcg32_boundedrand_r bound rng = Some (r, rng') \<longrightarrow> r < bound) \<and>
    (\<forall>k < bound. card {w :: u32. threshold bound \<le> w \<and> w mod bound = k} = 2 ^ 32 div unat bound)"
  using bounded_loop_less [of bound rng r rng'] accepted_even [OF assms] assms by (simp add: pcg32_boundedrand_r_def)

lemma pcg32_boundedrand_unbiased_witness:
  "card {w :: u32. threshold 3 \<le> w \<and> w mod 3 = 1} = 1431655765"
proof -
  have "\<forall>k < (3 :: u32). card {w :: u32. threshold 3 \<le> w \<and> w mod 3 = k} = 2 ^ 32 div unat (3 :: u32)"
    by (rule conjunct2 [OF pcg32_boundedrand_unbiased [of 3 pcg32_global 0 pcg32_global]]) simp
  then have "card {w :: u32. threshold 3 \<le> w \<and> w mod 3 = 1} = 2 ^ 32 div unat (3 :: u32)"
    by (rule allE [of _ 1]) (simp only: word_less_nat_alt, simp)
  then show ?thesis by simp
qed

end
