(* ===== verification/Trickle.thy ===== *)
theory Trickle
  imports Pcg
begin

text \<open>
  The trickle timers of the stack, \<^verbatim>\<open>uNET/trickle.c\<close>: intervals which grow up to a maximum, and a
  random time in the second half of each.  Times are ticks in 64 bits.
\<close>

record trickle_t =
  interval :: u64
  fire_time :: u64
  init_interval :: u64
  complete_interval :: u64
  max_interval :: u64
  interval_scaling :: u8

abbreviation (input) MAX_SCALING_INTERVAL :: u8 where "MAX_SCALING_INTERVAL \<equiv> 8"

section \<open>Opening\<close>

partial_function (option) seed_loop :: "nat \<Rightarrow> u16 \<Rightarrow> u16 option" where
  "seed_loop i seed =
     (if i < 16 \<or> seed = 0 \<or> seed = 0x8003
      then seed_loop (i + 1) (push_bit 1 (push_bit 1 seed OR of_nat i))
      else Some seed)"

definition form_seed :: "u16 \<Rightarrow> u16 option" where
  "form_seed seed = seed_loop 0 seed"

text \<open>
  \<open>addr\<close> is the built-in short address of the node.  The first timer that is opened seeds the
  generator; the pair is the global \<open>trickle_seed\<close> and the generator.
\<close>

definition seed_generator ::
  "u8 \<times> u8 \<Rightarrow> u16 \<times> pcg32_random_t \<Rightarrow> (u16 \<times> pcg32_random_t) option" where
  "seed_generator addr g =
     (let (trickle_seed, rng) = g;
          a = push_bit 1 (ucast (fst addr)) OR ucast (snd addr) :: u16 in
      if pcg32_state rng = 0x853c49e6748fea9b then do {
        seed \<leftarrow> (if trickle_seed = 0 then form_seed a else Some trickle_seed);
        Some (seed, pcg32_srandom_r (ucast seed) (ucast a) rng)
      } else Some g)"

definition init_trickle :: "u64 \<Rightarrow> u64 \<Rightarrow> trickle_t" where
  "init_trickle i m = \<lparr>interval = i, fire_time = 0, init_interval = i, complete_interval = 0,
     max_interval = m, interval_scaling = 0\<rparr>"

definition open_trickle ::
  "u8 \<times> u8 \<Rightarrow> u64 \<Rightarrow> u64 \<Rightarrow> u16 \<times> pcg32_random_t \<Rightarrow> (trickle_t \<times> u16 \<times> pcg32_random_t) option" where
  "open_trickle addr i m g = do { g1 \<leftarrow> seed_generator addr g; Some (init_trickle i m, g1) }"

section \<open>Running\<close>

definition grow :: "trickle_t \<Rightarrow> trickle_t" where
  "grow timer =
     (let t1 = (if interval timer < drop_bit 1 (max_interval timer)
                then timer\<lparr>interval := push_bit (unat (interval_scaling timer)) (interval timer)\<rparr>
                else timer\<lparr>interval := max_interval timer\<rparr>)
      in if interval_scaling t1 < MAX_SCALING_INTERVAL then
           (let t2 = t1\<lparr>interval_scaling := interval_scaling t1 + 1\<rparr>
            in if interval_scaling t2 > 1 then t2\<lparr>interval_scaling := 1\<rparr> else t2)
         else t1)"

text \<open>\<open>draw\<close> is the random number; dividing by an empty half interval is \<open>None\<close>.\<close>

definition place :: "u32 \<Rightarrow> trickle_t \<Rightarrow> trickle_t option" where
  "place draw timer =
     (let half = drop_bit 1 (interval timer) in
      if half = 0 then None
      else
        (let temp = half + ucast draw mod half
         in Some (timer\<lparr>fire_time := temp + complete_interval timer,
                        complete_interval := interval timer - temp\<rparr>)))"

definition run_trickle :: "pcg32_random_t \<Rightarrow> trickle_t \<Rightarrow> (trickle_t \<times> pcg32_random_t) option" where
  "run_trickle rng timer = do {
     let t1 = grow timer;
     (draw, rng1) \<leftarrow> pcg32_boundedrand_r (ucast (max_interval t1)) rng;
     t2 \<leftarrow> place draw t1;
     Some (t2, rng1)
   }"

definition reset_trickle :: "trickle_t \<Rightarrow> trickle_t" where
  "reset_trickle timer = timer\<lparr>interval := init_interval timer, complete_interval := 0\<rparr>"

definition is_trickle_reseted :: "trickle_t \<Rightarrow> bool" where
  "is_trickle_reseted timer = (interval timer = init_interval timer)"

section \<open>The seed\<close>

lemma seed_loop_step:
  assumes "i < 16"
  shows "seed_loop i seed = seed_loop (Suc i) (push_bit 2 seed OR push_bit 1 (of_nat i))"
proof -
  have "push_bit 1 (push_bit 1 seed OR of_nat i) = push_bit 2 seed OR push_bit 1 (of_nat i)"
    by (simp only: push_bit_or push_bit_push_bit one_add_one)
  then show ?thesis
    using assms by (subst seed_loop.simps) (simp only: Suc_eq_plus1 if_True simp_thms)
qed

lemma push_bit_16: "16 \<le> n \<Longrightarrow> push_bit n (w :: u16) = 0"
  by (rule bit_word_eqI) (simp add: bit_push_bit_iff)

text \<open>Each step shifts the seed by two places, so after 16 steps none of its bits is left.\<close>

lemma seed_loop_forgets:
  "i + j = 16 \<Longrightarrow> push_bit (2 * j) s = push_bit (2 * j) s' \<Longrightarrow> seed_loop i s = seed_loop i s'"
proof (induction j arbitrary: i s s')
  case 0
  then show ?case by simp
next
  case (Suc j)
  have "push_bit (2 * j) (push_bit 2 x OR c) = push_bit (2 * Suc j) x OR push_bit (2 * j) c" for x c :: u16
    by (simp add: push_bit_or push_bit_push_bit)
  then have "push_bit (2 * j) (push_bit 2 s OR push_bit 1 (of_nat i)) =
      push_bit (2 * j) (push_bit 2 s' OR push_bit 1 (of_nat i))"
    using Suc.prems(2) by simp
  moreover have "Suc i + j = 16" "i < 16" using Suc.prems(1) by simp_all
  ultimately show ?case
    using Suc.IH [of "Suc i"] seed_loop_step [of i s] seed_loop_step [of i s'] by metis
qed

lemma seed_loop_0: "seed_loop 0 0 = Some 0x77FE"
  by (simp add: seed_loop.simps)

lemma form_seed_value: "form_seed seed = Some 0x77FE"
proof -
  have "seed_loop 0 seed = seed_loop 0 0"
    by (rule seed_loop_forgets [of 0 16]) (simp_all add: push_bit_16)
  then show ?thesis by (simp add: form_seed_def seed_loop_0)
qed

text \<open>
  The seed does not depend on the address of the node it is formed from: every node
  gets the same one.
\<close>

theorem form_seed_constant: "form_seed seed = Some 0x77FE"
  by (rule form_seed_value)

section \<open>The times of a timer\<close>

text \<open>The intervals as natural numbers, from the first one on.\<close>

fun intervals :: "nat \<Rightarrow> nat \<Rightarrow> nat \<Rightarrow> nat" where
  "intervals m x 0 = x"
| "intervals m x (Suc k) = intervals m (if x < m div 2 then 2 * x else m) k"

text \<open>The states after each of several runs, for given random numbers.\<close>

fun runs :: "u32 list \<Rightarrow> trickle_t \<Rightarrow> trickle_t list option" where
  "runs [] timer = Some []"
| "runs (d # ds) timer = do { t1 \<leftarrow> place d (grow timer); ts \<leftarrow> runs ds t1; Some (t1 # ts) }"

definition growing :: "nat \<Rightarrow> nat \<Rightarrow> trickle_t \<Rightarrow> bool" where
  "growing m x timer \<longleftrightarrow>
     unat (max_interval timer) = m \<and> unat (interval (grow timer)) = x \<and>
     interval_scaling (grow timer) = 1"

lemma grow_sel [simp]:
  "max_interval (grow timer) = max_interval timer"
  "complete_interval (grow timer) = complete_interval timer"
  by (simp_all add: grow_def Let_def)

lemma half_unat: "unat (drop_bit 1 (w :: u64)) = unat w div 2" "unat (drop_bit (Suc 0) w) = unat w div 2"
  by (simp_all add: drop_bit_eq_div unat_div)

lemma place_step:
  assumes g: "growing m x timer" and x: "2 \<le> x" "x \<le> m" and m: "m < 2 ^ 62"
    and c: "unat (complete_interval timer) < 2 ^ 62"
  shows "\<exists>t1 temp. place draw (grow timer) = Some t1 \<and> x div 2 \<le> temp \<and> temp < x \<and>
    unat (fire_time t1) = temp + unat (complete_interval timer) \<and>
    unat (complete_interval t1) = x - temp \<and> unat (interval t1) = x \<and>
    growing m (if x < m div 2 then 2 * x else m) t1"
proof -
  let ?t = "grow timer" and ?half = "drop_bit 1 (interval (grow timer))"
  have sel: "unat (max_interval timer) = m" "unat (interval ?t) = x" "interval_scaling ?t = 1"
    using g by (simp_all add: growing_def)
  have half: "unat ?half = x div 2" using sel(2) half_unat by simp
  have h0: "?half \<noteq> 0" using half x(1) by auto
  define r where "r = unat (ucast draw mod ?half :: u64)"
  have r: "r < x div 2"
    using x(1) unfolding r_def unat_mod half by simp
  define temp where "temp = x div 2 + r"
  have temp: "x div 2 \<le> temp" "temp < x" using r by (simp_all add: temp_def)
  let ?w = "?half + ucast draw mod ?half"
  have w: "unat ?w = temp"
    using half r temp(2) x m by (simp add: unat_word_ariths temp_def r_def)
  define t1 where "t1 = ?t\<lparr>fire_time := ?w + complete_interval ?t, complete_interval := interval ?t - ?w\<rparr>"
  have place: "place draw ?t = Some t1"
    using h0 by (simp add: place_def t1_def Let_def)
  have fire: "unat (fire_time t1) = temp + unat (complete_interval timer)"
    using w temp(2) x(2) m c by (simp add: t1_def unat_word_ariths)
  have "?w \<le> interval ?t" using w sel(2) temp(2) by (simp add: word_le_nat_alt)
  then have comp: "unat (complete_interval t1) = x - temp"
    using w sel(2) by (simp add: t1_def unat_sub)
  have int: "unat (interval t1) = x" and mx: "unat (max_interval t1) = m" and sc: "interval_scaling t1 = 1"
    using sel by (simp_all add: t1_def)
  have lt: "interval t1 < drop_bit 1 (max_interval t1) \<longleftrightarrow> x < m div 2"
    using int mx by (simp add: word_less_nat_alt half_unat)
  have dbl: "unat (push_bit 1 (interval t1)) = 2 * x" if "x < m div 2"
    using int that m by (simp add: push_bit_eq_mult unat_word_ariths)
  have "growing m (if x < m div 2 then 2 * x else m) t1"
    using lt dbl mx sc by (simp add: growing_def grow_def Let_def)
  then show ?thesis using place temp fire comp int by blast
qed

lemma interval_next: "2 \<le> x \<Longrightarrow> x \<le> m \<Longrightarrow> 2 \<le> (if x < m div 2 then 2 * x else m) \<and> (if x < m div 2 then 2 * x else m) \<le> m"
  for x m :: nat
  by auto

lemma runs_from:
  assumes "growing m x timer" and "2 \<le> x" "x \<le> m" and "m < 2 ^ 62"
    and "unat (complete_interval timer) < 2 ^ 62"
  shows "\<exists>ts. runs ds timer = Some ts \<and> length ts = length ds \<and>
    (\<forall>k < length ds. unat (interval (ts ! k)) = intervals m x k \<and>
       unat (complete_interval timer) + (\<Sum>i<k. intervals m x i) + intervals m x k div 2
         \<le> (\<Sum>i<Suc k. unat (fire_time (ts ! i))) \<and>
       (\<Sum>i<Suc k. unat (fire_time (ts ! i)))
         < unat (complete_interval timer) + (\<Sum>i<Suc k. intervals m x i))"
  using assms
proof (induction ds arbitrary: timer x)
  case Nil
  then show ?case by simp
next
  case (Cons d ds)
  let ?c = "unat (complete_interval timer)" and ?y = "if x < m div 2 then 2 * x else m"
  obtain t1 temp where t1: "place d (grow timer) = Some t1" "x div 2 \<le> temp" "temp < x"
    "unat (fire_time t1) = temp + ?c" "unat (complete_interval t1) = x - temp" "unat (interval t1) = x"
    "growing m ?y t1"
    using place_step [OF Cons.prems, of d] by blast
  have c1: "unat (complete_interval t1) < 2 ^ 62" using t1(5) Cons.prems(3,4) by simp
  note y = interval_next [OF Cons.prems(2,3)]
  obtain ts where ts: "runs ds t1 = Some ts" "length ts = length ds"
    "\<And>k. k < length ds \<Longrightarrow> unat (interval (ts ! k)) = intervals m ?y k \<and>
       (x - temp) + (\<Sum>i<k. intervals m ?y i) + intervals m ?y k div 2
         \<le> (\<Sum>i<Suc k. unat (fire_time (ts ! i))) \<and>
       (\<Sum>i<Suc k. unat (fire_time (ts ! i))) < (x - temp) + (\<Sum>i<Suc k. intervals m ?y i)"
    using Cons.IH [OF t1(7) _ _ Cons.prems(4) c1] y unfolding t1(5) by blast
  have fires: "(\<Sum>i<Suc k. unat (fire_time ((t1 # ts) ! i))) =
      temp + ?c + (\<Sum>i<k. unat (fire_time (ts ! i)))" for k
    unfolding sum.lessThan_Suc_shift using t1(4) by simp
  have ints: "(\<Sum>i<Suc k. intervals m x i) = x + (\<Sum>i<k. intervals m ?y i)" for k
    unfolding sum.lessThan_Suc_shift by simp
  have "unat (interval ((t1 # ts) ! k)) = intervals m x k \<and>
      ?c + (\<Sum>i<k. intervals m x i) + intervals m x k div 2
        \<le> (\<Sum>i<Suc k. unat (fire_time ((t1 # ts) ! i))) \<and>
      (\<Sum>i<Suc k. unat (fire_time ((t1 # ts) ! i))) < ?c + (\<Sum>i<Suc k. intervals m x i)"
    if k: "k < Suc (length ds)" for k
  proof (cases k)
    case 0
    then show ?thesis using t1 by (simp add: fires ints)
  next
    case (Suc j)
    then have j: "j < length ds" using k by simp
    have e: "intervals m x (Suc j) = intervals m ?y j" and n: "(t1 # ts) ! Suc j = ts ! j"
      and x: "x - temp + temp = x" using t1(3) by simp_all
    note h = ts(3) [OF j]
    show ?thesis
      unfolding fires ints Suc e n
    proof (intro conjI)
      show "unat (interval (ts ! j)) = intervals m ?y j" using h by simp
      show "?c + (x + (\<Sum>i<j. intervals m ?y i)) + intervals m ?y j div 2
          \<le> temp + ?c + (\<Sum>i<Suc j. unat (fire_time (ts ! i)))"
        using h x by linarith
      show "temp + ?c + (\<Sum>i<Suc j. unat (fire_time (ts ! i)))
          < ?c + (x + (\<Sum>i<Suc j. intervals m ?y i))"
        using h x by linarith
    qed
  qed
  then show ?case
    using t1(1) ts(1,2) by (intro exI [of _ "t1 # ts"]) simp
qed



text \<open>
  A reset keeps the scaling, so the first interval after it is twice the initial one; and a
  timer of maximum 0, as the coordinator opens one, divides by zero.
\<close>

lemma reset_doubles:
  assumes "growing m x timer" and "place draw (grow timer) = Some t1"
    and "init_interval t1 < drop_bit 1 (max_interval t1)"
  shows "interval (grow (reset_trickle t1)) = 2 * init_interval t1"
proof -
  have "interval_scaling t1 = 1"
    using assms(1,2) by (auto simp: growing_def place_def Let_def split: if_splits)
  then show ?thesis
    using assms(3) by (simp add: grow_def reset_trickle_def Let_def)
qed

lemma run_trickle_zero: "run_trickle rng (init_trickle 0 0) = None"
  by (simp add: run_trickle_def pcg32_boundedrand_r_def init_trickle_def Let_def)

end
