(* ===== verification/Transport.thy ===== *)
theory Transport
  imports Router Semaphore
begin

text \<open>
  The transport layer, \<^verbatim>\<open>uNET/transport.c\<close>: the doubly linked list of servers and clients, the
  delivery of a packet to the one that listens on its port, \<open>unet_recv\<close> and \<open>unet_send\<close>.
  It is where the stack meets the kernel: the state is that of the stack (\<open>net\<close>) together with
  that of the kernel (\<open>os\<close>), and an endpoint is woken through a semaphore of the kernel.

  A pointer to an endpoint is its index, NULL is \<open>None\<close>; the pointer \<open>packet\<close> of an
  endpoint always is the start of the payload in one of the two packet buffers, so it is the
  name of the buffer.
\<close>

section \<open>State\<close>

datatype buffer = Up_Buffer | Down_Buffer

record endpoint =
  src_port :: u8
  dst_port :: u8
  payload_ptr :: "buffer option"
  payload_size :: u8
  dest_address :: "u8 list"
  sender_address :: "u8 list"
  sender_port :: u8
  wake_up_sem :: "nat option"
  tp_next :: "nat option"
  tp_previous :: "nat option"

record stack =
  endpoints :: "endpoint list"
  unet_tp_head :: "nat option"
  unet_tp_tail :: "nat option"
  App_Callback :: "nat option"
  last_transmition_time :: u64
  the_net :: net
  kernel :: os

abbreviation endpoint :: "nat \<Rightarrow> stack \<Rightarrow> endpoint" where
  "endpoint p st \<equiv> endpoints st ! p"

definition upd_endpoint :: "nat \<Rightarrow> (endpoint \<Rightarrow> endpoint) \<Rightarrow> stack \<Rightarrow> stack" where
  "upd_endpoint p f st = st\<lparr>endpoints := (endpoints st)[p := f (endpoints st ! p)]\<rparr>"

definition the_buffer :: "buffer \<Rightarrow> stack \<Rightarrow> packet" where
  "the_buffer b st = (case b of Up_Buffer \<Rightarrow> packet_up (the_net st) | Down_Buffer \<Rightarrow> packet_down (the_net st))"

definition set_buffer :: "buffer \<Rightarrow> packet \<Rightarrow> stack \<Rightarrow> stack" where
  "set_buffer b p st = st\<lparr>the_net := (case b of Up_Buffer \<Rightarrow> (the_net st)\<lparr>packet_up := p\<rparr>
                                               | Down_Buffer \<Rightarrow> (the_net st)\<lparr>packet_down := p\<rparr>)\<rparr>"

section \<open>The list of endpoints\<close>

definition IncludeServerClient :: "nat \<Rightarrow> stack \<Rightarrow> stack" where
  "IncludeServerClient p st =
     (case unet_tp_tail st of
        Some t \<Rightarrow>
          (let s1 = upd_endpoint t (\<lambda>e. e\<lparr>tp_next := Some p\<rparr>) st;
               s2 = upd_endpoint p (\<lambda>e. e\<lparr>tp_previous := unet_tp_tail s1\<rparr>) s1;
               s3 = s2\<lparr>unet_tp_tail := Some p\<rparr>
           in upd_endpoint p (\<lambda>e. e\<lparr>tp_next := None\<rparr>) s3)
      | None \<Rightarrow>
          (let s1 = st\<lparr>unet_tp_tail := Some p, unet_tp_head := Some p\<rparr>
           in upd_endpoint p (\<lambda>e. e\<lparr>tp_next := None, tp_previous := None\<rparr>) s1))"

definition RemoveServerClient :: "nat \<Rightarrow> stack \<Rightarrow> stack option" where
  "RemoveServerClient p st =
     (if Some p = unet_tp_head st then
        if Some p = unet_tp_tail st then Some (st\<lparr>unet_tp_head := None, unet_tp_tail := None\<rparr>)
        else do {
          n \<leftarrow> tp_next (endpoint p st);
          Some (upd_endpoint n (\<lambda>e. e\<lparr>tp_previous := None\<rparr>) (st\<lparr>unet_tp_head := Some n\<rparr>))
        }
      else if Some p = unet_tp_tail st then do {
        q \<leftarrow> tp_previous (endpoint p st);
        Some (upd_endpoint q (\<lambda>e. e\<lparr>tp_next := None\<rparr>) (st\<lparr>unet_tp_tail := Some q\<rparr>))
      }
      else do {
        n \<leftarrow> tp_next (endpoint p st);
        let s1 = upd_endpoint n (\<lambda>e. e\<lparr>tp_previous := tp_previous (endpoint p st)\<rparr>) st;
        q \<leftarrow> tp_previous (endpoint p s1);
        Some (upd_endpoint q (\<lambda>e. e\<lparr>tp_next := tp_next (endpoint p s1)\<rparr>) s1)
      })"

text \<open>\<open>unet_listen\<close> and \<open>unet_connect\<close> have the same body; a failed creation leaves the pointer.\<close>

definition unet_listen :: "nat \<Rightarrow> stack \<Rightarrow> stack" where
  "unet_listen server st =
     (case OSSemCreate 0 (kernel st) of
        (_, s, os1) \<Rightarrow>
          IncludeServerClient server
            (upd_endpoint server (\<lambda>e. case s of None \<Rightarrow> e | Some _ \<Rightarrow> e\<lparr>wake_up_sem := s\<rparr>) (st\<lparr>kernel := os1\<rparr>)))"

definition unet_connect :: "nat \<Rightarrow> stack \<Rightarrow> stack" where
  "unet_connect client st = unet_listen client st"

definition unet_close :: "nat \<Rightarrow> stack \<Rightarrow> stack option" where
  "unet_close p st = do {
     s1 \<leftarrow> RemoveServerClient p st;
     s \<leftarrow> wake_up_sem (endpoint p s1);
     let (r, os1) = OSSemDelete s (kernel s1);
     let s2 = s1\<lparr>kernel := os1\<rparr>;
     Some (if r = DELETE_EVENT_OK then upd_endpoint p (\<lambda>e. e\<lparr>wake_up_sem := None\<rparr>) s2 else s2)
   }"

section \<open>Delivery and reception\<close>

definition post_sem :: "nat option \<Rightarrow> stack \<Rightarrow> stack option" where
  "post_sem s st = (case s of None \<Rightarrow> None
                    | Some i \<Rightarrow> Some (st\<lparr>kernel := snd (OSSemPost i (kernel st))\<rparr>))"

definition hand_over :: "buffer \<Rightarrow> nat \<Rightarrow> stack \<Rightarrow> stack option" where
  "hand_over b c st =
     (let r = the_buffer b st;
          s1 = upd_endpoint c (\<lambda>e. e\<lparr>payload_ptr := Some b, payload_size := byte r UNET_APP_PAYLOAD_LEN,
                 sender_port := byte r UNET_SOURCE_PORT, sender_address := addr64_at UNET_SRC_64 r\<rparr>) st
      in do {
        s2 \<leftarrow> post_sem (wake_up_sem (endpoint c s1)) s1;
        (case App_Callback s2 of None \<Rightarrow> Some s2 | Some _ \<Rightarrow> post_sem (App_Callback s2) s2)
      })"

partial_function (option) deliver_loop :: "buffer \<Rightarrow> nat option \<Rightarrow> stack \<Rightarrow> stack option" where
  "deliver_loop b server_client st =
     (case server_client of
        None \<Rightarrow> Some st
      | Some c \<Rightarrow>
          if src_port (endpoint c st) = byte (the_buffer b st) UNET_DEST_PORT then hand_over b c st
          else deliver_loop b (tp_next (endpoint c st)) st)"

definition deliver :: "buffer \<Rightarrow> stack \<Rightarrow> stack option" where
  "deliver b st =
     (if byte (the_buffer b st) UNET_NEXT_HEADER = NEXT_HEADER_UNET_APP
      then deliver_loop b (unet_tp_head st) (st\<lparr>the_net := NODESTAT_UPDATE netapprx (the_net st)\<rparr>)
      else Some st)"

text \<open>
  The copy out of the packet buffer; the application's buffer is the result.  A size that
  reaches beyond the packet buffer is an access outside it.
\<close>

definition copy_payload :: "nat \<Rightarrow> stack \<Rightarrow> u8 list option" where
  "copy_payload c st =
     (case payload_ptr (endpoint c st) of
        None \<Rightarrow> None
      | Some b \<Rightarrow>
          (let n = unat (payload_size (endpoint c st)) in
           if UNET_APP_HEADER_START + n \<le> MAX_PACKET_SIZE
           then Some (take n (drop UNET_APP_HEADER_START (bytes (the_buffer b st))))
           else None))"

definition unet_recv :: "nat \<Rightarrow> u64 \<Rightarrow> stack \<Rightarrow> ((u8 \<times> u8 list) call \<times> stack) option" where
  "unet_recv c timeout st = do {
     s \<leftarrow> wake_up_sem (endpoint c st);
     let (r, os1) = OSSemPend s timeout (kernel st);
     let st1 = st\<lparr>kernel := os1\<rparr>;
     (case r of
        Suspended \<Rightarrow> Some (Suspended, st1)
      | Return x \<Rightarrow>
          if x = OK then do { buf \<leftarrow> copy_payload c st1; Some (Return (x, buf), st1) }
          else Some (Return (x, []), st1))
   }"

definition unet_recv_resume :: "nat \<Rightarrow> nat \<Rightarrow> u64 \<Rightarrow> stack \<Rightarrow> (u8 \<times> u8 list \<times> stack) option" where
  "unet_recv_resume c iPriority timeout st = do {
     s \<leftarrow> wake_up_sem (endpoint c st);
     (x, os1) \<leftarrow> OSSemPend_resume s iPriority timeout (kernel st);
     let st1 = st\<lparr>kernel := os1\<rparr>;
     if x = OK then do { buf \<leftarrow> copy_payload c st1; Some (x, buf, st1) } else Some (x, [], st1)
   }"

section \<open>Sending\<close>

abbreviation (input) MAX_TRANSP_TIME :: u16 where "MAX_TRANSP_TIME \<equiv> 1000"

definition retry_time :: "u16 \<Rightarrow> u16" where
  "retry_time ret_time =
     (let t = (if ret_time = 0 then 10 else ret_time) in if t > MAX_TRANSP_TIME then MAX_TRANSP_TIME else t)"

definition ret_limit :: "u16 \<Rightarrow> nat" where
  "ret_limit ret_time = unat (MAX_TRANSP_TIME div retry_time ret_time)"

definition acquire :: "buffer \<Rightarrow> stack \<Rightarrow> bool \<times> stack" where
  "acquire b st =
     (case (case b of Up_Buffer \<Rightarrow> packet_acquire_up (the_buffer b st)
                    | Down_Buffer \<Rightarrow> packet_acquire_down (the_buffer b st)) of
        (access, p) \<Rightarrow> (access \<noteq> PACKET_ACCESS_DENIED, set_buffer b p st))"

definition release :: "buffer \<Rightarrow> stack \<Rightarrow> stack" where
  "release b st =
     set_buffer b (case b of Up_Buffer \<Rightarrow> packet_release_up (the_buffer b st)
                           | Down_Buffer \<Rightarrow> packet_release_down (the_buffer b st)) st"

text \<open>
  \<open>wait k\<close> is what the rest of the system does while the sender sleeps for the \<open>k\<close>-th time; the
  loop ends with the buffer or after \<open>limit\<close> attempts.
\<close>

fun acquire_loop :: "(nat \<Rightarrow> stack \<Rightarrow> stack) \<Rightarrow> buffer \<Rightarrow> nat \<Rightarrow> nat \<Rightarrow> stack \<Rightarrow> bool \<times> stack" where
  "acquire_loop wait b k 0 st = (False, st)"
| "acquire_loop wait b k (Suc n) st =
     (case acquire b st of
        (True, s1) \<Rightarrow> (True, s1)
      | (False, s1) \<Rightarrow> acquire_loop wait b (Suc k) n (wait k s1))"

definition fill_packet :: "endpoint \<Rightarrow> u8 list \<Rightarrow> u8 \<Rightarrow> packet \<Rightarrow> packet option" where
  "fill_packet e buffer len p =
     (if UNET_APP_HEADER_START + unat len \<le> MAX_PACKET_SIZE then
        (let p1 = put UNET_SOURCE_PORT (src_port e) p;
             p2 = put UNET_DEST_PORT (dst_port e) p1;
             p3 = put UNET_APP_PAYLOAD_LEN len p2
         in Some (put_all UNET_APP_HEADER_START (take (unat len) buffer) p3))
      else None)"

datatype send_code = No_Buffer | Sent route_result

text \<open>The second parameter \<open>pause\<close> is the delay of 30 ticks after a recent transmission.\<close>

definition unet_send ::
  "(nat \<Rightarrow> stack \<Rightarrow> stack) \<Rightarrow> (stack \<Rightarrow> stack) \<Rightarrow> nat \<Rightarrow> u8 list \<Rightarrow> u8 \<Rightarrow> u16 \<Rightarrow> stack \<Rightarrow>
     (send_code \<times> stack) option" where
  "unet_send wait pause c buffer len ret_time st =
     (let e = endpoint c st;
          up_route = (node_pan_id64_get (node_data (the_net st)) \<noteq> dest_address e);
          b = (if up_route then Up_Buffer else Down_Buffer) in
      case acquire_loop wait b 0 (ret_limit ret_time) st of
        (False, s1) \<Rightarrow> Some (No_Buffer, s1)
      | (True, s1) \<Rightarrow>
          (let s2 = (if OSGetTickCount (kernel s1) - last_transmition_time s1 < 30 then pause s1 else s1)
           in do {
             p \<leftarrow> fill_packet (endpoint c s2) buffer len (the_buffer b s2);
             let s3 = set_buffer b p s2;
             let payload_len = len + of_nat UNET_TRANSP_HEADER_SIZE;
             (res, n1) \<leftarrow> (if up_route
                then unet_packet_up_sendto (Some (dest_address (endpoint c s3))) payload_len (the_net s3)
                else unet_packet_down_send payload_len (the_net s3));
             s4 \<leftarrow> (if res = RESULT_PACKET_SEND_OK
                then do {
                  n2 \<leftarrow> post (if up_route then Router_Up_Route_Request else Router_Down_Route_Request) n1;
                  Some (s3\<lparr>the_net := n2\<rparr>)
                }
                else Some (release b (s3\<lparr>the_net := n1\<rparr>)));
             Some (Sent res, s4\<lparr>last_transmition_time := OSGetTickCount (kernel s4)\<rparr>)
           }))"

end
