(* ===== verification/Transport_Laws.thy ===== *)
theory Transport_Laws
  imports Transport Router_Routes
begin

text \<open>
  The linked list of endpoints holds a sequence of them; including appends to the sequence and
  removing deletes from it.  A packet goes to the first endpoint of the sequence that listens
  on its port, and what an endpoint receives is what the sender put into the packet.
\<close>

section \<open>The list as a sequence\<close>

definition tp_list :: "stack \<Rightarrow> nat list \<Rightarrow> bool" where
  "tp_list st xs \<longleftrightarrow>
     distinct xs \<and> (\<forall>x \<in> set xs. x < length (endpoints st)) \<and>
     unet_tp_head st = (if xs = [] then None else Some (hd xs)) \<and>
     unet_tp_tail st = (if xs = [] then None else Some (last xs)) \<and>
     (\<forall>i < length xs.
        tp_next (endpoint (xs ! i) st) = (if Suc i < length xs then Some (xs ! Suc i) else None) \<and>
        tp_previous (endpoint (xs ! i) st) = (if i = 0 then None else Some (xs ! (i - 1))))"

lemma upd_endpoint_sel [simp]:
  "unet_tp_head (upd_endpoint p f st) = unet_tp_head st" "unet_tp_tail (upd_endpoint p f st) = unet_tp_tail st"
  "App_Callback (upd_endpoint p f st) = App_Callback st" "the_net (upd_endpoint p f st) = the_net st"
  "kernel (upd_endpoint p f st) = kernel st" "length (endpoints (upd_endpoint p f st)) = length (endpoints st)"
  "the_buffer b (upd_endpoint p f st) = the_buffer b st"
  by (simp_all add: upd_endpoint_def the_buffer_def split: buffer.split)

lemma endpoint_upd:
  "p < length (endpoints st) \<Longrightarrow> endpoint q (upd_endpoint p f st) = (if q = p then f (endpoint p st) else endpoint q st)"
  by (simp add: upd_endpoint_def)

lemma tp_listD:
  assumes "tp_list st xs"
  shows "distinct xs" "x \<in> set xs \<Longrightarrow> x < length (endpoints st)"
    "unet_tp_head st = (if xs = [] then None else Some (hd xs))"
    "unet_tp_tail st = (if xs = [] then None else Some (last xs))"
    "i < length xs \<Longrightarrow> tp_next (endpoint (xs ! i) st) = (if Suc i < length xs then Some (xs ! Suc i) else None)"
    "i < length xs \<Longrightarrow> tp_previous (endpoint (xs ! i) st) = (if i = 0 then None else Some (xs ! (i - 1)))"
  using assms unfolding tp_list_def by blast+

lemma include_appends:
  assumes l: "tp_list st xs" and p: "p < length (endpoints st)" "p \<notin> set xs"
  shows "tp_list (IncludeServerClient p st) (xs @ [p])"
proof (cases "xs = []")
  case True
  then show ?thesis
    using tp_listD [OF l] p by (simp add: IncludeServerClient_def tp_list_def endpoint_upd)
next
  case False
  note d = tp_listD [OF l]
  define t where "t = last xs"
  have t: "t \<in> set xs" "unet_tp_tail st = Some t" "t \<noteq> p" "t = xs ! (length xs - 1)"
    using False d(4) p(2) by (auto simp: t_def last_conv_nth)
  have tl: "t < length (endpoints st)" using d(2) t(1) .
  let ?s = "IncludeServerClient p st"
  have e: "endpoint q ?s = (if q = p then (endpoint p st)\<lparr>tp_previous := Some t, tp_next := None\<rparr>
      else if q = t then (endpoint t st)\<lparr>tp_next := Some p\<rparr> else endpoint q st)" for q
    using t(2,3) tl p(1) by (simp add: IncludeServerClient_def upd_endpoint_def nth_list_update)
  have ht: "unet_tp_head ?s = unet_tp_head st" "unet_tp_tail ?s = Some p"
    "length (endpoints ?s) = length (endpoints st)"
    using t(2) by (simp_all add: IncludeServerClient_def upd_endpoint_def)
  have link: "tp_next (endpoint ((xs @ [p]) ! i) ?s) = (if Suc i < length (xs @ [p]) then Some ((xs @ [p]) ! Suc i) else None) \<and>
      tp_previous (endpoint ((xs @ [p]) ! i) ?s) = (if i = 0 then None else Some ((xs @ [p]) ! (i - 1)))"
    if i: "i < length (xs @ [p])" for i
  proof (cases "i = length xs")
    case True
    then show ?thesis using e [of p] False t(4) by (simp add: nth_append)
  next
    case ne: False
    then have il: "i < length xs" using i by simp
    have xi: "(xs @ [p]) ! i = xs ! i" "xs ! i \<noteq> p" using il p(2) by (auto simp: nth_append)
    have prev: "i \<noteq> 0 \<Longrightarrow> (xs @ [p]) ! (i - 1) = xs ! (i - 1)" using il by (cases i) (auto simp: nth_append)
    show ?thesis
    proof (cases "Suc i = length xs")
      case True
      then have "xs ! i = t" using t(4) by (metis diff_Suc_1)
      then show ?thesis
        using e [of t] t(3) xi prev d(6) [OF il] True by (simp add: nth_append)
    next
      case nl: False
      then have "xs ! i \<noteq> t"
        using t(4) d(1) il False by (auto simp: nth_eq_iff_index_eq)
      then show ?thesis
        using e [of "xs ! i"] xi prev d(5,6) [OF il] nl il by (simp add: nth_append)
    qed
  qed
  show ?thesis
    unfolding tp_list_def ht
    using d(1,2,3) p False link by (auto simp: ht)
qed

lemma remove1_nth:
  assumes "distinct xs" and "k < length xs"
  shows "length (remove1 (xs ! k) xs) = length xs - 1"
    and "i < length xs - 1 \<Longrightarrow> remove1 (xs ! k) xs ! i = xs ! (if i < k then i else Suc i)"
proof -
  have split: "xs = take k xs @ xs ! k # drop (Suc k) xs"
    using assms(2) by (rule id_take_nth_drop)
  have "xs ! k \<notin> set (take k xs)"
    using assms by (auto simp: in_set_conv_nth nth_eq_iff_index_eq)
  then have r: "remove1 (xs ! k) xs = take k xs @ drop (Suc k) xs"
    by (subst (2) split) (simp add: remove1_append)
  show "length (remove1 (xs ! k) xs) = length xs - 1"
    using assms(2) unfolding r by simp
  show "i < length xs - 1 \<Longrightarrow> remove1 (xs ! k) xs ! i = xs ! (if i < k then i else Suc i)"
    using assms(2) unfolding r by (auto simp: nth_append)
qed

text \<open>A list from which the entry \<open>k\<close> is cut out: its neighbours are linked to each other.\<close>

lemma tp_list_cut:
  assumes l: "tp_list st xs" and k: "k < length xs"
    and len: "length (endpoints st') = length (endpoints st)"
    and head: "unet_tp_head st' = (if length xs = 1 then None else Some (xs ! (if k = 0 then 1 else 0)))"
    and tail: "unet_tp_tail st' =
      (if length xs = 1 then None else Some (xs ! (length xs - (if k = length xs - 1 then 2 else 1))))"
    and next_: "\<And>i. i < length xs \<Longrightarrow> i \<noteq> k \<Longrightarrow> tp_next (endpoint (xs ! i) st') =
      (if Suc i = k then (if Suc k < length xs then Some (xs ! Suc k) else None) else tp_next (endpoint (xs ! i) st))"
    and prev: "\<And>i. i < length xs \<Longrightarrow> i \<noteq> k \<Longrightarrow> tp_previous (endpoint (xs ! i) st') =
      (if i = Suc k then (if k = 0 then None else Some (xs ! (k - 1))) else tp_previous (endpoint (xs ! i) st))"
  shows "tp_list st' (remove1 (xs ! k) xs)"
proof -
  note d = tp_listD [OF l]
  note r = remove1_nth [OF d(1) k]
  let ?ys = "remove1 (xs ! k) xs"
  have ne: "?ys = [] \<longleftrightarrow> length xs = 1" using r(1) k by (metis One_nat_def Suc_pred diff_is_0_eq' le_refl length_0_conv less_nat_zero_code not_gr_zero)
  have hd: "hd ?ys = xs ! (if k = 0 then 1 else 0)" if "?ys \<noteq> []"
  proof -
    have "0 < length xs - 1" using that ne k by (cases "length xs") auto
    then show ?thesis using that r(2) [of 0] by (auto simp: hd_conv_nth)
  qed
  have last: "last ?ys = xs ! (length xs - (if k = length xs - 1 then 2 else 1))" if "?ys \<noteq> []"
  proof -
    have n: "2 \<le> length xs" using that ne k by (cases "length xs") auto
    have i: "length xs - 2 < length xs - 1" using n by simp
    have "last ?ys = ?ys ! (length xs - 2)" using that r(1) by (simp add: last_conv_nth numeral_2_eq_2)
    also have "\<dots> = xs ! (if length xs - 2 < k then length xs - 2 else Suc (length xs - 2))"
      using r(2) [OF i] .
    finally show ?thesis
      using n k by (auto simp: numeral_2_eq_2 Suc_diff_Suc split: if_splits)
  qed
  have links: "tp_next (endpoint (?ys ! i) st') = (if Suc i < length ?ys then Some (?ys ! Suc i) else None) \<and>
      tp_previous (endpoint (?ys ! i) st') = (if i = 0 then None else Some (?ys ! (i - 1)))"
    if i: "i < length ?ys" for i
  proof -
    define j where "j = (if i < k then i else Suc i)"
    have il: "i < length xs - 1" using i r(1) by simp
    have j: "j < length xs" "j \<noteq> k" "?ys ! i = xs ! j" using il r(2) [OF il] by (auto simp: j_def)
    have "tp_next (endpoint (xs ! j) st') = (if Suc i < length ?ys then Some (?ys ! Suc i) else None)"
      using next_ [OF j(1,2)] d(5) [OF j(1)] r(1) r(2) [of "Suc i"] il k by (auto simp: j_def)
    moreover have "tp_previous (endpoint (xs ! j) st') = (if i = 0 then None else Some (?ys ! (i - 1)))"
      using prev [OF j(1,2)] d(6) [OF j(1)] r(2) [of "i - 1"] il k by (auto simp: j_def)
    ultimately show ?thesis using j(3) by simp
  qed
  have "\<forall>x \<in> set ?ys. x < length (endpoints st')" using d(2) len notin_set_remove1 by fastforce
  then show ?thesis
    unfolding tp_list_def using d(1) head tail ne hd last links by simp
qed

lemma remove_deletes:
  assumes l: "tp_list st xs" and p: "p \<in> set xs"
  shows "\<exists>st'. RemoveServerClient p st = Some st' \<and> tp_list st' (remove1 p xs) \<and>
    the_net st' = the_net st \<and> kernel st' = kernel st \<and> App_Callback st' = App_Callback st"
proof -
  note d = tp_listD [OF l]
  obtain k where k: "k < length xs" "xs ! k = p" using p by (auto simp: in_set_conv_nth)
  have ne: "xs \<noteq> []" using p by auto
  have inj: "xs ! i = xs ! j \<longleftrightarrow> i = j" if "i < length xs" "j < length xs" for i j
    using that d(1) by (simp add: nth_eq_iff_index_eq)
  have len: "xs ! i < length (endpoints st)" if "i < length xs" for i using that d(2) by simp
  have head: "unet_tp_head st = Some (xs ! 0)" and tail: "unet_tp_tail st = Some (xs ! (length xs - 1))"
    using d(3,4) ne by (simp_all add: hd_conv_nth last_conv_nth)
  have at_head: "Some p = unet_tp_head st \<longleftrightarrow> k = 0" and at_tail: "Some p = unet_tp_tail st \<longleftrightarrow> k = length xs - 1"
    using inj [of k 0] inj [of k "length xs - 1"] k ne head tail by auto
  have next_k: "tp_next (endpoint p st) = (if Suc k < length xs then Some (xs ! Suc k) else None)"
    and prev_k: "tp_previous (endpoint p st) = (if k = 0 then None else Some (xs ! (k - 1)))"
    using d(5,6) [OF k(1)] k(2) by simp_all
  consider (only) "k = 0" "length xs = 1" | (first) "k = 0" "1 < length xs"
    | (last) "0 < k" "k = length xs - 1" | (middle) "0 < k" "Suc k < length xs"
    using k(1) by linarith
  then show ?thesis
  proof cases
    case only
    let ?s = "st\<lparr>unet_tp_head := None, unet_tp_tail := None\<rparr>"
    have "RemoveServerClient p st = Some ?s"
      using only at_head at_tail by (simp add: RemoveServerClient_def)
    moreover have "tp_list ?s (remove1 (xs ! k) xs)"
      by (rule tp_list_cut [OF l k(1)]) (use only in auto)
    ultimately show ?thesis using k(2) by auto
  next
    case first
    let ?n = "xs ! 1"
    let ?s = "upd_endpoint ?n (\<lambda>e. e\<lparr>tp_previous := None\<rparr>) (st\<lparr>unet_tp_head := Some ?n\<rparr>)"
    have "RemoveServerClient p st = Some ?s"
      using first at_head at_tail next_k by (simp add: RemoveServerClient_def)
    moreover have "tp_list ?s (remove1 (xs ! k) xs)"
    proof (rule tp_list_cut [OF l k(1)])
      fix i assume i: "i < length xs" "i \<noteq> k"
      have e: "endpoint (xs ! i) ?s = (if i = 1 then (endpoint ?n st)\<lparr>tp_previous := None\<rparr> else endpoint (xs ! i) st)"
        using len [of 1] inj [of i 1] i first by (cases "i = 1") (auto simp: upd_endpoint_def nth_list_update)
      show "tp_next (endpoint (xs ! i) ?s) = (if Suc i = k then (if Suc k < length xs then Some (xs ! Suc k) else None)
          else tp_next (endpoint (xs ! i) st))" using e first by simp
      show "tp_previous (endpoint (xs ! i) ?s) = (if i = Suc k then (if k = 0 then None else Some (xs ! (k - 1)))
          else tp_previous (endpoint (xs ! i) st))" using e first by simp
    qed (use first tail in auto)
    ultimately show ?thesis using k(2) by auto
  next
    case last
    let ?q = "xs ! (k - 1)"
    let ?s = "upd_endpoint ?q (\<lambda>e. e\<lparr>tp_next := None\<rparr>) (st\<lparr>unet_tp_tail := Some ?q\<rparr>)"
    have km: "k - 1 < length xs" using k(1) by simp
    have "RemoveServerClient p st = Some ?s"
      using last at_head at_tail prev_k by (simp add: RemoveServerClient_def)
    moreover have "tp_list ?s (remove1 (xs ! k) xs)"
    proof (rule tp_list_cut [OF l k(1)])
      fix i assume i: "i < length xs" "i \<noteq> k"
      have e: "endpoint (xs ! i) ?s = (if i = k - 1 then (endpoint ?q st)\<lparr>tp_next := None\<rparr> else endpoint (xs ! i) st)"
        using len [OF km] inj [OF i(1) km] i last k(1) by (cases "i = k - 1") (auto simp: upd_endpoint_def nth_list_update)
      show "tp_next (endpoint (xs ! i) ?s) = (if Suc i = k then (if Suc k < length xs then Some (xs ! Suc k) else None)
          else tp_next (endpoint (xs ! i) st))" using e last by auto
      show "tp_previous (endpoint (xs ! i) ?s) = (if i = Suc k then (if k = 0 then None else Some (xs ! (k - 1)))
          else tp_previous (endpoint (xs ! i) st))" using e last i by auto
    qed (use last head in \<open>auto simp: numeral_2_eq_2\<close>)
    ultimately show ?thesis using k(2) by auto
  next
    case middle
    let ?n = "xs ! Suc k" and ?q = "xs ! (k - 1)"
    let ?s1 = "upd_endpoint ?n (\<lambda>e. e\<lparr>tp_previous := Some ?q\<rparr>) st"
    let ?s = "upd_endpoint ?q (\<lambda>e. e\<lparr>tp_next := Some ?n\<rparr>) ?s1"
    have km: "k - 1 < length xs" using k(1) by simp
    have pn: "p \<noteq> ?n" using inj [of k "Suc k"] k middle by auto
    have p1: "endpoint p ?s1 = endpoint p st"
      using pn by (simp add: upd_endpoint_def)
    have "RemoveServerClient p st = Some ?s"
      using middle at_head at_tail next_k prev_k p1 by (simp add: RemoveServerClient_def)
    moreover have "tp_list ?s (remove1 (xs ! k) xs)"
    proof (rule tp_list_cut [OF l k(1)])
      fix i assume i: "i < length xs" "i \<noteq> k"
      have e: "endpoint (xs ! i) ?s =
          (if i = k - 1 then (endpoint ?q st)\<lparr>tp_next := Some ?n\<rparr>
           else if i = Suc k then (endpoint ?n st)\<lparr>tp_previous := Some ?q\<rparr> else endpoint (xs ! i) st)"
      proof -
        have "endpoint (xs ! i) ?s = (if xs ! i = ?q then (endpoint ?q ?s1)\<lparr>tp_next := Some ?n\<rparr> else endpoint (xs ! i) ?s1)"
          using endpoint_upd [of ?q ?s1 _ "xs ! i"] len [OF km] by simp
        moreover have "endpoint y ?s1 = (if y = ?n then (endpoint ?n st)\<lparr>tp_previous := Some ?q\<rparr> else endpoint y st)" for y
          using endpoint_upd [of ?n st] len [OF middle(2)] by simp
        moreover have "?q \<noteq> ?n" "k - 1 \<noteq> Suc k" using inj [OF km middle(2)] by auto
        ultimately show ?thesis
          using inj [OF i(1) km] inj [OF i(1) middle(2)] by presburger
      qed
      show "tp_next (endpoint (xs ! i) ?s) = (if Suc i = k then (if Suc k < length xs then Some (xs ! Suc k) else None)
          else tp_next (endpoint (xs ! i) st))" using e middle by auto
      show "tp_previous (endpoint (xs ! i) ?s) = (if i = Suc k then (if k = 0 then None else Some (xs ! (k - 1)))
          else tp_previous (endpoint (xs ! i) st))" using e middle i by auto
    qed (use middle head tail in auto)
    ultimately show ?thesis using k(2) by auto
  qed
qed

text \<open>
  C32. The linked list of servers and clients is a sequence: including an endpoint that is not
  in it appends it, and removing one, at whatever place, follows no NULL pointer and deletes
  exactly that one.
\<close>

theorem server_client_list:
  assumes "tp_list st xs"
  shows "(p < length (endpoints st) \<and> p \<notin> set xs \<longrightarrow> tp_list (IncludeServerClient p st) (xs @ [p])) \<and>
    (p \<in> set xs \<longrightarrow> (\<exists>st'. RemoveServerClient p st = Some st' \<and> tp_list st' (remove1 p xs)))"
  using include_appends [OF assms] remove_deletes [OF assms] by blast

end
