(* ===== verification/Transport_Flow.thy ===== *)
theory Transport_Flow
  imports Transport_Laws
begin

text \<open>
  From \<open>unet_send\<close> to \<open>unet_recv\<close>: what the sender leaves in the packet buffer, which endpoint
  the receiver hands the packet to, and what that endpoint reads.
\<close>

section \<open>Finding the listener\<close>

definition listener :: "u8 \<Rightarrow> nat list \<Rightarrow> stack \<Rightarrow> nat option" where
  "listener port xs st = List.find (\<lambda>x. src_port (endpoint x st) = port) xs"

lemma deliver_loop_finds:
  assumes l: "tp_list st xs" and k: "k \<le> length xs"
  shows "deliver_loop b (if k < length xs then Some (xs ! k) else None) st =
    (case listener (byte (the_buffer b st) UNET_DEST_PORT) (drop k xs) st of
       None \<Rightarrow> Some st | Some c \<Rightarrow> hand_over b c st)"
  using k
proof (induction "length xs - k" arbitrary: k)
  case 0
  then show ?case by (simp add: deliver_loop.simps listener_def)
next
  case (Suc n)
  then have kl: "k < length xs" by simp
  then have d: "drop k xs = xs ! k # drop (Suc k) xs" by (simp add: Cons_nth_drop_Suc)
  have IH: "deliver_loop b (if Suc k < length xs then Some (xs ! Suc k) else None) st =
      (case listener (byte (the_buffer b st) UNET_DEST_PORT) (drop (Suc k) xs) st of
         None \<Rightarrow> Some st | Some c \<Rightarrow> hand_over b c st)"
    using Suc.hyps(1) [of "Suc k"] Suc.hyps(2) kl by simp
  show ?case
    using kl IH tp_listD(5) [OF l kl] by (subst deliver_loop.simps) (simp add: d listener_def)
qed

lemma tp_list_net: "tp_list (st\<lparr>the_net := n\<rparr>) xs = tp_list st xs"
  by (simp add: tp_list_def)

lemma the_buffer_stat [simp]:
  "the_buffer b (st\<lparr>the_net := NODESTAT_UPDATE x (the_net st)\<rparr>) = the_buffer b st"
  by (simp add: the_buffer_def split: buffer.split)

lemma the_buffer_kernel [simp]: "the_buffer b (st\<lparr>kernel := k\<rparr>) = the_buffer b st"
  by (simp add: the_buffer_def split: buffer.split)

lemma deliver_finds:
  assumes l: "tp_list st xs" and app: "byte (the_buffer b st) UNET_NEXT_HEADER = NEXT_HEADER_UNET_APP"
  shows "deliver b st =
    (case listener (byte (the_buffer b st) UNET_DEST_PORT) xs st of
       None \<Rightarrow> Some (st\<lparr>the_net := NODESTAT_UPDATE netapprx (the_net st)\<rparr>)
     | Some c \<Rightarrow> hand_over b c (st\<lparr>the_net := NODESTAT_UPDATE netapprx (the_net st)\<rparr>))"
proof -
  let ?s = "st\<lparr>the_net := NODESTAT_UPDATE netapprx (the_net st)\<rparr>"
  have "unet_tp_head ?s = (if 0 < length xs then Some (xs ! 0) else None)"
    using tp_listD(3) [OF l] by (simp add: hd_conv_nth)
  moreover have "listener port xs ?s = listener port xs st" for port
    by (simp add: listener_def)
  ultimately show ?thesis
    using deliver_loop_finds [of ?s xs 0 b] l app by (simp add: deliver_def tp_list_net)
qed

text \<open>
  Delivery always returns when every endpoint has its semaphore: the first endpoint of the list that
  listens on the destination port gets the packet and is the only one that changes, its semaphore
  is posted; with no such endpoint nothing but the statistics changes.
\<close>

theorem deliver_first_listener:
  assumes "tp_list st xs" and "byte (the_buffer b st) UNET_NEXT_HEADER = NEXT_HEADER_UNET_APP"
    and "\<forall>x \<in> set xs. wake_up_sem (endpoint x st) \<noteq> None" and "App_Callback st = None"
  shows "\<exists>st'. deliver b st = Some st' \<and> bytes (the_buffer b st') = bytes (the_buffer b st) \<and>
    (case listener (byte (the_buffer b st) UNET_DEST_PORT) xs st of
       None \<Rightarrow> endpoints st' = endpoints st \<and> kernel st' = kernel st
     | Some c \<Rightarrow> c \<in> set xs \<and> src_port (endpoint c st) = byte (the_buffer b st) UNET_DEST_PORT \<and>
         endpoint c st' = (endpoint c st)\<lparr>payload_ptr := Some b,
           payload_size := byte (the_buffer b st) UNET_APP_PAYLOAD_LEN,
           sender_port := byte (the_buffer b st) UNET_SOURCE_PORT,
           sender_address := addr64_at UNET_SRC_64 (the_buffer b st)\<rparr> \<and>
         (\<forall>x. x \<noteq> c \<longrightarrow> endpoint x st' = endpoint x st) \<and>
         kernel st' = snd (OSSemPost (the (wake_up_sem (endpoint c st))) (kernel st)))"
proof -
  let ?r = "the_buffer b st"
  show ?thesis
  proof (cases "listener (byte ?r UNET_DEST_PORT) xs st")
    case None
    then show ?thesis using deliver_finds [OF assms(1,2)] by simp
  next
    case (Some c)
    then have c: "c \<in> set xs" "src_port (endpoint c st) = byte ?r UNET_DEST_PORT"
      by (auto simp: listener_def find_Some_iff)
    then have cl: "c < length (endpoints st)" using tp_listD(2) [OF assms(1)] by blast
    obtain i where i: "wake_up_sem (endpoint c st) = Some i" using assms(3) c(1) by blast
    let ?s = "st\<lparr>the_net := NODESTAT_UPDATE netapprx (the_net st)\<rparr>"
    let ?e = "upd_endpoint c (\<lambda>e. e\<lparr>payload_ptr := Some b, payload_size := byte ?r UNET_APP_PAYLOAD_LEN,
        sender_port := byte ?r UNET_SOURCE_PORT, sender_address := addr64_at UNET_SRC_64 ?r\<rparr>) ?s"
    have e: "endpoint x ?e = (if x = c then (endpoint c st)\<lparr>payload_ptr := Some b,
        payload_size := byte ?r UNET_APP_PAYLOAD_LEN, sender_port := byte ?r UNET_SOURCE_PORT,
        sender_address := addr64_at UNET_SRC_64 ?r\<rparr> else endpoint x st)" for x
      using endpoint_upd [of c ?s] cl by simp
    have "hand_over b c ?s = Some (?e\<lparr>kernel := snd (OSSemPost i (kernel ?e))\<rparr>)"
      using e [of c] i assms(4) by (simp add: hand_over_def post_sem_def Let_def)
    then show ?thesis
      using deliver_finds [OF assms(1,2)] Some c e i by simp
  qed
qed

section \<open>Sending\<close>

lemma retry_limit: "1 \<le> ret_limit t" "ret_limit t \<le> 1000"
proof -
  define r where "r = unat (retry_time t)"
  have r: "1 \<le> r" "r \<le> 1000"
    by (auto simp: r_def retry_time_def Let_def word_le_nat_alt word_less_nat_alt unat_gt_0 Suc_le_eq
        not_less)
  have l: "ret_limit t = 1000 div r" by (simp add: ret_limit_def r_def unat_div)
  show "1 \<le> ret_limit t" unfolding l using r by (simp add: div_greater_zero_iff Suc_le_eq)
  show "ret_limit t \<le> 1000" unfolding l by (rule div_le_dividend)
qed

text \<open>What a filled packet carries.\<close>

definition carries :: "packet \<Rightarrow> u8 \<Rightarrow> u8 \<Rightarrow> u8 \<Rightarrow> u8 list \<Rightarrow> bool" where
  "carries p src dst len buffer \<longleftrightarrow>
     byte p UNET_SOURCE_PORT = src \<and> byte p UNET_DEST_PORT = dst \<and> byte p UNET_APP_PAYLOAD_LEN = len \<and>
     take (unat len) (drop UNET_APP_HEADER_START (bytes p)) = take (unat len) buffer"

lemma fill_packet_carries:
  assumes "packet_ok p" and "35 + unat len \<le> 128" and "unat len \<le> length buffer"
  shows "\<exists>p'. fill_packet e buffer len p = Some p' \<and> packet_ok p' \<and> state p' = state p \<and>
    carries p' (src_port e) (dst_port e) len buffer"
proof -
  let ?q = "put UNET_APP_PAYLOAD_LEN len (put UNET_DEST_PORT (dst_port e) (put UNET_SOURCE_PORT (src_port e) p))"
  let ?p = "put_all UNET_APP_HEADER_START (take (unat len) buffer) ?q"
  have len: "length (bytes p) = 128" using assms(1) by (simp add: packet_ok_def)
  have b: "byte ?p j = (if 35 \<le> j \<and> j < 35 + unat len then buffer ! (j - 35) else byte ?q j)" for j
    using assms(2,3) len by (subst byte_put_all) auto
  have "take (unat len) (drop 35 (bytes ?p)) = take (unat len) buffer"
    using assms(2,3) len b by (intro nth_equalityI) (auto simp: add.commute)
  then have "carries ?p (src_port e) (dst_port e) len buffer"
    unfolding carries_def b using len by (simp add: byte_put)
  moreover have "fill_packet e buffer len p = Some ?p" using assms(2) by (simp add: fill_packet_def Let_def)
  moreover have "packet_ok ?p" "state ?p = state p" using assms(1) by simp_all
  ultimately show ?thesis by blast
qed

text \<open>The layers below keep the bytes of the transport layer and put their headers before them.\<close>

lemma carries_cong:
  assumes "\<And>j. 32 \<le> j \<Longrightarrow> byte p' j = byte p j" and "length (bytes p') = length (bytes p)"
  shows "carries p' s d len buffer = carries p s d len buffer"
proof -
  have "drop 35 (bytes p') = drop 35 (bytes p)"
    using assms by (intro nth_equalityI) simp_all
  then show ?thesis using assms(1) by (simp add: carries_def)
qed

lemma hopped_carries:
  "hopped hop p p' \<Longrightarrow> packet_ok p \<Longrightarrow> packet_ok p' \<Longrightarrow>
     carries p' s d len buffer = carries p s d len buffer \<and> byte p' UNET_NEXT_HEADER = byte p UNET_NEXT_HEADER"
  by (rule conjI, rule carries_cong) (simp_all add: hopped_def packet_ok_def)

lemma header_carries:
  assumes "packet_ok p"
  shows "carries (put_info o1 v (unet_header_set t h x a b l p)) s d len buffer = carries p s d len buffer"
    and "byte (put_info o1 v (unet_header_set t h x a b l p)) UNET_NEXT_HEADER = x"
    and "packet_ok (put_info o1 v (unet_header_set t h x a b l p)) = packet_ok p"
proof -
  show "carries (put_info o1 v (unet_header_set t h x a b l p)) s d len buffer = carries p s d len buffer"
    by (rule carries_cong) (use assms byte_unet_header_set in \<open>simp_all add: unet_header_set_def Let_def\<close>)
  show "byte (put_info o1 v (unet_header_set t h x a b l p)) UNET_NEXT_HEADER = x"
    using assms by (simp add: unet_header_set_def Let_def byte_put byte_put_all packet_ok_def)
  show "packet_ok (put_info o1 v (unet_header_set t h x a b l p)) = packet_ok p" by simp
qed

lemma router_created:
  "unet_router_up s = Some (r, s') \<Longrightarrow> created s' = created s"
  "unet_router_down s = Some (ok, s') \<Longrightarrow> created s' = created s"
  by (auto simp: unet_router_up_def unet_router_down_def stamp_seqnum_eq Let_def bind_eq_Some_conv
      split: if_splits)

lemma sendto_result:
  assumes ok: "net_ok s" and c: "carries (packet_up s) src dst len buffer"
  shows "\<exists>r s'. unet_packet_up_sendto (Some dest) pl s = Some (r, s') \<and> net_ok s' \<and> created s' = created s \<and>
    (r = RESULT_PACKET_SEND_OK \<longrightarrow> carries (packet_up s') src dst len buffer \<and>
       byte (packet_up s') UNET_NEXT_HEADER = NEXT_HEADER_UNET_APP \<and> state (packet_up s') \<noteq> PACKET_IDLE)"
proof -
  let ?p = "put_info PKTINFO_SIZE (frame_size pl) (unet_header_set UNICAST_UP 0xFF NEXT_HEADER_UNET_APP
      (node_addr64_get (node_data s)) dest pl (packet_up s))"
  let ?s = "s\<lparr>packet_up := ?p\<rparr>"
  have po: "packet_ok (packet_up s)" using net_okD(6) [OF ok] .
  note h = header_carries [OF po]
  have ok1: "net_ok ?s" using ok h(3) po by (simp add: net_ok_def)
  obtain r s1 where r: "unet_router_up ?s = Some (r, s1)" "net_ok s1"
    "(case route_lookup (addr64_at UNET_DEST_64 (packet_up ?s)) ?s of
       None \<Rightarrow> r = RESULT_DESTINATION_UNREACHABLE \<and> s1 = ?s
     | Some hop \<Rightarrow>
         if byte (packet_up ?s) UNET_HOP_LIMIT = 0 then r = RESULT_HOP_LIMIT_EXCEEDED \<and> s1 = ?s
         else r = RESULT_PACKET_SEND_OK \<and> hopped hop (packet_up ?s) (packet_up s1) \<and>
              state (packet_up s1) = PACKET_WAITING_TX)"
    using router_up_hop [OF ok1] by blast
  have "r = RESULT_PACKET_SEND_OK \<longrightarrow> (\<exists>hop. hopped hop (packet_up ?s) (packet_up s1)) \<and>
      state (packet_up s1) = PACKET_WAITING_TX"
    using r(3) by (auto split: option.splits if_splits)
  then have "r = RESULT_PACKET_SEND_OK \<longrightarrow> carries (packet_up s1) src dst len buffer \<and>
      byte (packet_up s1) UNET_NEXT_HEADER = NEXT_HEADER_UNET_APP \<and> state (packet_up s1) \<noteq> PACKET_IDLE"
    using hopped_carries [of _ "packet_up ?s" "packet_up s1"] net_okD(6) [OF ok1] net_okD(6) [OF r(2)] h(1,2) c
    by auto
  then show ?thesis
    using r(1,2) router_created(1) [OF r(1)] by (simp add: unet_packet_up_sendto_def Let_def)
qed

lemma down_send_result:
  assumes ok: "net_ok s" and c: "carries (packet_down s) src dst len buffer"
  shows "\<exists>r s'. unet_packet_down_send pl s = Some (r, s') \<and> net_ok s' \<and> created s' = created s \<and>
    (r = RESULT_PACKET_SEND_OK \<longrightarrow> carries (packet_down s') src dst len buffer \<and>
       byte (packet_down s') UNET_NEXT_HEADER = NEXT_HEADER_UNET_APP \<and> state (packet_down s') \<noteq> PACKET_IDLE)"
proof (cases "param NODE_DISTANCE s \<ge> ROUTE_TO_BASESTATION_LOST")
  case True
  then show ?thesis using ok by (simp add: unet_packet_down_send_def)
next
  case False
  let ?p = "put_info PKTINFO_SIZE (frame_size pl) (unet_header_set UNICAST_DOWN 0xFF NEXT_HEADER_UNET_APP
      (node_addr64_get (node_data s)) (node_pan_id64_get (node_data s)) pl (packet_down s))"
  let ?s = "s\<lparr>packet_down := ?p\<rparr>"
  have po: "packet_ok (packet_down s)" using net_okD(7) [OF ok] .
  note h = header_carries [OF po]
  have ok1: "net_ok ?s" using ok h(3) po by (simp add: net_ok_def)
  obtain k s1 where r: "unet_router_down ?s = Some (k, s1)" "net_ok s1"
    "(if byte (packet_down ?s) UNET_HOP_LIMIT = 0 then \<not> k \<and> s1 = ?s
     else if param NODE_PARENTINDEX ?s = NO_PARENT then
       \<not> k \<and> s1 = ?s\<lparr>packet_down := put UNET_HOP_LIMIT (byte (packet_down ?s) UNET_HOP_LIMIT - 1) (packet_down ?s)\<rparr>
     else k \<and> state (packet_down s1) = PACKET_IN_ROUTE \<and>
       hopped (Addr_16b (nb ?s (unat (param NODE_PARENTINDEX ?s)))) (packet_down ?s) (packet_down s1))"
    using router_down_hop [OF ok1] by blast
  have "k \<longrightarrow> (\<exists>hop. hopped hop (packet_down ?s) (packet_down s1)) \<and> state (packet_down s1) = PACKET_IN_ROUTE"
    using r(3) by (auto split: if_splits)
  then have "k \<longrightarrow> carries (packet_down s1) src dst len buffer \<and>
      byte (packet_down s1) UNET_NEXT_HEADER = NEXT_HEADER_UNET_APP \<and> state (packet_down s1) \<noteq> PACKET_IDLE"
    using hopped_carries [of _ "packet_down ?s" "packet_down s1"] net_okD(7) [OF ok1] net_okD(7) [OF r(2)] h(1,2) c
    by auto
  then show ?thesis
    using r(1,2) router_created(2) [OF r(1)] False by (simp add: unet_packet_down_send_def Let_def)
qed

definition ready :: "nat \<Rightarrow> endpoint \<Rightarrow> stack \<Rightarrow> bool" where
  "ready c e st \<longleftrightarrow> net_ok (the_net st) \<and> all_created (the_net st) \<and> endpoint c st = e"

lemma set_buffer_sel [simp]:
  "the_buffer b (set_buffer b p st) = p" "endpoints (set_buffer b p st) = endpoints st"
  "kernel (set_buffer b p st) = kernel st"
  "created (the_net (set_buffer b p st)) = created (the_net st)"
  "net_ok (the_net st) \<Longrightarrow> packet_ok p \<Longrightarrow> net_ok (the_net (set_buffer b p st))"
  by (cases b; simp add: set_buffer_def the_buffer_def net_ok_def)+

lemma buffer_ok: "net_ok (the_net st) \<Longrightarrow> packet_ok (the_buffer b st)"
  by (cases b) (simp_all add: the_buffer_def net_ok_def)

lemma ready_set_buffer: "ready c e st \<Longrightarrow> packet_ok p \<Longrightarrow> ready c e (set_buffer b p st)"
  by (simp add: ready_def all_created_def)

lemma acquire_ready: "ready c e st \<Longrightarrow> acquire b st = (x, s1) \<Longrightarrow> ready c e s1"
  using buffer_ok [of st b]
  by (auto simp: acquire_def packet_acquire_up_def packet_acquire_down_def packet_ok_def ready_def
      intro!: ready_set_buffer [unfolded ready_def] split: buffer.splits if_splits prod.splits)

lemma acquire_loop_ready:
  assumes "\<And>k s. ready c e s \<Longrightarrow> ready c e (wait k s)"
  shows "ready c e st \<Longrightarrow> acquire_loop wait b k n st = (x, s1) \<Longrightarrow> ready c e s1"
proof (induction n arbitrary: k st)
  case 0
  then show ?case by simp
next
  case (Suc n)
  then show ?case
    using acquire_ready [of c e st b] assms
    by (cases "acquire b st") (auto split: bool.splits)
qed

text \<open>The filled packet is given to the router, and the task that routes is asked.\<close>

lemma routed_or_released:
  fixes c e st up
  defines "b \<equiv> (if up then Up_Buffer else Down_Buffer)"
    and "sig \<equiv> (if up then Router_Up_Route_Request else Router_Down_Route_Request)"
  assumes "ready c e st" and "carries (the_buffer b st) src dst len buffer"
  obtains res n1 s4 where
    "(if up then unet_packet_up_sendto (Some (dest_address (endpoint c st))) pl (the_net st)
      else unet_packet_down_send pl (the_net st)) = Some (res, n1)"
    and "(if res = RESULT_PACKET_SEND_OK then do { n2 \<leftarrow> post sig n1; Some (st\<lparr>the_net := n2\<rparr>) }
      else Some (release b (st\<lparr>the_net := n1\<rparr>))) = Some s4"
    and "if res = RESULT_PACKET_SEND_OK then carries (the_buffer b s4) src dst len buffer \<and>
        byte (the_buffer b s4) UNET_NEXT_HEADER = NEXT_HEADER_UNET_APP \<and>
        state (the_buffer b s4) \<noteq> PACKET_IDLE \<and> last (posted (the_net s4)) = sig
      else state (the_buffer b s4) = PACKET_IDLE"
proof -
  let ?go = "if up then unet_packet_up_sendto (Some (dest_address (endpoint c st))) pl (the_net st)
      else unet_packet_down_send pl (the_net st)"
  have n: "net_ok (the_net st)" "all_created (the_net st)" using assms(3) by (simp_all add: ready_def)
  have buf: "the_buffer b (st\<lparr>the_net := n\<rparr>) = (if up then packet_up n else packet_down n)" for n
    by (simp add: the_buffer_def b_def)
  have "carries (if up then packet_up (the_net st) else packet_down (the_net st)) src dst len buffer"
    using assms(4) by (simp add: the_buffer_def b_def split: if_splits)
  then obtain res n1 where go: "?go = Some (res, n1)" "created n1 = created (the_net st)"
    "res = RESULT_PACKET_SEND_OK \<longrightarrow> carries (if up then packet_up n1 else packet_down n1) src dst len buffer \<and>
       byte (if up then packet_up n1 else packet_down n1) UNET_NEXT_HEADER = NEXT_HEADER_UNET_APP \<and>
       state (if up then packet_up n1 else packet_down n1) \<noteq> PACKET_IDLE"
    using sendto_result [OF n(1), of src dst len buffer "dest_address (endpoint c st)" pl]
      down_send_result [OF n(1), of src dst len buffer pl]
    by (cases up) auto
  have post: "post sig n1 = Some (n1\<lparr>posted := posted n1 @ [sig]\<rparr>)"
    using n(2) go(2) by (intro post_all) (simp add: all_created_def)
  have free: "state (the_buffer b (release b s)) = PACKET_IDLE" for s
    by (simp add: release_def packet_release_up_def packet_release_down_def split: buffer.split)
  define s4 where "s4 = (if res = RESULT_PACKET_SEND_OK then st\<lparr>the_net := n1\<lparr>posted := posted n1 @ [sig]\<rparr>\<rparr>
      else release b (st\<lparr>the_net := n1\<rparr>))"
  show thesis
    by (rule that [OF go(1), of s4]) (use go(3) buf free in \<open>cases up; simp add: post s4_def\<close>)+
qed

text \<open>
  Sending returns, whatever the rest of the system does meanwhile, as long as it keeps the
  state well formed and the sender's endpoint.  It fails with no buffer, or it reports a
  routing result: on success the buffer carries the ports, the length and the whole payload, is
  taken, and the router task is asked to send it; otherwise the buffer is free again.
\<close>

theorem unet_send_result:
  assumes "ready c e st" and "\<And>k s. ready c e s \<Longrightarrow> ready c e (wait k s)"
    and "\<And>s. ready c e s \<Longrightarrow> ready c e (pause s)"
    and "35 + unat len \<le> 128" and "unat len \<le> length buffer"
  defines "up \<equiv> node_pan_id64_get (node_data (the_net st)) \<noteq> dest_address e"
  defines "b \<equiv> (if up then Up_Buffer else Down_Buffer)"
  shows "\<exists>r st'. unet_send wait pause c buffer len t st = Some (r, st') \<and>
    (case r of No_Buffer \<Rightarrow> True
     | Sent res \<Rightarrow>
         if res = RESULT_PACKET_SEND_OK then
           carries (the_buffer b st') (src_port e) (dst_port e) len buffer \<and>
           byte (the_buffer b st') UNET_NEXT_HEADER = NEXT_HEADER_UNET_APP \<and>
           state (the_buffer b st') \<noteq> PACKET_IDLE \<and>
           last (posted (the_net st')) = (if up then Router_Up_Route_Request else Router_Down_Route_Request)
         else state (the_buffer b st') = PACKET_IDLE)"
proof -
  have up: "node_pan_id64_get (node_data (the_net st)) \<noteq> dest_address (endpoint c st) \<longleftrightarrow> up"
    using assms(1) by (simp add: up_def ready_def)
  obtain x s1 where loop: "acquire_loop wait b 0 (ret_limit t) st = (x, s1)"
    by (cases "acquire_loop wait b 0 (ret_limit t) st")
  show ?thesis
  proof (cases x)
    case False
    then show ?thesis
      using loop by (simp add: unet_send_def up b_def [symmetric] Let_def)
  next
    case True
    have r1: "ready c e s1" using acquire_loop_ready [OF assms(2,1) loop] .
    define s2 where "s2 = (if OSGetTickCount (kernel s1) - last_transmition_time s1 < 30 then pause s1 else s1)"
    have r2: "ready c e s2" using r1 assms(3) by (simp add: s2_def)
    then have n2: "net_ok (the_net s2)" "endpoint c s2 = e" by (simp_all add: ready_def)
    obtain p where p: "fill_packet e buffer len (the_buffer b s2) = Some p" "packet_ok p"
      "carries p (src_port e) (dst_port e) len buffer"
      using fill_packet_carries [OF buffer_ok [OF n2(1)] assms(4,5)] by blast
    define s3 where "s3 = set_buffer b p s2"
    have r3: "ready c e s3" unfolding s3_def using ready_set_buffer [OF r2 p(2)] .
    have c3: "carries (the_buffer b s3) (src_port e) (dst_port e) len buffer"
      using p(3) by (simp add: s3_def set_buffer_def the_buffer_def split: buffer.split)
    let ?pl = "len + of_nat UNET_TRANSP_HEADER_SIZE"
    obtain res n1 s4 where go: "(if up then unet_packet_up_sendto (Some (dest_address (endpoint c s3))) ?pl (the_net s3)
        else unet_packet_down_send ?pl (the_net s3)) = Some (res, n1)"
      "(if res = RESULT_PACKET_SEND_OK then do {
          n2 \<leftarrow> post (if up then Router_Up_Route_Request else Router_Down_Route_Request) n1; Some (s3\<lparr>the_net := n2\<rparr>) }
        else Some (release b (s3\<lparr>the_net := n1\<rparr>))) = Some s4"
      "if res = RESULT_PACKET_SEND_OK then carries (the_buffer b s4) (src_port e) (dst_port e) len buffer \<and>
          byte (the_buffer b s4) UNET_NEXT_HEADER = NEXT_HEADER_UNET_APP \<and> state (the_buffer b s4) \<noteq> PACKET_IDLE \<and>
          last (posted (the_net s4)) = (if up then Router_Up_Route_Request else Router_Down_Route_Request)
        else state (the_buffer b s4) = PACKET_IDLE"
      unfolding b_def by (rule routed_or_released [OF r3 c3 [unfolded b_def], where pl = ?pl]) (rule that [unfolded b_def])
    have send: "unet_send wait pause c buffer len t st =
        Some (Sent res, s4\<lparr>last_transmition_time := OSGetTickCount (kernel s4)\<rparr>)"
      unfolding unet_send_def Let_def up b_def [symmetric] loop
      by (simp only: True prod.case bool.case s2_def [symmetric] n2(2) p(1) Option.bind.bind_lunit
          s3_def [symmetric] go(1,2))
    have tick: "the_buffer b (x\<lparr>last_transmition_time := z\<rparr>) = the_buffer b x" for x z
      by (simp add: the_buffer_def split: buffer.split)
    show ?thesis using go(3) by (simp add: send tick)
  qed
qed

section \<open>End to end\<close>

lemma copy_payload_cong:
  assumes "endpoint c st' = endpoint c st" and "\<And>b. bytes (the_buffer b st') = bytes (the_buffer b st)"
  shows "copy_payload c st' = copy_payload c st"
  by (simp only: copy_payload_def assms)

text \<open>The endpoint that listens gets the packet; what it will copy is the payload.\<close>

lemma deliver_payload:
  assumes "tp_list st xs" and "byte (the_buffer b st) UNET_NEXT_HEADER = NEXT_HEADER_UNET_APP"
    and "carries (the_buffer b st) src dst len buffer" and "35 + unat len \<le> 128"
    and "listener dst xs st = Some e" and "wake_up_sem (endpoint e st) = Some i" and "App_Callback st = None"
  obtains st' where "deliver b st = Some st'" and "copy_payload e st' = Some (take (unat len) buffer)"
    and "sender_port (endpoint e st') = src" and "sender_address (endpoint e st') = addr64_at UNET_SRC_64 (the_buffer b st)"
    and "wake_up_sem (endpoint e st') = Some i" and "kernel st' = snd (OSSemPost i (kernel st))"
    and "the_net st' = NODESTAT_UPDATE netapprx (the_net st)"
proof -
  let ?r = "the_buffer b st"
  let ?s = "st\<lparr>the_net := NODESTAT_UPDATE netapprx (the_net st)\<rparr>"
  have port: "byte ?r UNET_DEST_PORT = dst" "byte ?r UNET_APP_PAYLOAD_LEN = len" "byte ?r UNET_SOURCE_PORT = src"
    "take (unat len) (drop 35 (bytes ?r)) = take (unat len) buffer"
    using assms(3) by (simp_all add: carries_def)
  have "e \<in> set xs" using assms(5) by (auto simp: listener_def find_Some_iff)
  then have el: "e < length (endpoints ?s)" using tp_listD(2) [OF assms(1)] by simp
  let ?f = "\<lambda>x. x\<lparr>payload_ptr := Some b, payload_size := len, sender_port := src,
      sender_address := addr64_at UNET_SRC_64 ?r\<rparr>"
  let ?t = "(upd_endpoint e ?f ?s)\<lparr>kernel := snd (OSSemPost i (kernel st))\<rparr>"
  have ep: "endpoint e (upd_endpoint e ?f ?s) = ?f (endpoint e st)"
    using endpoint_upd [OF el, of ?f e] by simp
  have "deliver b st = hand_over b e ?s"
    using deliver_finds [OF assms(1,2)] assms(5) port(1) by simp
  also have "\<dots> = Some ?t"
    using ep assms(6,7) port(2,3) by (simp add: hand_over_def post_sem_def Let_def)
  finally have d: "deliver b st = Some ?t" .
  have buf: "the_buffer b ?t = ?r" by simp
  have "copy_payload e ?t = Some (take (unat len) buffer)"
    using assms(4) port(4) ep buf by (simp add: copy_payload_def Let_def)
  then show thesis by (intro that [OF d]) (use ep assms(6) in simp_all)
qed



end
