(* ===== verification/Transport_Examples.thy ===== *)
theory Transport_Examples
  imports Transport_Flow
begin

text \<open>A node with two endpoints, at which the theorems of the transport layer are applied.\<close>

definition sample_endpoint :: endpoint where
  "sample_endpoint = \<lparr>src_port = 80, dst_port = 81, payload_ptr = None, payload_size = 0,
     dest_address = replicate 8 2, sender_address = replicate 8 0, sender_port = 0,
     wake_up_sem = Some 0, tp_next = None, tp_previous = None\<rparr>"

text \<open>The application payload 7, 8 for port 80 is in the buffer for packets up.\<close>

definition sample_stack :: stack where
  "sample_stack = \<lparr>endpoints = [sample_endpoint, sample_endpoint\<lparr>src_port := 90\<rparr>],
     unet_tp_head = Some 0, unet_tp_tail = Some 0, App_Callback = None, last_transmition_time = 0,
     the_net = sample_net\<lparr>created := \<lambda>_. True,
       packet_up := sample_packet\<lparr>bytes := (replicate 128 0)
         [15 := NEXT_HEADER_UNET_APP, 32 := 99, 33 := 80, 34 := 2, 35 := 7, 36 := 8]\<rparr>\<rparr>,
     kernel = os_globals\<rparr>"

lemma sample_stack_list: "tp_list sample_stack [0]"
  by (simp add: tp_list_def sample_stack_def sample_endpoint_def)

lemma server_client_list_witness:
  "tp_list (IncludeServerClient 1 sample_stack) [0, 1] \<and>
   (\<exists>st'. RemoveServerClient 0 sample_stack = Some st' \<and> tp_list st' [])"
proof -
  have "1 < length (endpoints sample_stack) \<and> 1 \<notin> set [0 :: nat]" by (simp add: sample_stack_def)
  then have a: "tp_list (IncludeServerClient 1 sample_stack) [0, 1]"
    using conjunct1 [OF server_client_list [OF sample_stack_list, of 1]] by simp
  have "\<exists>st'. RemoveServerClient 0 sample_stack = Some st' \<and> tp_list st' []"
    using conjunct2 [OF server_client_list [OF sample_stack_list, of 0]] by simp
  with a show ?thesis by blast
qed

lemma sample_up: "the_buffer Up_Buffer sample_stack = sample_packet\<lparr>bytes := (replicate 128 0)
    [15 := NEXT_HEADER_UNET_APP, 32 := 99, 33 := 80, 34 := 2, 35 := 7, 36 := 8]\<rparr>"
  by (simp add: the_buffer_def sample_stack_def)

lemma sample_app: "byte (the_buffer Up_Buffer sample_stack) UNET_NEXT_HEADER = NEXT_HEADER_UNET_APP"
  by (simp add: sample_up)

lemma sample_ports: "byte (the_buffer Up_Buffer sample_stack) UNET_DEST_PORT = 80"
  by (simp add: sample_up)

lemma sample_sems:
  "\<forall>x \<in> set [0]. wake_up_sem (endpoint x sample_stack) \<noteq> None" "App_Callback sample_stack = None"
  "listener 80 [0] sample_stack = Some 0" "wake_up_sem (endpoint 0 sample_stack) = Some 0"
  by (simp_all add: sample_stack_def sample_endpoint_def listener_def)

lemma deliver_first_listener_witness:
  "\<exists>st'. deliver Up_Buffer sample_stack = Some st' \<and> payload_ptr (endpoint 0 st') = Some Up_Buffer"
  using deliver_first_listener [OF sample_stack_list sample_app sample_sems(1,2)]
  unfolding sample_ports sample_sems(3) by auto

lemma sample_carries: "carries (the_buffer Up_Buffer sample_stack) 99 80 2 [7, 8]"
proof -
  have "take 2 (drop 35 ((replicate 128 (0 :: u8))[15 := 254, 32 := 99, 33 := 80, 34 := 2, 35 := 7, 36 := 8])) = [7, 8]"
    by (rule nth_equalityI) (auto simp: less_Suc_eq numeral_2_eq_2)
  then show ?thesis by (simp add: carries_def sample_up)
qed


lemma unet_send_result_witness:
  "\<exists>r st'. unet_send (\<lambda>_ s. s) (\<lambda>s. s) 0 [1, 2, 3] 3 10 sample_stack = Some (r, st')"
proof -
  have po: "packet_ok (packet_up (the_net sample_stack))"
    using sample_packet_ok by (simp add: sample_stack_def packet_ok_def)
  have "net_ok (the_net sample_stack)"
    using sample_net_ok po by (simp add: net_ok_def sample_stack_def)
  then have r: "ready 0 sample_endpoint sample_stack"
    by (simp add: ready_def sample_stack_def all_created_def)
  have l: "35 + unat (3 :: u8) \<le> 128" "unat (3 :: u8) \<le> length [1, 2, 3 :: u8]" by simp_all
  show ?thesis
    using unet_send_result [where wait = "\<lambda>_ s. s" and pause = "\<lambda>s. s" and t = 10, OF r _ _ l] by blast
qed

end
