(* ===== verification/Core_Tasks.thy ===== *)
theory Core_Tasks
  imports Transport Trickle
begin

text \<open>
  The tasks of the stack, \<^verbatim>\<open>uNET/unet_core.c\<close>, and the radio interrupt.  A task is cut where it
  waits: at an \<open>OSSemPend\<close> and before each transmission, during which the other tasks run.  The
  place where a task stands is part of the state, and one definition is the code from one place
  to the next.  \<open>taken\<close> counts the tokens that pends have consumed of each semaphore, next to
  the history \<open>posted\<close> of the posts.  \<open>None\<close> is a fault: NULL followed, an index outside an
  array, a division by zero, a \<^verbatim>\<open>REQUIRE_FOREVER\<close> that fails.
\<close>

section \<open>State\<close>

datatype ack_phase = Ack_Idle | Ack_Sending
datatype down_phase = Down_Request | Down_Sending u8 | Down_Ack u8
datatype up_phase = Up_Request | Up_Sending u8 | Up_Ack u8
datatype link_phase = Link_Waiting | Link_Sending

text \<open>
  The two static buffers for acknowledgements are seen through pointers to \<open>packet_t\<close>, which is
  longer than they are: \<open>ack_down\<close> and \<open>ack_up\<close> are the memory behind these pointers.
\<close>

record core =
  core_stack :: stack
  taken :: "signal \<Rightarrow> nat"
  generator :: "u16 \<times> pcg32_random_t"
  timer_link :: trickle_t
  timer_down :: trickle_t
  timer_down_retry :: trickle_t
  timer_up_retry :: trickle_t
  link_at :: link_phase
  down_ack_at :: ack_phase
  down_at :: down_phase
  up_ack_at :: ack_phase
  up_at :: up_phase
  ack_down :: packet
  ack_up :: packet
  radio_state :: u8

abbreviation core_net :: "core \<Rightarrow> net" where "core_net k \<equiv> the_net (core_stack k)"

definition with_net :: "net \<Rightarrow> core \<Rightarrow> core" where
  "with_net n k = k\<lparr>core_stack := (core_stack k)\<lparr>the_net := n\<rparr>\<rparr>"

definition available :: "signal \<Rightarrow> core \<Rightarrow> bool" where
  "available sig k \<longleftrightarrow> taken k sig < count_list (posted (core_net k)) sig"

definition take_token :: "signal \<Rightarrow> core \<Rightarrow> core" where
  "take_token sig k = k\<lparr>taken := (taken k)(sig := taken k sig + 1)\<rparr>"

definition run_timer :: "trickle_t \<Rightarrow> core \<Rightarrow> (trickle_t \<times> core) option" where
  "run_timer timer k = do {
     (t1, rng) \<leftarrow> run_trickle (snd (generator k)) timer;
     Some (t1, k\<lparr>generator := (fst (generator k), rng)\<rparr>)
   }"

definition set_down_state :: "packet_state \<Rightarrow> net \<Rightarrow> net" where
  "set_down_state x n = n\<lparr>packet_down := (packet_down n)\<lparr>state := x\<rparr>\<rparr>"

definition set_up_state :: "packet_state \<Rightarrow> net \<Rightarrow> net" where
  "set_up_state x n = n\<lparr>packet_up := (packet_up n)\<lparr>state := x\<rparr>\<rparr>"

abbreviation (input) NWK_TX_RETRIES :: u8 where "NWK_TX_RETRIES \<equiv> 3"
abbreviation (input) MAX_PACKET_ACK_SIZE :: nat where "MAX_PACKET_ACK_SIZE \<equiv> 30"

section \<open>The interrupt and the radio task\<close>

abbreviation (input) TX_OK :: u8 where "TX_OK \<equiv> 4"
abbreviation (input) AUTOACK :: u8 where "AUTOACK \<equiv> 2"
abbreviation (input) RX_OK :: u8 where "RX_OK \<equiv> 32"
abbreviation (input) RX_DISABLED :: u8 where "RX_DISABLED \<equiv> 64"

definition UNET_radio_isr_handler :: "core \<Rightarrow> core option" where
  "UNET_radio_isr_handler k =
     (let st = radio_state k in do {
        k1 \<leftarrow> (if st AND RX_OK = RX_OK then do {
                  let k' = k\<lparr>radio_state := (radio_state k OR RX_DISABLED) AND NOT RX_OK\<rparr>;
                  n \<leftarrow> post Radio_RX_Event (core_net k');
                  Some (with_net n k')
                } else Some k);
        (if st AND TX_OK = TX_OK then do {
           let k' = k1\<lparr>radio_state := radio_state k1 AND NOT TX_OK\<rparr>;
           n \<leftarrow> post Radio_TX_Event (core_net k');
           Some (with_net n k')
         } else Some k1)
      })"

text \<open>
  The frame that the driver delivers, its strength, quality and the answer about its check
  sequence are inputs.  The receive buffer is cleared after each frame, so it is local here; the
  driver writes the frame into it, and a frame that does not fit is an access outside it.
\<close>

record reception =
  rx_frame :: "u8 list"
  rx_rssi :: u8
  rx_lqi :: u8
  rx_crc :: bool

definition receive_buffer :: "reception \<Rightarrow> packet \<Rightarrow> packet" where
  "receive_buffer f p0 =
     (let len = of_nat (length (rx_frame f)) :: u8;
          p1 = put_all MAC_FRAME_CTRL (rx_frame f) p0;
          p2 = put_info PKTINFO_SIZE len (put PHY_PKT_SIZE len p1);
          p3 = put_info PKTINFO_LQI (rx_lqi f) (put_info PKTINFO_RSSI (rx_rssi f) p2)
      in p3\<lparr>state := PACKET_BUSY\<rparr>)"

definition UNET_Radio_turn :: "device \<Rightarrow> reception \<Rightarrow> u8 list \<Rightarrow> core \<Rightarrow> core option" where
  "UNET_Radio_turn dev f memory k0 =
     (let k = take_token Radio_RX_Event k0;
          p0 = \<lparr>info = replicate 12 0, bytes = memory, state = PACKET_BUSY\<rparr>
      in if MAC_FRAME_CTRL + length (rx_frame f) > MAX_PACKET_SIZE then None
      else do {
        n \<leftarrow> (if 0 < length (rx_frame f) then do {
                 (ack, p, n1) \<leftarrow> ieee802154_packet_input dev (rx_crc f) (receive_buffer f p0)
                                   (NODESTAT_UPDATE rxed (core_net k));
                 Some n1
               } else Some (core_net k));
        Some ((with_net n k)\<lparr>radio_state := (radio_state k AND NOT RX_OK) AND NOT RX_DISABLED\<rparr>)
      })"

section \<open>The acknowledgement tasks\<close>

definition ack_copy :: "packet \<Rightarrow> packet \<Rightarrow> packet" where
  "ack_copy r memory =
     memory\<lparr>info := info r, bytes := take MAX_PACKET_ACK_SIZE (bytes r) @ drop MAX_PACKET_ACK_SIZE (bytes memory)\<rparr>"

definition UNET_Router_Down_Ack_begin :: "core \<Rightarrow> core" where
  "UNET_Router_Down_Ack_begin k0 =
     (let k = take_token Router_Down_Ack_Request k0;
          a1 = (ack_copy (packet_down (core_net k)) (ack_down k))\<lparr>state := PACKET_WAITING_TX\<rparr>
      in k\<lparr>ack_down := link_packet_create_ack (node_data (core_net k)) a1, down_ack_at := Ack_Sending\<rparr>)"

text \<open>
  The transmission of the acknowledgement, whose outcome is noted in both packets; the loop
  around it is left after one pass, since the outcome never is \<open>PACKET_WAITING_TX\<close>.  Then the
  packet is dropped, delivered or routed.
\<close>

definition down_ack_outcome :: "send_result \<Rightarrow> packet_state" where
  "down_ack_outcome res = (case res of PACKET_SEND_OK \<Rightarrow> PACKET_ACKED | PACKET_SEND_ERR \<Rightarrow> PACKET_NOT_ACKED)"

definition down_ack_dispatch :: "stack \<Rightarrow> stack option" where
  "down_ack_dispatch st =
     (let n = the_net st in
      if packet_info_get PKTINFO_DUPLICATED (packet_down n) = 1 then
        Some (st\<lparr>the_net := NODESTAT_UPDATE dupnet (n\<lparr>packet_down := packet_release_down (packet_down n)\<rparr>)\<rparr>)
      else
        (let n1 = link_set_neighbor_seqnum (packet_down n) n in
         if addr64_at UNET_DEST_64 (packet_down n1) = node_addr64_get (node_data n1) then do {
           st1 \<leftarrow> deliver Down_Buffer (st\<lparr>the_net := set_down_state PACKET_DELIVERED n1\<rparr>);
           Some (release Down_Buffer st1)
         }
         else do {
           (ok, n2) \<leftarrow> unet_router_down n1;
           if ok then do { n3 \<leftarrow> post Router_Down_Route_Request n2; Some (st\<lparr>the_net := n3\<rparr>) }
           else Some (release Down_Buffer (st\<lparr>the_net := n2\<rparr>))
         }))"

definition UNET_Router_Down_Ack_end :: "config \<Rightarrow> (nat \<Rightarrow> attempt) \<Rightarrow> core \<Rightarrow> core option" where
  "UNET_Router_Down_Ack_end c env k =
     (case unet_packet_output c env NWK_TX_RETRIES (core_net k) of
        (res, n1) \<Rightarrow> do {
          st \<leftarrow> down_ack_dispatch ((core_stack k)\<lparr>the_net := set_down_state (down_ack_outcome res) n1\<rparr>);
          Some (k\<lparr>core_stack := st, ack_down := (ack_down k)\<lparr>state := down_ack_outcome res\<rparr>,
                  down_ack_at := Ack_Idle\<rparr>)
        })"

definition UNET_Router_Up_Ack_begin :: "core \<Rightarrow> core" where
  "UNET_Router_Up_Ack_begin k0 =
     (let k = take_token Router_Up_Ack_Request k0
      in k\<lparr>ack_up := link_packet_create_ack (node_data (core_net k)) (ack_copy (packet_up (core_net k)) (ack_up k)),
           up_ack_at := Ack_Sending\<rparr>)"

text \<open>What the router answers for a packet on its way up is not looked at.\<close>

definition up_ack_dispatch :: "stack \<Rightarrow> stack option" where
  "up_ack_dispatch st =
     (let n = the_net st in
      if addr64_at UNET_DEST_64 (packet_up n) = node_addr64_get (node_data n) then do {
        st1 \<leftarrow> deliver Up_Buffer st;
        Some (release Up_Buffer st1)
      }
      else do {
        (res, n1) \<leftarrow> unet_router_up n;
        n2 \<leftarrow> post Router_Up_Route_Request n1;
        Some (st\<lparr>the_net := n2\<rparr>)
      })"

definition UNET_Router_Up_Ack_end :: "config \<Rightarrow> (nat \<Rightarrow> attempt) \<Rightarrow> core \<Rightarrow> core option" where
  "UNET_Router_Up_Ack_end c env k =
     (case unet_packet_output c env NWK_TX_RETRIES (core_net k) of
        (res, n1) \<Rightarrow> do {
          st \<leftarrow> up_ack_dispatch ((core_stack k)\<lparr>the_net := n1\<rparr>);
          Some (k\<lparr>core_stack := st, up_ack_at := Ack_Idle\<rparr>)
        })"

section \<open>The task that routes down\<close>

text \<open>\<open>wait_again\<close>: the timer of the advertisements runs and the task waits for a request.\<close>

definition down_wait :: "core \<Rightarrow> core option" where
  "down_wait k = do { (t, k1) \<leftarrow> run_timer (timer_down k) k; Some (k1\<lparr>timer_down := t, down_at := Down_Request\<rparr>) }"

text \<open>The test of the loop decrements \<open>routing_retries\<close>; a fruitless test ends the loop.\<close>

definition down_loop_test :: "u8 \<Rightarrow> core \<Rightarrow> core option" where
  "down_loop_test routing_retries k =
     (if routing_retries > 0 then Some (k\<lparr>down_at := Down_Sending (routing_retries - 1)\<rparr>) else down_wait k)"

definition down_wants_advert :: "device \<Rightarrow> bool \<Rightarrow> core \<Rightarrow> bool" where
  "down_wants_advert dev woken k \<longleftrightarrow> dev \<noteq> PAN_COORDINATOR \<and>
     (\<not> woken \<or> is_trickle_reseted (timer_down k) \<and> state (packet_down (core_net k)) = PACKET_IDLE)"

definition UNET_Router_Down_request :: "device \<Rightarrow> bool \<Rightarrow> core \<Rightarrow> core option" where
  "UNET_Router_Down_request dev woken k0 =
     (let k = (if woken then take_token Router_Down_Route_Request k0 else k0) in do {
        (res, n) \<leftarrow> (if down_wants_advert dev woken k then unet_router_adv (core_net k)
                     else Some (RESULT_PACKET_SEND_OK, core_net k));
        if res \<noteq> RESULT_PACKET_SEND_OK then down_wait (with_net n k)
        else down_loop_test (10 * NWK_TX_RETRIES)
               ((with_net (set_down_state PACKET_WAITING_TX n) k)
                  \<lparr>timer_down_retry := reset_trickle (timer_down_retry k)\<rparr>)
      })"

definition down_transmit :: "config \<Rightarrow> (nat \<Rightarrow> attempt) \<Rightarrow> u8 \<Rightarrow> net \<Rightarrow> (u8 \<times> net) option" where
  "down_transmit c env routing_retries n =
     (case unet_packet_output c env NWK_TX_RETRIES n of
        (PACKET_SEND_OK, n1) \<Rightarrow> do {
          parent \<leftarrow> link_get_parent_addr16 n1;
          n2 \<leftarrow> (if packet_get_dest_addr16 (packet_down n1) \<noteq> parent then unet_update_packet_down_dest n1 else Some n1);
          Some (routing_retries + 1, n2)
        }
      | (PACKET_SEND_ERR, n1) \<Rightarrow> Some (routing_retries, n1))"

definition UNET_Router_Down_send :: "config \<Rightarrow> (nat \<Rightarrow> attempt) \<Rightarrow> u8 \<Rightarrow> core \<Rightarrow> core option" where
  "UNET_Router_Down_send c env routing_retries k = do {
     (left, n) \<leftarrow> down_transmit c env routing_retries (core_net k);
     (t, k1) \<leftarrow> run_timer (timer_down_retry k) (with_net (set_down_state PACKET_WAITING_ACK n) k);
     Some (k1\<lparr>timer_down_retry := t, down_at := Down_Ack left\<rparr>)
   }"

definition UNET_Router_Down_acked :: "core \<Rightarrow> core option" where
  "UNET_Router_Down_acked k0 =
     (let k = take_token Router_Down_Ack_Received k0;
          n1 = NODESTAT_UPDATE routed (core_net k);
          n2 = n1\<lparr>packet_down := packet_release_down (packet_down n1)\<rparr>
      in down_wait (with_net (set_param NODE_PARENTFAILURES 0 n2) k))"

definition down_lost :: "net \<Rightarrow> net" where
  "down_lost n = NODESTAT_UPDATE routdrop (n\<lparr>packet_down := packet_release_down (packet_down n)\<rparr>)"

definition UNET_Router_Down_timeout :: "u8 \<Rightarrow> core \<Rightarrow> core option" where
  "UNET_Router_Down_timeout routing_retries k =
     (let n = NODESTAT_UPDATE txnacked (core_net k)
      in down_loop_test routing_retries (with_net (if routing_retries = 0 then down_lost n else n) k))"

section \<open>The task that routes up\<close>

definition up_loop_test :: "u8 \<Rightarrow> core \<Rightarrow> core" where
  "up_loop_test routing_retries k =
     (if routing_retries > 0 then k\<lparr>up_at := Up_Sending (routing_retries - 1)\<rparr> else k\<lparr>up_at := Up_Request\<rparr>)"

definition UNET_Router_Up_request :: "core \<Rightarrow> core" where
  "UNET_Router_Up_request k0 =
     (let k = take_token Router_Up_Route_Request k0
      in up_loop_test NWK_TX_RETRIES (k\<lparr>timer_up_retry := reset_trickle (timer_up_retry k)\<rparr>))"

definition UNET_Router_Up_send :: "config \<Rightarrow> (nat \<Rightarrow> attempt) \<Rightarrow> u8 \<Rightarrow> core \<Rightarrow> core option" where
  "UNET_Router_Up_send c env routing_retries k =
     (case unet_packet_output c env NWK_TX_RETRIES (core_net k) of
        (res, n) \<Rightarrow> do {
          (t, k1) \<leftarrow> run_timer (timer_up_retry k) (with_net (set_up_state PACKET_WAITING_ACK n) k);
          Some (k1\<lparr>timer_up_retry := t, up_at := Up_Ack routing_retries\<rparr>)
        })"

definition UNET_Router_Up_acked :: "core \<Rightarrow> core" where
  "UNET_Router_Up_acked k0 =
     (let k = take_token Router_Up_Ack_Received k0;
          n = core_net k
      in (with_net (NODESTAT_UPDATE routed (n\<lparr>packet_up := packet_release_up (packet_up n)\<rparr>)) k)
           \<lparr>up_at := Up_Request\<rparr>)"

definition up_lost :: "net \<Rightarrow> net" where
  "up_lost n0 = (let n = NODESTAT_UPDATE routdrop n0 in n\<lparr>packet_up := packet_release_up (packet_up n)\<rparr>)"

definition UNET_Router_Up_timeout :: "u8 \<Rightarrow> core \<Rightarrow> core" where
  "UNET_Router_Up_timeout routing_retries k =
     (let n = NODESTAT_UPDATE txnacked (core_net k)
      in up_loop_test routing_retries (with_net (if routing_retries = 0 then up_lost n else n) k))"

section \<open>The link task and the periodic check\<close>

definition UNET_Link_wake :: "device \<Rightarrow> bool \<Rightarrow> core \<Rightarrow> core option" where
  "UNET_Link_wake dev woken k0 =
     (if woken then
        (let k = (take_token Link_Packet_TX_Event k0)\<lparr>timer_link := reset_trickle (timer_link k0)\<rparr> in do {
           k1 \<leftarrow> (if param NODE_DISTANCE (core_net k) \<noteq> NODE_DISTANCE_INIT dev then do {
                     n \<leftarrow> post Router_Down_Route_Request (core_net k);
                     Some ((with_net n k)\<lparr>timer_down := reset_trickle (timer_down k)\<rparr>)
                   } else Some k);
           Some ((with_net (link_packet_create dev (core_net k1)) k1)\<lparr>link_at := Link_Sending\<rparr>)
         })
      else Some ((with_net (link_packet_create dev (core_net k0)) k0)\<lparr>link_at := Link_Sending\<rparr>))"

definition UNET_Link_send :: "config \<Rightarrow> (nat \<Rightarrow> attempt) \<Rightarrow> core \<Rightarrow> core option" where
  "UNET_Link_send c env k =
     (case unet_packet_output c env NWK_TX_RETRIES (core_net k) of
        (res, n) \<Rightarrow> do {
          (t, k1) \<leftarrow> run_timer (timer_link k) (with_net n k);
          Some (k1\<lparr>timer_link := t, link_at := Link_Waiting\<rparr>)
        })"

text \<open>The callback of the soft timer answers the ticks until its next call.\<close>

definition neighbourhood_callback :: "device \<Rightarrow> core \<Rightarrow> (u64 \<times> core) option" where
  "neighbourhood_callback dev k = do {
     n \<leftarrow> link_verify_neighbourhood dev (core_net k);
     Some (131072, with_net n k)
   }"

section \<open>Start\<close>

text \<open>
  Each task first creates its semaphores and opens its timers, and runs up to its first wait.  They
  start in the order of their priorities.
\<close>

definition create :: "signal \<Rightarrow> net \<Rightarrow> net" where
  "create sig n = n\<lparr>created := (created n)(sig := True)\<rparr>"

definition open_timer :: "u8 \<times> u8 \<Rightarrow> u64 \<Rightarrow> u64 \<Rightarrow> core \<Rightarrow> (trickle_t \<times> core) option" where
  "open_timer addr i m k = do { (t, g) \<leftarrow> open_trickle addr i m (generator k); Some (t, k\<lparr>generator := g\<rparr>) }"

definition UNET_Radio_start :: "device \<Rightarrow> config \<Rightarrow> core \<Rightarrow> core" where
  "UNET_Radio_start dev c k =
     (let pan_id_64 = [fst (PANID_INIT c), snd (PANID_INIT c), 0, 0, 0, 0, 0, 0];
          node_addr64 = [fst (PANID_INIT c), snd (PANID_INIT c), 0, 0, 0, 0, fst (MAC16_INIT c), snd (MAC16_INIT c)];
          n0 = core_net k;
          n1 = n0\<lparr>node_data := node_addr64_set node_addr64 (node_pan_id64_set pan_id_64 (node_data n0))\<rparr>;
          n2 = set_param NODE_ADDR16L (snd (MAC16_INIT c)) (set_param NODE_ADDR16H (fst (MAC16_INIT c)) n1);
          n3 = set_param NODE_PANID16L (snd (PANID_INIT c)) (set_param NODE_PANID16H (fst (PANID_INIT c)) n2);
          n4 = set_param NODE_PARENTINDEX NO_PARENT (set_param NODE_DISTANCE (NODE_DISTANCE_INIT dev) n3);
          n5 = set_param NODE_SEQ_NUM (fst (MAC16_INIT c)) (set_param NODE_CHANNEL (CHANNEL_INIT_VALUE c) n4)
      in (with_net n5 k)\<lparr>radio_state := radio_state k OR AUTOACK\<rparr>)"

definition UNET_Link_start :: "config \<Rightarrow> core \<Rightarrow> core option" where
  "UNET_Link_start c k = do {
     let n = link_neighbor_table_init (create Link_Packet_TX_Event (core_net k));
     (t, k1) \<leftarrow> open_timer (MAC16_INIT c) 2000 131072 (with_net n k);
     (t1, k2) \<leftarrow> run_timer t k1;
     Some (k2\<lparr>timer_link := t1, link_at := Link_Waiting\<rparr>)
   }"

definition UNET_Router_Down_start :: "device \<Rightarrow> config \<Rightarrow> core \<Rightarrow> core option" where
  "UNET_Router_Down_start dev c k = do {
     let n = create Router_Down_Ack_Received (create Router_Down_Route_Request (core_net k));
     let (i, m) = (case dev of ROUTER \<Rightarrow> (4000, 524288) | PAN_COORDINATOR \<Rightarrow> (0, 0));
     (t, k1) \<leftarrow> open_timer (MAC16_INIT c) i m (with_net n k);
     (r, k2) \<leftarrow> open_timer (MAC16_INIT c) 64 256 k1;
     down_wait (k2\<lparr>timer_down := t, timer_down_retry := r\<rparr>)
   }"

definition UNET_Router_Up_start :: "config \<Rightarrow> core \<Rightarrow> core option" where
  "UNET_Router_Up_start c k = do {
     let n = create Router_Up_Ack_Received (create Router_Up_Route_Request (core_net k));
     (t, k1) \<leftarrow> open_timer (MAC16_INIT c) 64 256 (with_net n k);
     Some (k1\<lparr>timer_up_retry := t, up_at := Up_Request\<rparr>)
   }"

text \<open>\<open>UNET_Init\<close> creates the two semaphores of the radio; then the six tasks start.\<close>

definition UNET_start :: "device \<Rightarrow> config \<Rightarrow> core \<Rightarrow> core option" where
  "UNET_start dev c k0 = do {
     let k1 = with_net (create Radio_TX_Event (create Radio_RX_Event (core_net k0))) k0;
     k2 \<leftarrow> UNET_Link_start c (UNET_Radio_start dev c k1);
     let k3 = (with_net (create Router_Down_Ack_Request (core_net k2)) k2)\<lparr>down_ack_at := Ack_Idle\<rparr>;
     let k4 = (with_net (create Router_Up_Ack_Request (core_net k3)) k3)\<lparr>up_ack_at := Ack_Idle\<rparr>;
     k5 \<leftarrow> UNET_Router_Down_start dev c k4;
     UNET_Router_Up_start c k5
   }"

text \<open>An application registers a semaphore that is posted with every delivery.\<close>

definition UNET_Set_App_Callback :: "nat option \<Rightarrow> core \<Rightarrow> core" where
  "UNET_Set_App_Callback callback k = k\<lparr>core_stack := (core_stack k)\<lparr>App_Callback := callback\<rparr>\<rparr>"

end
