(* ===== verification/Core_System.thy ===== *)
theory Core_System
  imports Core_Tasks Transport_Flow
begin

text \<open>
  The whole stack of a node as a transition system: the radio, the applications and the kernel's
  scheduler choose the next event, a task runs from where it stands to its next wait.  The
  theories above this one show which states can be reached.
\<close>

section \<open>Events\<close>

datatype core_event =
    Radio_Interrupt u8
  | Radio_Frame reception "u8 list"
  | Down_Ack_Begin | Down_Ack_End "nat \<Rightarrow> attempt"
  | Up_Ack_Begin | Up_Ack_End "nat \<Rightarrow> attempt"
  | Down_Go bool | Down_Send "nat \<Rightarrow> attempt" | Down_Acked | Down_Timeout
  | Up_Go | Up_Send "nat \<Rightarrow> attempt" | Up_Acked | Up_Timeout
  | Link_Wake bool | Link_Send "nat \<Rightarrow> attempt"
  | Neighbourhood_Check
  | App_Send nat "u8 list" u8

text \<open>
  A pend returns when a token is there, and by timeout only when none is.  The radio delivers
  frames that fit into the receive buffer, and an application sends payloads that fit into a packet.
\<close>

fun enabled :: "core_event \<Rightarrow> core \<Rightarrow> bool" where
  "enabled (Radio_Interrupt st) k = True"
| "enabled (Radio_Frame f memory) k =
     (available Radio_RX_Event k \<and> MAC_FRAME_CTRL + length (rx_frame f) \<le> MAX_PACKET_SIZE \<and>
      length memory = MAX_PACKET_SIZE)"
| "enabled Down_Ack_Begin k = (down_ack_at k = Ack_Idle \<and> available Router_Down_Ack_Request k)"
| "enabled (Down_Ack_End env) k = (down_ack_at k = Ack_Sending)"
| "enabled Up_Ack_Begin k = (up_ack_at k = Ack_Idle \<and> available Router_Up_Ack_Request k)"
| "enabled (Up_Ack_End env) k = (up_ack_at k = Ack_Sending)"
| "enabled (Down_Go woken) k = (down_at k = Down_Request \<and> woken = available Router_Down_Route_Request k)"
| "enabled (Down_Send env) k = (case down_at k of Down_Sending r \<Rightarrow> True | _ \<Rightarrow> False)"
| "enabled Down_Acked k =
     ((case down_at k of Down_Ack r \<Rightarrow> True | _ \<Rightarrow> False) \<and> available Router_Down_Ack_Received k)"
| "enabled Down_Timeout k =
     ((case down_at k of Down_Ack r \<Rightarrow> True | _ \<Rightarrow> False) \<and> \<not> available Router_Down_Ack_Received k)"
| "enabled Up_Go k = (up_at k = Up_Request \<and> available Router_Up_Route_Request k)"
| "enabled (Up_Send env) k = (case up_at k of Up_Sending r \<Rightarrow> True | _ \<Rightarrow> False)"
| "enabled Up_Acked k =
     ((case up_at k of Up_Ack r \<Rightarrow> True | _ \<Rightarrow> False) \<and> available Router_Up_Ack_Received k)"
| "enabled Up_Timeout k =
     ((case up_at k of Up_Ack r \<Rightarrow> True | _ \<Rightarrow> False) \<and> \<not> available Router_Up_Ack_Received k)"
| "enabled (Link_Wake woken) k = (link_at k = Link_Waiting \<and> woken = available Link_Packet_TX_Event k)"
| "enabled (Link_Send env) k = (link_at k = Link_Sending)"
| "enabled Neighbourhood_Check k = True"
| "enabled (App_Send p buffer len) k =
     (p < length (endpoints (core_stack k)) \<and> 35 + unat len \<le> 128 \<and> unat len \<le> length buffer)"

definition app_send :: "nat \<Rightarrow> u8 list \<Rightarrow> u8 \<Rightarrow> core \<Rightarrow> core option" where
  "app_send p buffer len k = do {
     (code, st) \<leftarrow> unet_send (\<lambda>_ st. st) (\<lambda>st. st) p buffer len 0 (core_stack k);
     Some (k\<lparr>core_stack := st\<rparr>)
   }"

fun core_turn :: "device \<Rightarrow> config \<Rightarrow> core_event \<Rightarrow> core \<Rightarrow> core option" where
  "core_turn dev c (Radio_Interrupt st) k = UNET_radio_isr_handler (k\<lparr>radio_state := st\<rparr>)"
| "core_turn dev c (Radio_Frame f memory) k = UNET_Radio_turn dev f memory k"
| "core_turn dev c Down_Ack_Begin k = Some (UNET_Router_Down_Ack_begin k)"
| "core_turn dev c (Down_Ack_End env) k = UNET_Router_Down_Ack_end c env k"
| "core_turn dev c Up_Ack_Begin k = Some (UNET_Router_Up_Ack_begin k)"
| "core_turn dev c (Up_Ack_End env) k = UNET_Router_Up_Ack_end c env k"
| "core_turn dev c (Down_Go woken) k = UNET_Router_Down_request dev woken k"
| "core_turn dev c (Down_Send env) k =
     (case down_at k of Down_Sending r \<Rightarrow> UNET_Router_Down_send c env r k | _ \<Rightarrow> None)"
| "core_turn dev c Down_Acked k = UNET_Router_Down_acked k"
| "core_turn dev c Down_Timeout k =
     (case down_at k of Down_Ack r \<Rightarrow> UNET_Router_Down_timeout r k | _ \<Rightarrow> None)"
| "core_turn dev c Up_Go k = Some (UNET_Router_Up_request k)"
| "core_turn dev c (Up_Send env) k =
     (case up_at k of Up_Sending r \<Rightarrow> UNET_Router_Up_send c env r k | _ \<Rightarrow> None)"
| "core_turn dev c Up_Acked k = Some (UNET_Router_Up_acked k)"
| "core_turn dev c Up_Timeout k =
     (case up_at k of Up_Ack r \<Rightarrow> Some (UNET_Router_Up_timeout r k) | _ \<Rightarrow> None)"
| "core_turn dev c (Link_Wake woken) k = UNET_Link_wake dev woken k"
| "core_turn dev c (Link_Send env) k = UNET_Link_send c env k"
| "core_turn dev c Neighbourhood_Check k = map_option snd (neighbourhood_callback dev k)"
| "core_turn dev c (App_Send p buffer len) k = app_send p buffer len k"

text \<open>
  Before the stack starts, its memory is zero: no semaphore exists, nothing was posted, the packet
  buffers are free; the applications have registered their endpoints \<open>xs\<close>.
\<close>

definition core_before :: "nat list \<Rightarrow> core \<Rightarrow> bool" where
  "core_before xs k \<longleftrightarrow>
     net_ok (core_net k) \<and> created (core_net k) = (\<lambda>_. False) \<and> posted (core_net k) = [] \<and> taken k = (\<lambda>_. 0) \<and>
     state (packet_up (core_net k)) = PACKET_IDLE \<and> state (packet_down (core_net k)) = PACKET_IDLE \<and>
     tp_list (core_stack k) xs \<and> (\<forall>x < length (endpoints (core_stack k)). wake_up_sem (endpoint x (core_stack k)) \<noteq> None)"

inductive core_reach :: "device \<Rightarrow> config \<Rightarrow> nat list \<Rightarrow> core \<Rightarrow> bool" for dev c xs where
  core_started: "core_before xs k0 \<Longrightarrow> UNET_start dev c k0 = Some k \<Longrightarrow> core_reach dev c xs k"
| core_stepped: "core_reach dev c xs k \<Longrightarrow> enabled ev k \<Longrightarrow> core_turn dev c ev k = Some k' \<Longrightarrow> core_reach dev c xs k'"

section \<open>Posts\<close>

text \<open>The operation from \<open>n\<close> to \<open>n'\<close> posts signals of \<open>S\<close> only.\<close>

definition posts_in :: "signal set \<Rightarrow> net \<Rightarrow> net \<Rightarrow> bool" where
  "posts_in S n n' \<longleftrightarrow> created n' = created n \<and> (\<exists>xs. posted n' = posted n @ xs \<and> set xs \<subseteq> S)"

named_theorems posts

lemma posts_same [posts]: "created n' = created n \<Longrightarrow> posted n' = posted n \<Longrightarrow> posts_in S n n'"
  by (simp add: posts_in_def)

lemma posts_refl [simp, posts]: "posts_in S n n"
  by (simp add: posts_in_def)

lemma posts_trans: "posts_in S n m \<Longrightarrow> posts_in S m p \<Longrightarrow> posts_in S n p"
  by (fastforce simp: posts_in_def)

lemma posts_mono: "posts_in S n m \<Longrightarrow> S \<subseteq> T \<Longrightarrow> posts_in T n m"
  by (fastforce simp: posts_in_def)

lemma posts_post: "post sig n = Some n' \<Longrightarrow> sig \<in> S \<Longrightarrow> posts_in S n n'"
  by (auto simp: post_def posts_in_def split: if_splits)

lemma posts_guarded: "sig \<in> S \<Longrightarrow> posts_in S n (post_guarded sig n)"
  by (simp add: post_guarded_def posts_in_def)

lemma posts_count: "posts_in S n m \<Longrightarrow> sig \<notin> S \<Longrightarrow> count_list (posted m) sig = count_list (posted n) sig"
proof -
  assume "posts_in S n m" "sig \<notin> S"
  then obtain xs where "posted m = posted n @ xs" "sig \<notin> set xs" by (auto simp: posts_in_def)
  then show ?thesis by (simp add: count_list_0_iff)
qed

lemma posts_count_le: "posts_in S n m \<Longrightarrow> count_list (posted n) sig \<le> count_list (posted m) sig"
  by (auto simp: posts_in_def)

lemma posts_created: "posts_in S n m \<Longrightarrow> created m = created n"
  by (simp add: posts_in_def)

end
