(* ===== verification/Core_Frames.thy ===== *)
theory Core_Frames
  imports Core_System
begin

text \<open>
  What each operation of the stack leaves alone: the packet buffers, and the semaphores it does
  not post.
\<close>

section \<open>Operations that touch no packet\<close>

definition link_like :: "net \<Rightarrow> net \<Rightarrow> bool" where
  "link_like n n' \<longleftrightarrow> packet_up n' = packet_up n \<and> packet_down n' = packet_down n \<and>
     posts_in {Link_Packet_TX_Event} n n'"

lemma link_like_refl [simp]: "link_like n n"
  by (simp add: link_like_def)

lemma link_like_trans: "link_like n m \<Longrightarrow> link_like m p \<Longrightarrow> link_like n p"
  unfolding link_like_def using posts_trans by metis

lemma link_like_same:
  "packet_up n' = packet_up n \<Longrightarrow> packet_down n' = packet_down n \<Longrightarrow> created n' = created n \<Longrightarrow>
     posted n' = posted n \<Longrightarrow> link_like n n'"
  by (simp add: link_like_def posts_same)

lemma link_like_post: "post Link_Packet_TX_Event n = Some n' \<Longrightarrow> link_like n n'"
  using post_packets posts_post [of Link_Packet_TX_Event n n'] by (simp add: link_like_def)

lemma link_like_guarded: "link_like n (post_guarded Link_Packet_TX_Event n)"
  using posts_guarded [of Link_Packet_TX_Event "{Link_Packet_TX_Event}" n]
  by (simp add: link_like_def post_guarded_def)

lemma posted_sel [simp]:
  "posted (set_neighbour i f s) = posted s" "posted (link_neighbor_table_init s) = posted s"
  "posted (unet_router_up_table_clear s) = posted s" "posted (forget_parent dev s) = posted s"
  "posted (mark_heard i s) = posted s" "posted (link_neighbor_symmetry_update p i s) = posted s"
  "posted (link_set_neighbor_activity p s) = posted s" "posted (link_set_neighbor_seqnum p s) = posted s"
  "created (link_set_neighbor_seqnum p s) = created s" "packet_up (link_set_neighbor_seqnum p s) = packet_up s"
  "packet_down (link_set_neighbor_seqnum p s) = packet_down s" "node_data (link_set_neighbor_seqnum p s) = node_data s"
  by (simp_all add: set_neighbour_def link_neighbor_table_init_def unet_router_up_table_clear_def Let_def
      forget_parent_def mark_heard_def link_neighbor_symmetry_update_def link_set_neighbor_activity_def
      link_set_neighbor_seqnum_def)

lemma same_but_parent_posted: "same_but_parent s s' \<Longrightarrow> posted s' = posted s \<and> created s' = created s"
  by (auto simp: same_but_parent_def)

lemma parent_switch_like:
  assumes "net_ok s" and "link_parent_switch dev s = Some s'"
  shows "link_like s s'"
proof -
  obtain s1 p1 d2 p2 s2 t where sw: "link_parent_switch dev s = Some t"
    "foldl link_parent_consider (start_depth dev s, p1, s1) [0..<8] = (d2, p2, s2)"
    "t = (let s3 = set_param NODE_DISTANCE d2 s2 in
       if p2 \<noteq> param NODE_PARENTINDEX s3 then post_guarded Link_Packet_TX_Event (set_param NODE_PARENTINDEX p2 s3)
       else s3)"
    "s1 = s \<or> s1 = set_param NODE_PARENTINDEX NO_PARENT (set_param NODE_DISTANCE (NODE_DISTANCE_INIT dev) s)"
    by (rule parent_switch_unfold [OF assms(1), where dev = dev])
  have "same_but_parent s1 s2"
    using search_keeps [of s1 "start_depth dev s" p1 "[0..<8]"] sw(2) by simp
  then have "posted s2 = posted s" "created s2 = created s" "packet_up s2 = packet_up s" "packet_down s2 = packet_down s"
    using sw(4) same_but_parent_posted by (auto simp: same_but_parent_def)
  then have l: "link_like s s3" if "s3 = set_param o1 v s2 \<or> s3 = set_param o1 v (set_param o2 w s2)" for s3 o1 v o2 w
    using that by (auto intro!: link_like_same)
  have "s' = t" using assms(2) sw(1) by simp
  then have "s' = set_param NODE_DISTANCE d2 s2 \<or>
      s' = post_guarded Link_Packet_TX_Event (set_param NODE_PARENTINDEX p2 (set_param NODE_DISTANCE d2 s2))"
    by (auto simp: sw(3) Let_def)
  then show ?thesis using l link_like_trans link_like_guarded by blast
qed

lemma find_like: "link_neighbor_table_find p s = (i, s') \<Longrightarrow> link_like s s'"
  by (auto simp: link_neighbor_table_find_def Let_def set_neighbour_def split: if_splits intro!: link_like_same)

lemma link_packet_process_like:
  assumes "net_ok s" and "link_packet_process dev p s = Some s'"
  shows "link_like s s'"
proof -
  obtain i s1 where f: "link_neighbor_table_find p s = (i, s1)" by (cases "link_neighbor_table_find p s")
  define s2 where "s2 = set_neighbour i (\<lambda>n. (heard p n)\<lparr>NeighborDistance := byte p UNET_CTRL_MSG_DISTANCE\<rparr>) s1"
  define s3 where "s3 = mark_heard i (link_neighbor_symmetry_update p i s2)"
  have "net_ok s2"
    using find_ok(1) [OF assms(1) f] by (auto simp: s2_def heard_def intro!: net_ok_set_neighbour)
  then have ok3: "net_ok s3" by (simp add: s3_def net_ok_symmetry_update)
  have l1: "link_like s s1" by (rule find_like [OF f])
  have l2: "link_like s s2" by (rule link_like_trans [OF l1 link_like_same]) (simp_all add: s2_def)
  have l3: "link_like s s3" by (rule link_like_trans [OF l2 link_like_same]) (simp_all add: s3_def)
  have l4: "link_like s s4" if "link_parent_switch dev s3 = Some s4" for s4
    using link_like_trans [OF l3 parent_switch_like [OF ok3 that]] .
  have l5: "link_like s s5" if "link_parent_switch dev s3 = Some s4" "post Link_Packet_TX_Event s4 = Some s5" for s4 s5
    using link_like_trans [OF l4 [OF that(1)] link_like_post [OF that(2)]] .
  define s6 where "s6 = (if dev \<noteq> PAN_COORDINATOR \<and> ParentNeighborID s3 = Addr_16b (nb s3 i)
      then unet_router_up_table_clear (link_neighbor_table_init (forget_parent dev s3)) else s3)"
  have l6: "link_like s s6" by (rule link_like_trans [OF l3 link_like_same]) (simp_all add: s6_def)
  have "link_like s (post_guarded Link_Packet_TX_Event s6)" by (rule link_like_trans [OF l6 link_like_guarded])
  then show ?thesis
    using assms(2) l1 l2 l3 l4 l5 l6
    unfolding link_packet_process_def f Let_def prod.case s2_def [symmetric] s3_def [symmetric]
      s6_def [symmetric] link_node_distance_update_def
    by (auto split: if_splits Option.bind_split_asm)
qed

lemma verify_neighbour_like:
  "verify_neighbour dev i (rst, s) = Some (rst', s') \<Longrightarrow> link_like s s'"
  unfolding verify_neighbour_def Let_def prod.case
  by (auto simp: post_def link_like_def posts_in_def split: if_splits Option.bind_split_asm)

lemma verify_loop_like:
  "verify_loop dev is (rst, s) = Some (rst', s') \<Longrightarrow> link_like s s'"
proof (induction "is" arbitrary: rst s)
  case (Cons i "is")
  then obtain r1 s1 where "verify_neighbour dev i (rst, s) = Some (r1, s1)" "verify_loop dev is (r1, s1) = Some (rst', s')"
    by (auto split: Option.bind_split_asm)
  then show ?case using Cons.IH verify_neighbour_like link_like_trans by metis
qed simp

lemma link_verify_like:
  assumes "net_ok s" and "created s Link_Packet_TX_Event" and "link_verify_neighbourhood dev s = Some s'"
  shows "link_like s s'"
proof -
  have "\<forall>i \<in> set [0..<8]. i < 8" by simp
  then obtain rst s1 where v: "verify_loop dev [0..<8] (False, s) = Some (rst, s1)" "net_ok s1"
    using verify_loop_result [OF assms(1,2) distinct_upt, where rst = False and dev = dev] by metis
  have l1: "link_like s s1" by (rule verify_loop_like [OF v(1)])
  obtain s2 where s2: "s' = s2\<lparr>NeighborTable := 0\<rparr>"
    "s2 = s1 \<or> s2 = unet_router_up_table_clear (link_neighbor_table_init s1) \<or> link_parent_switch dev s1 = Some s2"
    using assms(3) unfolding link_verify_neighbourhood_def v(1)
    by (auto split: if_splits Option.bind_split_asm)
  have "link_like s1 (unet_router_up_table_clear (link_neighbor_table_init s1))"
    by (rule link_like_same) simp_all
  then have "link_like s1 s2"
    using s2(2) parent_switch_like [OF v(2)] by auto
  moreover have "link_like s2 s'" unfolding s2(1) by (rule link_like_same) simp_all
  ultimately show ?thesis
    using link_like_trans l1 by blast
qed

lemma link_packet_create_like:
  assumes "net_ok s"
  shows "link_like s (link_packet_create dev s)"
proof -
  obtain t s1 where ty: "link_packet_type dev s = (t, s1)" by (cases "link_packet_type dev s")
  then have s1: "s1 = s\<lparr>just_reset := just_reset s1, link_reset_cnt := link_reset_cnt s1\<rparr>"
    using link_packet_type_net [of dev s] by simp
  have "link_like s1 (link_packet_create dev s)"
    unfolding link_packet_create_def Let_def ty prod.case stamp_seqnum_eq
    by (rule link_like_same) simp_all
  moreover have "link_like s s1"
    by (rule link_like_same; subst s1) simp_all
  ultimately show ?thesis using link_like_trans by blast
qed

section \<open>Transmission\<close>

text \<open>A transmission changes statistics and, with the radio, the addresses.\<close>

definition output_like :: "net \<Rightarrow> net \<Rightarrow> bool" where
  "output_like n n' \<longleftrightarrow> packet_up n' = packet_up n \<and> packet_down n' = packet_down n \<and>
     created n' = created n \<and> posted n' = posted n \<and> unet_neighbourhood n' = unet_neighbourhood n \<and>
     (net_ok n \<longrightarrow> net_ok n' \<and> param NODE_PARENTINDEX n' = param NODE_PARENTINDEX n)"

lemma output_like_trans: "output_like n m \<Longrightarrow> output_like m p \<Longrightarrow> output_like n p"
  by (simp add: output_like_def)

lemma output_like_NODESTAT [simp]: "output_like n (NODESTAT_UPDATE x n)"
  by (simp add: output_like_def param_def)

lemma net_ok_addr64:
  "net_ok s \<Longrightarrow> length a = 8 \<Longrightarrow> length b = 8 \<Longrightarrow>
     net_ok (s\<lparr>node_data := node_addr64_set a (node_pan_id64_set b (node_data s))\<rparr>)"
  by (simp add: net_ok_def node_addr64_set_def node_pan_id64_set_def node_ok_def parent_index_ok_def node_data_get_def)

lemma RadioReset_like: "output_like n (RadioReset c n)"
proof -
  let ?n = "n\<lparr>node_data := node_addr64_set a (node_pan_id64_set b (node_data n))\<rparr>"
  have step: "net_ok m \<Longrightarrow> opt < 10 \<Longrightarrow> opt \<noteq> NODE_PARENTINDEX \<Longrightarrow>
      net_ok (set_param opt v m) \<and> param NODE_PARENTINDEX (set_param opt v m) = param NODE_PARENTINDEX m" for m opt v
    using net_ok_set_param [of m opt v] param_set_param(1) [of m opt NODE_PARENTINDEX v] net_okD(1) [of m] by simp
  have p: "param NODE_PARENTINDEX (n\<lparr>node_data := node_addr64_set a (node_pan_id64_set b (node_data n))\<rparr>) =
      param NODE_PARENTINDEX n" for a b
    by (simp add: param_def node_data_get_def node_addr64_set_def node_pan_id64_set_def)
  have "net_ok n \<longrightarrow> net_ok (RadioReset c n) \<and> param NODE_PARENTINDEX (RadioReset c n) = param NODE_PARENTINDEX n"
    using net_ok_addr64 [of n] p unfolding RadioReset_def Let_def by (simp add: step)
  then show ?thesis by (simp add: output_like_def RadioReset_def Let_def)
qed

lemma tx_loop_like: "tx_loop c env k n s = (res, left, s') \<Longrightarrow> output_like s s'"
proof (induction n arbitrary: k s)
  case 0
  then show ?case by (simp add: output_like_def)
next
  case (Suc n)
  note trans = output_like_trans [OF output_like_NODESTAT]
  have "output_like s s1 \<Longrightarrow> tx_loop c env (Suc k) n s1 = (res, left, s') \<Longrightarrow> output_like s s'" for s1
    using Suc.IH output_like_trans by blast
  moreover have "output_like s (RadioReset c (NODESTAT_UPDATE txfailed s))"
    by (rule trans [OF RadioReset_like])
  moreover have "output_like s (NODESTAT_UPDATE radionack (NODESTAT_UPDATE txed s))"
    by (rule trans [OF output_like_NODESTAT])
  moreover have "output_like s s" by (simp add: output_like_def)
  ultimately show ?case
    using Suc.prems by (auto split: attempt.splits)
qed

lemma output_frame:
  assumes "unet_packet_output c env r n = (res, n1)"
  shows "output_like n n1"
proof -
  obtain res' left n2 where t: "tx_loop c env 0 (unat r) n = (res', left, n2)"
    by (cases "tx_loop c env 0 (unat r) n") auto
  then have "n1 = n2 \<or> n1 = NODESTAT_UPDATE txmaxretries n2"
    using assms by (auto simp: unet_packet_output_def split: if_splits)
  then show ?thesis using tx_loop_like [OF t] output_like_trans output_like_NODESTAT by blast
qed

section \<open>Routing\<close>

lemma router_down_frame:
  assumes "unet_router_down n = Some (ok, n1)"
  shows "packet_up n1 = packet_up n \<and> created n1 = created n \<and> posted n1 = posted n \<and>
    (if ok then state (packet_down n1) = PACKET_IN_ROUTE else state (packet_down n1) = state (packet_down n))"
  using assms
  by (auto simp: unet_router_down_def stamp_seqnum_eq Let_def bind_eq_Some_conv split: if_splits)

lemma router_up_frame:
  assumes "unet_router_up n = Some (res, n1)"
  shows "packet_down n1 = packet_down n \<and> created n1 = created n \<and> posted n1 = posted n \<and>
    (if res = RESULT_PACKET_SEND_OK then state (packet_up n1) = PACKET_WAITING_TX
     else state (packet_up n1) = state (packet_up n))"
  using assms
  by (auto simp: unet_router_up_def stamp_seqnum_eq Let_def bind_eq_Some_conv split: if_splits)

lemma router_adv_frame:
  assumes "unet_router_adv n = Some (res, n1)"
  shows "packet_up n1 = packet_up n \<and> created n1 = created n \<and> posted n1 = posted n \<and>
    (res \<noteq> RESULT_PACKET_SEND_OK \<longrightarrow> n1 = n)"
proof -
  have "packet_up n1 = packet_up n \<and> created n1 = created n \<and> posted n1 = posted n"
    if "unet_router_down (n\<lparr>packet_down := p\<rparr>) = Some (ok, n1)" for p ok
    using router_down_frame [OF that] by simp
  with assms show ?thesis
    unfolding unet_router_adv_def Let_def
    by (auto split: if_splits prod.splits Option.bind_split_asm)
qed

lemma update_dest_frame:
  assumes "unet_update_packet_down_dest n = Some n1"
  shows "packet_up n1 = packet_up n \<and> created n1 = created n \<and> posted n1 = posted n \<and>
    state (packet_down n1) = state (packet_down n)"
  using assms
  by (auto simp: unet_update_packet_down_dest_def Let_def bind_eq_Some_conv split: if_splits)

section \<open>Reception\<close>

text \<open>A frame is link traffic, or it takes a free buffer, or it acknowledges a packet.\<close>

definition input_like :: "packet_state \<Rightarrow> net \<Rightarrow> net \<Rightarrow> bool" where
  "input_like st n n' \<longleftrightarrow> created n' = created n \<and>
     (link_like n n' \<or>
      state (packet_up n) = PACKET_IDLE \<and> state (packet_up n') = st \<and> packet_down n' = packet_down n \<and>
        posted n' = posted n @ [Router_Up_Ack_Request] \<or>
      state (packet_down n) = PACKET_IDLE \<and> state (packet_down n') = PACKET_SENDING_ACK \<and>
        packet_up n' = packet_up n \<and> posted n' = posted n @ [Router_Down_Ack_Request] \<or>
      packet_up n' = packet_up n \<and> packet_down n' = packet_down n \<and>
        posted n' = posted n @ [Router_Up_Ack_Received] \<or>
      packet_up n' = packet_up n \<and> state (packet_down n) = PACKET_WAITING_ACK \<and>
        state (packet_down n') = PACKET_ACKED \<and> posted n' = posted n @ [Router_Down_Ack_Received])"

lemma input_like_link: "link_like n n' \<Longrightarrow> input_like st n n'"
  by (simp add: input_like_def link_like_def posts_in_def)

lemma input_like_prefix:
  assumes "link_like n m" and "posted m = posted n" and "input_like st m n'"
  shows "input_like st n n'"
  using assms link_like_trans [OF assms(1), of n'] unfolding input_like_def
  by (auto simp: link_like_def posts_in_def)

lemma input_up_like:
  assumes "all_created n" and "input_up p n = (a, n')"
  shows "input_like (state p) n n'"
proof (cases "state (packet_up n) = PACKET_IDLE")
  case True
  then show ?thesis
    using assms
    by (auto simp: input_up_def packet_acquire_up_def Let_def input_like_def all_created_def)
next
  case False
  then show ?thesis
    using assms by (auto simp: input_up_def packet_acquire_up_def intro: input_like_link)
qed

lemma input_down_like:
  assumes "all_created n" and "input_down p n = (a, q, n')"
  shows "input_like (state p) n n'"
proof (cases "state (packet_down n) = PACKET_IDLE")
  case True
  then show ?thesis
    using assms
    by (auto simp: input_down_def packet_acquire_down_def Let_def input_like_def all_created_def)
next
  case False
  then show ?thesis
    using assms
    by (auto simp: input_down_def packet_acquire_down_def intro!: input_like_link link_like_same)
qed

lemma input_ack_like:
  "input_ack_up p n = Some n' \<Longrightarrow> input_like st n n'"
  "input_ack_down p n = Some n' \<Longrightarrow> input_like st n n'"
  by (auto simp: input_ack_up_def input_ack_down_def post_def Let_def input_like_def
      split: if_splits intro: link_like_same)

lemma unet_packet_input_like:
  assumes "net_ok n" and "all_created n" and "unet_packet_input dev p n = Some (a, q, n')"
  shows "input_like (state p) n n'"
proof -
  have b: "input_like st n m" if "input_broadcast dev p n = Some m" for m st
    using that link_packet_process_like [OF assms(1)]
    by (auto simp: input_broadcast_def split: if_splits intro!: input_like_link)
  have same: "input_like st n n" for st by (rule input_like_link) simp
  note up = input_up_like [OF assms(2)] and down = input_down_like [OF assms(2)]
  show ?thesis
    using assms(3) b up down input_ack_like same unfolding unet_packet_input_def Let_def
    by (auto split: if_splits Option.bind_split_asm prod.splits)
qed

lemma packet_input_like:
  assumes "net_ok n" and "all_created n" and "ieee802154_packet_input dev crc p n = Some (a, q, n')"
  shows "input_like (state p) n n'"
proof -
  define p1 where "p1 = put_info PKTINFO_SIZE (byte p PHY_PKT_SIZE) p"
  define s1 where "s1 = note_last_rx (byte p1 MAC_SEQ_NUM) n"
  define dup where "dup = link_packet_is_duplicated
      (join16 (byte p1 (MAC_SRC_16 + 1)) (byte p1 MAC_SRC_16)) (byte p1 MAC_SEQ_NUM) s1"
  define s2 where "s2 = (if ACKRequest (frame_control p1) = 1 \<and> dup then NODESTAT_UPDATE duplink s1 else s1)"
  have ok2: "net_ok s2" "all_created s2"
    using assms(1,2) by (simp_all add: s2_def s1_def net_ok_note_last_rx all_created_def) (simp_all add: note_last_rx_def)
  have like: "link_like n s2" "posted s2 = posted n"
    by (auto simp: s2_def s1_def note_last_rx_def intro!: link_like_same)
  have st: "state (ieee802154_note_input dup p1) = state p"
    by (simp add: ieee802154_note_input_def p1_def Let_def)
  show ?thesis
  proof (cases "ieee802154_accepts crc p1")
    case True
    then have "unet_packet_input dev (ieee802154_note_input dup p1) s2 = Some (a, q, n')"
      using assms(3) unfolding ieee802154_packet_input_def Let_def p1_def [symmetric] s1_def [symmetric]
        dup_def [symmetric] s2_def [symmetric] by simp
    from unet_packet_input_like [OF ok2 this] show ?thesis
      using input_like_prefix [OF like] st by simp
  next
    case False
    then have "n' = n \<or> n' = NODESTAT_UPDATE chkerr n"
      using assms(3) unfolding ieee802154_packet_input_def Let_def p1_def [symmetric] by (auto split: if_splits)
    then show ?thesis by (auto intro!: input_like_link link_like_same)
  qed
qed

end
