(* ===== verification/Core_Safe.thy ===== *)
theory Core_Safe
  imports Core_Frames
begin

text \<open>
  No task of a router faults, with one exception that the theorem at the end names: the
  invariant of the reachable states, that every turn keeps it, and when a turn returns.
\<close>

section \<open>Timers\<close>

text \<open>
  The maximal intervals are powers of two, for which no random number is rejected, so running a
  timer returns.
\<close>

definition ticking :: "u64 \<Rightarrow> trickle_t \<Rightarrow> bool" where
  "ticking m t \<longleftrightarrow> max_interval t = m \<and> m \<in> {256, 131072, 524288} \<and> 2 \<le> interval t \<and> interval t \<le> m \<and>
     2 \<le> init_interval t \<and> init_interval t \<le> m \<and> interval_scaling t \<le> 1"

lemma boundedrand_power: "b \<noteq> 0 \<Longrightarrow> threshold b = 0 \<Longrightarrow> \<exists>draw rng'. pcg32_boundedrand_r b rng = Some (draw, rng')"
  by (cases "pcg32_random_r rng") (simp add: pcg32_boundedrand_r_def bounded_loop.simps [of b rng])

lemma ticking_boundedrand:
  assumes "ticking m t"
  shows "\<exists>draw rng'. pcg32_boundedrand_r (ucast m) rng = Some (draw, rng')"
  using assms by (intro boundedrand_power) (auto simp: ticking_def threshold_def)

lemma ticking_reset: "ticking m t \<Longrightarrow> ticking m (reset_trickle t)"
  by (simp add: ticking_def reset_trickle_def)

lemma ticking_init:
  "m \<in> {256, 131072, 524288} \<Longrightarrow> 2 \<le> i \<Longrightarrow> i \<le> m \<Longrightarrow> ticking m (init_trickle i m)"
  by (simp add: ticking_def init_trickle_def)

lemma grow_interval:
  assumes "ticking m t"
  shows "2 \<le> interval (grow t)" and "interval (grow t) \<le> m" and "interval_scaling (grow t) \<le> 1"
    and "init_interval (grow t) = init_interval t"
proof -
  have m: "unat m < 2 ^ 62" and m2: "(2 :: u64) \<le> m" using assms by (auto simp: ticking_def)
  have "unat (interval_scaling t) = 0 \<or> unat (interval_scaling t) = 1"
    using assms by (auto simp: ticking_def word_le_nat_alt)
  then have i: "2 \<le> unat (interval t)" "interval_scaling t = 0 \<or> interval_scaling t = 1"
    using assms by (auto simp: ticking_def word_le_nat_alt word_unat_eq_iff)
  have "2 \<le> push_bit (unat (interval_scaling t)) (interval t) \<and> push_bit (unat (interval_scaling t)) (interval t) \<le> m"
    if "interval t < drop_bit 1 m"
  proof -
    have "unat (interval t) < unat m div 2" using that by (simp add: word_less_nat_alt half_unat)
    then have "unat (push_bit 1 (interval t)) = 2 * unat (interval t)" "2 * unat (interval t) \<le> unat m"
      using m by (simp_all add: push_bit_eq_mult unat_word_ariths)
    moreover have "push_bit 0 (interval t) = interval t" by simp
    ultimately show ?thesis using i assms by (auto simp: word_le_nat_alt ticking_def)
  qed
  then show "2 \<le> interval (grow t)" "interval (grow t) \<le> m"
    using assms m2 by (auto simp: grow_def Let_def ticking_def)
  show "interval_scaling (grow t) \<le> 1" "init_interval (grow t) = init_interval t"
    using i(2) by (auto simp: grow_def Let_def)
qed

lemma run_trickle_ticking:
  assumes "ticking m t"
  shows "\<exists>t' rng'. run_trickle rng t = Some (t', rng') \<and> ticking m t'"
proof -
  have mx: "max_interval (grow t) = m" using assms by (simp add: ticking_def)
  obtain draw rng' where d: "pcg32_boundedrand_r (ucast m) rng = Some (draw, rng')"
    using ticking_boundedrand [OF assms] by blast
  have "unat (drop_bit 1 (interval (grow t))) \<noteq> 0"
    using grow_interval(1) [OF assms] by (simp add: half_unat word_le_nat_alt)
  then have h: "drop_bit 1 (interval (grow t)) \<noteq> 0" by auto
  then obtain t' where t': "place draw (grow t) = Some t'" by (simp add: place_def Let_def)
  have "max_interval t' = m" "interval t' = interval (grow t)" "init_interval t' = init_interval t"
    "interval_scaling t' = interval_scaling (grow t)"
    using t' mx grow_interval(4) [OF assms] by (auto simp: place_def Let_def split: if_splits)
  then have "ticking m t'" using assms grow_interval [OF assms] by (simp add: ticking_def)
  then show ?thesis using d t' mx by (simp add: run_trickle_def Let_def)
qed

lemma run_timer_ticking:
  assumes "ticking m t"
  obtains t' g where "run_timer t k = Some (t', k\<lparr>generator := g\<rparr>)" and "ticking m t'"
  using run_trickle_ticking [OF assms, of "snd (generator k)"] that by (auto simp: run_timer_def)

section \<open>The invariant\<close>

definition stack_ok :: "nat list \<Rightarrow> stack \<Rightarrow> bool" where
  "stack_ok xs st \<longleftrightarrow> net_ok (the_net st) \<and> all_created (the_net st) \<and> tp_list st xs \<and>
     (\<forall>x < length (endpoints st). wake_up_sem (endpoint x st) \<noteq> None)"

definition core_ok :: "nat list \<Rightarrow> core \<Rightarrow> bool" where
  "core_ok xs k \<longleftrightarrow> stack_ok xs (core_stack k) \<and>
     ticking 131072 (timer_link k) \<and> ticking 524288 (timer_down k) \<and>
     ticking 256 (timer_down_retry k) \<and> ticking 256 (timer_up_retry k) \<and>
     (\<forall>sig. taken k sig \<le> count_list (posted (core_net k)) sig)"

lemma core_okD:
  assumes "core_ok xs k"
  shows "stack_ok xs (core_stack k)" "net_ok (core_net k)" "all_created (core_net k)"
    "ticking 131072 (timer_link k)" "ticking 524288 (timer_down k)" "ticking 256 (timer_down_retry k)"
    "ticking 256 (timer_up_retry k)" "taken k sig \<le> count_list (posted (core_net k)) sig"
  using assms by (simp_all add: core_ok_def stack_ok_def)

lemma core_net_sel [simp]:
  "core_net (with_net n k) = n" "core_net (take_token sig k) = core_net k"
  "core_stack (take_token sig k) = core_stack k" "taken (with_net n k) = taken k"
  "posted (core_net (take_token sig k)) = posted (core_net k)"
  by (simp_all add: with_net_def take_token_def)

lemma with_net_sel [simp]:
  "timer_link (with_net n k) = timer_link k" "timer_down (with_net n k) = timer_down k"
  "timer_down_retry (with_net n k) = timer_down_retry k" "timer_up_retry (with_net n k) = timer_up_retry k"
  "link_at (with_net n k) = link_at k" "down_ack_at (with_net n k) = down_ack_at k" "down_at (with_net n k) = down_at k"
  "up_ack_at (with_net n k) = up_ack_at k" "up_at (with_net n k) = up_at k" "generator (with_net n k) = generator k"
  "core_stack (with_net n k) = (core_stack k)\<lparr>the_net := n\<rparr>" "radio_state (with_net n k) = radio_state k"
  "timer_link (take_token sig k) = timer_link k" "timer_down (take_token sig k) = timer_down k"
  "timer_down_retry (take_token sig k) = timer_down_retry k" "timer_up_retry (take_token sig k) = timer_up_retry k"
  "link_at (take_token sig k) = link_at k" "down_ack_at (take_token sig k) = down_ack_at k"
  "down_at (take_token sig k) = down_at k" "up_ack_at (take_token sig k) = up_ack_at k"
  "up_at (take_token sig k) = up_at k" "generator (take_token sig k) = generator k"
  "radio_state (take_token sig k) = radio_state k"
  by (simp_all add: with_net_def take_token_def)

lemma stack_ok_net:
  assumes "stack_ok xs st" and "net_ok n" and "created n = created (the_net st)"
  shows "stack_ok xs (st\<lparr>the_net := n\<rparr>)"
  using assms by (simp add: stack_ok_def all_created_def tp_list_net)

lemma core_ok_net:
  assumes "core_ok xs k" and "net_ok n" and "posts_in S (core_net k) n"
  shows "core_ok xs (with_net n k)"
  using assms posts_count_le [OF assms(3)] order_trans posts_created [OF assms(3)]
  by (auto simp: core_ok_def stack_ok_net intro: order_trans)

lemma core_ok_take: "core_ok xs k \<Longrightarrow> available sig k \<Longrightarrow> core_ok xs (take_token sig k)"
  by (auto simp: core_ok_def take_token_def available_def)

section \<open>Delivery and routing return\<close>

lemma tp_list_cong:
  assumes "tp_list st xs" and "unet_tp_head st' = unet_tp_head st" and "unet_tp_tail st' = unet_tp_tail st"
    and "length (endpoints st') = length (endpoints st)"
    and "\<And>i. i < length (endpoints st) \<Longrightarrow> tp_next (endpoint i st') = tp_next (endpoint i st) \<and>
           tp_previous (endpoint i st') = tp_previous (endpoint i st)"
  shows "tp_list st' xs"
proof -
  have "\<forall>i < length xs. xs ! i < length (endpoints st)" using tp_listD(2) [OF assms(1)] by simp
  then show ?thesis using assms by (simp add: tp_list_def)
qed

lemma hand_over_ok:
  assumes "stack_ok xs st" and "c < length (endpoints st)"
  shows "\<exists>st'. hand_over b c st = Some st' \<and> stack_ok xs st' \<and> the_net st' = the_net st"
proof -
  let ?f = "\<lambda>e. e\<lparr>payload_ptr := Some b, payload_size := byte (the_buffer b st) UNET_APP_PAYLOAD_LEN,
      sender_port := byte (the_buffer b st) UNET_SOURCE_PORT, sender_address := addr64_at UNET_SRC_64 (the_buffer b st)\<rparr>"
  let ?s = "upd_endpoint c ?f st"
  have e: "endpoint q ?s = (if q = c then ?f (endpoint c st) else endpoint q st)" for q
    by (rule endpoint_upd [OF assms(2)])
  have wake: "wake_up_sem (endpoint x ?s) = wake_up_sem (endpoint x st)" for x by (simp add: e)
  have tp: "tp_list ?s xs"
    by (rule tp_list_cong [of st]) (use assms(1) in \<open>simp_all add: stack_ok_def e\<close>)
  have ok: "stack_ok xs (?s\<lparr>kernel := os\<rparr>)" for os
    using assms(1) tp wake by (simp add: stack_ok_def tp_list_def)
  obtain i where "wake_up_sem (endpoint c st) = Some i"
    using assms by (auto simp: stack_ok_def)
  then have i: "wake_up_sem (endpoint c ?s) = Some i" using wake by simp
  let ?t = "?s\<lparr>kernel := snd (OSSemPost i (kernel ?s))\<rparr>"
  have ho: "hand_over b c st = (case App_Callback ?t of None \<Rightarrow> Some ?t | Some _ \<Rightarrow> post_sem (App_Callback ?t) ?t)"
    using i unfolding hand_over_def Let_def post_sem_def
    by (simp only: option.case Option.bind.bind_lunit)
  show ?thesis
  proof (cases "App_Callback ?t")
    case None
    then show ?thesis using ho ok by simp
  next
    case (Some j)
    then have "hand_over b c st = Some (?s\<lparr>kernel := snd (OSSemPost j (snd (OSSemPost i (kernel ?s))))\<rparr>)"
      unfolding ho by (simp add: post_sem_def)
    then show ?thesis using ok by simp
  qed
qed

lemma deliver_ok:
  assumes "stack_ok xs st"
  shows "\<exists>st'. deliver b st = Some st' \<and> stack_ok xs st' \<and>
    (the_net st' = the_net st \<or> the_net st' = NODESTAT_UPDATE netapprx (the_net st))"
proof (cases "byte (the_buffer b st) UNET_NEXT_HEADER = NEXT_HEADER_UNET_APP")
  case True
  let ?s = "st\<lparr>the_net := NODESTAT_UPDATE netapprx (the_net st)\<rparr>"
  have l: "tp_list st xs" using assms by (simp add: stack_ok_def)
  have ok: "stack_ok xs ?s"
    by (rule stack_ok_net [OF assms]) (use assms in \<open>simp_all add: stack_ok_def\<close>)
  show ?thesis
  proof (cases "listener (byte (the_buffer b st) UNET_DEST_PORT) xs st")
    case None
    then show ?thesis using deliver_finds [OF l True] ok by simp
  next
    case (Some c)
    then have "c \<in> set xs" by (auto simp: listener_def find_Some_iff)
    then have "c < length (endpoints ?s)" using tp_listD(2) [OF l] by simp
    from hand_over_ok [OF ok this, of b] show ?thesis
      using deliver_finds [OF l True] Some by auto
  qed
next
  case False
  then show ?thesis using assms by (simp add: deliver_def)
qed

lemma release_ok: "stack_ok xs st \<Longrightarrow> stack_ok xs (release b st)"
proof -
  assume ok: "stack_ok xs st"
  define p where "p = (case b of Up_Buffer \<Rightarrow> packet_release_up (the_buffer b st)
      | Down_Buffer \<Rightarrow> packet_release_down (the_buffer b st))"
  have "net_ok (the_net st)" using ok by (simp add: stack_ok_def)
  then have p: "packet_ok p"
    using buffer_ok [of st b] by (cases b) (simp_all add: p_def packet_release_up_def packet_release_down_def)
  obtain n where n: "set_buffer b p st = st\<lparr>the_net := n\<rparr>" by (simp add: set_buffer_def)
  then have "the_net (set_buffer b p st) = n" by simp
  then have "net_ok n" "created n = created (the_net st)"
    using set_buffer_sel(4) [where b = b and p = p and st = st] set_buffer_sel(5) [where b = b and p = p and st = st] p ok by (auto simp: stack_ok_def)
  then have "stack_ok xs (set_buffer b p st)" unfolding n by (rule stack_ok_net [OF ok])
  then show ?thesis by (simp only: release_def p_def)
qed

lemma release_net: "the_net (release b st) = (case b of
    Up_Buffer \<Rightarrow> (the_net st)\<lparr>packet_up := packet_release_up (packet_up (the_net st))\<rparr>
  | Down_Buffer \<Rightarrow> (the_net st)\<lparr>packet_down := packet_release_down (packet_down (the_net st))\<rparr>)"
  by (simp add: release_def set_buffer_def the_buffer_def split: buffer.split)

lemma net_ok_set_state [simp]:
  "net_ok (set_down_state x n) = net_ok n" "net_ok (set_up_state x n) = net_ok n"
  "created (set_down_state x n) = created n" "created (set_up_state x n) = created n"
  "posted (set_down_state x n) = posted n" "posted (set_up_state x n) = posted n"
  "packet_up (set_down_state x n) = packet_up n" "packet_down (set_up_state x n) = packet_down n"
  "packet_down (set_down_state x n) = (packet_down n)\<lparr>state := x\<rparr>"
  "packet_up (set_up_state x n) = (packet_up n)\<lparr>state := x\<rparr>"
  "param j (set_down_state x n) = param j n" "unet_neighbourhood (set_down_state x n) = unet_neighbourhood n"
  by (simp_all add: set_down_state_def set_up_state_def net_ok_def param_def)

lemma net_ok_set_seqnum: "net_ok n \<Longrightarrow> net_ok (link_set_neighbor_seqnum p n)"
  by (auto simp: link_set_neighbor_seqnum_def Let_def intro!: net_ok_set_neighbour)

section \<open>The acknowledgement tasks return\<close>

lemma core_ok_fields [simp]:
  "core_ok xs (k\<lparr>ack_down := a\<rparr>) = core_ok xs k" "core_ok xs (k\<lparr>ack_up := a\<rparr>) = core_ok xs k"
  "core_ok xs (k\<lparr>down_ack_at := ph\<rparr>) = core_ok xs k" "core_ok xs (k\<lparr>up_ack_at := ph\<rparr>) = core_ok xs k"
  "core_ok xs (k\<lparr>down_at := dp\<rparr>) = core_ok xs k" "core_ok xs (k\<lparr>up_at := up\<rparr>) = core_ok xs k"
  "core_ok xs (k\<lparr>link_at := lp\<rparr>) = core_ok xs k" "core_ok xs (k\<lparr>radio_state := r\<rparr>) = core_ok xs k"
  "core_ok xs (k\<lparr>generator := g\<rparr>) = core_ok xs k"
  by (simp_all add: core_ok_def)

lemma core_ok_stack:
  assumes "core_ok xs k" and "stack_ok xs st" and "posts_in S (core_net k) (the_net st)"
  shows "core_ok xs (k\<lparr>core_stack := st\<rparr>)"
  using assms posts_count_le [OF assms(3)] order_trans by (auto simp: core_ok_def intro: order_trans)

lemma down_ack_dispatch_ok:
  assumes "stack_ok xs st"
  shows "\<exists>st'. down_ack_dispatch st = Some st' \<and> stack_ok xs st' \<and>
    posts_in {Router_Down_Route_Request} (the_net st) (the_net st') \<and> packet_up (the_net st') = packet_up (the_net st) \<and>
    (state (packet_down (the_net st')) = PACKET_IDLE \<and> posted (the_net st') = posted (the_net st) \<or>
     posted (the_net st') = posted (the_net st) @ [Router_Down_Route_Request])"
proof -
  let ?n = "the_net st"
  have n: "net_ok ?n" "all_created ?n" using assms by (simp_all add: stack_ok_def)
  have po: "packet_ok (packet_down ?n)" using net_okD(7) [OF n(1)] .
  consider "packet_info_get PKTINFO_DUPLICATED (packet_down ?n) = 1"
    | "packet_info_get PKTINFO_DUPLICATED (packet_down ?n) \<noteq> 1" by blast
  then show ?thesis
  proof cases
    case 1
    let ?m = "NODESTAT_UPDATE dupnet (?n\<lparr>packet_down := packet_release_down (packet_down ?n)\<rparr>)"
    have "net_ok (?n\<lparr>packet_down := packet_release_down (packet_down ?n)\<rparr>)"
      using n(1) po by (intro net_ok_packet_down) (simp_all add: packet_release_down_def)
    then have "stack_ok xs (st\<lparr>the_net := ?m\<rparr>)" by (intro stack_ok_net [OF assms]) simp_all
    then show ?thesis
      using 1 by (simp add: down_ack_dispatch_def Let_def posts_in_def packet_release_down_def)
  next
    case 2
    define m where "m = link_set_neighbor_seqnum (packet_down ?n) ?n"
    have m: "net_ok m" "created m = created ?n" "posted m = posted ?n" "packet_up m = packet_up ?n"
      "packet_down m = packet_down ?n"
      using n(1) by (simp_all add: m_def net_ok_set_seqnum)
    show ?thesis
    proof (cases "addr64_at UNET_DEST_64 (packet_down m) = node_addr64_get (node_data m)")
      case True
      let ?s = "st\<lparr>the_net := set_down_state PACKET_DELIVERED m\<rparr>"
      have "stack_ok xs ?s" using m by (intro stack_ok_net [OF assms]) simp_all
      then obtain st1 where st1: "deliver Down_Buffer ?s = Some st1" "stack_ok xs st1"
        "the_net st1 = the_net ?s \<or> the_net st1 = NODESTAT_UPDATE netapprx (the_net ?s)"
        using deliver_ok by blast
      have "down_ack_dispatch st = Some (release Down_Buffer st1)"
        using 2 True st1(1) unfolding down_ack_dispatch_def Let_def m_def [symmetric] by simp
      moreover have "posted (the_net st1) = posted ?n" "created (the_net st1) = created ?n"
        "packet_up (the_net st1) = packet_up ?n"
        using st1(3) m by auto
      ultimately show ?thesis
        using release_ok [OF st1(2)] by (simp add: release_net posts_in_def packet_release_down_def)
    next
      case False
      obtain ok n2 where r: "unet_router_down m = Some (ok, n2)" "net_ok n2"
        using router_down_hop [OF m(1)] by blast
      note fr = router_down_frame [OF r(1)]
      have c2: "created n2 = created ?n" "all_created n2" using fr m n(2) by (simp_all add: all_created_def)
      show ?thesis
      proof (cases ok)
        case True
        let ?n3 = "n2\<lparr>posted := posted n2 @ [Router_Down_Route_Request]\<rparr>"
        have "down_ack_dispatch st = Some (st\<lparr>the_net := ?n3\<rparr>)"
          using 2 False r(1) True post_all [OF c2(2)] unfolding down_ack_dispatch_def Let_def m_def [symmetric] by simp
        moreover have "stack_ok xs (st\<lparr>the_net := ?n3\<rparr>)"
          using r(2) c2 by (intro stack_ok_net [OF assms]) simp_all
        ultimately show ?thesis using fr m c2 by (simp add: posts_in_def)
      next
        case no: False
        have "down_ack_dispatch st = Some (release Down_Buffer (st\<lparr>the_net := n2\<rparr>))"
          using 2 False r(1) no unfolding down_ack_dispatch_def Let_def m_def [symmetric] by simp
        moreover have "stack_ok xs (release Down_Buffer (st\<lparr>the_net := n2\<rparr>))"
          using r(2) c2 by (intro release_ok stack_ok_net [OF assms]) simp_all
        ultimately show ?thesis
          using fr m c2 by (simp add: release_net posts_in_def packet_release_down_def)
      qed
    qed
  qed
qed

lemma up_ack_dispatch_ok:
  assumes "stack_ok xs st"
  shows "\<exists>st'. up_ack_dispatch st = Some st' \<and> stack_ok xs st' \<and>
    posts_in {Router_Up_Route_Request} (the_net st) (the_net st') \<and> packet_down (the_net st') = packet_down (the_net st) \<and>
    (state (packet_up (the_net st')) = PACKET_IDLE \<and> posted (the_net st') = posted (the_net st) \<or>
     (state (packet_up (the_net st')) = state (packet_up (the_net st)) \<or>
      state (packet_up (the_net st')) = PACKET_WAITING_TX) \<and>
     posted (the_net st') = posted (the_net st) @ [Router_Up_Route_Request])"
proof -
  let ?n = "the_net st"
  have n: "net_ok ?n" "all_created ?n" using assms by (simp_all add: stack_ok_def)
  show ?thesis
  proof (cases "addr64_at UNET_DEST_64 (packet_up ?n) = node_addr64_get (node_data ?n)")
    case True
    obtain st1 where st1: "deliver Up_Buffer st = Some st1" "stack_ok xs st1"
      "the_net st1 = ?n \<or> the_net st1 = NODESTAT_UPDATE netapprx ?n"
      using deliver_ok [OF assms] by blast
    have "up_ack_dispatch st = Some (release Up_Buffer st1)"
      using True st1(1) by (simp add: up_ack_dispatch_def Let_def)
    moreover have "posted (the_net st1) = posted ?n" "created (the_net st1) = created ?n"
      "packet_down (the_net st1) = packet_down ?n"
      using st1(3) by auto
    ultimately show ?thesis
      using release_ok [OF st1(2)] by (simp add: release_net posts_in_def packet_release_up_def)
  next
    case False
    obtain res n1 where r: "unet_router_up ?n = Some (res, n1)" "net_ok n1"
      using router_up_hop [OF n(1)] by blast
    note fr = router_up_frame [OF r(1)]
    have c: "created n1 = created ?n" "all_created n1" using fr n(2) by (simp_all add: all_created_def)
    let ?n2 = "n1\<lparr>posted := posted n1 @ [Router_Up_Route_Request]\<rparr>"
    have "up_ack_dispatch st = Some (st\<lparr>the_net := ?n2\<rparr>)"
      using False r(1) post_all [OF c(2)] by (simp add: up_ack_dispatch_def Let_def)
    moreover have "stack_ok xs (st\<lparr>the_net := ?n2\<rparr>)"
      using r(2) c by (intro stack_ok_net [OF assms]) simp_all
    ultimately show ?thesis using fr c by (auto simp: posts_in_def split: if_splits)
  qed
qed

lemma output_ok:
  assumes "core_ok xs k" and "unet_packet_output c env r (core_net k) = (res, n)"
  shows "core_ok xs (with_net n k)" and "stack_ok xs ((core_stack k)\<lparr>the_net := n\<rparr>)"
proof -
  note fr = output_frame [OF assms(2)]
  have "net_ok n" "posts_in {} (core_net k) n"
    using fr core_okD(2) [OF assms(1)] by (simp_all add: output_like_def posts_same)
  from core_ok_net [OF assms(1) this] show "core_ok xs (with_net n k)" .
  then show "stack_ok xs ((core_stack k)\<lparr>the_net := n\<rparr>)" using core_okD(1) by fastforce
qed

lemma Down_Ack_end_ok:
  assumes "core_ok xs k"
  shows "\<exists>k'. UNET_Router_Down_Ack_end c env k = Some k' \<and> core_ok xs k'"
proof -
  obtain res n where u: "unet_packet_output c env NWK_TX_RETRIES (core_net k) = (res, n)" by fastforce
  let ?m = "set_down_state (down_ack_outcome res) n"
  have k1: "core_ok xs (with_net ?m k)"
    using output_ok(1) [OF assms u] core_ok_net [of xs "with_net n k" ?m "{}"] core_okD(2) [of xs "with_net n k"]
    by (simp add: posts_same with_net_def)
  then have st: "stack_ok xs ((core_stack k)\<lparr>the_net := ?m\<rparr>)" using core_okD(1) by fastforce
  then obtain st' where st': "down_ack_dispatch ((core_stack k)\<lparr>the_net := ?m\<rparr>) = Some st'" "stack_ok xs st'"
    "posts_in {Router_Down_Route_Request} ?m (the_net st')"
    using down_ack_dispatch_ok [OF st] by auto
  have "core_ok xs ((with_net ?m k)\<lparr>core_stack := st'\<rparr>)"
    by (rule core_ok_stack [OF k1 st'(2)]) (use st'(3) in simp)
  then have "core_ok xs (k\<lparr>core_stack := st'\<rparr>)" by (simp add: with_net_def)
  then show ?thesis using u st'(1) by (simp add: UNET_Router_Down_Ack_end_def)
qed

lemma Up_Ack_end_ok:
  assumes "core_ok xs k"
  shows "\<exists>k'. UNET_Router_Up_Ack_end c env k = Some k' \<and> core_ok xs k'"
proof -
  obtain res n where u: "unet_packet_output c env NWK_TX_RETRIES (core_net k) = (res, n)" by fastforce
  note o = output_ok [OF assms u]
  obtain st' where st': "up_ack_dispatch ((core_stack k)\<lparr>the_net := n\<rparr>) = Some st'" "stack_ok xs st'"
    "posts_in {Router_Up_Route_Request} n (the_net st')"
    using up_ack_dispatch_ok [OF o(2)] by auto
  have "core_ok xs ((with_net n k)\<lparr>core_stack := st'\<rparr>)"
    by (rule core_ok_stack [OF o(1) st'(2)]) (use st'(3) in simp)
  then have "core_ok xs (k\<lparr>core_stack := st'\<rparr>)" by (simp add: with_net_def)
  then show ?thesis using u st'(1) by (simp add: UNET_Router_Up_Ack_end_def)
qed

section \<open>The routing tasks return\<close>

lemma core_ok_timer_down: "core_ok xs k \<Longrightarrow> ticking 524288 t \<Longrightarrow> core_ok xs (k\<lparr>timer_down := t\<rparr>)"
  and core_ok_timer_down_retry: "core_ok xs k \<Longrightarrow> ticking 256 t \<Longrightarrow> core_ok xs (k\<lparr>timer_down_retry := t\<rparr>)"
  and core_ok_timer_up_retry: "core_ok xs k \<Longrightarrow> ticking 256 t \<Longrightarrow> core_ok xs (k\<lparr>timer_up_retry := t\<rparr>)"
  and core_ok_timer_link: "core_ok xs k \<Longrightarrow> ticking 131072 t \<Longrightarrow> core_ok xs (k\<lparr>timer_link := t\<rparr>)"
  by (simp_all add: core_ok_def)

lemmas core_ok_timers = core_ok_timer_down core_ok_timer_down_retry core_ok_timer_up_retry core_ok_timer_link

text \<open>What a turn leaves of the stack and the tokens, when it only moves timers and places.\<close>

definition same_net :: "core \<Rightarrow> core \<Rightarrow> bool" where
  "same_net k k' \<longleftrightarrow> core_stack k' = core_stack k \<and> taken k' = taken k \<and> up_at k' = up_at k \<and>
     down_ack_at k' = down_ack_at k \<and> up_ack_at k' = up_ack_at k"

lemma down_wait_ok:
  assumes "core_ok xs k"
  obtains k' where "down_wait k = Some k'" and "core_ok xs k'" and "same_net k k'" and "down_at k' = Down_Request"
proof -
  obtain t g where r: "run_timer (timer_down k) k = Some (t, k\<lparr>generator := g\<rparr>)" "ticking 524288 t"
    using run_timer_ticking [OF core_okD(5) [OF assms]] by blast
  let ?k = "k\<lparr>generator := g, timer_down := t, down_at := Down_Request\<rparr>"
  have "core_ok xs ((k\<lparr>generator := g\<rparr>)\<lparr>timer_down := t\<rparr>)"
    by (rule core_ok_timer_down) (use assms r(2) in simp_all)
  then have "core_ok xs ?k" by simp
  moreover have "down_wait k = Some ?k" using r(1) by (simp add: down_wait_def)
  ultimately show thesis using that by (simp add: same_net_def)
qed

lemma down_loop_test_ok:
  assumes "core_ok xs k"
  obtains k' where "down_loop_test r k = Some k'" and "core_ok xs k'" and "same_net k k'"
    and "down_at k' = (if r > 0 then Down_Sending (r - 1) else Down_Request)"
proof (cases "r > 0")
  case True
  then show thesis
    using assms by (intro that [of "k\<lparr>down_at := Down_Sending (r - 1)\<rparr>"]) (simp_all add: down_loop_test_def same_net_def)
next
  case False
  then show thesis
    using down_wait_ok [OF assms] that by (metis down_loop_test_def)
qed

lemma router_adv_ok:
  assumes "net_ok n"
  shows "\<exists>res n'. unet_router_adv n = Some (res, n') \<and> net_ok n'"
proof -
  have po: "packet_ok (packet_down n)" using net_okD(7) [OF assms] .
  obtain acc p0 where a: "packet_acquire_down (packet_down n) = (acc, p0)" by fastforce
  then have p0: "packet_ok p0" using po by (auto simp: packet_acquire_down_def split: if_splits)
  define p4 where "p4 = put_info PKTINFO_SIZE (frame_size 1)
      (unet_header_set UNICAST_DOWN 0xFF NEXT_HEADER_UNET_CTRL_MSG (node_addr64_get (node_data n))
         (node_pan_id64_get (node_data n)) 1
         (put UNET_CTRL_MSG_PACKET_TYPE ROUTER_ADV (p0\<lparr>bytes := replicate MAX_PACKET_SIZE 0\<rparr>)))"
  have "packet_ok p4" using p0 by (simp add: p4_def) (simp add: packet_ok_def)
  then have "net_ok (n\<lparr>packet_down := p4\<rparr>)" by (rule net_ok_packet_down [OF assms])
  then obtain ok n1 where "unet_router_down (n\<lparr>packet_down := p4\<rparr>) = Some (ok, n1)" "net_ok n1"
    using router_down_hop by blast
  then show ?thesis
    using assms unfolding unet_router_adv_def Let_def a prod.case p4_def [symmetric]
    by simp
qed

lemma Down_request_ok:
  assumes "core_ok xs k0" and "woken \<longrightarrow> available Router_Down_Route_Request k0"
  obtains k' n where "UNET_Router_Down_request dev woken k0 = Some k'" and "core_ok xs k'"
    and "taken k' = taken (if woken then take_token Router_Down_Route_Request k0 else k0)"
    and "core_net k' = n" and "packet_up n = packet_up (core_net k0)" and "posted n = posted (core_net k0)"
    and "n = core_net k0 \<and> (woken \<longrightarrow> state (packet_down n) = PACKET_IDLE) \<and> down_at k' = Down_Request \<or> state (packet_down n) = PACKET_WAITING_TX \<and> down_at k' = Down_Sending 29"
    and "up_at k' = up_at k0" and "down_ack_at k' = down_ack_at k0" and "up_ack_at k' = up_ack_at k0"
proof -
  define k where "k = (if woken then take_token Router_Down_Route_Request k0 else k0)"
  have k: "core_ok xs k" "core_net k = core_net k0" "up_at k = up_at k0" "down_ack_at k = down_ack_at k0"
    "up_ack_at k = up_ack_at k0"
    using assms core_ok_take by (auto simp: k_def)
  define adv where "adv = (if down_wants_advert dev woken k then unet_router_adv (core_net k)
      else Some (RESULT_PACKET_SEND_OK, core_net k))"
  obtain res n where n: "adv = Some (res, n)" "net_ok n" "packet_up n = packet_up (core_net k)"
    "posted n = posted (core_net k)" "created n = created (core_net k)" "res \<noteq> RESULT_PACKET_SEND_OK \<longrightarrow> n = core_net k \<and> down_wants_advert dev woken k"
  proof (cases "down_wants_advert dev woken k")
    case True
    obtain res n where a: "unet_router_adv (core_net k) = Some (res, n)" "net_ok n"
      using router_adv_ok [OF core_okD(2) [OF k(1)]] by blast
    then show thesis using that router_adv_frame [OF a(1)] True by (simp add: adv_def)
  next
    case False
    then show thesis using that core_okD(2) [OF k(1)] by (simp add: adv_def)
  qed
  have ok1: "core_ok xs (with_net m k)" if "net_ok m" "posted m = posted n" "created m = created n" for m
    by (rule core_ok_net [OF k(1) that(1), of "{}"]) (use that n in \<open>simp add: posts_same\<close>)
  have eq: "UNET_Router_Down_request dev woken k0 =
      (if res \<noteq> RESULT_PACKET_SEND_OK then down_wait (with_net n k)
       else down_loop_test 30 ((with_net (set_down_state PACKET_WAITING_TX n) k)
              \<lparr>timer_down_retry := reset_trickle (timer_down_retry k)\<rparr>))"
    unfolding UNET_Router_Down_request_def Let_def k_def [symmetric] adv_def [symmetric] n(1) by simp
  show thesis
  proof (cases "res = RESULT_PACKET_SEND_OK")
    case False
    obtain k' where "down_wait (with_net n k) = Some k'" "core_ok xs k'" "same_net (with_net n k) k'" "down_at k' = Down_Request"
      using down_wait_ok [OF ok1 [OF n(2)]] by blast
    then show thesis
      using False eq n k by (intro that [of k' n]) (auto simp: same_net_def k_def down_wants_advert_def)
  next
    case True
    let ?k1 = "(with_net (set_down_state PACKET_WAITING_TX n) k)\<lparr>timer_down_retry := reset_trickle (timer_down_retry k)\<rparr>"
    have "core_ok xs ?k1"
      using ok1 [of "set_down_state PACKET_WAITING_TX n"] n(2) ticking_reset [OF core_okD(6) [OF k(1)]]
      by (intro core_ok_timer_down_retry) simp_all
    then obtain k' where "down_loop_test 30 ?k1 = Some k'" "core_ok xs k'" "same_net ?k1 k'"
      "down_at k' = (if (30 :: u8) > 0 then Down_Sending (30 - 1) else Down_Request)"
      using down_loop_test_ok by blast
    then show thesis
      using True eq n k by (intro that [of k' "set_down_state PACKET_WAITING_TX n"]) (auto simp: same_net_def k_def)
  qed
qed

text \<open>
  A transmission down that the radio reports sent reads the address of the parent, and faults when
  there is no parent any more.
\<close>

lemma parent_index_less:
  "net_ok n \<Longrightarrow> param NODE_PARENTINDEX n \<noteq> NO_PARENT \<Longrightarrow> unat (param NODE_PARENTINDEX n) < 8"
  using net_okD(2) [of n] by (auto simp: parent_index_ok_def param_def)

lemma update_dest_ok:
  assumes "net_ok n"
  shows "\<exists>n'. unet_update_packet_down_dest n = Some n' \<and> net_ok n'"
proof (cases "param NODE_PARENTINDEX n = NO_PARENT")
  case True
  then show ?thesis using assms by (simp add: unet_update_packet_down_dest_def)
next
  case False
  then have "unat (param NODE_PARENTINDEX n) < 8" by (rule parent_index_less [OF assms])
  then show ?thesis
    using False net_okD(7) [OF assms]
    by (auto simp: unet_update_packet_down_dest_def link_neighbor_table_addr16_get_def Let_def
        intro!: net_ok_packet_down assms)
qed

lemma down_transmit_result:
  assumes "net_ok n" and "unet_packet_output c env NWK_TX_RETRIES n = (res, n1)"
  shows "if res = PACKET_SEND_OK \<and> param NODE_PARENTINDEX n = NO_PARENT then down_transmit c env r n = None
    else \<exists>n2. down_transmit c env r n = Some (if res = PACKET_SEND_OK then r + 1 else r, n2) \<and> net_ok n2 \<and>
      packet_up n2 = packet_up n \<and> created n2 = created n \<and> posted n2 = posted n \<and>
      state (packet_down n2) = state (packet_down n)"
proof -
  have n1: "net_ok n1" "param NODE_PARENTINDEX n1 = param NODE_PARENTINDEX n" "packet_up n1 = packet_up n"
    "packet_down n1 = packet_down n" "created n1 = created n" "posted n1 = posted n"
    using output_frame [OF assms(2)] assms(1) by (simp_all add: output_like_def)
  show ?thesis
  proof (cases res)
    case PACKET_SEND_ERR
    then show ?thesis using assms(2) n1 by (simp add: down_transmit_def)
  next
    case PACKET_SEND_OK
    show ?thesis
    proof (cases "param NODE_PARENTINDEX n = NO_PARENT")
      case True
      then have "link_get_parent_addr16 n1 = None" using n1(2) by (simp add: link_get_parent_addr16_def Let_def)
      then show ?thesis using PACKET_SEND_OK True assms(2) by (simp add: down_transmit_def)
    next
      case False
      then have "unat (param NODE_PARENTINDEX n1) < 8" using parent_index_less [OF n1(1)] n1(2) by simp
      then obtain a where a: "link_get_parent_addr16 n1 = Some a" by (simp add: link_get_parent_addr16_def Let_def)
      obtain n2 where n2: "unet_update_packet_down_dest n1 = Some n2" "net_ok n2"
        using update_dest_ok [OF n1(1)] by blast
      define n3 where "n3 = (if packet_get_dest_addr16 (packet_down n1) \<noteq> a then n2 else n1)"
      have "down_transmit c env r n = Some (r + 1, n3)"
        using PACKET_SEND_OK assms(2) a n2(1) by (simp add: down_transmit_def n3_def)
      moreover have "net_ok n3 \<and> packet_up n3 = packet_up n \<and> created n3 = created n \<and> posted n3 = posted n \<and>
          state (packet_down n3) = state (packet_down n)"
        using n1 n2 update_dest_frame [OF n2(1)] by (simp add: n3_def)
      ultimately show ?thesis using False PACKET_SEND_OK by simp
    qed
  qed
qed

lemma Down_send_ok:
  assumes "core_ok xs k" and "unet_packet_output c env NWK_TX_RETRIES (core_net k) = (res, n1)"
  shows "if res = PACKET_SEND_OK \<and> param NODE_PARENTINDEX (core_net k) = NO_PARENT
    then UNET_Router_Down_send c env r k = None
    else \<exists>k'. UNET_Router_Down_send c env r k = Some k' \<and> core_ok xs k' \<and>
      down_at k' = Down_Ack (if res = PACKET_SEND_OK then r + 1 else r) \<and> taken k' = taken k \<and> up_at k' = up_at k \<and>
      down_ack_at k' = down_ack_at k \<and> up_ack_at k' = up_ack_at k \<and>
      packet_up (core_net k') = packet_up (core_net k) \<and> posted (core_net k') = posted (core_net k) \<and>
      state (packet_down (core_net k')) = PACKET_WAITING_ACK"
proof (cases "res = PACKET_SEND_OK \<and> param NODE_PARENTINDEX (core_net k) = NO_PARENT")
  case True
  then show ?thesis
    using down_transmit_result [OF core_okD(2) [OF assms(1)] assms(2), of r] by (simp add: UNET_Router_Down_send_def)
next
  case False
  define left where "left = (if res = PACKET_SEND_OK then r + 1 else r)"
  obtain n2 where n2: "down_transmit c env r (core_net k) = Some (left, n2)" "net_ok n2"
    "packet_up n2 = packet_up (core_net k)" "created n2 = created (core_net k)" "posted n2 = posted (core_net k)"
    using down_transmit_result [OF core_okD(2) [OF assms(1)] assms(2), of r] False unfolding left_def by auto
  let ?m = "set_down_state PACKET_WAITING_ACK n2"
  have ok: "core_ok xs (with_net ?m k)"
    by (rule core_ok_net [OF assms(1), of _ "{}"]) (use n2 in \<open>simp_all add: posts_same\<close>)
  obtain t g where t: "run_timer (timer_down_retry k) (with_net ?m k) = Some (t, (with_net ?m k)\<lparr>generator := g\<rparr>)"
    "ticking 256 t"
    using run_timer_ticking [OF core_okD(6) [OF assms(1)]] by blast
  let ?k = "(with_net ?m k)\<lparr>generator := g, timer_down_retry := t, down_at := Down_Ack left\<rparr>"
  have "core_ok xs ((with_net ?m k)\<lparr>generator := g, timer_down_retry := t\<rparr>)"
    by (rule core_ok_timer_down_retry) (use ok t(2) in simp_all)
  then have "core_ok xs ?k" by simp
  moreover have "UNET_Router_Down_send c env r k = Some ?k"
    using n2(1) t(1) by (simp add: UNET_Router_Down_send_def)
  ultimately show ?thesis using False n2 by (auto simp: left_def)
qed

lemma net_ok_release_down: "net_ok n \<Longrightarrow> net_ok (n\<lparr>packet_down := packet_release_down (packet_down n)\<rparr>)"
  and net_ok_release_up: "net_ok n \<Longrightarrow> net_ok (n\<lparr>packet_up := packet_release_up (packet_up n)\<rparr>)"
  by (simp_all add: net_ok_def packet_release_down_def packet_release_up_def)

lemma Down_acked_ok:
  assumes "core_ok xs k0" and "available Router_Down_Ack_Received k0"
  obtains k' where "UNET_Router_Down_acked k0 = Some k'" and "core_ok xs k'" and "down_at k' = Down_Request"
    and "taken k' = taken (take_token Router_Down_Ack_Received k0)" and "up_at k' = up_at k0"
    and "down_ack_at k' = down_ack_at k0" and "up_ack_at k' = up_ack_at k0"
    and "packet_up (core_net k') = packet_up (core_net k0)" and "posted (core_net k') = posted (core_net k0)"
    and "state (packet_down (core_net k')) = PACKET_IDLE"
proof -
  let ?k = "take_token Router_Down_Ack_Received k0"
  let ?n = "set_param NODE_PARENTFAILURES 0 ((NODESTAT_UPDATE routed (core_net k0))
      \<lparr>packet_down := packet_release_down (packet_down (core_net k0))\<rparr>)"
  have k: "core_ok xs ?k" by (rule core_ok_take [OF assms])
  have "net_ok ?n"
    using net_ok_release_down [of "NODESTAT_UPDATE routed (core_net k0)"] core_okD(2) [OF assms(1)]
    by (intro net_ok_set_param) simp_all
  then have "core_ok xs (with_net ?n ?k)"
    by (rule core_ok_net [OF k, of _ "{}"]) (simp add: posts_same)
  then obtain k' where "down_wait (with_net ?n ?k) = Some k'" "core_ok xs k'" "same_net (with_net ?n ?k) k'"
    "down_at k' = Down_Request" by (rule down_wait_ok)
  then show thesis
    by (intro that [of k']) (auto simp: UNET_Router_Down_acked_def same_net_def Let_def packet_release_down_def)
qed

lemma Down_timeout_ok:
  assumes "core_ok xs k"
  obtains k' where "UNET_Router_Down_timeout r k = Some k'" and "core_ok xs k'"
    and "down_at k' = (if r > 0 then Down_Sending (r - 1) else Down_Request)"
    and "taken k' = taken k" and "up_at k' = up_at k" and "down_ack_at k' = down_ack_at k" and "up_ack_at k' = up_ack_at k"
    and "packet_up (core_net k') = packet_up (core_net k)" and "posted (core_net k') = posted (core_net k)"
    and "state (packet_down (core_net k')) = (if r = 0 then PACKET_IDLE else state (packet_down (core_net k)))"
proof -
  let ?n = "NODESTAT_UPDATE txnacked (core_net k)"
  define m where "m = (if r = 0 then down_lost ?n else ?n)"
  have m: "net_ok m" "posted m = posted (core_net k)" "created m = created (core_net k)"
    "packet_up m = packet_up (core_net k)"
    "state (packet_down m) = (if r = 0 then PACKET_IDLE else state (packet_down (core_net k)))"
    using core_okD(2) [OF assms] net_ok_release_down [of ?n]
    by (simp_all add: m_def down_lost_def packet_release_down_def)
  have "core_ok xs (with_net m k)"
    by (rule core_ok_net [OF assms m(1), of "{}"]) (use m in \<open>simp add: posts_same\<close>)
  then obtain k' where "down_loop_test r (with_net m k) = Some k'" "core_ok xs k'" "same_net (with_net m k) k'"
    "down_at k' = (if r > 0 then Down_Sending (r - 1) else Down_Request)" by (rule down_loop_test_ok)
  then show thesis
    using m by (intro that [of k']) (auto simp: UNET_Router_Down_timeout_def same_net_def Let_def m_def [symmetric])
qed

lemma Up_request_ok:
  assumes "core_ok xs k" and "available Router_Up_Route_Request k"
  shows "core_ok xs (UNET_Router_Up_request k)"
proof -
  have "core_ok xs ((take_token Router_Up_Route_Request k)\<lparr>timer_up_retry := reset_trickle (timer_up_retry k)\<rparr>)"
    using core_ok_take [OF assms] ticking_reset [OF core_okD(7) [OF assms(1)]] by (rule core_ok_timer_up_retry)
  then show ?thesis by (simp add: UNET_Router_Up_request_def up_loop_test_def Let_def)
qed

lemma Up_send_ok:
  assumes "core_ok xs k"
  obtains k' where "UNET_Router_Up_send c env r k = Some k'" and "core_ok xs k'" and "up_at k' = Up_Ack r"
    and "taken k' = taken k" and "down_at k' = down_at k" and "down_ack_at k' = down_ack_at k"
    and "up_ack_at k' = up_ack_at k" and "packet_down (core_net k') = packet_down (core_net k)"
    and "posted (core_net k') = posted (core_net k)" and "state (packet_up (core_net k')) = PACKET_WAITING_ACK"
proof -
  obtain res n where u: "unet_packet_output c env NWK_TX_RETRIES (core_net k) = (res, n)" by fastforce
  note fr = output_frame [OF u]
  let ?m = "set_up_state PACKET_WAITING_ACK n"
  have n: "net_ok ?m" "posts_in {} (core_net k) ?m"
    using fr core_okD(2) [OF assms(1)] by (simp_all add: output_like_def posts_same)
  have ok: "core_ok xs (with_net ?m k)" by (rule core_ok_net [OF assms n])
  obtain t g where t: "run_timer (timer_up_retry k) (with_net ?m k) = Some (t, (with_net ?m k)\<lparr>generator := g\<rparr>)"
    "ticking 256 t"
    using run_timer_ticking [OF core_okD(7) [OF assms(1)]] by blast
  let ?k = "(with_net ?m k)\<lparr>generator := g, timer_up_retry := t, up_at := Up_Ack r\<rparr>"
  have "core_ok xs ((with_net ?m k)\<lparr>generator := g, timer_up_retry := t\<rparr>)"
    by (rule core_ok_timer_up_retry) (use ok t(2) in simp_all)
  then have "core_ok xs ?k" by simp
  moreover have "UNET_Router_Up_send c env r k = Some ?k"
    using u t(1) by (simp add: UNET_Router_Up_send_def)
  ultimately show thesis using fr by (intro that [of ?k]) (simp_all add: output_like_def)
qed

lemma Up_acked_ok:
  assumes "core_ok xs k" and "available Router_Up_Ack_Received k"
  shows "core_ok xs (UNET_Router_Up_acked k)"
proof -
  let ?n = "core_net k"
  let ?m = "NODESTAT_UPDATE routed (?n\<lparr>packet_up := packet_release_up (packet_up ?n)\<rparr>)"
  have "net_ok ?m" using net_ok_release_up [OF core_okD(2) [OF assms(1)]] by simp
  then have "core_ok xs (with_net ?m (take_token Router_Up_Ack_Received k))"
    by (rule core_ok_net [OF core_ok_take [OF assms], of _ "{}"]) (simp add: posts_same)
  then show ?thesis by (simp add: UNET_Router_Up_acked_def Let_def)
qed

lemma Up_timeout_ok:
  assumes "core_ok xs k"
  shows "core_ok xs (UNET_Router_Up_timeout r k)"
proof -
  let ?n = "NODESTAT_UPDATE txnacked (core_net k)"
  define m where "m = (if r = 0 then up_lost ?n else ?n)"
  have m: "net_ok m" "posts_in {} (core_net k) m"
    using core_okD(2) [OF assms] net_ok_release_up [of "NODESTAT_UPDATE routdrop ?n"]
    by (simp_all add: m_def up_lost_def Let_def posts_same)
  have "core_ok xs (with_net m k)" by (rule core_ok_net [OF assms m])
  then show ?thesis by (simp add: UNET_Router_Up_timeout_def up_loop_test_def Let_def m_def)
qed

section \<open>The other tasks return\<close>

lemma isr_ok:
  assumes "core_ok xs k"
  shows "\<exists>k'. UNET_radio_isr_handler k = Some k' \<and> core_ok xs k'"
proof -
  have post: "\<exists>n. post sig (core_net j) = Some n \<and> core_ok xs (with_net n j)" if j: "core_ok xs j" for sig j
  proof -
    let ?n = "(core_net j)\<lparr>posted := posted (core_net j) @ [sig]\<rparr>"
    have p: "post sig (core_net j) = Some ?n" by (rule post_all [OF core_okD(3) [OF j]])
    have "core_ok xs (with_net ?n j)"
      by (rule core_ok_net [OF j _ posts_post [OF p, of UNIV]]) (use core_okD(2) [OF j] in simp_all)
    then show ?thesis using p by blast
  qed
  define k1 where "k1 = k\<lparr>radio_state := (radio_state k OR RX_DISABLED) AND NOT RX_OK\<rparr>"
  have "core_ok xs k1" using assms by (simp add: k1_def)
  from post [OF this] obtain n1 where n1: "post Radio_RX_Event (core_net k1) = Some n1" "core_ok xs (with_net n1 k1)"
    by blast
  define k2 where "k2 = (if radio_state k AND RX_OK = RX_OK then with_net n1 k1 else k)"
  have k2: "core_ok xs k2" using n1(2) assms by (simp add: k2_def)
  define k3 where "k3 = k2\<lparr>radio_state := radio_state k2 AND NOT TX_OK\<rparr>"
  have "core_ok xs k3" using k2 by (simp add: k3_def)
  from post [OF this] obtain n3 where n3: "post Radio_TX_Event (core_net k3) = Some n3" "core_ok xs (with_net n3 k3)"
    by blast
  have "(if radio_state k AND RX_OK = RX_OK then do {
          let k' = k\<lparr>radio_state := (radio_state k OR RX_DISABLED) AND NOT RX_OK\<rparr>;
          n \<leftarrow> post Radio_RX_Event (core_net k');
          Some (with_net n k')
        } else Some k) = Some k2"
    using n1(1) by (simp add: k2_def k1_def Let_def)
  then have "UNET_radio_isr_handler k = (if radio_state k AND TX_OK = TX_OK then Some (with_net n3 k3) else Some k2)"
    using n3(1) unfolding UNET_radio_isr_handler_def Let_def by (simp add: k3_def)
  then show ?thesis using n3(2) k2 by simp
qed

lemma receive_buffer_ok: "packet_ok p \<Longrightarrow> packet_ok (receive_buffer f p)"
  by (simp add: receive_buffer_def Let_def)

lemma Radio_turn_ok:
  assumes "core_ok xs k0" and "enabled (Radio_Frame f memory) k0"
  obtains k' n where "UNET_Radio_turn dev f memory k0 = Some k'" and "core_ok xs k'" and "core_net k' = n"
    and "taken k' = taken (take_token Radio_RX_Event k0)" and "up_at k' = up_at k0" and "down_at k' = down_at k0"
    and "down_ack_at k' = down_ack_at k0" and "up_ack_at k' = up_ack_at k0"
    and "input_like PACKET_BUSY (core_net k0) n"
proof -
  let ?k = "take_token Radio_RX_Event k0"
  have e: "available Radio_RX_Event k0" "2 + length (rx_frame f) \<le> 128" "length memory = 128"
    using assms(2) by simp_all
  have k: "core_ok xs ?k" using core_ok_take [OF assms(1) e(1)] .
  let ?p0 = "\<lparr>info = replicate 12 0, bytes = memory, state = PACKET_BUSY\<rparr> :: packet"
  define n where "n = (if 0 < length (rx_frame f) then snd (snd (the (ieee802154_packet_input dev (rx_crc f)
      (receive_buffer f ?p0) (NODESTAT_UPDATE rxed (core_net k0))))) else core_net k0)"
  let ?s = "NODESTAT_UPDATE rxed (core_net k0)"
  have s: "net_ok ?s" "all_created ?s"
    using core_okD(2,3) [OF assms(1)] by (simp_all add: all_created_def)
  have p: "packet_ok (receive_buffer f ?p0)" using e(3) by (intro receive_buffer_ok) (simp add: packet_ok_def)
  obtain a q n1 where i: "ieee802154_packet_input dev (rx_crc f) (receive_buffer f ?p0) ?s = Some (a, q, n1)" "net_ok n1"
    using ieee802154_packet_input_ok [OF s p] by blast
  have "link_like (core_net k0) ?s" by (rule link_like_same) simp_all
  from input_like_prefix [OF this _ packet_input_like [OF s i(1)]]
  have like1: "input_like PACKET_BUSY (core_net k0) n1" by (simp add: receive_buffer_def Let_def)
  have n: "net_ok n" "input_like PACKET_BUSY (core_net k0) n"
    using i like1 core_okD(2) [OF assms(1)] by (simp_all add: n_def input_like_link)
  have "posts_in UNIV (core_net k0) n" using n(2) by (auto simp: input_like_def link_like_def posts_in_def)
  then have "core_ok xs (with_net n ?k)" using n(1) by (intro core_ok_net [OF k]) simp_all
  then have ok: "core_ok xs ((with_net n ?k)\<lparr>radio_state := (radio_state ?k AND NOT RX_OK) AND NOT RX_DISABLED\<rparr>)"
    by simp
  have "UNET_Radio_turn dev f memory k0 =
      Some ((with_net n ?k)\<lparr>radio_state := (radio_state ?k AND NOT RX_OK) AND NOT RX_DISABLED\<rparr>)"
    using e(2) i(1) by (simp add: UNET_Radio_turn_def Let_def n_def)
  from that [OF this ok _ _ _ _ _ _ n(2)] show thesis by simp
qed

text \<open>What a turn leaves to the packet tasks: their places, the packets and all but some tokens.\<close>

definition packets_like :: "signal set \<Rightarrow> core \<Rightarrow> core \<Rightarrow> bool" where
  "packets_like S k k' \<longleftrightarrow> packet_up (core_net k') = packet_up (core_net k) \<and>
     packet_down (core_net k') = packet_down (core_net k) \<and> posts_in S (core_net k) (core_net k') \<and>
     up_at k' = up_at k \<and> down_at k' = down_at k \<and> down_ack_at k' = down_ack_at k \<and> up_ack_at k' = up_ack_at k \<and>
     (\<forall>sig. sig \<notin> {Radio_RX_Event, Link_Packet_TX_Event} \<longrightarrow> taken k' sig = taken k sig)"

lemma net_ok_link_create: "net_ok n \<Longrightarrow> net_ok (link_packet_create dev n)"
  by (rule net_ok_link_packet_create)

lemma Link_wake_ok:
  assumes "core_ok xs k0" and "woken \<longrightarrow> available Link_Packet_TX_Event k0"
  obtains k' where "UNET_Link_wake dev woken k0 = Some k'" and "core_ok xs k'"
    and "packets_like {Link_Packet_TX_Event, Router_Down_Route_Request} k0 k'"
proof -
  let ?S = "{Link_Packet_TX_Event, Router_Down_Route_Request}"
  have create: "\<exists>k'. Some ((with_net (link_packet_create dev (core_net j)) j)\<lparr>link_at := Link_Sending\<rparr>) = Some k' \<and>
      core_ok xs k' \<and> packets_like ?S j k'" if j: "core_ok xs j" for j
  proof -
    have l: "link_like (core_net j) (link_packet_create dev (core_net j))"
      by (rule link_packet_create_like [OF core_okD(2) [OF j]])
    then have p: "posts_in ?S (core_net j) (link_packet_create dev (core_net j))"
      using posts_mono [of "{Link_Packet_TX_Event}" _ _ ?S] by (simp add: link_like_def)
    have "core_ok xs (with_net (link_packet_create dev (core_net j)) j)"
      by (rule core_ok_net [OF j net_ok_link_create [OF core_okD(2) [OF j]] p])
    then show ?thesis using l p by (simp add: packets_like_def link_like_def)
  qed
  show thesis
  proof (cases woken)
    case False
    then show thesis using create [OF assms(1)] that by (auto simp: UNET_Link_wake_def)
  next
    case True
    define k where "k = (take_token Link_Packet_TX_Event k0)\<lparr>timer_link := reset_trickle (timer_link k0)\<rparr>"
    have k: "core_ok xs k"
      unfolding k_def using assms True ticking_reset [OF core_okD(4) [OF assms(1)]]
      by (intro core_ok_timer_link core_ok_take) simp_all
    let ?n = "(core_net k)\<lparr>posted := posted (core_net k) @ [Router_Down_Route_Request]\<rparr>"
    have p: "post Router_Down_Route_Request (core_net k) = Some ?n" by (rule post_all [OF core_okD(3) [OF k]])
    define k1 where "k1 = (if param NODE_DISTANCE (core_net k) \<noteq> NODE_DISTANCE_INIT dev
        then (with_net ?n k)\<lparr>timer_down := reset_trickle (timer_down k)\<rparr> else k)"
    have "core_ok xs (with_net ?n k)"
      by (rule core_ok_net [OF k _ posts_post [OF p, of ?S]]) (use core_okD(2) [OF k] in simp_all)
    then have k1: "core_ok xs k1"
      using k ticking_reset [OF core_okD(5) [OF k]] core_ok_timer_down by (simp add: k1_def)
    have l1: "packets_like ?S k0 k1"
      by (simp add: packets_like_def k1_def k_def posts_in_def take_token_def with_net_def)
    obtain k' where k': "Some ((with_net (link_packet_create dev (core_net k1)) k1)\<lparr>link_at := Link_Sending\<rparr>) = Some k'"
      "core_ok xs k'" "packets_like ?S k1 k'"
      using create [OF k1] by blast
    have "packets_like ?S k0 k'"
      using l1 k'(3) posts_trans by (auto simp: packets_like_def)
    moreover have "(if param NODE_DISTANCE (core_net k) \<noteq> NODE_DISTANCE_INIT dev then do {
          n \<leftarrow> post Router_Down_Route_Request (core_net k);
          Some ((with_net n k)\<lparr>timer_down := reset_trickle (timer_down k)\<rparr>)
        } else Some k) = Some k1"
      using p by (simp add: k1_def)
    then have "UNET_Link_wake dev woken k0 = Some k'"
      using True k'(1) unfolding UNET_Link_wake_def Let_def k_def [symmetric]
      by (simp only: if_True Option.bind.bind_lunit)
    ultimately show thesis using k'(2) that by blast
  qed
qed

lemma Link_send_ok:
  assumes "core_ok xs k"
  obtains k' where "UNET_Link_send c env k = Some k'" and "core_ok xs k'" and "packets_like {} k k'"
proof -
  obtain res n where u: "unet_packet_output c env NWK_TX_RETRIES (core_net k) = (res, n)" by fastforce
  note fr = output_frame [OF u]
  have ok: "core_ok xs (with_net n k)" by (rule output_ok(1) [OF assms u])
  obtain t g where t: "run_timer (timer_link k) (with_net n k) = Some (t, (with_net n k)\<lparr>generator := g\<rparr>)"
    "ticking 131072 t"
    using run_timer_ticking [OF core_okD(4) [OF assms]] by blast
  let ?k = "(with_net n k)\<lparr>generator := g, timer_link := t, link_at := Link_Waiting\<rparr>"
  have "core_ok xs ((with_net n k)\<lparr>generator := g, timer_link := t\<rparr>)"
    by (rule core_ok_timer_link) (use ok t(2) in simp_all)
  then have "core_ok xs ?k" by simp
  moreover have "UNET_Link_send c env k = Some ?k" using u t(1) by (simp add: UNET_Link_send_def)
  ultimately show thesis
    using fr by (intro that [of ?k]) (simp_all add: packets_like_def output_like_def posts_same)
qed

lemma callback_ok:
  assumes "core_ok xs k"
  obtains t k' where "neighbourhood_callback dev k = Some (t, k')" and "core_ok xs k'"
    and "packets_like {Link_Packet_TX_Event} k k'"
proof -
  have n: "net_ok (core_net k)" "created (core_net k) Link_Packet_TX_Event"
    using core_okD(2,3) [OF assms] by (simp_all add: all_created_def)
  obtain n' where n': "link_verify_neighbourhood dev (core_net k) = Some n'" "net_ok n'"
    using link_verify_ok [OF n, of dev] by blast
  have l: "link_like (core_net k) n'" by (rule link_verify_like [OF n n'(1)])
  have "core_ok xs (with_net n' k)"
    using core_ok_net [OF assms n'(2)] l by (auto simp: link_like_def)
  then show thesis
    using n'(1) l by (intro that [of 131072 "with_net n' k"]) (simp_all add: neighbourhood_callback_def packets_like_def link_like_def)
qed

section \<open>Sending returns\<close>

lemma acquire_loop_idle:
  "0 < n \<Longrightarrow> acquire_loop (\<lambda>_ st. st) b k n st =
     (if state (the_buffer b st) = PACKET_IDLE
      then (True, set_buffer b ((the_buffer b st)\<lparr>state := PACKET_START_ROUTE\<rparr>) st) else (False, st))"
proof (induction n arbitrary: k)
  case (Suc n)
  have same: "set_buffer b (the_buffer b st) st = st"
    by (simp add: set_buffer_def the_buffer_def split: buffer.split)
  have a: "acquire b st = (if state (the_buffer b st) = PACKET_IDLE
      then (True, set_buffer b ((the_buffer b st)\<lparr>state := PACKET_START_ROUTE\<rparr>) st) else (False, st))"
    using same by (cases b) (simp_all add: acquire_def packet_acquire_up_def packet_acquire_down_def)
  show ?case
    using Suc.IH [of "Suc k"] a by (cases n) auto
qed simp

lemma carries_self: "packet_ok p \<Longrightarrow> carries p (byte p 32) (byte p 33) (byte p 34) (drop 35 (bytes p))"
  by (simp add: carries_def)

lemma sendto_frame:
  assumes "net_ok n"
  obtains r n' where "unet_packet_up_sendto (Some dest) pl n = Some (r, n')" and "net_ok n'" and "created n' = created n"
    and "posted n' = posted n" and "packet_down n' = packet_down n"
    and "r = RESULT_PACKET_SEND_OK \<longrightarrow> state (packet_up n') \<noteq> PACKET_IDLE"
proof -
  obtain r n' where s: "unet_packet_up_sendto (Some dest) pl n = Some (r, n')" "net_ok n'" "created n' = created n"
    "r = RESULT_PACKET_SEND_OK \<longrightarrow> state (packet_up n') \<noteq> PACKET_IDLE"
    using sendto_result [OF assms carries_self [OF net_okD(6) [OF assms]]] by blast
  have "posted n' = posted n \<and> packet_down n' = packet_down n"
    using s(1) router_up_frame unfolding unet_packet_up_sendto_def Let_def
    by (fastforce split: Option.bind_split_asm)
  then show thesis using s that by blast
qed

lemma down_send_frame:
  assumes "net_ok n"
  obtains r n' where "unet_packet_down_send pl n = Some (r, n')" and "net_ok n'" and "created n' = created n"
    and "posted n' = posted n" and "packet_up n' = packet_up n"
    and "r = RESULT_PACKET_SEND_OK \<longrightarrow> state (packet_down n') \<noteq> PACKET_IDLE"
proof -
  obtain r n' where s: "unet_packet_down_send pl n = Some (r, n')" "net_ok n'" "created n' = created n"
    "r = RESULT_PACKET_SEND_OK \<longrightarrow> state (packet_down n') \<noteq> PACKET_IDLE"
    using down_send_result [OF assms carries_self [OF net_okD(7) [OF assms]]] by blast
  have "posted n' = posted n \<and> packet_up n' = packet_up n"
    using s(1) router_down_frame unfolding unet_packet_down_send_def Let_def
    by (fastforce split: Option.bind_split_asm if_splits)
  then show thesis using s that by blast
qed

text \<open>
  A send takes a free buffer and leaves it with a request to the router, or free; or it changes
  nothing.
\<close>

definition send_like :: "net \<Rightarrow> net \<Rightarrow> bool" where
  "send_like n n' \<longleftrightarrow> created n' = created n \<and>
     (packet_up n' = packet_up n \<and> packet_down n' = packet_down n \<and> posted n' = posted n \<or>
      state (packet_up n) = PACKET_IDLE \<and> packet_down n' = packet_down n \<and>
        (state (packet_up n') = PACKET_IDLE \<and> posted n' = posted n \<or>
         state (packet_up n') \<noteq> PACKET_IDLE \<and> posted n' = posted n @ [Router_Up_Route_Request]) \<or>
      state (packet_down n) = PACKET_IDLE \<and> packet_up n' = packet_up n \<and>
        (state (packet_down n') = PACKET_IDLE \<and> posted n' = posted n \<or>
         state (packet_down n') \<noteq> PACKET_IDLE \<and> posted n' = posted n @ [Router_Down_Route_Request]))"

lemma stack_ok_set_buffer:
  assumes "stack_ok xs st" and "packet_ok p"
  shows "stack_ok xs (set_buffer b p st)"
proof -
  obtain n where n: "set_buffer b p st = st\<lparr>the_net := n\<rparr>" by (simp add: set_buffer_def)
  then have "the_net (set_buffer b p st) = n" by simp
  then have "net_ok n" "created n = created (the_net st)"
    using set_buffer_sel(4) [where b = b and p = p and st = st] set_buffer_sel(5) [where b = b and p = p and st = st]
      assms by (auto simp: stack_ok_def)
  then show ?thesis unfolding n by (rule stack_ok_net [OF assms(1)])
qed

lemma send_ok:
  assumes "stack_ok xs st" and "35 + unat len \<le> 128" and "unat len \<le> length buffer"
  shows "\<exists>code st'. unet_send (\<lambda>_ st. st) (\<lambda>st. st) c buffer len 0 st = Some (code, st') \<and> stack_ok xs st' \<and>
    send_like (the_net st) (the_net st')"
proof -
  let ?e = "endpoint c st"
  define up where "up = (node_pan_id64_get (node_data (the_net st)) \<noteq> dest_address ?e)"
  define b where "b = (if up then Up_Buffer else Down_Buffer)"
  have lim: "0 < ret_limit 0" using retry_limit(1) [of 0] by simp
  show ?thesis
  proof (cases "state (the_buffer b st) = PACKET_IDLE")
    case False
    then show ?thesis
      using assms(1) acquire_loop_idle [OF lim, of b 0 st]
      by (simp add: unet_send_def Let_def up_def [symmetric] b_def [symmetric] send_like_def)
  next
    case True
    define s1 where "s1 = set_buffer b ((the_buffer b st)\<lparr>state := PACKET_START_ROUTE\<rparr>) st"
    have n: "net_ok (the_net st)" "all_created (the_net st)" using assms(1) by (simp_all add: stack_ok_def)
    have s1: "stack_ok xs s1" "endpoint c s1 = ?e"
      unfolding s1_def using assms(1) buffer_ok [OF n(1), of b] by (simp_all add: stack_ok_set_buffer)
    then have n1: "net_ok (the_net s1)" by (simp add: stack_ok_def)
    obtain p where p: "fill_packet ?e buffer len (the_buffer b s1) = Some p" "packet_ok p"
      using fill_packet_carries [OF buffer_ok [OF n1] assms(2,3)] by blast
    define s3 where "s3 = set_buffer b p s1"
    have s3: "stack_ok xs s3" "endpoint c s3 = ?e"
      unfolding s3_def using s1 p(2) by (simp_all add: stack_ok_set_buffer)
    have other: "packet_down (the_net s3) = packet_down (the_net st)" if up
      using that by (simp add: s3_def s1_def b_def set_buffer_def)
    have other': "packet_up (the_net s3) = packet_up (the_net st)" if "\<not> up"
      using that by (simp add: s3_def s1_def b_def set_buffer_def)
    have po3: "posted (the_net s3) = posted (the_net st)" "created (the_net s3) = created (the_net st)"
      by (simp_all add: s3_def s1_def set_buffer_def split: buffer.split)
    have n3: "net_ok (the_net s3)" "all_created (the_net s3)" using s3(1) by (simp_all add: stack_ok_def)
    let ?pl = "len + of_nat UNET_TRANSP_HEADER_SIZE"
    let ?go = "if up then unet_packet_up_sendto (Some (dest_address (endpoint c s3))) ?pl (the_net s3)
        else unet_packet_down_send ?pl (the_net s3)"
    obtain res n4 where go: "?go = Some (res, n4)" "net_ok n4" "created n4 = created (the_net s3)"
      "posted n4 = posted (the_net s3)"
      "if up then packet_down n4 = packet_down (the_net s3) else packet_up n4 = packet_up (the_net s3)"
      "res = RESULT_PACKET_SEND_OK \<longrightarrow> state (if up then packet_up n4 else packet_down n4) \<noteq> PACKET_IDLE"
    proof (cases up)
      case True
      obtain r n' where "unet_packet_up_sendto (Some (dest_address (endpoint c s3))) ?pl (the_net s3) = Some (r, n')"
        "net_ok n'" "created n' = created (the_net s3)" "posted n' = posted (the_net s3)"
        "packet_down n' = packet_down (the_net s3)" "r = RESULT_PACKET_SEND_OK \<longrightarrow> state (packet_up n') \<noteq> PACKET_IDLE"
        by (rule sendto_frame [OF n3(1)])
      then show thesis using True by (intro that [of r n']) simp_all
    next
      case False
      obtain r n' where "unet_packet_down_send ?pl (the_net s3) = Some (r, n')"
        "net_ok n'" "created n' = created (the_net s3)" "posted n' = posted (the_net s3)"
        "packet_up n' = packet_up (the_net s3)" "r = RESULT_PACKET_SEND_OK \<longrightarrow> state (packet_down n') \<noteq> PACKET_IDLE"
        by (rule down_send_frame [OF n3(1)])
      then show thesis using False by (intro that [of r n']) simp_all
    qed
    let ?sig = "if up then Router_Up_Route_Request else Router_Down_Route_Request"
    have post: "post ?sig n4 = Some (n4\<lparr>posted := posted n4 @ [?sig]\<rparr>)"
      using n3(2) go(3) by (intro post_all) (simp add: all_created_def)
    define s4 where "s4 = (if res = RESULT_PACKET_SEND_OK then s3\<lparr>the_net := n4\<lparr>posted := posted n4 @ [?sig]\<rparr>\<rparr>
        else release b (s3\<lparr>the_net := n4\<rparr>))"
    have end_: "(if res = RESULT_PACKET_SEND_OK
        then do { n2 \<leftarrow> post ?sig n4; Some (s3\<lparr>the_net := n2\<rparr>) }
        else Some (release b (s3\<lparr>the_net := n4\<rparr>))) = Some s4"
      unfolding post by (simp add: s4_def)
    have loop: "acquire_loop (\<lambda>_ st. st) b 0 (ret_limit 0) st = (True, s1)"
      using acquire_loop_idle [OF lim, of b 0 st] True by (simp add: s1_def)
    have send: "unet_send (\<lambda>_ st. st) (\<lambda>st. st) c buffer len 0 st =
        Some (Sent res, s4\<lparr>last_transmition_time := OSGetTickCount (kernel s4)\<rparr>)"
      unfolding unet_send_def Let_def up_def [symmetric] b_def [symmetric] loop
      by (simp only: prod.case bool.case if_cancel s1(2) p(1) Option.bind.bind_lunit
          s3_def [symmetric] go(1) end_)
    have ok4: "stack_ok xs (s3\<lparr>the_net := m\<rparr>)" if "net_ok m" "created m = created n4" for m
      using that go(3) by (intro stack_ok_net [OF s3(1)]) simp_all
    have s4: "stack_ok xs s4"
      using ok4 go(2) release_ok by (simp add: s4_def)
    then have "stack_ok xs (s4\<lparr>last_transmition_time := z\<rparr>)" for z
      by (simp add: stack_ok_def tp_list_def)
    moreover have "send_like (the_net st) (the_net s4)"
      using True go other other' po3
      by (cases up) (auto simp: s4_def send_like_def release_net packet_release_up_def packet_release_down_def
          b_def the_buffer_def)
    ultimately show ?thesis using send by simp
  qed
qed

lemma app_send_ok:
  assumes "core_ok xs k" and "enabled (App_Send p buffer len) k"
  obtains k' where "app_send p buffer len k = Some k'" and "core_ok xs k'"
    and "send_like (core_net k) (core_net k')" and "k' = k\<lparr>core_stack := core_stack k'\<rparr>"
proof -
  have e: "35 + unat len \<le> 128" "unat len \<le> length buffer" using assms(2) by simp_all
  obtain code st where s: "unet_send (\<lambda>_ st. st) (\<lambda>st. st) p buffer len 0 (core_stack k) = Some (code, st)"
    "stack_ok xs st" "send_like (core_net k) (the_net st)"
    using send_ok [OF core_okD(1) [OF assms(1)] e] by blast
  have "posts_in UNIV (core_net k) (the_net st)" using s(3) by (auto simp: send_like_def posts_in_def)
  from core_ok_stack [OF assms(1) s(2) this] show thesis
    using s by (intro that [of "k\<lparr>core_stack := st\<rparr>"]) (simp_all add: app_send_def)
qed

end
