(* ===== verification/Core_Invariants.thy ===== *)
theory Core_Invariants
  imports Core_Safe
begin

text \<open>
  The reachable states of the stack of a router: no task faults while there is a parent, and each
  packet buffer in use is in the charge of a task that will release it.
\<close>

section \<open>Start\<close>

definition starting :: "nat list \<Rightarrow> signal set \<Rightarrow> core \<Rightarrow> bool" where
  "starting xs S k \<longleftrightarrow> net_ok (core_net k) \<and> (\<forall>sig. created (core_net k) sig \<longleftrightarrow> sig \<in> S) \<and>
     posted (core_net k) = [] \<and> taken k = (\<lambda>_. 0) \<and>
     state (packet_up (core_net k)) = PACKET_IDLE \<and> state (packet_down (core_net k)) = PACKET_IDLE \<and>
     tp_list (core_stack k) xs \<and>
     (\<forall>x < length (endpoints (core_stack k)). wake_up_sem (endpoint x (core_stack k)) \<noteq> None)"

lemma starting_create:
  "starting xs S k \<Longrightarrow> starting xs (insert sig S) (with_net (create sig (core_net k)) k)"
  by (auto simp: starting_def create_def net_ok_def tp_list_net)

lemma starting_fields [simp]:
  "starting xs S (k\<lparr>generator := g\<rparr>) = starting xs S k" "starting xs S (k\<lparr>timer_link := t\<rparr>) = starting xs S k"
  "starting xs S (k\<lparr>timer_down := t\<rparr>) = starting xs S k" "starting xs S (k\<lparr>timer_down_retry := t\<rparr>) = starting xs S k"
  "starting xs S (k\<lparr>timer_up_retry := t\<rparr>) = starting xs S k" "starting xs S (k\<lparr>link_at := lp\<rparr>) = starting xs S k"
  "starting xs S (k\<lparr>down_at := dp\<rparr>) = starting xs S k" "starting xs S (k\<lparr>up_at := up\<rparr>) = starting xs S k"
  "starting xs S (k\<lparr>down_ack_at := ap\<rparr>) = starting xs S k" "starting xs S (k\<lparr>up_ack_at := ap\<rparr>) = starting xs S k"
  "starting xs S (k\<lparr>radio_state := r\<rparr>) = starting xs S k"
  by (simp_all add: starting_def)

lemma starting_net:
  assumes "starting xs S k" and "net_ok n" and "created n = created (core_net k)" and "posted n = posted (core_net k)"
    and "packet_up n = packet_up (core_net k)" and "packet_down n = packet_down (core_net k)"
  shows "starting xs S (with_net n k)"
  using assms by (simp add: starting_def tp_list_net)

lemma open_timer_total:
  obtains g where "open_timer addr i m k = Some (init_trickle i m, k\<lparr>generator := g\<rparr>)"
proof -
  have "\<exists>g. seed_generator addr (generator k) = Some g"
    by (cases "generator k") (simp add: seed_generator_def form_seed_value Let_def)
  then obtain g where "seed_generator addr (generator k) = Some g" ..
  then show thesis by (intro that [of g]) (simp add: open_timer_def open_trickle_def)
qed

lemma Radio_start_ok:
  assumes "starting xs S k"
  shows "starting xs S (UNET_Radio_start dev c k)"
proof -
  define n1 where "n1 = (core_net k)\<lparr>node_data := node_addr64_set
      [fst (PANID_INIT c), snd (PANID_INIT c), 0, 0, 0, 0, fst (MAC16_INIT c), snd (MAC16_INIT c)]
      (node_pan_id64_set [fst (PANID_INIT c), snd (PANID_INIT c), 0, 0, 0, 0, 0, 0] (node_data (core_net k)))\<rparr>"
  have n1: "net_ok n1"
    unfolding n1_def using assms by (intro net_ok_addr64) (simp_all add: starting_def)
  have sel: "created n1 = created (core_net k)" "posted n1 = posted (core_net k)"
    "packet_up n1 = packet_up (core_net k)" "packet_down n1 = packet_down (core_net k)"
    by (simp_all add: n1_def)
  have "starting xs S (with_net (set_param NODE_SEQ_NUM a (set_param NODE_CHANNEL b (set_param NODE_PARENTINDEX NO_PARENT
      (set_param NODE_DISTANCE d (set_param NODE_PANID16L e (set_param NODE_PANID16H f
        (set_param NODE_ADDR16L g (set_param NODE_ADDR16H h n1)))))))) k)" for a b d e f g h
    using n1 by (intro starting_net [OF assms] net_ok_set_param) (simp_all add: sel)
  then show ?thesis
    unfolding UNET_Radio_start_def Let_def n1_def [symmetric] by simp
qed

lemma UNET_start_ok:
  assumes "core_before xs k0"
  obtains k where "UNET_start ROUTER c k0 = Some k" and "core_ok xs k" and "posted (core_net k) = []"
    and "taken k = (\<lambda>_. 0)" and "state (packet_up (core_net k)) = PACKET_IDLE"
    and "state (packet_down (core_net k)) = PACKET_IDLE" and "down_ack_at k = Ack_Idle" and "up_ack_at k = Ack_Idle"
    and "down_at k = Down_Request" and "up_at k = Up_Request"
proof -
  define k1 where "k1 = with_net (create Radio_TX_Event (create Radio_RX_Event (core_net k0))) k0"
  have "starting xs {} k0" using assms by (simp add: core_before_def starting_def)
  from starting_create [OF starting_create [OF this]]
  have k1: "starting xs {Radio_TX_Event, Radio_RX_Event} k1" by (simp add: k1_def with_net_def)
  define k2 where "k2 = UNET_Radio_start ROUTER c k1"
  have k2: "starting xs {Radio_TX_Event, Radio_RX_Event} k2" unfolding k2_def by (rule Radio_start_ok [OF k1])
  let ?n = "link_neighbor_table_init (create Link_Packet_TX_Event (core_net k2))"
  let ?S = "{Link_Packet_TX_Event, Radio_TX_Event, Radio_RX_Event}"
  have c2: "starting xs ?S (with_net (create Link_Packet_TX_Event (core_net k2)) k2)" by (rule starting_create [OF k2])
  then have "net_ok ?n" by (intro net_ok_table_init) (simp add: starting_def)
  then have "starting xs ?S (with_net ?n (with_net (create Link_Packet_TX_Event (core_net k2)) k2))"
    by (rule starting_net [OF c2]) simp_all
  then have k3: "starting xs ?S (with_net ?n k2)" by (simp add: with_net_def)
  obtain g1 where g1: "open_timer (MAC16_INIT c) 2000 131072 (with_net ?n k2) =
      Some (init_trickle 2000 131072, (with_net ?n k2)\<lparr>generator := g1\<rparr>)" by (rule open_timer_total)
  have tick1: "ticking 131072 (init_trickle 2000 131072)" by (rule ticking_init) simp_all
  obtain t1 g2 where t1: "run_timer (init_trickle 2000 131072) ((with_net ?n k2)\<lparr>generator := g1\<rparr>) =
      Some (t1, (with_net ?n k2)\<lparr>generator := g1, generator := g2\<rparr>)" "ticking 131072 t1"
    by (rule run_timer_ticking [OF tick1])
  define k4 where "k4 = (with_net ?n k2)\<lparr>generator := g1, generator := g2, timer_link := t1, link_at := Link_Waiting\<rparr>"
  have k4: "starting xs ?S k4" "ticking 131072 (timer_link k4)" "UNET_Link_start c k2 = Some k4"
    using k3 t1 g1 by (simp_all add: k4_def UNET_Link_start_def Let_def)
  define k5 where "k5 = (with_net (create Router_Down_Ack_Request (core_net k4)) k4)\<lparr>down_ack_at := Ack_Idle\<rparr>"
  define k6 where "k6 = (with_net (create Router_Up_Ack_Request (core_net k5)) k5)\<lparr>up_ack_at := Ack_Idle\<rparr>"
  define k7 where "k7 = with_net (create Router_Down_Ack_Received (create Router_Down_Route_Request (core_net k6))) k6"
  have k5: "starting xs (insert Router_Down_Ack_Request ?S) k5"
    using starting_create [OF k4(1)] by (simp add: k5_def)
  have k6: "starting xs (insert Router_Up_Ack_Request (insert Router_Down_Ack_Request ?S)) k6"
    using starting_create [OF k5] by (simp add: k6_def)
  let ?S7 = "insert Router_Down_Ack_Received (insert Router_Down_Route_Request
      (insert Router_Up_Ack_Request (insert Router_Down_Ack_Request ?S)))"
  have k7: "starting xs ?S7 k7"
    using starting_create [OF starting_create [OF k6]] by (simp add: k7_def with_net_def)
  have ph7: "down_ack_at k7 = Ack_Idle" "up_ack_at k7 = Ack_Idle" "timer_link k7 = timer_link k4"
    by (simp_all add: k7_def k6_def k5_def)
  obtain g3 where g3: "open_timer (MAC16_INIT c) 4000 524288 k7 = Some (init_trickle 4000 524288, k7\<lparr>generator := g3\<rparr>)"
    by (rule open_timer_total)
  obtain g4 where g4: "open_timer (MAC16_INIT c) 64 256 (k7\<lparr>generator := g3\<rparr>) =
      Some (init_trickle 64 256, k7\<lparr>generator := g3, generator := g4\<rparr>)" by (rule open_timer_total)
  define k8 where "k8 = k7\<lparr>generator := g3, generator := g4, timer_down := init_trickle 4000 524288,
      timer_down_retry := init_trickle 64 256\<rparr>"
  have tick2: "ticking 524288 (timer_down k8)" by (simp add: k8_def ticking_init)
  obtain t2 g5 where t2: "run_timer (timer_down k8) k8 = Some (t2, k8\<lparr>generator := g5\<rparr>)" "ticking 524288 t2"
    by (rule run_timer_ticking [OF tick2])
  define k9 where "k9 = k8\<lparr>generator := g5, timer_down := t2, down_at := Down_Request\<rparr>"
  have k9: "UNET_Router_Down_start ROUTER c k6 = Some k9"
    using g3 g4 t2(1) unfolding UNET_Router_Down_start_def down_wait_def Let_def k7_def [symmetric]
    by (simp add: k8_def k9_def)
  have s9: "starting xs ?S7 k9" using k7 by (simp add: k9_def k8_def)
  define k10 where "k10 = with_net (create Router_Up_Ack_Received (create Router_Up_Route_Request (core_net k9))) k9"
  have s10: "starting xs (insert Router_Up_Ack_Received (insert Router_Up_Route_Request ?S7)) k10"
    using starting_create [OF starting_create [OF s9]] by (simp add: k10_def with_net_def)
  obtain g6 where g6: "open_timer (MAC16_INIT c) 64 256 k10 = Some (init_trickle 64 256, k10\<lparr>generator := g6\<rparr>)"
    by (rule open_timer_total)
  define k where "k = k10\<lparr>generator := g6, timer_up_retry := init_trickle 64 256, up_at := Up_Request\<rparr>"
  have up: "UNET_Router_Up_start c k9 = Some k"
    using g6 unfolding UNET_Router_Up_start_def Let_def k10_def [symmetric] by (simp add: k_def)
  have start: "UNET_start ROUTER c k0 = Some k"
    unfolding UNET_start_def Let_def k1_def [symmetric] k2_def [symmetric] k4(3) Option.bind.bind_lunit
      k5_def [symmetric] k6_def [symmetric] k9 up ..
  have s: "starting xs (insert Router_Up_Ack_Received (insert Router_Up_Route_Request ?S7)) k"
    using s10 by (simp add: k_def)
  have "created (core_net k) sig" for sig using s by (cases sig) (simp_all add: starting_def)
  moreover have "ticking 131072 (timer_link k)" "ticking 524288 (timer_down k)" "ticking 256 (timer_down_retry k)"
    "ticking 256 (timer_up_retry k)"
    using k4(2) t2(2) ph7(3) by (simp_all add: k_def k10_def k9_def k8_def ticking_init)
  ultimately have "core_ok xs k" using s by (simp add: core_ok_def stack_ok_def starting_def all_created_def)
  moreover have "down_ack_at k = Ack_Idle" "up_ack_at k = Ack_Idle" "down_at k = Down_Request" "up_at k = Up_Request"
    using ph7 by (simp_all add: k_def k10_def k9_def k8_def)
  ultimately show thesis using start s that by (simp add: starting_def)
qed

section \<open>Every turn returns\<close>

definition parent_gone :: "config \<Rightarrow> core_event \<Rightarrow> core \<Rightarrow> bool" where
  "parent_gone c ev k \<longleftrightarrow> (\<exists>env. ev = Down_Send env \<and>
     fst (unet_packet_output c env NWK_TX_RETRIES (core_net k)) = PACKET_SEND_OK \<and>
     param NODE_PARENTINDEX (core_net k) = NO_PARENT)"

lemma turn_ok:
  assumes "core_ok xs k" and "enabled ev k"
  shows "if parent_gone c ev k then core_turn dev c ev k = None
    else \<exists>k'. core_turn dev c ev k = Some k' \<and> core_ok xs k'"
proof (cases ev)
  case (Radio_Interrupt st)
  have "core_ok xs (k\<lparr>radio_state := st\<rparr>)" using assms(1) by simp
  from isr_ok [OF this] show ?thesis using Radio_Interrupt by (simp add: parent_gone_def)
next
  case (Radio_Frame f memory)
  obtain k' where "UNET_Radio_turn dev f memory k = Some k'" "core_ok xs k'"
    using Radio_turn_ok [OF assms(1), of f memory dev] assms(2) Radio_Frame by metis
  then show ?thesis using Radio_Frame by (simp add: parent_gone_def)
next
  case Down_Ack_Begin
  then show ?thesis
    using assms core_ok_take [OF assms(1), of Router_Down_Ack_Request]
    by (simp add: parent_gone_def UNET_Router_Down_Ack_begin_def Let_def)
next
  case (Down_Ack_End env)
  then show ?thesis using Down_Ack_end_ok [OF assms(1), of c env] by (simp add: parent_gone_def)
next
  case Up_Ack_Begin
  then show ?thesis
    using assms core_ok_take [OF assms(1), of Router_Up_Ack_Request]
    by (simp add: parent_gone_def UNET_Router_Up_Ack_begin_def Let_def)
next
  case (Up_Ack_End env)
  then show ?thesis using Up_Ack_end_ok [OF assms(1), of c env] by (simp add: parent_gone_def)
next
  case (Down_Go woken)
  have "woken \<longrightarrow> available Router_Down_Route_Request k" using assms(2) Down_Go by simp
  from Down_request_ok [OF assms(1) this, of dev]
  obtain k' where "UNET_Router_Down_request dev woken k = Some k'" "core_ok xs k'" by metis
  then show ?thesis using Down_Go by (simp add: parent_gone_def)
next
  case (Down_Send env)
  then obtain r where r: "down_at k = Down_Sending r" using assms(2) by (auto split: down_phase.splits)
  obtain res n1 where u: "unet_packet_output c env NWK_TX_RETRIES (core_net k) = (res, n1)" by fastforce
  show ?thesis
    using Down_send_ok [OF assms(1) u, of r] Down_Send r u by (auto simp: parent_gone_def split: if_splits)
next
  case Down_Acked
  then have "available Router_Down_Ack_Received k" using assms(2) by simp
  from Down_acked_ok [OF assms(1) this] obtain k' where "UNET_Router_Down_acked k = Some k'" "core_ok xs k'" by metis
  then show ?thesis using Down_Acked by (simp add: parent_gone_def)
next
  case Down_Timeout
  then obtain r where r: "down_at k = Down_Ack r" using assms(2) by (auto split: down_phase.splits)
  from Down_timeout_ok [OF assms(1)] obtain k' where "UNET_Router_Down_timeout r k = Some k'" "core_ok xs k'" by metis
  then show ?thesis using Down_Timeout r by (simp add: parent_gone_def)
next
  case Up_Go
  then show ?thesis using Up_request_ok [OF assms(1)] assms(2) by (simp add: parent_gone_def)
next
  case (Up_Send env)
  then obtain r where r: "up_at k = Up_Sending r" using assms(2) by (auto split: up_phase.splits)
  from Up_send_ok [OF assms(1)] obtain k' where "UNET_Router_Up_send c env r k = Some k'" "core_ok xs k'" by metis
  then show ?thesis using Up_Send r by (simp add: parent_gone_def)
next
  case Up_Acked
  then show ?thesis using Up_acked_ok [OF assms(1)] assms(2) by (simp add: parent_gone_def)
next
  case Up_Timeout
  then obtain r where "up_at k = Up_Ack r" using assms(2) by (auto split: up_phase.splits)
  then show ?thesis using Up_timeout_ok [OF assms(1)] Up_Timeout by (simp add: parent_gone_def)
next
  case (Link_Wake woken)
  have "woken \<longrightarrow> available Link_Packet_TX_Event k" using assms(2) Link_Wake by simp
  from Link_wake_ok [OF assms(1) this, of dev]
  obtain k' where "UNET_Link_wake dev woken k = Some k'" "core_ok xs k'" by metis
  then show ?thesis using Link_Wake by (simp add: parent_gone_def)
next
  case (Link_Send env)
  from Link_send_ok [OF assms(1), of c env] obtain k' where "UNET_Link_send c env k = Some k'" "core_ok xs k'" by metis
  then show ?thesis using Link_Send by (simp add: parent_gone_def)
next
  case Neighbourhood_Check
  from callback_ok [OF assms(1), of dev]
  obtain t k' where "neighbourhood_callback dev k = Some (t, k')" "core_ok xs k'" by metis
  then show ?thesis using Neighbourhood_Check by (simp add: parent_gone_def)
next
  case (App_Send p buffer len)
  obtain k' where "app_send p buffer len k = Some k'" "core_ok xs k'"
    using app_send_ok [OF assms(1), of p buffer len] assms(2) App_Send by metis
  then show ?thesis using App_Send by (simp add: parent_gone_def)
qed

lemma reach_ok: "core_reach ROUTER c xs k \<Longrightarrow> core_ok xs k"
proof (induction rule: core_reach.induct)
  case (core_started k0 k)
  obtain k' where "UNET_start ROUTER c k0 = Some k'" "core_ok xs k'"
    using UNET_start_ok [OF core_started(1), of c] by metis
  then show ?case using core_started(2) by simp
next
  case (core_stepped k ev k')
  then show ?case using turn_ok [OF core_stepped.IH core_stepped(2), of c ROUTER] by (auto split: if_splits)
qed


text \<open>
  C17. Every reachable state of a router is well formed: the tables and buffers have their sizes,
  indices and the parent are in range, the neighbours are distinct, all semaphores exist, the list
  of endpoints is linked, no timer can divide by zero or leave its interval, and no token is taken
  that was not posted.
\<close>

theorem core_well_formed:
  assumes "core_reach ROUTER c xs k"
  shows "core_ok xs k"
  by (rule reach_ok [OF assms])

text \<open>The callback that an application registers is a field that no task writes.\<close>

lemma Set_App_Callback_ok: "core_ok xs (UNET_Set_App_Callback cb k) = core_ok xs k"
proof -
  have "tp_list (st\<lparr>App_Callback := cb\<rparr>) xs = tp_list st xs" for st by (simp add: tp_list_def)
  then show ?thesis by (simp add: UNET_Set_App_Callback_def core_ok_def stack_ok_def)
qed

end
