(* ===== verification/Core_Owners.thy ===== *)
theory Core_Owners
  imports Core_Invariants
begin

text \<open>
  Who is in charge of the packet buffers.  A buffer that is in use is on its way between two
  tasks, as a token of the semaphore that one posts and the other waits for, or in the hands of a
  task.
\<close>

section \<open>Tokens\<close>

definition pending :: "signal \<Rightarrow> core \<Rightarrow> nat" where
  "pending sig k = count_list (posted (core_net k)) sig - taken k sig"

definition up_owners :: "core \<Rightarrow> nat" where
  "up_owners k = pending Router_Up_Ack_Request k + of_bool (up_ack_at k = Ack_Sending) +
     pending Router_Up_Route_Request k + of_bool (up_at k \<noteq> Up_Request)"

definition down_owners :: "core \<Rightarrow> nat" where
  "down_owners k = pending Router_Down_Ack_Request k + of_bool (down_ack_at k = Ack_Sending) +
     pending Router_Down_Route_Request k + of_bool (down_at k \<noteq> Down_Request)"

definition up_owned :: "core \<Rightarrow> bool" where
  "up_owned k \<longleftrightarrow> up_owners k = of_bool (state (packet_up (core_net k)) \<noteq> PACKET_IDLE)"

definition down_held :: "core \<Rightarrow> bool" where
  "down_held k \<longleftrightarrow> (state (packet_down (core_net k)) \<noteq> PACKET_IDLE \<longrightarrow> 0 < down_owners k)"

lemma available_pending: "available sig k \<longleftrightarrow> 0 < pending sig k"
  by (simp add: available_def pending_def)

lemma pending_cong:
  "count_list (posted (core_net k')) sig = count_list (posted (core_net k)) sig \<Longrightarrow>
     taken k' sig = taken k sig \<Longrightarrow> pending sig k' = pending sig k"
  by (simp add: pending_def)

lemma pending_mono:
  "posts_in S (core_net k) (core_net k') \<Longrightarrow> taken k' sig = taken k sig \<Longrightarrow> pending sig k \<le> pending sig k'"
  using posts_count_le by (simp add: pending_def diff_le_mono)

lemma pending_posted:
  "core_ok xs k \<Longrightarrow> posted (core_net k') = posted (core_net k) @ [sig'] \<Longrightarrow> taken k' sig = taken k sig \<Longrightarrow>
     pending sig k' = pending sig k + of_bool (sig' = sig)"
  using core_okD(8) [of xs k sig] by (auto simp: pending_def Suc_diff_le)

lemma pending_taken:
  "posted (core_net k') = posted (core_net k) \<Longrightarrow> taken k' = taken (take_token sig' k) \<Longrightarrow>
     pending sig k' = pending sig k - of_bool (sig = sig')"
  by (simp add: pending_def take_token_def)

section \<open>Turns that leave a buffer alone\<close>

definition up_alone :: "core \<Rightarrow> core \<Rightarrow> bool" where
  "up_alone k k' \<longleftrightarrow> state (packet_up (core_net k')) = state (packet_up (core_net k)) \<and>
     pending Router_Up_Ack_Request k' = pending Router_Up_Ack_Request k \<and>
     pending Router_Up_Route_Request k' = pending Router_Up_Route_Request k \<and>
     up_ack_at k' = up_ack_at k \<and> up_at k' = up_at k"

definition down_alone :: "core \<Rightarrow> core \<Rightarrow> bool" where
  "down_alone k k' \<longleftrightarrow> state (packet_down (core_net k')) = state (packet_down (core_net k)) \<and>
     pending Router_Down_Ack_Request k \<le> pending Router_Down_Ack_Request k' \<and>
     pending Router_Down_Route_Request k \<le> pending Router_Down_Route_Request k' \<and>
     down_ack_at k' = down_ack_at k \<and> down_at k' = down_at k"

lemma up_alone_owned: "up_alone k k' \<Longrightarrow> up_owned k' = up_owned k"
  by (simp add: up_alone_def up_owned_def up_owners_def)

lemma down_alone_held: "down_alone k k' \<Longrightarrow> down_held k \<Longrightarrow> down_held k'"
  by (auto simp: down_alone_def down_held_def down_owners_def)

lemma up_alone_posts:
  assumes "packet_up (core_net k') = packet_up (core_net k)" and "posts_in S (core_net k) (core_net k')"
    and "Router_Up_Ack_Request \<notin> S" and "Router_Up_Route_Request \<notin> S"
    and "taken k' Router_Up_Ack_Request = taken k Router_Up_Ack_Request"
    and "taken k' Router_Up_Route_Request = taken k Router_Up_Route_Request"
    and "up_ack_at k' = up_ack_at k" and "up_at k' = up_at k"
  shows "up_alone k k'"
  using assms(1,5-) posts_count [OF assms(2,3)] posts_count [OF assms(2,4)] by (simp add: up_alone_def pending_def)

lemma down_alone_posts:
  assumes "packet_down (core_net k') = packet_down (core_net k)" and "posts_in S (core_net k) (core_net k')"
    and "taken k' Router_Down_Ack_Request = taken k Router_Down_Ack_Request"
    and "taken k' Router_Down_Route_Request = taken k Router_Down_Route_Request"
    and "down_ack_at k' = down_ack_at k" and "down_at k' = down_at k"
  shows "down_alone k k'"
  using assms(1,5,6) pending_mono [OF assms(2,3)] pending_mono [OF assms(2,4)] by (simp add: down_alone_def)

lemma packets_like_alone:
  assumes "packets_like S k k'" and "Router_Up_Ack_Request \<notin> S" and "Router_Up_Route_Request \<notin> S"
  shows "up_alone k k'" and "down_alone k k'"
proof -
  note l = assms(1) [unfolded packets_like_def]
  show "up_alone k k'" by (rule up_alone_posts [of k' k S]) (use l assms(2,3) in auto)
  show "down_alone k k'" by (rule down_alone_posts [of k' k S]) (use l in auto)
qed

lemma alone_up:
  assumes "core_ok xs k" and "packet_up (core_net k') = packet_up (core_net k)"
    and "posted (core_net k') = posted (core_net k) \<or>
         (\<exists>sig. posted (core_net k') = posted (core_net k) @ [sig] \<and> sig \<noteq> Router_Up_Ack_Request \<and> sig \<noteq> Router_Up_Route_Request)"
    and "taken k' Router_Up_Ack_Request = taken k Router_Up_Ack_Request"
    and "taken k' Router_Up_Route_Request = taken k Router_Up_Route_Request"
    and "up_ack_at k' = up_ack_at k" and "up_at k' = up_at k"
  shows "up_alone k k'"
proof -
  have "count_list (posted (core_net k')) sig = count_list (posted (core_net k)) sig"
    if "sig = Router_Up_Ack_Request \<or> sig = Router_Up_Route_Request" for sig
    using assms(3) that by auto
  then show ?thesis using assms by (simp add: up_alone_def pending_def)
qed

lemma alone_down:
  assumes "core_ok xs k" and "state (packet_down (core_net k')) = state (packet_down (core_net k))"
    and "posted (core_net k') = posted (core_net k) \<or> (\<exists>sig. posted (core_net k') = posted (core_net k) @ [sig])"
    and "taken k' Router_Down_Ack_Request = taken k Router_Down_Ack_Request"
    and "taken k' Router_Down_Route_Request = taken k Router_Down_Route_Request"
    and "down_ack_at k' = down_ack_at k" and "down_at k' = down_at k"
  shows "down_alone k k'"
proof -
  have "count_list (posted (core_net k)) sig \<le> count_list (posted (core_net k')) sig" for sig
    using assms(3) by auto
  then show ?thesis using assms by (simp add: down_alone_def pending_def diff_le_mono)
qed

section \<open>The other tasks\<close>

lemma isr_like:
  assumes "UNET_radio_isr_handler k = Some k'"
  shows "packets_like {Radio_RX_Event, Radio_TX_Event} k k'"
proof -
  let ?rx = "if radio_state k AND RX_OK = RX_OK then do {
          n \<leftarrow> post Radio_RX_Event (core_net (k\<lparr>radio_state := (radio_state k OR RX_DISABLED) AND NOT RX_OK\<rparr>));
          Some (with_net n (k\<lparr>radio_state := (radio_state k OR RX_DISABLED) AND NOT RX_OK\<rparr>))
        } else Some k"
  let ?tx = "\<lambda>k1. if radio_state k AND TX_OK = TX_OK then do {
          n \<leftarrow> post Radio_TX_Event (core_net (k1\<lparr>radio_state := radio_state k1 AND NOT TX_OK\<rparr>));
          Some (with_net n (k1\<lparr>radio_state := radio_state k1 AND NOT TX_OK\<rparr>))
        } else Some k1"
  obtain k1 where h: "?rx = Some k1" "?tx k1 = Some k'"
    using assms unfolding UNET_radio_isr_handler_def Let_def bind_eq_Some_conv by blast
  have k1: "k1 = k \<or> (\<exists>n. post Radio_RX_Event (core_net k) = Some n \<and>
        k1 = with_net n (k\<lparr>radio_state := (radio_state k OR RX_DISABLED) AND NOT RX_OK\<rparr>))"
    using h(1) by (auto simp: bind_eq_Some_conv split: if_splits)
  have k2: "k' = k1 \<or> (\<exists>n. post Radio_TX_Event (core_net k1) = Some n \<and>
        k' = with_net n (k1\<lparr>radio_state := radio_state k1 AND NOT TX_OK\<rparr>))"
    using h(2) by (auto simp: bind_eq_Some_conv split: if_splits)
  have step: "packets_like {Radio_RX_Event, Radio_TX_Event} j (with_net n (j\<lparr>radio_state := r\<rparr>))"
    if "post sig (core_net j) = Some n" "sig \<in> {Radio_RX_Event, Radio_TX_Event}" for sig j n r
    using posts_post [OF that] post_packets [OF that(1)] by (simp add: packets_like_def)
  have same: "packets_like S j j" for S j by (simp add: packets_like_def)
  have trans: "packets_like S j k2 \<Longrightarrow> packets_like S k2 k3 \<Longrightarrow> packets_like S j k3" for S j k2 k3
    using posts_trans by (auto simp: packets_like_def)
  have "packets_like {Radio_RX_Event, Radio_TX_Event} k k1" "packets_like {Radio_RX_Event, Radio_TX_Event} k1 k'"
    using k1 k2 step same by auto
  then show ?thesis by (rule trans)
qed

lemma input_owned:
  assumes "core_ok xs k" and "input_like PACKET_BUSY (core_net k) (core_net k')"
    and "\<And>sig. sig \<noteq> Radio_RX_Event \<Longrightarrow> taken k' sig = taken k sig"
    and "up_at k' = up_at k" and "down_at k' = down_at k" and "down_ack_at k' = down_ack_at k" and "up_ack_at k' = up_ack_at k"
  shows "up_owned k \<Longrightarrow> up_owned k'" and "down_held k \<Longrightarrow> down_held k'"
    and "state (packet_up (core_net k)) \<noteq> PACKET_IDLE \<Longrightarrow> up_alone k k'"
proof -
  let ?n = "core_net k" and ?n' = "core_net k'"
  note pend = pending_posted [OF assms(1), of k'] and t = assms(3)
  note view = assms(4-7)
  consider (link) "link_like ?n ?n'"
    | (up) "state (packet_up ?n) = PACKET_IDLE" "state (packet_up ?n') = PACKET_BUSY" "packet_down ?n' = packet_down ?n"
        "posted ?n' = posted ?n @ [Router_Up_Ack_Request]"
    | (down) "packet_up ?n' = packet_up ?n" "posted ?n' = posted ?n @ [Router_Down_Ack_Request]"
    | (up_ack) "packet_up ?n' = packet_up ?n" "packet_down ?n' = packet_down ?n"
        "posted ?n' = posted ?n @ [Router_Up_Ack_Received]"
    | (down_ack) "packet_up ?n' = packet_up ?n" "state (packet_down ?n) = PACKET_WAITING_ACK"
        "posted ?n' = posted ?n @ [Router_Down_Ack_Received]"
    using assms(2) unfolding input_like_def by blast
  then have "(up_owned k \<longrightarrow> up_owned k') \<and> (down_held k \<longrightarrow> down_held k') \<and>
    (state (packet_up ?n) \<noteq> PACKET_IDLE \<longrightarrow> up_alone k k')"
  proof cases
    case link
    then have "packets_like {Link_Packet_TX_Event} k k'"
      using t view by (simp add: packets_like_def link_like_def)
    then show ?thesis
      using packets_like_alone [of "{Link_Packet_TX_Event}" k k'] up_alone_owned down_alone_held by auto
  next
    case up
    have "down_alone k k'" by (rule alone_down [OF assms(1)]) (use up t view in auto)
    then show ?thesis
      using down_alone_held up pend [of Router_Up_Ack_Request] t view by (auto simp: up_owned_def up_owners_def)
  next
    case down
    have "up_alone k k'" by (rule alone_up [OF assms(1)]) (use down t view in auto)
    moreover have "0 < down_owners k'"
      using pend [of Router_Down_Ack_Request] down t by (simp add: down_owners_def)
    ultimately show ?thesis using up_alone_owned by (auto simp: down_held_def)
  next
    case up_ack
    have "up_alone k k'" by (rule alone_up [OF assms(1)]) (use up_ack t view in auto)
    moreover have "down_alone k k'" by (rule alone_down [OF assms(1)]) (use up_ack t view in auto)
    ultimately show ?thesis using up_alone_owned down_alone_held by blast
  next
    case down_ack
    have "up_alone k k'" by (rule alone_up [OF assms(1)]) (use down_ack t view in auto)
    moreover have "down_owners k' = down_owners k"
      using pend [of Router_Down_Ack_Received] down_ack t view by (simp add: down_owners_def)
    ultimately show ?thesis using up_alone_owned down_ack(2) by (simp add: down_held_def)
  qed
  then show "up_owned k \<Longrightarrow> up_owned k'" "down_held k \<Longrightarrow> down_held k'"
    "state (packet_up ?n) \<noteq> PACKET_IDLE \<Longrightarrow> up_alone k k'" by blast+
qed

lemma send_owned:
  assumes "core_ok xs k" and "send_like (core_net k) (core_net k')" and "k' = k\<lparr>core_stack := core_stack k'\<rparr>"
  shows "up_owned k \<Longrightarrow> up_owned k'" and "down_held k \<Longrightarrow> down_held k'"
    and "state (packet_up (core_net k)) \<noteq> PACKET_IDLE \<Longrightarrow> up_alone k k'"
proof -
  let ?n = "core_net k" and ?n' = "core_net k'"
  have t: "taken k' = taken k" and view: "up_at k' = up_at k" "down_at k' = down_at k"
    "down_ack_at k' = down_ack_at k" "up_ack_at k' = up_ack_at k"
    by (subst assms(3), simp)+
  have pend: "pending sig k' = pending sig k + of_bool (sig' = sig)" if "posted ?n' = posted ?n @ [sig']" for sig sig'
    by (rule pending_posted [OF assms(1) that]) (simp add: t)
  have same: "pending sig k' = pending sig k" if "posted ?n' = posted ?n" for sig
    by (rule pending_cong) (simp_all add: t that)
  consider (none) "packet_up ?n' = packet_up ?n" "packet_down ?n' = packet_down ?n" "posted ?n' = posted ?n"
    | (up_free) "state (packet_up ?n) = PACKET_IDLE" "packet_down ?n' = packet_down ?n"
        "state (packet_up ?n') = PACKET_IDLE" "posted ?n' = posted ?n"
    | (up_sent) "state (packet_up ?n) = PACKET_IDLE" "packet_down ?n' = packet_down ?n"
        "state (packet_up ?n') \<noteq> PACKET_IDLE" "posted ?n' = posted ?n @ [Router_Up_Route_Request]"
    | (down_free) "packet_up ?n' = packet_up ?n" "state (packet_down ?n') = PACKET_IDLE" "posted ?n' = posted ?n"
    | (down_sent) "packet_up ?n' = packet_up ?n" "posted ?n' = posted ?n @ [Router_Down_Route_Request]"
    using assms(2) unfolding send_like_def by blast
  then have "(up_owned k \<longrightarrow> up_owned k') \<and> (down_held k \<longrightarrow> down_held k') \<and>
    (state (packet_up ?n) \<noteq> PACKET_IDLE \<longrightarrow> up_alone k k')"
    by cases (auto simp: up_owned_def up_owners_def down_held_def down_owners_def up_alone_def pend same view)
  then show "up_owned k \<Longrightarrow> up_owned k'" "down_held k \<Longrightarrow> down_held k'"
    "state (packet_up ?n) \<noteq> PACKET_IDLE \<Longrightarrow> up_alone k k'" by blast+
qed

section \<open>The acknowledgement tasks\<close>

lemma Down_Ack_begin_owned:
  assumes "down_ack_at k = Ack_Idle" and "available Router_Down_Ack_Request k"
  shows "up_alone k (UNET_Router_Down_Ack_begin k)" and "down_held k \<Longrightarrow> down_held (UNET_Router_Down_Ack_begin k)"
proof -
  let ?k = "UNET_Router_Down_Ack_begin k"
  have b: "core_stack ?k = core_stack k" "taken ?k = taken (take_token Router_Down_Ack_Request k)"
    "down_ack_at ?k = Ack_Sending" "up_ack_at ?k = up_ack_at k" "up_at ?k = up_at k"
    by (simp_all add: UNET_Router_Down_Ack_begin_def Let_def)
  show "up_alone k ?k" using b by (simp add: up_alone_def pending_def take_token_def)
  show "down_held ?k" if "down_held k" using b by (simp add: down_held_def down_owners_def)
qed

lemma Up_Ack_begin_owned:
  assumes "up_ack_at k = Ack_Idle" and "available Router_Up_Ack_Request k"
  shows "up_owned (UNET_Router_Up_Ack_begin k) = up_owned k" and "down_held k \<Longrightarrow> down_held (UNET_Router_Up_Ack_begin k)"
proof -
  let ?k = "UNET_Router_Up_Ack_begin k"
  have b: "core_stack ?k = core_stack k" "taken ?k = taken (take_token Router_Up_Ack_Request k)"
    "up_ack_at ?k = Ack_Sending" "up_at ?k = up_at k" "down_at ?k = down_at k" "down_ack_at ?k = down_ack_at k"
    by (simp_all add: UNET_Router_Up_Ack_begin_def Let_def)
  have "pending sig ?k = pending sig k - of_bool (sig = Router_Up_Ack_Request)" for sig
    by (rule pending_taken) (simp_all add: b)
  then show "up_owned ?k = up_owned k"
    using assms b by (simp add: up_owned_def up_owners_def available_pending)
  show "down_held ?k" if "down_held k"
    using that b by (simp add: down_held_def down_owners_def pending_def take_token_def)
qed

lemma Down_Ack_end_owned:
  assumes "core_ok xs k" and "UNET_Router_Down_Ack_end c env k = Some k'"
  shows "up_alone k k'" and "down_held k'"
proof -
  obtain res n where u: "unet_packet_output c env NWK_TX_RETRIES (core_net k) = (res, n)" by fastforce
  note fr = output_frame [OF u]
  let ?m = "set_down_state (down_ack_outcome res) n"
  have k1: "core_ok xs (with_net ?m k)"
    using output_ok(1) [OF assms(1) u] core_ok_net [of xs "with_net n k" ?m "{}"] core_okD(2) [of xs "with_net n k"]
    by (simp add: posts_same with_net_def)
  then have st: "stack_ok xs ((core_stack k)\<lparr>the_net := ?m\<rparr>)" using core_okD(1) by fastforce
  obtain st' where st': "down_ack_dispatch ((core_stack k)\<lparr>the_net := ?m\<rparr>) = Some st'"
    "packet_up (the_net st') = packet_up n"
    "state (packet_down (the_net st')) = PACKET_IDLE \<and> posted (the_net st') = posted n \<or>
     posted (the_net st') = posted n @ [Router_Down_Route_Request]"
    using down_ack_dispatch_ok [OF st] by auto
  have k': "k' = k\<lparr>core_stack := st', ack_down := (ack_down k)\<lparr>state := down_ack_outcome res\<rparr>, down_ack_at := Ack_Idle\<rparr>"
    using assms(2) u st'(1) by (simp add: UNET_Router_Down_Ack_end_def)
  have n: "posted n = posted (core_net k)" "packet_up n = packet_up (core_net k)" using fr by (simp_all add: output_like_def)
  show "up_alone k k'" by (rule alone_up [OF assms(1)]) (use k' st' n in auto)
  show "down_held k'"
    using st'(3) pending_posted [OF assms(1), of k' Router_Down_Route_Request Router_Down_Route_Request] n
    by (auto simp: down_held_def down_owners_def k')
qed

lemma up_owner_unique:
  assumes "up_owned k"
  shows "up_ack_at k = Ack_Sending \<Longrightarrow> pending Router_Up_Ack_Request k = 0 \<and> pending Router_Up_Route_Request k = 0 \<and>
      up_at k = Up_Request \<and> state (packet_up (core_net k)) \<noteq> PACKET_IDLE"
    and "up_at k \<noteq> Up_Request \<Longrightarrow> pending Router_Up_Ack_Request k = 0 \<and> pending Router_Up_Route_Request k = 0 \<and>
      up_ack_at k = Ack_Idle \<and> state (packet_up (core_net k)) \<noteq> PACKET_IDLE"
    and "0 < pending Router_Up_Route_Request k \<Longrightarrow> pending Router_Up_Ack_Request k = 0 \<and>
      pending Router_Up_Route_Request k = 1 \<and> up_ack_at k = Ack_Idle \<and> up_at k = Up_Request \<and>
      state (packet_up (core_net k)) \<noteq> PACKET_IDLE"
    and "0 < pending Router_Up_Ack_Request k \<Longrightarrow> pending Router_Up_Ack_Request k = 1 \<and>
      pending Router_Up_Route_Request k = 0 \<and> up_ack_at k = Ack_Idle \<and> up_at k = Up_Request \<and>
      state (packet_up (core_net k)) \<noteq> PACKET_IDLE"
proof -
  have sum: "pending Router_Up_Ack_Request k + of_bool (up_ack_at k = Ack_Sending) +
      pending Router_Up_Route_Request k + of_bool (up_at k \<noteq> Up_Request) =
      of_bool (state (packet_up (core_net k)) \<noteq> PACKET_IDLE)"
    using assms by (simp only: up_owned_def up_owners_def)
  show "up_ack_at k = Ack_Sending \<Longrightarrow> pending Router_Up_Ack_Request k = 0 \<and> pending Router_Up_Route_Request k = 0 \<and>
      up_at k = Up_Request \<and> state (packet_up (core_net k)) \<noteq> PACKET_IDLE"
    using sum by (cases "state (packet_up (core_net k)) \<noteq> PACKET_IDLE") auto
  show "up_at k \<noteq> Up_Request \<Longrightarrow> pending Router_Up_Ack_Request k = 0 \<and> pending Router_Up_Route_Request k = 0 \<and>
      up_ack_at k = Ack_Idle \<and> state (packet_up (core_net k)) \<noteq> PACKET_IDLE"
    using sum by (cases "state (packet_up (core_net k)) \<noteq> PACKET_IDLE"; cases "up_ack_at k") auto
  show "0 < pending Router_Up_Route_Request k \<Longrightarrow> pending Router_Up_Ack_Request k = 0 \<and>
      pending Router_Up_Route_Request k = 1 \<and> up_ack_at k = Ack_Idle \<and> up_at k = Up_Request \<and>
      state (packet_up (core_net k)) \<noteq> PACKET_IDLE"
    using sum by (cases "state (packet_up (core_net k)) \<noteq> PACKET_IDLE"; cases "up_ack_at k"; cases "up_at k = Up_Request") auto
  show "0 < pending Router_Up_Ack_Request k \<Longrightarrow> pending Router_Up_Ack_Request k = 1 \<and>
      pending Router_Up_Route_Request k = 0 \<and> up_ack_at k = Ack_Idle \<and> up_at k = Up_Request \<and>
      state (packet_up (core_net k)) \<noteq> PACKET_IDLE"
    using sum by (cases "state (packet_up (core_net k)) \<noteq> PACKET_IDLE"; cases "up_ack_at k"; cases "up_at k = Up_Request") auto
qed

lemma Up_Ack_end_owned:
  assumes "core_ok xs k" and "up_ack_at k = Ack_Sending" and "UNET_Router_Up_Ack_end c env k = Some k'"
  shows "up_owned k \<Longrightarrow> up_owned k'" and "down_held k \<Longrightarrow> down_held k'"
    and "pending Router_Up_Ack_Request k' = pending Router_Up_Ack_Request k \<and> up_ack_at k' = Ack_Idle \<and> up_at k' = up_at k"
proof -
  obtain res n where u: "unet_packet_output c env NWK_TX_RETRIES (core_net k) = (res, n)" by fastforce
  note fr = output_frame [OF u] and st = output_ok(2) [OF assms(1) u]
  obtain st' where st': "up_ack_dispatch ((core_stack k)\<lparr>the_net := n\<rparr>) = Some st'"
    "packet_down (the_net st') = packet_down n"
    "state (packet_up (the_net st')) = PACKET_IDLE \<and> posted (the_net st') = posted n \<or>
     (state (packet_up (the_net st')) = state (packet_up n) \<or> state (packet_up (the_net st')) = PACKET_WAITING_TX) \<and>
     posted (the_net st') = posted n @ [Router_Up_Route_Request]"
    using up_ack_dispatch_ok [OF st] by auto
  have k': "k' = k\<lparr>core_stack := st', up_ack_at := Ack_Idle\<rparr>"
    using assms(3) u st'(1) by (simp add: UNET_Router_Up_Ack_end_def)
  have n: "posted n = posted (core_net k)" "packet_up n = packet_up (core_net k)" "packet_down n = packet_down (core_net k)"
    using fr by (simp_all add: output_like_def)
  note pend = pending_posted [OF assms(1), of k' Router_Up_Route_Request]
  have same: "pending sig k' = pending sig k" if "posted (core_net k') = posted (core_net k)" for sig
    by (rule pending_cong) (use that k' in auto)
  have same': "pending Router_Up_Ack_Request k' = pending Router_Up_Ack_Request k"
    if "posted (core_net k') = posted (core_net k) @ [Router_Up_Route_Request]"
    using pending_posted [OF assms(1) that, of Router_Up_Ack_Request] k' by simp
  show "pending Router_Up_Ack_Request k' = pending Router_Up_Ack_Request k \<and> up_ack_at k' = Ack_Idle \<and> up_at k' = up_at k"
    using st'(3) same same' n by (auto simp: k')
  show "up_owned k'" if own: "up_owned k"
    using st'(3)
  proof (elim disjE)
    assume "state (packet_up (the_net st')) = PACKET_IDLE \<and> posted (the_net st') = posted n"
    then show ?thesis
      using up_owner_unique(1) [OF own assms(2)] same n by (simp add: up_owned_def up_owners_def k')
  next
    assume "(state (packet_up (the_net st')) = state (packet_up n) \<or> state (packet_up (the_net st')) = PACKET_WAITING_TX) \<and>
      posted (the_net st') = posted n @ [Router_Up_Route_Request]"
    then show ?thesis
      using up_owner_unique(1) [OF own assms(2)] pend same' n by (auto simp: up_owned_def up_owners_def k')
  qed
  have "down_alone k k'" by (rule alone_down [OF assms(1)]) (use k' st' n in auto)
  then show "down_held k \<Longrightarrow> down_held k'" by (rule down_alone_held)
qed

section \<open>The routing tasks\<close>

lemma down_turn_up:
  assumes "core_ok xs k" and "packet_up (core_net k') = packet_up (core_net k)" and "posted (core_net k') = posted (core_net k)"
    and "taken k' = taken k \<or> taken k' = taken (take_token Router_Down_Route_Request k) \<or>
      taken k' = taken (take_token Router_Down_Ack_Received k)"
    and "up_ack_at k' = up_ack_at k" and "up_at k' = up_at k"
  shows "up_alone k k'"
  by (rule alone_up [OF assms(1)]) (use assms(2-) in \<open>auto simp: take_token_def\<close>)

lemma Up_request_owned:
  assumes "up_at k = Up_Request" and "available Router_Up_Route_Request k"
  shows "up_owned k \<Longrightarrow> up_owned (UNET_Router_Up_request k)" and "down_held (UNET_Router_Up_request k) = down_held k"
proof -
  let ?k = "UNET_Router_Up_request k"
  have b: "core_stack ?k = core_stack k" "taken ?k = taken (take_token Router_Up_Route_Request k)"
    "up_ack_at ?k = up_ack_at k" "up_at ?k = Up_Sending 2" "down_at ?k = down_at k" "down_ack_at ?k = down_ack_at k"
    by (simp_all add: UNET_Router_Up_request_def up_loop_test_def Let_def)
  have "pending sig ?k = pending sig k - of_bool (sig = Router_Up_Route_Request)" for sig
    by (rule pending_taken) (simp_all add: b)
  then show "up_owned ?k" if "up_owned k"
    using up_owner_unique(3) [OF that] assms b by (simp add: up_owned_def up_owners_def available_pending)
  show "down_held ?k = down_held k"
    using b by (simp add: down_held_def down_owners_def pending_def take_token_def)
qed

lemma Up_acked_owned:
  assumes "up_at k \<noteq> Up_Request"
  shows "up_owned k \<Longrightarrow> up_owned (UNET_Router_Up_acked k)" and "down_held (UNET_Router_Up_acked k) = down_held k"
proof -
  let ?k = "UNET_Router_Up_acked k"
  have b: "posted (core_net ?k) = posted (core_net k)" "packet_down (core_net ?k) = packet_down (core_net k)"
    "state (packet_up (core_net ?k)) = PACKET_IDLE" "taken ?k = taken (take_token Router_Up_Ack_Received k)"
    "up_ack_at ?k = up_ack_at k" "up_at ?k = Up_Request" "down_at ?k = down_at k" "down_ack_at ?k = down_ack_at k"
    by (simp_all add: UNET_Router_Up_acked_def Let_def packet_release_up_def)
  then show "up_owned ?k" if "up_owned k"
    using up_owner_unique(2) [OF that assms] by (simp add: up_owned_def up_owners_def pending_def take_token_def)
  show "down_held ?k = down_held k"
    using b by (simp add: down_held_def down_owners_def pending_def take_token_def)
qed

lemma Up_timeout_owned:
  assumes "up_at k \<noteq> Up_Request"
  shows "up_owned k \<Longrightarrow> up_owned (UNET_Router_Up_timeout r k)" and "down_held (UNET_Router_Up_timeout r k) = down_held k"
proof -
  let ?k = "UNET_Router_Up_timeout r k"
  have b: "posted (core_net ?k) = posted (core_net k)" "packet_down (core_net ?k) = packet_down (core_net k)"
    "state (packet_up (core_net ?k)) = (if r = 0 then PACKET_IDLE else state (packet_up (core_net k)))"
    "taken ?k = taken k" "up_ack_at ?k = up_ack_at k" "down_at ?k = down_at k" "down_ack_at ?k = down_ack_at k"
    "up_at ?k = (if r > 0 then Up_Sending (r - 1) else Up_Request)"
    by (simp_all add: UNET_Router_Up_timeout_def up_loop_test_def up_lost_def Let_def packet_release_up_def)
  then show "up_owned ?k" if "up_owned k"
    using up_owner_unique(2) [OF that assms]
    by (cases "r = 0") (simp_all add: up_owned_def up_owners_def pending_def word_neq_0_conv)
  show "down_held ?k = down_held k"
    using b by (simp add: down_held_def down_owners_def pending_def)
qed

lemma down_turn_owned:
  assumes "core_ok xs k" and "enabled ev k" and "core_turn dev c ev k = Some k'"
    and "ev = Down_Go woken \<or> ev = Down_Send env \<or> ev = Down_Acked \<or> ev = Down_Timeout"
  shows "up_alone k k'" and "down_held k \<Longrightarrow> down_held k'"
proof -
  have "up_alone k k' \<and> (down_held k \<longrightarrow> down_held k')"
    using assms(4)
  proof (elim disjE)
    assume ev: "ev = Down_Go woken"
    then have av: "woken \<longrightarrow> available Router_Down_Route_Request k" using assms(2) by simp
    obtain j n where t: "UNET_Router_Down_request dev woken k = Some j"
      "taken j = taken (if woken then take_token Router_Down_Route_Request k else k)" "core_net j = n"
      "packet_up n = packet_up (core_net k)" "posted n = posted (core_net k)"
      "n = core_net k \<and> (woken \<longrightarrow> state (packet_down n) = PACKET_IDLE) \<and> down_at j = Down_Request \<or>
       state (packet_down n) = PACKET_WAITING_TX \<and> down_at j = Down_Sending 29"
      "up_at j = up_at k" "down_ack_at j = down_ack_at k" "up_ack_at j = up_ack_at k"
      by (rule Down_request_ok [OF assms(1) av, of dev]) (rule that)
    have j: "j = k'" using t(1) assms(3) ev by simp
    have up: "up_alone k k'"
      by (rule down_turn_up [OF assms(1)]) (use t in \<open>auto simp: j split: if_splits\<close>)
    have "down_owners k' = down_owners k" if "\<not> woken" "n = core_net k" "down_at k' = Down_Request"
      using that t assms(2) ev by (simp add: j down_owners_def pending_def)
    moreover have "0 < down_owners k'" if "down_at k' = Down_Sending 29"
      using that by (simp add: down_owners_def)
    ultimately show ?thesis
      using up t(3,6) by (auto simp: j down_held_def)
  next
    assume ev: "ev = Down_Send env"
    obtain r where r: "down_at k = Down_Sending r" using assms(2) ev by (auto split: down_phase.splits)
    obtain res n1 where u: "unet_packet_output c env NWK_TX_RETRIES (core_net k) = (res, n1)" by fastforce
    have "down_at k' \<noteq> Down_Request \<and> taken k' = taken k \<and> up_at k' = up_at k \<and> up_ack_at k' = up_ack_at k \<and>
        packet_up (core_net k') = packet_up (core_net k) \<and> posted (core_net k') = posted (core_net k)"
      using Down_send_ok [OF assms(1) u, of r] assms(3) ev r by (auto split: if_splits)
    then show ?thesis
      using down_turn_up [OF assms(1), of k'] by (simp add: down_held_def down_owners_def)
  next
    assume ev: "ev = Down_Acked"
    then have "available Router_Down_Ack_Received k" using assms(2) by simp
    from Down_acked_ok [OF assms(1) this] obtain j where "UNET_Router_Down_acked k = Some j"
      "taken j = taken (take_token Router_Down_Ack_Received k)" "up_at j = up_at k" "up_ack_at j = up_ack_at k"
      "packet_up (core_net j) = packet_up (core_net k)" "posted (core_net j) = posted (core_net k)"
      "state (packet_down (core_net j)) = PACKET_IDLE" by metis
    then show ?thesis
      using down_turn_up [OF assms(1), of k'] assms(3) ev by (simp add: down_held_def)
  next
    assume ev: "ev = Down_Timeout"
    obtain r where r: "down_at k = Down_Ack r" using assms(2) ev by (auto split: down_phase.splits)
    obtain j where j: "UNET_Router_Down_timeout r k = Some j" "down_at j = (if r > 0 then Down_Sending (r - 1) else Down_Request)"
      "taken j = taken k" "up_at j = up_at k" "down_ack_at j = down_ack_at k" "up_ack_at j = up_ack_at k"
      "packet_up (core_net j) = packet_up (core_net k)" "posted (core_net j) = posted (core_net k)"
      "state (packet_down (core_net j)) = (if r = 0 then PACKET_IDLE else state (packet_down (core_net k)))"
      by (rule Down_timeout_ok [OF assms(1)]) (rule that)
    have k': "j = k'" using j(1) assms(3) ev r by simp
    have "up_alone k k'" by (rule down_turn_up [OF assms(1)]) (use j k' in auto)
    then show ?thesis
      using j k' by (cases "r = 0") (auto simp: down_held_def down_owners_def word_neq_0_conv)
  qed
  then show "up_alone k k'" "down_held k \<Longrightarrow> down_held k'" by blast+
qed

lemma turn_owned:
  assumes "core_ok xs k" and "enabled ev k" and "core_turn dev c ev k = Some k'" and "up_owned k" and "down_held k"
  shows "up_owned k' \<and> down_held k'"
proof (cases ev)
  case (Radio_Interrupt st)
  have "packets_like {Radio_RX_Event, Radio_TX_Event} (k\<lparr>radio_state := st\<rparr>) k'"
    by (rule isr_like) (use assms(3) Radio_Interrupt in simp)
  then have l: "packets_like {Radio_RX_Event, Radio_TX_Event} k k'" by (simp add: packets_like_def)
  show ?thesis
    using packets_like_alone [OF l] up_alone_owned down_alone_held assms(4,5) by simp
next
  case (Radio_Frame f memory)
  have en: "enabled (Radio_Frame f memory) k" using assms(2) Radio_Frame by simp
  obtain j n where j: "UNET_Radio_turn dev f memory k = Some j" "core_net j = n"
    "taken j = taken (take_token Radio_RX_Event k)" "up_at j = up_at k" "down_at j = down_at k"
    "down_ack_at j = down_ack_at k" "up_ack_at j = up_ack_at k" "input_like PACKET_BUSY (core_net k) n"
    by (rule Radio_turn_ok [OF assms(1) en, of dev]) (rule that)
  have k': "j = k'" using j(1) assms(3) Radio_Frame by simp
  have i: "input_like PACKET_BUSY (core_net k) (core_net k')" using j(2,8) k' by simp
  have t: "\<And>sig. sig \<noteq> Radio_RX_Event \<Longrightarrow> taken k' sig = taken k sig" using j(3) k' by (simp add: take_token_def)
  show ?thesis
    using input_owned [OF assms(1) i t] j k' assms(4,5) by blast
next
  case Down_Ack_Begin
  then show ?thesis using Down_Ack_begin_owned [of k] up_alone_owned assms by auto
next
  case (Down_Ack_End env)
  then show ?thesis using Down_Ack_end_owned [OF assms(1), of c env k'] up_alone_owned assms by simp
next
  case Up_Ack_Begin
  then show ?thesis using Up_Ack_begin_owned assms by auto
next
  case (Up_Ack_End env)
  then show ?thesis using Up_Ack_end_owned [OF assms(1), of c env k'] assms by simp
next
  case (Down_Go woken)
  then show ?thesis using down_turn_owned [OF assms(1-3), of woken] up_alone_owned assms(4,5) by blast
next
  case (Down_Send env)
  then show ?thesis using down_turn_owned [OF assms(1-3), of _ env] up_alone_owned assms(4,5) by blast
next
  case Down_Acked
  then show ?thesis using down_turn_owned [OF assms(1-3)] up_alone_owned assms(4,5) by blast
next
  case Down_Timeout
  then show ?thesis using down_turn_owned [OF assms(1-3)] up_alone_owned assms(4,5) by blast
next
  case Up_Go
  then show ?thesis using Up_request_owned [of k] assms by auto
next
  case (Up_Send env)
  obtain r where r: "up_at k = Up_Sending r" using assms(2) Up_Send by (auto split: up_phase.splits)
  obtain j where j: "UNET_Router_Up_send c env r k = Some j" "up_at j = Up_Ack r" "taken j = taken k"
    "down_at j = down_at k" "down_ack_at j = down_ack_at k" "up_ack_at j = up_ack_at k"
    "packet_down (core_net j) = packet_down (core_net k)" "posted (core_net j) = posted (core_net k)"
    "state (packet_up (core_net j)) = PACKET_WAITING_ACK"
    by (rule Up_send_ok [OF assms(1), of c env r]) (rule that)
  have k': "j = k'" using j(1) assms(3) Up_Send r by simp
  have "up_owned k'"
    using up_owner_unique(2) [OF assms(4)] r j k' by (simp add: up_owned_def up_owners_def pending_def)
  moreover have "down_held k'"
    using assms(5) j k' by (simp add: down_held_def down_owners_def pending_def)
  ultimately show ?thesis ..
next
  case Up_Acked
  then have "up_at k \<noteq> Up_Request" using assms(2) by auto
  then show ?thesis using Up_acked_owned [of k] assms Up_Acked by simp
next
  case Up_Timeout
  then obtain r where r: "up_at k = Up_Ack r" using assms(2) by (auto split: up_phase.splits)
  then have "up_at k \<noteq> Up_Request" by simp
  from Up_timeout_owned [OF this, of r] show ?thesis using assms Up_Timeout r by simp
next
  case (Link_Wake woken)
  have av: "woken \<longrightarrow> available Link_Packet_TX_Event k" using assms(2) Link_Wake by simp
  obtain j where "UNET_Link_wake dev woken k = Some j" "packets_like {Link_Packet_TX_Event, Router_Down_Route_Request} k j"
    by (rule Link_wake_ok [OF assms(1) av, of dev]) (rule that)
  then have l: "packets_like {Link_Packet_TX_Event, Router_Down_Route_Request} k k'" using assms(3) Link_Wake by simp
  show ?thesis using packets_like_alone [OF l] up_alone_owned down_alone_held assms(4,5) by simp
next
  case (Link_Send env)
  obtain j where "UNET_Link_send c env k = Some j" "packets_like {} k j"
    by (rule Link_send_ok [OF assms(1), of c env]) (rule that)
  then have l: "packets_like {} k k'" using assms(3) Link_Send by simp
  show ?thesis using packets_like_alone [OF l] up_alone_owned down_alone_held assms(4,5) by simp
next
  case Neighbourhood_Check
  obtain t j where "neighbourhood_callback dev k = Some (t, j)" "packets_like {Link_Packet_TX_Event} k j"
    by (rule callback_ok [OF assms(1), of dev]) (rule that)
  then have l: "packets_like {Link_Packet_TX_Event} k k'" using assms(3) Neighbourhood_Check by simp
  show ?thesis using packets_like_alone [OF l] up_alone_owned down_alone_held assms(4,5) by simp
next
  case (App_Send p buffer len)
  have en: "enabled (App_Send p buffer len) k" using assms(2) App_Send by simp
  obtain j where "app_send p buffer len k = Some j" "send_like (core_net k) (core_net j)" "j = k\<lparr>core_stack := core_stack j\<rparr>"
    by (rule app_send_ok [OF assms(1) en]) (rule that)
  then have "send_like (core_net k) (core_net k')" "k' = k\<lparr>core_stack := core_stack k'\<rparr>" using assms(3) App_Send by simp_all
  from send_owned [OF assms(1) this] show ?thesis using assms(4,5) by blast
qed

lemma reach_owned: "core_reach ROUTER c xs k \<Longrightarrow> up_owned k \<and> down_held k"
proof (induction rule: core_reach.induct)
  case (core_started k0 k)
  obtain j where j: "UNET_start ROUTER c k0 = Some j" "posted (core_net j) = []" "taken j = (\<lambda>_. 0)"
    "state (packet_up (core_net j)) = PACKET_IDLE" "state (packet_down (core_net j)) = PACKET_IDLE"
    "down_ack_at j = Ack_Idle" "up_ack_at j = Ack_Idle" "down_at j = Down_Request" "up_at j = Up_Request"
    by (rule UNET_start_ok [OF core_started(1), of c]) (rule that)
  then have "j = k" using core_started(2) by simp
  then show ?case
    using j by (simp add: up_owned_def up_owners_def down_held_def down_owners_def pending_def)
next
  case (core_stepped k ev k')
  then show ?case using turn_owned [OF reach_ok] by blast
qed



end
