(* ===== verification/Core_Progress.thy ===== *)
theory Core_Progress
  imports Core_Owners
begin

text \<open>
  What the tasks get done: a packet buffer that is in use becomes free again.  The scheduler of the
  kernel appears as a fairness condition on infinite runs; a rank that every turn of the two tasks
  lowers bounds their work by ten turns for a packet.
\<close>

section \<open>The turns of the tasks for packets up\<close>

fun up_event :: "core_event \<Rightarrow> bool" where
  "up_event Up_Ack_Begin = True"
| "up_event (Up_Ack_End env) = True"
| "up_event Up_Go = True"
| "up_event (Up_Send env) = True"
| "up_event Up_Acked = True"
| "up_event Up_Timeout = True"
| "up_event _ = False"

fun up_phase_rank :: "up_phase \<Rightarrow> nat" where
  "up_phase_rank Up_Request = 0"
| "up_phase_rank (Up_Sending r) = 2 * unat r + 2"
| "up_phase_rank (Up_Ack r) = 2 * unat r + 1"

definition up_rank :: "core \<Rightarrow> nat" where
  "up_rank k = (if state (packet_up (core_net k)) = PACKET_IDLE then 0
     else 9 * pending Router_Up_Ack_Request k + 8 * of_bool (up_ack_at k = Ack_Sending) +
       7 * pending Router_Up_Route_Request k + up_phase_rank (up_at k))"

fun up_tries_ok :: "up_phase \<Rightarrow> bool" where
  "up_tries_ok Up_Request = True"
| "up_tries_ok (Up_Sending r) = (r \<le> 2)"
| "up_tries_ok (Up_Ack r) = (r \<le> 2)"

lemma up_phase_rank_le: "up_tries_ok ph \<Longrightarrow> up_phase_rank ph \<le> 6"
  by (cases ph) (simp_all add: word_le_nat_alt)

section \<open>Turns of the others\<close>

fun background :: "core_event \<Rightarrow> bool" where
  "background (Radio_Interrupt x) = True"
| "background (Radio_Frame f memory) = True"
| "background (Link_Wake woken) = True"
| "background (Link_Send env) = True"
| "background Neighbourhood_Check = True"
| "background (App_Send p buffer len) = True"
| "background _ = False"

lemma background_turn:
  assumes "core_ok xs k" and "enabled ev k" and "core_turn dev c ev k = Some k'" and "background ev"
  shows "up_at k' = up_at k \<and> down_at k' = down_at k \<and> (state (packet_up (core_net k)) \<noteq> PACKET_IDLE \<longrightarrow> up_alone k k')"
proof -
  have like: ?thesis if "packets_like S k k'" "Router_Up_Ack_Request \<notin> S" "Router_Up_Route_Request \<notin> S" for S
    using packets_like_alone(1) [OF that] that(1) by (simp add: packets_like_def)
  show ?thesis
  proof (cases ev)
    case (Radio_Interrupt st)
    have "packets_like {Radio_RX_Event, Radio_TX_Event} (k\<lparr>radio_state := st\<rparr>) k'"
      by (rule isr_like) (use assms(3) Radio_Interrupt in simp)
    then have "packets_like {Radio_RX_Event, Radio_TX_Event} k k'" by (simp add: packets_like_def)
    then show ?thesis by (rule like) simp_all
  next
    case (Radio_Frame f memory)
    have en: "enabled (Radio_Frame f memory) k" using assms(2) Radio_Frame by simp
    obtain j n where j: "UNET_Radio_turn dev f memory k = Some j" "core_net j = n"
      "taken j = taken (take_token Radio_RX_Event k)" "up_at j = up_at k" "down_at j = down_at k"
      "down_ack_at j = down_ack_at k" "up_ack_at j = up_ack_at k" "input_like PACKET_BUSY (core_net k) n"
      by (rule Radio_turn_ok [OF assms(1) en, of dev]) (rule that)
    have "j = k'" using j(1) assms(3) Radio_Frame by simp
    then have i: "input_like PACKET_BUSY (core_net k) (core_net k')" "\<And>sig. sig \<noteq> Radio_RX_Event \<Longrightarrow> taken k' sig = taken k sig"
      "up_at k' = up_at k" "down_at k' = down_at k" "down_ack_at k' = down_ack_at k" "up_ack_at k' = up_ack_at k"
      using j by (simp_all add: take_token_def)
    from input_owned(3) [OF assms(1) this] i(3,4) show ?thesis by blast
  next
    case (Link_Wake woken)
    have av: "woken \<longrightarrow> available Link_Packet_TX_Event k" using assms(2) Link_Wake by simp
    obtain j where "UNET_Link_wake dev woken k = Some j" "packets_like {Link_Packet_TX_Event, Router_Down_Route_Request} k j"
      by (rule Link_wake_ok [OF assms(1) av, of dev]) (rule that)
    then have "packets_like {Link_Packet_TX_Event, Router_Down_Route_Request} k k'" using assms(3) Link_Wake by simp
    then show ?thesis by (rule like) simp_all
  next
    case (Link_Send env)
    obtain j where "UNET_Link_send c env k = Some j" "packets_like {} k j"
      by (rule Link_send_ok [OF assms(1), of c env]) (rule that)
    then have "packets_like {} k k'" using assms(3) Link_Send by simp
    then show ?thesis by (rule like) simp_all
  next
    case Neighbourhood_Check
    obtain t j where "neighbourhood_callback dev k = Some (t, j)" "packets_like {Link_Packet_TX_Event} k j"
      by (rule callback_ok [OF assms(1), of dev]) (rule that)
    then have "packets_like {Link_Packet_TX_Event} k k'" using assms(3) Neighbourhood_Check by simp
    then show ?thesis by (rule like) simp_all
  next
    case (App_Send p buffer len)
    have en: "enabled (App_Send p buffer len) k" using assms(2) App_Send by simp
    obtain j where "app_send p buffer len k = Some j" "send_like (core_net k) (core_net j)" "j = k\<lparr>core_stack := core_stack j\<rparr>"
      by (rule app_send_ok [OF assms(1) en]) (rule that)
    then have "send_like (core_net k) (core_net k')" "k' = k\<lparr>core_stack := core_stack k'\<rparr>" using assms(3) App_Send by simp_all
    moreover have "up_at k' = up_at k \<and> down_at k' = down_at k" by (subst (1 2) calculation(2)) simp
    ultimately show ?thesis using send_owned(3) [OF assms(1)] by blast
  qed (use assms(4) in simp_all)
qed

lemma other_turn_up:
  assumes "core_ok xs k" and "enabled ev k" and "core_turn dev c ev k = Some k'" and "\<not> up_event ev"
  shows "up_at k' = up_at k \<and> (state (packet_up (core_net k)) \<noteq> PACKET_IDLE \<longrightarrow> up_alone k k')"
proof -
  have alone: ?thesis if "up_alone k k'" using that by (simp add: up_alone_def)
  have bg: ?thesis if "background ev" using background_turn [OF assms(1-3) that] by blast
  show ?thesis
  proof (cases ev)
    case Down_Ack_Begin
    then show ?thesis using Down_Ack_begin_owned [of k] assms by (intro alone) auto
  next
    case (Down_Ack_End env)
    then show ?thesis using Down_Ack_end_owned [OF assms(1), of c env k'] assms by (intro alone) simp
  next
    case (Down_Go woken)
    then show ?thesis by (intro alone down_turn_owned(1) [OF assms(1-3)]) simp
  next
    case (Down_Send env)
    then show ?thesis by (intro alone down_turn_owned(1) [OF assms(1-3)]) simp
  next
    case Down_Acked
    then show ?thesis by (intro alone down_turn_owned(1) [OF assms(1-3)]) simp
  next
    case Down_Timeout
    then show ?thesis by (intro alone down_turn_owned(1) [OF assms(1-3)]) simp
  qed (use assms(4) bg in simp_all)
qed

section \<open>The rank\<close>

lemma up_tries_step:
  assumes "core_ok xs k" and "enabled ev k" and "core_turn dev c ev k = Some k'" and "up_tries_ok (up_at k)"
    and "up_event ev \<or> up_at k' = up_at k"
  shows "up_tries_ok (up_at k')"
  using assms(5)
proof
  assume "up_event ev"
  then show ?thesis
  proof (cases ev)
    case (Up_Ack_End env)
    then show ?thesis using assms(3,4) by (auto simp: UNET_Router_Up_Ack_end_def bind_eq_Some_conv split: prod.splits)
  next
    case (Up_Send env)
    then obtain r where r: "up_at k = Up_Sending r" using assms(2) by (auto split: up_phase.splits)
    from Up_send_ok [OF assms(1), of c env r] obtain j where "UNET_Router_Up_send c env r k = Some j" "up_at j = Up_Ack r"
      by metis
    then show ?thesis using assms(3,4) Up_Send r by simp
  next
    case Up_Timeout
    then obtain r where r: "up_at k = Up_Ack r" using assms(2) by (auto split: up_phase.splits)
    then have "r \<le> 2" using assms(4) by simp
    moreover have "0 < r \<Longrightarrow> unat (r - 1) = unat r - 1" by (simp add: unat_minus_one word_neq_0_conv)
    ultimately show ?thesis
      using assms(3) Up_Timeout r by (auto simp: UNET_Router_Up_timeout_def up_loop_test_def Let_def word_le_nat_alt)
  qed (use assms(3,4) in \<open>auto simp: UNET_Router_Up_Ack_begin_def UNET_Router_Up_request_def up_loop_test_def
      UNET_Router_Up_acked_def Let_def\<close>)
qed (use assms(4) in simp)

lemma up_event_rank:
  assumes "core_ok xs k" and "enabled ev k" and "core_turn dev c ev k = Some k'" and "up_owned k" and "up_event ev"
  shows "up_rank k' < up_rank k"
proof -
  have fields: "pending sig (UNET_Router_Up_Ack_begin k) = pending sig k - of_bool (sig = Router_Up_Ack_Request)"
    "pending sig (UNET_Router_Up_request k) = pending sig k - of_bool (sig = Router_Up_Route_Request)" for sig
    by (rule pending_taken; simp add: UNET_Router_Up_Ack_begin_def UNET_Router_Up_request_def up_loop_test_def Let_def)+
  show ?thesis
  proof (cases ev)
    case Up_Ack_Begin
    then have "0 < pending Router_Up_Ack_Request k" using assms(2) by (simp add: available_pending)
    note up_owner_unique(4) [OF assms(4) this]
    moreover have "core_stack k' = core_stack k" "up_ack_at k' = Ack_Sending" "up_at k' = up_at k"
      using assms(3) Up_Ack_Begin by (auto simp: UNET_Router_Up_Ack_begin_def Let_def)
    ultimately show ?thesis using assms(3) Up_Ack_Begin by (auto simp: up_rank_def fields)
  next
    case (Up_Ack_End env)
    then have e: "up_ack_at k = Ack_Sending" "UNET_Router_Up_Ack_end c env k = Some k'" using assms(2,3) by simp_all
    note u = up_owner_unique(1) [OF assms(4) e(1)] and f = Up_Ack_end_owned(3) [OF assms(1) e]
    have "up_owned k'" by (rule Up_Ack_end_owned(1) [OF assms(1) e assms(4)])
    then have "pending Router_Up_Route_Request k' \<le> 1" using u f by (simp add: up_owned_def up_owners_def)
    then show ?thesis using u f e by (simp add: up_rank_def)
  next
    case Up_Go
    then have "0 < pending Router_Up_Route_Request k" using assms(2) by (simp add: available_pending)
    from up_owner_unique(3) [OF assms(4) this]
    have u: "pending Router_Up_Ack_Request k = 0" "pending Router_Up_Route_Request k = 1" "up_ack_at k = Ack_Idle"
      "up_at k = Up_Request" "state (packet_up (core_net k)) \<noteq> PACKET_IDLE" by blast+
    have "core_stack k' = core_stack k" "up_ack_at k' = up_ack_at k" "up_at k' = Up_Sending 2"
      using assms(3) Up_Go by (auto simp: UNET_Router_Up_request_def up_loop_test_def Let_def)
    then show ?thesis using u assms(3) Up_Go by (auto simp: up_rank_def fields)
  next
    case (Up_Send env)
    then obtain r where r: "up_at k = Up_Sending r" using assms(2) by (auto split: up_phase.splits)
    obtain j where j: "UNET_Router_Up_send c env r k = Some j" "up_at j = Up_Ack r" "taken j = taken k"
      "up_ack_at j = up_ack_at k" "posted (core_net j) = posted (core_net k)"
      "state (packet_up (core_net j)) = PACKET_WAITING_ACK"
      by (rule Up_send_ok [OF assms(1), of c env r]) (rule that)
    have "j = k'" using j(1) assms(3) Up_Send r by simp
    then show ?thesis using j r up_owner_unique(2) [OF assms(4)] by (simp add: up_rank_def pending_def)
  next
    case Up_Acked
    then have "up_at k \<noteq> Up_Request" using assms(2) by auto
    from up_owner_unique(2) [OF assms(4) this] have "0 < up_rank k"
      using \<open>up_at k \<noteq> Up_Request\<close> by (cases "up_at k") (simp_all add: up_rank_def)
    moreover have "state (packet_up (core_net k')) = PACKET_IDLE"
      using assms(3) Up_Acked by (auto simp: UNET_Router_Up_acked_def Let_def packet_release_up_def)
    ultimately show ?thesis by (simp add: up_rank_def)
  next
    case Up_Timeout
    then obtain r where r: "up_at k = Up_Ack r" using assms(2) by (auto split: up_phase.splits)
    let ?k = "UNET_Router_Up_timeout r k"
    have b: "posted (core_net ?k) = posted (core_net k)" "taken ?k = taken k" "up_ack_at ?k = up_ack_at k"
      "state (packet_up (core_net ?k)) = (if r = 0 then PACKET_IDLE else state (packet_up (core_net k)))"
      "up_at ?k = (if r > 0 then Up_Sending (r - 1) else Up_Request)"
      by (simp_all add: UNET_Router_Up_timeout_def up_loop_test_def up_lost_def Let_def packet_release_up_def)
    have "k' = ?k" using assms(3) Up_Timeout r by simp
    moreover have "unat (r - 1) = unat r - 1" "0 < unat r" if "r \<noteq> 0"
      using that by (simp_all add: unat_minus_one unat_gt_0)
    ultimately show ?thesis
      using b r up_owner_unique(2) [OF assms(4)]
      by (cases "r = 0") (simp_all add: up_rank_def pending_def word_neq_0_conv)
  qed (use assms(5) in simp_all)
qed

lemma up_alone_rank: "up_alone k k' \<Longrightarrow> up_rank k' = up_rank k"
  by (simp add: up_alone_def up_rank_def)

lemma up_rank_le:
  assumes "up_owned k" and "up_tries_ok (up_at k)"
  shows "up_rank k \<le> 9"
proof -
  note u = up_owner_unique [OF assms(1)] and r = up_phase_rank_le [OF assms(2)]
  consider "0 < pending Router_Up_Ack_Request k" | "up_ack_at k = Ack_Sending" | "0 < pending Router_Up_Route_Request k"
    | "pending Router_Up_Ack_Request k = 0" "up_ack_at k \<noteq> Ack_Sending" "pending Router_Up_Route_Request k = 0"
    by blast
  then show ?thesis
  proof cases
    case 1
    then show ?thesis using u(4) by (simp add: up_rank_def)
  next
    case 2
    then show ?thesis using u(1) by (simp add: up_rank_def)
  next
    case 3
    then show ?thesis using u(3) by (simp add: up_rank_def)
  next
    case 4
    then show ?thesis using r by (simp add: up_rank_def)
  qed
qed

text \<open>While the buffer is in use one of the two tasks can run.\<close>

lemma up_progress:
  assumes "up_owned k" and "state (packet_up (core_net k)) \<noteq> PACKET_IDLE"
  obtains ev where "up_event ev" and "enabled ev k"
proof -
  have "0 < up_owners k" using assms by (simp add: up_owned_def)
  then consider (request) "0 < pending Router_Up_Ack_Request k" | (sending) "up_ack_at k = Ack_Sending"
    | (route) "0 < pending Router_Up_Route_Request k" | (task) "up_at k \<noteq> Up_Request"
    by (auto simp: up_owners_def of_bool_def split: if_splits)
  then show thesis
  proof cases
    case request
    then show thesis
      using up_owner_unique(4) [OF assms(1) request] by (intro that [of Up_Ack_Begin]) (simp_all add: available_pending)
  next
    case sending
    then show thesis by (intro that [of "Up_Ack_End undefined"]) simp_all
  next
    case route
    then show thesis
      using up_owner_unique(3) [OF assms(1) route] by (intro that [of Up_Go]) (simp_all add: available_pending)
  next
    case task
    then show thesis
    proof (cases "up_at k")
      case (Up_Sending r)
      then show thesis by (intro that [of "Up_Send undefined"]) simp_all
    next
      case (Up_Ack r)
      then show thesis
        using that [of Up_Acked] that [of Up_Timeout] by (cases "available Router_Up_Ack_Received k") simp_all
    qed simp
  qed
qed

lemma up_turn_rank:
  assumes "core_reach ROUTER c xs k" and "enabled ev k" and "core_turn ROUTER c ev k = Some k'"
    and "state (packet_up (core_net k)) \<noteq> PACKET_IDLE"
  shows "up_rank k' + of_bool (up_event ev) \<le> up_rank k"
proof (cases "up_event ev")
  case True
  then show ?thesis using up_event_rank [OF reach_ok [OF assms(1)] assms(2,3)] reach_owned [OF assms(1)] by simp
next
  case False
  then have "up_alone k k'" using other_turn_up [OF reach_ok [OF assms(1)] assms(2,3)] assms(4) by blast
  from up_alone_rank [OF this] False show ?thesis by simp
qed

lemma reach_tries: "core_reach ROUTER c xs k \<Longrightarrow> up_tries_ok (up_at k)"
proof (induction rule: core_reach.induct)
  case (core_started k0 k)
  obtain j where "UNET_start ROUTER c k0 = Some j" "up_at j = Up_Request"
    by (rule UNET_start_ok [OF core_started(1), of c]) (rule that)
  then show ?case using core_started(2) by simp
next
  case (core_stepped k ev k')
  then show ?case
    using up_tries_step [OF reach_ok [OF core_stepped(1)] core_stepped(2,3)]
      other_turn_up [OF reach_ok [OF core_stepped(1)] core_stepped(2,3)] by blast
qed

section \<open>Infinite runs\<close>

text \<open>
  A run from the start of a router, given by its states and events.  It is fair to some tasks when
  these are not put off for ever although one of them can run.
\<close>

definition core_path :: "config \<Rightarrow> nat list \<Rightarrow> (nat \<Rightarrow> core) \<Rightarrow> (nat \<Rightarrow> core_event) \<Rightarrow> bool" where
  "core_path c xs st ev \<longleftrightarrow> core_reach ROUTER c xs (st 0) \<and>
     (\<forall>i. enabled (ev i) (st i) \<and> core_turn ROUTER c (ev i) (st i) = Some (st (Suc i)))"

definition fair_to :: "(core_event \<Rightarrow> bool) \<Rightarrow> (nat \<Rightarrow> core) \<Rightarrow> (nat \<Rightarrow> core_event) \<Rightarrow> bool" where
  "fair_to turn st ev \<longleftrightarrow> (\<forall>i. (\<forall>j\<ge>i. \<exists>e. turn e \<and> enabled e (st j)) \<longrightarrow> (\<exists>j\<ge>i. turn (ev j)))"

lemma path_reach: "core_path c xs st ev \<Longrightarrow> core_reach ROUTER c xs (st i)"
  by (induction i) (auto simp: core_path_def intro: core_stepped)

text \<open>
  The contract of a task that finishes its work: while it is \<open>busy\<close> one of its turns can run, each
  of them lowers the rank and no other turn raises it, as long as the events are \<open>good\<close>.
\<close>

locale finishing_task =
  fixes turn :: "core_event \<Rightarrow> bool" and busy :: "core \<Rightarrow> bool" and rank :: "core \<Rightarrow> nat"
    and good :: "config \<Rightarrow> core_event \<Rightarrow> core \<Rightarrow> bool"
  assumes can_run: "core_reach ROUTER c xs k \<Longrightarrow> busy k \<Longrightarrow> \<exists>ev. turn ev \<and> enabled ev k"
    and lowers: "core_reach ROUTER c xs k \<Longrightarrow> enabled ev k \<Longrightarrow> core_turn ROUTER c ev k = Some k' \<Longrightarrow> busy k \<Longrightarrow>
      good c ev k \<Longrightarrow> rank k' + of_bool (turn ev) \<le> rank k"
begin

lemma path_lowers:
  assumes "core_path c xs st ev" and "busy (st i)" and "good c (ev i) (st i)"
  shows "rank (st (Suc i)) + of_bool (turn (ev i)) \<le> rank (st i)"
  using lowers [OF path_reach [OF assms(1)] _ _ assms(2,3)] assms(1) unfolding core_path_def by blast

lemma not_busy_for_ever:
  assumes "core_path c xs st ev" and "fair_to turn st ev" and "\<forall>j\<ge>i. good c (ev j) (st j)"
  shows "\<exists>j. i \<le> j \<and> \<not> busy (st j)"
  using assms(3)
proof (induction "rank (st i)" arbitrary: i rule: less_induct)
  case less
  show ?case
  proof (rule ccontr)
    assume "\<not> ?case"
    then have busy: "busy (st j)" if "i \<le> j" for j using that by blast
    have low: "rank (st (Suc j)) + of_bool (turn (ev j)) \<le> rank (st j)" if "i \<le> j" for j
      using path_lowers [OF assms(1) busy [OF that]] less.prems that by blast
    have "\<exists>e. turn e \<and> enabled e (st j)" if "i \<le> j" for j
      by (rule can_run [OF path_reach [OF assms(1)] busy [OF that]])
    then obtain j where j: "i \<le> j" "turn (ev j)" using assms(2) unfolding fair_to_def by blast
    have "rank (st j) \<le> rank (st i)"
      using j(1)
    proof (induction rule: dec_induct)
      case (step n)
      then show ?case using low [OF step(1)] by simp
    qed simp
    then have "rank (st (Suc j)) < rank (st i)" using low [OF j(1)] j(2) by simp
    from less.hyps [OF this] less.prems j(1) busy show False by (meson Suc_leD le_trans)
  qed
qed

lemma finishes:
  assumes "core_path c xs st ev" and "fair_to turn st ev" and "\<forall>j\<ge>i. good c (ev j) (st j)"
  shows "\<exists>j\<ge>i. \<not> busy (st j) \<and> card {l. i \<le> l \<and> l < j \<and> turn (ev l)} \<le> rank (st i)"
proof -
  define j where "j = (LEAST j. i \<le> j \<and> \<not> busy (st j))"
  have j: "i \<le> j" "\<not> busy (st j)"
    using LeastI_ex [OF not_busy_for_ever [OF assms]] by (simp_all add: j_def)
  have busy: "busy (st l)" if "i \<le> l" "l < j" for l
    using not_less_Least [OF that(2) [unfolded j_def]] that(1) by blast
  have count: "card {l. i \<le> l \<and> l < m \<and> turn (ev l)} + rank (st m) \<le> rank (st i)" if "i \<le> m" "m \<le> j" for m
    using that
  proof (induction m rule: dec_induct)
    case (step m)
    have "{l. i \<le> l \<and> l < Suc m \<and> turn (ev l)} = {l. i \<le> l \<and> l < m \<and> turn (ev l)} \<union> (if turn (ev m) then {m} else {})"
      using step.hyps by (auto simp: less_Suc_eq)
    then have "card {l. i \<le> l \<and> l < Suc m \<and> turn (ev l)} =
        card {l. i \<le> l \<and> l < m \<and> turn (ev l)} + of_bool (turn (ev m))"
      by simp
    moreover have "rank (st (Suc m)) + of_bool (turn (ev m)) \<le> rank (st m)"
      using path_lowers [OF assms(1) busy, of m] assms(3) step by simp
    ultimately show ?case using step by simp
  qed simp
  from count [OF j(1) order_refl] j show ?thesis by (intro exI [of _ j]) simp
qed

end

interpretation up_tasks: finishing_task up_event "\<lambda>k. state (packet_up (core_net k)) \<noteq> PACKET_IDLE" up_rank "\<lambda>_ _ _. True"
proof unfold_locales
  fix c xs k
  assume "core_reach ROUTER c xs k" "state (packet_up (core_net k)) \<noteq> PACKET_IDLE"
  then show "\<exists>ev. up_event ev \<and> enabled ev k" using up_progress reach_owned by metis
qed (rule up_turn_rank)


section \<open>The turns of the task that routes down\<close>

fun down_event :: "core_event \<Rightarrow> bool" where
  "down_event (Down_Send env) = True"
| "down_event Down_Acked = True"
| "down_event Down_Timeout = True"
| "down_event _ = False"

fun down_rank :: "down_phase \<Rightarrow> nat" where
  "down_rank Down_Request = 0"
| "down_rank (Down_Sending r) = 2 * unat r + 2"
| "down_rank (Down_Ack r) = 2 * unat r + 1"

fun down_tries_ok :: "down_phase \<Rightarrow> bool" where
  "down_tries_ok Down_Request = True"
| "down_tries_ok (Down_Sending r) = (r \<le> 29)"
| "down_tries_ok (Down_Ack r) = (r \<le> 30)"

lemma down_rank_le: "down_tries_ok ph \<Longrightarrow> down_rank ph \<le> 61"
  by (cases ph) (simp_all add: word_le_nat_alt)

text \<open>No transmission reaches a neighbour: each attempt is refused, not acknowledged or not in time.\<close>

definition unheard :: "config \<Rightarrow> core_event \<Rightarrow> core \<Rightarrow> bool" where
  "unheard c ev k \<longleftrightarrow> (\<forall>env. ev = Down_Send env \<longrightarrow>
     fst (unet_packet_output c env NWK_TX_RETRIES (core_net k)) = PACKET_SEND_ERR)"

lemma unheard_parent: "unheard c ev k \<Longrightarrow> \<not> parent_gone c ev k"
  by (auto simp: unheard_def parent_gone_def)

lemma other_turn_down:
  assumes "core_ok xs k" and "enabled ev k" and "core_turn dev c ev k = Some k'"
    and "\<not> down_event ev" and "\<And>woken. ev \<noteq> Down_Go woken"
  shows "down_at k' = down_at k"
proof -
  have bg: ?thesis if "background ev" using background_turn [OF assms(1-3) that] by blast
  show ?thesis
  proof (cases ev)
    case (Down_Ack_End env)
    then show ?thesis using assms(3) by (auto simp: UNET_Router_Down_Ack_end_def bind_eq_Some_conv split: prod.splits)
  next
    case (Up_Ack_End env)
    then show ?thesis using assms(3) by (auto simp: UNET_Router_Up_Ack_end_def bind_eq_Some_conv split: prod.splits)
  next
    case (Up_Send env)
    then obtain r where r: "up_at k = Up_Sending r" using assms(2) by (auto split: up_phase.splits)
    obtain j where "UNET_Router_Up_send c env r k = Some j" "down_at j = down_at k"
      by (rule Up_send_ok [OF assms(1), of c env r]) (rule that)
    then show ?thesis using assms(3) Up_Send r by simp
  next
    case Up_Timeout
    then obtain r where "up_at k = Up_Ack r" using assms(2) by (auto split: up_phase.splits)
    then show ?thesis using assms(3) Up_Timeout by (auto simp: UNET_Router_Up_timeout_def up_loop_test_def Let_def)
  qed (use assms(3-5) bg in \<open>auto simp: UNET_Router_Up_Ack_begin_def UNET_Router_Up_request_def up_loop_test_def
      UNET_Router_Up_acked_def UNET_Router_Down_Ack_begin_def Let_def\<close>)
qed

lemma down_event_rank:
  assumes "core_ok xs k" and "enabled ev k" and "core_turn dev c ev k = Some k'" and "down_event ev" and "unheard c ev k"
  shows "down_rank (down_at k') < down_rank (down_at k)"
proof (cases ev)
  case (Down_Send env)
  then obtain r where r: "down_at k = Down_Sending r" using assms(2) by (auto split: down_phase.splits)
  obtain n where u: "unet_packet_output c env NWK_TX_RETRIES (core_net k) = (PACKET_SEND_ERR, n)"
    using assms(5) Down_Send unfolding unheard_def by (metis prod.collapse)
  have "down_at k' = Down_Ack r" using Down_send_ok [OF assms(1) u, of r] assms(3) Down_Send r by auto
  then show ?thesis using r by simp
next
  case Down_Acked
  have "available Router_Down_Ack_Received k" using assms(2) Down_Acked by simp
  from Down_acked_ok [OF assms(1) this] obtain j where "UNET_Router_Down_acked k = Some j" "down_at j = Down_Request" by metis
  moreover have "0 < down_rank (down_at k)" using assms(2) Down_Acked by (auto split: down_phase.splits)
  ultimately show ?thesis using assms(3) Down_Acked by simp
next
  case Down_Timeout
  then obtain r where r: "down_at k = Down_Ack r" using assms(2) by (auto split: down_phase.splits)
  obtain j where "UNET_Router_Down_timeout r k = Some j" "down_at j = (if r > 0 then Down_Sending (r - 1) else Down_Request)"
    by (rule Down_timeout_ok [OF assms(1)]) (rule that)
  moreover have "unat (r - 1) = unat r - 1" "0 < unat r" if "0 < r"
    using that by (simp_all add: unat_minus_one word_neq_0_conv unat_gt_0)
  ultimately show ?thesis using assms(3) Down_Timeout r by auto
qed (use assms(4) in simp_all)

lemma down_turn_rank:
  assumes "core_reach ROUTER c xs k" and "enabled ev k" and "core_turn ROUTER c ev k = Some k'"
    and "down_at k \<noteq> Down_Request" and "unheard c ev k"
  shows "down_rank (down_at k') + of_bool (down_event ev) \<le> down_rank (down_at k)"
proof (cases "down_event ev")
  case True
  then show ?thesis using down_event_rank [OF reach_ok [OF assms(1)] assms(2,3) _ assms(5)] by simp
next
  case False
  moreover have "ev \<noteq> Down_Go woken" for woken using assms(2,4) by auto
  ultimately show ?thesis using other_turn_down [OF reach_ok [OF assms(1)] assms(2,3)] by simp
qed

lemma down_tries_step:
  assumes "core_ok xs k" and "enabled ev k" and "core_turn dev c ev k = Some k'" and "down_tries_ok (down_at k)"
  shows "down_tries_ok (down_at k')"
proof (cases "down_event ev \<or> (\<exists>woken. ev = Down_Go woken)")
  case False
  then show ?thesis using other_turn_down [OF assms(1-3)] assms(4) by auto
next
  case True
  then consider (send) env where "ev = Down_Send env" | (acked) "ev = Down_Acked" | (timeout) "ev = Down_Timeout"
    | (go) woken where "ev = Down_Go woken"
    by (cases ev) auto
  then show ?thesis
  proof cases
    case send
    then obtain r where r: "down_at k = Down_Sending r" using assms(2) by (auto split: down_phase.splits)
    obtain res n where u: "unet_packet_output c env NWK_TX_RETRIES (core_net k) = (res, n)" by fastforce
    have "down_at k' = Down_Ack (if res = PACKET_SEND_OK then r + 1 else r)"
      using Down_send_ok [OF assms(1) u, of r] assms(3) send r by (auto split: if_splits)
    moreover have "unat (r + 1) \<le> 30" if "unat r \<le> 29" using that by (simp add: unat_word_ariths)
    ultimately show ?thesis using assms(4) r by (simp add: word_le_nat_alt)
  next
    case acked
    then have "available Router_Down_Ack_Received k" using assms(2) by simp
    from Down_acked_ok [OF assms(1) this] obtain j where "UNET_Router_Down_acked k = Some j" "down_at j = Down_Request" by metis
    then show ?thesis using assms(3) acked by simp
  next
    case timeout
    then obtain r where r: "down_at k = Down_Ack r" using assms(2) by (auto split: down_phase.splits)
    obtain j where "UNET_Router_Down_timeout r k = Some j" "down_at j = (if r > 0 then Down_Sending (r - 1) else Down_Request)"
      by (rule Down_timeout_ok [OF assms(1)]) (rule that)
    moreover have "unat (r - 1) = unat r - 1" if "0 < r" using that by (simp add: unat_minus_one word_neq_0_conv)
    ultimately show ?thesis using assms(3,4) timeout r by (auto simp: word_le_nat_alt)
  next
    case go
    then have av: "woken \<longrightarrow> available Router_Down_Route_Request k" using assms(2) by simp
    obtain j n where "UNET_Router_Down_request dev woken k = Some j"
      "n = core_net k \<and> (woken \<longrightarrow> state (packet_down n) = PACKET_IDLE) \<and> down_at j = Down_Request \<or>
       state (packet_down n) = PACKET_WAITING_TX \<and> down_at j = Down_Sending 29"
      by (rule Down_request_ok [OF assms(1) av, of dev]) (rule that)
    then show ?thesis using assms(3) go by auto
  qed
qed

lemma reach_down_tries: "core_reach ROUTER c xs k \<Longrightarrow> down_tries_ok (down_at k)"
proof (induction rule: core_reach.induct)
  case (core_started k0 k)
  obtain j where "UNET_start ROUTER c k0 = Some j" "down_at j = Down_Request"
    by (rule UNET_start_ok [OF core_started(1), of c]) (rule that)
  then show ?case using core_started(2) by simp
next
  case (core_stepped k ev k')
  then show ?case using down_tries_step [OF reach_ok [OF core_stepped(1)] core_stepped(2,3)] by blast
qed

interpretation down_task: finishing_task down_event "\<lambda>k. down_at k \<noteq> Down_Request" "\<lambda>k. down_rank (down_at k)" unheard
proof unfold_locales
  fix c xs and k :: core
  assume "down_at k \<noteq> Down_Request"
  then show "\<exists>ev. down_event ev \<and> enabled ev k"
  proof (cases "down_at k")
    case (Down_Sending r)
    then show ?thesis by (intro exI [of _ "Down_Send undefined"]) simp
  next
    case (Down_Ack r)
    then show ?thesis
      by (cases "available Router_Down_Ack_Received k") (auto intro: exI [of _ Down_Acked] exI [of _ Down_Timeout])
  qed simp
qed (rule down_turn_rank)


text \<open>
  The condition is needed: a transmission that reaches the parent costs no try, so while the parent
  is there but does not answer, the task comes back to the same place for ever.
\<close>

lemma down_task_retries_for_ever:
  assumes "core_ok xs k" and "down_at k = Down_Sending r" and "r \<le> 29"
    and "fst (unet_packet_output c env NWK_TX_RETRIES (core_net k)) = PACKET_SEND_OK"
    and "param NODE_PARENTINDEX (core_net k) \<noteq> NO_PARENT" and "\<not> available Router_Down_Ack_Received k"
  obtains k1 k2 where "core_turn ROUTER c (Down_Send env) k = Some k1" and "enabled Down_Timeout k1"
    and "core_turn ROUTER c Down_Timeout k1 = Some k2" and "down_at k2 = Down_Sending r"
proof -
  obtain n where u: "unet_packet_output c env NWK_TX_RETRIES (core_net k) = (PACKET_SEND_OK, n)"
    using assms(4) by (metis prod.collapse)
  obtain k1 where k1: "UNET_Router_Down_send c env r k = Some k1" "core_ok xs k1" "down_at k1 = Down_Ack (r + 1)"
    "taken k1 = taken k" "posted (core_net k1) = posted (core_net k)"
    using Down_send_ok [OF assms(1) u, of r] assms(5) by auto
  obtain k2 where k2: "UNET_Router_Down_timeout (r + 1) k1 = Some k2"
    "down_at k2 = (if r + 1 > 0 then Down_Sending (r + 1 - 1) else Down_Request)"
    by (rule Down_timeout_ok [OF k1(2)]) (rule that)
  have "unat (r + 1) = unat r + 1" using assms(3) by (simp add: unat_word_ariths word_le_nat_alt)
  then have "0 < r + 1" by (simp add: word_less_nat_alt)
  then show thesis
    using k1 k2 assms(2,6) by (intro that [of k1 k2]) (simp_all add: available_def)
qed

text \<open>
  The link task asks for an advertisement with the semaphore that also hands over packets, and the
  task that routes down tells the two requests apart by its timer.  When the timer has run in
  between (the task was transmitting when the request came), the free buffer is transmitted.
\<close>

lemma stale_request_transmits_free_buffer:
  assumes "available Router_Down_Route_Request k" and "state (packet_down (core_net k)) = PACKET_IDLE"
    and "\<not> is_trickle_reseted (timer_down k)"
  shows "\<exists>k'. core_turn ROUTER c (Down_Go True) k = Some k' \<and> down_at k' = Down_Sending 29 \<and>
    packet_down (core_net k') = (packet_down (core_net k))\<lparr>state := PACKET_WAITING_TX\<rparr>"
  using assms(3)
  by (simp add: UNET_Router_Down_request_def down_wants_advert_def down_loop_test_def
      take_token_def set_down_state_def with_net_def Let_def)

text \<open>
  An acknowledgement for a packet up leaves the packet as it is, so a repeated one posts again.  The
  second token is taken for the acknowledgement of the next packet.
\<close>

lemma repeated_ack_up_posts_again:
  assumes "input_ack_up p n = Some n1" and "state (packet_up n) = PACKET_WAITING_ACK"
    and "packet_info_get PKTINFO_SEQNUM p = packet_info_get PKTINFO_SEQNUM (packet_up n)"
  shows "\<exists>n2. input_ack_up p n1 = Some n2 \<and>
    posted n2 = posted n @ [Router_Up_Ack_Received, Router_Up_Ack_Received]"
proof -
  have "post Router_Up_Ack_Received n = Some n1" using assms by (simp add: input_ack_up_def)
  then have "created n Router_Up_Ack_Received" and n1: "n1 = n\<lparr>posted := posted n @ [Router_Up_Ack_Received]\<rparr>"
    by (simp_all add: post_def split: if_splits)
  then show ?thesis using assms(2,3) by (simp add: input_ack_up_def post_def)
qed

section \<open>Fair runs exist\<close>

text \<open>From every reachable state there is a fair run: the tasks run when they can.\<close>

lemma fair_path_exists:
  assumes "core_reach ROUTER c xs k" and safe: "\<And>ev k. good ev k \<Longrightarrow> \<not> parent_gone c ev k"
    and pick: "\<And>k. \<exists>ev. turn ev \<and> enabled ev k \<Longrightarrow> \<exists>ev. turn ev \<and> enabled ev k \<and> good ev k"
    and idle: "\<And>k. good (Radio_Interrupt 0) k"
  obtains st ev where "core_path c xs st ev" and "fair_to turn st ev" and "st 0 = k" and "\<forall>i. good (ev i) (st i)"
proof -
  let ?step = "\<lambda>k e k'. enabled e k \<and> core_turn ROUTER c e k = Some k' \<and> ((\<exists>e. turn e \<and> enabled e k) \<longrightarrow> turn e) \<and> good e k"
  have ex: "\<exists>k'. core_reach ROUTER c xs k' \<and> (\<exists>e. ?step k e k')" if r: "core_reach ROUTER c xs k" for k
  proof -
    have "\<exists>e. enabled e k \<and> ((\<exists>e. turn e \<and> enabled e k) \<longrightarrow> turn e) \<and> good e k"
    proof (cases "\<exists>e. turn e \<and> enabled e k")
      case True
      from pick [OF this] show ?thesis by blast
    next
      case False
      then show ?thesis using idle by (intro exI [of _ "Radio_Interrupt 0"]) auto
    qed
    then obtain e where e: "enabled e k" "(\<exists>e. turn e \<and> enabled e k) \<longrightarrow> turn e" "good e k" by blast
    then obtain k' where "core_turn ROUTER c e k = Some k'"
      using turn_ok [OF reach_ok [OF r] e(1), of c ROUTER] safe by auto
    then show ?thesis using e core_stepped [OF r e(1)] by blast
  qed
  have "\<exists>st. \<forall>i. (core_reach ROUTER c xs (st i) \<and> (i = 0 \<longrightarrow> st i = k)) \<and> (\<exists>e. ?step (st i) e (st (Suc i)))"
    by (rule dependent_nat_choice) (use assms(1) ex in auto)
  then obtain st where st: "st 0 = k" "\<And>i. core_reach ROUTER c xs (st i)" "\<And>i. \<exists>e. ?step (st i) e (st (Suc i))"
    by blast
  from st(3) obtain ev where ev: "\<And>i. ?step (st i) (ev i) (st (Suc i))" by metis
  show thesis
  proof (rule that)
    show "core_path c xs st ev" using st ev assms(1) by (simp add: core_path_def)
    show "fair_to turn st ev" unfolding fair_to_def using ev by blast
    show "st 0 = k" "\<forall>i. good (ev i) (st i)" using st(1) ev by blast+
  qed
qed

end
