(* ===== verification/Core_Handshake.thy ===== *)
theory Core_Handshake
  imports Core_Owners
begin

text \<open>
  Two nodes at work: the frame that one hands to its radio is what the other gets, the receiver
  answers with an acknowledgement, and the sender takes it for the packet it waits with.
\<close>

section \<open>Frames between nodes\<close>

text \<open>The bytes that \<open>unet_packet_output\<close> hands to the radio.\<close>

definition sent_frame :: "packet \<Rightarrow> u8 list" where
  "sent_frame p = take (unat (packet_info_get PKTINFO_SIZE p)) (drop MAC_FRAME_CTRL (bytes p))"

lemma sent_frame_nth:
  assumes "packet_ok p" and "unat (packet_info_get PKTINFO_SIZE p) \<le> 126"
  shows "length (sent_frame p) = unat (packet_info_get PKTINFO_SIZE p)"
    and "i < unat (packet_info_get PKTINFO_SIZE p) \<Longrightarrow> sent_frame p ! i = byte p (2 + i)"
  using assms by (simp_all add: sent_frame_def packet_ok_def)

text \<open>The receive buffer of a node that hears the frame of \<open>p\<close>.\<close>

abbreviation rx_buffer :: "reception \<Rightarrow> u8 list \<Rightarrow> packet" where
  "rx_buffer f memory \<equiv> receive_buffer f \<lparr>info = replicate 12 0, bytes = memory, state = PACKET_BUSY\<rparr>"

lemma rx_buffer_bytes:
  assumes "packet_ok p" and "unat (packet_info_get PKTINFO_SIZE p) \<le> 126" and "rx_frame f = sent_frame p" and "length memory = 128"
  shows "packet_ok (rx_buffer f memory)"
    and "2 \<le> i \<Longrightarrow> i < 2 + unat (packet_info_get PKTINFO_SIZE p) \<Longrightarrow> byte (rx_buffer f memory) i = byte p i"
    and "byte (rx_buffer f memory) PHY_PKT_SIZE = packet_info_get PKTINFO_SIZE p"
proof -
  note len = sent_frame_nth(1) [OF assms(1,2)]
  let ?p0 = "\<lparr>info = replicate 12 0, bytes = memory, state = PACKET_BUSY\<rparr> :: packet"
  show "packet_ok (rx_buffer f memory)" by (rule receive_buffer_ok) (simp add: packet_ok_def assms(4))
  have fit: "2 + length (rx_frame f) \<le> length (bytes ?p0)" using len assms(2-4) by simp
  have b: "byte (rx_buffer f memory) i = byte (put PHY_PKT_SIZE (of_nat (length (rx_frame f))) (put_all 2 (rx_frame f) ?p0)) i" for i
    by (simp add: receive_buffer_def Let_def)
  show "byte (rx_buffer f memory) PHY_PKT_SIZE = packet_info_get PKTINFO_SIZE p"
    using len assms(3,4) by (simp add: b byte_put)
  show "byte (rx_buffer f memory) i = byte p i" if "2 \<le> i" "i < 2 + unat (packet_info_get PKTINFO_SIZE p)"
  proof -
    have "byte (put_all 2 (rx_frame f) ?p0) i = rx_frame f ! (i - 2)"
      by (subst byte_put_all [OF fit]) (use that len assms(3) in simp)
    then have "byte (rx_buffer f memory) i = rx_frame f ! (i - 2)" using that(1) by (simp add: b byte_put)
    also have "\<dots> = byte p (2 + (i - 2))" unfolding assms(3) by (rule sent_frame_nth(2) [OF assms(1,2)]) (use that in simp)
    also have "2 + (i - 2) = i" using that by simp
    finally show ?thesis .
  qed
qed

text \<open>What the MAC layer makes of a data frame: the dispatcher gets its bytes and what was noted.\<close>

lemma packet_input_dispatch:
  assumes "packet_ok p" and "FrameType (frame_control p) = DATA_FRAME" and "SrcAddrMode (frame_control p) = ADDR16_MODE"
    and "DstAddrMode (frame_control p) = ADDR16_MODE" and "SecurityEnabled (frame_control p) = 0"
    and "byte p LLC_PROTO = UNET_LLC_PROTO_NUMBER"
  obtains p2 s2 where "ieee802154_packet_input dev True p s = unet_packet_input dev p2 s2"
    and "packet_ok p2" and "bytes p2 = bytes p" and "packet_info_get PKTINFO_SEQNUM p2 = byte p MAC_SEQ_NUM"
    and "state p2 = state p"
    and "packet_info_get PKTINFO_SRC16H p2 = byte p 10" and "packet_info_get PKTINFO_SRC16L p2 = byte p MAC_SRC_16"
    and "packet_up s2 = packet_up s" and "packet_down s2 = packet_down s" and "created s2 = created s"
    and "posted s2 = posted s" and "node_data s2 = node_data s"
    and "unet_neighbourhood s2 = unet_neighbourhood s" and "unet_routing_table_up s2 = unet_routing_table_up s"
    and "entry_index s2 = entry_index s" and "packet_info_get PKTINFO_SIZE p2 = byte p PHY_PKT_SIZE"
    and "\<not> link_packet_is_duplicated (join16 (byte p 10) (byte p MAC_SRC_16)) (byte p MAC_SEQ_NUM) s \<Longrightarrow>
      packet_info_get PKTINFO_DUPLICATED p2 = 0"
proof -
  define p1 where "p1 = put_info PKTINFO_SIZE (byte p PHY_PKT_SIZE) p"
  define s1 where "s1 = note_last_rx (byte p1 MAC_SEQ_NUM) s"
  define dup where "dup = link_packet_is_duplicated
      (join16 (byte p1 (MAC_SRC_16 + 1)) (byte p1 MAC_SRC_16)) (byte p1 MAC_SEQ_NUM) s1"
  define s2 where "s2 = (if ACKRequest (frame_control p1) = 1 \<and> dup then NODESTAT_UPDATE duplink s1 else s1)"
  have fc: "frame_control p1 = frame_control p" by (simp add: p1_def frame_control_def)
  have "ieee802154_accepts True p1"
    using assms(2-6) unfolding ieee802154_accepts_def fc by (simp add: p1_def)
  then have i: "ieee802154_packet_input dev True p s = unet_packet_input dev (ieee802154_note_input dup p1) s2"
    unfolding ieee802154_packet_input_def Let_def p1_def [symmetric] s1_def [symmetric] dup_def [symmetric] s2_def [symmetric]
    by simp
  have l: "length (info p1) = 12" using assms(1) by (simp add: p1_def packet_ok_def)
  show thesis
    by (rule that [OF i])
      (use l assms(1) in \<open>simp_all add: note_input_ok ieee802154_note_input_def Let_def info_put p1_def s2_def s1_def
          note_last_rx_def dup_def link_packet_is_duplicated_def\<close>)
qed

lemma info_of_others:
  "packet_info_get opt (put i v p) = packet_info_get opt p" "packet_info_get opt (p\<lparr>state := st\<rparr>) = packet_info_get opt p"
  by (simp_all add: packet_info_get_def)

section \<open>One hop down and its acknowledgement\<close>

text \<open>A packet for transmission: its header is the one that the node writes, its size fits a frame.\<close>

definition addressed :: "u16 \<Rightarrow> u16 \<Rightarrow> u8 \<Rightarrow> packet \<Rightarrow> bool" where
  "addressed source dest type p \<longleftrightarrow> packet_ok p \<and>
     FrameType (frame_control p) = DATA_FRAME \<and> SrcAddrMode (frame_control p) = ADDR16_MODE \<and>
     DstAddrMode (frame_control p) = ADDR16_MODE \<and> SecurityEnabled (frame_control p) = 0 \<and>
     byte p MAC_SEQ_NUM = packet_info_get PKTINFO_SEQNUM p \<and>
     join16 (byte p 10) (byte p MAC_SRC_16) = source \<and> packet_get_dest_addr16 p = dest \<and>
     byte p LLC_PROTO = UNET_LLC_PROTO_NUMBER \<and> byte p UNET_PKT_TYPE = type \<and>
     30 \<le> unat (packet_info_get PKTINFO_SIZE p) \<and> unat (packet_info_get PKTINFO_SIZE p) \<le> 126"

lemma addressed_header_set:
  assumes "packet_ok p" and "byte p LLC_PROTO = UNET_LLC_PROTO_NUMBER"
    and "30 \<le> unat (packet_info_get PKTINFO_SIZE p)" and "unat (packet_info_get PKTINFO_SIZE p) \<le> 126"
  shows "addressed (node_data_get_16b NODE_ADDR16 n) (packet_get_dest_addr16 p) (byte p UNET_PKT_TYPE)
    (ieee802154_header_set DATA_FRAME ACK_REQ_TRUE n p)"
proof -
  let ?q = "ieee802154_header_set DATA_FRAME ACK_REQ_TRUE n p"
  have a: "ACK_REQ_TRUE = 0 \<or> ACK_REQ_TRUE = (1 :: u8)" by simp
  note h = header_set_bytes [OF assms(1), where type = DATA_FRAME and ack = ACK_REQ_TRUE and n = n]
  note f = fields_written [OF a, folded frame_control_header_set [OF assms(1), where n = n]]
  have "packet_info_get opt ?q = packet_info_get opt p" for opt by (simp add: packet_info_get_def)
  then show ?thesis
    using f(1-4) h assms by (simp add: addressed_def node_data_get_16b packet_get_dest_addr16_def)
qed

lemma frame_control_cong: "byte p 2 = byte q 2 \<Longrightarrow> byte p 3 = byte q 3 \<Longrightarrow> frame_control p = frame_control q"
  by (simp add: frame_control_def)

text \<open>What the dispatcher of the receiver gets.\<close>

lemma addressed_received:
  assumes "addressed source dest type p" and "rx_frame f = sent_frame p" and "rx_crc f" and "length memory = 128"
    and "available Radio_RX_Event k" and "core_ok xs k"
  obtains p2 s2 where "\<And>ack p3 n. unet_packet_input dev p2 s2 = Some (ack, p3, n) \<Longrightarrow>
      UNET_Radio_turn dev f memory k = Some ((with_net n (take_token Radio_RX_Event k))
        \<lparr>radio_state := (radio_state k AND NOT RX_OK) AND NOT RX_DISABLED\<rparr>)"
    and "packet_ok p2" and "\<And>i. 2 \<le> i \<Longrightarrow> i < 2 + unat (packet_info_get PKTINFO_SIZE p) \<Longrightarrow> byte p2 i = byte p i"
    and "packet_info_get PKTINFO_SEQNUM p2 = packet_info_get PKTINFO_SEQNUM p"
    and "packet_get_source_addr16 p2 = source" and "state p2 = PACKET_BUSY"
    and "packet_up s2 = packet_up (core_net k)" and "packet_down s2 = packet_down (core_net k)"
    and "created s2 = created (core_net k)" and "posted s2 = posted (core_net k)" and "node_data s2 = node_data (core_net k)"
    and "unet_neighbourhood s2 = unet_neighbourhood (core_net k)"
    and "unet_routing_table_up s2 = unet_routing_table_up (core_net k)" and "entry_index s2 = entry_index (core_net k)"
    and "packet_info_get PKTINFO_SIZE p2 = packet_info_get PKTINFO_SIZE p"
    and "\<not> link_packet_is_duplicated source (packet_info_get PKTINFO_SEQNUM p) (core_net k) \<Longrightarrow>
      packet_info_get PKTINFO_DUPLICATED p2 = 0"
proof -
  note a = assms(1) [unfolded addressed_def]
  let ?size = "unat (packet_info_get PKTINFO_SIZE p)" and ?b = "rx_buffer f memory"
  have size: "30 \<le> ?size" "?size \<le> 126" using a by blast+
  have p: "packet_ok p" using a by blast
  note rb = rx_buffer_bytes [OF p size(2) assms(2,4)]
  have b: "byte ?b i = byte p i" if "2 \<le> i" "i < 32" for i using rb(2) [of i] that size by simp
  have fc: "frame_control ?b = frame_control p" by (rule frame_control_cong) (simp_all add: b)
  obtain p2 s2 where d: "ieee802154_packet_input dev True ?b (NODESTAT_UPDATE rxed (core_net k)) = unet_packet_input dev p2 s2"
    "packet_ok p2" "bytes p2 = bytes ?b" "packet_info_get PKTINFO_SEQNUM p2 = byte ?b MAC_SEQ_NUM" "state p2 = state ?b"
    "packet_info_get PKTINFO_SRC16H p2 = byte ?b 10" "packet_info_get PKTINFO_SRC16L p2 = byte ?b MAC_SRC_16"
    "packet_up s2 = packet_up (NODESTAT_UPDATE rxed (core_net k))" "packet_down s2 = packet_down (NODESTAT_UPDATE rxed (core_net k))"
    "created s2 = created (NODESTAT_UPDATE rxed (core_net k))" "posted s2 = posted (NODESTAT_UPDATE rxed (core_net k))"
    "node_data s2 = node_data (NODESTAT_UPDATE rxed (core_net k))"
    "unet_neighbourhood s2 = unet_neighbourhood (NODESTAT_UPDATE rxed (core_net k))"
    "unet_routing_table_up s2 = unet_routing_table_up (NODESTAT_UPDATE rxed (core_net k))"
    "entry_index s2 = entry_index (NODESTAT_UPDATE rxed (core_net k))"
    "packet_info_get PKTINFO_SIZE p2 = byte ?b PHY_PKT_SIZE"
    "\<not> link_packet_is_duplicated (join16 (byte ?b 10) (byte ?b MAC_SRC_16)) (byte ?b MAC_SEQ_NUM) (NODESTAT_UPDATE rxed (core_net k)) \<Longrightarrow>
      packet_info_get PKTINFO_DUPLICATED p2 = 0"
    by (rule packet_input_dispatch [OF rb(1), where s = "NODESTAT_UPDATE rxed (core_net k)" and dev = dev])
      (use a fc b in simp_all)
  show thesis
  proof (rule that)
    fix ack p3 n
    assume i: "unet_packet_input dev p2 s2 = Some (ack, p3, n)"
    have "0 < length (rx_frame f)" "2 + length (rx_frame f) \<le> 128"
      using sent_frame_nth(1) [OF p size(2)] size assms(2) by simp_all
    then show "UNET_Radio_turn dev f memory k = Some ((with_net n (take_token Radio_RX_Event k))
        \<lparr>radio_state := (radio_state k AND NOT RX_OK) AND NOT RX_DISABLED\<rparr>)"
      using d(1) i assms(3) by (simp add: UNET_Radio_turn_def Let_def take_token_def)
  next
    show "packet_get_source_addr16 p2 = source"
      using a b [of 9] b [of 10] d(6,7) by (simp add: packet_get_source_addr16_def)
    show "packet_info_get PKTINFO_SEQNUM p2 = packet_info_get PKTINFO_SEQNUM p" using a b [of 4] d(4) by simp
    show "byte p2 i = byte p i" if "2 \<le> i" "i < 2 + ?size" for i using rb(2) [OF that] d(3) by simp
    show "state p2 = PACKET_BUSY" using d(5) by (simp add: receive_buffer_def Let_def)
    show "packet_info_get PKTINFO_SIZE p2 = packet_info_get PKTINFO_SIZE p" using d(16) rb(3) by simp
    show "packet_info_get PKTINFO_DUPLICATED p2 = 0"
      if "\<not> link_packet_is_duplicated source (packet_info_get PKTINFO_SEQNUM p) (core_net k)"
      using that a b [of 4] b [of 9] b [of 10] by (intro d(17)) (simp add: link_packet_is_duplicated_def)
  qed (use d in simp_all)
qed

lemma entry_add_cong:
  assumes "unet_routing_table_up s = unet_routing_table_up s'" and "entry_index s = entry_index s'"
  shows "unet_routing_table_up (unet_router_up_table_entry_add hop d s) = unet_routing_table_up (unet_router_up_table_entry_add hop d s')"
  using assms by (simp add: unet_router_up_table_entry_add_def unet_router_up_table_entry_find_def Let_def)

lemma addr64_at_cong:
  assumes "packet_ok p" and "packet_ok q" and "\<And>j. j < 8 \<Longrightarrow> byte p (i + j) = byte q (i + j)" and "i + 8 \<le> 128"
  shows "addr64_at i p = addr64_at i q"
  unfolding addr64_at_def
  by (rule nth_equalityI) (use assms in \<open>simp_all add: packet_ok_def\<close>)

lemma nth_update_same: "(\<And>x. f (g x) = f x) \<Longrightarrow> f (xs[j := g (xs ! j)] ! i) = f (xs ! i)"
  by (cases "j < length xs"; cases "i = j") (simp_all add: not_less list_update_beyond)

lemma activity_addr16: "Addr_16b (nb (link_set_neighbor_activity p s) i) = Addr_16b (nb s i)"
proof -
  have "Addr_16b (nb (set_neighbour k (heard p) s) i) = Addr_16b (nb s i)" for k
    using nth_update_same [of Addr_16b "heard p" "unet_neighbourhood s" k i] by (simp add: set_neighbour_def heard_def)
  then show ?thesis by (simp add: link_set_neighbor_activity_def Let_def mark_heard_def)
qed

text \<open>The receiver takes the packet and its acknowledging task is asked.\<close>

lemma down_packet_taken:
  assumes "core_ok xs j" and "addressed source dest UNICAST_DOWN p" and "rx_frame f = sent_frame p" and "rx_crc f"
    and "length memory = 128" and "available Radio_RX_Event j" and "state (packet_down (core_net j)) = PACKET_IDLE"
  obtains j1 where "UNET_Radio_turn dev f memory j = Some j1"
    and "\<And>i. 2 \<le> i \<Longrightarrow> i < 2 + unat (packet_info_get PKTINFO_SIZE p) \<Longrightarrow> byte (packet_down (core_net j1)) i = byte p i"
    and "packet_ok (packet_down (core_net j1))" and "state (packet_down (core_net j1)) = PACKET_SENDING_ACK"
    and "posted (core_net j1) = posted (core_net j) @ [Router_Down_Ack_Request]"
    and "node_data (core_net j1) = node_data (core_net j)"
    and "packet_info_get PKTINFO_SEQNUM (packet_down (core_net j1)) = packet_info_get PKTINFO_SEQNUM p"
    and "ack_down j1 = ack_down j" and "taken j1 = taken (take_token Radio_RX_Event j)"
    and "core_stack j1 = (core_stack j)\<lparr>the_net := core_net j1\<rparr>" and "down_ack_at j1 = down_ack_at j" and "down_at j1 = down_at j"
    and "link_get_parent_addr16 (core_net j1) = link_get_parent_addr16 (core_net j)"
    and "unet_routing_table_up (core_net j1) =
      unet_routing_table_up (unet_router_up_table_entry_add source (addr64_at UNET_SRC_64 p) (core_net j))"
    and "packet_info_get PKTINFO_SIZE (packet_down (core_net j1)) = packet_info_get PKTINFO_SIZE p"
    and "\<not> link_packet_is_duplicated source (packet_info_get PKTINFO_SEQNUM p) (core_net j) \<Longrightarrow>
      packet_info_get PKTINFO_DUPLICATED (packet_down (core_net j1)) = 0"
proof -
  obtain p2 s2 where t: "\<And>ack p3 n. unet_packet_input dev p2 s2 = Some (ack, p3, n) \<Longrightarrow>
      UNET_Radio_turn dev f memory j = Some ((with_net n (take_token Radio_RX_Event j))
        \<lparr>radio_state := (radio_state j AND NOT RX_OK) AND NOT RX_DISABLED\<rparr>)"
    and p2: "packet_ok p2" "\<And>i. 2 \<le> i \<Longrightarrow> i < 2 + unat (packet_info_get PKTINFO_SIZE p) \<Longrightarrow> byte p2 i = byte p i"
    "packet_info_get PKTINFO_SEQNUM p2 = packet_info_get PKTINFO_SEQNUM p"
    "packet_info_get PKTINFO_SIZE p2 = packet_info_get PKTINFO_SIZE p" "packet_get_source_addr16 p2 = source"
    "\<not> link_packet_is_duplicated source (packet_info_get PKTINFO_SEQNUM p) (core_net j) \<Longrightarrow>
      packet_info_get PKTINFO_DUPLICATED p2 = 0"
    and s2: "packet_down s2 = packet_down (core_net j)" "created s2 = created (core_net j)"
    "posted s2 = posted (core_net j)" "node_data s2 = node_data (core_net j)" "unet_neighbourhood s2 = unet_neighbourhood (core_net j)"
    "unet_routing_table_up s2 = unet_routing_table_up (core_net j)" "entry_index s2 = entry_index (core_net j)"
    by (rule addressed_received [OF assms(2-6,1), where dev = dev]) (rule that)
  have type: "byte p2 UNET_PKT_TYPE = UNICAST_DOWN" using p2(2) [of 12] assms(2) by (simp add: addressed_def)
  define n where "n = snd (snd (input_down p2 s2))"
  have "created s2 Router_Down_Ack_Request" using core_okD(3) [OF assms(1)] s2(2) by (simp add: all_created_def)
  then have n: "input_down p2 s2 = (ACK_REQ_TRUE, p2\<lparr>state := PACKET_SENDING_ACK\<rparr>, n)"
    "packet_down n = p2\<lparr>state := PACKET_SENDING_ACK\<rparr>" "posted n = posted s2 @ [Router_Down_Ack_Request]"
    "node_data n = node_data s2"
    "unet_routing_table_up n = unet_routing_table_up (unet_router_up_table_entry_add (packet_get_source_addr16 p2) (addr64_at UNET_SRC_64 p2)
       (s2\<lparr>packet_down := p2\<lparr>state := PACKET_SENDING_ACK\<rparr>\<rparr>))"
    "Addr_16b (nb n i) = Addr_16b (nb s2 i)" for i
    using assms(7) s2(1) by (simp_all add: n_def input_down_def packet_acquire_down_def Let_def activity_addr16
        packet_get_source_addr16_def packet_info_get_def addr64_at_def)
  have size: "30 \<le> unat (packet_info_get PKTINFO_SIZE p)" and p: "packet_ok p" using assms(2) by (simp_all add: addressed_def)
  have "byte p2 (16 + i) = byte p (16 + i)" if "i < 8" for i by (rule p2(2)) (use that size in simp_all)
  then have src: "addr64_at UNET_SRC_64 p2 = addr64_at UNET_SRC_64 p" by (intro addr64_at_cong [OF p2(1) p]) simp_all
  have route: "unet_routing_table_up n = unet_routing_table_up (unet_router_up_table_entry_add source (addr64_at UNET_SRC_64 p) (core_net j))"
    unfolding n(5) p2(5) src by (rule entry_add_cong) (simp_all add: s2(6,7))
  have parent: "link_get_parent_addr16 n = link_get_parent_addr16 (core_net j)"
    using n(4,6) s2(4,5) by (simp add: link_get_parent_addr16_def param_def Let_def)
  have "unet_packet_input dev p2 s2 = Some (ACK_REQ_TRUE, p2\<lparr>state := PACKET_SENDING_ACK\<rparr>, n)"
    using n(1) type by (simp add: unet_packet_input_def)
  note turn = t [OF this]
  show thesis
    by (rule that [OF turn])
      (simp_all add: n(2-4) p2(1-4,6) s2(3,4) route parent info_of_others take_token_def with_net_def)
qed

text \<open>The same for a packet up.\<close>

lemma up_packet_taken:
  assumes "core_ok xs j" and "addressed source dest UNICAST_UP p" and "rx_frame f = sent_frame p" and "rx_crc f"
    and "length memory = 128" and "available Radio_RX_Event j" and "state (packet_up (core_net j)) = PACKET_IDLE"
  obtains j1 where "UNET_Radio_turn dev f memory j = Some j1" and "state (packet_up (core_net j1)) \<noteq> PACKET_IDLE"
    and "\<And>i. 2 \<le> i \<Longrightarrow> i < 2 + unat (packet_info_get PKTINFO_SIZE p) \<Longrightarrow> byte (packet_up (core_net j1)) i = byte p i"
    and "packet_ok (packet_up (core_net j1))"
    and "posted (core_net j1) = posted (core_net j) @ [Router_Up_Ack_Request]"
    and "node_data (core_net j1) = node_data (core_net j)" and "taken j1 = taken (take_token Radio_RX_Event j)"
    and "core_stack j1 = (core_stack j)\<lparr>the_net := core_net j1\<rparr>" and "up_ack_at j1 = up_ack_at j" and "up_at j1 = up_at j"
    and "unet_routing_table_up (core_net j1) = unet_routing_table_up (core_net j)"
    and "packet_info_get PKTINFO_SIZE (packet_up (core_net j1)) = packet_info_get PKTINFO_SIZE p"
proof -
  obtain p2 s2 where t: "\<And>ack p3 n. unet_packet_input dev p2 s2 = Some (ack, p3, n) \<Longrightarrow>
      UNET_Radio_turn dev f memory j = Some ((with_net n (take_token Radio_RX_Event j))
        \<lparr>radio_state := (radio_state j AND NOT RX_OK) AND NOT RX_DISABLED\<rparr>)"
    and p2: "packet_ok p2" "\<And>i. 2 \<le> i \<Longrightarrow> i < 2 + unat (packet_info_get PKTINFO_SIZE p) \<Longrightarrow> byte p2 i = byte p i" "state p2 = PACKET_BUSY"
    "packet_info_get PKTINFO_SIZE p2 = packet_info_get PKTINFO_SIZE p"
    and s2: "packet_up s2 = packet_up (core_net j)" "created s2 = created (core_net j)" "posted s2 = posted (core_net j)"
    "node_data s2 = node_data (core_net j)" "unet_routing_table_up s2 = unet_routing_table_up (core_net j)"
    by (rule addressed_received [OF assms(2-6,1), where dev = dev]) (rule that)
  have type: "byte p2 UNET_PKT_TYPE = UNICAST_UP" using p2(2) [of 12] assms(2) by (simp add: addressed_def)
  define n where "n = snd (input_up p2 s2)"
  have "created s2 Router_Up_Ack_Request" using core_okD(3) [OF assms(1)] s2(2) by (simp add: all_created_def)
  then have n: "input_up p2 s2 = (ACK_REQ_TRUE, n)" "packet_up n = p2" "posted n = posted s2 @ [Router_Up_Ack_Request]"
    "node_data n = node_data s2" "unet_routing_table_up n = unet_routing_table_up s2"
    using assms(7) s2(1) by (simp_all add: n_def input_up_def packet_acquire_up_def Let_def)
  have "unet_packet_input dev p2 s2 = Some (ACK_REQ_TRUE, p2, n)"
    using n(1) type by (simp add: unet_packet_input_def)
  note turn = t [OF this]
  show thesis
    by (rule that [OF turn]) (simp_all add: n(2-5) p2 s2(3-5) take_token_def with_net_def)
qed

text \<open>The acknowledgement: from the receiver, to the sender, with the sequence number of the packet.\<close>

lemma ack_addressed:
  fixes r memory n st a
  defines "a \<equiv> link_packet_create_ack n ((ack_copy r memory)\<lparr>state := st\<rparr>)"
  assumes "packet_ok r" and "packet_ok memory" and "byte r UNET_PKT_TYPE = UNICAST_DOWN"
    and "byte r LLC_PROTO = UNET_LLC_PROTO_NUMBER"
  shows "addressed (node_data_get_16b NODE_ADDR16 n) (join16 (byte r 10) (byte r MAC_SRC_16)) UNICAST_ACK_DOWN a"
    and "packet_info_get PKTINFO_SEQNUM a = byte r MAC_SEQ_NUM"
proof -
  have c: "byte (ack_copy r memory) i = byte r i" if "i < 30" for i
    using that assms(2,3) by (simp add: ack_copy_def packet_ok_def nth_append)
  have ok: "packet_ok (ack_copy r memory)" using assms(2,3) by (simp add: ack_copy_def packet_ok_def)
  define a5 where "a5 = put_info PKTINFO_SIZE (frame_size 0) (put UNET_PKT_TYPE (5 AND NOT ACK_REQ_MASK)
      (put_info PKTINFO_SEQNUM (byte r 4) (put_info PKTINFO_DEST16L (byte r 9)
        (put_info PKTINFO_DEST16H (byte r 10) ((ack_copy r memory)\<lparr>state := st\<rparr>)))))"
  have a: "a = ieee802154_header_set DATA_FRAME ACK_REQ_TRUE n a5"
    using assms(4) c by (simp add: a_def a5_def link_packet_create_ack_def Let_def)
  have t: "5 AND NOT (4 :: u8) = 1" by simp
  have l: "length (info (ack_copy r memory)) = 12" "length (bytes (ack_copy r memory)) = 128" using ok by (simp_all add: packet_ok_def)
  have i: "packet_info_get PKTINFO_SIZE a5 = 30" "packet_info_get PKTINFO_SEQNUM a5 = byte r 4"
    "packet_info_get PKTINFO_DEST16H a5 = byte r 10" "packet_info_get PKTINFO_DEST16L a5 = byte r 9"
    using l by (simp_all add: a5_def info_put info_of_others frame_size_def)
  have b: "packet_ok a5" "byte a5 LLC_PROTO = UNET_LLC_PROTO_NUMBER" "byte a5 UNET_PKT_TYPE = UNICAST_ACK_DOWN"
    using ok l c assms(5) t by (simp_all add: a5_def byte_put)
  show "addressed (node_data_get_16b NODE_ADDR16 n) (join16 (byte r 10) (byte r MAC_SRC_16)) UNICAST_ACK_DOWN a"
    using addressed_header_set [OF b(1,2), of n] i b(3) unfolding a by (simp add: packet_get_dest_addr16_def)
  show "packet_info_get PKTINFO_SEQNUM a = byte r MAC_SEQ_NUM" using i(2) by (simp add: a packet_info_get_def)
qed

text \<open>The sender takes the acknowledgement for the packet it waits with.\<close>

lemma down_ack_taken:
  assumes "core_ok xs k" and "addressed (packet_get_dest_addr16 (packet_down (core_net k))) dest UNICAST_ACK_DOWN a"
    and "packet_info_get PKTINFO_SEQNUM a = packet_info_get PKTINFO_SEQNUM (packet_down (core_net k))"
    and "rx_frame f = sent_frame a" and "rx_crc f" and "length memory = 128" and "available Radio_RX_Event k"
    and "state (packet_down (core_net k)) = PACKET_WAITING_ACK"
  obtains k1 where "UNET_Radio_turn dev f memory k = Some k1" and "available Router_Down_Ack_Received k1"
    and "packet_down (core_net k1) = (packet_down (core_net k))\<lparr>state := PACKET_ACKED\<rparr>" and "down_at k1 = down_at k"
proof -
  obtain p2 s2 where t: "\<And>ack p3 n. unet_packet_input dev p2 s2 = Some (ack, p3, n) \<Longrightarrow>
      UNET_Radio_turn dev f memory k = Some ((with_net n (take_token Radio_RX_Event k))
        \<lparr>radio_state := (radio_state k AND NOT RX_OK) AND NOT RX_DISABLED\<rparr>)"
    and p2: "\<And>i. 2 \<le> i \<Longrightarrow> i < 2 + unat (packet_info_get PKTINFO_SIZE a) \<Longrightarrow> byte p2 i = byte a i"
    "packet_info_get PKTINFO_SEQNUM p2 = packet_info_get PKTINFO_SEQNUM a"
    "packet_get_source_addr16 p2 = packet_get_dest_addr16 (packet_down (core_net k))"
    and s2: "packet_down s2 = packet_down (core_net k)" "created s2 = created (core_net k)"
    "posted s2 = posted (core_net k)"
    by (rule addressed_received [OF assms(2,4-7,1), where dev = dev]) (rule that)
  have type: "byte p2 UNET_PKT_TYPE = UNICAST_ACK_DOWN" using p2(1) [of 12] assms(2) by (simp add: addressed_def)
  let ?r = "packet_down (core_net k)"
  have src: "packet_info_get PKTINFO_SRC16H p2 = packet_info_get PKTINFO_DEST16H ?r"
    "packet_info_get PKTINFO_SRC16L p2 = packet_info_get PKTINFO_DEST16L ?r"
    using arg_cong [OF p2(3), of hi8] arg_cong [OF p2(3), of lo8]
    by (simp_all only: packet_get_source_addr16_def packet_get_dest_addr16_def split_join16)
  define n where "n = s2\<lparr>packet_down := ?r\<lparr>state := PACKET_ACKED\<rparr>, posted := posted s2 @ [Router_Down_Ack_Received]\<rparr>"
  have c: "created s2 Router_Down_Ack_Received" using core_okD(3) [OF assms(1)] s2(2) by (simp add: all_created_def)
  have "input_ack_down p2 s2 = Some n"
    using assms(3,8) p2(2) s2(1) src c by (simp add: input_ack_down_def Let_def post_def n_def)
  then have "unet_packet_input dev p2 s2 = Some (ACK_REQ_FALSE, p2, n)" using type by (simp add: unet_packet_input_def)
  from t [OF this] show thesis
    by (rule that)
      (use core_okD(8) [OF assms(1), of Router_Down_Ack_Received] s2(3) in
        \<open>simp_all add: n_def available_def take_token_def with_net_def\<close>)
qed

text \<open>What the router leaves in the buffer when it accepts a packet down.\<close>

lemma router_down_addressed:
  assumes "net_ok n0" and "unet_router_down n0 = Some (True, n1)"
    and "byte (packet_down n0) LLC_PROTO = UNET_LLC_PROTO_NUMBER" and "byte (packet_down n0) UNET_PKT_TYPE = type"
    and "30 \<le> unat (packet_info_get PKTINFO_SIZE (packet_down n0))"
    and "unat (packet_info_get PKTINFO_SIZE (packet_down n0)) \<le> 126"
  shows "addressed (node_data_get_16b NODE_ADDR16 (node_data n1)) (packet_get_dest_addr16 (packet_down n1)) type (packet_down n1)"
proof -
  let ?p = "packet_down n0"
  let ?p1 = "put UNET_HOP_LIMIT (byte ?p UNET_HOP_LIMIT - 1) ?p"
  obtain s1 p2 where st: "stamp_seqnum n0 ?p1 = (s1, p2)" by fastforce
  obtain hop where n1: "n1 = s1\<lparr>packet_down := ieee802154_header_set DATA_FRAME ACK_REQ_TRUE (node_data s1)
      (set_dest16 hop (p2\<lparr>state := PACKET_IN_ROUTE\<rparr>))\<rparr>"
    using assms(2) st by (auto simp: unet_router_down_def Let_def bind_eq_Some_conv split: if_splits)
  let ?q = "set_dest16 hop (p2\<lparr>state := PACKET_IN_ROUTE\<rparr>)"
  note b = stamp_seqnum_result(1,3) [OF st]
  have ok: "packet_ok ?p" using net_okD(7) [OF assms(1)] .
  have q: "packet_ok ?q" "bytes ?q = bytes ?p1" using b ok by simp_all
  have p2: "p2 = put_info PKTINFO_SEQNUM (fst (node_seq_num_get_next (node_data n0))) ?p1"
    using st by (simp add: stamp_seqnum_eq)
  have "packet_ok p2" using b ok by simp
  then have size: "packet_info_get PKTINFO_SIZE ?q = packet_info_get PKTINFO_SIZE ?p"
    by (simp add: info_set_dest16 info_of_others p2 info_put)
  have l: "length (bytes ?p) = 128" using ok by (simp add: packet_ok_def)
  have "byte ?q LLC_PROTO = UNET_LLC_PROTO_NUMBER" "byte ?q UNET_PKT_TYPE = type"
    unfolding q(2) using assms(3,4) l by (simp_all add: byte_put)
  then show ?thesis
    using addressed_header_set [OF q(1), of "node_data s1"] size assms(5,6) by (simp add: n1)
qed

text \<open>
  C22. One hop down works: a packet that the router of one node accepts, sent by its radio and heard
  by the node it is for, is there in full, that node's acknowledging task is asked, and the
  acknowledgement that it creates, heard by the sender, is the one the sender waits for.
\<close>

theorem down_hop_acknowledged:
  assumes "net_ok n0" and "unet_router_down n0 = Some (True, n1)"
    and "byte (packet_down n0) LLC_PROTO = UNET_LLC_PROTO_NUMBER" and "byte (packet_down n0) UNET_PKT_TYPE = UNICAST_DOWN"
    and "30 \<le> unat (packet_info_get PKTINFO_SIZE (packet_down n0))"
    and "unat (packet_info_get PKTINFO_SIZE (packet_down n0)) \<le> 126"
    and sender: "core_ok xs k" "packet_down (core_net k) = (packet_down n1)\<lparr>state := PACKET_WAITING_ACK\<rparr>"
      "available Radio_RX_Event k"
    and receiver: "core_ok ys j" "available Radio_RX_Event j" "state (packet_down (core_net j)) = PACKET_IDLE"
      "packet_ok (ack_down j)" "node_data_get_16b NODE_ADDR16 (node_data (core_net j)) = packet_get_dest_addr16 (packet_down n1)"
    and radio: "rx_frame f = sent_frame (packet_down (core_net k))" "rx_crc f" "length memory = 128"
  shows "\<exists>j1. UNET_Radio_turn ROUTER f memory j = Some j1 \<and>
    (\<forall>i. 2 \<le> i \<and> i < 2 + unat (packet_info_get PKTINFO_SIZE (packet_down n1)) \<longrightarrow>
       byte (packet_down (core_net j1)) i = byte (packet_down n1) i) \<and>
    available Router_Down_Ack_Request j1 \<and>
    (\<forall>g memory'. rx_frame g = sent_frame (ack_down (UNET_Router_Down_Ack_begin j1)) \<and> rx_crc g \<and> length memory' = 128 \<longrightarrow>
       (\<exists>k1. UNET_Radio_turn ROUTER g memory' k = Some k1 \<and> state (packet_down (core_net k1)) = PACKET_ACKED \<and>
          available Router_Down_Ack_Received k1))"
proof -
  let ?r = "packet_down n1"
  let ?source = "node_data_get_16b NODE_ADDR16 (node_data n1)"
  have r: "addressed ?source (packet_get_dest_addr16 ?r) UNICAST_DOWN ?r"
    by (rule router_down_addressed [OF assms(1-6)])
  have frame: "rx_frame f = sent_frame ?r" using radio(1) sender(2) by (simp add: sent_frame_def info_of_others)
  obtain j1 where j1: "UNET_Radio_turn ROUTER f memory j = Some j1"
    "\<And>i. 2 \<le> i \<Longrightarrow> i < 2 + unat (packet_info_get PKTINFO_SIZE ?r) \<Longrightarrow> byte (packet_down (core_net j1)) i = byte ?r i"
    "packet_ok (packet_down (core_net j1))" "posted (core_net j1) = posted (core_net j) @ [Router_Down_Ack_Request]"
    "node_data (core_net j1) = node_data (core_net j)" "ack_down j1 = ack_down j" "taken j1 = taken (take_token Radio_RX_Event j)"
    by (rule down_packet_taken [OF receiver(1) r frame radio(2,3) receiver(2,3), where dev = ROUTER]) (rule that)
  have size: "30 \<le> unat (packet_info_get PKTINFO_SIZE ?r)" using r by (simp add: addressed_def)
  have b: "byte (packet_down (core_net j1)) i = byte ?r i" if "2 \<le> i" "i < 32" for i using j1(2) [of i] that size by simp
  have asked: "available Router_Down_Ack_Request j1"
    using j1(4,7) core_okD(8) [OF receiver(1), of Router_Down_Ack_Request] by (simp add: available_def take_token_def)
  let ?a = "ack_down (UNET_Router_Down_Ack_begin j1)"
  have a: "?a = link_packet_create_ack (node_data (core_net j)) ((ack_copy (packet_down (core_net j1)) (ack_down j))\<lparr>state := PACKET_WAITING_TX\<rparr>)"
    using j1(5,6) by (simp add: UNET_Router_Down_Ack_begin_def Let_def take_token_def)
  have type: "byte (packet_down (core_net j1)) UNET_PKT_TYPE = UNICAST_DOWN"
    "byte (packet_down (core_net j1)) LLC_PROTO = UNET_LLC_PROTO_NUMBER"
    using b r by (simp_all add: addressed_def)
  note ack = ack_addressed [OF j1(3) receiver(4) type, where n = "node_data (core_net j)" and st = PACKET_WAITING_TX, folded a]
  have seq: "packet_info_get PKTINFO_SEQNUM ?a = packet_info_get PKTINFO_SEQNUM (packet_down (core_net k))"
    using ack(2) b r sender(2) by (simp add: addressed_def info_of_others)
  have from_dest: "packet_get_dest_addr16 (packet_down (core_net k)) = node_data_get_16b NODE_ADDR16 (node_data (core_net j))"
    using receiver(5) sender(2) by simp
  have "\<exists>k1. UNET_Radio_turn ROUTER g memory' k = Some k1 \<and> state (packet_down (core_net k1)) = PACKET_ACKED \<and>
      available Router_Down_Ack_Received k1"
    if g: "rx_frame g = sent_frame ?a" "rx_crc g" "length memory' = 128" for g memory'
  proof -
    have w: "state (packet_down (core_net k)) = PACKET_WAITING_ACK" using sender(2) by simp
    obtain k1 where "UNET_Radio_turn ROUTER g memory' k = Some k1" "available Router_Down_Ack_Received k1"
      "packet_down (core_net k1) = (packet_down (core_net k))\<lparr>state := PACKET_ACKED\<rparr>"
      by (rule down_ack_taken [OF sender(1) ack(1) [folded from_dest] seq g sender(3) w, where dev = ROUTER]) (rule that)
    then show ?thesis by simp
  qed
  then show ?thesis using j1(1,2) asked by blast
qed

end
