(* ===== verification/Core_Examples.thy ===== *)
theory Core_Examples
  imports Core_Progress Core_Handshake Transport_Examples
begin

text \<open>A router with two endpoints that is switched on, at which the theorems of the tasks are applied.\<close>

definition cold_stack :: stack where
  "cold_stack = sample_stack\<lparr>the_net := (the_net sample_stack)\<lparr>created := \<lambda>_. False\<rparr>\<rparr>"

definition cold_core :: core where
  "cold_core = \<lparr>core_stack = cold_stack, taken = (\<lambda>_. 0), generator = (0, pcg32_global),
     timer_link = init_trickle 0 0, timer_down = init_trickle 0 0, timer_down_retry = init_trickle 0 0,
     timer_up_retry = init_trickle 0 0, link_at = Link_Waiting, down_ack_at = Ack_Idle, down_at = Down_Request,
     up_ack_at = Ack_Idle, up_at = Up_Request, ack_down = sample_packet, ack_up = sample_packet, radio_state = 0\<rparr>"

definition sample_config :: config where
  "sample_config = \<lparr>MAC16_INIT = (0, 7), PANID_INIT = (0xCA, 0xFE), CHANNEL_INIT_VALUE = 26\<rparr>"

lemma cold_core_before: "core_before [0] cold_core"
proof -
  have po: "packet_ok (packet_up (the_net sample_stack))" "packet_ok (packet_down (the_net sample_stack))"
    using sample_packet_ok by (simp_all add: sample_stack_def packet_ok_def)
  have "net_ok (the_net sample_stack)"
    using sample_net_ok po by (simp add: net_ok_def sample_stack_def)
  then have "net_ok (the_net cold_stack)" by (simp add: net_ok_def cold_stack_def)
  moreover have "tp_list cold_stack [0]" using sample_stack_list by (simp add: cold_stack_def tp_list_net)
  moreover have "posted (the_net cold_stack) = []" "state (packet_up (the_net cold_stack)) = PACKET_IDLE"
    "state (packet_down (the_net cold_stack)) = PACKET_IDLE"
    by (simp_all add: cold_stack_def sample_stack_def sample_packet_def)
  moreover have "\<forall>x < length (endpoints cold_stack). wake_up_sem (endpoint x cold_stack) \<noteq> None"
    by (auto simp: cold_stack_def sample_stack_def sample_endpoint_def less_Suc_eq)
  ultimately show ?thesis by (simp add: core_before_def cold_core_def cold_stack_def)
qed

lemma cold_core_starts:
  obtains k where "core_reach ROUTER sample_config [0] k" and "state (packet_up (core_net k)) = PACKET_IDLE"
    and "up_ack_at k = Ack_Idle" and "up_at k = Up_Request" and "down_at k = Down_Request"
  by (rule UNET_start_ok [OF cold_core_before, of sample_config]) (rule that, auto intro: core_started [OF cold_core_before])

text \<open>The router has heard a packet up that is for somebody else.\<close>

lemma radio_interrupt_rx:
  assumes "core_ok xs k"
  shows "\<exists>k'. core_turn ROUTER c (Radio_Interrupt 32) k = Some k' \<and> available Radio_RX_Event k' \<and>
    packet_up (core_net k') = packet_up (core_net k)"
proof -
  have "created (core_net k) Radio_RX_Event" using core_okD(3) [OF assms] by (simp add: all_created_def)
  moreover have "taken k Radio_RX_Event \<le> count_list (posted (core_net k)) Radio_RX_Event" by (rule core_okD(8) [OF assms])
  ultimately show ?thesis
    by (simp add: UNET_radio_isr_handler_def Let_def post_def available_def with_net_def)
qed

definition up_packet :: packet where
  "up_packet = ieee802154_header_set DATA_FRAME ACK_REQ_TRUE sample_node
     (sample_packet\<lparr>bytes := (bytes sample_packet)[12 := UNICAST_UP]\<rparr>)"

lemma up_packet_addressed: "\<exists>source dest. addressed source dest UNICAST_UP up_packet"
proof -
  let ?p = "sample_packet\<lparr>bytes := (bytes sample_packet)[12 := UNICAST_UP]\<rparr>"
  have "packet_ok ?p" "byte ?p LLC_PROTO = UNET_LLC_PROTO_NUMBER" "byte ?p UNET_PKT_TYPE = UNICAST_UP"
    "packet_info_get PKTINFO_SIZE ?p = 30"
    using sample_packet_ok by (simp_all add: packet_ok_def sample_packet_def packet_info_get_def)
  with addressed_header_set [of ?p sample_node] show ?thesis by (auto simp: up_packet_def)
qed

lemma busy_core_reached:
  obtains k where "core_reach ROUTER sample_config [0] k" and "state (packet_up (core_net k)) \<noteq> PACKET_IDLE"
proof -
  obtain k0 where k0: "core_reach ROUTER sample_config [0] k0" "state (packet_up (core_net k0)) = PACKET_IDLE"
    by (rule cold_core_starts)
  obtain k1 where k1: "core_turn ROUTER sample_config (Radio_Interrupt 32) k0 = Some k1" "available Radio_RX_Event k1"
    "packet_up (core_net k1) = packet_up (core_net k0)" using radio_interrupt_rx [OF reach_ok [OF k0(1)]] by blast
  have r1: "core_reach ROUTER sample_config [0] k1" by (rule core_stepped [OF k0(1) _ k1(1)]) simp
  let ?f = "\<lparr>rx_frame = sent_frame up_packet, rx_rssi = 9, rx_lqi = 9, rx_crc = True\<rparr>"
  obtain source dest where a: "addressed source dest UNICAST_UP up_packet" using up_packet_addressed by blast
  obtain k2 where k2: "UNET_Radio_turn ROUTER ?f (replicate 128 0) k1 = Some k2" "state (packet_up (core_net k2)) \<noteq> PACKET_IDLE"
    by (rule up_packet_taken [OF reach_ok [OF r1] a, of ?f "replicate 128 0" ROUTER]) (use k1 k0(2) in auto)
  have "length (sent_frame up_packet) \<le> 126" using a by (simp add: addressed_def sent_frame_def min_le_iff_disj)
  then have "2 + length (rx_frame ?f) \<le> 128" by simp
  then have "core_reach ROUTER sample_config [0] k2"
    by (intro core_stepped [OF r1, of "Radio_Frame ?f (replicate 128 0)"]) (use k1(2) k2(1) in simp_all)
  then show thesis using k2(2) by (rule that)
qed



lemma core_well_formed_witness:
  "\<exists>k. core_reach ROUTER sample_config [0] k \<and> core_ok [0] k"
proof -
  obtain k where k: "core_reach ROUTER sample_config [0] k" by (rule cold_core_starts)
  from core_well_formed [OF k] k show ?thesis by blast
qed



text \<open>Every attempt is refused by the driver.\<close>

lemma refused: "fst (unet_packet_output c (\<lambda>_. Driver_refuses) NWK_TX_RETRIES n) = PACKET_SEND_ERR"
proof -
  have "fst (tx_loop c (\<lambda>_. Driver_refuses) 0 m n) = PACKET_SEND_ERR" for m by (cases m) simp_all
  from this [of "unat NWK_TX_RETRIES"] show ?thesis by (auto simp: unet_packet_output_def split: prod.splits)
qed


section \<open>Two nodes\<close>

text \<open>A node whose only neighbour, its parent, has the address \<open>a\<close>, with a packet to route down.\<close>

definition child_net :: "u16 \<Rightarrow> net" where
  "child_net a = sample_net\<lparr>packet_down := sample_packet\<lparr>bytes := (bytes sample_packet)[12 := UNICAST_DOWN]\<rparr>,
     unet_neighbourhood := (replicate 8 no_neighbour)[0 := no_neighbour\<lparr>Addr_16b := a\<rparr>],
     node_data := sample_node\<lparr>node_param := (node_param sample_node)[6 := 0]\<rparr>\<rparr>"

lemma child_net_routes:
  obtains n1 where "net_ok (child_net a)" and "unet_router_down (child_net a) = Some (True, n1)"
    and "packet_get_dest_addr16 (packet_down n1) = a" and "packet_ok (packet_down n1)"
proof -
  have "addresses_distinct ((replicate 8 no_neighbour)[0 := no_neighbour\<lparr>Addr_16b := a\<rparr>])"
    by (auto simp: addresses_distinct_def nth_upd no_neighbour_def)
  moreover have "parent_index_ok (sample_node\<lparr>node_param := (node_param sample_node)[6 := 0]\<rparr>)"
    "node_ok (sample_node\<lparr>node_param := (node_param sample_node)[6 := 0]\<rparr>)"
    by (simp_all add: parent_index_ok_def sample_node_def node_data_get_def node_ok_def)
  moreover have "packet_ok (sample_packet\<lparr>bytes := (bytes sample_packet)[12 := UNICAST_DOWN]\<rparr>)"
    using sample_packet_ok by (simp add: packet_ok_def)
  ultimately have ok: "net_ok (child_net a)" using sample_net_ok by (simp add: net_ok_def child_net_def)
  have "byte (packet_down (child_net a)) UNET_HOP_LIMIT \<noteq> 0" "param NODE_PARENTINDEX (child_net a) = 0"
    "Addr_16b (nb (child_net a) 0) = a"
    by (simp_all add: child_net_def sample_packet_def param_def node_data_get_def sample_node_def)
  with router_down_hop [OF ok] obtain n1 where n1: "unet_router_down (child_net a) = Some (True, n1)" "net_ok n1"
    "hopped a (packet_down (child_net a)) (packet_down n1)" by auto
  then have "packet_get_dest_addr16 (packet_down n1) = a" by (simp add: hopped_def)
  then show thesis using that [OF ok n1(1)] net_okD(7) [OF n1(2)] by blast
qed

text \<open>A node of which only the interrupt of the radio is known.\<close>

definition interrupted :: "core \<Rightarrow> core" where
  "interrupted k = with_net ((core_net k)\<lparr>posted := posted (core_net k) @ [Radio_RX_Event]\<rparr>) k"

lemma interrupted_ok:
  assumes "core_ok xs k"
  shows "core_ok xs (interrupted k)" and "available Radio_RX_Event (interrupted k)"
    and "packet_down (core_net (interrupted k)) = packet_down (core_net k)"
proof -
  show "core_ok xs (interrupted k)"
    unfolding interrupted_def using core_okD(2) [OF assms]
    by (intro core_ok_net [OF assms, of _ "{Radio_RX_Event}"]) (simp_all add: posts_in_def)
  show "available Radio_RX_Event (interrupted k)"
    using core_okD(8) [OF assms, of Radio_RX_Event] by (simp add: interrupted_def available_def with_net_def)
qed (simp add: interrupted_def)

lemma down_hop_acknowledged_witness:
  "\<exists>(n1 :: net) (k :: core) j f memory j1. packet_down (core_net k) = (packet_down n1)\<lparr>state := PACKET_WAITING_ACK\<rparr> \<and>
     rx_frame f = sent_frame (packet_down (core_net k)) \<and>
     UNET_Radio_turn ROUTER f memory j = Some j1 \<and> available Router_Down_Ack_Request j1"
proof -
  obtain k0 where k0: "core_ok [0] k0" "state (packet_down (core_net k0)) = PACKET_IDLE"
    by (rule UNET_start_ok [OF cold_core_before, of sample_config])
  define j where "j = (interrupted k0)\<lparr>ack_down := sample_packet\<rparr>"
  have "core_ok [0] j" "available Radio_RX_Event j" "state (packet_down (core_net j)) = PACKET_IDLE" "packet_ok (ack_down j)"
    using interrupted_ok [OF k0(1)] k0(2) sample_packet_ok by (simp_all add: j_def core_ok_def available_def)
  note j = this(1,2,3,4)
  let ?a = "node_data_get_16b NODE_ADDR16 (node_data (core_net j))"
  obtain n1 where n1: "net_ok (child_net ?a)" "unet_router_down (child_net ?a) = Some (True, n1)"
    "packet_get_dest_addr16 (packet_down n1) = ?a" "packet_ok (packet_down n1)" by (rule child_net_routes)
  define k where "k = interrupted (with_net ((core_net k0)\<lparr>packet_down := (packet_down n1)\<lparr>state := PACKET_WAITING_ACK\<rparr>\<rparr>) k0)"
  have ok: "core_ok [0] (with_net ((core_net k0)\<lparr>packet_down := (packet_down n1)\<lparr>state := PACKET_WAITING_ACK\<rparr>\<rparr>) k0)"
    using n1(4) core_okD(2) [OF k0(1)] by (intro core_ok_net [OF k0(1), of _ "{}"]) (simp_all add: net_ok_packet_down posts_same)
  have k: "core_ok [0] k" "available Radio_RX_Event k" "packet_down (core_net k) = (packet_down n1)\<lparr>state := PACKET_WAITING_ACK\<rparr>"
    using interrupted_ok [OF ok] by (simp_all add: k_def)
  let ?f = "\<lparr>rx_frame = sent_frame (packet_down (core_net k)), rx_rssi = 9, rx_lqi = 9, rx_crc = True\<rparr>"
  have p: "byte (packet_down (child_net ?a)) LLC_PROTO = UNET_LLC_PROTO_NUMBER" "byte (packet_down (child_net ?a)) UNET_PKT_TYPE = UNICAST_DOWN"
    "30 \<le> unat (packet_info_get PKTINFO_SIZE (packet_down (child_net ?a)))"
    "unat (packet_info_get PKTINFO_SIZE (packet_down (child_net ?a))) \<le> 126"
    by (simp_all add: child_net_def sample_packet_def packet_info_get_def)
  from down_hop_acknowledged [OF n1(1,2) p k(1,3,2) j n1(3) [symmetric], of ?f "replicate 128 0"]
  obtain j1 where "UNET_Radio_turn ROUTER ?f (replicate 128 0) j = Some j1" "available Router_Down_Ack_Request j1" by auto
  then show ?thesis using k(3) by (intro exI [of _ n1] exI [of _ k] exI [of _ j] exI [of _ ?f] exI [of _ "replicate 128 0"] exI [of _ j1]) simp
qed

end
