(* ===== verification/Core_Path.thy ===== *)
theory Core_Path
  imports Core_Handshake
begin

text \<open>
  The whole way of a packet down: the nodes between its origin and the coordinator take it over and
  pass it on one after the other, the coordinator hands it to the endpoint that listens, and every node
  on the way has learned the way back.
\<close>

section \<open>What the tasks of one node do to the packet\<close>

text \<open>Two states of a node that differ in the statistics only.\<close>

definition stat_only :: "net \<Rightarrow> net \<Rightarrow> bool" where
  "stat_only n n' \<longleftrightarrow> (\<exists>z. n' = n\<lparr>UNET_NodeStat := z\<rparr>)"

lemma stat_only_refl [simp]: "stat_only n n"
  unfolding stat_only_def by (rule exI [of _ "UNET_NodeStat n"]) simp

lemma stat_only_trans [trans]: "stat_only n m \<Longrightarrow> stat_only m p \<Longrightarrow> stat_only n p"
  unfolding stat_only_def by fastforce

lemma stat_only_NODESTAT [simp]: "stat_only n (NODESTAT_UPDATE x n)"
  by (auto simp: NODESTAT_UPDATE_def Let_def stat_only_def intro: exI [of _ "UNET_NodeStat n"])

text \<open>A transmission during which the radio answers is of this kind.\<close>

lemma quiet_tx_loop:
  "(\<And>i. env i \<noteq> Interrupt_timeout) \<Longrightarrow> tx_loop c env k n s = (res, left, s') \<Longrightarrow> stat_only s s'"
proof (induction n arbitrary: k s)
  case (Suc n)
  have again: "stat_only s s'" if "stat_only s s1" "tx_loop c env (Suc k) n s1 = (res, left, s')" for s1
    using stat_only_trans [OF that(1) Suc.IH [OF Suc.prems(1) that(2)]] .
  have "stat_only s (NODESTAT_UPDATE radionack (NODESTAT_UPDATE txed s))"
    by (rule stat_only_trans [OF stat_only_NODESTAT stat_only_NODESTAT])
  then show ?case using Suc.prems again again [OF stat_only_refl] by (cases "env k") auto
qed simp

lemma quiet_output:
  assumes "\<And>i. env i \<noteq> Interrupt_timeout" and "unet_packet_output c env r n = (res, n1)"
  shows "stat_only n n1"
proof -
  obtain res' left n2 where t: "tx_loop c env 0 (unat r) n = (res', left, n2)"
    by (cases "tx_loop c env 0 (unat r) n") auto
  then have "n1 = n2 \<or> n1 = NODESTAT_UPDATE txmaxretries n2"
    using assms(2) by (auto simp: unet_packet_output_def split: if_splits)
  then show ?thesis using quiet_tx_loop [OF assms(1) t] stat_only_trans stat_only_NODESTAT by blast
qed

lemma stat_only_sel:
  assumes "stat_only n n'"
  shows "node_data n' = node_data n" "packet_down n' = packet_down n" "packet_up n' = packet_up n"
    "unet_neighbourhood n' = unet_neighbourhood n" "unet_routing_table_up n' = unet_routing_table_up n"
    "created n' = created n" "posted n' = posted n" "net_ok n' = net_ok n"
  using assms by (auto simp: stat_only_def net_ok_def)

section \<open>Routing\<close>

abbreviation addr16 :: "net \<Rightarrow> u16" where "addr16 n \<equiv> node_data_get_16b NODE_ADDR16 (node_data n)"

definition next_seqnum :: "net \<Rightarrow> u8" where
  "next_seqnum n = fst (node_seq_num_get_next (node_data n))"

text \<open>What stays of a node while it handles a packet: its address, its parent and its routes.\<close>

definition same_place :: "net \<Rightarrow> net \<Rightarrow> bool" where
  "same_place n n' \<longleftrightarrow> addr16 n' = addr16 n \<and> link_get_parent_addr16 n' = link_get_parent_addr16 n \<and>
     unet_routing_table_up n' = unet_routing_table_up n"

lemma same_place_trans [trans]: "same_place n m \<Longrightarrow> same_place m p \<Longrightarrow> same_place n p"
  by (simp add: same_place_def)

lemma parent_cong:
  "node_data n' = node_data n \<Longrightarrow> unet_neighbourhood n' = unet_neighbourhood n \<Longrightarrow>
     link_get_parent_addr16 n' = link_get_parent_addr16 n"
  by (simp add: link_get_parent_addr16_def param_def Let_def)

lemma same_place_cong:
  "node_data n' = node_data n \<Longrightarrow> unet_neighbourhood n' = unet_neighbourhood n \<Longrightarrow>
     unet_routing_table_up n' = unet_routing_table_up n \<Longrightarrow> same_place n n'"
  by (simp add: same_place_def link_get_parent_addr16_def param_def Let_def)

lemma same_place_seqnum: "same_place n (link_set_neighbor_seqnum p n)"
proof -
  have "Addr_16b (nb (link_set_neighbor_seqnum p n) i) = Addr_16b (nb n i)" for i
  proof -
    have "Addr_16b (nb (set_neighbour k (\<lambda>x. x\<lparr>NeighborLastID := v\<rparr>) n) i) = Addr_16b (nb n i)" for k v
      using nth_update_same [of Addr_16b "\<lambda>x. x\<lparr>NeighborLastID := v\<rparr>" "unet_neighbourhood n" k i] by (simp add: set_neighbour_def)
    then show ?thesis by (simp add: link_set_neighbor_seqnum_def Let_def)
  qed
  moreover have "unet_routing_table_up (link_set_neighbor_seqnum p n) = unet_routing_table_up n"
    by (simp add: link_set_neighbor_seqnum_def Let_def set_neighbour_def)
  ultimately show ?thesis by (simp add: same_place_def link_get_parent_addr16_def param_def Let_def)
qed

lemma parent_not_lost:
  assumes "link_get_parent_addr16 n = Some a"
  shows "param NODE_PARENTINDEX n \<noteq> NO_PARENT" and "Addr_16b (nb n (unat (param NODE_PARENTINDEX n))) = a"
  using assms by (auto simp: link_get_parent_addr16_def Let_def split: if_splits)

text \<open>The packet that the router leaves in the buffer, and what it changes besides.\<close>

lemma router_down_details:
  assumes "net_ok n0" and "unet_router_down n0 = Some (True, n1)"
  shows "packet_info_get PKTINFO_SIZE (packet_down n1) = packet_info_get PKTINFO_SIZE (packet_down n0)"
    and "packet_info_get PKTINFO_SEQNUM (packet_down n1) = next_seqnum n0" and "same_place n0 n1"
    and "created n1 = created n0" and "posted n1 = posted n0" and "state (packet_down n1) = PACKET_IN_ROUTE"
proof -
  let ?p = "packet_down n0"
  let ?p1 = "put UNET_HOP_LIMIT (byte ?p UNET_HOP_LIMIT - 1) ?p"
  let ?p2 = "put_info PKTINFO_SEQNUM (next_seqnum n0) ?p1"
  define s1 where "s1 = n0\<lparr>node_data := snd (node_seq_num_get_next (node_data n0))\<rparr>"
  have st: "stamp_seqnum n0 ?p1 = (s1, ?p2)" by (simp add: stamp_seqnum_eq s1_def next_seqnum_def)
  obtain hop where n1: "n1 = s1\<lparr>packet_down := ieee802154_header_set DATA_FRAME ACK_REQ_TRUE (node_data s1)
      (set_dest16 hop (?p2\<lparr>state := PACKET_IN_ROUTE\<rparr>))\<rparr>"
    using assms(2) st by (auto simp: unet_router_down_def Let_def bind_eq_Some_conv split: if_splits)
  have ok: "packet_ok ?p" using net_okD(7) [OF assms(1)] .
  have l: "length (info ?p) = 12" using ok by (simp add: packet_ok_def)
  have i: "packet_info_get opt (packet_down n1) = packet_info_get opt ?p2" if "opt \<noteq> PKTINFO_DEST16H" "opt \<noteq> PKTINFO_DEST16L" for opt
  proof -
    have "packet_info_get opt (packet_down n1) = packet_info_get opt (set_dest16 hop (?p2\<lparr>state := PACKET_IN_ROUTE\<rparr>))"
      by (simp add: n1 packet_info_get_def)
    also have "\<dots> = packet_info_get opt ?p2"
      using that ok by (simp add: info_set_dest16 info_of_others)
    finally show ?thesis .
  qed
  show "packet_info_get PKTINFO_SIZE (packet_down n1) = packet_info_get PKTINFO_SIZE ?p"
    "packet_info_get PKTINFO_SEQNUM (packet_down n1) = next_seqnum n0"
    using i l by (simp_all add: info_put info_of_others)
  show "same_place n0 n1" "created n1 = created n0" "posted n1 = posted n0"
    by (simp_all add: n1 s1_def same_place_def link_get_parent_addr16_def param_def seq_next_node node_data_get_16b_def Let_def)
  show "state (packet_down n1) = PACKET_IN_ROUTE" by (simp add: n1)
qed

text \<open>The acknowledging task hands a packet that is for another node to the router.\<close>

lemma dispatch_routes:
  assumes "stack_ok xs st" and "packet_info_get PKTINFO_DUPLICATED (packet_down (the_net st)) \<noteq> 1"
    and "addr64_at UNET_DEST_64 (packet_down (the_net st)) \<noteq> node_addr64_get (node_data (the_net st))"
    and "byte (packet_down (the_net st)) UNET_HOP_LIMIT \<noteq> 0" and "link_get_parent_addr16 (the_net st) = Some hop"
    and "byte (packet_down (the_net st)) LLC_PROTO = UNET_LLC_PROTO_NUMBER"
    and "byte (packet_down (the_net st)) UNET_PKT_TYPE = type"
    and "30 \<le> unat (packet_info_get PKTINFO_SIZE (packet_down (the_net st)))"
    and "unat (packet_info_get PKTINFO_SIZE (packet_down (the_net st))) \<le> 126"
  obtains n3 where "down_ack_dispatch st = Some (st\<lparr>the_net := n3\<rparr>)"
    and "addressed (addr16 n3) hop type (packet_down n3)" and "hopped hop (packet_down (the_net st)) (packet_down n3)"
    and "packet_info_get PKTINFO_SIZE (packet_down n3) = packet_info_get PKTINFO_SIZE (packet_down (the_net st))"
    and "packet_info_get PKTINFO_SEQNUM (packet_down n3) = next_seqnum (the_net st)"
    and "same_place (the_net st) n3" and "state (packet_down n3) = PACKET_IN_ROUTE"
    and "posted n3 = posted (the_net st) @ [Router_Down_Route_Request]"
proof -
  let ?n = "the_net st"
  define m where "m = link_set_neighbor_seqnum (packet_down ?n) ?n"
  have n: "net_ok ?n" "all_created ?n" using assms(1) by (simp_all add: stack_ok_def)
  have m: "net_ok m" "created m = created ?n" "posted m = posted ?n" "packet_down m = packet_down ?n" "node_data m = node_data ?n"
    "same_place ?n m"
    using n(1) by (simp_all add: m_def net_ok_set_seqnum same_place_seqnum)
  have parent: "link_get_parent_addr16 m = Some hop" using m(6) assms(5) by (simp add: same_place_def)
  obtain n2 where r: "unet_router_down m = Some (True, n2)" "hopped hop (packet_down ?n) (packet_down n2)"
    using router_down_hop [OF m(1)] parent_not_lost [OF parent] assms(4) m(4) by auto
  note d = router_down_details [OF m(1) r(1)]
  have "all_created n2" using d(4) m(2) n(2) by (simp add: all_created_def)
  then have e: "down_ack_dispatch st = Some (st\<lparr>the_net := n2\<lparr>posted := posted n2 @ [Router_Down_Route_Request]\<rparr>\<rparr>)"
    using assms(2,3) m(4,5) r(1) unfolding down_ack_dispatch_def Let_def m_def [symmetric] by (simp add: post_all)
  have dest: "packet_get_dest_addr16 (packet_down n2) = hop" using r(2) by (simp add: hopped_def)
  have "addressed (addr16 n2) hop type (packet_down n2)"
    using router_down_addressed [OF m(1) r(1)] assms(6-9) m(4) dest by simp
  moreover have "same_place ?n (n2\<lparr>posted := posted n2 @ [Router_Down_Route_Request]\<rparr>)"
    by (rule same_place_trans [OF same_place_trans [OF m(6) d(3)] same_place_cong]) simp_all
  ultimately show thesis
    by (intro that [OF e]) (use r(2) d(1,2,5,6) m(3-5) in \<open>simp_all add: next_seqnum_def\<close>)
qed

text \<open>
  At its destination the packet is handed to the first endpoint that listens on its port; what is
  in the buffer stays there when it is released.
\<close>

lemma copy_payload_release: "copy_payload e (release b st) = copy_payload e st"
proof (rule copy_payload_cong)
  show "bytes (the_buffer b' (release b st)) = bytes (the_buffer b' st)" for b'
    by (cases b; cases b') (simp_all add: release_def set_buffer_def the_buffer_def packet_release_down_def packet_release_up_def)
qed (simp add: release_def set_buffer_def)

lemma dispatch_delivers:
  assumes "stack_ok xs st" and "packet_info_get PKTINFO_DUPLICATED (packet_down (the_net st)) \<noteq> 1"
    and "addr64_at UNET_DEST_64 (packet_down (the_net st)) = node_addr64_get (node_data (the_net st))"
    and "byte (packet_down (the_net st)) UNET_NEXT_HEADER = NEXT_HEADER_UNET_APP"
    and "carries (packet_down (the_net st)) src dst len buffer" and "35 + unat len \<le> 128"
    and "listener dst xs st = Some e" and "App_Callback st = None"
  obtains st' where "down_ack_dispatch st = Some st'" and "copy_payload e st' = Some (take (unat len) buffer)"
    and "sender_port (endpoint e st') = src"
    and "sender_address (endpoint e st') = addr64_at UNET_SRC_64 (packet_down (the_net st))"
    and "kernel st' = snd (OSSemPost (the (wake_up_sem (endpoint e st))) (kernel st))"
    and "same_place (the_net st) (the_net st')" and "state (packet_down (the_net st')) = PACKET_IDLE"
proof -
  let ?n = "the_net st"
  define m where "m = set_down_state PACKET_DELIVERED (link_set_neighbor_seqnum (packet_down ?n) ?n)"
  define s where "s = st\<lparr>the_net := m\<rparr>"
  have buf: "the_buffer Down_Buffer s = (packet_down ?n)\<lparr>state := PACKET_DELIVERED\<rparr>"
    by (simp add: s_def m_def the_buffer_def set_down_state_def)
  have place: "same_place ?n m"
    by (rule same_place_trans [OF same_place_seqnum [of ?n "packet_down ?n"] same_place_cong]) (simp_all add: m_def set_down_state_def)
  have l: "tp_list s xs" using assms(1) by (simp add: s_def stack_ok_def tp_list_net)
  have lis: "listener dst xs s = Some e" using assms(7) by (simp add: listener_def s_def)
  have "e \<in> set xs" using assms(7) by (auto simp: listener_def find_Some_iff)
  then have "e < length (endpoints st)" using tp_listD(2) [OF l] by (simp add: s_def)
  then obtain i where i: "wake_up_sem (endpoint e st) = Some i" using assms(1) by (auto simp: stack_ok_def)
  have app: "byte (the_buffer Down_Buffer s) UNET_NEXT_HEADER = NEXT_HEADER_UNET_APP" "carries (the_buffer Down_Buffer s) src dst len buffer"
    using assms(4,5) by (simp_all add: buf carries_def)
  have os: "wake_up_sem (endpoint e s) = Some i" "App_Callback s = None" "kernel s = kernel st"
    using assms(8) i by (simp_all add: s_def)
  obtain st1 where st1: "deliver Down_Buffer s = Some st1" "copy_payload e st1 = Some (take (unat len) buffer)"
    "sender_port (endpoint e st1) = src" "sender_address (endpoint e st1) = addr64_at UNET_SRC_64 (the_buffer Down_Buffer s)"
    "kernel st1 = snd (OSSemPost i (kernel s))" "the_net st1 = NODESTAT_UPDATE netapprx (the_net s)"
    by (rule deliver_payload [OF l app assms(6) lis os(1,2)]) (rule that)
  have d: "down_ack_dispatch st = Some (release Down_Buffer st1)"
    using assms(2,3) st1(1) by (simp add: down_ack_dispatch_def Let_def s_def m_def)
  have "same_place ?n (the_net (release Down_Buffer st1))"
    by (rule same_place_trans [OF place same_place_cong]) (simp_all add: release_def set_buffer_def st1(6) s_def)
  moreover have "copy_payload e (release Down_Buffer st1) = copy_payload e st1"
    by (rule copy_payload_release)
  moreover have "endpoint e (release Down_Buffer st1) = endpoint e st1" "kernel (release Down_Buffer st1) = kernel st1"
    "state (packet_down (the_net (release Down_Buffer st1))) = PACKET_IDLE"
    by (simp_all add: release_def set_buffer_def packet_release_down_def)
  ultimately show thesis
    by (intro that [OF d]) (use st1(2-5) i os(3) in \<open>simp_all add: buf addr64_at_def\<close>)
qed

section \<open>One node on the way\<close>

text \<open>Events one after the other, each of which can happen where it does.\<close>

fun run_events :: "device \<Rightarrow> config \<Rightarrow> core_event list \<Rightarrow> core \<Rightarrow> core option" where
  "run_events dev c [] k = Some k"
| "run_events dev c (ev # evs) k =
     (if enabled ev k then do { k1 \<leftarrow> core_turn dev c ev k; run_events dev c evs k1 } else None)"

lemma run_events_append: "run_events dev c (xs @ ys) k = do { k1 \<leftarrow> run_events dev c xs k; run_events dev c ys k1 }"
  by (induction xs arbitrary: k) (simp_all split: bind_split)

lemma run_events_ok: "core_ok xs k \<Longrightarrow> run_events dev c evs k = Some k' \<Longrightarrow> core_ok xs k'"
proof (induction evs arbitrary: k)
  case (Cons ev evs)
  then obtain k1 where k1: "enabled ev k" "core_turn dev c ev k = Some k1" "run_events dev c evs k1 = Some k'"
    by (auto simp: bind_eq_Some_conv split: if_splits)
  have "core_ok xs k1" using turn_ok [OF Cons.prems(1) k1(1), of c dev] k1(2) by (auto split: if_splits)
  then show ?case using Cons.IH k1(3) by blast
qed simp

lemma run_events_reach: "core_reach dev c xs k \<Longrightarrow> run_events dev c evs k = Some k' \<Longrightarrow> core_reach dev c xs k'"
proof (induction evs arbitrary: k)
  case (Cons ev evs)
  then obtain k1 where k1: "enabled ev k" "core_turn dev c ev k = Some k1" "run_events dev c evs k1 = Some k'"
    by (auto simp: bind_eq_Some_conv split: if_splits)
  then show ?case using Cons.IH core_stepped [OF Cons.prems(1)] by blast
qed simp

text \<open>
  What surrounds a hop: the strength and quality of the frame that is heard, what the receive buffer
  held before, and how the radio answers the transmissions of the acknowledgement and of the packet.
\<close>

record air =
  air_rssi :: u8
  air_lqi :: u8
  air_memory :: "u8 list"
  air_ack :: "nat \<Rightarrow> attempt"
  air_send :: "nat \<Rightarrow> attempt"

definition quiet_air :: "air \<Rightarrow> bool" where
  "quiet_air a \<longleftrightarrow> length (air_memory a) = MAX_PACKET_SIZE \<and>
     (\<forall>i. air_ack a i \<noteq> Interrupt_timeout \<and> air_send a i \<noteq> Interrupt_timeout)"

definition heard_frame :: "air \<Rightarrow> packet \<Rightarrow> reception" where
  "heard_frame a p = \<lparr>rx_frame = sent_frame p, rx_rssi = air_rssi a, rx_lqi = air_lqi a, rx_crc = True\<rparr>"

text \<open>A node hears the packet and acknowledges it; then it passes it on.\<close>

definition take_over :: "air \<Rightarrow> packet \<Rightarrow> core_event list" where
  "take_over a p = [Radio_Frame (heard_frame a p) (air_memory a), Down_Ack_Begin, Down_Ack_End (air_ack a)]"

definition pass_on :: "air \<Rightarrow> core_event list" where
  "pass_on a = [Down_Go True, Down_Send (air_send a)]"

text \<open>A node that has nothing else to do with packets down.\<close>

definition relay_ready :: "nat list \<Rightarrow> core \<Rightarrow> bool" where
  "relay_ready xs k \<longleftrightarrow> core_ok xs k \<and> available Radio_RX_Event k \<and> state (packet_down (core_net k)) = PACKET_IDLE \<and>
     down_ack_at k = Ack_Idle \<and> down_at k = Down_Request"

text \<open>Taking over: what the acknowledging task finds when it decides about the packet.\<close>

lemma taken_over:
  assumes "relay_ready xs j" and "addressed source dest UNICAST_DOWN p" and "quiet_air a"
    and "\<not> link_packet_is_duplicated source (packet_info_get PKTINFO_SEQNUM p) (core_net j)"
  obtains j2 st where "\<And>st'. down_ack_dispatch st = Some st' \<Longrightarrow> run_events dev c (take_over a p) j = Some (j2\<lparr>core_stack := st'\<rparr>)"
    and "\<And>st'. down_ack_dispatch st = Some st' \<Longrightarrow> core_ok xs (j2\<lparr>core_stack := st'\<rparr>)"
    and "stack_ok xs st" and "packet_info_get PKTINFO_DUPLICATED (packet_down (the_net st)) \<noteq> 1"
    and "\<And>i. 2 \<le> i \<Longrightarrow> i < 2 + unat (packet_info_get PKTINFO_SIZE p) \<Longrightarrow> byte (packet_down (the_net st)) i = byte p i"
    and "packet_ok (packet_down (the_net st))"
    and "packet_info_get PKTINFO_SIZE (packet_down (the_net st)) = packet_info_get PKTINFO_SIZE p"
    and "node_data (the_net st) = node_data (core_net j)"
    and "link_get_parent_addr16 (the_net st) = link_get_parent_addr16 (core_net j)"
    and "route_lookup (addr64_at UNET_SRC_64 p) (the_net st) = Some source"
    and "endpoints st = endpoints (core_stack j)" and "App_Callback st = App_Callback (core_stack j)"
    and "kernel st = kernel (core_stack j)" and "down_at j2 = Down_Request"
    and "taken j2 Router_Down_Route_Request = taken j Router_Down_Route_Request"
    and "count_list (posted (the_net st)) Router_Down_Route_Request = count_list (posted (core_net j)) Router_Down_Route_Request"
proof -
  note j = assms(1) [unfolded relay_ready_def]
  have ok: "core_ok xs j" using j by blast
  let ?f = "heard_frame a p"
  have f: "rx_frame ?f = sent_frame p" "rx_crc ?f" "length (air_memory a) = 128"
    using assms(3) by (simp_all add: heard_frame_def quiet_air_def)
  have po: "packet_ok p" "unat (packet_info_get PKTINFO_SIZE p) \<le> 126" using assms(2) by (simp_all add: addressed_def)
  have rx: "available Radio_RX_Event j" "state (packet_down (core_net j)) = PACKET_IDLE" using j by blast+
  obtain j1 where j1: "UNET_Radio_turn dev ?f (air_memory a) j = Some j1"
    "\<And>i. 2 \<le> i \<Longrightarrow> i < 2 + unat (packet_info_get PKTINFO_SIZE p) \<Longrightarrow> byte (packet_down (core_net j1)) i = byte p i"
    "packet_ok (packet_down (core_net j1))" "state (packet_down (core_net j1)) = PACKET_SENDING_ACK"
    "posted (core_net j1) = posted (core_net j) @ [Router_Down_Ack_Request]" "node_data (core_net j1) = node_data (core_net j)"
    "taken j1 = taken (take_token Radio_RX_Event j)"
    "core_stack j1 = (core_stack j)\<lparr>the_net := core_net j1\<rparr>" "down_ack_at j1 = down_ack_at j" "down_at j1 = down_at j"
    "link_get_parent_addr16 (core_net j1) = link_get_parent_addr16 (core_net j)"
    "unet_routing_table_up (core_net j1) = unet_routing_table_up (unet_router_up_table_entry_add source (addr64_at UNET_SRC_64 p) (core_net j))"
    "packet_info_get PKTINFO_SIZE (packet_down (core_net j1)) = packet_info_get PKTINFO_SIZE p"
    "\<not> link_packet_is_duplicated source (packet_info_get PKTINFO_SEQNUM p) (core_net j) \<Longrightarrow>
      packet_info_get PKTINFO_DUPLICATED (packet_down (core_net j1)) = 0"
    by (rule down_packet_taken [OF ok assms(2) f rx, where dev = dev]) (rule that)
  have len: "2 + length (rx_frame ?f) \<le> 128" using f(1) sent_frame_nth(1) [OF po] po(2) by simp
  have av: "available Router_Down_Ack_Request j1"
    using j1(5,7) core_okD(8) [OF ok, of Router_Down_Ack_Request] by (simp add: available_def take_token_def)
  define j2 where "j2 = UNET_Router_Down_Ack_begin j1"
  have two: "run_events dev c (take_over a p) j = run_events dev c [Down_Ack_End (air_ack a)] j2"
    using rx(1) len f(3) j1(1,9) j av by (simp add: take_over_def j2_def)
  have j2: "core_net j2 = core_net j1" "down_ack_at j2 = Ack_Sending" "core_stack j2 = core_stack j1" "down_at j2 = Down_Request"
    "taken j2 Router_Down_Route_Request = taken j Router_Down_Route_Request"
    using j1(7,10) j by (simp_all add: j2_def UNET_Router_Down_Ack_begin_def Let_def take_token_def)
  obtain res n1 where out: "unet_packet_output c (air_ack a) NWK_TX_RETRIES (core_net j2) = (res, n1)" by fastforce
  have quiet: "stat_only (core_net j2) n1" using assms(3) by (intro quiet_output [OF _ out]) (simp add: quiet_air_def)
  note q = stat_only_sel [OF quiet]
  define n where "n = set_down_state (down_ack_outcome res) n1"
  define st where "st = (core_stack j2)\<lparr>the_net := n\<rparr>"
  define j3 where "j3 = j2\<lparr>ack_down := (ack_down j2)\<lparr>state := down_ack_outcome res\<rparr>, down_ack_at := Ack_Idle\<rparr>"
  have run: "run_events dev c (take_over a p) j = Some (j3\<lparr>core_stack := st'\<rparr>)" if "down_ack_dispatch st = Some st'" for st'
    unfolding two using j2(2) out that by (simp add: UNET_Router_Down_Ack_end_def n_def [symmetric] st_def [symmetric] j3_def)
  have "core_ok xs j2"
    by (rule run_events_ok [OF ok, of dev c "[Radio_Frame ?f (air_memory a), Down_Ack_Begin]"])
      (use rx(1) len f(3) j1(1,9) j av in \<open>simp add: j2_def\<close>)
  from output_ok(2) [OF this out] have ok1: "stack_ok xs ((core_stack j2)\<lparr>the_net := n1\<rparr>)" .
  from stack_ok_net [OF this, of n] have st: "stack_ok xs st"
    using ok1 by (simp add: st_def n_def stack_ok_def)
  have net: "the_net st = n" by (simp add: st_def)
  have "route_lookup (addr64_at UNET_SRC_64 p) n = Some source"
    using route_lookup_add [OF core_okD(2) [OF ok]] j1(12) j2(1) q(5)
    by (subst route_lookup_cong [of n "unet_router_up_table_entry_add source (addr64_at UNET_SRC_64 p) (core_net j)"])
      (simp_all add: n_def set_down_state_def)
  moreover have "link_get_parent_addr16 n = link_get_parent_addr16 (core_net j)"
    unfolding j1(11) [symmetric] by (rule parent_cong) (use j2(1) q(1,4) in \<open>simp_all add: n_def set_down_state_def\<close>)
  moreover have "core_ok xs (j3\<lparr>core_stack := st'\<rparr>)" if "down_ack_dispatch st = Some st'" for st'
    by (rule run_events_ok [OF ok run [OF that]])
  moreover have "App_Callback st = App_Callback (core_stack j)" "endpoints st = endpoints (core_stack j)"
    "kernel st = kernel (core_stack j)"
    by (simp_all add: st_def j2(3)) (subst j1(8), simp)+
  ultimately show thesis
    using j1(2,3,5,6,13,14) j2 q assms(4)
    by (intro that [OF run _ st]) (simp_all add: net n_def set_down_state_def info_of_others j3_def)
qed

text \<open>Passing on: the task that routes down transmits the packet as the router left it.\<close>

lemma passed_on:
  assumes "core_ok xs k" and "down_at k = Down_Request" and "available Router_Down_Route_Request k"
    and "state (packet_down (core_net k)) = PACKET_IN_ROUTE" and "link_get_parent_addr16 (core_net k) = Some hop"
    and "packet_get_dest_addr16 (packet_down (core_net k)) = hop" and "quiet_air a"
  obtains k' where "run_events dev c (pass_on a) k = Some k'" and "core_ok xs k'"
    and "packet_down (core_net k') = (packet_down (core_net k))\<lparr>state := PACKET_WAITING_ACK\<rparr>"
    and "same_place (core_net k) (core_net k')" and "node_data (core_net k') = node_data (core_net k)"
proof -
  let ?k = "take_token Router_Down_Route_Request k"
  define k1 where "k1 = (with_net (set_down_state PACKET_WAITING_TX (core_net k)) ?k)
      \<lparr>timer_down_retry := reset_trickle (timer_down_retry k), down_at := Down_Sending 29\<rparr>"
  have "\<not> down_wants_advert dev True ?k" using assms(4) by (simp add: down_wants_advert_def)
  then have go: "UNET_Router_Down_request dev True k = Some k1"
    by (simp add: UNET_Router_Down_request_def Let_def down_loop_test_def k1_def word_less_nat_alt)
  have one: "run_events dev c [Down_Go True] k = Some k1" using go assms(2,3) by simp
  have ok1: "core_ok xs k1" by (rule run_events_ok [OF assms(1) one])
  obtain res n1 where out: "unet_packet_output c (air_send a) NWK_TX_RETRIES (core_net k1) = (res, n1)" by fastforce
  have quiet: "stat_only (core_net k1) n1" using assms(7) by (intro quiet_output [OF _ out]) (simp add: quiet_air_def)
  note q = stat_only_sel [OF quiet]
  have at1: "down_at k1 = Down_Sending 29" by (simp add: k1_def)
  have net1: "core_net k1 = set_down_state PACKET_WAITING_TX (core_net k)" by (simp add: k1_def)
  have parent: "link_get_parent_addr16 n1 = Some hop"
    unfolding assms(5) [symmetric] by (rule parent_cong) (simp_all add: q net1 set_down_state_def)
  have "packet_get_dest_addr16 (packet_down n1) = hop" using assms(6) by (simp add: q net1 set_down_state_def)
  then have "\<exists>r. down_transmit c (air_send a) 29 (core_net k1) = Some (r, n1)"
    using out parent by (cases res) (simp_all add: down_transmit_def)
  then obtain r where t: "down_transmit c (air_send a) 29 (core_net k1) = Some (r, n1)" by blast
  let ?n = "set_down_state PACKET_WAITING_ACK n1"
  obtain tm g where tm: "run_timer (timer_down_retry k1) (with_net ?n k1) = Some (tm, (with_net ?n k1)\<lparr>generator := g\<rparr>)"
    by (rule run_timer_ticking [OF core_okD(6) [OF ok1]])
  let ?k' = "(with_net ?n k1)\<lparr>generator := g, timer_down_retry := tm, down_at := Down_Ack r\<rparr>"
  have "UNET_Router_Down_send c (air_send a) 29 k1 = Some ?k'" using t tm by (simp add: UNET_Router_Down_send_def)
  then have run: "run_events dev c (pass_on a) k = Some ?k'"
    using go at1 assms(2,3) by (simp add: pass_on_def)
  have net: "core_net ?k' = ?n" by simp
  have "same_place (core_net k) ?n" by (rule same_place_cong) (simp_all add: q net1 set_down_state_def)
  then show thesis
    by (intro that [OF run run_events_ok [OF assms(1) run]]) (simp_all add: q net1 set_down_state_def)
qed

text \<open>What travels: the header above the MAC layer and the payload, but for the hop limit.\<close>

definition same_content :: "packet \<Rightarrow> packet \<Rightarrow> bool" where
  "same_content p q \<longleftrightarrow> packet_info_get PKTINFO_SIZE q = packet_info_get PKTINFO_SIZE p \<and>
     (\<forall>j. 11 \<le> j \<and> j < 2 + unat (packet_info_get PKTINFO_SIZE p) \<and> j \<noteq> UNET_HOP_LIMIT \<longrightarrow> byte q j = byte p j)"

lemma same_content_trans: "same_content p q \<Longrightarrow> same_content q r \<Longrightarrow> same_content p r"
  by (simp add: same_content_def)

lemma same_content_addr64:
  assumes "same_content p q" and "packet_ok p" and "packet_ok q" and "30 \<le> unat (packet_info_get PKTINFO_SIZE p)"
  shows "addr64_at UNET_SRC_64 q = addr64_at UNET_SRC_64 p" and "addr64_at UNET_DEST_64 q = addr64_at UNET_DEST_64 p"
  using assms by (auto simp: same_content_def intro!: addr64_at_cong)

lemma same_content_carries:
  assumes "same_content p q" and "packet_ok p" and "packet_ok q" and "33 + unat len \<le> unat (packet_info_get PKTINFO_SIZE p)"
    and "carries p src dst len buffer"
  shows "carries q src dst len buffer"
proof -
  have b: "byte q j = byte p j" if "32 \<le> j" "j < 35 + unat len" for j
    using assms(1,4) that by (simp add: same_content_def)
  have "take (unat len) (drop 35 (bytes q)) = take (unat len) (drop 35 (bytes p))"
    by (rule nth_equalityI) (use b assms(2,3) in \<open>auto simp: packet_ok_def\<close>)
  then show ?thesis using assms(5) b [of 32] b [of 33] b [of 34] by (simp add: carries_def)
qed

lemma addressed_state: "addressed source dest type (p\<lparr>state := st\<rparr>) = addressed source dest type p"
  by (simp add: addressed_def info_of_others frame_control_def)

lemma relay_hop:
  assumes "relay_ready xs k" and "quiet_air a" and "addressed source dest UNICAST_DOWN p"
    and "\<not> link_packet_is_duplicated source (packet_info_get PKTINFO_SEQNUM p) (core_net k)"
    and "link_get_parent_addr16 (core_net k) = Some hop"
    and "addr64_at UNET_DEST_64 p \<noteq> node_addr64_get (node_data (core_net k))" and "byte p UNET_HOP_LIMIT \<noteq> 0"
  obtains k' where "run_events dev c (take_over a p @ pass_on a) k = Some k'"
    and "addressed (addr16 (core_net k)) hop UNICAST_DOWN (packet_down (core_net k'))"
    and "same_content p (packet_down (core_net k'))"
    and "byte (packet_down (core_net k')) UNET_HOP_LIMIT = byte p UNET_HOP_LIMIT - 1"
    and "packet_info_get PKTINFO_SEQNUM (packet_down (core_net k')) = next_seqnum (core_net k)"
    and "route_lookup (addr64_at UNET_SRC_64 p) (core_net k') = Some source"
    and "addr16 (core_net k') = addr16 (core_net k)"
proof -
  obtain k2 st where t: "\<And>st'. down_ack_dispatch st = Some st' \<Longrightarrow> run_events dev c (take_over a p) k = Some (k2\<lparr>core_stack := st'\<rparr>)"
    "\<And>st'. down_ack_dispatch st = Some st' \<Longrightarrow> core_ok xs (k2\<lparr>core_stack := st'\<rparr>)"
    "stack_ok xs st" "packet_info_get PKTINFO_DUPLICATED (packet_down (the_net st)) \<noteq> 1"
    "\<And>i. 2 \<le> i \<Longrightarrow> i < 2 + unat (packet_info_get PKTINFO_SIZE p) \<Longrightarrow> byte (packet_down (the_net st)) i = byte p i"
    "packet_ok (packet_down (the_net st))" "packet_info_get PKTINFO_SIZE (packet_down (the_net st)) = packet_info_get PKTINFO_SIZE p"
    "node_data (the_net st) = node_data (core_net k)" "link_get_parent_addr16 (the_net st) = link_get_parent_addr16 (core_net k)"
    "route_lookup (addr64_at UNET_SRC_64 p) (the_net st) = Some source"
    "down_at k2 = Down_Request" "taken k2 Router_Down_Route_Request = taken k Router_Down_Route_Request"
    "count_list (posted (the_net st)) Router_Down_Route_Request = count_list (posted (core_net k)) Router_Down_Route_Request"
    by (rule taken_over [OF assms(1,3,2,4), where dev = dev and c = c]) (rule that)
  let ?r = "packet_down (the_net st)"
  note p = assms(3) [unfolded addressed_def]
  have ok: "core_ok xs k" using assms(1) by (simp add: relay_ready_def)
  have b: "byte ?r i = byte p i" if "2 \<le> i" "i < 32" for i using t(5) [of i] p that by simp
  have "addr64_at UNET_DEST_64 ?r = addr64_at UNET_DEST_64 p"
    by (rule addr64_at_cong) (use t(6) p b in simp_all)
  then have far: "addr64_at UNET_DEST_64 ?r \<noteq> node_addr64_get (node_data (the_net st))" using assms(6) t(8) by simp
  have h: "byte ?r UNET_HOP_LIMIT \<noteq> 0" "link_get_parent_addr16 (the_net st) = Some hop"
    "byte ?r LLC_PROTO = UNET_LLC_PROTO_NUMBER" "byte ?r UNET_PKT_TYPE = UNICAST_DOWN"
    "30 \<le> unat (packet_info_get PKTINFO_SIZE ?r)" "unat (packet_info_get PKTINFO_SIZE ?r) \<le> 126"
    using b [of 14] b [of 11] b [of 12] p t(7,9) assms(5,7) by simp_all
  obtain n3 where n3: "down_ack_dispatch st = Some (st\<lparr>the_net := n3\<rparr>)" "addressed (addr16 n3) hop UNICAST_DOWN (packet_down n3)"
    "hopped hop ?r (packet_down n3)" "packet_info_get PKTINFO_SIZE (packet_down n3) = packet_info_get PKTINFO_SIZE ?r"
    "packet_info_get PKTINFO_SEQNUM (packet_down n3) = next_seqnum (the_net st)"
    "same_place (the_net st) n3" "state (packet_down n3) = PACKET_IN_ROUTE"
    "posted n3 = posted (the_net st) @ [Router_Down_Route_Request]"
    by (rule dispatch_routes [OF t(3,4) far h]) (rule that)
  let ?k = "k2\<lparr>core_stack := st\<lparr>the_net := n3\<rparr>\<rparr>"
  have av: "available Router_Down_Route_Request ?k"
    using t(12,13) n3(8) core_okD(8) [OF ok, of Router_Down_Route_Request] by (simp add: available_def)
  have k: "core_ok xs ?k" "down_at ?k = Down_Request" "state (packet_down (core_net ?k)) = PACKET_IN_ROUTE"
    "link_get_parent_addr16 (core_net ?k) = Some hop" "packet_get_dest_addr16 (packet_down (core_net ?k)) = hop"
    using t(2) [OF n3(1)] t(11) n3(3,6,7) h(2) by (simp_all add: same_place_def hopped_def)
  obtain k' where k': "run_events dev c (pass_on a) ?k = Some k'"
    "packet_down (core_net k') = (packet_down (core_net ?k))\<lparr>state := PACKET_WAITING_ACK\<rparr>"
    "same_place (core_net ?k) (core_net k')"
    by (rule passed_on [OF k(1,2) av k(3-5) assms(2), where dev = dev and c = c]) (rule that)
  have "same_content p (packet_down n3)"
    using n3(3,4) t(5,7) by (simp add: same_content_def hopped_def)
  moreover have "run_events dev c (take_over a p @ pass_on a) k = Some k'"
    using t(1) [OF n3(1)] k'(1) by (simp add: run_events_append)
  moreover have "route_lookup (addr64_at UNET_SRC_64 p) (core_net k') = Some source"
    using t(10) n3(6) k'(3) route_lookup_cong [of "core_net k'" "the_net st"] by (simp add: same_place_def)
  moreover have "addr16 (core_net k') = addr16 (core_net k)"
    using k'(3) n3(6) t(8) by (simp add: same_place_def)
  ultimately show thesis
    using n3(2,3,5,6) b [of 14] t(8)
    by (intro that [of k'])
      (simp_all add: k'(2) addressed_state same_content_def info_of_others same_place_def hopped_def next_seqnum_def)
qed

section \<open>Along a path\<close>

text \<open>
  The nodes pass the packet on; the result is what the last of them sends, and all of them
  afterwards.  The address filter of the radio lets a node hear what is for it.
\<close>

fun relayed :: "config \<Rightarrow> packet \<Rightarrow> (air \<times> core) list \<Rightarrow> (packet \<times> core list) option" where
  "relayed c p [] = Some (p, [])"
| "relayed c p ((a, k) # hops) =
     (if packet_get_dest_addr16 p = addr16 (core_net k) then do {
        k1 \<leftarrow> run_events ROUTER c (take_over a p @ pass_on a) k;
        (q, ks) \<leftarrow> relayed c (packet_down (core_net k1)) hops;
        Some (q, k1 # ks)
      } else None)"

definition stations :: "(air \<times> core) list \<Rightarrow> u16 list" where
  "stations hops = map (\<lambda>h. addr16 (core_net (snd h))) hops"

text \<open>
  A path: every node's parent is the next one, the last one's is \<open>final\<close>, and no node confuses the
  packet, which comes from \<open>source\<close> with the number \<open>seq\<close> and is numbered anew by every
  node, with the last one it got from there.
\<close>

fun down_path :: "u16 \<Rightarrow> u8 \<Rightarrow> core list \<Rightarrow> core \<Rightarrow> bool" where
  "down_path source seq [] final = (\<not> link_packet_is_duplicated source seq (core_net final))"
| "down_path source seq (k # ks) final \<longleftrightarrow>
     \<not> link_packet_is_duplicated source seq (core_net k) \<and>
     link_get_parent_addr16 (core_net k) = Some (addr16 (core_net (hd (ks @ [final])))) \<and>
     down_path (addr16 (core_net k)) (next_seqnum (core_net k)) ks final"

text \<open>The nodes are ready for the packet, and it is not for any of them.\<close>

definition all_ready :: "u8 list \<Rightarrow> (air \<times> core) list \<Rightarrow> bool" where
  "all_ready d hops \<longleftrightarrow> (\<forall>(a, k) \<in> set hops. (\<exists>xs. relay_ready xs k) \<and> quiet_air a \<and> d \<noteq> node_addr64_get (node_data (core_net k)))"

lemma relayed_path:
  assumes "all_ready (addr64_at UNET_DEST_64 p) hops"
    and "addressed source (addr16 (core_net (hd (map snd hops @ [final])))) UNICAST_DOWN p"
    and "down_path source (packet_info_get PKTINFO_SEQNUM p) (map snd hops) final"
    and "length hops \<le> unat (byte p UNET_HOP_LIMIT)"
  shows "\<exists>q ks. relayed c p hops = Some (q, ks) \<and> same_content p q \<and>
    addressed (last (source # stations hops)) (addr16 (core_net final)) UNICAST_DOWN q \<and>
    \<not> link_packet_is_duplicated (last (source # stations hops)) (packet_info_get PKTINFO_SEQNUM q) (core_net final) \<and>
    map (\<lambda>k. route_lookup (addr64_at UNET_SRC_64 p) (core_net k)) ks = map Some (butlast (source # stations hops)) \<and>
    map (\<lambda>k. addr16 (core_net k)) ks = stations hops"
  using assms
proof (induction hops arbitrary: p source)
  case Nil
  then show ?case by (simp add: same_content_def stations_def)
next
  case (Cons h hops)
  obtain a k where h: "h = (a, k)" by (cases h)
  let ?next = "addr16 (core_net (hd (map snd hops @ [final])))"
  obtain xs where ready: "relay_ready xs k" "quiet_air a" "addr64_at UNET_DEST_64 p \<noteq> node_addr64_get (node_data (core_net k))"
    using Cons.prems(1) h by (auto simp: all_ready_def)
  have path: "\<not> link_packet_is_duplicated source (packet_info_get PKTINFO_SEQNUM p) (core_net k)"
    "link_get_parent_addr16 (core_net k) = Some ?next" "down_path (addr16 (core_net k)) (next_seqnum (core_net k)) (map snd hops) final"
    using Cons.prems(3) h by simp_all
  have limit: "byte p UNET_HOP_LIMIT \<noteq> 0" using Cons.prems(4) by auto
  obtain k' where k': "run_events ROUTER c (take_over a p @ pass_on a) k = Some k'"
    "addressed (addr16 (core_net k)) ?next UNICAST_DOWN (packet_down (core_net k'))"
    "same_content p (packet_down (core_net k'))" "byte (packet_down (core_net k')) UNET_HOP_LIMIT = byte p UNET_HOP_LIMIT - 1"
    "packet_info_get PKTINFO_SEQNUM (packet_down (core_net k')) = next_seqnum (core_net k)"
    "route_lookup (addr64_at UNET_SRC_64 p) (core_net k') = Some source" "addr16 (core_net k') = addr16 (core_net k)"
    by (rule relay_hop [OF ready(1,2) Cons.prems(2) path(1,2) ready(3) limit, where dev = ROUTER and c = c]) (rule that)
  let ?p = "packet_down (core_net k')"
  note pd = Cons.prems(2) [unfolded addressed_def] and kd = k'(2) [unfolded addressed_def]
  have same: "addr64_at UNET_SRC_64 ?p = addr64_at UNET_SRC_64 p" "addr64_at UNET_DEST_64 ?p = addr64_at UNET_DEST_64 p"
    using same_content_addr64 [OF k'(3)] pd kd by blast+
  have "all_ready (addr64_at UNET_DEST_64 ?p) hops" using Cons.prems(1) same(2) by (simp add: all_ready_def)
  moreover have "length hops \<le> unat (byte ?p UNET_HOP_LIMIT)"
    using Cons.prems(4) limit by (simp add: k'(4) unat_minus_one)
  ultimately obtain q ks where q: "relayed c ?p hops = Some (q, ks)" "same_content ?p q"
    "addressed (last (addr16 (core_net k) # stations hops)) (addr16 (core_net final)) UNICAST_DOWN q"
    "\<not> link_packet_is_duplicated (last (addr16 (core_net k) # stations hops)) (packet_info_get PKTINFO_SEQNUM q) (core_net final)"
    "map (\<lambda>k. route_lookup (addr64_at UNET_SRC_64 ?p) (core_net k)) ks = map Some (butlast (addr16 (core_net k) # stations hops))"
    "map (\<lambda>k. addr16 (core_net k)) ks = stations hops"
    using Cons.IH [OF _ k'(2)] path(3) k'(5) by auto
  have "packet_get_dest_addr16 p = addr16 (core_net k)" using pd h by simp
  then have "relayed c p (h # hops) = Some (q, k' # ks)" using h k'(1) q(1) by simp
  then show ?case
    using q(3-6) k'(6,7) same_content_trans [OF k'(3) q(2)] same(1) by (simp add: h stations_def)
qed

text \<open>
  What the nodes have learned: every node has a route for \<open>d\<close> to the next one, the last of them to
  \<open>final\<close>.
\<close>

fun up_route :: "u8 list \<Rightarrow> core list \<Rightarrow> core \<Rightarrow> bool" where
  "up_route d [] final = True"
| "up_route d (k # ks) final \<longleftrightarrow>
     route_lookup d (core_net k) = Some (addr16 (core_net (hd (ks @ [final])))) \<and> up_route d ks final"

lemma learned_route:
  assumes "map (\<lambda>k. route_lookup d (core_net k)) ks =
      map Some (butlast (addr16 (core_net origin) # map (\<lambda>k. addr16 (core_net k)) ks))"
  shows "up_route d (rev ks) origin"
  using assms
proof (induction ks rule: rev_induct)
  case (snoc k ks)
  have e: "butlast (x # map f (ks @ [k])) = x # map f ks" for x :: u16 and f by (simp add: butlast_append)
  have l: "x # map f ks = butlast (x # map f ks) @ [last (x # map f ks)]" for x :: u16 and f by simp
  have m: "map (\<lambda>k. route_lookup d (core_net k)) ks @ [route_lookup d (core_net k)] =
      map Some (butlast (addr16 (core_net origin) # map (\<lambda>k. addr16 (core_net k)) ks)) @
      [Some (last (addr16 (core_net origin) # map (\<lambda>k. addr16 (core_net k)) ks))]"
    using snoc.prems unfolding e by (subst (asm) l) simp
  then have "route_lookup d (core_net k) = Some (last (addr16 (core_net origin) # map (\<lambda>k. addr16 (core_net k)) ks))" by simp
  also have "last (addr16 (core_net origin) # map (\<lambda>k. addr16 (core_net k)) ks) = addr16 (core_net (hd (rev ks @ [origin])))"
    by (cases ks rule: rev_cases) simp_all
  finally show ?case using snoc.IH m by simp
qed simp

text \<open>
  The last node.  Taking a packet over does not look at the trickle timers, nor at where the task that
  routes down stands; the coordinator opens its timer of advertisements with an interval of zero.
\<close>

definition serving :: "nat list \<Rightarrow> core \<Rightarrow> bool" where
  "serving xs k \<longleftrightarrow> stack_ok xs (core_stack k) \<and> (\<forall>sig. taken k sig \<le> count_list (posted (core_net k)) sig) \<and>
     available Radio_RX_Event k \<and> state (packet_down (core_net k)) = PACKET_IDLE \<and> down_ack_at k = Ack_Idle"

definition retimed :: "trickle_t \<times> trickle_t \<times> trickle_t \<times> trickle_t \<Rightarrow> down_phase \<Rightarrow> core \<Rightarrow> core" where
  "retimed ts d k = (case ts of (l, n, r, u) \<Rightarrow>
     k\<lparr>timer_link := l, timer_down := n, timer_down_retry := r, timer_up_retry := u, down_at := d\<rparr>)"

lemma retimed_sel [simp]:
  "core_stack (retimed ts d k) = core_stack k" "taken (retimed ts d k) = taken k" "down_ack_at (retimed ts d k) = down_ack_at k"
  "available sig (retimed ts d k) = available sig k" "take_token sig (retimed ts d k) = retimed ts d (take_token sig k)"
  "with_net n (retimed ts d k) = retimed ts d (with_net n k)" "radio_state (retimed ts d k) = radio_state k"
  "(retimed ts d k)\<lparr>radio_state := x\<rparr> = retimed ts d (k\<lparr>radio_state := x\<rparr>)"
  by (simp_all add: retimed_def available_def take_token_def with_net_def split: prod.split)

lemma retimed_back: "retimed (timer_link k, timer_down k, timer_down_retry k, timer_up_retry k) (down_at k) (retimed ts d k) = k"
  by (simp add: retimed_def split: prod.split)

lemma run_events_commute:
  "(\<And>ev k. ev \<in> set evs \<Longrightarrow> enabled ev (g k) = enabled ev k \<and> core_turn dev c ev (g k) = map_option g (core_turn dev c ev k)) \<Longrightarrow>
     run_events dev c evs (g k) = map_option g (run_events dev c evs k)"
proof (induction evs arbitrary: k)
  case (Cons ev evs)
  then show ?case by (cases "core_turn dev c ev k") simp_all
qed simp

lemma take_over_retimed:
  "run_events dev c (take_over a p) (retimed ts d k) = map_option (retimed ts d) (run_events dev c (take_over a p) k)"
proof -
  have radio: "UNET_Radio_turn dev f m (retimed ts d k) = map_option (retimed ts d) (UNET_Radio_turn dev f m k)" for f m and k :: core
    by (simp add: UNET_Radio_turn_def Let_def split: bind_split)
  have begin_ack: "UNET_Router_Down_Ack_begin (retimed ts d k) = retimed ts d (UNET_Router_Down_Ack_begin k)" for k :: core
    by (simp add: UNET_Router_Down_Ack_begin_def Let_def) (simp add: retimed_def split: prod.split)
  have end_ack: "UNET_Router_Down_Ack_end c env (retimed ts d k) = map_option (retimed ts d) (UNET_Router_Down_Ack_end c env k)" for env and k :: core
    by (cases "unet_packet_output c env NWK_TX_RETRIES (core_net k)")
      (simp add: UNET_Router_Down_Ack_end_def split: bind_split, simp add: retimed_def split: prod.split)
  show ?thesis
    by (rule run_events_commute) (auto simp: take_over_def radio begin_ack end_ack)
qed

lemma serving_ready:
  assumes "serving xs k"
  obtains ts where "relay_ready xs (retimed ts Down_Request k)"
proof (rule that)
  show "relay_ready xs (retimed (init_trickle 64 131072, init_trickle 64 524288, init_trickle 64 256, init_trickle 64 256) Down_Request k)"
    using assms by (simp add: serving_def relay_ready_def core_ok_def) (simp add: retimed_def ticking_init)
qed

text \<open>The packet is for it, and an endpoint listens on its port.\<close>

lemma ready_delivers:
  assumes "relay_ready xs k" and "addressed source dest UNICAST_DOWN q" and "quiet_air a"
    and "\<not> link_packet_is_duplicated source (packet_info_get PKTINFO_SEQNUM q) (core_net k)"
    and "node_addr64_get (node_data (core_net k)) = addr64_at UNET_DEST_64 q"
    and "byte q UNET_NEXT_HEADER = NEXT_HEADER_UNET_APP" and "carries q src dst len buffer"
    and "33 + unat len \<le> unat (packet_info_get PKTINFO_SIZE q)"
    and "listener dst xs (core_stack k) = Some e" and "App_Callback (core_stack k) = None"
  obtains k' where "run_events dev c (take_over a q) k = Some k'"
    and "copy_payload e (core_stack k') = Some (take (unat len) buffer)" and "sender_port (endpoint e (core_stack k')) = src"
    and "sender_address (endpoint e (core_stack k')) = addr64_at UNET_SRC_64 q"
    and "kernel (core_stack k') = snd (OSSemPost (the (wake_up_sem (endpoint e (core_stack k)))) (kernel (core_stack k)))"
    and "route_lookup (addr64_at UNET_SRC_64 q) (core_net k') = Some source" and "addr16 (core_net k') = addr16 (core_net k)"
proof -
  note qd = assms(2) [unfolded addressed_def]
  have size: "30 \<le> unat (packet_info_get PKTINFO_SIZE q)" and qok: "packet_ok q" using qd by simp_all
  obtain k2 st where t: "\<And>st'. down_ack_dispatch st = Some st' \<Longrightarrow> run_events dev c (take_over a q) k = Some (k2\<lparr>core_stack := st'\<rparr>)"
    "stack_ok xs st" "packet_info_get PKTINFO_DUPLICATED (packet_down (the_net st)) \<noteq> 1"
    "\<And>i. 2 \<le> i \<Longrightarrow> i < 2 + unat (packet_info_get PKTINFO_SIZE q) \<Longrightarrow> byte (packet_down (the_net st)) i = byte q i"
    "packet_ok (packet_down (the_net st))" "packet_info_get PKTINFO_SIZE (packet_down (the_net st)) = packet_info_get PKTINFO_SIZE q"
    "node_data (the_net st) = node_data (core_net k)" "route_lookup (addr64_at UNET_SRC_64 q) (the_net st) = Some source"
    "endpoints st = endpoints (core_stack k)" "App_Callback st = App_Callback (core_stack k)"
    "kernel st = kernel (core_stack k)"
    by (rule taken_over [OF assms(1-4), where dev = dev and c = c]) (rule that)
  let ?r = "packet_down (the_net st)"
  have r: "same_content q ?r" using t(4,6) by (simp add: same_content_def)
  note addr = same_content_addr64 [OF r qok t(5) size]
  have here: "addr64_at UNET_DEST_64 ?r = node_addr64_get (node_data (the_net st))" using addr(2) assms(5) t(7) by simp
  have app: "byte ?r UNET_NEXT_HEADER = NEXT_HEADER_UNET_APP" using r assms(6) size by (simp add: same_content_def)
  have pay: "carries ?r src dst len buffer" by (rule same_content_carries [OF r qok t(5) assms(8,7)])
  have fit: "35 + unat len \<le> 128" using assms(8) qd by simp
  have lis: "listener dst xs st = Some e" using assms(9) t(9) by (simp add: listener_def)
  have cb: "App_Callback st = None" using t(10) assms(10) by simp
  obtain st' where st': "down_ack_dispatch st = Some st'" "copy_payload e st' = Some (take (unat len) buffer)"
    "sender_port (endpoint e st') = src" "sender_address (endpoint e st') = addr64_at UNET_SRC_64 ?r"
    "kernel st' = snd (OSSemPost (the (wake_up_sem (endpoint e st))) (kernel st))" "same_place (the_net st) (the_net st')"
    by (rule dispatch_delivers [OF t(2,3) here app pay fit lis cb]) (rule that)
  have route: "route_lookup (addr64_at UNET_SRC_64 q) (the_net st') = Some source"
    using t(8) st'(6) route_lookup_cong [of "the_net st'" "the_net st"] by (simp add: same_place_def)
  show thesis
    by (rule that [OF t(1) [OF st'(1)]]) (use st'(6) t(7) in \<open>simp_all add: st'(2-5) addr(1) t(9,11) route same_place_def\<close>)
qed

lemma final_delivers:
  assumes "serving xs k" and "addressed source dest UNICAST_DOWN q" and "quiet_air a"
    and "\<not> link_packet_is_duplicated source (packet_info_get PKTINFO_SEQNUM q) (core_net k)"
    and "node_addr64_get (node_data (core_net k)) = addr64_at UNET_DEST_64 q"
    and "byte q UNET_NEXT_HEADER = NEXT_HEADER_UNET_APP" and "carries q src dst len buffer"
    and "33 + unat len \<le> unat (packet_info_get PKTINFO_SIZE q)"
    and "listener dst xs (core_stack k) = Some e" and "App_Callback (core_stack k) = None"
  obtains k' where "run_events dev c (take_over a q) k = Some k'"
    and "copy_payload e (core_stack k') = Some (take (unat len) buffer)" and "sender_port (endpoint e (core_stack k')) = src"
    and "sender_address (endpoint e (core_stack k')) = addr64_at UNET_SRC_64 q"
    and "kernel (core_stack k') = snd (OSSemPost (the (wake_up_sem (endpoint e (core_stack k)))) (kernel (core_stack k)))"
    and "route_lookup (addr64_at UNET_SRC_64 q) (core_net k') = Some source" and "addr16 (core_net k') = addr16 (core_net k)"
proof -
  obtain ts where r: "relay_ready xs (retimed ts Down_Request k)" by (rule serving_ready [OF assms(1)])
  let ?k = "retimed ts Down_Request k"
  let ?restore = "retimed (timer_link k, timer_down k, timer_down_retry k, timer_up_retry k) (down_at k)"
  have same: "core_stack ?k = core_stack k" by simp
  obtain k' where k': "run_events dev c (take_over a q) ?k = Some k'"
    "copy_payload e (core_stack k') = Some (take (unat len) buffer)" "sender_port (endpoint e (core_stack k')) = src"
    "sender_address (endpoint e (core_stack k')) = addr64_at UNET_SRC_64 q"
    "kernel (core_stack k') = snd (OSSemPost (the (wake_up_sem (endpoint e (core_stack k)))) (kernel (core_stack k)))"
    "route_lookup (addr64_at UNET_SRC_64 q) (core_net k') = Some source" "addr16 (core_net k') = addr16 (core_net k)"
    by (rule ready_delivers [OF r assms(2,3) assms(4-10) [folded same], unfolded same, where dev = dev and c = c]) (rule that)
  have "run_events dev c (take_over a q) k = map_option ?restore (run_events dev c (take_over a q) ?k)"
    unfolding take_over_retimed [symmetric] retimed_back ..
  then show thesis by (intro that [of "?restore k'"]) (simp_all add: k')
qed

text \<open>
  C23. End to end: a packet down that a node sends travels along the parents and reaches the
  endpoint of the coordinator that listens on its port with the payload, the port and the address of
  its sender, whatever the strength of the frames and the fate of the acknowledgements; and
  the tables of all nodes on the way then hold the route back to the origin, hop by hop.
\<close>

theorem down_path_delivers:
  assumes "all_ready (addr64_at UNET_DEST_64 p) hops"
    and "addressed source (addr16 (core_net (hd (map snd hops @ [final])))) UNICAST_DOWN p"
    and "down_path source (packet_info_get PKTINFO_SEQNUM p) (map snd hops) final"
    and "length hops \<le> unat (byte p UNET_HOP_LIMIT)"
    and "byte p UNET_NEXT_HEADER = NEXT_HEADER_UNET_APP" and "carries p src dst len buffer"
    and "33 + unat len \<le> unat (packet_info_get PKTINFO_SIZE p)"
    and coordinator: "serving xs final" "quiet_air a" "node_addr64_get (node_data (core_net final)) = addr64_at UNET_DEST_64 p"
      "listener dst xs (core_stack final) = Some e" "App_Callback (core_stack final) = None"
    and "addr16 (core_net origin) = source"
  shows "\<exists>q ks final'. relayed c p hops = Some (q, ks) \<and> packet_get_dest_addr16 q = addr16 (core_net final) \<and>
    run_events PAN_COORDINATOR c (take_over a q) final = Some final' \<and>
    copy_payload e (core_stack final') = Some (take (unat len) buffer) \<and>
    sender_port (endpoint e (core_stack final')) = src \<and>
    sender_address (endpoint e (core_stack final')) = addr64_at UNET_SRC_64 p \<and>
    kernel (core_stack final') = snd (OSSemPost (the (wake_up_sem (endpoint e (core_stack final)))) (kernel (core_stack final))) \<and>
    up_route (addr64_at UNET_SRC_64 p) (rev (ks @ [final'])) origin"
proof -
  obtain q ks where q: "relayed c p hops = Some (q, ks)" "same_content p q"
    "addressed (last (source # stations hops)) (addr16 (core_net final)) UNICAST_DOWN q"
    "\<not> link_packet_is_duplicated (last (source # stations hops)) (packet_info_get PKTINFO_SEQNUM q) (core_net final)"
    "map (\<lambda>k. route_lookup (addr64_at UNET_SRC_64 p) (core_net k)) ks = map Some (butlast (source # stations hops))"
    "map (\<lambda>k. addr16 (core_net k)) ks = stations hops"
    using relayed_path [OF assms(1-4), of c] by blast
  have ok: "packet_ok p" "packet_ok q" "30 \<le> unat (packet_info_get PKTINFO_SIZE p)"
    using assms(2) q(3) by (simp_all add: addressed_def)
  have dest: "packet_get_dest_addr16 q = addr16 (core_net final)" using q(3) by (simp add: addressed_def)
  note addr = same_content_addr64 [OF q(2) ok]
  have app: "byte q UNET_NEXT_HEADER = NEXT_HEADER_UNET_APP" using q(2) assms(5) ok(3) by (simp add: same_content_def)
  have here: "node_addr64_get (node_data (core_net final)) = addr64_at UNET_DEST_64 q" using coordinator(3) addr(2) by simp
  have pay: "carries q src dst len buffer" by (rule same_content_carries [OF q(2) ok(1,2) assms(7,6)])
  have size: "33 + unat len \<le> unat (packet_info_get PKTINFO_SIZE q)" using q(2) assms(7) by (simp add: same_content_def)
  obtain k' where k': "run_events PAN_COORDINATOR c (take_over a q) final = Some k'"
    "copy_payload e (core_stack k') = Some (take (unat len) buffer)" "sender_port (endpoint e (core_stack k')) = src"
    "sender_address (endpoint e (core_stack k')) = addr64_at UNET_SRC_64 q"
    "kernel (core_stack k') = snd (OSSemPost (the (wake_up_sem (endpoint e (core_stack final)))) (kernel (core_stack final)))"
    "route_lookup (addr64_at UNET_SRC_64 q) (core_net k') = Some (last (source # stations hops))" "addr16 (core_net k') = addr16 (core_net final)"
    by (rule final_delivers [OF coordinator(1) q(3) coordinator(2) q(4) here app pay size coordinator(4,5),
          where dev = PAN_COORDINATOR and c = c]) (rule that)
  have "map (\<lambda>k. route_lookup (addr64_at UNET_SRC_64 p) (core_net k)) (ks @ [k']) =
      map Some (butlast (source # stations hops) @ [last (source # stations hops)])"
    using q(5) k'(6) addr(1) by simp
  also have "butlast (source # stations hops) @ [last (source # stations hops)] = butlast (source # map (\<lambda>k. addr16 (core_net k)) (ks @ [k']))"
    using q(6) by (simp add: butlast_append)
  finally have "up_route (addr64_at UNET_SRC_64 p) (rev (ks @ [k'])) origin"
    using learned_route [of "addr64_at UNET_SRC_64 p" "ks @ [k']" origin] assms(13) by simp
  then show ?thesis using q(1) dest k'(1-5) addr(1) by metis
qed

end
