(* ===== verification/Core_Path_Up.thy ===== *)
theory Core_Path_Up
  imports Core_Path
begin

text \<open>
  The whole way of a packet up: from the coordinator to the node it is for, along the routes that
  the traffic down has left in the tables.
\<close>

section \<open>Routing\<close>

text \<open>The packet that the router leaves in the buffer, and what it changes besides.\<close>

lemma router_up_details:
  assumes "net_ok n0" and "route_lookup (addr64_at UNET_DEST_64 (packet_up n0)) n0 = Some hop"
    and "byte (packet_up n0) UNET_HOP_LIMIT \<noteq> 0"
    and "byte (packet_up n0) LLC_PROTO = UNET_LLC_PROTO_NUMBER" and "byte (packet_up n0) UNET_PKT_TYPE = type"
    and "30 \<le> unat (packet_info_get PKTINFO_SIZE (packet_up n0))" and "unat (packet_info_get PKTINFO_SIZE (packet_up n0)) \<le> 126"
  obtains n1 where "unet_router_up n0 = Some (RESULT_PACKET_SEND_OK, n1)" and "addressed (addr16 n0) hop type (packet_up n1)"
    and "hopped hop (packet_up n0) (packet_up n1)"
    and "packet_info_get PKTINFO_SIZE (packet_up n1) = packet_info_get PKTINFO_SIZE (packet_up n0)"
    and "addr16 n1 = addr16 n0" and "unet_routing_table_up n1 = unet_routing_table_up n0" and "created n1 = created n0"
    and "posted n1 = posted n0"
proof -
  let ?p = "packet_up n0" and ?d = "addr64_at UNET_DEST_64 (packet_up n0)"
  let ?p1 = "put UNET_HOP_LIMIT (byte ?p UNET_HOP_LIMIT - 1) ?p"
  let ?p2 = "put_info PKTINFO_SEQNUM (next_seqnum n0) ?p1"
  define s1 where "s1 = n0\<lparr>node_data := snd (node_seq_num_get_next (node_data n0))\<rparr>"
  have st: "stamp_seqnum n0 ?p1 = (s1, ?p2)" by (simp add: stamp_seqnum_eq s1_def next_seqnum_def)
  let ?s = "set_dest16 hop (?p2\<lparr>state := PACKET_IN_ROUTE\<rparr>)"
  let ?q = "ieee802154_header_set DATA_FRAME ACK_REQ_TRUE (node_data s1) ?s"
  have ok: "packet_ok ?p" using net_okD(6) [OF assms(1)] .
  have len: "length (bytes ?p) = 128" "length (info ?p) = 12" using ok by (simp_all add: packet_ok_def)
  have f: "unet_router_up_table_entry_find ?d n0 \<noteq> 100"
    using assms(2) lookup_find(1) [OF net_okD(8) [OF assms(1)], of ?d] by auto
  have "unet_router_up_table_entry_get (unet_router_up_table_entry_find ?d n0) s1 = Some hop"
    using lookup_find(2) [OF net_okD(8) [OF assms(1)] f] assms(2) by (simp add: s1_def unet_router_up_table_entry_get_def split: if_splits)
  then have r: "unet_router_up n0 = Some (RESULT_PACKET_SEND_OK, s1\<lparr>packet_up := ?q\<lparr>state := PACKET_WAITING_TX\<rparr>\<rparr>)"
    using f assms(3) st by (simp add: unet_router_up_def Let_def)
  have size: "packet_info_get PKTINFO_SIZE ?s = packet_info_get PKTINFO_SIZE ?p"
    using ok len by (simp add: info_set_dest16 info_of_others info_put)
  have s: "packet_ok ?s" "packet_get_dest_addr16 ?s = hop" "byte ?s LLC_PROTO = UNET_LLC_PROTO_NUMBER" "byte ?s UNET_PKT_TYPE = type"
    using ok len assms(4,5) by (simp_all add: dest16_set_dest16 byte_put)
  have own: "addr16 s1 = addr16 n0" by (simp add: s1_def node_data_get_16b_def seq_next_node)
  have "addressed (addr16 n0) hop type ?q"
    using addressed_header_set [OF s(1,3), of "node_data s1"] size s(2,4) assms(6,7) own by simp
  moreover have "hopped hop ?p ?q" by (rule hopped_send(1) [OF ok st])
  ultimately show thesis
    using own size
    by (intro that [OF r]) (simp_all add: addressed_state info_of_others s1_def hopped_def packet_info_get_def)
qed

text \<open>The acknowledging task hands a packet that is for another node to the router.\<close>

lemma up_dispatch_routes:
  assumes "stack_ok xs st"
    and "addr64_at UNET_DEST_64 (packet_up (the_net st)) \<noteq> node_addr64_get (node_data (the_net st))"
    and "route_lookup (addr64_at UNET_DEST_64 (packet_up (the_net st))) (the_net st) = Some hop"
    and "byte (packet_up (the_net st)) UNET_HOP_LIMIT \<noteq> 0"
    and "byte (packet_up (the_net st)) LLC_PROTO = UNET_LLC_PROTO_NUMBER" and "byte (packet_up (the_net st)) UNET_PKT_TYPE = type"
    and "30 \<le> unat (packet_info_get PKTINFO_SIZE (packet_up (the_net st)))"
    and "unat (packet_info_get PKTINFO_SIZE (packet_up (the_net st))) \<le> 126"
  obtains n3 where "up_ack_dispatch st = Some (st\<lparr>the_net := n3\<rparr>)"
    and "addressed (addr16 (the_net st)) hop type (packet_up n3)" and "hopped hop (packet_up (the_net st)) (packet_up n3)"
    and "packet_info_get PKTINFO_SIZE (packet_up n3) = packet_info_get PKTINFO_SIZE (packet_up (the_net st))"
    and "unet_routing_table_up n3 = unet_routing_table_up (the_net st)"
    and "posted n3 = posted (the_net st) @ [Router_Up_Route_Request]"
proof -
  have n: "net_ok (the_net st)" "all_created (the_net st)" using assms(1) by (simp_all add: stack_ok_def)
  obtain n1 where n1: "unet_router_up (the_net st) = Some (RESULT_PACKET_SEND_OK, n1)"
    "addressed (addr16 (the_net st)) hop type (packet_up n1)" "hopped hop (packet_up (the_net st)) (packet_up n1)"
    "packet_info_get PKTINFO_SIZE (packet_up n1) = packet_info_get PKTINFO_SIZE (packet_up (the_net st))"
    "unet_routing_table_up n1 = unet_routing_table_up (the_net st)" "created n1 = created (the_net st)"
    "posted n1 = posted (the_net st)"
    by (rule router_up_details [OF n(1) assms(3-8)]) (rule that)
  have "all_created n1" using n1(6) n(2) by (simp add: all_created_def)
  then have "up_ack_dispatch st = Some (st\<lparr>the_net := n1\<lparr>posted := posted n1 @ [Router_Up_Route_Request]\<rparr>\<rparr>)"
    using assms(2) n1(1) by (simp add: up_ack_dispatch_def Let_def post_all)
  then show thesis by (rule that) (simp_all add: n1)
qed

text \<open>At its destination the packet is handed to the first endpoint that listens on its port.\<close>

lemma up_dispatch_delivers:
  assumes "stack_ok xs st"
    and "addr64_at UNET_DEST_64 (packet_up (the_net st)) = node_addr64_get (node_data (the_net st))"
    and "byte (packet_up (the_net st)) UNET_NEXT_HEADER = NEXT_HEADER_UNET_APP"
    and "carries (packet_up (the_net st)) src dst len buffer" and "35 + unat len \<le> 128"
    and "listener dst xs st = Some e" and "App_Callback st = None"
  obtains st' where "up_ack_dispatch st = Some st'" and "copy_payload e st' = Some (take (unat len) buffer)"
    and "sender_port (endpoint e st') = src"
    and "sender_address (endpoint e st') = addr64_at UNET_SRC_64 (packet_up (the_net st))"
    and "kernel st' = snd (OSSemPost (the (wake_up_sem (endpoint e st))) (kernel st))"
proof -
  have l: "tp_list st xs" using assms(1) by (simp add: stack_ok_def)
  have buf: "the_buffer Up_Buffer st = packet_up (the_net st)" by (simp add: the_buffer_def)
  have "e \<in> set xs" using assms(6) by (auto simp: listener_def find_Some_iff)
  then have "e < length (endpoints st)" using tp_listD(2) [OF l] by simp
  then obtain i where i: "wake_up_sem (endpoint e st) = Some i" using assms(1) by (auto simp: stack_ok_def)
  obtain st1 where st1: "deliver Up_Buffer st = Some st1" "copy_payload e st1 = Some (take (unat len) buffer)"
    "sender_port (endpoint e st1) = src" "sender_address (endpoint e st1) = addr64_at UNET_SRC_64 (the_buffer Up_Buffer st)"
    "kernel st1 = snd (OSSemPost i (kernel st))"
    by (rule deliver_payload [OF l assms(3,4) [folded buf] assms(5,6) i assms(7)]) (rule that)
  have d: "up_ack_dispatch st = Some (release Up_Buffer st1)" using assms(2) st1(1) by (simp add: up_ack_dispatch_def Let_def)
  have "copy_payload e (release Up_Buffer st1) = copy_payload e st1" by (rule copy_payload_release)
  moreover have "endpoint e (release Up_Buffer st1) = endpoint e st1" "kernel (release Up_Buffer st1) = kernel st1"
    by (simp_all add: release_def set_buffer_def)
  ultimately show thesis by (intro that [OF d]) (use st1(2-5) i buf in simp_all)
qed

section \<open>One node on the way\<close>

definition take_up :: "air \<Rightarrow> packet \<Rightarrow> core_event list" where
  "take_up a p = [Radio_Frame (heard_frame a p) (air_memory a), Up_Ack_Begin, Up_Ack_End (air_ack a)]"

definition pass_up :: "air \<Rightarrow> core_event list" where
  "pass_up a = [Up_Go, Up_Send (air_send a)]"

text \<open>A node that has nothing else to do with packets up.\<close>

definition up_ready :: "nat list \<Rightarrow> core \<Rightarrow> bool" where
  "up_ready xs k \<longleftrightarrow> core_ok xs k \<and> available Radio_RX_Event k \<and> state (packet_up (core_net k)) = PACKET_IDLE \<and>
     up_ack_at k = Ack_Idle \<and> up_at k = Up_Request"

text \<open>Taking over: what the acknowledging task finds when it decides about the packet.\<close>

lemma taken_up:
  assumes "up_ready xs j" and "addressed source dest UNICAST_UP p" and "quiet_air a"
  obtains j2 st where "\<And>st'. up_ack_dispatch st = Some st' \<Longrightarrow> run_events dev c (take_up a p) j = Some (j2\<lparr>core_stack := st'\<rparr>)"
    and "stack_ok xs st" and "packet_ok (packet_up (the_net st))"
    and "\<And>i. 2 \<le> i \<Longrightarrow> i < 2 + unat (packet_info_get PKTINFO_SIZE p) \<Longrightarrow> byte (packet_up (the_net st)) i = byte p i"
    and "packet_info_get PKTINFO_SIZE (packet_up (the_net st)) = packet_info_get PKTINFO_SIZE p"
    and "node_data (the_net st) = node_data (core_net j)"
    and "unet_routing_table_up (the_net st) = unet_routing_table_up (core_net j)"
    and "endpoints st = endpoints (core_stack j)" and "App_Callback st = App_Callback (core_stack j)"
    and "kernel st = kernel (core_stack j)" and "up_at j2 = Up_Request"
    and "taken j2 Router_Up_Route_Request = taken j Router_Up_Route_Request"
    and "count_list (posted (the_net st)) Router_Up_Route_Request = count_list (posted (core_net j)) Router_Up_Route_Request"
proof -
  note j = assms(1) [unfolded up_ready_def]
  have ok: "core_ok xs j" using j by blast
  let ?f = "heard_frame a p"
  have f: "rx_frame ?f = sent_frame p" "rx_crc ?f" "length (air_memory a) = 128"
    using assms(3) by (simp_all add: heard_frame_def quiet_air_def)
  have po: "packet_ok p" "unat (packet_info_get PKTINFO_SIZE p) \<le> 126" using assms(2) by (simp_all add: addressed_def)
  have rx: "available Radio_RX_Event j" "state (packet_up (core_net j)) = PACKET_IDLE" using j by blast+
  obtain j1 where j1: "UNET_Radio_turn dev ?f (air_memory a) j = Some j1"
    "\<And>i. 2 \<le> i \<Longrightarrow> i < 2 + unat (packet_info_get PKTINFO_SIZE p) \<Longrightarrow> byte (packet_up (core_net j1)) i = byte p i"
    "packet_ok (packet_up (core_net j1))" "posted (core_net j1) = posted (core_net j) @ [Router_Up_Ack_Request]"
    "node_data (core_net j1) = node_data (core_net j)" "taken j1 = taken (take_token Radio_RX_Event j)"
    "core_stack j1 = (core_stack j)\<lparr>the_net := core_net j1\<rparr>" "up_ack_at j1 = up_ack_at j" "up_at j1 = up_at j"
    "unet_routing_table_up (core_net j1) = unet_routing_table_up (core_net j)"
    "packet_info_get PKTINFO_SIZE (packet_up (core_net j1)) = packet_info_get PKTINFO_SIZE p"
    by (rule up_packet_taken [OF ok assms(2) f rx, where dev = dev]) (rule that)
  have len: "2 + length (rx_frame ?f) \<le> 128" using f(1) sent_frame_nth(1) [OF po] po(2) by simp
  have av: "available Router_Up_Ack_Request j1"
    using j1(4,6) core_okD(8) [OF ok, of Router_Up_Ack_Request] by (simp add: available_def take_token_def)
  define j2 where "j2 = UNET_Router_Up_Ack_begin j1"
  have two: "run_events dev c (take_up a p) j = run_events dev c [Up_Ack_End (air_ack a)] j2"
    using rx(1) len f(3) j1(1,8) j av by (simp add: take_up_def j2_def)
  have j2: "core_net j2 = core_net j1" "up_ack_at j2 = Ack_Sending" "core_stack j2 = core_stack j1" "up_at j2 = Up_Request"
    "taken j2 Router_Up_Route_Request = taken j Router_Up_Route_Request"
    using j1(6,9) j by (simp_all add: j2_def UNET_Router_Up_Ack_begin_def Let_def take_token_def)
  obtain res n where out: "unet_packet_output c (air_ack a) NWK_TX_RETRIES (core_net j2) = (res, n)" by fastforce
  have quiet: "stat_only (core_net j2) n" using assms(3) by (intro quiet_output [OF _ out]) (simp add: quiet_air_def)
  note q = stat_only_sel [OF quiet]
  define st where "st = (core_stack j2)\<lparr>the_net := n\<rparr>"
  have run: "run_events dev c (take_up a p) j = Some ((j2\<lparr>up_ack_at := Ack_Idle\<rparr>)\<lparr>core_stack := st'\<rparr>)"
    if "up_ack_dispatch st = Some st'" for st'
    unfolding two using j2(2) out that by (simp add: UNET_Router_Up_Ack_end_def st_def [symmetric])
  have "core_ok xs j2"
    by (rule run_events_ok [OF ok, of dev c "[Radio_Frame ?f (air_memory a), Up_Ack_Begin]"])
      (use rx(1) len f(3) j1(1,8) j av in \<open>simp add: j2_def\<close>)
  from output_ok(2) [OF this out] have st: "stack_ok xs st" by (simp only: st_def)
  have net: "the_net st = n" by (simp add: st_def)
  have "App_Callback st = App_Callback (core_stack j)" "endpoints st = endpoints (core_stack j)"
    "kernel st = kernel (core_stack j)"
    by (simp_all add: st_def j2(3)) (subst j1(7), simp)+
  then show thesis
    using j1(2,3,4,5,10,11) j2 q by (intro that [OF run st]) (simp_all add: net)
qed

text \<open>Passing on: the task that routes up transmits the packet as the router left it.\<close>

lemma passed_up:
  assumes "core_ok xs k" and "up_at k = Up_Request" and "available Router_Up_Route_Request k" and "quiet_air a"
  obtains k' where "run_events dev c (pass_up a) k = Some k'"
    and "packet_up (core_net k') = (packet_up (core_net k))\<lparr>state := PACKET_WAITING_ACK\<rparr>"
    and "unet_routing_table_up (core_net k') = unet_routing_table_up (core_net k)" and "node_data (core_net k') = node_data (core_net k)"
proof -
  define k1 where "k1 = UNET_Router_Up_request k"
  have k1: "up_at k1 = Up_Sending 2" "core_net k1 = core_net k"
    by (simp_all add: k1_def UNET_Router_Up_request_def Let_def up_loop_test_def word_less_nat_alt)
  have one: "run_events dev c [Up_Go] k = Some k1" using assms(2,3) by (simp add: k1_def)
  have ok1: "core_ok xs k1" by (rule run_events_ok [OF assms(1) one])
  obtain res n where out: "unet_packet_output c (air_send a) NWK_TX_RETRIES (core_net k1) = (res, n)" by fastforce
  have quiet: "stat_only (core_net k1) n" using assms(4) by (intro quiet_output [OF _ out]) (simp add: quiet_air_def)
  note q = stat_only_sel [OF quiet]
  let ?n = "set_up_state PACKET_WAITING_ACK n"
  obtain tm g where tm: "run_timer (timer_up_retry k1) (with_net ?n k1) = Some (tm, (with_net ?n k1)\<lparr>generator := g\<rparr>)"
    by (rule run_timer_ticking [OF core_okD(7) [OF ok1]])
  let ?k' = "(with_net ?n k1)\<lparr>generator := g, timer_up_retry := tm, up_at := Up_Ack 2\<rparr>"
  have "UNET_Router_Up_send c (air_send a) 2 k1 = Some ?k'" using out tm by (simp add: UNET_Router_Up_send_def)
  then have run: "run_events dev c (pass_up a) k = Some ?k'"
    using k1(1) assms(2,3) by (simp add: pass_up_def k1_def)
  show thesis by (rule that [OF run]) (simp_all add: q k1(2) set_up_state_def)
qed

lemma relay_up_hop:
  assumes "up_ready xs k" and "quiet_air a" and "addressed source dest UNICAST_UP p"
    and "route_lookup (addr64_at UNET_DEST_64 p) (core_net k) = Some hop"
    and "addr64_at UNET_DEST_64 p \<noteq> node_addr64_get (node_data (core_net k))" and "byte p UNET_HOP_LIMIT \<noteq> 0"
  obtains k' where "run_events dev c (take_up a p @ pass_up a) k = Some k'"
    and "addressed (addr16 (core_net k)) hop UNICAST_UP (packet_up (core_net k'))"
    and "same_content p (packet_up (core_net k'))"
    and "byte (packet_up (core_net k')) UNET_HOP_LIMIT = byte p UNET_HOP_LIMIT - 1"
proof -
  obtain k2 st where t: "\<And>st'. up_ack_dispatch st = Some st' \<Longrightarrow> run_events dev c (take_up a p) k = Some (k2\<lparr>core_stack := st'\<rparr>)"
    "stack_ok xs st" "packet_ok (packet_up (the_net st))"
    "\<And>i. 2 \<le> i \<Longrightarrow> i < 2 + unat (packet_info_get PKTINFO_SIZE p) \<Longrightarrow> byte (packet_up (the_net st)) i = byte p i"
    "packet_info_get PKTINFO_SIZE (packet_up (the_net st)) = packet_info_get PKTINFO_SIZE p"
    "node_data (the_net st) = node_data (core_net k)" "unet_routing_table_up (the_net st) = unet_routing_table_up (core_net k)"
    "up_at k2 = Up_Request" "taken k2 Router_Up_Route_Request = taken k Router_Up_Route_Request"
    "count_list (posted (the_net st)) Router_Up_Route_Request = count_list (posted (core_net k)) Router_Up_Route_Request"
    by (rule taken_up [OF assms(1,3,2), where dev = dev and c = c]) (rule that)
  let ?r = "packet_up (the_net st)"
  note p = assms(3) [unfolded addressed_def]
  have ok: "core_ok xs k" using assms(1) by (simp add: up_ready_def)
  have b: "byte ?r i = byte p i" if "2 \<le> i" "i < 32" for i using t(4) [of i] p that by simp
  have dest: "addr64_at UNET_DEST_64 ?r = addr64_at UNET_DEST_64 p"
    by (rule addr64_at_cong) (use t(3) p b in simp_all)
  have far: "addr64_at UNET_DEST_64 ?r \<noteq> node_addr64_get (node_data (the_net st))" using assms(5) t(6) dest by simp
  have h: "route_lookup (addr64_at UNET_DEST_64 ?r) (the_net st) = Some hop"
    "byte ?r UNET_HOP_LIMIT \<noteq> 0" "byte ?r LLC_PROTO = UNET_LLC_PROTO_NUMBER" "byte ?r UNET_PKT_TYPE = UNICAST_UP"
    "30 \<le> unat (packet_info_get PKTINFO_SIZE ?r)" "unat (packet_info_get PKTINFO_SIZE ?r) \<le> 126"
    using b [of 14] b [of 11] b [of 12] p t(5,7) assms(4,6) dest route_lookup_cong [of "the_net st" "core_net k"] by simp_all
  obtain n3 where n3: "up_ack_dispatch st = Some (st\<lparr>the_net := n3\<rparr>)"
    "addressed (addr16 (the_net st)) hop UNICAST_UP (packet_up n3)" "hopped hop ?r (packet_up n3)"
    "packet_info_get PKTINFO_SIZE (packet_up n3) = packet_info_get PKTINFO_SIZE ?r"
    "posted n3 = posted (the_net st) @ [Router_Up_Route_Request]"
    by (rule up_dispatch_routes [OF t(2) far h]) (rule that)
  let ?k = "k2\<lparr>core_stack := st\<lparr>the_net := n3\<rparr>\<rparr>"
  have run: "run_events dev c (take_up a p) k = Some ?k" by (rule t(1) [OF n3(1)])
  have av: "available Router_Up_Route_Request ?k"
    using t(9,10) n3(5) core_okD(8) [OF ok, of Router_Up_Route_Request] by (simp add: available_def)
  have at: "up_at ?k = Up_Request" using t(8) by simp
  obtain k' where k': "run_events dev c (pass_up a) ?k = Some k'"
    "packet_up (core_net k') = (packet_up (core_net ?k))\<lparr>state := PACKET_WAITING_ACK\<rparr>"
    by (rule passed_up [OF run_events_ok [OF ok run] at av assms(2), where dev = dev and c = c]) (rule that)
  have "same_content p (packet_up n3)" using n3(3,4) t(4,5) by (simp add: same_content_def hopped_def)
  moreover have "run_events dev c (take_up a p @ pass_up a) k = Some k'"
    using run k'(1) by (simp add: run_events_append)
  ultimately show thesis
    using n3(2,3) b [of 14] t(6)
    by (intro that [of k']) (simp_all add: k'(2) addressed_state same_content_def info_of_others hopped_def)
qed

section \<open>Along a path\<close>

fun relayed_up :: "config \<Rightarrow> packet \<Rightarrow> (air \<times> core) list \<Rightarrow> (packet \<times> core list) option" where
  "relayed_up c p [] = Some (p, [])"
| "relayed_up c p ((a, k) # hops) =
     (if packet_get_dest_addr16 p = addr16 (core_net k) then do {
        k1 \<leftarrow> run_events ROUTER c (take_up a p @ pass_up a) k;
        (q, ks) \<leftarrow> relayed_up c (packet_up (core_net k1)) hops;
        Some (q, k1 # ks)
      } else None)"

definition all_up_ready :: "u8 list \<Rightarrow> (air \<times> core) list \<Rightarrow> bool" where
  "all_up_ready d hops \<longleftrightarrow> (\<forall>(a, k) \<in> set hops. (\<exists>xs. up_ready xs k) \<and> quiet_air a \<and> d \<noteq> node_addr64_get (node_data (core_net k)))"

lemma relayed_up_path:
  assumes "all_up_ready (addr64_at UNET_DEST_64 p) hops"
    and "addressed source (addr16 (core_net (hd (map snd hops @ [final])))) UNICAST_UP p"
    and "up_route (addr64_at UNET_DEST_64 p) (map snd hops) final"
    and "length hops \<le> unat (byte p UNET_HOP_LIMIT)"
  shows "\<exists>q ks. relayed_up c p hops = Some (q, ks) \<and> same_content p q \<and>
    addressed (last (source # stations hops)) (addr16 (core_net final)) UNICAST_UP q"
  using assms
proof (induction hops arbitrary: p source)
  case Nil
  then show ?case by (simp add: same_content_def stations_def)
next
  case (Cons h hops)
  obtain a k where h: "h = (a, k)" by (cases h)
  let ?next = "addr16 (core_net (hd (map snd hops @ [final])))"
  obtain xs where ready: "up_ready xs k" "quiet_air a" "addr64_at UNET_DEST_64 p \<noteq> node_addr64_get (node_data (core_net k))"
    using Cons.prems(1) h by (auto simp: all_up_ready_def)
  have path: "route_lookup (addr64_at UNET_DEST_64 p) (core_net k) = Some ?next" "up_route (addr64_at UNET_DEST_64 p) (map snd hops) final"
    using Cons.prems(3) h by simp_all
  have limit: "byte p UNET_HOP_LIMIT \<noteq> 0" using Cons.prems(4) by auto
  obtain k' where k': "run_events ROUTER c (take_up a p @ pass_up a) k = Some k'"
    "addressed (addr16 (core_net k)) ?next UNICAST_UP (packet_up (core_net k'))"
    "same_content p (packet_up (core_net k'))" "byte (packet_up (core_net k')) UNET_HOP_LIMIT = byte p UNET_HOP_LIMIT - 1"
    by (rule relay_up_hop [OF ready(1,2) Cons.prems(2) path(1) ready(3) limit, where dev = ROUTER and c = c]) (rule that)
  let ?p = "packet_up (core_net k')"
  note pd = Cons.prems(2) [unfolded addressed_def] and kd = k'(2) [unfolded addressed_def]
  have same: "addr64_at UNET_DEST_64 ?p = addr64_at UNET_DEST_64 p"
    using same_content_addr64(2) [OF k'(3)] pd kd by blast
  have "all_up_ready (addr64_at UNET_DEST_64 ?p) hops" using Cons.prems(1) same by (simp add: all_up_ready_def)
  moreover have "length hops \<le> unat (byte ?p UNET_HOP_LIMIT)"
    using Cons.prems(4) limit by (simp add: k'(4) unat_minus_one)
  ultimately obtain q ks where q: "relayed_up c ?p hops = Some (q, ks)" "same_content ?p q"
    "addressed (last (addr16 (core_net k) # stations hops)) (addr16 (core_net final)) UNICAST_UP q"
    using Cons.IH [OF _ k'(2)] path(2) same by auto
  have "packet_get_dest_addr16 p = addr16 (core_net k)" using pd h by simp
  then have "relayed_up c p (h # hops) = Some (q, k' # ks)" using h k'(1) q(1) by simp
  then show ?case
    using q(3) same_content_trans [OF k'(3) q(2)] by (simp add: h stations_def)
qed

text \<open>The last node: the packet is for it, and an endpoint listens on its port.\<close>

lemma final_up_delivers:
  assumes "up_ready xs k" and "addressed source dest UNICAST_UP q" and "quiet_air a"
    and "node_addr64_get (node_data (core_net k)) = addr64_at UNET_DEST_64 q"
    and "byte q UNET_NEXT_HEADER = NEXT_HEADER_UNET_APP" and "carries q src dst len buffer"
    and "33 + unat len \<le> unat (packet_info_get PKTINFO_SIZE q)"
    and "listener dst xs (core_stack k) = Some e" and "App_Callback (core_stack k) = None"
  obtains k' where "run_events dev c (take_up a q) k = Some k'"
    and "copy_payload e (core_stack k') = Some (take (unat len) buffer)" and "sender_port (endpoint e (core_stack k')) = src"
    and "sender_address (endpoint e (core_stack k')) = addr64_at UNET_SRC_64 q"
    and "kernel (core_stack k') = snd (OSSemPost (the (wake_up_sem (endpoint e (core_stack k)))) (kernel (core_stack k)))"
proof -
  note qd = assms(2) [unfolded addressed_def]
  have size: "30 \<le> unat (packet_info_get PKTINFO_SIZE q)" and qok: "packet_ok q" using qd by simp_all
  obtain k2 st where t: "\<And>st'. up_ack_dispatch st = Some st' \<Longrightarrow> run_events dev c (take_up a q) k = Some (k2\<lparr>core_stack := st'\<rparr>)"
    "stack_ok xs st" "packet_ok (packet_up (the_net st))"
    "\<And>i. 2 \<le> i \<Longrightarrow> i < 2 + unat (packet_info_get PKTINFO_SIZE q) \<Longrightarrow> byte (packet_up (the_net st)) i = byte q i"
    "packet_info_get PKTINFO_SIZE (packet_up (the_net st)) = packet_info_get PKTINFO_SIZE q"
    "node_data (the_net st) = node_data (core_net k)"
    "endpoints st = endpoints (core_stack k)" "App_Callback st = App_Callback (core_stack k)" "kernel st = kernel (core_stack k)"
    by (rule taken_up [OF assms(1-3), where dev = dev and c = c]) (rule that)
  let ?r = "packet_up (the_net st)"
  have r: "same_content q ?r" using t(4,5) by (simp add: same_content_def)
  note addr = same_content_addr64 [OF r qok t(3) size]
  have here: "addr64_at UNET_DEST_64 ?r = node_addr64_get (node_data (the_net st))" using addr(2) assms(4) t(6) by simp
  have app: "byte ?r UNET_NEXT_HEADER = NEXT_HEADER_UNET_APP" using r assms(5) size by (simp add: same_content_def)
  have pay: "carries ?r src dst len buffer" by (rule same_content_carries [OF r qok t(3) assms(7,6)])
  have fit: "35 + unat len \<le> 128" using assms(7) qd by simp
  have lis: "listener dst xs st = Some e" using assms(8) t(7) by (simp add: listener_def)
  have cb: "App_Callback st = None" using t(8) assms(9) by simp
  obtain st' where st': "up_ack_dispatch st = Some st'" "copy_payload e st' = Some (take (unat len) buffer)"
    "sender_port (endpoint e st') = src" "sender_address (endpoint e st') = addr64_at UNET_SRC_64 ?r"
    "kernel st' = snd (OSSemPost (the (wake_up_sem (endpoint e st))) (kernel st))"
    by (rule up_dispatch_delivers [OF t(2) here app pay fit lis cb]) (rule that)
  show thesis
    by (rule that [OF t(1) [OF st'(1)]]) (simp_all add: st'(2-5) addr(1) t(7,9))
qed

text \<open>
  C24. End to end, up: a packet for a node, sent into a chain of nodes whose tables hold the route
  to it, reaches the endpoint of that node that listens on its port with the payload, the port and the
  address of its sender, as long as the hop limit allows.
\<close>

theorem up_path_delivers:
  assumes "all_up_ready (addr64_at UNET_DEST_64 p) hops"
    and "addressed source (addr16 (core_net (hd (map snd hops @ [final])))) UNICAST_UP p"
    and "up_route (addr64_at UNET_DEST_64 p) (map snd hops) final"
    and "length hops \<le> unat (byte p UNET_HOP_LIMIT)"
    and "byte p UNET_NEXT_HEADER = NEXT_HEADER_UNET_APP" and "carries p src dst len buffer"
    and "33 + unat len \<le> unat (packet_info_get PKTINFO_SIZE p)"
    and node: "up_ready xs final" "quiet_air a" "node_addr64_get (node_data (core_net final)) = addr64_at UNET_DEST_64 p"
      "listener dst xs (core_stack final) = Some e" "App_Callback (core_stack final) = None"
  shows "\<exists>q ks final'. relayed_up c p hops = Some (q, ks) \<and> packet_get_dest_addr16 q = addr16 (core_net final) \<and>
    run_events ROUTER c (take_up a q) final = Some final' \<and>
    copy_payload e (core_stack final') = Some (take (unat len) buffer) \<and>
    sender_port (endpoint e (core_stack final')) = src \<and>
    sender_address (endpoint e (core_stack final')) = addr64_at UNET_SRC_64 p \<and>
    kernel (core_stack final') = snd (OSSemPost (the (wake_up_sem (endpoint e (core_stack final)))) (kernel (core_stack final)))"
proof -
  obtain q ks where q: "relayed_up c p hops = Some (q, ks)" "same_content p q"
    "addressed (last (source # stations hops)) (addr16 (core_net final)) UNICAST_UP q"
    using relayed_up_path [OF assms(1-4), of c] by blast
  have ok: "packet_ok p" "packet_ok q" "30 \<le> unat (packet_info_get PKTINFO_SIZE p)"
    using assms(2) q(3) by (simp_all add: addressed_def)
  have dest: "packet_get_dest_addr16 q = addr16 (core_net final)" using q(3) by (simp add: addressed_def)
  note addr = same_content_addr64 [OF q(2) ok]
  have app: "byte q UNET_NEXT_HEADER = NEXT_HEADER_UNET_APP" using q(2) assms(5) ok(3) by (simp add: same_content_def)
  have here: "node_addr64_get (node_data (core_net final)) = addr64_at UNET_DEST_64 q" using node(3) addr(2) by simp
  have pay: "carries q src dst len buffer" by (rule same_content_carries [OF q(2) ok(1,2) assms(7,6)])
  have size: "33 + unat len \<le> unat (packet_info_get PKTINFO_SIZE q)" using q(2) assms(7) by (simp add: same_content_def)
  obtain k' where "run_events ROUTER c (take_up a q) final = Some k'"
    "copy_payload e (core_stack k') = Some (take (unat len) buffer)" "sender_port (endpoint e (core_stack k')) = src"
    "sender_address (endpoint e (core_stack k')) = addr64_at UNET_SRC_64 q"
    "kernel (core_stack k') = snd (OSSemPost (the (wake_up_sem (endpoint e (core_stack final)))) (kernel (core_stack final)))"
    by (rule final_up_delivers [OF node(1) q(3) node(2) here app pay size node(4,5), where dev = ROUTER and c = c]) (rule that)
  then show ?thesis using q(1) dest addr(1) by metis
qed

end
