(* ===== verification/Path_Example.thy ===== *)
theory Path_Example
  imports Core_Examples Core_Path_Up
begin

text \<open>A network of three nodes in a line, in which a packet travels from the last node to the first.\<close>

text \<open>A node with the short address \<open>own\<close>, the parent \<open>parent\<close> and the long address \<open>own64\<close>.\<close>

definition station :: "u8 \<Rightarrow> u16 \<Rightarrow> u8 list \<Rightarrow> core" where
  "station own parent own64 = cold_core\<lparr>
     core_stack := sample_stack\<lparr>the_net := (the_net sample_stack)\<lparr>
       node_data := sample_node\<lparr>node_param := (node_param sample_node)[3 := own, 6 := 0], Addr64 := own64\<rparr>,
       unet_neighbourhood := (replicate 8 no_neighbour)[0 := no_neighbour\<lparr>Addr_16b := parent\<rparr>],
       posted := [Radio_RX_Event]\<rparr>\<rparr>,
     timer_link := init_trickle 64 131072, timer_down := init_trickle 64 524288,
     timer_down_retry := init_trickle 64 256, timer_up_retry := init_trickle 64 256\<rparr>"

lemma station_sel:
  "node_data (core_net (station own parent own64)) =
     sample_node\<lparr>node_param := (node_param sample_node)[3 := own, 6 := 0], Addr64 := own64\<rparr>"
  "unet_neighbourhood (core_net (station own parent own64)) = (replicate 8 no_neighbour)[0 := no_neighbour\<lparr>Addr_16b := parent\<rparr>]"
  "endpoints (core_stack (station own parent own64)) = endpoints sample_stack"
  "App_Callback (core_stack (station own parent own64)) = None"
  "posted (core_net (station own parent own64)) = [Radio_RX_Event]"
  by (simp_all add: station_def sample_stack_def)

lemma station_ready:
  assumes "length own64 = 8"
  shows "relay_ready [0] (station own parent own64)"
proof -
  have po: "packet_ok (packet_up (the_net sample_stack))" "packet_ok (packet_down (the_net sample_stack))"
    using sample_packet_ok by (simp_all add: sample_stack_def packet_ok_def)
  have "addresses_distinct ((replicate 8 no_neighbour)[0 := no_neighbour\<lparr>Addr_16b := parent\<rparr>])"
    by (auto simp: addresses_distinct_def nth_upd no_neighbour_def)
  moreover have "node_ok (node_data (core_net (station own parent own64)))" "parent_index_ok (node_data (core_net (station own parent own64)))"
    using assms by (simp_all add: station_sel node_ok_def parent_index_ok_def sample_node_def node_data_get_def)
  ultimately have "net_ok (core_net (station own parent own64))"
    using sample_net_ok po by (simp add: net_ok_def station_def sample_stack_def)
  moreover have "\<forall>x < length (endpoints sample_stack). wake_up_sem (endpoint x sample_stack) \<noteq> None"
    by (auto simp: sample_stack_def sample_endpoint_def less_Suc_eq)
  moreover have "tp_list (core_stack (station own parent own64)) [0]"
    using sample_stack_list by (simp add: station_def tp_list_net)
  moreover have "all_created (core_net (station own parent own64))"
    by (simp add: all_created_def station_def sample_stack_def)
  ultimately have "stack_ok [0] (core_stack (station own parent own64))"
    by (simp add: stack_ok_def station_sel)
  then have "core_ok [0] (station own parent own64)"
    by (simp add: core_ok_def station_def ticking_init cold_core_def)
  then show ?thesis
    using sample_packet_ok
    by (simp add: relay_ready_def available_def station_def cold_core_def sample_stack_def sample_packet_def)
qed

lemma station_fresh: "seq \<noteq> 0 \<Longrightarrow> \<not> link_packet_is_duplicated source seq (core_net (station own parent own64))"
  by (auto simp: link_packet_is_duplicated_def station_sel nth_upd no_neighbour_def Let_def)

lemma station_next:
  "link_get_parent_addr16 (core_net (station own parent own64)) = Some parent"
  "next_seqnum (core_net (station own parent own64)) = 1"
  by (simp_all add: link_get_parent_addr16_def param_def station_sel node_data_get_def sample_node_def next_seqnum_def
      node_seq_num_get_next_def Let_def)

definition calm :: air where
  "calm = \<lparr>air_rssi = 9, air_lqi = 9, air_memory = replicate 128 0, air_ack = (\<lambda>_. Sent_no_ack), air_send = (\<lambda>_. Sent_no_ack)\<rparr>"

text \<open>The payload 7, 8 from port 99 to port 80, in a packet of the kind \<open>type\<close>.\<close>

definition letter_bytes :: "u8 \<Rightarrow> packet" where
  "letter_bytes type = \<lparr>info = (replicate 12 0)[0 := 35, 3 := 0, 4 := 8, 7 := 42],
     bytes = replicate 11 0 @ [1, type, 0, 5, NEXT_HEADER_UNET_APP] @ replicate 8 1 @ replicate 8 2 @ [99, 80, 2, 7, 8] @ replicate 91 0,
     state = PACKET_IN_ROUTE\<rparr>"

definition letter :: "u8 \<Rightarrow> packet" where
  "letter type = ieee802154_header_set DATA_FRAME ACK_REQ_TRUE sample_node (letter_bytes type)"

lemma letter_ok: "packet_ok (letter_bytes type)"
  by (simp add: packet_ok_def letter_bytes_def)

lemma letter_byte: "11 \<le> i \<Longrightarrow> byte (letter type) i = byte (letter_bytes type) i"
  unfolding letter_def by (rule header_set_bytes(9) [OF letter_ok])

lemma letter_addressed: "addressed 7 8 type (letter type)"
proof -
  have "node_data_get_16b NODE_ADDR16 sample_node = 7" "packet_get_dest_addr16 (letter_bytes type) = 8"
    by (simp_all add: node_data_get_16b_def node_data_get_def sample_node_def packet_get_dest_addr16_def join16_def
        letter_bytes_def packet_info_get_def)
  then show ?thesis
    using addressed_header_set [OF letter_ok, of type sample_node]
    by (simp add: letter_def letter_bytes_def packet_info_get_def nth_append)
qed

lemma letter_info: "packet_info_get PKTINFO_SEQNUM (letter type) = 42" "packet_info_get PKTINFO_SIZE (letter type) = 35"
  by (simp_all add: letter_def packet_info_get_def letter_bytes_def)

lemma letter_length: "length (bytes (letter type)) = 128"
  using letter_addressed [of type] by (simp add: addressed_def packet_ok_def)

lemma letter_dest: "addr64_at UNET_DEST_64 (letter type) = replicate 8 2"
  by (rule nth_equalityI) (auto simp: addr64_at_def letter_length letter_byte letter_bytes_def nth_append)

lemma letter_carries: "carries (letter type) 99 80 2 [7, 8]"
proof -
  have "take 2 (drop 35 (bytes (letter type))) = [7, 8]"
    by (rule nth_equalityI) (auto simp: letter_length letter_byte letter_bytes_def nth_append less_Suc_eq numeral_2_eq_2)
  then show ?thesis by (simp add: carries_def letter_byte letter_bytes_def nth_append)
qed

lemma letter_header:
  "byte (letter type) UNET_HOP_LIMIT = 5" "byte (letter type) UNET_NEXT_HEADER = NEXT_HEADER_UNET_APP"
  "33 + unat (2 :: u8) \<le> unat (packet_info_get PKTINFO_SIZE (letter type))"
  by (simp_all add: letter_byte letter_bytes_def nth_append letter_info)

lemma station_addr16: "addr16 (core_net (station own parent own64)) = ucast own"
  by (simp add: station_sel node_data_get_16b_def node_data_get_def sample_node_def)

lemma calm_quiet: "quiet_air calm"
  by (simp add: quiet_air_def calm_def)

lemma last_station:
  "node_addr64_get (node_data (core_net (station 9 0 (replicate 8 2)))) = addr64_at UNET_DEST_64 (letter type)"
  "listener 80 [0] (core_stack (station 9 0 (replicate 8 2))) = Some 0"
  using sample_sems(3) unfolding letter_dest by (simp_all add: station_sel node_addr64_get_def listener_def)

theorem down_path_delivers_witness:
  "\<exists>q ks final'. relayed sample_config (letter UNICAST_DOWN) [(calm, station 8 9 (replicate 8 3))] = Some (q, ks) \<and>
     run_events PAN_COORDINATOR sample_config (take_over calm q) (station 9 0 (replicate 8 2)) = Some final' \<and>
     copy_payload 0 (core_stack final') = Some [7, 8]"
proof -
  let ?p = "letter UNICAST_DOWN" and ?hops = "[(calm, station 8 9 (replicate 8 3))]" and ?final = "station 9 0 (replicate 8 2)"
  have a1: "all_ready (addr64_at UNET_DEST_64 ?p) ?hops"
    using station_ready [of "replicate 8 3" 8 9] calm_quiet unfolding letter_dest
    by (auto simp: all_ready_def station_sel node_addr64_get_def)
  have a2: "addressed 7 (addr16 (core_net (hd (map snd ?hops @ [?final])))) UNICAST_DOWN ?p"
    using letter_addressed by (simp add: station_addr16)
  have a3: "down_path 7 (packet_info_get PKTINFO_SEQNUM ?p) (map snd ?hops) ?final"
    by (simp add: letter_info station_fresh station_next station_addr16)
  have a4: "length ?hops \<le> unat (byte ?p UNET_HOP_LIMIT)" by (simp add: letter_header)
  have a5: "serving [0] ?final"
    using station_ready [of "replicate 8 2" 9 0] by (simp add: relay_ready_def serving_def core_ok_def)
  have a6: "addr16 (core_net (station 7 8 (replicate 8 1))) = 7" by (simp add: station_addr16)
  obtain q ks final' where "relayed sample_config ?p ?hops = Some (q, ks)"
    "run_events PAN_COORDINATOR sample_config (take_over calm q) ?final = Some final'"
    "copy_payload 0 (core_stack final') = Some (take (unat (2 :: u8)) [7, 8])"
    using down_path_delivers [OF a1 a2 a3 a4 letter_header(2) letter_carries letter_header(3) a5 calm_quiet
        last_station station_sel(4) a6, of sample_config] by blast
  moreover have "take (unat (2 :: u8)) [7, 8] = [7, 8 :: u8]" by simp
  ultimately show ?thesis by metis
qed

text \<open>The same line of nodes with a route.\<close>

definition routed_station :: core where
  "routed_station = with_net (unet_router_up_table_entry_add 9 (replicate 8 2) (core_net (station 8 9 (replicate 8 3))))
     (station 8 9 (replicate 8 3))"

lemma station_up_ready: "length own64 = 8 \<Longrightarrow> up_ready [0] (station own parent own64)"
  using station_ready [of own64 own parent]
  by (simp add: relay_ready_def up_ready_def) (simp add: station_def cold_core_def sample_stack_def sample_packet_def)

lemma routed_station_ready: "up_ready [0] routed_station"
proof -
  let ?k = "station 8 9 (replicate 8 3)"
  have k: "up_ready [0] ?k" by (rule station_up_ready) simp
  then have ok: "core_ok [0] ?k" by (simp add: up_ready_def)
  have "core_ok [0] routed_station"
    unfolding routed_station_def
    by (rule core_ok_net [OF ok net_ok_entry_add [OF core_okD(2) [OF ok]], where S = "{}"]) (simp add: posts_same)
  then show ?thesis using k by (simp add: up_ready_def routed_station_def available_def)
qed

theorem up_path_delivers_witness:
  "\<exists>q ks final'. relayed_up sample_config (letter UNICAST_UP) [(calm, routed_station)] = Some (q, ks) \<and>
     run_events ROUTER sample_config (take_up calm q) (station 9 0 (replicate 8 2)) = Some final' \<and>
     copy_payload 0 (core_stack final') = Some [7, 8]"
proof -
  let ?p = "letter UNICAST_UP" and ?hops = "[(calm, routed_station)]" and ?final = "station 9 0 (replicate 8 2)"
  have n: "node_data (core_net routed_station) = node_data (core_net (station 8 9 (replicate 8 3)))" by (simp add: routed_station_def)
  have a1: "all_up_ready (addr64_at UNET_DEST_64 ?p) ?hops"
    using routed_station_ready calm_quiet unfolding letter_dest
    by (auto simp: all_up_ready_def n station_sel node_addr64_get_def)
  have a2: "addressed 7 (addr16 (core_net (hd (map snd ?hops @ [?final])))) UNICAST_UP ?p"
    using letter_addressed by (simp add: n station_addr16)
  have "core_ok [0] (station 8 9 (replicate 8 3))" using station_up_ready [of "replicate 8 3" 8 9] by (simp add: up_ready_def)
  then have a3: "up_route (addr64_at UNET_DEST_64 ?p) (map snd ?hops) ?final"
    unfolding letter_dest by (simp add: routed_station_def route_lookup_add core_okD(2) station_addr16)
  have a4: "length ?hops \<le> unat (byte ?p UNET_HOP_LIMIT)" by (simp add: letter_header)
  have a5: "up_ready [0] ?final" by (rule station_up_ready) simp
  obtain q ks final' where "relayed_up sample_config ?p ?hops = Some (q, ks)"
    "run_events ROUTER sample_config (take_up calm q) ?final = Some final'"
    "copy_payload 0 (core_stack final') = Some (take (unat (2 :: u8)) [7, 8])"
    using up_path_delivers [OF a1 a2 a3 a4 letter_header(2) letter_carries letter_header(3) a5 calm_quiet
        last_station station_sel(4), of sample_config] by blast
  moreover have "take (unat (2 :: u8)) [7, 8] = [7, 8 :: u8]" by simp
  ultimately show ?thesis by metis
qed

end
