(* ===== verification/Word_Queue.thy ===== *)
theory Word_Queue
  imports Queue
begin

text \<open>
  The queues of 16-bit and of 32-bit values of \<^verbatim>\<open>brtos/queue.c\<close>, which the configuration leaves
  out.  They are rings in the same static area as the byte queues, with elements of two or
  four bytes, least significant byte first; their pointers are offsets of bytes into that
  area.  A ring of elements of \<open>k\<close> bytes refines the ring of \<open>Queue\<close> whose memory is the list of
  its elements, so the queues meet the contract \<open>fifo\<close> over 16-bit and 32-bit values.  The
  control block belongs to the caller, so it is an argument and a result.
\<close>

section \<open>Rings of elements of several bytes\<close>

definition load :: "nat \<Rightarrow> nat \<Rightarrow> u8 list \<Rightarrow> u8 list" where
  "load k p mem = take k (drop p mem)"

definition store :: "nat \<Rightarrow> u8 list \<Rightarrow> u8 list \<Rightarrow> u8 list" where
  "store p bs mem = take p mem @ bs @ drop (p + length bs) mem"

definition block_write :: "nat \<Rightarrow> u8 list \<Rightarrow> os_queue \<times> u8 list \<Rightarrow> (os_queue \<times> u8 list) option" where
  "block_write k bs q =
     (let cqueue = fst q; mem = snd q in
      if OSQEntries cqueue < OSQSize cqueue then
        (let c1 = cqueue\<lparr>OSQEntries := OSQEntries cqueue + 1\<rparr>;
             c2 = (if OSQIn c1 = OSQEnd c1 then c1\<lparr>OSQIn := OSQStart c1\<rparr> else c1)
         in Some (c2\<lparr>OSQIn := OSQIn c2 + k\<rparr>, store (OSQIn c2) bs mem))
      else None)"

definition block_read :: "nat \<Rightarrow> os_queue \<times> u8 list \<Rightarrow> (u8 list \<times> os_queue) option" where
  "block_read k q =
     (let cqueue = fst q; mem = snd q in
      if OSQEntries cqueue > 0 then
        (let c1 = (if OSQOut cqueue = OSQEnd cqueue then cqueue\<lparr>OSQOut := OSQStart cqueue\<rparr> else cqueue)
         in Some (load k (OSQOut c1) mem, c1\<lparr>OSQOut := OSQOut c1 + k, OSQEntries := OSQEntries c1 - 1\<rparr>))
      else None)"

text \<open>The ring of elements that a ring of bytes stands for, and when it does.\<close>

definition cells :: "nat \<Rightarrow> os_queue \<times> u8 list \<Rightarrow> os_queue \<times> u8 list list" where
  "cells k q =
     (let c = fst q; n = unat (OSQSize c) in
      (\<lparr>OSQStart = 0, OSQEnd = n, OSQIn = (OSQIn c - OSQStart c) div k,
        OSQOut = (OSQOut c - OSQStart c) div k, OSQSize = OSQSize c, OSQEntries = OSQEntries c\<rparr>,
       map (\<lambda>i. load k (OSQStart c + i * k) (snd q)) [0..<n]))"

definition block_ok :: "nat \<Rightarrow> os_queue \<times> u8 list \<Rightarrow> bool" where
  "block_ok k q \<longleftrightarrow>
     (let c = fst q in
      0 < k \<and> OSQEnd c = OSQStart c + unat (OSQSize c) * k \<and> OSQEnd c \<le> length (snd q) \<and>
      OSQStart c \<le> OSQIn c \<and> k dvd OSQIn c - OSQStart c \<and>
      OSQStart c \<le> OSQOut c \<and> k dvd OSQOut c - OSQStart c \<and> ring_ok (cells k q))"

lemma length_store [simp]: "p + length bs \<le> length mem \<Longrightarrow> length (store p bs mem) = length mem"
  by (simp add: store_def)

lemma nth_store:
  "p + length bs \<le> length mem \<Longrightarrow> i < length mem \<Longrightarrow>
     store p bs mem ! i = (if p \<le> i \<and> i < p + length bs then bs ! (i - p) else mem ! i)"
  by (auto simp: store_def nth_append min_def)

lemma load_store_same: "p + length bs \<le> length mem \<Longrightarrow> load (length bs) p (store p bs mem) = bs"
  by (simp add: load_def store_def)

lemma load_store_other:
  assumes "p + length bs \<le> length mem" and "q + k \<le> length mem" and "q + k \<le> p \<or> p + length bs \<le> q"
  shows "load k q (store p bs mem) = load k q mem"
  using assms by (intro nth_equalityI) (auto simp: load_def nth_store)

lemma cells_store:
  assumes "length bs = k" and "s + n * k \<le> length mem" and "j < n"
  shows "map (\<lambda>i. load k (s + i * k) (store (s + j * k) bs mem)) [0..<n] =
           (map (\<lambda>i. load k (s + i * k) mem) [0..<n])[j := bs]"
proof (rule nth_equalityI)
  fix i assume "i < length (map (\<lambda>i. load k (s + i * k) (store (s + j * k) bs mem)) [0..<n])"
  then have i: "i < n" by simp
  have fit: "s + i * k + k \<le> length mem" if "i < n" for i
  proof -
    have "(i + 1) * k \<le> n * k" using that by (intro mult_le_mono1) simp
    then show ?thesis using assms(2) by simp
  qed
  have "load k (s + i * k) (store (s + j * k) bs mem) = load k (s + i * k) mem" if "i \<noteq> j"
  proof (rule load_store_other)
    have "i * k + k \<le> j * k \<or> j * k + k \<le> i * k"
      using that mult_le_mono1 [of "Suc i" j k] mult_le_mono1 [of "Suc j" i k]
      by (cases "i < j") auto
    then show "s + i * k + k \<le> s + j * k \<or> s + j * k + length bs \<le> s + i * k"
      using assms(1) by auto
  qed (use fit i assms in auto)
  moreover have "load k (s + j * k) (store (s + j * k) bs mem) = bs"
    using load_store_same [of "s + j * k" bs mem] fit [OF assms(3)] assms(1) by simp
  ultimately show "map (\<lambda>i. load k (s + i * k) (store (s + j * k) bs mem)) [0..<n] ! i =
      (map (\<lambda>i. load k (s + i * k) mem) [0..<n])[j := bs] ! i"
    using i by (cases "i = j") auto
qed simp

lemma block_okE:
  assumes "block_ok k (c, mem)"
  obtains i j where "0 < k" "OSQIn c = OSQStart c + i * k" "OSQOut c = OSQStart c + j * k"
    "OSQEnd c = OSQStart c + unat (OSQSize c) * k" "OSQEnd c \<le> length mem"
    "cells k (c, mem) =
       (\<lparr>OSQStart = 0, OSQEnd = unat (OSQSize c), OSQIn = i, OSQOut = j, OSQSize = OSQSize c,
         OSQEntries = OSQEntries c\<rparr>,
        map (\<lambda>i. load k (OSQStart c + i * k) mem) [0..<unat (OSQSize c)])"
    "ring_ok (cells k (c, mem))" "i \<le> unat (OSQSize c)" "j \<le> unat (OSQSize c)"
proof -
  have b: "0 < k" "OSQEnd c = OSQStart c + unat (OSQSize c) * k" "OSQEnd c \<le> length mem"
    "OSQStart c \<le> OSQIn c" "k dvd OSQIn c - OSQStart c"
    "OSQStart c \<le> OSQOut c" "k dvd OSQOut c - OSQStart c" "ring_ok (cells k (c, mem))"
    using assms by (simp_all add: block_ok_def Let_def)
  obtain i where "OSQIn c - OSQStart c = i * k"
    using b(5) by (metis dvdE mult.commute)
  then have i: "OSQIn c = OSQStart c + i * k" using b(4) by simp
  obtain j where "OSQOut c - OSQStart c = j * k"
    using b(7) by (metis dvdE mult.commute)
  then have j: "OSQOut c = OSQStart c + j * k" using b(6) by simp
  have cl: "cells k (c, mem) =
       (\<lparr>OSQStart = 0, OSQEnd = unat (OSQSize c), OSQIn = i, OSQOut = j, OSQSize = OSQSize c,
         OSQEntries = OSQEntries c\<rparr>,
        map (\<lambda>i. load k (OSQStart c + i * k) mem) [0..<unat (OSQSize c)])"
    using i j b(1) by (simp add: cells_def Let_def)
  show thesis
    using that [OF b(1) i j b(2,3) cl b(8)] ring_okD(5,7) [OF b(8)] cl by simp
qed

lemma block_okI:
  assumes "0 < k" "OSQEnd c = OSQStart c + unat (OSQSize c) * k" "OSQEnd c \<le> length mem"
    "OSQIn c = OSQStart c + i * k" "OSQOut c = OSQStart c + j * k" "ring_ok (cells k (c, mem))"
  shows "block_ok k (c, mem)"
  using assms by (simp add: block_ok_def Let_def)

text \<open>The refinement: writing and reading an element is writing and reading a cell.\<close>

lemma block_write_cells:
  assumes ok: "block_ok k q" and len: "length bs = k"
  shows "ring_write bs (cells k q) = map_option (cells k) (block_write k bs q)"
    and "block_write k bs q = Some q' \<Longrightarrow> block_ok k q' \<and> length (snd q') = length (snd q)"
proof -
  obtain c mem where q: "q = (c, mem)" by (cases q)
  obtain i j where b: "0 < k" "OSQIn c = OSQStart c + i * k" "OSQOut c = OSQStart c + j * k"
    "OSQEnd c = OSQStart c + unat (OSQSize c) * k" "OSQEnd c \<le> length mem"
    and cl: "cells k (c, mem) =
       (\<lparr>OSQStart = 0, OSQEnd = unat (OSQSize c), OSQIn = i, OSQOut = j, OSQSize = OSQSize c,
         OSQEntries = OSQEntries c\<rparr>,
        map (\<lambda>i. load k (OSQStart c + i * k) mem) [0..<unat (OSQSize c)])"
    and r: "ring_ok (cells k (c, mem))" and ij: "i \<le> unat (OSQSize c)" "j \<le> unat (OSQSize c)"
    using ok unfolding q by (rule block_okE)
  let ?n = "unat (OSQSize c)"
  define x where "x = (if i = ?n then 0 else i)"
  have full: "block_write k bs q = None" if "\<not> OSQEntries c < OSQSize c"
    using that by (simp add: q block_write_def)
  have room: "block_write k bs q = Some (c\<lparr>OSQEntries := OSQEntries c + 1, OSQIn := OSQStart c + Suc x * k\<rparr>,
      store (OSQStart c + x * k) bs mem) \<and> x < ?n" if "OSQEntries c < OSQSize c"
    using that b ij by (auto simp: q block_write_def Let_def x_def word_less_nat_alt)
  have step: "ring_write bs (cells k q) = Some (cells k (c\<lparr>OSQEntries := OSQEntries c + 1,
      OSQIn := OSQStart c + Suc x * k\<rparr>, store (OSQStart c + x * k) bs mem))"
    if "OSQEntries c < OSQSize c"
  proof -
    have "s + Suc x * k - s = Suc x * k" for s by simp
    then show ?thesis
      using that room [OF that] b cells_store [OF len, of "OSQStart c" ?n mem x]
      unfolding q cl by (simp add: ring_write_def cells_def Let_def x_def del: mult_Suc)
  qed
  show "ring_write bs (cells k q) = map_option (cells k) (block_write k bs q)"
    using full room step by (cases "OSQEntries c < OSQSize c") (auto simp: q cl ring_write_def)
  show "block_write k bs q = Some q' \<Longrightarrow> block_ok k q' \<and> length (snd q') = length (snd q)"
  proof -
    assume w: "block_write k bs q = Some q'"
    then have e: "OSQEntries c < OSQSize c" using full by fastforce
    have "ring_write bs (cells k q) = Some (cells k q')"
      using step [OF e] room [OF e] w by simp
    moreover have "length (ring_contents (cells k q)) < ring_size (cells k q)"
      using e by (simp add: q cl ring_contents_def ring_size_def word_less_nat_alt)
    ultimately have "ring_ok (cells k q')"
      using ring_write_ok [of "cells k q" bs] r by (auto simp: q)
    moreover have "(x + 1) * k \<le> ?n * k"
      using room [OF e] by (intro mult_le_mono1) simp
    then have "length (store (OSQStart c + x * k) bs mem) = length mem"
      using b(4,5) len by (intro length_store) simp
    ultimately show ?thesis
      using room [OF e] w b by (auto intro!: block_okI [of _ _ _ "Suc x" j] simp: q)
  qed
qed

lemma block_read_cells:
  assumes ok: "block_ok k q"
  shows "ring_read (cells k q) = map_option (\<lambda>(bs, c). (bs, cells k (c, snd q))) (block_read k q)"
    and "block_read k q = Some (bs, c') \<Longrightarrow> block_ok k (c', snd q) \<and> length bs = k"
proof -
  obtain c mem where q: "q = (c, mem)" by (cases q)
  obtain i j where b: "0 < k" "OSQIn c = OSQStart c + i * k" "OSQOut c = OSQStart c + j * k"
    "OSQEnd c = OSQStart c + unat (OSQSize c) * k" "OSQEnd c \<le> length mem"
    and cl: "cells k (c, mem) =
       (\<lparr>OSQStart = 0, OSQEnd = unat (OSQSize c), OSQIn = i, OSQOut = j, OSQSize = OSQSize c,
         OSQEntries = OSQEntries c\<rparr>,
        map (\<lambda>i. load k (OSQStart c + i * k) mem) [0..<unat (OSQSize c)])"
    and r: "ring_ok (cells k (c, mem))" and ij: "i \<le> unat (OSQSize c)" "j \<le> unat (OSQSize c)"
    using ok unfolding q by (rule block_okE)
  let ?n = "unat (OSQSize c)"
  define y where "y = (if j = ?n then 0 else j)"
  have none: "block_read k q = None" if "\<not> OSQEntries c > 0"
    using that by (simp add: q block_read_def)
  have some: "block_read k q = Some (load k (OSQStart c + y * k) mem,
      c\<lparr>OSQOut := OSQStart c + Suc y * k, OSQEntries := OSQEntries c - 1\<rparr>) \<and> y < ?n"
    if "OSQEntries c > 0"
  proof -
    have "?n \<noteq> 0"
      using that ring_okD(3) [OF r] by (simp add: cl word_less_nat_alt)
    then show ?thesis
      using that b ij by (auto simp: q block_read_def Let_def y_def)
  qed
  have step: "ring_read (cells k q) = Some (load k (OSQStart c + y * k) mem,
      cells k (c\<lparr>OSQOut := OSQStart c + Suc y * k, OSQEntries := OSQEntries c - 1\<rparr>, mem))"
    if "OSQEntries c > 0"
  proof -
    have "s + Suc y * k - s = Suc y * k" for s by simp
    then show ?thesis
      using that some [OF that] b ij(2) unfolding q cl
      by (cases "j = ?n") (simp_all add: ring_read_def ring_take_def cells_def Let_def y_def del: mult_Suc)
  qed
  show "ring_read (cells k q) = map_option (\<lambda>(bs, c). (bs, cells k (c, snd q))) (block_read k q)"
    using none some step by (cases "OSQEntries c > 0") (auto simp: q cl ring_read_def)
  show "block_read k q = Some (bs, c') \<Longrightarrow> block_ok k (c', snd q) \<and> length bs = k"
  proof -
    assume w: "block_read k q = Some (bs, c')"
    then have e: "OSQEntries c > 0" using none by fastforce
    have "ring_read (cells k q) = Some (bs, cells k (c', mem))"
      using step [OF e] some [OF e] w by simp
    moreover obtain d ds where "ring_contents (cells k q) = d # ds"
      using e by (cases "ring_contents (cells k q)")
        (auto simp: q cl ring_contents_def word_less_nat_alt)
    ultimately have "ring_ok (cells k (c', mem))"
      using ring_read_ok [of "cells k q" d ds] r by (auto simp: q)
    moreover have "(y + 1) * k \<le> ?n * k"
      using some [OF e] by (intro mult_le_mono1) simp
    then have "length (load k (OSQStart c + y * k) mem) = k"
      using b(4,5) by (simp add: load_def)
    ultimately show ?thesis
      using some [OF e] w b by (auto intro!: block_okI [of _ _ _ i "Suc y"] simp: q)
  qed
qed

section \<open>Values as bytes\<close>

definition bytes16 :: "u16 \<Rightarrow> u8 list" where
  "bytes16 d = [ucast d, ucast (drop_bit 8 d)]"

definition bytes32 :: "u32 \<Rightarrow> u8 list" where
  "bytes32 d = [ucast d, ucast (drop_bit 8 d), ucast (drop_bit 16 d), ucast (drop_bit 24 d)]"

definition value16 :: "u8 list \<Rightarrow> u16" where
  "value16 bs = ucast (bs ! 0) OR push_bit 8 (ucast (bs ! 1))"

definition value32 :: "u8 list \<Rightarrow> u32" where
  "value32 bs = ucast (bs ! 0) OR push_bit 8 (ucast (bs ! 1)) OR
     push_bit 16 (ucast (bs ! 2)) OR push_bit 24 (ucast (bs ! 3))"

lemma value16_bytes16 [simp]: "value16 (bytes16 d) = d"
  by (rule bit_word_eqI) (auto simp: value16_def bytes16_def bit_simps)

lemma value32_bytes32 [simp]: "value32 (bytes32 d) = d"
proof (rule bit_word_eqI)
  fix n assume "n < LENGTH(32)"
  then show "bit (value32 (bytes32 d)) n = bit d n"
    by (cases "n < 24"; cases "n < 16") (auto simp: value32_def bytes32_def bit_simps)
qed

lemma length_bytes [simp]: "length (bytes16 d) = 2" "length (bytes32 e) = 4"
  by (simp_all add: bytes16_def bytes32_def)

section \<open>The calls on 16-bit queues\<close>

text \<open>
  The product \<^verbatim>\<open>size*sizeof(uint16_t)\<close> has the 16 bits of a \<open>size_t\<close>.
\<close>

definition OSQueue16Create :: "u16 \<Rightarrow> os \<Rightarrow> u8 \<times> os_queue option \<times> os" where
  "OSQueue16Create size0 os =
     (if iNesting os > 0 then (IRQ_PEND_ERR, None, os)
      else
        (let size = (if size0 * 2 mod 4 \<noteq> 0 then size0 + 1 else size0);
             words = size * 2 div 4 in
         if iQueueAddress os + words > of_nat (QUEUE_HEAP_SIZE div sizeof_OS_CPU_TYPE)
         then (NO_MEMORY, None, os)
         else
           (let start = sizeof_OS_CPU_TYPE * unat (iQueueAddress os) in
            (ALLOC_EVENT_OK,
             Some \<lparr>OSQStart = start, OSQEnd = start + 2 * unat size, OSQIn = start, OSQOut = start,
                   OSQSize = size, OSQEntries = 0\<rparr>,
             os\<lparr>iQueueAddress := iQueueAddress os + words\<rparr>))))"

definition OSWQueue16 :: "os_queue \<Rightarrow> u16 \<Rightarrow> os \<Rightarrow> u8 \<times> os_queue \<times> os" where
  "OSWQueue16 cqueue data os =
     (case block_write 2 (bytes16 data) (cqueue, QUEUE_STACK os) of
        None \<Rightarrow> (BUFFER_UNDERRUN, cqueue, os)
      | Some (c, mem) \<Rightarrow> (WRITE_BUFFER_OK, c, os\<lparr>QUEUE_STACK := mem\<rparr>))"

definition OSRQueue16 :: "os_queue \<Rightarrow> os \<Rightarrow> u8 \<times> u16 option \<times> os_queue" where
  "OSRQueue16 cqueue os =
     (case block_read 2 (cqueue, QUEUE_STACK os) of
        None \<Rightarrow> (NO_ENTRY_AVAILABLE, None, cqueue)
      | Some (bs, c) \<Rightarrow> (READ_BUFFER_OK, Some (value16 bs), c))"

definition OSCleanQueue16 :: "os_queue \<Rightarrow> u8 \<times> os_queue" where
  "OSCleanQueue16 cqueue =
     (CLEAN_BUFFER_OK, cqueue\<lparr>OSQEntries := 0, OSQIn := OSQStart cqueue, OSQOut := OSQStart cqueue\<rparr>)"

section \<open>The calls on 32-bit queues\<close>

definition OSQueue32Create :: "u16 \<Rightarrow> os \<Rightarrow> u8 \<times> os_queue option \<times> os" where
  "OSQueue32Create size0 os =
     (if iNesting os > 0 then (IRQ_PEND_ERR, None, os)
      else
        (let words = size0 * 4 div 4 in
         if iQueueAddress os + words > of_nat (QUEUE_HEAP_SIZE div sizeof_OS_CPU_TYPE)
         then (NO_MEMORY, None, os)
         else
           (let start = sizeof_OS_CPU_TYPE * unat (iQueueAddress os) in
            (ALLOC_EVENT_OK,
             Some \<lparr>OSQStart = start, OSQEnd = start + 4 * unat size0, OSQIn = start, OSQOut = start,
                   OSQSize = size0, OSQEntries = 0\<rparr>,
             os\<lparr>iQueueAddress := iQueueAddress os + words\<rparr>))))"

definition OSWQueue32 :: "os_queue \<Rightarrow> u32 \<Rightarrow> os \<Rightarrow> u8 \<times> os_queue \<times> os" where
  "OSWQueue32 cqueue data os =
     (case block_write 4 (bytes32 data) (cqueue, QUEUE_STACK os) of
        None \<Rightarrow> (BUFFER_UNDERRUN, cqueue, os)
      | Some (c, mem) \<Rightarrow> (WRITE_BUFFER_OK, c, os\<lparr>QUEUE_STACK := mem\<rparr>))"

definition OSRQueue32 :: "os_queue \<Rightarrow> os \<Rightarrow> u8 \<times> u32 option \<times> os_queue" where
  "OSRQueue32 cqueue os =
     (case block_read 4 (cqueue, QUEUE_STACK os) of
        None \<Rightarrow> (NO_ENTRY_AVAILABLE, None, cqueue)
      | Some (bs, c) \<Rightarrow> (READ_BUFFER_OK, Some (value32 bs), c))"

definition OSCleanQueue32 :: "os_queue \<Rightarrow> u8 \<times> os_queue" where
  "OSCleanQueue32 cqueue =
     (CLEAN_BUFFER_OK, cqueue\<lparr>OSQEntries := 0, OSQIn := OSQStart cqueue, OSQOut := OSQStart cqueue\<rparr>)"

section \<open>Both meet the contract of a bounded queue\<close>

definition word_size :: "os_queue \<times> u8 list \<Rightarrow> nat" where
  "word_size q = unat (OSQSize (fst q))"

definition put16 :: "u16 \<Rightarrow> os_queue \<times> u8 list \<Rightarrow> (os_queue \<times> u8 list) option" where
  "put16 d q = block_write 2 (bytes16 d) q"

definition get16 :: "os_queue \<times> u8 list \<Rightarrow> (u16 \<times> os_queue \<times> u8 list) option" where
  "get16 q = map_option (\<lambda>(bs, c). (value16 bs, c, snd q)) (block_read 2 q)"

definition put32 :: "u32 \<Rightarrow> os_queue \<times> u8 list \<Rightarrow> (os_queue \<times> u8 list) option" where
  "put32 d q = block_write 4 (bytes32 d) q"

definition get32 :: "os_queue \<times> u8 list \<Rightarrow> (u32 \<times> os_queue \<times> u8 list) option" where
  "get32 q = map_option (\<lambda>(bs, c). (value32 bs, c, snd q)) (block_read 4 q)"

definition contents16 :: "os_queue \<times> u8 list \<Rightarrow> u16 list" where
  "contents16 q = map value16 (ring_contents (cells 2 q))"

definition contents32 :: "os_queue \<times> u8 list \<Rightarrow> u32 list" where
  "contents32 q = map value32 (ring_contents (cells 4 q))"

lemma ring_size_cells [simp]: "ring_size (cells k q) = word_size q"
  by (simp add: ring_size_def cells_def Let_def word_size_def)

lemma block_ok_ring: "block_ok k q \<Longrightarrow> ring_ok (cells k q)"
  by (simp add: block_ok_def Let_def)

lemma block_put:
  assumes ok: "block_ok k q" and len: "length bs = k"
  shows "length (ring_contents (cells k q)) \<le> word_size q"
    and "length (ring_contents (cells k q)) = word_size q \<Longrightarrow> block_write k bs q = None"
    and "length (ring_contents (cells k q)) < word_size q \<Longrightarrow>
      \<exists>q'. block_write k bs q = Some q' \<and> block_ok k q' \<and>
           ring_contents (cells k q') = ring_contents (cells k q) @ [bs] \<and> word_size q' = word_size q"
proof -
  note r = block_ok_ring [OF ok] and w = block_write_cells [OF ok len]
  show "length (ring_contents (cells k q)) \<le> word_size q"
    using rq.bounded [OF r] by simp
  show "length (ring_contents (cells k q)) = word_size q \<Longrightarrow> block_write k bs q = None"
    using rq.put_full [OF r, of bs] w(1) by simp
  assume "length (ring_contents (cells k q)) < word_size q"
  then obtain x where x: "ring_write bs (cells k q) = Some x"
    "ring_contents x = ring_contents (cells k q) @ [bs]" "ring_size x = word_size q"
    using rq.put_ok [OF r, of bs] by auto
  then obtain q' where q': "block_write k bs q = Some q'" "cells k q' = x"
    using w(1) by auto
  with x w(2) [OF q'(1)] show "\<exists>q'. block_write k bs q = Some q' \<and> block_ok k q' \<and>
      ring_contents (cells k q') = ring_contents (cells k q) @ [bs] \<and> word_size q' = word_size q"
    by (intro exI [of _ q']) auto
qed

lemma block_get:
  assumes ok: "block_ok k q"
  shows "ring_contents (cells k q) = [] \<Longrightarrow> block_read k q = None"
    and "ring_contents (cells k q) = bs # bss \<Longrightarrow>
      \<exists>c. block_read k q = Some (bs, c) \<and> length bs = k \<and> block_ok k (c, snd q) \<and>
          ring_contents (cells k (c, snd q)) = bss \<and> word_size (c, snd q) = word_size q"
proof -
  note r = block_ok_ring [OF ok] and w = block_read_cells [OF ok]
  show "ring_contents (cells k q) = [] \<Longrightarrow> block_read k q = None"
    using rq.get_empty [OF r] w(1) by auto
  assume "ring_contents (cells k q) = bs # bss"
  then obtain x where x: "ring_read (cells k q) = Some (bs, x)" "ring_contents x = bss"
    "ring_size x = word_size q"
    using rq.get_ok [OF r] by fastforce
  then obtain c where c: "block_read k q = Some (bs, c)" "cells k (c, snd q) = x"
    using w(1) by auto
  with x w(2) [OF c(1)] show "\<exists>c. block_read k q = Some (bs, c) \<and> length bs = k \<and>
      block_ok k (c, snd q) \<and> ring_contents (cells k (c, snd q)) = bss \<and>
      word_size (c, snd q) = word_size q"
    by (intro exI [of _ c]) auto
qed

interpretation wq16: fifo "block_ok 2" contents16 word_size put16 get16
proof unfold_locales
  fix q :: "os_queue \<times> u8 list" and d ds
  assume ok: "block_ok 2 q"
  show "length (contents16 q) \<le> word_size q"
    using block_put(1) [OF ok, of "bytes16 0"] by (simp add: contents16_def)
  show "length (contents16 q) = word_size q \<Longrightarrow> put16 d q = None"
    using block_put(2) [OF ok, of "bytes16 d"] by (simp add: contents16_def put16_def)
  show "length (contents16 q) < word_size q \<Longrightarrow> \<exists>q'. put16 d q = Some q' \<and> block_ok 2 q' \<and>
      contents16 q' = contents16 q @ [d] \<and> word_size q' = word_size q"
    using block_put(3) [OF ok, of "bytes16 d"] by (auto simp: contents16_def put16_def)
  show "contents16 q = [] \<Longrightarrow> get16 q = None"
    using block_get(1) [OF ok] by (simp add: contents16_def get16_def)
  show "contents16 q = d # ds \<Longrightarrow> \<exists>q'. get16 q = Some (d, q') \<and> block_ok 2 q' \<and>
      contents16 q' = ds \<and> word_size q' = word_size q"
    using block_get(2) [OF ok] by (fastforce simp: contents16_def get16_def)
qed

interpretation wq32: fifo "block_ok 4" contents32 word_size put32 get32
proof unfold_locales
  fix q :: "os_queue \<times> u8 list" and d ds
  assume ok: "block_ok 4 q"
  show "length (contents32 q) \<le> word_size q"
    using block_put(1) [OF ok, of "bytes32 0"] by (simp add: contents32_def)
  show "length (contents32 q) = word_size q \<Longrightarrow> put32 d q = None"
    using block_put(2) [OF ok, of "bytes32 d"] by (simp add: contents32_def put32_def)
  show "length (contents32 q) < word_size q \<Longrightarrow> \<exists>q'. put32 d q = Some q' \<and> block_ok 4 q' \<and>
      contents32 q' = contents32 q @ [d] \<and> word_size q' = word_size q"
    using block_put(3) [OF ok, of "bytes32 d"] by (auto simp: contents32_def put32_def)
  show "contents32 q = [] \<Longrightarrow> get32 q = None"
    using block_get(1) [OF ok] by (simp add: contents32_def get32_def)
  show "contents32 q = d # ds \<Longrightarrow> \<exists>q'. get32 q = Some (d, q') \<and> block_ok 4 q' \<and>
      contents32 q' = ds \<and> word_size q' = word_size q"
    using block_get(2) [OF ok] by (fastforce simp: contents32_def get32_def)
qed

section \<open>The calls as statements about sequences\<close>

text \<open>A write stays inside the region of its queue.\<close>

lemma block_write_frame:
  assumes ok: "block_ok k (c, mem)" and w: "block_write k bs (c, mem) = Some (c', mem')"
    and len: "length bs = k" and i: "i < OSQStart c \<or> OSQEnd c \<le> i" "i < length mem"
  shows "mem' ! i = mem ! i"
proof -
  obtain a b where o: "0 < k" "OSQIn c = OSQStart c + a * k"
    "OSQEnd c = OSQStart c + unat (OSQSize c) * k" "OSQEnd c \<le> length mem" "a \<le> unat (OSQSize c)"
    and r: "ring_ok (cells k (c, mem))"
    using ok by (rule block_okE)
  define p where "p = (if OSQIn c = OSQEnd c then OSQStart c else OSQIn c)"
  have e: "OSQEntries c < OSQSize c" and m: "mem' = store p bs mem"
    using w by (auto simp: block_write_def Let_def p_def split: if_splits)
  have "OSQStart c \<le> p \<and> p + k \<le> OSQEnd c"
  proof (cases "a = unat (OSQSize c)")
    case True
    then have "OSQIn c = OSQEnd c" using o by simp
    moreover have "1 * k \<le> unat (OSQSize c) * k"
      using e by (intro mult_le_mono1) (simp add: word_less_nat_alt)
    ultimately show ?thesis using o by (simp add: p_def)
  next
    case False
    then have "Suc a * k \<le> unat (OSQSize c) * k"
      using o(5) by (intro mult_le_mono1) simp
    then show ?thesis using o by (auto simp: p_def)
  qed
  then have "OSQStart c \<le> p" "p + length bs \<le> OSQEnd c" using len by simp_all
  then show ?thesis
    using i o(4) by (auto simp: m nth_store)
qed

definition same_outside :: "os_queue \<Rightarrow> os \<Rightarrow> os \<Rightarrow> bool" where
  "same_outside c os os' \<longleftrightarrow>
     os' = os\<lparr>QUEUE_STACK := QUEUE_STACK os'\<rparr> \<and> length (QUEUE_STACK os') = length (QUEUE_STACK os) \<and>
     (\<forall>i < length (QUEUE_STACK os). i < OSQStart c \<or> OSQEnd c \<le> i \<longrightarrow>
        QUEUE_STACK os' ! i = QUEUE_STACK os ! i)"

lemma write16:
  assumes ok: "block_ok 2 (c, QUEUE_STACK os)"
  shows "if length (contents16 (c, QUEUE_STACK os)) = unat (OSQSize c)
    then OSWQueue16 c v os = (BUFFER_UNDERRUN, c, os)
    else (\<exists>c' os'. OSWQueue16 c v os = (WRITE_BUFFER_OK, c', os') \<and> block_ok 2 (c', QUEUE_STACK os') \<and>
           contents16 (c', QUEUE_STACK os') = contents16 (c, QUEUE_STACK os) @ [v] \<and>
           OSQSize c' = OSQSize c \<and> same_outside c os os')"
proof (cases "length (contents16 (c, QUEUE_STACK os)) = unat (OSQSize c)")
  case True
  then show ?thesis
    using wq16.put_full [OF ok, of v] by (simp add: OSWQueue16_def word_size_def put16_def)
next
  case False
  then have "length (contents16 (c, QUEUE_STACK os)) < word_size (c, QUEUE_STACK os)"
    using wq16.bounded [OF ok] by (simp add: word_size_def)
  then obtain c' mem where w: "put16 v (c, QUEUE_STACK os) = Some (c', mem)" "block_ok 2 (c', mem)"
    "contents16 (c', mem) = contents16 (c, QUEUE_STACK os) @ [v]" "OSQSize c' = OSQSize c"
    using wq16.put_ok [OF ok, of v] by (auto simp: word_size_def dest!: word_unat_eq_iff [THEN iffD2])
  then have b: "block_write 2 (bytes16 v) (c, QUEUE_STACK os) = Some (c', mem)"
    by (simp add: put16_def)
  have "same_outside c os (os\<lparr>QUEUE_STACK := mem\<rparr>)"
    using block_write_frame [OF ok b] block_write_cells(2) [OF ok, of "bytes16 v"] b
    by (auto simp: same_outside_def)
  with False w b show ?thesis by (simp add: OSWQueue16_def)
qed

lemma write32:
  assumes ok: "block_ok 4 (c, QUEUE_STACK os)"
  shows "if length (contents32 (c, QUEUE_STACK os)) = unat (OSQSize c)
    then OSWQueue32 c v os = (BUFFER_UNDERRUN, c, os)
    else (\<exists>c' os'. OSWQueue32 c v os = (WRITE_BUFFER_OK, c', os') \<and> block_ok 4 (c', QUEUE_STACK os') \<and>
           contents32 (c', QUEUE_STACK os') = contents32 (c, QUEUE_STACK os) @ [v] \<and>
           OSQSize c' = OSQSize c \<and> same_outside c os os')"
proof (cases "length (contents32 (c, QUEUE_STACK os)) = unat (OSQSize c)")
  case True
  then show ?thesis
    using wq32.put_full [OF ok, of v] by (simp add: OSWQueue32_def word_size_def put32_def)
next
  case False
  then have "length (contents32 (c, QUEUE_STACK os)) < word_size (c, QUEUE_STACK os)"
    using wq32.bounded [OF ok] by (simp add: word_size_def)
  then obtain c' mem where w: "put32 v (c, QUEUE_STACK os) = Some (c', mem)" "block_ok 4 (c', mem)"
    "contents32 (c', mem) = contents32 (c, QUEUE_STACK os) @ [v]" "OSQSize c' = OSQSize c"
    using wq32.put_ok [OF ok, of v] by (auto simp: word_size_def dest!: word_unat_eq_iff [THEN iffD2])
  then have b: "block_write 4 (bytes32 v) (c, QUEUE_STACK os) = Some (c', mem)"
    by (simp add: put32_def)
  have "same_outside c os (os\<lparr>QUEUE_STACK := mem\<rparr>)"
    using block_write_frame [OF ok b] block_write_cells(2) [OF ok, of "bytes32 v"] b
    by (auto simp: same_outside_def)
  with False w b show ?thesis by (simp add: OSWQueue32_def)
qed

lemma read16:
  assumes ok: "block_ok 2 (c, QUEUE_STACK os)"
  shows "case contents16 (c, QUEUE_STACK os) of
     [] \<Rightarrow> OSRQueue16 c os = (NO_ENTRY_AVAILABLE, None, c)
   | v # vs \<Rightarrow> (\<exists>c'. OSRQueue16 c os = (READ_BUFFER_OK, Some v, c') \<and> block_ok 2 (c', QUEUE_STACK os) \<and>
        contents16 (c', QUEUE_STACK os) = vs \<and> OSQSize c' = OSQSize c)"
proof (cases "contents16 (c, QUEUE_STACK os)")
  case Nil
  then show ?thesis
    using wq16.get_empty [OF ok] by (simp add: OSRQueue16_def get16_def)
next
  case (Cons v vs)
  then show ?thesis
    using wq16.get_ok [OF ok Cons] by (auto simp: OSRQueue16_def get16_def word_size_def dest!: word_unat_eq_iff [THEN iffD2])
qed

lemma read32:
  assumes ok: "block_ok 4 (c, QUEUE_STACK os)"
  shows "case contents32 (c, QUEUE_STACK os) of
     [] \<Rightarrow> OSRQueue32 c os = (NO_ENTRY_AVAILABLE, None, c)
   | v # vs \<Rightarrow> (\<exists>c'. OSRQueue32 c os = (READ_BUFFER_OK, Some v, c') \<and> block_ok 4 (c', QUEUE_STACK os) \<and>
        contents32 (c', QUEUE_STACK os) = vs \<and> OSQSize c' = OSQSize c)"
proof (cases "contents32 (c, QUEUE_STACK os)")
  case Nil
  then show ?thesis
    using wq32.get_empty [OF ok] by (simp add: OSRQueue32_def get32_def)
next
  case (Cons v vs)
  then show ?thesis
    using wq32.get_ok [OF ok Cons] by (auto simp: OSRQueue32_def get32_def word_size_def dest!: word_unat_eq_iff [THEN iffD2])
qed

text \<open>
  The queues of 16-bit and of 32-bit values are bounded first-in-first-out sequences: a
  write appends its value or is refused exactly when the queue is full, and changes no byte of
  the shared area outside the region of its queue; a read takes the oldest value, or reports
  that there is none.
\<close>

theorem word_queues_fifo:
  assumes "block_ok 2 (c, QUEUE_STACK os)" and "block_ok 4 (d, QUEUE_STACK os)"
  shows "(if length (contents16 (c, QUEUE_STACK os)) = unat (OSQSize c)
      then OSWQueue16 c v os = (BUFFER_UNDERRUN, c, os)
      else (\<exists>c' os'. OSWQueue16 c v os = (WRITE_BUFFER_OK, c', os') \<and> block_ok 2 (c', QUEUE_STACK os') \<and>
           contents16 (c', QUEUE_STACK os') = contents16 (c, QUEUE_STACK os) @ [v] \<and>
           OSQSize c' = OSQSize c \<and> same_outside c os os')) \<and>
    (case contents16 (c, QUEUE_STACK os) of
       [] \<Rightarrow> OSRQueue16 c os = (NO_ENTRY_AVAILABLE, None, c)
     | x # xs \<Rightarrow> (\<exists>c'. OSRQueue16 c os = (READ_BUFFER_OK, Some x, c') \<and> block_ok 2 (c', QUEUE_STACK os) \<and>
          contents16 (c', QUEUE_STACK os) = xs \<and> OSQSize c' = OSQSize c)) \<and>
    (if length (contents32 (d, QUEUE_STACK os)) = unat (OSQSize d)
      then OSWQueue32 d w os = (BUFFER_UNDERRUN, d, os)
      else (\<exists>d' os'. OSWQueue32 d w os = (WRITE_BUFFER_OK, d', os') \<and> block_ok 4 (d', QUEUE_STACK os') \<and>
           contents32 (d', QUEUE_STACK os') = contents32 (d, QUEUE_STACK os) @ [w] \<and>
           OSQSize d' = OSQSize d \<and> same_outside d os os')) \<and>
    (case contents32 (d, QUEUE_STACK os) of
       [] \<Rightarrow> OSRQueue32 d os = (NO_ENTRY_AVAILABLE, None, d)
     | x # xs \<Rightarrow> (\<exists>d'. OSRQueue32 d os = (READ_BUFFER_OK, Some x, d') \<and> block_ok 4 (d', QUEUE_STACK os) \<and>
          contents32 (d', QUEUE_STACK os) = xs \<and> OSQSize d' = OSQSize d))"
  by (intro conjI write16 read16 write32 read32 assms)

section \<open>Creation and cleaning\<close>

lemma empty_block_ok:
  assumes "0 < k" "OSQEnd c = OSQStart c + unat (OSQSize c) * k" "OSQEnd c \<le> length mem"
    "OSQIn c = OSQStart c" "OSQOut c = OSQStart c" "OSQEntries c = 0"
  shows "block_ok k (c, mem) \<and> ring_contents (cells k (c, mem)) = []"
  using assms by (auto simp: block_ok_def Let_def cells_def ring_ok_def ring_contents_def)

text \<open>
  With a size that fits, creation gives an empty queue in the fresh part of the area.
\<close>

lemma OSQueue16Create_ok:
  assumes "OSQueue16Create n os = (ALLOC_EVENT_OK, Some c, os')" and "unat n \<le> 32766"
    and "length (QUEUE_STACK os) = QUEUE_HEAP_SIZE" and "unat (iQueueAddress os) \<le> 32"
  shows "block_ok 2 (c, QUEUE_STACK os') \<and> contents16 (c, QUEUE_STACK os') = [] \<and>
         OSQStart c = 4 * unat (iQueueAddress os) \<and> OSQEnd c = 4 * unat (iQueueAddress os') \<and>
         unat n \<le> unat (OSQSize c) \<and> unat (OSQSize c) \<le> unat n + 1"
proof -
  define s where "s = (if n * 2 mod 4 \<noteq> 0 then n + 1 else n)"
  have d: "unat (n * 2) = unat n * 2" using assms(2) by (simp add: unat_word_ariths)
  have m: "n * 2 mod 4 = 0 \<longleftrightarrow> even (unat n)"
  proof -
    have "n * 2 mod 4 = 0 \<longleftrightarrow> unat n * 2 mod 4 = 0"
      unfolding d [symmetric] by (simp add: word_unat_eq_iff unat_mod)
    then show ?thesis by presburger
  qed
  have s: "even (unat s)" "unat n \<le> unat s" "unat s \<le> unat n + 1" "unat s \<le> 32767"
    using m assms(2) by (auto simp: unat_word_ariths s_def)
  obtain b where b: "unat s = 2 * b" using s(1) by (elim evenE)
  have w: "unat (s * 2 div 4) = b"
  proof -
    have "unat (s * 2) = unat s * 2" using s(4) by (simp add: unat_word_ariths)
    then show ?thesis by (simp add: unat_div b)
  qed
  have c: "iQueueAddress os + s * 2 div 4 \<le> 32" "iQueueAddress os' = iQueueAddress os + s * 2 div 4"
    "c = \<lparr>OSQStart = 4 * unat (iQueueAddress os), OSQEnd = 4 * unat (iQueueAddress os) + 2 * unat s,
      OSQIn = 4 * unat (iQueueAddress os), OSQOut = 4 * unat (iQueueAddress os), OSQSize = s, OSQEntries = 0\<rparr>"
    "QUEUE_STACK os' = QUEUE_STACK os"
    using assms(1) unfolding OSQueue16Create_def s_def [symmetric]
    by (auto simp: Let_def not_less split: if_split_asm)
  have a: "unat (iQueueAddress os') = unat (iQueueAddress os) + b"
    using w s(4) b assms(4) by (simp add: c(2) unat_word_ariths)
  then have "unat (iQueueAddress os) + b \<le> 32"
    using c(1) unfolding c(2) [symmetric] by (simp add: word_le_nat_alt)
  then have "block_ok 2 (c, QUEUE_STACK os') \<and> ring_contents (cells 2 (c, QUEUE_STACK os')) = []"
    using b assms(3) by (intro empty_block_ok) (auto simp: c(3,4))
  then show ?thesis
    using a b s by (simp add: contents16_def c(3))
qed

text \<open>
  A request of half the address space asks for no words of the area, because its size in bytes
  wraps to zero; the queue is created over memory it does not own.
\<close>

lemma OSQueue16Create_wrap:
  assumes "iNesting os = 0" and "iQueueAddress os \<le> 32" and "length (QUEUE_STACK os) = QUEUE_HEAP_SIZE"
  shows "\<exists>c. OSQueue16Create 32768 os = (ALLOC_EVENT_OK, Some c, os) \<and>
           OSQSize c = 32768 \<and> OSQEnd c > length (QUEUE_STACK os)"
  using assms by (simp add: OSQueue16Create_def Let_def)

lemma OSCleanQueue_ok:
  assumes "block_ok k (c, mem)"
  shows "OSCleanQueue16 c = (CLEAN_BUFFER_OK, snd (OSCleanQueue16 c)) \<and>
         block_ok k (snd (OSCleanQueue16 c), mem) \<and>
         ring_contents (cells k (snd (OSCleanQueue16 c), mem)) = [] \<and>
         OSCleanQueue32 c = OSCleanQueue16 c"
proof -
  have "0 < k" "OSQEnd c = OSQStart c + unat (OSQSize c) * k" "OSQEnd c \<le> length mem"
    using assms by (simp_all add: block_ok_def Let_def)
  then show ?thesis
    using empty_block_ok [of k "snd (OSCleanQueue16 c)" mem]
    by (simp add: OSCleanQueue16_def OSCleanQueue32_def)
qed

section \<open>A concrete run\<close>

definition two_word_queue :: os_queue where
  "two_word_queue = \<lparr>OSQStart = 0, OSQEnd = 4, OSQIn = 2, OSQOut = 0, OSQSize = 2, OSQEntries = 1\<rparr>"

definition one_long_queue :: os_queue where
  "one_long_queue = \<lparr>OSQStart = 4, OSQEnd = 8, OSQIn = 4, OSQOut = 4, OSQSize = 1, OSQEntries = 0\<rparr>"

definition word_queue_state :: os where
  "word_queue_state = os_globals\<lparr>QUEUE_STACK := [0x34, 0x12, 0, 0, 0, 0, 0, 0]\<rparr>"

theorem word_queues_fifo_witness:
  "\<exists>c os. OSWQueue16 two_word_queue 7 word_queue_state = (WRITE_BUFFER_OK, c, os) \<and>
     contents16 (c, QUEUE_STACK os) = [0x1234, 7]"
proof -
  have c: "contents16 (two_word_queue, QUEUE_STACK word_queue_state) = [0x1234]"
    by (simp add: contents16_def cells_def ring_contents_def ring_pos_def two_word_queue_def
        word_queue_state_def load_def value16_def upt_rec Let_def push_bit_eq_mult or_numerals)
  have "block_ok 2 (two_word_queue, QUEUE_STACK word_queue_state)"
    by (simp add: block_ok_def cells_def ring_ok_def two_word_queue_def word_queue_state_def Let_def)
  moreover have "block_ok 4 (one_long_queue, QUEUE_STACK word_queue_state)"
    by (simp add: block_ok_def cells_def ring_ok_def one_long_queue_def word_queue_state_def Let_def)
  moreover have "unat (OSQSize two_word_queue) = 2"
    by (simp add: two_word_queue_def)
  ultimately show ?thesis
    using word_queues_fifo [of two_word_queue word_queue_state one_long_queue 7 0] c by auto
qed

end
