(* ===== verification/Dynamic_Queue.thy ===== *)
theory Dynamic_Queue
  imports Word_Queue
begin

text \<open>
  The dynamic queues of \<^verbatim>\<open>brtos/queue.c\<close>, which the configuration leaves out: queues of elements
  of any size in allocated memory, with a wait list.  \<^verbatim>\<open>BRTOS_ALLOC\<close> and \<^verbatim>\<open>BRTOS_DEALLOC\<close> are
  macros of the configuration, so the allocator, its state and the contents of fresh memory
  are parameters; what is asked of an allocator is the hypothesis \<open>allocator_ok\<close>.  The objects
  that live in allocated blocks are maps from addresses: queue handlers, buffers and control
  blocks.  The pointers of a handler into its buffer are offsets into that block.  \<open>None\<close> is a
  use of an address where no such object lives, or an access outside a buffer.  An element
  written or read is the list of bytes that the caller's pointer addresses.
\<close>

section \<open>The state\<close>

record os_dqueue =
  DQStart :: nat
  DQEnd :: nat
  DQIn :: nat
  DQOut :: nat
  OSQTSize :: u16
  OSQLength :: u16
  DQEntries :: u16

record 'h dyn =
  dyn_os :: os
  dyn_heap :: 'h
  handlers :: "nat \<Rightarrow> os_dqueue option"
  buffers :: "nat \<Rightarrow> u8 list option"
  controls :: "nat \<Rightarrow> queue_cb option"

record 'h allocator =
  BRTOS_ALLOC :: "nat \<Rightarrow> 'h \<Rightarrow> nat option \<times> 'h"
  BRTOS_DEALLOC :: "nat \<Rightarrow> 'h \<Rightarrow> 'h"

abbreviation (input) NO_AVAILABLE_MEMORY :: u8 where "NO_AVAILABLE_MEMORY \<equiv> 2"
abbreviation (input) INVALID_PARAMETERS :: u8 where "INVALID_PARAMETERS \<equiv> 3"

text \<open>The sizes of the two structures with 16-bit pointers.\<close>

definition sizeof_OS_DQUEUE :: nat where "sizeof_OS_DQUEUE = 14"
definition sizeof_BRTOS_Queue :: nat where "sizeof_BRTOS_Queue = 10"

section \<open>The operations\<close>

text \<open>
  \<open>raw\<close> and \<open>raw_event\<close> are what fresh memory holds: the creation does not set
  \<open>OSEventAllocated\<close>.
\<close>

definition OSDQueueCreate ::
  "'h allocator \<Rightarrow> (nat \<Rightarrow> u8) \<Rightarrow> queue_cb \<Rightarrow> u16 \<Rightarrow> u32 \<Rightarrow> 'h dyn \<Rightarrow> u8 \<times> nat option \<times> 'h dyn" where
  "OSDQueueCreate al raw raw_event queue_length type_size s =
     (if iNesting (dyn_os s) > 0 then (IRQ_PEND_ERR, None, s)
      else if queue_length > 0 \<and> type_size > 0 then
        (case BRTOS_ALLOC al sizeof_OS_DQUEUE (dyn_heap s) of
           (None, h1) \<Rightarrow> (NO_AVAILABLE_MEMORY, None, s\<lparr>dyn_heap := h1\<rparr>)
         | (Some cqueue, h1) \<Rightarrow>
             (let size_in_bytes = ucast (ucast queue_length * type_size) :: u16 in
              case BRTOS_ALLOC al (unat size_in_bytes) h1 of
                (None, h2) \<Rightarrow>
                  (NO_AVAILABLE_MEMORY, None, s\<lparr>dyn_heap := BRTOS_DEALLOC al cqueue h2\<rparr>)
              | (Some start, h2) \<Rightarrow>
                  (case BRTOS_ALLOC al sizeof_BRTOS_Queue h2 of
                     (None, h3) \<Rightarrow>
                       (NO_AVAILABLE_EVENT, None,
                        s\<lparr>dyn_heap := BRTOS_DEALLOC al cqueue (BRTOS_DEALLOC al start h3)\<rparr>)
                   | (Some pont_event, h3) \<Rightarrow>
                       (let c = \<lparr>DQStart = start, DQEnd = unat size_in_bytes, DQIn = 0, DQOut = 0,
                                 OSQTSize = ucast type_size, OSQLength = queue_length, DQEntries = 0\<rparr>;
                            e = raw_event\<lparr>OSEventPointer := cqueue, OSEventWait := 0,
                                  OSEventWaitList := 0\<rparr>
                        in (ALLOC_EVENT_OK, Some pont_event,
                            s\<lparr>dyn_heap := h3,
                              handlers := (handlers s)(cqueue \<mapsto> c),
                              buffers := (buffers s)(start \<mapsto> map raw [0..<unat size_in_bytes]),
                              controls := (controls s)(pont_event \<mapsto> e)\<rparr>)))))
      else (INVALID_PARAMETERS, None, s))"

text \<open>\<^verbatim>\<open>*event\<close> is an argument and a result; afterwards it is NULL, here \<open>None\<close>.\<close>

definition OSDQueueDelete :: "'h allocator \<Rightarrow> nat \<Rightarrow> 'h dyn \<Rightarrow> (u8 \<times> nat option \<times> 'h dyn) option" where
  "OSDQueueDelete al event s = do {
     e \<leftarrow> controls s event;
     if iNesting (dyn_os s) > 0 then Some (IRQ_PEND_ERR, Some event, s)
     else do {
       c \<leftarrow> handlers s (OSEventPointer e);
       Some (DELETE_EVENT_OK, None,
         s\<lparr>dyn_heap := BRTOS_DEALLOC al event
                         (BRTOS_DEALLOC al (OSEventPointer e) (BRTOS_DEALLOC al (DQStart c) (dyn_heap s))),
           handlers := (handlers s)(OSEventPointer e := None),
           buffers := (buffers s)(DQStart c := None),
           controls := (controls s)(event := None)\<rparr>)
     }
   }"

definition OSDQueueClean :: "nat \<Rightarrow> 'h dyn \<Rightarrow> (u8 \<times> 'h dyn) option" where
  "OSDQueueClean pont_event s = do {
     e \<leftarrow> controls s pont_event;
     c \<leftarrow> handlers s (OSEventPointer e);
     Some (CLEAN_BUFFER_OK,
       s\<lparr>handlers := (handlers s)(OSEventPointer e \<mapsto> c\<lparr>DQEntries := 0, DQIn := 0, DQOut := 0\<rparr>)\<rparr>)
   }"

text \<open>The two copying loops, byte by byte.\<close>

fun copy_out :: "nat \<Rightarrow> u8 list \<Rightarrow> nat \<Rightarrow> u8 list \<Rightarrow> (u8 list \<times> nat) option" where
  "copy_out 0 buf p dst = Some (dst, p)"
| "copy_out (Suc n) buf p dst =
     (if p < length buf then copy_out n buf (p + 1) (dst @ [buf ! p]) else None)"

fun copy_in :: "nat \<Rightarrow> u8 list \<Rightarrow> u8 list \<Rightarrow> nat \<Rightarrow> (u8 list \<times> nat) option" where
  "copy_in 0 src buf p = Some (buf, p)"
| "copy_in (Suc n) [] buf p = None"
| "copy_in (Suc n) (x # src) buf p =
     (if p < length buf then copy_in n src (buf[p := x]) (p + 1) else None)"

text \<open>The reading half, which \<open>OSDQueuePend\<close> has twice.\<close>

definition dqueue_take :: "nat \<Rightarrow> nat \<Rightarrow> 'h dyn \<Rightarrow> (u8 list \<times> 'h dyn) option" where
  "dqueue_take cqueue n s = do {
     c \<leftarrow> handlers s cqueue;
     let c1 = (if DQOut c = DQEnd c then c\<lparr>DQOut := 0\<rparr> else c);
     buf \<leftarrow> buffers s (DQStart c1);
     (dst, p) \<leftarrow> copy_out n buf (DQOut c1) [];
     Some (dst, s\<lparr>handlers := (handlers s)(cqueue \<mapsto> c1\<lparr>DQOut := p, DQEntries := DQEntries c1 - 1\<rparr>)\<rparr>)
   }"

definition OSDQueuePend :: "nat \<Rightarrow> u64 \<Rightarrow> 'h dyn \<Rightarrow> ((u8 \<times> u8 list option) call \<times> 'h dyn) option" where
  "OSDQueuePend pont_event time_wait s = do {
     e \<leftarrow> controls s pont_event;
     c \<leftarrow> handlers s (OSEventPointer e);
     if DQEntries c > 0 then do {
       (dst, s1) \<leftarrow> dqueue_take (OSEventPointer e) (unat (OSQTSize c)) s;
       Some (Return (READ_BUFFER_OK, Some dst), s1)
     }
     else if time_wait = NO_TIMEOUT then Some (Return (EXIT_BY_NO_ENTRY_AVAILABLE, None), s)
     else
       (let iPriority = Priority (task (currentTask (dyn_os s)) (dyn_os s))
        in Some (Suspended, s\<lparr>controls := (controls s)(pont_event \<mapsto> wait_enqueue iPriority e),
                             dyn_os := suspend time_wait (dyn_os s)\<rparr>))
   }"

text \<open>The local variables \<open>cqueue\<close>, \<open>n\<close> and \<open>iPriority\<close> survive the context switch.\<close>

definition OSDQueuePend_resume ::
  "nat \<Rightarrow> nat \<Rightarrow> nat \<Rightarrow> nat \<Rightarrow> u64 \<Rightarrow> 'h dyn \<Rightarrow> (u8 \<times> u8 list option \<times> 'h dyn) option" where
  "OSDQueuePend_resume pont_event cqueue n iPriority time_wait s = do {
     e \<leftarrow> controls s pont_event;
     (timed_out, e1, os1) \<leftarrow> wake_up iPriority time_wait e (dyn_os s);
     let s1 = s\<lparr>controls := (controls s)(pont_event \<mapsto> e1), dyn_os := os1\<rparr>;
     if timed_out then Some (TIMEOUT, None, s1)
     else do {
       (dst, s2) \<leftarrow> dqueue_take cqueue n s1;
       Some (READ_BUFFER_OK, Some dst, s2)
     }
   }"

definition OSDQueuePost :: "nat \<Rightarrow> u8 list \<Rightarrow> 'h dyn \<Rightarrow> (u8 \<times> 'h dyn) option" where
  "OSDQueuePost pont_event src s = do {
     e \<leftarrow> controls s pont_event;
     c \<leftarrow> handlers s (OSEventPointer e);
     if DQEntries c < OSQLength c then do {
       let c1 = c\<lparr>DQEntries := DQEntries c + 1\<rparr>;
       let c2 = (if DQIn c1 = DQEnd c1 then c1\<lparr>DQIn := 0\<rparr> else c1);
       buf \<leftarrow> buffers s (DQStart c2);
       (buf', p) \<leftarrow> copy_in (unat (OSQTSize c2)) src buf (DQIn c2);
       let s1 = s\<lparr>handlers := (handlers s)(OSEventPointer e \<mapsto> c2\<lparr>DQIn := p\<rparr>),
                 buffers := (buffers s)(DQStart c2 \<mapsto> buf')\<rparr>;
       if OSEventWait e \<noteq> 0 then
         (let iPriority = waiter e;
              os1 = set_ready iPriority (dyn_os s1);
              os2 = (if iNesting os1 = 0 then ChangeContext os1 else os1)
          in Some (WRITE_BUFFER_OK,
               s1\<lparr>controls := (controls s1)(pont_event \<mapsto> wait_dequeue iPriority e), dyn_os := os2\<rparr>))
       else Some (WRITE_BUFFER_OK, s1)
     }
     else Some (BUFFER_UNDERRUN, s)
   }"

section \<open>The copying loops\<close>

lemma copy_out_load: "p + n \<le> length buf \<Longrightarrow> copy_out n buf p dst = Some (dst @ load n p buf, p + n)"
proof (induction n arbitrary: p dst)
  case 0
  then show ?case by (simp add: load_def)
next
  case (Suc n)
  then have "load (Suc n) p buf = buf ! p # load n (p + 1) buf"
    by (simp add: load_def Cons_nth_drop_Suc [symmetric])
  with Suc show ?case by simp
qed

lemma copy_in_store:
  "p + n \<le> length buf \<Longrightarrow> n \<le> length src \<Longrightarrow>
     copy_in n src buf p = Some (store p (take n src) buf, p + n)"
proof (induction n src buf p rule: copy_in.induct)
  case (3 n x src buf p)
  then have "store (Suc p) (take n src) (buf[p := x]) = store p (x # take n src) buf"
    by (simp add: store_def take_Suc_conv_app_nth)
  with 3 show ?case by simp
qed (simp_all add: store_def)

section \<open>A queue as the sequence of its elements\<close>

definition ring_of :: "os_dqueue \<Rightarrow> os_queue" where
  "ring_of c = \<lparr>OSQStart = 0, OSQEnd = DQEnd c, OSQIn = DQIn c, OSQOut = DQOut c,
     OSQSize = OSQLength c, OSQEntries = DQEntries c\<rparr>"

definition dqueue_view :: "nat \<Rightarrow> 'h dyn \<Rightarrow> (queue_cb \<times> os_dqueue \<times> u8 list) option" where
  "dqueue_view q s = do {
     e \<leftarrow> controls s q;
     c \<leftarrow> handlers s (OSEventPointer e);
     buf \<leftarrow> buffers s (DQStart c);
     Some (e, c, buf)
   }"

definition dqueue_ok :: "nat \<Rightarrow> 'h dyn \<Rightarrow> bool" where
  "dqueue_ok q s =
     (case dqueue_view q s of None \<Rightarrow> False
      | Some (e, c, buf) \<Rightarrow> event_ok e \<and> block_ok (unat (OSQTSize c)) (ring_of c, buf))"

definition dqueue_elements :: "nat \<Rightarrow> 'h dyn \<Rightarrow> u8 list list" where
  "dqueue_elements q s =
     (case dqueue_view q s of None \<Rightarrow> []
      | Some (e, c, buf) \<Rightarrow> ring_contents (cells (unat (OSQTSize c)) (ring_of c, buf)))"

definition dqueue_waiters :: "nat \<Rightarrow> 'h dyn \<Rightarrow> nat set" where
  "dqueue_waiters q s = (case controls s q of None \<Rightarrow> {} | Some e \<Rightarrow> waiters e)"

text \<open>Nothing but the three objects of the queue changes.\<close>

definition only_queue :: "nat \<Rightarrow> 'h dyn \<Rightarrow> 'h dyn \<Rightarrow> bool" where
  "only_queue q s s' \<longleftrightarrow>
     (case dqueue_view q s of None \<Rightarrow> False
      | Some (e, c, buf) \<Rightarrow>
          dyn_heap s' = dyn_heap s \<and>
          (\<forall>a. a \<noteq> q \<longrightarrow> controls s' a = controls s a) \<and>
          (\<forall>a. a \<noteq> OSEventPointer e \<longrightarrow> handlers s' a = handlers s a) \<and>
          (\<forall>a. a \<noteq> DQStart c \<longrightarrow> buffers s' a = buffers s a))"

lemma dqueue_okE:
  assumes "dqueue_ok q s"
  obtains e c buf where "dqueue_view q s = Some (e, c, buf)" "controls s q = Some e"
    "handlers s (OSEventPointer e) = Some c" "buffers s (DQStart c) = Some buf" "event_ok e"
    "block_ok (unat (OSQTSize c)) (ring_of c, buf)"
    "dqueue_elements q s = ring_contents (cells (unat (OSQTSize c)) (ring_of c, buf))"
proof -
  obtain e c buf where v: "dqueue_view q s = Some (e, c, buf)"
    using assms by (auto simp: dqueue_ok_def split: option.splits)
  then show thesis
    using assms that by (auto simp: dqueue_ok_def dqueue_elements_def dqueue_view_def bind_eq_Some_conv)
qed

lemma ring_of_bounds:
  assumes "block_ok k (ring_of c, buf)"
  shows "DQEntries c > 0 \<Longrightarrow> (if DQOut c = DQEnd c then 0 else DQOut c) + k \<le> length buf"
    and "DQEntries c < OSQLength c \<Longrightarrow> (if DQIn c = DQEnd c then 0 else DQIn c) + k \<le> length buf"
proof -
  obtain i j where b: "0 < k" "OSQIn (ring_of c) = OSQStart (ring_of c) + i * k"
    "OSQOut (ring_of c) = OSQStart (ring_of c) + j * k"
    "OSQEnd (ring_of c) = OSQStart (ring_of c) + unat (OSQSize (ring_of c)) * k"
    "OSQEnd (ring_of c) \<le> length buf" "ring_ok (cells k (ring_of c, buf))"
    "i \<le> unat (OSQSize (ring_of c))" "j \<le> unat (OSQSize (ring_of c))"
    using assms by (rule block_okE)
  let ?n = "unat (OSQLength c)"
  have n: "DQIn c = i * k" "DQOut c = j * k" "DQEnd c = ?n * k" "?n * k \<le> length buf" "i \<le> ?n" "j \<le> ?n"
    using b by (simp_all add: ring_of_def)
  have fit: "(if x * k = ?n * k then 0 else x * k) + k \<le> length buf" if "x \<le> ?n" "0 < ?n" for x
  proof (cases "x = ?n")
    case True
    have "k \<le> ?n * k" using that by (cases ?n) simp_all
    then have "k \<le> length buf" using n(4) by (rule le_trans)
    then show ?thesis using True by simp
  next
    case False
    have "Suc x * k \<le> ?n * k" using that False by (intro mult_le_mono1) simp
    then show ?thesis using False n(4) b(1) by simp
  qed
  have "unat (DQEntries c) \<le> ?n"
    using ring_okD(3) [OF b(6)] by (simp add: cells_def ring_of_def Let_def)
  then have pos: "0 < ?n" if "DQEntries c > 0 \<or> DQEntries c < OSQLength c"
    using that by (auto simp: word_less_nat_alt)
  show "DQEntries c > 0 \<Longrightarrow> (if DQOut c = DQEnd c then 0 else DQOut c) + k \<le> length buf"
    unfolding n(2,3) by (rule fit [OF n(6) pos]) simp
  show "DQEntries c < OSQLength c \<Longrightarrow> (if DQIn c = DQEnd c then 0 else DQIn c) + k \<le> length buf"
    unfolding n(1,3) by (rule fit [OF n(5) pos]) simp
qed

lemma dqueue_take_ok:
  assumes v: "dqueue_view q s = Some (e, c, buf)" and ok: "dqueue_ok q s" and d: "DQEntries c > 0"
  shows "\<exists>x c'. dqueue_take (OSEventPointer e) (unat (OSQTSize c)) s =
             Some (x, s\<lparr>handlers := (handlers s)(OSEventPointer e \<mapsto> c')\<rparr>) \<and>
           block_read (unat (OSQTSize c)) (ring_of c, buf) = Some (x, ring_of c') \<and>
           DQStart c' = DQStart c \<and> OSQTSize c' = OSQTSize c \<and> OSQLength c' = OSQLength c"
proof -
  let ?k = "unat (OSQTSize c)" and ?o = "if DQOut c = DQEnd c then 0 else DQOut c"
  let ?c' = "c\<lparr>DQOut := ?o + ?k, DQEntries := DQEntries c - 1\<rparr>"
  have b: "handlers s (OSEventPointer e) = Some c" "buffers s (DQStart c) = Some buf"
    "block_ok ?k (ring_of c, buf)"
    using v ok by (auto simp: dqueue_ok_def dqueue_view_def bind_eq_Some_conv)
  have "copy_out ?k buf ?o [] = Some (load ?k ?o buf, ?o + ?k)"
    using ring_of_bounds(1) [OF b(3) d] copy_out_load [of ?o ?k buf "[]"] by simp
  then have "dqueue_take (OSEventPointer e) ?k s =
      Some (load ?k ?o buf, s\<lparr>handlers := (handlers s)(OSEventPointer e \<mapsto> ?c')\<rparr>)"
    using b by (cases "DQOut c = DQEnd c") (simp_all add: dqueue_take_def Let_def)
  moreover have "block_read ?k (ring_of c, buf) = Some (load ?k ?o buf, ring_of ?c')"
    using d by (cases "DQOut c = DQEnd c") (simp_all add: block_read_def ring_of_def Let_def)
  ultimately show ?thesis
    by (intro exI [of _ "load ?k ?o buf"] exI [of _ ?c']) simp
qed

lemma dqueue_pend_result:
  assumes ok: "dqueue_ok q s"
  shows "case dqueue_elements q s of
      [] \<Rightarrow> OSDQueuePend q NO_TIMEOUT s = Some (Return (EXIT_BY_NO_ENTRY_AVAILABLE, None), s)
    | x # xs \<Rightarrow> (\<exists>s'. OSDQueuePend q w s = Some (Return (READ_BUFFER_OK, Some x), s') \<and>
        dqueue_ok q s' \<and> dqueue_elements q s' = xs \<and> dyn_os s' = dyn_os s \<and> only_queue q s s')"
proof -
  obtain e c buf where v: "dqueue_view q s = Some (e, c, buf)" and b: "controls s q = Some e"
    "handlers s (OSEventPointer e) = Some c" "buffers s (DQStart c) = Some buf" "event_ok e"
    and r: "block_ok (unat (OSQTSize c)) (ring_of c, buf)"
    and el: "dqueue_elements q s = ring_contents (cells (unat (OSQTSize c)) (ring_of c, buf))"
    using ok by (rule dqueue_okE)
  show ?thesis
  proof (cases "dqueue_elements q s")
    case Nil
    then have "DQEntries c = 0"
      unfolding el by (simp add: ring_contents_def cells_def ring_of_def Let_def unat_eq_zero)
    then show ?thesis
      using Nil b by (simp add: OSDQueuePend_def)
  next
    case (Cons x xs)
    then obtain rc where rd: "block_read (unat (OSQTSize c)) (ring_of c, buf) = Some (x, rc)"
      "block_ok (unat (OSQTSize c)) (rc, buf)"
      "ring_contents (cells (unat (OSQTSize c)) (rc, buf)) = xs"
      using block_get(2) [OF r, of x xs] unfolding el by auto
    then have d: "DQEntries c > 0"
      by (simp add: block_read_def ring_of_def Let_def split: if_splits)
    obtain x' c' where t: "dqueue_take (OSEventPointer e) (unat (OSQTSize c)) s =
        Some (x', s\<lparr>handlers := (handlers s)(OSEventPointer e \<mapsto> c')\<rparr>)"
      "block_read (unat (OSQTSize c)) (ring_of c, buf) = Some (x', ring_of c')"
      "DQStart c' = DQStart c" "OSQTSize c' = OSQTSize c"
      using dqueue_take_ok [OF v ok d] by auto
    let ?s' = "s\<lparr>handlers := (handlers s)(OSEventPointer e \<mapsto> c')\<rparr>"
    have "OSDQueuePend q w s = Some (Return (READ_BUFFER_OK, Some x), ?s')"
      using b d t rd(1) by (simp add: OSDQueuePend_def)
    moreover have "dqueue_view q ?s' = Some (e, c', buf)"
      using b t(3) by (simp add: dqueue_view_def)
    ultimately show ?thesis
      using Cons v b(4) rd t(2,4)
      by (auto simp: dqueue_ok_def dqueue_elements_def only_queue_def)
  qed
qed

text \<open>The storing half of a post, and what the wake-up adds.\<close>

lemma dqueue_store_ok:
  assumes v: "dqueue_view q s = Some (e, c, buf)" and ok: "dqueue_ok q s"
    and d: "DQEntries c < OSQLength c" and n: "unat (OSQTSize c) \<le> length src"
  shows "\<exists>c' buf' s1. block_write (unat (OSQTSize c)) (take (unat (OSQTSize c)) src) (ring_of c, buf) =
             Some (ring_of c', buf') \<and>
           DQStart c' = DQStart c \<and> OSQTSize c' = OSQTSize c \<and> OSQLength c' = OSQLength c \<and>
           s1 = s\<lparr>handlers := (handlers s)(OSEventPointer e \<mapsto> c'),
                  buffers := (buffers s)(DQStart c \<mapsto> buf')\<rparr> \<and>
           OSDQueuePost q src s = Some (WRITE_BUFFER_OK,
             if OSEventWait e \<noteq> 0 then
               s1\<lparr>controls := (controls s1)(q \<mapsto> wait_dequeue (waiter e) e),
                  dyn_os := (let os1 = set_ready (waiter e) (dyn_os s)
                             in if iNesting os1 = 0 then ChangeContext os1 else os1)\<rparr>
             else s1)"
proof -
  let ?k = "unat (OSQTSize c)" and ?i = "if DQIn c = DQEnd c then 0 else DQIn c"
  let ?c' = "c\<lparr>DQEntries := DQEntries c + 1, DQIn := ?i + ?k\<rparr>"
  let ?buf' = "store ?i (take ?k src) buf"
  have b: "controls s q = Some e" "handlers s (OSEventPointer e) = Some c" "buffers s (DQStart c) = Some buf"
    "block_ok ?k (ring_of c, buf)"
    using v ok by (auto simp: dqueue_ok_def dqueue_view_def bind_eq_Some_conv)
  have cp: "copy_in ?k src buf ?i = Some (?buf', ?i + ?k)"
    using ring_of_bounds(2) [OF b(4) d] n by (rule copy_in_store)
  have w: "block_write ?k (take ?k src) (ring_of c, buf) = Some (ring_of ?c', ?buf')"
    using d by (cases "DQIn c = DQEnd c") (simp_all add: block_write_def ring_of_def Let_def)
  have p: "OSDQueuePost q src s = Some (WRITE_BUFFER_OK,
      let s1 = s\<lparr>handlers := (handlers s)(OSEventPointer e \<mapsto> ?c'), buffers := (buffers s)(DQStart c \<mapsto> ?buf')\<rparr> in
      if OSEventWait e \<noteq> 0 then
        s1\<lparr>controls := (controls s1)(q \<mapsto> wait_dequeue (waiter e) e),
           dyn_os := (let os1 = set_ready (waiter e) (dyn_os s)
                      in if iNesting os1 = 0 then ChangeContext os1 else os1)\<rparr>
      else s1)"
    using b d cp by (cases "DQIn c = DQEnd c") (simp_all add: OSDQueuePost_def Let_def)
  show ?thesis
    using w p by (intro exI [of _ ?c'] exI [of _ ?buf']) (simp add: Let_def)
qed

lemma dqueue_post_result:
  assumes ok: "dqueue_ok q s" and v: "dqueue_view q s = Some (e, c, buf)"
    and n: "unat (OSQTSize c) \<le> length src"
  shows "if length (dqueue_elements q s) = unat (OSQLength c)
    then OSDQueuePost q src s = Some (BUFFER_UNDERRUN, s)
    else (\<exists>s'. OSDQueuePost q src s = Some (WRITE_BUFFER_OK, s') \<and> dqueue_ok q s' \<and>
           dqueue_elements q s' = dqueue_elements q s @ [take (unat (OSQTSize c)) src] \<and>
           dqueue_waiters q s' = dqueue_waiters q s - {Max (dqueue_waiters q s)} \<and> only_queue q s s')"
proof -
  let ?k = "unat (OSQTSize c)"
  have b: "controls s q = Some e" "handlers s (OSEventPointer e) = Some c" "buffers s (DQStart c) = Some buf"
    "block_ok ?k (ring_of c, buf)" "event_ok e"
    "dqueue_elements q s = ring_contents (cells ?k (ring_of c, buf))"
    using v ok by (auto simp: dqueue_ok_def dqueue_elements_def dqueue_view_def bind_eq_Some_conv)
  have len: "length (dqueue_elements q s) = unat (DQEntries c)"
    unfolding b(6) by (simp add: ring_contents_def cells_def ring_of_def Let_def)
  show ?thesis
  proof (cases "length (dqueue_elements q s) = unat (OSQLength c)")
    case True
    then show ?thesis
      using b len by (simp add: OSDQueuePost_def word_less_nat_alt)
  next
    case False
    have room: "length (ring_contents (cells ?k (ring_of c, buf))) < word_size (ring_of c, buf)"
      using block_put(1) [OF b(4), of "replicate ?k 0"] False
      unfolding b(6) by (simp add: word_size_def ring_of_def)
    then have d: "DQEntries c < OSQLength c"
      using len unfolding b(6) by (simp add: word_size_def ring_of_def word_less_nat_alt)
    have tk: "length (take ?k src) = ?k" using n by simp
    obtain c' buf' s1 where w: "block_write ?k (take ?k src) (ring_of c, buf) = Some (ring_of c', buf')"
      and c': "DQStart c' = DQStart c" "OSQTSize c' = OSQTSize c"
      and s1: "s1 = s\<lparr>handlers := (handlers s)(OSEventPointer e \<mapsto> c'), buffers := (buffers s)(DQStart c \<mapsto> buf')\<rparr>"
      and p: "OSDQueuePost q src s = Some (WRITE_BUFFER_OK,
             if OSEventWait e \<noteq> 0 then
               s1\<lparr>controls := (controls s1)(q \<mapsto> wait_dequeue (waiter e) e),
                  dyn_os := (let os1 = set_ready (waiter e) (dyn_os s)
                             in if iNesting os1 = 0 then ChangeContext os1 else os1)\<rparr>
             else s1)"
      using dqueue_store_ok [OF v ok d n] by blast
    have r: "block_ok ?k (ring_of c', buf')"
      "ring_contents (cells ?k (ring_of c', buf')) = dqueue_elements q s @ [take ?k src]"
      using block_put(3) [OF b(4) tk room] w unfolding b(6) by auto
    let ?e' = "if OSEventWait e \<noteq> 0 then wait_dequeue (waiter e) e else e"
    have e': "OSEventPointer ?e' = OSEventPointer e" "event_ok ?e'" "waiters ?e' = waiters e - {Max (waiters e)}"
      using ev.wake_highest [OF b(5)] b(5) wait_nonzero [OF b(5)] by (auto simp: wait_dequeue_def)
    let ?s' = "snd (the (OSDQueuePost q src s))"
    have s': "controls ?s' = (controls s)(q \<mapsto> ?e')" "handlers ?s' = (handlers s)(OSEventPointer e \<mapsto> c')"
      "buffers ?s' = (buffers s)(DQStart c \<mapsto> buf')" "dyn_heap ?s' = dyn_heap s"
      using b(1) by (auto simp: p s1)
    have "dqueue_view q ?s' = Some (?e', c', buf')"
      unfolding dqueue_view_def s' using e'(1) c'(1) by simp
    then have "dqueue_ok q ?s'" "dqueue_elements q ?s' = dqueue_elements q s @ [take ?k src]"
      using e'(2) r c'(2) by (simp_all add: dqueue_ok_def dqueue_elements_def del: if_split)
    moreover have "dqueue_waiters q ?s' = dqueue_waiters q s - {Max (dqueue_waiters q s)}"
      unfolding dqueue_waiters_def s' using e'(3) b(1) by simp
    moreover have "only_queue q s ?s'"
      using v by (simp add: only_queue_def s')
    ultimately show ?thesis
      using False p by (intro if_not_P [THEN iffD2]) (auto simp del: if_split)
  qed
qed

text \<open>
  C39. A dynamic queue is a bounded first-in-first-out sequence of elements.  A post appends
  the bytes its argument points at, as many as the element size, and releases the waiter of
  highest priority; it is refused exactly when the queue holds as many elements as it was
  created for.  An immediate pend takes the oldest element.  Neither reads or writes outside
  the buffer, and no other queue changes.
\<close>

theorem dqueue_post_pend_fifo:
  assumes "dqueue_ok q s" and "dqueue_view q s = Some (e, c, buf)" and "unat (OSQTSize c) \<le> length src"
  shows "(if length (dqueue_elements q s) = unat (OSQLength c)
     then OSDQueuePost q src s = Some (BUFFER_UNDERRUN, s)
     else (\<exists>s'. OSDQueuePost q src s = Some (WRITE_BUFFER_OK, s') \<and> dqueue_ok q s' \<and>
            dqueue_elements q s' = dqueue_elements q s @ [take (unat (OSQTSize c)) src] \<and>
            dqueue_waiters q s' = dqueue_waiters q s - {Max (dqueue_waiters q s)} \<and> only_queue q s s')) \<and>
    (case dqueue_elements q s of
      [] \<Rightarrow> OSDQueuePend q NO_TIMEOUT s = Some (Return (EXIT_BY_NO_ENTRY_AVAILABLE, None), s)
    | x # xs \<Rightarrow> (\<exists>s'. OSDQueuePend q w s = Some (Return (READ_BUFFER_OK, Some x), s') \<and>
        dqueue_ok q s' \<and> dqueue_elements q s' = xs \<and> dyn_os s' = dyn_os s \<and> only_queue q s s'))"
  using dqueue_post_result [OF assms] dqueue_pend_result [OF assms(1)] by blast

section \<open>Allocation\<close>

text \<open>
  What the code relies on: an allocation either gives a block that was not in use or leaves
  the blocks in use as they are; a release takes exactly its block out of use.
\<close>

definition allocator_ok :: "'h allocator \<Rightarrow> ('h \<Rightarrow> nat set) \<Rightarrow> bool" where
  "allocator_ok al live \<longleftrightarrow>
     (\<forall>n h. case BRTOS_ALLOC al n h of
        (None, h') \<Rightarrow> live h' = live h
      | (Some p, h') \<Rightarrow> p \<notin> live h \<and> live h' = insert p (live h)) \<and>
     (\<forall>p h. live (BRTOS_DEALLOC al p h) = live h - {p})"

lemma alloc_live:
  "allocator_ok al live \<Longrightarrow>
     (case BRTOS_ALLOC al n h of
        (None, h') \<Rightarrow> live h' = live h
      | (Some p, h') \<Rightarrow> p \<notin> live h \<and> live h' = insert p (live h))"
  unfolding allocator_ok_def by (elim conjE allE)

lemma alloc_none: "allocator_ok al live \<Longrightarrow> BRTOS_ALLOC al n h = (None, h') \<Longrightarrow> live h' = live h"
  using alloc_live [where al = al and live = live and n = n and h = h] by simp

lemma alloc_some:
  "allocator_ok al live \<Longrightarrow> BRTOS_ALLOC al n h = (Some p, h') \<Longrightarrow> p \<notin> live h \<and> live h' = insert p (live h)"
  using alloc_live [where al = al and live = live and n = n and h = h] by simp

lemma dealloc_live: "allocator_ok al live \<Longrightarrow> live (BRTOS_DEALLOC al p h) = live h - {p}"
  by (simp add: allocator_ok_def)

lemma OSDQueueCreate_cases:
  assumes al: "allocator_ok al live" and cr: "OSDQueueCreate al raw raw_event n t s = (code, qo, s')"
  obtains "qo = None" "code \<noteq> ALLOC_EVENT_OK" "s' = s\<lparr>dyn_heap := dyn_heap s'\<rparr>"
      "live (dyn_heap s') = live (dyn_heap s)"
  | q h b where "qo = Some q" "code = ALLOC_EVENT_OK" "iNesting (dyn_os s) = 0" "n > 0" "t > 0"
      "s' = s\<lparr>dyn_heap := dyn_heap s',
        handlers := (handlers s)(h \<mapsto> \<lparr>DQStart = b, DQEnd = unat (ucast (ucast n * t) :: u16), DQIn = 0,
          DQOut = 0, OSQTSize = ucast t, OSQLength = n, DQEntries = 0\<rparr>),
        buffers := (buffers s)(b \<mapsto> map raw [0..<unat (ucast (ucast n * t) :: u16)]),
        controls := (controls s)(q \<mapsto> raw_event\<lparr>OSEventPointer := h, OSEventWait := 0, OSEventWaitList := 0\<rparr>)\<rparr>"
      "live (dyn_heap s') = {q, h, b} \<union> live (dyn_heap s)"
      "{q, h, b} \<inter> live (dyn_heap s) = {}" "distinct [q, h, b]"
proof -
  note D = dealloc_live [OF al]
  consider "iNesting (dyn_os s) > 0" | "iNesting (dyn_os s) = 0" "\<not> (n > 0 \<and> t > 0)"
    | "iNesting (dyn_os s) = 0" "n > 0" "t > 0"
    by (auto simp: word_neq_0_conv)
  then show thesis
  proof cases
    case 1
    then show thesis using that(1) cr by (simp add: OSDQueueCreate_def)
  next
    case 2
    then show thesis using that(1) cr by (auto simp: OSDQueueCreate_def)
  next
    case 3
    let ?z = "ucast (ucast n * t) :: u16"
    obtain ho h1 where a1: "BRTOS_ALLOC al sizeof_OS_DQUEUE (dyn_heap s) = (ho, h1)" by fastforce
    show thesis
    proof (cases ho)
      case None
      then show thesis
        using that(1) cr 3 a1 alloc_none [OF al] by (auto simp: OSDQueueCreate_def)
    next
      case (Some h)
      then have l1: "h \<notin> live (dyn_heap s)" "live h1 = insert h (live (dyn_heap s))"
        using alloc_some [OF al] a1 by simp_all
      obtain bo h2 where a2: "BRTOS_ALLOC al (unat ?z) h1 = (bo, h2)" by fastforce
      show thesis
      proof (cases bo)
        case None
        then have "live h2 = live h1" using alloc_none [OF al] a2 by simp
        then show thesis
          using that(1) cr 3 a1 a2 None Some l1 by (auto simp: OSDQueueCreate_def Let_def D)
      next
        case (Some b)
        then have l2: "b \<notin> live h1" "live h2 = insert b (live h1)"
          using alloc_some [OF al] a2 by simp_all
        obtain qo' h3 where a3: "BRTOS_ALLOC al sizeof_BRTOS_Queue h2 = (qo', h3)" by fastforce
        show thesis
        proof (cases qo')
          case None
          then have "live h3 = live h2" using alloc_none [OF al] a3 by simp
          then show thesis
            using that(1) cr 3 a1 a2 a3 None Some \<open>ho = Some h\<close> l1 l2
            by (auto simp: OSDQueueCreate_def Let_def D)
        next
          case (Some q)
          then have l3: "q \<notin> live h2" "live h3 = insert q (live h2)"
            using alloc_some [OF al] a3 by simp_all
          show thesis
            by (rule that(2) [of q h b])
              (use cr 3 a1 a2 a3 Some \<open>ho = Some h\<close> \<open>bo = Some b\<close> l1 l2 l3
               in \<open>auto simp: OSDQueueCreate_def Let_def\<close>)
        qed
      qed
    qed
  qed
qed

text \<open>A queue whose size in bytes fits 16 bits is created empty and well-formed.\<close>

lemma fresh_dqueue_ok:
  assumes "(n :: u16) > 0" and "(t :: u32) > 0" and "unat n * unat t < 2 ^ 16"
    and "controls s q = Some (raw_event\<lparr>OSEventPointer := h, OSEventWait := 0, OSEventWaitList := 0\<rparr>)"
    and "handlers s h = Some \<lparr>DQStart = b, DQEnd = unat (ucast (ucast n * t) :: u16), DQIn = 0,
          DQOut = 0, OSQTSize = ucast t, OSQLength = n, DQEntries = 0\<rparr>"
    and "buffers s b = Some (map raw [0..<unat (ucast (ucast n * t) :: u16)])"
  shows "dqueue_ok q s \<and> dqueue_elements q s = []"
proof -
  have n: "0 < unat n" "0 < unat t"
    using assms(1,2) by (simp_all add: word_less_nat_alt)
  have t16: "unat t < 2 ^ 16"
  proof -
    have "unat t \<le> unat n * unat t" using n by simp
    then show ?thesis using assms(3) by linarith
  qed
  then have t: "unat (ucast t :: u16) = unat t"
    by (simp add: unsigned_ucast_eq take_bit_eq_mod)
  have "unat (ucast n * t) = unat n * unat t"
    using assms(3) unsigned_less [of n, where 'a = nat]
    by (simp add: unat_word_ariths unsigned_ucast_eq take_bit_eq_mod)
  then have z: "unat (ucast (ucast n * t) :: u16) = unat n * unat t"
    using assms(3) by (simp add: unsigned_ucast_eq take_bit_eq_mod)
  let ?c = "\<lparr>DQStart = b, DQEnd = unat n * unat t, DQIn = 0, DQOut = 0, OSQTSize = ucast t,
      OSQLength = n, DQEntries = 0\<rparr>"
  let ?buf = "map raw [0..<unat n * unat t]"
  have "block_ok (unat t) (ring_of ?c, ?buf) \<and> ring_contents (cells (unat t) (ring_of ?c, ?buf)) = []"
    using n by (intro empty_block_ok) (simp_all add: ring_of_def)
  moreover have "dqueue_view q s =
      Some (raw_event\<lparr>OSEventPointer := h, OSEventWait := 0, OSEventWaitList := 0\<rparr>, ?c, ?buf)"
    using assms(4-6) by (simp add: dqueue_view_def z)
  ultimately show ?thesis
    by (simp add: dqueue_ok_def dqueue_elements_def t event_ok_def)
qed

text \<open>
  Creating a dynamic queue is all or nothing, and deleting it undoes it.  With any
  allocator, a creation that fails leaves the blocks in use, and every queue, as they were; one
  that succeeds takes exactly three blocks, none of which was in use, the queue is empty and
  well-formed when its size in bytes fits 16 bits, and deleting it gives exactly these blocks
  back.
\<close>

theorem dqueue_create_delete:
  assumes "allocator_ok al live" and "OSDQueueCreate al raw raw_event n t s = (code, qo, s')"
  shows "case qo of
      None \<Rightarrow> code \<noteq> ALLOC_EVENT_OK \<and> s' = s\<lparr>dyn_heap := dyn_heap s'\<rparr> \<and>
        live (dyn_heap s') = live (dyn_heap s)
    | Some q \<Rightarrow> code = ALLOC_EVENT_OK \<and>
        (unat n * unat t < 2 ^ 16 \<longrightarrow> dqueue_ok q s' \<and> dqueue_elements q s' = []) \<and>
        (\<exists>h b s''. distinct [q, h, b] \<and> {q, h, b} \<inter> live (dyn_heap s) = {} \<and>
           live (dyn_heap s') = {q, h, b} \<union> live (dyn_heap s) \<and>
           OSDQueueDelete al q s' = Some (DELETE_EVENT_OK, None, s'') \<and>
           live (dyn_heap s'') = live (dyn_heap s) \<and> controls s'' = (controls s)(q := None) \<and>
           handlers s'' = (handlers s)(h := None) \<and> buffers s'' = (buffers s)(b := None) \<and>
           dyn_os s'' = dyn_os s)"
  using assms
proof (cases rule: OSDQueueCreate_cases)
  case 1
  show ?thesis
    unfolding 1(1) option.case by (intro conjI) (rule 1(2-4))+
next
  case (2 q h b)
  let ?c = "\<lparr>DQStart = b, DQEnd = unat (ucast (ucast n * t) :: u16), DQIn = 0,
          DQOut = 0, OSQTSize = ucast t, OSQLength = n, DQEntries = 0\<rparr>"
  let ?e = "raw_event\<lparr>OSEventPointer := h, OSEventWait := 0, OSEventWaitList := 0\<rparr>"
  note fields = arg_cong [OF 2(6)]
  have sel: "dyn_os s' = dyn_os s" "controls s' = (controls s)(q \<mapsto> ?e)" "handlers s' = (handlers s)(h \<mapsto> ?c)"
    "buffers s' = (buffers s)(b \<mapsto> map raw [0..<unat (ucast (ucast n * t) :: u16)])"
    using fields [of dyn_os] fields [of controls] fields [of handlers] fields [of buffers] by simp_all
  let ?s'' = "s'\<lparr>dyn_heap := BRTOS_DEALLOC al q (BRTOS_DEALLOC al h (BRTOS_DEALLOC al b (dyn_heap s'))),
      handlers := (handlers s')(h := None), buffers := (buffers s')(b := None),
      controls := (controls s')(q := None)\<rparr>"
  have "OSDQueueDelete al q s' = Some (DELETE_EVENT_OK, None, ?s'')"
    using sel 2(3) by (simp add: OSDQueueDelete_def)
  moreover have "live (dyn_heap ?s'') = live (dyn_heap s)"
    using 2(7,8) by (auto simp: dealloc_live [OF assms(1)])
  moreover have "controls ?s'' = (controls s)(q := None)" "handlers ?s'' = (handlers s)(h := None)"
    "buffers ?s'' = (buffers s)(b := None)" "dyn_os ?s'' = dyn_os s"
    using sel by simp_all
  moreover have "unat n * unat t < 2 ^ 16 \<longrightarrow> dqueue_ok q s' \<and> dqueue_elements q s' = []"
    by (rule impI, rule fresh_dqueue_ok [OF 2(4,5), where raw_event = raw_event and h = h and b = b and raw = raw])
      (simp_all add: sel)
  ultimately show ?thesis
    unfolding 2(1) option.case using 2(2,7-9) by blast
qed

section \<open>Where the dynamic queues go wrong\<close>

text \<open>
  The size in bytes is cut to 16 bits.  A queue of 256 elements of 256 bytes gets a buffer of
  no bytes; it is created without complaint and its first post writes past the buffer.
\<close>

lemma OSDQueueCreate_view:
  assumes "OSDQueueCreate al raw raw_event n t s = (ALLOC_EVENT_OK, Some q, s')"
  shows "\<exists>h b. dqueue_view q s' = Some (raw_event\<lparr>OSEventPointer := h, OSEventWait := 0, OSEventWaitList := 0\<rparr>,
    \<lparr>DQStart = b, DQEnd = unat (ucast (ucast n * t) :: u16), DQIn = 0, DQOut = 0,
     OSQTSize = ucast t, OSQLength = n, DQEntries = 0\<rparr>, map raw [0..<unat (ucast (ucast n * t) :: u16)])"
  using assms
  by (auto simp: OSDQueueCreate_def Let_def dqueue_view_def split: prod.splits option.splits if_splits)

lemma OSDQueueCreate_overflow:
  assumes "OSDQueueCreate al raw raw_event 256 256 s = (ALLOC_EVENT_OK, Some q, s')"
  shows "OSDQueuePost q src s' = None"
proof -
  obtain h b where v: "dqueue_view q s' =
      Some (raw_event\<lparr>OSEventPointer := h, OSEventWait := 0, OSEventWaitList := 0\<rparr>,
        \<lparr>DQStart = b, DQEnd = 0, DQIn = 0, DQOut = 0, OSQTSize = 256, OSQLength = 256, DQEntries = 0\<rparr>, [])"
    using OSDQueueCreate_view [OF assms] by auto
  have "copy_in (Suc 255) src [] 0 = None"
    by (cases src) (simp_all only: copy_in.simps list.size if_False not_less_zero)
  then show ?thesis
    using v by (auto simp: dqueue_view_def bind_eq_Some_conv OSDQueuePost_def Let_def)
qed

text \<open>
  A creation does not mark its control block as allocated: the mark is whatever the fresh
  memory holds, and the checks of \<open>ERROR_CHECK\<close> test it.
\<close>

lemma OSDQueueCreate_mark:
  assumes "OSDQueueCreate al raw raw_event n t s = (ALLOC_EVENT_OK, Some q, s')"
  shows "\<exists>e. controls s' q = Some e \<and> OSEventAllocated e = OSEventAllocated raw_event"
  using assms by (auto simp: OSDQueueCreate_def Let_def split: prod.splits option.splits if_splits)

text \<open>
  A deletion forgets the wait list: the tasks in it are not made ready, and one that is woken
  by its timeout finds no control block.
\<close>

lemma OSDQueueDelete_waiters:
  assumes "OSDQueueDelete al q s = Some (DELETE_EVENT_OK, qo, s')"
  shows "dyn_os s' = dyn_os s \<and> OSDQueuePend_resume q h n p w s' = None"
proof -
  have "dyn_os s' = dyn_os s" "controls s' q = None"
    using assms by (auto simp: OSDQueueDelete_def bind_eq_Some_conv split: if_splits)
  then show ?thesis by (simp add: OSDQueuePend_resume_def)
qed

lemma OSDQueueClean_ok:
  assumes "dqueue_ok q s"
  shows "\<exists>s'. OSDQueueClean q s = Some (CLEAN_BUFFER_OK, s') \<and> dqueue_ok q s' \<and> dqueue_elements q s' = [] \<and>
           only_queue q s s'"
proof -
  obtain e c buf where v: "dqueue_view q s = Some (e, c, buf)" and b: "controls s q = Some e"
    "handlers s (OSEventPointer e) = Some c" "buffers s (DQStart c) = Some buf" "event_ok e"
    and r: "block_ok (unat (OSQTSize c)) (ring_of c, buf)"
    using assms by (rule dqueue_okE)
  let ?c = "c\<lparr>DQEntries := 0, DQIn := 0, DQOut := 0\<rparr>"
  let ?s = "s\<lparr>handlers := (handlers s)(OSEventPointer e \<mapsto> ?c)\<rparr>"
  have "block_ok (unat (OSQTSize c)) (ring_of ?c, buf) \<and>
      ring_contents (cells (unat (OSQTSize c)) (ring_of ?c, buf)) = []"
    using r by (intro empty_block_ok) (simp_all add: block_ok_def Let_def ring_of_def)
  moreover have "dqueue_view q ?s = Some (e, ?c, buf)" "OSDQueueClean q s = Some (CLEAN_BUFFER_OK, ?s)"
    using b by (simp_all add: dqueue_view_def OSDQueueClean_def)
  ultimately show ?thesis
    using v b(4) by (intro exI [of _ ?s]) (simp add: dqueue_ok_def dqueue_elements_def only_queue_def)
qed

section \<open>Concrete runs\<close>

text \<open>An allocator of at most six blocks, whose state is the list of blocks in use.\<close>

definition six_blocks :: "nat list allocator" where
  "six_blocks = \<lparr>BRTOS_ALLOC = (\<lambda>n h. if length h < 6 then (let p = Suc (foldr max h 0) in (Some p, p # h)) else (None, h)),
     BRTOS_DEALLOC = (\<lambda>p h. filter (\<lambda>a. a \<noteq> p) h)\<rparr>"

lemma foldr_max_ge: "a \<in> set h \<Longrightarrow> a \<le> foldr max h (0 :: nat)"
  by (induction h) auto

lemma six_blocks_ok: "allocator_ok six_blocks set"
  using foldr_max_ge by (fastforce simp: allocator_ok_def six_blocks_def Let_def)

definition no_queues :: "nat list dyn" where
  "no_queues = \<lparr>dyn_os = os_globals, dyn_heap = [4], handlers = (\<lambda>a. None), buffers = (\<lambda>a. None),
     controls = (\<lambda>a. None)\<rparr>"

definition unset_control :: queue_cb where
  "unset_control = \<lparr>OSEventAllocated = False, OSEventWait = 3, OSEventWaitList = 1, OSEventPointer = 0\<rparr>"

theorem dqueue_create_delete_witness:
  "\<exists>s s'. OSDQueueCreate six_blocks (\<lambda>i. 0) unset_control 2 3 no_queues = (ALLOC_EVENT_OK, Some 7, s) \<and>
     OSDQueueDelete six_blocks 7 s = Some (DELETE_EVENT_OK, None, s') \<and> set (dyn_heap s') = {4}"
proof -
  obtain s where "OSDQueueCreate six_blocks (\<lambda>i. 0) unset_control 2 3 no_queues = (ALLOC_EVENT_OK, Some 7, s)"
    by (simp add: OSDQueueCreate_def no_queues_def six_blocks_def os_globals_def Let_def)
  then show ?thesis
    using dqueue_create_delete [OF six_blocks_ok] by (fastforce simp: no_queues_def)
qed

definition one_queue :: "nat list dyn" where
  "one_queue = no_queues\<lparr>
     handlers := [5 \<mapsto> \<lparr>DQStart = 6, DQEnd = 4, DQIn = 4, DQOut = 2, OSQTSize = 2, OSQLength = 2, DQEntries = 1\<rparr>],
     buffers := [6 \<mapsto> [1, 2, 3, 4]],
     controls := [7 \<mapsto> \<lparr>OSEventAllocated = True, OSEventWait = 0, OSEventWaitList = 0, OSEventPointer = 5\<rparr>]\<rparr>"

theorem dqueue_post_pend_fifo_witness:
  "\<exists>s'. OSDQueuePost 7 [8, 9, 10] one_queue = Some (WRITE_BUFFER_OK, s') \<and>
     dqueue_elements 7 s' = [[3, 4], [8, 9]]"
proof -
  let ?c = "\<lparr>DQStart = 6, DQEnd = 4, DQIn = 4, DQOut = 2, OSQTSize = 2, OSQLength = 2, DQEntries = 1\<rparr>"
  have v: "dqueue_view 7 one_queue = Some (\<lparr>OSEventAllocated = True, OSEventWait = 0,
      OSEventWaitList = 0, OSEventPointer = 5\<rparr>, ?c, [1, 2, 3, 4])"
    by (simp add: dqueue_view_def one_queue_def)
  have c: "cells 2 (ring_of ?c, [1, 2, 3, 4]) =
      (\<lparr>OSQStart = 0, OSQEnd = 2, OSQIn = 2, OSQOut = 1, OSQSize = 2, OSQEntries = 1\<rparr>, [[1, 2], [3, 4]])"
    by (simp add: cells_def ring_of_def load_def upt_rec Let_def)
  have el: "dqueue_elements 7 one_queue = [[3, 4]]"
    by (simp add: dqueue_elements_def v c) (simp add: ring_contents_def ring_pos_def)
  have "dqueue_ok 7 one_queue"
    by (simp add: dqueue_ok_def v event_ok_def block_ok_def c Let_def) (simp add: ring_of_def ring_ok_def)
  then show ?thesis
    using dqueue_post_pend_fifo [OF _ v, of "[8, 9, 10]"] el by (simp split: if_splits) blast
qed

end
