(* ===== verification/Print.thy ===== *)
theory Print
  imports Prelude "HOL-Library.Signed_Division"
begin

text \<open>
  Formatted output, \<^verbatim>\<open>lib/stdio.c\<close>.  An \<open>int\<close> has 16 bits and a \<open>long\<close> 32, as on the MSP430.
  Both outputs (a buffer through \<^verbatim>\<open>char **out\<close>, and the serial port, whose \<open>putchar\<close> sends one
  character and returns 1) receive the same characters in the same order, so an output is the
  text put so far.  A C string is the list of characters from its pointer on, terminator
  included; what follows the terminator may be there too, since \<^verbatim>\<open>%.*s\<close> reads it.  Arguments
  are the list that \<open>va_arg\<close> consumes.  \<open>None\<close> is undefined behaviour: a read past a string or
  past the table \<open>dv\<close>, a missing argument or one of another type, or a shift past the width.
  The flag \<open>pad\<close> of the code is written and never read, so it has no counterpart.  The negation
  of the least \<open>int\<close> or \<open>long\<close> is taken to wrap.  The result is shown to be the text an
  abstract description of the format asks for.
\<close>

section \<open>The operations\<close>

datatype arg = ArgInt u16 | ArgLong u32 | ArgStr string

abbreviation NUL :: char where "NUL \<equiv> CHR 0x00"

definition dv :: "u32 list" where
  "dv = [1000000000, 100000000, 10000000, 1000000, 100000, 10000, 1000, 100, 10, 1]"

definition putc :: "string \<Rightarrow> char \<Rightarrow> u16 \<times> string" where
  "putc out c = (1, out @ [c])"

fun putstring :: "string \<Rightarrow> string \<Rightarrow> u16 \<Rightarrow> (u16 \<times> string) option" where
  "putstring out [] width = None"
| "putstring out (c # s) width =
     (if c = NUL then Some (width, out) else putstring (out @ [c]) s (width + 1))"

text \<open>
  \<^verbatim>\<open>while (x < *dp) ++dp;\<close> and \<^verbatim>\<open>while (x >= d) ++c, x -= d;\<close>.  The second loop does not end
  for a zero divisor; the table holds none.
\<close>

fun skip_divisors :: "u32 \<Rightarrow> u32 list \<Rightarrow> u32 list" where
  "skip_divisors x [] = []"
| "skip_divisors x (d # ds) = (if x < d then skip_divisors x ds else d # ds)"

function count_digit :: "u32 \<Rightarrow> u8 \<Rightarrow> u32 \<Rightarrow> (u8 \<times> u32) option" where
  "count_digit d c x =
     (if d = 0 then None else if x \<ge> d then count_digit d (c + 1) (x - d) else Some (c, x))"
  by auto
termination
  by (relation "measure (\<lambda>(d, c, x). unat x)")
    (auto simp: word_le_nat_alt unat_sub word_neq_0_conv word_less_nat_alt)

declare count_digit.simps [simp del]

fun xtoa_digits :: "string \<Rightarrow> u32 \<Rightarrow> u32 list \<Rightarrow> u16 \<Rightarrow> (u16 \<times> string) option" where
  "xtoa_digits out x [] sz = None"
| "xtoa_digits out x (d # ds) sz =
     (case count_digit d 48 x of
        None \<Rightarrow> None
      | Some (c, x') \<Rightarrow>
          (let (n, out') = putc out (char_of (unat c)) in
           if d AND 1 = 0 then xtoa_digits out' x' ds (sz + n) else Some (sz + n, out')))"

definition xtoa :: "string \<Rightarrow> u32 \<Rightarrow> u32 list \<Rightarrow> (u16 \<times> string) option" where
  "xtoa out x dp =
     (if x \<noteq> 0 then xtoa_digits out x (skip_divisors x dp) 0 else Some (putc out (CHR ''0'')))"

definition hex_table :: "char \<Rightarrow> string" where
  "hex_table format = (if format = CHR ''X'' then ''0123456789ABCDEF'' else ''0123456789abcdef'')"

definition puth :: "string \<Rightarrow> u16 \<Rightarrow> char \<Rightarrow> u16 \<times> string" where
  "puth out n format = (1, snd (putc out (hex_table format ! unat (n AND 15))))"

text \<open>The two loops of \<^verbatim>\<open>%x\<close>: with a width, and without.\<close>

fun hex_width :: "string \<Rightarrow> u16 \<Rightarrow> char \<Rightarrow> nat \<Rightarrow> u16 \<Rightarrow> (u16 \<times> string) option" where
  "hex_width out i c 0 sz = Some (sz, out)"
| "hex_width out i c (Suc width) sz =
     (if width * 4 \<ge> 16 then None
      else (let (n, out') = puth out (signed_drop_bit (width * 4) i) c
            in hex_width out' i c width (sz + n)))"

function hex_plain :: "string \<Rightarrow> int \<Rightarrow> char \<Rightarrow> u16 \<Rightarrow> u16 \<times> string" where
  "hex_plain out i c sz =
     (let (n, out') = puth out (word_of_int (i smod 16)) c; i' = i sdiv 16
      in if i' > 0 then hex_plain out' i' c (sz + n) else (sz + n, out'))"
  by auto
termination
proof (relation "measure (\<lambda>(out, i, c, sz). nat i)", goal_cases)
  case (2 out i c sz)
  then have "0 < i sdiv 16" by simp
  then have "i > 0"
    by (cases "i \<le> 0") (auto simp: signed_divide_int_def sgn_if split: if_splits)
  with 2 show ?case
    by (simp add: signed_divide_int_def sgn_if)
qed simp

declare hex_plain.simps [simp del]

fun read_width :: "string \<Rightarrow> u16 \<Rightarrow> u16 \<times> string" where
  "read_width [] width = (width, [])"
| "read_width (c # f) width =
     (if 48 \<le> (of_char c :: nat) \<and> (of_char c :: nat) \<le> 57
      then read_width f (width * 10 + of_nat (of_char c - 48)) else (width, c # f))"

fun put_length :: "string \<Rightarrow> string \<Rightarrow> nat \<Rightarrow> u16 \<Rightarrow> (u16 \<times> string) option" where
  "put_length out s 0 sz = Some (sz, out)"
| "put_length out [] (Suc n) sz = None"
| "put_length out (c # s) (Suc n) sz =
     (let (k, out') = putc out c in put_length out' s n (sz + k))"

fun arg_int :: "arg list \<Rightarrow> (u16 \<times> arg list) option" where
  "arg_int (ArgInt i # a) = Some (i, a)"
| "arg_int _ = None"

fun arg_long :: "arg list \<Rightarrow> (u32 \<times> arg list) option" where
  "arg_long (ArgLong n # a) = Some (n, a)"
| "arg_long _ = None"

fun arg_str :: "arg list \<Rightarrow> (string \<times> arg list) option" where
  "arg_str (ArgStr s # a) = Some (s, a)"
| "arg_str _ = None"

text \<open>
  The conversions, the \<open>switch\<close> of \<open>print\<close>: the character \<open>c\<close> after the width, the rest \<open>f\<close> of the
  format, the arguments and the size and text so far, to the same four values afterwards.
\<close>

definition with_sign :: "string \<Rightarrow> u32 \<Rightarrow> bool \<Rightarrow> u32 list \<Rightarrow> u16 \<Rightarrow> (u16 \<times> string) option" where
  "with_sign out x negative dp sz = do {
     let (n, out1) = (if negative then putc out (CHR ''-'') else (0, out));
     (k, out2) \<leftarrow> xtoa out1 x dp;
     Some (sz + n + k, out2)
   }"

definition print_precision :: "string \<Rightarrow> string \<Rightarrow> arg list \<Rightarrow> u16
    \<Rightarrow> (string \<times> string \<times> arg list \<times> u16) option" where
  "print_precision out f a sz =
     (case f of
        [] \<Rightarrow> None
      | c # f1 \<Rightarrow>
          if c \<noteq> CHR ''*'' then Some (out, f1, a, sz)
          else (case f1 of
             [] \<Rightarrow> None
           | c1 # f2 \<Rightarrow>
               if c1 \<noteq> CHR ''s'' then Some (out, f2, a, sz)
               else do {
                 (len, a1) \<leftarrow> arg_int a;
                 (s, a2) \<leftarrow> arg_str a1;
                 (sz', out') \<leftarrow> put_length out s (unat len) sz;
                 Some (out', f2, a2, sz')
               }))"

definition convert :: "string \<Rightarrow> char \<Rightarrow> u16 \<Rightarrow> string \<Rightarrow> arg list \<Rightarrow> u16
    \<Rightarrow> (string \<times> string \<times> arg list \<times> u16) option" where
  "convert out c width f a sz =
     (if c = CHR ''.'' then print_precision out f a sz
      else if c = CHR ''x'' \<or> c = CHR ''X'' then do {
        (i, a1) \<leftarrow> arg_int a;
        (sz', out') \<leftarrow> (if 0 <s width then hex_width out i c (unat width) sz
                      else Some (hex_plain out (sint i) c sz));
        Some (out', f, a1, sz')
      }
      else if c = CHR ''s'' then do {
        (s, a1) \<leftarrow> arg_str a;
        (n, out') \<leftarrow> putstring out s 0;
        Some (out', f, a1, sz + n)
      }
      else if c = CHR ''c'' then do {
        (i, a1) \<leftarrow> arg_int a;
        let (n, out') = putc out (char_of (unat (ucast i :: u8)));
        Some (out', f, a1, sz + n)
      }
      else if c = CHR ''d'' \<or> c = CHR ''i'' \<or> c = CHR ''u'' then do {
        (i, a1) \<leftarrow> arg_int a;
        let negative = (c \<noteq> CHR ''u'' \<and> i <s 0);
        (sz', out') \<leftarrow> with_sign out (ucast (if negative then - i else i)) negative (drop 5 dv) sz;
        Some (out', f, a1, sz')
      }
      else if c = CHR ''l'' \<or> c = CHR ''n'' \<or> c = CHR ''p'' then do {
        (n, a1) \<leftarrow> arg_long a;
        let negative = (c = CHR ''l'' \<and> n <s 0);
        (sz', out') \<leftarrow> with_sign out (if negative then - n else n) negative dv sz;
        Some (out', f, a1, sz')
      }
      else (let (n, out') = putc out c in Some (out', f, a, sz + n)))"

lemma convert_consumes:
  "convert out c width f a sz = Some (out', f', a', sz') \<Longrightarrow> length f' \<le> length f"
  by (auto simp: convert_def print_precision_def with_sign_def putc_def bind_eq_Some_conv Let_def
      split: if_splits list.splits prod.splits)

lemma read_width_consumes: "read_width f w = (w', f') \<Longrightarrow> length f' \<le> length f"
  by (induction f w rule: read_width.induct) (fastforce split: if_splits)+

lemma width_consumes:
  "read_width (dropWhile P f) w = (w', c # f') \<Longrightarrow> length f' < length f"
  using read_width_consumes [of "dropWhile P f" w w' "c # f'"] length_dropWhile_le [of P f]
  by simp

function print :: "string \<Rightarrow> string \<Rightarrow> arg list \<Rightarrow> u16 \<Rightarrow> (u16 \<times> string) option" where
  "print out [] a sz = None"
| "print out (c # f) a sz =
     (if c = NUL then (let (n, out') = putc out NUL in Some (sz + n, out'))
      else if c = CHR ''%'' then
        (case read_width (dropWhile (\<lambda>z. z = CHR ''0'') f) 0 of
           (width, []) \<Rightarrow> None
         | (width, c1 # f1) \<Rightarrow>
             if c1 = NUL then (let (n, out') = putc out NUL in Some (sz + n, out'))
             else (case convert out c1 width f1 a sz of
                 None \<Rightarrow> None
               | Some (out', f2, a', sz') \<Rightarrow> print out' f2 a' sz'))
      else (let (n, out') = putc out c in print out' f a (sz + n)))"
  by pat_completeness auto
termination
  by (relation "measure (\<lambda>(out, f, a, sz). length f)")
    (auto dest!: convert_consumes width_consumes [OF sym])

declare print.simps [simp del]

text \<open>
  \<open>printf\<close> and \<open>sprintf\<close> start \<open>print\<close> on no text.  \<open>sprintf\<close> leaves the text in memory from \<open>out\<close>
  on, the terminator last; it has no bound, so \<open>None\<close> is also a text that runs past the memory.
\<close>

definition printf :: "string \<Rightarrow> arg list \<Rightarrow> (u16 \<times> string) option" where
  "printf format a = print '''' format a 0"

definition sprintf :: "nat \<Rightarrow> string \<Rightarrow> arg list \<Rightarrow> string \<Rightarrow> (u16 \<times> string) option" where
  "sprintf out format a mem = do {
     (n, txt) \<leftarrow> print '''' format a 0;
     if out + length txt \<le> length mem
     then Some (n, take out mem @ txt @ drop (out + length txt) mem) else None
   }"

section \<open>Decimal digits\<close>

definition digit_char :: "nat \<Rightarrow> char" where
  "digit_char k = char_of (48 + k)"

fun decimal :: "nat \<Rightarrow> string" where
  "decimal n = (if n < 10 then [digit_char n] else decimal (n div 10) @ [digit_char (n mod 10)])"

declare decimal.simps [simp del]

fun digits :: "nat \<Rightarrow> nat \<Rightarrow> string" where
  "digits 0 v = []"
| "digits (Suc n) v = digit_char (v div 10 ^ n) # digits n (v mod 10 ^ n)"

definition powers :: "nat \<Rightarrow> u32 list" where
  "powers k = map (\<lambda>i. 10 ^ i) (rev [0..<Suc k])"

lemma powers_Suc: "powers 0 = [1]" "powers (Suc k) = 10 ^ Suc k # powers k"
  by (simp_all add: powers_def)

lemma dv_powers: "dv = powers 9" "drop 5 dv = powers 4"
  by (simp_all add: dv_def powers_def upt_rec)

lemma unat_pow10: "k \<le> 9 \<Longrightarrow> unat (10 ^ k :: u32) = 10 ^ k"
proof -
  assume "k \<le> 9"
  then have "(10 :: nat) ^ k \<le> 10 ^ 9" by (rule power_increasing) simp
  then have "(10 :: nat) ^ k mod 2 ^ 32 = 10 ^ k" by simp
  then show ?thesis
    using unat_of_nat [of "10 ^ k", where 'a = 32] by simp
qed

lemma pow10_even: "(10 ^ Suc k :: u32) AND 1 = 0"
  by (simp add: and_one_eq mod_2_eq_odd)

lemma length_digits [simp]: "length (digits n v) = n"
  by (induction n arbitrary: v) simp_all

lemma digits_snoc:
  "v < 10 ^ Suc n \<Longrightarrow> digits (Suc n) v = digits n (v div 10) @ [digit_char (v mod 10)]"
proof (induction n arbitrary: v)
  case 0
  then show ?case by simp
next
  case (Suc n)
  let ?r = "v mod 10 ^ Suc n"
  have r: "?r = 10 * (v div 10 mod 10 ^ n) + v mod 10"
    by (simp add: mod_mult2_eq)
  have r10: "?r div 10 = v div 10 mod 10 ^ n" "?r mod 10 = v mod 10"
    unfolding r by simp_all
  have "digits (Suc n) ?r = digits n (?r div 10) @ [digit_char (?r mod 10)]"
    by (rule Suc.IH) simp
  moreover have "digits (Suc (Suc n)) v = digit_char (v div 10 ^ Suc n) # digits (Suc n) ?r"
    by (rule digits.simps)
  ultimately show ?case
    unfolding r10 by (simp add: div_mult2_eq)
qed

lemma decimal_digits:
  "v < 10 ^ Suc j \<Longrightarrow> j = 0 \<or> 10 ^ j \<le> v \<Longrightarrow> decimal v = digits (Suc j) v"
proof (induction j arbitrary: v)
  case 0
  then show ?case by (simp add: decimal.simps [of v])
next
  case (Suc j)
  then have b: "10 ^ Suc j \<le> v" "v < 10 ^ Suc (Suc j)" by simp_all
  have "(10 :: nat) ^ 1 \<le> 10 ^ Suc j" by (rule power_increasing) simp_all
  then have "\<not> v < 10" using b(1) by (metis le_trans not_le power_one_right)
  moreover have "decimal (v div 10) = digits (Suc j) (v div 10)"
    using b by (intro Suc.IH) (auto simp: less_mult_imp_div_less div_le_mono [of "10 ^ Suc j" v 10, simplified])
  ultimately show ?case
    using digits_snoc [OF b(2)] by (simp add: decimal.simps [of v])
qed

lemma count_digit_div:
  assumes "d \<noteq> 0"
  shows "count_digit d c x = Some (c + of_nat (unat x div unat d), x mod d)"
  using assms
proof (induction d c x rule: count_digit.induct)
  case (1 d c x)
  show ?case
  proof (cases "d \<le> x")
    case True
    then have le: "unat d \<le> unat x" "unat (x - d) = unat x - unat d" "0 < unat d"
      using 1(2) by (simp_all add: word_le_nat_alt unat_sub unat_gt_0)
    have "unat x div unat d = Suc (unat (x - d) div unat d)"
      using le by (simp add: le_div_geq)
    moreover have "x mod d = (x - d) mod d"
      using le by (simp add: word_unat_eq_iff unat_mod le_mod_geq)
    ultimately show ?thesis
      using 1 True by (simp add: count_digit.simps [of d c x] add.assoc)
  next
    case False
    then show ?thesis
      using 1 by (simp add: count_digit.simps [of d c x] word_le_nat_alt word_unat_eq_iff unat_mod)
  qed
qed

lemma xtoa_digits_powers:
  "k \<le> 9 \<Longrightarrow> unat x < 10 ^ Suc k \<Longrightarrow>
     xtoa_digits out x (powers k) sz = Some (sz + of_nat (Suc k), out @ digits (Suc k) (unat x))"
proof (induction k arbitrary: x out sz)
  case 0
  then have "count_digit 1 48 x = Some (48 + of_nat (unat x), 0)"
    using count_digit_div [of 1 48 x] by (simp add: word_unat_eq_iff unat_mod)
  then show ?case
    using 0 by (simp add: powers_Suc putc_def digit_char_def unat_word_ariths unat_of_nat
        take_bit_eq_mod unsigned_ucast_eq)
next
  case (Suc k)
  let ?d = "10 ^ Suc k :: u32"
  have d: "unat ?d = 10 ^ Suc k" using Suc.prems by (intro unat_pow10) simp
  then have "?d \<noteq> 0" by (metis power_not_zero unat_0 zero_neq_numeral)
  then have c: "count_digit ?d 48 x = Some (48 + of_nat (unat x div 10 ^ Suc k), x mod ?d)"
    using count_digit_div [of ?d 48 x] d by simp
  have q: "unat x div 10 ^ Suc k < 10"
    using Suc.prems(2) by (simp add: less_mult_imp_div_less)
  then have ch: "char_of (unat (48 + of_nat (unat x div 10 ^ Suc k) :: u8)) = digit_char (unat x div 10 ^ Suc k)"
    by (simp add: digit_char_def unat_word_ariths unat_of_nat)
  have m: "unat (x mod ?d) = unat x mod 10 ^ Suc k"
    using d by (simp only: unat_mod)
  show ?case
    using Suc.IH [of "x mod ?d"] Suc.prems c ch pow10_even [of k] m
    by (simp add: powers_Suc putc_def Let_def add.assoc del: power_Suc)
qed

lemma skip_powers:
  assumes "x \<noteq> 0" and "k \<le> 9" and "unat x < 10 ^ Suc k"
  shows "\<exists>j \<le> k. skip_divisors x (powers k) = powers j \<and> unat x < 10 ^ Suc j \<and> (j = 0 \<or> 10 ^ j \<le> unat x)"
  using assms
proof (induction k)
  case 0
  then show ?case by (auto simp: powers_Suc word_less_nat_alt unat_gt_0)
next
  case (Suc k)
  have d: "unat (10 ^ Suc k :: u32) = 10 ^ Suc k" using Suc.prems by (intro unat_pow10) simp
  show ?case
  proof (cases "unat x < 10 ^ Suc k")
    case True
    then obtain j where "j \<le> k" "skip_divisors x (powers k) = powers j" "unat x < 10 ^ Suc j"
      "j = 0 \<or> 10 ^ j \<le> unat x"
      using Suc by auto
    then show ?thesis
      using True d by (intro exI [of _ j]) (simp add: powers_Suc word_less_nat_alt del: power_Suc)
  next
    case False
    then show ?thesis
      using Suc.prems d
      by (intro exI [of _ "Suc k"]) (simp add: powers_Suc word_less_nat_alt del: power_Suc)
  qed
qed

lemma xtoa_powers:
  assumes "k \<le> 9" and "unat x < 10 ^ Suc k"
  shows "xtoa out x (powers k) = Some (of_nat (length (decimal (unat x))), out @ decimal (unat x))"
proof (cases "x = 0")
  case True
  then show ?thesis
    by (simp add: xtoa_def putc_def decimal.simps digit_char_def char_of_def bit_iff_odd)
next
  case False
  then obtain j where j: "j \<le> k" "skip_divisors x (powers k) = powers j" "unat x < 10 ^ Suc j"
    "j = 0 \<or> 10 ^ j \<le> unat x"
    using skip_powers [OF False assms] by auto
  then show ?thesis
    using False assms(1) xtoa_digits_powers [of j x out 0] decimal_digits [of "unat x" j]
    by (simp add: xtoa_def)
qed

section \<open>Signs and hexadecimal digits\<close>

definition int_text :: "int \<Rightarrow> string" where
  "int_text i = (if i < 0 then CHR ''-'' # decimal (nat (- i)) else decimal (nat i))"

lemma sint_neg: "sint (w :: 'a :: len word) < 0 \<Longrightarrow> unat (- w) = nat (- sint w)"
proof -
  assume neg: "sint w < 0"
  have "- w = word_of_int (- sint w)" by simp
  then have "uint (- w) = - sint w mod 2 ^ LENGTH('a)"
    by (metis uint_word_of_int)
  moreover have "- sint w < 2 ^ LENGTH('a)"
  proof -
    have "- sint w \<le> 2 ^ (LENGTH('a) - 1)"
      using sint_greater_eq [of w] by simp
    also have "\<dots> < (2 :: int) ^ LENGTH('a)" by (rule power_strict_increasing) simp_all
    finally show ?thesis .
  qed
  ultimately have "uint (- w) = - sint w"
    using neg by simp
  then show ?thesis
    by (metis nat_uint_eq)
qed

lemma sint_nonneg: "\<not> sint (w :: 'a :: len word) < 0 \<Longrightarrow> unat w = nat (sint w)"
proof -
  assume pos: "\<not> sint w < 0"
  have "w = word_of_int (sint w)" by simp
  then have "uint w = sint w mod 2 ^ LENGTH('a)"
    by (metis uint_word_of_int)
  moreover have "sint w < 2 ^ LENGTH('a)"
    by (rule order_less_le_trans [OF sint_less]) (simp add: power_increasing)
  ultimately have "uint w = sint w"
    using pos by simp
  then show ?thesis
    by (metis nat_uint_eq)
qed

fun hexadecimal :: "char \<Rightarrow> nat \<Rightarrow> nat \<Rightarrow> string" where
  "hexadecimal c 0 v = []"
| "hexadecimal c (Suc n) v = hex_table c ! (v div 16 ^ n mod 16) # hexadecimal c n v"

lemma length_hexadecimal [simp]: "length (hexadecimal c n v) = n"
  by (induction n) simp_all

lemma hex_digit: "w < 4 \<Longrightarrow> unat (signed_drop_bit (w * 4) (i :: u16) AND 15) = unat i div 16 ^ w mod 16"
proof -
  assume w: "w < 4"
  have "signed_drop_bit (w * 4) i AND 15 = take_bit 4 (drop_bit (w * 4) i)"
  proof (rule bit_word_eqI)
    fix n assume "n < LENGTH(16)"
    have "bit (15 :: u16) n \<longleftrightarrow> n < 4"
      using bit_mask_iff [of 4 n, where 'a = u16] \<open>n < LENGTH(16)\<close> by (simp add: mask_eq_exp_minus_1)
    then show "bit (signed_drop_bit (w * 4) i AND 15) n = bit (take_bit 4 (drop_bit (w * 4) i)) n"
      using w by (auto simp: bit_signed_drop_bit_iff bit_simps)
  qed
  moreover have "take_bit 16 (unat i) = unat i"
    using unsigned_less [of i, where 'a = nat] by (simp add: take_bit_nat_eq_self_iff)
  ultimately have "unat (signed_drop_bit (w * 4) i AND 15) = take_bit 4 (drop_bit (w * 4) (unat i))"
    by (simp only: unsigned_take_bit_eq unsigned_drop_bit_eq) simp
  then show ?thesis
    by (simp add: take_bit_eq_mod drop_bit_eq_div power_mult mult.commute [of w])
qed

lemma hex_width_text:
  "w \<le> 4 \<Longrightarrow> hex_width out i c w sz = Some (sz + of_nat w, out @ hexadecimal c w (unat i))"
  by (induction w arbitrary: out sz) (simp_all add: puth_def putc_def hex_digit add.assoc)

lemma unat_ucast_16_32 [simp]: "unat (ucast (i :: u16) :: u32) = unat i"
  by (simp add: unsigned_ucast_eq take_bit_nat_eq_self_iff) (rule order_less_trans [OF unsigned_less], simp)

lemma with_sign_int:
  "with_sign out (ucast (if neg \<and> (i :: u16) <s 0 then - i else i)) (neg \<and> i <s 0) (drop 5 dv) sz =
     Some (let txt = int_text (if neg then sint i else int (unat i)) in (sz + of_nat (length txt), out @ txt))"
proof -
  have "unat j < 10 ^ Suc 4" for j :: u16
    using unsigned_less [of j, where 'a = nat] by simp
  then have x: "xtoa o1 (ucast j) (drop 5 dv) = Some (of_nat (length (decimal (unat j))), o1 @ decimal (unat j))" for o1 and j :: u16
    using xtoa_powers [of 4 "ucast j"] by (simp add: dv_powers(2))
  show ?thesis
  proof (cases "neg \<and> sint i < 0")
    case True
    then show ?thesis
      using sint_neg [of i] by (simp add: with_sign_def x putc_def int_text_def word_sless_alt Let_def)
  next
    case False
    then have "int_text (if neg then sint i else int (unat i)) = decimal (unat i)" "\<not> (neg \<and> i <s 0)"
      using sint_nonneg [of i] by (auto simp: int_text_def word_sless_alt)
    then show ?thesis
      by (simp add: with_sign_def x Let_def del: de_Morgan_conj)
  qed
qed

lemma with_sign_long:
  "with_sign out (if neg \<and> (i :: u32) <s 0 then - i else i) (neg \<and> i <s 0) dv sz =
     Some (let txt = int_text (if neg then sint i else int (unat i)) in (sz + of_nat (length txt), out @ txt))"
proof -
  have "unat j < 10 ^ Suc 9" for j :: u32
    using unsigned_less [of j, where 'a = nat] by simp
  then have x: "xtoa o1 (j) dv = Some (of_nat (length (decimal (unat j))), o1 @ decimal (unat j))" for o1 and j :: u32
    using xtoa_powers [of 9 "j"] by (simp add: dv_powers(1))
  show ?thesis
  proof (cases "neg \<and> sint i < 0")
    case True
    then show ?thesis
      using sint_neg [of i] by (simp add: with_sign_def x putc_def int_text_def word_sless_alt Let_def)
  next
    case False
    then have "int_text (if neg then sint i else int (unat i)) = decimal (unat i)" "\<not> (neg \<and> i <s 0)"
      using sint_nonneg [of i] by (auto simp: int_text_def word_sless_alt)
    then show ?thesis
      by (simp add: with_sign_def x Let_def del: de_Morgan_conj)
  qed
qed

section \<open>What a format asks for\<close>

text \<open>
  A format as a sequence of items, each with its argument: a literal character, a percent
  sign, an integer of either size in decimal, a character, a string with what follows it in
  memory, the first characters of a string, and a given number of hexadecimal digits.
\<close>

datatype item = Lit char | Percent | Decimal char u16 | DecimalLong char u32 | Character u16
  | Whole string string | First u16 string | Hex char nat u16

fun item_ok :: "item \<Rightarrow> bool" where
  "item_ok (Lit c) = (c \<noteq> NUL \<and> c \<noteq> CHR ''%'')"
| "item_ok (Decimal c i) = (c = CHR ''d'' \<or> c = CHR ''i'' \<or> c = CHR ''u'')"
| "item_ok (DecimalLong c n) = (c = CHR ''l'' \<or> c = CHR ''n'' \<or> c = CHR ''p'')"
| "item_ok (Whole s m) = (NUL \<notin> set s)"
| "item_ok (First n s) = (unat n \<le> length s)"
| "item_ok (Hex c w i) = ((c = CHR ''x'' \<or> c = CHR ''X'') \<and> 1 \<le> w \<and> w \<le> 4)"
| "item_ok _ = True"

fun item_format :: "item \<Rightarrow> string" where
  "item_format (Lit c) = [c]"
| "item_format Percent = ''%%''"
| "item_format (Decimal c i) = CHR ''%'' # [c]"
| "item_format (DecimalLong c n) = CHR ''%'' # [c]"
| "item_format (Character i) = ''%c''"
| "item_format (Whole s m) = ''%s''"
| "item_format (First n s) = ''%.*s''"
| "item_format (Hex c w i) = ''%0'' @ [digit_char w, c]"

fun item_args :: "item \<Rightarrow> arg list" where
  "item_args (Decimal c i) = [ArgInt i]"
| "item_args (DecimalLong c n) = [ArgLong n]"
| "item_args (Character i) = [ArgInt i]"
| "item_args (Whole s m) = [ArgStr (s @ NUL # m)]"
| "item_args (First n s) = [ArgInt n, ArgStr s]"
| "item_args (Hex c w i) = [ArgInt i]"
| "item_args _ = []"

fun item_text :: "item \<Rightarrow> string" where
  "item_text (Lit c) = [c]"
| "item_text Percent = ''%''"
| "item_text (Decimal c i) = int_text (if c = CHR ''u'' then int (unat i) else sint i)"
| "item_text (DecimalLong c n) = int_text (if c = CHR ''l'' then sint n else int (unat n))"
| "item_text (Character i) = [char_of (unat i mod 256)]"
| "item_text (Whole s m) = s"
| "item_text (First n s) = take (unat n) s"
| "item_text (Hex c w i) = hexadecimal c w (unat i)"

lemma putstring_text:
  "NUL \<notin> set s \<Longrightarrow> putstring out (s @ NUL # m) w = Some (w + of_nat (length s), out @ s)"
  by (induction s arbitrary: out w) (auto simp: add.assoc)

lemma put_length_text:
  "n \<le> length s \<Longrightarrow> put_length out s n sz = Some (sz + of_nat n, out @ take n s)"
  by (induction n arbitrary: out s sz) (auto simp: Suc_le_length_iff putc_def add.assoc)

lemma read_width_letter:
  "(of_char c :: nat) > 57 \<or> (of_char c :: nat) < 48 \<Longrightarrow>
     read_width (dropWhile (\<lambda>z. z = CHR ''0'') (c # f)) 0 = (0, c # f)"
  by auto

lemma print_convert:
  assumes "(of_char c :: nat) > 57 \<or> (of_char c :: nat) < 48" and "c \<noteq> NUL"
    and "convert out c 0 f a sz = Some (out', f', a', sz')"
  shows "print out (CHR ''%'' # c # f) a sz = print out' f' a' sz'"
  using assms read_width_letter [OF assms(1)] by (simp add: print.simps(2) [of _ "CHR ''%''"])

lemma print_hex:
  assumes "item_ok (Hex c w i)"
  shows "print out (item_format (Hex c w i) @ f) (ArgInt i # a) sz =
           print (out @ hexadecimal c w (unat i)) f a (sz + of_nat w)"
proof -
  have w: "w = 1 \<or> w = 2 \<or> w = 3 \<or> w = 4" and c: "c = CHR ''x'' \<or> c = CHR ''X''"
    using assms by auto
  have d: "of_char (digit_char w) = 48 + w"
    using w by (auto simp: digit_char_def)
  then have "digit_char w \<noteq> CHR ''0''"
    using w by auto
  have r: "read_width (dropWhile (\<lambda>z. z = CHR ''0'') (CHR ''0'' # digit_char w # c # f)) 0 = (of_nat w, c # f)"
    using d w c \<open>digit_char w \<noteq> CHR ''0''\<close> by auto
  have v: "convert out c (of_nat w) f (ArgInt i # a) sz =
      Some (out @ hexadecimal c w (unat i), f, a, sz + of_nat w)"
    using w c hex_width_text [of w out i c sz] by (auto simp: convert_def word_sless_alt)
  have "c \<noteq> NUL" using c by auto
  then show ?thesis
    using r v by (simp add: print.simps(2) [of _ "CHR ''%''"] del: read_width.simps dropWhile.simps)
qed

lemma print_item:
  assumes "item_ok it"
  shows "print out (item_format it @ f) (item_args it @ a) sz =
           print (out @ item_text it) f a (sz + of_nat (length (item_text it)))"
proof (cases it)
  case (Decimal c i)
  then have c: "c = CHR ''d'' \<or> c = CHR ''i'' \<or> c = CHR ''u''" using assms by simp
  have "convert out c 0 f (ArgInt i # a) sz =
      Some (out @ item_text it, f, a, sz + of_nat (length (item_text it)))"
    using c with_sign_int [of out "c \<noteq> CHR ''u''" i sz] Decimal
    by (auto simp: convert_def Let_def)
  then show ?thesis
    using c Decimal by (auto intro!: print_convert)
next
  case (DecimalLong c n)
  then have c: "c = CHR ''l'' \<or> c = CHR ''n'' \<or> c = CHR ''p''" using assms by simp
  have "convert out c 0 f (ArgLong n # a) sz =
      Some (out @ item_text it, f, a, sz + of_nat (length (item_text it)))"
    using c with_sign_long [of out "c = CHR ''l''" n sz] DecimalLong
    by (auto simp: convert_def Let_def)
  then show ?thesis
    using c DecimalLong by (auto intro!: print_convert)
next
  case (Hex c w i)
  then show ?thesis
    using print_hex assms by simp
next
  case (Whole s m)
  then show ?thesis
    using assms putstring_text [of s out m 0]
    by (auto intro!: print_convert simp: convert_def)
next
  case (First n s)
  then show ?thesis
    using assms put_length_text [of "unat n" s out sz]
    by (auto intro!: print_convert simp: convert_def print_precision_def)
next
  case (Lit c)
  then show ?thesis
    using assms by (simp add: print.simps(2) putc_def)
next
  case Percent
  then show ?thesis
    by (auto intro!: print_convert simp: convert_def putc_def)
next
  case (Character i)
  have "unat (ucast i :: u8) = unat i mod 256"
    by (simp add: unsigned_ucast_eq take_bit_eq_mod)
  with Character show ?thesis
    by (auto intro!: print_convert simp: convert_def putc_def)
qed

lemma print_items:
  "list_all item_ok items \<Longrightarrow>
     print out (concat (map item_format items) @ [NUL]) (concat (map item_args items)) sz =
       (let txt = concat (map item_text items) @ [NUL]
        in Some (sz + of_nat (length txt), out @ txt))"
proof (induction items arbitrary: out sz)
  case Nil
  then show ?case by (simp add: print.simps putc_def)
next
  case (Cons it items)
  then show ?case
    using print_item [of it out] by (simp add: Let_def algebra_simps)
qed

section \<open>Reading the numbers back\<close>

definition digit_of :: "char \<Rightarrow> nat" where
  "digit_of c = of_char c - 48"

definition read_decimal :: "string \<Rightarrow> nat" where
  "read_decimal s = foldl (\<lambda>n c. 10 * n + digit_of c) 0 s"

definition read_int :: "string \<Rightarrow> int" where
  "read_int s = (if s \<noteq> [] \<and> hd s = CHR ''-'' then - int (read_decimal (tl s)) else int (read_decimal s))"

definition hex_digit_of :: "char \<Rightarrow> nat" where
  "hex_digit_of c =
     (let n = of_char c in if n \<ge> 97 then n - 87 else if n \<ge> 65 then n - 55 else n - 48)"

definition read_hex :: "string \<Rightarrow> nat" where
  "read_hex s = foldl (\<lambda>n c. 16 * n + hex_digit_of c) 0 s"

lemma digit_of_char: "k < 10 \<Longrightarrow> digit_of (digit_char k) = k"
  by (simp add: digit_of_def digit_char_def)

lemma read_decimal_decimal [simp]: "read_decimal (decimal n) = n"
proof (induction n rule: decimal.induct)
  case (1 n)
  then show ?case
    by (simp add: decimal.simps [of n] read_decimal_def digit_of_char)
qed

lemma decimal_digit_chars:
  "decimal n \<noteq> [] \<and> (\<forall>c \<in> set (decimal n). 48 \<le> (of_char c :: nat) \<and> (of_char c :: nat) \<le> 57)"
proof (induction n rule: decimal.induct)
  case (1 n)
  have "48 \<le> (of_char (digit_char k) :: nat) \<and> (of_char (digit_char k) :: nat) \<le> 57" if "k < 10" for k
    using that by (simp add: digit_char_def)
  with 1 show ?case
    by (simp add: decimal.simps [of n])
qed

lemma decimal_leading: "0 < n \<Longrightarrow> hd (decimal n) \<noteq> CHR ''0''"
proof (induction n rule: decimal.induct)
  case (1 n)
  have "digit_char k \<noteq> CHR ''0''" if "0 < k" "k < 10" for k
  proof
    assume "digit_char k = CHR ''0''"
    then show False
      using digit_of_char [OF that(2)] that(1) by (simp add: digit_of_def)
  qed
  with 1 show ?case
    using decimal_digit_chars [of "n div 10"] by (simp add: decimal.simps [of n])
qed

lemma read_int_text [simp]: "read_int (int_text i) = i"
proof (cases "i < 0")
  case True
  then show ?thesis by (simp add: read_int_def int_text_def)
next
  case False
  have "hd (decimal (nat i)) \<noteq> CHR ''-''"
    using decimal_digit_chars [of "nat i"] hd_in_set [of "decimal (nat i)"] by force
  with False show ?thesis by (simp add: read_int_def int_text_def)
qed

lemma hex_table_digit: "k < 16 \<Longrightarrow> hex_digit_of (hex_table c ! k) = k"
proof -
  assume "k < 16"
  then have "k \<in> set [0..<16]" by simp
  moreover have "\<forall>k \<in> set [0..<16]. hex_digit_of (''0123456789ABCDEF'' ! k) = k \<and>
      hex_digit_of (''0123456789abcdef'' ! k) = k"
    by (simp add: upt_rec hex_digit_of_def)
  ultimately show ?thesis
    by (simp add: hex_table_def)
qed

lemma read_hexadecimal [simp]: "read_hex (hexadecimal c n v) = v mod 16 ^ n"
proof -
  have f: "foldl (\<lambda>n c. 16 * n + hex_digit_of c) m (hexadecimal c n v) = m * 16 ^ n + v mod 16 ^ n" for m
  proof (induction n arbitrary: m)
    case 0
    then show ?case by simp
  next
    case (Suc n)
    have "v mod 16 ^ Suc n = 16 ^ n * (v div 16 ^ n mod 16) + v mod 16 ^ n"
      by (subst power_Suc2) (rule mod_mult2_eq)
    then show ?case
      using Suc by (simp add: hex_table_digit algebra_simps)
  qed
  then show ?thesis
    using f [of 0] by (simp add: read_hex_def)
qed

section \<open>Properties\<close>

text \<open>
  Converting a number to text, for every 32-bit number with the whole table and for every
  number of up to five digits from its sixth entry on, the entry the 16-bit conversions start
  at: the decimal digits of the number are appended, without leading zeros, their count is
  the result, and reading them gives the number back.
\<close>

theorem xtoa_decimal:
  assumes "dp = dv \<or> dp = drop 5 dv \<and> unat x < 100000"
  shows "\<exists>s. xtoa out x dp = Some (of_nat (length s), out @ s) \<and> read_decimal s = unat x \<and>
           s \<noteq> [] \<and> (hd s = CHR ''0'' \<longrightarrow> s = ''0'') \<and>
           (\<forall>c \<in> set s. 48 \<le> (of_char c :: nat) \<and> (of_char c :: nat) \<le> 57)"
proof -
  have "unat x < 10 ^ Suc 9"
    using unsigned_less [of x, where 'a = nat] by simp
  then have "xtoa out x dp = Some (of_nat (length (decimal (unat x))), out @ decimal (unat x))"
    using assms xtoa_powers [of 9 x out] xtoa_powers [of 4 x out] dv_powers by auto
  moreover have "hd (decimal (unat x)) = CHR ''0'' \<longrightarrow> decimal (unat x) = ''0''"
    using decimal_leading [of "unat x"] by (cases "unat x") (simp_all add: decimal.simps digit_char_def char_of_def bit_iff_odd)
  ultimately show ?thesis
    using decimal_digit_chars [of "unat x"] by (intro exI [of _ "decimal (unat x)"]) simp
qed


text \<open>
  C38. Numbers survive printing: what \<^verbatim>\<open>%i\<close>, \<^verbatim>\<open>%u\<close>, \<^verbatim>\<open>%l\<close> and \<^verbatim>\<open>%n\<close> print reads back as the signed or
  unsigned argument, and the four digits of \<^verbatim>\<open>%04x\<close> and \<^verbatim>\<open>%04X\<close> as its 16 bits.
\<close>

theorem printed_numbers_read_back:
  "\<exists>s1 s2 s3 s4 s5 s6.
     printf (''%i'' @ [NUL]) [ArgInt i] = Some (of_nat (Suc (length s1)), s1 @ [NUL]) \<and> read_int s1 = sint i \<and>
     printf (''%u'' @ [NUL]) [ArgInt i] = Some (of_nat (Suc (length s2)), s2 @ [NUL]) \<and> read_int s2 = uint i \<and>
     printf (''%l'' @ [NUL]) [ArgLong n] = Some (of_nat (Suc (length s3)), s3 @ [NUL]) \<and> read_int s3 = sint n \<and>
     printf (''%n'' @ [NUL]) [ArgLong n] = Some (of_nat (Suc (length s4)), s4 @ [NUL]) \<and> read_int s4 = uint n \<and>
     printf (''%04x'' @ [NUL]) [ArgInt i] = Some (5, s5 @ [NUL]) \<and> read_hex s5 = unat i \<and>
     printf (''%04X'' @ [NUL]) [ArgInt i] = Some (5, s6 @ [NUL]) \<and> read_hex s6 = unat i"
proof -
  have one: "printf (item_format it @ [NUL]) (item_args it) =
      Some (of_nat (Suc (length (item_text it))), item_text it @ [NUL])" if "item_ok it" for it
    using print_items [of "[it]" "''''" 0] that by (simp add: printf_def Let_def)
  have d: "digit_char 4 = CHR ''4''"
    by (simp add: digit_char_def char_of_def bit_iff_odd)
  have four: "printf (''%04'' @ [c, NUL]) [ArgInt i] = Some (5, hexadecimal c 4 (unat i) @ [NUL]) \<and>
      read_hex (hexadecimal c 4 (unat i)) = unat i" if "c = CHR ''x'' \<or> c = CHR ''X''" for c
    using one [of "Hex c 4 i"] that unsigned_less [of i, where 'a = nat]
    by (simp add: d del: hexadecimal.simps)
  note one [of "Decimal (CHR ''i'') i", simplified] one [of "Decimal (CHR ''u'') i", simplified]
    one [of "DecimalLong (CHR ''l'') n", simplified] one [of "DecimalLong (CHR ''n'') n", simplified]
    four [of "CHR ''x''", simplified] four [of "CHR ''X''", simplified]
  then show ?thesis
    by (intro exI conjI) (assumption | simp)+
qed

text \<open>
  Without a width, \<^verbatim>\<open>%x\<close> goes wrong: the digits come out from the least significant on, and a
  negative argument gives its last digit only.
\<close>

lemma hex_plain_reversed:
  "printf (''%x'' @ [NUL]) [ArgInt 0x1A2] = Some (4, ''2a1'' @ [NUL])"
  by (simp add: printf_def print.simps convert_def hex_plain.simps puth_def putc_def hex_table_def
      signed_divide_int_def signed_modulo_int_def word_sless_alt)

lemma hex_plain_negative:
  "i < 0 \<Longrightarrow> hex_plain out i c sz = (sz + 1, out @ [hex_table c ! unat (word_of_int (i smod 16) AND 15 :: u16)])"
  by (simp add: hex_plain.simps puth_def putc_def signed_divide_int_def)

section \<open>Concrete runs\<close>

theorem xtoa_decimal_witness: "\<exists>s. xtoa '''' 4294967295 dv = Some (of_nat (length s), s) \<and> read_decimal s = 4294967295"
  using xtoa_decimal [of dv 4294967295 "''''"] by auto


end
