(* ===== verification/Info.thy ===== *)
theory Info
  imports Print OS_Time Kernel_State
begin

text \<open>
  The reports of \<^verbatim>\<open>brtos/OSInfo.c\<close>: the task list, the memory in use, the time since the start
  and the load of the processor, as text.  The caller's buffer is given no bound, so a report is
  the text written to it so far; a local array is a list whose length is its declared size,
  with the contents it starts with as an argument.  \<open>None\<close> is an access outside such an array,
  or a stack scan that leaves the address space.  Each report is shown to be the text it is
  meant to be, laid out in columns.
\<close>

section \<open>Copying and printing\<close>

definition CRLF :: string where
  "CRLF = [CHR 0x0A, CHR 0x0D]"

text \<open>\<open>out\<close> is the text before the pointer that the callers advance by the result.\<close>

fun mem_cpy :: "string \<Rightarrow> string \<Rightarrow> string option" where
  "mem_cpy out [] = None"
| "mem_cpy out (c # src) = (if c = NUL then Some out else mem_cpy (out @ [c]) src)"

text \<open>The loop of \<open>PrintDecimal\<close>, from \<open>i\<close> down: the buffer and the final \<open>i\<close>.\<close>

fun decimal_loop :: "nat \<Rightarrow> u16 \<Rightarrow> string \<Rightarrow> string \<times> nat" where
  "decimal_loop 0 val buff = (buff, 0)"
| "decimal_loop (Suc i) val buff =
     (let backup = val; val' = word_of_int (sint val sdiv 10);
          buff' = buff[Suc i := char_of (unat (ucast (backup - val' * 10) + 48 :: u8))]
      in if val' = 0 then (buff', i) else decimal_loop i val' buff')"

text \<open>The buffer and the offset of the pointer that is returned.\<close>

definition PrintDecimal :: "u16 \<Rightarrow> string \<Rightarrow> (string \<times> nat) option" where
  "PrintDecimal val buff =
     (if length buff < 7 then None
      else
        (let b0 = replicate 6 (CHR '' '') @ [NUL] @ drop 7 buff;
             s = (if val <s 0 then CHR ''-'' else CHR '' '');
             (b1, i) = decimal_loop 5 (if val <s 0 then - val else val) b0;
             b2 = b1[i := s]
         in Some (b2, if b2 ! i = CHR ''-'' then i else i + 1)))"

text \<open>
  Two idioms of the reports: copying from the returned pointer, and copying from a fixed column
  of the buffer.
\<close>

definition put_decimal :: "string \<Rightarrow> u16 \<Rightarrow> string \<Rightarrow> (string \<times> string) option" where
  "put_decimal out val str = do {
     (str', p) \<leftarrow> PrintDecimal val str;
     out' \<leftarrow> mem_cpy out (drop p str');
     Some (out', str')
   }"

definition put_column :: "nat \<Rightarrow> string \<Rightarrow> u16 \<Rightarrow> string \<Rightarrow> (string \<times> string) option" where
  "put_column k out val str = do {
     (str', p) \<leftarrow> PrintDecimal val str;
     out' \<leftarrow> mem_cpy out (drop k str');
     Some (out', str')
   }"

section \<open>The reports\<close>

definition OSUptimeInfo :: "string \<Rightarrow> OSTime \<times> OSDate \<Rightarrow> string option" where
  "OSUptimeInfo str up = do {
     let out = CRLF @ ''BRTOS UPTIME: '';
     (out1, str1) \<leftarrow>
       (if RTC_Day (snd up) > 0 then do {
          (o1, s1) \<leftarrow> put_decimal out (ucast (RTC_Day (snd up))) str;
          Some (o1 @ ''d '', s1)
        } else Some (out, str));
     (out2, str2) \<leftarrow> put_decimal out1 (ucast (RTC_Hour (fst up))) str1;
     (out3, str3) \<leftarrow> put_decimal (out2 @ ''h '') (ucast (RTC_Minute (fst up))) str2;
     (out4, str4) \<leftarrow> put_decimal (out3 @ ''m '') (ucast (RTC_Second (fst up))) str3;
     Some (out4 @ ''s'' @ CRLF @ [NUL])
   }"

definition OSAvailableMemory :: "string \<Rightarrow> os \<Rightarrow> string option" where
  "OSAvailableMemory str os = do {
     let out = CRLF @ ''***** BRTOS Memory Info *****'' @ CRLF @ ''STATIC TASK MEMORY HEAP:   '';
     (out1, str1) \<leftarrow> put_column 1 out (iStackAddress os * of_nat sizeof_OS_CPU_TYPE) str;
     (out2, str2) \<leftarrow> put_decimal (out1 @ '' of '') (of_nat HEAP_SIZE) str1;
     (out3, str3) \<leftarrow> put_column 1 (out2 @ CRLF @ ''STATIC QUEUE MEMORY HEAP:  '')
                       (iQueueAddress os * of_nat sizeof_OS_CPU_TYPE) str2;
     (out4, str4) \<leftarrow> put_decimal (out3 @ '' of '') (of_nat QUEUE_HEAP_SIZE) str3;
     Some (out4 @ CRLF @ [NUL])
   }"

definition OSCPULoad :: "os \<Rightarrow> string" where
  "OSCPULoad os =
     (let percent = ucast (LastOSDuty os) :: u32;
          out = CRLF @ ''CPU LOAD: '';
          out1 =
            (if percent \<ge> 1000 then out @ ''100 %''
             else
               (let cent = ucast (percent div 100) :: u8;
                    caracter = cent + 48;
                    o1 = (if caracter \<noteq> 48 then out @ [char_of (unat caracter)] else out);
                    dez = ucast ((percent - ucast cent * 100) div 10) :: u8;
                    o2 = o1 @ [char_of (unat (dez + 48)), CHR ''.''];
                    unit = ucast (percent mod 10) + 48 :: u8
                in o2 @ [char_of (unat unit), CHR ''%'']))
      in out1 @ CRLF @ [NUL])"

text \<open>
  The scan for the used part of a stack: down from the stack pointer, over words of the memory
  \<open>mem\<close>, until 16 zeros in a row or the end of the stack.
\<close>

function stack_scan :: "(u32 \<Rightarrow> u32) \<Rightarrow> u32 \<Rightarrow> u32 \<Rightarrow> u8 \<Rightarrow> (u32 \<times> u8) option" where
  "stack_scan mem sp_end sp_address i =
     (if i < 16 then
        (if sp_address \<le> sp_end then Some (sp_address, i)
         else if sp_address < 4 then None
         else stack_scan mem sp_end (sp_address - 4) (if mem sp_address = 0 then i + 1 else 0))
      else Some (sp_address, i))"
  by auto
termination
proof (relation "measure (\<lambda>(mem, e, sp, i). unat sp)", goal_cases)
  case (2 mem e sp i)
  then have "unat (sp - 4) = unat sp - 4" "4 \<le> unat sp"
    by (simp_all add: unat_sub word_le_nat_alt not_less)
  then show ?case by simp
qed simp

declare stack_scan.simps [simp del]

definition stack_used :: "(u32 \<Rightarrow> u32) \<Rightarrow> u32 \<Rightarrow> nat \<Rightarrow> os \<Rightarrow> u16 option" where
  "stack_used mem STACK0 j os = do {
     let sp_end = (if j = 1 then STACK0 else StackInit (task (j - 1) os));
     (sp_address, i) \<leftarrow> stack_scan mem sp_end (StackPoint (task j os)) 0;
     Some (ucast (StackInit (task j os) - (sp_address + ucast i * 4)))
   }"

definition task_state :: "nat \<Rightarrow> os \<Rightarrow> char" where
  "task_state j os =
     (let mask = PriorityMask ! Priority (task j os) in
      if OSBlockedList os AND mask = 0 then CHR ''B''
      else if OSReadyList os AND mask = mask then CHR ''R'' else CHR ''S'')"

definition task_row :: "(u32 \<Rightarrow> u32) \<Rightarrow> u32 \<Rightarrow> nat \<Rightarrow> os \<Rightarrow> string \<times> string \<Rightarrow> (string \<times> string) option" where
  "task_row mem STACK0 j os st =
     (if Priority (task j os) = EMPTY_PRIO then Some st
      else do {
        let out = fst st @ ''['';
        (out1, str1) \<leftarrow>
          (if j < 10 then Some (out @ [char_of (j + 48)] @ '']  '', snd st)
           else do {
             (o1, s1) \<leftarrow> put_column 4 out (of_nat j) (snd st);
             Some (o1 @ ''] '', s1)
           });
        let name = TaskName (task j os);
        let out2 = out1 @ name @ replicate (24 - length name) (CHR '' '') @ ''  '';
        let out3 = out2 @ [task_state j os] @ ''      '';
        (out4, str2) \<leftarrow> put_column 2 out3 (of_nat (Priority (task j os))) str1;
        used \<leftarrow> stack_used mem STACK0 j os;
        (out5, str3) \<leftarrow> put_column 0 (out4 @ ''       '') used str2;
        Some (out5 @ CRLF, str3)
      })"

fun task_rows :: "(u32 \<Rightarrow> u32) \<Rightarrow> u32 \<Rightarrow> nat list \<Rightarrow> os \<Rightarrow> string \<times> string \<Rightarrow> (string \<times> string) option" where
  "task_rows mem STACK0 [] os st = Some st"
| "task_rows mem STACK0 (j # js) os st = do {
     st' \<leftarrow> task_row mem STACK0 j os st;
     task_rows mem STACK0 js os st'
   }"

definition task_header :: string where
  "task_header =
     CRLF @ ''***********************************************************'' @ CRLF @
     ''ID   NAME                    STATE   PRIORITY   STACK SIZE'' @ CRLF @
     ''***********************************************************'' @ CRLF"

definition OSTaskList :: "(u32 \<Rightarrow> u32) \<Rightarrow> u32 \<Rightarrow> string \<Rightarrow> os \<Rightarrow> string option" where
  "OSTaskList mem STACK0 str os = do {
     (out, str') \<leftarrow> task_rows mem STACK0 [1..<unat (NumberOfInstalledTasks os) + 1] os (task_header, str);
     Some (out @ CRLF @ [NUL])
   }"

section \<open>Printing a number\<close>

lemma mem_cpy_text: "NUL \<notin> set s \<Longrightarrow> mem_cpy out (s @ NUL # m) = Some (out @ s)"
  by (induction s arbitrary: out) auto

lemma length_decimal_le: "v < 10 ^ k \<Longrightarrow> 0 < k \<Longrightarrow> length (decimal v) \<le> k"
proof (induction k arbitrary: v)
  case (Suc k)
  show ?case
  proof (cases "v < 10")
    case True
    then show ?thesis by (simp add: decimal.simps [of v])
  next
    case False
    then have "0 < k" using Suc.prems by (cases k) auto
    then have "length (decimal (v div 10)) \<le> k"
      using Suc by (simp add: less_mult_imp_div_less mult.commute)
    with False show ?thesis by (simp add: decimal.simps [of v])
  qed
qed simp

lemma ascii_digit:
  assumes "m < 10"
  shows "char_of (unat (ucast (of_nat m :: u16) + 48 :: u8)) = digit_char m"
proof -
  have w: "unat (of_nat m :: u16) = m"
    using assms by (simp add: unat_of_nat)
  have "unat (ucast (of_nat m :: u16) :: u8) = m"
    unfolding unsigned_ucast_eq w using assms by (simp add: take_bit_eq_mod)
  then have "unat (ucast (of_nat m :: u16) + 48 :: u8) = m + 48"
    using assms by (simp only: unat_word_ariths) simp
  then show ?thesis by (simp add: digit_char_def add.commute)
qed

lemma int_sdiv_10: "int v sdiv 10 = int (v div 10)"
  by (cases "v = 0") (simp_all add: signed_divide_int_def zdiv_int)

lemma decimal_loop_text:
  assumes "unat val < 10 ^ i" and "0 < i" and "unat val < 2 ^ 15" and "i < length buff"
  shows "decimal_loop i val buff =
    (let t = decimal (unat val) in (take (i + 1 - length t) buff @ t @ drop (i + 1) buff, i - length t))"
  using assms
proof (induction i val buff rule: decimal_loop.induct)
  case (2 i val buff)
  let ?v = "unat val"
  have sv: "sint val = int ?v"
  proof -
    have "uint val < 2 ^ 15"
    proof -
      have "int ?v < int (2 ^ 15)" using 2(4) by (simp only: of_nat_less_iff)
      then show ?thesis unfolding uint_nat by (simp only: of_nat_power of_nat_numeral)
    qed
    then have "signed_take_bit 15 (uint val) = uint val"
      by (intro signed_take_bit_int_eq_self) (simp_all add: order_trans [OF _ uint_ge_0])
    then show ?thesis by (simp add: sint_uint)
  qed
  have q: "word_of_int (sint val sdiv 10) = (of_nat (?v div 10) :: u16)"
    unfolding sv int_sdiv_10 by simp
  have qv: "unat (of_nat (?v div 10) :: u16) = ?v div 10"
    using 2(4) by (simp add: unat_of_nat)
  have m: "val - of_nat (?v div 10) * 10 = of_nat (?v mod 10)"
  proof -
    have "of_nat (?v div 10) * 10 + of_nat (?v mod 10) = (of_nat (?v div 10 * 10 + ?v mod 10) :: u16)"
      by (simp only: of_nat_add of_nat_mult of_nat_numeral)
    also have "\<dots> = val" by simp
    finally show ?thesis by (metis add.commute diff_eq_eq)
  qed
  have d: "char_of (unat (ucast (val - of_nat (?v div 10) * 10) + 48 :: u8)) = digit_char (?v mod 10)"
    unfolding m by (rule ascii_digit) simp
  let ?b = "buff[Suc i := digit_char (?v mod 10)]"
  have z: "(of_nat (?v div 10) = (0 :: u16)) = (?v < 10)"
    unfolding unat_eq_zero [symmetric] qv by (simp add: div_eq_0_iff)
  have step: "decimal_loop (Suc i) val buff =
      (if ?v < 10 then (?b, i) else decimal_loop i (of_nat (?v div 10)) ?b)"
    by (simp only: decimal_loop.simps(2) q Let_def d z)
  show ?case
  proof (cases "?v < 10")
    case True
    then show ?thesis
      using step 2(5) by (simp add: decimal.simps [of ?v] upd_conv_take_nth_drop)
  next
    case False
    then have "0 < i" using 2(2) by (cases i) auto
    let ?t = "decimal (?v div 10)"
    have small: "?v div 10 < 10 ^ i" using 2(2) by (simp add: less_mult_imp_div_less mult.commute)
    then have len: "length ?t \<le> i" using \<open>0 < i\<close> by (rule length_decimal_le)
    have "word_of_int (sint val sdiv 10) \<noteq> (0 :: u16)"
      unfolding q z using False .
    then have "decimal_loop i (of_nat (?v div 10)) ?b =
        (take (i + 1 - length ?t) ?b @ ?t @ drop (i + 1) ?b, i - length ?t)"
      using 2(1) [OF refl refl refl] small \<open>0 < i\<close> 2(4,5) unfolding q d qv Let_def by simp
    moreover have "take (i + 1 - length ?t) ?b = take (i + 1 - length ?t) buff"
      by simp
    moreover have "drop (i + 1) ?b = digit_char (?v mod 10) # drop (i + 2) buff"
      using 2(5) by (simp add: drop_update_swap Cons_nth_drop_Suc [symmetric])
    ultimately show ?thesis
      using step False len by (simp add: decimal.simps [of ?v] Let_def)
  qed
qed simp

lemma nul_decimal: "NUL \<notin> set (decimal n)"
  using decimal_digit_chars [of n] by fastforce

lemma nul_int_text: "NUL \<notin> set (int_text i)"
  using nul_decimal by (simp add: int_text_def)

definition right :: "nat \<Rightarrow> string \<Rightarrow> string" where
  "right n s = replicate (n - length s) (CHR '' '') @ s"

lemma nul_right: "NUL \<notin> set s \<Longrightarrow> NUL \<notin> set (right n s)"
  by (auto simp: right_def)

text \<open>The number is right-justified in six columns, and the result points at its first character.\<close>

lemma PrintDecimal_text:
  assumes "sint val \<noteq> - 32768" and "7 \<le> length buff"
  shows "PrintDecimal val buff =
    (let t = int_text (sint val) in Some (right 6 t @ [NUL] @ drop 7 buff, 6 - length t)) \<and>
    length (int_text (sint val)) \<le> 6"
proof -
  let ?v = "if val <s 0 then - val else val"
  let ?d = "decimal (unat ?v)" and ?s = "if val <s 0 then CHR ''-'' else CHR '' ''"
  let ?b = "replicate 6 (CHR '' '') @ [NUL] @ drop 7 buff"
  have lo: "- 32768 < sint val" "sint val < 32768"
    using assms(1) sint_greater_eq [of val] sint_less [of val] by simp_all
  have v: "unat ?v = nat \<bar>sint val\<bar>"
    using sint_neg [of val] sint_nonneg [of val] by (simp add: word_sless_alt)
  then have small: "unat ?v < 2 ^ 15" "unat ?v < 10 ^ 5"
    using lo by auto
  have len: "length ?d \<le> 5"
    using small(2) by (rule length_decimal_le) simp
  have l: "decimal_loop 5 ?v ?b = (replicate (6 - length ?d) (CHR '' '') @ ?d @ [NUL] @ drop 7 buff, 5 - length ?d)"
    using decimal_loop_text [OF small(2) _ small(1), of ?b] len assms(2) by (simp add: Let_def)
  have u: "(replicate (6 - length ?d) (CHR '' '') @ ?d @ [NUL] @ drop 7 buff)[5 - length ?d := ?s] =
      replicate (5 - length ?d) (CHR '' '') @ [?s] @ ?d @ [NUL] @ drop 7 buff"
  proof -
    have "6 - length ?d = Suc (5 - length ?d)" using len by simp
    then show ?thesis
      by (simp only: replicate_Suc replicate_app_Cons_same [symmetric] append_Cons append.assoc)
        (simp add: list_update_append)
  qed
  have n: "(replicate (5 - length ?d) (CHR '' '') @ [?s] @ r) ! (5 - length ?d) = ?s" for r
    by (simp add: nth_append)
  have "PrintDecimal val buff = Some (replicate (5 - length ?d) (CHR '' '') @ [?s] @ ?d @ [NUL] @ drop 7 buff,
      if val <s 0 then 5 - length ?d else 6 - length ?d)"
    using assms(2) len unfolding PrintDecimal_def
    by (simp only: l u n Let_def prod.case) (use len in auto)
  moreover have "int_text (sint val) = (if val <s 0 then CHR ''-'' # ?d else ?d)"
    unfolding v by (auto simp: int_text_def word_sless_alt)
  moreover have "replicate (5 - length ?d) (CHR '' '') @ [CHR '' ''] = replicate (6 - length ?d) (CHR '' '')"
    using len by (simp add: replicate_append_same flip: replicate_Suc)
  ultimately show ?thesis
    using len by (auto simp: Let_def right_def)
qed

lemma put_decimal_text:
  assumes "sint val \<noteq> - 32768" and "7 \<le> length str"
  shows "\<exists>str'. put_decimal out val str = Some (out @ int_text (sint val), str') \<and> length str' = length str"
proof -
  let ?t = "int_text (sint val)"
  have p: "PrintDecimal val str = Some (right 6 ?t @ [NUL] @ drop 7 str, 6 - length ?t)" "length ?t \<le> 6"
    using PrintDecimal_text [OF assms] by (simp_all add: Let_def)
  have "drop (6 - length ?t) (right 6 ?t @ [NUL] @ drop 7 str) = ?t @ NUL # drop 7 str"
    by (simp add: right_def)
  then have "put_decimal out val str = Some (out @ ?t, right 6 ?t @ [NUL] @ drop 7 str)"
    using p mem_cpy_text [OF nul_int_text] by (simp add: put_decimal_def)
  then show ?thesis
    using assms(2) p(2) by (simp add: right_def)
qed

lemma put_column_text:
  assumes "sint val \<noteq> - 32768" and "7 \<le> length str" and "length (int_text (sint val)) \<le> 6 - k"
  shows "\<exists>str'. put_column k out val str = Some (out @ right (6 - k) (int_text (sint val)), str') \<and>
           length str' = length str"
proof -
  let ?t = "int_text (sint val)"
  have p: "PrintDecimal val str = Some (right 6 ?t @ [NUL] @ drop 7 str, 6 - length ?t)" "length ?t \<le> 6"
    using PrintDecimal_text [OF assms(1,2)] by (simp_all add: Let_def)
  have "?t \<noteq> []" using decimal_digit_chars by (simp add: int_text_def)
  then have "k < 6" "k \<le> 6 - length ?t" using assms(3) by (cases ?t; simp)+
  then have "drop k (right 6 ?t @ [NUL] @ drop 7 str) = right (6 - k) ?t @ NUL # drop 7 str"
    by (simp add: right_def diff_commute)
  then have "put_column k out val str = Some (out @ right (6 - k) ?t, right 6 ?t @ [NUL] @ drop 7 str)"
    using p mem_cpy_text [OF nul_right [OF nul_int_text]] by (simp add: put_column_def)
  then show ?thesis
    using assms(2) p(2) by (simp add: right_def)
qed

text \<open>
  \<open>PrintDecimal\<close> prints every 16-bit number but the least: in a buffer of at least seven
  characters it leaves the decimal text right-justified in six columns, with a terminator, and
  the pointer it returns is at the text, which reads back as the number.
\<close>

theorem PrintDecimal_reads_back:
  assumes "sint val \<noteq> - 32768" and "7 \<le> length buff"
  shows "\<exists>b p t. PrintDecimal val buff = Some (b, p) \<and> length b = length buff \<and> length t \<le> 6 \<and>
           p = 6 - length t \<and> take p b = replicate p (CHR '' '') \<and>
           drop p b = t @ NUL # drop 7 buff \<and> NUL \<notin> set t \<and> read_int t = sint val"
proof -
  let ?t = "int_text (sint val)"
  have p: "PrintDecimal val buff = Some (right 6 ?t @ [NUL] @ drop 7 buff, 6 - length ?t)" "length ?t \<le> 6"
    using PrintDecimal_text [OF assms] by (simp_all add: Let_def)
  then show ?thesis
    using assms(2) nul_int_text by (auto simp: right_def)
qed

text \<open>The least number comes out wrong: each digit is the remainder of a negative number.\<close>

lemma PrintDecimal_least:
  assumes "length buff = 7"
  shows "PrintDecimal 0x8000 buff = Some (''--.)*('' @ [NUL], 0)"
proof -
  have five: "(5 :: nat) = Suc (Suc (Suc (Suc (Suc 0))))" by simp
  have "decimal_loop 5 0x8000 (''      '' @ [NUL]) = ('' -.)*('' @ [NUL], 0)"
    unfolding five by (simp add: Let_def signed_divide_int_def char_of_def bit_iff_odd)
  moreover have "replicate 6 (CHR '' '') @ [NUL] @ drop 7 buff = ''      '' @ [NUL]"
  proof -
    have "drop 7 buff = []" using assms by simp
    moreover have "replicate 6 (CHR '' '') = ''      ''" by (simp add: eval_nat_numeral)
    ultimately show ?thesis by simp
  qed
  moreover have "(0x8000 :: u16) <s 0" "- 0x8000 = (0x8000 :: u16)"
    by (simp_all add: word_sless_alt)
  ultimately show ?thesis
    using assms unfolding PrintDecimal_def by (simp only: if_True Let_def prod.case) simp
qed

section \<open>The reports\<close>

text \<open>
  \<open>OSUptimeInfo\<close> gives \<open>PrintDecimal\<close> an array of six characters, of which that function writes
  seven.  With one more the report would be right.
\<close>

lemma put_decimal_short: "length str < 7 \<Longrightarrow> put_decimal out val str = None"
  by (simp add: put_decimal_def PrintDecimal_def)

lemma OSUptimeInfo_overrun: "length str = 6 \<Longrightarrow> OSUptimeInfo str up = None"
  by (simp add: OSUptimeInfo_def put_decimal_short Let_def)

lemma sint_ucast_8: "sint (ucast (b :: u8) :: u16) = uint b"
proof -
  have b: "0 \<le> uint b" "uint b < 256"
    using unsigned_less [of b, where 'a = int] by simp_all
  have "take_bit 16 (uint b) = uint b" by (rule take_bit_int_eq_self) (use b in simp_all)
  moreover have "signed_take_bit 15 (uint b) = uint b" by (rule signed_take_bit_int_eq_self)
    (use b order_trans [of "- (2 ^ 15)" 0 "uint b"] in simp_all)
  ultimately show ?thesis by (simp add: sint_uint unsigned_ucast_eq)
qed

lemma put_byte_text:
  assumes "7 \<le> length str"
  shows "\<exists>str'. put_decimal out (ucast (b :: u8)) str = Some (out @ decimal (unat b), str') \<and> length str' = length str"
proof -
  have "0 \<le> uint b" by simp
  then have "sint (ucast b :: u16) \<noteq> - 32768" unfolding sint_ucast_8 by linarith
  then show ?thesis
    using put_decimal_text [of "ucast b" str out] assms by (simp add: sint_ucast_8 int_text_def)
qed

lemma OSUptimeInfo_text:
  assumes "7 \<le> length str"
  shows "OSUptimeInfo str (t, d) = Some (CRLF @ ''BRTOS UPTIME: '' @
     (if RTC_Day d > 0 then decimal (unat (RTC_Day d)) @ ''d '' else []) @
     decimal (unat (RTC_Hour t)) @ ''h '' @ decimal (unat (RTC_Minute t)) @ ''m '' @
     decimal (unat (RTC_Second t)) @ ''s'' @ CRLF @ [NUL])"
proof -
  let ?o = "CRLF @ ''BRTOS UPTIME: ''"
  obtain o1 s1 where 1: "(if RTC_Day d > 0 then do {
          (o1, s1) \<leftarrow> put_decimal ?o (ucast (RTC_Day d)) str; Some (o1 @ ''d '', s1)} else Some (?o, str)) = Some (o1, s1)"
    "o1 = ?o @ (if RTC_Day d > 0 then decimal (unat (RTC_Day d)) @ ''d '' else [])" "length s1 = length str"
    using put_byte_text [OF assms, of ?o "RTC_Day d"] by (cases "RTC_Day d > 0") auto
  obtain s2 where 2: "put_decimal o1 (ucast (RTC_Hour t)) s1 = Some (o1 @ decimal (unat (RTC_Hour t)), s2)"
    "length s2 = length str"
    using put_byte_text [of s1 o1 "RTC_Hour t"] 1(3) assms by auto
  let ?o2 = "(o1 @ decimal (unat (RTC_Hour t))) @ ''h ''"
  obtain s3 where 3: "put_decimal ?o2 (ucast (RTC_Minute t)) s2 = Some (?o2 @ decimal (unat (RTC_Minute t)), s3)"
    "length s3 = length str"
    using put_byte_text [of s2 ?o2 "RTC_Minute t"] 2(2) assms by auto
  let ?o3 = "(?o2 @ decimal (unat (RTC_Minute t))) @ ''m ''"
  obtain s4 where 4: "put_decimal ?o3 (ucast (RTC_Second t)) s3 = Some (?o3 @ decimal (unat (RTC_Second t)), s4)"
    using put_byte_text [of s3 ?o3 "RTC_Second t"] 3(2) assms by auto
  show ?thesis
    unfolding OSUptimeInfo_def fst_conv snd_conv Let_def 1(1)
    by (simp only: bind.bind_lunit prod.case 2(1) 3(1) 4) (simp add: 1(2))
qed

text \<open>
  The load is printed in tenths of a percent: its decimal digits with a point before the last.
\<close>

lemma two_digits:
  "n < 100 \<Longrightarrow> decimal n = (if n < 10 then [] else [digit_char (n div 10)]) @ [digit_char (n mod 10)]"
proof (cases "n < 10")
  case False
  assume "n < 100"
  then have "n div 10 < 10" by simp
  with False show ?thesis by (simp add: decimal.simps [of n] decimal.simps [of "n div 10"])
qed (simp add: decimal.simps [of n])

lemma mod_100_div_10: "(n :: nat) mod 100 div 10 = n div 10 mod 10"
  using mod_mult2_eq [of n 10 10] by simp

lemma digit8:
  assumes "m < 10"
  shows "char_of (unat (of_nat m + 48 :: u8)) = digit_char m"
    and "(of_nat m + 48 :: u8) = 48 \<longleftrightarrow> m = 0"
proof -
  have w: "unat (of_nat m :: u8) = m"
    using assms by (simp add: unat_of_nat)
  then have "unat (of_nat m + 48 :: u8) = m + 48"
    using assms by (simp only: unat_word_ariths) simp
  then show "char_of (unat (of_nat m + 48 :: u8)) = digit_char m"
    by (simp add: digit_char_def add.commute)
  have "(of_nat m + 48 :: u8) = 48 \<longleftrightarrow> unat (of_nat m :: u8) = 0"
    by (simp add: unat_eq_zero)
  then show "(of_nat m + 48 :: u8) = 48 \<longleftrightarrow> m = 0"
    unfolding w .
qed

lemma OSCPULoad_text:
  "OSCPULoad os = CRLF @ ''CPU LOAD: '' @
     (if unat (LastOSDuty os) \<ge> 1000 then ''100 %''
      else decimal (unat (LastOSDuty os) div 10) @ [CHR ''.'', digit_char (unat (LastOSDuty os) mod 10), CHR ''%'']) @
     CRLF @ [NUL]"
proof -
  let ?p = "ucast (LastOSDuty os) :: u32" and ?n = "unat (LastOSDuty os)"
  have p: "unat ?p = ?n" by simp
  have big: "?p \<ge> 1000 \<longleftrightarrow> ?n \<ge> 1000"
    by (simp add: word_le_nat_alt)
  show ?thesis
  proof (cases "?n \<ge> 1000")
    case True
    then show ?thesis using big by (simp add: OSCPULoad_def)
  next
    case False
    then have n: "?n < 1000" by simp
    have to8: "ucast w = (of_nat (unat w) :: u8)" for w :: u32 by simp
    have cent: "ucast (?p div 100) = (of_nat (?n div 100) :: u8)"
      unfolding to8 by (simp only: unat_div p unat_numeral) simp
    have dez: "ucast ((?p - ucast (of_nat (?n div 100) :: u8) * 100) div 10) = (of_nat (?n div 10 mod 10) :: u8)"
    proof -
      let ?k = "?n div 100"
      have k: "unat (ucast (of_nat ?k :: u8) :: u32) = ?k"
        using n by (simp add: unsigned_ucast_eq take_bit_eq_mod unat_of_nat)
      then have "unat (ucast (of_nat ?k :: u8) * 100 :: u32) = ?k * 100"
        using n by (simp add: unat_word_ariths)
      then have "unat (?p - ucast (of_nat ?k :: u8) * 100) = ?n - ?k * 100"
        using p by (subst unat_sub) (simp_all add: word_le_nat_alt)
      also have "\<dots> = ?n mod 100" by (simp add: minus_div_mult_eq_mod)
      finally have "unat ((?p - ucast (of_nat ?k :: u8) * 100) div 10) = ?n mod 100 div 10"
        by (simp only: unat_div unat_numeral) simp
      then show ?thesis unfolding to8 mod_100_div_10 by simp
    qed
    have unit: "ucast (?p mod 10) = (of_nat (?n mod 10) :: u8)"
      unfolding to8 by (simp only: unat_mod p unat_numeral) simp
    have d: "decimal (?n div 10) =
        (if ?n div 100 = 0 then [] else [digit_char (?n div 100)]) @ [digit_char (?n div 10 mod 10)]"
    proof -
      have q: "?n div 10 div 10 = ?n div 100" by (simp flip: div_mult2_eq)
      then have "?n div 10 < 10 \<longleftrightarrow> ?n div 100 = 0" by (simp add: div_eq_0_iff flip: q)
      with q show ?thesis using two_digits [of "?n div 10"] n by auto
    qed
    have m: "?n div 100 < 10" "?n div 10 mod 10 < 10" "?n mod 10 < 10" using n by auto
    have "\<not> ?p \<ge> 1000" using big False by simp
    then show ?thesis
      unfolding OSCPULoad_def Let_def cent dez unit d digit8(1) [OF m(1)] digit8(2) [OF m(1)]
        digit8(1) [OF m(2)] digit8(1) [OF m(3)]
      using False by simp
  qed
qed

lemma sint_of_nat_16: "n < 2 ^ 15 \<Longrightarrow> sint (of_nat n :: u16) = int n"
proof -
  assume n: "n < 2 ^ 15"
  have "take_bit 16 (int n) = int n" "signed_take_bit 15 (int n) = int n"
    using n by (simp_all add: take_bit_int_eq_self signed_take_bit_int_eq_self)
  moreover have "uint (of_nat n :: u16) = take_bit 16 (int n)"
    by (simp only: unsigned_of_nat of_nat_take_bit) simp
  ultimately show ?thesis by (simp add: sint_uint)
qed

lemma put_nat_text:
  assumes "n < 2 ^ 15" and "7 \<le> length str"
  shows "\<exists>str'. put_decimal out (of_nat n) str = Some (out @ decimal n, str') \<and> length str' = length str"
  using put_decimal_text [of "of_nat n" str out] assms by (simp add: sint_of_nat_16 int_text_def)

lemma put_nat_column:
  assumes "n < 2 ^ 15" and "7 \<le> length str" and "n < 10 ^ (6 - k)" and "k < 6"
  shows "\<exists>str'. put_column k out (of_nat n) str = Some (out @ right (6 - k) (decimal n), str') \<and>
           length str' = length str"
  using put_column_text [of "of_nat n" str k out] length_decimal_le [OF assms(3)] assms
  by (simp add: sint_of_nat_16 int_text_def)

lemma OSAvailableMemory_text:
  assumes "7 \<le> length str" and "unat (iStackAddress os) \<le> 2048" and "unat (iQueueAddress os) \<le> 32"
  shows "OSAvailableMemory str os = Some (
    CRLF @ ''***** BRTOS Memory Info *****'' @ CRLF @
    ''STATIC TASK MEMORY HEAP:   '' @ right 5 (decimal (4 * unat (iStackAddress os))) @ '' of 8192'' @ CRLF @
    ''STATIC QUEUE MEMORY HEAP:  '' @ right 5 (decimal (4 * unat (iQueueAddress os))) @ '' of 128'' @ CRLF @ [NUL])"
proof -
  let ?s = "4 * unat (iStackAddress os)" and ?q = "4 * unat (iQueueAddress os)"
  have w: "x * of_nat sizeof_OS_CPU_TYPE = (of_nat (4 * unat x) :: u16)" for x :: u16
    by simp
  have h: "decimal 8192 = ''8192''" "decimal 128 = ''128''"
    by (simp_all add: decimal.simps digit_char_def char_of_def bit_iff_odd)
  let ?o = "CRLF @ ''***** BRTOS Memory Info *****'' @ CRLF @ ''STATIC TASK MEMORY HEAP:   ''"
  obtain s1 where 1: "put_column 1 ?o (of_nat ?s) str = Some (?o @ right 5 (decimal ?s), s1)" "length s1 = length str"
    using put_nat_column [of ?s str 1 ?o] assms by auto
  let ?o1 = "(?o @ right 5 (decimal ?s)) @ '' of ''"
  obtain s2 where 2: "put_decimal ?o1 (of_nat 8192) s1 = Some (?o1 @ ''8192'', s2)" "length s2 = length str"
    using put_nat_text [of 8192 s1 ?o1] 1(2) assms(1) h(1) by auto
  let ?o2 = "(?o1 @ ''8192'') @ CRLF @ ''STATIC QUEUE MEMORY HEAP:  ''"
  obtain s3 where 3: "put_column 1 ?o2 (of_nat ?q) s2 = Some (?o2 @ right 5 (decimal ?q), s3)" "length s3 = length str"
    using put_nat_column [of ?q s2 1 ?o2] assms 2(2) by auto
  let ?o3 = "(?o2 @ right 5 (decimal ?q)) @ '' of ''"
  obtain s4 where 4: "put_decimal ?o3 (of_nat 128) s3 = Some (?o3 @ ''128'', s4)"
    using put_nat_text [of 128 s3 ?o3] 3(2) assms(1) h(2) by auto
  show ?thesis
    unfolding OSAvailableMemory_def w Let_def
    by (simp only: bind.bind_lunit prod.case 1(1) 2(1) 3(1) 4) simp
qed

section \<open>The task list\<close>

definition row_text :: "nat \<Rightarrow> nat \<Rightarrow> os \<Rightarrow> string" where
  "row_text j used os =
     ''['' @ decimal j @ '']'' @ replicate (3 - length (decimal j)) (CHR '' '') @
     TaskName (task j os) @ replicate (24 - length (TaskName (task j os))) (CHR '' '') @ ''  '' @
     [task_state j os] @ ''      '' @ right 4 (decimal (Priority (task j os))) @ ''       '' @
     right 6 (decimal used) @ CRLF"

lemma task_row_text:
  assumes "7 \<le> length (snd st)" and "0 < j" and "j < 100" and "Priority (task j os) < 32"
    and "stack_used mem STACK0 j os = Some (of_nat used)" and "used < 2 ^ 15"
  shows "\<exists>str'. task_row mem STACK0 j os st = Some (fst st @ row_text j used os, str') \<and>
           length str' = length (snd st)"
proof -
  let ?o = "fst st @ ''[''" and ?p = "Priority (task j os)"
  obtain s1 where 1: "(if j < 10 then Some (?o @ [char_of (j + 48)] @ '']  '', snd st)
       else do {(o1, s1) \<leftarrow> put_column 4 ?o (of_nat j) (snd st); Some (o1 @ ''] '', s1)}) =
     Some (?o @ decimal j @ '']'' @ replicate (3 - length (decimal j)) (CHR '' ''), s1)" "length s1 = length (snd st)"
  proof (cases "j < 10")
    case True
    then show thesis
      using that by (simp add: decimal.simps [of j] digit_char_def add.commute eval_nat_numeral)
  next
    case False
    then have "length (decimal j) = 2" using two_digits [of j] assms(3) by simp
    then show thesis
      using that put_nat_column [of j "snd st" 4 ?o] assms(1,3) False by (auto simp: right_def)
  qed
  let ?n = "TaskName (task j os)"
  let ?o3 = "((?o @ decimal j @ '']'' @ replicate (3 - length (decimal j)) (CHR '' '')) @
      ?n @ replicate (24 - length ?n) (CHR '' '') @ ''  '') @ [task_state j os] @ ''      ''"
  obtain s2 where 2: "put_column 2 ?o3 (of_nat ?p) s1 = Some (?o3 @ right 4 (decimal ?p), s2)" "length s2 = length (snd st)"
    using put_nat_column [of ?p s1 2 ?o3] 1(2) assms(1,4) by auto
  let ?o4 = "(?o3 @ right 4 (decimal ?p)) @ ''       ''"
  obtain s3 where 3: "put_column 0 ?o4 (of_nat used) s2 = Some (?o4 @ right 6 (decimal used), s3)" "length s3 = length (snd st)"
    using put_nat_column [of used s2 0 ?o4] 2(2) assms(1,6) by auto
  have "task_row mem STACK0 j os st = Some ((?o4 @ right 6 (decimal used)) @ CRLF, s3)"
    using assms(4) unfolding task_row_def Let_def 1(1)
    by (simp only: bind.bind_lunit prod.case 2(1) assms(5) 3(1)) simp
  then show ?thesis
    using 3(2) by (simp add: row_text_def)
qed

definition rows_text :: "(nat \<Rightarrow> nat) \<Rightarrow> nat list \<Rightarrow> os \<Rightarrow> string" where
  "rows_text used js os =
     concat (map (\<lambda>j. row_text j (used j) os) (filter (\<lambda>j. Priority (task j os) \<noteq> EMPTY_PRIO) js))"

lemma task_rows_text:
  assumes "\<And>j. j \<in> set js \<Longrightarrow> 0 < j \<and> j < 100 \<and>
      (Priority (task j os) = EMPTY_PRIO \<or> Priority (task j os) < 32 \<and>
         used j < 2 ^ 15 \<and> stack_used mem STACK0 j os = Some (of_nat (used j)))"
    and "7 \<le> length (snd st)"
  shows "\<exists>str'. task_rows mem STACK0 js os st = Some (fst st @ rows_text used js os, str')"
  using assms
proof (induction js arbitrary: st)
  case Nil
  then show ?case by (simp add: rows_text_def prod_eq_iff)
next
  case (Cons j js)
  show ?case
  proof (cases "Priority (task j os) = EMPTY_PRIO")
    case True
    then show ?thesis
      using Cons.IH [of st] Cons.prems by (simp add: task_row_def rows_text_def)
  next
    case False
    then obtain str' where r: "task_row mem STACK0 j os st = Some (fst st @ row_text j (used j) os, str')"
      "length str' = length (snd st)"
      using task_row_text [of st j os mem STACK0 "used j"] Cons.prems by fastforce
    then show ?thesis
      using False Cons.IH [of "(fst st @ row_text j (used j) os, str')"] Cons.prems
      by (simp add: rows_text_def)
  qed
qed

text \<open>
  The task list has one row for each installed task whose control block is in use: its
  number, its name in 24 columns, whether it is blocked, ready or suspended, its priority, and
  the bytes of its stack in use, in columns.
\<close>

theorem OSTaskList_table:
  assumes "unat (NumberOfInstalledTasks os) \<le> NUMBER_OF_TASKS" and "7 \<le> length str"
    and "\<And>j. 0 < j \<Longrightarrow> j \<le> unat (NumberOfInstalledTasks os) \<Longrightarrow>
      Priority (task j os) = EMPTY_PRIO \<or> Priority (task j os) < 32 \<and>
        used j < 2 ^ 15 \<and> stack_used mem STACK0 j os = Some (of_nat (used j))"
  shows "OSTaskList mem STACK0 str os =
    Some (task_header @ rows_text used [1..<unat (NumberOfInstalledTasks os) + 1] os @ CRLF @ [NUL])"
proof -
  let ?js = "[1..<unat (NumberOfInstalledTasks os) + 1]"
  have js: "0 < j \<and> j < 100 \<and>
      (Priority (task j os) = EMPTY_PRIO \<or> Priority (task j os) < 32 \<and>
         used j < 2 ^ 15 \<and> stack_used mem STACK0 j os = Some (of_nat (used j)))" if "j \<in> set ?js" for j
    using that assms(1,3) by (auto simp del: upt_Suc)
  have "7 \<le> length (snd (task_header, str))" using assms(2) by simp
  then obtain str' where "task_rows mem STACK0 ?js os (task_header, str) = Some (task_header @ rows_text used ?js os, str')"
    using task_rows_text [where js = ?js and os = os and used = used, OF js] by fastforce
  then show ?thesis
    by (simp add: OSTaskList_def del: upt_Suc)
qed

text \<open>
  The scan of a stack stops at its end or after 16 zero words, and the words it counted, above
  the address it stops at, are zero.
\<close>

lemma stack_scan_zeros:
  "stack_scan mem sp_end sp i0 = Some (sp', i) \<Longrightarrow> i0 \<le> 16 \<Longrightarrow>
     (\<And>k. k < unat i0 \<Longrightarrow> mem (sp + 4 * of_nat (Suc k)) = 0) \<Longrightarrow>
     (i = 16 \<or> sp' \<le> sp_end) \<and> (\<forall>k < unat i. mem (sp' + 4 * of_nat (Suc k)) = 0)"
proof (induction mem sp_end sp i0 rule: stack_scan.induct)
  case (1 mem sp_end sp i0)
  show ?case
  proof (cases "i0 < 16 \<and> \<not> sp \<le> sp_end \<and> \<not> sp < 4")
    case True
    let ?i = "if mem sp = 0 then i0 + 1 else 0"
    have rec: "stack_scan mem sp_end (sp - 4) ?i = Some (sp', i)"
      using "1.prems"(1) True by (simp add: stack_scan.simps [of mem sp_end sp i0])
    have n: "unat (i0 + 1) = Suc (unat i0)" "i0 + 1 \<le> 16"
    proof -
      have "unat i0 < 16" using True by (simp add: word_less_nat_alt)
      then show "unat (i0 + 1) = Suc (unat i0)" by (simp add: unat_word_ariths)
      with \<open>unat i0 < 16\<close> show "i0 + 1 \<le> 16" by (simp add: word_le_nat_alt)
    qed
    have zeros: "mem (sp - 4 + 4 * of_nat (Suc k)) = 0" if "k < unat ?i" for k
    proof (cases k)
      case 0
      then show ?thesis using that by (simp split: if_splits)
    next
      case (Suc l)
      then have "mem (sp + 4 * of_nat (Suc l)) = 0"
        using that n(1) "1.prems"(3) by (auto split: if_splits)
      then show ?thesis by (simp add: Suc algebra_simps)
    qed
    have "?i \<le> 16" using n(2) by simp
    then show ?thesis
      using "1.IH" [OF _ _ _ rec _ zeros] True by blast
  next
    case False
    then have "sp' = sp" "i = i0" "i0 = 16 \<or> sp \<le> sp_end"
      using "1.prems"(1,2) by (auto simp: stack_scan.simps [of mem sp_end sp i0] split: if_splits)
    then show ?thesis using "1.prems"(3) by simp
  qed
qed

section \<open>Concrete runs\<close>

theorem PrintDecimal_reads_back_witness:
  "\<exists>b p t. PrintDecimal (- 205) ''abcdefgh'' = Some (b, p) \<and> drop p b = t @ NUL # ''h'' \<and> read_int t = - 205"
  using PrintDecimal_reads_back [of "- 205" "''abcdefgh''"] by auto

definition two_tasks :: os where
  "two_tasks = os_globals\<lparr>NumberOfInstalledTasks := 2, OSReadyList := 9,
     ContextTask := [tcb_zero, tcb_zero\<lparr>TaskName := ''Idle'', StackInit := 164, StackPoint := 100\<rparr>,
       tcb_zero\<lparr>TaskName := ''Net'', Priority := 3, StackInit := 364, StackPoint := 300\<rparr>]\<rparr>"

theorem OSTaskList_table_witness:
  "OSTaskList (\<lambda>a. 0) 8 ''........'' two_tasks =
     Some (task_header @ rows_text (\<lambda>j. 64) [1..<3] two_tasks @ CRLF @ [NUL])"
proof -
  have s: "stack_used (\<lambda>a. 0) 8 j two_tasks = Some 64" if "j = 1 \<or> j = 2" for j
    using that by (auto simp: stack_used_def two_tasks_def stack_scan.simps)
  have n: "unat (NumberOfInstalledTasks two_tasks) = 2"
    by (simp add: two_tasks_def)
  have t: "Priority (task j two_tasks) = EMPTY_PRIO \<or> Priority (task j two_tasks) < 32 \<and> (64 :: nat) < 2 ^ 15 \<and>
      stack_used (\<lambda>a. 0) 8 j two_tasks = Some (of_nat 64)" if "0 < j" "j \<le> unat (NumberOfInstalledTasks two_tasks)" for j
  proof -
    have "j = 1 \<or> j = 2" using that unfolding n by auto
    moreover from this have "Priority (task j two_tasks) < 32"
      by (auto simp: two_tasks_def tcb_zero_def)
    ultimately show ?thesis using s [of j] by simp
  qed
  show ?thesis
    using OSTaskList_table [of two_tasks "''........''", OF _ _ t] unfolding n by simp
qed

end
