(* ===== verification/Lib_Random.thy ===== *)
theory Lib_Random
  imports Prelude
begin

text \<open>
  The random numbers of \<^verbatim>\<open>lib/random.c\<close>: a linear congruential generator on the 32 bits of
  the static variable \<open>next\<close>, of which a call returns the upper half.  The generator is shown to
  run through all its \<open>2 ^ 32\<close> states before it repeats one.
\<close>

section \<open>The operations\<close>

definition RANDOM_RAND_MAX :: u32 where
  "RANDOM_RAND_MAX = 65535"

definition random_init :: "u16 \<Rightarrow> u32" where
  "random_init seed = ucast seed"

definition random_get :: "u32 \<Rightarrow> u16 \<times> u32" where
  "random_get next0 =
     (let next1 = next0 * 1103515245 + 12345
      in (ucast (drop_bit 16 next1 AND RANDOM_RAND_MAX), next1))"

section \<open>The period\<close>

definition random_step :: "u32 \<Rightarrow> u32" where
  "random_step s = snd (random_get s)"

lemma random_step: "random_step s = s * 1103515245 + 12345"
  by (simp add: random_step_def random_get_def Let_def)

text \<open>
  Repeated doubling: \<open>2 ^ k\<close> steps are one affine step, whose factor is 1 modulo \<open>2 ^ (k + 2)\<close> and
  whose constant is an odd multiple of \<open>2 ^ k\<close>.
\<close>

lemma random_doubling:
  "\<exists>t e. \<forall>s. (random_step ^^ (2 ^ k)) s =
     s * of_int (1 + 2 ^ (k + 2) * t) + of_int (2 ^ k * (2 * e + 1))"
proof (induction k)
  case 0
  show ?case
    by (rule exI [of _ 275878811], rule exI [of _ 6172]) (simp add: random_step)
next
  case (Suc k)
  then obtain t e where h: "(random_step ^^ (2 ^ k)) s =
      s * of_int (1 + 2 ^ (k + 2) * t) + of_int (2 ^ k * (2 * e + 1))" for s
    by blast
  let ?a = "1 + 2 ^ (k + 2) * t :: int" and ?c = "2 ^ k * (2 * e + 1) :: int"
  have "(random_step ^^ (2 ^ Suc k)) s = s * of_int (?a * ?a) + of_int (?c * (?a + 1))" for s
  proof -
    have "(random_step ^^ (2 ^ Suc k)) s = (random_step ^^ (2 ^ k)) ((random_step ^^ (2 ^ k)) s)"
      by (simp add: funpow_add mult_2)
    also have "\<dots> = s * of_int (?a * ?a) + of_int (?c * (?a + 1))"
      unfolding h by (simp only: of_int_mult of_int_add of_int_1) (simp add: algebra_simps)
    finally show ?thesis .
  qed
  moreover have "?a * ?a = 1 + 2 ^ (Suc k + 2) * (t + 2 ^ (k + 1) * t * t)"
    by (simp add: algebra_simps power_add)
  moreover have "?c * (?a + 1) = 2 ^ Suc k * (2 * (e + 2 ^ k * t * (2 * e + 1)) + 1)"
    by (simp add: algebra_simps power_add)
  ultimately show ?case by metis
qed

lemma random_power:
  "\<exists>r. (random_step ^^ (2 ^ k)) s = s + of_int (2 ^ k * (2 * r + 1))"
proof -
  obtain t e where "(random_step ^^ (2 ^ k)) s =
      s * of_int (1 + 2 ^ (k + 2) * t) + of_int (2 ^ k * (2 * e + 1))"
    using random_doubling [of k] by blast
  also have "\<dots> = s + of_int (2 ^ k * (2 * (2 * t * uint s + e) + 1))"
    by (simp add: algebra_simps power_add)
  finally show ?thesis by blast
qed

lemma random_cycle: "(random_step ^^ (2 ^ 32 * n)) s = s"
proof (induction n)
  case (Suc n)
  obtain r where r: "(random_step ^^ (2 ^ 32)) s = s + of_int (2 ^ 32 * (2 * r + 1))"
    using random_power [of 32 s] by blast
  have "(of_int (2 ^ 32) :: u32) = 0"
    by (simp only: word_of_int_eq_0_iff) simp
  then have "(random_step ^^ (2 ^ 32)) s = s"
    unfolding r of_int_mult by (simp only: mult_zero_left add_0_right)
  with Suc show ?case
    by (simp only: mult_Suc_right funpow_add comp_apply)
qed simp

lemma random_half: "(random_step ^^ (2 ^ 31)) s \<noteq> s"
proof
  obtain r where r: "(random_step ^^ (2 ^ 31)) s = s + of_int (2 ^ 31 * (2 * r + 1))"
    using random_power [of 31 s] by blast
  assume "(random_step ^^ (2 ^ 31)) s = s"
  with r have "(of_int (2 ^ 31 * (2 * r + 1)) :: u32) = 0"
    by (metis add.right_neutral add_left_cancel)
  then have "(2 ^ 32 :: int) dvd 2 ^ 31 * (2 * r + 1)"
    by (simp only: word_of_int_eq_0_iff) simp
  then obtain q where "2 ^ 31 * (2 * r + 1) = 2 ^ 32 * q" by (elim dvdE)
  then have "2 * r + 1 = 2 * q" by simp
  then show False by presburger
qed

lemma random_period: "(random_step ^^ n) s = s \<longleftrightarrow> 2 ^ 32 dvd n"
proof
  assume cycle: "(random_step ^^ n) s = s"
  have again: "(random_step ^^ (n * j)) s = s" for j
    using cycle by (induction j) (simp_all add: funpow_add)
  have "2 ^ k dvd n" if "k \<le> 32" for k
    using that
  proof (induction k)
    case (Suc k)
    then obtain m where m: "n = 2 ^ k * m" by auto
    have "even m"
    proof (rule ccontr)
      assume "odd m"
      then obtain q where q: "m = 2 * q + 1" by (elim oddE)
      have "n * 2 ^ (31 - k) = (2 ^ k * 2 ^ (31 - k)) * m"
        by (simp only: m mult_ac)
      also have "(2 :: nat) ^ k * 2 ^ (31 - k) = 2 ^ 31"
        using Suc.prems by (simp only: power_add [symmetric]) simp
      also have "2 ^ 31 * m = 2 ^ 31 + 2 ^ 32 * q"
        by (simp add: q)
      finally have "(random_step ^^ (2 ^ 31)) ((random_step ^^ (2 ^ 32 * q)) s) = s"
        using again [of "2 ^ (31 - k)"] by (simp only: funpow_add comp_apply)
      then show False
        using random_half [of s] by (simp only: random_cycle)
    qed
    then show ?case using m by auto
  qed simp
  then show "2 ^ 32 dvd n" by blast
next
  assume "2 ^ 32 dvd n"
  then show "(random_step ^^ n) s = s"
    by (elim dvdE) (simp only: random_cycle)
qed

lemma random_reaches: "\<exists>m < 2 ^ 32. (random_step ^^ m) s = t"
proof -
  let ?f = "\<lambda>m. (random_step ^^ m) s"
  have sep: "?f i \<noteq> ?f j" if "i < j" "j < 2 ^ 32" for i j
  proof
    assume "?f i = ?f j"
    moreover have "?f j = (random_step ^^ (j - i)) (?f i)"
      using \<open>i < j\<close> funpow_add [of "j - i" i random_step] by (simp add: fun_eq_iff)
    ultimately have "2 ^ 32 dvd j - i"
      using random_period [of "j - i" "?f i"] by metis
    then show False
      using that dvd_imp_le [of "2 ^ 32" "j - i"] by linarith
  qed
  have "inj_on ?f {..<2 ^ 32}"
    by (rule inj_onI) (metis sep lessThan_iff linorder_neqE_nat)
  then have "card (?f ` {..<2 ^ 32}) = CARD(u32)"
    by (simp only: card_image card_lessThan card_word) simp
  then have "?f ` {..<2 ^ 32} = UNIV"
    by (intro card_subset_eq) simp_all
  then have "t \<in> ?f ` {..<2 ^ 32}" by simp
  then show ?thesis by (simp only: image_iff lessThan_iff) blast
qed

text \<open>
  The generator has the full period: from any state it comes back to that state after
  exactly the multiples of \<open>2 ^ 32\<close> calls, so whatever the seed, every 16-bit number is
  returned by some call, within that many.
\<close>

theorem random_full_period:
  "((random_step ^^ n) s = s \<longleftrightarrow> 2 ^ 32 dvd n) \<and>
   (\<exists>m. m < 2 ^ 32 \<and> fst (random_get ((random_step ^^ m) (random_init seed))) = v)"
proof -
  let ?t = "push_bit 16 (ucast v) :: u32" and ?s = "random_init seed"
  have mask: "RANDOM_RAND_MAX = mask 16"
    by (simp add: RANDOM_RAND_MAX_def mask_eq_exp_minus_1)
  obtain m where m: "m < 2 ^ 32" "(random_step ^^ m) (random_step ?s) = ?t"
    using random_reaches by blast
  then have "random_step ((random_step ^^ m) ?s) = ?t"
    by (simp only: funpow_swap1)
  then have "fst (random_get ((random_step ^^ m) ?s)) = ucast (drop_bit 16 ?t AND RANDOM_RAND_MAX)"
    by (simp add: random_step random_get_def Let_def)
  also have "\<dots> = v"
    by (rule bit_word_eqI) (auto simp: mask bit_simps)
  finally show ?thesis
    using m(1) random_period [of n s] by blast
qed

end
