(* ===== verification/Device.thy ===== *)
theory Device
  imports Prelude
begin

text \<open>
  The device layer of BRTOS, \<^verbatim>\<open>brtos/device.c\<close>: a registry of the devices that were opened, by
  name, and the dispatch of accesses to the driver of a device.  The number of blocks, the
  names of the driver types and the drivers themselves come from a configuration header that
  is not part of the repository, so they are the fields of the parameter \<open>dev_config\<close>.  A
  string is the list of its characters before the terminator; a driver's opening function
  maps the state of the registry to a new one.  Pointers to blocks are indices, and \<open>None\<close> of
  the outer option is a read past the end of a name or a call through a null pointer.
\<close>

section \<open>State and configuration\<close>

record 'd os_device =
  dev_name :: "string option"
  device_type :: nat
  base_address :: u32
  DriverData :: 'd

record ('k, 'v) device_api =
  api_write :: "nat \<Rightarrow> 'v list \<Rightarrow> u16 \<Rightarrow> 'k \<Rightarrow> u16 \<times> 'k"
  api_read :: "nat \<Rightarrow> u16 \<Rightarrow> 'k \<Rightarrow> u16 \<times> 'v list \<times> 'k"
  api_set :: "nat \<Rightarrow> u32 \<Rightarrow> u32 \<Rightarrow> 'k \<Rightarrow> u16 \<times> 'k"
  api_get :: "nat \<Rightarrow> u32 \<Rightarrow> 'k \<Rightarrow> u16 \<times> 'k"

record ('k, 'v) device_control =
  control_device :: "nat option"
  device_number :: "8 word"
  control_api :: "('k, 'v) device_api option"

record ('d, 'k, 'v) registry =
  BRTOSDevices :: "'d os_device list"
  BRTOSDevControl :: "('k, 'v) device_control list"

record ('d, 'k, 'v) dev_config =
  dev_types :: "string list"
  OSInstalledDevices :: "(nat \<times> (nat \<Rightarrow> 'd \<Rightarrow> ('d, 'k, 'v) registry \<Rightarrow> ('d, 'k, 'v) registry) option) list"

section \<open>The operations\<close>

text \<open>\<open>strncmp(a, b, n) == 0\<close> and \<open>strlen(a) - 1\<close>, which for an empty name is the largest \<open>size_t\<close>.\<close>

definition strn_eq :: "string \<Rightarrow> string \<Rightarrow> nat \<Rightarrow> bool" where
  "strn_eq a b n \<longleftrightarrow> take n a = take n b"

definition strlen_less_1 :: "string \<Rightarrow> nat" where
  "strlen_less_1 a = (if a = [] then 65535 else length a - 1)"

definition is_digit :: "char \<Rightarrow> bool" where
  "is_digit c \<longleftrightarrow> 48 \<le> (of_char c :: nat) \<and> (of_char c :: nat) \<le> 57"

text \<open>The number at the end of a name, \<open>None\<close> for the result NULL.\<close>

definition find_number :: "string \<Rightarrow> 8 word option option" where
  "find_number dname =
     (let rest = dropWhile (\<lambda>c. \<not> is_digit c) dname;
          number = (case rest of [] \<Rightarrow> 0 | c # _ \<Rightarrow> of_nat (of_char c)) - 48 :: 8 word
      in if number <s 0 then
           (if \<not> strn_eq dname ''GPIO'' (strlen_less_1 dname) then Some None
            else if length dname < 4 then None
            else Some (Some (if length dname = 4 then 0 else of_nat (of_char (dname ! 4)))))
         else Some (Some number))"

definition find_type :: "('d, 'k, 'v) dev_config \<Rightarrow> string \<Rightarrow> nat" where
  "find_type cfg dname = first_idx (\<lambda>t. strn_eq dname t (strlen_less_1 dname)) (dev_types cfg)"

fun run_installers ::
  "nat \<Rightarrow> nat \<Rightarrow> 'd \<Rightarrow> (nat \<times> (nat \<Rightarrow> 'd \<Rightarrow> ('d, 'k, 'v) registry \<Rightarrow> ('d, 'k, 'v) registry) option) list
    \<Rightarrow> ('d, 'k, 'v) registry \<Rightarrow> ('d, 'k, 'v) registry" where
  "run_installers type index opt [] s = s"
| "run_installers type index opt ((t, f) # ds) s =
     run_installers type index opt ds
       (case f of
          Some func \<Rightarrow>
            if t = type then
              func index opt (s\<lparr>BRTOSDevices := (BRTOSDevices s)[index := (BRTOSDevices s ! index)\<lparr>device_type := t\<rparr>]\<rparr>)
            else s
        | None \<Rightarrow> s)"

definition OSDevOpen ::
  "('d, 'k, 'v) dev_config \<Rightarrow> string option \<Rightarrow> 'd \<Rightarrow> ('d, 'k, 'v) registry
    \<Rightarrow> (nat option \<times> ('d, 'k, 'v) registry) option" where
  "OSDevOpen cfg name0 opt s =
     (case name0 of
        None \<Rightarrow> Some (None, s)
      | Some dname \<Rightarrow>
          (let i = first_idx (\<lambda>d. dev_name d = Some dname) (BRTOSDevices s) in
           if i < length (BRTOSDevices s) then Some (Some i, s)
           else
             (let index = first_idx (\<lambda>d. dev_name d = None) (BRTOSDevices s) in
              if index < length (BRTOSDevices s) then do {
                number \<leftarrow> find_number dname;
                case number of
                  None \<Rightarrow> Some (None, s)
                | Some n \<Rightarrow>
                    (let type = find_type cfg dname;
                         d = (BRTOSDevices s ! index)\<lparr>dev_name := Some dname, DriverData := opt\<rparr>;
                         c = (BRTOSDevControl s ! index)\<lparr>control_device := Some index, device_number := n\<rparr>;
                         s1 = s\<lparr>BRTOSDevices := (BRTOSDevices s)[index := d],
                                BRTOSDevControl := (BRTOSDevControl s)[index := c]\<rparr>
                     in Some (Some index, run_installers type index opt (OSInstalledDevices cfg) s1))
              }
              else Some (None, s))))"

text \<open>The accesses go through the table of the driver, which an unopened device does not have.\<close>

definition OSDevWrite :: "nat \<Rightarrow> 'v list \<Rightarrow> u16 \<Rightarrow> ('d, 'k, 'v) registry \<Rightarrow> 'k \<Rightarrow> (u16 \<times> 'k) option" where
  "OSDevWrite dev str len s k = do {
     api \<leftarrow> control_api (BRTOSDevControl s ! dev);
     Some (api_write api dev str len k)
   }"

definition OSDevRead :: "nat \<Rightarrow> u16 \<Rightarrow> ('d, 'k, 'v) registry \<Rightarrow> 'k \<Rightarrow> (u16 \<times> 'v list \<times> 'k) option" where
  "OSDevRead dev len s k = do {
     api \<leftarrow> control_api (BRTOSDevControl s ! dev);
     Some (api_read api dev len k)
   }"

definition OSDevSet :: "nat \<Rightarrow> u32 \<Rightarrow> u32 \<Rightarrow> ('d, 'k, 'v) registry \<Rightarrow> 'k \<Rightarrow> (u16 \<times> 'k) option" where
  "OSDevSet dev request val s k = do {
     api \<leftarrow> control_api (BRTOSDevControl s ! dev);
     Some (api_set api dev request val k)
   }"

definition OSDevGet :: "nat \<Rightarrow> u32 \<Rightarrow> ('d, 'k, 'v) registry \<Rightarrow> 'k \<Rightarrow> (u16 \<times> 'k) option" where
  "OSDevGet dev request s k = do {
     api \<leftarrow> control_api (BRTOSDevControl s ! dev);
     Some (api_get api dev request k)
   }"

section \<open>Names\<close>

definition names :: "('d, 'k, 'v) registry \<Rightarrow> string option list" where
  "names s = map dev_name (BRTOSDevices s)"

text \<open>No two blocks have the same name.\<close>

definition registry_ok :: "('d, 'k, 'v) registry \<Rightarrow> bool" where
  "registry_ok s \<longleftrightarrow> distinct (filter (\<lambda>n. n \<noteq> None) (names s))"

text \<open>What is asked of a driver's opening function: it does not rename devices.\<close>

definition drivers_keep_names :: "('d, 'k, 'v) dev_config \<Rightarrow> bool" where
  "drivers_keep_names cfg \<longleftrightarrow>
     (\<forall>t f i opt s. (t, Some f) \<in> set (OSInstalledDevices cfg) \<longrightarrow> names (f i opt s) = names s)"

lemma length_names [simp]: "length (names s) = length (BRTOSDevices s)"
  by (simp add: names_def)

lemma nth_names [simp]: "i < length (BRTOSDevices s) \<Longrightarrow> names s ! i = dev_name (BRTOSDevices s ! i)"
  by (simp add: names_def)

lemma first_idx_names: "first_idx (\<lambda>d. dev_name d = n) (BRTOSDevices s) = first_idx (\<lambda>m. m = n) (names s)"
proof -
  have "first_idx (\<lambda>d. dev_name d = n) ds = first_idx (\<lambda>m. m = n) (map dev_name ds)" for ds :: "'a os_device list"
    by (induction ds) auto
  then show ?thesis by (simp add: names_def)
qed

lemma names_type: "names (s\<lparr>BRTOSDevices := (BRTOSDevices s)[i := (BRTOSDevices s ! i)\<lparr>device_type := t\<rparr>]\<rparr>) = names s"
  by (cases "i < length (BRTOSDevices s)") (simp_all add: names_def map_update list_update_same_conv list_update_beyond)

lemma names_run_installers:
  "(\<And>t f i opt s. (t, Some f) \<in> set ds \<Longrightarrow> names (f i opt s) = names s) \<Longrightarrow>
     names (run_installers type index opt ds s) = names s"
proof (induction type index opt ds s rule: run_installers.induct)
  case (2 type index opt t f ds s)
  have k: "names (g i opt s) = names s" if "f = Some g" for g i opt s
    using 2(2) [of t g] that by simp
  have "names (case f of Some func \<Rightarrow> if t = type then
      func index opt (s\<lparr>BRTOSDevices := (BRTOSDevices s)[index := (BRTOSDevices s ! index)\<lparr>device_type := t\<rparr>]\<rparr>) else s
      | None \<Rightarrow> s) = names s"
    by (auto simp: k names_type split: option.split)
  moreover have "names (g i opt s) = names s" if "(t', Some g) \<in> set ds" for t' g i opt s
    using 2(2) [of t' g] that by simp
  ultimately show ?case
    using 2(1) by simp
qed simp

lemma distinct_update:
  assumes "distinct (filter (\<lambda>n. n \<noteq> None) ns)" and "i < length ns" and "ns ! i = None" and "Some n \<notin> set ns"
  shows "distinct (filter (\<lambda>n. n \<noteq> None) (ns[i := Some n]))"
proof -
  have "ns = take i ns @ None # drop (Suc i) ns"
    using assms(2,3) id_take_nth_drop by metis
  then have f: "filter (\<lambda>n. n \<noteq> None) ns = filter (\<lambda>n. n \<noteq> None) (take i ns) @ filter (\<lambda>n. n \<noteq> None) (drop (Suc i) ns)"
    by (metis (mono_tags, lifting) filter.simps(2) filter_append)
  have g: "filter (\<lambda>n. n \<noteq> None) (ns[i := Some n]) =
      filter (\<lambda>n. n \<noteq> None) (take i ns) @ Some n # filter (\<lambda>n. n \<noteq> None) (drop (Suc i) ns)"
    unfolding upd_conv_take_nth_drop [OF assms(2)] by simp
  have "Some n \<notin> set (take i ns)" "Some n \<notin> set (drop (Suc i) ns)"
    using assms(4) by (auto dest: in_set_takeD in_set_dropD)
  then show ?thesis
    using assms(1) unfolding f g by auto
qed

text \<open>
  Opening a device gives a block of its own to every name: a successful open returns a
  block that carries the name, leaves the names of all other blocks as they are and keeps the
  names distinct; opening the same name again, with any options, returns the same block and
  changes nothing.  An open that is refused changes nothing.
\<close>

theorem OSDevOpen_registers:
  assumes "drivers_keep_names cfg" and "registry_ok s" and "OSDevOpen cfg (Some n) opt s = Some (r, s')"
  shows "case r of
      None \<Rightarrow> s' = s
    | Some i \<Rightarrow> i < length (BRTOSDevices s') \<and> length (BRTOSDevices s') = length (BRTOSDevices s) \<and>
        dev_name (BRTOSDevices s' ! i) = Some n \<and> registry_ok s' \<and>
        (\<forall>j < length (BRTOSDevices s). j \<noteq> i \<longrightarrow> dev_name (BRTOSDevices s' ! j) = dev_name (BRTOSDevices s ! j)) \<and>
        OSDevOpen cfg (Some n) opt' s' = Some (Some i, s')"
proof -
  let ?i = "first_idx (\<lambda>d. dev_name d = Some n) (BRTOSDevices s)"
  let ?f = "first_idx (\<lambda>d. dev_name d = None) (BRTOSDevices s)"
  consider "?i < length (BRTOSDevices s)" | "r = None" "s' = s"
    | num where "\<not> ?i < length (BRTOSDevices s)" "?f < length (BRTOSDevices s)" "r = Some ?f"
        "s' = run_installers (find_type cfg n) ?f opt (OSInstalledDevices cfg)
          (s\<lparr>BRTOSDevices := (BRTOSDevices s)[?f := (BRTOSDevices s ! ?f)\<lparr>dev_name := Some n, DriverData := opt\<rparr>],
             BRTOSDevControl := (BRTOSDevControl s)[?f := (BRTOSDevControl s ! ?f)\<lparr>control_device := Some ?f,
               device_number := num\<rparr>]\<rparr>)"
    using assms(3) by (auto simp: OSDevOpen_def Let_def bind_eq_Some_conv split: if_splits option.splits)
  then show ?thesis
  proof cases
    case 1
    then have "r = Some ?i" "s' = s" using assms(3) by (auto simp: OSDevOpen_def)
    then show ?thesis
      using 1 assms(2) first_idx_hit [OF 1] by (simp add: OSDevOpen_def)
  next
    case 2
    then show ?thesis by simp
  next
    case (3 num)
    have n': "names s' = (names s)[?f := Some n]"
    proof -
      have "names (run_installers t j q (OSInstalledDevices cfg) x) = names x" for t j q x
        using assms(1) by (intro names_run_installers) (auto simp: drivers_keep_names_def)
      then show ?thesis
        unfolding 3(4) by (simp add: names_def map_update)
    qed
    have len: "length (BRTOSDevices s') = length (BRTOSDevices s)"
      using arg_cong [OF n', of length] by simp
    have free: "names s ! ?f = None" using first_idx_hit [OF 3(2)] 3(2) by simp
    have new: "Some n \<notin> set (names s)"
      using 3(1) by (auto simp: names_def first_idx_less)
    have name: "dev_name (BRTOSDevices s' ! j) = (if j = ?f then Some n else dev_name (BRTOSDevices s ! j))"
      if "j < length (BRTOSDevices s)" for j
    proof -
      have "dev_name (BRTOSDevices s' ! j) = names s' ! j" using that len by simp
      then show ?thesis using that 3(2) by (simp add: n' nth_list_update)
    qed
    have "registry_ok s'"
      using assms(2) distinct_update [OF _ _ free new] 3(2) by (simp add: registry_ok_def n')
    moreover have "first_idx (\<lambda>d. dev_name d = Some n) (BRTOSDevices s') = ?f"
    proof (rule first_idx_eqI)
      fix j assume "j < ?f"
      then have j: "j < length (BRTOSDevices s)" "j \<noteq> ?f" using 3(2) by simp_all
      then have "dev_name (BRTOSDevices s ! j) \<noteq> Some n"
        using new nth_mem [of j "names s"] by auto
      then show "dev_name (BRTOSDevices s' ! j) \<noteq> Some n" using name j by simp
    qed (use 3(2) len name in simp_all)
    ultimately show ?thesis
      using 3(2,3) len name by (simp add: OSDevOpen_def)
  qed
qed

section \<open>Names the registry does not expect\<close>

text \<open>
  A name of one letter passes the test for a port, which compares no character of it, and its
  fifth character is read.  A name with two digits has no driver type of its own: it is
  registered, and the first access calls through a null pointer.
\<close>

lemma find_number_short: "\<not> is_digit c \<Longrightarrow> find_number [c] = None"
  by (simp add: find_number_def strn_eq_def strlen_less_1_def word_sless_alt)

lemma find_type_two_digits:
  assumes "dev_types cfg = [''UART'', ''SPI'', ''I2C'', ''GPIO'']"
  shows "find_type cfg ''UART1'' = 0 \<and> find_type cfg ''UART10'' = 4"
  by (simp add: find_type_def assms strn_eq_def strlen_less_1_def)

lemma access_without_driver:
  "control_api (BRTOSDevControl s ! i) = None \<Longrightarrow>
     OSDevWrite i str len s k = None \<and> OSDevRead i len s k = None \<and>
     OSDevSet i req val s k = None \<and> OSDevGet i req s k = None"
  by (simp add: OSDevWrite_def OSDevRead_def OSDevSet_def OSDevGet_def)

section \<open>A concrete run\<close>

definition uart_config :: "(unit, unit, u8) dev_config" where
  "uart_config = \<lparr>dev_types = [''UART'', ''GPIO''], OSInstalledDevices = [(0, Some (\<lambda>i opt s. s)), (1, None)]\<rparr>"

definition two_blocks :: "(unit, unit, u8) registry" where
  "two_blocks =
     \<lparr>BRTOSDevices = replicate 2 \<lparr>dev_name = None, device_type = 0, base_address = 0, DriverData = ()\<rparr>,
      BRTOSDevControl = replicate 2 \<lparr>control_device = None, device_number = 0, control_api = None\<rparr>\<rparr>"

theorem OSDevOpen_registers_witness:
  "\<exists>s. OSDevOpen uart_config (Some ''UART1'') () two_blocks = Some (Some 0, s) \<and>
     OSDevOpen uart_config (Some ''UART1'') () s = Some (Some 0, s)"
proof -
  have k: "drivers_keep_names uart_config"
    by (simp add: drivers_keep_names_def uart_config_def)
  have r: "registry_ok two_blocks"
    by (simp add: registry_ok_def names_def two_blocks_def)
  have "find_number ''UART1'' = Some (Some 1)"
    by (simp add: find_number_def is_digit_def word_sless_alt)
  then obtain s where o: "OSDevOpen uart_config (Some ''UART1'') () two_blocks = Some (Some 0, s)"
    by (simp add: OSDevOpen_def two_blocks_def Let_def eval_nat_numeral)
  then show ?thesis
    using OSDevOpen_registers [OF k r o, of "()"] by auto
qed

end
