(* ===== verification/CoAP_Packet.thy ===== *)
theory CoAP_Packet
  imports Prelude
begin

text \<open>
  CoAP packets, \<^verbatim>\<open>app/coap/er-coap/er-coap.h\<close> and the part of \<^verbatim>\<open>er-coap.c\<close> that fills and reads their
  fields.  Memory is one list of bytes and a pointer is an index into it, so that the strings and the
  payload of a packet, the buffer it is written to and the buffer it was read from may overlap as they
  do in the program; NULL is \<open>None\<close>, and so is the result of an access outside the memory.
  The arrays inside a packet are lists of fixed length.  Lengths of type \<^verbatim>\<open>size_t\<close> (20 bits on the
  processor of the node) are natural numbers, since no object of the memory is that long; where the
  code handles them as \<^verbatim>\<open>unsigned int\<close> the model takes 16 bits of them.
\<close>

section \<open>Memory\<close>

type_synonym memory = "u8 list"

definition byte_at :: "memory \<Rightarrow> nat \<Rightarrow> u8 option" where
  "byte_at m a = (if a < length m then Some (m ! a) else None)"

definition put_byte :: "memory \<Rightarrow> nat \<Rightarrow> u8 \<Rightarrow> memory option" where
  "put_byte m a b = (if a < length m then Some (m[a := b]) else None)"

definition bytes_at :: "memory \<Rightarrow> nat \<Rightarrow> nat \<Rightarrow> u8 list option" where
  "bytes_at m a n = (if a + n \<le> length m then Some (take n (drop a m)) else None)"

definition put_bytes :: "memory \<Rightarrow> nat \<Rightarrow> u8 list \<Rightarrow> memory option" where
  "put_bytes m a xs = (if a + length xs \<le> length m
     then Some (take a m @ xs @ drop (a + length xs) m) else None)"

definition memmove :: "nat \<Rightarrow> nat \<Rightarrow> nat \<Rightarrow> memory \<Rightarrow> memory option" where
  "memmove d s n m = do { xs \<leftarrow> bytes_at m s n; put_bytes m d xs }"

text \<open>\<^verbatim>\<open>memcpy\<close> is undefined when the two ranges overlap.\<close>

definition memcpy :: "nat \<Rightarrow> nat \<Rightarrow> nat \<Rightarrow> memory \<Rightarrow> memory option" where
  "memcpy d s n m = (if d < s + n \<and> s < d + n then None else memmove d s n m)"

section \<open>Constants\<close>

abbreviation (input) "COAP_TYPE_CON \<equiv> 0 :: u16"
abbreviation (input) "COAP_TYPE_NON \<equiv> 1 :: u16"
abbreviation (input) "COAP_TYPE_ACK \<equiv> 2 :: u16"
abbreviation (input) "COAP_TYPE_RST \<equiv> 3 :: u16"

abbreviation (input) "COAP_GET \<equiv> 1 :: u8"
abbreviation (input) "COAP_POST \<equiv> 2 :: u8"
abbreviation (input) "COAP_PUT \<equiv> 3 :: u8"
abbreviation (input) "COAP_DELETE \<equiv> 4 :: u8"

abbreviation (input) "COAP_NO_ERROR \<equiv> 0 :: u8"
abbreviation (input) "CONTENT_2_05 \<equiv> 69 :: u8"
abbreviation (input) "CONTINUE_2_31 \<equiv> 95 :: u8"
abbreviation (input) "BAD_REQUEST_4_00 \<equiv> 128 :: u8"
abbreviation (input) "BAD_OPTION_4_02 \<equiv> 130 :: u8"
abbreviation (input) "NOT_FOUND_4_04 \<equiv> 132 :: u8"
abbreviation (input) "METHOD_NOT_ALLOWED_4_05 \<equiv> 133 :: u8"
abbreviation (input) "REQUEST_ENTITY_TOO_LARGE_4_13 \<equiv> 141 :: u8"
abbreviation (input) "INTERNAL_SERVER_ERROR_5_00 \<equiv> 160 :: u8"
abbreviation (input) "NOT_IMPLEMENTED_5_01 \<equiv> 161 :: u8"
abbreviation (input) "SERVICE_UNAVAILABLE_5_03 \<equiv> 163 :: u8"
abbreviation (input) "PROXYING_NOT_SUPPORTED_5_05 \<equiv> 165 :: u8"
abbreviation (input) "PACKET_SERIALIZATION_ERROR \<equiv> 193 :: u8"
abbreviation (input) "MANUAL_RESPONSE \<equiv> 194 :: u8"
abbreviation (input) "PING_RESPONSE \<equiv> 195 :: u8"

abbreviation (input) "COAP_OPTION_IF_MATCH \<equiv> 1 :: u16"
abbreviation (input) "COAP_OPTION_URI_HOST \<equiv> 3 :: u16"
abbreviation (input) "COAP_OPTION_ETAG \<equiv> 4 :: u16"
abbreviation (input) "COAP_OPTION_IF_NONE_MATCH \<equiv> 5 :: u16"
abbreviation (input) "COAP_OPTION_OBSERVE \<equiv> 6 :: u16"
abbreviation (input) "COAP_OPTION_URI_PORT \<equiv> 7 :: u16"
abbreviation (input) "COAP_OPTION_LOCATION_PATH \<equiv> 8 :: u16"
abbreviation (input) "COAP_OPTION_URI_PATH \<equiv> 11 :: u16"
abbreviation (input) "COAP_OPTION_CONTENT_FORMAT \<equiv> 12 :: u16"
abbreviation (input) "COAP_OPTION_MAX_AGE \<equiv> 14 :: u16"
abbreviation (input) "COAP_OPTION_URI_QUERY \<equiv> 15 :: u16"
abbreviation (input) "COAP_OPTION_ACCEPT \<equiv> 17 :: u16"
abbreviation (input) "COAP_OPTION_LOCATION_QUERY \<equiv> 20 :: u16"
abbreviation (input) "COAP_OPTION_BLOCK2 \<equiv> 23 :: u16"
abbreviation (input) "COAP_OPTION_BLOCK1 \<equiv> 27 :: u16"
abbreviation (input) "COAP_OPTION_SIZE2 \<equiv> 28 :: u16"
abbreviation (input) "COAP_OPTION_PROXY_URI \<equiv> 35 :: u16"
abbreviation (input) "COAP_OPTION_PROXY_SCHEME \<equiv> 39 :: u16"
abbreviation (input) "COAP_OPTION_SIZE1 \<equiv> 60 :: u16"

abbreviation (input) "COAP_DEFAULT_MAX_AGE \<equiv> 60 :: u32"
abbreviation (input) "COAP_HEADER_LEN \<equiv> 4 :: nat"
abbreviation (input) "COAP_TOKEN_LEN \<equiv> 8 :: nat"
abbreviation (input) "COAP_ETAG_LEN \<equiv> 8 :: nat"
abbreviation (input) "COAP_MAX_HEADER_SIZE \<equiv> 62 :: nat"
abbreviation (input) "REST_MAX_CHUNK_SIZE \<equiv> 64 :: nat"
abbreviation (input) "COAP_MAX_BLOCK_SIZE \<equiv> 64 :: u16"

section \<open>Packets\<close>

record coap_packet =
  buffer :: "nat option"
  version :: u8
  msg_type :: u16
  code :: u8
  mid :: u16
  token_len :: u8
  token :: "u8 list"
  options :: "u8 list"
  content_format :: u16
  max_age :: u32
  etag_len :: u8
  etag :: "u8 list"
  proxy_uri_len :: nat
  proxy_uri :: "nat option"
  proxy_scheme_len :: nat
  proxy_scheme :: "nat option"
  uri_host_len :: nat
  uri_host :: "nat option"
  location_path_len :: nat
  location_path :: "nat option"
  uri_port :: u16
  location_query_len :: nat
  location_query :: "nat option"
  uri_path_len :: nat
  uri_path :: "nat option"
  observe :: u32
  accept :: u16
  if_match_len :: u8
  if_match :: "u8 list"
  block2_num :: u32
  block2_more :: u8
  block2_size :: u16
  block2_offset :: u32
  block1_num :: u32
  block1_more :: u8
  block1_size :: u16
  block1_offset :: u32
  size2 :: u32
  size1 :: u32
  uri_query_len :: nat
  uri_query :: "nat option"
  if_none_match :: u8
  payload_len :: u16
  payload :: "nat option"

text \<open>The packet after \<^verbatim>\<open>memset(coap_pkt, 0, sizeof(coap_packet_t))\<close>.\<close>

definition zero_packet :: coap_packet where
  "zero_packet = \<lparr>buffer = None, version = 0, msg_type = 0, code = 0, mid = 0, token_len = 0,
     token = replicate COAP_TOKEN_LEN 0, options = replicate 8 0, content_format = 0, max_age = 0,
     etag_len = 0, etag = replicate COAP_ETAG_LEN 0, proxy_uri_len = 0, proxy_uri = None,
     proxy_scheme_len = 0, proxy_scheme = None, uri_host_len = 0, uri_host = None,
     location_path_len = 0, location_path = None, uri_port = 0, location_query_len = 0,
     location_query = None, uri_path_len = 0, uri_path = None, observe = 0, accept = 0,
     if_match_len = 0, if_match = replicate COAP_ETAG_LEN 0, block2_num = 0, block2_more = 0,
     block2_size = 0, block2_offset = 0, block1_num = 0, block1_more = 0, block1_size = 0,
     block1_offset = 0, size2 = 0, size1 = 0, uri_query_len = 0, uri_query = None,
     if_none_match = 0, payload_len = 0, payload = None\<rparr>"

text \<open>
  The bitmap of options.  The macro does not check the option against the eight bytes of the map;
  the callers with a constant stay within it, and the parser, whose number comes from the message,
  is given the check as a fault of its own.
\<close>

definition SET_OPTION :: "u16 \<Rightarrow> coap_packet \<Rightarrow> coap_packet" where
  "SET_OPTION opt p = p\<lparr>options := (options p)[unat opt div 8 :=
     options p ! (unat opt div 8) OR push_bit (unat opt mod 8) 1]\<rparr>"

definition IS_OPTION :: "coap_packet \<Rightarrow> u16 \<Rightarrow> bool" where
  "IS_OPTION p opt \<longleftrightarrow> options p ! (unat opt div 8) AND push_bit (unat opt mod 8) 1 \<noteq> 0"

definition coap_init_message :: "u16 \<Rightarrow> u8 \<Rightarrow> u16 \<Rightarrow> coap_packet" where
  "coap_init_message t c i = zero_packet\<lparr>msg_type := t, code := c, mid := i\<rparr>"

text \<open>\<open>coap_get_mid\<close> counts the message identifiers; its result is the new count.\<close>

definition coap_get_mid :: "u16 \<Rightarrow> u16" where
  "coap_get_mid current_mid = current_mid + 1"

section \<open>Fields\<close>

text \<open>
  A setter returns the integer it returns in the program and the new packet, a getter the integer
  and the value behind its output parameter, \<open>None\<close> when that is left alone.  A C string is its
  address; its length is that of the bytes before the first zero.
\<close>

definition strlen :: "memory \<Rightarrow> nat \<Rightarrow> nat option" where
  "strlen m a = (let n = length (takeWhile (\<lambda>b. b \<noteq> 0) (drop a m))
     in if a + n < length m then Some n else None)"

text \<open>\<^verbatim>\<open>while(path[0] == c) ++path;\<close>\<close>

definition skip_char :: "u8 \<Rightarrow> memory \<Rightarrow> nat \<Rightarrow> nat option" where
  "skip_char c m a = (let n = length (takeWhile (\<lambda>b. b = c) (drop a m))
     in if a + n < length m then Some (a + n) else None)"

definition coap_set_status_code :: "u16 \<Rightarrow> coap_packet \<Rightarrow> nat \<times> coap_packet" where
  "coap_set_status_code c p = (if c \<le> 0xFF then (1, p\<lparr>code := ucast c\<rparr>) else (0, p))"

text \<open>\<^verbatim>\<open>memcpy\<close> into an array of the packet: the bytes behind the copied ones stay.\<close>

definition overwrite :: "u8 list \<Rightarrow> u8 list \<Rightarrow> u8 list" where
  "overwrite xs arr = xs @ drop (length xs) arr"

definition coap_set_token :: "u8 list \<Rightarrow> coap_packet \<Rightarrow> nat \<times> coap_packet" where
  "coap_set_token t p = (let n = min COAP_TOKEN_LEN (length t)
     in (n, p\<lparr>token_len := of_nat n, token := overwrite (take n t) (token p)\<rparr>))"

definition coap_get_header_content_format :: "coap_packet \<Rightarrow> nat \<times> u16 option" where
  "coap_get_header_content_format p =
     (if \<not> IS_OPTION p COAP_OPTION_CONTENT_FORMAT then (0, None) else (1, Some (content_format p)))"

definition coap_set_header_content_format :: "u16 \<Rightarrow> coap_packet \<Rightarrow> nat \<times> coap_packet" where
  "coap_set_header_content_format v p = (1, SET_OPTION COAP_OPTION_CONTENT_FORMAT (p\<lparr>content_format := v\<rparr>))"

definition coap_get_header_accept :: "coap_packet \<Rightarrow> nat \<times> u16 option" where
  "coap_get_header_accept p =
     (if \<not> IS_OPTION p COAP_OPTION_ACCEPT then (0, None) else (1, Some (accept p)))"

definition coap_set_header_accept :: "u16 \<Rightarrow> coap_packet \<Rightarrow> nat \<times> coap_packet" where
  "coap_set_header_accept v p = (1, SET_OPTION COAP_OPTION_ACCEPT (p\<lparr>accept := v\<rparr>))"

definition coap_get_header_max_age :: "coap_packet \<Rightarrow> nat \<times> u32 option" where
  "coap_get_header_max_age p =
     (1, Some (if \<not> IS_OPTION p COAP_OPTION_MAX_AGE then COAP_DEFAULT_MAX_AGE else max_age p))"

definition coap_set_header_max_age :: "u32 \<Rightarrow> coap_packet \<Rightarrow> nat \<times> coap_packet" where
  "coap_set_header_max_age v p = (1, SET_OPTION COAP_OPTION_MAX_AGE (p\<lparr>max_age := v\<rparr>))"

definition coap_get_header_etag :: "coap_packet \<Rightarrow> nat \<times> u8 list option" where
  "coap_get_header_etag p =
     (if \<not> IS_OPTION p COAP_OPTION_ETAG then (0, None) else (unat (etag_len p), Some (etag p)))"

definition coap_set_header_etag :: "u8 list \<Rightarrow> coap_packet \<Rightarrow> nat \<times> coap_packet" where
  "coap_set_header_etag e p = (let n = min COAP_ETAG_LEN (length e)
     in (n, SET_OPTION COAP_OPTION_ETAG (p\<lparr>etag_len := of_nat n, etag := overwrite (take n e) (etag p)\<rparr>)))"

definition coap_get_header_if_match :: "coap_packet \<Rightarrow> nat \<times> u8 list option" where
  "coap_get_header_if_match p =
     (if \<not> IS_OPTION p COAP_OPTION_IF_MATCH then (0, None) else (unat (if_match_len p), Some (if_match p)))"

definition coap_set_header_if_match :: "u8 list \<Rightarrow> coap_packet \<Rightarrow> nat \<times> coap_packet" where
  "coap_set_header_if_match e p = (let n = min COAP_ETAG_LEN (length e)
     in (n, SET_OPTION COAP_OPTION_IF_MATCH (p\<lparr>if_match_len := of_nat n, if_match := overwrite (take n e) (if_match p)\<rparr>)))"

definition coap_get_header_if_none_match :: "coap_packet \<Rightarrow> nat" where
  "coap_get_header_if_none_match p = (if IS_OPTION p COAP_OPTION_IF_NONE_MATCH then 1 else 0)"

definition coap_set_header_if_none_match :: "coap_packet \<Rightarrow> nat \<times> coap_packet" where
  "coap_set_header_if_none_match p = (1, SET_OPTION COAP_OPTION_IF_NONE_MATCH p)"


text \<open>The strings.\<close>

definition coap_get_header_proxy_uri :: "coap_packet \<Rightarrow> nat \<times> nat option option" where
  "coap_get_header_proxy_uri p =
     (if \<not> IS_OPTION p COAP_OPTION_PROXY_URI then (0, None) else (proxy_uri_len p, Some (proxy_uri p)))"

definition coap_set_header_proxy_uri :: "memory \<Rightarrow> nat \<Rightarrow> coap_packet \<Rightarrow> (nat \<times> coap_packet) option" where
  "coap_set_header_proxy_uri m uri p = do {
     n \<leftarrow> strlen m uri;
     Some (n, SET_OPTION COAP_OPTION_PROXY_URI (p\<lparr>proxy_uri := Some uri, proxy_uri_len := n\<rparr>))
   }"

definition coap_get_header_uri_host :: "coap_packet \<Rightarrow> nat \<times> nat option option" where
  "coap_get_header_uri_host p =
     (if \<not> IS_OPTION p COAP_OPTION_URI_HOST then (0, None) else (uri_host_len p, Some (uri_host p)))"

definition coap_set_header_uri_host :: "memory \<Rightarrow> nat \<Rightarrow> coap_packet \<Rightarrow> (nat \<times> coap_packet) option" where
  "coap_set_header_uri_host m host p = do {
     n \<leftarrow> strlen m host;
     Some (n, SET_OPTION COAP_OPTION_URI_HOST (p\<lparr>uri_host := Some host, uri_host_len := n\<rparr>))
   }"

definition coap_get_header_uri_path :: "coap_packet \<Rightarrow> nat \<times> nat option option" where
  "coap_get_header_uri_path p =
     (if \<not> IS_OPTION p COAP_OPTION_URI_PATH then (0, None) else (uri_path_len p, Some (uri_path p)))"

definition coap_set_header_uri_path :: "memory \<Rightarrow> nat \<Rightarrow> coap_packet \<Rightarrow> (nat \<times> coap_packet) option" where
  "coap_set_header_uri_path m path p = do {
     a \<leftarrow> skip_char (of_char CHR ''/'') m path;
     n \<leftarrow> strlen m a;
     Some (n, SET_OPTION COAP_OPTION_URI_PATH (p\<lparr>uri_path := Some a, uri_path_len := n\<rparr>))
   }"

definition coap_get_header_uri_query :: "coap_packet \<Rightarrow> nat \<times> nat option option" where
  "coap_get_header_uri_query p =
     (if \<not> IS_OPTION p COAP_OPTION_URI_QUERY then (0, None) else (uri_query_len p, Some (uri_query p)))"

definition coap_set_header_uri_query :: "memory \<Rightarrow> nat \<Rightarrow> coap_packet \<Rightarrow> (nat \<times> coap_packet) option" where
  "coap_set_header_uri_query m query p = do {
     a \<leftarrow> skip_char (of_char CHR ''?'') m query;
     n \<leftarrow> strlen m a;
     Some (n, SET_OPTION COAP_OPTION_URI_QUERY (p\<lparr>uri_query := Some a, uri_query_len := n\<rparr>))
   }"

definition coap_get_header_location_query :: "coap_packet \<Rightarrow> nat \<times> nat option option" where
  "coap_get_header_location_query p =
     (if \<not> IS_OPTION p COAP_OPTION_LOCATION_QUERY then (0, None)
      else (location_query_len p, Some (location_query p)))"

definition coap_set_header_location_query :: "memory \<Rightarrow> nat \<Rightarrow> coap_packet \<Rightarrow> (nat \<times> coap_packet) option" where
  "coap_set_header_location_query m query p = do {
     a \<leftarrow> skip_char (of_char CHR ''?'') m query;
     n \<leftarrow> strlen m a;
     Some (n, SET_OPTION COAP_OPTION_LOCATION_QUERY (p\<lparr>location_query := Some a, location_query_len := n\<rparr>))
   }"

definition coap_get_header_location_path :: "coap_packet \<Rightarrow> nat \<times> nat option option" where
  "coap_get_header_location_path p =
     (if \<not> IS_OPTION p COAP_OPTION_LOCATION_PATH then (0, None)
      else (location_path_len p, Some (location_path p)))"

text \<open>A question mark in the path starts the location query; \<open>strchr\<close> looks before the first zero.\<close>

definition coap_set_header_location_path :: "memory \<Rightarrow> nat \<Rightarrow> coap_packet \<Rightarrow> (nat \<times> coap_packet) option" where
  "coap_set_header_location_path m path p = do {
     a \<leftarrow> skip_char (of_char CHR ''/'') m path;
     n \<leftarrow> strlen m a;
     let k = length (takeWhile (\<lambda>b. b \<noteq> of_char CHR ''?'') (take n (drop a m)));
     (l, p1) \<leftarrow> (if k < n then do {
         (_, q) \<leftarrow> coap_set_header_location_query m (a + k + 1) p;
         Some (k, q\<lparr>location_path_len := k\<rparr>)
       } else Some (n, p\<lparr>location_path_len := n\<rparr>));
     let p2 = p1\<lparr>location_path := Some a\<rparr>;
     Some (l, if l > 0 then SET_OPTION COAP_OPTION_LOCATION_PATH p2 else p2)
   }"

text \<open>Numbers, blocks and the payload.\<close>

definition coap_get_header_observe :: "coap_packet \<Rightarrow> nat \<times> u32 option" where
  "coap_get_header_observe p =
     (if \<not> IS_OPTION p COAP_OPTION_OBSERVE then (0, None) else (1, Some (observe p)))"

definition coap_set_header_observe :: "u32 \<Rightarrow> coap_packet \<Rightarrow> nat \<times> coap_packet" where
  "coap_set_header_observe v p = (1, SET_OPTION COAP_OPTION_OBSERVE (p\<lparr>observe := v\<rparr>))"

definition coap_get_header_block2 :: "coap_packet \<Rightarrow> nat \<times> (u32 \<times> u8 \<times> u16 \<times> u32) option" where
  "coap_get_header_block2 p =
     (if \<not> IS_OPTION p COAP_OPTION_BLOCK2 then (0, None)
      else (1, Some (block2_num p, block2_more p, block2_size p, block2_offset p)))"

definition coap_set_header_block2 :: "u32 \<Rightarrow> u8 \<Rightarrow> u16 \<Rightarrow> coap_packet \<Rightarrow> nat \<times> coap_packet" where
  "coap_set_header_block2 num has_more bsize p =
     (if bsize < 16 then (0, p)
      else if bsize > 2048 then (0, p)
      else if num > 0x0FFFFF then (0, p)
      else (1, SET_OPTION COAP_OPTION_BLOCK2
             (p\<lparr>block2_num := num, block2_more := (if has_more \<noteq> 0 then 1 else 0), block2_size := bsize\<rparr>)))"

definition coap_get_header_block1 :: "coap_packet \<Rightarrow> nat \<times> (u32 \<times> u8 \<times> u16 \<times> u32) option" where
  "coap_get_header_block1 p =
     (if \<not> IS_OPTION p COAP_OPTION_BLOCK1 then (0, None)
      else (1, Some (block1_num p, block1_more p, block1_size p, block1_offset p)))"

definition coap_set_header_block1 :: "u32 \<Rightarrow> u8 \<Rightarrow> u16 \<Rightarrow> coap_packet \<Rightarrow> nat \<times> coap_packet" where
  "coap_set_header_block1 num has_more bsize p =
     (if bsize < 16 then (0, p)
      else if bsize > 2048 then (0, p)
      else if num > 0x0FFFFF then (0, p)
      else (1, SET_OPTION COAP_OPTION_BLOCK1
             (p\<lparr>block1_num := num, block1_more := has_more, block1_size := bsize\<rparr>)))"

definition coap_get_header_size2 :: "coap_packet \<Rightarrow> nat \<times> u32 option" where
  "coap_get_header_size2 p =
     (if \<not> IS_OPTION p COAP_OPTION_SIZE2 then (0, None) else (1, Some (size2 p)))"

definition coap_set_header_size2 :: "u32 \<Rightarrow> coap_packet \<Rightarrow> nat \<times> coap_packet" where
  "coap_set_header_size2 v p = (1, SET_OPTION COAP_OPTION_SIZE2 (p\<lparr>size2 := v\<rparr>))"

definition coap_get_header_size1 :: "coap_packet \<Rightarrow> nat \<times> u32 option" where
  "coap_get_header_size1 p =
     (if \<not> IS_OPTION p COAP_OPTION_SIZE1 then (0, None) else (1, Some (size1 p)))"

definition coap_set_header_size1 :: "u32 \<Rightarrow> coap_packet \<Rightarrow> nat \<times> coap_packet" where
  "coap_set_header_size1 v p = (1, SET_OPTION COAP_OPTION_SIZE1 (p\<lparr>size1 := v\<rparr>))"

definition coap_get_payload :: "coap_packet \<Rightarrow> nat \<times> nat option" where
  "coap_get_payload p = (case payload p of Some a \<Rightarrow> (unat (payload_len p), Some a) | None \<Rightarrow> (0, None))"

definition coap_set_payload :: "nat option \<Rightarrow> nat \<Rightarrow> coap_packet \<Rightarrow> nat \<times> coap_packet" where
  "coap_set_payload a len p = (let n = min REST_MAX_CHUNK_SIZE len
     in (n, p\<lparr>payload := a, payload_len := of_nat n\<rparr>))"

section \<open>Variables in a query or a form\<close>

text \<open>
  \<open>coap_get_variable\<close> looks for \<open>name=value\<close> among parts that are separated by \<open>&\<close>.
\<close>

function get_variable_loop :: "memory \<Rightarrow> nat \<Rightarrow> nat \<Rightarrow> u8 list \<Rightarrow> nat \<Rightarrow> (nat \<times> nat option) option" where
  "get_variable_loop m buf stop name start =
     (if start + length name < stop then do {
        b \<leftarrow> (if start = buf then Some (of_char CHR ''&'') else byte_at m (start - 1));
        e \<leftarrow> byte_at m (start + length name);
        s \<leftarrow> bytes_at m start (length name);
        if b = of_char CHR ''&'' \<and> e = of_char CHR ''='' \<and> s = name then
          do {
            let value = start + length name + 1;
            rest \<leftarrow> bytes_at m value (stop - value);
            Some (length (takeWhile (\<lambda>c. c \<noteq> of_char CHR ''&'') rest), Some value)
          }
        else get_variable_loop m buf stop name (start + 1)
      }
      else Some (0, None))"
  by pat_completeness auto
termination
  by (relation "measure (\<lambda>(m, buf, stop, name, start). stop - start)") auto

declare get_variable_loop.simps [simp del]

definition coap_get_variable :: "memory \<Rightarrow> nat \<Rightarrow> nat \<Rightarrow> u8 list \<Rightarrow> (nat \<times> nat option) option" where
  "coap_get_variable m buf len name = get_variable_loop m buf (buf + len) name buf"

text \<open>Without the option or without a payload the output parameter is left alone.\<close>

definition coap_get_query_variable :: "memory \<Rightarrow> coap_packet \<Rightarrow> u8 list \<Rightarrow> (nat \<times> nat option option) option" where
  "coap_get_query_variable m p name =
     (if IS_OPTION p COAP_OPTION_URI_QUERY then do {
        a \<leftarrow> uri_query p;
        (n, out) \<leftarrow> coap_get_variable m a (uri_query_len p) name;
        Some (n, Some out)
      } else Some (0, None))"

definition coap_get_post_variable :: "memory \<Rightarrow> coap_packet \<Rightarrow> u8 list \<Rightarrow> (nat \<times> nat option option) option" where
  "coap_get_post_variable m p name =
     (if payload_len p \<noteq> 0 then do {
        a \<leftarrow> payload p;
        (n, out) \<leftarrow> coap_get_variable m a (unat (payload_len p)) name;
        Some (n, Some out)
      } else Some (0, None))"

end
