(* ===== verification/CoAP_Codec.thy ===== *)
theory CoAP_Codec
  imports CoAP_Packet
begin

text \<open>
  Writing a packet to memory and reading it from there: \<open>coap_serialize_message\<close> and
  \<open>coap_parse_message\<close> of \<^verbatim>\<open>er-coap.c\<close> with their helpers.  Both work in place: the payload of a
  packet may lie in the buffer it is written to, and the parser joins the parts of a path
  inside the message.
\<close>

section \<open>Numbers\<close>

function log_2_loop :: "u16 \<Rightarrow> u16 \<Rightarrow> u16" where
  "log_2_loop x result =
     (let x' = drop_bit 1 x; result' = result + 1 in if x' \<noteq> 0 then log_2_loop x' result' else result')"
  by auto
termination
proof (relation "measure (\<lambda>(x, result). unat x)", goal_cases)
  case (2 x result x' result')
  then have "unat x div 2 \<noteq> 0"
    by (simp add: drop_bit_eq_div unat_div word_unat_eq_iff)
  with 2 show ?case by (simp add: drop_bit_eq_div unat_div)
qed simp

declare log_2_loop.simps [simp del]

definition coap_log_2 :: "u16 \<Rightarrow> u16" where
  "coap_log_2 x = (let result = log_2_loop x 0 in if result \<noteq> 0 then result - 1 else result)"

definition int_of_bytes :: "u8 list \<Rightarrow> u32" where
  "int_of_bytes bs = foldl (\<lambda>var b. push_bit 8 var OR ucast b) 0 bs"

definition coap_parse_int_option :: "memory \<Rightarrow> nat \<Rightarrow> nat \<Rightarrow> u32 option" where
  "coap_parse_int_option m bytes len = do { bs \<leftarrow> bytes_at m bytes len; Some (int_of_bytes bs) }"

section \<open>Option headers\<close>

definition coap_option_nibble :: "u16 \<Rightarrow> u8" where
  "coap_option_nibble x = (if x < 13 then ucast x else if x \<le> 0xFF + 13 then 13 else 14)"

definition put_extension :: "u16 \<Rightarrow> nat \<Rightarrow> nat \<Rightarrow> memory \<Rightarrow> (nat \<times> memory) option" where
  "put_extension x buf written m =
     (if x > 268 then do {
        m1 \<leftarrow> put_byte m (buf + written + 1) (ucast (drop_bit 8 (x - 269)));
        m2 \<leftarrow> put_byte m1 (buf + written + 2) (ucast (x - 269));
        Some (written + 2, m2)
      }
      else if x > 12 then do {
        m1 \<leftarrow> put_byte m (buf + written + 1) (ucast (x - 13));
        Some (written + 1, m1)
      }
      else Some (written, m))"

definition coap_set_option_header :: "u16 \<Rightarrow> nat \<Rightarrow> nat \<Rightarrow> memory \<Rightarrow> (nat \<times> memory) option" where
  "coap_set_option_header delta len buf m = do {
     m1 \<leftarrow> put_byte m buf (push_bit 4 (coap_option_nibble delta) OR coap_option_nibble (of_nat len));
     (w1, m2) \<leftarrow> put_extension delta buf 0 m1;
     (w2, m3) \<leftarrow> put_extension (of_nat len) buf w1 m2;
     Some (w2 + 1, m3)
   }"

section \<open>Writing options\<close>

definition put_if :: "bool \<Rightarrow> u8 \<Rightarrow> nat \<Rightarrow> nat \<times> memory \<Rightarrow> (nat \<times> memory) option" where
  "put_if c b buf im = (case im of (i, m) \<Rightarrow>
     if c then do { m1 \<leftarrow> put_byte m (buf + i) b; Some (i + 1, m1) } else Some (i, m))"

definition coap_serialize_int_option :: "u16 \<Rightarrow> u16 \<Rightarrow> nat \<Rightarrow> u32 \<Rightarrow> memory \<Rightarrow> (nat \<times> memory) option" where
  "coap_serialize_int_option number current_number buf val m = do {
     let c3 = (0xFF000000 AND val \<noteq> 0);
     let c2 = (0xFFFF0000 AND val \<noteq> 0);
     let c1 = (0xFFFFFF00 AND val \<noteq> 0);
     let c0 = (0xFFFFFFFF AND val \<noteq> 0);
     let i = (if c3 then 1 else 0) + (if c2 then 1 else 0) + (if c1 then 1 else 0) + (if c0 then 1 else 0);
     im \<leftarrow> coap_set_option_header (number - current_number) i buf m;
     im \<leftarrow> put_if c3 (ucast (drop_bit 24 val)) buf im;
     im \<leftarrow> put_if c2 (ucast (drop_bit 16 val)) buf im;
     im \<leftarrow> put_if c1 (ucast (drop_bit 8 val)) buf im;
     put_if c0 (ucast val) buf im
   }"

text \<open>The bytes of an option are an array of the packet itself or a string in memory.\<close>

datatype source = In_Packet "u8 list" | In_Memory "nat option"

fun source_byte :: "source \<Rightarrow> nat \<Rightarrow> memory \<Rightarrow> u8 option" where
  "source_byte (In_Packet xs) j m = (if j < length xs then Some (xs ! j) else None)"
| "source_byte (In_Memory None) j m = None"
| "source_byte (In_Memory (Some a)) j m = byte_at m (a + j)"

fun source_copy :: "nat \<Rightarrow> source \<Rightarrow> nat \<Rightarrow> nat \<Rightarrow> memory \<Rightarrow> memory option" where
  "source_copy d (In_Packet xs) j n m =
     (if j + n \<le> length xs then put_bytes m d (take n (drop j xs)) else None)"
| "source_copy d (In_Memory None) j n m = (if n = 0 then Some m else None)"
| "source_copy d (In_Memory (Some a)) j n m = memcpy d (a + j) n m"

text \<open>
  The loop over a string with separators: \<open>j\<close> is the index, \<open>part\<close> that of \<open>part_start\<close>.  After a
  separator the index skips one byte more than the separator, and the loop goes one byte beyond
  the end of the string.
\<close>

function split_loop :: "u16 \<Rightarrow> u16 \<Rightarrow> nat \<Rightarrow> source \<Rightarrow> nat \<Rightarrow> u8 \<Rightarrow> nat \<Rightarrow> nat \<Rightarrow> nat \<Rightarrow> memory
    \<Rightarrow> (nat \<times> memory) option" where
  "split_loop number current_number buf array len split_char j part i m =
     (if j \<le> len + 1 then do {
        b \<leftarrow> source_byte array j m;
        if b = split_char \<or> j = len then do {
          let temp_length = j - part;
          (w, m1) \<leftarrow> coap_set_option_header (number - current_number) temp_length (buf + i) m;
          let i1 = i + w;
          (i2, m2) \<leftarrow> (if (of_nat temp_length :: u16) > 0 then do {
              m2 \<leftarrow> source_copy (buf + i1) array part temp_length m1;
              Some (i1 + temp_length, m2)
            } else Some (i1, m1));
          split_loop number number buf array len split_char (j + 2) (j + 1) i2 m2
        }
        else split_loop number current_number buf array len split_char (j + 1) part i m
      }
      else Some (i, m))"
  by pat_completeness auto
termination
  by (relation "measure (\<lambda>(number, current_number, buf, array, len, split_char, j, part, i, m). len + 2 - j)")
    auto

declare split_loop.simps [simp del]

definition coap_serialize_array_option :: "u16 \<Rightarrow> u16 \<Rightarrow> nat \<Rightarrow> source \<Rightarrow> nat \<Rightarrow> u8 \<Rightarrow> memory
    \<Rightarrow> (nat \<times> memory) option" where
  "coap_serialize_array_option number current_number buf array len split_char m =
     (if split_char \<noteq> 0 then split_loop number current_number buf array len split_char 0 0 0 m
      else do {
        (i, m1) \<leftarrow> coap_set_option_header (number - current_number) len buf m;
        m2 \<leftarrow> source_copy (buf + i) array 0 len m1;
        Some (i + len, m2)
      })"

text \<open>
  The four macros.  Their state is the pointer \<open>option\<close>, the number of the last option, and memory.
\<close>

type_synonym writer = "nat \<times> u16 \<times> memory"

definition COAP_SERIALIZE_INT_OPTION :: "coap_packet \<Rightarrow> u16 \<Rightarrow> u32 \<Rightarrow> writer \<Rightarrow> writer option" where
  "COAP_SERIALIZE_INT_OPTION p number field w = (case w of (opt, current_number, m) \<Rightarrow>
     if IS_OPTION p number then do {
       (i, m1) \<leftarrow> coap_serialize_int_option number current_number opt field m;
       Some (opt + i, number, m1)
     } else Some w)"

definition COAP_SERIALIZE_BYTE_OPTION :: "coap_packet \<Rightarrow> u16 \<Rightarrow> u8 list \<Rightarrow> u8 \<Rightarrow> writer \<Rightarrow> writer option" where
  "COAP_SERIALIZE_BYTE_OPTION p number field field_len w = (case w of (opt, current_number, m) \<Rightarrow>
     if IS_OPTION p number then do {
       (i, m1) \<leftarrow> coap_serialize_array_option number current_number opt (In_Packet field) (unat field_len) 0 m;
       Some (opt + i, number, m1)
     } else Some w)"

definition COAP_SERIALIZE_STRING_OPTION :: "coap_packet \<Rightarrow> u16 \<Rightarrow> nat option \<Rightarrow> nat \<Rightarrow> u8 \<Rightarrow> writer \<Rightarrow> writer option" where
  "COAP_SERIALIZE_STRING_OPTION p number field field_len splitter w = (case w of (opt, current_number, m) \<Rightarrow>
     if IS_OPTION p number then do {
       (i, m1) \<leftarrow> coap_serialize_array_option number current_number opt (In_Memory field) field_len splitter m;
       Some (opt + i, number, m1)
     } else Some w)"

definition block_option :: "u32 \<Rightarrow> u8 \<Rightarrow> u16 \<Rightarrow> u32" where
  "block_option num has_more bsize =
     (let block = push_bit 4 num;
          block = (if has_more \<noteq> 0 then block OR 0x8 else block)
      in block OR ucast (0xF AND coap_log_2 (bsize div 16)))"

definition COAP_SERIALIZE_BLOCK_OPTION :: "coap_packet \<Rightarrow> u16 \<Rightarrow> u32 \<Rightarrow> u8 \<Rightarrow> u16 \<Rightarrow> writer \<Rightarrow> writer option" where
  "COAP_SERIALIZE_BLOCK_OPTION p number num has_more bsize w =
     COAP_SERIALIZE_INT_OPTION p number (block_option num has_more bsize) w"

section \<open>Writing a message\<close>

abbreviation (input) "SLASH \<equiv> 47 :: u8"
abbreviation (input) "AMPERSAND \<equiv> 38 :: u8"

definition header_bytes :: "coap_packet \<Rightarrow> u8 list" where
  "header_bytes p =
     [(0xC0 AND push_bit 6 (version p)) OR (0x30 AND ucast (push_bit 4 (msg_type p))) OR (0x0F AND token_len p),
      code p, ucast (drop_bit 8 (mid p)), ucast (mid p)]"

definition serialize_options :: "coap_packet \<Rightarrow> writer \<Rightarrow> writer option" where
  "serialize_options p w = do {
     w \<leftarrow> COAP_SERIALIZE_BYTE_OPTION p COAP_OPTION_IF_MATCH (if_match p) (if_match_len p) w;
     w \<leftarrow> COAP_SERIALIZE_STRING_OPTION p COAP_OPTION_URI_HOST (uri_host p) (uri_host_len p) 0 w;
     w \<leftarrow> COAP_SERIALIZE_BYTE_OPTION p COAP_OPTION_ETAG (etag p) (etag_len p) w;
     w \<leftarrow> COAP_SERIALIZE_INT_OPTION p COAP_OPTION_IF_NONE_MATCH (ucast (content_format p - content_format p)) w;
     w \<leftarrow> COAP_SERIALIZE_INT_OPTION p COAP_OPTION_OBSERVE (observe p) w;
     w \<leftarrow> COAP_SERIALIZE_INT_OPTION p COAP_OPTION_URI_PORT (ucast (uri_port p)) w;
     w \<leftarrow> COAP_SERIALIZE_STRING_OPTION p COAP_OPTION_LOCATION_PATH (location_path p) (location_path_len p) SLASH w;
     w \<leftarrow> COAP_SERIALIZE_STRING_OPTION p COAP_OPTION_URI_PATH (uri_path p) (uri_path_len p) SLASH w;
     w \<leftarrow> COAP_SERIALIZE_INT_OPTION p COAP_OPTION_CONTENT_FORMAT (ucast (content_format p)) w;
     w \<leftarrow> COAP_SERIALIZE_INT_OPTION p COAP_OPTION_MAX_AGE (max_age p) w;
     w \<leftarrow> COAP_SERIALIZE_STRING_OPTION p COAP_OPTION_URI_QUERY (uri_query p) (uri_query_len p) AMPERSAND w;
     w \<leftarrow> COAP_SERIALIZE_INT_OPTION p COAP_OPTION_ACCEPT (ucast (accept p)) w;
     w \<leftarrow> COAP_SERIALIZE_STRING_OPTION p COAP_OPTION_LOCATION_QUERY (location_query p) (location_query_len p) AMPERSAND w;
     w \<leftarrow> COAP_SERIALIZE_BLOCK_OPTION p COAP_OPTION_BLOCK2 (block2_num p) (block2_more p) (block2_size p) w;
     w \<leftarrow> COAP_SERIALIZE_BLOCK_OPTION p COAP_OPTION_BLOCK1 (block1_num p) (block1_more p) (block1_size p) w;
     w \<leftarrow> COAP_SERIALIZE_INT_OPTION p COAP_OPTION_SIZE2 (size2 p) w;
     w \<leftarrow> COAP_SERIALIZE_STRING_OPTION p COAP_OPTION_PROXY_URI (proxy_uri p) (proxy_uri_len p) 0 w;
     w \<leftarrow> COAP_SERIALIZE_STRING_OPTION p COAP_OPTION_PROXY_SCHEME (proxy_scheme p) (proxy_scheme_len p) 0 w;
     COAP_SERIALIZE_INT_OPTION p COAP_OPTION_SIZE1 (size1 p) w
   }"

text \<open>
  The result is the size of the message, the packet, whose version and buffer are set, and memory;
  the size 0 stands for a header that is too long, with the text for \<open>coap_error_message\<close>.
\<close>

definition coap_serialize_message :: "coap_packet \<Rightarrow> nat \<Rightarrow> memory
    \<Rightarrow> (nat \<times> string option \<times> coap_packet \<times> memory) option" where
  "coap_serialize_message p0 buf m = do {
     let p = p0\<lparr>buffer := Some buf, version := 1\<rparr>;
     m1 \<leftarrow> put_bytes m buf (header_bytes p);
     if code p = 0 then Some (4, None, p, m1)
     else do {
       m2 \<leftarrow> (if unat (token_len p) \<le> length (token p)
               then put_bytes m1 (buf + COAP_HEADER_LEN) (take (unat (token_len p)) (token p)) else None);
       (opt, n, m3) \<leftarrow> serialize_options p (buf + COAP_HEADER_LEN + unat (token_len p), 0, m2);
       if opt - buf \<le> COAP_MAX_HEADER_SIZE then do {
         (opt, m4) \<leftarrow> (if payload_len p \<noteq> 0 then do { m4 \<leftarrow> put_byte m3 opt 0xFF; Some (opt + 1, m4) }
                     else Some (opt, m3));
         m5 \<leftarrow> (if payload_len p = 0 then Some m4
                 else do { a \<leftarrow> payload p; memmove opt a (unat (payload_len p)) m4 });
         Some (opt - buf + unat (payload_len p), None, p, m5)
       }
       else Some (0, Some ''Serialized header exceeds COAP_MAX_HEADER_SIZE'', p\<lparr>buffer := None\<rparr>, m3)
     }
   }"

section \<open>Reading options\<close>

definition read_extension :: "u16 \<Rightarrow> nat \<Rightarrow> memory \<Rightarrow> (u16 \<times> nat) option" where
  "read_extension x pos m =
     (if x = 13 then do { b \<leftarrow> byte_at m pos; Some (x + ucast b, pos + 1) }
      else if x = 14 then do {
        b1 \<leftarrow> byte_at m pos;
        b0 \<leftarrow> byte_at m (pos + 1);
        Some (x + 255 + push_bit 8 (ucast b1) + ucast b0, pos + 2)
      }
      else Some (x, pos))"

text \<open>\<open>coap_merge_multi_option\<close>: the new string and its length.\<close>

definition coap_merge_multi_option :: "nat option \<Rightarrow> nat \<Rightarrow> nat \<Rightarrow> nat \<Rightarrow> u8 \<Rightarrow> memory
    \<Rightarrow> (nat option \<times> nat \<times> memory) option" where
  "coap_merge_multi_option dst dst_len opt option_len separator m =
     (if dst_len > 0 then do {
        d \<leftarrow> dst;
        m1 \<leftarrow> put_byte m (d + dst_len) separator;
        m2 \<leftarrow> memmove (d + (dst_len + 1)) opt option_len m1;
        Some (dst, dst_len + 1 + option_len, m2)
      }
      else Some (Some opt, option_len, m))"

text \<open>
  The cases of the switch: a status with its text that ends the parser, or the packet and memory.
\<close>

definition read_etag :: "u8 list \<Rightarrow> nat \<Rightarrow> nat \<Rightarrow> memory \<Rightarrow> (u8 \<times> u8 list) option" where
  "read_etag arr pos len m = do {
     bs \<leftarrow> bytes_at m pos (min COAP_ETAG_LEN len);
     Some (of_nat (min COAP_ETAG_LEN len), overwrite bs arr)
   }"

definition block_fields :: "u32 \<Rightarrow> u32 \<times> u8 \<times> u16 \<times> u32" where
  "block_fields n = (drop_bit 4 n, ucast (drop_bit 3 (n AND 0x08)), push_bit (unat (n AND 0x07)) 16,
     push_bit (unat (n AND 0x07)) (n AND NOT 0x0F))"

datatype read_result = Reject u8 string | Accept coap_packet memory

definition apply_option :: "u16 \<Rightarrow> nat \<Rightarrow> nat \<Rightarrow> coap_packet \<Rightarrow> memory \<Rightarrow> read_result option" where
  "apply_option number pos len p m =
     (if number = COAP_OPTION_CONTENT_FORMAT then do {
        v \<leftarrow> coap_parse_int_option m pos len; Some (Accept (p\<lparr>content_format := ucast v\<rparr>) m) }
      else if number = COAP_OPTION_MAX_AGE then do {
        v \<leftarrow> coap_parse_int_option m pos len; Some (Accept (p\<lparr>max_age := v\<rparr>) m) }
      else if number = COAP_OPTION_ETAG then do {
        (n, e) \<leftarrow> read_etag (etag p) pos len m; Some (Accept (p\<lparr>etag_len := n, etag := e\<rparr>) m) }
      else if number = COAP_OPTION_ACCEPT then do {
        v \<leftarrow> coap_parse_int_option m pos len; Some (Accept (p\<lparr>accept := ucast v\<rparr>) m) }
      else if number = COAP_OPTION_IF_MATCH then do {
        (n, e) \<leftarrow> read_etag (if_match p) pos len m; Some (Accept (p\<lparr>if_match_len := n, if_match := e\<rparr>) m) }
      else if number = COAP_OPTION_IF_NONE_MATCH then Some (Accept (p\<lparr>if_none_match := 1\<rparr>) m)
      else if number = COAP_OPTION_PROXY_URI \<or> number = COAP_OPTION_PROXY_SCHEME then
        Some (Reject PROXYING_NOT_SUPPORTED_5_05 ''This is a constrained server (Contiki)'')
      else if number = COAP_OPTION_URI_HOST then
        Some (Accept (p\<lparr>uri_host := Some pos, uri_host_len := len\<rparr>) m)
      else if number = COAP_OPTION_URI_PORT then do {
        v \<leftarrow> coap_parse_int_option m pos len; Some (Accept (p\<lparr>uri_port := ucast v\<rparr>) m) }
      else if number = COAP_OPTION_URI_PATH then do {
        (a, n, m1) \<leftarrow> coap_merge_multi_option (uri_path p) (uri_path_len p) pos len SLASH m;
        Some (Accept (p\<lparr>uri_path := a, uri_path_len := n\<rparr>) m1) }
      else if number = COAP_OPTION_URI_QUERY then do {
        (a, n, m1) \<leftarrow> coap_merge_multi_option (uri_query p) (uri_query_len p) pos len AMPERSAND m;
        Some (Accept (p\<lparr>uri_query := a, uri_query_len := n\<rparr>) m1) }
      else if number = COAP_OPTION_LOCATION_PATH then do {
        (a, n, m1) \<leftarrow> coap_merge_multi_option (location_path p) (location_path_len p) pos len SLASH m;
        Some (Accept (p\<lparr>location_path := a, location_path_len := n\<rparr>) m1) }
      else if number = COAP_OPTION_LOCATION_QUERY then do {
        (a, n, m1) \<leftarrow> coap_merge_multi_option (location_query p) (location_query_len p) pos len AMPERSAND m;
        Some (Accept (p\<lparr>location_query := a, location_query_len := n\<rparr>) m1) }
      else if number = COAP_OPTION_OBSERVE then do {
        v \<leftarrow> coap_parse_int_option m pos len; Some (Accept (p\<lparr>observe := v\<rparr>) m) }
      else if number = COAP_OPTION_BLOCK2 then do {
        v \<leftarrow> coap_parse_int_option m pos len;
        let (n, h, s, off) = block_fields v;
        Some (Accept (p\<lparr>block2_num := n, block2_more := h, block2_size := s, block2_offset := off\<rparr>) m) }
      else if number = COAP_OPTION_BLOCK1 then do {
        v \<leftarrow> coap_parse_int_option m pos len;
        let (n, h, s, off) = block_fields v;
        Some (Accept (p\<lparr>block1_num := n, block1_more := h, block1_size := s, block1_offset := off\<rparr>) m) }
      else if number = COAP_OPTION_SIZE2 then do {
        v \<leftarrow> coap_parse_int_option m pos len; Some (Accept (p\<lparr>size2 := v\<rparr>) m) }
      else if number = COAP_OPTION_SIZE1 then do {
        v \<leftarrow> coap_parse_int_option m pos len; Some (Accept (p\<lparr>size1 := v\<rparr>) m) }
      else if number AND 1 \<noteq> 0 then Some (Reject BAD_OPTION_4_02 ''Unsupported critical option'')
      else Some (Accept p m))"

text \<open>
  One turn of the loop: the parser ends with a status, or goes on behind the option.  An option number
  beyond the bitmap sets a bit outside the map, which is a fault.
\<close>

datatype turn = Finished u8 "string option" coap_packet memory | Go_On nat u16 coap_packet memory

definition parse_payload :: "nat \<Rightarrow> u16 \<Rightarrow> nat \<Rightarrow> coap_packet \<Rightarrow> memory \<Rightarrow> turn option" where
  "parse_payload buf data_len pos p m = do {
     let n = data_len - of_nat (pos + 1 - buf);
     let n = (if unat n > REST_MAX_CHUNK_SIZE then of_nat REST_MAX_CHUNK_SIZE else n);
     m1 \<leftarrow> put_byte m (pos + 1 + unat n) 0;
     Some (Finished COAP_NO_ERROR None (p\<lparr>payload := Some (pos + 1), payload_len := n\<rparr>) m1)
   }"

definition parse_option :: "nat \<Rightarrow> u16 \<Rightarrow> coap_packet \<Rightarrow> memory \<Rightarrow> turn option" where
  "parse_option pos number p m = do {
     b \<leftarrow> byte_at m pos;
     (delta, pos1) \<leftarrow> read_extension (ucast (drop_bit 4 b)) (pos + 1) m;
     (len, pos2) \<leftarrow> read_extension (ucast (b AND 0x0F)) pos1 m;
     let number1 = number + delta;
     r \<leftarrow> (if unat number1 div 8 < length (options p)
           then apply_option number1 pos2 (unat len) (SET_OPTION number1 p) m else None);
     (case r of
        Reject s t \<Rightarrow> Some (Finished s (Some t) (SET_OPTION number1 p) m)
      | Accept p1 m1 \<Rightarrow> Some (Go_On (pos2 + unat len) number1 p1 m1))
   }"

definition parse_turn :: "nat \<Rightarrow> u16 \<Rightarrow> nat \<Rightarrow> u16 \<Rightarrow> coap_packet \<Rightarrow> memory \<Rightarrow> turn option" where
  "parse_turn buf data_len pos number p m = do {
     b \<leftarrow> byte_at m pos;
     (if b AND 0xF0 = 0xF0 then parse_payload buf data_len pos p m else parse_option pos number p m)
   }"

lemma read_extension_forward: "read_extension x pos m = Some (y, pos') \<Longrightarrow> pos \<le> pos'"
  by (auto simp: read_extension_def bind_eq_Some_conv split: if_splits)

lemma parse_option_forward:
  assumes "parse_option pos number p m = Some (Go_On pos' number' p' m')"
  shows "pos < pos'"
proof -
  obtain d pos1 len pos2 x y r where
    e: "read_extension x (pos + 1) m = Some (d, pos1)" "read_extension y pos1 m = Some (len, pos2)" and
    r: "(case r of Reject s t \<Rightarrow> Some (Finished s (Some t) (SET_OPTION (number + d) p) m)
        | Accept p1 m1 \<Rightarrow> Some (Go_On (pos2 + unat len) (number + d) p1 m1)) = Some (Go_On pos' number' p' m')"
    using assms by (auto simp: parse_option_def bind_eq_Some_conv Let_def)
  from r have "pos' = pos2 + unat len" by (cases r) auto
  with e [THEN read_extension_forward] show ?thesis by simp
qed

lemma parse_turn_forward:
  "parse_turn buf data_len pos number p m = Some (Go_On pos' number' p' m') \<Longrightarrow> pos < pos'"
  by (auto simp: parse_turn_def parse_payload_def bind_eq_Some_conv Let_def
      split: if_split_asm dest!: parse_option_forward)

function parse_loop :: "nat \<Rightarrow> u16 \<Rightarrow> nat \<Rightarrow> u16 \<Rightarrow> coap_packet \<Rightarrow> memory
    \<Rightarrow> (u8 \<times> string option \<times> coap_packet \<times> memory) option" where
  "parse_loop buf data_len pos number p m =
     (if pos < buf + unat data_len then
        (case parse_turn buf data_len pos number p m of
           None \<Rightarrow> None
         | Some (Finished s t p1 m1) \<Rightarrow> Some (s, t, p1, m1)
         | Some (Go_On pos1 number1 p1 m1) \<Rightarrow> parse_loop buf data_len pos1 number1 p1 m1)
      else Some (COAP_NO_ERROR, None, p, m))"
  by pat_completeness auto
termination
  by (relation "measure (\<lambda>(buf, data_len, pos, number, p, m). buf + unat data_len - pos)")
    (auto dest: parse_turn_forward)

declare parse_loop.simps [simp del]

section \<open>Reading a message\<close>

text \<open>The result is the status, the text it sets for \<open>coap_error_message\<close>, the packet, and memory.\<close>

definition coap_parse_message :: "nat \<Rightarrow> u16 \<Rightarrow> memory \<Rightarrow> (u8 \<times> string option \<times> coap_packet \<times> memory) option" where
  "coap_parse_message buf data_len m = do {
     b0 \<leftarrow> byte_at m buf;
     b1 \<leftarrow> byte_at m (buf + 1);
     b2 \<leftarrow> byte_at m (buf + 2);
     b3 \<leftarrow> byte_at m (buf + 3);
     let n = min COAP_TOKEN_LEN (unat (0x0F AND b0));
     let p = zero_packet\<lparr>buffer := Some buf, version := drop_bit 6 (0xC0 AND b0),
               msg_type := ucast (drop_bit 4 (0x30 AND b0)), token_len := of_nat n, code := b1,
               mid := push_bit 8 (ucast b2) OR ucast b3\<rparr>;
     if version p \<noteq> 1 then Some (BAD_REQUEST_4_00, Some ''CoAP version must be 1'', p, m)
     else do {
       t \<leftarrow> bytes_at m (buf + COAP_HEADER_LEN) n;
       parse_loop buf data_len (buf + COAP_HEADER_LEN + n) 0 (p\<lparr>token := overwrite t (token p)\<rparr>) m
     }
   }"

end
