(* ===== verification/CoAP_Encoding.thy ===== *)
theory CoAP_Encoding
  imports CoAP_Codec
begin

text \<open>
  The encoding of messages as lists of bytes, independent of memory: an option is its number and its
  value, the header of an option holds the distance to the number before and the length, each in a
  nibble with up to two bytes more.  \<open>serialize_options\<close> writes this encoding of the options that
  are set in a packet.
\<close>

section \<open>The encoding\<close>

type_synonym coap_option = "u16 \<times> u8 list"

definition nibble :: "nat \<Rightarrow> nat" where
  "nibble n = (if n < 13 then n else if n < 269 then 13 else 14)"

definition extension :: "nat \<Rightarrow> u8 list" where
  "extension n = (if n < 13 then [] else if n < 269 then [of_nat (n - 13)]
     else [of_nat ((n - 269) div 256), of_nat ((n - 269) mod 256)])"

definition option_header :: "nat \<Rightarrow> nat \<Rightarrow> u8 list" where
  "option_header delta len = of_nat (16 * nibble delta + nibble len) # extension delta @ extension len"

fun encode_options :: "u16 \<Rightarrow> coap_option list \<Rightarrow> u8 list" where
  "encode_options c [] = []"
| "encode_options c ((n, v) # os) = option_header (unat (n - c)) (length v) @ v @ encode_options n os"

fun last_number :: "u16 \<Rightarrow> coap_option list \<Rightarrow> u16" where
  "last_number c [] = c"
| "last_number c ((n, v) # os) = last_number n os"

lemma encode_options_append:
  "encode_options c (xs @ ys) = encode_options c xs @ encode_options (last_number c xs) ys"
  by (induction xs arbitrary: c) auto

lemma last_number_append: "last_number c (xs @ ys) = last_number (last_number c xs) ys"
  by (induction xs arbitrary: c) auto

text \<open>A number without leading zero bytes.\<close>

definition int_bytes :: "u32 \<Rightarrow> u8 list" where
  "int_bytes x = dropWhile (\<lambda>b. b = 0) [ucast (drop_bit 24 x), ucast (drop_bit 16 x), ucast (drop_bit 8 x), ucast x]"

text \<open>The parts of a text between separators, and the text of its parts.\<close>

fun parts :: "u8 \<Rightarrow> u8 list \<Rightarrow> u8 list list" where
  "parts c [] = [[]]"
| "parts c (x # xs) = (if x = c then [] # parts c xs else (x # hd (parts c xs)) # tl (parts c xs))"

fun join :: "u8 \<Rightarrow> u8 list list \<Rightarrow> u8 list" where
  "join c [] = []"
| "join c [s] = s"
| "join c (s # ss) = s @ c # join c ss"

lemma parts_nonempty [simp]: "parts c xs \<noteq> []"
  by (cases xs) auto

lemma join_Cons: "ss \<noteq> [] \<Longrightarrow> join c (s # ss) = s @ c # join c ss"
  by (cases ss) auto

lemma join_Cons_char: "ss \<noteq> [] \<Longrightarrow> join c ((x # hd ss) # tl ss) = x # join c ss"
  by (cases ss; cases "tl ss") auto

lemma join_parts: "join c (parts c xs) = xs"
  by (induction xs) (auto simp: join_Cons join_Cons_char)

lemma parts_no_separator: "s \<in> set (parts c xs) \<Longrightarrow> c \<notin> set s"
proof (induction xs arbitrary: s)
  case (Cons x xs)
  have "c \<notin> set (hd (parts c xs))" by (rule Cons.IH) simp
  with Cons show ?case
    by (auto split: if_splits dest: list.set_sel(2) [OF parts_nonempty])
qed simp

section \<open>Memory\<close>

definition store :: "memory \<Rightarrow> nat \<Rightarrow> u8 list \<Rightarrow> memory" where
  "store m a xs = take a m @ xs @ drop (a + length xs) m"

definition holds :: "memory \<Rightarrow> nat \<Rightarrow> u8 list \<Rightarrow> bool" where
  "holds m a xs \<longleftrightarrow> a + length xs \<le> length m \<and> take (length xs) (drop a m) = xs"

lemma length_stored_bytes [simp]: "a + length xs \<le> length m \<Longrightarrow> length (store m a xs) = length m"
  by (simp add: store_def)

lemma store_Nil [simp]: "a \<le> length m \<Longrightarrow> store m a [] = m"
  by (simp add: store_def)

lemma store_store:
  "a + length xs + length ys \<le> length m \<Longrightarrow> store (store m a xs) (a + length xs) ys = store m a (xs @ ys)"
  by (simp add: store_def ac_simps)

lemma put_bytes_store: "put_bytes m a xs = (if a + length xs \<le> length m then Some (store m a xs) else None)"
  by (simp add: put_bytes_def store_def)

lemma put_byte_store: "put_byte m a b = (if a < length m then Some (store m a [b]) else None)"
  by (simp add: put_byte_def store_def upd_conv_take_nth_drop)

lemma nth_stored_bytes:
  "a + length xs \<le> length m \<Longrightarrow> i < length m \<Longrightarrow>
   store m a xs ! i = (if a \<le> i \<and> i < a + length xs then xs ! (i - a) else m ! i)"
  by (auto simp: store_def nth_append min_def)

lemma holds_nth: "holds m a xs \<longleftrightarrow> a + length xs \<le> length m \<and> (\<forall>i < length xs. m ! (a + i) = xs ! i)"
  by (auto simp: holds_def list_eq_iff_nth_eq)

lemma holds_append: "holds m a (xs @ ys) \<longleftrightarrow> holds m a xs \<and> holds m (a + length xs) ys"
proof
  assume h: "holds m a (xs @ ys)"
  have "m ! (a + i) = xs ! i" if "i < length xs" for i
    using h that by (auto simp: holds_nth nth_append dest!: spec [of _ i])
  moreover have "m ! (a + length xs + i) = ys ! i" if "i < length ys" for i
    using h that by (auto simp: holds_nth nth_append add.assoc dest!: spec [of _ "length xs + i"])
  ultimately show "holds m a xs \<and> holds m (a + length xs) ys"
    using h by (auto simp: holds_nth)
next
  assume h: "holds m a xs \<and> holds m (a + length xs) ys"
  have "m ! (a + i) = (xs @ ys) ! i" if "i < length xs + length ys" for i
    using h that by (cases "i < length xs") (auto simp: holds_nth nth_append dest!: spec [of _ "i - length xs"])
  with h show "holds m a (xs @ ys)" by (auto simp: holds_nth)
qed

lemma holds_Cons: "holds m a (x # xs) \<longleftrightarrow> byte_at m a = Some x \<and> holds m (a + 1) xs"
  using holds_append [of m a "[x]" xs] by (auto simp: holds_nth byte_at_def)

lemma holds_Nil [simp]: "holds m a [] \<longleftrightarrow> a \<le> length m"
  by (simp add: holds_def)

lemma bytes_at_holds: "bytes_at m a n = Some xs \<longleftrightarrow> holds m a xs \<and> length xs = n"
  by (auto simp: bytes_at_def holds_def)

lemma holds_store: "a + length xs \<le> length m \<Longrightarrow> holds (store m a xs) a xs"
  by (simp add: holds_def store_def)

lemma holds_store_apart:
  "holds m b ys \<Longrightarrow> a + length xs \<le> length m \<Longrightarrow> b + length ys \<le> a \<or> a + length xs \<le> b \<Longrightarrow>
   holds (store m a xs) b ys"
  by (auto simp: holds_nth nth_stored_bytes)

lemma holds_take: "holds m a xs \<Longrightarrow> holds m a (take n xs)"
  by (auto simp: holds_nth)

section \<open>Option headers\<close>

lemma nibbles_or: "unat y < 16 \<Longrightarrow> push_bit 4 x OR y = push_bit 4 x + (y :: u8)"
proof -
  assume "unat y < 16"
  then have y: "take_bit 4 y = y"
    by (simp only: word_unat_eq_iff unsigned_take_bit_eq) (simp add: take_bit_eq_mod)
  have "push_bit 4 x AND take_bit 4 y = 0"
    by (intro bit_word_eqI) (auto simp: bit_and_iff bit_push_bit_iff bit_take_bit_iff)
  then show ?thesis
    using disjunctive_add_eq_or [of "push_bit 4 x" y] y by simp
qed

lemma nibble_less: "nibble n < 15"
  by (simp add: nibble_def)

lemma coap_option_nibble_eq: "coap_option_nibble d = of_nat (nibble (unat d))"
  by (simp add: coap_option_nibble_def nibble_def word_less_nat_alt word_le_nat_alt ucast_of_nat del: of_nat_unat)

lemma nibbles_byte:
  "push_bit 4 (coap_option_nibble d) OR coap_option_nibble l = of_nat (16 * nibble (unat d) + nibble (unat l))"
proof -
  have "unat (of_nat (nibble (unat l)) :: u8) < 16"
    using nibble_less [of "unat l"] by (simp add: unat_of_nat)
  then show ?thesis
    by (simp only: coap_option_nibble_eq nibbles_or) (simp add: push_bit_eq_mult)
qed

lemma ucast_u8: "(ucast (x :: u16) :: u8) = of_nat (unat x)"
  by (rule ucast_of_nat)

lemma of_nat_mod_256: "(of_nat (n mod 256) :: u8) = of_nat n"
  by (simp add: word_unat_eq_iff unat_of_nat)

lemma put_extension_store:
  assumes "buf + w + length (extension (unat x)) < length m"
  shows "put_extension x buf w m = Some (w + length (extension (unat x)), store m (buf + w + 1) (extension (unat x)))"
proof (cases "unat x \<ge> 269")
  case True
  then have u: "unat (x - 269) = unat x - 269"
    by (simp add: unat_sub word_le_nat_alt)
  have b: "extension (unat x) = [ucast (drop_bit 8 (x - 269)), ucast (x - 269)]"
    using True by (simp add: extension_def ucast_u8 drop_bit_eq_div unat_div u of_nat_mod_256
        del: of_nat_unat of_nat_diff)
  have "x > 268" using True by (simp add: word_less_nat_alt)
  with assms store_store [of "buf + w + 1" "[ucast (drop_bit 8 (x - 269))]" "[ucast (x - 269)]" m]
  show ?thesis by (simp add: put_extension_def put_byte_store b)
next
  case False
  then have n: "\<not> x > 268" by (simp add: word_less_nat_alt)
  show ?thesis
  proof (cases "unat x \<ge> 13")
    case True
    then have "extension (unat x) = [ucast (x - 13)]"
      using False by (simp add: extension_def ucast_u8 unat_sub word_le_nat_alt del: of_nat_unat of_nat_diff)
    moreover have "x > 12" using True by (simp add: word_less_nat_alt)
    ultimately show ?thesis
      using assms n by (simp add: put_extension_def put_byte_store)
  next
    case F: False
    then have "\<not> x > 12" by (simp add: word_less_nat_alt)
    with F n assms show ?thesis by (simp add: put_extension_def extension_def)
  qed
qed

lemma option_header_store:
  assumes "buf + length (option_header (unat d) l) \<le> length m" and "l < 65536"
  shows "coap_set_option_header d l buf m =
    Some (length (option_header (unat d) l), store m buf (option_header (unat d) l))"
proof -
  let ?b = "of_nat (16 * nibble (unat d) + nibble l) :: u8"
  let ?m1 = "store m buf [?b]" and ?e = "extension (unat d)" and ?f = "extension l"
  have l: "unat (of_nat l :: u16) = l" using assms(2) by (simp add: unat_of_nat)
  have n: "buf < length m" "buf + Suc (length ?e + length ?f) \<le> length m"
    using assms by (auto simp: option_header_def)
  have 1: "put_byte m buf (push_bit 4 (coap_option_nibble d) OR coap_option_nibble (of_nat l)) = Some ?m1"
    using n nibbles_byte [of d "of_nat l"] l by (simp add: put_byte_store)
  have 2: "put_extension d buf 0 ?m1 = Some (length ?e, store m buf (?b # ?e))"
    using put_extension_store [of buf 0 d ?m1] n store_store [of buf "[?b]" ?e m] by simp
  have 3: "put_extension (of_nat l) buf (length ?e) (store m buf (?b # ?e)) =
      Some (length ?e + length ?f, store m buf (?b # ?e @ ?f))"
    using put_extension_store [of buf "length ?e" "of_nat l" "store m buf (?b # ?e)"] n l
      store_store [of buf "?b # ?e" ?f m] by (simp add: add.assoc)
  show ?thesis
    unfolding coap_set_option_header_def 1 bind.bind_lunit 2 by (simp add: 3 option_header_def del: of_nat_add of_nat_mult)
qed

section \<open>Numbers\<close>

lemma word_bytes_32:
  "(0xFF000000 AND (x :: u32) \<noteq> 0) \<longleftrightarrow> ucast (drop_bit 24 x) \<noteq> (0 :: u8)"
  "(0xFFFF0000 AND x \<noteq> 0) \<longleftrightarrow> ucast (drop_bit 24 x) \<noteq> (0 :: u8) \<or> ucast (drop_bit 16 x) \<noteq> (0 :: u8)"
  "(0xFFFFFF00 AND x \<noteq> 0) \<longleftrightarrow> ucast (drop_bit 24 x) \<noteq> (0 :: u8) \<or> ucast (drop_bit 16 x) \<noteq> (0 :: u8)
     \<or> ucast (drop_bit 8 x) \<noteq> (0 :: u8)"
  "(0xFFFFFFFF AND x \<noteq> 0) \<longleftrightarrow> ucast (drop_bit 24 x) \<noteq> (0 :: u8) \<or> ucast (drop_bit 16 x) \<noteq> (0 :: u8)
     \<or> ucast (drop_bit 8 x) \<noteq> (0 :: u8) \<or> ucast x \<noteq> (0 :: u8)"
proof -
  have m: "(0xFF000000 :: u32) = push_bit 24 (mask 8)" "(0xFFFF0000 :: u32) = push_bit 16 (mask 16)"
      "(0xFFFFFF00 :: u32) = push_bit 8 (mask 24)" "(0xFFFFFFFF :: u32) = mask 32"
    by (simp_all add: mask_eq_exp_minus_1)
  have z: "w = 0 \<longleftrightarrow> (\<forall>n < 32. \<not> bit (w :: u32) n)" for w
    by (auto simp: bit_eq_iff dest: bit_less_32)
  have b: "w = 0 \<longleftrightarrow> (\<forall>n < 8. \<not> bit (w :: u8) n)" for w
    by (auto simp: bit_eq_iff dest: bit_imp_le_length)
  have s: "(\<forall>n < 32. P n) \<longleftrightarrow> (\<forall>n < 8. P n \<and> P (n + 8) \<and> P (n + 16) \<and> P (n + 24))" for P :: "nat \<Rightarrow> bool"
  proof
    assume a: "\<forall>n < 8. P n \<and> P (n + 8) \<and> P (n + 16) \<and> P (n + 24)"
    have "P n" if "n < 32" for n
    proof -
      have "n < 8 \<or> (n - 8 < 8 \<and> n = n - 8 + 8) \<or> (n - 16 < 8 \<and> n = n - 16 + 16) \<or> (n - 24 < 8 \<and> n = n - 24 + 24)"
        using that by arith
      then show ?thesis using a by metis
    qed
    then show "\<forall>n < 32. P n" by blast
  qed auto
  show "(0xFF000000 AND (x :: u32) \<noteq> 0) \<longleftrightarrow> ucast (drop_bit 24 x) \<noteq> (0 :: u8)"
    unfolding m z b s by (auto simp: bit_simps add.commute)
  show "(0xFFFF0000 AND x \<noteq> 0) \<longleftrightarrow> ucast (drop_bit 24 x) \<noteq> (0 :: u8) \<or> ucast (drop_bit 16 x) \<noteq> (0 :: u8)"
    unfolding m z b s by (auto simp: bit_simps add.commute)
  show "(0xFFFFFF00 AND x \<noteq> 0) \<longleftrightarrow> ucast (drop_bit 24 x) \<noteq> (0 :: u8) \<or> ucast (drop_bit 16 x) \<noteq> (0 :: u8)
     \<or> ucast (drop_bit 8 x) \<noteq> (0 :: u8)"
    unfolding m z b s by (auto simp: bit_simps add.commute)
  show "(0xFFFFFFFF AND x \<noteq> 0) \<longleftrightarrow> ucast (drop_bit 24 x) \<noteq> (0 :: u8) \<or> ucast (drop_bit 16 x) \<noteq> (0 :: u8)
     \<or> ucast (drop_bit 8 x) \<noteq> (0 :: u8) \<or> ucast x \<noteq> (0 :: u8)"
    unfolding m z b s by (auto simp: bit_simps add.commute)
qed

lemma int_bytes_eq:
  "int_bytes x = (if 0xFF000000 AND x \<noteq> 0 then [ucast (drop_bit 24 x)] else []) @
     (if 0xFFFF0000 AND x \<noteq> 0 then [ucast (drop_bit 16 x)] else []) @
     (if 0xFFFFFF00 AND x \<noteq> 0 then [ucast (drop_bit 8 x)] else []) @
     (if 0xFFFFFFFF AND x \<noteq> 0 then [ucast x] else [])"
  unfolding word_bytes_32 int_bytes_def by auto

lemma put_if_store:
  "buf + length (xs @ (if c then [b] else [])) \<le> length m \<Longrightarrow>
   put_if c b buf (length xs, store m buf xs) =
     Some (length (xs @ (if c then [b] else [])), store m buf (xs @ (if c then [b] else [])))"
  using store_store [of buf xs "[b]" m] by (cases c) (simp_all add: put_if_def put_byte_store)

lemma int_bytes_length: "length (int_bytes x) \<le> 4"
  by (simp add: int_bytes_eq)

lemma int_option_store:
  assumes "buf + length (encode_options c [(n, int_bytes v)]) \<le> length m"
  shows "coap_serialize_int_option n c buf v m =
    Some (length (encode_options c [(n, int_bytes v)]), store m buf (encode_options c [(n, int_bytes v)]))"
proof -
  let ?b3 = "if 0xFF000000 AND v \<noteq> 0 then [ucast (drop_bit 24 v) :: u8] else []"
  let ?b2 = "if 0xFFFF0000 AND v \<noteq> 0 then [ucast (drop_bit 16 v) :: u8] else []"
  let ?b1 = "if 0xFFFFFF00 AND v \<noteq> 0 then [ucast (drop_bit 8 v) :: u8] else []"
  let ?b0 = "if 0xFFFFFFFF AND v \<noteq> 0 then [ucast v :: u8] else []"
  let ?h = "option_header (unat (n - c)) (length (int_bytes v))"
  have i: "int_bytes v = ?b3 @ ?b2 @ ?b1 @ ?b0" by (rule int_bytes_eq)
  have l: "length (int_bytes v) = (if 0xFF000000 AND v \<noteq> 0 then 1 else 0) + (if 0xFFFF0000 AND v \<noteq> 0 then 1 else 0)
      + (if 0xFFFFFF00 AND v \<noteq> 0 then 1 else 0) + (if 0xFFFFFFFF AND v \<noteq> 0 then 1 else 0)"
    unfolding i by simp
  have e: "encode_options c [(n, int_bytes v)] = ?h @ ?b3 @ ?b2 @ ?b1 @ ?b0"
    using i by simp
  have f: "buf + length (?h @ ?b3 @ ?b2 @ ?b1 @ ?b0) \<le> length m"
    using assms unfolding e .
  have h: "coap_set_option_header (n - c) (length (int_bytes v)) buf m = Some (length ?h, store m buf ?h)"
    using f int_bytes_length [of v] by (intro option_header_store) simp_all
  have p3: "put_if (0xFF000000 AND v \<noteq> 0) (ucast (drop_bit 24 v)) buf (length ?h, store m buf ?h)
      = Some (length (?h @ ?b3), store m buf (?h @ ?b3))"
    using f by (intro put_if_store) simp
  have p2: "put_if (0xFFFF0000 AND v \<noteq> 0) (ucast (drop_bit 16 v)) buf (length (?h @ ?b3), store m buf (?h @ ?b3))
      = Some (length ((?h @ ?b3) @ ?b2), store m buf ((?h @ ?b3) @ ?b2))"
    using f by (intro put_if_store) simp
  have p1: "put_if (0xFFFFFF00 AND v \<noteq> 0) (ucast (drop_bit 8 v)) buf
        (length ((?h @ ?b3) @ ?b2), store m buf ((?h @ ?b3) @ ?b2))
      = Some (length (((?h @ ?b3) @ ?b2) @ ?b1), store m buf (((?h @ ?b3) @ ?b2) @ ?b1))"
    using f by (intro put_if_store) simp
  have p0: "put_if (0xFFFFFFFF AND v \<noteq> 0) (ucast v) buf
        (length (((?h @ ?b3) @ ?b2) @ ?b1), store m buf (((?h @ ?b3) @ ?b2) @ ?b1))
      = Some (length ((((?h @ ?b3) @ ?b2) @ ?b1) @ ?b0), store m buf ((((?h @ ?b3) @ ?b2) @ ?b1) @ ?b0))"
    using f by (intro put_if_store) simp
  show ?thesis
    unfolding coap_serialize_int_option_def Let_def l [symmetric] h p3 p2 p1 p0 bind.bind_lunit e
    by (simp only: append_assoc)
qed

section \<open>Strings\<close>

text \<open>
  Reading the source of an option gives \<open>str\<close> in every memory that differs from \<open>m\<close> only between
  \<open>lo\<close> and \<open>hi\<close>, where the message is written.
\<close>

definition same_outside :: "nat \<Rightarrow> nat \<Rightarrow> memory \<Rightarrow> memory \<Rightarrow> bool" where
  "same_outside lo hi m m' \<longleftrightarrow> length m' = length m \<and>
     (\<forall>i < length m. (i < lo \<or> hi \<le> i) \<longrightarrow> m' ! i = m ! i)"

definition source_reads :: "source \<Rightarrow> u8 list \<Rightarrow> nat \<Rightarrow> nat \<Rightarrow> memory \<Rightarrow> bool" where
  "source_reads src str lo hi m \<longleftrightarrow>
     (\<forall>m' d j n. same_outside lo hi m m' \<longrightarrow> j + n \<le> length str \<longrightarrow> lo \<le> d \<longrightarrow> d + n \<le> hi \<longrightarrow>
        source_copy d src j n m' = put_bytes m' d (take n (drop j str))) \<and>
     (\<forall>m' j. same_outside lo hi m m' \<longrightarrow> j < length str \<longrightarrow> source_byte src j m' = Some (str ! j))"

definition source_ends :: "source \<Rightarrow> nat \<Rightarrow> nat \<Rightarrow> nat \<Rightarrow> memory \<Rightarrow> bool" where
  "source_ends src n lo hi m \<longleftrightarrow> (\<forall>m'. same_outside lo hi m m' \<longrightarrow> source_byte src n m' \<noteq> None)"

lemma same_outside_store:
  "lo \<le> a \<Longrightarrow> a + length xs \<le> hi \<Longrightarrow> a + length xs \<le> length m \<Longrightarrow> same_outside lo hi m (store m a xs)"
  by (simp add: same_outside_def nth_stored_bytes)

lemma same_outside_trans:
  "same_outside lo hi m m1 \<Longrightarrow> same_outside lo hi m1 m2 \<Longrightarrow> same_outside lo hi m m2"
  by (simp add: same_outside_def)

lemma holds_same_outside:
  "holds m a xs \<Longrightarrow> same_outside lo hi m m' \<Longrightarrow> a + length xs \<le> lo \<or> hi \<le> a \<Longrightarrow> holds m' a xs"
  by (auto simp: holds_nth same_outside_def)

lemma source_reads_packet: "str = take n xs \<Longrightarrow> n \<le> length xs \<Longrightarrow> source_reads (In_Packet xs) str lo hi m"
  by (auto simp: source_reads_def min_def drop_take)

lemma source_reads_memory:
  assumes "holds m a str" and "a + length str \<le> lo \<or> hi \<le> a"
  shows "source_reads (In_Memory (Some a)) str lo hi m"
proof -
  have h: "holds m' a str" if "same_outside lo hi m m'" for m'
    using assms that by (blast intro: holds_same_outside)
  have "source_copy d (In_Memory (Some a)) j n m' = put_bytes m' d (take n (drop j str))"
    if m': "same_outside lo hi m m'" and n: "j + n \<le> length str" "lo \<le> d" "d + n \<le> hi" for m' d j n
  proof -
    have "holds m' (a + j) (take n (drop j str))"
      using h [OF m'] n by (auto simp: holds_nth add.assoc)
    moreover have "\<not> (d < a + j + n \<and> a + j < d + n)"
      using assms(2) n by auto
    ultimately show ?thesis
      using n bytes_at_holds [of m' "a + j" n "take n (drop j str)"] by (auto simp: memcpy_def memmove_def)
  qed
  moreover have "source_byte (In_Memory (Some a)) j m' = Some (str ! j)"
    if "same_outside lo hi m m'" "j < length str" for m' j
    using h [OF that(1)] that(2) by (auto simp: byte_at_def holds_nth)
  ultimately show ?thesis by (simp add: source_reads_def)
qed

lemma source_ends_memory:
  "a + n < length m \<Longrightarrow> source_ends (In_Memory (Some a)) n lo hi m"
  by (simp add: source_ends_def same_outside_def byte_at_def)

lemma array_option_store:
  assumes src: "source_reads array str lo hi m" and n: "lo \<le> buf" "hi \<le> length m"
    and f: "buf + length (encode_options c [(n, str)]) \<le> hi" and l: "length str < 65536"
  shows "coap_serialize_array_option n c buf array (length str) 0 m =
    Some (length (encode_options c [(n, str)]), store m buf (encode_options c [(n, str)]))"
proof -
  let ?h = "option_header (unat (n - c)) (length str)"
  have h: "coap_set_option_header (n - c) (length str) buf m = Some (length ?h, store m buf ?h)"
    using f n l by (intro option_header_store) simp_all
  have "source_copy (buf + length ?h) array 0 (length str) (store m buf ?h) =
      put_bytes (store m buf ?h) (buf + length ?h) str"
    using src same_outside_store [of lo buf ?h hi m] f n by (simp add: source_reads_def)
  also have "\<dots> = Some (store m buf (?h @ str))"
    using f n store_store [of buf ?h str m] by (simp add: put_bytes_store)
  finally show ?thesis
    by (simp add: coap_serialize_array_option_def h)
qed

lemma split_scan:
  assumes "source_reads array str lo hi m0" and "same_outside lo hi m0 m" and "e \<le> length str"
    and "\<And>k. j \<le> k \<Longrightarrow> k < e \<Longrightarrow> str ! k \<noteq> c" and "j \<le> e"
  shows "split_loop n cur buf array (length str) c j part i m =
    split_loop n cur buf array (length str) c e part i m"
  using assms(4,5)
proof (induction "e - j" arbitrary: j)
  case (Suc x)
  then have "j < e" by simp
  moreover from this have "source_byte array j m = Some (str ! j)"
    using assms(1-3) by (simp add: source_reads_def)
  ultimately have "split_loop n cur buf array (length str) c j part i m =
      split_loop n cur buf array (length str) c (j + 1) part i m"
    using Suc.prems(1) [of j] assms(3) by (subst split_loop.simps) simp
  also have "\<dots> = split_loop n cur buf array (length str) c e part i m"
    using Suc \<open>j < e\<close> by (intro Suc.hyps(1)) auto
  finally show ?case .
qed simp

lemma split_write:
  assumes src: "source_reads array str lo hi m0" "source_ends array (length str) lo hi m0"
    and n: "lo \<le> buf" "hi \<le> length m0" "length str < 65536"
    and e: "e \<le> length str" "e = length str \<or> str ! e = c" "part \<le> e"
    and f: "buf + length (xs @ encode_options cur [(n, take (e - part) (drop part str))]) \<le> hi"
  shows "split_loop n cur buf array (length str) c e part (length xs) (store m0 buf xs) =
    (let ys = xs @ encode_options cur [(n, take (e - part) (drop part str))]
     in split_loop n n buf array (length str) c (e + 2) (e + 1) (length ys) (store m0 buf ys))"
proof -
  let ?v = "take (e - part) (drop part str)"
  let ?h = "option_header (unat (n - cur)) (length ?v)" and ?m = "store m0 buf xs"
  have l: "length ?v = e - part" using e by simp
  have m: "same_outside lo hi m0 ?m" and len: "length ?m = length m0"
    using n f by (auto intro: same_outside_store)
  obtain b where b: "source_byte array e ?m = Some b" "b = c \<or> e = length str"
    using src m e by (cases "e = length str") (auto simp: source_reads_def source_ends_def)
  have h: "coap_set_option_header (n - cur) (e - part) (buf + length xs) ?m =
      Some (length ?h, store m0 buf (xs @ ?h))"
    using f n e l store_store [of buf xs ?h m0] len option_header_store [of "buf + length xs" "n - cur" "length ?v" ?m] by simp
  have m1: "same_outside lo hi m0 (store m0 buf (xs @ ?h))"
    using n f by (intro same_outside_store) auto
  have "source_copy (buf + (length xs + length ?h)) array part (e - part) (store m0 buf (xs @ ?h)) =
      put_bytes (store m0 buf (xs @ ?h)) (buf + length (xs @ ?h)) ?v"
    using src(1) m1 e f n l by (simp add: source_reads_def)
  also have "\<dots> = Some (store m0 buf (xs @ ?h @ ?v))"
    using f n store_store [of buf "xs @ ?h" ?v m0] by (simp add: put_bytes_store)
  finally have cp: "source_copy (buf + (length xs + length ?h)) array part (e - part) (store m0 buf (xs @ ?h)) =
      Some (store m0 buf (xs @ ?h @ ?v))" .
  have z: "(of_nat (e - part) :: u16) > 0 \<longleftrightarrow> e \<noteq> part"
  proof -
    have "unat (of_nat (e - part) :: u16) = e - part"
      using e n(3) by (simp add: unat_of_nat del: of_nat_diff)
    then show ?thesis
      using e(3) by (auto simp: word_less_nat_alt simp del: of_nat_diff)
  qed
  show ?thesis
  proof (cases "e = part")
    case True
    then show ?thesis
      using b h e(1) by (subst split_loop.simps) (auto simp: Let_def)
  next
    case False
    then show ?thesis
      using b h e cp z l by (subst split_loop.simps) (auto simp: Let_def add.assoc)
  qed
qed

lemma split_loop_parts:
  assumes src: "source_reads array str lo hi m0" "source_ends array (length str) lo hi m0"
    and n: "lo \<le> buf" "hi \<le> length m0" "length str < 65536"
    and "str = pre @ join c ss" and "ss \<noteq> []" and "\<forall>s \<in> set ss. c \<notin> set s" and "\<forall>s \<in> set (tl ss). s \<noteq> []"
    and "j = length pre \<or> j = length pre + 1 \<and> hd ss \<noteq> []"
    and "buf + length (xs @ encode_options cur (map (Pair n) ss)) \<le> hi"
  shows "split_loop n cur buf array (length str) c j (length pre) (length xs) (store m0 buf xs) =
    (let ys = xs @ encode_options cur (map (Pair n) ss) in Some (length ys, store m0 buf ys))"
  using assms(6-)
proof (induction ss arbitrary: pre xs cur j)
  case (Cons s rest)
  let ?e = "length pre + length s" and ?ys = "xs @ encode_options cur [(n, s)]"
  have str: "str = pre @ s @ (if rest = [] then [] else c # join c rest)"
    using Cons.prems(1) join_Cons [of rest c s] by simp
  have e: "?e \<le> length str" "?e = length str \<or> str ! ?e = c"
    by (simp_all add: str nth_append)
  have v: "take (?e - length pre) (drop (length pre) str) = s"
    by (simp add: str)
  have o: "encode_options cur (map (Pair n) (s # rest)) = encode_options cur [(n, s)] @ encode_options n (map (Pair n) rest)"
    by simp
  have f: "buf + length ?ys \<le> hi" and x: "same_outside lo hi m0 (store m0 buf xs)"
    using Cons.prems(6) n unfolding o by (auto intro: same_outside_store)
  have "str ! k \<noteq> c" if "j \<le> k" "k < ?e" for k
  proof -
    have "str ! k = s ! (k - length pre)" and "k - length pre < length s"
      using that Cons.prems(5) by (auto simp: str nth_append)
    moreover have "c \<notin> set s" using Cons.prems(3) by simp
    ultimately show ?thesis by (metis nth_mem)
  qed
  then have "split_loop n cur buf array (length str) c j (length pre) (length xs) (store m0 buf xs) =
      split_loop n cur buf array (length str) c ?e (length pre) (length xs) (store m0 buf xs)"
    using Cons.prems(5) by (intro split_scan [OF src(1) x e(1)]) (auto simp: Suc_le_eq)
  also have "\<dots> = split_loop n n buf array (length str) c (?e + 2) (?e + 1) (length ?ys) (store m0 buf ?ys)"
    using split_write [OF src n e, of "length pre" xs cur n] f unfolding v by (simp add: Let_def)
  also have "\<dots> = (let ys = ?ys @ encode_options n (map (Pair n) rest) in Some (length ys, store m0 buf ys))"
  proof (cases "rest = []")
    case True
    then have "?e = length str" by (simp add: str)
    with True show ?thesis by (subst split_loop.simps) simp
  next
    case False
    have "hd rest \<noteq> []" using Cons.prems(4) False by simp
    moreover have "str = (pre @ s @ [c]) @ join c rest" using False by (simp add: str)
    moreover have "\<forall>s \<in> set (tl rest). s \<noteq> []" using Cons.prems(4) False by (auto dest: list.set_sel(2))
    ultimately show ?thesis
      using Cons.IH [of "pre @ s @ [c]" "?e + 2" ?ys n] False Cons.prems(3,6) by simp
  qed
  finally show ?case by (simp only: o append_assoc)
qed simp

lemma split_option_store:
  assumes src: "source_reads array str lo hi m" "source_ends array (length str) lo hi m"
    and n: "lo \<le> buf" "hi \<le> length m" and l: "length str < 65536" and c: "c \<noteq> 0"
    and w: "\<forall>s \<in> set (tl (parts c str)). s \<noteq> []"
    and f: "buf + length (encode_options cur (map (Pair n) (parts c str))) \<le> hi"
  shows "coap_serialize_array_option n cur buf array (length str) c m =
    (let ys = encode_options cur (map (Pair n) (parts c str)) in Some (length ys, store m buf ys))"
proof -
  have "buf \<le> length m" using n f by simp
  then show ?thesis
    using split_loop_parts [OF src n l, of "[]" c "parts c str" 0 "[]" cur n] w f c
    by (simp add: coap_serialize_array_option_def join_parts parts_no_separator)
qed

section \<open>The options of a packet\<close>

text \<open>\<open>string_at\<close> is the content of a string of a packet, \<open>packet_options\<close> what the packet says.\<close>

definition string_at :: "memory \<Rightarrow> nat option \<Rightarrow> nat \<Rightarrow> u8 list" where
  "string_at m a n = (case a of None \<Rightarrow> [] | Some a \<Rightarrow> take n (drop a m))"

definition options_if :: "coap_packet \<Rightarrow> u16 \<Rightarrow> u8 list list \<Rightarrow> coap_option list" where
  "options_if p n vs = (if IS_OPTION p n then map (Pair n) vs else [])"

definition packet_options :: "memory \<Rightarrow> coap_packet \<Rightarrow> coap_option list" where
  "packet_options m p =
     options_if p COAP_OPTION_IF_MATCH [take (unat (if_match_len p)) (if_match p)] @
     options_if p COAP_OPTION_URI_HOST [string_at m (uri_host p) (uri_host_len p)] @
     options_if p COAP_OPTION_ETAG [take (unat (etag_len p)) (etag p)] @
     options_if p COAP_OPTION_IF_NONE_MATCH [int_bytes 0] @
     options_if p COAP_OPTION_OBSERVE [int_bytes (observe p)] @
     options_if p COAP_OPTION_URI_PORT [int_bytes (ucast (uri_port p))] @
     options_if p COAP_OPTION_LOCATION_PATH (parts SLASH (string_at m (location_path p) (location_path_len p))) @
     options_if p COAP_OPTION_URI_PATH (parts SLASH (string_at m (uri_path p) (uri_path_len p))) @
     options_if p COAP_OPTION_CONTENT_FORMAT [int_bytes (ucast (content_format p))] @
     options_if p COAP_OPTION_MAX_AGE [int_bytes (max_age p)] @
     options_if p COAP_OPTION_URI_QUERY (parts AMPERSAND (string_at m (uri_query p) (uri_query_len p))) @
     options_if p COAP_OPTION_ACCEPT [int_bytes (ucast (accept p))] @
     options_if p COAP_OPTION_LOCATION_QUERY (parts AMPERSAND (string_at m (location_query p) (location_query_len p))) @
     options_if p COAP_OPTION_BLOCK2 [int_bytes (block_option (block2_num p) (block2_more p) (block2_size p))] @
     options_if p COAP_OPTION_BLOCK1 [int_bytes (block_option (block1_num p) (block1_more p) (block1_size p))] @
     options_if p COAP_OPTION_SIZE2 [int_bytes (size2 p)] @
     options_if p COAP_OPTION_PROXY_URI [string_at m (proxy_uri p) (proxy_uri_len p)] @
     options_if p COAP_OPTION_PROXY_SCHEME [string_at m (proxy_scheme p) (proxy_scheme_len p)] @
     options_if p COAP_OPTION_SIZE1 [int_bytes (size1 p)]"

text \<open>
  A string of the packet that the writer handles: it lies outside the part of memory that is written,
  with its terminator inside memory, is shorter than 65536 bytes, and where it is split no part but the
  first is empty.
\<close>

definition string_ok :: "memory \<Rightarrow> nat \<Rightarrow> nat \<Rightarrow> u8 \<Rightarrow> nat option \<Rightarrow> nat \<Rightarrow> bool" where
  "string_ok m lo hi c a n \<longleftrightarrow> n < 65536 \<and> (case a of None \<Rightarrow> False
     | Some a \<Rightarrow> a + n < length m \<and> (a + n \<le> lo \<or> hi \<le> a)) \<and>
     (c \<noteq> 0 \<longrightarrow> list_all (\<lambda>s. s \<noteq> []) (tl (parts c (string_at m a n))))"

definition strings_ok :: "memory \<Rightarrow> nat \<Rightarrow> nat \<Rightarrow> coap_packet \<Rightarrow> bool" where
  "strings_ok m lo hi p \<longleftrightarrow>
     (IS_OPTION p COAP_OPTION_URI_HOST \<longrightarrow> string_ok m lo hi 0 (uri_host p) (uri_host_len p)) \<and>
     (IS_OPTION p COAP_OPTION_LOCATION_PATH \<longrightarrow> string_ok m lo hi SLASH (location_path p) (location_path_len p)) \<and>
     (IS_OPTION p COAP_OPTION_URI_PATH \<longrightarrow> string_ok m lo hi SLASH (uri_path p) (uri_path_len p)) \<and>
     (IS_OPTION p COAP_OPTION_URI_QUERY \<longrightarrow> string_ok m lo hi AMPERSAND (uri_query p) (uri_query_len p)) \<and>
     (IS_OPTION p COAP_OPTION_LOCATION_QUERY \<longrightarrow> string_ok m lo hi AMPERSAND (location_query p) (location_query_len p)) \<and>
     (IS_OPTION p COAP_OPTION_PROXY_URI \<longrightarrow> string_ok m lo hi 0 (proxy_uri p) (proxy_uri_len p)) \<and>
     (IS_OPTION p COAP_OPTION_PROXY_SCHEME \<longrightarrow> string_ok m lo hi 0 (proxy_scheme p) (proxy_scheme_len p)) \<and>
     (IS_OPTION p COAP_OPTION_IF_MATCH \<longrightarrow> unat (if_match_len p) \<le> length (if_match p)) \<and>
     (IS_OPTION p COAP_OPTION_ETAG \<longrightarrow> unat (etag_len p) \<le> length (etag p))"

section \<open>Writing the options of a packet\<close>

text \<open>
  A writer \<open>emits\<close> options: behind any bytes already written from \<open>lo\<close> on it puts the encoding of the
  options, as long as that does not go beyond \<open>hi\<close>.
\<close>

definition emits :: "memory \<Rightarrow> nat \<Rightarrow> nat \<Rightarrow> (writer \<Rightarrow> writer option) \<Rightarrow> coap_option list \<Rightarrow> bool" where
  "emits m lo hi f os \<longleftrightarrow> (\<forall>xs c. lo + length (xs @ encode_options c os) \<le> hi \<longrightarrow>
     f (lo + length xs, c, store m lo xs) =
       Some (lo + length (xs @ encode_options c os), last_number c os, store m lo (xs @ encode_options c os)))"

lemma emits_then:
  assumes f: "emits m lo hi f xs" and g: "emits m lo hi g ys"
  shows "emits m lo hi (\<lambda>w. f w \<bind> g) (xs @ ys)"
  unfolding emits_def
proof (intro allI impI)
  fix zs c
  let ?zs = "zs @ encode_options c xs"
  assume a: "lo + length (zs @ encode_options c (xs @ ys)) \<le> hi"
  then have "f (lo + length zs, c, store m lo zs) = Some (lo + length ?zs, last_number c xs, store m lo ?zs)"
    using f by (simp add: emits_def encode_options_append)
  moreover have "g (lo + length ?zs, last_number c xs, store m lo ?zs) =
      Some (lo + length (?zs @ encode_options (last_number c xs) ys), last_number (last_number c xs) ys,
        store m lo (?zs @ encode_options (last_number c xs) ys))"
    using g a unfolding emits_def by (metis append_assoc encode_options_append)
  ultimately show "f (lo + length zs, c, store m lo zs) \<bind> g =
      Some (lo + length (zs @ encode_options c (xs @ ys)), last_number c (xs @ ys),
        store m lo (zs @ encode_options c (xs @ ys)))"
    by (simp only: bind.bind_lunit encode_options_append last_number_append append_assoc)
qed

lemma source_reads_same:
  "source_reads src str lo hi m \<Longrightarrow> same_outside lo hi m m1 \<Longrightarrow> source_reads src str lo hi m1"
  unfolding source_reads_def by (meson same_outside_trans)

lemma source_ends_same:
  "source_ends src n lo hi m \<Longrightarrow> same_outside lo hi m m1 \<Longrightarrow> source_ends src n lo hi m1"
  unfolding source_ends_def by (meson same_outside_trans)

lemma last_number_map: "vs \<noteq> [] \<Longrightarrow> last_number c (map (Pair n) vs) = n"
proof (induction vs arbitrary: c)
  case (Cons v vs)
  then show ?case by (cases vs) auto
qed simp

lemma emits_option:
  assumes "vs \<noteq> []"
    and "\<And>c xs. lo + length (xs @ encode_options c (map (Pair n) vs)) \<le> hi \<Longrightarrow>
      emit n c (lo + length xs) (store m lo xs) =
        (let ys = encode_options c (map (Pair n) vs) in Some (length ys, store (store m lo xs) (lo + length xs) ys))"
    and "hi \<le> length m"
  shows "emits m lo hi (\<lambda>w. case w of (opt, c, m) \<Rightarrow>
      if IS_OPTION p n then do { (i, m1) \<leftarrow> emit n c opt m; Some (opt + i, n, m1) } else Some w)
    (options_if p n vs)"
  using assms by (auto simp: emits_def options_if_def last_number_map store_store Let_def add.assoc)

lemma emits_int:
  assumes "hi \<le> length m"
  shows "emits m lo hi (COAP_SERIALIZE_INT_OPTION p n v) (options_if p n [int_bytes v])"
proof -
  have "emits m lo hi (\<lambda>w. case w of (opt, c, m) \<Rightarrow>
      if IS_OPTION p n then do { (i, m1) \<leftarrow> coap_serialize_int_option n c opt v m; Some (opt + i, n, m1) } else Some w)
    (options_if p n [int_bytes v])"
    using assms int_option_store [of _ _ n v] by (intro emits_option [where emit = "\<lambda>n c opt. coap_serialize_int_option n c opt v"]) (auto simp: Let_def)
  then show ?thesis by (simp add: COAP_SERIALIZE_INT_OPTION_def [abs_def])
qed

lemma emits_array:
  assumes n: "hi \<le> length m" and src: "source_reads src str lo hi m" and l: "length str < 65536"
    and c: "c \<noteq> 0 \<longrightarrow> source_ends src (length str) lo hi m \<and> list_all (\<lambda>s. s \<noteq> []) (tl (parts c str))"
  shows "emits m lo hi (\<lambda>w. case w of (opt, k, m) \<Rightarrow>
      if IS_OPTION p n then do {
        (i, m1) \<leftarrow> coap_serialize_array_option n k opt src (length str) c m; Some (opt + i, n, m1) } else Some w)
    (options_if p n (if c = 0 then [str] else parts c str))"
proof (rule emits_option [where emit = "\<lambda>n k opt. coap_serialize_array_option n k opt src (length str) c"])
  fix k xs
  let ?vs = "if c = 0 then [str] else parts c str" and ?m = "store m lo xs"
  assume f: "lo + length (xs @ encode_options k (map (Pair n) ?vs)) \<le> hi"
  then have m: "same_outside lo hi m ?m" and h: "hi \<le> length ?m"
    using n by (auto intro: same_outside_store)
  note r = source_reads_same [OF src m]
  show "coap_serialize_array_option n k (lo + length xs) src (length str) c ?m =
      (let ys = encode_options k (map (Pair n) ?vs) in Some (length ys, store ?m (lo + length xs) ys))"
  proof (cases "c = 0")
    case True
    with f array_option_store [OF r _ h _ l, of "lo + length xs" k n] show ?thesis by (simp add: Let_def add.assoc)
  next
    case False
    moreover have "source_ends src (length str) lo hi ?m" using False c m by (blast intro: source_ends_same)
    ultimately show ?thesis
      using f c split_option_store [OF r _ _ h l False, of "lo + length xs" k n] by (simp add: list_all_iff add.assoc)
  qed
qed (use n in auto)

lemma emits_byte:
  assumes "hi \<le> length m" and "IS_OPTION p n \<longrightarrow> unat len \<le> length xs"
  shows "emits m lo hi (COAP_SERIALIZE_BYTE_OPTION p n xs len) (options_if p n [take (unat len) xs])"
proof (cases "IS_OPTION p n")
  case True
  then have l: "length (take (unat len) xs) = unat len" using assms(2) by simp
  moreover have "unat len < 65536" using unsigned_less [of len, where 'a = nat] by simp
  moreover have "source_reads (In_Packet xs) (take (unat len) xs) lo hi m"
    using True assms(2) by (simp add: source_reads_packet)
  ultimately show ?thesis
    using emits_array [OF assms(1), of "In_Packet xs" "take (unat len) xs" lo 0 p n, unfolded l]
    unfolding COAP_SERIALIZE_BYTE_OPTION_def [abs_def] by simp
next
  case False
  then show ?thesis by (simp add: emits_def options_if_def COAP_SERIALIZE_BYTE_OPTION_def)
qed

lemma emits_string:
  assumes "hi \<le> length m" and "IS_OPTION p n \<longrightarrow> string_ok m lo hi c a len"
  shows "emits m lo hi (COAP_SERIALIZE_STRING_OPTION p n a len c)
    (options_if p n (if c = 0 then [string_at m a len] else parts c (string_at m a len)))"
proof (cases "IS_OPTION p n")
  case True
  with assms(2) obtain b where b: "a = Some b" "b + len < length m" "b + len \<le> lo \<or> hi \<le> b" "len < 65536"
      "c \<noteq> 0 \<longrightarrow> list_all (\<lambda>s. s \<noteq> []) (tl (parts c (string_at m a len)))"
    by (auto simp: string_ok_def split: option.splits)
  then have l: "length (string_at m a len) = len" and h: "holds m b (string_at m a len)"
    by (simp_all add: string_at_def holds_def)
  have "source_reads (In_Memory a) (string_at m a len) lo hi m"
    using b(3) l unfolding b(1) by (intro source_reads_memory) (use h b(1) in simp_all)
  moreover have "source_ends (In_Memory a) len lo hi m"
    unfolding b(1) using b(2) by (rule source_ends_memory)
  ultimately show ?thesis
    using b(4,5) emits_array [OF assms(1), of "In_Memory a" "string_at m a len" lo c p n, unfolded l]
    unfolding COAP_SERIALIZE_STRING_OPTION_def [abs_def] by blast
next
  case False
  then show ?thesis by (simp add: emits_def options_if_def COAP_SERIALIZE_STRING_OPTION_def)
qed

theorem serialize_options_emits:
  assumes "hi \<le> length m" and "strings_ok m lo hi p"
  shows "emits m lo hi (serialize_options p) (packet_options m p)"
proof -
  note s = assms(2) [unfolded strings_ok_def]
  note str = emits_string [OF assms(1), where c = 0, simplified]
    emits_string [OF assms(1), where c = SLASH, simplified] emits_string [OF assms(1), where c = AMPERSAND, simplified]
  show ?thesis
    unfolding serialize_options_def [abs_def] packet_options_def COAP_SERIALIZE_BLOCK_OPTION_def diff_self unsigned_0
    by (intro emits_then emits_int emits_byte str assms(1)) (use s in blast)+
qed

section \<open>Writing a message\<close>

definition head_bytes :: "memory \<Rightarrow> coap_packet \<Rightarrow> u8 list" where
  "head_bytes m p = header_bytes (p\<lparr>version := 1\<rparr>) @ take (unat (token_len p)) (token p) @
     encode_options 0 (packet_options m p)"

definition payload_bytes :: "memory \<Rightarrow> coap_packet \<Rightarrow> u8 list" where
  "payload_bytes m p = string_at m (payload p) (unat (payload_len p))"

definition tail_bytes :: "memory \<Rightarrow> coap_packet \<Rightarrow> u8 list" where
  "tail_bytes m p = (if payload_len p = 0 then [] else 0xFF # payload_bytes m p)"

text \<open>
  The packet may be written to \<open>buf\<close>: its strings are apart from the header that is written there,
  and its payload also from the byte behind the header, which takes the marker.
\<close>

definition writable :: "memory \<Rightarrow> nat \<Rightarrow> coap_packet \<Rightarrow> bool" where
  "writable m buf p \<longleftrightarrow>
     (let n = length (head_bytes m p) in
      unat (token_len p) \<le> length (token p) \<and> strings_ok m buf (buf + n) p \<and>
      buf + length (head_bytes m p @ tail_bytes m p) \<le> length m \<and>
      (payload_len p \<noteq> 0 \<longrightarrow> (case payload p of None \<Rightarrow> False
        | Some a \<Rightarrow> a + unat (payload_len p) \<le> length m \<and> (a + unat (payload_len p) \<le> buf \<or> buf + n < a))))"

lemma packet_options_header [simp]:
  "packet_options m (p\<lparr>buffer := b, version := v\<rparr>) = packet_options m p"
  "packet_options m (p\<lparr>buffer := b\<rparr>) = packet_options m p"
  "packet_options m (p\<lparr>version := v\<rparr>) = packet_options m p"
  by (simp_all add: packet_options_def options_if_def IS_OPTION_def)

lemma strings_ok_header [simp]: "strings_ok m lo hi (p\<lparr>buffer := b, version := v\<rparr>) = strings_ok m lo hi p"
  by (simp add: strings_ok_def IS_OPTION_def)

lemma length_header_bytes [simp]: "length (header_bytes p) = 4"
  by (simp add: header_bytes_def)

lemma string_at_holds: "a + n \<le> length m \<Longrightarrow> holds m a (string_at m (Some a) n) \<and> length (string_at m (Some a) n) = n"
  by (simp add: string_at_def holds_def)

lemma payload_move:
  assumes "a + n \<le> length m" and "a + n \<le> buf \<or> buf + length xs \<le> a" and "buf + length xs + n \<le> length m"
  shows "memmove (buf + length xs) a n (store m buf xs) = Some (store m buf (xs @ string_at m (Some a) n))"
proof -
  let ?pl = "string_at m (Some a) n"
  have l: "length ?pl = n" and h: "holds m a ?pl"
    using string_at_holds [OF assms(1)] by auto
  have "holds (store m buf xs) a ?pl"
    using h assms l by (intro holds_store_apart) auto
  then have "bytes_at (store m buf xs) a n = Some ?pl"
    using l by (simp add: bytes_at_holds)
  then show ?thesis
    using assms l store_store [of buf xs ?pl m] by (simp add: memmove_def put_bytes_store)
qed

lemma serialize_encodes:
  assumes "code p \<noteq> 0" and "writable m buf p"
  shows "coap_serialize_message p buf m = Some
    (let q = p\<lparr>buffer := Some buf, version := 1\<rparr>; head = head_bytes m p; msg = head @ tail_bytes m p
     in if length head \<le> COAP_MAX_HEADER_SIZE then (length msg, None, q, store m buf msg)
        else (0, Some ''Serialized header exceeds COAP_MAX_HEADER_SIZE'', q\<lparr>buffer := None\<rparr>, store m buf head))"
proof -
  let ?q = "p\<lparr>buffer := Some buf, version := 1\<rparr>"
  let ?h = "header_bytes ?q" and ?t = "take (unat (token_len p)) (token p)" and ?n = "unat (token_len p)"
  let ?e = "encode_options 0 (packet_options m p)"
  note w = assms(2) [unfolded writable_def Let_def]
  have head: "head_bytes m p = (?h @ ?t) @ ?e"
    by (simp add: head_bytes_def header_bytes_def)
  have len: "length ?t = ?n" using w by simp
  have b: "buf + length ((?h @ ?t) @ ?e) \<le> length m" using w unfolding head by auto
  have s: "strings_ok m buf (buf + length ((?h @ ?t) @ ?e)) ?q" using w by (simp only: head strings_ok_header)
  have 1: "put_bytes m buf ?h = Some (store m buf ?h)"
    using b by (simp add: put_bytes_store)
  have 2: "put_bytes (store m buf ?h) (buf + COAP_HEADER_LEN) ?t = Some (store m buf (?h @ ?t))"
    using b len store_store [of buf ?h ?t m] by (simp add: put_bytes_store)
  have 3: "serialize_options ?q (buf + length (?h @ ?t), 0, store m buf (?h @ ?t)) =
      Some (buf + length (head_bytes m p), last_number 0 (packet_options m p), store m buf (head_bytes m p))"
    using serialize_options_emits [OF b s] unfolding emits_def head packet_options_header by blast
  have 3: "serialize_options ?q (buf + COAP_HEADER_LEN + unat (token_len p), 0, store m buf (?h @ ?t)) =
      Some (buf + length (head_bytes m p), last_number 0 (packet_options m p), store m buf (head_bytes m p))"
    using 3 len by (simp add: add.assoc)
  have ser: "coap_serialize_message p buf m =
    (if length (head_bytes m p) \<le> COAP_MAX_HEADER_SIZE then do {
         (opt, m4) \<leftarrow> (if payload_len p \<noteq> 0 then do { m4 \<leftarrow> put_byte (store m buf (head_bytes m p)) (buf + length (head_bytes m p)) 0xFF;
                         Some (buf + length (head_bytes m p) + 1, m4) }
                     else Some (buf + length (head_bytes m p), store m buf (head_bytes m p)));
         m5 \<leftarrow> (if payload_len p = 0 then Some m4
                 else do { a \<leftarrow> payload p; memmove opt a (unat (payload_len p)) m4 });
         Some (opt - buf + unat (payload_len p), None, ?q, m5)
       }
       else Some (0, Some ''Serialized header exceeds COAP_MAX_HEADER_SIZE'', ?q\<lparr>buffer := None\<rparr>, store m buf (head_bytes m p)))"
    using assms(1) w 1 2 3 by (simp add: coap_serialize_message_def Let_def)
  show ?thesis
  proof (cases "payload_len p = 0")
    case True
    then show ?thesis by (simp add: ser tail_bytes_def Let_def)
  next
    case False
    then obtain a where a: "payload p = Some a" "a + unat (payload_len p) \<le> length m"
        "a + unat (payload_len p) \<le> buf \<or> buf + length (head_bytes m p @ [0xFF]) \<le> a"
      using w by (auto split: option.splits)
    have t: "tail_bytes m p = 0xFF # string_at m (Some a) (unat (payload_len p))"
      and tl: "length (string_at m (Some a) (unat (payload_len p))) = unat (payload_len p)"
      using False a string_at_holds [OF a(2)] by (auto simp: tail_bytes_def payload_bytes_def)
    have f: "buf + length (head_bytes m p @ [0xFF]) + unat (payload_len p) \<le> length m"
      using w tl by (simp add: t)
    have "put_byte (store m buf (head_bytes m p)) (buf + length (head_bytes m p)) 0xFF =
        Some (store m buf (head_bytes m p @ [0xFF]))"
      using f store_store [of buf "head_bytes m p" "[0xFF]" m] by (simp add: put_byte_store)
    moreover have "memmove (buf + length (head_bytes m p) + 1) a (unat (payload_len p)) (store m buf (head_bytes m p @ [0xFF])) =
        Some (store m buf (head_bytes m p @ tail_bytes m p))"
      using payload_move [OF a(2,3) f] by (simp add: t)
    ultimately show ?thesis
      using False a(1) tl by (simp add: ser t Let_def)
  qed
qed


end
