(* ===== verification/CoAP_Reading.thy ===== *)
theory CoAP_Reading
  imports CoAP_Encoding
begin

text \<open>
  What \<open>coap_parse_message\<close> makes of an encoded message: the fields of the packet as functions of the
  list of options, and the round trip with \<open>coap_serialize_message\<close>.  The parts of a string are joined
  inside the message, so the invariant of the loop says where each string lies: in front of the first
  option of the current number, or, for that number itself, between there and the current position.
\<close>

section \<open>Option headers\<close>

lemma unat_of_nat_u16: "n < 65536 \<Longrightarrow> unat (of_nat n :: u16) = n"
  by (simp add: unat_of_nat)

lemma read_extension_holds:
  assumes "d < 65536" and "holds m pos (extension d)"
  shows "read_extension (of_nat (nibble d)) pos m = Some (of_nat d, pos + length (extension d))"
proof -
  consider "d < 13" | "13 \<le> d" "d < 269" | "269 \<le> d" by linarith
  then show ?thesis
  proof cases
    case 1
    then have "of_nat d \<noteq> (13 :: u16)" "of_nat d \<noteq> (14 :: u16)"
      by (auto simp: word_unat_eq_iff unat_of_nat_u16)
    with 1 show ?thesis by (simp add: read_extension_def nibble_def extension_def)
  next
    case 2
    then have "ucast (of_nat (d - 13) :: u8) = (of_nat (d - 13) :: u16)"
      by (simp add: word_unat_eq_iff unat_ucast_mod unat_of_nat del: of_nat_diff)
    moreover have "byte_at m pos = Some (of_nat (d - 13))"
      using assms(2) 2 by (simp add: extension_def holds_Cons del: of_nat_diff)
    ultimately show ?thesis
      using 2 by (simp add: read_extension_def nibble_def extension_def)
  next
    case 3
    let ?x = "(d - 269) div 256" and ?y = "(d - 269) mod 256"
    have b: "byte_at m pos = Some (of_nat ?x)" "byte_at m (pos + 1) = Some (of_nat ?y)"
      using assms(2) 3 by (auto simp: extension_def holds_Cons)
    have "?x < 256" using assms(1) by auto
    then have "push_bit 8 (ucast (of_nat ?x :: u8)) = (of_nat (256 * ?x) :: u16)"
      "ucast (of_nat ?y :: u8) = (of_nat ?y :: u16)"
      by (simp_all add: word_unat_eq_iff unat_ucast_mod unat_of_nat push_bit_eq_mult unat_word_ariths
          del: of_nat_diff of_nat_mult)
    then have "14 + 255 + push_bit 8 (ucast (of_nat ?x :: u8)) + ucast (of_nat ?y :: u8) =
        (of_nat (269 + (256 * ?x + ?y)) :: u16)"
      by (simp only: of_nat_add) simp
    also have "269 + (256 * ?x + ?y) = d" using 3 by simp
    finally show ?thesis
      using 3 b by (simp add: read_extension_def nibble_def extension_def del: of_nat_diff)
  qed
qed

lemma header_byte:
  fixes x y :: nat
  assumes "x < 15" and "y < 15"
  defines "b \<equiv> of_nat (16 * x + y) :: u8"
  shows "ucast (drop_bit 4 b) = (of_nat x :: u16)" and "ucast (b AND 0x0F) = (of_nat y :: u16)"
    and "b AND 0xF0 \<noteq> 0xF0"
proof -
  have u: "unat b = 16 * x + y"
    unfolding b_def using assms(1,2) by (simp add: unat_of_nat del: of_nat_add of_nat_mult)
  have d: "unat (drop_bit 4 b) = x"
    using assms(2) u by (simp only: unat_drop_bit_eq) (simp add: drop_bit_eq_div)
  have m: "unat (b AND 0x0F) = y"
    using unat_and_mask [of b 4] assms(2) u by (simp add: mask_eq_exp_minus_1)
  show "ucast (drop_bit 4 b) = (of_nat x :: u16)" "ucast (b AND 0x0F) = (of_nat y :: u16)"
    using d m assms(1,2) by (simp_all add: word_unat_eq_iff unat_ucast_mod unat_of_nat)
  show "b AND 0xF0 \<noteq> 0xF0"
  proof
    assume "b AND 0xF0 = 0xF0"
    then have "drop_bit 4 (b AND 0xF0) = 0x0F" by simp
    then have "drop_bit 4 b AND 0x0F = 0x0F" by (simp add: drop_bit_and)
    moreover have "unat (drop_bit 4 b AND 0x0F) = x"
      using unat_and_mask [of "drop_bit 4 b" 4] d assms(1) by (simp add: mask_eq_exp_minus_1)
    ultimately show False using assms(1) by simp
  qed
qed

lemma parse_turn_option:
  assumes h: "holds m pos (option_header (unat (n - c)) (length v) @ v)"
    and "length v < 65536" and "length (options p) = 8"
  defines "pos2 \<equiv> pos + length (option_header (unat (n - c)) (length v))"
  shows "parse_turn buf dl pos c p m = (case if unat n < 64 then apply_option n pos2 (length v) (SET_OPTION n p) m else None of
      None \<Rightarrow> None
    | Some (Reject s t) \<Rightarrow> Some (Finished s (Some t) (SET_OPTION n p) m)
    | Some (Accept p1 m1) \<Rightarrow> Some (Go_On (pos2 + length v) n p1 m1))"
proof -
  let ?d = "unat (n - c)" and ?l = "length v"
  let ?b = "of_nat (16 * nibble ?d + nibble ?l) :: u8"
  have b: "byte_at m pos = Some ?b" and e: "holds m (pos + 1) (extension ?d)"
    "holds m (pos + 1 + length (extension ?d)) (extension ?l)"
    using h by (auto simp: option_header_def holds_Cons holds_append)
  note x = header_byte [OF nibble_less nibble_less, of ?d ?l]
  have 1: "read_extension (ucast (drop_bit 4 ?b)) (pos + 1) m = Some (n - c, pos + 1 + length (extension ?d))"
    unfolding x(1) using read_extension_holds [OF _ e(1)] unsigned_less [of "n - c", where 'a = nat] by simp
  have 2: "read_extension (ucast (?b AND 0x0F)) (pos + 1 + length (extension ?d)) m =
      Some (of_nat ?l, pos2)"
    unfolding x(2) using read_extension_holds [OF assms(2) e(2)] by (simp add: pos2_def option_header_def)
  have "parse_turn buf dl pos c p m = parse_option pos c p m"
    using b x(3) by (simp add: parse_turn_def)
  also have "\<dots> = (case if unat n < 64 then apply_option n pos2 ?l (SET_OPTION n p) m else None of
      None \<Rightarrow> None
    | Some (Reject s t) \<Rightarrow> Some (Finished s (Some t) (SET_OPTION n p) m)
    | Some (Accept p1 m1) \<Rightarrow> Some (Go_On (pos2 + ?l) n p1 m1))"
    unfolding parse_option_def b bind.bind_lunit 1 2 split
    using assms(2,3) by (auto simp: unat_of_nat_u16 less_mult_imp_div_less div_less_iff_less_mult split: option.splits read_result.splits)
  finally show ?thesis .
qed

section \<open>The fields as functions of the options\<close>

definition option_values :: "u16 \<Rightarrow> coap_option list \<Rightarrow> u8 list list" where
  "option_values n os = map snd (filter (\<lambda>o1. fst o1 = n) os)"

definition last_value :: "u16 \<Rightarrow> coap_option list \<Rightarrow> u8 list" where
  "last_value n os = (if option_values n os = [] then [] else last (option_values n os))"

text \<open>An empty value has the number 0, which is also that of a missing option.\<close>

definition last_int :: "u16 \<Rightarrow> coap_option list \<Rightarrow> u32" where
  "last_int n os = int_of_bytes (last_value n os)"

definition last_block :: "u16 \<Rightarrow> coap_option list \<Rightarrow> u32 \<times> u8 \<times> u16 \<times> u32" where
  "last_block n os = (if option_values n os = [] then (0, 0, 0, 0) else block_fields (last_int n os))"

text \<open>The parser drops empty parts in front of the first that is not empty.\<close>

definition merged :: "u8 \<Rightarrow> u8 list list \<Rightarrow> u8 list" where
  "merged c vs = foldl (\<lambda>t v. if t = [] then v else t @ c # v) [] vs"

lemma option_values_snoc:
  "option_values n (os @ [(k, v)]) = (if k = n then option_values n os @ [v] else option_values n os)"
  by (simp add: option_values_def)

lemma last_value_snoc: "last_value n (os @ [(k, v)]) = (if k = n then v else last_value n os)"
  by (simp add: last_value_def option_values_snoc)

lemma last_int_snoc: "last_int n (os @ [(k, v)]) = (if k = n then int_of_bytes v else last_int n os)"
  by (simp add: last_int_def last_value_snoc)

lemma last_block_snoc:
  "last_block n (os @ [(k, v)]) = (if k = n then block_fields (int_of_bytes v) else last_block n os)"
  by (simp add: last_block_def option_values_snoc last_int_snoc)

lemma merged_snoc: "merged c (vs @ [v]) = (if merged c vs = [] then v else merged c vs @ c # v)"
  by (simp add: merged_def)

lemma values_Nil [simp]:
  "option_values n [] = []" "last_value n [] = []" "last_int n [] = 0" "last_block n [] = (0, 0, 0, 0)" "merged c [] = []"
  by (simp_all add: option_values_def last_value_def last_int_def last_block_def merged_def int_of_bytes_def)

lemmas values_snoc = option_values_snoc last_value_snoc last_int_snoc last_block_snoc

definition tag_ok :: "u8 list \<Rightarrow> u8 \<Rightarrow> u8 list \<Rightarrow> bool" where
  "tag_ok v n arr \<longleftrightarrow> length arr = COAP_ETAG_LEN \<and> n = of_nat (min COAP_ETAG_LEN (length v)) \<and>
     take (min COAP_ETAG_LEN (length v)) arr = take COAP_ETAG_LEN v"

definition bitmap_ok :: "coap_option list \<Rightarrow> coap_packet \<Rightarrow> bool" where
  "bitmap_ok os p \<longleftrightarrow> length (options p) = 8 \<and>
     (\<forall>n. unat n < 64 \<longrightarrow> (IS_OPTION p n \<longleftrightarrow> option_values n os \<noteq> []))"

definition values_ok :: "coap_option list \<Rightarrow> coap_packet \<Rightarrow> bool" where
  "values_ok os p \<longleftrightarrow>
     content_format p = ucast (last_int COAP_OPTION_CONTENT_FORMAT os) \<and>
     max_age p = last_int COAP_OPTION_MAX_AGE os \<and>
     tag_ok (last_value COAP_OPTION_ETAG os) (etag_len p) (etag p) \<and>
     accept p = ucast (last_int COAP_OPTION_ACCEPT os) \<and>
     tag_ok (last_value COAP_OPTION_IF_MATCH os) (if_match_len p) (if_match p) \<and>
     if_none_match p = (if option_values COAP_OPTION_IF_NONE_MATCH os = [] then 0 else 1) \<and>
     uri_port p = ucast (last_int COAP_OPTION_URI_PORT os) \<and>
     observe p = last_int COAP_OPTION_OBSERVE os \<and>
     (block2_num p, block2_more p, block2_size p, block2_offset p) = last_block COAP_OPTION_BLOCK2 os \<and>
     (block1_num p, block1_more p, block1_size p, block1_offset p) = last_block COAP_OPTION_BLOCK1 os \<and>
     size2 p = last_int COAP_OPTION_SIZE2 os \<and>
     size1 p = last_int COAP_OPTION_SIZE1 os"

text \<open>The fields that options do not touch.\<close>

definition same_envelope :: "coap_packet \<Rightarrow> coap_packet \<Rightarrow> bool" where
  "same_envelope p q \<longleftrightarrow> buffer q = buffer p \<and> version q = version p \<and> msg_type q = msg_type p \<and>
     code q = code p \<and> mid q = mid p \<and> token_len q = token_len p \<and> token q = token p \<and>
     payload q = payload p \<and> payload_len q = payload_len p"

text \<open>A string of the packet has the content \<open>t\<close> and lies between \<open>lo\<close> and \<open>hi\<close>.\<close>

definition string_in :: "memory \<Rightarrow> nat option \<Rightarrow> nat \<Rightarrow> u8 list \<Rightarrow> nat \<Rightarrow> nat \<Rightarrow> bool" where
  "string_in m a n t lo hi \<longleftrightarrow> n = length t \<and>
     (case a of None \<Rightarrow> t = [] | Some a \<Rightarrow> holds m a t \<and> lo \<le> a \<and> a + length t \<le> hi)"

definition strings_in :: "coap_option list \<Rightarrow> (u16 \<Rightarrow> nat) \<Rightarrow> (u16 \<Rightarrow> nat) \<Rightarrow> memory \<Rightarrow> coap_packet \<Rightarrow> bool" where
  "strings_in os lo hi m p \<longleftrightarrow>
     string_in m (uri_host p) (uri_host_len p) (last_value COAP_OPTION_URI_HOST os)
       (lo COAP_OPTION_URI_HOST) (hi COAP_OPTION_URI_HOST) \<and>
     string_in m (location_path p) (location_path_len p) (merged SLASH (option_values COAP_OPTION_LOCATION_PATH os))
       (lo COAP_OPTION_LOCATION_PATH) (hi COAP_OPTION_LOCATION_PATH) \<and>
     string_in m (uri_path p) (uri_path_len p) (merged SLASH (option_values COAP_OPTION_URI_PATH os))
       (lo COAP_OPTION_URI_PATH) (hi COAP_OPTION_URI_PATH) \<and>
     string_in m (uri_query p) (uri_query_len p) (merged AMPERSAND (option_values COAP_OPTION_URI_QUERY os))
       (lo COAP_OPTION_URI_QUERY) (hi COAP_OPTION_URI_QUERY) \<and>
     string_in m (location_query p) (location_query_len p) (merged AMPERSAND (option_values COAP_OPTION_LOCATION_QUERY os))
       (lo COAP_OPTION_LOCATION_QUERY) (hi COAP_OPTION_LOCATION_QUERY)"

section \<open>One option\<close>

text \<open>The options that the parser accepts: those it knows but the two for proxies, and the elective ones.\<close>

definition known_numbers :: "u16 list" where
  "known_numbers = [COAP_OPTION_IF_MATCH, COAP_OPTION_URI_HOST, COAP_OPTION_ETAG, COAP_OPTION_IF_NONE_MATCH,
     COAP_OPTION_OBSERVE, COAP_OPTION_URI_PORT, COAP_OPTION_LOCATION_PATH, COAP_OPTION_URI_PATH,
     COAP_OPTION_CONTENT_FORMAT, COAP_OPTION_MAX_AGE, COAP_OPTION_URI_QUERY, COAP_OPTION_ACCEPT,
     COAP_OPTION_LOCATION_QUERY, COAP_OPTION_BLOCK2, COAP_OPTION_BLOCK1, COAP_OPTION_SIZE2, COAP_OPTION_SIZE1]"

definition option_accepted :: "coap_option \<Rightarrow> bool" where
  "option_accepted o1 \<longleftrightarrow> unat (fst o1) < 64 \<and> length (snd o1) < 65536 \<and>
     (fst o1 \<in> set known_numbers \<or> fst o1 AND 1 = 0)"

lemma IS_OPTION_SET:
  assumes "length (options p) = 8" and "unat n < 64" and "unat k < 64"
  shows "IS_OPTION (SET_OPTION n p) k \<longleftrightarrow> IS_OPTION p k \<or> k = n"
proof -
  have b: "bit (x OR 2 ^ i) j \<longleftrightarrow> bit x j \<or> i = j" if "j < 8" for x :: u8 and i j
    using that by (auto simp: bit_or_iff bit_exp_iff)
  have "k = n \<longleftrightarrow> unat k div 8 = unat n div 8 \<and> unat k mod 8 = unat n mod 8"
    by (metis div_mult_mod_eq word_unat_eq_iff)
  then show ?thesis
    using assms by (auto simp: IS_OPTION_def SET_OPTION_def and_exp_eq_0_iff_not_bit b nth_list_update)
qed

lemma length_options_SET [simp]: "length (options (SET_OPTION n p)) = length (options p)"
  by (simp add: SET_OPTION_def)

lemma tag_read: "length arr = 8 \<Longrightarrow> holds m pos v \<Longrightarrow>
  \<exists>n e. read_etag arr pos (length v) m = Some (n, e) \<and> tag_ok v n e"
proof -
  assume l: "length arr = 8" and h: "holds m pos v"
  have "bytes_at m pos (min 8 (length v)) = Some (take 8 v)"
    using holds_take [OF h, of 8] by (simp add: bytes_at_holds min.commute)
  then show ?thesis
    using l by (auto simp: read_etag_def tag_ok_def overwrite_def min_def)
qed

lemma int_read: "holds m pos v \<Longrightarrow> coap_parse_int_option m pos (length v) = Some (int_of_bytes v)"
  by (simp add: coap_parse_int_option_def bytes_at_holds [THEN iffD2])

lemma merge_read:
  assumes n: "n = length t" and s: "t \<noteq> [] \<Longrightarrow> string_in m a n t lo pos" and "lo \<le> pos" and "pos < pos2"
    and h: "holds m pos2 v"
  shows "\<exists>a' n' m'. coap_merge_multi_option a n pos2 (length v) c m = Some (a', n', m') \<and>
    string_in m' a' n' (if t = [] then v else t @ c # v) lo (pos2 + length v) \<and>
    same_outside lo (pos2 + length v) m m'"
proof (cases "t = []")
  case True
  then show ?thesis
    using n h assms(3,4) by (auto simp: string_in_def coap_merge_multi_option_def same_outside_def)
next
  case False
  then obtain x where x: "a = Some x" "holds m x t" "lo \<le> x" "x + length t \<le> pos"
    using s by (auto simp: string_in_def split: option.splits)
  let ?m1 = "store m (x + length t) [c]" and ?m2 = "store m x (t @ c # v)"
  have l: "pos2 + length v \<le> length m" using h by (simp add: holds_def)
  have m: "m = store m x t"
  proof (rule nth_equalityI)
    fix i assume "i < length m"
    then show "m ! i = store m x t ! i"
      using x by (auto simp: nth_stored_bytes holds_nth dest!: spec [of _ "i - x"])
  qed (use x in \<open>simp add: holds_def\<close>)
  have 1: "put_byte m (x + length t) c = Some ?m1"
    using x l assms(4) by (simp add: put_byte_store)
  have "holds ?m1 pos2 v"
    using h x l assms(4) by (intro holds_store_apart) auto
  then have 2: "bytes_at ?m1 pos2 (length v) = Some v"
    by (simp add: bytes_at_holds)
  have "?m1 = store m x (t @ [c])"
    using store_store [of x t "[c]" m] m x l assms(4) by simp
  then have 3: "put_bytes ?m1 (x + (length t + 1)) v = Some ?m2"
    using store_store [of x "t @ [c]" v m] x l assms(4) by (simp add: put_bytes_store)
  have "coap_merge_multi_option a n pos2 (length v) c m = Some (Some x, length t + 1 + length v, ?m2)"
    using False n x(1) 1 2 3 by (simp add: coap_merge_multi_option_def memmove_def)
  moreover have "holds ?m2 x (t @ c # v)"
    using x l assms(4) by (intro holds_store) simp
  moreover have "same_outside lo (pos2 + length v) m ?m2"
    using x l assms(4) by (intro same_outside_store) auto
  ultimately show ?thesis
    using False x assms(4) by (auto simp: string_in_def)
qed

lemma string_in_same:
  "string_in m a n t lo hi \<Longrightarrow> same_outside lo' hi' m m' \<Longrightarrow> hi \<le> lo' \<Longrightarrow> l \<le> lo \<Longrightarrow> hi \<le> h \<Longrightarrow> string_in m' a n t l h"
  by (auto simp: string_in_def holds_same_outside split: option.splits)

definition value_numbers :: "u16 list" where
  "value_numbers = [COAP_OPTION_CONTENT_FORMAT, COAP_OPTION_MAX_AGE, COAP_OPTION_ETAG, COAP_OPTION_ACCEPT,
     COAP_OPTION_IF_MATCH, COAP_OPTION_IF_NONE_MATCH, COAP_OPTION_URI_PORT, COAP_OPTION_OBSERVE,
     COAP_OPTION_BLOCK2, COAP_OPTION_BLOCK1, COAP_OPTION_SIZE2, COAP_OPTION_SIZE1]"

definition string_numbers :: "u16 list" where
  "string_numbers = [COAP_OPTION_URI_HOST, COAP_OPTION_LOCATION_PATH, COAP_OPTION_URI_PATH,
     COAP_OPTION_URI_QUERY, COAP_OPTION_LOCATION_QUERY]"

definition same_strings :: "coap_packet \<Rightarrow> coap_packet \<Rightarrow> bool" where
  "same_strings p q \<longleftrightarrow> uri_host q = uri_host p \<and> uri_host_len q = uri_host_len p \<and>
     location_path q = location_path p \<and> location_path_len q = location_path_len p \<and>
     uri_path q = uri_path p \<and> uri_path_len q = uri_path_len p \<and>
     uri_query q = uri_query p \<and> uri_query_len q = uri_query_len p \<and>
     location_query q = location_query p \<and> location_query_len q = location_query_len p"

lemma apply_ignored:
  assumes "n \<notin> set value_numbers" and "n \<notin> set string_numbers" and "n AND 1 = 0"
  shows "apply_option n pos len p m = Some (Accept p m)"
proof -
  have "n \<noteq> COAP_OPTION_PROXY_URI" "n \<noteq> COAP_OPTION_PROXY_SCHEME" using assms(3) by auto
  with assms show ?thesis by (simp add: apply_option_def value_numbers_def string_numbers_def)
qed

lemma value_step:
  assumes "n \<in> set value_numbers" and v: "values_ok os p" and h: "holds m pos v"
  shows "\<exists>p'. apply_option n pos (length v) p m = Some (Accept p' m) \<and> values_ok (os @ [(n, v)]) p' \<and>
    options p' = options p \<and> same_strings p p' \<and> same_envelope p p'"
proof -
  note i = int_read [OF h] and defs = apply_option_def same_strings_def same_envelope_def
  have w: "length (etag p) = 8" "length (if_match p) = 8" using v by (auto simp: values_ok_def tag_ok_def)
  note t = tag_read [OF w(1) h] tag_read [OF w(2) h]
  note f = v [unfolded values_ok_def]
  show ?thesis
    using assms(1) unfolding value_numbers_def set_simps insert_iff empty_iff
  proof (elim disjE FalseE)
    assume n: "n = COAP_OPTION_ETAG"
    from t(1) obtain l e where "read_etag (etag p) pos (length v) m = Some (l, e)" "tag_ok v l e" by blast
    with f show ?thesis by (simp add: n defs values_ok_def values_snoc)
  next
    assume n: "n = COAP_OPTION_IF_MATCH"
    from t(2) obtain l e where "read_etag (if_match p) pos (length v) m = Some (l, e)" "tag_ok v l e" by blast
    with f show ?thesis by (simp add: n defs values_ok_def values_snoc)
  next
    assume n: "n = COAP_OPTION_BLOCK2"
    obtain a b c d where "block_fields (int_of_bytes v) = (a, b, c, d)" by (metis prod_cases4)
    with f show ?thesis by (simp add: n defs i values_ok_def values_snoc)
  next
    assume n: "n = COAP_OPTION_BLOCK1"
    obtain a b c d where "block_fields (int_of_bytes v) = (a, b, c, d)" by (metis prod_cases4)
    with f show ?thesis by (simp add: n defs i values_ok_def values_snoc)
  qed (use f in \<open>simp add: defs i values_ok_def values_snoc\<close>)+
qed

text \<open>Where strings lie: those of the current number from \<open>q\<close> to the position, the others below \<open>q\<close>.\<close>

definition from_q :: "u16 \<Rightarrow> nat \<Rightarrow> u16 \<Rightarrow> nat" where
  "from_q c q n = (if n = c then q else 0)"

definition up_to :: "u16 \<Rightarrow> nat \<Rightarrow> nat \<Rightarrow> u16 \<Rightarrow> nat" where
  "up_to c q pos n = (if n = c then pos else q)"

definition reading :: "coap_option list \<Rightarrow> u16 \<Rightarrow> nat \<Rightarrow> nat \<Rightarrow> memory \<Rightarrow> coap_packet \<Rightarrow> bool" where
  "reading os c q pos m p \<longleftrightarrow> bitmap_ok os p \<and> values_ok os p \<and> strings_in os (from_q c q) (up_to c q pos) m p"

lemma string_keep:
  assumes "string_in m a l t (from_q c q k) (up_to c q pos k)" and "k \<noteq> n"
    and "same_outside (if n = c then q else pos) pos' m m'" and "q \<le> pos"
  shows "string_in m' a l t (from_q n (if n = c then q else pos) k) (up_to n (if n = c then q else pos) pos' k)"
  using assms by (auto simp: from_q_def up_to_def intro: string_in_same split: if_splits)

lemma string_merge:
  assumes s: "string_in m a l (merged x (option_values n os)) (from_q c q n) (up_to c q pos n)"
    and n: "n = c \<or> option_values n os = []" and "q \<le> pos" "pos < pos2" and h: "holds m pos2 v"
  shows "\<exists>a' l' m'. coap_merge_multi_option a l pos2 (length v) x m = Some (a', l', m') \<and>
    string_in m' a' l' (merged x (option_values n (os @ [(n, v)])))
      (from_q n (if n = c then q else pos) n) (up_to n (if n = c then q else pos) (pos2 + length v) n) \<and>
    same_outside (if n = c then q else pos) (pos2 + length v) m m'"
proof -
  have "l = length (merged x (option_values n os))" using s by (simp add: string_in_def)
  moreover have "string_in m a l (merged x (option_values n os)) (if n = c then q else pos) pos"
    if "merged x (option_values n os) \<noteq> []"
    using s n that by (auto simp: from_q_def up_to_def)
  ultimately show ?thesis
    using merge_read [of l "merged x (option_values n os)" m a "if n = c then q else pos" pos pos2 v x] assms(3-)
    by (simp add: values_snoc merged_snoc from_q_def up_to_def)
qed

lemma values_ok_string:
  "n \<in> set string_numbers \<Longrightarrow> values_ok os p \<Longrightarrow> values_ok (os @ [(n, v)]) p"
  by (auto simp: values_ok_def values_snoc string_numbers_def)

lemma string_step:
  assumes s: "n \<in> set string_numbers" and v: "values_ok os p"
    and t: "strings_in os (from_q c q) (up_to c q pos) m p"
    and n: "n = c \<or> option_values n os = []" and q: "q \<le> pos" "pos < pos2" and h: "holds m pos2 v"
  defines "q' \<equiv> if n = c then q else pos"
  shows "\<exists>p' m'. apply_option n pos2 (length v) p m = Some (Accept p' m') \<and> values_ok (os @ [(n, v)]) p' \<and>
    options p' = options p \<and> strings_in (os @ [(n, v)]) (from_q n q') (up_to n q' (pos2 + length v)) m' p' \<and>
    same_outside q' (pos2 + length v) m m' \<and> same_envelope p p'"
proof -
  note w = values_ok_string [OF s v, of v] and f = t [unfolded strings_in_def]
  note keep = string_keep [where n = n and c = c and q = q and pos = pos and pos' = "pos2 + length v" and m = m,
      folded q'_def, OF _ _ _ q(1)]
  note merge = string_merge [OF _ n q h, folded q'_def]
  have vo: "values_ok os' p \<Longrightarrow> values_ok os' (p\<lparr>uri_host := a1, uri_host_len := l1\<rparr>)"
    "values_ok os' p \<Longrightarrow> values_ok os' (p\<lparr>location_path := a1, location_path_len := l1\<rparr>)"
    "values_ok os' p \<Longrightarrow> values_ok os' (p\<lparr>uri_path := a1, uri_path_len := l1\<rparr>)"
    "values_ok os' p \<Longrightarrow> values_ok os' (p\<lparr>uri_query := a1, uri_query_len := l1\<rparr>)"
    "values_ok os' p \<Longrightarrow> values_ok os' (p\<lparr>location_query := a1, location_query_len := l1\<rparr>)" for os' a1 l1
    by (simp_all add: values_ok_def)
  note defs = apply_option_def strings_in_def values_snoc same_envelope_def
  show ?thesis
    using s unfolding string_numbers_def set_simps insert_iff empty_iff
  proof (elim disjE FalseE)
    assume k: "n = COAP_OPTION_URI_HOST"
    have same: "same_outside q' (pos2 + length v) m m"
      by (simp add: same_outside_def)
    have "string_in m (Some pos2) (length v) v (from_q n q' n) (up_to n q' (pos2 + length v) n)"
      using h q by (simp add: string_in_def from_q_def up_to_def q'_def)
    then show ?thesis
      using f w same by (auto simp: k defs intro!: vo keep [unfolded k])
  next
    assume k: "n = COAP_OPTION_LOCATION_PATH"
    obtain a l m' where "coap_merge_multi_option (location_path p) (location_path_len p) pos2 (length v) SLASH m = Some (a, l, m')"
      "string_in m' a l (merged SLASH (option_values n (os @ [(n, v)]))) (from_q n q' n) (up_to n q' (pos2 + length v) n)"
      "same_outside q' (pos2 + length v) m m'"
      using merge [of "location_path p" "location_path_len p" SLASH] f k by auto
    then show ?thesis
      using f w by (auto simp: k defs intro!: vo keep [unfolded k])
  next
    assume k: "n = COAP_OPTION_URI_PATH"
    obtain a l m' where "coap_merge_multi_option (uri_path p) (uri_path_len p) pos2 (length v) SLASH m = Some (a, l, m')"
      "string_in m' a l (merged SLASH (option_values n (os @ [(n, v)]))) (from_q n q' n) (up_to n q' (pos2 + length v) n)"
      "same_outside q' (pos2 + length v) m m'"
      using merge [of "uri_path p" "uri_path_len p" SLASH] f k by auto
    then show ?thesis
      using f w by (auto simp: k defs intro!: vo keep [unfolded k])
  next
    assume k: "n = COAP_OPTION_URI_QUERY"
    obtain a l m' where "coap_merge_multi_option (uri_query p) (uri_query_len p) pos2 (length v) AMPERSAND m = Some (a, l, m')"
      "string_in m' a l (merged AMPERSAND (option_values n (os @ [(n, v)]))) (from_q n q' n) (up_to n q' (pos2 + length v) n)"
      "same_outside q' (pos2 + length v) m m'"
      using merge [of "uri_query p" "uri_query_len p" AMPERSAND] f k by auto
    then show ?thesis
      using f w by (auto simp: k defs intro!: vo keep [unfolded k])
  next
    assume k: "n = COAP_OPTION_LOCATION_QUERY"
    obtain a l m' where "coap_merge_multi_option (location_query p) (location_query_len p) pos2 (length v) AMPERSAND m = Some (a, l, m')"
      "string_in m' a l (merged AMPERSAND (option_values n (os @ [(n, v)]))) (from_q n q' n) (up_to n q' (pos2 + length v) n)"
      "same_outside q' (pos2 + length v) m m'"
      using merge [of "location_query p" "location_query_len p" AMPERSAND] f k by auto
    then show ?thesis
      using f w by (auto simp: k defs intro!: vo keep [unfolded k])
  qed
qed

lemma bitmap_step:
  assumes "bitmap_ok os p" and "unat n < 64" and "options p' = options (SET_OPTION n p)"
  shows "bitmap_ok (os @ [(n, v)]) p'"
proof -
  have "IS_OPTION p' k = IS_OPTION (SET_OPTION n p) k" for k
    using assms(3) by (simp add: IS_OPTION_def)
  then show ?thesis
    using assms by (auto simp: bitmap_ok_def IS_OPTION_SET values_snoc)
qed

lemma SET_OPTION_fields:
  "values_ok os (SET_OPTION n p) = values_ok os p" "strings_in os lo hi m (SET_OPTION n p) = strings_in os lo hi m p"
  "same_envelope (SET_OPTION n p) q = same_envelope p q"
  by (simp_all add: values_ok_def strings_in_def same_envelope_def SET_OPTION_def)

lemma reading_step:
  assumes r: "reading os c q pos m p" and a: "option_accepted (n, v)"
    and n: "n = c \<or> option_values n os = []" and q: "q \<le> pos" "pos < pos2" and h: "holds m pos2 v"
  defines "q' \<equiv> if n = c then q else pos"
  shows "\<exists>p' m'. apply_option n pos2 (length v) (SET_OPTION n p) m = Some (Accept p' m') \<and>
    reading (os @ [(n, v)]) n q' (pos2 + length v) m' p' \<and>
    same_outside q' (pos2 + length v) m m' \<and> same_envelope p p'"
proof (cases "n \<in> set string_numbers")
  case True
  then show ?thesis
    using string_step [OF True _ _ n q h, where p = "SET_OPTION n p"] r a
    by (auto simp: reading_def SET_OPTION_fields option_accepted_def q'_def intro: bitmap_step)
next
  case False
  have "\<exists>p'. apply_option n pos2 (length v) (SET_OPTION n p) m = Some (Accept p' m) \<and> values_ok (os @ [(n, v)]) p' \<and>
    options p' = options (SET_OPTION n p) \<and> same_strings p p' \<and> same_envelope p p'"
  proof (cases "n \<in> set value_numbers")
    case True
    have "same_strings (SET_OPTION n p) p' = same_strings p p'" for p'
      by (simp add: same_strings_def SET_OPTION_def)
    then show ?thesis
      using value_step [OF True _ h, of os "SET_OPTION n p"] r by (auto simp: reading_def SET_OPTION_fields)
  next
    case F: False
    have "n AND 1 = 0"
      using a F False by (auto simp: option_accepted_def known_numbers_def value_numbers_def string_numbers_def)
    moreover have "values_ok (os @ [(n, v)]) (SET_OPTION n p)"
      unfolding SET_OPTION_fields using r F by (auto simp: reading_def values_ok_def values_snoc value_numbers_def)
    ultimately show ?thesis
      using apply_ignored [OF F False] by (auto simp: same_strings_def same_envelope_def SET_OPTION_def)
  qed
  then obtain p' where p': "apply_option n pos2 (length v) (SET_OPTION n p) m = Some (Accept p' m)"
    "values_ok (os @ [(n, v)]) p'" "options p' = options (SET_OPTION n p)" "same_strings p p'" "same_envelope p p'"
    by blast
  have same: "same_outside q' (pos2 + length v) m m" by (simp add: same_outside_def)
  have s: "strings_in os (from_q c q) (up_to c q pos) m p" using r by (simp add: reading_def)
  have "k \<noteq> n" if "k \<in> set string_numbers" for k using False that by blast
  then have k: "COAP_OPTION_URI_HOST \<noteq> n" "COAP_OPTION_LOCATION_PATH \<noteq> n" "COAP_OPTION_URI_PATH \<noteq> n"
    "COAP_OPTION_URI_QUERY \<noteq> n" "COAP_OPTION_LOCATION_QUERY \<noteq> n"
    by (simp_all add: string_numbers_def)
  note keep = string_keep [where n = n and c = c and q = q and pos = pos and pos' = "pos2 + length v" and m = m and m' = m,
      folded q'_def, OF _ _ same q(1)]
  have "strings_in (os @ [(n, v)]) (from_q n q') (up_to n q' (pos2 + length v)) m p'"
    using s p'(4) k by (auto simp: strings_in_def same_strings_def values_snoc intro!: keep)
  then show ?thesis
    using p' r a same by (auto simp: reading_def option_accepted_def intro: bitmap_step)
qed

section \<open>The loop\<close>

lemma same_envelope_trans: "same_envelope p q \<Longrightarrow> same_envelope q r \<Longrightarrow> same_envelope p r"
  by (simp add: same_envelope_def)

lemma parse_loop_options:
  assumes "reading done c q pos m p" and "list_all option_accepted os" and "sorted (c # map fst os)"
    and "\<forall>o1 \<in> set done. fst o1 \<le> c" and "q \<le> pos" and "holds m pos (encode_options c os)"
    and "pos + length (encode_options c os) \<le> buf + unat dl"
  shows "\<exists>p' m' q'. parse_loop buf dl pos c p m =
      parse_loop buf dl (pos + length (encode_options c os)) (last_number c os) p' m' \<and>
    reading (done @ os) (last_number c os) q' (pos + length (encode_options c os)) m' p' \<and> q' \<le> pos + length (encode_options c os) \<and>
    same_outside q (pos + length (encode_options c os)) m m' \<and> same_envelope p p'"
  using assms
proof (induction os arbitrary: "done" c q pos m p)
  case Nil
  then show ?case
    by (auto simp: same_outside_def same_envelope_def intro!: exI)
next
  case (Cons o1 os)
  obtain n v where o1: "o1 = (n, v)" by fastforce
  let ?h = "option_header (unat (n - c)) (length v)"
  let ?pos2 = "pos + length ?h" and ?q' = "if n = c then q else pos"
  have e: "encode_options c (o1 # os) = (?h @ v) @ encode_options n os" by (simp add: o1)
  have a: "option_accepted (n, v)" using Cons.prems(2) o1 by simp
  have l: "length ?h > 0" by (simp add: option_header_def)
  have h: "holds m pos (?h @ v)" "holds m ?pos2 v" "holds m (?pos2 + length v) (encode_options n os)"
    using Cons.prems(6) unfolding e by (auto simp: holds_append add.assoc)
  have "option_values n done = []" if "n \<noteq> c"
    using Cons.prems(3,4) that o1 by (force simp: option_values_def filter_empty_conv)
  then obtain p1 m1 where s: "apply_option n ?pos2 (length v) (SET_OPTION n p) m = Some (Accept p1 m1)"
    "reading (done @ [(n, v)]) n ?q' (?pos2 + length v) m1 p1" "same_outside ?q' (?pos2 + length v) m m1" "same_envelope p p1"
    using reading_step [OF Cons.prems(1) a _ Cons.prems(5) _ h(2)] l by auto
  have "parse_turn buf dl pos c p m = Some (Go_On (?pos2 + length v) n p1 m1)"
    using parse_turn_option [OF h(1)] a s(1) Cons.prems(1)
    by (simp add: option_accepted_def reading_def bitmap_ok_def)
  moreover have "pos < buf + unat dl" using Cons.prems(7) l unfolding e by (simp del: length_greater_0_conv)
  ultimately have 1: "parse_loop buf dl pos c p m = parse_loop buf dl (?pos2 + length v) n p1 m1"
    by (subst parse_loop.simps) simp
  have k: "holds m1 (?pos2 + length v) (encode_options n os)"
    using h(3) s(3) by (auto intro: holds_same_outside)
  have pos: "pos + length (encode_options c (o1 # os)) = ?pos2 + length v + length (encode_options n os)"
    by (simp add: e)
  have "\<exists>p' m' q'. parse_loop buf dl (?pos2 + length v) n p1 m1 =
      parse_loop buf dl (?pos2 + length v + length (encode_options n os)) (last_number n os) p' m' \<and>
    reading ((done @ [(n, v)]) @ os) (last_number n os) q' (?pos2 + length v + length (encode_options n os)) m' p' \<and>
    q' \<le> ?pos2 + length v + length (encode_options n os) \<and>
    same_outside ?q' (?pos2 + length v + length (encode_options n os)) m1 m' \<and> same_envelope p1 p'"
  proof (rule Cons.IH [OF s(2)])
    show "list_all option_accepted os" using Cons.prems(2) by simp
    show "sorted (n # map fst os)" using Cons.prems(3) o1 by simp
    show "\<forall>o1 \<in> set (done @ [(n, v)]). fst o1 \<le> n" using Cons.prems(3,4) o1 by auto
    show "?q' \<le> ?pos2 + length v" using Cons.prems(5) by auto
    show "?pos2 + length v + length (encode_options n os) \<le> buf + unat dl" using Cons.prems(7) pos by simp
  qed (rule k)
  then obtain p' m' q' where r: "parse_loop buf dl (?pos2 + length v) n p1 m1 =
      parse_loop buf dl (?pos2 + length v + length (encode_options n os)) (last_number n os) p' m'"
    "reading (done @ o1 # os) (last_number n os) q' (?pos2 + length v + length (encode_options n os)) m' p'"
    "q' \<le> ?pos2 + length v + length (encode_options n os)"
    "same_outside ?q' (?pos2 + length v + length (encode_options n os)) m1 m'" "same_envelope p1 p'"
    using o1 by auto
  have "same_outside q (?pos2 + length v + length (encode_options n os)) m m'"
    using s(3) r(4) Cons.prems(5) by (auto simp: same_outside_def split: if_splits)
  then show ?case
    unfolding pos 1 using r same_envelope_trans [OF s(4) r(5)] o1 by auto
qed

text \<open>What comes behind the options: nothing, or the marker and a payload.\<close>

definition finish :: "nat \<Rightarrow> u16 \<Rightarrow> nat \<Rightarrow> coap_packet \<Rightarrow> memory \<Rightarrow> (u8 \<times> string option \<times> coap_packet \<times> memory) option" where
  "finish buf dl pos p m = (if pos < buf + unat dl then
     (case parse_payload buf dl pos p m of Some (Finished s t p1 m1) \<Rightarrow> Some (s, t, p1, m1) | _ \<Rightarrow> None)
     else Some (COAP_NO_ERROR, None, p, m))"

lemma parse_loop_finish:
  assumes "pos < buf + unat dl \<longrightarrow> byte_at m pos = Some 0xFF"
  shows "parse_loop buf dl pos c p m = finish buf dl pos p m"
  using assms by (subst parse_loop.simps)
    (auto simp: finish_def parse_turn_def parse_payload_def bind_eq_Some_conv Let_def split: option.splits turn.splits)

section \<open>Reading a message\<close>

text \<open>A message as the standard has it, and what a packet says of it together with memory.\<close>

definition coap_message :: "u16 \<Rightarrow> u8 \<Rightarrow> u16 \<Rightarrow> u8 list \<Rightarrow> coap_option list \<Rightarrow> u8 list option \<Rightarrow> u8 list" where
  "coap_message t c i tok os pl =
     [0x40 OR push_bit 4 (ucast t) OR of_nat (length tok), c, ucast (drop_bit 8 i), ucast i] @ tok @
     encode_options 0 os @ (case pl of None \<Rightarrow> [] | Some xs \<Rightarrow> 0xFF # xs)"

definition carries :: "memory \<Rightarrow> coap_packet \<Rightarrow> u16 \<Rightarrow> u8 \<Rightarrow> u16 \<Rightarrow> u8 list \<Rightarrow> coap_option list \<Rightarrow> u8 list option \<Rightarrow> bool" where
  "carries m p t c i tok os pl \<longleftrightarrow>
     version p = 1 \<and> msg_type p = t \<and> code p = c \<and> mid p = i \<and>
     token_len p = of_nat (length tok) \<and> length (token p) = 8 \<and> take (length tok) (token p) = tok \<and>
     bitmap_ok os p \<and> values_ok os p \<and>
     string_at m (uri_host p) (uri_host_len p) = last_value COAP_OPTION_URI_HOST os \<and>
     string_at m (location_path p) (location_path_len p) = merged SLASH (option_values COAP_OPTION_LOCATION_PATH os) \<and>
     string_at m (uri_path p) (uri_path_len p) = merged SLASH (option_values COAP_OPTION_URI_PATH os) \<and>
     string_at m (uri_query p) (uri_query_len p) = merged AMPERSAND (option_values COAP_OPTION_URI_QUERY os) \<and>
     string_at m (location_query p) (location_query_len p) =
       merged AMPERSAND (option_values COAP_OPTION_LOCATION_QUERY os) \<and>
     payload_bytes m p = (case pl of None \<Rightarrow> [] | Some xs \<Rightarrow> take REST_MAX_CHUNK_SIZE xs) \<and>
     unat (payload_len p) = length (payload_bytes m p)"

lemma first_byte:
  assumes "unat (t :: u16) < 4" and "n \<le> 8"
  defines "b \<equiv> 0x40 OR push_bit 4 (ucast t) OR of_nat n :: u8"
  shows "drop_bit 6 (0xC0 AND b) = 1" and "ucast (drop_bit 4 (0x30 AND b)) = t" and "unat (0x0F AND b) = n"
proof -
  have "unat t \<in> {0, 1, 2, 3}" using assms(1) by auto
  then have t: "t = 0 \<or> t = 1 \<or> t = 2 \<or> t = 3" by (auto simp: word_unat_eq_iff)
  have n: "n \<in> {0, 1, 2, 3, 4, 5, 6, 7, 8}" using assms(2) by auto
  show "drop_bit 6 (0xC0 AND b) = 1" "ucast (drop_bit 4 (0x30 AND b)) = t" "unat (0x0F AND b) = n"
    using t n unfolding b_def by auto
qed

lemma mid_bytes: "push_bit 8 (ucast (ucast (drop_bit 8 i) :: u8)) OR ucast (ucast i :: u8) = (i :: u16)"
  by (rule bit_word_eqI) (auto simp: bit_simps)

lemma reading_zero:
  "reading [] 0 q pos m (zero_packet\<lparr>buffer := b, version := v, msg_type := t, token_len := n, code := c, mid := i, token := k\<rparr>)"
proof -
  have "unat n div 8 < 8" if "unat (n :: u16) < 64" for n using that by simp
  then show ?thesis
    by (simp add: reading_def bitmap_ok_def values_ok_def strings_in_def string_in_def tag_ok_def
        zero_packet_def IS_OPTION_def)
qed

lemma string_in_at: "string_in m a n t lo hi \<Longrightarrow> string_at m a n = t"
  by (auto simp: string_in_def string_at_def holds_def split: option.splits)

lemma carriesI:
  assumes "reading os c' q pos m p" and "version p = 1" "msg_type p = t" "code p = c" "mid p = i"
    "token_len p = of_nat (length tok)" "length (token p) = 8" "take (length tok) (token p) = tok"
    and "payload_bytes m p = (case pl of None \<Rightarrow> [] | Some xs \<Rightarrow> take REST_MAX_CHUNK_SIZE xs)"
    and "unat (payload_len p) = length (payload_bytes m p)"
  shows "carries m p t c i tok os pl"
  using assms by (auto simp: carries_def reading_def strings_in_def dest!: string_in_at)

lemma reading_frame:
  assumes "reading os c q pos m p" and "same_outside pos hi m m'" and "q \<le> pos"
  shows "reading os c q pos m' (p\<lparr>payload := a, payload_len := n\<rparr>)"
proof -
  have k: "string_in m' b l t (from_q c q n) (up_to c q pos n)" if "string_in m b l t (from_q c q n) (up_to c q pos n)" for b l t n
    using that assms(2,3) by (auto simp: up_to_def intro: string_in_same split: if_splits)
  show ?thesis
    using assms(1) k by (auto simp: reading_def bitmap_ok_def IS_OPTION_def values_ok_def strings_in_def)
qed

text \<open>The parser on a message up to the end of some options, with any bytes behind them.\<close>

lemma parse_message_options:
  assumes "unat t < 4" and "length tok \<le> 8" and "list_all option_accepted os" and "sorted (map fst os)"
    and "holds m buf (coap_message t c i tok os None @ rest)"
    and l: "unat dl = length (coap_message t c i tok os None @ rest)"
  defines "pos \<equiv> buf + length (coap_message t c i tok os None)"
  shows "\<exists>p' m' q. coap_parse_message buf dl m = parse_loop buf dl pos (last_number 0 os) p' m' \<and>
    reading os (last_number 0 os) q pos m' p' \<and> q \<le> pos \<and> same_outside buf pos m m' \<and>
    version p' = 1 \<and> msg_type p' = t \<and> code p' = c \<and> mid p' = i \<and> token_len p' = of_nat (length tok) \<and>
    length (token p') = 8 \<and> take (length tok) (token p') = tok \<and> payload p' = None \<and> payload_len p' = 0"
proof -
  let ?b = "0x40 OR push_bit 4 (ucast t) OR of_nat (length tok) :: u8"
  let ?p = "zero_packet\<lparr>buffer := Some buf, version := 1, msg_type := t, token_len := of_nat (length tok), code := c,
      mid := i, token := overwrite tok (token zero_packet)\<rparr>"
  let ?start = "buf + 4 + length tok"
  note b = first_byte [OF assms(1,2)]
  have len: "length (coap_message t c i tok os None) = 4 + length tok + length (encode_options 0 os)"
    by (simp add: coap_message_def)
  have pos: "pos = ?start + length (encode_options 0 os)" by (simp add: pos_def len)
  have h: "byte_at m buf = Some ?b" "byte_at m (buf + 1) = Some c" "byte_at m (buf + 2) = Some (ucast (drop_bit 8 i))"
    "byte_at m (buf + 3) = Some (ucast i)" "holds m (buf + 4) tok" "holds m ?start (encode_options 0 os)"
    using assms(5) by (auto simp: coap_message_def holds_Cons holds_append add.assoc numeral_eq_Suc)
  have parse: "coap_parse_message buf dl m = parse_loop buf dl ?start 0 ?p m"
    unfolding coap_parse_message_def h(1-4) bind.bind_lunit Let_def b mid_bytes
    using assms(2) h(5) by (simp add: bytes_at_holds [THEN iffD2] zero_packet_def)
  have "\<exists>p1 m1 q1. parse_loop buf dl ?start 0 ?p m =
      parse_loop buf dl (?start + length (encode_options 0 os)) (last_number 0 os) p1 m1 \<and>
    reading ([] @ os) (last_number 0 os) q1 (?start + length (encode_options 0 os)) m1 p1 \<and>
    q1 \<le> ?start + length (encode_options 0 os) \<and>
    same_outside ?start (?start + length (encode_options 0 os)) m m1 \<and> same_envelope ?p p1"
  proof (rule parse_loop_options)
    show "reading [] 0 ?start ?start m ?p" by (rule reading_zero)
    show "sorted (0 # map fst os)" using assms(4) by simp
    show "?start + length (encode_options 0 os) \<le> buf + unat dl"
      using l len by simp
  qed (use assms(3) h(6) in simp_all)
  then obtain p1 m1 q1 where r: "parse_loop buf dl ?start 0 ?p m = parse_loop buf dl pos (last_number 0 os) p1 m1"
    "reading os (last_number 0 os) q1 pos m1 p1" "q1 \<le> pos" "same_outside ?start pos m m1" "same_envelope ?p p1"
    by (auto simp: pos)
  moreover have "same_outside buf pos m m1"
    using r(4) by (auto simp: same_outside_def)
  moreover have "version p1 = 1" "msg_type p1 = t" "code p1 = c" "mid p1 = i" "token_len p1 = of_nat (length tok)"
    "length (token p1) = 8" "take (length tok) (token p1) = tok" "payload p1 = None" "payload_len p1 = 0"
    using r(5) assms(2) by (simp_all add: same_envelope_def zero_packet_def overwrite_def)
  ultimately show ?thesis
    unfolding parse by blast
qed

lemma coap_message_tail:
  "coap_message t c i tok os pl = coap_message t c i tok os None @ (case pl of None \<Rightarrow> [] | Some xs \<Rightarrow> 0xFF # xs)"
  by (simp add: coap_message_def)

lemma parse_reads:
  assumes "unat t < 4" and "length tok \<le> 8" and "list_all option_accepted os" and "sorted (map fst os)"
    and "holds m buf (coap_message t c i tok os pl)" and "length (coap_message t c i tok os pl) < 65536"
    and "pl \<noteq> None \<longrightarrow> buf + length (coap_message t c i tok os pl) < length m"
  shows "\<exists>p' m'. coap_parse_message buf (of_nat (length (coap_message t c i tok os pl))) m =
      Some (COAP_NO_ERROR, None, p', m') \<and> carries m' p' t c i tok os pl"
proof -
  let ?dl = "of_nat (length (coap_message t c i tok os pl)) :: u16" and ?tail = "case pl of None \<Rightarrow> [] | Some xs \<Rightarrow> 0xFF # xs"
  let ?pos = "buf + length (coap_message t c i tok os None)"
  have dl: "unat ?dl = length (coap_message t c i tok os None @ ?tail)"
    using assms(6) unfolding coap_message_tail [of t c i tok os pl] by (simp only: unat_of_nat_u16)
  have h: "holds m buf (coap_message t c i tok os None @ ?tail)"
    using assms(5) unfolding coap_message_tail [of t c i tok os pl] .
  then have ht: "holds m ?pos ?tail" by (simp add: holds_append)
  have u: "buf + unat ?dl = ?pos + length ?tail" using dl by simp
  obtain p1 m1 q1 where r: "coap_parse_message buf ?dl m = parse_loop buf ?dl ?pos (last_number 0 os) p1 m1"
    "reading os (last_number 0 os) q1 ?pos m1 p1" "q1 \<le> ?pos" "same_outside buf ?pos m m1"
    and e: "version p1 = 1" "msg_type p1 = t" "code p1 = c" "mid p1 = i" "token_len p1 = of_nat (length tok)"
      "length (token p1) = 8" "take (length tok) (token p1) = tok" "payload p1 = None" "payload_len p1 = 0"
    using parse_message_options [OF assms(1-4) h dl] by blast
  have ht1: "holds m1 ?pos ?tail" using ht r(4) by (rule holds_same_outside) simp
  have parse: "coap_parse_message buf ?dl m = finish buf ?dl ?pos p1 m1"
    unfolding r(1) using ht1 u by (intro parse_loop_finish) (auto simp: holds_Cons split: option.splits)
  show ?thesis
  proof (cases pl)
    case None
    then have "finish buf ?dl ?pos p1 m1 = Some (COAP_NO_ERROR, None, p1, m1)"
      using u by (simp add: finish_def)
    moreover have "carries m1 p1 t c i tok os pl"
      using carriesI [OF r(2) e(1-7), of pl] None by (simp add: payload_bytes_def string_at_def e)
    ultimately show ?thesis
      using parse by auto
  next
    case (Some xs)
    let ?n = "min 64 (length xs)" and ?m2 = "store m1 (?pos + 1 + min 64 (length xs)) [0]"
    let ?p2 = "p1\<lparr>payload := Some (?pos + 1), payload_len := of_nat ?n\<rparr>"
    have ml: "length m1 = length m" using r(4) by (simp add: same_outside_def)
    have len: "length (coap_message t c i tok os pl) = length (coap_message t c i tok os None) + 1 + length xs"
      using coap_message_tail [of t c i tok os pl] Some by simp
    then have x: "length xs < 65535" "?pos + 1 + length xs < length m"
      using assms(6,7) Some by auto
    have "length (coap_message t c i tok os pl) = (?pos + 1 - buf) + length xs"
      using len by simp
    then have n: "?dl - of_nat (?pos + 1 - buf) = of_nat (length xs)"
      by (simp only: of_nat_add) simp
    have "unat (of_nat (length xs) :: u16) = length xs" "unat (of_nat ?n :: u16) = ?n"
      using x(1) by (simp_all add: unat_of_nat_u16)
    then have "parse_payload buf ?dl ?pos p1 m1 = Some (Finished COAP_NO_ERROR None ?p2 ?m2)"
      unfolding parse_payload_def n Let_def using x ml by (auto simp: put_byte_store min_def)
    then have fin: "finish buf ?dl ?pos p1 m1 = Some (COAP_NO_ERROR, None, ?p2, ?m2)"
      using u Some by (simp add: finish_def)
    have "holds m1 (?pos + 1) xs" using ht1 Some by (simp add: holds_Cons)
    then have "holds ?m2 (?pos + 1) (take ?n xs)"
      using x ml by (intro holds_store_apart holds_take) auto
    then have pl: "payload_bytes ?m2 ?p2 = take REST_MAX_CHUNK_SIZE xs" "unat (payload_len ?p2) = ?n"
      by (simp_all add: payload_bytes_def string_at_def holds_def unat_of_nat_u16) (simp add: min_def)
    have "same_outside ?pos (length m) m1 ?m2"
      using x ml by (intro same_outside_store) auto
    from reading_frame [OF r(2) this r(3)] have "carries ?m2 ?p2 t c i tok os pl"
      by (rule carriesI) (use e pl Some in \<open>simp_all add: min.commute\<close>)
    with fin show ?thesis
      using parse by auto
  qed
qed

text \<open>
  C35. \<open>coap_parse_message\<close> reads every message whose options are in order and known or elective: no error,
  and the packet says of each field what the options say of it.  The parts of a path or a query are
  joined with their separator, the payload is cut at 64 bytes, and the byte behind the payload must
  belong to the memory, since it is overwritten with zero.
\<close>

theorem coap_parse_message_reads:
  assumes "unat t < 4" and "length tok \<le> 8" and "list_all option_accepted os" and "sorted (map fst os)"
    and "holds m buf (coap_message t c i tok os pl)" and "length (coap_message t c i tok os pl) < 65536"
    and "pl \<noteq> None \<longrightarrow> buf + length (coap_message t c i tok os pl) < length m"
  shows "\<exists>p' m'. coap_parse_message buf (of_nat (length (coap_message t c i tok os pl))) m =
      Some (COAP_NO_ERROR, None, p', m') \<and> carries m' p' t c i tok os pl"
  using assms by (rule parse_reads)

text \<open>
  C36. What \<open>coap_parse_message\<close> refuses: behind accepted options, the first option that is critical and
  unknown ends it with 4.02, one for a proxy with 5.05; the number of an option is not compared with the
  size of the bitmap, so a number from 64 on is an access outside it.
\<close>

theorem coap_parse_message_refuses:
  assumes "unat t < 4" and "length tok \<le> 8" and "list_all option_accepted os" and "sorted (map fst os)"
    and "holds m buf (coap_message t c i tok (os @ (n, v) # rest) pl)"
    and "length (coap_message t c i tok (os @ (n, v) # rest) pl) < 65536"
    and "n \<notin> set known_numbers" and "n AND 1 \<noteq> 0 \<or> 64 \<le> unat n"
  shows "\<exists>p' m'. coap_parse_message buf (of_nat (length (coap_message t c i tok (os @ (n, v) # rest) pl))) m =
    (if 64 \<le> unat n then None
     else if n = COAP_OPTION_PROXY_URI \<or> n = COAP_OPTION_PROXY_SCHEME
     then Some (PROXYING_NOT_SUPPORTED_5_05, Some ''This is a constrained server (Contiki)'', p', m')
     else Some (BAD_OPTION_4_02, Some ''Unsupported critical option'', p', m'))"
proof -
  let ?msg = "coap_message t c i tok (os @ (n, v) # rest) pl" and ?c = "last_number 0 os"
  let ?dl = "of_nat (length ?msg) :: u16" and ?pos = "buf + length (coap_message t c i tok os None)"
  let ?h = "option_header (unat (n - ?c)) (length v)"
  let ?r = "encode_options n rest @ (case pl of None \<Rightarrow> [] | Some xs \<Rightarrow> 0xFF # xs)"
  have msg: "?msg = coap_message t c i tok os None @ (?h @ v) @ ?r"
    by (simp add: coap_message_def encode_options_append)
  have h: "holds m buf (coap_message t c i tok os None @ (?h @ v) @ ?r)"
    using assms(5) unfolding msg .
  have dl: "unat ?dl = length (coap_message t c i tok os None @ (?h @ v) @ ?r)"
    using assms(6) unfolding msg by (simp only: unat_of_nat_u16)
  obtain p1 m1 q1 where r: "coap_parse_message buf ?dl m = parse_loop buf ?dl ?pos ?c p1 m1"
    "reading os ?c q1 ?pos m1 p1" "same_outside buf ?pos m m1"
    using parse_message_options [OF assms(1-4) h dl] by blast
  have "holds m ?pos (?h @ v)" using h by (simp add: holds_append)
  then have ho: "holds m1 ?pos (?h @ v)" using r(3) by (rule holds_same_outside) simp
  have l: "length v < 65536" using assms(6) unfolding msg by simp
  have "length ?h > 0" by (simp add: option_header_def)
  then have p: "?pos < buf + unat ?dl" unfolding dl by (simp del: length_greater_0_conv)
  have o8: "length (options p1) = 8" using r(2) by (simp add: reading_def bitmap_ok_def)
  have a: "apply_option n a l q m1 = Some (if n = COAP_OPTION_PROXY_URI \<or> n = COAP_OPTION_PROXY_SCHEME
      then Reject PROXYING_NOT_SUPPORTED_5_05 ''This is a constrained server (Contiki)''
      else Reject BAD_OPTION_4_02 ''Unsupported critical option'')" if "\<not> 64 \<le> unat n" for a l q
    using assms(7,8) that by (auto simp: apply_option_def known_numbers_def)
  show ?thesis
    unfolding r(1) using p by (subst parse_loop.simps) (auto simp: parse_turn_option [OF ho l o8] a)
qed

end
