(* ===== verification/CoAP_Roundtrip.thy ===== *)
theory CoAP_Roundtrip
  imports CoAP_Reading
begin

text \<open>
  The round trip of CoAP messages: a packet that \<open>coap_serialize_message\<close> writes is read again by
  \<open>coap_parse_message\<close> as the same message.
\<close>

section \<open>Values\<close>

lemma int_of_bytes_zeros: "int_of_bytes (dropWhile (\<lambda>b. b = 0) bs) = int_of_bytes bs"
  by (induction bs) (simp_all add: int_of_bytes_def)

lemma int_of_int_bytes: "int_of_bytes (int_bytes x) = x"
proof -
  have "int_of_bytes (int_bytes x) = push_bit 8 (push_bit 8 (push_bit 8 (ucast (ucast (drop_bit 24 x) :: u8))
      OR ucast (ucast (drop_bit 16 x) :: u8)) OR ucast (ucast (drop_bit 8 x) :: u8)) OR ucast (ucast x :: u8)"
    unfolding int_bytes_def int_of_bytes_zeros by (simp add: int_of_bytes_def)
  also have "\<dots> = x" (is "?l = x")
  proof (rule bit_word_eqI)
    fix n :: nat
    consider "n < 8" | "8 \<le> n" "n < 16" | "16 \<le> n" "n < 24" | "24 \<le> n" by linarith
    then show "bit ?l n = bit x n" if "n < LENGTH(32)"
      by cases (use that in \<open>auto simp: bit_simps\<close>)
  qed
  finally show ?thesis .
qed

lemma foldl_parts: "t \<noteq> [] \<Longrightarrow> foldl (\<lambda>t v. if t = [] then v else t @ c # v) t ss = join c (t # ss)"
proof (induction ss arbitrary: t)
  case (Cons s ss)
  have "join c ((t @ c # s) # ss) = join c (t # s # ss)"
    by (cases ss) auto
  with Cons show ?case by simp
qed simp

lemma merged_join: "vs \<noteq> [] \<Longrightarrow> hd vs \<noteq> [] \<Longrightarrow> merged c vs = join c vs"
  using foldl_parts [of "hd vs" c "tl vs"] by (cases vs) (simp_all add: merged_def)

lemma merged_parts: "hd (parts c xs) \<noteq> [] \<or> xs = [] \<Longrightarrow> merged c (parts c xs) = xs"
  using merged_join [OF parts_nonempty, of c xs c] join_parts [of c xs] by (auto simp: merged_def)

lemma push_bit_low:
  fixes x y :: u32
  assumes "take_bit 4 y = y"
  shows "push_bit 4 x AND y = 0"
proof -
  have "push_bit 4 x AND take_bit 4 y = 0"
    by (intro bit_word_eqI) (auto simp: bit_simps)
  with assms show ?thesis by simp
qed

lemma log_2_powers:
  "coap_log_2 1 = 0" "coap_log_2 2 = 1" "coap_log_2 4 = 2" "coap_log_2 8 = 3" "coap_log_2 16 = 4"
  "coap_log_2 32 = 5" "coap_log_2 64 = 6" "coap_log_2 128 = 7"
  by (simp_all add: coap_log_2_def log_2_loop.simps)

definition block_sizes :: "u16 list" where
  "block_sizes = [16, 32, 64, 128, 256, 512, 1024, 2048]"

lemma block_roundtrip:
  assumes n: "num \<le> 0x0FFFFF" and h: "h = 0 \<or> h = 1" and s: "s \<in> set block_sizes"
  shows "block_fields (block_option num h s) = (num, h, s, num * ucast s)"
proof -
  define c :: u32 where "c = (if h \<noteq> 0 then 8 else 0) OR ucast (0xF AND coap_log_2 (s div 16))"
  have "s = 16 \<or> s = 32 \<or> s = 64 \<or> s = 128 \<or> s = 256 \<or> s = 512 \<or> s = 1024 \<or> s = 2048"
    using s by (simp add: block_sizes_def)
  then have c: "(h, s, c) \<in> set [(0, 16, 0), (0, 32, 1), (0, 64, 2), (0, 128, 3), (0, 256, 4), (0, 512, 5), (0, 1024, 6), (0, 2048, 7),
      (1, 16, 8), (1, 32, 9), (1, 64, 10), (1, 128, 11), (1, 256, 12), (1, 512, 13), (1, 1024, 14), (1, 2048, 15)]"
    using h by (elim disjE; simp add: c_def log_2_powers)
  have low: "take_bit 4 c = c" using c by auto
  have b: "block_option num h s = push_bit 4 num OR c"
    by (simp add: block_option_def c_def Let_def or.assoc)
  have z: "push_bit 4 num AND 8 = 0" "push_bit 4 num AND 7 = 0" "push_bit 4 num AND 15 = 0"
    by (rule push_bit_low, simp)+
  have "unat num < 2 ^ 28"
    using n by (simp add: word_le_nat_alt)
  then have "take_bit 28 num = num"
    by (simp only: word_unat_eq_iff unsigned_take_bit_eq take_bit_nat_eq_self)
  moreover have "drop_bit 4 c = 0"
    using low by (metis take_bit_eq_self_iff_drop_bit_eq_0)
  ultimately have 1: "drop_bit 4 (push_bit 4 num OR c) = num"
    by (simp only: drop_bit_or or.right_neutral) (auto simp: bit_eq_iff bit_simps)
  have 2: "(push_bit 4 num OR c) AND 8 = c AND 8" "(push_bit 4 num OR c) AND 7 = c AND 7"
    by (simp_all only: bit.conj_disj_distrib2 z or.left_neutral)
  have 3: "(push_bit 4 num OR c) AND NOT 15 = push_bit 4 num"
  proof -
    have "(push_bit 4 num OR take_bit 4 c) AND NOT (mask 4) = push_bit 4 num"
      by (rule bit_word_eqI) (auto simp: bit_simps)
    then show ?thesis by (simp only: low) (simp add: mask_eq_exp_minus_1)
  qed
  show ?thesis
    unfolding b block_fields_def 1 2 3 using c by (auto simp: push_bit_eq_mult)
qed

section \<open>The message of a packet\<close>

text \<open>
  A packet that can be sent: its type is one of the four, its token fits, it does not ask for a proxy,
  the block options have the values that \<open>coap_set_header_block2\<close> takes with a size that is a power of
  two, and a path or query does not start with its separator.
\<close>

definition block_ok :: "u32 \<Rightarrow> u8 \<Rightarrow> u16 \<Rightarrow> bool" where
  "block_ok num h s \<longleftrightarrow> num \<le> 0x0FFFFF \<and> (h = 0 \<or> h = 1) \<and> s \<in> set block_sizes"

definition first_part_ok :: "u8 \<Rightarrow> u8 list \<Rightarrow> bool" where
  "first_part_ok c xs \<longleftrightarrow> hd (parts c xs) \<noteq> [] \<or> xs = []"

definition sendable :: "memory \<Rightarrow> coap_packet \<Rightarrow> bool" where
  "sendable m p \<longleftrightarrow> unat (msg_type p) < 4 \<and> code p \<noteq> 0 \<and> unat (token_len p) \<le> 8 \<and> length (token p) = 8 \<and>
     \<not> IS_OPTION p COAP_OPTION_PROXY_URI \<and> \<not> IS_OPTION p COAP_OPTION_PROXY_SCHEME \<and>
     unat (payload_len p) \<le> REST_MAX_CHUNK_SIZE \<and>
     (IS_OPTION p COAP_OPTION_ETAG \<longrightarrow> length (etag p) = 8 \<and> unat (etag_len p) \<le> 8) \<and>
     (IS_OPTION p COAP_OPTION_IF_MATCH \<longrightarrow> length (if_match p) = 8 \<and> unat (if_match_len p) \<le> 8) \<and>
     (IS_OPTION p COAP_OPTION_BLOCK2 \<longrightarrow> block_ok (block2_num p) (block2_more p) (block2_size p)) \<and>
     (IS_OPTION p COAP_OPTION_BLOCK1 \<longrightarrow> block_ok (block1_num p) (block1_more p) (block1_size p)) \<and>
     (IS_OPTION p COAP_OPTION_LOCATION_PATH \<longrightarrow> first_part_ok SLASH (string_at m (location_path p) (location_path_len p))) \<and>
     (IS_OPTION p COAP_OPTION_URI_PATH \<longrightarrow> first_part_ok SLASH (string_at m (uri_path p) (uri_path_len p))) \<and>
     (IS_OPTION p COAP_OPTION_URI_QUERY \<longrightarrow> first_part_ok AMPERSAND (string_at m (uri_query p) (uri_query_len p))) \<and>
     (IS_OPTION p COAP_OPTION_LOCATION_QUERY \<longrightarrow>
        first_part_ok AMPERSAND (string_at m (location_query p) (location_query_len p)))"

text \<open>Two packets in their memories say the same.\<close>

definition same_message :: "memory \<Rightarrow> coap_packet \<Rightarrow> memory \<Rightarrow> coap_packet \<Rightarrow> bool" where
  "same_message m p m' p' \<longleftrightarrow>
     msg_type p' = msg_type p \<and> code p' = code p \<and> mid p' = mid p \<and>
     take (unat (token_len p')) (token p') = take (unat (token_len p)) (token p) \<and>
     (\<forall>n \<in> set known_numbers. IS_OPTION p' n = IS_OPTION p n) \<and>
     (IS_OPTION p COAP_OPTION_CONTENT_FORMAT \<longrightarrow> content_format p' = content_format p) \<and>
     (IS_OPTION p COAP_OPTION_MAX_AGE \<longrightarrow> max_age p' = max_age p) \<and>
     (IS_OPTION p COAP_OPTION_ACCEPT \<longrightarrow> accept p' = accept p) \<and>
     (IS_OPTION p COAP_OPTION_OBSERVE \<longrightarrow> observe p' = observe p) \<and>
     (IS_OPTION p COAP_OPTION_URI_PORT \<longrightarrow> uri_port p' = uri_port p) \<and>
     (IS_OPTION p COAP_OPTION_SIZE1 \<longrightarrow> size1 p' = size1 p) \<and>
     (IS_OPTION p COAP_OPTION_SIZE2 \<longrightarrow> size2 p' = size2 p) \<and>
     (IS_OPTION p COAP_OPTION_ETAG \<longrightarrow> take (unat (etag_len p')) (etag p') = take (unat (etag_len p)) (etag p)) \<and>
     (IS_OPTION p COAP_OPTION_IF_MATCH \<longrightarrow>
        take (unat (if_match_len p')) (if_match p') = take (unat (if_match_len p)) (if_match p)) \<and>
     (IS_OPTION p COAP_OPTION_BLOCK2 \<longrightarrow> (block2_num p', block2_more p', block2_size p', block2_offset p') =
        (block2_num p, block2_more p, block2_size p, block2_num p * ucast (block2_size p))) \<and>
     (IS_OPTION p COAP_OPTION_BLOCK1 \<longrightarrow> (block1_num p', block1_more p', block1_size p', block1_offset p') =
        (block1_num p, block1_more p, block1_size p, block1_num p * ucast (block1_size p))) \<and>
     (IS_OPTION p COAP_OPTION_URI_HOST \<longrightarrow>
        string_at m' (uri_host p') (uri_host_len p') = string_at m (uri_host p) (uri_host_len p)) \<and>
     (IS_OPTION p COAP_OPTION_LOCATION_PATH \<longrightarrow>
        string_at m' (location_path p') (location_path_len p') = string_at m (location_path p) (location_path_len p)) \<and>
     (IS_OPTION p COAP_OPTION_URI_PATH \<longrightarrow>
        string_at m' (uri_path p') (uri_path_len p') = string_at m (uri_path p) (uri_path_len p)) \<and>
     (IS_OPTION p COAP_OPTION_URI_QUERY \<longrightarrow>
        string_at m' (uri_query p') (uri_query_len p') = string_at m (uri_query p) (uri_query_len p)) \<and>
     (IS_OPTION p COAP_OPTION_LOCATION_QUERY \<longrightarrow>
        string_at m' (location_query p') (location_query_len p') = string_at m (location_query p) (location_query_len p)) \<and>
     payload_bytes m' p' = payload_bytes m p"

lemma option_values_if:
  "option_values k (options_if p n vs) = (if k = n \<and> IS_OPTION p n then vs else [])"
  by (auto simp: option_values_def options_if_def filter_empty_conv comp_def)

lemma option_values_append: "option_values k (xs @ ys) = option_values k xs @ option_values k ys"
  by (simp add: option_values_def)

lemma packet_option_values:
  "option_values COAP_OPTION_IF_MATCH (packet_options m p) =
     (if IS_OPTION p COAP_OPTION_IF_MATCH then [take (unat (if_match_len p)) (if_match p)] else [])"
  "option_values COAP_OPTION_URI_HOST (packet_options m p) =
     (if IS_OPTION p COAP_OPTION_URI_HOST then [string_at m (uri_host p) (uri_host_len p)] else [])"
  "option_values COAP_OPTION_ETAG (packet_options m p) =
     (if IS_OPTION p COAP_OPTION_ETAG then [take (unat (etag_len p)) (etag p)] else [])"
  "option_values COAP_OPTION_IF_NONE_MATCH (packet_options m p) =
     (if IS_OPTION p COAP_OPTION_IF_NONE_MATCH then [int_bytes 0] else [])"
  "option_values COAP_OPTION_OBSERVE (packet_options m p) =
     (if IS_OPTION p COAP_OPTION_OBSERVE then [int_bytes (observe p)] else [])"
  "option_values COAP_OPTION_URI_PORT (packet_options m p) =
     (if IS_OPTION p COAP_OPTION_URI_PORT then [int_bytes (ucast (uri_port p))] else [])"
  "option_values COAP_OPTION_LOCATION_PATH (packet_options m p) =
     (if IS_OPTION p COAP_OPTION_LOCATION_PATH then parts SLASH (string_at m (location_path p) (location_path_len p)) else [])"
  "option_values COAP_OPTION_URI_PATH (packet_options m p) =
     (if IS_OPTION p COAP_OPTION_URI_PATH then parts SLASH (string_at m (uri_path p) (uri_path_len p)) else [])"
  "option_values COAP_OPTION_CONTENT_FORMAT (packet_options m p) =
     (if IS_OPTION p COAP_OPTION_CONTENT_FORMAT then [int_bytes (ucast (content_format p))] else [])"
  "option_values COAP_OPTION_MAX_AGE (packet_options m p) =
     (if IS_OPTION p COAP_OPTION_MAX_AGE then [int_bytes (max_age p)] else [])"
  "option_values COAP_OPTION_URI_QUERY (packet_options m p) =
     (if IS_OPTION p COAP_OPTION_URI_QUERY then parts AMPERSAND (string_at m (uri_query p) (uri_query_len p)) else [])"
  "option_values COAP_OPTION_ACCEPT (packet_options m p) =
     (if IS_OPTION p COAP_OPTION_ACCEPT then [int_bytes (ucast (accept p))] else [])"
  "option_values COAP_OPTION_LOCATION_QUERY (packet_options m p) =
     (if IS_OPTION p COAP_OPTION_LOCATION_QUERY then parts AMPERSAND (string_at m (location_query p) (location_query_len p)) else [])"
  "option_values COAP_OPTION_BLOCK2 (packet_options m p) =
     (if IS_OPTION p COAP_OPTION_BLOCK2 then [int_bytes (block_option (block2_num p) (block2_more p) (block2_size p))] else [])"
  "option_values COAP_OPTION_BLOCK1 (packet_options m p) =
     (if IS_OPTION p COAP_OPTION_BLOCK1 then [int_bytes (block_option (block1_num p) (block1_more p) (block1_size p))] else [])"
  "option_values COAP_OPTION_SIZE2 (packet_options m p) =
     (if IS_OPTION p COAP_OPTION_SIZE2 then [int_bytes (size2 p)] else [])"
  "option_values COAP_OPTION_SIZE1 (packet_options m p) =
     (if IS_OPTION p COAP_OPTION_SIZE1 then [int_bytes (size1 p)] else [])"
  by (simp_all add: packet_options_def option_values_append option_values_if)

lemmas packet_values = packet_option_values last_value_def last_int_def last_block_def int_of_int_bytes

definition options_from :: "u16 \<Rightarrow> coap_option list \<Rightarrow> bool" where
  "options_from n os \<longleftrightarrow> sorted (map fst os) \<and> (\<forall>o1 \<in> set os. n \<le> fst o1)"

lemma options_from_Nil: "options_from n []"
  by (simp add: options_from_def)

lemma options_from_if:
  "options_from n' os \<Longrightarrow> n \<le> n' \<Longrightarrow> options_from n (options_if p n vs @ os)"
  by (induction vs) (auto simp: options_from_def options_if_def)

lemma packet_options_sorted: "sorted (map fst (packet_options m p))"
proof -
  have "options_from 1 (packet_options m p @ [])"
    unfolding packet_options_def append_assoc
    by ((rule options_from_if)+, rule options_from_Nil, rule order_refl, simp_all)
  then show ?thesis by (simp add: options_from_def)
qed

lemma value_in_encoding: "(n, v) \<in> set os \<Longrightarrow> length v \<le> length (encode_options c os)"
  by (induction os arbitrary: c) (auto intro!: trans_le_add2)

lemma packet_options_accepted:
  assumes "sendable m p" and "length (encode_options 0 (packet_options m p)) < 65536"
  shows "list_all option_accepted (packet_options m p)"
proof -
  have "n \<in> set known_numbers" if "(n, v) \<in> set (packet_options m p)" for n v
    using that assms(1) by (auto simp: packet_options_def options_if_def sendable_def known_numbers_def split: if_splits)
  moreover have "unat n < 64" if "n \<in> set known_numbers" for n
    using that by (auto simp: known_numbers_def)
  ultimately show ?thesis
    using assms(2) value_in_encoding [of _ _ "packet_options m p" 0] by (fastforce simp: list_all_iff option_accepted_def)
qed

section \<open>The round trip\<close>

lemma written_message:
  assumes "sendable m p"
  shows "head_bytes m p @ tail_bytes m p = coap_message (msg_type p) (code p) (mid p)
    (take (unat (token_len p)) (token p)) (packet_options m p)
    (if payload_len p = 0 then None else Some (payload_bytes m p))"
proof -
  have n: "unat (token_len p) \<le> 8" "length (token p) = 8" "unat (msg_type p) < 4"
    using assms by (auto simp: sendable_def)
  define k where "k = unat (token_len p)"
  have k: "token_len p = of_nat k" "k \<in> {0, 1, 2, 3, 4, 5, 6, 7, 8}"
    using n(1) by (auto simp: k_def)
  have "unat (msg_type p) \<in> {0, 1, 2, 3}" using n(3) by auto
  then have t: "msg_type p = 0 \<or> msg_type p = 1 \<or> msg_type p = 2 \<or> msg_type p = 3" by (auto simp: word_unat_eq_iff)
  have "(0xC0 AND push_bit 6 1) OR (0x30 AND ucast (push_bit 4 (msg_type p))) OR (0x0F AND token_len p) =
      0x40 OR push_bit 4 (ucast (msg_type p)) OR (of_nat k :: u8)"
    using t k by auto
  moreover have "length (take (unat (token_len p)) (token p)) = k"
    using n by (simp add: k_def)
  ultimately show ?thesis
    by (simp add: head_bytes_def tail_bytes_def coap_message_def header_bytes_def)
qed

lemma tag_same:
  assumes "tag_ok (take (unat l) xs) l' xs'" and "unat l \<le> 8" and "length xs = 8"
  shows "take (unat l') xs' = take (unat (l :: u8)) xs"
  using assms by (auto simp: tag_ok_def unat_of_nat min_def)

lemma ucast_16_32 [simp]: "ucast (ucast (x :: u16) :: u32) = x"
  by (rule bit_word_eqI) (simp add: bit_simps)

lemma payload_short:
  assumes "sendable m p"
  shows "length (payload_bytes m p) \<le> 64"
proof -
  have "unat (payload_len p) \<le> 64" using assms by (simp add: sendable_def)
  then show ?thesis by (cases "payload p") (simp_all add: payload_bytes_def string_at_def)
qed

lemma carries_same:
  assumes s: "sendable m p" and
    c: "carries m' p' (msg_type p) (code p) (mid p) (take (unat (token_len p)) (token p)) (packet_options m p)
      (if payload_len p = 0 then None else Some (payload_bytes m p))"
  shows "same_message m p m' p'"
proof -
  let ?os = "packet_options m p"
  have f: "msg_type p' = msg_type p" "code p' = code p" "mid p' = mid p" "bitmap_ok ?os p'"
    "token_len p' = of_nat (length (take (unat (token_len p)) (token p)))"
    "take (length (take (unat (token_len p)) (token p))) (token p') = take (unat (token_len p)) (token p)"
    using c by (simp_all only: carries_def)
  have v: "content_format p' = ucast (last_int COAP_OPTION_CONTENT_FORMAT ?os)" "max_age p' = last_int COAP_OPTION_MAX_AGE ?os"
    "tag_ok (last_value COAP_OPTION_ETAG ?os) (etag_len p') (etag p')" "accept p' = ucast (last_int COAP_OPTION_ACCEPT ?os)"
    "tag_ok (last_value COAP_OPTION_IF_MATCH ?os) (if_match_len p') (if_match p')"
    "uri_port p' = ucast (last_int COAP_OPTION_URI_PORT ?os)" "observe p' = last_int COAP_OPTION_OBSERVE ?os"
    "(block2_num p', block2_more p', block2_size p', block2_offset p') = last_block COAP_OPTION_BLOCK2 ?os"
    "(block1_num p', block1_more p', block1_size p', block1_offset p') = last_block COAP_OPTION_BLOCK1 ?os"
    "size2 p' = last_int COAP_OPTION_SIZE2 ?os" "size1 p' = last_int COAP_OPTION_SIZE1 ?os"
    using c by (simp_all only: carries_def values_ok_def)
  have t: "string_at m' (uri_host p') (uri_host_len p') = last_value COAP_OPTION_URI_HOST ?os"
    "string_at m' (location_path p') (location_path_len p') = merged SLASH (option_values COAP_OPTION_LOCATION_PATH ?os)"
    "string_at m' (uri_path p') (uri_path_len p') = merged SLASH (option_values COAP_OPTION_URI_PATH ?os)"
    "string_at m' (uri_query p') (uri_query_len p') = merged AMPERSAND (option_values COAP_OPTION_URI_QUERY ?os)"
    "string_at m' (location_query p') (location_query_len p') =
       merged AMPERSAND (option_values COAP_OPTION_LOCATION_QUERY ?os)"
    using c by (simp_all only: carries_def)
  have pl: "payload_bytes m' p' = (if payload_len p = 0 then [] else take 64 (payload_bytes m p))"
    using c by (simp add: carries_def)
  have tok: "take (unat (token_len p')) (token p') = take (unat (token_len p)) (token p)"
    using f(5,6) s by (simp add: sendable_def unat_of_nat min_def)
  have bits: "unat n < 64 \<Longrightarrow> IS_OPTION p' n = (option_values n ?os \<noteq> [])" for n
    using f(4) by (simp add: bitmap_ok_def)
  have opts: "\<forall>n \<in> set known_numbers. IS_OPTION p' n = IS_OPTION p n"
    by (simp add: known_numbers_def bits packet_option_values)
  have ints: "IS_OPTION p COAP_OPTION_CONTENT_FORMAT \<Longrightarrow> content_format p' = content_format p"
    "IS_OPTION p COAP_OPTION_MAX_AGE \<Longrightarrow> max_age p' = max_age p"
    "IS_OPTION p COAP_OPTION_ACCEPT \<Longrightarrow> accept p' = accept p"
    "IS_OPTION p COAP_OPTION_OBSERVE \<Longrightarrow> observe p' = observe p"
    "IS_OPTION p COAP_OPTION_URI_PORT \<Longrightarrow> uri_port p' = uri_port p"
    "IS_OPTION p COAP_OPTION_SIZE1 \<Longrightarrow> size1 p' = size1 p"
    "IS_OPTION p COAP_OPTION_SIZE2 \<Longrightarrow> size2 p' = size2 p"
    by (simp_all add: v packet_values)
  have tags: "IS_OPTION p COAP_OPTION_ETAG \<Longrightarrow> take (unat (etag_len p')) (etag p') = take (unat (etag_len p)) (etag p)"
    "IS_OPTION p COAP_OPTION_IF_MATCH \<Longrightarrow>
       take (unat (if_match_len p')) (if_match p') = take (unat (if_match_len p)) (if_match p)"
    using v(3,5) s by (simp_all add: packet_values sendable_def tag_same)
  have blocks: "IS_OPTION p COAP_OPTION_BLOCK2 \<Longrightarrow> (block2_num p', block2_more p', block2_size p', block2_offset p') =
        (block2_num p, block2_more p, block2_size p, block2_num p * ucast (block2_size p))"
    "IS_OPTION p COAP_OPTION_BLOCK1 \<Longrightarrow> (block1_num p', block1_more p', block1_size p', block1_offset p') =
        (block1_num p, block1_more p, block1_size p, block1_num p * ucast (block1_size p))"
    unfolding v using s by (simp_all add: packet_values sendable_def block_ok_def block_roundtrip)
  have strs: "IS_OPTION p COAP_OPTION_URI_HOST \<Longrightarrow>
        string_at m' (uri_host p') (uri_host_len p') = string_at m (uri_host p) (uri_host_len p)"
    "IS_OPTION p COAP_OPTION_LOCATION_PATH \<Longrightarrow>
        string_at m' (location_path p') (location_path_len p') = string_at m (location_path p) (location_path_len p)"
    "IS_OPTION p COAP_OPTION_URI_PATH \<Longrightarrow>
        string_at m' (uri_path p') (uri_path_len p') = string_at m (uri_path p) (uri_path_len p)"
    "IS_OPTION p COAP_OPTION_URI_QUERY \<Longrightarrow>
        string_at m' (uri_query p') (uri_query_len p') = string_at m (uri_query p) (uri_query_len p)"
    "IS_OPTION p COAP_OPTION_LOCATION_QUERY \<Longrightarrow>
        string_at m' (location_query p') (location_query_len p') = string_at m (location_query p) (location_query_len p)"
    unfolding t using s by (simp_all add: packet_values sendable_def first_part_ok_def merged_parts)
  note payload_short [OF s]
  moreover have "payload_len p = 0 \<Longrightarrow> payload_bytes m p = []"
    by (simp add: payload_bytes_def string_at_def split: option.splits)
  ultimately have "payload_bytes m' p' = payload_bytes m p"
    by (simp add: pl)
  with f(1-3) tok opts ints tags blocks strs show ?thesis
    unfolding same_message_def by (intro conjI impI)
qed


end
