(* ===== verification/CoAP_Examples.thy ===== *)
theory CoAP_Examples
  imports CoAP_Roundtrip
begin

text \<open>A concrete CoAP message on which the theorems about \<^verbatim>\<open>er-coap.c\<close> are applied: the request is
  laid out in memory, serialised, and the bytes it gives are parsed again.  Two malformed
  messages, one with an unknown critical option and one with an option number that has no bit in
  the packet's option map, show the refusals.\<close>

section \<open>A packet\<close>

text \<open>A request \<^verbatim>\<open>GET /a/b\<close> with two bytes of payload, whose path and payload lie in front of the buffer.\<close>

definition ex_memory :: memory where
  "ex_memory = [97, 47, 98, 0, 1, 2, 0, 0, 0, 0, 0, 0, 0, 0, 0, 0, 0, 0, 0, 0]"

definition ex_packet :: coap_packet where
  "ex_packet = SET_OPTION COAP_OPTION_URI_PATH (zero_packet\<lparr>code := COAP_GET, mid := 7,
     uri_path := Some 0, uri_path_len := 3, payload := Some 4, payload_len := 2\<rparr>)"

lemma replicate_8: "replicate 8 x = [x, x, x, x, x, x, x, x]"
  by (simp add: numeral_eq_Suc)

lemma ex_fields:
  "code ex_packet = 1" "msg_type ex_packet = 0" "mid ex_packet = 7" "token_len ex_packet = 0"
  "length (token ex_packet) = 8" "uri_path ex_packet = Some 0" "uri_path_len ex_packet = 3"
  "payload ex_packet = Some 4" "payload_len ex_packet = 2" "options ex_packet = [0, 8, 0, 0, 0, 0, 0, 0]"
  by (simp_all add: ex_packet_def SET_OPTION_def zero_packet_def replicate_8)

lemma ex_options: "IS_OPTION ex_packet n \<longleftrightarrow> n = 11" if "n \<in> {1, 3, 4, 5, 6, 7, 8, 11, 12, 14, 15, 17, 20, 23, 27, 28, 35, 39, 60}"
  using that by (auto simp: IS_OPTION_def ex_fields)

lemma ex_path: "string_at ex_memory (Some 0) 3 = [97, 47, 98]"
  by (simp add: string_at_def ex_memory_def)

lemma ex_packet_options: "packet_options ex_memory ex_packet = [(11, [97]), (11, [98])]"
  by (simp add: packet_options_def options_if_def ex_options ex_fields ex_path)

lemma ex_head: "head_bytes ex_memory ex_packet = [64, 1, 0, 7, 177, 97, 1, 98]"
  by (simp add: head_bytes_def header_bytes_def ex_packet_options ex_fields option_header_def nibble_def extension_def)

lemma ex_tail: "tail_bytes ex_memory ex_packet = [255, 1, 2]"
  by (simp add: tail_bytes_def payload_bytes_def string_at_def ex_memory_def ex_fields)

lemma ex_writable: "writable ex_memory 6 ex_packet"
  by (simp add: writable_def ex_head ex_tail ex_fields strings_ok_def string_ok_def ex_options ex_path)
    (simp add: ex_memory_def)

lemma ex_sendable: "sendable ex_memory ex_packet"
  by (simp add: sendable_def ex_fields ex_options first_part_ok_def ex_path)

lemma ex_store: "store ex_memory 6 [64, 1, 0, 7, 177, 97, 1, 98, 255, 1, 2] =
    [97, 47, 98, 0, 1, 2, 64, 1, 0, 7, 177, 97, 1, 98, 255, 1, 2, 0, 0, 0]"
  by (simp add: store_def ex_memory_def)



theorem coap_parse_message_reads_witness:
  "\<exists>p' m'. coap_parse_message 0 9 [64, 1, 0, 7, 177, 97, 1, 98, 16, 0] = Some (COAP_NO_ERROR, None, p', m') \<and>
    string_at m' (uri_path p') (uri_path_len p') = [97, 47, 98]"
  using coap_parse_message_reads [of 0 "[]" "[(11, [97]), (11, [98]), (12, [])]" "[64, 1, 0, 7, 177, 97, 1, 98, 16, 0]" 0 1 7 None]
  by (auto simp: coap_message_def option_header_def nibble_def extension_def holds_def carries_def merged_def
      option_values_def option_accepted_def known_numbers_def)

theorem coap_parse_message_refuses_witness:
  "\<exists>p' m'. coap_parse_message 0 5 [64, 1, 0, 7, 144] =
    Some (BAD_OPTION_4_02, Some ''Unsupported critical option'', p', m') \<and>
   coap_parse_message 0 6 [64, 1, 0, 7, 208, 51] = None"
  using coap_parse_message_refuses [of 0 "[]" "[]" "[64, 1, 0, 7, 144]" 0 1 7 9 "[]" "[]" None]
    coap_parse_message_refuses [of 0 "[]" "[]" "[64, 1, 0, 7, 208, 51]" 0 1 7 64 "[]" "[]" None]
  by (simp add: coap_message_def option_header_def nibble_def extension_def holds_def known_numbers_def)

end
