(* ===== verification/Spec2Isabelle.thy ===== *)
theory Spec2Isabelle
  imports Semaphore_System Mutex Mbox Queue OS_Time FCS Router_Routes Timer_Stop Trickle Transport_Examples Path_Example
    Dynamic_Queue Info Lib_Random Device CoAP_Examples
begin

text \<open>
  \<^bold>\<open>The program.\<close>  unet4cooja is a node of a wireless sensor network: the preemptive real-time kernel
  BRTOS (\<^verbatim>\<open>src/brtos\<close>, with the processor's part in \<^verbatim>\<open>src/hal/HAL.c\<close>) and on top of it the protocol
  stack uNET (\<^verbatim>\<open>src/uNET\<close>).  The kernel schedules tasks by priority, counts ticks, and gives
  semaphores, mutexes, mailboxes, queues and software timers.  The stack is a radio interrupt and six
  tasks that hand packets to each other through two shared buffers, \<open>packet_down\<close> for traffic to
  the coordinator of the network and \<open>packet_up\<close> for traffic from it, and through nine semaphores.
  Below the tasks are the MAC layer, the link layer with its table of neighbours, and the router with
  its table of learned routes; above them is the transport layer with the endpoints of applications.

  \<^bold>\<open>Theories and what they model.\<close>  A theory named after a file has one definition for each function
  of it, under the function's name; a function that waits is cut at the wait into its two halves, the
  second one called \<open>_resume\<close> (kernel) or named for the place it goes on from (tasks of the stack).

  \<^item> \<open>Prelude\<close>: word and list lemmas, the collections of hints, a search for the first index.
  \<^item> \<open>Scheduler\<close> (\<^verbatim>\<open>BRTOS.c\<close>: \<open>PriorityMask\<close>, \<open>SAScheduler\<close>): the successive approximation of the highest
    bit, proved to be the maximum of the set of ready priorities.
  \<^item> \<open>Kernel_State\<close>, \<open>Delay_List\<close> (\<^verbatim>\<open>BRTOS.h\<close>, \<^verbatim>\<open>HAL.c\<close>): the control blocks and globals as the records
    \<open>tcb\<close>, \<open>sem_cb\<close>, ... and \<open>os\<close>, the context switch, the doubly linked delay list and its view as
    a sequence of tasks.
  \<^item> \<open>Ticks\<close> (\<open>OS_TICK_HANDLER\<close>, \<open>OSDelayTask\<close>, \<open>TickTimer\<close>): delays are exact, the handler terminates.
  \<^item> \<open>Tasks\<close> (\<open>OSInstallTask\<close>, \<open>BRTOSStart\<close>, blocking): the invariant of the task table, installation and its
    errors, disjoint stacks, the switch runs the highest ready task.
  \<^item> \<open>Event\<close>: what the four kinds of events share, with the locale \<open>wait_list\<close>, interpreted on the
    control blocks; \<open>Semaphore\<close>, \<open>Semaphore_System\<close> (\<^verbatim>\<open>semaphore.c\<close>): the operations, and a transition
    system of tasks, interrupts and ticks around one semaphore; \<open>Mutex\<close>, \<open>Mbox\<close>, \<open>Queue\<close>: the priority
    ceiling, the one-message cell, and the ring of bytes with the locale \<open>fifo\<close>.
  \<^item> \<open>Word_Queue\<close>, \<open>Dynamic_Queue\<close> (\<^verbatim>\<open>queue.c\<close>): queues of 16-bit and 32-bit values as refinements of the
    ring of bytes, the locale \<open>fifo\<close> interpreted on both, and queues in allocated memory with the
    allocator as a parameter; \<open>Device\<close> (\<^verbatim>\<open>device.c\<close>): the registry of devices.
  \<^item> \<open>Print\<close>, \<open>Lib_Random\<close> (\<^verbatim>\<open>lib/stdio.c\<close>, \<^verbatim>\<open>lib/random.c\<close>): formatted output against a description of formats
    as items, and the period of the random numbers; \<open>Info\<close> (\<^verbatim>\<open>OSInfo.c\<close>): the reports of the kernel.
  \<^item> \<open>OS_Time\<close> (\<^verbatim>\<open>OSTime.c\<close>): clock and calendar against the Gregorian rules.
  \<^item> \<open>Timers\<close>, \<open>Timer_Laws\<close>, \<open>Timer_Task\<close>, \<open>Timer_Stop\<close> (\<^verbatim>\<open>stimer.c\<close>): two binary heaps of timers, their
    refinement to a multiset of deadlines (locale \<open>deadline_queue\<close>), the timer task and the operations.
  \<^item> \<open>Packet\<close>, \<open>Node\<close>, \<open>IEEE802154\<close>, \<open>FCS\<close> (\<^verbatim>\<open>packet.c\<close>, \<^verbatim>\<open>node.c\<close>, \<^verbatim>\<open>ieee802154.c\<close>): the frame as 128 bytes
    with side information and a state, node parameters, MAC headers, and the table-driven check
    sequence against the bitwise polynomial division.
  \<^item> \<open>Net_State\<close>: the globals of link and router as the record \<open>net\<close>, and its invariant \<open>net_ok\<close>;
    \<open>Link\<close>, \<open>Link_Laws\<close>, \<open>Link_Safety\<close>, \<open>Link_Adverts\<close> (\<^verbatim>\<open>link.c\<close>): neighbours, symmetry, the choice of the parent
    as a relaxation step, ageing, and the exchange of advertisements.
  \<^item> \<open>Routing_Table\<close>, \<open>Router\<close>, \<open>Router_Laws\<close>, \<open>Router_Routes\<close> (\<^verbatim>\<open>unet_router.c\<close>): the table as a bounded map
    (locale \<open>bounded_map\<close>), routing up and down, the transmission loop, the dispatch of frames.
  \<^item> \<open>Pcg\<close>, \<open>Trickle\<close> (\<^verbatim>\<open>pcg_basic.c\<close>, \<^verbatim>\<open>trickle.c\<close>): random numbers and trickle timers.
  \<^item> \<open>Transport\<close>, \<open>Transport_Laws\<close>, \<open>Transport_Flow\<close>, \<open>Transport_Examples\<close> (\<^verbatim>\<open>transport.c\<close>): endpoints as a
    linked list in a store, listening, sending, delivery.
  \<^item> \<open>Core_Tasks\<close> (\<^verbatim>\<open>unet_core.c\<close>): the interrupt and the tasks, over the record \<open>core\<close>; \<open>Core_System\<close>: the
    transition system of one node, whose events the radio, the applications and the scheduler choose;
    \<open>Core_Frames\<close>, \<open>Core_Safe\<close>: what each turn changes and that it returns; \<open>Core_Invariants\<close>, \<open>Core_Owners\<close>,
    \<open>Core_Progress\<close>: the reachable states, who holds a buffer, and that buffers become free again
    (locale \<open>finishing_task\<close>); \<open>Core_Handshake\<close>: two nodes exchange a packet and its acknowledgement;
    \<open>Core_Path\<close>, \<open>Core_Path_Up\<close>: a packet travels over any number of nodes, down along the parents
    and up along the learned routes, from the sender's frame to the endpoint that listens;
    \<open>Core_Examples\<close>, \<open>Path_Example\<close>: a router that is switched on, and three nodes in a line.
  \<^item> \<open>CoAP_Packet\<close>, \<open>CoAP_Codec\<close> (\<^verbatim>\<open>er-coap.c\<close>, \<^verbatim>\<open>er-coap.h\<close>): the CoAP packet with its getters and setters,
    serialising and parsing, over a flat memory of bytes in which strings, payloads and buffers lie, since
    the parser merges repeated options in place; \<open>CoAP_Encoding\<close>: the serialiser writes the encoding of
    RFC 7252; \<open>CoAP_Reading\<close>: the parser reads every encoded message, and what it refuses;
    \<open>CoAP_Roundtrip\<close>: one after the other; \<open>CoAP_Examples\<close>: a request with a path and a payload.

  \<^bold>\<open>How state corresponds.\<close>  A pointer into a static array is its index and NULL is \<open>None\<close>; arrays are
  lists whose length the invariants fix; integers keep their width.  \<open>None\<close> as the result of an
  operation is a fault of the C code: NULL followed, an index outside an array, a division by zero,
  an endless \<^verbatim>\<open>REQUIRE_FOREVER\<close>.  A critical section is one step.  The semaphores of the stack are the
  history \<open>posted\<close> of posts, the counts \<open>taken\<close> of tokens and the predicate \<open>created\<close>; that a
  semaphore of the kernel behaves so is what \<open>Semaphore_System\<close> proves.  Inputs of the model are the
  frames that the radio receives, the outcome of each attempt to transmit, hardware registers, and the
  order of events.

  \<^bold>\<open>Bounds.\<close>  No definition runs on fuel: loops recurse on a list, on a number that goes down or on a
  measure (the sift of the heap, the search for a timer, the rejection loop of the random draw, which
  may fail to end and then is \<open>None\<close>).  The transmission loop makes at most three attempts, the task that
  routes up three transmissions, the one that routes down thirty that reach nobody.

  \<^bold>\<open>Configuration.\<close>  As in \<^verbatim>\<open>src/config\<close>: 31 priorities, 64-bit ticks, no nested interrupts, no error
  checks and no tracing compiled in, static tasks, eight timers, eight neighbours, a hundred routes, the
  radio checks frames; the queues of words and the dynamic queues are modelled although it leaves them
  out.  An \<open>int\<close> of the formatted output has 16 bits, as on the MSP430.  The device type is an argument; the properties of the
  tasks are about routers, since the task that routes down of a coordinator divides by zero when it
  starts (\<open>Trickle.run_trickle_zero\<close>).  In CoAP messages \<open>unsigned int\<close> has 16 bits, sizes and addresses
  are natural numbers, a chunk has 64 bytes and a header at most 62.

  \<^bold>\<open>Not modelled.\<close>  Drivers of radios and of the microcontroller (register access), the register part of
  the context switch (assembly), dynamic tasks and the statistics of run times (\<open>OSRuntimeStats\<close>), which
  the configuration leaves out, the engine, transactions and containers of the CoAP library, its use
  of sockets, the example applications, and the
  vendored compiler headers in \<^verbatim>\<open>src/msp430lib\<close>.
\<close>

end
